(* ===== verification/Go_Strings.thy ===== *)
theory Go_Strings
  imports Main "HOL-Library.List_Lexorder" "HOL-Library.Char_ord"
begin

text \<open>
  The prelude of the development: the parts of Go's packages \<open>strings\<close> and \<open>bytes\<close> that the
  modelled code calls.  A Go string and a Go byte slice are both sequences of bytes, so both are
  the type \<^typ>\<open>string\<close> here (a list of 8-bit characters); comparison of strings is the
  byte-wise lexicographic order of \<open>List_Lexorder\<close>, as in Go.  The lemmas below are the shared
  facts about splitting, joining, trimming and searching on which the component theories rest;
  those meant for automation are in the collection \<open>go_simps\<close>.
\<close>

named_theorems go_simps

section \<open>Prefixes and suffixes\<close>

definition has_prefix :: "string \<Rightarrow> string \<Rightarrow> bool" where
  "has_prefix s p \<longleftrightarrow> take (length p) s = p"

definition has_suffix :: "string \<Rightarrow> string \<Rightarrow> bool" where
  "has_suffix s p \<longleftrightarrow> length p \<le> length s \<and> drop (length s - length p) s = p"

definition trim_prefix :: "string \<Rightarrow> string \<Rightarrow> string" where
  "trim_prefix s p = (if has_prefix s p then drop (length p) s else s)"

definition trim_suffix :: "string \<Rightarrow> string \<Rightarrow> string" where
  "trim_suffix s p = (if has_suffix s p then take (length s - length p) s else s)"

lemma has_prefix_iff: "has_prefix s p \<longleftrightarrow> (\<exists>r. s = p @ r)"
proof
  assume "has_prefix s p"
  then have "s = p @ drop (length p) s"
    unfolding has_prefix_def by (metis append_take_drop_id)
  then show "\<exists>r. s = p @ r" by blast
next
  assume "\<exists>r. s = p @ r"
  then show "has_prefix s p" by (auto simp: has_prefix_def)
qed

lemma has_suffix_iff: "has_suffix s p \<longleftrightarrow> (\<exists>r. s = r @ p)"
proof
  assume "has_suffix s p"
  then have "s = take (length s - length p) s @ p"
    unfolding has_suffix_def by (metis append_take_drop_id)
  then show "\<exists>r. s = r @ p" by blast
next
  assume "\<exists>r. s = r @ p"
  then show "has_suffix s p" by (auto simp: has_suffix_def)
qed

lemma has_prefix_append [simp]: "has_prefix (p @ r) p"
  by (auto simp: has_prefix_iff)

lemma has_suffix_append [simp]: "has_suffix (r @ p) p"
  by (auto simp: has_suffix_iff)

lemma trim_prefix_append [simp]: "trim_prefix (p @ r) p = r"
  by (simp add: trim_prefix_def)

lemma trim_suffix_append [simp]: "trim_suffix (r @ p) p = r"
  by (simp add: trim_suffix_def)

lemma has_prefix_length: "has_prefix s p \<Longrightarrow> length p \<le> length s"
  by (auto simp: has_prefix_iff)

lemma has_suffix_length: "has_suffix s p \<Longrightarrow> length p \<le> length s"
  by (simp add: has_suffix_def)

lemma has_suffix_trim: "has_suffix s p \<Longrightarrow> trim_suffix s p @ p = s"
  by (auto simp: has_suffix_iff)

lemma has_prefix_trim: "has_prefix s p \<Longrightarrow> p @ trim_prefix s p = s"
  by (auto simp: has_prefix_iff)

section \<open>Split, join, cut and index on one separator byte\<close>

fun split_on :: "char \<Rightarrow> string \<Rightarrow> string list" where
  "split_on c [] = [[]]"
| "split_on c (x # xs) =
     (if x = c then [] # split_on c xs
      else (case split_on c xs of [] \<Rightarrow> [[x]] | y # ys \<Rightarrow> (x # y) # ys))"

fun join_with :: "string \<Rightarrow> string list \<Rightarrow> string" where
  "join_with sep [] = []"
| "join_with sep [x] = x"
| "join_with sep (x # y # ys) = x @ sep @ join_with sep (y # ys)"

definition cut_before :: "char \<Rightarrow> string \<Rightarrow> string" where
  "cut_before c s = takeWhile (\<lambda>x. x \<noteq> c) s"

definition cut_after :: "char \<Rightarrow> string \<Rightarrow> string" where
  "cut_after c s = drop 1 (dropWhile (\<lambda>x. x \<noteq> c) s)"

fun index_byte :: "string \<Rightarrow> char \<Rightarrow> nat option" where
  "index_byte [] c = None"
| "index_byte (x # xs) c = (if x = c then Some 0 else map_option Suc (index_byte xs c))"

lemma split_on_not_Nil [simp]: "split_on c s \<noteq> []"
  by (induction s) (auto split: list.splits)

lemma split_on_no_sep: "c \<notin> set s \<Longrightarrow> split_on c s = [s]"
  by (induction s) auto

lemma split_on_sep_free: "t \<in> set (split_on c s) \<Longrightarrow> c \<notin> set t"
proof (induction s arbitrary: t)
  case (Cons x xs)
  then show ?case by (cases "split_on c xs") (auto split: if_splits)
qed simp

lemma split_on_append_sep: "c \<notin> set s \<Longrightarrow> split_on c (s @ c # r) = s # split_on c r"
  by (induction s) auto

lemma split_on_append2: "split_on c (s @ c # r) = split_on c s @ split_on c r"
proof (induction s)
  case (Cons x xs)
  then show ?case by (cases "split_on c xs") auto
qed simp

lemma join_split [simp]: "join_with [c] (split_on c s) = s"
proof (induction s)
  case (Cons x xs)
  show ?case
  proof (cases "split_on c xs")
    case (Cons y ys)
    then show ?thesis using Cons.IH by (cases ys) auto
  qed simp
qed simp

lemma split_join:
  "xs \<noteq> [] \<Longrightarrow> \<forall>x\<in>set xs. c \<notin> set x \<Longrightarrow> split_on c (join_with [c] xs) = xs"
proof (induction xs rule: induct_list012)
  case (3 x y zs)
  then show ?case by (simp add: split_on_append_sep)
qed (auto simp: split_on_no_sep)

lemma cut_before_no_sep: "c \<notin> set s \<Longrightarrow> cut_before c (s @ c # r) = s"
  unfolding cut_before_def by (induction s) auto

lemma cut_after_no_sep: "c \<notin> set s \<Longrightarrow> cut_after c (s @ c # r) = r"
  unfolding cut_after_def by (induction s) auto

lemma cut_before_id: "c \<notin> set s \<Longrightarrow> cut_before c s = s"
  unfolding cut_before_def by (induction s) auto

lemma cut_after_id: "c \<notin> set s \<Longrightarrow> cut_after c s = []"
  unfolding cut_after_def by (induction s) auto

lemma cut_parts: "c \<in> set s \<Longrightarrow> s = cut_before c s @ c # cut_after c s"
  by (induction s) (auto simp: cut_before_def cut_after_def)

lemma cut_before_sep_free: "c \<notin> set (cut_before c s)"
  by (auto simp: cut_before_def dest: set_takeWhileD)

lemma index_byte_None_iff: "index_byte s c = None \<longleftrightarrow> c \<notin> set s"
  by (induction s) auto

lemma index_byte_append_fresh:
  "c \<notin> set s \<Longrightarrow> index_byte (s @ r) c = map_option ((+) (length s)) (index_byte r c)"
proof (induction s)
  case Nil
  then show ?case by (cases "index_byte r c") auto
next
  case (Cons x xs)
  then show ?case by (cases "index_byte r c") auto
qed

lemma index_byte_Some:
  "index_byte s c = Some i \<Longrightarrow> i < length s \<and> s ! i = c \<and> c \<notin> set (take i s)"
proof (induction s arbitrary: i)
  case (Cons x xs)
  then show ?case by (cases i) (auto split: if_splits)
qed simp

section \<open>TrimSpace\<close>

text \<open>
  The UTF-8 encodings of the characters for which \<open>unicode.IsSpace\<close> holds.  \<open>TrimSpace\<close> decodes a
  character at each end and drops it while it is a space; as no encoding is a prefix or a suffix of
  another character's encoding, that is dropping one of these byte strings while one is there.
\<close>

definition go_spaces :: "string list" where
  "go_spaces =
     [[CHR 0x09], [CHR 0x0A], [CHR 0x0B], [CHR 0x0C], [CHR 0x0D], [CHR 0x20],
      [CHR 0xC2, CHR 0x85], [CHR 0xC2, CHR 0xA0], [CHR 0xE1, CHR 0x9A, CHR 0x80],
      [CHR 0xE2, CHR 0x80, CHR 0x80], [CHR 0xE2, CHR 0x80, CHR 0x81],
      [CHR 0xE2, CHR 0x80, CHR 0x82], [CHR 0xE2, CHR 0x80, CHR 0x83],
      [CHR 0xE2, CHR 0x80, CHR 0x84], [CHR 0xE2, CHR 0x80, CHR 0x85],
      [CHR 0xE2, CHR 0x80, CHR 0x86], [CHR 0xE2, CHR 0x80, CHR 0x87],
      [CHR 0xE2, CHR 0x80, CHR 0x88], [CHR 0xE2, CHR 0x80, CHR 0x89],
      [CHR 0xE2, CHR 0x80, CHR 0x8A], [CHR 0xE2, CHR 0x80, CHR 0xA8],
      [CHR 0xE2, CHR 0x80, CHR 0xA9], [CHR 0xE2, CHR 0x80, CHR 0xAF],
      [CHR 0xE2, CHR 0x81, CHR 0x9F], [CHR 0xE3, CHR 0x80, CHR 0x80]]"

lemma go_spaces_nonempty: "sp \<in> set go_spaces \<Longrightarrow> sp \<noteq> []"
  by (auto simp: go_spaces_def)

lemma find_go_spaces_nonempty: "find P go_spaces = Some sp \<Longrightarrow> sp \<noteq> []"
  by (metis find_Some_iff go_spaces_nonempty nth_mem)

function trim_left :: "string \<Rightarrow> string" where
  "trim_left s =
     (case find (has_prefix s) go_spaces of
        None \<Rightarrow> s
      | Some sp \<Rightarrow> trim_left (drop (length sp) s))"
  by pat_completeness auto
termination
proof (relation "measure length", goal_cases)
  case (2 s sp)
  from 2 have "sp \<noteq> []" by (rule find_go_spaces_nonempty)
  moreover from 2 have "has_prefix s sp" by (auto simp: find_Some_iff)
  ultimately show ?case by (auto simp: has_prefix_iff)
qed simp

function trim_right :: "string \<Rightarrow> string" where
  "trim_right s =
     (case find (has_suffix s) go_spaces of
        None \<Rightarrow> s
      | Some sp \<Rightarrow> trim_right (take (length s - length sp) s))"
  by pat_completeness auto
termination
proof (relation "measure length", goal_cases)
  case (2 s sp)
  from 2 have "sp \<noteq> []" by (rule find_go_spaces_nonempty)
  moreover from 2 have "has_suffix s sp" by (auto simp: find_Some_iff)
  ultimately show ?case by (auto simp: has_suffix_iff)
qed simp

declare trim_left.simps [simp del] trim_right.simps [simp del]

definition trim_space :: "string \<Rightarrow> string" where
  "trim_space s = trim_right (trim_left s)"

text \<open>A trimmed string: no space at either end.  Trimming yields one and keeps one.\<close>

definition trimmed :: "string \<Rightarrow> bool" where
  "trimmed s \<longleftrightarrow> find (has_prefix s) go_spaces = None \<and> find (has_suffix s) go_spaces = None"

lemma trim_left_no_prefix: "find (has_prefix (trim_left s)) go_spaces = None"
proof (induction s rule: trim_left.induct)
  case (1 s)
  show ?case
  proof (cases "find (has_prefix s) go_spaces")
    case None
    then show ?thesis by (simp add: trim_left.simps [of s])
  next
    case (Some sp)
    then show ?thesis using 1 by (simp add: trim_left.simps [of s])
  qed
qed

lemma trim_right_take: "\<exists>r. s = trim_right s @ r"
proof (induction s rule: trim_right.induct)
  case (1 s)
  show ?case
  proof (cases "find (has_suffix s) go_spaces")
    case None
    then show ?thesis by (simp add: trim_right.simps [of s])
  next
    case (Some sp)
    with 1 obtain r where "take (length s - length sp) s = trim_right s @ r"
      by (auto simp: trim_right.simps [of s])
    then have "s = trim_right s @ r @ drop (length s - length sp) s"
      by (metis append_take_drop_id append.assoc)
    then show ?thesis by blast
  qed
qed

lemma trim_right_no_suffix: "find (has_suffix (trim_right s)) go_spaces = None"
proof (induction s rule: trim_right.induct)
  case (1 s)
  then show ?case
    by (cases "find (has_suffix s) go_spaces") (simp_all add: trim_right.simps [of s])
qed

lemma no_prefix_mono:
  assumes "find (has_prefix (t @ r)) go_spaces = None"
  shows "find (has_prefix t) go_spaces = None"
  using assms by (auto simp: find_None_iff has_prefix_iff)

lemma trimmed_trim_space [simp, intro]: "trimmed (trim_space s)"
proof -
  obtain r where "trim_left s = trim_right (trim_left s) @ r"
    using trim_right_take by blast
  then have "find (has_prefix (trim_right (trim_left s))) go_spaces = None"
    using trim_left_no_prefix [of s] no_prefix_mono by metis
  then show ?thesis
    by (simp add: trimmed_def trim_space_def trim_right_no_suffix)
qed

lemma trim_space_trimmed: "trimmed s \<Longrightarrow> trim_space s = s"
  by (simp add: trimmed_def trim_space_def trim_left.simps [of s] trim_right.simps [of s])

lemma trim_space_idem [simp]: "trim_space (trim_space s) = trim_space s"
  by (rule trim_space_trimmed) simp

lemma trimmed_Nil [simp]: "trimmed []"
  by (auto simp: trimmed_def find_None_iff has_prefix_iff has_suffix_iff dest: go_spaces_nonempty)

lemma trim_space_Nil [simp]: "trim_space [] = []"
  by (rule trim_space_trimmed) simp

text \<open>Trimming only removes bytes, and only those of space encodings.\<close>

lemma set_trim_left: "set (trim_left s) \<subseteq> set s"
proof (induction s rule: trim_left.induct)
  case (1 s)
  show ?case
  proof (cases "find (has_prefix s) go_spaces")
    case None
    then show ?thesis by (simp add: trim_left.simps [of s])
  next
    case (Some sp)
    with 1 have "set (trim_left s) \<subseteq> set (drop (length sp) s)"
      by (simp add: trim_left.simps [of s])
    then show ?thesis by (meson in_set_dropD subset_code(1))
  qed
qed

lemma set_trim_space: "set (trim_space s) \<subseteq> set s"
proof -
  obtain r where "trim_left s = trim_space s @ r"
    unfolding trim_space_def using trim_right_take by blast
  then have "set (trim_space s) \<subseteq> set (trim_left s)" by (metis Un_upper1 set_append)
  then show ?thesis using set_trim_left by blast
qed

lemma trim_left_keeps:
  assumes "c \<in> set s" "\<forall>sp\<in>set go_spaces. c \<notin> set sp"
  shows "c \<in> set (trim_left s)"
  using assms
proof (induction s rule: trim_left.induct)
  case (1 s)
  show ?case
  proof (cases "find (has_prefix s) go_spaces")
    case None
    then show ?thesis using 1 by (simp add: trim_left.simps [of s])
  next
    case (Some sp)
    then have sp: "sp \<in> set go_spaces" "has_prefix s sp"
      by (auto simp: find_Some_iff)
    then obtain r where "s = sp @ r" by (auto simp: has_prefix_iff)
    with sp 1 Some have "c \<in> set (drop (length sp) s)" by auto
    then show ?thesis using 1 Some by (simp add: trim_left.simps [of s])
  qed
qed

lemma trim_right_keeps:
  assumes "c \<in> set s" "\<forall>sp\<in>set go_spaces. c \<notin> set sp"
  shows "c \<in> set (trim_right s)"
  using assms
proof (induction s rule: trim_right.induct)
  case (1 s)
  show ?case
  proof (cases "find (has_suffix s) go_spaces")
    case None
    then show ?thesis using 1 by (simp add: trim_right.simps [of s])
  next
    case (Some sp)
    then have sp: "sp \<in> set go_spaces" "has_suffix s sp"
      by (auto simp: find_Some_iff)
    then obtain r where "s = r @ sp" by (auto simp: has_suffix_iff)
    with sp 1 Some have "c \<in> set (take (length s - length sp) s)" by auto
    then show ?thesis using 1 Some by (simp add: trim_right.simps [of s])
  qed
qed

lemma trim_space_keeps:
  "c \<in> set s \<Longrightarrow> \<forall>sp\<in>set go_spaces. c \<notin> set sp \<Longrightarrow> c \<in> set (trim_space s)"
  unfolding trim_space_def by (blast intro: trim_left_keeps trim_right_keeps)

lemma trimmed_no_space_prefix: "trimmed s \<Longrightarrow> sp \<in> set go_spaces \<Longrightarrow> \<not> has_prefix s sp"
  by (auto simp: trimmed_def find_None_iff)

lemma trimmed_no_space_suffix: "trimmed s \<Longrightarrow> sp \<in> set go_spaces \<Longrightarrow> \<not> has_suffix s sp"
  by (auto simp: trimmed_def find_None_iff)

lemma trimmedI:
  "(\<And>sp. sp \<in> set go_spaces \<Longrightarrow> \<not> has_prefix s sp) \<Longrightarrow>
   (\<And>sp. sp \<in> set go_spaces \<Longrightarrow> \<not> has_suffix s sp) \<Longrightarrow> trimmed s"
  by (auto simp: trimmed_def find_None_iff)

text \<open>No encoding of a space is a prefix or suffix of another: an appended space is trimmed away.\<close>

lemma go_spaces_prefix_free:
  "\<forall>a\<in>set go_spaces. \<forall>b\<in>set go_spaces. has_prefix a b \<longrightarrow> a = b"
  by code_simp

lemma go_spaces_suffix_free:
  "\<forall>a\<in>set go_spaces. \<forall>b\<in>set go_spaces. has_suffix a b \<longrightarrow> a = b"
  by code_simp

lemma go_spaces_lead:
  "\<forall>a\<in>set go_spaces. \<forall>b\<in>set go_spaces. hd b \<notin> set (tl a)"
  by code_simp

lemma append_prefix_cases: "p @ r = q @ t \<Longrightarrow> (\<exists>u. p = q @ u) \<or> (\<exists>u. q = p @ u)"
  by (metis append_eq_append_conv2)

lemma find_prefix_space:
  assumes "sp \<in> set go_spaces"
  shows "find (has_prefix (sp @ x)) go_spaces = Some sp"
proof -
  have uniq: "q = sp" if "q \<in> set go_spaces" "has_prefix (sp @ x) q" for q
  proof -
    from that obtain r where "sp @ x = q @ r" by (auto simp: has_prefix_iff)
    from append_prefix_cases [OF this] have "has_prefix sp q \<or> has_prefix q sp"
      unfolding has_prefix_iff .
    with that assms go_spaces_prefix_free show ?thesis by auto
  qed
  then obtain q where "find (has_prefix (sp @ x)) go_spaces = Some q"
    using assms by (cases "find (has_prefix (sp @ x)) go_spaces") (auto simp: find_None_iff)
  moreover from this have "q \<in> set go_spaces" "has_prefix (sp @ x) q"
    by (auto simp: find_Some_iff)
  ultimately show ?thesis using uniq by simp
qed

lemma find_suffix_space:
  assumes "sp \<in> set go_spaces"
  shows "find (has_suffix (x @ sp)) go_spaces = Some sp"
proof -
  have uniq: "q = sp" if "q \<in> set go_spaces" "has_suffix (x @ sp) q" for q
  proof -
    from that obtain r where "x @ sp = r @ q" by (auto simp: has_suffix_iff)
    then have "has_suffix sp q \<or> has_suffix q sp"
      by (auto simp: has_suffix_iff append_eq_append_conv2)
    with that assms go_spaces_suffix_free show ?thesis by auto
  qed
  then obtain q where "find (has_suffix (x @ sp)) go_spaces = Some q"
    using assms by (cases "find (has_suffix (x @ sp)) go_spaces") (auto simp: find_None_iff)
  moreover from this have "q \<in> set go_spaces" "has_suffix (x @ sp) q"
    by (auto simp: find_Some_iff)
  ultimately show ?thesis using uniq by simp
qed

lemma trim_left_space: "sp \<in> set go_spaces \<Longrightarrow> trim_left (sp @ x) = trim_left x"
  by (simp add: trim_left.simps [of "sp @ x"] find_prefix_space)

lemma trim_right_space: "sp \<in> set go_spaces \<Longrightarrow> trim_right (x @ sp) = trim_right x"
  by (simp add: trim_right.simps [of "x @ sp"] find_suffix_space)

lemma trim_space_left [simp]: "sp \<in> set go_spaces \<Longrightarrow> trim_space (sp @ x) = trim_space x"
  by (simp add: trim_space_def trim_left_space)

lemma no_prefix_append_space:
  assumes "find (has_prefix y) go_spaces = None" "y \<noteq> []" "sp \<in> set go_spaces"
  shows "find (has_prefix (y @ sp)) go_spaces = None"
proof -
  have False if q: "q \<in> set go_spaces" "has_prefix (y @ sp) q" for q
  proof -
    from q obtain r where eq: "y @ sp = q @ r" by (auto simp: has_prefix_iff)
    have "\<not> has_prefix y q" using assms(1) q by (auto simp: find_None_iff)
    with eq obtain u where u: "q = y @ u" "u @ r = sp" "u \<noteq> []"
      by (auto simp: append_eq_append_conv2 has_prefix_iff)
    with assms(2) have "hd sp \<in> set (tl q)"
      by (cases y; cases u) auto
    with go_spaces_lead q assms(3) show False by blast
  qed
  then show ?thesis by (auto simp: find_None_iff)
qed

lemma trim_space_right [simp]:
  assumes "sp \<in> set go_spaces"
  shows "trim_space (y @ sp) = trim_space y"
  using assms
proof (induction y rule: trim_left.induct)
  case (1 y)
  show ?case
  proof (cases "find (has_prefix y) go_spaces")
    case None
    show ?thesis
    proof (cases "y = []")
      case True
      then show ?thesis using 1 trim_space_left [of sp "[]"] by simp
    next
      case False
      then have "trim_left (y @ sp) = y @ sp" "trim_left y = y"
        using no_prefix_append_space [OF None False] 1(2) None
        by (simp_all add: trim_left.simps [of "y @ sp"] trim_left.simps [of y])
      then show ?thesis using 1(2) by (simp add: trim_space_def trim_right_space)
    qed
  next
    case (Some q)
    then have q: "q \<in> set go_spaces" "has_prefix y q" by (auto simp: find_Some_iff)
    then obtain y' where y: "y = q @ y'" by (auto simp: has_prefix_iff)
    with 1 Some have "trim_space (y' @ sp) = trim_space y'" by simp
    with y q show ?thesis by simp
  qed
qed

lemma split_on_prefix_free:
  "c \<notin> set p \<Longrightarrow> split_on c (p @ s) = (p @ hd (split_on c s)) # tl (split_on c s)"
  by (induction p) auto

lemma split_on_suffix_free:
  "c \<notin> set q \<Longrightarrow> split_on c (s @ q) = butlast (split_on c s) @ [last (split_on c s) @ q]"
proof (induction s)
  case Nil
  then show ?case by (simp add: split_on_no_sep)
next
  case (Cons x xs)
  then show ?case by (cases "split_on c xs") (auto split: list.splits)
qed

text \<open>Printable ASCII at both ends is enough to be trimmed.\<close>

definition graphic :: "char \<Rightarrow> bool" where
  "graphic c \<longleftrightarrow> 33 \<le> (of_char c :: nat) \<and> (of_char c :: nat) \<le> 126"

lemma go_spaces_not_graphic_hd: "sp \<in> set go_spaces \<Longrightarrow> \<not> graphic (hd sp)"
  by (auto simp: go_spaces_def graphic_def)

lemma go_spaces_not_graphic_last: "sp \<in> set go_spaces \<Longrightarrow> \<not> graphic (last sp)"
  by (auto simp: go_spaces_def graphic_def)

lemma trimmed_graphic:
  assumes "s \<noteq> []" "graphic (hd s)" "graphic (last s)"
  shows "trimmed s"
proof -
  have "\<not> has_prefix s sp" if "sp \<in> set go_spaces" for sp
    using that assms go_spaces_not_graphic_hd [OF that] go_spaces_nonempty [OF that]
    by (auto simp: has_prefix_iff hd_append)
  moreover have "\<not> has_suffix s sp" if "sp \<in> set go_spaces" for sp
    using that assms go_spaces_not_graphic_last [OF that] go_spaces_nonempty [OF that]
    by (auto simp: has_suffix_iff)
  ultimately show ?thesis by (auto simp: trimmed_def find_None_iff)
qed

section \<open>Substring search\<close>

text \<open>\<open>bytes.Index\<close> and \<open>bytes.Count\<close>; the count is of non-overlapping occurrences, from the left.\<close>

fun index_sub :: "string \<Rightarrow> string \<Rightarrow> nat option" where
  "index_sub [] p = (if p = [] then Some 0 else None)"
| "index_sub (x # xs) p =
     (if has_prefix (x # xs) p then Some 0 else map_option Suc (index_sub xs p))"

function count_sub :: "string \<Rightarrow> string \<Rightarrow> nat" where
  "count_sub s p =
     (if p = [] then length s + 1
      else case s of
        [] \<Rightarrow> 0
      | x # xs \<Rightarrow> (if has_prefix s p then Suc (count_sub (drop (length p) s) p)
                   else count_sub xs p))"
  by pat_completeness auto
termination
  by (relation "measure (\<lambda>(s, p). length s)") (auto simp: has_prefix_iff)

declare count_sub.simps [simp del]

lemma index_sub_Some:
  "index_sub s p = Some i \<Longrightarrow> i + length p \<le> length s \<and> take (length p) (drop i s) = p"
proof (induction s arbitrary: i)
  case (Cons x xs)
  show ?case
  proof (cases "has_prefix (x # xs) p")
    case True
    with Cons.prems have "i = 0" by simp
    with True has_prefix_length [OF True] show ?thesis by (simp add: has_prefix_def)
  next
    case False
    with Cons.prems obtain j where "i = Suc j" "index_sub xs p = Some j" by auto
    with Cons.IH [of j] show ?thesis by simp
  qed
qed (auto split: if_splits)

lemma index_sub_first:
  "index_sub s p = Some i \<Longrightarrow> j < i \<Longrightarrow> \<not> has_prefix (drop j s) p"
proof (induction s arbitrary: i j)
  case (Cons x xs)
  then show ?case by (cases j) (auto split: if_splits)
qed (auto split: if_splits)

lemma index_sub_None: "index_sub s p = None \<Longrightarrow> \<not> has_prefix (drop j s) p"
proof (induction s arbitrary: j)
  case (Cons x xs)
  then show ?case by (cases j) (auto split: if_splits)
qed (auto split: if_splits simp: has_prefix_def)

lemma count_sub_index:
  "p \<noteq> [] \<Longrightarrow> count_sub s p =
     (case index_sub s p of None \<Rightarrow> 0 | Some i \<Rightarrow> Suc (count_sub (drop (i + length p) s) p))"
proof (induction s)
  case Nil
  then show ?case by (simp add: count_sub.simps)
next
  case (Cons x xs)
  show ?case
  proof (cases "has_prefix (x # xs) p")
    case True
    then show ?thesis using Cons.prems by (subst count_sub.simps) simp
  next
    case False
    then have "count_sub (x # xs) p = count_sub xs p"
      using Cons.prems by (subst count_sub.simps) simp
    then show ?thesis using Cons False by (simp split: option.splits)
  qed
qed

lemma index_sub_decompose:
  assumes "index_sub s p = Some i"
  shows "s = take i s @ p @ drop (i + length p) s"
proof -
  have "take (length p) (drop i s) = p" using assms index_sub_Some by blast
  then have "drop i s = p @ drop (i + length p) s"
    by (metis append_take_drop_id drop_drop add.commute)
  then show ?thesis by (metis append_take_drop_id)
qed

text \<open>The newline byte.\<close>

definition newline :: char where
  "newline = CHR 0x0A"

end
