(* ===== verification/Names.thy ===== *)
theory Names
  imports Go_Strings
begin

text \<open>
  The validation of namespace and project names (\<open>internal/utils/validation.go\<close>).  Go ranges over
  the runes of the name; every byte of a multi-byte rune is at least 0x80, so the test byte by byte
  accepts the same names.
\<close>

definition name_char :: "char \<Rightarrow> bool" where
  "name_char r \<longleftrightarrow>
     (CHR ''a'' \<le> r \<and> r \<le> CHR ''z'') \<or> (CHR ''A'' \<le> r \<and> r \<le> CHR ''Z'') \<or>
     (CHR ''0'' \<le> r \<and> r \<le> CHR ''9'') \<or> r = CHR ''-'' \<or> r = CHR ''_'' \<or> r = CHR ''.''"

definition IsValidName :: "string \<Rightarrow> bool" where
  "IsValidName name =
     (if name = [] \<or> length name > 100 then False
      else if name = ''.'' \<or> name = ''..'' then False
      else if hd name = CHR ''.'' then False
      else if has_suffix name ''.git'' then False
      else list_all name_char name)"

lemma IsValidName_nonempty: "IsValidName n \<Longrightarrow> n \<noteq> []"
  by (auto simp: IsValidName_def split: if_splits)

lemma IsValidName_chars: "IsValidName n \<Longrightarrow> c \<in> set n \<Longrightarrow> name_char c"
  by (auto simp: IsValidName_def list_all_iff split: if_splits)

lemma name_char_separators [simp]:
  "\<not> name_char (CHR ''/'')" "\<not> name_char (CHR '':'')" "\<not> name_char (CHR '','')"
  "\<not> name_char (CHR ''*'')" "\<not> name_char (CHR ''@'')"
  by (simp_all add: name_char_def less_eq_char_def)

lemma IsValidName_no_sep:
  assumes "IsValidName n"
  shows "CHR ''/'' \<notin> set n" "CHR '':'' \<notin> set n" "CHR '','' \<notin> set n"
  using IsValidName_chars [OF assms] name_char_separators by blast+

lemma name_char_graphic: "name_char c \<Longrightarrow> graphic c"
  by (auto simp: name_char_def graphic_def less_eq_char_def)

end
