(* ===== verification/Authz.thy ===== *)
theory Authz
  imports Names
begin

text \<open>
  Package \<open>pkg/authz\<close>: the scope language and the one authorization decision shared by every access
  surface (\<open>authz.go\<close>), and the scope-rewriting helpers of the lifecycle cascade (\<open>scope_ops.go\<close>:
  pruning the grants of a deleted namespace or project, re-homing the grants of a moved or renamed
  one).  A scope is a Go string; its grants are parsed from its comma-separated tokens.
\<close>

section \<open>Levels and grants\<close>

datatype level = LevelNone | LevelRead | LevelWrite | LevelAdmin

text \<open>The constants of \<open>Level\<close> are numbered by \<open>iota\<close>; the order is that of the numbers.\<close>

fun level_int :: "level \<Rightarrow> nat" where
  "level_int LevelNone = 0"
| "level_int LevelRead = 1"
| "level_int LevelWrite = 2"
| "level_int LevelAdmin = 3"

instantiation level :: linorder
begin

definition less_eq_level :: "level \<Rightarrow> level \<Rightarrow> bool" where
  "less_eq_level a b \<longleftrightarrow> level_int a \<le> level_int b"

definition less_level :: "level \<Rightarrow> level \<Rightarrow> bool" where
  "less_level a b \<longleftrightarrow> level_int a < level_int b"

instance
proof
  fix a b c :: level
  show "a < b \<longleftrightarrow> a \<le> b \<and> \<not> b \<le> a"
    by (auto simp: less_eq_level_def less_level_def)
  show "a \<le> a" by (simp add: less_eq_level_def)
  show "a \<le> b \<Longrightarrow> b \<le> c \<Longrightarrow> a \<le> c" by (simp add: less_eq_level_def)
  show "a \<le> b \<Longrightarrow> b \<le> a \<Longrightarrow> a = b"
    by (cases a; cases b) (auto simp: less_eq_level_def)
  show "a \<le> b \<or> b \<le> a" by (auto simp: less_eq_level_def)
qed

end

lemma level_None_least [simp]: "LevelNone \<le> l"
  by (simp add: less_eq_level_def)

lemma level_le_None [simp]: "l \<le> LevelNone \<longleftrightarrow> l = LevelNone"
  by (cases l) (simp_all add: less_eq_level_def)

lemma level_Admin_greatest [simp]: "l \<le> LevelAdmin"
  by (cases l) (simp_all add: less_eq_level_def)

lemma level_Admin_le [simp]: "LevelAdmin \<le> l \<longleftrightarrow> l = LevelAdmin"
  by (cases l) (simp_all add: less_eq_level_def)

fun level_String :: "level \<Rightarrow> string" where
  "level_String LevelRead = ''read''"
| "level_String LevelWrite = ''write''"
| "level_String LevelAdmin = ''admin''"
| "level_String LevelNone = ''none''"

record grant =
  g_Zone :: string
  g_Wildcard :: bool
  g_Namespace :: string
  g_Project :: string
  g_Level :: level

text \<open>The zero value of \<open>Grant\<close>; a composite literal sets some of its fields.\<close>

definition zero_grant :: grant where
  "zero_grant = \<lparr>g_Zone = [], g_Wildcard = False, g_Namespace = [], g_Project = [],
                 g_Level = LevelNone\<rparr>"

definition super_grant :: grant where
  "super_grant = zero_grant\<lparr>g_Wildcard := True, g_Level := LevelAdmin\<rparr>"

definition NoAccessScope :: string where
  "NoAccessScope = ''none''"

section \<open>Parsing\<close>

definition ns_prefix :: string where
  "ns_prefix = ''namespace:''"

definition splitPerm :: "string \<Rightarrow> string \<times> level \<times> bool" where
  "splitPerm s =
     (if has_suffix s '':admin'' then (trim_suffix s '':admin'', LevelAdmin, True)
      else if has_suffix s '':rw'' then (trim_suffix s '':rw'', LevelWrite, True)
      else if has_suffix s '':r'' then (trim_suffix s '':r'', LevelRead, True)
      else (s, LevelNone, False))"

text \<open>
  \<open>parseGrant\<close> first splits off a zone: a \<open>'/'\<close> that comes before any \<open>':'\<close>.  The rest is the bare
  wildcard, the no-access token, a wildcard with a level, a \<open>namespace:\<close> grant (level-less: write)
  or the short form \<open>ns:proj:level\<close>.
\<close>

definition parse_zone :: "string \<Rightarrow> string \<times> string" where
  "parse_zone g =
     (case index_byte g (CHR ''/'') of
        None \<Rightarrow> ([], g)
      | Some i \<Rightarrow>
          (case index_byte g (CHR '':'') of
             None \<Rightarrow> (take i g, drop (i + 1) g)
           | Some colonPos \<Rightarrow>
               (if i < colonPos then (take i g, drop (i + 1) g) else ([], g))))"

definition parse_body :: "string \<Rightarrow> grant" where
  "parse_body g =
     (if g = ''*'' then zero_grant\<lparr>g_Wildcard := True, g_Level := LevelAdmin\<rparr>
      else if g = NoAccessScope then zero_grant\<lparr>g_Level := LevelNone\<rparr>
      else
        (let (rest, lvl, ok) = splitPerm g in
         if ok \<and> rest = ''*'' then zero_grant\<lparr>g_Wildcard := True, g_Level := lvl\<rparr>
         else if has_prefix g ns_prefix then
           (let target = trim_prefix g ns_prefix;
                (rest1, lvl1, ok1) = splitPerm target;
                (rest2, lvl2) = (if ok1 then (rest1, lvl1) else (target, LevelWrite))
            in zero_grant\<lparr>g_Namespace := cut_before (CHR ''/'') rest2,
                          g_Project := cut_after (CHR ''/'') rest2, g_Level := lvl2\<rparr>)
         else if ok then
           (let ns = cut_before (CHR '':'') rest; proj = cut_after (CHR '':'') rest in
            if ns \<noteq> [] then zero_grant\<lparr>g_Namespace := ns, g_Project := proj, g_Level := lvl\<rparr>
            else zero_grant\<lparr>g_Level := LevelNone\<rparr>)
         else zero_grant\<lparr>g_Level := LevelNone\<rparr>))"

definition parseGrant :: "string \<Rightarrow> grant" where
  "parseGrant g = (let (zone, g') = parse_zone g in (parse_body g')\<lparr>g_Zone := zone\<rparr>)"

text \<open>The tokens of a scope: the trimmed, non-empty parts between commas, in order.\<close>

definition scope_tokens :: "string \<Rightarrow> string list" where
  "scope_tokens scope = filter (\<lambda>t. t \<noteq> []) (map trim_space (split_on (CHR '','') scope))"

definition ParseScope :: "string \<Rightarrow> grant list" where
  "ParseScope scope0 =
     (let scope = trim_space scope0 in
      if scope = [] \<or> scope = ''*'' then [super_grant]
      else
        (let grants = map parseGrant (scope_tokens scope) in
         if grants = [] then [super_grant] else grants))"

section \<open>The decision\<close>

definition matches :: "grant \<Rightarrow> string \<Rightarrow> string \<Rightarrow> bool" where
  "matches g namespace project =
     (if g_Zone g \<noteq> [] then False
      else if namespace = [] then True
      else if g_Wildcard g then True
      else if g_Namespace g \<noteq> namespace then False
      else if g_Project g = [] then True
      else g_Project g = project)"

fun effective_from :: "level \<Rightarrow> grant list \<Rightarrow> string \<Rightarrow> string \<Rightarrow> level" where
  "effective_from mx [] namespace project = mx"
| "effective_from mx (g # gs) namespace project =
     (if matches g namespace project \<and> mx < g_Level g
      then effective_from (g_Level g) gs namespace project
      else effective_from mx gs namespace project)"

definition EffectiveLevel :: "grant list \<Rightarrow> string \<Rightarrow> string \<Rightarrow> level" where
  "EffectiveLevel grants namespace project = effective_from LevelNone grants namespace project"

text \<open>\<open>None\<close> is the nil error (allowed).\<close>

definition Authorize :: "string \<Rightarrow> string \<Rightarrow> string \<Rightarrow> level \<Rightarrow> string option" where
  "Authorize scope namespace project required =
     (if required \<le> EffectiveLevel (ParseScope scope) namespace project then None
      else
        (let target = (if namespace = [] then ''(global)'' else namespace) in
         Some (''scope does not permit '' @ level_String required @ '' access to '' @ target)))"

section \<open>Scope operations\<close>

definition IsSuperUser :: "string \<Rightarrow> bool" where
  "IsSuperUser scope \<longleftrightarrow>
     list_ex (\<lambda>g. g_Zone g = [] \<and> g_Wildcard g \<and> LevelAdmin \<le> g_Level g) (ParseScope scope)"

fun dedup_admin :: "string list \<Rightarrow> grant list \<Rightarrow> string list" where
  "dedup_admin seen [] = []"
| "dedup_admin seen (g # gs) =
     (if g_Zone g = [] \<and> \<not> g_Wildcard g \<and> g_Namespace g \<noteq> [] \<and> g_Project g = []
         \<and> LevelAdmin \<le> g_Level g \<and> g_Namespace g \<notin> set seen
      then g_Namespace g # dedup_admin (g_Namespace g # seen) gs
      else dedup_admin seen gs)"

definition AdminNamespaces :: "string \<Rightarrow> string list \<times> bool" where
  "AdminNamespaces scope =
     (if IsSuperUser scope then ([], True)
      else (sort (dedup_admin [] (ParseScope scope)), False))"

fun prune_tokens :: "(grant \<Rightarrow> bool) \<Rightarrow> string list \<Rightarrow> string list \<times> nat" where
  "prune_tokens dropp [] = ([], 0)"
| "prune_tokens dropp (tok # toks) =
     (let (kept, removed) = prune_tokens dropp toks in
      if dropp (parseGrant tok) then (kept, Suc removed) else (tok # kept, removed))"

definition pruneScope :: "string \<Rightarrow> (grant \<Rightarrow> bool) \<Rightarrow> string \<times> nat" where
  "pruneScope scope dropp =
     (let (kept, removed) = prune_tokens dropp (scope_tokens scope) in
      if removed = 0 then (scope, 0)
      else if kept = [] then (NoAccessScope, removed)
      else (join_with '','' kept, removed))"

definition PruneNamespaceGrants :: "string \<Rightarrow> string \<Rightarrow> string \<times> nat" where
  "PruneNamespaceGrants scope ns =
     pruneScope scope (\<lambda>g. \<not> g_Wildcard g \<and> g_Namespace g = ns)"

definition PruneProjectGrants :: "string \<Rightarrow> string \<Rightarrow> string \<Rightarrow> string \<times> nat" where
  "PruneProjectGrants scope ns proj =
     pruneScope scope (\<lambda>g. \<not> g_Wildcard g \<and> g_Namespace g = ns \<and> g_Project g = proj)"

definition projectGrantSuffix :: "string \<Rightarrow> string" where
  "projectGrantSuffix tok =
     (case find (has_suffix tok) ['':admin'', '':rw'', '':r''] of None \<Rightarrow> [] | Some s \<Rightarrow> s)"

fun rewrite_tokens :: "(grant \<Rightarrow> bool) \<Rightarrow> (string \<Rightarrow> grant \<Rightarrow> string) \<Rightarrow> string list \<Rightarrow>
    string list \<times> nat" where
  "rewrite_tokens hit rebuild [] = ([], 0)"
| "rewrite_tokens hit rebuild (tok # toks) =
     (let g = parseGrant tok; (out, rewritten) = rewrite_tokens hit rebuild toks in
      if hit g then (rebuild tok g # out, Suc rewritten) else (tok # out, rewritten))"

definition zone_prefix :: "grant \<Rightarrow> string" where
  "zone_prefix g = (if g_Zone g \<noteq> [] then g_Zone g @ ''/'' else [])"

definition rebuild_project :: "string \<Rightarrow> string \<Rightarrow> string \<Rightarrow> grant \<Rightarrow> string" where
  "rebuild_project newNs newProj tok g =
     zone_prefix g @ ns_prefix @ newNs @ ''/'' @ newProj @ projectGrantSuffix tok"

definition RewriteProjectGrants ::
    "string \<Rightarrow> string \<Rightarrow> string \<Rightarrow> string \<Rightarrow> string \<Rightarrow> string \<times> nat" where
  "RewriteProjectGrants scope oldNs oldProj newNs newProj =
     (let (out, rewritten) =
        rewrite_tokens (\<lambda>g. \<not> g_Wildcard g \<and> g_Namespace g = oldNs \<and> g_Project g = oldProj)
          (rebuild_project newNs newProj) (scope_tokens scope)
      in if rewritten = 0 then (scope, 0) else (join_with '','' out, rewritten))"

definition rebuild_namespace :: "string \<Rightarrow> string \<Rightarrow> grant \<Rightarrow> string" where
  "rebuild_namespace new tok g =
     zone_prefix g @ ns_prefix @ new
       @ (if g_Project g \<noteq> [] then ''/'' @ g_Project g else []) @ projectGrantSuffix tok"

definition RewriteNamespaceGrants :: "string \<Rightarrow> string \<Rightarrow> string \<Rightarrow> string \<times> nat" where
  "RewriteNamespaceGrants scope old new =
     (let (out, rewritten) =
        rewrite_tokens (\<lambda>g. \<not> g_Wildcard g \<and> g_Namespace g = old)
          (rebuild_namespace new) (scope_tokens scope)
      in if rewritten = 0 then (scope, 0) else (join_with '','' out, rewritten))"

section \<open>The decision as a maximum\<close>

lemma effective_from_ge:
  "l \<le> effective_from mx gs n p \<longleftrightarrow> l \<le> mx \<or> (\<exists>g\<in>set gs. matches g n p \<and> l \<le> g_Level g)"
proof (induction gs arbitrary: mx)
  case (Cons g gs)
  show ?case
  proof (cases "matches g n p \<and> mx < g_Level g")
    case True
    then show ?thesis using Cons.IH [of "g_Level g"] by auto
  next
    case False
    then show ?thesis using Cons.IH [of mx] by (auto simp: not_less intro: order_trans)
  qed
qed simp

lemma EffectiveLevel_ge:
  "l \<le> EffectiveLevel gs n p \<longleftrightarrow>
     l = LevelNone \<or> (\<exists>g\<in>set gs. matches g n p \<and> l \<le> g_Level g)"
  by (simp add: EffectiveLevel_def effective_from_ge)

lemma EffectiveLevel_mono:
  assumes "\<And>g. g \<in> set gs \<Longrightarrow> matches g n p \<Longrightarrow> g_Level g \<noteq> LevelNone \<Longrightarrow>
             \<exists>h\<in>set hs. matches h m q \<and> g_Level g \<le> g_Level h"
  shows "EffectiveLevel gs n p \<le> EffectiveLevel hs m q"
proof -
  have "\<exists>h\<in>set hs. matches h m q \<and> l \<le> g_Level h"
    if "l \<noteq> LevelNone" "g \<in> set gs" "matches g n p" "l \<le> g_Level g" for l g
  proof -
    from that have "g_Level g \<noteq> LevelNone" by auto
    with assms that obtain h where "h \<in> set hs" "matches h m q" "g_Level g \<le> g_Level h" by blast
    then show ?thesis using \<open>l \<le> g_Level g\<close> order_trans by blast
  qed
  then have "l \<le> EffectiveLevel hs m q" if "l \<le> EffectiveLevel gs n p" for l
    using that by (auto simp: EffectiveLevel_ge)
  then show ?thesis by blast
qed

lemma EffectiveLevel_cong:
  assumes "\<And>g. matches g n p \<Longrightarrow> g_Level g \<noteq> LevelNone \<Longrightarrow> g \<in> set gs \<longleftrightarrow> g \<in> set hs"
  shows "EffectiveLevel gs n p = EffectiveLevel hs n p"
  by (rule antisym) (rule EffectiveLevel_mono, use assms in blast)+

section \<open>Tokens of a scope\<close>

definition ok_token :: "string \<Rightarrow> bool" where
  "ok_token t \<longleftrightarrow> t \<noteq> [] \<and> trimmed t \<and> CHR '','' \<notin> set t"

lemma comma_not_space: "\<forall>sp\<in>set go_spaces. CHR '','' \<notin> set sp"
  by (simp add: go_spaces_def)

lemma scope_tokens_space_left: "sp \<in> set go_spaces \<Longrightarrow> scope_tokens (sp @ s) = scope_tokens s"
  using comma_not_space
  by (cases "split_on (CHR '','') s") (auto simp: scope_tokens_def split_on_prefix_free)

lemma scope_tokens_space_right:
  assumes "sp \<in> set go_spaces"
  shows "scope_tokens (s @ sp) = scope_tokens s"
proof -
  obtain xs y where xs: "split_on (CHR '','') s = xs @ [y]"
    using split_on_not_Nil by (metis rev_exhaust)
  then show ?thesis
    using assms comma_not_space by (simp add: scope_tokens_def split_on_suffix_free)
qed

lemma scope_tokens_trim_left: "scope_tokens (trim_left s) = scope_tokens s"
proof (induction s rule: trim_left.induct)
  case (1 s)
  show ?case
  proof (cases "find (has_prefix s) go_spaces")
    case None
    then show ?thesis by (simp add: trim_left.simps [of s])
  next
    case (Some q)
    then have q: "q \<in> set go_spaces" "has_prefix s q" by (auto simp: find_Some_iff)
    then obtain r where "s = q @ r" by (auto simp: has_prefix_iff)
    with 1 Some q show ?thesis by (simp add: trim_left_space scope_tokens_space_left)
  qed
qed

lemma scope_tokens_trim_right: "scope_tokens (trim_right s) = scope_tokens s"
proof (induction s rule: trim_right.induct)
  case (1 s)
  show ?case
  proof (cases "find (has_suffix s) go_spaces")
    case None
    then show ?thesis by (simp add: trim_right.simps [of s])
  next
    case (Some q)
    then have q: "q \<in> set go_spaces" "has_suffix s q" by (auto simp: find_Some_iff)
    then obtain r where "s = r @ q" by (auto simp: has_suffix_iff)
    with 1 Some q show ?thesis by (simp add: trim_right_space scope_tokens_space_right)
  qed
qed

lemma scope_tokens_trim [simp]: "scope_tokens (trim_space s) = scope_tokens s"
  by (simp add: trim_space_def scope_tokens_trim_left scope_tokens_trim_right)

lemma scope_tokens_comma_free:
  "CHR '','' \<notin> set s \<Longrightarrow> scope_tokens s = (if trim_space s = [] then [] else [trim_space s])"
  by (simp add: scope_tokens_def split_on_no_sep)

lemma parseGrant_star: "parseGrant ''*'' = super_grant"
  by (simp add: parseGrant_def parse_zone_def parse_body_def super_grant_def zero_grant_def)

lemma ParseScope_tokens:
  "ParseScope s =
     (if scope_tokens s = [] then [super_grant] else map parseGrant (scope_tokens s))"
proof (cases "trim_space s = [] \<or> trim_space s = ''*''")
  case True
  then have "CHR '','' \<notin> set (trim_space s)" by auto
  then have "CHR '','' \<notin> set s" using trim_space_keeps comma_not_space by blast
  then show ?thesis using True
    by (auto simp: ParseScope_def scope_tokens_comma_free parseGrant_star)
next
  case False
  then show ?thesis by (simp add: ParseScope_def Let_def)
qed

lemma scope_tokens_ok: "t \<in> set (scope_tokens s) \<Longrightarrow> ok_token t"
  using split_on_sep_free set_trim_space
  by (fastforce simp: scope_tokens_def ok_token_def)

lemma scope_tokens_join:
  assumes "\<forall>t\<in>set toks. ok_token t"
  shows "scope_tokens (join_with '','' toks) = toks"
proof (cases "toks = []")
  case True
  then show ?thesis by (simp add: scope_tokens_def)
next
  case False
  then have "split_on (CHR '','') (join_with '','' toks) = toks"
    using assms by (intro split_join) (auto simp: ok_token_def)
  moreover have "map trim_space toks = toks"
    using assms by (intro map_idI) (auto simp: ok_token_def trim_space_trimmed)
  ultimately show ?thesis using assms
    by (simp add: scope_tokens_def ok_token_def filter_id_conv)
qed

section \<open>The grants a token can name\<close>

definition perm_suffixes :: "string list" where
  "perm_suffixes = ['':admin'', '':rw'', '':r'']"

definition suffix_level :: "string \<Rightarrow> level" where
  "suffix_level s = (if s = '':admin'' then LevelAdmin else if s = '':rw'' then LevelWrite
                     else if s = '':r'' then LevelRead else LevelWrite)"

lemma projectGrantSuffix_cases:
  "projectGrantSuffix t \<in> set perm_suffixes \<and> has_suffix t (projectGrantSuffix t)
   \<or> projectGrantSuffix t = [] \<and> (\<forall>s\<in>set perm_suffixes. \<not> has_suffix t s)"
  by (auto simp: projectGrantSuffix_def perm_suffixes_def)

lemma splitPerm_suffix:
  "splitPerm s =
     (if projectGrantSuffix s = [] then (s, LevelNone, False)
      else (trim_suffix s (projectGrantSuffix s), suffix_level (projectGrantSuffix s), True))"
  by (simp add: splitPerm_def projectGrantSuffix_def suffix_level_def)

lemma has_suffix_append_guard:
  assumes "length s \<le> length y \<or> (x \<noteq> [] \<and> last x \<notin> set s)"
  shows "has_suffix (x @ y) s \<longleftrightarrow> has_suffix y s"
proof
  assume "has_suffix (x @ y) s"
  then obtain r where r: "x @ y = r @ s" by (auto simp: has_suffix_iff)
  then consider u where "x = r @ u" "u @ y = s" | u where "x @ u = r" "y = u @ s"
    by (auto simp: append_eq_append_conv2)
  then show "has_suffix y s"
  proof cases
    case 1
    then show ?thesis using assms by (cases u rule: rev_cases) (auto simp: has_suffix_iff)
  qed auto
next
  assume "has_suffix y s"
  then show "has_suffix (x @ y) s" by (auto simp: has_suffix_iff)
qed

lemma projectGrantSuffix_append:
  assumes "last x \<notin> set '':admin'' \<and> last x \<notin> set '':rw'' \<and> x \<noteq> []"
  shows "projectGrantSuffix (x @ y) = projectGrantSuffix y"
proof -
  have "has_suffix (x @ y) s \<longleftrightarrow> has_suffix y s" if "s \<in> set perm_suffixes" for s
    by (rule has_suffix_append_guard) (use assms that in \<open>auto simp: perm_suffixes_def\<close>)
  then show ?thesis by (simp add: projectGrantSuffix_def perm_suffixes_def)
qed
lemma projectGrantSuffix_suffix:
  "s \<in> set perm_suffixes \<Longrightarrow> projectGrantSuffix (x @ s) = s"
proof -
  have "\<not> has_suffix (x @ '':rw'') '':admin''" "\<not> has_suffix (x @ '':r'') '':admin''"
    "\<not> has_suffix (x @ '':r'') '':rw''"
    by (auto simp: has_suffix_iff append_eq_append_conv2 Cons_eq_append_conv)
  then show "s \<in> set perm_suffixes \<Longrightarrow> ?thesis"
    by (auto simp: projectGrantSuffix_def perm_suffixes_def)
qed

lemma projectGrantSuffix_no_colon: "CHR '':'' \<notin> set t \<Longrightarrow> projectGrantSuffix t = []"
  by (auto simp: projectGrantSuffix_def has_suffix_iff)

lemma trim_suffix_Nil [simp]: "trim_suffix t [] = t"
  by (simp add: trim_suffix_def)

lemma append_eq_split:
  "a @ b = c @ d \<Longrightarrow> (\<exists>u. a = c @ u \<and> u @ b = d) \<or> (\<exists>u. c = a @ u \<and> b = u @ d)"
  by (auto simp: append_eq_append_conv2)

lemma has_suffix_colon:
  assumes "CHR '':'' \<notin> set w" "t \<noteq> w"
  shows "has_suffix (x @ CHR '':'' # t) (CHR '':'' # w) \<longleftrightarrow> has_suffix t (CHR '':'' # w)"
proof
  assume "has_suffix (x @ CHR '':'' # t) (CHR '':'' # w)"
  then obtain r where r: "(x @ [CHR '':'']) @ t = r @ CHR '':'' # w"
    by (auto simp: has_suffix_iff)
  from append_eq_split [OF r]
  consider u where "x @ [CHR '':''] = r @ u" "u @ t = CHR '':'' # w"
    | u where "t = u @ CHR '':'' # w"
    by blast
  then show "has_suffix t (CHR '':'' # w)"
  proof cases
    case 1
    show ?thesis
    proof (cases u rule: rev_cases)
      case (snoc v c)
      with 1 have "c = CHR '':''" by (metis append_assoc last_snoc)
      with snoc 1 assms show ?thesis by (cases v) auto
    qed (use 1 in \<open>simp add: has_suffix_def\<close>)
  qed auto
next
  assume "has_suffix t (CHR '':'' # w)"
  then show "has_suffix (x @ CHR '':'' # t) (CHR '':'' # w)"
    by (auto simp: has_suffix_iff)
qed

lemma projectGrantSuffix_namespace:
  assumes "t \<notin> {''admin'', ''rw'', ''r''}"
  shows "projectGrantSuffix (ns_prefix @ t) = projectGrantSuffix t"
proof -
  have "ns_prefix @ t = ''namespace'' @ CHR '':'' # t"
    by (simp add: ns_prefix_def)
  then obtain w where w: "ns_prefix @ t = w @ CHR '':'' # t" by blast
  have "has_suffix (ns_prefix @ t) s \<longleftrightarrow> has_suffix t s" if "s \<in> set perm_suffixes" for s
    using that assms has_suffix_colon [of "tl s" t w]
    by (auto simp: perm_suffixes_def w)
  then show ?thesis by (simp add: projectGrantSuffix_def perm_suffixes_def)
qed
lemma parse_zone_cases:
  assumes "parse_zone t = (z, b)"
  shows "z = [] \<and> b = t \<or> t = z @ CHR ''/'' # b \<and> CHR ''/'' \<notin> set z \<and> CHR '':'' \<notin> set z"
proof (cases "index_byte t (CHR ''/'')")
  case None
  then show ?thesis using assms by (simp add: parse_zone_def)
next
  case (Some i)
  then have i: "i < length t" "t ! i = CHR ''/''" "CHR ''/'' \<notin> set (take i t)"
    by (auto dest: index_byte_Some)
  then have t: "t = take i t @ CHR ''/'' # drop (Suc i) t"
    by (metis id_take_nth_drop)
  show ?thesis
  proof (cases "index_byte t (CHR '':'')")
    case None
    then have "CHR '':'' \<notin> set (take i t)"
      by (auto simp: index_byte_None_iff dest: in_set_takeD)
    moreover have "z = take i t" "b = drop (Suc i) t"
      using assms Some None by (simp_all add: parse_zone_def)
    ultimately show ?thesis using t i by simp
  next
    case (Some j)
    show ?thesis
    proof (cases "i < j")
      case True
      have "CHR '':'' \<notin> set (take j t)" using Some by (auto dest: index_byte_Some)
      with True have "CHR '':'' \<notin> set (take i t)"
        by (meson less_imp_le set_take_subset_set_take subsetD)
      moreover have "z = take i t" "b = drop (Suc i) t"
        using assms Some \<open>index_byte t (CHR ''/'') = Some i\<close> True by (simp_all add: parse_zone_def)
      ultimately show ?thesis using t i by simp
    next
      case False
      then show ?thesis
        using assms Some \<open>index_byte t (CHR ''/'') = Some i\<close> by (simp add: parse_zone_def)
    qed
  qed
qed

lemma parse_zone_build:
  assumes "CHR ''/'' \<notin> set z" "CHR '':'' \<notin> set z"
  shows "parse_zone (z @ CHR ''/'' # b) = (z, b)"
  using assms
  by (auto simp: parse_zone_def index_byte_append_fresh split: option.splits)

lemma parse_zone_namespace: "parse_zone (ns_prefix @ t) = ([], ns_prefix @ t)"
  by (auto simp: ns_prefix_def parse_zone_def split: option.splits)

lemma ns_prefix_not_special:
  "trim_suffix (ns_prefix @ t) p \<noteq> ''*''" "ns_prefix @ t \<noteq> ''*''" "ns_prefix @ t \<noteq> NoAccessScope"
  by (auto simp: ns_prefix_def NoAccessScope_def trim_suffix_def take_Cons')

lemma parse_body_namespace:
  "parse_body (ns_prefix @ t) =
     (let rest = trim_suffix t (projectGrantSuffix t) in
      zero_grant\<lparr>g_Namespace := cut_before (CHR ''/'') rest,
                 g_Project := cut_after (CHR ''/'') rest,
                 g_Level := suffix_level (projectGrantSuffix t)\<rparr>)"
  using ns_prefix_not_special
  by (simp add: parse_body_def splitPerm_suffix Let_def suffix_level_def [of "[]"])
lemma parse_body_short:
  assumes "\<not> has_prefix b ns_prefix" "g_Namespace (parse_body b) \<noteq> []"
  shows "projectGrantSuffix b \<noteq> [] \<and>
    (let rest = trim_suffix b (projectGrantSuffix b) in
     parse_body b =
      zero_grant\<lparr>g_Namespace := cut_before (CHR '':'') rest,
                 g_Project := cut_after (CHR '':'') rest,
                 g_Level := suffix_level (projectGrantSuffix b)\<rparr>)"
  using assms
  by (auto simp: parse_body_def splitPerm_suffix Let_def zero_grant_def split: if_splits)

lemma projectGrantSuffix_split:
  obtains rest where "t = rest @ projectGrantSuffix t" "trim_suffix t (projectGrantSuffix t) = rest"
proof (cases "projectGrantSuffix t = []")
  case True
  with that [of t] show ?thesis by simp
next
  case False
  then obtain r where "t = r @ projectGrantSuffix t"
    using projectGrantSuffix_cases [of t] by (auto simp: has_suffix_iff)
  with that [of r] show ?thesis by (metis trim_suffix_append)
qed

text \<open>
  A token that names a namespace has one of two shapes; \<open>rest\<close> is the target without the
  permission suffix.
\<close>

lemma named_token_form:
  assumes "g_Namespace (parseGrant tok) \<noteq> []"
  obtains (long) z t rest where "parse_zone tok = (z, ns_prefix @ t)"
      "t = rest @ projectGrantSuffix t"
      "parseGrant tok = zero_grant\<lparr>g_Zone := z, g_Namespace := cut_before (CHR ''/'') rest,
         g_Project := cut_after (CHR ''/'') rest, g_Level := suffix_level (projectGrantSuffix t)\<rparr>"
    | (short) z b rest where "parse_zone tok = (z, b)" "projectGrantSuffix b \<noteq> []"
      "b = rest @ projectGrantSuffix b"
      "parseGrant tok = zero_grant\<lparr>g_Zone := z, g_Namespace := cut_before (CHR '':'') rest,
         g_Project := cut_after (CHR '':'') rest, g_Level := suffix_level (projectGrantSuffix b)\<rparr>"
proof -
  obtain z b where zb: "parse_zone tok = (z, b)" by fastforce
  then have g: "parseGrant tok = (parse_body b)\<lparr>g_Zone := z\<rparr>" by (simp add: parseGrant_def)
  show ?thesis
  proof (cases "has_prefix b ns_prefix")
    case True
    then obtain t where t: "b = ns_prefix @ t" by (auto simp: has_prefix_iff)
    obtain rest where "t = rest @ projectGrantSuffix t"
        "trim_suffix t (projectGrantSuffix t) = rest"
      by (rule projectGrantSuffix_split)
    moreover from this have "parseGrant tok = zero_grant\<lparr>g_Zone := z,
        g_Namespace := cut_before (CHR ''/'') rest, g_Project := cut_after (CHR ''/'') rest,
        g_Level := suffix_level (projectGrantSuffix t)\<rparr>"
      by (simp add: g t parse_body_namespace Let_def zero_grant_def)
    ultimately show ?thesis using zb t by (intro long [of z t rest]) simp_all
  next
    case False
    have ns: "g_Namespace (parse_body b) \<noteq> []" using assms g by simp
    obtain rest where "b = rest @ projectGrantSuffix b"
        "trim_suffix b (projectGrantSuffix b) = rest"
      by (rule projectGrantSuffix_split)
    with parse_body_short [OF False ns] zb g show ?thesis
      by (intro short [of z b rest]) (simp_all add: Let_def zero_grant_def)
  qed
qed

lemma parse_zone_suffix:
  assumes "parse_zone tok = (z, b)"
  shows "projectGrantSuffix tok = projectGrantSuffix b"
  using parse_zone_cases [OF assms] projectGrantSuffix_append [of "z @ ''/''" b] by auto

lemma IsValidName_ends:
  assumes "IsValidName n"
  shows "graphic (hd n)" "graphic (last n)"
  using assms IsValidName_chars [OF assms] name_char_graphic IsValidName_nonempty
  by (simp_all)

lemma zone_prefix_Nil: "g_Zone g = [] \<Longrightarrow> zone_prefix g = []"
  by (simp add: zone_prefix_def)

text \<open>A re-homed target is read back with the new names and the old level.\<close>

lemma parse_rebuilt:
  assumes z: "z = [] \<or> CHR ''/'' \<notin> set z \<and> CHR '':'' \<notin> set z"
    and new: "IsValidName new"
    and suf: "suf \<in> set perm_suffixes \<or> suf = [] \<and> projectGrantSuffix proj = []"
  shows "parseGrant ((if z \<noteq> [] then z @ ''/'' else []) @ ns_prefix @ new
            @ (if proj \<noteq> [] then ''/'' @ proj else []) @ suf) =
         zero_grant\<lparr>g_Zone := z, g_Namespace := new, g_Project := proj, g_Level := suffix_level suf\<rparr>"
proof -
  let ?rest = "new @ (if proj \<noteq> [] then ''/'' @ proj else [])"
  have free: "CHR ''/'' \<notin> set new" "CHR '':'' \<notin> set new"
    using IsValidName_no_sep [OF new] by auto
  have rest: "projectGrantSuffix ?rest = []" if "projectGrantSuffix proj = []"
    using that projectGrantSuffix_append [of "new @ ''/''" proj] free
    by (simp add: projectGrantSuffix_no_colon)
  have psuf: "projectGrantSuffix (?rest @ suf) = suf"
    using suf rest projectGrantSuffix_suffix by fastforce
  have zone: "parse_zone ((if z \<noteq> [] then z @ ''/'' else []) @ ns_prefix @ ?rest @ suf)
      = (z, ns_prefix @ ?rest @ suf)"
    using z parse_zone_build [of z "ns_prefix @ ?rest @ suf"] parse_zone_namespace [of "?rest @ suf"]
    by (cases "z = []") auto
  have cuts: "cut_before (CHR ''/'') ?rest = new" "cut_after (CHR ''/'') ?rest = proj"
    using free by (simp_all add: cut_before_no_sep cut_after_no_sep cut_before_id cut_after_id)
  have "parse_body (ns_prefix @ ?rest @ suf) =
      zero_grant\<lparr>g_Namespace := new, g_Project := proj, g_Level := suffix_level suf\<rparr>"
    using cuts psuf by (simp add: parse_body_namespace Let_def del: append_assoc)
  with zone show ?thesis by (simp add: parseGrant_def zero_grant_def)
qed

lemma parse_zone_free: "parse_zone tok = (z, b) \<Longrightarrow> z = [] \<or> CHR ''/'' \<notin> set z \<and> CHR '':'' \<notin> set z"
  using parse_zone_cases by blast

lemma projectGrantSuffix_Nil_appendD:
  assumes "projectGrantSuffix (x @ y) = []"
  shows "projectGrantSuffix y = []"
proof -
  have "\<not> has_suffix y s" if "s \<in> set perm_suffixes" for s
    using assms projectGrantSuffix_cases [of "x @ y"] that has_suffix_iff
    by (fastforce simp: perm_suffixes_def)
  then show ?thesis using projectGrantSuffix_cases [of y] by auto
qed

lemma projectGrantSuffix_mem: "projectGrantSuffix t \<noteq> [] \<Longrightarrow> projectGrantSuffix t \<in> set perm_suffixes"
  using projectGrantSuffix_cases by blast

text \<open>
  The part of a level-less target that is left of its first slash has no colon only if the token
  itself has no permission suffix; the suffix the rewriters read off the token is the one the parser
  read off the target, unless the target is the bare word \<open>admin\<close>, \<open>rw\<close> or \<open>r\<close>.
\<close>

definition perm_words :: "string list" where
  "perm_words = [''admin'', ''rw'', ''r'']"

lemma perm_words_no_slash: "w \<in> set perm_words \<Longrightarrow> CHR ''/'' \<notin> set w"
  by (auto simp: perm_words_def)

lemma perm_words_no_suffix: "w \<in> set perm_words \<Longrightarrow> projectGrantSuffix w = []"
  by (auto simp: perm_words_def intro: projectGrantSuffix_no_colon)

lemma named_token_facts:
  assumes ns: "g_Namespace (parseGrant tok) \<noteq> []"
    and amb: "\<not> (g_Namespace (parseGrant tok) \<in> set perm_words \<and> g_Project (parseGrant tok) = [])"
  shows "g_Wildcard (parseGrant tok) = False
    \<and> g_Level (parseGrant tok) = suffix_level (projectGrantSuffix tok)
    \<and> (projectGrantSuffix tok = [] \<longrightarrow>
         g_Project (parseGrant tok) \<noteq> [] \<longrightarrow>
         (\<exists>x. tok = x @ CHR ''/'' # g_Project (parseGrant tok)))"
  using ns
proof (cases rule: named_token_form)
  case (long z t rest)
  have "t \<notin> set perm_words"
  proof
    assume w: "t \<in> set perm_words"
    then have "rest = t" using long(2) perm_words_no_suffix by simp
    with w long(3) amb show False
      using perm_words_no_slash [OF w] by (simp add: cut_before_id cut_after_id)
  qed
  then have suf: "projectGrantSuffix tok = projectGrantSuffix t"
    using parse_zone_suffix [OF long(1)] projectGrantSuffix_namespace [of t]
    by (simp add: perm_words_def)
  have "\<exists>x. tok = x @ CHR ''/'' # g_Project (parseGrant tok)"
    if "projectGrantSuffix tok = []" "g_Project (parseGrant tok) \<noteq> []"
  proof -
    from that suf long have "t = rest" by simp
    moreover have "cut_after (CHR ''/'') rest \<noteq> []" using that(2) long(3) by simp
    then have "CHR ''/'' \<in> set rest" using cut_after_id by blast
    ultimately have "t = cut_before (CHR ''/'') rest @ CHR ''/'' # g_Project (parseGrant tok)"
      using cut_parts [of "CHR ''/''" rest] long(3) by simp
    moreover obtain y where "tok = y @ t" 
      using parse_zone_cases [OF long(1)] by (metis append_Cons append_assoc)
    ultimately show ?thesis by (metis append_assoc)
  qed
  with suf long(3) show ?thesis by (simp add: zero_grant_def)
next
  case (short z b rest)
  then have "projectGrantSuffix tok = projectGrantSuffix b" by (simp add: parse_zone_suffix)
  with short show ?thesis by (simp add: zero_grant_def)
qed

lemma named_token_zone:
  "g_Zone (parseGrant tok) = [] \<or>
   CHR ''/'' \<notin> set (g_Zone (parseGrant tok)) \<and> CHR '':'' \<notin> set (g_Zone (parseGrant tok))"
  using parse_zone_free by (cases "parse_zone tok") (fastforce simp: parseGrant_def)

text \<open>Re-homing a named grant changes its namespace (and project) and nothing else.\<close>

lemma parse_rebuild_namespace:
  assumes ns: "g_Namespace (parseGrant tok) \<noteq> []"
    and amb: "\<not> (g_Namespace (parseGrant tok) \<in> set perm_words \<and> g_Project (parseGrant tok) = [])"
    and new: "IsValidName new"
  shows "parseGrant (rebuild_namespace new tok (parseGrant tok)) =
         (parseGrant tok)\<lparr>g_Namespace := new\<rparr>"
proof -
  let ?g = "parseGrant tok" and ?s = "projectGrantSuffix tok"
  have facts: "g_Wildcard ?g = False" "g_Level ?g = suffix_level ?s"
    using named_token_facts [OF ns amb] by auto
  have "?s \<in> set perm_suffixes \<or> ?s = [] \<and> projectGrantSuffix (g_Project ?g) = []"
  proof (cases "?s = []")
    case True
    have "projectGrantSuffix (g_Project ?g) = []"
    proof (cases "g_Project ?g = []")
      case False
      with named_token_facts [OF ns amb] True obtain x where "tok = (x @ ''/'') @ g_Project ?g"
        by auto
      with True show ?thesis by (metis projectGrantSuffix_Nil_appendD)
    qed (simp add: projectGrantSuffix_no_colon)
    with True show ?thesis by simp
  next
    case False
    then show ?thesis by (simp add: projectGrantSuffix_mem)
  qed
  from parse_rebuilt [OF named_token_zone new this, of tok] facts show ?thesis
    by (simp add: rebuild_namespace_def zone_prefix_def zero_grant_def)
qed

lemma parse_rebuild_project:
  assumes ns: "g_Namespace (parseGrant tok) \<noteq> []" and pr: "g_Project (parseGrant tok) \<noteq> []"
    and new: "IsValidName newNs" "IsValidName newProj"
  shows "parseGrant (rebuild_project newNs newProj tok (parseGrant tok)) =
         (parseGrant tok)\<lparr>g_Namespace := newNs, g_Project := newProj\<rparr>"
proof -
  let ?g = "parseGrant tok" and ?s = "projectGrantSuffix tok"
  have facts: "g_Wildcard ?g = False" "g_Level ?g = suffix_level ?s"
    using named_token_facts [OF ns] pr by auto
  have "newProj \<noteq> []" "projectGrantSuffix newProj = []"
    using new(2) IsValidName_nonempty IsValidName_no_sep projectGrantSuffix_no_colon by auto
  moreover have "?s \<in> set perm_suffixes \<or> ?s = []" using projectGrantSuffix_mem by blast
  ultimately show ?thesis
    using parse_rebuilt [OF named_token_zone new(1), of ?s newProj tok] facts
    by (simp add: rebuild_project_def zone_prefix_def zero_grant_def)
qed

lemma set_parse_zone: "parse_zone tok = (z, b) \<Longrightarrow> set z \<subseteq> set tok \<and> set b \<subseteq> set tok"
  using parse_zone_cases by fastforce

lemma set_cut: "set (cut_before c s) \<subseteq> set s" "set (cut_after c s) \<subseteq> set s"
  by (auto simp: cut_before_def cut_after_def dest: set_takeWhileD in_set_dropD set_dropWhileD)

lemma set_parseGrant:
  assumes "g_Namespace (parseGrant tok) \<noteq> []"
  shows "set (g_Zone (parseGrant tok)) \<subseteq> set tok" "set (g_Project (parseGrant tok)) \<subseteq> set tok"
proof -
  have "set (g_Zone (parseGrant tok)) \<subseteq> set tok \<and> set (g_Project (parseGrant tok)) \<subseteq> set tok"
    using assms
  proof (cases rule: named_token_form)
    case (long z t rest)
    then have "set rest \<subseteq> set tok" using set_parse_zone [OF long(1)] by (metis Un_subset_iff set_append)
    with long show ?thesis using set_parse_zone [OF long(1)] set_cut(2) [of "CHR ''/''" rest]
      by (auto simp: zero_grant_def)
  next
    case (short z b rest)
    then have "set rest \<subseteq> set tok" using set_parse_zone [OF short(1)] by (metis Un_subset_iff set_append)
    with short show ?thesis using set_parse_zone [OF short(1)] set_cut(2) [of "CHR '':''" rest]
      by (auto simp: zero_grant_def)
  qed
  then show "set (g_Zone (parseGrant tok)) \<subseteq> set tok" "set (g_Project (parseGrant tok)) \<subseteq> set tok"
    by auto
qed

lemma no_space_suffix_slash:
  assumes "sp \<in> set go_spaces" "has_suffix (x @ CHR ''/'' # p) sp"
  shows "has_suffix p sp"
proof -
  have "CHR ''/'' \<notin> set sp" using assms(1) by (auto simp: go_spaces_def)
  then have "has_suffix ((x @ ''/'') @ p) sp \<longleftrightarrow> has_suffix p sp"
    by (intro has_suffix_append_guard) auto
  with assms show ?thesis by simp
qed

lemma no_space_prefix_slash:
  assumes "sp \<in> set go_spaces" "has_prefix (z @ CHR ''/'' # r) sp"
  shows "has_prefix z sp"
proof -
  have "CHR ''/'' \<notin> set sp" using assms(1) by (auto simp: go_spaces_def)
  moreover from assms(2) obtain u where "z @ CHR ''/'' # r = sp @ u" by (auto simp: has_prefix_iff)
  ultimately show ?thesis
    using append_eq_split [of z "CHR ''/'' # r" sp u]
    by (auto simp: has_prefix_iff Cons_eq_append_conv)
qed

lemma graphic_hd_no_space:
  "sp \<in> set go_spaces \<Longrightarrow> s \<noteq> [] \<Longrightarrow> graphic (hd s) \<Longrightarrow> \<not> has_prefix s sp"
  using go_spaces_not_graphic_hd go_spaces_nonempty by (fastforce simp: has_prefix_iff)

lemma graphic_last_no_space:
  "sp \<in> set go_spaces \<Longrightarrow> s \<noteq> [] \<Longrightarrow> graphic (last s) \<Longrightarrow> \<not> has_suffix s sp"
  using go_spaces_not_graphic_last go_spaces_nonempty by (fastforce simp: has_suffix_iff)

text \<open>A re-homed token is again a token: not empty, without a comma, trimmed at both ends.\<close>

lemma rebuilt_trimmed:
  assumes z: "z = [] \<or> (\<exists>r. tok = z @ CHR ''/'' # r)" and tok: "trimmed tok"
    and new: "IsValidName new"
    and suf: "suf \<in> set perm_suffixes \<or> suf = [] \<and> (proj = [] \<or> (\<exists>x. tok = x @ CHR ''/'' # proj)
               \<or> IsValidName proj)"
  shows "trimmed ((if z \<noteq> [] then z @ ''/'' else []) @ ns_prefix @ new
            @ (if proj \<noteq> [] then ''/'' @ proj else []) @ suf)" (is "trimmed ?t")
proof (rule trimmedI)
  fix sp assume sp: "sp \<in> set go_spaces"
  show "\<not> has_prefix ?t sp"
  proof (cases "z = []")
    case True
    then have "?t \<noteq> []" "graphic (hd ?t)" by (auto simp: ns_prefix_def graphic_def)
    then show ?thesis by (rule graphic_hd_no_space [OF sp])
  next
    case False
    with z obtain r where "tok = z @ CHR ''/'' # r" by auto
    then have "\<not> has_prefix z sp"
      using trimmed_no_space_prefix [OF tok sp] by (auto simp: has_prefix_iff)
    with False no_space_prefix_slash [OF sp, of z] show ?thesis by auto
  qed
  have graphic_end: "\<not> has_suffix (x @ y) sp" if "y \<noteq> []" "graphic (last y)" for x y
    using that by (intro graphic_last_no_space [OF sp]) auto
  consider "suf \<in> set perm_suffixes" | "suf = []" "proj = []" | "suf = []" "IsValidName proj"
    | x where "suf = []" "proj \<noteq> []" "tok = x @ CHR ''/'' # proj"
    using suf by blast
  then show "\<not> has_suffix ?t sp"
  proof cases
    case 1
    then have "suf \<noteq> []" "graphic (last suf)" by (auto simp: perm_suffixes_def graphic_def)
    then have "\<not> has_suffix (((if z \<noteq> [] then z @ ''/'' else []) @ ns_prefix @ new
        @ (if proj \<noteq> [] then ''/'' @ proj else [])) @ suf) sp"
      by (rule graphic_end)
    then show ?thesis by (simp only: append_assoc not_False_eq_True)
  next
    case 2
    have "\<not> has_suffix (((if z \<noteq> [] then z @ ''/'' else []) @ ns_prefix) @ new) sp"
      using IsValidName_nonempty [OF new] IsValidName_ends [OF new] by (intro graphic_end)
    with 2 show ?thesis by simp
  next
    case 3
    then have ends: "proj \<noteq> []" "graphic (last proj)"
      using IsValidName_nonempty IsValidName_ends by auto
    then have "\<not> has_suffix (((if z \<noteq> [] then z @ ''/'' else []) @ ns_prefix @ new @ ''/'') @ proj) sp"
      by (rule graphic_end)
    with 3 ends show ?thesis by simp
  next
    case 4
    then have "\<not> has_suffix proj sp"
      using trimmed_no_space_suffix [OF tok sp] by (auto simp: has_suffix_iff)
    with no_space_suffix_slash [OF sp, of "(if z \<noteq> [] then z @ ''/'' else []) @ ns_prefix @ new" proj] 4
    show ?thesis by auto
  qed
qed

lemma ok_token_rebuild:
  assumes "ok_token tok" "g_Namespace (parseGrant tok) \<noteq> []" "IsValidName new"
    and amb: "\<not> (g_Namespace (parseGrant tok) \<in> set perm_words \<and> g_Project (parseGrant tok) = [])"
  shows "ok_token (rebuild_namespace new tok (parseGrant tok))"
    and "IsValidName newProj \<Longrightarrow> ok_token (rebuild_project new newProj tok (parseGrant tok))"
proof -
  let ?g = "parseGrant tok" and ?s = "projectGrantSuffix tok"
  obtain z b where zb: "parse_zone tok = (z, b)" by fastforce
  then have "g_Zone ?g = z" by (simp add: parseGrant_def)
  then have z: "g_Zone ?g = [] \<or> (\<exists>r. tok = g_Zone ?g @ CHR ''/'' # r)"
    using parse_zone_cases [OF zb] by auto
  have tok: "trimmed tok" using assms by (simp add: ok_token_def)
  have s: "?s \<in> set perm_suffixes \<or> ?s = []" using projectGrantSuffix_mem by blast
  then have comma_s: "CHR '','' \<notin> set ?s" by (auto simp: perm_suffixes_def)
  have comma: "CHR '','' \<notin> set (g_Zone ?g)" "CHR '','' \<notin> set (g_Project ?g)" "CHR '','' \<notin> set new"
    using assms set_parseGrant [of tok] IsValidName_no_sep by (auto simp: ok_token_def)
  have p: "?s \<in> set perm_suffixes \<or> ?s = [] \<and>
      (g_Project ?g = [] \<or> (\<exists>x. tok = x @ CHR ''/'' # g_Project ?g) \<or> IsValidName (g_Project ?g))"
    using s named_token_facts [OF assms(2) amb] by blast
  show "ok_token (rebuild_namespace new tok ?g)"
    using rebuilt_trimmed [OF z tok assms(3) p] comma comma_s
    by (auto simp: ok_token_def rebuild_namespace_def zone_prefix_def ns_prefix_def)
  assume np: "IsValidName newProj"
  then have q: "?s \<in> set perm_suffixes \<or> ?s = [] \<and>
      (newProj = [] \<or> (\<exists>x. tok = x @ CHR ''/'' # newProj) \<or> IsValidName newProj)"
    using s by blast
  show "ok_token (rebuild_project new newProj tok ?g)"
    using rebuilt_trimmed [OF z tok assms(3) q] comma comma_s np IsValidName_no_sep(3) [OF np]
      IsValidName_nonempty [OF np]
    by (auto simp: ok_token_def rebuild_project_def zone_prefix_def ns_prefix_def)
qed

section \<open>Pruning and rewriting as one contract\<close>

lemma prune_tokens_eq:
  "prune_tokens d toks =
     (filter (\<lambda>t. \<not> d (parseGrant t)) toks, length (filter (\<lambda>t. d (parseGrant t)) toks))"
  by (induction toks) (simp_all add: Let_def)

lemma rewrite_tokens_eq:
  "rewrite_tokens hit rebuild toks =
     (map (\<lambda>t. if hit (parseGrant t) then rebuild t (parseGrant t) else t) toks,
      length (filter (\<lambda>t. hit (parseGrant t)) toks))"
  by (induction toks) (simp_all add: Let_def)

text \<open>
  What the cascade relies on when it edits the scope of a principal: \<open>op\<close> rewrites a scope,
  \<open>hit\<close> says which grants it is about, \<open>fresh s t\<close> which tokens it may add to the scope \<open>s\<close>.
\<close>

locale scope_edit =
  fixes op :: "string \<Rightarrow> string \<times> nat"
    and hit :: "grant \<Rightarrow> bool"
    and fresh :: "string \<Rightarrow> string \<Rightarrow> bool"
  assumes no_hit: "\<forall>t\<in>set (scope_tokens s). \<not> hit (parseGrant t) \<Longrightarrow> op s = (s, 0)"
    and survive: "t \<in> set (scope_tokens s) \<Longrightarrow> \<not> hit (parseGrant t) \<Longrightarrow>
                  t \<in> set (scope_tokens (fst (op s)))"
    and origin: "t \<in> set (scope_tokens (fst (op s))) \<Longrightarrow>
                 t \<in> set (scope_tokens s) \<and> \<not> hit (parseGrant t) \<or> fresh s t"
    and nonempty: "scope_tokens s \<noteq> [] \<Longrightarrow> scope_tokens (fst (op s)) \<noteq> []"
begin

lemma super_unchanged: "scope_tokens s = [] \<Longrightarrow> op s = (s, 0)"
  by (rule no_hit) simp

lemma grants_after:
  assumes "g \<in> set (ParseScope (fst (op s)))"
  shows "g \<in> set (ParseScope s) \<and> \<not> hit g \<or> (\<exists>t. fresh s t \<and> g = parseGrant t)
         \<or> scope_tokens s = [] \<and> g = super_grant"
proof (cases "scope_tokens s = []")
  case True
  then have "op s = (s, 0)" by (rule super_unchanged)
  with True assms show ?thesis by (simp add: ParseScope_tokens)
next
  case False
  then obtain t where "t \<in> set (scope_tokens (fst (op s)))" "g = parseGrant t"
    using assms nonempty by (auto simp: ParseScope_tokens)
  with origin False show ?thesis by (fastforce simp: ParseScope_tokens)
qed

lemma grants_kept:
  assumes "g \<in> set (ParseScope s)" "\<not> hit g"
  shows "g \<in> set (ParseScope (fst (op s)))"
proof (cases "scope_tokens s = []")
  case True
  with assms super_unchanged show ?thesis by simp
next
  case False
  then obtain t where "t \<in> set (scope_tokens s)" "g = parseGrant t"
    using assms by (auto simp: ParseScope_tokens)
  with survive assms(2) have "t \<in> set (scope_tokens (fst (op s)))" by blast
  with \<open>g = parseGrant t\<close> show ?thesis by (auto simp: ParseScope_tokens)
qed

text \<open>The level at a target that neither the edited grants nor the added ones reach is unchanged.\<close>

lemma level_elsewhere:
  assumes "\<And>g. g \<in> set (ParseScope s) \<Longrightarrow> hit g \<Longrightarrow> matches g n p \<Longrightarrow> g_Level g = LevelNone"
    and "\<And>t. fresh s t \<Longrightarrow> matches (parseGrant t) n p \<Longrightarrow> g_Level (parseGrant t) = LevelNone"
  shows "EffectiveLevel (ParseScope (fst (op s))) n p = EffectiveLevel (ParseScope s) n p"
proof (rule EffectiveLevel_cong)
  fix g assume m: "matches g n p" "g_Level g \<noteq> LevelNone"
  show "g \<in> set (ParseScope (fst (op s))) \<longleftrightarrow> g \<in> set (ParseScope s)"
  proof
    assume "g \<in> set (ParseScope (fst (op s)))"
    from grants_after [OF this] m assms(2) show "g \<in> set (ParseScope s)"
      by (auto simp: ParseScope_tokens)
  next
    assume "g \<in> set (ParseScope s)"
    with m assms(1) grants_kept show "g \<in> set (ParseScope (fst (op s)))" by blast
  qed
qed

text \<open>An edit that adds only grants of no level never raises a principal anywhere.\<close>

lemma never_raises:
  assumes "\<And>t. fresh s t \<Longrightarrow> g_Level (parseGrant t) = LevelNone"
  shows "EffectiveLevel (ParseScope (fst (op s))) n p \<le> EffectiveLevel (ParseScope s) n p"
proof (rule EffectiveLevel_mono)
  fix g assume "g \<in> set (ParseScope (fst (op s)))" "matches g n p" "g_Level g \<noteq> LevelNone"
  with grants_after assms show "\<exists>h\<in>set (ParseScope s). matches h n p \<and> g_Level g \<le> g_Level h"
    by (fastforce simp: ParseScope_tokens)
qed

end

lemma scope_tokens_concat: "scope_tokens (join_with '','' xs) = concat (map scope_tokens xs)"
proof (induction xs rule: induct_list012)
  case 1
  then show ?case by (simp add: scope_tokens_def)
next
  case (3 x y zs)
  have "scope_tokens (x @ CHR '','' # r) = scope_tokens x @ scope_tokens r" for r
    by (simp add: scope_tokens_def split_on_append2)
  with 3 show ?case by simp
qed simp

lemma scope_tokens_single: "ok_token t \<Longrightarrow> scope_tokens t = [t]"
  using scope_tokens_join [of "[t]"] by simp

lemma concat_single_tokens:
  "(\<And>t. t \<in> set toks \<Longrightarrow> ok_token t) \<Longrightarrow> concat (map scope_tokens toks) = toks"
  by (induction toks) (simp_all add: scope_tokens_single)

lemma ok_token_NoAccess: "ok_token NoAccessScope"
  unfolding ok_token_def NoAccessScope_def by (simp add: trimmed_graphic graphic_def)

lemma parseGrant_NoAccess: "parseGrant NoAccessScope = zero_grant"
  by (simp add: parseGrant_def parse_zone_def parse_body_def NoAccessScope_def zero_grant_def)

lemma pruneScope_tokens:
  "scope_tokens (fst (pruneScope s d)) =
     (if scope_tokens s \<noteq> [] \<and> (\<forall>t\<in>set (scope_tokens s). d (parseGrant t)) then [NoAccessScope]
      else filter (\<lambda>t. \<not> d (parseGrant t)) (scope_tokens s))"
proof -
  have ok: "\<forall>t\<in>set (filter (\<lambda>t. \<not> d (parseGrant t)) (scope_tokens s)). ok_token t"
    using scope_tokens_ok by auto
  have keep: "filter (\<lambda>t. \<not> d (parseGrant t)) (scope_tokens s) = scope_tokens s"
    if "filter (\<lambda>t. d (parseGrant t)) (scope_tokens s) = []"
    using that by (auto simp: filter_empty_conv filter_id_conv)
  show ?thesis
    using scope_tokens_join [OF ok] keep ok_token_NoAccess
    by (auto simp: pruneScope_def prune_tokens_eq Let_def scope_tokens_single filter_empty_conv)
qed

lemma pruneScope_no_hit:
  "\<forall>t\<in>set (scope_tokens s). \<not> d (parseGrant t) \<Longrightarrow> pruneScope s d = (s, 0)"
  by (simp add: pruneScope_def prune_tokens_eq Let_def filter_empty_conv)

lemmas prune_laws = pruneScope_tokens pruneScope_no_hit

interpretation prune_ns: scope_edit
  "\<lambda>s. PruneNamespaceGrants s ns" "\<lambda>g. \<not> g_Wildcard g \<and> g_Namespace g = ns"
  "\<lambda>s t. t = NoAccessScope" for ns
  by unfold_locales
    (auto simp: PruneNamespaceGrants_def prune_laws filter_empty_conv split: if_splits)

interpretation prune_proj: scope_edit
  "\<lambda>s. PruneProjectGrants s ns proj"
  "\<lambda>g. \<not> g_Wildcard g \<and> g_Namespace g = ns \<and> g_Project g = proj"
  "\<lambda>s t. t = NoAccessScope" for ns proj
  by unfold_locales
    (auto simp: PruneProjectGrants_def prune_laws filter_empty_conv split: if_splits)

text \<open>Both rewriters replace a token that is hit by a rebuilt one.\<close>

definition rewrite_scope :: "(grant \<Rightarrow> bool) \<Rightarrow> (string \<Rightarrow> grant \<Rightarrow> string) \<Rightarrow> string \<Rightarrow> string \<times> nat" where
  "rewrite_scope hit rebuild scope =
     (let (out, rewritten) = rewrite_tokens hit rebuild (scope_tokens scope)
      in if rewritten = 0 then (scope, 0) else (join_with '','' out, rewritten))"

lemma rewrite_scope_no_hit:
  "\<forall>t\<in>set (scope_tokens s). \<not> hit (parseGrant t) \<Longrightarrow> rewrite_scope hit rb s = (s, 0)"
  by (simp add: rewrite_scope_def rewrite_tokens_eq filter_empty_conv)

lemma rewrite_scope_tokens:
  "scope_tokens (fst (rewrite_scope hit rb s)) =
     concat (map (\<lambda>t. if hit (parseGrant t) then scope_tokens (rb t (parseGrant t)) else [t])
                 (scope_tokens s))"
proof (cases "\<forall>t\<in>set (scope_tokens s). \<not> hit (parseGrant t)")
  case True
  then show ?thesis by (simp add: rewrite_scope_no_hit concat_single_tokens cong: map_cong)
next
  case False
  then have "scope_tokens (fst (rewrite_scope hit rb s)) = concat (map scope_tokens
      (map (\<lambda>t. if hit (parseGrant t) then rb t (parseGrant t) else t) (scope_tokens s)))"
    by (auto simp: rewrite_scope_def rewrite_tokens_eq filter_empty_conv scope_tokens_concat)
  also have "\<dots> = concat (map (\<lambda>t. if hit (parseGrant t) then scope_tokens (rb t (parseGrant t))
      else [t]) (scope_tokens s))"
    by (auto intro!: arg_cong [where f = concat] scope_tokens_single scope_tokens_ok)
  finally show ?thesis .
qed

lemma RewriteProjectGrants_scope:
  "RewriteProjectGrants s oldNs oldProj newNs newProj =
     rewrite_scope (\<lambda>g. \<not> g_Wildcard g \<and> g_Namespace g = oldNs \<and> g_Project g = oldProj)
       (rebuild_project newNs newProj) s"
  by (simp add: RewriteProjectGrants_def rewrite_scope_def)

lemma RewriteNamespaceGrants_scope:
  "RewriteNamespaceGrants s old new =
     rewrite_scope (\<lambda>g. \<not> g_Wildcard g \<and> g_Namespace g = old) (rebuild_namespace new) s"
  by (simp add: RewriteNamespaceGrants_def rewrite_scope_def)

lemma graphic_in_tokens:
  assumes "c \<in> set s" "c \<noteq> CHR '',''" "\<forall>sp\<in>set go_spaces. c \<notin> set sp"
  shows "scope_tokens s \<noteq> []"
proof -
  have "c \<in> set (join_with '','' (split_on (CHR '','') s))" using assms by simp
  moreover have "set (join_with '','' xs) \<subseteq> insert (CHR '','') (\<Union>x\<in>set xs. set x)" for xs
    by (induction xs rule: induct_list012) auto
  ultimately obtain x where "x \<in> set (split_on (CHR '','') s)" "c \<in> set x"
    using assms(2) by blast
  moreover from this assms(3) have "trim_space x \<noteq> []" using trim_space_keeps by fastforce
  ultimately show ?thesis by (auto simp: scope_tokens_def filter_empty_conv)
qed

lemma rebuilt_tokens_nonempty:
  "scope_tokens (rebuild_project a b t g) \<noteq> []" "scope_tokens (rebuild_namespace a t g) \<noteq> []"
proof -
  have n: "\<forall>sp\<in>set go_spaces. CHR ''n'' \<notin> set sp" by code_simp
  have "CHR ''n'' \<in> set ns_prefix" by code_simp
  then have "CHR ''n'' \<in> set (rebuild_project a b t g)" "CHR ''n'' \<in> set (rebuild_namespace a t g)"
    by (simp_all add: rebuild_project_def rebuild_namespace_def)
  then show "scope_tokens (rebuild_project a b t g) \<noteq> []"
    "scope_tokens (rebuild_namespace a t g) \<noteq> []"
    using graphic_in_tokens n by auto
qed

lemma concat_map_nonempty:
  "xs \<noteq> [] \<Longrightarrow> (\<And>x. f x \<noteq> []) \<Longrightarrow> concat (map f xs) \<noteq> []"
  by (cases xs) auto

lemma rewrite_scope_nonempty:
  "scope_tokens s \<noteq> [] \<Longrightarrow> (\<And>t g. scope_tokens (rb t g) \<noteq> []) \<Longrightarrow>
   scope_tokens (fst (rewrite_scope hit rb s)) \<noteq> []"
  unfolding rewrite_scope_tokens by (rule concat_map_nonempty) auto

lemmas rewrite_laws = rewrite_scope_tokens rewrite_scope_no_hit
  RewriteProjectGrants_scope RewriteNamespaceGrants_scope

interpretation rewrite_proj: scope_edit
  "\<lambda>s. RewriteProjectGrants s oldNs oldProj newNs newProj"
  "\<lambda>g. \<not> g_Wildcard g \<and> g_Namespace g = oldNs \<and> g_Project g = oldProj"
  "\<lambda>s t. \<exists>k\<in>set (scope_tokens s). \<not> g_Wildcard (parseGrant k) \<and> g_Namespace (parseGrant k) = oldNs
     \<and> g_Project (parseGrant k) = oldProj
     \<and> t \<in> set (scope_tokens (rebuild_project newNs newProj k (parseGrant k)))"
  for oldNs oldProj newNs newProj
proof unfold_locales
  show "scope_tokens s \<noteq> [] \<Longrightarrow>
      scope_tokens (fst (RewriteProjectGrants s oldNs oldProj newNs newProj)) \<noteq> []" for s
    by (simp add: RewriteProjectGrants_scope rewrite_scope_nonempty rebuilt_tokens_nonempty)
qed (auto simp: rewrite_laws split: if_splits)

interpretation rewrite_ns: scope_edit
  "\<lambda>s. RewriteNamespaceGrants s old new" "\<lambda>g. \<not> g_Wildcard g \<and> g_Namespace g = old"
  "\<lambda>s t. \<exists>k\<in>set (scope_tokens s). \<not> g_Wildcard (parseGrant k) \<and> g_Namespace (parseGrant k) = old
     \<and> t \<in> set (scope_tokens (rebuild_namespace new k (parseGrant k)))"
  for old new
proof unfold_locales
  show "scope_tokens s \<noteq> [] \<Longrightarrow>
      scope_tokens (fst (RewriteNamespaceGrants s old new)) \<noteq> []" for s
    by (simp add: RewriteNamespaceGrants_scope rewrite_scope_nonempty rebuilt_tokens_nonempty)
qed (auto simp: rewrite_laws split: if_splits)

section \<open>What the package promises\<close>

lemma matches_iff:
  "matches g n p \<longleftrightarrow> g_Zone g = [] \<and>
     (n = [] \<or> g_Wildcard g \<or> g_Namespace g = n \<and> (g_Project g = [] \<or> g_Project g = p))"
  by (auto simp: matches_def)

lemma EffectiveLevel_antisym:
  "(\<And>l. l \<le> EffectiveLevel gs n p \<longleftrightarrow> l \<le> EffectiveLevel hs m q) \<Longrightarrow>
   EffectiveLevel gs n p = EffectiveLevel hs m q"
  by (meson antisym order_refl)

lemma level_pruned:
  assumes "\<not> d super_grant"
  shows "EffectiveLevel (ParseScope (fst (pruneScope s d))) n p =
         EffectiveLevel (filter (\<lambda>g. \<not> d g) (ParseScope s)) n p"
proof (rule EffectiveLevel_antisym)
  show "l \<le> EffectiveLevel (ParseScope (fst (pruneScope s d))) n p \<longleftrightarrow>
      l \<le> EffectiveLevel (filter (\<lambda>g. \<not> d g) (ParseScope s)) n p" for l
    using assms
    by (auto simp: EffectiveLevel_ge ParseScope_tokens pruneScope_tokens parseGrant_NoAccess
        filter_empty_conv zero_grant_def split: if_splits)
qed

lemma super_grant_wildcard [simp]: "g_Wildcard super_grant" "g_Namespace super_grant = []"
  by (simp_all add: super_grant_def zero_grant_def)

lemma dedup_admin_spec:
  "distinct (dedup_admin seen gs) \<and> set (dedup_admin seen gs) =
     {n. n \<noteq> [] \<and> n \<notin> set seen \<and> (\<exists>g\<in>set gs. g_Zone g = [] \<and> \<not> g_Wildcard g \<and>
          g_Namespace g = n \<and> g_Project g = [] \<and> g_Level g = LevelAdmin)}"
  by (induction seen gs rule: dedup_admin.induct) auto

lemma sort_distinct: "distinct xs \<Longrightarrow> sort xs = sorted_list_of_set (set xs)"
  by (simp add: sorted_list_of_set_sort_remdups distinct_remdups_id)

lemma concat_rebuilt:
  "\<forall>t\<in>set ts. h t \<longrightarrow> ok_token (r t) \<Longrightarrow>
   concat (map (\<lambda>t. if h t then scope_tokens (r t) else [t]) ts) = map (\<lambda>t. if h t then r t else t) ts"
  by (induction ts) (simp_all add: scope_tokens_single)

lemma rewrite_parse:
  assumes "\<And>t. t \<in> set (scope_tokens s) \<Longrightarrow> hit (parseGrant t) \<Longrightarrow>
             ok_token (rb t (parseGrant t)) \<and> parseGrant (rb t (parseGrant t)) = upd (parseGrant t)"
    and "\<not> hit super_grant"
  shows "ParseScope (fst (rewrite_scope hit rb s)) =
         map (\<lambda>g. if hit g then upd g else g) (ParseScope s)"
proof -
  have "scope_tokens (fst (rewrite_scope hit rb s)) =
      map (\<lambda>t. if hit (parseGrant t) then rb t (parseGrant t) else t) (scope_tokens s)"
    unfolding rewrite_scope_tokens using assms(1) by (intro concat_rebuilt) auto
  then show ?thesis using assms by (auto simp: ParseScope_tokens)
qed

text \<open>
  C37: the decision.  A call is allowed exactly when no level is asked for, or some grant of the scope
  that names no zone covers the target and reaches the level.  A zoned grant never authorizes.
\<close>

theorem Authorize_iff:
  "Authorize scope ns proj required = None \<longleftrightarrow>
     required = LevelNone \<or>
     (\<exists>g\<in>set (ParseScope scope). g_Zone g = [] \<and>
        (ns = [] \<or> g_Wildcard g \<or> g_Namespace g = ns \<and> (g_Project g = [] \<or> g_Project g = proj)) \<and>
        required \<le> g_Level g)"
  by (simp add: Authorize_def EffectiveLevel_ge matches_iff Let_def)

text \<open>
  after a namespace is deleted, a scope decides everywhere as the grants that did not name the
  namespace decide; a scope that held nothing else is left with no authority, not with the
  authority of an empty scope.
\<close>

theorem PruneNamespaceGrants_exact:
  "EffectiveLevel (ParseScope (fst (PruneNamespaceGrants s ns))) n p =
   EffectiveLevel (filter (\<lambda>g. \<not> (\<not> g_Wildcard g \<and> g_Namespace g = ns)) (ParseScope s)) n p"
  using level_pruned [of "\<lambda>g. \<not> g_Wildcard g \<and> g_Namespace g = ns" s n p]
  by (simp add: PruneNamespaceGrants_def)

text \<open>
  pruning a namespace or a project never raises a principal at any target.
\<close>

theorem Prune_never_raises:
  "EffectiveLevel (ParseScope (fst (PruneNamespaceGrants s ns))) n p \<le> EffectiveLevel (ParseScope s) n p \<and>
   EffectiveLevel (ParseScope (fst (PruneProjectGrants s ns proj))) n p \<le> EffectiveLevel (ParseScope s) n p"
  by (intro conjI prune_ns.never_raises prune_proj.never_raises)
    (simp_all add: parseGrant_NoAccess zero_grant_def)

text \<open>
  deleting a project removes the grants that name it and changes no decision about another
  project or another namespace.
\<close>

theorem PruneProjectGrants_elsewhere:
  assumes "proj \<noteq> []" "n \<noteq> []" "(n, p) \<noteq> (ns, proj)"
  shows "EffectiveLevel (ParseScope (fst (PruneProjectGrants s ns proj))) n p =
         EffectiveLevel (ParseScope s) n p"
  by (rule prune_proj.level_elsewhere)
    (use assms in \<open>auto simp: matches_iff parseGrant_NoAccess zero_grant_def\<close>)

lemma PruneProjectGrants_elsewhere_witness:
  "EffectiveLevel (ParseScope (fst (PruneProjectGrants ''ops:wiki:admin, ops:blog:rw'' ''ops'' ''wiki'')))
     ''ops'' ''blog'' = EffectiveLevel (ParseScope ''ops:wiki:admin, ops:blog:rw'') ''ops'' ''blog''"
  by (rule PruneProjectGrants_elsewhere) simp_all

text \<open>
  moving a project re-homes exactly the grants that name it: the parsed scope is the old one with
  namespace and project exchanged in those grants, every level, zone and other grant as before.
\<close>

theorem RewriteProjectGrants_relabels:
  assumes "oldNs \<noteq> []" "oldProj \<noteq> []" "IsValidName newNs" "IsValidName newProj"
  shows "ParseScope (fst (RewriteProjectGrants s oldNs oldProj newNs newProj)) =
         map (\<lambda>g. if \<not> g_Wildcard g \<and> g_Namespace g = oldNs \<and> g_Project g = oldProj
                  then g\<lparr>g_Namespace := newNs, g_Project := newProj\<rparr> else g) (ParseScope s)"
  unfolding RewriteProjectGrants_scope
  by (rule rewrite_parse)
    (use assms ok_token_rebuild(2) parse_rebuild_project scope_tokens_ok in auto)

lemma RewriteProjectGrants_relabels_witness:
  "ParseScope (fst (RewriteProjectGrants ''ops:wiki:r, *:r'' ''ops'' ''wiki'' ''eng'' ''docs'')) =
   map (\<lambda>g. if \<not> g_Wildcard g \<and> g_Namespace g = ''ops'' \<and> g_Project g = ''wiki''
            then g\<lparr>g_Namespace := ''eng'', g_Project := ''docs''\<rparr> else g) (ParseScope ''ops:wiki:r, *:r'')"
  by (rule RewriteProjectGrants_relabels) (simp_all, code_simp+)

text \<open>
  renaming a namespace re-homes exactly the grants on it, for every namespace whose name is not
  one of the permission words.
\<close>

theorem RewriteNamespaceGrants_relabels:
  assumes "old \<noteq> []" "old \<notin> {''admin'', ''rw'', ''r''}" "IsValidName new"
  shows "ParseScope (fst (RewriteNamespaceGrants s old new)) =
         map (\<lambda>g. if \<not> g_Wildcard g \<and> g_Namespace g = old then g\<lparr>g_Namespace := new\<rparr> else g)
           (ParseScope s)"
  unfolding RewriteNamespaceGrants_scope
  by (rule rewrite_parse)
    (use assms ok_token_rebuild(1) parse_rebuild_namespace scope_tokens_ok in
      \<open>auto simp: perm_words_def\<close>)

lemma RewriteNamespaceGrants_relabels_witness:
  "ParseScope (fst (RewriteNamespaceGrants ''eu/namespace:ops, ops:wiki:admin'' ''ops'' ''eng'')) =
   map (\<lambda>g. if \<not> g_Wildcard g \<and> g_Namespace g = ''ops'' then g\<lparr>g_Namespace := ''eng''\<rparr> else g)
     (ParseScope ''eu/namespace:ops, ops:wiki:admin'')"
  by (rule RewriteNamespaceGrants_relabels) (simp_all, code_simp)

text \<open>
  renaming a namespace that is called \<open>admin\<close> turns a write grant into an admin grant: the suffix
  is read off the whole token, where the last word of \<open>namespace:admin\<close> looks like a level.
\<close>

theorem RewriteNamespaceGrants_admin_escalates:
  "EffectiveLevel (ParseScope ''namespace:admin'') ''admin'' p = LevelWrite \<and>
   RewriteNamespaceGrants ''namespace:admin'' ''admin'' ''ops'' = (''namespace:ops:admin'', 1) \<and>
   EffectiveLevel (ParseScope (fst (RewriteNamespaceGrants ''namespace:admin'' ''admin'' ''ops''))) ''ops'' p
     = LevelAdmin"
proof -
  have r: "RewriteNamespaceGrants ''namespace:admin'' ''admin'' ''ops'' = (''namespace:ops:admin'', 1)"
    by code_simp
  have g1: "ParseScope ''namespace:admin'' =
      [zero_grant\<lparr>g_Namespace := ''admin'', g_Level := LevelWrite\<rparr>]" by code_simp
  have g2: "ParseScope ''namespace:ops:admin'' =
      [zero_grant\<lparr>g_Namespace := ''ops'', g_Level := LevelAdmin\<rparr>]" by code_simp
  show ?thesis unfolding r fst_conv g1 g2
    by (simp add: EffectiveLevel_def matches_def zero_grant_def less_level_def)
qed

text \<open>
  the namespaces an account administers on its own: those with an un-zoned, whole-namespace admin
  grant, listed once and in order; a super-user gets the flag instead.
\<close>

theorem AdminNamespaces_spec:
  "AdminNamespaces scope =
     (sorted_list_of_set {n. n \<noteq> [] \<and> \<not> IsSuperUser scope \<and> (\<exists>g\<in>set (ParseScope scope).
          g_Zone g = [] \<and> \<not> g_Wildcard g \<and> g_Namespace g = n \<and> g_Project g = [] \<and> g_Level g = LevelAdmin)},
      IsSuperUser scope)"
proof (cases "IsSuperUser scope")
  case False
  have "sort (dedup_admin [] (ParseScope scope)) = sorted_list_of_set (set (dedup_admin [] (ParseScope scope)))"
    using dedup_admin_spec by (intro sort_distinct) blast
  with False show ?thesis by (simp add: AdminNamespaces_def dedup_admin_spec)
qed (simp add: AdminNamespaces_def)

end
