(* ===== verification/KV.thy ===== *)
theory KV
  imports Go_Strings
begin

text \<open>
  Finite maps as association lists kept in key order: the shape of a directory listing
  (\<open>os.ReadDir\<close> sorts by name), of a bucket (a cursor runs in key order) and of the in-memory
  tables whose iteration the code sorts.  \<open>map_of\<close> reads one; the lemmas give the read of every
  update, the order, and extensionality: two ordered lists with the same reads are equal.
\<close>

fun kv_put :: "'k::linorder \<Rightarrow> 'v \<Rightarrow> ('k \<times> 'v) list \<Rightarrow> ('k \<times> 'v) list" where
  "kv_put k v [] = [(k, v)]"
| "kv_put k v ((k', v') # r) =
     (if k < k' then (k, v) # (k', v') # r
      else if k = k' then (k, v) # r
      else (k', v') # kv_put k v r)"

definition kv_del :: "'k \<Rightarrow> ('k \<times> 'v) list \<Rightarrow> ('k \<times> 'v) list" where
  "kv_del k xs = filter (\<lambda>p. fst p \<noteq> k) xs"

definition kv_ok :: "('k::linorder \<times> 'v) list \<Rightarrow> bool" where
  "kv_ok xs \<longleftrightarrow> sorted_wrt (<) (map fst xs)"

lemma kv_ok_Nil [simp, intro]: "kv_ok []"
  by (simp add: kv_ok_def)

lemma kv_ok_Cons: "kv_ok ((k, v) # r) \<longleftrightarrow> (\<forall>k'\<in>fst ` set r. k < k') \<and> kv_ok r"
  by (auto simp: kv_ok_def)

lemma map_of_kv_put [simp]: "map_of (kv_put k v xs) = (map_of xs)(k \<mapsto> v)"
  by (induction k v xs rule: kv_put.induct) (auto simp: fun_eq_iff)

lemma map_of_kv_del [simp]: "map_of (kv_del k xs) = (map_of xs)(k := None)"
  by (induction xs) (auto simp: kv_del_def fun_eq_iff)

lemma kv_keys_put [simp]: "fst ` set (kv_put k v xs) = insert k (fst ` set xs)"
  by (induction k v xs rule: kv_put.induct) auto

lemma kv_keys_del [simp]: "fst ` set (kv_del k xs) = fst ` set xs - {k}"
  by (auto simp: kv_del_def image_iff)

lemma kv_ok_put [simp, intro]: "kv_ok xs \<Longrightarrow> kv_ok (kv_put k v xs)"
proof (induction k v xs rule: kv_put.induct)
  case (2 k v k' v' r)
  have "\<forall>x\<in>fst ` set (kv_put k v r). k' < x" if "\<not> k < k'" "k \<noteq> k'"
    using 2(2) that by (auto simp: kv_ok_Cons)
  with 2 show ?case by (fastforce simp: kv_ok_Cons)
qed (simp add: kv_ok_Cons)

lemma kv_ok_filter: "kv_ok xs \<Longrightarrow> kv_ok (filter P xs)"
  unfolding kv_ok_def by (induction xs) auto

lemma kv_ok_del [simp, intro]: "kv_ok xs \<Longrightarrow> kv_ok (kv_del k xs)"
  unfolding kv_del_def by (rule kv_ok_filter)

lemma kv_ok_distinct: "kv_ok xs \<Longrightarrow> distinct (map fst xs)"
  unfolding kv_ok_def by (simp add: strict_sorted_iff)

lemma kv_mem_iff: "kv_ok xs \<Longrightarrow> (k, v) \<in> set xs \<longleftrightarrow> map_of xs k = Some v"
  by (simp add: kv_ok_distinct)

lemma distinct_mem_map_of: "distinct (map fst xs) \<Longrightarrow> (k, v) \<in> set xs \<longleftrightarrow> map_of xs k = Some v"
  by simp

lemma distinct_key_unique:
  "distinct (map fst xs) \<Longrightarrow> p \<in> set xs \<Longrightarrow> q \<in> set xs \<Longrightarrow> fst q = fst p \<Longrightarrow> q = p"
  by (metis distinct_mem_map_of option.inject prod.collapse)

lemma kv_rebuild: "kv_ok xs \<Longrightarrow> map (\<lambda>k. (k, the (map_of xs k))) (map fst xs) = xs"
  using kv_mem_iff [of xs] by (auto intro!: map_idI)

lemma kv_ok_ext:
  assumes "kv_ok xs" "kv_ok ys" "map_of xs = map_of ys"
  shows "xs = ys"
proof -
  have "map fst xs = map fst ys"
    using assms by (metis dom_map_of_conv_image_fst kv_ok_def list.set_map strict_sorted_equal)
  then show ?thesis using assms by (metis kv_rebuild)
qed

lemma kv_put_del_commute:
  assumes "kv_ok xs" "k \<noteq> k'"
  shows "kv_put k v (kv_del k' xs) = kv_del k' (kv_put k v xs)"
  by (rule kv_ok_ext) (use assms in \<open>auto simp: fun_eq_iff\<close>)

lemma kv_del_put_same: "kv_ok xs \<Longrightarrow> map_of xs k = None \<Longrightarrow> kv_del k (kv_put k v xs) = xs"
  by (rule kv_ok_ext) (auto simp: fun_eq_iff)

lemma kv_del_absent: "map_of xs k = None \<Longrightarrow> kv_del k xs = xs"
  by (auto simp: kv_del_def filter_id_conv map_of_eq_None_iff)

lemma kv_put_same: "kv_ok xs \<Longrightarrow> map_of xs k = Some v \<Longrightarrow> kv_put k v xs = xs"
  by (rule kv_ok_ext) (auto simp: fun_eq_iff)

text \<open>The sum of a measure over the values, as the code caches it.\<close>

definition kv_sum :: "('v \<Rightarrow> int) \<Rightarrow> ('k \<times> 'v) list \<Rightarrow> int" where
  "kv_sum f xs = sum_list (map (\<lambda>p. f (snd p)) xs)"

lemma kv_sum_Nil [simp]: "kv_sum f [] = 0"
  by (simp add: kv_sum_def)

lemma kv_sum_put:
  "kv_ok xs \<Longrightarrow> kv_sum f (kv_put k v xs) =
     kv_sum f xs + f v - (case map_of xs k of None \<Rightarrow> 0 | Some w \<Rightarrow> f w)"
proof (induction k v xs rule: kv_put.induct)
  case (2 k v k' v' r)
  have "map_of r k = None" if "k \<le> k'"
    using 2(2) that by (force simp: kv_ok_Cons map_of_eq_None_iff)
  with 2 show ?case by (auto simp: kv_sum_def kv_ok_Cons)
qed (simp add: kv_sum_def)

lemma kv_sum_del:
  "kv_ok xs \<Longrightarrow> kv_sum f (kv_del k xs) =
     kv_sum f xs - (case map_of xs k of None \<Rightarrow> 0 | Some w \<Rightarrow> f w)"
proof (induction xs)
  case (Cons p r)
  obtain k' v' where p: "p = (k', v')" by fastforce
  have "kv_del k r = r" if "k = k'"
    using Cons.prems p that by (intro kv_del_absent) (auto simp: kv_ok_Cons map_of_eq_None_iff)
  with Cons p show ?case by (auto simp: kv_sum_def kv_del_def kv_ok_Cons)
qed (simp add: kv_sum_def kv_del_def)

text \<open>Filling and clearing a map with the rows of a list.\<close>

definition kv_puts :: "('k::linorder \<times> 'v) list \<Rightarrow> ('k \<times> 'v) list \<Rightarrow> ('k \<times> 'v) list" where
  "kv_puts ps xs = fold (\<lambda>(k, v). kv_put k v) ps xs"

lemma kv_puts_simps [simp]: "kv_puts [] xs = xs" "kv_puts ((k, v) # ps) xs = kv_puts ps (kv_put k v xs)"
  by (simp_all add: kv_puts_def)

lemma kv_ok_puts [simp]: "kv_ok xs \<Longrightarrow> kv_ok (kv_puts ps xs)"
proof (induction ps arbitrary: xs)
  case (Cons p ps)
  then show ?case by (cases p) simp
qed simp

lemma map_of_kv_puts:
  "distinct (map fst ps) \<Longrightarrow> map_of (kv_puts ps xs) = map_of xs ++ map_of ps"
proof (induction ps arbitrary: xs)
  case (Cons p ps)
  obtain k v where p: "p = (k, v)" by fastforce
  with Cons.prems have "k \<notin> dom (map_of ps)" by (simp add: dom_map_of_conv_image_fst)
  then show ?case using Cons p by (simp del: fun_upd_apply add: map_add_upd_left)
qed simp

lemma kv_sum_puts:
  "kv_ok xs \<Longrightarrow> distinct (map fst ps) \<Longrightarrow> fst ` set ps \<inter> fst ` set xs = {} \<Longrightarrow>
   kv_sum f (kv_puts ps xs) = kv_sum f xs + (\<Sum>p\<leftarrow>ps. f (snd p))"
proof (induction ps arbitrary: xs)
  case (Cons p ps)
  then have "map_of xs (fst p) = None" by (auto simp: map_of_eq_None_iff)
  with Cons show ?case by (cases p) (auto simp: kv_sum_put)
qed simp

lemma fold_kv_del:
  "fold (\<lambda>p. kv_del (fst p)) ps xs = filter (\<lambda>p. fst p \<notin> fst ` set ps) xs"
  by (induction ps arbitrary: xs) (auto simp: kv_del_def intro!: filter_cong)

end
