(* ===== verification/Go_Codec.thy ===== *)
theory Go_Codec
  imports Go_Strings "HOL-Library.Word"
begin

unbundle bit_operations_syntax

text \<open>
  The codecs of Go's standard library the code calls: \<open>fmt.Sprintf("%016x")\<close> and
  \<open>strconv.ParseUint(_, 16, 64)\<close> on \<^typ>\<open>64 word\<close>, \<open>encoding/hex\<close>, \<open>base64.StdEncoding\<close>,
  \<open>crypto/sha256\<close> and \<open>hash/fnv\<close> (32-bit FNV-1a).  All are executable.
\<close>

section \<open>Hexadecimal\<close>

definition hex_alphabet :: string where
  "hex_alphabet = ''0123456789abcdef''"

definition hex_char :: "nat \<Rightarrow> char" where
  "hex_char n = hex_alphabet ! n"

definition lower_char :: "char \<Rightarrow> char" where
  "lower_char c = (if CHR ''A'' \<le> c \<and> c \<le> CHR ''Z'' then char_of ((of_char c :: nat) + 32) else c)"

definition hex_val :: "char \<Rightarrow> nat option" where
  "hex_val c = index_byte hex_alphabet (lower_char c)"

fun hex_digits :: "nat \<Rightarrow> nat \<Rightarrow> string" where
  "hex_digits 0 n = []"
| "hex_digits (Suc k) n = hex_digits k (n div 16) @ [hex_char (n mod 16)]"

fun hex_acc :: "nat \<Rightarrow> string \<Rightarrow> nat option" where
  "hex_acc n [] = Some n"
| "hex_acc n (c # cs) = (case hex_val c of None \<Rightarrow> None | Some d \<Rightarrow> hex_acc (16 * n + d) cs)"

text \<open>\<open>strconv.ParseUint(s, 16, 64)\<close>: an empty string, a byte that is no digit and a value out of
  range are errors.\<close>

definition parse_uint16 :: "string \<Rightarrow> 64 word option" where
  "parse_uint16 s =
     (if s = [] then None
      else case hex_acc 0 s of
             None \<Rightarrow> None
           | Some n \<Rightarrow> if n < 2 ^ 64 then Some (word_of_nat n) else None)"

definition hex64 :: "64 word \<Rightarrow> string" where
  "hex64 w = hex_digits 16 (unat w)"

definition hex_bytes :: "string \<Rightarrow> string" where
  "hex_bytes bs = concat (map (\<lambda>b. hex_digits 2 (of_char b)) bs)"

lemma hex_val_char [simp]: "n < 16 \<Longrightarrow> hex_val (hex_char n) = Some n"
proof -
  have "\<forall>k\<in>set [0..<16]. hex_val (hex_char k) = Some k" by code_simp
  then show "n < 16 \<Longrightarrow> ?thesis" by simp
qed

lemma hex_acc_append:
  "hex_acc n (s @ t) = (case hex_acc n s of None \<Rightarrow> None | Some m \<Rightarrow> hex_acc m t)"
  by (induction n s rule: hex_acc.induct) (auto split: option.splits)

lemma hex_acc_digits: "n < 16 ^ k \<Longrightarrow> hex_acc m (hex_digits k n) = Some (m * 16 ^ k + n)"
proof (induction k arbitrary: n)
  case (Suc k)
  then have "n div 16 < 16 ^ k" by (simp add: less_mult_imp_div_less mult.commute)
  with Suc.IH show ?case by (simp add: hex_acc_append algebra_simps)
qed simp

lemma length_hex_digits [simp]: "length (hex_digits k n) = k"
  by (induction k arbitrary: n) auto

lemma hex_char_mem: "n < 16 \<Longrightarrow> hex_char n \<in> set hex_alphabet"
  unfolding hex_char_def by (rule nth_mem) (simp add: hex_alphabet_def)

lemma set_hex_digits: "set (hex_digits k n) \<subseteq> set hex_alphabet"
  by (induction k arbitrary: n) (auto simp: hex_char_mem)

lemma parse_uint16_hex64 [simp, go_simps]: "parse_uint16 (hex64 w) = Some w"
proof -
  have "unat w < 2 ^ 64" using unsigned_less [of w, where ?'a = nat] by simp
  moreover from this have "unat w < 16 ^ 16" by simp
  moreover have "length (hex64 w) \<noteq> 0" by (simp add: hex64_def)
  then have "hex64 w \<noteq> []" by blast
  ultimately show ?thesis by (simp add: parse_uint16_def hex64_def hex_acc_digits)
qed

lemma length_hex64 [simp]: "length (hex64 w) = 16"
  by (simp add: hex64_def)

lemma hex64_inject [simp]: "hex64 v = hex64 w \<longleftrightarrow> v = w"
  by (metis option.inject parse_uint16_hex64)

lemma length_hex_bytes [simp]: "length (hex_bytes bs) = 2 * length bs"
  by (induction bs) (simp_all add: hex_bytes_def)

lemma hex_digits_inject:
  assumes "hex_digits k a = hex_digits k b" "a < 16 ^ k" "b < 16 ^ k"
  shows "a = b"
proof -
  have "Some (0 * 16 ^ k + a) = Some (0 * 16 ^ k + b)"
    using assms by (metis hex_acc_digits)
  then show ?thesis by simp
qed

lemma hex_bytes_inject: "hex_bytes a = hex_bytes b \<Longrightarrow> a = b"
proof (induction a arbitrary: b)
  case Nil
  then have "length (hex_bytes b) = 0" by (simp add: hex_bytes_def)
  then show ?case by simp
next
  case (Cons x xs)
  then obtain y ys where b: "b = y # ys"
    using length_hex_bytes [of b] length_hex_bytes [of "x # xs"] by (cases b) auto
  have lt: "(of_char c :: nat) < 16 ^ 2" for c using nat_of_char_less_256 [of c] by simp
  from Cons.prems b have "hex_digits 2 (of_char x) = hex_digits 2 (of_char y)" "hex_bytes xs = hex_bytes ys"
    by (simp_all add: hex_bytes_def)
  with Cons.IH hex_digits_inject [OF _ lt lt] b show ?case by simp
qed

section \<open>Base64\<close>

definition b64_alphabet :: string where
  "b64_alphabet = ''ABCDEFGHIJKLMNOPQRSTUVWXYZabcdefghijklmnopqrstuvwxyz0123456789+/''"

definition b64_char :: "nat \<Rightarrow> char" where
  "b64_char n = b64_alphabet ! n"

definition b64_val :: "char \<Rightarrow> nat option" where
  "b64_val c = index_byte b64_alphabet c"

fun b64_quads :: "nat list \<Rightarrow> string" where
  "b64_quads [] = []"
| "b64_quads [a] = [b64_char (a div 4), b64_char (a mod 4 * 16), CHR ''='', CHR ''='']"
| "b64_quads [a, b] =
     [b64_char (a div 4), b64_char (a mod 4 * 16 + b div 16), b64_char (b mod 16 * 4), CHR ''='']"
| "b64_quads (a # b # c # r) =
     [b64_char (a div 4), b64_char (a mod 4 * 16 + b div 16), b64_char (b mod 16 * 4 + c div 64),
      b64_char (c mod 64)] @ b64_quads r"

definition b64_encode :: "string \<Rightarrow> string" where
  "b64_encode bs = b64_quads (map of_char bs)"

text \<open>
  \<open>DecodeString\<close> skips carriage returns and line feeds, wants padding to a multiple of four and
  does not look at the unused bits of the last digit.
\<close>

fun b64_unquads :: "string \<Rightarrow> nat list option" where
  "b64_unquads [] = Some []"
| "b64_unquads (p # q # r # s # rest) =
     (case (b64_val p, b64_val q) of
        (Some w, Some x) \<Rightarrow>
          (if r = CHR ''='' then
             (if s = CHR ''='' \<and> rest = [] then Some [w * 4 + x div 16] else None)
           else
             (case b64_val r of
                None \<Rightarrow> None
              | Some y \<Rightarrow>
                  (if s = CHR ''='' then
                     (if rest = [] then Some [w * 4 + x div 16, x mod 16 * 16 + y div 4] else None)
                   else
                     (case (b64_val s, b64_unquads rest) of
                        (Some z, Some ns) \<Rightarrow>
                          Some ([w * 4 + x div 16, x mod 16 * 16 + y div 4, y mod 4 * 64 + z] @ ns)
                      | _ \<Rightarrow> None))))
      | _ \<Rightarrow> None)"
| "b64_unquads _ = None"

definition b64_decode :: "string \<Rightarrow> string option" where
  "b64_decode s =
     map_option (map char_of)
       (b64_unquads (filter (\<lambda>c. c \<noteq> CHR 0x0A \<and> c \<noteq> CHR 0x0D) s))"

lemma b64_val_char [simp]: "n < 64 \<Longrightarrow> b64_val (b64_char n) = Some n"
proof -
  have "\<forall>k\<in>set [0..<64]. b64_val (b64_char k) = Some k" by code_simp
  then show "n < 64 \<Longrightarrow> ?thesis" by simp
qed

lemma b64_char_plain:
  assumes "n < 64"
  shows "b64_char n \<noteq> CHR ''=''" "b64_char n \<noteq> CHR 0x0A" "b64_char n \<noteq> CHR 0x0D"
proof -
  have "\<forall>k\<in>set [0..<64]. b64_char k \<noteq> CHR ''='' \<and> b64_char k \<noteq> CHR 0x0A \<and> b64_char k \<noteq> CHR 0x0D"
    by code_simp
  then show "b64_char n \<noteq> CHR ''=''" "b64_char n \<noteq> CHR 0x0A" "b64_char n \<noteq> CHR 0x0D"
    using assms by simp_all
qed

text \<open>A byte is split at any of the three places, and the digits put it together again.\<close>

lemma byte_split:
  assumes "n < (256 :: nat)"
  shows "\<exists>u v. n = u * 4 + v \<and> v < 4 \<and> u < 64" "\<exists>u v. n = u * 16 + v \<and> v < 16 \<and> u < 16"
    "\<exists>u v. n = u * 64 + v \<and> v < 64 \<and> u < 4"
proof -
  show "\<exists>u v. n = u * 4 + v \<and> v < 4 \<and> u < 64"
    using assms by (intro exI [of _ "n div 4"] exI [of _ "n mod 4"]) auto
  show "\<exists>u v. n = u * 16 + v \<and> v < 16 \<and> u < 16"
    using assms by (intro exI [of _ "n div 16"] exI [of _ "n mod 16"]) auto
  show "\<exists>u v. n = u * 64 + v \<and> v < 64 \<and> u < 4"
    using assms by (intro exI [of _ "n div 64"] exI [of _ "n mod 64"]) auto
qed
lemma b64_unquads_quads: "\<forall>n\<in>set ns. n < 256 \<Longrightarrow> b64_unquads (b64_quads ns) = Some ns"
proof (induction ns rule: b64_quads.induct)
  case (2 a)
  then obtain u v where "a = u * 4 + v" "v < 4" "u < 64" using byte_split(1) [of a] by auto
  then show ?case by simp
next
  case (3 a b)
  then obtain u v x y where "a = u * 4 + v" "v < 4" "u < 64" "b = x * 16 + y" "y < 16" "x < 16"
    using byte_split(1) [of a] byte_split(2) [of b] by auto
  then show ?case by (simp add: b64_char_plain)
next
  case (4 a b c r)
  then obtain u v x y p q where "a = u * 4 + v" "v < 4" "u < 64" "b = x * 16 + y" "y < 16" "x < 16"
    "c = p * 64 + q" "q < 64" "p < 4"
    using byte_split(1) [of a] byte_split(2) [of b] byte_split(3) [of c] by auto
  with 4 show ?case by (simp add: b64_char_plain)
qed simp

lemma b64_quads_plain:
  "\<forall>n\<in>set ns. n < 256 \<Longrightarrow> \<forall>c\<in>set (b64_quads ns). c \<noteq> CHR 0x0A \<and> c \<noteq> CHR 0x0D"
proof (induction ns rule: b64_quads.induct)
  case (2 a)
  then show ?case by (simp add: b64_char_plain less_mult_imp_div_less)
next
  case (3 a b)
  then obtain u v x y where "a = u * 4 + v" "v < 4" "u < 64" "b = x * 16 + y" "y < 16" "x < 16"
    using byte_split(1) [of a] byte_split(2) [of b] by auto
  then show ?case by (simp add: b64_char_plain)
next
  case (4 a b c r)
  then obtain u v x y p q where "a = u * 4 + v" "v < 4" "u < 64" "b = x * 16 + y" "y < 16" "x < 16"
    "c = p * 64 + q" "q < 64" "p < 4"
    using byte_split(1) [of a] byte_split(2) [of b] byte_split(3) [of c] by auto
  with 4 show ?case by (simp add: b64_char_plain)
qed simp
lemma b64_decode_encode [simp, go_simps]: "b64_decode (b64_encode bs) = Some bs"
proof -
  have b: "\<forall>n\<in>set (map of_char bs). n < (256 :: nat)" by auto
  then have "filter (\<lambda>c. c \<noteq> CHR 0x0A \<and> c \<noteq> CHR 0x0D) (b64_quads (map of_char bs))
      = b64_quads (map of_char bs)"
    using b64_quads_plain by (intro filter_True) blast
  then show ?thesis unfolding b64_decode_def b64_encode_def
    by (simp only: b64_unquads_quads [OF b]) (simp add: comp_def)
qed

section \<open>SHA-256 and FNV-1a\<close>

definition sha_K :: "32 word list" where
  "sha_K =
   [1116352408, 1899447441, 3049323471, 3921009573, 961987163, 1508970993, 2453635748, 2870763221,
    3624381080, 310598401, 607225278, 1426881987, 1925078388, 2162078206, 2614888103, 3248222580,
    3835390401, 4022224774, 264347078, 604807628, 770255983, 1249150122, 1555081692, 1996064986,
    2554220882, 2821834349, 2952996808, 3210313671, 3336571891, 3584528711, 113926993, 338241895,
    666307205, 773529912, 1294757372, 1396182291, 1695183700, 1986661051, 2177026350, 2456956037,
    2730485921, 2820302411, 3259730800, 3345764771, 3516065817, 3600352804, 4094571909, 275423344,
    430227734, 506948616, 659060556, 883997877, 958139571, 1322822218, 1537002063, 1747873779,
    1955562222, 2024104815, 2227730452, 2361852424, 2428436474, 2756734187, 3204031479, 3329325298]"

type_synonym sha_state =
  "32 word \<times> 32 word \<times> 32 word \<times> 32 word \<times> 32 word \<times> 32 word \<times> 32 word \<times> 32 word"

definition sha_init :: sha_state where
  "sha_init = (1779033703, 3144134277, 1013904242, 2773480762,
               1359893119, 2600822924, 528734635, 1541459225)"

text \<open>The message schedule, newest word first.\<close>

fun sha_schedule :: "nat \<Rightarrow> 32 word list \<Rightarrow> 32 word list" where
  "sha_schedule 0 ws = ws"
| "sha_schedule (Suc n) ws =
     (let x = ws ! 14; y = ws ! 1;
          s0 = word_rotr 7 x XOR word_rotr 18 x XOR drop_bit 3 x;
          s1 = word_rotr 17 y XOR word_rotr 19 y XOR drop_bit 10 y
      in sha_schedule n ((ws ! 15 + s0 + ws ! 6 + s1) # ws))"

fun sha_round :: "sha_state \<Rightarrow> 32 word \<times> 32 word \<Rightarrow> sha_state" where
  "sha_round (a, b, c, d, e, f, g, h) (k, w) =
     (let s1 = word_rotr 6 e XOR word_rotr 11 e XOR word_rotr 25 e;
          ch = (e AND f) XOR (NOT e AND g);
          t1 = h + s1 + ch + k + w;
          s0 = word_rotr 2 a XOR word_rotr 13 a XOR word_rotr 22 a;
          maj = (a AND b) XOR (a AND c) XOR (b AND c)
      in (t1 + (s0 + maj), a, b, c, d + t1, e, f, g))"

fun sha_add :: "sha_state \<Rightarrow> sha_state \<Rightarrow> sha_state" where
  "sha_add (a, b, c, d, e, f, g, h) (a', b', c', d', e', f', g', h') =
     (a + a', b + b', c + c', d + d', e + e', f + f', g + g', h + h')"

definition sha_block :: "sha_state \<Rightarrow> 32 word list \<Rightarrow> sha_state" where
  "sha_block st ws = sha_add st (foldl sha_round st (zip sha_K (rev (sha_schedule 48 (rev ws)))))"

fun be_words :: "int list \<Rightarrow> 32 word list" where
  "be_words (a # b # c # d # r) =
     word_of_int (((a * 256 + b) * 256 + c) * 256 + d) # be_words r"
| "be_words _ = []"

fun be_bytes :: "nat \<Rightarrow> int \<Rightarrow> int list" where
  "be_bytes 0 n = []"
| "be_bytes (Suc k) n = be_bytes k (n div 256) @ [n mod 256]"

definition sha_pad :: "int list \<Rightarrow> int list" where
  "sha_pad bs =
     (let z = (119 - length bs mod 64) mod 64 in
      bs @ [128] @ replicate z 0 @ be_bytes 8 (8 * int (length bs)))"

fun sha_blocks :: "nat \<Rightarrow> sha_state \<Rightarrow> 32 word list \<Rightarrow> sha_state" where
  "sha_blocks 0 st ws = st"
| "sha_blocks (Suc n) st ws = sha_blocks n (sha_block st (take 16 ws)) (drop 16 ws)"

fun sha_out :: "sha_state \<Rightarrow> string" where
  "sha_out (a, b, c, d, e, f, g, h) =
     map char_of (concat (map (\<lambda>w. be_bytes 4 (uint w)) [a, b, c, d, e, f, g, h]))"

definition sha256 :: "string \<Rightarrow> string" where
  "sha256 bs =
     (let ws = be_words (sha_pad (map of_char bs)) in sha_out (sha_blocks (length ws div 16) sha_init ws))"

definition sha256Hex :: "string \<Rightarrow> string" where
  "sha256Hex bs = hex_bytes (sha256 bs)"

definition fnv32a :: "string \<Rightarrow> 32 word" where
  "fnv32a s = foldl (\<lambda>h c. (h XOR word_of_nat (of_char c)) * 16777619) 2166136261 s"

lemma length_be_bytes [simp]: "length (be_bytes k n) = k"
  by (induction k arbitrary: n) auto

lemma length_sha_out [simp]: "length (sha_out st) = 32"
  by (cases st rule: sha_out.cases) simp

lemma length_sha256 [simp]: "length (sha256 bs) = 32"
  by (simp add: sha256_def Let_def)
lemma length_sha256Hex [simp]: "length (sha256Hex bs) = 64"
  by (simp add: sha256Hex_def)

text \<open>Two test vectors.\<close>

lemma sha256Hex_abc: "sha256Hex ''abc'' = ''ba7816bf8f01cfea414140de5dae2223b00361a396177a9cb410ff61f20015ad''"
  by code_simp

lemma sha256Hex_abcd: "sha256Hex ''abcd'' = ''88d4266fd4e6338d13b845fcf289579d209c897823b9217da3e161936f031589''"
  by code_simp

text \<open>Two contents have the same digest text exactly when their digests agree.\<close>

lemma sha256Hex_eq_iff: "sha256Hex a = sha256Hex b \<longleftrightarrow> sha256 a = sha256 b"
  using hex_bytes_inject by (auto simp: sha256Hex_def)

section \<open>Decimal integers\<close>

text \<open>\<open>fmt.Sprintf("%d", n)\<close>.\<close>

fun dec_nat :: "nat \<Rightarrow> string" where
  "dec_nat n = (if n < 10 then [char_of (48 + n)] else dec_nat (n div 10) @ [char_of (48 + n mod 10)])"

declare dec_nat.simps [simp del]

definition itoa :: "int \<Rightarrow> string" where
  "itoa i = (if i < 0 then CHR ''-'' # dec_nat (nat (- i)) else dec_nat (nat i))"

definition dec_value :: "string \<Rightarrow> nat" where
  "dec_value s = foldl (\<lambda>n c. n * 10 + (of_char c - 48)) 0 s"

lemma dec_value_nat: "dec_value (dec_nat n) = n"
proof (induction n rule: dec_nat.induct)
  case (1 n)
  then show ?case by (subst dec_nat.simps) (simp add: dec_value_def)
qed

lemma dec_nat_hd: "dec_nat n \<noteq> [] \<and> of_char (hd (dec_nat n)) \<ge> (48 :: nat)"
proof (induction n rule: dec_nat.induct)
  case (1 n)
  then show ?case by (cases "n < 10") (simp_all add: dec_nat.simps [of n])
qed

lemma itoa_inject: "itoa i = itoa j \<longleftrightarrow> i = j"
proof -
  have nd: "dec_nat n \<noteq> CHR ''-'' # s" for n s
  proof
    assume "dec_nat n = CHR ''-'' # s"
    then show False using dec_nat_hd [of n] by simp
  qed
  have "dec_nat m = dec_nat n \<longleftrightarrow> m = n" for m n by (metis dec_value_nat)
  then show ?thesis using nd nd [symmetric] by (auto simp: itoa_def)
qed

end
