(* ===== verification/File_Lock.thy ===== *)
theory File_Lock
  imports KV Go_Codec
begin

text \<open>
  Package \<open>filelock\<close> (\<open>internal/storage/filelock/filelock.go\<close>): striped path locks taken in
  ascending stripe order, one directory lock nested inside, leases that are only records, and the
  reaper.  The lease table is sequential code under one mutex, modelled as functions; locking is
  modelled as a step relation over any number of threads, a step for each point at which a goroutine
  can block, be cancelled or release.
\<close>

section \<open>Stripes and leases\<close>

definition numStripes :: nat where
  "numStripes = 256"

definition stripe_of :: "string \<Rightarrow> nat" where
  "stripe_of p = unat (fnv32a p mod 256)"

text \<open>The \<open>cancelled\<close> flag of a lease is set by the reaper on a record it deletes in the same step and
  is read nowhere; it is left out.\<close>

text \<open>The distinct stripes of the paths, ascending: the canonical lock order of \<open>WithLocks\<close>;
  for one path it is the one stripe of \<open>lockFor\<close>.\<close>

definition lock_order :: "string list \<Rightarrow> nat list" where
  "lock_order paths = sort (remdups (map stripe_of paths))"

record lease =
  le_sessionID :: string
  le_acquiredAt :: int

record lock_config =
  MaxLeaseDuration :: int
  ReaperInterval :: int

record lock_mgr =
  m_maxLeaseDuration :: int
  m_reaperInterval :: int
  m_leases :: "(string \<times> lease) list"
  m_forcedReleases :: int

text \<open>Durations in nanoseconds; a value that is not positive takes the default.\<close>

definition NewManager :: "lock_config \<Rightarrow> lock_mgr" where
  "NewManager cfg =
     \<lparr>m_maxLeaseDuration = (if MaxLeaseDuration cfg \<le> 0 then 300 * 10 ^ 9 else MaxLeaseDuration cfg),
      m_reaperInterval = (if ReaperInterval cfg \<le> 0 then 10 ^ 9 else ReaperInterval cfg),
      m_leases = [], m_forcedReleases = 0\<rparr>"

definition record_leases :: "string \<Rightarrow> int \<Rightarrow> string list \<Rightarrow> lock_mgr \<Rightarrow> lock_mgr" where
  "record_leases sessionID now paths m =
     m\<lparr>m_leases := fold (\<lambda>p. kv_put p \<lparr>le_sessionID = sessionID, le_acquiredAt = now\<rparr>) paths (m_leases m)\<rparr>"

definition drop_leases :: "string list \<Rightarrow> lock_mgr \<Rightarrow> lock_mgr" where
  "drop_leases paths m = m\<lparr>m_leases := fold kv_del paths (m_leases m)\<rparr>"

definition ReleaseAllForSession :: "string \<Rightarrow> lock_mgr \<Rightarrow> lock_mgr" where
  "ReleaseAllForSession sessionID m =
     (if sessionID = [] then m
      else m\<lparr>m_leases := filter (\<lambda>(p, l). le_sessionID l \<noteq> sessionID) (m_leases m)\<rparr>)"

definition ActiveLeases :: "lock_mgr \<Rightarrow> (string \<times> string \<times> int) list" where
  "ActiveLeases m = map (\<lambda>(p, l). (p, le_sessionID l, le_acquiredAt l)) (m_leases m)"

definition ForcedReleaseCount :: "lock_mgr \<Rightarrow> int" where
  "ForcedReleaseCount m = m_forcedReleases m"

fun reap_leases :: "int \<Rightarrow> int \<Rightarrow> (string \<times> lease) list \<Rightarrow> (string \<times> lease) list \<times> int" where
  "reap_leases now mx [] = ([], 0)"
| "reap_leases now mx ((p, l) # ls) =
     (let (kept, n) = reap_leases now mx ls in
      if mx < now - le_acquiredAt l then (kept, n + 1) else ((p, l) # kept, n))"

definition reapOnce :: "int \<Rightarrow> lock_mgr \<Rightarrow> lock_mgr" where
  "reapOnce now m =
     (let (kept, n) = reap_leases now (m_maxLeaseDuration m) (m_leases m) in
      m\<lparr>m_leases := kept, m_forcedReleases := m_forcedReleases m + n\<rparr>)"

section \<open>The locking protocol\<close>

text \<open>
  A thread is idle, or inside \<open>WithLock\<close>/\<open>WithLocks\<close> for some paths: taking the stripes that are
  left, running the function with the stripes taken, waiting in \<open>WithDirLock\<close> or holding the
  directory stripe.  A wait that is cancelled leaves a background goroutine behind that takes the
  stripe when it is free and gives it back at once (\<open>lockCtx\<close>): the ghosts.
\<close>

datatype phase =
  Idle
| Acquiring "string list" "nat list" "nat list"
| Running "string list" "nat list"
| DirWait "string list" "nat list" string
| DirHeld "string list" "nat list" string

datatype holder = Thread nat | Ghost

record sys =
  s_phase :: "nat \<Rightarrow> phase"
  s_stripes :: "nat \<Rightarrow> holder option"
  s_dirStripes :: "nat \<Rightarrow> holder option"
  s_ghosts :: "nat list"
  s_dirGhosts :: "nat list"
  s_mgr :: lock_mgr

definition sys_init :: "lock_config \<Rightarrow> sys" where
  "sys_init cfg = \<lparr>s_phase = (\<lambda>_. Idle), s_stripes = (\<lambda>_. None), s_dirStripes = (\<lambda>_. None),
     s_ghosts = [], s_dirGhosts = [], s_mgr = NewManager cfg\<rparr>"

definition unlock_all :: "nat list \<Rightarrow> (nat \<Rightarrow> holder option) \<Rightarrow> nat \<Rightarrow> holder option" where
  "unlock_all acq st = (\<lambda>i. if i \<in> set acq then None else st i)"

definition set_phase :: "nat \<Rightarrow> phase \<Rightarrow> sys \<Rightarrow> sys" where
  "set_phase t ph s = s\<lparr>s_phase := (s_phase s)(t := ph)\<rparr>"

text \<open>The steps that need no outside cause: what a thread that was called does until it returns.\<close>

inductive work :: "sys \<Rightarrow> sys \<Rightarrow> bool" where
  w_lock: "s_phase s t = Acquiring ps (i # is) acq \<Longrightarrow> s_stripes s i = None \<Longrightarrow>
     work s (set_phase t (Acquiring ps is (acq @ [i])) (s\<lparr>s_stripes := (s_stripes s)(i \<mapsto> Thread t)\<rparr>))"
| w_run: "s_phase s t = Acquiring ps [] acq \<Longrightarrow>
     work s (set_phase t (Running ps acq) (s\<lparr>s_mgr := record_leases sid now ps (s_mgr s)\<rparr>))"
| w_dir_lock: "s_phase s t = DirWait ps acq d \<Longrightarrow> s_dirStripes s (stripe_of d) = None \<Longrightarrow>
     work s (set_phase t (DirHeld ps acq d)
               (s\<lparr>s_dirStripes := (s_dirStripes s)(stripe_of d \<mapsto> Thread t)\<rparr>))"
| w_dir_done: "s_phase s t = DirHeld ps acq d \<Longrightarrow>
     work s (set_phase t (Running ps acq)
               (s\<lparr>s_dirStripes := (s_dirStripes s)(stripe_of d := None)\<rparr>))"
| w_finish: "s_phase s t = Running ps acq \<Longrightarrow>
     work s (set_phase t Idle
               (s\<lparr>s_stripes := unlock_all acq (s_stripes s), s_mgr := drop_leases ps (s_mgr s)\<rparr>))"
| w_ghost_lock: "i \<in> set (s_ghosts s) \<Longrightarrow> s_stripes s i = None \<Longrightarrow>
     work s (s\<lparr>s_stripes := (s_stripes s)(i \<mapsto> Ghost), s_ghosts := remove1 i (s_ghosts s)\<rparr>)"
| w_ghost_unlock: "s_stripes s i = Some Ghost \<Longrightarrow>
     work s (s\<lparr>s_stripes := (s_stripes s)(i := None)\<rparr>)"
| w_dir_ghost_lock: "i \<in> set (s_dirGhosts s) \<Longrightarrow> s_dirStripes s i = None \<Longrightarrow>
     work s (s\<lparr>s_dirStripes := (s_dirStripes s)(i \<mapsto> Ghost), s_dirGhosts := remove1 i (s_dirGhosts s)\<rparr>)"
| w_dir_ghost_unlock: "s_dirStripes s i = Some Ghost \<Longrightarrow>
     work s (s\<lparr>s_dirStripes := (s_dirStripes s)(i := None)\<rparr>)"

text \<open>All steps: a call, a nested directory lock, cancellations (with a ghost where the wait had
  begun), the release of a session and the reaper.\<close>

inductive lock_step :: "sys \<Rightarrow> sys \<Rightarrow> bool" where
  l_work: "work s s' \<Longrightarrow> lock_step s s'"
| l_call: "s_phase s t = Idle \<Longrightarrow> lock_step s (set_phase t (Acquiring ps (lock_order ps) []) s)"
| l_dir: "s_phase s t = Running ps acq \<Longrightarrow> lock_step s (set_phase t (DirWait ps acq d) s)"
| l_cancel: "s_phase s t = Acquiring ps (i # is) acq \<Longrightarrow>
     lock_step s (set_phase t Idle (s\<lparr>s_stripes := unlock_all acq (s_stripes s)\<rparr>))"
| l_cancel_wait: "s_phase s t = Acquiring ps (i # is) acq \<Longrightarrow>
     lock_step s (set_phase t Idle
        (s\<lparr>s_stripes := unlock_all acq (s_stripes s), s_ghosts := i # s_ghosts s\<rparr>))"
| l_dir_cancel: "s_phase s t = DirWait ps acq d \<Longrightarrow> lock_step s (set_phase t (Running ps acq) s)"
| l_dir_cancel_wait: "s_phase s t = DirWait ps acq d \<Longrightarrow>
     lock_step s (set_phase t (Running ps acq) (s\<lparr>s_dirGhosts := stripe_of d # s_dirGhosts s\<rparr>))"
| l_release: "lock_step s (s\<lparr>s_mgr := ReleaseAllForSession sid (s_mgr s)\<rparr>)"
| l_reap: "lock_step s (s\<lparr>s_mgr := reapOnce now (s_mgr s)\<rparr>)"

inductive lock_reach :: "lock_config \<Rightarrow> sys \<Rightarrow> bool" for cfg where
  r_init: "lock_reach cfg (sys_init cfg)"
| r_step: "lock_reach cfg s \<Longrightarrow> lock_step s s' \<Longrightarrow> lock_reach cfg s'"

inductive_cases work_cases: "work s s'"
inductive_cases lock_step_cases: "lock_step s s'"

section \<open>The invariant\<close>

fun acquired :: "phase \<Rightarrow> nat list" where
  "acquired Idle = []"
| "acquired (Acquiring ps is acq) = acq"
| "acquired (Running ps acq) = acq"
| "acquired (DirWait ps acq d) = acq"
| "acquired (DirHeld ps acq d) = acq"

text \<open>The paths a thread holds: those of its call, from the moment every stripe is taken.\<close>

fun held_paths :: "phase \<Rightarrow> string list" where
  "held_paths (Running ps acq) = ps"
| "held_paths (DirWait ps acq d) = ps"
| "held_paths (DirHeld ps acq d) = ps"
| "held_paths _ = []"

fun dir_held :: "phase \<Rightarrow> nat option" where
  "dir_held (DirHeld ps acq d) = Some (stripe_of d)"
| "dir_held _ = None"

fun phase_ok :: "phase \<Rightarrow> bool" where
  "phase_ok Idle \<longleftrightarrow> True"
| "phase_ok (Acquiring ps is acq) \<longleftrightarrow> acq @ is = lock_order ps"
| "phase_ok (Running ps acq) \<longleftrightarrow> acq = lock_order ps"
| "phase_ok (DirWait ps acq d) \<longleftrightarrow> acq = lock_order ps"
| "phase_ok (DirHeld ps acq d) \<longleftrightarrow> acq = lock_order ps"

definition lock_inv :: "sys \<Rightarrow> bool" where
  "lock_inv s \<longleftrightarrow>
     (\<forall>t. phase_ok (s_phase s t)) \<and>
     (\<forall>i t. s_stripes s i = Some (Thread t) \<longleftrightarrow> i \<in> set (acquired (s_phase s t))) \<and>
     (\<forall>i t. s_dirStripes s i = Some (Thread t) \<longleftrightarrow> dir_held (s_phase s t) = Some i) \<and>
     (\<forall>p. map_of (m_leases (s_mgr s)) p \<noteq> None \<longrightarrow> (\<exists>t. p \<in> set (held_paths (s_phase s t))))"

lemma lock_order_set [simp]: "set (lock_order ps) = stripe_of ` set ps"
  by (simp add: lock_order_def)

lemma lock_order_sorted: "sorted_wrt (<) (lock_order ps)"
  by (simp add: lock_order_def strict_sorted_iff)

lemma stripe_bound: "stripe_of p < numStripes"
proof -
  have "fnv32a p mod 256 < 256" by (rule word_mod_less_divisor) simp
  then show ?thesis by (simp add: stripe_of_def numStripes_def word_less_nat_alt)
qed

lemma map_of_fold_put: "map_of (fold (\<lambda>p. kv_put p v) ps xs) q = (if q \<in> set ps then Some v else map_of xs q)"
  by (induction ps arbitrary: xs) auto

lemma map_of_fold_del: "map_of (fold kv_del ps xs) q = (if q \<in> set ps then None else map_of xs q)"
  by (induction ps arbitrary: xs) auto

lemma reap_leases_eq:
  "reap_leases now mx ls = (filter (\<lambda>(p, l). \<not> mx < now - le_acquiredAt l) ls,
     int (length (filter (\<lambda>(p, l). mx < now - le_acquiredAt l) ls)))"
  by (induction now mx ls rule: reap_leases.induct) (auto simp: Let_def)

lemma map_of_filter_Some: "map_of (filter P xs) k = Some y \<Longrightarrow> \<exists>y. map_of xs k = Some y"
  by (cases "map_of xs k") (force simp: map_of_eq_None_iff dest: map_of_SomeD)+

lemma leases_after:
  "map_of (m_leases (record_leases sid now ps m)) p \<noteq> None \<longleftrightarrow>
     p \<in> set ps \<or> map_of (m_leases m) p \<noteq> None"
  "map_of (m_leases (drop_leases ps m)) p \<noteq> None \<longleftrightarrow> p \<notin> set ps \<and> map_of (m_leases m) p \<noteq> None"
  "map_of (m_leases (ReleaseAllForSession sid m)) p \<noteq> None \<Longrightarrow> map_of (m_leases m) p \<noteq> None"
  "map_of (m_leases (reapOnce now m)) p \<noteq> None \<Longrightarrow> map_of (m_leases m) p \<noteq> None"
  by (auto simp: record_leases_def drop_leases_def ReleaseAllForSession_def reapOnce_def
        map_of_fold_put map_of_fold_del reap_leases_eq split: if_splits dest: map_of_filter_Some)

lemma set_phase_simps [simp]:
  "s_phase (set_phase t ph s) u = (if u = t then ph else s_phase s u)"
  "s_stripes (set_phase t ph s) = s_stripes s" "s_dirStripes (set_phase t ph s) = s_dirStripes s"
  "s_ghosts (set_phase t ph s) = s_ghosts s" "s_dirGhosts (set_phase t ph s) = s_dirGhosts s"
  "s_mgr (set_phase t ph s) = s_mgr s"
  by (simp_all add: set_phase_def)

lemma lock_invD:
  assumes "lock_inv s"
  shows "phase_ok (s_phase s t)"
    "s_stripes s i = Some (Thread t) \<longleftrightarrow> i \<in> set (acquired (s_phase s t))"
    "s_dirStripes s i = Some (Thread t) \<longleftrightarrow> dir_held (s_phase s t) = Some i"
    "map_of (m_leases (s_mgr s)) p \<noteq> None \<Longrightarrow> \<exists>t. p \<in> set (held_paths (s_phase s t))"
  using assms by (simp_all add: lock_inv_def)

lemma free_stripe:
  assumes "lock_inv s"
  shows "s_stripes s i = None \<Longrightarrow> i \<notin> set (acquired (s_phase s u))"
    "s_dirStripes s i = None \<Longrightarrow> dir_held (s_phase s u) \<noteq> Some i"
  using lock_invD(2,3) [OF assms] by (metis option.distinct(1))+

text \<open>Two threads never hold the same stripe, nor the same directory stripe.\<close>

lemma stripe_unique:
  assumes "lock_inv s" "i \<in> set (acquired (s_phase s t))" "i \<in> set (acquired (s_phase s u))"
  shows "t = u"
  using assms lock_invD(2) [OF assms(1)] by (metis holder.inject option.inject)

lemma dir_unique:
  assumes "lock_inv s" "dir_held (s_phase s t) = Some i" "dir_held (s_phase s u) = Some i"
  shows "t = u"
  using assms lock_invD(3) [OF assms(1)] by (metis holder.inject option.inject)

text \<open>Preservation is shown once for a change of one thread's phase and of the tables.\<close>

lemma lock_inv_update:
  assumes inv: "lock_inv s" and ph: "phase_ok ph"
    and st: "\<And>i u. st i = Some (Thread u) \<longleftrightarrow>
              (if u = t then i \<in> set (acquired ph) else s_stripes s i = Some (Thread u))"
    and dir: "\<And>i u. dst i = Some (Thread u) \<longleftrightarrow>
              (if u = t then dir_held ph = Some i else s_dirStripes s i = Some (Thread u))"
    and ls: "\<And>p. map_of (m_leases m) p \<noteq> None \<Longrightarrow>
              p \<in> set (held_paths ph) \<or> (map_of (m_leases (s_mgr s)) p \<noteq> None \<and> p \<notin> set (held_paths (s_phase s t)))"
    and s': "s_phase s' = (s_phase s)(t := ph)" "s_stripes s' = st" "s_dirStripes s' = dst" "s_mgr s' = m"
  shows "lock_inv s'"
  unfolding lock_inv_def s'
proof (intro conjI allI impI)
  fix i u p
  show "phase_ok (((s_phase s)(t := ph)) u)" using lock_invD(1) [OF inv] ph by simp
  show "st i = Some (Thread u) \<longleftrightarrow> i \<in> set (acquired (((s_phase s)(t := ph)) u))"
    using st lock_invD(2) [OF inv] by simp
  show "dst i = Some (Thread u) \<longleftrightarrow> dir_held (((s_phase s)(t := ph)) u) = Some i"
    using dir lock_invD(3) [OF inv] by simp
  assume "map_of (m_leases m) p \<noteq> None"
  from ls [OF this] show "\<exists>u. p \<in> set (held_paths (((s_phase s)(t := ph)) u))"
  proof
    assume "p \<in> set (held_paths ph)"
    then show ?thesis by (intro exI [of _ t]) simp
  next
    assume *: "map_of (m_leases (s_mgr s)) p \<noteq> None \<and> p \<notin> set (held_paths (s_phase s t))"
    then obtain u where "p \<in> set (held_paths (s_phase s u))" using lock_invD(4) [OF inv] by blast
    with * show ?thesis by (intro exI [of _ u]) auto
  qed
qed

text \<open>A change of a table entry that no thread owns.\<close>

lemma lock_inv_tables:
  assumes inv: "lock_inv s"
    and "\<And>i u. s_stripes s' i = Some (Thread u) \<longleftrightarrow> s_stripes s i = Some (Thread u)"
    and "\<And>i u. s_dirStripes s' i = Some (Thread u) \<longleftrightarrow> s_dirStripes s i = Some (Thread u)"
    and "\<And>p. map_of (m_leases (s_mgr s')) p \<noteq> None \<Longrightarrow> map_of (m_leases (s_mgr s)) p \<noteq> None"
    and "s_phase s' = s_phase s"
  shows "lock_inv s'"
  using assms unfolding lock_inv_def by auto

lemma lock_inv_work:
  assumes "work s s'" "lock_inv s"
  shows "lock_inv s'"
  using assms(1)
proof cases
  case (w_lock t ps i "is" acq)
  have ok: "acq @ i # is = lock_order ps" using lock_invD(1) [OF assms(2), of t] w_lock by simp
  show ?thesis unfolding w_lock(1)
    by (rule lock_inv_update [OF assms(2), of "Acquiring ps is (acq @ [i])" _ t])
      (use w_lock ok lock_invD [OF assms(2)] free_stripe(1) [OF assms(2) w_lock(3)] in \<open>auto simp: set_phase_def split: if_splits\<close>)
next
  case (w_run t ps acq sid now)
  have ok: "acq = lock_order ps" using lock_invD(1) [OF assms(2), of t] w_run by simp
  show ?thesis unfolding w_run(1)
    by (rule lock_inv_update [OF assms(2), of "Running ps acq" _ t])
      (use w_run ok lock_invD [OF assms(2)] leases_after(1) [of sid now ps "s_mgr s"] in
        \<open>auto simp: set_phase_def split: if_splits\<close>)
next
  case (w_dir_lock t ps acq d)
  show ?thesis unfolding w_dir_lock(1)
    by (rule lock_inv_update [OF assms(2), of "DirHeld ps acq d" _ t])
      (use w_dir_lock lock_invD [OF assms(2)] lock_invD(1) [OF assms(2), of t]
          free_stripe(2) [OF assms(2) w_dir_lock(3)] in
        \<open>auto simp: set_phase_def split: if_splits\<close>)
next
  case (w_dir_done t ps acq d)
  show ?thesis unfolding w_dir_done(1)
    by (rule lock_inv_update [OF assms(2), of "Running ps acq" _ t])
      (use w_dir_done lock_invD [OF assms(2)] lock_invD(1) [OF assms(2), of t]
          dir_unique [OF assms(2)] in \<open>auto simp: set_phase_def split: if_splits\<close>)
next
  case (w_finish t ps acq)
  show ?thesis unfolding w_finish(1)
    by (rule lock_inv_update [OF assms(2), of Idle _ t])
      (use w_finish lock_invD [OF assms(2)] stripe_unique [OF assms(2)] leases_after(2) [of ps "s_mgr s"] in
        \<open>auto simp: set_phase_def unlock_all_def split: if_splits\<close>)
next
  case (w_ghost_lock i)
  show ?thesis unfolding w_ghost_lock(1)
    by (rule lock_inv_tables [OF assms(2)]) (use w_ghost_lock in auto)
next
  case (w_ghost_unlock i)
  show ?thesis unfolding w_ghost_unlock(1)
    by (rule lock_inv_tables [OF assms(2)]) (use w_ghost_unlock in auto)
next
  case (w_dir_ghost_lock i)
  show ?thesis unfolding w_dir_ghost_lock(1)
    by (rule lock_inv_tables [OF assms(2)]) (use w_dir_ghost_lock in auto)
next
  case (w_dir_ghost_unlock i)
  show ?thesis unfolding w_dir_ghost_unlock(1)
    by (rule lock_inv_tables [OF assms(2)]) (use w_dir_ghost_unlock in auto)
qed

lemma NewManager_leases [simp]: "m_leases (NewManager cfg) = []"
  by (simp add: NewManager_def)

lemma lock_inv_init: "lock_inv (sys_init cfg)"
  by (simp add: lock_inv_def sys_init_def)

lemma lock_inv_step:
  assumes "lock_step s s'" "lock_inv s"
  shows "lock_inv s'"
  using assms(1)
proof cases
  case l_work
  then show ?thesis using assms(2) by (rule lock_inv_work)
next
  case (l_call t ps)
  show ?thesis unfolding l_call(1)
    by (rule lock_inv_update [OF assms(2), of "Acquiring ps (lock_order ps) []" _ t])
      (use l_call lock_invD [OF assms(2)] in \<open>auto simp: set_phase_def\<close>)
next
  case (l_dir t ps acq d)
  show ?thesis unfolding l_dir(1)
    by (rule lock_inv_update [OF assms(2), of "DirWait ps acq d" _ t])
      (use l_dir lock_invD [OF assms(2)] lock_invD(1) [OF assms(2), of t] in \<open>auto simp: set_phase_def\<close>)
next
  case (l_cancel t ps i "is" acq)
  show ?thesis unfolding l_cancel(1)
    by (rule lock_inv_update [OF assms(2), of Idle _ t])
      (use l_cancel lock_invD [OF assms(2)] stripe_unique [OF assms(2)] in
        \<open>auto simp: set_phase_def unlock_all_def split: if_splits\<close>)
next
  case (l_cancel_wait t ps i "is" acq)
  show ?thesis unfolding l_cancel_wait(1)
    by (rule lock_inv_update [OF assms(2), of Idle _ t])
      (use l_cancel_wait lock_invD [OF assms(2)] stripe_unique [OF assms(2)] in
        \<open>auto simp: set_phase_def unlock_all_def split: if_splits\<close>)
next
  case (l_dir_cancel t ps acq d)
  show ?thesis unfolding l_dir_cancel(1)
    by (rule lock_inv_update [OF assms(2), of "Running ps acq" _ t])
      (use l_dir_cancel lock_invD [OF assms(2)] lock_invD(1) [OF assms(2), of t] in
        \<open>auto simp: set_phase_def\<close>)
next
  case (l_dir_cancel_wait t ps acq d)
  show ?thesis unfolding l_dir_cancel_wait(1)
    by (rule lock_inv_update [OF assms(2), of "Running ps acq" _ t])
      (use l_dir_cancel_wait lock_invD [OF assms(2)] lock_invD(1) [OF assms(2), of t] in
        \<open>auto simp: set_phase_def\<close>)
next
  case (l_release sid)
  show ?thesis unfolding l_release(1)
    by (rule lock_inv_tables [OF assms(2)]) (use leases_after(3) in auto)
next
  case (l_reap now)
  show ?thesis unfolding l_reap(1)
    by (rule lock_inv_tables [OF assms(2)]) (use leases_after(4) in auto)
qed

lemma lock_inv_reach: "lock_reach cfg s \<Longrightarrow> lock_inv s"
  by (induction rule: lock_reach.induct) (auto intro: lock_inv_init lock_inv_step)

section \<open>What the locks promise\<close>

lemma held_stripes:
  assumes "lock_inv s" "p \<in> set (held_paths (s_phase s t))"
  shows "stripe_of p \<in> set (acquired (s_phase s t))"
  using lock_invD(1) [OF assms(1), of t] assms(2) by (cases "s_phase s t") auto

text \<open>The stripe a thread waits for.\<close>

fun waits_for :: "phase \<Rightarrow> nat option" where
  "waits_for (Acquiring ps (i # is) acq) = Some i"
| "waits_for _ = None"

lemma waits_above:
  assumes "phase_ok ph" "waits_for ph = Some i" "j \<in> set (acquired ph)"
  shows "j < i" "i < numStripes"
proof -
  obtain ps "is" acq where ph: "ph = Acquiring ps (i # is) acq"
    using assms(2) by (cases ph rule: waits_for.cases) auto
  then have o: "acq @ i # is = lock_order ps" using assms(1) by simp
  with lock_order_sorted [of ps] have "sorted_wrt (<) (acq @ i # is)" by simp
  then show "j < i" using assms(3) ph by (auto simp: sorted_wrt_append)
  have "i \<in> stripe_of ` set ps" using o lock_order_set [of ps] by (metis in_set_conv_decomp)
  then show "i < numStripes" using stripe_bound by auto
qed

lemma waits_bound: "phase_ok ph \<Longrightarrow> waits_for ph = Some i \<Longrightarrow> i < numStripes"
proof -
  assume a: "phase_ok ph" "waits_for ph = Some i"
  then obtain ps "is" acq where "ph = Acquiring ps (i # is) acq"
    by (cases ph rule: waits_for.cases) auto
  with a(1) have "i \<in> stripe_of ` set ps" using lock_order_set [of ps] by (metis in_set_conv_decomp phase_ok.simps(2))
  then show ?thesis using stripe_bound by auto
qed

text \<open>A thread that is not waiting for a stripe somebody holds has a step to take.\<close>

lemma thread_progress:
  assumes inv: "lock_inv s" and t: "s_phase s t \<noteq> Idle"
  shows "(\<exists>s'. work s s') \<or>
    (\<exists>i u. waits_for (s_phase s t) = Some i \<and> s_stripes s i = Some (Thread u))"
proof (cases "s_phase s t")
  case (Acquiring ps "is" acq)
  show ?thesis
  proof (cases "is")
    case Nil
    then show ?thesis using Acquiring work.w_run by blast
  next
    case (Cons i is')
    show ?thesis
    proof (cases "s_stripes s i")
      case None
      then show ?thesis using Acquiring Cons work.w_lock by blast
    next
      case (Some h)
      then show ?thesis using Acquiring Cons work.w_ghost_unlock by (cases h) auto
    qed
  qed
next
  case (DirWait ps acq d)
  show ?thesis
  proof (cases "s_dirStripes s (stripe_of d)")
    case None
    then show ?thesis using DirWait work.w_dir_lock by blast
  next
    case (Some h)
    show ?thesis
    proof (cases h)
      case (Thread u)
      with Some have "dir_held (s_phase s u) = Some (stripe_of d)" using lock_invD(3) [OF inv] by simp
      then obtain ps' acq' d' where "s_phase s u = DirHeld ps' acq' d'"
        by (cases "s_phase s u") auto
      then show ?thesis using work.w_dir_done by blast
    qed (use Some work.w_dir_ghost_unlock in auto)
  qed
qed (use t work.w_finish work.w_dir_done in blast)+

text \<open>A sample run: thread 0 takes the lock of one path.\<close>

definition demo_cfg :: lock_config where
  "demo_cfg = \<lparr>MaxLeaseDuration = 0, ReaperInterval = 0\<rparr>"

definition demo_path :: string where
  "demo_path = ''ops/wiki/a.md''"

lemma demo_run:
  "\<exists>s. lock_reach demo_cfg s \<and> s_phase s 0 = Running [demo_path] [stripe_of demo_path] \<and>
     map_of (m_leases (s_mgr s)) demo_path \<noteq> None"
proof -
  let ?i = "stripe_of demo_path"
  let ?s0 = "sys_init demo_cfg"
  let ?s1 = "set_phase 0 (Acquiring [demo_path] (lock_order [demo_path]) []) ?s0"
  let ?s2 = "set_phase 0 (Acquiring [demo_path] [] ([] @ [?i])) (?s1\<lparr>s_stripes := (s_stripes ?s1)(?i \<mapsto> Thread 0)\<rparr>)"
  let ?s3 = "set_phase 0 (Running [demo_path] ([] @ [?i])) (?s2\<lparr>s_mgr := record_leases ''s'' 7 [demo_path] (s_mgr ?s2)\<rparr>)"
  have o: "lock_order [demo_path] = [?i]" by (simp add: lock_order_def)
  have "lock_step ?s0 ?s1" by (rule l_call) (simp add: sys_init_def)
  moreover have "lock_step ?s1 ?s2"
    by (rule l_work, rule w_lock) (simp_all add: o, simp add: sys_init_def)
  moreover have "lock_step ?s2 ?s3" by (rule l_work, rule w_run) simp
  ultimately have "lock_reach demo_cfg ?s3" by (blast intro: r_init r_step)
  moreover have "s_phase ?s3 0 = Running [demo_path] [?i]" by simp
  moreover have "map_of (m_leases (s_mgr ?s3)) demo_path \<noteq> None" by (simp add: record_leases_def)
  ultimately show ?thesis by blast
qed

text \<open>
  C35: mutual exclusion: in every reachable state, for any number of threads and any interleaving of
  calls, cancellations, session releases and reaper runs, two threads never hold the same path.
\<close>

theorem WithLocks_exclusive:
  assumes "lock_reach cfg s"
    and "p \<in> set (held_paths (s_phase s t))" "p \<in> set (held_paths (s_phase s u))"
  shows "t = u"
  using assms lock_inv_reach held_stripes stripe_unique by metis

lemma WithLocks_exclusive_witness:
  "\<exists>s. lock_reach demo_cfg s \<and> demo_path \<in> set (held_paths (s_phase s 0)) \<and>
     demo_path \<notin> set (held_paths (s_phase s 1))"
proof -
  obtain s where s: "lock_reach demo_cfg s" "s_phase s 0 = Running [demo_path] [stripe_of demo_path]"
    using demo_run by blast
  then have h: "demo_path \<in> set (held_paths (s_phase s 0))" by simp
  then have "demo_path \<notin> set (held_paths (s_phase s 1))"
    using WithLocks_exclusive [OF s(1) h, of 1] by auto
  with s h show ?thesis by blast
qed

text \<open>
  C36: no deadlock: in every reachable state in which some thread is inside \<open>WithLock\<close>, \<open>WithLocks\<close> or
  \<open>WithDirLock\<close>, a step is possible that needs no cancellation and no new call.
\<close>

theorem locks_no_deadlock:
  assumes "lock_reach cfg s" "s_phase s t \<noteq> Idle"
  shows "\<exists>s'. work s s'"
proof (rule ccontr)
  assume stuck: "\<nexists>s'. work s s'"
  have inv: "lock_inv s" using assms(1) by (rule lock_inv_reach)
  let ?W = "{i. \<exists>t. waits_for (s_phase s t) = Some i}"
  have "?W \<subseteq> {..<numStripes}" using waits_bound lock_invD(1) [OF inv] by auto
  then have fin: "finite ?W" by (rule finite_subset) simp
  have "?W \<noteq> {}" using thread_progress [OF inv assms(2)] stuck by blast
  then have "Max ?W \<in> ?W" using fin by (rule Max_in [rotated])
  then obtain v where v: "waits_for (s_phase s v) = Some (Max ?W)" by blast
  then have "s_phase s v \<noteq> Idle" by auto
  with thread_progress [OF inv this] stuck v obtain u where
    "s_stripes s (Max ?W) = Some (Thread u)" by auto
  then have acq: "Max ?W \<in> set (acquired (s_phase s u))" using lock_invD(2) [OF inv] by simp
  then have "s_phase s u \<noteq> Idle" by auto
  with thread_progress [OF inv this] stuck obtain j where j: "waits_for (s_phase s u) = Some j" by blast
  have "Max ?W < j" by (rule waits_above [OF lock_invD(1) [OF inv] j acq])
  moreover have "j \<le> Max ?W" using fin j by (intro Max_ge) auto
  ultimately show False by simp
qed

lemma locks_no_deadlock_witness:
  "\<exists>s s'. lock_reach demo_cfg s \<and> s_phase s 0 = Running [demo_path] [stripe_of demo_path] \<and> work s s'"
proof -
  obtain s where s: "lock_reach demo_cfg s" "s_phase s 0 = Running [demo_path] [stripe_of demo_path]"
    using demo_run by blast
  then have "\<exists>s'. work s s'" by (intro locks_no_deadlock [of demo_cfg s 0]) auto
  with s show ?thesis by blast
qed

text \<open>
  a lease never outlives its lock: every recorded lease is of a path that some thread holds.
\<close>

theorem lease_is_held:
  assumes "lock_reach cfg s" "map_of (m_leases (s_mgr s)) p \<noteq> None"
  shows "\<exists>t. p \<in> set (held_paths (s_phase s t))"
  using lock_invD(4) [OF lock_inv_reach [OF assms(1)] assms(2)] .

lemma lease_is_held_witness:
  "\<exists>s :: sys. map_of (m_leases (s_mgr s)) demo_path \<noteq> None \<and> (\<exists>t. demo_path \<in> set (held_paths (s_phase s t)))"
proof -
  obtain s where s: "lock_reach demo_cfg s" "map_of (m_leases (s_mgr s)) demo_path \<noteq> None"
    using demo_run by blast
  with lease_is_held [OF s] show ?thesis by blast
qed

text \<open>
  releasing a session drops exactly its leases, and nothing for the empty session; the reaper
  drops exactly the leases that are older than the maximum and counts them.
\<close>

theorem lease_release:
  "m_leases (ReleaseAllForSession sid m) =
     filter (\<lambda>(p, l). \<not> (sid \<noteq> [] \<and> le_sessionID l = sid)) (m_leases m) \<and>
   m_leases (reapOnce now m) =
     filter (\<lambda>(p, l). now - le_acquiredAt l \<le> m_maxLeaseDuration m) (m_leases m) \<and>
   m_forcedReleases (reapOnce now m) + int (length (m_leases (reapOnce now m))) =
     m_forcedReleases m + int (length (m_leases m))"
  using sum_length_filter_compl [of "\<lambda>(p, l). m_maxLeaseDuration m < now - le_acquiredAt l" "m_leases m"]
  by (simp add: ReleaseAllForSession_def reapOnce_def reap_leases_eq not_less case_prod_unfold)

text \<open>
  the stripes of a call are taken once each, in ascending order, and are those of its paths.
\<close>

theorem lock_order_canonical:
  "sorted_wrt (<) (lock_order ps) \<and> set (lock_order ps) = stripe_of ` set ps \<and>
   list_all (\<lambda>i. i < numStripes) (lock_order ps)"
  using lock_order_sorted stripe_bound by (auto simp: list_all_iff)

end
