(* ===== verification/Paths.thy ===== *)
theory Paths
  imports Go_Strings
begin

text \<open>
  Slash paths: \<open>path.Clean\<close> of Go's standard library on the components of a path, and the
  \<open>normalizePath\<close> that the catalog, the index, the deleted log and the vector index each carry a copy
  of.  \<open>filepath.ToSlash\<close> is the identity on the systems the server runs on.
\<close>

definition dot :: string where
  "dot = ''.''"

definition dotdot :: string where
  "dotdot = ''..''"

definition slash :: char where
  "slash = CHR ''/''"

text \<open>\<open>strings.Trim(s, "/")\<close>.\<close>

definition trim_slashes :: "string \<Rightarrow> string" where
  "trim_slashes s = rev (dropWhile (\<lambda>c. c = slash) (rev (dropWhile (\<lambda>c. c = slash) s)))"

text \<open>The components \<open>path.Clean\<close> keeps, with the ones kept so far reversed.\<close>

fun clean_comps :: "bool \<Rightarrow> string list \<Rightarrow> string list \<Rightarrow> string list" where
  "clean_comps rooted [] acc = rev acc"
| "clean_comps rooted (c # cs) acc =
     (if c = [] \<or> c = dot then clean_comps rooted cs acc
      else if c = dotdot then
        (case acc of
           [] \<Rightarrow> clean_comps rooted cs (if rooted then [] else [dotdot])
         | a # r \<Rightarrow> clean_comps rooted cs (if a = dotdot then dotdot # acc else r))
      else clean_comps rooted cs (c # acc))"

definition path_clean :: "string \<Rightarrow> string" where
  "path_clean p =
     (if p = [] then dot
      else
        (let rooted = (hd p = slash); cs = clean_comps rooted (split_on slash p) [] in
         if rooted then slash # join_with [slash] cs
         else if cs = [] then dot else join_with [slash] cs))"

definition normalizePath :: "string \<Rightarrow> string" where
  "normalizePath p0 =
     (let p = trim_slashes p0 in
      if p = [] \<or> p = dot then [] else trim_slashes (path_clean p))"

text \<open>\<open>splitDirFile\<close> cuts at the last slash.\<close>

definition splitDirFile :: "string \<Rightarrow> string \<times> string" where
  "splitDirFile np =
     (let cs = split_on slash np in (join_with [slash] (butlast cs), last cs))"

text \<open>\<open>parentDir\<close> is the loop step \<open>dir[:LastIndex(dir, "/")]\<close> (empty without a slash).\<close>

definition parent_dir :: "string \<Rightarrow> string" where
  "parent_dir d = fst (splitDirFile d)"

section \<open>Plain paths\<close>

text \<open>A path as the handlers pass it on: components that are not empty and not dots.\<close>

definition plain_comp :: "string \<Rightarrow> bool" where
  "plain_comp c \<longleftrightarrow> c \<noteq> [] \<and> c \<noteq> dot \<and> c \<noteq> dotdot \<and> slash \<notin> set c"

definition plain_path :: "string \<Rightarrow> bool" where
  "plain_path p \<longleftrightarrow> list_all plain_comp (split_on slash p)"

lemma plain_path_join:
  "cs \<noteq> [] \<Longrightarrow> list_all plain_comp cs \<Longrightarrow> split_on slash (join_with [slash] cs) = cs"
  by (intro split_join) (auto simp: plain_comp_def list_all_iff)

lemma plain_path_nonempty: "plain_path p \<Longrightarrow> p \<noteq> [] \<and> p \<noteq> dot"
  by (auto simp: plain_path_def plain_comp_def dot_def slash_def)

lemma clean_comps_plain: "list_all plain_comp cs \<Longrightarrow> clean_comps r cs acc = rev acc @ cs"
  by (induction cs arbitrary: acc) (auto simp: plain_comp_def)

lemma join_last:
  "xs \<noteq> [] \<Longrightarrow> join_with sep (xs @ [y]) = join_with sep xs @ sep @ y"
  by (induction xs rule: induct_list012) auto

lemma hd_join: "c \<noteq> [] \<Longrightarrow> hd (join_with sep (c # cs)) = hd c"
  by (cases cs) auto

lemma last_join: "cs \<noteq> [] \<Longrightarrow> last cs \<noteq> [] \<Longrightarrow> last (join_with sep cs) = last (last cs)"
  by (cases cs rule: rev_cases; cases "butlast cs = []") (auto simp: join_last)

lemma join_nonempty: "c \<noteq> [] \<Longrightarrow> join_with sep (c # cs) \<noteq> []"
  by (cases cs) auto

lemma plain_ends:
  assumes "plain_path p"
  shows "hd p \<noteq> slash" "last p \<noteq> slash"
proof -
  obtain c cs where cs: "split_on slash p = c # cs" using split_on_not_Nil by (metis list.exhaust)
  have p: "p = join_with [slash] (c # cs)" using join_split [of slash p] cs by simp
  have pl: "plain_comp c" "plain_comp (last (c # cs))"
    using assms cs last_in_set [of "c # cs"] by (auto simp: plain_path_def list_all_iff)
  then have ne: "c \<noteq> []" "last (c # cs) \<noteq> []" by (auto simp: plain_comp_def)
  have "hd p = hd c" using p ne(1) hd_join by simp
  moreover have "last p = last (last (c # cs))" using p ne(2) last_join [of "c # cs"] by simp
  ultimately show "hd p \<noteq> slash" "last p \<noteq> slash"
    using pl ne by (metis hd_in_set plain_comp_def, metis last_in_set plain_comp_def)
qed

lemma trim_slashes_id: "p = [] \<or> hd p \<noteq> slash \<and> last p \<noteq> slash \<Longrightarrow> trim_slashes p = p"
proof (cases "p = []")
  case False
  assume "p = [] \<or> hd p \<noteq> slash \<and> last p \<noteq> slash"
  with False have h: "hd p \<noteq> slash" "last p \<noteq> slash" by auto
  have "dropWhile (\<lambda>c. c = slash) p = p" using h(1) by (cases p) auto
  moreover have "dropWhile (\<lambda>c. c = slash) (rev p) = rev p"
    using h(2) False by (cases p rule: rev_cases) auto
  ultimately show ?thesis by (simp add: trim_slashes_def)
qed (simp add: trim_slashes_def)

lemma path_clean_plain: "plain_path p \<Longrightarrow> path_clean p = p"
  using plain_path_nonempty [of p] plain_ends [of p] clean_comps_plain [of "split_on slash p" False "[]"]
  by (simp add: path_clean_def plain_path_def)

lemma normalizePath_plain [simp]: "plain_path p \<Longrightarrow> normalizePath p = p"
  using plain_path_nonempty [of p] plain_ends [of p]
  by (simp add: normalizePath_def trim_slashes_id path_clean_plain)

text \<open>Cutting a path and putting it together again.\<close>

lemma splitDirFile_join:
  "splitDirFile np = (d, f) \<Longrightarrow> np = (if d = [] \<and> length (split_on slash np) = 1 then f else d @ slash # f)"
proof -
  assume sp: "splitDirFile np = (d, f)"
  obtain xs y where xs: "split_on slash np = xs @ [y]"
    using split_on_not_Nil by (metis rev_exhaust)
  have np: "np = join_with [slash] (xs @ [y])" using join_split [of slash np] xs by simp
  have d: "d = join_with [slash] xs" "f = y" using sp xs by (auto simp: splitDirFile_def)
  show ?thesis
  proof (cases "xs = []")
    case True
    then show ?thesis using np d xs by simp
  next
    case False
    then show ?thesis using np d xs join_last [OF False, of "[slash]" y] by (cases xs) auto
  qed
qed

lemma splitDirFile_plain:
  assumes "plain_path np" "splitDirFile np = (d, f)"
  shows "plain_comp f" "d = [] \<or> plain_path d" "np = (if d = [] then f else d @ slash # f)"
proof -
  obtain xs y where xs: "split_on slash np = xs @ [y]"
    using split_on_not_Nil by (metis rev_exhaust)
  have pl: "list_all plain_comp xs" "plain_comp y" using assms(1) xs by (auto simp: plain_path_def)
  have d: "d = join_with [slash] xs" "f = y" using assms(2) xs by (auto simp: splitDirFile_def)
  show "plain_comp f" using d pl by simp
  have de: "d = [] \<longleftrightarrow> xs = []"
    using d pl by (cases xs) (auto simp: plain_comp_def join_nonempty)
  show "d = [] \<or> plain_path d"
    using d pl de plain_path_join [of xs] by (auto simp: plain_path_def)
  show "np = (if d = [] then f else d @ slash # f)"
    using splitDirFile_join [OF assms(2)] xs de by auto
qed

section \<open>Paths as lists of segments\<close>

text \<open>What \<open>normalizePath\<close> yields: segments that are not empty and hold no slash.\<close>

definition seg :: "string \<Rightarrow> bool" where
  "seg c \<longleftrightarrow> c \<noteq> [] \<and> slash \<notin> set c"

abbreviation segs :: "string list \<Rightarrow> bool" where
  "segs \<equiv> list_all seg"

abbreviation path_of :: "string list \<Rightarrow> string" where
  "path_of cs \<equiv> join_with [slash] cs"

lemma plain_seg: "plain_comp c \<Longrightarrow> seg c"
  by (simp add: plain_comp_def seg_def)

lemma split_path_of: "cs \<noteq> [] \<Longrightarrow> segs cs \<Longrightarrow> split_on slash (path_of cs) = cs"
  by (intro split_join) (auto simp: seg_def list_all_iff)

lemma path_of_empty [simp]: "segs cs \<Longrightarrow> path_of cs = [] \<longleftrightarrow> cs = []"
  by (cases cs) (auto simp: seg_def join_nonempty)

lemma path_of_inject: "segs cs \<Longrightarrow> segs ds \<Longrightarrow> path_of cs = path_of ds \<longleftrightarrow> cs = ds"
  by (metis path_of_empty split_path_of)

lemma seg_ends:
  assumes "segs cs" "cs \<noteq> []"
  shows "hd (path_of cs) \<noteq> slash" "last (path_of cs) \<noteq> slash"
proof -
  obtain c r where cs: "cs = c # r" using assms(2) by (cases cs) auto
  have pl: "seg c" "seg (last cs)"
    using assms cs last_in_set [OF assms(2)] by (auto simp: list_all_iff)
  then have ne: "c \<noteq> []" "last cs \<noteq> []" by (auto simp: seg_def)
  have "hd (path_of cs) = hd c" using cs ne(1) hd_join by simp
  moreover have "last (path_of cs) = last (last cs)" using assms(2) ne(2) last_join by simp
  ultimately show "hd (path_of cs) \<noteq> slash" "last (path_of cs) \<noteq> slash"
    using pl ne by (metis hd_in_set seg_def, metis last_in_set seg_def)
qed

lemma clean_comps_segs:
  "list_all (\<lambda>c. slash \<notin> set c) cs \<Longrightarrow> segs acc \<Longrightarrow> segs (clean_comps r cs acc)"
proof (induction cs arbitrary: acc)
  case (Cons c cs)
  have dd: "seg dotdot" by (simp add: seg_def dotdot_def slash_def)
  have c: "seg c" if "c \<noteq> []" using that Cons.prems(1) by (simp add: seg_def)
  show ?case
  proof (cases acc)
    case Nil
    then show ?thesis using Cons.IH [of "[]"] Cons.IH [of "[dotdot]"] Cons.IH [of "[c]"] Cons.prems c dd by (cases r) simp_all
  next
    case (Cons a as)
    then show ?thesis
      using Cons.IH [of acc] Cons.IH [of "dotdot # acc"] Cons.IH [of as] Cons.IH [of "c # acc"] Cons.prems c dd by (cases "a = dotdot") simp_all
  qed
qed (simp add: list_all_iff)

lemma dot_seg: "seg dot"
  by (simp add: seg_def dot_def slash_def)

lemma normalizePath_segs:
  obtains cs where "segs cs" "normalizePath p = path_of cs"
proof -
  let ?q = "trim_slashes p"
  have "\<exists>cs. segs cs \<and> normalizePath p = path_of cs"
  proof (cases "?q = [] \<or> ?q = dot")
    case True
    then have "normalizePath p = path_of []" by (auto simp: normalizePath_def)
    then show ?thesis by (intro exI [of _ "[]"]) simp
  next
    case False
    then have ne: "?q \<noteq> []" by simp
    have hd: "hd ?q \<noteq> slash"
    proof -
      have "\<exists>zs. dropWhile (\<lambda>c. c = slash) p = ?q @ zs"
        unfolding trim_slashes_def by (metis rev_append rev_rev_ident takeWhile_dropWhile_id)
      then obtain zs where z: "dropWhile (\<lambda>c. c = slash) p = ?q @ zs" by blast
      then have "dropWhile (\<lambda>c. c = slash) p \<noteq> []" using ne by auto
      from hd_dropWhile [OF this] z ne show ?thesis by simp
    qed
    let ?cs = "clean_comps False (split_on slash ?q) []"
    have cs: "segs ?cs"
      by (rule clean_comps_segs) (auto simp: list_all_iff dest: split_on_sep_free)
    have pc: "path_clean ?q = path_of (if ?cs = [] then [dot] else ?cs)"
      using ne hd by (simp add: path_clean_def Let_def)
    have "segs (if ?cs = [] then [dot] else ?cs)" using cs dot_seg by simp
    moreover from this have "trim_slashes (path_clean ?q) = path_clean ?q"
      unfolding pc by (intro trim_slashes_id disjI2 conjI seg_ends) auto
    ultimately show ?thesis using False pc by (auto simp: normalizePath_def Let_def)
  qed
  then show thesis using that by blast
qed

lemma splitDirFile_segs: "segs cs \<Longrightarrow> seg c \<Longrightarrow> splitDirFile (path_of (cs @ [c])) = (path_of cs, c)"
  using split_path_of [of "cs @ [c]"] by (simp add: splitDirFile_def)

lemma parent_dir_segs: "segs cs \<Longrightarrow> cs \<noteq> [] \<Longrightarrow> parent_dir (path_of cs) = path_of (butlast cs)"
  using splitDirFile_segs [of "butlast cs" "last cs"]
  by (cases cs rule: rev_cases) (auto simp: parent_dir_def)

text \<open>The name with a slash before every segment.\<close>

abbreviation slashed :: "string list \<Rightarrow> string" where
  "slashed cs \<equiv> concat (map ((#) slash) cs)"

lemma slashed_path_of: "cs \<noteq> [] \<Longrightarrow> slash # path_of cs = slashed cs"
  by (induction cs rule: induct_list012) auto

lemma split_slashed: "segs cs \<Longrightarrow> split_on slash (slashed cs) = [] # cs"
proof (induction cs rule: rev_induct)
  case (snoc c cs)
  then show ?case using split_on_append2 [of slash "slashed cs" c] by (auto simp: seg_def split_on_no_sep)
qed simp

lemma slashed_inject: "segs cs \<Longrightarrow> segs ds \<Longrightarrow> slashed cs = slashed ds \<longleftrightarrow> cs = ds"
  by (metis list.inject split_slashed)

lemma slashed_below:
  assumes "segs cs" "segs ds" "slashed ds = slashed cs @ slash # r"
  shows "ds = cs @ split_on slash r"
proof -
  have "[] # ds = split_on slash (slashed cs @ slash # r)"
    unfolding assms(3) [symmetric] by (rule split_slashed [OF assms(2), symmetric])
  also have "\<dots> = [] # cs @ split_on slash r" unfolding split_on_append2 split_slashed [OF assms(1)] by simp
  finally show ?thesis by simp
qed

end
