(* ===== verification/Work_Tree.thy ===== *)
theory Work_Tree
  imports Paths KV "HOL-Library.Sublist"
begin

text \<open>
  A project's working tree as the storage layer uses it (\<open>internal/storage/fs_git.go\<close>,
  \<open>reapdir.go\<close>): files and directories under their path below the project, the \<open>os\<close> calls with the
  outcomes the code distinguishes, the path check \<open>relWithin\<close>, the atomic file write and the reaping
  of one empty directory.  The project's own directory is the empty path and always exists.
\<close>

datatype node = FileNode string | DirNode

type_synonym wtree = "(string list \<times> node) list"

definition node_at :: "wtree \<Rightarrow> string list \<Rightarrow> node option" where
  "node_at t p = (if p = [] then Some DirNode else map_of t p)"

section \<open>Paths below a project\<close>

text \<open>\<open>filepath.Join(projectPath, path)\<close> and \<open>filepath.Rel\<close> back, on components; \<open>base\<close> are those of
  the absolute project path.\<close>

definition full_comps :: "string list \<Rightarrow> string \<Rightarrow> string list" where
  "full_comps base path = clean_comps True (base @ split_on slash path) []"

fun rel_comps :: "string list \<Rightarrow> string list \<Rightarrow> string list" where
  "rel_comps [] full = full"
| "rel_comps (b # bs) [] = replicate (length (b # bs)) dotdot"
| "rel_comps (b # bs) (f # fs) =
     (if b = f then rel_comps bs fs else replicate (length (b # bs)) dotdot @ f # fs)"

definition rel_string :: "string list \<Rightarrow> string" where
  "rel_string rs = (if rs = [] then dot else path_of rs)"

definition relWithin :: "string list \<Rightarrow> string \<Rightarrow> (string list \<times> string) option" where
  "relWithin base path =
     (let rs = rel_comps base (full_comps base path); rel = rel_string rs in
      if has_prefix path [slash] \<or> has_prefix rel dotdot \<or> has_prefix rel [slash] then None
      else Some (rs, rel))"

lemma clean_rooted_plain: "list_all (\<lambda>c. slash \<notin> set c) cs \<Longrightarrow> list_all plain_comp acc \<Longrightarrow>
    list_all plain_comp (clean_comps True cs acc)"
proof (induction cs arbitrary: acc)
  case (Cons c cs)
  have "plain_comp c" if "c \<noteq> []" "c \<noteq> dot" "c \<noteq> dotdot" using that Cons.prems(1) by (simp add: plain_comp_def)
  moreover have "\<not> plain_comp dotdot" by (simp add: plain_comp_def)
  ultimately show ?case using Cons.IH Cons.prems by (cases acc) auto
qed (simp add: list_all_iff)

lemma clean_rooted_append:
  "list_all plain_comp base \<Longrightarrow> clean_comps True (base @ cs) acc = clean_comps True cs (rev base @ acc)"
  by (induction base arbitrary: acc) (auto simp: plain_comp_def)

lemma rel_comps_same: "rel_comps base (base @ rs) = rs"
  by (induction base) auto

lemma rel_comps_cases:
  "rel_comps base full = rs \<Longrightarrow> full = base @ rs \<or> (\<exists>r. rs = dotdot # r)"
proof (induction base full arbitrary: rs rule: rel_comps.induct)
  case (3 b bs f fs)
  show ?case using 3 by (cases "b = f") auto
qed auto

lemma relWithin_comps:
  assumes "list_all plain_comp base" "relWithin base path = Some (rs, rel)"
  shows "full_comps base path = base @ rs \<and> list_all plain_comp rs \<and> rel = rel_string rs \<and> \<not> has_prefix path [slash]"
proof -
  have rs: "rs = rel_comps base (full_comps base path)" "rel = rel_string rs" "\<not> has_prefix rel dotdot"
    "\<not> has_prefix path [slash]"
    using assms(2) by (auto simp: relWithin_def Let_def split: if_splits)
  have "list_all (\<lambda>c. slash \<notin> set c) (base @ split_on slash path)"
    using assms(1) split_on_sep_free by (fastforce simp: list_all_iff plain_comp_def)
  then have pl: "list_all plain_comp (full_comps base path)"
    unfolding full_comps_def by (intro clean_rooted_plain) simp_all
  have "\<not> (\<exists>r. rs = dotdot # r)"
  proof
    assume "\<exists>r. rs = dotdot # r"
    then obtain r where "rs = dotdot # r" by blast
    then have "has_prefix rel dotdot" by (cases r) (simp_all add: rs(2) rel_string_def has_prefix_iff)
    with rs(3) show False by simp
  qed
  with rel_comps_cases [OF rs(1) [symmetric]] have full: "full_comps base path = base @ rs" by blast
  with pl rs(2,4) show ?thesis by simp
qed

text \<open>
  C7: no path leaves its project: what \<open>relWithin\<close> accepts is the project's directory followed by
  components that are neither empty nor \<open>.\<close> nor \<open>..\<close> and hold no slash, whatever the text of the
  path, and the relative text it returns is those components.
\<close>

theorem relWithin_confines:
  assumes "list_all plain_comp base" "relWithin base path = Some (rs, rel)"
  shows "full_comps base path = base @ rs \<and> list_all plain_comp rs \<and> rel = rel_string rs \<and> \<not> has_prefix path [slash]"
  by (rule relWithin_comps [OF assms])

theorem relWithin_confines_witness:
  "\<exists>rs rel. relWithin [''srv'', ''ns'', ''proj''] ''docs/../a//b.md'' = Some (rs, rel) \<and> list_all plain_comp rs"
proof -
  have "relWithin [''srv'', ''ns'', ''proj''] ''docs/../a//b.md'' \<noteq> None" by code_simp
  then obtain rs rel where r: "relWithin [''srv'', ''ns'', ''proj''] ''docs/../a//b.md'' = Some (rs, rel)" by auto
  moreover have "list_all plain_comp [''srv'', ''ns'', ''proj'']" by code_simp
  ultimately show ?thesis using relWithin_confines by blast
qed

section \<open>File-system calls\<close>

definition ancestors :: "string list \<Rightarrow> string list list" where
  "ancestors p = map (\<lambda>n. take n p) [0..<length p]"

datatype lookup = IsFile string | IsDir | NotExist | NotDir

text \<open>\<open>ENOENT\<close> and \<open>ENOTDIR\<close> are different errors: only the first is \<open>os.IsNotExist\<close>.\<close>

definition path_lookup :: "wtree \<Rightarrow> string list \<Rightarrow> lookup" where
  "path_lookup t p =
     (case find (\<lambda>q. node_at t q \<noteq> Some DirNode) (ancestors p) of
        Some q \<Rightarrow> (if node_at t q = None then NotExist else NotDir)
      | None \<Rightarrow> (case node_at t p of None \<Rightarrow> NotExist | Some (FileNode c) \<Rightarrow> IsFile c | Some DirNode \<Rightarrow> IsDir))"

definition ReadFile :: "wtree \<Rightarrow> string list \<Rightarrow> lookup + string" where
  "ReadFile t p = (case path_lookup t p of IsFile c \<Rightarrow> Inr c | l \<Rightarrow> Inl l)"

definition is_file_node :: "wtree \<Rightarrow> string list \<Rightarrow> bool" where
  "is_file_node t p = (case node_at t p of Some (FileNode c) \<Rightarrow> True | _ \<Rightarrow> False)"

definition add_dir :: "string list \<Rightarrow> wtree \<Rightarrow> wtree" where
  "add_dir q t = (if node_at t q = None then kv_put q DirNode t else t)"

definition MkdirAll :: "bool \<Rightarrow> wtree \<Rightarrow> string list \<Rightarrow> wtree option" where
  "MkdirAll fails t p =
     (let ps = ancestors p @ [p] in
      if fails \<or> list_ex (is_file_node t) ps then None else Some (fold add_dir ps t))"

text \<open>\<open>atomicWriteFile\<close>: a failing step removes the staging file and leaves the tree as it was.\<close>

definition atomicWriteFile :: "bool \<Rightarrow> wtree \<Rightarrow> string list \<Rightarrow> string \<Rightarrow> wtree option" where
  "atomicWriteFile fails t p data =
     (if fails \<or> p = [] \<or> node_at t (butlast p) \<noteq> Some DirNode \<or> node_at t p = Some DirNode then None
      else Some (kv_put p (FileNode data) t))"

datatype remove_res = Removed wtree | RemoveNotExist | RemoveFails

definition Remove_path :: "bool \<Rightarrow> wtree \<Rightarrow> string list \<Rightarrow> remove_res" where
  "Remove_path fails t p =
     (case path_lookup t p of
        NotExist \<Rightarrow> RemoveNotExist
      | NotDir \<Rightarrow> RemoveFails
      | IsFile c \<Rightarrow> (if fails then RemoveFails else Removed (kv_del p t))
      | IsDir \<Rightarrow>
          (if fails \<or> p = [] \<or> list_ex (\<lambda>(q, n). strict_prefix p q) t then RemoveFails
           else Removed (kv_del p t)))"

definition derivativeWalkSkipDir :: "string \<Rightarrow> bool" where
  "derivativeWalkSkipDir name \<longleftrightarrow> name = ''.git'' \<or> name = ''.shoka'' \<or> name = ''.drafts''"

definition reapableDir :: "string list \<Rightarrow> bool" where
  "reapableDir dir \<longleftrightarrow> dir \<noteq> [] \<and> \<not> list_ex derivativeWalkSkipDir dir"

definition reapEmptyDir :: "bool \<Rightarrow> wtree \<Rightarrow> string list \<Rightarrow> wtree" where
  "reapEmptyDir fails t dir =
     (if \<not> reapableDir dir then t
      else case Remove_path fails t dir of Removed t1 \<Rightarrow> t1 | _ \<Rightarrow> t)"

section \<open>What the calls do to the files\<close>

definition file_at :: "wtree \<Rightarrow> string list \<Rightarrow> string option" where
  "file_at t p = (case node_at t p of Some (FileNode c) \<Rightarrow> Some c | _ \<Rightarrow> None)"

text \<open>Every ancestor of a node is a directory.\<close>

definition wt_ok :: "wtree \<Rightarrow> bool" where
  "wt_ok t \<longleftrightarrow> (\<forall>p q. node_at t p \<noteq> None \<longrightarrow> strict_prefix q p \<longrightarrow> node_at t q = Some DirNode)"

lemma ancestors_set: "set (ancestors p) = {q. strict_prefix q p}"
proof (intro set_eqI iffI)
  fix q assume "q \<in> set (ancestors p)"
  then obtain n where "n < length p" "q = take n p" by (auto simp: ancestors_def)
  then show "q \<in> {q. strict_prefix q p}" by (auto simp: strict_prefix_def take_is_prefix)
next
  fix q assume "q \<in> {q. strict_prefix q p}"
  then obtain r where r: "p = q @ r" "r \<noteq> []" by (auto simp: strict_prefix_def prefix_def)
  then have "length q < length p" "q = take (length q) p" by simp_all
  then show "q \<in> set (ancestors p)" unfolding ancestors_def by (auto intro!: image_eqI [of _ _ "length q"])
qed

lemma node_at_put: "p \<noteq> [] \<Longrightarrow> node_at (kv_put p n t) q = (if q = p then Some n else node_at t q)"
  by (auto simp: node_at_def)

lemma node_at_del: "p \<noteq> [] \<Longrightarrow> node_at (kv_del p t) q = (if q = p then None else node_at t q)"
  by (auto simp: node_at_def)

lemma path_lookup_file: "path_lookup t p = IsFile c \<Longrightarrow> p \<noteq> [] \<and> file_at t p = Some c"
  by (auto simp: path_lookup_def file_at_def node_at_def split: option.splits node.splits if_splits)

lemma path_lookup_ok:
  assumes "wt_ok t"
  shows "path_lookup t p = IsFile c \<longleftrightarrow> file_at t p = Some c" "path_lookup t p = IsDir \<longleftrightarrow> node_at t p = Some DirNode"
proof -
  have "find (\<lambda>q. node_at t q \<noteq> Some DirNode) (ancestors p) = None" if "node_at t p \<noteq> None"
    unfolding find_None_iff ancestors_set using assms that by (auto simp: wt_ok_def)
  then show "path_lookup t p = IsFile c \<longleftrightarrow> file_at t p = Some c" "path_lookup t p = IsDir \<longleftrightarrow> node_at t p = Some DirNode"
    by (auto simp: path_lookup_def file_at_def split: option.splits node.splits)
qed

lemma ReadFile_ok: "wt_ok t \<Longrightarrow> ReadFile t p = Inr c \<longleftrightarrow> file_at t p = Some c"
  using path_lookup_ok(1) [of t p c] by (auto simp: ReadFile_def split: lookup.splits)

lemma node_at_root [simp]: "node_at t [] = Some DirNode"
  by (simp add: node_at_def)

lemma add_dirs_node:
  "node_at (fold add_dir ps t) x = (if node_at t x = None \<and> x \<in> set ps then Some DirNode else node_at t x)"
proof (induction ps arbitrary: t)
  case (Cons q ps)
  have "node_at (add_dir q t) y = (if node_at t y = None \<and> y = q then Some DirNode else node_at t y)" for y
    by (cases "q = []") (auto simp: add_dir_def node_at_put node_at_root)
  then show ?case using Cons.IH [of "add_dir q t"] by auto
qed simp

lemma is_file_node_iff: "is_file_node t p \<longleftrightarrow> file_at t p \<noteq> None"
  by (auto simp: is_file_node_def file_at_def split: option.split node.split)

lemma MkdirAll_node:
  assumes "MkdirAll f t p = Some t'"
  shows "node_at t' x = (if prefix x p then Some DirNode else node_at t x)"
proof -
  let ?ps = "ancestors p @ [p]"
  have t': "t' = fold add_dir ?ps t" and nf: "\<And>q. q \<in> set ?ps \<Longrightarrow> \<not> is_file_node t q"
    using assms by (auto simp: MkdirAll_def Let_def list_ex_iff split: if_splits)
  have ps: "set ?ps = {q. prefix q p}" by (auto simp: ancestors_set strict_prefix_def)
  have np: "node_at t q = None \<or> node_at t q = Some DirNode" if "prefix q p" for q
  proof -
    have "q \<in> set ?ps" using ps that by blast
    from nf [OF this] show ?thesis by (auto simp: is_file_node_def split: option.splits node.splits)
  qed
  show ?thesis unfolding t' add_dirs_node using ps np [of x] by auto
qed

lemma MkdirAll_ok:
  assumes "wt_ok t" "MkdirAll f t p = Some t'"
  shows "wt_ok t'" "file_at t' = file_at t" "node_at t' p = Some DirNode"
proof -
  note n = MkdirAll_node [OF assms(2)]
  show "wt_ok t'" unfolding wt_ok_def
  proof (intro allI impI)
    fix x q assume x: "node_at t' x \<noteq> None" "strict_prefix q x"
    show "node_at t' q = Some DirNode"
    proof (cases "prefix x p")
      case True
      then have "prefix q p" using x(2) by (meson prefix_order.order_trans strict_prefix_def)
      then show ?thesis by (simp add: n)
    next
      case False
      then have "node_at t q = Some DirNode" using x assms(1) by (auto simp: n wt_ok_def)
      then show ?thesis by (simp add: n)
    qed
  qed
  show "node_at t' p = Some DirNode" by (simp add: n)
  have "file_at t q = None" if "prefix q p" for q
  proof -
    have "\<not> is_file_node t q"
      using assms(2) that by (auto simp: MkdirAll_def Let_def list_ex_iff ancestors_set strict_prefix_def split: if_splits)
    then show ?thesis by (simp add: is_file_node_iff)
  qed
  then show "file_at t' = file_at t" by (auto simp: fun_eq_iff file_at_def n)
qed

lemma strict_prefix_butlast: "p \<noteq> [] \<Longrightarrow> strict_prefix q p \<longleftrightarrow> prefix q (butlast p)"
proof (cases p rule: rev_cases)
  case (snoc xs x)
  have "prefix q xs \<Longrightarrow> q \<noteq> xs @ [x]" by (auto dest: prefix_length_le)
  then show ?thesis using snoc by (auto simp: strict_prefix_def)
qed simp

lemma atomicWriteFile_ok:
  assumes "wt_ok t" "atomicWriteFile f t p c = Some t'"
  shows "wt_ok t'" "file_at t' = (file_at t)(p \<mapsto> c)" "p \<noteq> []"
    "\<And>q. strict_prefix q p \<or> strict_prefix p q \<Longrightarrow> file_at t q = None"
proof -
  have p: "p \<noteq> []" "node_at t (butlast p) = Some DirNode" "node_at t p \<noteq> Some DirNode" "t' = kv_put p (FileNode c) t"
    using assms(2) by (auto simp: atomicWriteFile_def split: if_splits)
  note n = node_at_put [OF p(1), of "FileNode c" t]
  have up: "node_at t q = Some DirNode" if "strict_prefix q p" for q
  proof (cases "q = butlast p")
    case False
    then have "strict_prefix q (butlast p)" using that strict_prefix_butlast [OF p(1)] by (auto simp: strict_prefix_def)
    then show ?thesis using assms(1) p(2) by (auto simp: wt_ok_def)
  qed (simp add: p(2))
  have down: "node_at t q = None" if "strict_prefix p q" for q
    using assms(1) that p(3) unfolding wt_ok_def by blast
  show "wt_ok t'" unfolding wt_ok_def p(4) n
  proof (intro allI impI)
    fix x q assume x: "(if x = p then Some (FileNode c) else node_at t x) \<noteq> None" "strict_prefix q x"
    have "q \<noteq> p" using x down by (auto split: if_splits)
    moreover have "node_at t q = Some DirNode"
      using x up assms(1) by (cases "x = p") (auto simp: wt_ok_def)
    ultimately show "(if q = p then Some (FileNode c) else node_at t q) = Some DirNode" by simp
  qed
  show "file_at t' = (file_at t)(p \<mapsto> c)" by (auto simp: fun_eq_iff file_at_def p(4) n)
  show "p \<noteq> []" by (rule p(1))
  show "file_at t q = None" if "strict_prefix q p \<or> strict_prefix p q" for q
    using that up down by (auto simp: file_at_def)
qed

lemma Remove_path_ok:
  assumes "wt_ok t" "Remove_path f t p = Removed t'"
  shows "wt_ok t'" "file_at t' = (file_at t)(p := None)" "p \<noteq> []"
    "\<And>q. strict_prefix p q \<Longrightarrow> node_at t q = None"
proof -
  have p: "p \<noteq> []" "t' = kv_del p t"
    and d: "(\<exists>c. file_at t p = Some c) \<or> node_at t p = Some DirNode \<and> \<not> list_ex (\<lambda>(q, n). strict_prefix p q) t"
    using assms(2) path_lookup_ok [OF assms(1), of p] path_lookup_file [of t p]
    by (auto simp: Remove_path_def split: lookup.splits if_splits)
  note n = node_at_del [OF p(1), of t]
  show down: "node_at t q = None" if q: "strict_prefix p q" for q
  proof -
    have "q \<noteq> []" using q by auto
    show ?thesis using d
    proof
      assume "\<exists>c. file_at t p = Some c"
      then have "node_at t p \<noteq> Some DirNode" by (auto simp: file_at_def)
      then show ?thesis using assms(1) q unfolding wt_ok_def by blast
    next
      assume "node_at t p = Some DirNode \<and> \<not> list_ex (\<lambda>(q, n). strict_prefix p q) t"
      then have "q \<notin> fst ` set t" using q by (auto simp: list_ex_iff)
      then show ?thesis using \<open>q \<noteq> []\<close> by (simp add: node_at_def map_of_eq_None_iff)
    qed
  qed
  show "wt_ok t'" unfolding wt_ok_def p(2) n
    using assms(1) down by (auto simp: wt_ok_def)
  show "file_at t' = (file_at t)(p := None)" by (auto simp: fun_eq_iff file_at_def p(2) n)
  show "p \<noteq> []" by (rule p(1))
qed

lemma reapEmptyDir_ok:
  assumes "wt_ok t"
  shows "wt_ok (reapEmptyDir f t d)" "file_at t d = None \<Longrightarrow> file_at (reapEmptyDir f t d) = file_at t"
  using Remove_path_ok [OF assms, of f d] assms
  by (auto simp: reapEmptyDir_def fun_eq_iff split: remove_res.splits)

text \<open>A path that does not exist has no file above it.\<close>

lemma NotExist_above:
  assumes "wt_ok t" "path_lookup t p = NotExist" "strict_prefix q p"
  shows "file_at t q = None"
proof (rule ccontr)
  let ?P = "\<lambda>q. node_at t q \<noteq> Some DirNode"
  assume "file_at t q \<noteq> None"
  then obtain c where c: "node_at t q = Some (FileNode c)"
    by (auto simp: file_at_def split: option.splits node.splits)
  have qa: "q \<in> set (ancestors p)" using assms(3) by (simp add: ancestors_set)
  have ql: "q = take (length q) p" "length q < length p"
    using assms(3) by (auto simp: strict_prefix_def prefix_def)
  show False
  proof (cases "find ?P (ancestors p)")
    case None
    then show False using c qa by (auto simp: find_None_iff)
  next
    case (Some x)
    then obtain i where i: "i < length (ancestors p)" "x = ancestors p ! i" "?P x" "\<forall>j<i. \<not> ?P (ancestors p ! j)"
      by (auto simp: find_Some_iff)
    have x: "x = take i p" "i < length p" using i(1,2) by (simp_all add: ancestors_def)
    have "\<not> length q < i"
    proof
      assume "length q < i"
      then have "\<not> ?P (ancestors p ! length q)" using i(4) by blast
      then show False using ql c by (simp add: ancestors_def)
    qed
    moreover have "\<not> i < length q"
    proof
      assume l: "i < length q"
      have "take i q = take (min i (length q)) p" by (subst ql(1)) simp
      then have "x = take i q" using x l by simp
      moreover from l have "length (take i q) \<noteq> length q" by simp
      then have "take i q \<noteq> q" by metis
      ultimately have "strict_prefix x q" by (simp add: strict_prefix_def take_is_prefix)
      then show False using assms(1) c i(3) by (auto simp: wt_ok_def)
    qed
    ultimately have "i = length q" by simp
    then have "x = q" using x ql by simp
    then show False using assms(2) Some c by (simp add: path_lookup_def)
  qed
qed

lemma path_lookup_NotExist: "wt_ok t \<Longrightarrow> path_lookup t p = NotExist \<Longrightarrow> node_at t p = None"
proof -
  assume ok: "wt_ok t" and ne: "path_lookup t p = NotExist"
  have "file_at t p \<noteq> Some c" for c
    unfolding path_lookup_ok(1) [OF ok, symmetric] ne by simp
  moreover have "node_at t p \<noteq> Some DirNode"
    unfolding path_lookup_ok(2) [OF ok, symmetric] ne by simp
  ultimately have "file_at t p = None" "node_at t p \<noteq> Some DirNode" by auto
  then show ?thesis by (auto simp: file_at_def split: option.splits node.splits)
qed

lemma file_above: "wt_ok t \<Longrightarrow> node_at t p \<noteq> None \<Longrightarrow> strict_prefix q p \<Longrightarrow> file_at t q = None"
  by (auto simp: wt_ok_def file_at_def)

lemma file_below: "wt_ok t \<Longrightarrow> node_at t p \<noteq> Some DirNode \<Longrightarrow> strict_prefix p q \<Longrightarrow> file_at t q = None"
  unfolding wt_ok_def file_at_def by (cases "node_at t q") auto

end
