(* ===== verification/Partial_Edit.thy ===== *)
theory Partial_Edit
  imports Go_Strings
begin

text \<open>
  The splices behind \<open>patch_file\<close> and \<open>append_to_file\<close> (\<open>internal/storage/partialedit.go\<close>).
  \<open>bytes.Count\<close> counts occurrences that do not overlap; \<open>bytes.Index\<close> finds the first.
\<close>

datatype edit_error =
  MatchError string nat | ErrEmptyOldString | ErrAnchorRequired | ErrAnchorWithEnd | ErrInvalidPosition

definition splicePatch :: "string \<Rightarrow> string \<Rightarrow> string \<Rightarrow> edit_error + string" where
  "splicePatch cur oldString newString =
     (if oldString = [] then Inl ErrEmptyOldString
      else (let n = count_sub cur oldString in
        if n \<noteq> 1 then Inl (MatchError ''old_string'' n)
        else (case index_sub cur oldString of
                None \<Rightarrow> Inl (MatchError ''old_string'' n)
              | Some idx \<Rightarrow> Inr (take idx cur @ newString @ drop (idx + length oldString) cur))))"

definition spliceAppend :: "string \<Rightarrow> string \<Rightarrow> string \<Rightarrow> string \<Rightarrow> edit_error + string" where
  "spliceAppend cur content position anchor =
     (if position = [] \<or> position = ''end'' then
        (if anchor \<noteq> [] then Inl ErrAnchorWithEnd else Inr (cur @ content))
      else if position = ''before'' \<or> position = ''after'' then
        (if anchor = [] then Inl ErrAnchorRequired
         else (let n = count_sub cur anchor in
           if n \<noteq> 1 then Inl (MatchError ''anchor'' n)
           else (case index_sub cur anchor of
                   None \<Rightarrow> Inl (MatchError ''anchor'' n)
                 | Some idx \<Rightarrow>
                     (let at = (if position = ''after'' then idx + length anchor else idx) in
                      Inr (take at cur @ content @ drop at cur)))))
      else Inl ErrInvalidPosition)"

text \<open>\<open>MatchError\<close> with a found count of one is never built: a counted needle has a first occurrence.\<close>

lemma count_one_index:
  assumes "p \<noteq> []" "count_sub s p = 1"
  obtains i where "index_sub s p = Some i" "s = take i s @ p @ drop (i + length p) s"
    "count_sub (drop (i + length p) s) p = 0"
  using assms count_sub_index [OF assms(1), of s] index_sub_decompose [of s p]
  by (cases "index_sub s p") auto

lemma count_zero: "p \<noteq> [] \<Longrightarrow> count_sub s p = 0 \<longleftrightarrow> (\<forall>j. \<not> has_prefix (drop j s) p)"
proof
  assume p: "p \<noteq> []" and z: "count_sub s p = 0"
  then have "index_sub s p = None" using count_sub_index [OF p, of s] by (cases "index_sub s p") auto
  then show "\<forall>j. \<not> has_prefix (drop j s) p" using index_sub_None by blast
next
  assume p: "p \<noteq> []" and n: "\<forall>j. \<not> has_prefix (drop j s) p"
  have "index_sub s p = None"
  proof (cases "index_sub s p")
    case (Some i)
    then have "has_prefix (drop i s) p" using index_sub_Some by (fastforce simp: has_prefix_def)
    with n show ?thesis by blast
  qed
  then show "count_sub s p = 0" using count_sub_index [OF p, of s] by simp
qed

text \<open>Where a needle that is counted once occurs: once, but for occurrences that overlap the first.\<close>

definition occurs_at :: "string \<Rightarrow> string \<Rightarrow> nat \<Rightarrow> bool" where
  "occurs_at s p j \<longleftrightarrow> has_prefix (drop j s) p"

lemma count_one_occurs:
  assumes "p \<noteq> []" "count_sub s p = 1" "index_sub s p = Some i"
  shows "occurs_at s p i" "occurs_at s p j \<Longrightarrow> i \<le> j \<and> j < i + length p"
proof -
  show "occurs_at s p i" using index_sub_Some [OF assms(3)] by (simp add: occurs_at_def has_prefix_def)
  assume j: "occurs_at s p j"
  have "count_sub (drop (i + length p) s) p = 0" using assms count_sub_index [OF assms(1), of s] by simp
  then have none: "\<not> has_prefix (drop k (drop (i + length p) s)) p" for k using count_zero [OF assms(1)] by blast
  have "\<not> i + length p \<le> j"
  proof
    assume "i + length p \<le> j"
    then have "drop j s = drop (j - (i + length p)) (drop (i + length p) s)" by simp
    with none j show False unfolding occurs_at_def by metis
  qed
  moreover have "\<not> j < i" using index_sub_first [OF assms(3)] j by (auto simp: occurs_at_def)
  ultimately show "i \<le> j \<and> j < i + length p" by simp
qed

text \<open>
  a patch replaces one occurrence and nothing else: when \<open>patch_file\<close> succeeds, the text is the
  old one with the needle at one position replaced, the bytes before and after it untouched, and every
  occurrence of the needle in the old text overlaps that position; it fails when there is none, and
  when there are two that do not overlap.
\<close>

theorem splicePatch_exact:
  "oldString \<noteq> [] \<Longrightarrow>
   (case splicePatch cur oldString newString of
      Inr out \<Rightarrow> (\<exists>pre post. cur = pre @ oldString @ post \<and> out = pre @ newString @ post \<and>
        (\<forall>j. occurs_at cur oldString j \<longrightarrow> length pre \<le> j \<and> j < length pre + length oldString))
    | Inl e \<Rightarrow> \<exists>n. e = MatchError ''old_string'' n \<and> n \<noteq> 1 \<and> n = count_sub cur oldString \<and>
        (n = 0 \<longleftrightarrow> (\<forall>j. \<not> occurs_at cur oldString j)))"
proof (cases "count_sub cur oldString = 1")
  case True
  assume p: "oldString \<noteq> []"
  obtain i where i: "index_sub cur oldString = Some i" "cur = take i cur @ oldString @ drop (i + length oldString) cur"
    using count_one_index [OF p True] by blast
  have l: "length (take i cur) = i" using index_sub_Some [OF i(1)] by simp
  have "splicePatch cur oldString newString = Inr (take i cur @ newString @ drop (i + length oldString) cur)"
    using p True i(1) by (simp add: splicePatch_def)
  moreover have "\<forall>j. occurs_at cur oldString j \<longrightarrow> length (take i cur) \<le> j \<and> j < length (take i cur) + length oldString"
    using count_one_occurs(2) [OF p True i(1)] unfolding l by blast
  ultimately show ?thesis using i(2) by (simp only: sum.case) blast
next
  case False
  assume p: "oldString \<noteq> []"
  have "splicePatch cur oldString newString = Inl (MatchError ''old_string'' (count_sub cur oldString))"
    using p False by (simp add: splicePatch_def Let_def)
  then show ?thesis using False count_zero [OF p, of cur] by (simp add: occurs_at_def)
qed

theorem splicePatch_exact_witness:
  "\<exists>pre post. ''a TODO b'' = pre @ ''TODO'' @ post \<and>
     splicePatch ''a TODO b'' ''TODO'' ''done'' = Inr (pre @ ''done'' @ post)"
proof -
  have "\<not> isl (splicePatch ''a TODO b'' ''TODO'' ''done'')" by code_simp
  then show ?thesis using splicePatch_exact [of "''TODO''" "''a TODO b''" "''done''"]
    by (cases "splicePatch ''a TODO b'' ''TODO'' ''done''") auto
qed

text \<open>
  the server does guess when the occurrences overlap: \<open>aa\<close> occurs twice in \<open>aaa\<close>, yet the patch
  is applied, to the first of the two.
\<close>

theorem splicePatch_guesses:
  "occurs_at ''aaa'' ''aa'' 0 \<and> occurs_at ''aaa'' ''aa'' 1 \<and> splicePatch ''aaa'' ''aa'' ''b'' = Inr ''ba''"
proof (intro conjI)
  show "splicePatch ''aaa'' ''aa'' ''b'' = Inr ''ba''" by code_simp
qed (simp_all add: occurs_at_def has_prefix_def)

text \<open>
  an append keeps every byte: when \<open>append_to_file\<close> succeeds, the content stands once, verbatim,
  between two parts of the old text: after all of it for \<open>end\<close>, right before or right after an
  occurrence of the anchor for \<open>before\<close> and \<open>after\<close>.
\<close>

theorem spliceAppend_exact:
  assumes "spliceAppend cur content position anchor = Inr out"
  shows "\<exists>pre post. cur = pre @ post \<and> out = pre @ content @ post \<and>
    ((position = [] \<or> position = ''end'') \<and> post = [] \<or>
     position = ''before'' \<and> has_prefix post anchor \<and> anchor \<noteq> [] \<or>
     position = ''after'' \<and> has_suffix pre anchor \<and> anchor \<noteq> [])"
proof (cases "position = [] \<or> position = ''end''")
  case True
  then show ?thesis using assms by (auto simp: spliceAppend_def split: if_splits)
next
  case False
  then have a: "anchor \<noteq> []" "count_sub cur anchor = 1" "position = ''before'' \<or> position = ''after''"
    using assms by (auto simp: spliceAppend_def Let_def split: if_splits)
  obtain i where i: "index_sub cur anchor = Some i" "cur = take i cur @ anchor @ drop (i + length anchor) cur"
    using count_one_index [OF a(1,2)] by blast
  let ?at = "if position = ''after'' then i + length anchor else i"
  have out: "out = take ?at cur @ content @ drop ?at cur"
    using assms False a i(1) by (auto simp: spliceAppend_def Let_def)
  have b: "drop i cur = anchor @ drop (i + length anchor) cur" "take (i + length anchor) cur = take i cur @ anchor"
    using index_sub_Some [OF i(1)] by (metis append_take_drop_id drop_drop add.commute, simp add: take_add)
  show ?thesis
    by (rule exI [of _ "take ?at cur"], rule exI [of _ "drop ?at cur"])
      (use a out b in \<open>auto simp: has_prefix_iff has_suffix_iff\<close>)
qed

theorem spliceAppend_exact_witness:
  "\<exists>pre post out. spliceAppend ''x # y'' ''new'' ''after'' ''#'' = Inr out \<and> out = pre @ ''new'' @ post \<and>
     has_suffix pre ''#''"
proof -
  have "\<not> isl (spliceAppend ''x # y'' ''new'' ''after'' ''#'')" by code_simp
  then obtain out where o: "spliceAppend ''x # y'' ''new'' ''after'' ''#'' = Inr out"
    by (cases "spliceAppend ''x # y'' ''new'' ''after'' ''#''") auto
  from spliceAppend_exact [OF this] obtain pre post where "out = pre @ ''new'' @ post" "has_suffix pre ''#''" by auto
  with o show ?thesis by blast
qed

end
