(* ===== verification/Ref_Write.thy ===== *)
theory Ref_Write
  imports Paths
begin

text \<open>
  The atomic ref write (\<open>internal/storage/refwrite.go\<close>).  The files of a repository's git directory
  that matter to references are a map from their names; a write is the sequence of states its
  file-system calls leave, so that what a reader can see between two calls is part of the result.
\<close>

datatype 'h ref_file = SymRef string | HashRef 'h | Unfinished

type_synonym 'h refs = "string \<Rightarrow> 'h ref_file option"

datatype ref_error = NoHeadRef | RefMkdir | RefCreateTemp | RefWriteTemp | RefCloseTemp | RefRename

text \<open>Which call fails.  A failing \<open>os.Remove\<close> of the temporary file is ignored by the code.\<close>

record ref_faults =
  rf_mkdir :: bool
  rf_create :: bool
  rf_write :: bool
  rf_close :: bool
  rf_rename :: bool
  rf_remove :: bool

definition no_ref_faults :: ref_faults where
  "no_ref_faults = \<lparr>rf_mkdir = False, rf_create = False, rf_write = False, rf_close = False,
                    rf_rename = False, rf_remove = False\<rparr>"

definition HEAD :: string where
  "HEAD = ''HEAD''"

definition file_base :: "string \<Rightarrow> string" where
  "file_base p = rev (takeWhile (\<lambda>c. c \<noteq> slash) (rev p))"

definition file_dir :: "string \<Rightarrow> string" where
  "file_dir p = rev (dropWhile (\<lambda>c. c \<noteq> slash) (rev p))"

text \<open>\<open>os.CreateTemp\<close> in the directory of the reference; \<open>rnd\<close> is the random part it picks.\<close>

definition temp_name :: "string \<Rightarrow> string \<Rightarrow> string" where
  "temp_name refName rnd = file_dir refName @ ''.'' @ file_base refName @ ''.tmp-'' @ rnd"

definition drop_temp :: "ref_faults \<Rightarrow> string \<Rightarrow> 'h refs \<Rightarrow> 'h refs" where
  "drop_temp F tmp refs = (if rf_remove F then refs else refs(tmp := None))"

definition writeRefAtomic ::
    "string \<Rightarrow> ref_faults \<Rightarrow> string \<Rightarrow> 'h \<Rightarrow> 'h refs \<Rightarrow> ref_error option \<times> 'h refs list" where
  "writeRefAtomic rnd F refName h refs =
     (if rf_mkdir F then (Some RefMkdir, [])
      else if rf_create F then (Some RefCreateTemp, [])
      else (let tmp = temp_name refName rnd; s1 = refs(tmp \<mapsto> Unfinished) in
        if rf_write F then (Some RefWriteTemp, [s1, drop_temp F tmp s1])
        else (let s2 = s1(tmp \<mapsto> HashRef h) in
          if rf_close F then (Some RefCloseTemp, [s1, s2, drop_temp F tmp s2])
          else if rf_rename F then (Some RefRename, [s1, s2, drop_temp F tmp s2])
          else (None, [s1, s2, s2(tmp := None, refName \<mapsto> HashRef h)]))))"

definition advanceHead ::
    "string \<Rightarrow> ref_faults \<Rightarrow> 'h \<Rightarrow> 'h refs \<Rightarrow> ref_error option \<times> 'h refs list" where
  "advanceHead rnd F h refs =
     (case refs HEAD of
        Some (SymRef target) \<Rightarrow> writeRefAtomic rnd F target h refs
      | Some (HashRef old) \<Rightarrow> writeRefAtomic rnd F HEAD h refs
      | _ \<Rightarrow> (Some NoHeadRef, []))"

text \<open>The state a call leaves.\<close>

definition refs_after :: "'h refs \<Rightarrow> 'h refs list \<Rightarrow> 'h refs" where
  "refs_after refs steps = last (refs # steps)"

section \<open>Temporary files\<close>

definition temp_file :: "string \<Rightarrow> bool" where
  "temp_file p \<longleftrightarrow> has_prefix (file_base p) ''.''"

lemma file_dir_base: "file_dir p @ file_base p = p"
  unfolding file_dir_def file_base_def by (metis rev_append rev_rev_ident takeWhile_dropWhile_id)

lemma file_base_free: "slash \<notin> set (file_base p)"
  unfolding file_base_def using set_takeWhileD by fastforce

lemma file_base_append: "slash \<notin> set s \<Longrightarrow> p = [] \<or> last p = slash \<Longrightarrow> file_base (p @ s) = s"
proof -
  assume s: "slash \<notin> set s" and p: "p = [] \<or> last p = slash"
  have "takeWhile (\<lambda>c. c \<noteq> slash) (rev p) = []" using p by (cases p rule: rev_cases) auto
  moreover have "takeWhile (\<lambda>c. c \<noteq> slash) (rev s @ rev p) = rev s @ takeWhile (\<lambda>c. c \<noteq> slash) (rev p)"
    using s by (intro takeWhile_append2) auto
  ultimately show ?thesis by (simp add: file_base_def)
qed

lemma file_dir_last: "file_dir p = [] \<or> last (file_dir p) = slash"
proof (cases "dropWhile (\<lambda>c. c \<noteq> slash) (rev p)")
  case (Cons a r)
  then have "a = slash" using hd_dropWhile [of "\<lambda>c. c \<noteq> slash" "rev p"] by simp
  then show ?thesis using Cons by (simp add: file_dir_def)
qed (simp add: file_dir_def)

lemma temp_name_temp: "slash \<notin> set rnd \<Longrightarrow> temp_file (temp_name p rnd)"
proof -
  assume "slash \<notin> set rnd"
  then have "slash \<notin> set (''.'' @ file_base p @ ''.tmp-'' @ rnd)"
    using file_base_free [of p] by (simp add: slash_def)
  from file_base_append [OF this file_dir_last] show ?thesis
    by (simp add: temp_file_def temp_name_def has_prefix_def)
qed

section \<open>Readers\<close>

lemma writeRefAtomic_mid:
  assumes "writeRefAtomic rnd F r h refs = (e, steps)" "s \<in> set (butlast steps)" "q \<noteq> temp_name r rnd"
  shows "s q = refs q"
  using assms
  by (auto simp: writeRefAtomic_def drop_temp_def Let_def split: if_splits)

lemma writeRefAtomic_last:
  assumes "writeRefAtomic rnd F r h refs = (e, steps)" "q \<noteq> temp_name r rnd"
  shows "refs_after refs steps q = (if e = None \<and> q = r then Some (HashRef h) else refs q)"
  using assms
  by (auto simp: writeRefAtomic_def drop_temp_def refs_after_def Let_def split: if_splits)

text \<open>
  go-git's \<open>Head\<close> is a parameter: it returns the hash \<open>HEAD\<close> holds, or the one held by the
  reference it names, and reads no file whose name starts with a dot.
\<close>

definition head_ok :: "('h refs \<Rightarrow> 'h option) \<Rightarrow> bool" where
  "head_ok rd \<longleftrightarrow>
     (\<forall>refs h. refs HEAD = Some (HashRef h) \<longrightarrow> rd refs = Some h) \<and>
     (\<forall>refs t h. refs HEAD = Some (SymRef t) \<longrightarrow> \<not> temp_file t \<longrightarrow> refs t = Some (HashRef h) \<longrightarrow> rd refs = Some h) \<and>
     (\<forall>refs refs'. (\<forall>q. \<not> temp_file q \<longrightarrow> refs q = refs' q) \<longrightarrow> rd refs = rd refs')"

text \<open>The reference \<open>HEAD\<close> stands for is no temporary file.\<close>

definition refs_ok :: "'h refs \<Rightarrow> bool" where
  "refs_ok refs \<longleftrightarrow> (\<forall>t. refs HEAD = Some (SymRef t) \<longrightarrow> \<not> temp_file t \<and> t \<noteq> HEAD)"

lemma HEAD_not_temp: "\<not> temp_file HEAD"
  by (simp add: temp_file_def HEAD_def file_base_def has_prefix_def slash_def)

lemma advanceHead_states:
  assumes "head_ok rd" "refs_ok refs" "slash \<notin> set rnd" "advanceHead rnd F h refs = (e, steps)"
  shows "(\<forall>s\<in>set (butlast steps). rd s = rd refs) \<and> refs_ok (refs_after refs steps) \<and>
    rd (refs_after refs steps) = (if e = None then Some h else rd refs)"
proof -
  have nt: "q \<noteq> temp_name r rnd" if "\<not> temp_file q" for q r
    using that temp_name_temp [OF assms(3)] by auto
  have same: "rd s = rd refs" if "\<forall>q. \<not> temp_file q \<longrightarrow> s q = refs q" for s
    using assms(1) that unfolding head_ok_def by blast
  show ?thesis
  proof (cases "refs HEAD = None \<or> refs HEAD = Some Unfinished")
    case True
    then show ?thesis using assms(2,4) by (auto simp: advanceHead_def refs_after_def)
  next
    case False
    then obtain r where r: "writeRefAtomic rnd F r h refs = (e, steps)" "\<not> temp_file r"
      "refs HEAD = Some (SymRef r) \<and> r \<noteq> HEAD \<or> (\<exists>x. refs HEAD = Some (HashRef x)) \<and> r = HEAD"
      using assms(2,4) HEAD_not_temp by (auto simp: advanceHead_def refs_ok_def split: option.splits ref_file.splits)
    have mid: "rd s = rd refs" if "s \<in> set (butlast steps)" for s
      using writeRefAtomic_mid [OF r(1) that] nt by (intro same) blast
    have last: "refs_after refs steps q = (if e = None \<and> q = r then Some (HashRef h) else refs q)"
      if "\<not> temp_file q" for q
      by (rule writeRefAtomic_last [OF r(1) nt [OF that]])
    have l: "rd (refs_after refs steps) = (if e = None then Some h else rd refs)"
    proof (cases "e = None")
      case True
      then have "refs_after refs steps HEAD = Some (SymRef r) \<and> refs_after refs steps r = Some (HashRef h) \<or>
          refs_after refs steps HEAD = Some (HashRef h)" (is "?sym \<or> ?direct")
        using r(2,3) last [OF HEAD_not_temp] last [OF r(2)] by auto
      have a: "rd f = Some h" if "f HEAD = Some (SymRef t)" "\<not> temp_file t" "f t = Some (HashRef h)" for f t h
        using assms(1) that unfolding head_ok_def by blast
      have b: "rd f = Some h" if "f HEAD = Some (HashRef h)" for f h
        using assms(1) that unfolding head_ok_def by blast
      have "rd (refs_after refs steps) = Some h"
        using \<open>?sym \<or> ?direct\<close>
      proof
        assume ?sym
        then show ?thesis by (elim conjE) (rule a [OF _ r(2)])
      qed (rule b)
      then show ?thesis using True by simp
    next
      case False
      have "rd (refs_after refs steps) = rd refs" by (rule same) (simp add: last False)
      with False show ?thesis by auto
    qed
    have "refs_ok (refs_after refs steps)"
      using assms(2) last [OF HEAD_not_temp] by (auto simp: refs_ok_def split: if_splits)
    with mid l show ?thesis by blast
  qed
qed

text \<open>
  C9: a reader that opens the repository between any two file-system calls of a commit sees the old
  head or the new one, never an empty or partial reference; it sees the new one only from the moment
  the call has succeeded, and after a failed call it still sees the old one.
\<close>

theorem advanceHead_atomic:
  assumes "head_ok rd" "refs_ok refs" "slash \<notin> set rnd" "advanceHead rnd F h refs = (e, steps)"
  shows "(\<forall>s\<in>set steps. rd s = rd refs \<or> e = None \<and> s = last steps \<and> rd s = Some h) \<and>
    rd (refs_after refs steps) = (if e = None then Some h else rd refs)"
proof -
  note st = advanceHead_states [OF assms]
  have "rd s = rd refs \<or> e = None \<and> s = last steps \<and> rd s = Some h" if s: "s \<in> set steps" for s
  proof (cases "s \<in> set (butlast steps)")
    case False
    from s have ne: "steps \<noteq> []" by auto
    then have "s \<in> set (butlast steps @ [last steps])" using s by simp
    then have "s = last steps" using False by simp
    then show ?thesis using st ne by (auto simp: refs_after_def split: if_splits)
  qed (use st in blast)
  with st show ?thesis by blast
qed

text \<open>The reader that follows one symbolic reference.\<close>

definition plain_head :: "'h refs \<Rightarrow> 'h option" where
  "plain_head refs =
     (let follow = (\<lambda>q. if temp_file q then None else case refs q of Some (HashRef h) \<Rightarrow> Some h | _ \<Rightarrow> None) in
      case refs HEAD of Some (SymRef t) \<Rightarrow> follow t | _ \<Rightarrow> follow HEAD)"

lemma plain_head_ok: "head_ok plain_head"
  unfolding head_ok_def
proof (intro conjI allI impI)
  fix refs refs' :: "'h refs" assume e: "\<forall>q. \<not> temp_file q \<longrightarrow> refs q = refs' q"
  then show "plain_head refs = plain_head refs'"
    using HEAD_not_temp by (auto simp: plain_head_def Let_def split: option.splits ref_file.splits)
qed (auto simp: plain_head_def Let_def HEAD_not_temp)

definition demo_refs :: "nat refs" where
  "demo_refs = [HEAD \<mapsto> SymRef ''refs/heads/main'', ''refs/heads/main'' \<mapsto> HashRef 7]"

theorem advanceHead_atomic_witness:
  "let (e, steps) = advanceHead ''x1'' no_ref_faults 8 demo_refs in
   plain_head demo_refs = Some 7 \<and> plain_head (refs_after demo_refs steps) = Some 8"
proof -
  obtain e steps where s: "advanceHead ''x1'' no_ref_faults 8 demo_refs = (e, steps)" by (cases "advanceHead ''x1'' no_ref_faults 8 demo_refs")
  then have e: "e = None"
    by (auto simp: advanceHead_def demo_refs_def writeRefAtomic_def no_ref_faults_def Let_def HEAD_def)
  have "refs_ok demo_refs" by (simp add: refs_ok_def demo_refs_def temp_file_def file_base_def slash_def has_prefix_def HEAD_def)
  from advanceHead_atomic [OF plain_head_ok this _ s] e
  have "plain_head (refs_after demo_refs steps) = Some 8" by (simp add: slash_def)
  moreover have "plain_head demo_refs = Some 7" by code_simp
  ultimately show ?thesis by (simp add: s)
qed

end
