(* ===== verification/Git_Tree.thy ===== *)
theory Git_Tree
  imports Paths "HOL-Library.Sublist"
begin

text \<open>
  The git plumbing of \<open>internal/storage/commit.go\<close>: a new tree is derived from the base tree by
  setting or removing one path and is stored bottom-up.  go-git's object store is a parameter: a
  content hash without collisions whose values are never the zero hash (\<open>git_ok\<close>), and which objects
  it accepts.  The lemmas show what the derived tree contains at every path.
\<close>

datatype filemode = Regular | Dir | Deprecated | Executable | Symlink | Submodule

record 'h tree_entry =
  te_Name :: string
  te_Mode :: filemode
  te_Hash :: 'h

record signature =
  sg_Name :: string
  sg_Email :: string
  sg_When :: int

record 'h commit =
  c_Author :: signature
  c_Committer :: signature
  c_Message :: string
  c_TreeHash :: 'h
  c_ParentHashes :: "'h list"

datatype 'h obj = BlobObj string | TreeObj "'h tree_entry list" | CommitObj "'h commit"

type_synonym 'h odb = "'h \<Rightarrow> 'h obj option"

record 'h git =
  g_hash :: "'h obj \<Rightarrow> 'h"
  g_zero :: 'h
  g_accepts :: "'h obj \<Rightarrow> bool"

definition git_ok :: "'h git \<Rightarrow> bool" where
  "git_ok G \<longleftrightarrow> inj (g_hash G) \<and> (\<forall>ob. g_hash G ob \<noteq> g_zero G)"

definition SetEncodedObject :: "'h git \<Rightarrow> 'h obj \<Rightarrow> 'h odb \<Rightarrow> ('h \<times> 'h odb) option" where
  "SetEncodedObject G ob db = (if g_accepts G ob then Some (g_hash G ob, db(g_hash G ob \<mapsto> ob)) else None)"

definition emptyTreeHash :: "'h git \<Rightarrow> 'h" where
  "emptyTreeHash G = g_hash G (TreeObj [])"

definition storeBlob :: "'h git \<Rightarrow> string \<Rightarrow> 'h odb \<Rightarrow> ('h \<times> 'h odb) option" where
  "storeBlob G content db = SetEncodedObject G (BlobObj content) db"

definition loadTreeEntries :: "'h git \<Rightarrow> 'h odb \<Rightarrow> 'h \<Rightarrow> 'h tree_entry list option" where
  "loadTreeEntries G db h =
     (if h = g_zero G then Some []
      else case db h of Some (TreeObj es) \<Rightarrow> Some es | _ \<Rightarrow> None)"

definition withoutEntry :: "'h tree_entry list \<Rightarrow> string \<Rightarrow> 'h tree_entry list" where
  "withoutEntry entries name = filter (\<lambda>e. te_Name e \<noteq> name) entries"

definition treeSortName :: "'h tree_entry \<Rightarrow> string" where
  "treeSortName e = (if te_Mode e = Dir then te_Name e @ ''/'' else te_Name e)"

text \<open>\<open>sort.Slice\<close> sorts by distinct keys here, so its order is that of every sort.\<close>

definition storeTree :: "'h git \<Rightarrow> 'h tree_entry list \<Rightarrow> 'h odb \<Rightarrow> ('h \<times> 'h odb) option" where
  "storeTree G entries db = SetEncodedObject G (TreeObj (sort_key treeSortName entries)) db"

fun sub_hash :: "'h tree_entry list \<Rightarrow> string \<Rightarrow> 'h \<Rightarrow> 'h" where
  "sub_hash [] name acc = acc"
| "sub_hash (e # es) name acc =
     sub_hash es name (if te_Name e = name \<and> te_Mode e = Dir then te_Hash e else acc)"

text \<open>\<open>strings.Split\<close> yields at least one component; on none the code panics.\<close>

fun applyToTree :: "'h git \<Rightarrow> 'h \<Rightarrow> string list \<Rightarrow> 'h \<Rightarrow> bool \<Rightarrow> 'h odb \<Rightarrow> ('h \<times> 'h odb) option" where
  "applyToTree G baseTree [] blob isDelete db = None"
| "applyToTree G baseTree [name] blob isDelete db =
     (case loadTreeEntries G db baseTree of
        None \<Rightarrow> None
      | Some entries \<Rightarrow>
          (let out = withoutEntry entries name in
           storeTree G (if \<not> isDelete then out @ [\<lparr>te_Name = name, te_Mode = Regular, te_Hash = blob\<rparr>] else out) db))"
| "applyToTree G baseTree (name # c # cs) blob isDelete db =
     (case loadTreeEntries G db baseTree of
        None \<Rightarrow> None
      | Some entries \<Rightarrow>
          (case applyToTree G (sub_hash entries name (g_zero G)) (c # cs) blob isDelete db of
             None \<Rightarrow> None
           | Some (newSub, db1) \<Rightarrow>
               (let out = withoutEntry entries name in
                storeTree G
                  (if \<not> (isDelete \<and> newSub = emptyTreeHash G)
                   then out @ [\<lparr>te_Name = name, te_Mode = Dir, te_Hash = newSub\<rparr>] else out) db1)))"

section \<open>The files of a tree\<close>

definition entry_at :: "'h git \<Rightarrow> 'h odb \<Rightarrow> 'h \<Rightarrow> string \<Rightarrow> 'h tree_entry option" where
  "entry_at G db h c =
     (case loadTreeEntries G db h of None \<Rightarrow> None | Some es \<Rightarrow> find (\<lambda>e. te_Name e = c) es)"

fun tree_file :: "'h git \<Rightarrow> 'h odb \<Rightarrow> 'h \<Rightarrow> string list \<Rightarrow> (filemode \<times> 'h) option" where
  "tree_file G db h [] = None"
| "tree_file G db h [c] =
     (case entry_at G db h c of
        None \<Rightarrow> None | Some e \<Rightarrow> if te_Mode e = Dir then None else Some (te_Mode e, te_Hash e))"
| "tree_file G db h (c # d # ds) =
     (case entry_at G db h c of
        None \<Rightarrow> None | Some e \<Rightarrow> if te_Mode e = Dir then tree_file G db (te_Hash e) (d # ds) else None)"

text \<open>Objects sit under their hash; the entries of a tree have distinct names, are in git's order, and
  its directories are stored trees that are not empty.\<close>

definition entries_ok :: "'h git \<Rightarrow> 'h odb \<Rightarrow> 'h tree_entry list \<Rightarrow> bool" where
  "entries_ok G db es \<longleftrightarrow>
     distinct (map te_Name es) \<and> sorted (map treeSortName es) \<and> list_all (\<lambda>e. seg (te_Name e)) es \<and>
     (\<forall>e\<in>set es. te_Mode e = Dir \<longrightarrow> (\<exists>f fs. db (te_Hash e) = Some (TreeObj (f # fs))))"

definition odb_ok :: "'h git \<Rightarrow> 'h odb \<Rightarrow> bool" where
  "odb_ok G db \<longleftrightarrow>
     (\<forall>h ob. db h = Some ob \<longrightarrow> g_hash G ob = h) \<and>
     (\<forall>h es. db h = Some (TreeObj es) \<longrightarrow> entries_ok G db es)"

definition tree_in :: "'h git \<Rightarrow> 'h odb \<Rightarrow> 'h \<Rightarrow> bool" where
  "tree_in G db h \<longleftrightarrow> h = g_zero G \<or> (\<exists>es. db h = Some (TreeObj es))"

lemma odb_zero: "git_ok G \<Longrightarrow> odb_ok G db \<Longrightarrow> db (g_zero G) = None"
  by (cases "db (g_zero G)") (auto simp: git_ok_def odb_ok_def)

lemma SetEncodedObject_ok:
  assumes "git_ok G" "odb_ok G db" "SetEncodedObject G ob db = Some (h, db')"
  shows "db \<subseteq>\<^sub>m db'" "db' h = Some ob" "h = g_hash G ob" "\<And>k. k \<noteq> h \<Longrightarrow> db' k = db k"
proof -
  have h: "h = g_hash G ob" "db' = db(h \<mapsto> ob)" using assms(3) by (auto simp: SetEncodedObject_def split: if_splits)
  have "db k = None \<or> db k = Some ob" if "k = h" for k
  proof (cases "db k")
    case (Some ob')
    then have "g_hash G ob' = g_hash G ob" using assms(2) that h by (auto simp: odb_ok_def)
    then show ?thesis using Some assms(1) by (auto simp: git_ok_def dest: injD)
  qed simp
  then show "db \<subseteq>\<^sub>m db'" using h by (auto simp: map_le_def)
  show "db' h = Some ob" "h = g_hash G ob" "\<And>k. k \<noteq> h \<Longrightarrow> db' k = db k" using h by simp_all
qed

lemma entries_ok_mono: "entries_ok G db es \<Longrightarrow> db \<subseteq>\<^sub>m db' \<Longrightarrow> entries_ok G db' es"
  unfolding entries_ok_def map_le_def by (metis domI)

lemma SetEncodedObject_odb:
  assumes "git_ok G" "odb_ok G db" "SetEncodedObject G ob db = Some (h, db')"
    and "\<And>es. ob = TreeObj es \<Longrightarrow> entries_ok G db es"
  shows "odb_ok G db'"
proof -
  note s = SetEncodedObject_ok [OF assms(1-3)]
  show ?thesis
    unfolding odb_ok_def
  proof (intro conjI allI impI)
    fix k ob' assume "db' k = Some ob'"
    then show "g_hash G ob' = k" using s assms(2) by (cases "k = h") (auto simp: odb_ok_def)
  next
    fix k es assume k: "db' k = Some (TreeObj es)"
    have "entries_ok G db es"
      using k s assms(2,4) by (cases "k = h") (auto simp: odb_ok_def)
    then show "entries_ok G db' es" using s(1) by (rule entries_ok_mono)
  qed
qed

lemma tree_in_mono: "tree_in G db h \<Longrightarrow> db \<subseteq>\<^sub>m db' \<Longrightarrow> tree_in G db' h"
  by (auto simp: tree_in_def map_le_def dom_def)

lemma load_tree_in: "tree_in G db h \<Longrightarrow> git_ok G \<Longrightarrow> odb_ok G db \<Longrightarrow>
    \<exists>es. loadTreeEntries G db h = Some es \<and> entries_ok G db es"
  by (auto simp: tree_in_def loadTreeEntries_def odb_ok_def odb_zero) (simp add: entries_ok_def)

lemma load_mono:
  assumes "git_ok G" "odb_ok G db" "tree_in G db h" "db \<subseteq>\<^sub>m db'"
  shows "loadTreeEntries G db' h = loadTreeEntries G db h"
proof (cases "h = g_zero G")
  case False
  then obtain es where "db h = Some (TreeObj es)" using assms(3) by (auto simp: tree_in_def)
  moreover from this have "db' h = Some (TreeObj es)" using assms(4) by (auto simp: map_le_def dom_def)
  ultimately show ?thesis by (simp add: loadTreeEntries_def)
qed (simp add: loadTreeEntries_def)

lemma find_name_Some: "distinct (map te_Name es) \<Longrightarrow> find (\<lambda>e. te_Name e = c) es = Some e \<longleftrightarrow> e \<in> set es \<and> te_Name e = c"
  by (induction es) (auto dest: image_eqI [of _ te_Name])

lemma find_name_None: "find (\<lambda>e. te_Name e = c) es = None \<longleftrightarrow> c \<notin> te_Name ` set es"
  by (auto simp: find_None_iff)

lemma entry_tree_in:
  assumes "git_ok G" "odb_ok G db" "tree_in G db h" "entry_at G db h c = Some e" "te_Mode e = Dir"
  shows "tree_in G db (te_Hash e)"
proof -
  obtain es where es: "loadTreeEntries G db h = Some es" "entries_ok G db es"
    using load_tree_in [OF assms(3,1,2)] by blast
  then have "e \<in> set es" using assms(4) by (auto simp: entry_at_def entries_ok_def find_name_Some)
  then show ?thesis using es(2) assms(5) by (auto simp: entries_ok_def tree_in_def)
qed

lemma tree_file_mono:
  assumes "git_ok G" "odb_ok G db" "db \<subseteq>\<^sub>m db'"
  shows "tree_in G db h \<Longrightarrow> tree_file G db' h q = tree_file G db h q"
proof (induction q arbitrary: h rule: induct_list012)
  case (2 c)
  then show ?case using load_mono [OF assms(1,2) 2 assms(3)] by (simp add: entry_at_def)
next
  case (3 c d ds)
  have e: "entry_at G db' h c = entry_at G db h c"
    using load_mono [OF assms(1,2) 3(3) assms(3)] by (simp add: entry_at_def)
  show ?case
  proof (cases "entry_at G db h c")
    case (Some e)
    then show ?thesis using 3(2) entry_tree_in [OF assms(1,2) 3(3) Some] e \<open>entry_at G db' h c = _\<close> by simp
  qed (simp add: e)
qed simp


section \<open>The derived tree\<close>

definition file_after :: "string list \<Rightarrow> 'a option \<Rightarrow> (string list \<Rightarrow> 'a option) \<Rightarrow> string list \<Rightarrow> 'a option" where
  "file_after comps new old q =
     (if q = comps then new else if prefix q comps \<or> prefix comps q then None else old q)"

lemma sub_hash_find:
  "distinct (map te_Name es) \<Longrightarrow> sub_hash es name acc =
    (case find (\<lambda>e. te_Name e = name) es of None \<Rightarrow> acc | Some e \<Rightarrow> if te_Mode e = Dir then te_Hash e else acc)"
proof (induction es arbitrary: acc)
  case (Cons e es)
  show ?case
  proof (cases "te_Name e = name")
    case True
    then have "find (\<lambda>e. te_Name e = name) es = None" using Cons.prems by (auto simp: find_name_None)
    then show ?thesis using True Cons by simp
  qed (use Cons in simp)
qed simp

lemma find_withoutEntry:
  "find (\<lambda>e. te_Name e = c) (withoutEntry es name) = (if c = name then None else find (\<lambda>e. te_Name e = c) es)"
  by (induction es) (auto simp: withoutEntry_def)

lemma find_append: "find P (xs @ ys) = (case find P xs of None \<Rightarrow> find P ys | Some x \<Rightarrow> Some x)"
  by (induction xs) auto

lemma sort_key_Nil: "sort_key f xs = [] \<longleftrightarrow> xs = []"
  by (metis length_0_conv length_sort)

lemma find_sort_key:
  "distinct (map te_Name es) \<Longrightarrow> find (\<lambda>e. te_Name e = c) (sort_key f es) = find (\<lambda>e. te_Name e = c) es"
proof -
  assume d: "distinct (map te_Name es)"
  then have d': "distinct (map te_Name (sort_key f es))"
    by (metis distinct_map distinct_sort set_sort)
  show ?thesis
  proof (cases "find (\<lambda>e. te_Name e = c) es")
    case None
    then have "find (\<lambda>e. te_Name e = c) (sort_key f es) = None"
      using find_name_None [of c "sort_key f es"] by (simp add: find_name_None)
    then show ?thesis using None by simp
  next
    case (Some e)
    then have "e \<in> set es \<and> te_Name e = c" by (simp only: find_name_Some [OF d])
    then have "find (\<lambda>e. te_Name e = c) (sort_key f es) = Some e" unfolding find_name_Some [OF d'] by simp
    then show ?thesis using Some by simp
  qed
qed

lemma entries_ok_without: "entries_ok G db es \<Longrightarrow>
    distinct (map te_Name (withoutEntry es name)) \<and> name \<notin> te_Name ` set (withoutEntry es name) \<and>
    list_all (\<lambda>e. seg (te_Name e)) (withoutEntry es name) \<and>
    (\<forall>e\<in>set (withoutEntry es name). te_Mode e = Dir \<longrightarrow> (\<exists>f fs. db (te_Hash e) = Some (TreeObj (f # fs))))"
  by (auto simp: entries_ok_def withoutEntry_def distinct_map_filter list_all_iff)

lemma storeTree_spec:
  assumes "git_ok G" "odb_ok G db" "storeTree G out db = Some (t, db')"
    and "distinct (map te_Name out)" "list_all (\<lambda>e. seg (te_Name e)) out"
    and "\<forall>e\<in>set out. te_Mode e = Dir \<longrightarrow> (\<exists>f fs. db (te_Hash e) = Some (TreeObj (f # fs)))"
  shows "odb_ok G db'" "db \<subseteq>\<^sub>m db'" "db' t = Some (TreeObj (sort_key treeSortName out))"
    "entry_at G db' t c = find (\<lambda>e. te_Name e = c) out"
proof -
  let ?es = "sort_key treeSortName out"
  note st = assms(3) [unfolded storeTree_def]
  note s = SetEncodedObject_ok [OF assms(1,2) st]
  have "distinct (map te_Name ?es)" using assms(4) by (metis distinct_map distinct_sort set_sort)
  then have ok: "entries_ok G db ?es" using assms(5,6) by (auto simp: entries_ok_def list_all_iff)
  show o': "odb_ok G db'" by (rule SetEncodedObject_odb [OF assms(1,2) st]) (use ok in simp)
  show "db \<subseteq>\<^sub>m db'" "db' t = Some (TreeObj ?es)" using s by simp_all
  moreover from this have "t \<noteq> g_zero G" using odb_zero [OF assms(1) o'] by auto
  ultimately have "loadTreeEntries G db' t = Some ?es" by (simp add: loadTreeEntries_def)
  then show "entry_at G db' t c = find (\<lambda>e. te_Name e = c) out"
    by (simp add: entry_at_def find_sort_key [OF assms(4)])
qed

lemma tree_file_zero: "tree_file G db (g_zero G) q = None"
  by (cases q; cases "tl q") (auto simp: entry_at_def loadTreeEntries_def)

lemma tree_file_empty: "db h = Some (TreeObj []) \<Longrightarrow> tree_file G db h q = None"
  by (cases q; cases "tl q") (auto simp: entry_at_def loadTreeEntries_def)

lemma file_after_Cons:
  "file_after (name # comps) new old (x # q) =
     (if x = name then file_after comps new (\<lambda>q. old (name # q)) q else old (x # q))"
  by (auto simp: file_after_def)

lemma file_after_Nil: "comps \<noteq> [] \<Longrightarrow> file_after comps new old [] = None"
  by (auto simp: file_after_def)

lemma applyToTree_files:
  assumes G: "git_ok G"
  shows "odb_ok G db \<Longrightarrow> tree_in G db base \<Longrightarrow> segs comps \<Longrightarrow>
    applyToTree G base comps blob del db = Some (t, db') \<Longrightarrow>
    odb_ok G db' \<and> db \<subseteq>\<^sub>m db' \<and> (\<exists>es. db' t = Some (TreeObj es) \<and> (\<not> del \<longrightarrow> es \<noteq> [])) \<and>
    (\<forall>q. tree_file G db' t q =
       file_after comps (if del then None else Some (Regular, blob)) (tree_file G db base) q)"
proof (induction comps arbitrary: db base t db' rule: induct_list012)
  case (2 name)
  obtain es where es: "loadTreeEntries G db base = Some es" "entries_ok G db es"
    using load_tree_in [OF 2(2) G 2(1)] by blast
  let ?new = "if del then [] else [\<lparr>te_Name = name, te_Mode = Regular, te_Hash = blob\<rparr>]"
  let ?out = "withoutEntry es name @ ?new"
  note w = entries_ok_without [OF es(2), of name]
  have st: "storeTree G ?out db = Some (t, db')" using 2(4) es(1) by (cases del) (simp_all add: Let_def)
  have out: "distinct (map te_Name ?out)" "list_all (\<lambda>e. seg (te_Name e)) ?out"
    "\<forall>e\<in>set ?out. te_Mode e = Dir \<longrightarrow> (\<exists>f fs. db (te_Hash e) = Some (TreeObj (f # fs)))"
    using w 2(3) by auto
  note s = storeTree_spec [OF G 2(1) st out]
  have at: "entry_at G db' t x = (if x = name then find (\<lambda>e. te_Name e = x) ?new else entry_at G db base x)" for x
    using s(4) [of x] by (auto simp: find_append find_withoutEntry entry_at_def es(1) split: option.split)
  have "tree_file G db' t q =
      file_after [name] (if del then None else Some (Regular, blob)) (tree_file G db base) q" for q
  proof (cases q)
    case (Cons x r)
    show ?thesis
    proof (cases r)
      case Nil
      then show ?thesis using Cons at [of x] by (auto simp: file_after_def)
    next
      case (Cons y ys)
      have "tree_file G db' (te_Hash e) (y # ys) = tree_file G db (te_Hash e) (y # ys)"
        if "entry_at G db base x = Some e" "te_Mode e = Dir" for e
        by (rule tree_file_mono [OF G 2(1) s(2)]) (rule entry_tree_in [OF G 2(1,2) that])
      then show ?thesis using Cons \<open>q = x # r\<close> at [of x] by (auto simp: file_after_def split: option.split)
    qed
  qed (simp add: file_after_def)
  moreover have "\<not> del \<longrightarrow> sort_key treeSortName ?out \<noteq> []" by (simp add: sort_key_Nil)
  ultimately show ?case using s(1-3) by blast
next
  case (3 name c cs)
  obtain es where es: "loadTreeEntries G db base = Some es" "entries_ok G db es"
    using load_tree_in [OF 3(4) G 3(3)] by blast
  let ?sub = "sub_hash es name (g_zero G)"
  have sub: "?sub = (case entry_at G db base name of None \<Rightarrow> g_zero G
      | Some e \<Rightarrow> if te_Mode e = Dir then te_Hash e else g_zero G)"
    using es by (simp add: entry_at_def entries_ok_def sub_hash_find)
  have sub_in: "tree_in G db ?sub"
    using entry_tree_in [OF G 3(3,4)] unfolding sub by (auto simp: tree_in_def split: option.split)
  have sub_file: "tree_file G db base (name # y # ys) = tree_file G db ?sub (y # ys)" for y ys
    unfolding sub by (simp add: tree_file_zero split: option.split)
  obtain newSub db1 where ns: "applyToTree G ?sub (c # cs) blob del db = Some (newSub, db1)"
    using 3(6) es(1) by (auto split: option.splits)
  have segs: "seg name" "segs (c # cs)" using 3(5) by simp_all
  note ih = 3(2) [OF 3(3) sub_in segs(2) ns]
  then obtain ses where ses: "db1 newSub = Some (TreeObj ses)" "\<not> del \<longrightarrow> ses \<noteq> []" by blast
  have db1: "odb_ok G db1" "db \<subseteq>\<^sub>m db1" using ih by simp_all
  have empty: "newSub = emptyTreeHash G \<longleftrightarrow> ses = []"
  proof -
    have "g_hash G (TreeObj ses) = newSub" using db1(1) ses(1) by (simp add: odb_ok_def)
    then show ?thesis using G by (auto simp: emptyTreeHash_def git_ok_def inj_eq)
  qed
  let ?keep = "\<not> (del \<and> newSub = emptyTreeHash G)"
  let ?new = "if ?keep then [\<lparr>te_Name = name, te_Mode = Dir, te_Hash = newSub\<rparr>] else []"
  let ?out = "withoutEntry es name @ ?new"
  note w = entries_ok_without [OF entries_ok_mono [OF es(2) db1(2)], of name]
  have st: "storeTree G ?out db1 = Some (t, db')" using 3(6) es(1) ns by (cases ?keep) (auto simp: Let_def)
  have "ses \<noteq> []" if ?keep using that ses(2) empty by blast
  then have nd: "\<exists>f fs. db1 newSub = Some (TreeObj (f # fs))" if ?keep using that ses(1) by (cases ses) auto
  have out: "distinct (map te_Name ?out)" "list_all (\<lambda>e. seg (te_Name e)) ?out"
    "\<forall>e\<in>set ?out. te_Mode e = Dir \<longrightarrow> (\<exists>f fs. db1 (te_Hash e) = Some (TreeObj (f # fs)))"
    using w segs(1) nd by auto
  note s = storeTree_spec [OF G db1(1) st out]
  have at: "entry_at G db' t x = (if x = name then find (\<lambda>e. te_Name e = x) ?new else entry_at G db base x)" for x
    using s(4) [of x] by (auto simp: find_append find_withoutEntry entry_at_def es(1) split: option.split)
  let ?val = "if del then None else Some (Regular, blob)"
  have le: "db \<subseteq>\<^sub>m db'" using db1(2) s(2) by (rule map_le_trans)
  have "tree_file G db' t q = file_after (name # c # cs) ?val (tree_file G db base) q" for q
  proof (cases q)
    case (Cons x r)
    show ?thesis
    proof (cases r)
      case Nil
      then show ?thesis using Cons at [of x] by (auto simp: file_after_def)
    next
      case r: (Cons y ys)
      show ?thesis
      proof (cases "x = name")
        case True
        have ih': "tree_file G db1 newSub (y # ys) = file_after (c # cs) ?val (tree_file G db ?sub) (y # ys)"
          using ih by blast
        have "tree_file G db' t q = tree_file G db1 newSub (y # ys)"
        proof (cases ?keep)
          case keep: True
          have "tree_file G db' newSub (y # ys) = tree_file G db1 newSub (y # ys)"
            by (rule tree_file_mono [OF G db1(1) s(2)]) (use ses(1) in \<open>simp add: tree_in_def\<close>)
          then show ?thesis using Cons r True keep at [of name] by simp
        next
          case False
          then have "ses = []" using empty by simp
          then have "tree_file G db1 newSub (y # ys) = None" using ses(1) by (intro tree_file_empty) simp
          then show ?thesis using Cons r True False at [of name] by simp
        qed
        also have "\<dots> = file_after (name # c # cs) ?val (tree_file G db base) q"
          unfolding ih' Cons r True file_after_Cons [of name] by (simp add: file_after_def sub_file del: tree_file.simps)
        finally show ?thesis .
      next
        case False
        have "tree_file G db' (te_Hash e) (y # ys) = tree_file G db (te_Hash e) (y # ys)"
          if "entry_at G db base x = Some e" "te_Mode e = Dir" for e
          by (rule tree_file_mono [OF G 3(3) le]) (rule entry_tree_in [OF G 3(3,4) that])
        then show ?thesis using Cons r False at [of x] by (auto simp: file_after_Cons split: option.split)
      qed
    qed
  qed (simp add: file_after_def)
  moreover have "\<not> del \<longrightarrow> sort_key treeSortName ?out \<noteq> []"
    by (simp add: sort_key_Nil)
  ultimately show ?case using s(1,3) le by blast
qed simp


section \<open>Derivations that change nothing\<close>

fun absent :: "'h git \<Rightarrow> 'h odb \<Rightarrow> 'h \<Rightarrow> string list \<Rightarrow> bool" where
  "absent G db h [] = False"
| "absent G db h [c] = (entry_at G db h c = None)"
| "absent G db h (c # d # ds) =
     (case entry_at G db h c of
        None \<Rightarrow> True | Some e \<Rightarrow> te_Mode e = Dir \<and> absent G db (te_Hash e) (d # ds))"

lemma treeSortName_inject: "seg (te_Name e) \<Longrightarrow> seg (te_Name f) \<Longrightarrow> treeSortName e = treeSortName f \<Longrightarrow> te_Name e = te_Name f"
proof -
  assume a: "seg (te_Name e)" "seg (te_Name f)" "treeSortName e = treeSortName f"
  have "x @ ''/'' = y \<Longrightarrow> \<not> seg y" for x y by (auto simp: seg_def slash_def)
  then show ?thesis using a by (auto simp: treeSortName_def split: if_splits) metis+
qed

lemma entries_unique:
  assumes "entries_ok G db es" "set xs = set es" "distinct xs"
  shows "sort_key treeSortName xs = es"
proof (rule map_sorted_distinct_set_unique)
  have "inj_on treeSortName (set es)"
  proof (rule inj_onI)
    fix e f assume ef: "e \<in> set es" "f \<in> set es" "treeSortName e = treeSortName f"
    then have "te_Name e = te_Name f" using assms(1) treeSortName_inject by (auto simp: entries_ok_def list_all_iff)
    moreover have "inj_on te_Name (set es)" using assms(1) by (simp add: entries_ok_def distinct_map)
    ultimately show "e = f" using ef by (auto dest: inj_onD)
  qed
  then show "inj_on treeSortName (set (sort_key treeSortName xs) \<union> set es)" using assms(2) by simp
  then show "distinct (map treeSortName (sort_key treeSortName xs))" "distinct (map treeSortName es)"
    using assms by (auto simp: distinct_map entries_ok_def)
  show "sorted (map treeSortName (sort_key treeSortName xs))" "sorted (map treeSortName es)"
    using assms(1) by (simp_all add: entries_ok_def)
  show "set (sort_key treeSortName xs) = set es" using assms(2) by simp
qed

lemma rebuild_same:
  assumes "git_ok G" "odb_ok G db" "db base = Some (TreeObj es)"
    and "storeTree G out db1 = Some (t, db')" "set out = set es" "distinct out"
  shows "t = base"
proof -
  have ok: "entries_ok G db es" and h: "g_hash G (TreeObj es) = base" using assms(2,3) by (auto simp: odb_ok_def)
  have "t = g_hash G (TreeObj (sort_key treeSortName out))"
    using assms(4) by (auto simp: storeTree_def SetEncodedObject_def split: if_splits)
  then show ?thesis using entries_unique [OF ok assms(5,6)] h by simp
qed

lemma withoutEntry_absent: "c \<notin> te_Name ` set es \<Longrightarrow> withoutEntry es c = es"
  by (auto simp: withoutEntry_def filter_id_conv)

lemma load_stored: "git_ok G \<Longrightarrow> odb_ok G db \<Longrightarrow> db base = Some (TreeObj es) \<Longrightarrow> loadTreeEntries G db base = Some es"
  using odb_zero [of G db] by (auto simp: loadTreeEntries_def)

lemma replace_entry:
  assumes "distinct (map te_Name es)" "e \<in> set es"
  shows "set (withoutEntry es (te_Name e) @ [e]) = set es" "distinct (withoutEntry es (te_Name e) @ [e])"
proof -
  have "f = e" if "f \<in> set es" "te_Name f = te_Name e" for f
    using assms that by (auto simp: distinct_map dest: inj_onD)
  then show "set (withoutEntry es (te_Name e) @ [e]) = set es" using assms(2) by (auto simp: withoutEntry_def)
  show "distinct (withoutEntry es (te_Name e) @ [e])" using assms(1) by (auto simp: withoutEntry_def distinct_map)
qed

lemma tree_entry_hash: "entries_ok G db es \<Longrightarrow> e \<in> set es \<Longrightarrow> te_Mode e = Dir \<Longrightarrow>
    \<exists>f fs. db (te_Hash e) = Some (TreeObj (f # fs))"
  by (auto simp: entries_ok_def)

lemma applyToTree_zero_delete:
  "applyToTree G (g_zero G) comps blob True db = Some (t, db') \<Longrightarrow> t = emptyTreeHash G"
proof (induction comps arbitrary: t db' rule: induct_list012)
  case (2 x)
  then show ?case
    by (auto simp: loadTreeEntries_def storeTree_def SetEncodedObject_def emptyTreeHash_def withoutEntry_def split: if_splits)
next
  case (3 x y zs)
  then obtain s db1 where s: "applyToTree G (g_zero G) (y # zs) blob True db = Some (s, db1)"
    "storeTree G (if s = emptyTreeHash G then [] else [\<lparr>te_Name = x, te_Mode = Dir, te_Hash = s\<rparr>]) db1 = Some (t, db')"
    by (auto simp: loadTreeEntries_def withoutEntry_def split: option.splits if_splits)
  then show ?case using 3(2) by (auto simp: storeTree_def SetEncodedObject_def emptyTreeHash_def split: if_splits)
qed simp

lemma delete_absent:
  assumes G: "git_ok G" and o: "odb_ok G db"
  shows "db base = Some (TreeObj es) \<Longrightarrow> absent G db base comps \<Longrightarrow>
    applyToTree G base comps blob True db = Some (t, db') \<Longrightarrow> t = base"
proof (induction comps arbitrary: base es t db' rule: induct_list012)
  case (2 name)
  have es: "loadTreeEntries G db base = Some es" by (rule load_stored [OF G o 2(1)])
  have n: "name \<notin> te_Name ` set es" using 2(2) es by (simp add: entry_at_def find_name_None)
  have ok: "entries_ok G db es" using o 2(1) by (auto simp: odb_ok_def)
  have "storeTree G es db = Some (t, db')" using 2(3) es n by (simp add: withoutEntry_absent Let_def)
  then show ?case using rebuild_same [OF G o 2(1), of es db t db'] ok by (auto simp: entries_ok_def distinct_map)
next
  case (3 name c cs)
  have es: "loadTreeEntries G db base = Some es" by (rule load_stored [OF G o 3(3)])
  have ok: "entries_ok G db es" using o 3(3) by (auto simp: odb_ok_def)
  then have d: "distinct (map te_Name es)" by (simp add: entries_ok_def)
  note sub = sub_hash_find [OF d, of name "g_zero G"]
  obtain s db1 where s: "applyToTree G (sub_hash es name (g_zero G)) (c # cs) blob True db = Some (s, db1)"
    "storeTree G (if s = emptyTreeHash G then withoutEntry es name
       else withoutEntry es name @ [\<lparr>te_Name = name, te_Mode = Dir, te_Hash = s\<rparr>]) db1 = Some (t, db')"
    using 3(5) es by (auto simp: Let_def split: option.splits if_splits)
  show ?case
  proof (cases "find (\<lambda>e. te_Name e = name) es")
    case None
    then have n: "name \<notin> te_Name ` set es" by (simp add: find_name_None)
    have "s = emptyTreeHash G" using s(1) None by (simp add: sub applyToTree_zero_delete)
    then have "storeTree G es db1 = Some (t, db')" using s(2) n by (simp add: withoutEntry_absent)
    then show ?thesis using rebuild_same [OF G o 3(3), of es db1 t db'] d by (auto simp: distinct_map)
  next
    case (Some e)
    have e: "entry_at G db base name = Some e" using es Some by (simp add: entry_at_def)
    then have a: "te_Mode e = Dir" "absent G db (te_Hash e) (c # cs)" using 3(4) by auto
    have mem: "e \<in> set es" "te_Name e = name" using Some find_name_Some [OF d] by auto
    obtain f fs where f: "db (te_Hash e) = Some (TreeObj (f # fs))" using tree_entry_hash [OF ok mem(1) a(1)] by blast
    have "s = te_Hash e" using 3(2) [OF f a(2)] s(1) Some a(1) by (simp add: sub)
    moreover have "g_hash G (TreeObj (f # fs)) = te_Hash e" using o f by (simp add: odb_ok_def)
    then have "te_Hash e \<noteq> emptyTreeHash G" using G by (auto simp: emptyTreeHash_def git_ok_def inj_eq)
    ultimately have "storeTree G (withoutEntry es name @ [e]) db1 = Some (t, db')"
      using s(2) a(1) mem(2) by (cases e) auto
    then show ?thesis using rebuild_same [OF G o 3(3)] replace_entry [OF d mem(1)] mem(2) by blast
  qed
qed simp

lemma write_same:
  assumes G: "git_ok G" and o: "odb_ok G db"
  shows "db base = Some (TreeObj es) \<Longrightarrow> tree_file G db base comps = Some (Regular, blob) \<Longrightarrow>
    applyToTree G base comps blob False db = Some (t, db') \<Longrightarrow> t = base"
proof (induction comps arbitrary: base es t db' rule: induct_list012)
  case (2 name)
  have es: "loadTreeEntries G db base = Some es" by (rule load_stored [OF G o 2(1)])
  have ok: "entries_ok G db es" using o 2(1) by (auto simp: odb_ok_def)
  then have d: "distinct (map te_Name es)" by (simp add: entries_ok_def)
  obtain e where e: "find (\<lambda>e. te_Name e = name) es = Some e" "te_Mode e = Regular" "te_Hash e = blob"
    using 2(2) es by (auto simp: entry_at_def split: option.splits if_splits)
  then have mem: "e \<in> set es" "te_Name e = name" using find_name_Some [OF d] by auto
  have "storeTree G (withoutEntry es name @ [e]) db = Some (t, db')"
    using 2(3) es e(2,3) mem(2) by (cases e) (auto simp: Let_def)
  then show ?case using rebuild_same [OF G o 2(1)] replace_entry [OF d mem(1)] mem(2) by blast
next
  case (3 name c cs)
  have es: "loadTreeEntries G db base = Some es" by (rule load_stored [OF G o 3(3)])
  have ok: "entries_ok G db es" using o 3(3) by (auto simp: odb_ok_def)
  then have d: "distinct (map te_Name es)" by (simp add: entries_ok_def)
  obtain e where e: "find (\<lambda>e. te_Name e = name) es = Some e" "te_Mode e = Dir"
    "tree_file G db (te_Hash e) (c # cs) = Some (Regular, blob)"
    using 3(4) es by (auto simp: entry_at_def split: option.splits if_splits)
  then have mem: "e \<in> set es" "te_Name e = name" using find_name_Some [OF d] by auto
  have sub: "sub_hash es name (g_zero G) = te_Hash e" using e by (simp add: sub_hash_find [OF d])
  obtain f fs where f: "db (te_Hash e) = Some (TreeObj (f # fs))" using tree_entry_hash [OF ok mem(1) e(2)] by blast
  obtain s db1 where s: "applyToTree G (te_Hash e) (c # cs) blob False db = Some (s, db1)"
    "storeTree G (withoutEntry es name @ [\<lparr>te_Name = name, te_Mode = Dir, te_Hash = s\<rparr>]) db1 = Some (t, db')"
    using 3(5) es sub by (auto simp: Let_def split: option.splits)
  have "s = te_Hash e" by (rule 3(2) [OF f e(3) s(1)])
  then have "storeTree G (withoutEntry es name @ [e]) db1 = Some (t, db')"
    using s(2) e(2) mem(2) by (cases e) auto
  then show ?case using rebuild_same [OF G o 3(3)] replace_entry [OF d mem(1)] mem(2) by blast
qed simp

end
