(* ===== verification/Go_Runes.thy ===== *)
theory Go_Runes
  imports Go_Strings
begin

text \<open>
  Runes: Go's UTF-8 decoding (\<open>[]rune(s)\<close>, an ill-formed byte reads as U+FFFD) and encoding
  (\<open>string(r)\<close>), executable, on bytes as numbers.  The encoding of a string of valid runes can be read
  at any place where an encoded rune starts and at no other: the facts on which substring search by
  bytes and by runes agree.
\<close>

definition cont_byte :: "nat \<Rightarrow> bool" where
  "cont_byte b \<longleftrightarrow> 128 \<le> b \<and> b \<le> 191"

definition lead3 :: "nat \<Rightarrow> nat \<Rightarrow> bool" where
  "lead3 a b \<longleftrightarrow> 224 \<le> a \<and> a \<le> 239 \<and> (if a = 224 then 160 else 128) \<le> b \<and> b \<le> (if a = 237 then 159 else 191)"

definition lead4 :: "nat \<Rightarrow> nat \<Rightarrow> bool" where
  "lead4 a b \<longleftrightarrow> 240 \<le> a \<and> a \<le> 244 \<and> (if a = 240 then 144 else 128) \<le> b \<and> b \<le> (if a = 244 then 143 else 191)"

definition RuneError :: nat where
  "RuneError = 65533"

fun decode_bytes :: "nat list \<Rightarrow> nat list" where
  "decode_bytes [] = []"
| "decode_bytes [a] = [if a < 128 then a else RuneError]"
| "decode_bytes [a, b] =
     (if a < 128 then a # decode_bytes [b]
      else if 194 \<le> a \<and> a \<le> 223 \<and> cont_byte b then [(a - 192) * 64 + (b - 128)]
      else RuneError # decode_bytes [b])"
| "decode_bytes [a, b, c] =
     (if a < 128 then a # decode_bytes [b, c]
      else if 194 \<le> a \<and> a \<le> 223 \<and> cont_byte b then ((a - 192) * 64 + (b - 128)) # decode_bytes [c]
      else if lead3 a b \<and> cont_byte c then [(a - 224) * 4096 + (b - 128) * 64 + (c - 128)]
      else RuneError # decode_bytes [b, c])"
| "decode_bytes (a # b # c # d # r) =
     (if a < 128 then a # decode_bytes (b # c # d # r)
      else if 194 \<le> a \<and> a \<le> 223 \<and> cont_byte b
      then ((a - 192) * 64 + (b - 128)) # decode_bytes (c # d # r)
      else if lead3 a b \<and> cont_byte c
      then ((a - 224) * 4096 + (b - 128) * 64 + (c - 128)) # decode_bytes (d # r)
      else if lead4 a b \<and> cont_byte c \<and> cont_byte d
      then ((a - 240) * 262144 + (b - 128) * 4096 + (c - 128) * 64 + (d - 128)) # decode_bytes r
      else RuneError # decode_bytes (b # c # d # r))"

definition valid_rune :: "nat \<Rightarrow> bool" where
  "valid_rune n \<longleftrightarrow> n < 55296 \<or> 57344 \<le> n \<and> n \<le> 1114111"

definition encode_rune :: "nat \<Rightarrow> nat list" where
  "encode_rune n0 =
     (let n = (if valid_rune n0 then n0 else RuneError) in
      if n < 128 then [n]
      else if n < 2048 then [192 + n div 64, 128 + n mod 64]
      else if n < 65536 then [224 + n div 4096, 128 + n div 64 mod 64, 128 + n mod 64]
      else [240 + n div 262144, 128 + n div 4096 mod 64, 128 + n div 64 mod 64, 128 + n mod 64])"

definition runes :: "string \<Rightarrow> nat list" where
  "runes s = decode_bytes (map of_char s)"

definition rune_string :: "nat list \<Rightarrow> string" where
  "rune_string rs = map char_of (concat (map encode_rune rs))"

section \<open>Decoding what was encoded\<close>

lemma split64: "n = n div 64 * 64 + n mod 64" "n mod 64 < 64" for n :: nat
  by simp_all

lemma split4096: "n = n div 4096 * 4096 + n div 64 mod 64 * 64 + n mod 64" for n :: nat
proof -
  have "n div 64 div 64 = n div 4096" by (simp add: div_mult2_eq [symmetric])
  with split64(1) [of n] split64(1) [of "n div 64"] show ?thesis by linarith
qed

lemma split262144:
  "n = n div 262144 * 262144 + n div 4096 mod 64 * 4096 + n div 64 mod 64 * 64 + n mod 64" for n :: nat
proof -
  have "n div 4096 div 64 = n div 262144" by (simp add: div_mult2_eq [symmetric])
  with split4096 [of n] split64(1) [of "n div 4096"] show ?thesis by linarith
qed

lemma encode_rune_cases:
  assumes "valid_rune n"
  obtains "n < 128" "encode_rune n = [n]"
  | a b where "encode_rune n = [192 + a, 128 + b]" "n = a * 64 + b" "2 \<le> a" "a \<le> 31" "b < 64"
  | a b c where "encode_rune n = [224 + a, 128 + b, 128 + c]" "n = a * 4096 + b * 64 + c" "a \<le> 15" "b < 64" "c < 64"
      "lead3 (224 + a) (128 + b)"
  | a b c d where "encode_rune n = [240 + a, 128 + b, 128 + c, 128 + d]"
      "n = a * 262144 + b * 4096 + c * 64 + d" "a \<le> 4" "b < 64" "c < 64" "d < 64"
      "lead4 (240 + a) (128 + b)"
proof -
  consider "n < 128" | "128 \<le> n" "n < 2048" | "2048 \<le> n" "n < 65536" | "65536 \<le> n" by linarith
  then show thesis
  proof cases
    case 1
    then have "encode_rune n = [n]" using assms by (simp add: encode_rune_def)
    with 1 show ?thesis by (rule that(1))
  next
    case 2
    have "2 \<le> n div 64" "n div 64 \<le> 31" using 2 split64 [of n] by linarith+
    moreover note split64 [of n]
    moreover have "encode_rune n = [192 + n div 64, 128 + n mod 64]" using 2 assms by (simp add: encode_rune_def)
    ultimately show ?thesis using that(2) [of "n div 64" "n mod 64"] by blast
  next
    case 3
    let ?a = "n div 4096" and ?b = "n div 64 mod 64" and ?c = "n mod 64"
    note n = split4096 [of n]
    have bd: "?b < 64" "?c < 64" by simp_all
    have "lead3 (224 + ?a) (128 + ?b)"
    proof -
      have "?a \<le> 15" using 3 n bd by linarith
      moreover have "32 \<le> ?b" if "?a = 0" using 3 n bd that by linarith
      moreover have "?b \<le> 31" if "?a = 13" using assms n bd that unfolding valid_rune_def by linarith
      moreover have "?b \<le> 63" using bd by linarith
      ultimately show ?thesis unfolding lead3_def by auto
    qed
    moreover have "encode_rune n = [224 + ?a, 128 + ?b, 128 + ?c]"
      using 3 assms by (simp add: encode_rune_def)
    moreover have "?a \<le> 15" using 3 n bd by linarith
    ultimately show ?thesis using that(3) [of ?a ?b ?c] n bd by blast
  next
    case 4
    let ?a = "n div 262144" and ?b = "n div 4096 mod 64" and ?c = "n div 64 mod 64" and ?d = "n mod 64"
    note n = split262144 [of n]
    have bd: "?b < 64" "?c < 64" "?d < 64" by simp_all
    have le: "n \<le> 1114111" using assms 4 by (simp add: valid_rune_def)
    have a4: "?a \<le> 4" using le n bd by linarith
    have "lead4 (240 + ?a) (128 + ?b)"
    proof -
      have "16 \<le> ?b" if "?a = 0" using 4 n bd that by linarith
      moreover have "?b \<le> 15" if "?a = 4" using le n bd that by linarith
      moreover have "?b \<le> 63" using bd by linarith
      ultimately show ?thesis using a4 unfolding lead4_def by auto
    qed
    moreover have "encode_rune n = [240 + ?a, 128 + ?b, 128 + ?c, 128 + ?d]"
      using 4 assms by (simp add: encode_rune_def)
    ultimately show ?thesis using that(4) [of ?a ?b ?c ?d] n bd a4 by blast
  qed
qed

lemma decode_two: "2 \<le> a \<Longrightarrow> a \<le> 31 \<Longrightarrow> b < 64 \<Longrightarrow>
    decode_bytes ((192 + a) # (128 + b) # r) = (a * 64 + b) # decode_bytes r"
  by (cases r rule: decode_bytes.cases) (auto simp: cont_byte_def)

lemma decode_three: "lead3 (224 + a) (128 + b) \<Longrightarrow> c < 64 \<Longrightarrow>
    decode_bytes ((224 + a) # (128 + b) # (128 + c) # r) = (a * 4096 + b * 64 + c) # decode_bytes r"
  by (cases r) (auto simp: cont_byte_def lead3_def)

lemma decode_four: "lead4 (240 + a) (128 + b) \<Longrightarrow> c < 64 \<Longrightarrow> d < 64 \<Longrightarrow>
    decode_bytes ((240 + a) # (128 + b) # (128 + c) # (128 + d) # r) =
      (a * 262144 + b * 4096 + c * 64 + d) # decode_bytes r"
  by (auto simp: cont_byte_def lead3_def lead4_def)

lemma decode_one: "a < 128 \<Longrightarrow> decode_bytes (a # r) = a # decode_bytes r"
  by (cases r rule: decode_bytes.cases) auto

lemma decode_encode: "valid_rune n \<Longrightarrow> decode_bytes (encode_rune n @ r) = n # decode_bytes r"
proof (erule encode_rune_cases)
qed (simp_all only: append.simps decode_one decode_two decode_three decode_four)

lemma encode_rune_lead:
  assumes "valid_rune n"
  shows "\<exists>a cs. encode_rune n = a # cs \<and> \<not> cont_byte a \<and> list_all cont_byte cs"
  using assms by (rule encode_rune_cases) (auto simp: cont_byte_def)

lemma encode_rune_prefix:
  assumes "valid_rune m" "valid_rune n" "encode_rune m @ x = encode_rune n @ y"
  shows "m = n \<and> x = y"
proof -
  have "m = n" using assms decode_encode [of m x] decode_encode [of n y] by simp
  with assms(3) show ?thesis by simp
qed

abbreviation encode_all :: "nat list \<Rightarrow> nat list" where
  "encode_all rs \<equiv> concat (map encode_rune rs)"

lemma encode_all_prefix:
  "list_all valid_rune xs \<Longrightarrow> list_all valid_rune ys \<Longrightarrow> encode_all xs = encode_all ys @ v \<Longrightarrow>
   \<exists>vs. xs = ys @ vs"
proof (induction ys arbitrary: xs)
  case (Cons y ys)
  have "encode_all xs \<noteq> []" using Cons.prems encode_rune_lead [of y] by auto
  then obtain x xs' where xs: "xs = x # xs'" by (cases xs) auto
  have "encode_rune x @ encode_all xs' = encode_rune y @ (encode_all ys @ v)"
    using Cons.prems(3) xs by simp
  from encode_rune_prefix [OF _ _ this] Cons.prems(1,2) xs
  have "x = y" "encode_all xs' = encode_all ys @ v" by auto
  with Cons.IH [of xs'] Cons.prems(1,2) xs show ?case by auto
qed simp

text \<open>An occurrence of encoded runes inside encoded runes starts and ends at rune boundaries.\<close>

lemma encode_all_infix:
  assumes "list_all valid_rune xs" "list_all valid_rune ys" "ys \<noteq> []"
    and "encode_all xs = u @ encode_all ys @ v"
  shows "\<exists>us vs. xs = us @ ys @ vs"
  using assms(1,4)
proof (induction xs arbitrary: u)
  case Nil
  then show ?case using assms(2,3) encode_rune_lead by (cases ys) fastforce+
next
  case (Cons x xs)
  show ?case
  proof (cases "u = []")
    case True
    then obtain vs where "x # xs = ys @ vs"
      using encode_all_prefix [of "x # xs" ys v] Cons.prems assms(2) by auto
    then have "x # xs = [] @ ys @ vs" by simp
    then show ?thesis by blast
  next
    case u: False
    have eq: "encode_rune x @ encode_all xs = u @ (encode_all ys @ v)" using Cons.prems(2) by simp
    then consider w where "encode_rune x = u @ w" "w @ encode_all xs = encode_all ys @ v"
      | w where "u = encode_rune x @ w" "encode_all xs = w @ encode_all ys @ v"
      by (auto simp: append_eq_append_conv2)
    then show ?thesis
    proof cases
      case 1
      show ?thesis
      proof (cases "w = []")
        case True
        then obtain vs where "xs = ys @ vs"
          using encode_all_prefix [of xs ys v] 1 Cons.prems(1) assms(2) by auto
        then have "x # xs = [x] @ ys @ vs" by simp
        then show ?thesis by blast
      next
        case False
        obtain a cs where e: "encode_rune x = a # cs" "list_all cont_byte cs"
          using encode_rune_lead Cons.prems(1) by fastforce
        then have "cont_byte (hd w)" using 1(1) u False by (cases u; cases w) auto
        moreover obtain y ys' where ys: "ys = y # ys'" using assms(3) by (cases ys) auto
        then obtain b ds where "encode_rune y = b # ds" "\<not> cont_byte b"
          using encode_rune_lead assms(2) by fastforce
        then have "\<not> cont_byte (hd w)" using 1(2) ys False by (cases w) auto
        ultimately show ?thesis by simp
      qed
    next
      case 2
      from Cons.IH [OF _ 2(2)] Cons.prems(1) obtain us vs where "xs = us @ ys @ vs" by auto
      then have "x # xs = (x # us) @ ys @ vs" by simp
      then show ?thesis by blast
    qed
  qed
qed

lemma encode_rune_byte: "b \<in> set (encode_rune n) \<Longrightarrow> b < 256"
proof -
  have v: "valid_rune (if valid_rune n then n else RuneError)" by (simp add: valid_rune_def RuneError_def)
  have e: "encode_rune n = encode_rune (if valid_rune n then n else RuneError)"
    by (simp add: encode_rune_def valid_rune_def RuneError_def)
  show "b \<in> set (encode_rune n) \<Longrightarrow> b < 256" unfolding e
    using v by (rule encode_rune_cases) auto
qed

lemma decode_encode_all: "list_all valid_rune rs \<Longrightarrow> decode_bytes (encode_all rs) = rs"
  by (induction rs) (auto simp: decode_encode)

lemma bytes_of_rune_string: "map of_char (rune_string rs) = encode_all rs"
proof -
  have "map of_char (map char_of bs) = (bs :: nat list)" if "\<forall>b\<in>set bs. b < 256" for bs
    using that by (induction bs) auto
  then show ?thesis unfolding rune_string_def using encode_rune_byte by auto
qed

lemma runes_rune_string: "list_all valid_rune rs \<Longrightarrow> runes (rune_string rs) = rs"
  by (simp add: runes_def bytes_of_rune_string decode_encode_all)

lemma rune_string_infix:
  assumes "list_all valid_rune xs" "list_all valid_rune ys" "ys \<noteq> []"
    and "rune_string xs = u @ rune_string ys @ v"
  shows "\<exists>us vs. xs = us @ ys @ vs"
proof -
  have "map of_char (rune_string xs) = map of_char u @ map of_char (rune_string ys) @ (map of_char v :: nat list)"
    using assms(4) by simp
  then show ?thesis unfolding bytes_of_rune_string by (rule encode_all_infix [OF assms(1-3)])
qed

section \<open>Lower case\<close>

text \<open>
  \<open>lower\<close> is the table of \<open>unicode.ToLower\<close>, a parameter; \<open>strings.ToLower\<close> maps it over the runes of
  the string, ill-formed bytes and mapped values outside Unicode reading as U+FFFD.
\<close>

definition go_ToLower :: "(nat \<Rightarrow> nat) \<Rightarrow> string \<Rightarrow> string" where
  "go_ToLower lower s = rune_string (map lower (runes s))"

end
