(* ===== verification/Commit_Identity.thy ===== *)
theory Commit_Identity
  imports Go_Runes
begin

text \<open>
  Package \<open>identity\<close> (\<open>internal/identity/identity.go\<close>): who a commit is attributed to.  The three
  declarations a request context can carry are options; \<open>lower\<close> is the table of \<open>unicode.ToLower\<close>.
\<close>

record commit_identity =
  ci_UserName :: string
  ci_UserEmail :: string
  ci_AgentName :: string
  ci_WorkerID :: string
  ci_AuthorIsUser :: bool

record id_defaults =
  df_UserName :: string
  df_UserEmail :: string
  df_AgentName :: string
  df_AgentWorker :: string

record agent =
  ag_Name :: string
  ag_Worker :: string

record user =
  us_Name :: string
  us_Email :: string

record id_ctx =
  cx_agent :: "agent option"
  cx_user :: "user option"
  cx_committer :: "user option"

definition WithAgent :: "agent \<Rightarrow> id_ctx \<Rightarrow> id_ctx" where
  "WithAgent a ctx = ctx\<lparr>cx_agent := Some a\<rparr>"

definition WithUser :: "user \<Rightarrow> id_ctx \<Rightarrow> id_ctx" where
  "WithUser u ctx = ctx\<lparr>cx_user := Some u\<rparr>"

definition WithCommitter :: "user \<Rightarrow> id_ctx \<Rightarrow> id_ctx" where
  "WithCommitter u ctx = ctx\<lparr>cx_committer := Some u\<rparr>"

definition resolve_agent :: "agent option \<Rightarrow> commit_identity \<Rightarrow> commit_identity" where
  "resolve_agent ag idn =
     (case ag of
        None \<Rightarrow> idn
      | Some a \<Rightarrow>
          (let id1 = (if ag_Name a \<noteq> [] then idn\<lparr>ci_AgentName := ag_Name a\<rparr> else idn) in
           if ag_Worker a \<noteq> [] then id1\<lparr>ci_WorkerID := ag_Worker a\<rparr> else id1))"

definition Resolve :: "id_ctx \<Rightarrow> id_defaults \<Rightarrow> commit_identity" where
  "Resolve ctx d =
     (let idn = resolve_agent (cx_agent ctx)
                 \<lparr>ci_UserName = df_UserName d, ci_UserEmail = df_UserEmail d, ci_AgentName = df_AgentName d,
                  ci_WorkerID = df_AgentWorker d, ci_AuthorIsUser = False\<rparr> in
      case cx_user ctx of
        Some u \<Rightarrow>
          (let id1 = idn\<lparr>ci_AuthorIsUser := True\<rparr> in
           if us_Name u \<noteq> [] then id1\<lparr>ci_UserName := us_Name u, ci_UserEmail := us_Email u\<rparr> else id1)
      | None \<Rightarrow>
          (case cx_committer ctx of
             Some c \<Rightarrow>
               (if us_Name c \<noteq> [] then idn\<lparr>ci_UserName := us_Name c, ci_UserEmail := us_Email c\<rparr> else idn)
           | None \<Rightarrow> idn))"

definition WithDefaults :: "id_defaults \<Rightarrow> commit_identity \<Rightarrow> commit_identity" where
  "WithDefaults d idn =
     (let id1 = (if ci_UserName idn = [] then idn\<lparr>ci_UserName := df_UserName d\<rparr> else idn);
          id2 = (if ci_UserEmail id1 = [] then id1\<lparr>ci_UserEmail := df_UserEmail d\<rparr> else id1) in
      if ci_AgentName id2 = [] then id2\<lparr>ci_AgentName := df_AgentName d\<rparr> else id2)"

definition email_rune :: "nat \<Rightarrow> char" where
  "email_rune r =
     (if 97 \<le> r \<and> r \<le> 122 \<or> 48 \<le> r \<and> r \<le> 57 \<or> r = 46 \<or> r = 95 \<or> r = 45 then char_of r else CHR ''-'')"

definition trim_dashes :: "string \<Rightarrow> string" where
  "trim_dashes s = rev (dropWhile (\<lambda>c. c = CHR ''-'') (rev (dropWhile (\<lambda>c. c = CHR ''-'') s)))"

definition sanitizeEmailLocal :: "(nat \<Rightarrow> nat) \<Rightarrow> string \<Rightarrow> string" where
  "sanitizeEmailLocal lower s =
     trim_dashes (map email_rune (runes (rune_string (map lower (runes (trim_space s))))))"

definition AgentEmail :: "(nat \<Rightarrow> nat) \<Rightarrow> string \<Rightarrow> string" where
  "AgentEmail lower agentName =
     (let local = sanitizeEmailLocal lower agentName in
      (if local = [] then ''agent'' else local) @ ''@agents.shoka.local'')"

definition Trailers :: "commit_identity \<Rightarrow> string" where
  "Trailers idn =
     ''Shoka-User: '' @ ci_UserName idn @ '' <'' @ ci_UserEmail idn @ ''>'' @ [newline] @
     ''Shoka-Agent: '' @ ci_AgentName idn @ [newline] @
     (if ci_WorkerID idn \<noteq> [] then ''Shoka-Worker: '' @ ci_WorkerID idn @ [newline] else [])"

section \<open>Precedence of the declarations\<close>

lemma Resolve_fields:
  "ci_AuthorIsUser (Resolve ctx d) \<longleftrightarrow> cx_user ctx \<noteq> None"
  "ci_AgentName (Resolve ctx d) =
     (case cx_agent ctx of Some a \<Rightarrow> if ag_Name a \<noteq> [] then ag_Name a else df_AgentName d | None \<Rightarrow> df_AgentName d)"
  "ci_WorkerID (Resolve ctx d) =
     (case cx_agent ctx of Some a \<Rightarrow> if ag_Worker a \<noteq> [] then ag_Worker a else df_AgentWorker d | None \<Rightarrow> df_AgentWorker d)"
  "(ci_UserName (Resolve ctx d), ci_UserEmail (Resolve ctx d)) =
     (let u = (case cx_user ctx of Some u \<Rightarrow> Some u | None \<Rightarrow> cx_committer ctx) in
      case u of Some u \<Rightarrow> if us_Name u \<noteq> [] then (us_Name u, us_Email u) else (df_UserName d, df_UserEmail d)
              | None \<Rightarrow> (df_UserName d, df_UserEmail d))"
  by (auto simp: Resolve_def resolve_agent_def Let_def split: option.splits)

section \<open>The trailer block\<close>

text \<open>What a line-wise reader gets from the block, for fields without line breaks.\<close>

lemma newline_cut: "newline \<notin> set a \<Longrightarrow> newline \<notin> set b \<Longrightarrow> a @ newline # r = b @ newline # t \<longleftrightarrow> a = b \<and> r = t"
  by (metis append_Cons_eq_iff cut_before_no_sep same_append_eq list.inject)

text \<open>
  the trailer block determines the identity: two identities whose fields have no line break, and
  whose user names have no \<open><\<close>, render to the same block only when user, agent and worker agree.
\<close>

theorem Trailers_unambiguous:
  assumes "newline \<notin> set (ci_UserName a) \<union> set (ci_UserEmail a) \<union> set (ci_AgentName a) \<union> set (ci_WorkerID a)"
    and "newline \<notin> set (ci_UserName b) \<union> set (ci_UserEmail b) \<union> set (ci_AgentName b) \<union> set (ci_WorkerID b)"
    and "CHR ''<'' \<notin> set (ci_UserName a) \<union> set (ci_UserName b)" "Trailers a = Trailers b"
  shows "ci_UserName a = ci_UserName b \<and> ci_UserEmail a = ci_UserEmail b \<and> ci_AgentName a = ci_AgentName b \<and>
    ci_WorkerID a = ci_WorkerID b"
proof -
  let ?u = "\<lambda>i. ''Shoka-User: '' @ ci_UserName i @ '' <'' @ ci_UserEmail i @ ''>''"
  let ?g = "\<lambda>i. ''Shoka-Agent: '' @ ci_AgentName i"
  let ?w = "\<lambda>i. if ci_WorkerID i \<noteq> [] then ''Shoka-Worker: '' @ ci_WorkerID i @ [newline] else []"
  have t: "Trailers i = ?u i @ newline # ?g i @ newline # ?w i" for i by (simp add: Trailers_def)
  have nu: "newline \<notin> set (?u i)" "newline \<notin> set (?g i)"
    if "newline \<notin> set (ci_UserName i) \<union> set (ci_UserEmail i) \<union> set (ci_AgentName i) \<union> set (ci_WorkerID i)" for i
    using that by (auto simp: newline_def)
  note eq = assms(4) [unfolded t newline_cut [OF nu(1) [OF assms(1)] nu(1) [OF assms(2)]]
      newline_cut [OF nu(2) [OF assms(1)] nu(2) [OF assms(2)]]]
  have cut: "x @ CHR ''<'' # r = y @ CHR ''<'' # s \<Longrightarrow> x = y \<and> r = s"
    if "CHR ''<'' \<notin> set x" "CHR ''<'' \<notin> set y" for x y r s
    using that by (metis cut_before_no_sep cut_after_no_sep)
  have "(ci_UserName a @ '' '') @ CHR ''<'' # ci_UserEmail a @ ''>'' =
      (ci_UserName b @ '' '') @ CHR ''<'' # ci_UserEmail b @ ''>''" using eq by simp
  from cut [OF _ _ this] assms(3) have "ci_UserName a = ci_UserName b" "ci_UserEmail a = ci_UserEmail b" by auto
  then show ?thesis using eq by (auto split: if_splits)
qed

definition sample_identity :: "string \<Rightarrow> string \<Rightarrow> commit_identity" where
  "sample_identity agent worker =
     \<lparr>ci_UserName = ''op'', ci_UserEmail = ''op@x'', ci_AgentName = agent, ci_WorkerID = worker, ci_AuthorIsUser = False\<rparr>"

theorem Trailers_unambiguous_witness:
  "ci_WorkerID (sample_identity ''cc'' ''w'') = ci_WorkerID ((sample_identity ''cc'' ''w'')\<lparr>ci_AuthorIsUser := True\<rparr>)"
  using Trailers_unambiguous [of "sample_identity ''cc'' ''w''" "(sample_identity ''cc'' ''w'')\<lparr>ci_AuthorIsUser := True\<rparr>"]
  by (simp add: sample_identity_def newline_def Trailers_def)

text \<open>
  the block is not unambiguous for every identity: an agent that declares a name with a line break
  renders like an agent with a worker it does not have, and can write a second \<open>Shoka-User\<close> line.
\<close>

theorem Trailers_forgeable:
  "Trailers (sample_identity (''cc'' @ [newline] @ ''Shoka-Worker: w'') []) = Trailers (sample_identity ''cc'' ''w'') \<and>
   (\<exists>pre post. Trailers (sample_identity (''cc'' @ [newline] @ ''Shoka-User: eve <e@x>'') []) =
      pre @ [newline] @ ''Shoka-User: eve <e@x>'' @ [newline] @ post)"
proof (intro conjI exI)
  show "Trailers (sample_identity (''cc'' @ [newline] @ ''Shoka-Worker: w'') []) = Trailers (sample_identity ''cc'' ''w'')"
    by (simp add: Trailers_def sample_identity_def)
  show "Trailers (sample_identity (''cc'' @ [newline] @ ''Shoka-User: eve <e@x>'') []) =
      (''Shoka-User: op <op@x>'' @ [newline] @ ''Shoka-Agent: cc'') @ [newline] @ ''Shoka-User: eve <e@x>'' @ [newline] @ []"
    by (simp add: Trailers_def sample_identity_def)
qed

section \<open>The synthesised address\<close>

definition email_char :: "char \<Rightarrow> bool" where
  "email_char c \<longleftrightarrow> c \<in> set ''abcdefghijklmnopqrstuvwxyz0123456789._-''"

lemma email_rune_char: "email_char (email_rune r)"
proof (cases "email_rune r = CHR ''-''")
  case False
  then have r: "97 \<le> r \<and> r \<le> 122 \<or> 48 \<le> r \<and> r \<le> 57 \<or> r = 46 \<or> r = 95 \<or> r = 45"
    by (auto simp: email_rune_def split: if_splits)
  then have "r \<in> set ([97..<123] @ [48..<58] @ [46, 95, 45])"
    unfolding set_append set_upt by auto
  moreover have "list_all (\<lambda>r. email_char (char_of r)) ([97..<123] @ [48..<58] @ [46, 95, 45] :: nat list)" by code_simp
  ultimately have "email_char (char_of r)" by (simp only: list_all_iff)
  then show ?thesis using r by (simp add: email_rune_def)
qed (simp add: email_char_def)

lemma set_trim_dashes: "set (trim_dashes s) \<subseteq> set s"
proof
  fix x assume "x \<in> set (trim_dashes s)"
  then have "x \<in> set (dropWhile (\<lambda>c. c = CHR ''-'') (rev (dropWhile (\<lambda>c. c = CHR ''-'') s)))"
    by (simp add: trim_dashes_def)
  from set_dropWhileD [OF this] have "x \<in> set (dropWhile (\<lambda>c. c = CHR ''-'') s)" by simp
  from set_dropWhileD [OF this] show "x \<in> set s" by simp
qed

text \<open>
  the author address of an agent is a plain address whatever name it declares: one of the letters,
  digits and \<open>._-\<close>, at least one of them, before the fixed domain.
\<close>

theorem AgentEmail_plain:
  "\<exists>local. AgentEmail lower name = local @ ''@agents.shoka.local'' \<and> local \<noteq> [] \<and> list_all email_char local"
proof -
  have "list_all email_char (sanitizeEmailLocal lower name)"
    using set_trim_dashes email_rune_char by (fastforce simp: sanitizeEmailLocal_def list_all_iff)
  moreover have "list_all email_char ''agent''" by (simp add: email_char_def)
  ultimately show ?thesis by (auto simp: AgentEmail_def Let_def)
qed

end
