(* ===== verification/Op_Meta.thy ===== *)
theory Op_Meta
  imports Go_Runes
begin

text \<open>
  Package \<open>opmeta\<close> (\<open>internal/storage/opmeta/opmeta.go\<close>): the operation a commit performed, as one
  line of JSON at the end of its message.  \<open>json.Marshal\<close> of the struct is modelled byte for byte;
  \<open>json.Unmarshal\<close> is a parameter.
\<close>

record meta =
  m_Op :: string
  m_Path :: string
  m_From :: string

definition TrailerPrefix :: string where
  "TrailerPrefix = ''Shoka-Op: ''"

definition OpWrite :: string where
  "OpWrite = ''write''"

definition OpDelete :: string where
  "OpDelete = ''delete''"

definition OpMove :: string where
  "OpMove = ''move''"

definition meta_Valid :: "meta \<Rightarrow> bool" where
  "meta_Valid m =
     (if m_Path m = [] then False
      else if m_Op m = OpWrite \<or> m_Op m = OpDelete then m_From m = []
      else if m_Op m = OpMove then m_From m \<noteq> []
      else False)"

section \<open>Strings in JSON\<close>

text \<open>The rune at the front of some bytes and its width; an ill-formed byte is one \<open>RuneError\<close> wide 1.\<close>

definition rune_width :: "nat list \<Rightarrow> nat" where
  "rune_width bs =
     (case bs of
        [] \<Rightarrow> 0
      | a # r \<Rightarrow>
          (if a < 128 then 1
           else (case r of
             [] \<Rightarrow> 1
           | b # r1 \<Rightarrow>
               (if 194 \<le> a \<and> a \<le> 223 \<and> cont_byte b then 2
                else (case r1 of
                  [] \<Rightarrow> 1
                | c # r2 \<Rightarrow>
                    (if lead3 a b \<and> cont_byte c then 3
                     else (case r2 of
                       [] \<Rightarrow> 1
                     | d # _ \<Rightarrow> if lead4 a b \<and> cont_byte c \<and> cont_byte d then 4 else 1)))))))"

definition bslash :: char where
  "bslash = CHR 0x5C"

definition quot :: char where
  "quot = CHR 0x22"

definition json_ascii :: "nat \<Rightarrow> string" where
  "json_ascii b =
     (if b = 34 \<or> b = 92 then [bslash, char_of b]
      else if b = 8 then [bslash, CHR ''b'']
      else if b = 12 then [bslash, CHR ''f'']
      else if b = 10 then [bslash, CHR ''n'']
      else if b = 13 then [bslash, CHR ''r'']
      else if b = 9 then [bslash, CHR ''t'']
      else if b < 32 \<or> b = 60 \<or> b = 62 \<or> b = 38
      then [bslash] @ ''u00'' @ [''0123456789abcdef'' ! (b div 16), ''0123456789abcdef'' ! (b mod 16)]
      else [char_of b])"

definition json_piece :: "nat list \<Rightarrow> string" where
  "json_piece bs =
     (let w = rune_width bs in
      if w = 1 then (if hd bs < 128 then json_ascii (hd bs) else bslash # ''ufffd'')
      else if take w bs = [226, 128, 168] then bslash # ''u2028''
      else if take w bs = [226, 128, 169] then bslash # ''u2029''
      else map char_of (take w bs))"

lemma rune_width_pos: "bs \<noteq> [] \<Longrightarrow> 0 < rune_width bs"
  by (cases bs) (auto simp: rune_width_def split: list.split)

function json_body :: "nat list \<Rightarrow> string" where
  "json_body bs = (if bs = [] then [] else json_piece bs @ json_body (drop (rune_width bs) bs))"
  by auto
termination by (relation "measure length") (auto simp: rune_width_pos)

declare json_body.simps [simp del]

definition json_string :: "string \<Rightarrow> string" where
  "json_string s = [quot] @ json_body (map of_char s) @ [quot]"

definition json_member :: "string \<Rightarrow> string \<Rightarrow> string" where
  "json_member key val = json_string key @ '':'' @ json_string val"

definition meta_Marshal :: "meta \<Rightarrow> string" where
  "meta_Marshal m =
     ''{'' @ json_member ''op'' (m_Op m) @ '','' @ json_member ''path'' (m_Path m) @
     (if m_From m = [] then [] else '','' @ json_member ''from'' (m_From m)) @ ''}''"

definition Trailer :: "meta \<Rightarrow> string" where
  "Trailer m = TrailerPrefix @ meta_Marshal m @ [newline]"

definition trim_cr :: "string \<Rightarrow> string" where
  "trim_cr s = rev (dropWhile (\<lambda>c. c = CHR 0x0D) (rev s))"

fun parse_lines :: "(string \<Rightarrow> meta option) \<Rightarrow> string list \<Rightarrow> meta option \<Rightarrow> meta option" where
  "parse_lines unmarshal [] out = out"
| "parse_lines unmarshal (l # ls) out =
     (let line = trim_cr l in
      if \<not> has_prefix line TrailerPrefix then parse_lines unmarshal ls out
      else case unmarshal (trim_space (trim_prefix line TrailerPrefix)) of
             None \<Rightarrow> parse_lines unmarshal ls out
           | Some m \<Rightarrow> if \<not> meta_Valid m then parse_lines unmarshal ls out
                       else parse_lines unmarshal ls (Some m))"

definition Parse :: "(string \<Rightarrow> meta option) \<Rightarrow> string \<Rightarrow> meta option" where
  "Parse unmarshal message = parse_lines unmarshal (split_on newline message) None"

section \<open>The line is one line\<close>

lemma hex_digit_no_nl: "i < 16 \<Longrightarrow> ''0123456789abcdef'' ! i \<noteq> newline"
proof -
  have "list_all (\<lambda>i. ''0123456789abcdef'' ! i \<noteq> newline) [0..<16]" by code_simp
  moreover assume "i < 16"
  ultimately show ?thesis by (simp only: list_all_iff set_upt) auto
qed

lemma char_of_nl: "b < 256 \<Longrightarrow> char_of b = newline \<longleftrightarrow> b = (10 :: nat)"
proof -
  assume b: "b < 256"
  have "of_char (char_of b :: char) = b" using b by simp
  moreover have "of_char newline = (10 :: nat)" by (simp add: newline_def)
  moreover have "char_of (10 :: nat) = newline" by code_simp
  ultimately show ?thesis by metis
qed

lemma json_ascii_no_nl: "b < 128 \<Longrightarrow> newline \<notin> set (json_ascii b)"
proof -
  assume b: "b < 128"
  define hi lo where "hi = ''0123456789abcdef'' ! (b div 16)" and "lo = ''0123456789abcdef'' ! (b mod 16)"
  have "b div 16 < 16" using b by simp
  then have h: "hi \<noteq> newline" "lo \<noteq> newline" unfolding hi_def lo_def by (rule hex_digit_no_nl, intro hex_digit_no_nl) simp
  have k: "newline \<noteq> bslash" "CHR ''b'' \<noteq> newline" "CHR ''f'' \<noteq> newline" "CHR ''n'' \<noteq> newline" "CHR ''r'' \<noteq> newline" "CHR ''t'' \<noteq> newline"
    "CHR ''u'' \<noteq> newline" "CHR ''0'' \<noteq> newline"
    by (simp_all add: bslash_def newline_def)
  have c: "char_of b = newline \<longleftrightarrow> b = 10" using char_of_nl [of b] b by simp
  show ?thesis
    unfolding json_ascii_def hi_def [symmetric] lo_def [symmetric]
    by (simp add: k k [THEN not_sym] h h [THEN not_sym] c eq_commute [of newline "char_of b"])
qed

lemma wide_bytes:
  assumes "rune_width bs \<noteq> 1" "b \<in> set (take (rune_width bs) bs)"
  shows "128 \<le> b"
proof (cases bs)
  case (Cons a r)
  show ?thesis
  proof (cases "a < 128 \<or> r = []")
    case True
    then have "rune_width bs = 1" using Cons by (cases r) (auto simp: rune_width_def)
    then show ?thesis using assms by simp
  next
    case False
    then obtain c r1 where r: "r = c # r1" "128 \<le> a" by (cases r) auto
    show ?thesis
    proof (cases r1)
      case Nil
      then show ?thesis using assms Cons r by (auto simp: rune_width_def cont_byte_def split: if_splits)
    next
      case r1: (Cons d r2)
      show ?thesis
      proof (cases r2)
        case Nil
        then show ?thesis using assms Cons r r1
          by (auto simp: rune_width_def cont_byte_def lead3_def split: if_splits)
      next
        case (Cons e r3)
        then show ?thesis using assms \<open>bs = a # r\<close> r r1
          by (auto simp: rune_width_def cont_byte_def lead3_def lead4_def split: if_splits)
      qed
    qed
  qed
qed (use assms in \<open>simp add: rune_width_def\<close>)

lemma json_piece_no_nl:
  assumes "bs \<noteq> []" "\<forall>b\<in>set bs. b < 256"
  shows "newline \<notin> set (json_piece bs)"
proof -
  have "newline \<notin> set (map char_of (take (rune_width bs) bs))" if w: "rune_width bs \<noteq> 1"
  proof
    assume "newline \<in> set (map char_of (take (rune_width bs) bs))"
    then obtain b where "b \<in> set (take (rune_width bs) bs)" "char_of b = newline" by auto
    moreover from this have "b < 256" using assms(2) by (auto dest: in_set_takeD)
    ultimately show False using char_of_nl [of b] wide_bytes [OF w, of b] by simp
  qed
  moreover have "newline \<notin> set (bslash # ''ufffd'')" "newline \<notin> set (bslash # ''u2028'')" "newline \<notin> set (bslash # ''u2029'')"
    by (simp_all add: bslash_def newline_def)
  ultimately show ?thesis using json_ascii_no_nl [of "hd bs"] by (auto simp: json_piece_def Let_def)
qed

lemma json_body_no_nl: "\<forall>b\<in>set bs. b < 256 \<Longrightarrow> newline \<notin> set (json_body bs)"
proof (induction bs rule: json_body.induct)
  case (1 bs)
  show ?case
  proof (cases "bs = []")
    case False
    have "\<forall>b\<in>set (drop (rune_width bs) bs). b < 256" using 1(2) by (auto dest: in_set_dropD)
    from 1(1) [OF False this] json_piece_no_nl [OF False 1(2)] show ?thesis
      by (simp add: json_body.simps [of bs])
  qed (simp add: json_body.simps)
qed

lemma meta_Marshal_no_nl: "newline \<notin> set (meta_Marshal m)"
proof -
  have "newline \<notin> set (json_string s)" for s
  proof -
    have "\<forall>b\<in>set (map of_char s). b < (256 :: nat)" by auto
    from json_body_no_nl [OF this] show ?thesis by (simp add: json_string_def quot_def newline_def)
  qed
  then show ?thesis by (simp add: meta_Marshal_def json_member_def) (simp add: newline_def)
qed

lemma meta_Marshal_ends: "meta_Marshal m \<noteq> []" "hd (meta_Marshal m) = CHR ''{''" "last (meta_Marshal m) = CHR ''}''"
  by (simp_all add: meta_Marshal_def)

lemma parse_lines_append: "parse_lines u (xs @ ys) out = parse_lines u ys (parse_lines u xs out)"
  by (induction u xs out rule: parse_lines.induct) (auto simp: Let_def split: option.split)

text \<open>
  The operation of a commit can be read back whatever else its message says: the trailer line
  of valid metadata, appended after any text that ends a line, is what \<open>Parse\<close> returns, also when
  the subject or the identity trailers carry lines that look like one.
\<close>

lemma Parse_Trailer:
  assumes "meta_Valid m" "unmarshal (meta_Marshal m) = Some m"
  shows "Parse unmarshal (text @ [newline] @ Trailer m) = Some m"
proof -
  have l: "newline \<notin> set (TrailerPrefix @ meta_Marshal m)"
    using meta_Marshal_no_nl by (simp add: TrailerPrefix_def) (simp add: newline_def)
  have "split_on newline (text @ [newline] @ Trailer m) = split_on newline text @ split_on newline ((TrailerPrefix @ meta_Marshal m) @ newline # [])"
    by (simp add: Trailer_def split_on_append2)
  also have "split_on newline ((TrailerPrefix @ meta_Marshal m) @ newline # []) = [TrailerPrefix @ meta_Marshal m, []]"
    using split_on_append_sep [OF l, of "[]"] by simp
  finally have s: "split_on newline (text @ [newline] @ Trailer m) = split_on newline text @ [TrailerPrefix @ meta_Marshal m, []]" .
  have cr: "trim_cr (TrailerPrefix @ meta_Marshal m) = TrailerPrefix @ meta_Marshal m"
  proof -
    obtain ys y where y: "meta_Marshal m = ys @ [y]" "y = CHR ''}''"
      using meta_Marshal_ends [of m] by (metis append_butlast_last_id)
    then show ?thesis by (simp add: trim_cr_def)
  qed
  have sp: "trim_space (meta_Marshal m) = meta_Marshal m"
    using meta_Marshal_ends [of m]
    by (intro trim_space_trimmed trimmed_graphic) (simp_all add: graphic_def)
  have e: "trim_cr [] = []" "\<not> has_prefix [] TrailerPrefix" by (simp_all add: trim_cr_def TrailerPrefix_def has_prefix_def)
  show ?thesis
    unfolding Parse_def s parse_lines_append by (simp add: cr sp e assms Let_def)
qed

lemma parse_lines_valid:
  "parse_lines u ls out = Some m \<Longrightarrow> (\<forall>x. out = Some x \<longrightarrow> meta_Valid x) \<Longrightarrow> meta_Valid m"
  by (induction u ls out rule: parse_lines.induct) (auto simp: Let_def split: if_splits option.splits)

text \<open>What is read back is always valid, so a caller never sees a half-formed operation.\<close>

lemma Parse_valid: "Parse u msg = Some m \<Longrightarrow> meta_Valid m"
  unfolding Parse_def by (erule parse_lines_valid) simp

end
