(* ===== verification/Wal.thy ===== *)
theory Wal
  imports KV Go_Codec
begin

text \<open>
  Package \<open>wal\<close> (\<open>internal/storage/wal/wal.go\<close>): the write-ahead log, one JSON file per pending
  entry under \<open><base>/.shoka/wal/\<close>, staged in \<open>.tmp/\<close> and renamed into place, with files that fail
  the integrity check moved to \<open>wal-corrupted/\<close>.

  The state holds the three directories (in name order, as \<open>os.ReadDir\<close> lists them) and the open
  log's fields.  A file is the record \<open>json.Unmarshal\<close> reads from it, or bytes it rejects; the text
  of a time is the time it denotes, or text \<open>time.Parse\<close> rejects.  Sequence numbers, their
  hexadecimal names, base64 and SHA-256 are concrete.  I/O faults are an argument of each operation.
\<close>

section \<open>Data\<close>

record aux_file =
  a_Path :: string
  a_Content :: string
  a_Size :: int
  a_Version :: string

record wal_entry =
  e_Seq :: "64 word"
  e_Ts :: int
  e_Namespace :: string
  e_Project :: string
  e_Path :: string
  e_Op :: string
  e_Version :: string
  e_Size :: int
  e_Content :: string
  e_MoveFrom :: string
  e_Aux :: "aux_file list"
  e_UserName :: string
  e_UserEmail :: string
  e_AgentName :: string
  e_WorkerID :: string
  e_AuthorIsUser :: bool

record entry_head =
  h_Seq :: int
  h_Size :: int
  h_Ts :: int
  h_Namespace :: string
  h_Project :: string
  h_Path :: string
  h_Op :: string
  h_Version :: string

record wire_aux =
  wa_Path :: string
  wa_ContentB64 :: string
  wa_Size :: int
  wa_Version :: string

datatype wire_time = RFC3339Nano int | TimeText string

record wire_entry =
  w_Seq :: string
  w_Ts :: wire_time
  w_Namespace :: string
  w_Project :: string
  w_Path :: string
  w_Op :: string
  w_Version :: string
  w_Size :: int
  w_ContentB64 :: string
  w_UserName :: string
  w_UserEmail :: string
  w_AgentName :: string
  w_WorkerID :: string
  w_AuthorIsUser :: bool
  w_MoveFrom :: string
  w_Aux :: "wire_aux list"

datatype wal_file = WalJson wire_entry | WalBytes string

datatype wal_error =
  ErrCreateDir | ErrReadDir | ErrWriteTemp | ErrRename | ErrRemove "64 word"
| ErrRead | ErrParse | ErrBadSeq string | ErrSeqMismatch "64 word" "64 word" | ErrBase64
| ErrSize int int | ErrHash string string | ErrBadTs string
| ErrAuxBase64 nat | ErrAuxSize nat int int | ErrAuxHash nat string string

type_synonym wal_dir = "(string \<times> wal_file) list"

record wal_log =
  l_entries :: wal_dir
  l_tmp :: wal_dir
  l_corrupted :: wal_dir
  l_nextSeq :: "64 word"
  l_pending :: "(64 word \<times> entry_head) list"
  l_pendingBytes :: int

text \<open>Which of the file-system calls of an operation fails.\<close>

record wal_faults =
  f_mkdir :: bool
  f_readdir :: bool
  f_read :: bool
  f_write :: bool
  f_rename :: bool
  f_remove :: bool

definition no_faults :: wal_faults where
  "no_faults = \<lparr>f_mkdir = False, f_readdir = False, f_read = False, f_write = False,
                f_rename = False, f_remove = False\<rparr>"

section \<open>Names and the wire form\<close>

definition seqHex :: "64 word \<Rightarrow> string" where
  "seqHex seq = hex64 seq"

definition json_ext :: string where
  "json_ext = ''.json''"

definition seqName :: "64 word \<Rightarrow> string" where
  "seqName seq = seqHex seq @ json_ext"

definition parseSeqName :: "string \<Rightarrow> 64 word option" where
  "parseSeqName name =
     (if \<not> has_suffix name json_ext then None
      else
        (let base = trim_suffix name json_ext in
         if length base \<noteq> 16 then None else parse_uint16 base))"

definition headOf :: "wal_entry \<Rightarrow> entry_head" where
  "headOf e = \<lparr>h_Seq = sint (e_Seq e), h_Size = e_Size e, h_Ts = e_Ts e,
     h_Namespace = e_Namespace e, h_Project = e_Project e, h_Path = e_Path e, h_Op = e_Op e,
     h_Version = e_Version e\<rparr>"

definition toWire :: "wal_entry \<Rightarrow> wire_entry" where
  "toWire e = \<lparr>w_Seq = seqHex (e_Seq e), w_Ts = RFC3339Nano (e_Ts e),
     w_Namespace = e_Namespace e, w_Project = e_Project e, w_Path = e_Path e, w_Op = e_Op e,
     w_Version = e_Version e, w_Size = e_Size e, w_ContentB64 = b64_encode (e_Content e),
     w_UserName = e_UserName e, w_UserEmail = e_UserEmail e, w_AgentName = e_AgentName e,
     w_WorkerID = e_WorkerID e, w_AuthorIsUser = e_AuthorIsUser e, w_MoveFrom = e_MoveFrom e,
     w_Aux = map (\<lambda>a. \<lparr>wa_Path = a_Path a, wa_ContentB64 = b64_encode (a_Content a),
                      wa_Size = a_Size a, wa_Version = a_Version a\<rparr>) (e_Aux e)\<rparr>"

section \<open>Reading an entry file\<close>

fun read_aux :: "nat \<Rightarrow> wire_aux list \<Rightarrow> wal_error + aux_file list" where
  "read_aux i [] = Inr []"
| "read_aux i (wa # was) =
     (case b64_decode (wa_ContentB64 wa) of
        None \<Rightarrow> Inl (ErrAuxBase64 i)
      | Some ac \<Rightarrow>
          (if int (length ac) \<noteq> wa_Size wa then Inl (ErrAuxSize i (wa_Size wa) (int (length ac)))
           else if sha256Hex ac \<noteq> wa_Version wa then Inl (ErrAuxHash i (wa_Version wa) (sha256Hex ac))
           else
             (case read_aux (Suc i) was of
                Inl err \<Rightarrow> Inl err
              | Inr rest \<Rightarrow>
                  Inr (\<lparr>a_Path = wa_Path wa, a_Content = ac, a_Size = wa_Size wa,
                        a_Version = wa_Version wa\<rparr> # rest))))"

definition read_wire :: "wire_entry \<Rightarrow> 64 word \<Rightarrow> wal_error + wal_entry" where
  "read_wire w wantSeq =
     (case parse_uint16 (trim_space (w_Seq w)) of
        None \<Rightarrow> Inl (ErrBadSeq (w_Seq w))
      | Some seq \<Rightarrow>
          (if seq \<noteq> wantSeq then Inl (ErrSeqMismatch wantSeq seq)
           else
             (case b64_decode (w_ContentB64 w) of
                None \<Rightarrow> Inl ErrBase64
              | Some content \<Rightarrow>
                  (if int (length content) \<noteq> w_Size w then Inl (ErrSize (w_Size w) (int (length content)))
                   else if sha256Hex content \<noteq> w_Version w
                   then Inl (ErrHash (w_Version w) (sha256Hex content))
                   else
                     (case w_Ts w of
                        TimeText t \<Rightarrow> Inl (ErrBadTs t)
                      | RFC3339Nano ts \<Rightarrow>
                          (case read_aux 0 (w_Aux w) of
                             Inl err \<Rightarrow> Inl err
                           | Inr aux \<Rightarrow>
                               Inr \<lparr>e_Seq = seq, e_Ts = ts, e_Namespace = w_Namespace w,
                                 e_Project = w_Project w, e_Path = w_Path w, e_Op = w_Op w,
                                 e_Version = w_Version w, e_Size = w_Size w, e_Content = content,
                                 e_MoveFrom = w_MoveFrom w, e_Aux = aux,
                                 e_UserName = w_UserName w, e_UserEmail = w_UserEmail w,
                                 e_AgentName = w_AgentName w, e_WorkerID = w_WorkerID w,
                                 e_AuthorIsUser = w_AuthorIsUser w\<rparr>))))))"

definition readEntryFile :: "bool \<Rightarrow> wal_dir \<Rightarrow> string \<Rightarrow> 64 word \<Rightarrow> wal_error + wal_entry" where
  "readEntryFile read_fails dir name wantSeq =
     (if read_fails then Inl ErrRead
      else case map_of dir name of
             None \<Rightarrow> Inl ErrRead
           | Some (WalBytes bs) \<Rightarrow> Inl ErrParse
           | Some (WalJson w) \<Rightarrow> read_wire w wantSeq)"

section \<open>Operations\<close>

text \<open>\<open>quarantine\<close>: creating the directory or the rename (also of a file that is not there) may
  fail; then nothing moves.\<close>

definition quarantine :: "wal_faults \<Rightarrow> string \<Rightarrow> wal_log \<Rightarrow> wal_log" where
  "quarantine f name l =
     (if f_mkdir f then l
      else if f_rename f then l
      else case map_of (l_entries l) name of
             None \<Rightarrow> l
           | Some x \<Rightarrow> l\<lparr>l_entries := kv_del name (l_entries l),
                          l_corrupted := kv_put name x (l_corrupted l)\<rparr>)"

fun scan_entries :: "wal_faults \<Rightarrow> wal_dir \<Rightarrow> 64 word \<Rightarrow> wal_log \<Rightarrow> 64 word \<times> wal_log" where
  "scan_entries f [] maxSeq l = (maxSeq, l)"
| "scan_entries f ((name, _) # des) maxSeq l =
     (case parseSeqName name of
        None \<Rightarrow> scan_entries f des maxSeq l
      | Some seq \<Rightarrow>
          (case readEntryFile (f_read f) (l_entries l) name seq of
             Inl err \<Rightarrow> scan_entries f des maxSeq (quarantine f name l)
           | Inr e \<Rightarrow>
               scan_entries f des (if maxSeq < seq then seq else maxSeq)
                 (l\<lparr>l_pending := kv_put seq (headOf e) (l_pending l),
                    l_pendingBytes := l_pendingBytes l + e_Size e\<rparr>)))"

definition scan :: "wal_faults \<Rightarrow> wal_log \<Rightarrow> wal_error + wal_log" where
  "scan f l =
     (if f_readdir f then Inl ErrReadDir
      else
        (let (maxSeq, l1) = scan_entries f (l_entries l) 0 l in Inr (l1\<lparr>l_nextSeq := maxSeq + 1\<rparr>)))"

text \<open>\<open>Open\<close> starts from the three directories on disk.\<close>

definition Open_log :: "wal_faults \<Rightarrow> wal_dir \<Rightarrow> wal_dir \<Rightarrow> wal_dir \<Rightarrow> wal_error + wal_log" where
  "Open_log f entries tmp corrupted =
     (if f_mkdir f then Inl ErrCreateDir
      else scan f \<lparr>l_entries = entries, l_tmp = tmp, l_corrupted = corrupted, l_nextSeq = 1,
                   l_pending = [], l_pendingBytes = 0\<rparr>)"

definition fill_aux :: "aux_file \<Rightarrow> aux_file" where
  "fill_aux a = a\<lparr>a_Size := int (length (a_Content a)), a_Version := sha256Hex (a_Content a)\<rparr>"

definition fill_entry :: "64 word \<Rightarrow> int \<Rightarrow> wal_entry \<Rightarrow> wal_entry" where
  "fill_entry seq now e =
     e\<lparr>e_Seq := seq, e_Ts := now, e_Size := int (length (e_Content e)),
       e_Version := sha256Hex (e_Content e), e_Aux := map fill_aux (e_Aux e)\<rparr>"

text \<open>\<open>partial\<close> is what a failed write leaves behind in the staging file.\<close>

definition Append :: "wal_faults \<Rightarrow> string \<Rightarrow> int \<Rightarrow> wal_entry \<Rightarrow> wal_log \<Rightarrow> (wal_error + 64 word) \<times> wal_log" where
  "Append f partial now e0 l =
     (let seq = l_nextSeq l;
          e = fill_entry seq now e0;
          data = WalJson (toWire e);
          name = seqName seq in
      if f_write f then
        (Inl ErrWriteTemp, l\<lparr>l_tmp := kv_put name (WalBytes partial) (l_tmp l)\<rparr>)
      else if f_rename f then
        (Inl ErrRename, l\<lparr>l_tmp := (if f_remove f then kv_put name data (l_tmp l)
                                   else kv_del name (l_tmp l))\<rparr>)
      else
        (Inr seq, l\<lparr>l_tmp := kv_del name (l_tmp l), l_entries := kv_put name data (l_entries l),
                    l_pending := kv_put seq (headOf e) (l_pending l),
                    l_pendingBytes := l_pendingBytes l + e_Size e,
                    l_nextSeq := l_nextSeq l + 1\<rparr>))"

definition PendingCount :: "wal_log \<Rightarrow> nat" where
  "PendingCount l = length (l_pending l)"

definition PendingBytes :: "wal_log \<Rightarrow> int" where
  "PendingBytes l = l_pendingBytes l"

definition ListPending :: "wal_log \<Rightarrow> entry_head list" where
  "ListPending l = sort_key h_Seq (map snd (l_pending l))"

definition drop_pending :: "64 word \<Rightarrow> wal_log \<Rightarrow> wal_log" where
  "drop_pending seq l =
     (case map_of (l_pending l) seq of
        None \<Rightarrow> l
      | Some h \<Rightarrow> l\<lparr>l_pendingBytes := l_pendingBytes l - h_Size h,
                    l_pending := kv_del seq (l_pending l)\<rparr>)"

definition ReadByID :: "wal_faults \<Rightarrow> 64 word \<Rightarrow> wal_log \<Rightarrow> (wal_error + wal_entry) \<times> wal_log" where
  "ReadByID f seq l =
     (case readEntryFile (f_read f) (l_entries l) (seqName seq) seq of
        Inl err \<Rightarrow> (Inl err, drop_pending seq (quarantine f (seqName seq) l))
      | Inr e \<Rightarrow> (Inr e, l))"

definition Remove :: "wal_faults \<Rightarrow> 64 word \<Rightarrow> wal_log \<Rightarrow> wal_error option \<times> wal_log" where
  "Remove f seq l =
     (if f_remove f \<and> map_of (l_entries l) (seqName seq) \<noteq> None then (Some (ErrRemove seq), l)
      else (None, drop_pending seq (l\<lparr>l_entries := kv_del (seqName seq) (l_entries l)\<rparr>)))"

text \<open>The zero \<open>time.Time\<close> (1 January of year 1), in nanoseconds from the Unix epoch.\<close>

definition zero_time :: int where
  "zero_time = -62135596800000000000"

fun oldest_ts :: "int \<Rightarrow> entry_head list \<Rightarrow> int" where
  "oldest_ts oldest [] = oldest"
| "oldest_ts oldest (h # hs) =
     oldest_ts (if oldest = zero_time \<or> h_Ts h < oldest then h_Ts h else oldest) hs"

definition OldestEntryAge :: "int \<Rightarrow> wal_log \<Rightarrow> int" where
  "OldestEntryAge now l =
     (let oldest = oldest_ts zero_time (map snd (l_pending l)) in
      if oldest = zero_time then 0 else now - oldest)"

section \<open>Names and the round trip\<close>

lemma hex_alphabet_graphic: "c \<in> set hex_alphabet \<Longrightarrow> graphic c"
  by (auto simp: hex_alphabet_def graphic_def)

lemma seqHex_trim [simp]: "trim_space (seqHex s) = seqHex s"
proof -
  have "length (hex64 s) \<noteq> 0" by simp
  then have ne: "hex64 s \<noteq> []" by blast
  moreover have "set (hex64 s) \<subseteq> set hex_alphabet" by (simp add: hex64_def set_hex_digits)
  ultimately have "graphic (hd (hex64 s))" "graphic (last (hex64 s))"
    using hex_alphabet_graphic hd_in_set last_in_set by blast+
  with ne show ?thesis by (simp add: seqHex_def trim_space_trimmed trimmed_graphic)
qed

lemma seqHex_parse [simp]: "parse_uint16 (seqHex s) = Some s"
  by (simp add: seqHex_def)

lemma seqName_inject [simp]: "seqName a = seqName b \<longleftrightarrow> a = b"
  by (simp add: seqName_def seqHex_def)

lemma parseSeqName_seqName [simp]: "parseSeqName (seqName s) = Some s"
  by (simp add: parseSeqName_def seqName_def Let_def) (simp add: seqHex_def)

lemma read_aux_fill:
  "read_aux i (map (\<lambda>a. \<lparr>wa_Path = a_Path a, wa_ContentB64 = b64_encode (a_Content a),
      wa_Size = a_Size a, wa_Version = a_Version a\<rparr>) (map fill_aux as)) = Inr (map fill_aux as)"
  by (induction as arbitrary: i) (simp_all add: fill_aux_def)

lemma read_toWire: "read_wire (toWire (fill_entry s now e)) s = Inr (fill_entry s now e)"
proof -
  have "read_aux 0 (w_Aux (toWire (fill_entry s now e))) = Inr (map fill_aux (e_Aux e))"
    using read_aux_fill [of 0 "e_Aux e"] by (simp add: toWire_def fill_entry_def)
  then show ?thesis by (simp add: read_wire_def toWire_def fill_entry_def)
qed

text \<open>The file-level read: what one directory entry holds under a sequence number.\<close>

fun read_file :: "wal_file \<Rightarrow> 64 word \<Rightarrow> wal_error + wal_entry" where
  "read_file (WalBytes bs) seq = Inl ErrParse"
| "read_file (WalJson w) seq = read_wire w seq"

lemma readEntryFile_Some:
  "map_of d n = Some x \<Longrightarrow> readEntryFile False d n s = read_file x s"
  by (cases x) (simp_all add: readEntryFile_def)

lemma readEntryFile_put [simp]:
  "readEntryFile False (kv_put n x d) n' s =
     (if n' = n then read_file x s else readEntryFile False d n' s)"
  by (cases x) (simp_all add: readEntryFile_def)

lemma readEntryFile_del [simp]:
  "readEntryFile False (kv_del n d) n' s =
     (if n' = n then Inl ErrRead else readEntryFile False d n' s)"
  by (simp add: readEntryFile_def)

lemma headOf_fill [simp]:
  "h_Seq (headOf (fill_entry s now e)) = sint s"
  "h_Size (headOf (fill_entry s now e)) = int (length (e_Content e))"
  "e_Size (fill_entry s now e) = int (length (e_Content e))"
  by (simp_all add: headOf_def fill_entry_def)

section \<open>The invariant of an open log\<close>

text \<open>
  The pending table is an index of the entry files: every pending number has a file that passes the
  integrity check, with this head, and is below the next number; the byte count is the sum.
\<close>

definition indexes :: "wal_dir \<Rightarrow> 64 word \<Rightarrow> entry_head \<Rightarrow> bool" where
  "indexes d seq h =
     (case readEntryFile False d (seqName seq) seq of Inl _ \<Rightarrow> False | Inr e \<Rightarrow> h = headOf e)"

definition wal_inv :: "wal_log \<Rightarrow> bool" where
  "wal_inv l \<longleftrightarrow> kv_ok (l_entries l) \<and> kv_ok (l_pending l) \<and>
     l_pendingBytes l = kv_sum h_Size (l_pending l) \<and>
     (\<forall>(seq, h)\<in>set (l_pending l). seq < l_nextSeq l \<and> indexes (l_entries l) seq h)"

lemma indexes_iff:
  "indexes d seq h \<longleftrightarrow>
     (\<exists>e. readEntryFile False d (seqName seq) seq = Inr e \<and> h = headOf e)"
  by (auto simp: indexes_def split: sum.splits)

lemma wal_invD:
  assumes "wal_inv l"
  shows "kv_ok (l_entries l)" "kv_ok (l_pending l)"
    "l_pendingBytes l = kv_sum h_Size (l_pending l)"
    "map_of (l_pending l) seq = Some h \<Longrightarrow> seq < l_nextSeq l"
    "map_of (l_pending l) seq = Some h \<Longrightarrow>
       \<exists>e. readEntryFile False (l_entries l) (seqName seq) seq = Inr e \<and> h = headOf e"
  using assms by (auto simp: wal_inv_def indexes_iff dest!: map_of_SomeD)

lemma wal_invI:
  assumes "kv_ok (l_entries l)" "kv_ok (l_pending l)" "l_pendingBytes l = kv_sum h_Size (l_pending l)"
    "\<And>seq h. map_of (l_pending l) seq = Some h \<Longrightarrow> seq < l_nextSeq l \<and> indexes (l_entries l) seq h"
  shows "wal_inv l"
  using assms kv_mem_iff [OF assms(2)] by (auto simp: wal_inv_def)

lemma word_less_Suc: "s \<noteq> - 1 \<Longrightarrow> s < s + (1 :: 64 word)"
proof -
  assume "s \<noteq> - 1"
  then have "1 + s \<noteq> 0" by (simp add: eq_neg_iff_add_eq_0 add.commute)
  then have "unat (1 + s) = Suc (unat s)" by (rule unatSuc)
  then show ?thesis by (simp add: word_less_nat_alt add.commute)
qed
lemma wal_inv_no_gap: "wal_inv l \<Longrightarrow> map_of (l_pending l) (l_nextSeq l) = None"
  using wal_invD(4) by (cases "map_of (l_pending l) (l_nextSeq l)") fastforce+

lemma drop_pending_fields [simp]:
  "l_entries (drop_pending s l) = l_entries l" "l_nextSeq (drop_pending s l) = l_nextSeq l"
  "l_pending (drop_pending s l) = kv_del s (l_pending l)"
  "l_corrupted (drop_pending s l) = l_corrupted l" "l_tmp (drop_pending s l) = l_tmp l"
  by (auto simp: drop_pending_def kv_del_absent split: option.split)

lemma drop_pending_bytes:
  "kv_ok (l_pending l) \<Longrightarrow> l_pendingBytes l = kv_sum h_Size (l_pending l) \<Longrightarrow>
   l_pendingBytes (drop_pending s l) = kv_sum h_Size (l_pending (drop_pending s l))"
  by (auto simp: drop_pending_def kv_sum_del split: option.split)

lemma wal_inv_Append:
  assumes "wal_inv l" "l_nextSeq l \<noteq> - 1"
  shows "wal_inv (snd (Append f partial now e l))"
proof -
  let ?s = "l_nextSeq l" and ?e = "fill_entry (l_nextSeq l) now e"
  have ok: "wal_inv (l\<lparr>l_tmp := t\<rparr>)" for t using assms(1) by (simp add: wal_inv_def)
  have "wal_inv (l\<lparr>l_tmp := kv_del (seqName ?s) (l_tmp l),
      l_entries := kv_put (seqName ?s) (WalJson (toWire ?e)) (l_entries l),
      l_pending := kv_put ?s (headOf ?e) (l_pending l),
      l_pendingBytes := l_pendingBytes l + e_Size ?e, l_nextSeq := ?s + 1\<rparr>)" (is "wal_inv ?l'")
  proof (rule wal_invI)
    show "l_pendingBytes ?l' = kv_sum h_Size (l_pending ?l')"
      using wal_invD(2,3) [OF assms(1)] wal_inv_no_gap [OF assms(1)] by (simp add: kv_sum_put)
    fix seq h assume "map_of (l_pending ?l') seq = Some h"
    moreover have "?s < ?s + 1" using assms(2) by (rule word_less_Suc)
    ultimately show "seq < l_nextSeq ?l' \<and> indexes (l_entries ?l') seq h"
      using wal_invD(4,5) [OF assms(1), of seq h]
      by (auto simp: read_toWire indexes_iff split: if_splits)
  qed (use wal_invD(1,2) [OF assms(1)] in auto)
  then show ?thesis using ok by (simp add: Append_def Let_def)
qed


lemma wal_inv_drop:
  assumes "wal_inv l" "kv_ok d"
    "\<And>q. q \<noteq> seq \<Longrightarrow> readEntryFile False d (seqName q) q = readEntryFile False (l_entries l) (seqName q) q"
  shows "wal_inv (drop_pending seq (l\<lparr>l_entries := d, l_corrupted := c\<rparr>))" (is "wal_inv ?l'")
proof (rule wal_invI)
  show "l_pendingBytes ?l' = kv_sum h_Size (l_pending ?l')"
    using wal_invD(2,3) [OF assms(1)] by (intro drop_pending_bytes) simp_all
  fix q h assume "map_of (l_pending ?l') q = Some h"
  then have "q \<noteq> seq" "map_of (l_pending l) q = Some h" by (auto split: if_splits)
  then show "q < l_nextSeq ?l' \<and> indexes (l_entries ?l') q h"
    using wal_invD(4,5) [OF assms(1)] assms(3) by (simp add: indexes_iff)
qed (use assms wal_invD in auto)

lemma wal_inv_Remove:
  assumes "wal_inv l"
  shows "wal_inv (snd (Remove f seq l))"
proof -
  have "wal_inv (drop_pending seq (l\<lparr>l_entries := kv_del (seqName seq) (l_entries l),
      l_corrupted := l_corrupted l\<rparr>))"
    by (rule wal_inv_drop) (use assms wal_invD(1) [OF assms] in auto)
  with assms show ?thesis by (simp add: Remove_def)
qed

lemma wal_inv_ReadByID:
  assumes "wal_inv l"
  shows "wal_inv (snd (ReadByID f seq l))"
proof (cases "readEntryFile (f_read f) (l_entries l) (seqName seq) seq")
  case (Inl err)
  obtain d c where q: "quarantine f (seqName seq) l = l\<lparr>l_entries := d, l_corrupted := c\<rparr>" "kv_ok d"
    "\<And>q. q \<noteq> seq \<Longrightarrow> readEntryFile False d (seqName q) q = readEntryFile False (l_entries l) (seqName q) q"
  proof (cases "f_mkdir f \<or> f_rename f \<or> map_of (l_entries l) (seqName seq) = None")
    case True
    then show ?thesis using wal_invD(1) [OF assms] that [where d = "l_entries l" and c = "l_corrupted l"]
      by (auto simp: quarantine_def)
  next
    case False
    then obtain x where "map_of (l_entries l) (seqName seq) = Some x" by auto
    with False show ?thesis using wal_invD(1) [OF assms]
      by (intro that [where d = "kv_del (seqName seq) (l_entries l)"
            and c = "kv_put (seqName seq) x (l_corrupted l)"]) (auto simp: quarantine_def)
  qed
  have "wal_inv (drop_pending seq (l\<lparr>l_entries := d, l_corrupted := c\<rparr>))"
    by (rule wal_inv_drop [OF assms q(2,3)])
  then show ?thesis using Inl q(1) by (simp add: ReadByID_def)
qed (use assms in \<open>simp add: ReadByID_def\<close>)

section \<open>Recovery\<close>

text \<open>
  \<open>stored d s\<close> is the entry the directory holds under the number \<open>s\<close>, if its file is sound;
  \<open>sound\<close> and \<open>corrupt\<close> classify one directory entry the way \<open>scan\<close> does.
\<close>

definition stored :: "wal_dir \<Rightarrow> 64 word \<Rightarrow> wal_entry option" where
  "stored d s = (case readEntryFile False d (seqName s) s of Inl _ \<Rightarrow> None | Inr e \<Rightarrow> Some e)"

definition corrupt :: "string \<times> wal_file \<Rightarrow> bool" where
  "corrupt de = (case parseSeqName (fst de) of None \<Rightarrow> False
                 | Some s \<Rightarrow> (case read_file (snd de) s of Inl _ \<Rightarrow> True | Inr _ \<Rightarrow> False))"

definition sound :: "string \<times> wal_file \<Rightarrow> (64 word \<times> wal_entry) option" where
  "sound de = (case parseSeqName (fst de) of None \<Rightarrow> None
               | Some s \<Rightarrow> (case read_file (snd de) s of Inl _ \<Rightarrow> None | Inr e \<Rightarrow> Some (s, e)))"

definition sounds :: "wal_dir \<Rightarrow> (64 word \<times> wal_entry) list" where
  "sounds d = List.map_filter sound d"

lemma sounds_simps [simp]:
  "sounds [] = []" "sounds (de # d) = (case sound de of None \<Rightarrow> sounds d | Some p \<Rightarrow> p # sounds d)"
  by (simp_all add: sounds_def map_filter_simps split: option.split)

lemma set_sounds: "set (sounds d) = {p. \<exists>de\<in>set d. sound de = Some p}"
  by (induction d) (auto split: option.split)

definition heads :: "(64 word \<times> wal_entry) list \<Rightarrow> (64 word \<times> entry_head) list" where
  "heads ps = map (\<lambda>(s, e). (s, headOf e)) ps"
text \<open>The names the log writes: one name per number.\<close>

definition canonical :: "wal_dir \<Rightarrow> bool" where
  "canonical d \<longleftrightarrow>
     list_all (\<lambda>(n, x). case parseSeqName n of None \<Rightarrow> True | Some s \<Rightarrow> n = seqName s) d"

lemma read_wire_Inr:
  assumes "read_wire w s = Inr e"
  shows "e_Seq e = s" "e_Size e = int (length (e_Content e))" "e_Version e = sha256Hex (e_Content e)"
proof -
  show "e_Seq e = s" "e_Size e = int (length (e_Content e))" "e_Version e = sha256Hex (e_Content e)"
    by (use assms in \<open>auto simp: read_wire_def split: option.splits if_splits wire_time.splits sum.splits\<close>)
qed

lemma read_aux_Inr:
  "read_aux i was = Inr as \<Longrightarrow> a \<in> set as \<Longrightarrow>
   a_Size a = int (length (a_Content a)) \<and> a_Version a = sha256Hex (a_Content a)"
  by (induction i was arbitrary: as rule: read_aux.induct)
    (auto split: option.splits if_splits sum.splits)

lemma read_wire_aux:
  assumes "read_wire w s = Inr e" "a \<in> set (e_Aux e)"
  shows "a_Size a = int (length (a_Content a)) \<and> a_Version a = sha256Hex (a_Content a)"
proof -
  have "read_aux 0 (w_Aux w) = Inr (e_Aux e)"
    using assms(1) by (auto simp: read_wire_def split: option.splits if_splits wire_time.splits sum.splits)
  then show ?thesis using assms(2) by (rule read_aux_Inr)
qed

lemma headOf_size [simp]: "h_Size (headOf e) = e_Size e"
  by (simp add: headOf_def)

lemma quarantine_present:
  "map_of (l_entries l) n = Some x \<Longrightarrow> \<not> f_mkdir f \<Longrightarrow> \<not> f_rename f \<Longrightarrow>
   quarantine f n l = l\<lparr>l_entries := kv_del n (l_entries l), l_corrupted := kv_put n x (l_corrupted l)\<rparr>"
  by (simp add: quarantine_def)

lemma word_max: "max a b = (if a < b then b else a)" for a :: "64 word"
  by (auto simp: max_def)

lemma file_cases:
  "parseSeqName n = None \<Longrightarrow> \<not> corrupt (n, x) \<and> sound (n, x) = None"
  "parseSeqName n = Some s \<Longrightarrow> read_file x s = Inl err \<Longrightarrow> corrupt (n, x) \<and> sound (n, x) = None"
  "parseSeqName n = Some s \<Longrightarrow> read_file x s = Inr e \<Longrightarrow> \<not> corrupt (n, x) \<and> sound (n, x) = Some (s, e)"
  by (simp_all add: corrupt_def sound_def)

text \<open>One pass over a directory: the fields of the log it leaves.\<close>

lemma scan_entries_eq:
  "distinct (map fst des) \<Longrightarrow> (\<forall>(n, x)\<in>set des. map_of (l_entries l) n = Some x) \<Longrightarrow>
   \<not> f_read f \<and> \<not> f_mkdir f \<and> \<not> f_rename f \<Longrightarrow>
   scan_entries f des mx l =
     (fold (\<lambda>p m. max m (fst p)) (sounds des) mx,
      l\<lparr>l_entries := fold (\<lambda>p. kv_del (fst p)) (filter corrupt des) (l_entries l),
        l_corrupted := kv_puts (filter corrupt des) (l_corrupted l),
        l_pending := kv_puts (heads (sounds des)) (l_pending l),
        l_pendingBytes := l_pendingBytes l + (\<Sum>p\<leftarrow>sounds des. e_Size (snd p))\<rparr>)"
proof (induction f des mx l rule: scan_entries.induct)
  case (2 f name x des mx l)
  have others: "\<forall>(n, y)\<in>set des. map_of (l_entries l) n = Some y \<and> n \<noteq> name"
    using 2(4,5) by force
  show ?case
  proof (cases "parseSeqName name")
    case None
    then show ?thesis using 2 by (simp add: file_cases)
  next
    case (Some seq)
    have rd: "readEntryFile (f_read f) (l_entries l) name seq = read_file x seq"
      using 2(5,6) by (simp add: readEntryFile_Some)
    show ?thesis
    proof (cases "read_file x seq")
      case (Inl err)
      have q: "quarantine f name l = l\<lparr>l_entries := kv_del name (l_entries l),
          l_corrupted := kv_put name x (l_corrupted l)\<rparr>"
        using 2(5,6) by (intro quarantine_present) auto
      have "scan_entries f des mx (quarantine f name l) =
        (fold (\<lambda>p m. max m (fst p)) (sounds des) mx,
         (quarantine f name l)\<lparr>
           l_entries := fold (\<lambda>p. kv_del (fst p)) (filter corrupt des) (l_entries (quarantine f name l)),
           l_corrupted := kv_puts (filter corrupt des) (l_corrupted (quarantine f name l)),
           l_pending := kv_puts (heads (sounds des)) (l_pending (quarantine f name l)),
           l_pendingBytes := l_pendingBytes (quarantine f name l) + (\<Sum>p\<leftarrow>sounds des. e_Size (snd p))\<rparr>)"
        using 2(2) [OF Some] 2(4,6) rd Inl others q by fastforce
      then show ?thesis using Some rd Inl q by (simp add: file_cases)
    next
      case (Inr e)
      then show ?thesis using 2(3) [OF Some] 2(4,6) rd Some others
        by (simp add: file_cases heads_def word_max case_prod_unfold)
    qed
  qed
qed (simp add: heads_def)


lemma canonical_Cons:
  "canonical ((n, x) # d) \<longleftrightarrow> canonical d \<and> (\<forall>s. parseSeqName n = Some s \<longrightarrow> n = seqName s)"
  by (auto simp: canonical_def split: option.split)

lemma sound_name: "canonical d \<Longrightarrow> (n, x) \<in> set d \<Longrightarrow> sound (n, x) = Some (s, e) \<Longrightarrow> n = seqName s"
  by (auto simp: canonical_def sound_def list_all_iff split: option.splits sum.splits)

lemma sounds_names:
  assumes "canonical d" "s \<in> fst ` set (sounds d)"
  shows "seqName s \<in> fst ` set d"
proof -
  obtain n x e where "(n, x) \<in> set d" "sound (n, x) = Some (s, e)"
    using assms(2) by (auto simp: set_sounds)
  with sound_name [OF assms(1)] show ?thesis by force
qed

lemma sounds_distinct: "canonical d \<Longrightarrow> distinct (map fst d) \<Longrightarrow> distinct (map fst (sounds d))"
proof (induction d)
  case (Cons de d)
  obtain n x where de: "de = (n, x)" by fastforce
  show ?case
  proof (cases "sound de")
    case (Some p)
    obtain s e where p: "p = (s, e)" by fastforce
    then have "n = seqName s" using sound_name [OF Cons.prems(1), of n x s e] Some de by simp
    then show ?thesis using Cons Some p de sounds_names [of d s] by (auto simp: canonical_Cons)
  qed (use Cons de in \<open>simp add: canonical_Cons\<close>)
qed simp

lemma stored_map_of:
  "stored d s = (case map_of d (seqName s) of None \<Rightarrow> None
                 | Some x \<Rightarrow> (case read_file x s of Inl _ \<Rightarrow> None | Inr e \<Rightarrow> Some e))"
  by (auto simp: stored_def readEntryFile_def split: option.splits wal_file.splits sum.splits)

lemma sound_seqName:
  "sound (seqName s, x) = (case read_file x s of Inl _ \<Rightarrow> None | Inr e \<Rightarrow> Some (s, e))"
  by (simp add: sound_def)

lemma map_of_sounds: "canonical d \<Longrightarrow> distinct (map fst d) \<Longrightarrow> map_of (sounds d) s = stored d s"
proof (induction d)
  case (Cons de d)
  obtain n x where de: "de = (n, x)" by fastforce
  have d: "canonical d" "distinct (map fst d)" using Cons.prems de by (auto simp: canonical_Cons)
  show ?case
  proof (cases "n = seqName s")
    case True
    then have "map_of (sounds d) s = None"
      using Cons.prems de sounds_names [OF d(1), of s] by (auto simp: map_of_eq_None_iff)
    then show ?thesis using True de by (auto simp: stored_map_of sound_seqName split: sum.split)
  next
    case False
    then have "\<forall>e. sound de \<noteq> Some (s, e)"
      using sound_name [OF Cons.prems(1), of n x s] de by auto
    then have "map_of (sounds (de # d)) s = map_of (sounds d) s" by (auto split: option.split)
    then show ?thesis using Cons d de False by (simp add: stored_map_of)
  qed
qed (simp add: stored_map_of)

lemma map_of_heads: "map_of (heads ps) s = map_option headOf (map_of ps s)"
  unfolding heads_def by (induction ps) auto

lemma keys_heads [simp]: "map fst (heads ps) = map fst ps"
  by (simp add: heads_def case_prod_unfold comp_def)

lemma fold_max_ge: "s \<in> fst ` set ps \<or> s \<le> m \<Longrightarrow> s \<le> fold (\<lambda>p m. max m (fst p)) ps m"
  for s :: "64 word"
  by (induction ps arbitrary: m) (auto simp: le_max_iff_disj)

lemma fold_max_le: "m \<le> b \<Longrightarrow> (\<And>s. s \<in> fst ` set ps \<Longrightarrow> s \<le> b) \<Longrightarrow> fold (\<lambda>p m. max m (fst p)) ps m \<le> b"
  for b :: "64 word"
  by (induction ps arbitrary: m) auto

lemma stored_filter_corrupt:
  assumes "kv_ok d"
  shows "stored (filter (\<lambda>p. \<not> corrupt p) d) s = stored d s"
proof -
  have "map_of (filter (\<lambda>p. \<not> corrupt p) d) (seqName s) =
      (case map_of d (seqName s) of None \<Rightarrow> None
       | Some x \<Rightarrow> if corrupt (seqName s, x) then None else Some x)"
  proof (cases "map_of (filter (\<lambda>p. \<not> corrupt p) d) (seqName s)")
    case None
    then show ?thesis using kv_mem_iff [OF assms]
      by (auto simp: map_of_eq_None_iff image_iff split: option.split)
  next
    case (Some x)
    then have "(seqName s, x) \<in> set d \<and> \<not> corrupt (seqName s, x)" by (auto dest: map_of_SomeD)
    then show ?thesis using Some kv_mem_iff [OF assms] by auto
  qed
  then show ?thesis by (auto simp: stored_map_of corrupt_def split: option.splits sum.splits)
qed

text \<open>What \<open>Open\<close> makes of a directory.\<close>

lemma Open_log_eq:
  assumes "kv_ok entries" "\<not> f_mkdir f" "\<not> f_readdir f" "\<not> f_read f" "\<not> f_rename f"
  shows "Open_log f entries tmp corrupted =
    Inr \<lparr>l_entries = filter (\<lambda>p. \<not> corrupt p) entries, l_tmp = tmp,
         l_corrupted = kv_puts (filter corrupt entries) corrupted,
         l_nextSeq = fold (\<lambda>p m. max m (fst p)) (sounds entries) 0 + 1,
         l_pending = kv_puts (heads (sounds entries)) [],
         l_pendingBytes = (\<Sum>p\<leftarrow>sounds entries. e_Size (snd p))\<rparr>"
proof -
  let ?l = "\<lparr>l_entries = entries, l_tmp = tmp, l_corrupted = corrupted, l_nextSeq = 1,
             l_pending = [], l_pendingBytes = 0\<rparr>"
  have gone: "filter (\<lambda>p. fst p \<notin> fst ` set (filter corrupt entries)) entries
      = filter (\<lambda>p. \<not> corrupt p) entries"
  proof (rule filter_cong [OF refl])
    fix p assume p: "p \<in> set entries"
    have "q = p" if "q \<in> set entries" "fst q = fst p" for q
      using distinct_key_unique [OF kv_ok_distinct [OF assms(1)] p that] .
    then show "(fst p \<notin> fst ` set (filter corrupt entries)) = (\<not> corrupt p)"
      using p by (cases "corrupt p") (auto simp del: split_paired_All)
  qed
  have pres: "\<forall>(n, x)\<in>set entries. map_of (l_entries ?l) n = Some x"
    using kv_mem_iff [OF assms(1)] by auto
  show ?thesis
    using scan_entries_eq [OF kv_ok_distinct [OF assms(1)] pres, of f 0] assms(2-)
    by (simp add: Open_log_def scan_def fold_kv_del gone del: set_filter)
qed

lemma Open_log_pending:
  assumes "kv_ok entries" "canonical entries"
  shows "map_of (kv_puts (heads (sounds entries)) []) s = map_option headOf (stored entries s)"
proof -
  have d: "distinct (map fst entries)" using assms(1) by (rule kv_ok_distinct)
  then have "distinct (map fst (heads (sounds entries)))"
    using sounds_distinct assms(2) by simp
  then show ?thesis using map_of_sounds [OF assms(2) d] by (simp add: map_of_kv_puts map_of_heads)
qed

lemma Open_log_bytes:
  assumes "kv_ok entries" "canonical entries"
  shows "kv_sum h_Size (kv_puts (heads (sounds entries)) []) = (\<Sum>p\<leftarrow>sounds entries. e_Size (snd p))"
proof -
  have "distinct (map fst (heads (sounds entries)))"
    using sounds_distinct assms kv_ok_distinct by auto
  then show ?thesis by (simp add: kv_sum_puts) (simp add: heads_def case_prod_unfold comp_def)
qed

text \<open>
  Every sound file is pending under its number: what holds of a log that was opened and whose
  operations met no fault, and what a restart rests on.
\<close>

definition listed :: "(64 word \<times> entry_head) list \<Rightarrow> string \<times> wal_file \<Rightarrow> bool" where
  "listed pend de =
     (case sound de of None \<Rightarrow> True | Some (s, e) \<Rightarrow> map_of pend s = Some (headOf e))"

definition wal_synced :: "wal_log \<Rightarrow> bool" where
  "wal_synced l \<longleftrightarrow> canonical (l_entries l) \<and> list_all (listed (l_pending l)) (l_entries l)"

lemma wal_synced_iff:
  assumes "kv_ok (l_entries l)"
  shows "wal_synced l \<longleftrightarrow> canonical (l_entries l) \<and>
     (\<forall>s e. stored (l_entries l) s = Some e \<longrightarrow> map_of (l_pending l) s = Some (headOf e))"
proof (cases "canonical (l_entries l)")
  case True
  have d: "distinct (map fst (l_entries l))" using assms by (rule kv_ok_distinct)
  have "(\<exists>de\<in>set (l_entries l). sound de = Some (s, e)) \<longleftrightarrow> stored (l_entries l) s = Some e" for s e
  proof -
    have "(s, e) \<in> set (sounds (l_entries l)) \<longleftrightarrow> stored (l_entries l) s = Some e"
      by (simp only: distinct_mem_map_of [OF sounds_distinct [OF True d]] map_of_sounds [OF True d])
    then show ?thesis by (simp add: set_sounds)
  qed
  with True show ?thesis
    by (fastforce simp: wal_synced_def listed_def list_all_iff split: option.splits)
qed (simp add: wal_synced_def)

lemma wal_pending_stored:
  assumes "wal_inv l" "wal_synced l"
  shows "map_of (l_pending l) s = map_option headOf (stored (l_entries l) s)"
proof (cases "stored (l_entries l) s")
  case None
  then have "map_of (l_pending l) s = None"
    using wal_invD(5) [OF assms(1), of s]
    by (cases "map_of (l_pending l) s") (auto simp: stored_def)
  with None show ?thesis by simp
next
  case (Some e)
  then show ?thesis using assms wal_synced_iff wal_invD(1) by fastforce
qed

section \<open>Appending, removing, restarting\<close>

lemma kv_set_put: "set (kv_put k v xs) \<subseteq> insert (k, v) (set xs)"
  by (induction k v xs rule: kv_put.induct) auto

lemma canonical_put: "canonical d \<Longrightarrow> canonical (kv_put (seqName s) x d)"
  using kv_set_put [of "seqName s" x d] by (fastforce simp: canonical_def list_all_iff)

lemma canonical_filter: "canonical d \<Longrightarrow> canonical (filter P d)"
  by (auto simp: canonical_def list_all_iff)

lemma stored_put: "stored (kv_put (seqName q) x d) s =
    (if s = q then (case read_file x q of Inl _ \<Rightarrow> None | Inr e \<Rightarrow> Some e) else stored d s)"
  by (auto simp: stored_def)

lemma stored_del: "stored (kv_del (seqName q) d) s = (if s = q then None else stored d s)"
  by (auto simp: stored_def)

lemma Append_ok:
  assumes "\<not> f_write f" "\<not> f_rename f"
  shows "Append f partial now e l =
    (Inr (l_nextSeq l),
     l\<lparr>l_tmp := kv_del (seqName (l_nextSeq l)) (l_tmp l),
       l_entries := kv_put (seqName (l_nextSeq l)) (WalJson (toWire (fill_entry (l_nextSeq l) now e)))
                      (l_entries l),
       l_pending := kv_put (l_nextSeq l) (headOf (fill_entry (l_nextSeq l) now e)) (l_pending l),
       l_pendingBytes := l_pendingBytes l + int (length (e_Content e)),
       l_nextSeq := l_nextSeq l + 1\<rparr>)"
  using assms by (simp add: Append_def Let_def)

lemma Append_fault:
  assumes "f_write f \<or> f_rename f"
  shows "\<exists>t err. Append f partial now e l = (Inl err, l\<lparr>l_tmp := t\<rparr>)"
  using assms by (auto simp: Append_def Let_def)

lemma wal_inv_tmp: "wal_inv (l\<lparr>l_tmp := t\<rparr>) = wal_inv l" "wal_synced (l\<lparr>l_tmp := t\<rparr>) = wal_synced l"
  by (simp_all add: wal_inv_def wal_synced_def)

lemma wal_synced_Append:
  assumes "wal_inv l" "wal_synced l"
  shows "wal_synced (snd (Append f partial now e l))"
proof (cases "f_write f \<or> f_rename f")
  case True
  then show ?thesis using Append_fault [OF True, of partial now e l] assms by (auto simp: wal_inv_tmp)
next
  case False
  have ok: "kv_ok (l_entries l)" using wal_invD(1) [OF assms(1)] .
  then show ?thesis
    using False assms wal_synced_iff [OF ok]
    by (subst wal_synced_iff) (auto simp: Append_ok canonical_put stored_put read_toWire split: if_splits)
qed

text \<open>A restart: the log is closed and the directories it left are opened.\<close>

definition restart :: "wal_log \<Rightarrow> wal_log" where
  "restart l = (case Open_log no_faults (l_entries l) (l_tmp l) (l_corrupted l) of
                  Inl _ \<Rightarrow> l | Inr l' \<Rightarrow> l')"

lemma restart_eq:
  assumes "kv_ok (l_entries l)"
  shows "restart l = \<lparr>l_entries = filter (\<lambda>p. \<not> corrupt p) (l_entries l), l_tmp = l_tmp l,
         l_corrupted = kv_puts (filter corrupt (l_entries l)) (l_corrupted l),
         l_nextSeq = fold (\<lambda>p m. max m (fst p)) (sounds (l_entries l)) 0 + 1,
         l_pending = kv_puts (heads (sounds (l_entries l))) [],
         l_pendingBytes = (\<Sum>p\<leftarrow>sounds (l_entries l). e_Size (snd p))\<rparr>"
  using Open_log_eq [OF assms, of no_faults] by (simp add: restart_def no_faults_def)

lemma restart_same_pending:
  assumes "wal_inv l" "wal_synced l"
  shows "l_pending (restart l) = l_pending l \<and> l_pendingBytes (restart l) = l_pendingBytes l"
proof -
  have ok: "kv_ok (l_entries l)" and c: "canonical (l_entries l)"
    using wal_invD(1) [OF assms(1)] assms(2) by (simp_all add: wal_synced_def)
  have "kv_puts (heads (sounds (l_entries l))) [] = l_pending l"
    using Open_log_pending [OF ok c] wal_pending_stored [OF assms] wal_invD(2) [OF assms(1)]
    by (intro kv_ok_ext) (auto simp: fun_eq_iff)
  with Open_log_bytes [OF ok c] wal_invD(3) [OF assms(1)] show ?thesis
    by (simp add: restart_eq [OF ok])
qed

lemma sounds_keys:
  assumes "kv_ok d" "canonical d"
  shows "s \<in> fst ` set (sounds d) \<longleftrightarrow> stored d s \<noteq> None"
proof -
  have "stored d s \<noteq> None \<longleftrightarrow> s \<in> dom (map_of (sounds d))"
    using map_of_sounds [OF assms(2) kv_ok_distinct [OF assms(1)], of s] by (simp add: dom_def)
  then show ?thesis by (simp add: dom_map_of_conv_image_fst)
qed

lemma fold_max_mem: "fold (\<lambda>p m. max m (fst p)) ps b \<in> insert b (fst ` set ps)" for b :: "64 word"
proof (induction ps arbitrary: b)
  case (Cons p ps)
  from Cons.IH [of "max b (fst p)"] show ?case by (auto simp: max_def split: if_splits)
qed simp

lemma restart_inv:
  assumes "kv_ok (l_entries l)" "canonical (l_entries l)" "stored (l_entries l) (- 1) = None"
  shows "wal_inv (restart l)" "wal_synced (restart l)"
proof -
  let ?d = "l_entries l" and ?m = "fold (\<lambda>p m. max m (fst p)) (sounds (l_entries l)) 0"
  have "?m \<noteq> - 1"
  proof
    assume "?m = - 1"
    with fold_max_mem [of "sounds ?d" 0] have "- 1 \<in> fst ` set (sounds ?d)" by simp
    with sounds_keys [OF assms(1,2)] assms(3) show False by simp
  qed
  then have lt: "?m < ?m + 1" by (rule word_less_Suc)
  have next_gt: "s < ?m + 1" if "stored ?d s \<noteq> None" for s
  proof -
    have "s \<in> fst ` set (sounds ?d)" using that sounds_keys [OF assms(1,2)] by simp
    then have "s \<le> ?m" by (intro fold_max_ge) simp
    then show ?thesis using lt by (rule le_less_trans)
  qed
  have pend: "map_of (l_pending (restart l)) s = map_option headOf (stored ?d s)" for s
    using Open_log_pending [OF assms(1,2)] by (simp add: restart_eq [OF assms(1)])
  have st: "stored (l_entries (restart l)) s = stored ?d s" for s
    using stored_filter_corrupt [OF assms(1)] by (simp add: restart_eq [OF assms(1)])
  have ok: "kv_ok (l_entries (restart l))" using assms(1) by (simp add: restart_eq kv_ok_filter)
  show "wal_inv (restart l)"
  proof (rule wal_invI [OF ok])
    show "kv_ok (l_pending (restart l))" by (simp add: restart_eq [OF assms(1)])
    show "l_pendingBytes (restart l) = kv_sum h_Size (l_pending (restart l))"
      using Open_log_bytes [OF assms(1,2)] by (simp add: restart_eq [OF assms(1)])
    fix seq h assume "map_of (l_pending (restart l)) seq = Some h"
    then obtain e where e: "stored ?d seq = Some e" "h = headOf e" using pend by auto
    then have "stored (l_entries (restart l)) seq = Some e" using st by simp
    then have "indexes (l_entries (restart l)) seq h"
      using e by (auto simp: indexes_iff stored_def split: sum.splits)
    then show "seq < l_nextSeq (restart l) \<and> indexes (l_entries (restart l)) seq h"
      using next_gt e by (simp add: restart_eq [OF assms(1)])
  qed
  show "wal_synced (restart l)"
    using assms(2) pend st by (simp add: wal_synced_iff [OF ok]) (simp add: restart_eq [OF assms(1)] canonical_filter)
qed

section \<open>Sample entries\<close>

definition empty_log :: wal_log where
  "empty_log = \<lparr>l_entries = [], l_tmp = [], l_corrupted = [], l_nextSeq = 1, l_pending = [],
                l_pendingBytes = 0\<rparr>"

definition plain_entry :: "string \<Rightarrow> string \<Rightarrow> string \<Rightarrow> string \<Rightarrow> string \<Rightarrow> wal_entry" where
  "plain_entry ns proj path op content =
     \<lparr>e_Seq = 0, e_Ts = 0, e_Namespace = ns, e_Project = proj, e_Path = path, e_Op = op,
      e_Version = [], e_Size = 0, e_Content = content, e_MoveFrom = [], e_Aux = [], e_UserName = [],
      e_UserEmail = [], e_AgentName = [], e_WorkerID = [], e_AuthorIsUser = False\<rparr>"

definition demo_entry :: wal_entry where
  "demo_entry = plain_entry ''ops'' ''wiki'' ''a.md'' ''write'' ''hello''"

definition demo_entry2 :: wal_entry where
  "demo_entry2 = plain_entry ''ops'' ''wiki'' ''b.md'' ''delete'' []"

section \<open>What the log promises\<close>

lemma kv_put_end: "kv_ok xs \<Longrightarrow> \<forall>x\<in>fst ` set xs. x < k \<Longrightarrow> kv_put k v xs = xs @ [(k, v)]"
  by (induction k v xs rule: kv_put.induct) (auto simp: kv_ok_Cons)

lemma sint_small: "s < 2 ^ 63 \<Longrightarrow> sint (s :: 64 word) = uint s"
proof -
  assume "s < 2 ^ 63"
  then have "uint s < 2 ^ 63" by (simp add: word_less_def)
  moreover have "0 \<le> uint s" by simp
  ultimately have "signed_take_bit 63 (uint s) = uint s"
    by (intro signed_take_bit_int_eq_self) (auto intro: order_trans [of _ 0])
  then show ?thesis by (simp add: sint_uint)
qed

lemma read_file_Seq: "read_file x s = Inr e \<Longrightarrow> e_Seq e = s"
  by (cases x) (auto dest: read_wire_Inr(1))

lemma pending_seq:
  assumes "wal_inv l" "(s, h) \<in> set (l_pending l)"
  shows "h_Seq h = sint s"
proof -
  from assms obtain e where h: "h = headOf e" "stored (l_entries l) s = Some e"
    by (auto simp: wal_inv_def indexes_iff stored_def)
  then obtain x where "read_file x s = Inr e" by (auto simp: stored_map_of split: option.splits sum.splits)
  then have "e_Seq e = s" by (rule read_file_Seq)
  with h show ?thesis by (simp add: headOf_def)
qed

text \<open>While the numbers fit the signed \<open>Seq\<close> of a head, the sort by it is the order of the table.\<close>

lemma ListPending_table:
  assumes "wal_inv l" "l_nextSeq l \<le> 2 ^ 63"
  shows "ListPending l = map snd (l_pending l)"
proof -
  have hs: "h_Seq h = uint s" if "(s, h) \<in> set (l_pending l)" for s h
  proof -
    have "s < l_nextSeq l" using assms(1) that by (auto simp: wal_inv_def)
    then have "s < 2 ^ 63" using assms(2) by (rule less_le_trans)
    then show ?thesis using pending_seq [OF assms(1) that] by (simp add: sint_small)
  qed
  have "sorted_wrt (\<lambda>a b. fst a < fst b) (l_pending l)"
    using wal_invD(2) [OF assms(1)] by (simp add: kv_ok_def sorted_wrt_map)
  then have "sorted_wrt (\<lambda>a b. h_Seq (snd a) \<le> h_Seq (snd b)) (l_pending l)"
    by (rule sorted_wrt_mono_rel [rotated]) (use hs in \<open>auto simp: word_less_def\<close>)
  then have "sorted (map h_Seq (map snd (l_pending l)))" by (simp add: sorted_wrt_map)
  then show ?thesis by (simp add: ListPending_def sort_key_id_if_sorted)
qed

text \<open>
  C10: an appended entry is durable: with no fault the call returns the next number, the log's
  invariant is kept, the file under that number reads back as the entry with number, time, size and
  digest filled in, and every other number reads as before.
\<close>

theorem Append_durable:
  assumes "wal_inv l" "l_nextSeq l \<noteq> - 1" "\<not> f_write f" "\<not> f_rename f"
    and "Append f partial now e l = (r, l')"
  shows "r = Inr (l_nextSeq l) \<and> wal_inv l' \<and>
    ReadByID no_faults (l_nextSeq l) l' = (Inr (fill_entry (l_nextSeq l) now e), l') \<and>
    (\<forall>s. s \<noteq> l_nextSeq l \<longrightarrow> stored (l_entries l') s = stored (l_entries l) s)"
proof -
  have "wal_inv l'" using wal_inv_Append [OF assms(1,2), of f partial now e] assms(5) by simp
  with assms show ?thesis
    by (auto simp: Append_ok ReadByID_def no_faults_def stored_put read_toWire)
qed

text \<open>
  an append that fails, in the staging write or in the rename, leaves no trace: the entry files,
  the pending table, the byte count and the next number are those before the call.
\<close>

theorem Append_error_keeps_log:
  assumes "Append f partial now e l = (Inl err, l')"
  shows "l' = l\<lparr>l_tmp := l_tmp l'\<rparr>"
proof (cases "f_write f \<or> f_rename f")
  case True
  then obtain t err' where "Append f partial now e l = (Inl err', l\<lparr>l_tmp := t\<rparr>)"
    using Append_fault by blast
  with assms show ?thesis by auto
qed (use assms in \<open>simp add: Append_ok\<close>)

lemma Append_error_keeps_log_witness:
  "\<exists>err l'. Append (no_faults\<lparr>f_rename := True\<rparr>) [] 7 demo_entry empty_log = (Inl err, l') \<and> l' = empty_log\<lparr>l_tmp := l_tmp l'\<rparr>"
proof -
  obtain t err where a: "Append (no_faults\<lparr>f_rename := True\<rparr>) [] 7 demo_entry empty_log = (Inl err, empty_log\<lparr>l_tmp := t\<rparr>)"
    using Append_fault [of "no_faults\<lparr>f_rename := True\<rparr>" "[]" 7 demo_entry empty_log] by auto
  from a Append_error_keeps_log [OF a] show ?thesis by blast
qed

text \<open>
  the dispatcher's list is first-in first-out: a successful append puts the new entry's head at
  the end of \<open>ListPending\<close> and changes nothing before it.
\<close>

theorem ListPending_Append:
  assumes "wal_inv l" "l_nextSeq l < 2 ^ 63" "\<not> f_write f" "\<not> f_rename f"
  shows "ListPending (snd (Append f partial now e l)) =
         ListPending l @ [headOf (fill_entry (l_nextSeq l) now e)]"
proof -
  let ?l' = "snd (Append f partial now e l)"
  have ne: "l_nextSeq l \<noteq> - 1" using assms(2) by auto
  have inv: "wal_inv ?l'" using wal_inv_Append [OF assms(1) ne] .
  have le: "l_nextSeq l \<le> 2 ^ 63" "l_nextSeq ?l' \<le> 2 ^ 63"
    using assms(2) inc_le [OF assms(2)] assms(3,4) by (auto simp: Append_ok)
  have lt: "\<forall>s\<in>fst ` set (l_pending l). s < l_nextSeq l" using assms(1) by (auto simp: wal_inv_def)
  show ?thesis
    unfolding ListPending_table [OF assms(1) le(1)] ListPending_table [OF inv le(2)]
    using kv_put_end [OF wal_invD(2) [OF assms(1)] lt] assms(3,4) by (simp add: Append_ok)
qed

lemma empty_log_inv [simp]: "wal_inv empty_log" "wal_synced empty_log"
  by (simp_all add: empty_log_def wal_inv_def wal_synced_def canonical_def)

lemma Append_durable_witness:
  "\<exists>r l'. Append no_faults [] 7 demo_entry empty_log = (r, l') \<and> r = Inr 1 \<and>
     ReadByID no_faults 1 l' = (Inr (fill_entry 1 7 demo_entry), l')"
proof -
  obtain r l' where a: "Append no_faults [] 7 demo_entry empty_log = (r, l')" by fastforce
  have "r = Inr (l_nextSeq empty_log) \<and> wal_inv l' \<and>
      ReadByID no_faults (l_nextSeq empty_log) l' = (Inr (fill_entry (l_nextSeq empty_log) 7 demo_entry), l') \<and>
      (\<forall>s. s \<noteq> l_nextSeq empty_log \<longrightarrow> stored (l_entries l') s = stored (l_entries empty_log) s)"
    by (rule Append_durable [OF _ _ _ _ a]) (simp_all add: no_faults_def, simp add: empty_log_def)
  then show ?thesis using a by (simp add: empty_log_def)
qed

lemma ListPending_Append_witness:
  "ListPending (snd (Append no_faults [] 8 demo_entry2 (snd (Append no_faults [] 7 demo_entry empty_log)))) =
   ListPending (snd (Append no_faults [] 7 demo_entry empty_log)) @ [headOf (fill_entry 2 8 demo_entry2)]"
proof -
  let ?l = "snd (Append no_faults [] 7 demo_entry empty_log)"
  have n: "\<not> f_write no_faults" "\<not> f_rename no_faults" by (simp_all add: no_faults_def)
  have s: "l_nextSeq ?l = 2" by (simp add: Append_ok [OF n]) (simp add: empty_log_def)
  have i: "wal_inv ?l" by (rule wal_inv_Append) (simp, simp add: empty_log_def)
  show ?thesis using ListPending_Append [OF i _ n, of "[]" 8 demo_entry2] s by simp
qed

section \<open>The log as its clients see it\<close>

text \<open>
  The contract the worker pool relies on.  \<open>content l\<close> maps each pending number to its entry;
  reading a pending number returns it and keeps the log good; a removal forgets that number and no
  other, or nothing when the file cannot be removed (\<open>removes\<close> says which); and the list of heads names
  exactly the pending entries.  The log keeps it for any choice of faults but a failing read.
\<close>

locale pending_log =
  fixes good :: "'l \<Rightarrow> bool"
    and content :: "'l \<Rightarrow> 64 word \<Rightarrow> wal_entry option"
    and read :: "64 word \<Rightarrow> 'l \<Rightarrow> (wal_error + wal_entry) \<times> 'l"
    and remove :: "64 word \<Rightarrow> 'l \<Rightarrow> 'l"
    and removes :: bool
    and heads_of :: "'l \<Rightarrow> entry_head list"
  assumes read_pending: "good l \<Longrightarrow> content l s = Some e \<Longrightarrow> read s l = (Inr e, l)"
    and remove_good: "good l \<Longrightarrow> good (remove s l)"
    and remove_content: "good l \<Longrightarrow> content (remove s l) = (if removes then (content l)(s := None) else content l)"
    and heads_iff: "good l \<Longrightarrow> h \<in> set (heads_of l) \<longleftrightarrow> (\<exists>s e. content l s = Some e \<and> h = headOf e)"
    and content_seq: "good l \<Longrightarrow> content l s = Some e \<Longrightarrow> e_Seq e = s"
begin

lemma head_content:
  assumes "good l" "h \<in> set (heads_of l)"
  obtains e where "content l (e_Seq e) = Some e" "h = headOf e"
  using assms heads_iff content_seq by blast

end

definition pending_entry :: "wal_log \<Rightarrow> 64 word \<Rightarrow> wal_entry option" where
  "pending_entry l s = (if map_of (l_pending l) s = None then None else stored (l_entries l) s)"

lemma pending_entry_Some:
  assumes "wal_inv l"
  shows "pending_entry l s = Some e \<longleftrightarrow>
     map_of (l_pending l) s = Some (headOf e) \<and> stored (l_entries l) s = Some e"
  using wal_invD(5) [OF assms, of s]
  by (cases "map_of (l_pending l) s") (auto simp: pending_entry_def stored_def split: sum.splits)

lemma pending_entry_drop: "pending_entry (drop_pending s l) = (pending_entry l)(s := None)"
  by (auto simp: fun_eq_iff pending_entry_def drop_pending_def split: option.split)

interpretation wal: pending_log wal_inv pending_entry
  "ReadByID (f\<lparr>f_read := False\<rparr>)" "\<lambda>s l. snd (Remove g s l)" "\<not> f_remove g" ListPending
  for f g :: wal_faults
proof unfold_locales
  fix l s e h
  assume l: "wal_inv l"
  show "wal_inv (snd (Remove g s l))" using l by (rule wal_inv_Remove)
  show "pending_entry (snd (Remove g s l)) = (if \<not> f_remove g then (pending_entry l)(s := None) else pending_entry l)"
    by (auto simp: fun_eq_iff pending_entry_drop Remove_def stored_map_of stored_del kv_del_absent pending_entry_def)
  show "h \<in> set (ListPending l) \<longleftrightarrow> (\<exists>s e. pending_entry l s = Some e \<and> h = headOf e)"
  proof -
    have "h \<in> set (ListPending l) \<longleftrightarrow> (\<exists>s. map_of (l_pending l) s = Some h)"
      using kv_mem_iff [OF wal_invD(2) [OF l]] by (force simp: ListPending_def image_iff)
    also have "\<dots> \<longleftrightarrow> (\<exists>s e. pending_entry l s = Some e \<and> h = headOf e)"
      using wal_invD(5) [OF l] by (fastforce simp: pending_entry_Some [OF l] stored_def)
    finally show ?thesis .
  qed
  assume e: "pending_entry l s = Some e"
  then have st: "stored (l_entries l) s = Some e" by (simp add: pending_entry_Some [OF l])
  then show "ReadByID (f\<lparr>f_read := False\<rparr>) s l = (Inr e, l)"
    by (simp add: ReadByID_def stored_def split: sum.splits)
  from st show "e_Seq e = s"
    by (auto simp: stored_map_of split: option.splits sum.splits dest: read_file_Seq)
qed

section \<open>Integrity and recovery\<close>

text \<open>
  reading validates: an entry that \<open>readEntryFile\<close> returns has the number of its file name, and
  its content and every auxiliary payload have the recorded size and SHA-256.
\<close>

theorem readEntryFile_integrity:
  assumes "readEntryFile rf d n s = Inr e"
  shows "e_Seq e = s \<and> e_Size e = int (length (e_Content e)) \<and> e_Version e = sha256Hex (e_Content e) \<and>
    list_all (\<lambda>a. a_Size a = int (length (a_Content a)) \<and> a_Version a = sha256Hex (a_Content a)) (e_Aux e)"
proof -
  obtain w where "read_wire w s = Inr e"
    using assms by (auto simp: readEntryFile_def split: if_splits option.splits wal_file.splits)
  then show ?thesis using read_wire_Inr read_wire_aux by (simp add: list_all_iff)
qed

lemma readEntryFile_integrity_witness:
  "e_Seq (fill_entry 3 7 (plain_entry ''a'' ''b'' ''c.md'' ''write'' ''hi'')) = 3"
  using readEntryFile_integrity [of False
      "[(seqName 3, WalJson (toWire (fill_entry 3 7 (plain_entry ''a'' ''b'' ''c.md'' ''write'' ''hi''))))]"
      "seqName 3" 3 "fill_entry 3 7 (plain_entry ''a'' ''b'' ''c.md'' ''write'' ''hi'')"]
  by (simp add: readEntryFile_def read_toWire)

text \<open>
  a restart recovers the log: opening the directories a running log left gives the same pending
  table and the same byte count.
\<close>

theorem restart_recovers:
  assumes "wal_inv l" "wal_synced l"
  shows "l_pending (restart l) = l_pending l \<and> l_pendingBytes (restart l) = l_pendingBytes l \<and>
    ListPending (restart l) = ListPending l"
  using restart_same_pending [OF assms] by (simp add: ListPending_def)

lemma restart_recovers_witness:
  "l_pending (restart (snd (Append no_faults [] 7 demo_entry empty_log))) =
   l_pending (snd (Append no_faults [] 7 demo_entry empty_log))"
proof -
  have "wal_inv (snd (Append no_faults [] 7 demo_entry empty_log))"
    by (rule wal_inv_Append) (simp, simp add: empty_log_def)
  moreover have "wal_synced (snd (Append no_faults [] 7 demo_entry empty_log))"
    by (rule wal_synced_Append) simp_all
  ultimately show ?thesis using restart_recovers by blast
qed

text \<open>
  C11: a crash during an append is all or nothing: whichever call of the append fails, the log that is
  opened afterwards has the pending entries from before, or those and the new one.
\<close>

theorem Append_crash_atomic:
  assumes "wal_inv l" "wal_synced l" "l_nextSeq l \<noteq> - 1"
  shows "l_pending (restart (snd (Append f partial now e l))) \<in>
    {l_pending l, kv_put (l_nextSeq l) (headOf (fill_entry (l_nextSeq l) now e)) (l_pending l)}"
proof -
  have "l_pending (restart (snd (Append f partial now e l))) = l_pending (snd (Append f partial now e l))"
    using restart_same_pending [OF wal_inv_Append [OF assms(1,3)] wal_synced_Append [OF assms(1,2)]] by simp
  then show ?thesis
  proof (cases "f_write f \<or> f_rename f")
    case True
    then obtain err t where "Append f partial now e l = (Inl err, l\<lparr>l_tmp := t\<rparr>)"
      using Append_fault by blast
    with \<open>l_pending (restart _) = _\<close> show ?thesis by simp
  qed (simp add: Append_ok)
qed

lemma Append_crash_atomic_witness:
  "l_pending (restart (snd (Append (no_faults\<lparr>f_rename := True\<rparr>) [] 7 demo_entry empty_log))) \<in>
    {l_pending empty_log,
     kv_put (l_nextSeq empty_log) (headOf (fill_entry (l_nextSeq empty_log) 7 demo_entry)) (l_pending empty_log)}"
  by (rule Append_crash_atomic) (simp, simp, simp add: empty_log_def)

text \<open>
  opening a directory with damaged files sorts every file: a sound one is pending under its
  number, a damaged one is in the quarantine directory and not pending, and no file is lost.
\<close>

theorem restart_sorts_files:
  assumes "kv_ok (l_entries l)" "canonical (l_entries l)" "stored (l_entries l) (- 1) = None"
  shows "wal_inv (restart l) \<and> wal_synced (restart l) \<and>
    map_of (l_pending (restart l)) s = map_option headOf (stored (l_entries l) s) \<and>
    (map_of (l_entries l) n = Some x \<longrightarrow>
       (if corrupt (n, x) then map_of (l_corrupted (restart l)) n = Some x
        else map_of (l_entries (restart l)) n = Some x))"
proof (intro conjI impI)
  show "wal_inv (restart l)" "wal_synced (restart l)" using restart_inv [OF assms] .
  show "map_of (l_pending (restart l)) s = map_option headOf (stored (l_entries l) s)"
    using Open_log_pending [OF assms(1,2)] by (simp add: restart_eq [OF assms(1)])
  assume x: "map_of (l_entries l) n = Some x"
  have ok: "kv_ok (filter P (l_entries l))" for P using assms(1) by (rule kv_ok_filter)
  have mem: "(n, x) \<in> set (l_entries l)" using x by (rule map_of_SomeD)
  then have "P (n, x) \<Longrightarrow> map_of (filter P (l_entries l)) n = Some x" for P
    using kv_mem_iff [OF ok, of n x] by simp
  then show "if corrupt (n, x) then map_of (l_corrupted (restart l)) n = Some x
      else map_of (l_entries (restart l)) n = Some x"
    using map_of_kv_puts [OF kv_ok_distinct [OF ok [of corrupt]], of "l_corrupted l"]
    by (simp add: restart_eq [OF assms(1)] map_add_def)
qed

lemma restart_sorts_files_witness:
  "map_of (l_corrupted (restart (empty_log\<lparr>l_entries := [(seqName 5, WalBytes ''junk'')]\<rparr>))) (seqName 5)
   = Some (WalBytes ''junk'')"
  using restart_sorts_files [of "empty_log\<lparr>l_entries := [(seqName 5, WalBytes ''junk'')]\<rparr>"
      5 "seqName 5" "WalBytes ''junk''"]
  by (simp add: kv_ok_def canonical_def stored_map_of corrupt_def)

text \<open>
  removing a committed entry takes its file and its head away, keeps every other entry, and is
  idempotent; the byte count follows.
\<close>

theorem Remove_entry:
  assumes "wal_inv l" "\<not> f_remove f"
  shows "let (err, l') = Remove f s l in err = None \<and> wal_inv l' \<and> stored (l_entries l') s = None \<and>
    map_of (l_pending l') = (map_of (l_pending l))(s := None) \<and>
    (\<forall>q. q \<noteq> s \<longrightarrow> stored (l_entries l') q = stored (l_entries l) q) \<and> Remove f s l' = (None, l')"
proof -
  have "drop_pending s (l'\<lparr>l_entries := d\<rparr>) = l'\<lparr>l_entries := d\<rparr>"
    if "map_of (l_pending l') s = None" for l' d
    using that by (simp add: drop_pending_def)
  then show ?thesis
    using wal_inv_Remove [OF assms(1), of f s] assms(2)
    by (simp add: Remove_def stored_del kv_del_absent)
qed

lemma Remove_entry_witness:
  "let (err, l') = Remove no_faults 1 (snd (Append no_faults [] 7 demo_entry empty_log))
   in err = None \<and> stored (l_entries l') 1 = None"
proof -
  have "wal_inv (snd (Append no_faults [] 7 demo_entry empty_log))"
    by (rule wal_inv_Append) (simp, simp add: empty_log_def)
  from Remove_entry [OF this, of no_faults 1] show ?thesis by (auto simp: no_faults_def)
qed

text \<open>
  a quarantined file can be lost: the number of a damaged entry is free again after the restart,
  the next append takes it, and if that file is damaged too its quarantine overwrites the first.
\<close>

theorem quarantine_overwrites:
  "let l1 = restart (empty_log\<lparr>l_entries := [(seqName 1, WalBytes x)]\<rparr>);
       (r, l2) = Append no_faults [] now e l1;
       l3 = restart (l2\<lparr>l_entries := kv_put (seqName 1) (WalBytes y) (l_entries l2)\<rparr>)
   in map_of (l_corrupted l1) (seqName 1) = Some (WalBytes x) \<and> r = Inr 1 \<and>
      map_of (l_corrupted l3) (seqName 1) = Some (WalBytes y)"
proof -
  have r1: "restart (empty_log\<lparr>l_entries := [(seqName 1, WalBytes x)]\<rparr>) =
      empty_log\<lparr>l_corrupted := [(seqName 1, WalBytes x)]\<rparr>"
    by (subst restart_eq) (simp_all add: empty_log_def kv_ok_def corrupt_def sound_def heads_def)
  have n: "\<not> f_write no_faults" "\<not> f_rename no_faults" by (simp_all add: no_faults_def)
  show ?thesis unfolding r1
    by (simp add: Append_ok [OF n]) (simp add: empty_log_def restart_eq kv_ok_def corrupt_def)
qed

end
