(* ===== verification/Wal_Worker.thy ===== *)
theory Wal_Worker
  imports Wal
begin

text \<open>
  Package \<open>walworker\<close> (\<open>internal/storage/walworker/walworker.go\<close>): the pool that drains the log.
  \<open>process\<close> is what one worker does with one entry; it reaches the log through the two operations
  it uses, and the injected \<open>CommitFunc\<close> and \<open>QuarantineFunc\<close> are functions on a world of their
  own.  \<open>dispatch\<close> is one pass of the dispatcher; the pool is a step relation over appends, passes,
  the end of an entry, the return of a worker and idle retirement.  Durations are nanoseconds.
\<close>

section \<open>Configuration\<close>

record pool_cfg =
  MinWorkers :: int
  MaxWorkers :: int
  IdleTimeout :: int
  ScanInterval :: int
  BackoffInitial :: int
  BackoffMax :: int
  MaxCommitAttempts :: int

definition applyDefaults :: "pool_cfg \<Rightarrow> pool_cfg" where
  "applyDefaults c =
     (let mn = (if MinWorkers c \<le> 0 then 1 else MinWorkers c);
          mx = (if MaxWorkers c \<le> 0 then 8 else MaxWorkers c);
          mx = (if mx < mn then mn else mx)
      in \<lparr>MinWorkers = mn, MaxWorkers = mx,
          IdleTimeout = (if IdleTimeout c \<le> 0 then 30 * 10 ^ 9 else IdleTimeout c),
          ScanInterval = (if ScanInterval c \<le> 0 then 100 * 10 ^ 6 else ScanInterval c),
          BackoffInitial = (if BackoffInitial c \<le> 0 then 100 * 10 ^ 6 else BackoffInitial c),
          BackoffMax = (if BackoffMax c \<le> 0 then 30 * 10 ^ 9 else BackoffMax c),
          MaxCommitAttempts = (if MaxCommitAttempts c \<le> 0 then 10 else MaxCommitAttempts c)\<rparr>)"

section \<open>One entry\<close>

text \<open>What a \<open>CommitFunc\<close> returns: nil, an error, or an error wrapping \<open>ErrCommitPermanent\<close>.\<close>

datatype commit_result = CommitOk | CommitErr | CommitPermanent

datatype event = EvCommit commit_result | EvDeposit bool | EvRemove | EvWait int

text \<open>The state of a worker's run: the log, the world of the injected functions, the counters and,
  for the statements about order and time, the calls made so far (newest first).\<close>

record ('l, 'w) work_state =
  ws_log :: 'l
  ws_world :: 'w
  ws_commitsTotal :: int
  ws_commitsFailed :: int
  ws_quarantinedTotal :: int
  ws_quarantineFailed :: int
  ws_events :: "event list"

text \<open>How \<open>process\<close> ended.\<close>

datatype outcome = Unreadable | Stopped | Committed | Quarantined | Kept

text \<open>\<open>runQuarantine\<close>: \<open>None\<close> is the nil function.  The deposit comes before the removal.\<close>

definition runQuarantine ::
    "('l \<Rightarrow> 'l) \<Rightarrow> ('w \<Rightarrow> wal_entry \<Rightarrow> bool \<times> 'w) option \<Rightarrow> wal_entry \<Rightarrow>
     ('l, 'w) work_state \<Rightarrow> bool \<times> ('l, 'w) work_state" where
  "runQuarantine remove quar entry st =
     (case quar of
        None \<Rightarrow> (False, st)
      | Some q \<Rightarrow>
          (let (ok, w) = q (ws_world st) entry;
               st1 = st\<lparr>ws_world := w, ws_events := EvDeposit ok # ws_events st\<rparr> in
           if \<not> ok then (False, st1\<lparr>ws_quarantineFailed := ws_quarantineFailed st1 + 1\<rparr>)
           else (True, st1\<lparr>ws_log := remove (ws_log st1), ws_events := EvRemove # ws_events st1,
                           ws_quarantinedTotal := ws_quarantinedTotal st1 + 1\<rparr>)))"

definition next_backoff :: "pool_cfg \<Rightarrow> int \<Rightarrow> int" where
  "next_backoff cfg backoff =
     (if backoff < BackoffMax cfg then min (backoff * 2) (BackoffMax cfg) else backoff)"

text \<open>
  The retry loop.  \<open>stop n\<close> is whether the pool's context is done at the \<open>n\<close>-th time it is looked at:
  before an attempt and in the wait after it.
\<close>

function process_loop ::
    "pool_cfg \<Rightarrow> (nat \<Rightarrow> bool) \<Rightarrow> ('l \<Rightarrow> 'l) \<Rightarrow> ('w \<Rightarrow> wal_entry \<Rightarrow> commit_result \<times> 'w) \<Rightarrow>
     ('w \<Rightarrow> wal_entry \<Rightarrow> bool \<times> 'w) option \<Rightarrow> wal_entry \<Rightarrow> nat \<Rightarrow> int \<Rightarrow>
     ('l, 'w) work_state \<Rightarrow> outcome \<times> ('l, 'w) work_state" where
  "process_loop cfg stop remove commit quar entry attempts backoff st =
     (if stop (2 * attempts) then (Stopped, st)
      else
        (let (r, w) = commit (ws_world st) entry;
             st1 = st\<lparr>ws_world := w, ws_events := EvCommit r # ws_events st\<rparr> in
         if r = CommitOk then
           (Committed, st1\<lparr>ws_log := remove (ws_log st1), ws_events := EvRemove # ws_events st1,
                           ws_commitsTotal := ws_commitsTotal st1 + 1\<rparr>)
         else
           (let st2 = st1\<lparr>ws_commitsFailed := ws_commitsFailed st1 + 1\<rparr> in
            if r = CommitPermanent \<or> int (attempts + 1) \<ge> MaxCommitAttempts cfg then
              (let (removed, st3) = runQuarantine remove quar entry st2 in
               if removed then (Quarantined, st3)
               else (Kept, st3\<lparr>ws_events := EvWait backoff # ws_events st3\<rparr>))
            else if stop (2 * attempts + 1) then (Stopped, st2)
            else process_loop cfg stop remove commit quar entry (attempts + 1)
                   (next_backoff cfg backoff) (st2\<lparr>ws_events := EvWait backoff # ws_events st2\<rparr>))))"
  by pat_completeness auto
termination
  by (relation "measure (\<lambda>(cfg, _, _, _, _, _, attempts, _). nat (MaxCommitAttempts cfg) - attempts)") auto

declare process_loop.simps [simp del]

definition process ::
    "pool_cfg \<Rightarrow> (nat \<Rightarrow> bool) \<Rightarrow> (64 word \<Rightarrow> 'l \<Rightarrow> (wal_error + wal_entry) \<times> 'l) \<Rightarrow>
     (64 word \<Rightarrow> 'l \<Rightarrow> 'l) \<Rightarrow> ('w \<Rightarrow> wal_entry \<Rightarrow> commit_result \<times> 'w) \<Rightarrow>
     ('w \<Rightarrow> wal_entry \<Rightarrow> bool \<times> 'w) option \<Rightarrow> entry_head \<Rightarrow>
     ('l, 'w) work_state \<Rightarrow> outcome \<times> ('l, 'w) work_state" where
  "process cfg stop read remove commit quar head st =
     (let seq = word_of_int (h_Seq head) in
      case read seq (ws_log st) of
        (Inl err, l) \<Rightarrow> (Unreadable, st\<lparr>ws_log := l, ws_commitsFailed := ws_commitsFailed st + 1\<rparr>)
      | (Inr entry, l) \<Rightarrow>
          process_loop cfg stop (remove seq) commit quar entry 0 (BackoffInitial cfg)
            (st\<lparr>ws_log := l\<rparr>))"

section \<open>The dispatcher\<close>

definition head_key :: "entry_head \<Rightarrow> string" where
  "head_key h = h_Namespace h @ CHR ''/'' # h_Project h"

text \<open>\<open>tryAssign\<close>: \<open>ready\<close> workers wait for work; otherwise one is spawned below the maximum, and
  gets the entry unless the pool stops.\<close>

definition tryAssign :: "pool_cfg \<Rightarrow> bool \<Rightarrow> nat \<times> int \<Rightarrow> bool \<times> nat \<times> int" where
  "tryAssign cfg stopped cap =
     (let (ready, active) = cap in
      if 0 < ready then (True, ready - 1, active)
      else if active < MaxWorkers cfg then (\<not> stopped, ready, active + 1)
      else (False, ready, active))"

fun dispatch ::
    "pool_cfg \<Rightarrow> bool \<Rightarrow> entry_head list \<Rightarrow> string list \<Rightarrow> nat \<times> int \<Rightarrow>
     entry_head list \<times> string list \<times> nat \<times> int" where
  "dispatch cfg stopped [] inFlight cap = ([], inFlight, cap)"
| "dispatch cfg stopped (h # hs) inFlight cap =
     (if head_key h \<in> set inFlight then dispatch cfg stopped hs inFlight cap
      else
        (let (ok, cap1) = tryAssign cfg stopped cap in
         if \<not> ok then ([], inFlight, cap1)
         else (let (as, rest) = dispatch cfg stopped hs (head_key h # inFlight) cap1 in (h # as, rest))))"

section \<open>The pool\<close>

text \<open>\<open>p_running\<close> holds the entries the workers have, with whether the work on it is over (removed,
  kept or given up) and only the message to the dispatcher is outstanding.  \<open>p_done\<close> lists the
  entries that were committed, newest first.\<close>

record pool =
  p_pending :: "entry_head list"
  p_running :: "(entry_head \<times> bool) list"
  p_inFlight :: "string list"
  p_active :: int
  p_done :: "entry_head list"

definition NewPool :: "pool_cfg \<Rightarrow> entry_head list \<Rightarrow> pool" where
  "NewPool cfg pend = \<lparr>p_pending = pend, p_running = [], p_inFlight = [],
     p_active = MinWorkers (applyDefaults cfg), p_done = []\<rparr>"

definition retire :: "pool_cfg \<Rightarrow> int \<Rightarrow> int" where
  "retire cfg cur = (if cur \<le> MinWorkers cfg then cur else cur - 1)"

inductive pool_step :: "pool_cfg \<Rightarrow> pool \<Rightarrow> pool \<Rightarrow> bool" for cfg where
  p_append: "\<forall>g\<in>set (p_pending p) \<union> set (p_done p) \<union> fst ` set (p_running p). h_Seq g < h_Seq h \<Longrightarrow>
     pool_step cfg p (p\<lparr>p_pending := p_pending p @ [h]\<rparr>)"
| p_dispatch: "int ready + int (length (p_running p)) \<le> p_active p \<Longrightarrow>
     dispatch cfg stopped (p_pending p) (p_inFlight p) (ready, p_active p) = (as, fl, ready', active') \<Longrightarrow>
     pool_step cfg p (p\<lparr>p_running := map (\<lambda>h. (h, False)) as @ p_running p, p_inFlight := fl,
                        p_active := active'\<rparr>)"
| p_commit: "(h, False) \<in> set (p_running p) \<Longrightarrow>
     pool_step cfg p (p\<lparr>p_pending := filter (\<lambda>g. h_Seq g \<noteq> h_Seq h) (p_pending p),
        p_running := map (\<lambda>(g, b). (g, b \<or> g = h)) (p_running p), p_done := h # p_done p\<rparr>)"
| p_quarantine: "(h, False) \<in> set (p_running p) \<Longrightarrow>
     pool_step cfg p (p\<lparr>p_pending := filter (\<lambda>g. h_Seq g \<noteq> h_Seq h) (p_pending p),
        p_running := map (\<lambda>(g, b). (g, b \<or> g = h)) (p_running p)\<rparr>)"
| p_keep: "(h, False) \<in> set (p_running p) \<Longrightarrow>
     pool_step cfg p (p\<lparr>p_running := map (\<lambda>(g, b). (g, b \<or> g = h)) (p_running p)\<rparr>)"
| p_return: "(h, True) \<in> set (p_running p) \<Longrightarrow>
     pool_step cfg p (p\<lparr>p_running := remove1 (h, True) (p_running p),
        p_inFlight := removeAll (head_key h) (p_inFlight p)\<rparr>)"
| p_retire: "int (length (p_running p)) < p_active p \<Longrightarrow>
     pool_step cfg p (p\<lparr>p_active := retire cfg (p_active p)\<rparr>)"

inductive pool_reach :: "pool_cfg \<Rightarrow> entry_head list \<Rightarrow> pool \<Rightarrow> bool" for cfg pend where
  pr_init: "pool_reach cfg pend (NewPool cfg pend)"
| pr_step: "pool_reach cfg pend p \<Longrightarrow> pool_step (applyDefaults cfg) p p' \<Longrightarrow> pool_reach cfg pend p'"

inductive_cases pool_step_cases: "pool_step cfg p p'"

section \<open>What happens to one entry\<close>

fun removes_backed :: "event list \<Rightarrow> bool" where
  "removes_backed [] \<longleftrightarrow> True"
| "removes_backed (EvRemove # es) \<longleftrightarrow>
     (case es of [] \<Rightarrow> False | e # _ \<Rightarrow> e = EvCommit CommitOk \<or> e = EvDeposit True) \<and> removes_backed es"
| "removes_backed (_ # es) \<longleftrightarrow> removes_backed es"

definition is_commit :: "event \<Rightarrow> bool" where
  "is_commit ev = (case ev of EvCommit _ \<Rightarrow> True | _ \<Rightarrow> False)"

definition wait_of :: "event \<Rightarrow> int" where
  "wait_of ev = (case ev of EvWait d \<Rightarrow> d | _ \<Rightarrow> 0)"

lemma event_measures [simp]:
  "is_commit (EvCommit r)" "\<not> is_commit (EvDeposit b)" "\<not> is_commit EvRemove" "\<not> is_commit (EvWait d)"
  "wait_of (EvCommit r) = 0" "wait_of (EvDeposit b) = 0" "wait_of EvRemove = 0" "wait_of (EvWait d) = d"
  by (simp_all add: is_commit_def wait_of_def)

lemma runQuarantine_cases:
  assumes "runQuarantine rm quar e st = (b, st')"
  shows "ws_log st' = (if b then rm (ws_log st) else ws_log st)"
    and "ws_events st' = (if b then EvRemove # EvDeposit True # ws_events st else ws_events st) \<or>
         \<not> b \<and> ws_events st' = EvDeposit False # ws_events st"
  using assms by (auto simp: runQuarantine_def Let_def split: option.splits prod.splits if_splits)

text \<open>The branches of the loop, one equation each.\<close>

definition attempted :: "commit_result \<Rightarrow> 'w \<Rightarrow> ('l, 'w) work_state \<Rightarrow> ('l, 'w) work_state" where
  "attempted r w st = st\<lparr>ws_world := w, ws_events := EvCommit r # ws_events st\<rparr>"

definition failed :: "commit_result \<Rightarrow> 'w \<Rightarrow> ('l, 'w) work_state \<Rightarrow> ('l, 'w) work_state" where
  "failed r w st = (attempted r w st)\<lparr>ws_commitsFailed := ws_commitsFailed st + 1\<rparr>"

definition waited :: "int \<Rightarrow> ('l, 'w) work_state \<Rightarrow> ('l, 'w) work_state" where
  "waited b st = st\<lparr>ws_events := EvWait b # ws_events st\<rparr>"

lemma state_parts [simp]:
  "ws_log (attempted r w st) = ws_log st" "ws_log (failed r w st) = ws_log st"
  "ws_log (waited b st) = ws_log st" "ws_world (failed r w st) = w" "ws_world (waited b st) = ws_world st"
  "ws_events (attempted r w st) = EvCommit r # ws_events st"
  "ws_events (failed r w st) = EvCommit r # ws_events st"
  "ws_events (waited b st) = EvWait b # ws_events st"
  by (simp_all add: attempted_def failed_def waited_def)

lemma process_loop_branches:
  assumes "commit (ws_world st) e = (r, w)"
  shows "stop (2 * n) \<Longrightarrow> process_loop cfg stop rm commit quar e n b st = (Stopped, st)"
    and "\<not> stop (2 * n) \<Longrightarrow> r = CommitOk \<Longrightarrow> process_loop cfg stop rm commit quar e n b st =
      (Committed, (attempted r w st)\<lparr>ws_log := rm (ws_log st), ws_events := EvRemove # EvCommit r # ws_events st,
                     ws_commitsTotal := ws_commitsTotal st + 1\<rparr>)"
    and "\<not> stop (2 * n) \<Longrightarrow> r \<noteq> CommitOk \<Longrightarrow> r = CommitPermanent \<or> MaxCommitAttempts cfg \<le> int (n + 1) \<Longrightarrow>
      process_loop cfg stop rm commit quar e n b st =
        (let (removed, st') = runQuarantine rm quar e (failed r w st)
         in if removed then (Quarantined, st') else (Kept, waited b st'))"
    and "\<not> stop (2 * n) \<Longrightarrow> r = CommitErr \<Longrightarrow> int (n + 1) < MaxCommitAttempts cfg \<Longrightarrow>
      process_loop cfg stop rm commit quar e n b st =
        (if stop (2 * n + 1) then (Stopped, failed r w st)
         else process_loop cfg stop rm commit quar e (n + 1) (next_backoff cfg b) (waited b (failed r w st)))"
  by (use assms in \<open>simp_all add: process_loop.simps [of cfg stop rm commit quar e n b st]
        attempted_def failed_def waited_def Let_def split: prod.split\<close>)

text \<open>The loop by cases: a branch each, with the induction hypothesis in the last.\<close>

lemma process_loop_rule [consumes 1, case_names stop ok final stop_wait retry]:
  assumes "process_loop cfg stop rm commit quar e n b st = (out, st')"
    and "\<And>n b st. P n b st Stopped st"
    and "\<And>n b st r w. commit (ws_world st) e = (CommitOk, w) \<Longrightarrow> P n b st Committed
          ((attempted CommitOk w st)\<lparr>ws_log := rm (ws_log st),
             ws_events := EvRemove # EvCommit CommitOk # ws_events st, ws_commitsTotal := ws_commitsTotal st + 1\<rparr>)"
    and "\<And>n b st r w removed st'. commit (ws_world st) e = (r, w) \<Longrightarrow> r \<noteq> CommitOk \<Longrightarrow>
          r = CommitPermanent \<or> MaxCommitAttempts cfg \<le> int (n + 1) \<Longrightarrow>
          runQuarantine rm quar e (failed r w st) = (removed, st') \<Longrightarrow>
          P n b st (if removed then Quarantined else Kept) (if removed then st' else waited b st')"
    and "\<And>n b st w. commit (ws_world st) e = (CommitErr, w) \<Longrightarrow> P n b st Stopped (failed CommitErr w st)"
    and "\<And>n b st w out st'. commit (ws_world st) e = (CommitErr, w) \<Longrightarrow> int (n + 1) < MaxCommitAttempts cfg \<Longrightarrow>
          P (n + 1) (next_backoff cfg b) (waited b (failed CommitErr w st)) out st' \<Longrightarrow> P n b st out st'"
  shows "P n b st out st'"
  using assms(1)
proof (induction "nat (MaxCommitAttempts cfg) - n" arbitrary: n b st rule: less_induct)
  case less
  obtain r w where c: "commit (ws_world st) e = (r, w)" by fastforce
  note eqs = process_loop_branches [where commit = commit and st = st and e = e, OF c, of stop n cfg rm quar b]
  obtain rq st3 where q: "runQuarantine rm quar e (failed r w st) = (rq, st3)" by fastforce
  consider "stop (2 * n)" | "\<not> stop (2 * n)" "r = CommitOk"
    | "\<not> stop (2 * n)" "r \<noteq> CommitOk" "r = CommitPermanent \<or> MaxCommitAttempts cfg \<le> int (n + 1)"
    | "\<not> stop (2 * n)" "r = CommitErr" "int (n + 1) < MaxCommitAttempts cfg"
    by (cases r) force+
  then show ?case
  proof cases
    case 1
    then show ?thesis using less.prems eqs(1) assms(2) by simp
  next
    case 2
    then show ?thesis using less.prems eqs(2) assms(3) c by auto
  next
    case 3
    then show ?thesis using less.prems eqs(3) assms(4) [OF c 3(2,3) q] q by (auto split: if_splits)
  next
    case 4
    show ?thesis
    proof (cases "stop (2 * n + 1)")
      case True
      then show ?thesis using less.prems eqs(4) 4 assms(5) c by auto
    next
      case False
      then have "process_loop cfg stop rm commit quar e (n + 1) (next_backoff cfg b)
          (waited b (failed r w st)) = (out, st')"
        using less.prems eqs(4) 4 by simp
      from less.hyps [OF _ this] have "P (n + 1) (next_backoff cfg b) (waited b (failed r w st)) out st'"
        using 4 by auto
      then show ?thesis using assms(6) c 4 by blast
    qed
  qed
qed

lemma process_loop_log:
  "process_loop cfg stop rm commit quar e n b st = (out, st') \<Longrightarrow>
   ws_log st' = (if out = Committed \<or> out = Quarantined then rm (ws_log st) else ws_log st) \<and>
   (removes_backed (ws_events st) \<longrightarrow> removes_backed (ws_events st')) \<and> out \<noteq> Unreadable"
proof (induction rule: process_loop_rule)
  case (final n b st r w removed st')
  then show ?case using runQuarantine_cases [OF final(4)]
    by (cases r) (auto split: if_splits)
qed auto

text \<open>The attempts are at most \<open>MaxCommitAttempts\<close> (one if that is not positive).\<close>

definition commits :: "event list \<Rightarrow> nat" where
  "commits evs = length (filter is_commit evs)"

definition total_wait :: "event list \<Rightarrow> int" where
  "total_wait evs = sum_list (map wait_of evs)"

lemma process_loop_attempts:
  "process_loop cfg stop rm commit quar e n b st = (out, st') \<Longrightarrow>
   commits (ws_events st') \<le> commits (ws_events st) + max 1 (nat (MaxCommitAttempts cfg) - n)"
proof (induction rule: process_loop_rule)
  case (final n b st r w removed st')
  then show ?case using runQuarantine_cases [OF final(4)] by (auto simp: commits_def split: if_splits)
qed (auto simp: commits_def)

context pending_log
begin

text \<open>
  Whatever the commit and quarantine functions do, one run of \<open>process\<close> either leaves the pending
  entries alone or removes exactly the one it was given (if it can be removed), and the latter only after a
  commit that succeeded or a deposit that succeeded.
\<close>

lemma process_conserves:
  assumes "good (ws_log st)" "content (ws_log st) s = Some entry" "h = headOf entry"
    and "process cfg stop read remove commit quar h st = (out, st')"
  shows "good (ws_log st')" "out \<noteq> Unreadable"
    "content (ws_log st') = (if (out = Committed \<or> out = Quarantined) \<and> removes then (content (ws_log st))(s := None)
                             else content (ws_log st))"
    "removes_backed (ws_events st) \<Longrightarrow> removes_backed (ws_events st')"
proof -
  have seq: "word_of_int (h_Seq h) = s"
    using content_seq [OF assms(1,2)] assms(3) by (simp add: headOf_def)
  have "process_loop cfg stop (remove s) commit quar entry 0 (BackoffInitial cfg) st = (out, st')"
    using assms(4) read_pending [OF assms(1,2)] by (simp add: process_def seq)
  from process_loop_log [OF this] show "good (ws_log st')" "out \<noteq> Unreadable"
    "content (ws_log st') = (if (out = Committed \<or> out = Quarantined) \<and> removes then (content (ws_log st))(s := None)
                             else content (ws_log st))"
    "removes_backed (ws_events st) \<Longrightarrow> removes_backed (ws_events st')"
    using remove_good [OF assms(1)] remove_content [OF assms(1)] assms(1) by auto
qed

end

section \<open>A commit that always fails\<close>

text \<open>The waits between the attempts, and the number of attempts.\<close>

fun backoffs :: "pool_cfg \<Rightarrow> nat \<Rightarrow> int \<Rightarrow> int list" where
  "backoffs cfg 0 b = []"
| "backoffs cfg (Suc k) b = b # backoffs cfg k (next_backoff cfg b)"

lemma always_failing:
  assumes "\<And>w. fst (commit w e) = CommitErr" "\<And>i. \<not> stop i" "int n + int k + 1 = MaxCommitAttempts cfg"
  shows "\<exists>st'. process_loop cfg stop rm commit (Some (\<lambda>w _. (True, w))) e n b st = (Quarantined, st') \<and>
     ws_log st' = rm (ws_log st) \<and>
     ws_events st' = EvRemove # EvDeposit True # EvCommit CommitErr #
          rev (concat (map (\<lambda>d. [EvCommit CommitErr, EvWait d]) (backoffs cfg k b))) @ ws_events st"
  using assms(3)
proof (induction k arbitrary: n b st)
  case 0
  obtain w where c: "commit (ws_world st) e = (CommitErr, w)"
    using assms(1) by (metis prod.collapse)
  obtain st' where q: "runQuarantine rm (Some (\<lambda>w _. (True, w))) e (failed CommitErr w st) = (True, st')"
    by (simp add: runQuarantine_def)
  show ?case
    using 0 process_loop_branches(3) [where commit = commit and st = st and e = e, OF c, of stop n cfg
        rm "Some (\<lambda>w _. (True, w))" b] assms(2) [of "2 * n"] runQuarantine_cases [OF q]
    by (simp add: q)
next
  case (Suc k)
  obtain w where c: "commit (ws_world st) e = (CommitErr, w)"
    using assms(1) by (metis prod.collapse)
  have "process_loop cfg stop rm commit (Some (\<lambda>w _. (True, w))) e n b st =
      process_loop cfg stop rm commit (Some (\<lambda>w _. (True, w))) e (n + 1) (next_backoff cfg b)
        (waited b (failed CommitErr w st))"
    using Suc.prems process_loop_branches(4) [where commit = commit and st = st and e = e, OF c, of stop n cfg]
      assms(2) [of "2 * n"] assms(2) [of "2 * n + 1"] by simp
  with Suc.IH [of "n + 1" "next_backoff cfg b" "waited b (failed CommitErr w st)"] Suc.prems
  show ?case by simp
qed

definition zero_cfg :: pool_cfg where
  "zero_cfg = \<lparr>MinWorkers = 0, MaxWorkers = 0, IdleTimeout = 0, ScanInterval = 0, BackoffInitial = 0,
     BackoffMax = 0, MaxCommitAttempts = 0\<rparr>"

lemma default_backoffs:
  "backoffs (applyDefaults zero_cfg) 9 (BackoffInitial (applyDefaults zero_cfg)) =
   map (\<lambda>i. 100000000 * 2 ^ i) [0..<9]"
  by code_simp

section \<open>Dispatching\<close>

lemma dispatch_spec:
  "dispatch cfg stopped hs fl (ready, active) = (as, fl', ready', active') \<Longrightarrow>
   distinct (map head_key as) \<and> (\<forall>a\<in>set as. head_key a \<notin> set fl) \<and>
   fl' = rev (map head_key as) @ fl \<and>
   (\<forall>a\<in>set as. find (\<lambda>h. head_key h = head_key a) hs = Some a) \<and>
   active \<le> active' \<and> active' \<le> max active (MaxWorkers cfg) \<and>
   int (length as) \<le> int ready + (active' - active)"
proof (induction hs arbitrary: fl ready active as fl' ready' active')
  case (Cons h hs)
  show ?case
  proof (cases "head_key h \<in> set fl")
    case True
    with Cons.prems have "dispatch cfg stopped hs fl (ready, active) = (as, fl', ready', active')" by simp
    from Cons.IH [OF this] True show ?thesis by fastforce
  next
    case False
    obtain ok r1 a1 where t: "tryAssign cfg stopped (ready, active) = (ok, r1, a1)"
      by (cases "tryAssign cfg stopped (ready, active)") auto
    show ?thesis
    proof (cases ok)
      case True
      obtain bs fl1 r2 a2 where d: "dispatch cfg stopped hs (head_key h # fl) (r1, a1) = (bs, fl1, r2, a2)"
        by (metis prod_cases4)
      have out: "as = h # bs" "fl' = fl1" "active' = a2" using Cons.prems False t True d by auto
      have cap: "active \<le> a1" "a1 \<le> max active (MaxWorkers cfg)" "int r1 + 1 \<le> int ready + (a1 - active)"
        using t True by (auto simp: tryAssign_def Let_def split: if_splits)
      from Cons.IH [OF d] have ih: "distinct (map head_key bs)"
        "\<forall>a\<in>set bs. head_key a \<notin> set (head_key h # fl)" "fl1 = rev (map head_key bs) @ head_key h # fl"
        "\<forall>a\<in>set bs. find (\<lambda>h. head_key h = head_key a) hs = Some a" "a1 \<le> a2"
        "a2 \<le> max a1 (MaxWorkers cfg)" "int (length bs) \<le> int r1 + (a2 - a1)" by blast+
      have "distinct (map head_key as)" "\<forall>a\<in>set as. head_key a \<notin> set fl"
        "fl' = rev (map head_key as) @ fl" using ih out False by auto
      moreover have "\<forall>a\<in>set as. find (\<lambda>h. head_key h = head_key a) (h # hs) = Some a"
        using ih out by auto
      ultimately show ?thesis using ih cap out by auto
    next
      case False
      with Cons.prems \<open>head_key h \<notin> set fl\<close> t show ?thesis
        by (auto simp: tryAssign_def Let_def split: if_splits)
    qed
  qed
qed auto

text \<open>One pass never gives a project two entries, and gives each the oldest it has pending.\<close>

lemma find_SomeD: "find P xs = Some x \<Longrightarrow> x \<in> set xs \<and> P x"
  by (induction xs) (auto split: if_splits)

lemma find_least:
  "sorted_wrt (\<lambda>a b. h_Seq a < h_Seq b) hs \<Longrightarrow> find P hs = Some a \<Longrightarrow> g \<in> set hs \<Longrightarrow> P g \<Longrightarrow> h_Seq a \<le> h_Seq g"
  by (induction hs) (auto split: if_splits dest: find_SomeD)

section \<open>The invariant of the pool\<close>

definition pool_inv :: "pool_cfg \<Rightarrow> pool \<Rightarrow> bool" where
  "pool_inv cfg p \<longleftrightarrow>
     sorted_wrt (\<lambda>a b. h_Seq a < h_Seq b) (p_pending p) \<and>
     distinct (map (\<lambda>r. head_key (fst r)) (p_running p)) \<and>
     set (p_inFlight p) = (\<lambda>r. head_key (fst r)) ` set (p_running p) \<and>
     (\<forall>h. (h, False) \<in> set (p_running p) \<longrightarrow> h \<in> set (p_pending p) \<and>
        (\<forall>g\<in>set (p_pending p). head_key g = head_key h \<longrightarrow> h_Seq h \<le> h_Seq g)) \<and>
     (\<forall>d\<in>set (p_done p). \<forall>g\<in>set (p_pending p). head_key d = head_key g \<longrightarrow> h_Seq d < h_Seq g) \<and>
     sorted_wrt (\<lambda>a b. head_key a = head_key b \<longrightarrow> h_Seq b < h_Seq a) (p_done p) \<and>
     MinWorkers cfg \<le> p_active p \<and> p_active p \<le> MaxWorkers cfg \<and>
     int (length (p_running p)) \<le> p_active p"

lemma applyDefaults_bounds:
  "1 \<le> MinWorkers (applyDefaults c)" "MinWorkers (applyDefaults c) \<le> MaxWorkers (applyDefaults c)"
  "1 \<le> MaxCommitAttempts (applyDefaults c)" "1 \<le> BackoffInitial (applyDefaults c)"
  by (auto simp: applyDefaults_def Let_def)

lemma pool_inv_init:
  "sorted_wrt (\<lambda>a b. h_Seq a < h_Seq b) pend \<Longrightarrow> pool_inv (applyDefaults cfg) (NewPool cfg pend)"
  using applyDefaults_bounds [of cfg] by (simp add: pool_inv_def NewPool_def)

lemma sorted_filter_seq:
  "sorted_wrt R xs \<Longrightarrow> sorted_wrt R (filter P xs)"
  by (induction xs) auto

lemma running_key_unique:
  assumes "pool_inv cfg p" "r \<in> set (p_running p)" "q \<in> set (p_running p)" "head_key (fst r) = head_key (fst q)"
  shows "r = q"
  using assms by (auto simp: pool_inv_def distinct_map inj_on_def)

text \<open>Ending the work on an entry: what commit, quarantine and keep share.\<close>

lemma pool_inv_finish:
  assumes inv: "pool_inv cfg p" and h: "(h, False) \<in> set (p_running p)"
    and p': "p_running p' = map (\<lambda>(g, b). (g, b \<or> g = h)) (p_running p)" "p_inFlight p' = p_inFlight p"
      "p_active p' = p_active p" "p_done p' = p_done p \<or> p_done p' = h # p_done p"
    and pend: "p_pending p' = filter (\<lambda>g. h_Seq g \<noteq> h_Seq h) (p_pending p) \<or>
        p_pending p' = p_pending p \<and> p_done p' = p_done p"
  shows "pool_inv cfg p'"
proof -
  have sub: "set (p_pending p') \<subseteq> set (p_pending p)" using pend by auto
  have keys: "(\<lambda>r. head_key (fst r)) ` set (p_running p') = (\<lambda>r. head_key (fst r)) ` set (p_running p)"
    "map (\<lambda>r. head_key (fst r)) (p_running p') = map (\<lambda>r. head_key (fst r)) (p_running p)"
    using p'(1) by (auto simp: case_prod_unfold image_image comp_def)
  have least: "h \<in> set (p_pending p)" "\<And>g. g \<in> set (p_pending p) \<Longrightarrow> head_key g = head_key h \<Longrightarrow> h_Seq h \<le> h_Seq g"
    using inv h by (auto simp: pool_inv_def)
  have run: "g \<in> set (p_pending p') \<and> (\<forall>k\<in>set (p_pending p'). head_key k = head_key g \<longrightarrow> h_Seq g \<le> h_Seq k)"
    if g: "(g, False) \<in> set (p_running p')" for g
  proof -
    from g p'(1) have "(g, False) \<in> (\<lambda>(x, b). (x, b \<or> x = h)) ` set (p_running p)" by simp
    then obtain x b where "(x, b) \<in> set (p_running p)" "(g, False) = (x, b \<or> x = h)"
      by (metis (no_types, lifting) case_prod_conv imageE old.prod.exhaust)
    then have g': "(g, False) \<in> set (p_running p)" "g \<noteq> h" by simp_all
    then have gp: "g \<in> set (p_pending p)" "\<And>k. k \<in> set (p_pending p) \<Longrightarrow> head_key k = head_key g \<Longrightarrow> h_Seq g \<le> h_Seq k"
      using inv by (auto simp: pool_inv_def)
    have "h_Seq g \<noteq> h_Seq h"
    proof
      assume "h_Seq g = h_Seq h"
      moreover have "sorted_wrt (<) (map h_Seq (p_pending p))"
        using inv by (simp add: pool_inv_def sorted_wrt_map)
      then have "distinct (map h_Seq (p_pending p))" by (simp add: strict_sorted_iff)
      ultimately have "g = h" using gp(1) least(1) by (auto simp: distinct_map inj_on_def)
      then show False using g'(2) by simp
    qed
    then show ?thesis using gp sub pend by auto
  qed
  have old: "\<forall>d\<in>set (p_done p). \<forall>g\<in>set (p_pending p'). head_key d = head_key g \<longrightarrow> h_Seq d < h_Seq g"
    using inv sub by (auto simp: pool_inv_def)
  have new: "\<forall>g\<in>set (p_pending p'). head_key h = head_key g \<longrightarrow> h_Seq h < h_Seq g"
    if "p_done p' = h # p_done p"
  proof -
    have "p_pending p' = filter (\<lambda>g. h_Seq g \<noteq> h_Seq h) (p_pending p)" using pend that by auto
    then show ?thesis using least(2) by (fastforce simp: less_le)
  qed
  have srt: "sorted_wrt (\<lambda>a b. h_Seq a < h_Seq b) (p_pending p')"
    using pend inv by (auto simp: pool_inv_def sorted_filter_seq)
  have dn: "sorted_wrt (\<lambda>a b. head_key a = head_key b \<longrightarrow> h_Seq b < h_Seq a) (p_done p')"
    using p'(4) inv least(1) by (auto simp: pool_inv_def)
  show ?thesis
    unfolding pool_inv_def keys p'(2,3)
    using inv run old new srt dn p'(1,4) by (auto simp: pool_inv_def)
qed

lemma pool_inv_dispatch:
  assumes inv: "pool_inv cfg p"
    and cap: "int ready + int (length (p_running p)) \<le> p_active p"
    and d: "dispatch cfg stopped (p_pending p) (p_inFlight p) (ready, p_active p) = (as, fl, ready', active')"
  shows "pool_inv cfg (p\<lparr>p_running := map (\<lambda>h. (h, False)) as @ p_running p, p_inFlight := fl,
                         p_active := active'\<rparr>)"
proof -
  note ds = dispatch_spec [OF d]
  have first: "a \<in> set (p_pending p) \<and> (\<forall>g\<in>set (p_pending p). head_key g = head_key a \<longrightarrow> h_Seq a \<le> h_Seq g)"
    if "a \<in> set as" for a
  proof -
    have f: "find (\<lambda>h. head_key h = head_key a) (p_pending p) = Some a" using ds that by blast
    have "sorted_wrt (\<lambda>a b. h_Seq a < h_Seq b) (p_pending p)" using inv by (simp add: pool_inv_def)
    from find_least [OF this f] find_SomeD [OF f] show ?thesis by blast
  qed
  have "p_active p \<le> MaxWorkers cfg" "MinWorkers cfg \<le> p_active p" using inv by (simp_all add: pool_inv_def)
  with ds have bounds: "MinWorkers cfg \<le> active'" "active' \<le> MaxWorkers cfg" by auto
  have "distinct (map head_key as @ map (\<lambda>r. head_key (fst r)) (p_running p))"
    using ds inv by (auto simp: pool_inv_def)
  moreover have "set fl = head_key ` set as \<union> (\<lambda>r. head_key (fst r)) ` set (p_running p)"
    using ds inv by (simp add: pool_inv_def)
  ultimately show ?thesis
    using inv first bounds ds cap unfolding pool_inv_def
    by (auto simp: comp_def image_Un image_image)
qed

lemma pool_inv_step:
  assumes "pool_step cfg p p'" "pool_inv cfg p"
  shows "pool_inv cfg p'"
  using assms(1)
proof cases
  case (p_append h)
  have old: "h_Seq g < h_Seq h" if "g \<in> set (p_pending p) \<union> set (p_done p) \<union> fst ` set (p_running p)" for g
    using p_append(2) that by blast
  have "h_Seq g \<le> h_Seq h" if "(g, False) \<in> set (p_running p)" for g
    using old [of g] that by force
  then show ?thesis using assms(2) old unfolding p_append(1) pool_inv_def
    by (auto simp: sorted_wrt_append)
next
  case (p_dispatch ready stopped as fl ready' active')
  show ?thesis unfolding p_dispatch(1) using pool_inv_dispatch [OF assms(2) p_dispatch(2,3)] .
next
  case (p_commit h)
  show ?thesis unfolding p_commit(1) by (rule pool_inv_finish [OF assms(2) p_commit(2)]) simp_all
next
  case (p_quarantine h)
  show ?thesis unfolding p_quarantine(1) by (rule pool_inv_finish [OF assms(2) p_quarantine(2)]) simp_all
next
  case (p_keep h)
  show ?thesis unfolding p_keep(1) by (rule pool_inv_finish [OF assms(2) p_keep(2)]) simp_all
next
  case (p_return h)
  let ?k = "\<lambda>r. head_key (fst r)"
  have dist: "distinct (map ?k (p_running p))" using assms(2) by (simp add: pool_inv_def)
  then have d: "distinct (p_running p)" by (simp add: distinct_map)
  have sub: "set (remove1 (h, True) (p_running p)) = set (p_running p) - {(h, True)}"
    using d by (rule set_remove1_eq)
  have "?k ` (set (p_running p) - {(h, True)}) = ?k ` set (p_running p) - {head_key h}"
    using running_key_unique [OF assms(2) _ p_return(2)] p_return(2) by fastforce
  moreover have "distinct (map ?k (remove1 (h, True) (p_running p)))"
    using dist by (simp add: distinct_map inj_on_def sub)
  moreover have "int (length (remove1 (h, True) (p_running p))) \<le> p_active p"
    using assms(2) by (auto simp: pool_inv_def length_remove1)
  ultimately show ?thesis using assms(2) unfolding p_return(1) pool_inv_def
    by (auto simp: sub)
next
  case p_retire
  then show ?thesis using assms(2) by (auto simp: pool_inv_def retire_def)
qed

lemma pool_inv_reach:
  assumes "pool_reach cfg pend p" "sorted_wrt (\<lambda>a b. h_Seq a < h_Seq b) pend"
  shows "pool_inv (applyDefaults cfg) p"
  using assms by (induction rule: pool_reach.induct) (auto intro: pool_inv_init pool_inv_step)

section \<open>What the pool promises\<close>

text \<open>
  C12: no entry is lost: on a good log, whatever the injected commit and quarantine do, whenever the pool
  stops and whether or not the removal of the entry's file fails, a run of \<open>process\<close> that can read the
  file leaves the pending entries as they are, or removes exactly its own and that right after a commit
  or a deposit that succeeded.  (When the file cannot be read the entry is dropped, see
  \<open>process_read_error_drops\<close>.)
\<close>

theorem process_loses_nothing:
  assumes "wal_inv (ws_log st)" "pending_entry (ws_log st) s = Some entry" "\<not> f_read f"
    and "process cfg stop (ReadByID f) (\<lambda>s l. snd (Remove g s l)) commit quar
           (headOf entry) (st\<lparr>ws_events := []\<rparr>) = (out, st')"
  shows "wal_inv (ws_log st') \<and> removes_backed (ws_events st') \<and> out \<noteq> Unreadable \<and>
    pending_entry (ws_log st') = (if out \<in> {Committed, Quarantined} \<and> \<not> f_remove g
                                  then (pending_entry (ws_log st))(s := None) else pending_entry (ws_log st))"
proof -
  have "f\<lparr>f_read := False\<rparr> = f" using assms(3) by simp
  from wal.process_conserves [OF _ _ refl, of _ s, where f = f, unfolded this, OF _ _ assms(4)] assms(1,2)
  show ?thesis by simp
qed

text \<open>
  Not what is meant: an entry whose file cannot be read just then is taken for a damaged one.  It is moved
  to the directory of damaged files and is no longer pending, with no commit, no deposit and no retry.
\<close>

theorem process_read_error_drops:
  assumes "wal_inv (ws_log st)" "pending_entry (ws_log st) s = Some entry" "f_read f"
  shows "\<exists>l. process cfg stop (ReadByID f) remove commit quar (headOf entry) st =
      (Unreadable, st\<lparr>ws_log := l, ws_commitsFailed := ws_commitsFailed st + 1\<rparr>) \<and>
    pending_entry l = (pending_entry (ws_log st))(s := None)"
proof -
  have s: "word_of_int (h_Seq (headOf entry)) = s"
    using wal.content_seq [OF assms(1,2)] by (simp add: headOf_def)
  obtain e where "readEntryFile True (l_entries (ws_log st)) (seqName s) s = Inl e"
    by (auto simp: readEntryFile_def split: option.split)
  moreover have "(pending_entry (quarantine f (seqName s) l))(s := None) = (pending_entry l)(s := None)" for l
    by (auto simp: fun_eq_iff quarantine_def pending_entry_def stored_del split: option.split)
  ultimately show ?thesis using assms(3)
    by (intro exI [of _ "drop_pending s (quarantine f (seqName s) (ws_log st))"])
      (simp add: process_def s ReadByID_def pending_entry_drop)
qed

text \<open>
  C14: an entry is tried at most \<open>MaxCommitAttempts\<close> times in one run, for every configuration.
\<close>

theorem process_attempts_bounded:
  assumes "process (applyDefaults cfg) stop read remove commit quar h (st\<lparr>ws_events := []\<rparr>) = (out, st')"
  shows "int (commits (ws_events st')) \<le> MaxCommitAttempts (applyDefaults cfg)"
proof -
  have nil: "commits (ws_events (st\<lparr>ws_log := l, ws_events := []\<rparr>)) = 0" for l by (simp add: commits_def)
  show ?thesis
    using assms applyDefaults_bounds(3) [of cfg] process_loop_attempts [where cfg = "applyDefaults cfg" and n = 0
        and st' = st' and out = out] nil
    by (fastforce simp: process_def Let_def commits_def split: prod.splits sum.splits)
qed

text \<open>
  with the default configuration, an entry whose commit keeps failing is quarantined after exactly
  10 attempts and 51.1 seconds of waiting, and removed from the log after its deposit.
\<close>

theorem process_default_quarantine:
  assumes "\<And>w. fst (commit w entry) = CommitErr" "\<And>i. \<not> stop i"
    and "read (word_of_int (h_Seq h)) (ws_log st) = (Inr entry, ws_log st)"
  shows "\<exists>st'. process (applyDefaults zero_cfg) stop read remove commit (Some (\<lambda>w _. (True, w))) h
       (st\<lparr>ws_events := []\<rparr>) = (Quarantined, st') \<and>
     ws_log st' = remove (word_of_int (h_Seq h)) (ws_log st) \<and>
     commits (ws_events st') = 10 \<and> total_wait (ws_events st') = 51100 * 10 ^ 6"
proof -
  let ?c = "applyDefaults zero_cfg"
  have M: "int 0 + int 9 + 1 = MaxCommitAttempts ?c" by (simp add: applyDefaults_def zero_cfg_def Let_def)
  obtain st' where st': "process_loop ?c stop (remove (word_of_int (h_Seq h))) commit (Some (\<lambda>w _. (True, w)))
      entry 0 (BackoffInitial ?c) (st\<lparr>ws_events := []\<rparr>) = (Quarantined, st')"
    "ws_log st' = remove (word_of_int (h_Seq h)) (ws_log st)"
    "ws_events st' = EvRemove # EvDeposit True # EvCommit CommitErr #
       rev (concat (map (\<lambda>d. [EvCommit CommitErr, EvWait d]) (backoffs ?c 9 (BackoffInitial ?c))))"
    using always_failing [where commit = commit and e = entry and stop = stop and n = 0 and k = 9
        and cfg = ?c, OF assms(1,2) M, of "remove (word_of_int (h_Seq h))" "BackoffInitial ?c"
        "st\<lparr>ws_events := []\<rparr>"] by auto
  moreover have "commits (ws_events st') = 10 \<and> total_wait (ws_events st') = 51100 * 10 ^ 6"
    unfolding st'(3) default_backoffs by (simp add: commits_def total_wait_def upt_rec)
  ultimately show ?thesis using assms(3) by (simp add: process_def)
qed

text \<open>
  C13: in every reachable state of the pool no project has two entries in the hands of workers, and
  the number of busy workers is within the configured maximum.
\<close>

theorem pool_one_per_project:
  assumes "pool_reach cfg pend p" "sorted_wrt (\<lambda>a b. h_Seq a < h_Seq b) pend"
  shows "distinct (map (\<lambda>r. head_key (fst r)) (p_running p)) \<and>
    int (length (p_running p)) \<le> MaxWorkers (applyDefaults cfg) \<and>
    MinWorkers (applyDefaults cfg) \<le> p_active p \<and> p_active p \<le> MaxWorkers (applyDefaults cfg)"
  using pool_inv_reach [OF assms] by (simp add: pool_inv_def)

text \<open>
  the commits of one project happen in the order of the log: in every reachable state the
  committed entries of a project, newest first, have falling numbers, and each is older than
  everything the project still has pending.
\<close>

theorem pool_commits_in_order:
  assumes "pool_reach cfg pend p" "sorted_wrt (\<lambda>a b. h_Seq a < h_Seq b) pend"
  shows "sorted_wrt (\<lambda>a b. head_key a = head_key b \<longrightarrow> h_Seq b < h_Seq a) (p_done p) \<and>
    (\<forall>d\<in>set (p_done p). \<forall>g\<in>set (p_pending p). head_key d = head_key g \<longrightarrow> h_Seq d < h_Seq g)"
  using pool_inv_reach [OF assms] by (simp add: pool_inv_def)

text \<open>
  one pass of the dispatcher assigns each idle project its oldest pending entry, never a project
  that is in flight, and marks exactly the assigned ones.
\<close>

theorem dispatch_oldest_first:
  assumes "dispatch cfg stopped hs fl (ready, active) = (as, fl', ready', active')"
  shows "distinct (map head_key as) \<and> set (map head_key as) \<inter> set fl = {} \<and>
    fl' = rev (map head_key as) @ fl \<and>
    list_all (\<lambda>a. find (\<lambda>h. head_key h = head_key a) hs = Some a) as"
  using dispatch_spec [OF assms] by (auto simp: list_all_iff)

section \<open>The hypotheses at work\<close>

definition demo_head :: "int \<Rightarrow> string \<Rightarrow> entry_head" where
  "demo_head n proj = \<lparr>h_Seq = n, h_Size = 0, h_Ts = 0, h_Namespace = ''ops'', h_Project = proj,
     h_Path = ''a.md'', h_Op = ''write'', h_Version = []\<rparr>"

definition demo_state :: "'l \<Rightarrow> ('l, unit) work_state" where
  "demo_state l = \<lparr>ws_log = l, ws_world = (), ws_commitsTotal = 0, ws_commitsFailed = 0,
     ws_quarantinedTotal = 0, ws_quarantineFailed = 0, ws_events = []\<rparr>"

theorem process_loses_nothing_witness:
  "\<exists>l entry out st'. pending_entry l 1 = Some entry \<and>
     process zero_cfg (\<lambda>_. False) (ReadByID no_faults) (\<lambda>s l. snd (Remove no_faults s l))
       (\<lambda>w e. (CommitOk, w)) None (headOf entry) (demo_state l\<lparr>ws_events := []\<rparr>) = (out, st') \<and>
     out \<noteq> Unreadable \<and> removes_backed (ws_events st')"
proof -
  let ?l = "snd (Append no_faults [] 7 demo_entry empty_log)"
  let ?e = "fill_entry 1 7 demo_entry"
  have n: "\<not> f_write no_faults" "\<not> f_rename no_faults" by (simp_all add: no_faults_def)
  have inv: "wal_inv ?l" by (rule wal_inv_Append) (simp, simp add: empty_log_def)
  have one: "l_nextSeq empty_log = 1" by (simp add: empty_log_def)
  have pe: "pending_entry ?l 1 = Some ?e"
    by (simp add: Append_ok [OF n] one pending_entry_def stored_put read_toWire)
  obtain out st' where p: "process zero_cfg (\<lambda>_. False) (ReadByID no_faults) (\<lambda>s l. snd (Remove no_faults s l))
       (\<lambda>w e. (CommitOk, w)) None (headOf ?e) (demo_state ?l\<lparr>ws_events := []\<rparr>) = (out, st')" by fastforce
  have "wal_inv (ws_log (demo_state ?l))" "pending_entry (ws_log (demo_state ?l)) 1 = Some ?e"
    using inv pe by (simp_all add: demo_state_def)
  from process_loses_nothing [OF this _ p] pe p show ?thesis by (auto simp: no_faults_def)
qed

theorem process_read_error_drops_witness:
  "\<exists>l out st'. process zero_cfg (\<lambda>_. False) (ReadByID (no_faults\<lparr>f_read := True\<rparr>)) (\<lambda>s l. l)
       (\<lambda>w e. (CommitOk, w)) None (headOf (fill_entry 1 7 demo_entry)) (demo_state l) = (out, st') \<and>
     pending_entry l 1 = Some (fill_entry 1 7 demo_entry) \<and> out = Unreadable \<and>
     ws_events st' = [] \<and> pending_entry (ws_log st') 1 = None"
proof -
  let ?l = "snd (Append no_faults [] 7 demo_entry empty_log)"
  let ?e = "fill_entry 1 7 demo_entry"
  have n: "\<not> f_write no_faults" "\<not> f_rename no_faults" by (simp_all add: no_faults_def)
  have one: "l_nextSeq empty_log = 1" by (simp add: empty_log_def)
  have inv: "wal_inv ?l" by (rule wal_inv_Append) (simp, simp add: empty_log_def)
  have pe: "pending_entry ?l 1 = Some ?e"
    by (simp add: Append_ok [OF n] one pending_entry_def stored_put read_toWire)
  have "wal_inv (ws_log (demo_state ?l))" "pending_entry (ws_log (demo_state ?l)) 1 = Some ?e"
    using inv pe by (simp_all add: demo_state_def)
  from process_read_error_drops [OF this, of "no_faults\<lparr>f_read := True\<rparr>" zero_cfg "\<lambda>_. False" "\<lambda>s l. l"
      "\<lambda>w e. (CommitOk, w)" None]
  obtain l' where l': "process zero_cfg (\<lambda>_. False) (ReadByID (no_faults\<lparr>f_read := True\<rparr>)) (\<lambda>s l. l)
       (\<lambda>w e. (CommitOk, w)) None (headOf ?e) (demo_state ?l) =
      (Unreadable, demo_state ?l\<lparr>ws_log := l', ws_commitsFailed := ws_commitsFailed (demo_state ?l) + 1\<rparr>)"
    "pending_entry l' = (pending_entry (ws_log (demo_state ?l)))(1 := None)" by auto
  show ?thesis
    by (rule exI [of _ ?l], rule exI, rule exI, intro conjI, rule l'(1)) (use pe l'(2) in \<open>simp_all add: demo_state_def\<close>)
qed

lemma process_attempts_bounded_witness:
  "\<exists>out st'. process (applyDefaults zero_cfg) (\<lambda>_. False) (\<lambda>s l. (Inr demo_entry, l)) (\<lambda>s l. l)
       (\<lambda>w e. (CommitErr, w)) None (demo_head 1 ''wiki'') (demo_state ()\<lparr>ws_events := []\<rparr>) = (out, st') \<and>
     int (commits (ws_events st')) \<le> MaxCommitAttempts (applyDefaults zero_cfg)"
proof -
  obtain out st' where p: "process (applyDefaults zero_cfg) (\<lambda>_. False) (\<lambda>s l. (Inr demo_entry, l)) (\<lambda>s l. l)
       (\<lambda>w e. (CommitErr, w)) None (demo_head 1 ''wiki'') (demo_state ()\<lparr>ws_events := []\<rparr>) = (out, st')"
    by fastforce
  with process_attempts_bounded [OF p] show ?thesis by blast
qed

lemma process_default_quarantine_witness:
  "\<exists>st'. process (applyDefaults zero_cfg) (\<lambda>_. False) (\<lambda>s l. (Inr demo_entry, l)) (\<lambda>s l. l)
       (\<lambda>w e. (CommitErr, w)) (Some (\<lambda>w _. (True, w))) (demo_head 1 ''wiki'')
       (demo_state ()\<lparr>ws_events := []\<rparr>) = (Quarantined, st') \<and> commits (ws_events st') = 10"
proof -
  have "\<exists>st'. process (applyDefaults zero_cfg) (\<lambda>_. False) (\<lambda>s l. (Inr demo_entry, l)) (\<lambda>s l. l)
       (\<lambda>w e. (CommitErr, w)) (Some (\<lambda>w _. (True, w))) (demo_head 1 ''wiki'')
       (demo_state ()\<lparr>ws_events := []\<rparr>) = (Quarantined, st') \<and>
     ws_log st' = (\<lambda>s l. l) (word_of_int (h_Seq (demo_head 1 ''wiki'')) :: 64 word) (ws_log (demo_state ())) \<and>
     commits (ws_events st') = 10 \<and> total_wait (ws_events st') = 51100 * 10 ^ 6"
    by (rule process_default_quarantine [where entry = demo_entry]) simp_all
  then show ?thesis by blast
qed

lemma pool_one_per_project_witness:
  "distinct (map (\<lambda>r. head_key (fst r)) (p_running (NewPool zero_cfg [demo_head 1 ''wiki'', demo_head 2 ''wiki'']))) \<and>
   p_active (NewPool zero_cfg [demo_head 1 ''wiki'', demo_head 2 ''wiki'']) \<le> MaxWorkers (applyDefaults zero_cfg)"
  using pool_one_per_project [OF pr_init [of zero_cfg "[demo_head 1 ''wiki'', demo_head 2 ''wiki'']"]]
  by (simp add: demo_head_def)

text \<open>A pool that has dispatched and committed its first entry.\<close>

lemma demo_pool_run:
  "\<exists>p. pool_reach zero_cfg [demo_head 1 ''wiki'', demo_head 2 ''wiki''] p \<and>
     p_done p = [demo_head 1 ''wiki''] \<and> p_pending p = [demo_head 2 ''wiki'']"
proof -
  let ?h1 = "demo_head 1 ''wiki''" and ?h2 = "demo_head 2 ''wiki''"
  let ?p0 = "NewPool zero_cfg [?h1, ?h2]"
  let ?p1 = "?p0\<lparr>p_running := map (\<lambda>h. (h, False)) [?h1] @ p_running ?p0, p_inFlight := [head_key ?h1],
                 p_active := 1\<rparr>"
  let ?p2 = "?p1\<lparr>p_pending := filter (\<lambda>g. h_Seq g \<noteq> h_Seq ?h1) (p_pending ?p1),
        p_running := map (\<lambda>(g, b). (g, b \<or> g = ?h1)) (p_running ?p1), p_done := ?h1 # p_done ?p1\<rparr>"
  have s1: "pool_step (applyDefaults zero_cfg) ?p0 ?p1"
    by (rule p_dispatch [where ready = 1 and stopped = False and ready' = 0])
      (simp_all add: NewPool_def zero_cfg_def applyDefaults_def tryAssign_def demo_head_def head_key_def Let_def)
  have s2: "pool_step (applyDefaults zero_cfg) ?p1 ?p2" by (rule p_commit) simp
  have "pool_reach zero_cfg [?h1, ?h2] ?p2" using pr_init s1 s2 by (blast intro: pr_step)
  moreover have "p_done ?p2 = [?h1]" "p_pending ?p2 = [?h2]" by (simp_all add: NewPool_def demo_head_def)
  ultimately show ?thesis by blast
qed

lemma pool_commits_in_order_witness:
  "\<exists>p :: pool. p_done p = [demo_head 1 ''wiki''] \<and> p_pending p = [demo_head 2 ''wiki''] \<and>
     (\<forall>d\<in>set (p_done p). \<forall>g\<in>set (p_pending p). head_key d = head_key g \<longrightarrow> h_Seq d < h_Seq g)"
proof -
  obtain p where p: "pool_reach zero_cfg [demo_head 1 ''wiki'', demo_head 2 ''wiki''] p"
    "p_done p = [demo_head 1 ''wiki'']" "p_pending p = [demo_head 2 ''wiki'']"
    using demo_pool_run by blast
  have "sorted_wrt (\<lambda>a b. h_Seq a < h_Seq b) [demo_head 1 ''wiki'', demo_head 2 ''wiki'']"
    by (simp add: demo_head_def)
  from pool_commits_in_order [OF p(1) this] p(2,3) show ?thesis by blast
qed

lemma dispatch_oldest_first_witness:
  "\<exists>as fl r a. dispatch zero_cfg False [demo_head 1 ''wiki'', demo_head 2 ''wiki'', demo_head 3 ''blog''] [] (2, 2)
     = (as, fl, r, a) \<and> as = [demo_head 1 ''wiki'', demo_head 3 ''blog''] \<and> distinct (map head_key as)"
proof -
  have d: "dispatch zero_cfg False [demo_head 1 ''wiki'', demo_head 2 ''wiki'', demo_head 3 ''blog''] [] (2, 2)
     = ([demo_head 1 ''wiki'', demo_head 3 ''blog''],
        [head_key (demo_head 3 ''blog''), head_key (demo_head 1 ''wiki'')], 0, 2)"
    by (simp add: tryAssign_def demo_head_def head_key_def Let_def)
  from dispatch_oldest_first [OF d] d show ?thesis by blast
qed

end
