(* ===== verification/Bolt.thy ===== *)
theory Bolt
  imports KV
begin

text \<open>
  The interface to \<open>go.etcd.io/bbolt\<close>, which is not part of the repository: a record of the calls the
  stores make, on an abstract transaction state \<open>'db\<close> with row values \<open>'v\<close>.  A call that can fail
  returns an option.  \<open>bolt_ok\<close> states the documented behaviour the code relies on: buckets are maps
  from keys to values that every call changes as its name says, and a cursor or \<open>ForEach\<close> runs in key
  order.  \<open>mem_bolt\<close> is a concrete instance, for the witnesses.

  A row's value is what the code reads from it: the JSON text of a record is represented by the
  record, other text by itself.  The second half holds what the per-project stores share: the outcome of opening
  or creating a database file, the \<open>_meta\<close> bucket and the all-or-nothing \<open>Update\<close>.
\<close>

record ('db, 'v) bolt =
  b_bucket :: "'db \<Rightarrow> string \<Rightarrow> bool"
  b_get :: "'db \<Rightarrow> string \<Rightarrow> string \<Rightarrow> 'v option"
  b_rows :: "'db \<Rightarrow> string \<Rightarrow> (string \<times> 'v) list"
  b_names :: "'db \<Rightarrow> string list"
  b_create :: "string \<Rightarrow> 'db \<Rightarrow> 'db option"
  b_drop :: "string \<Rightarrow> 'db \<Rightarrow> 'db option"
  b_put :: "string \<Rightarrow> string \<Rightarrow> 'v \<Rightarrow> 'db \<Rightarrow> 'db option"
  b_delete :: "string \<Rightarrow> string \<Rightarrow> 'db \<Rightarrow> 'db option"
  b_commit :: "'db \<Rightarrow> 'db option"

definition bview :: "('db, 'v) bolt \<Rightarrow> 'db \<Rightarrow> string \<Rightarrow> (string \<Rightarrow> 'v option) option" where
  "bview B db n = (if b_bucket B db n then Some (b_get B db n) else None)"

definition bolt_ok :: "('db, 'v) bolt \<Rightarrow> bool" where
  "bolt_ok B \<longleftrightarrow>
     (\<forall>n db db'. b_create B n db = Some db' \<longrightarrow>
        bview B db' = (bview B db)(n \<mapsto> (case bview B db n of None \<Rightarrow> Map.empty | Some m \<Rightarrow> m))) \<and>
     (\<forall>n db db'. b_drop B n db = Some db' \<longrightarrow> bview B db' = (bview B db)(n := None)) \<and>
     (\<forall>n k v db db' m. b_put B n k v db = Some db' \<longrightarrow> bview B db n = Some m \<longrightarrow>
        bview B db' = (bview B db)(n \<mapsto> m(k \<mapsto> v))) \<and>
     (\<forall>n k db db' m. b_delete B n k db = Some db' \<longrightarrow> bview B db n = Some m \<longrightarrow>
        bview B db' = (bview B db)(n \<mapsto> m(k := None))) \<and>
     (\<forall>n db m. bview B db n = Some m \<longrightarrow> kv_ok (b_rows B db n) \<and> map_of (b_rows B db n) = m) \<and>
     (\<forall>db. sorted_wrt (<) (b_names B db) \<and> set (b_names B db) = dom (bview B db)) \<and>
     (\<forall>db db'. b_commit B db = Some db' \<longrightarrow> bview B db' = bview B db)"

lemma bolt_okD:
  assumes "bolt_ok B"
  shows "b_create B n db = Some db' \<Longrightarrow>
      bview B db' = (bview B db)(n \<mapsto> (case bview B db n of None \<Rightarrow> Map.empty | Some m \<Rightarrow> m))"
    and "b_drop B n db = Some db' \<Longrightarrow> bview B db' = (bview B db)(n := None)"
    and "b_put B n k v db = Some db' \<Longrightarrow> bview B db n = Some m \<Longrightarrow> bview B db' = (bview B db)(n \<mapsto> m(k \<mapsto> v))"
    and "b_delete B n k db = Some db' \<Longrightarrow> bview B db n = Some m \<Longrightarrow> bview B db' = (bview B db)(n \<mapsto> m(k := None))"
    and "bview B db n = Some m \<Longrightarrow> kv_ok (b_rows B db n) \<and> map_of (b_rows B db n) = m"
    and "sorted_wrt (<) (b_names B db)" "set (b_names B db) = dom (bview B db)"
    and "b_commit B db = Some db' \<Longrightarrow> bview B db' = bview B db"
proof -
  note laws = assms [unfolded bolt_ok_def]
  note create = laws [THEN conjunct1]
  note drop = laws [THEN conjunct2, THEN conjunct1]
  note put = laws [THEN conjunct2, THEN conjunct2, THEN conjunct1]
  note delete = laws [THEN conjunct2, THEN conjunct2, THEN conjunct2, THEN conjunct1]
  note rows = laws [THEN conjunct2, THEN conjunct2, THEN conjunct2, THEN conjunct2, THEN conjunct1]
  note names = laws [THEN conjunct2, THEN conjunct2, THEN conjunct2, THEN conjunct2, THEN conjunct2, THEN conjunct1]
  note commit = laws [THEN conjunct2, THEN conjunct2, THEN conjunct2, THEN conjunct2, THEN conjunct2, THEN conjunct2]
  show "b_create B n db = Some db' \<Longrightarrow>
      bview B db' = (bview B db)(n \<mapsto> (case bview B db n of None \<Rightarrow> Map.empty | Some m \<Rightarrow> m))"
    by (rule create [rule_format])
  show "b_drop B n db = Some db' \<Longrightarrow> bview B db' = (bview B db)(n := None)" by (rule drop [rule_format])
  show "b_put B n k v db = Some db' \<Longrightarrow> bview B db n = Some m \<Longrightarrow> bview B db' = (bview B db)(n \<mapsto> m(k \<mapsto> v))"
    by (rule put [rule_format])
  show "b_delete B n k db = Some db' \<Longrightarrow> bview B db n = Some m \<Longrightarrow> bview B db' = (bview B db)(n \<mapsto> m(k := None))"
    by (rule delete [rule_format])
  show "bview B db n = Some m \<Longrightarrow> kv_ok (b_rows B db n) \<and> map_of (b_rows B db n) = m" by (rule rows [rule_format])
  show "sorted_wrt (<) (b_names B db)" "set (b_names B db) = dom (bview B db)" using names by simp_all
  show "b_commit B db = Some db' \<Longrightarrow> bview B db' = bview B db" by (rule commit [rule_format])
qed

lemma bview_iff:
  "bview B db n = None \<longleftrightarrow> \<not> b_bucket B db n" "bview B db n = Some m \<longleftrightarrow> b_bucket B db n \<and> m = b_get B db n"
  by (auto simp: bview_def)

text \<open>The value read under a bucket and a key.\<close>

definition bget :: "('db, 'v) bolt \<Rightarrow> 'db \<Rightarrow> string \<Rightarrow> string \<Rightarrow> 'v option" where
  "bget B db n k = (if b_bucket B db n then b_get B db n k else None)"

lemma bget_bview: "bget B db n k = (case bview B db n of None \<Rightarrow> None | Some m \<Rightarrow> m k)"
  by (simp add: bget_def bview_def)

section \<open>A concrete instance\<close>

type_synonym 'v mem_db = "(string \<times> (string \<times> 'v) list) list"

definition mem_bolt :: "('v mem_db, 'v) bolt" where
  "mem_bolt =
     \<lparr>b_bucket = (\<lambda>db n. map_of db n \<noteq> None),
      b_get = (\<lambda>db n k. case map_of db n of None \<Rightarrow> None | Some rows \<Rightarrow> map_of rows k),
      b_rows = (\<lambda>db n. case map_of db n of None \<Rightarrow> [] | Some rows \<Rightarrow> kv_puts (rev rows) []),
      b_names = (\<lambda>db. map fst (kv_puts (rev db) [])),
      b_create = (\<lambda>n db. Some (if map_of db n = None then kv_put n [] db else db)),
      b_drop = (\<lambda>n db. Some (kv_del n db)),
      b_put = (\<lambda>n k v db. case map_of db n of None \<Rightarrow> None | Some rows \<Rightarrow> Some (kv_put n (kv_put k v rows) db)),
      b_delete = (\<lambda>n k db. case map_of db n of None \<Rightarrow> None | Some rows \<Rightarrow> Some (kv_put n (kv_del k rows) db)),
      b_commit = Some\<rparr>"

text \<open>The rows are put in order when they are read, so that every list is a database.\<close>

lemma map_of_kv_puts_rev: "map_of (kv_puts (rev ps) xs) = map_of xs ++ map_of ps"
proof (induction ps)
  case (Cons p ps)
  obtain k v where "p = (k, v)" by fastforce
  with Cons show ?case by (simp add: kv_puts_def fun_eq_iff map_add_def)
qed simp

lemma mem_bolt_view: "bview mem_bolt db n = map_option map_of (map_of db n)"
  by (cases "map_of db n") (simp_all add: bview_def mem_bolt_def)

lemma mem_bolt_ok: "bolt_ok mem_bolt"
proof -
  have rows: "kv_ok (b_rows mem_bolt db n) \<and> map_of (b_rows mem_bolt db n) = m"
    if "bview mem_bolt db n = Some m" for db n and m :: "string \<Rightarrow> 'v option"
    using that by (auto simp: mem_bolt_view) (simp_all add: mem_bolt_def map_of_kv_puts_rev)
  have names: "sorted_wrt (<) (b_names mem_bolt db)" "set (b_names mem_bolt db) = dom (bview mem_bolt db)" for db :: "'v mem_db"
  proof -
    show "sorted_wrt (<) (b_names mem_bolt db)"
      using kv_ok_puts [OF kv_ok_Nil, of "rev db"] by (simp add: mem_bolt_def kv_ok_def)
    have "set (b_names mem_bolt db) = dom (map_of (kv_puts (rev db) []))"
      by (simp add: mem_bolt_def dom_map_of_conv_image_fst)
    also have "\<dots> = dom (bview mem_bolt db)" by (auto simp: map_of_kv_puts_rev mem_bolt_view)
    finally show "set (b_names mem_bolt db) = dom (bview mem_bolt db)" .
  qed
  show ?thesis
    unfolding bolt_ok_def
  proof (intro conjI allI impI)
    fix n k :: string and v :: 'v and db db' :: "'v mem_db" and m
    show "kv_ok (b_rows mem_bolt db n)" "map_of (b_rows mem_bolt db n) = m" if "bview mem_bolt db n = Some m"
      using rows [OF that] by auto
    show "b_create mem_bolt n db = Some db' \<Longrightarrow> bview mem_bolt db' =
        (bview mem_bolt db)(n \<mapsto> (case bview mem_bolt db n of None \<Rightarrow> Map.empty | Some m \<Rightarrow> m))"
      by (cases "map_of db n") (auto simp: fun_eq_iff mem_bolt_view,
          auto simp: mem_bolt_def fun_eq_iff)
    show "b_drop mem_bolt n db = Some db' \<Longrightarrow> bview mem_bolt db' = (bview mem_bolt db)(n := None)"
      by (auto simp: fun_eq_iff mem_bolt_view) (auto simp: mem_bolt_def)
    show "b_put mem_bolt n k v db = Some db' \<Longrightarrow> bview mem_bolt db n = Some m \<Longrightarrow>
        bview mem_bolt db' = (bview mem_bolt db)(n \<mapsto> m(k \<mapsto> v))"
      by (auto simp: fun_eq_iff mem_bolt_view) (auto simp: mem_bolt_def fun_eq_iff)
    show "b_delete mem_bolt n k db = Some db' \<Longrightarrow> bview mem_bolt db n = Some m \<Longrightarrow>
        bview mem_bolt db' = (bview mem_bolt db)(n \<mapsto> m(k := None))"
      by (auto simp: fun_eq_iff mem_bolt_view) (auto simp: mem_bolt_def fun_eq_iff)
    show "b_commit mem_bolt db = Some db' \<Longrightarrow> bview mem_bolt db' = bview mem_bolt db"
      by (simp add: mem_bolt_def)
  qed (use names in auto)
qed

section \<open>What the per-project stores share\<close>

datatype 'r row = Row 'r | Text string

datatype store_err =
  ErrNotFound | ErrCorrupt | ErrSchemaMismatch | ErrStat | ErrOpen | ErrExists | ErrMkdir | ErrInit
| ErrEmptyPath | ErrTx | ErrDecode | ErrModelMismatch | ErrWalk

text \<open>Outcomes of \<open>os.Stat\<close> and of \<open>bolt.Open\<close>.\<close>

datatype stat_res = StatExists | StatNotExist | StatFails

datatype 'db open_res = Opened 'db | OpenInvalid | OpenVersionMismatch | OpenChecksum | OpenFails

text \<open>\<open>db.Update\<close>: an error of the function or of the commit leaves the database as it was.\<close>

definition update :: "('db, 'v) bolt \<Rightarrow> ('db \<Rightarrow> 'db option) \<Rightarrow> 'db \<Rightarrow> store_err + 'db" where
  "update B f db =
     (case f db of
        None \<Rightarrow> Inl ErrTx
      | Some db1 \<Rightarrow> (case b_commit B db1 of None \<Rightarrow> Inl ErrTx | Some db2 \<Rightarrow> Inr db2))"

fun put_rows :: "('db, 'v) bolt \<Rightarrow> string \<Rightarrow> (string \<times> 'v) list \<Rightarrow> 'db \<Rightarrow> 'db option" where
  "put_rows B n [] db = Some db"
| "put_rows B n ((k, v) # rows) db =
     (case b_put B n k v db of None \<Rightarrow> None | Some db1 \<Rightarrow> put_rows B n rows db1)"

definition put_in :: "('db, 'v) bolt \<Rightarrow> string \<Rightarrow> (string \<times> 'v) list \<Rightarrow> 'db \<Rightarrow> 'db option" where
  "put_in B n rows db = (case b_create B n db of None \<Rightarrow> None | Some db1 \<Rightarrow> put_rows B n rows db1)"

definition delete_in :: "('db, 'v) bolt \<Rightarrow> string \<Rightarrow> string \<Rightarrow> 'db \<Rightarrow> 'db option" where
  "delete_in B n k db = (if b_bucket B db n then b_delete B n k db else Some db)"

definition replace_in :: "('db, 'v) bolt \<Rightarrow> string \<Rightarrow> (string \<times> 'v) list \<Rightarrow> 'db \<Rightarrow> 'db option" where
  "replace_in B n rows db =
     (case (if b_bucket B db n then b_drop B n db else Some db) of
        None \<Rightarrow> None | Some db1 \<Rightarrow> put_in B n rows db1)"

definition rows_in :: "('db, 'v) bolt \<Rightarrow> 'db \<Rightarrow> string \<Rightarrow> (string \<times> 'v) list" where
  "rows_in B db n = (if b_bucket B db n then b_rows B db n else [])"

definition metaBucket :: string where
  "metaBucket = ''_meta''"

definition MetaSchemaVersion :: string where
  "MetaSchemaVersion = ''schema_version''"

definition CurrentSchemaVersion :: string where
  "CurrentSchemaVersion = ''1''"

text \<open>The \<open>_meta\<close> bucket holds text; an unset key reads as the empty string.\<close>

definition meta_get :: "('db, 'r row) bolt \<Rightarrow> 'db \<Rightarrow> string \<Rightarrow> string" where
  "meta_get B db key = (case bget B db metaBucket key of Some (Text s) \<Rightarrow> s | _ \<Rightarrow> [])"

definition meta_set :: "('db, 'r row) bolt \<Rightarrow> string \<Rightarrow> string \<Rightarrow> 'db \<Rightarrow> store_err + 'db" where
  "meta_set B key val db = update B (put_in B metaBucket [(key, Text val)]) db"

definition store_open :: "('db, 'r row) bolt \<Rightarrow> stat_res \<Rightarrow> 'db open_res \<Rightarrow> store_err + 'db" where
  "store_open B stat opened =
     (case stat of
        StatNotExist \<Rightarrow> Inl ErrNotFound
      | StatFails \<Rightarrow> Inl ErrStat
      | StatExists \<Rightarrow>
          (case opened of
             OpenInvalid \<Rightarrow> Inl ErrCorrupt
           | OpenVersionMismatch \<Rightarrow> Inl ErrCorrupt
           | OpenChecksum \<Rightarrow> Inl ErrCorrupt
           | OpenFails \<Rightarrow> Inl ErrOpen
           | Opened db \<Rightarrow>
               (if meta_get B db MetaSchemaVersion \<noteq> CurrentSchemaVersion then Inl ErrSchemaMismatch
                else Inr db)))"

text \<open>\<open>Create\<close>: the given bucket and \<open>_meta\<close> are made and the meta rows written in one transaction.\<close>

definition store_create ::
    "('db, 'r row) bolt \<Rightarrow> stat_res \<Rightarrow> bool \<Rightarrow> 'db open_res \<Rightarrow> string \<Rightarrow> (string \<times> string) list \<Rightarrow>
     store_err + 'db" where
  "store_create B stat mkdir_ok opened bucket meta_rows =
     (case stat of
        StatExists \<Rightarrow> Inl ErrExists
      | StatFails \<Rightarrow> Inl ErrStat
      | StatNotExist \<Rightarrow>
          (if \<not> mkdir_ok then Inl ErrMkdir
           else case opened of
             Opened db \<Rightarrow>
               (case update B (\<lambda>db. case b_create B bucket db of
                                 None \<Rightarrow> None
                               | Some db1 \<Rightarrow> put_in B metaBucket (map (\<lambda>(k, v). (k, Text v)) meta_rows) db1) db of
                  Inl _ \<Rightarrow> Inl ErrInit | Inr db' \<Rightarrow> Inr db')
           | _ \<Rightarrow> Inl ErrOpen))"

lemma not_isl_Inr: "\<not> isl x \<Longrightarrow> \<exists>y. x = Inr y"
  by (cases x) auto

section \<open>What the shared operations do to the reads\<close>

lemma b_bucket_bview: "b_bucket B db n \<longleftrightarrow> bview B db n \<noteq> None"
  by (simp add: bview_def)

lemma reads_cong: "bview B db = bview B db' \<Longrightarrow> bget B db = bget B db' \<and> b_bucket B db = b_bucket B db'"
  by (simp add: fun_eq_iff bget_bview b_bucket_bview)

lemma update_Inr:
  assumes "bolt_ok B" "update B f db = Inr db'"
  shows "\<exists>db1. f db = Some db1 \<and> bget B db' = bget B db1 \<and> b_bucket B db' = b_bucket B db1 \<and>
    bview B db' = bview B db1"
proof -
  from assms(2) obtain db1 where "f db = Some db1" "b_commit B db1 = Some db'"
    by (auto simp: update_def split: option.splits)
  with bolt_okD(8) [OF assms(1)] reads_cong show ?thesis by metis
qed

lemma create_reads:
  assumes "bolt_ok B" "b_create B n db = Some db'"
  shows "bget B db' = bget B db" "b_bucket B db' = (b_bucket B db)(n := True)"
  using bolt_okD(1) [OF assms]
  by (auto simp: fun_eq_iff bget_bview b_bucket_bview split: option.splits)

lemma put_reads:
  assumes "bolt_ok B" "b_put B n k v db = Some db'" "b_bucket B db n"
  shows "bget B db' = (bget B db)(n := (bget B db n)(k \<mapsto> v))" "b_bucket B db' = b_bucket B db"
proof -
  obtain m where m: "bview B db n = Some m" using assms(3) by (auto simp: b_bucket_bview)
  show "bget B db' = (bget B db)(n := (bget B db n)(k \<mapsto> v))" "b_bucket B db' = b_bucket B db"
    using bolt_okD(3) [OF assms(1,2) m] m by (intro ext; simp add: bget_bview b_bucket_bview)+
qed

lemma put_rows_reads:
  assumes "bolt_ok B"
  shows "put_rows B n rows db = Some db' \<Longrightarrow> b_bucket B db n \<Longrightarrow>
    bget B db' = (bget B db)(n := bget B db n ++ map_of (rev rows)) \<and> b_bucket B db' = b_bucket B db"
proof (induction rows arbitrary: db)
  case (Cons r rows)
  obtain k v where r: "r = (k, v)" by fastforce
  with Cons.prems obtain db1 where db1: "b_put B n k v db = Some db1" "put_rows B n rows db1 = Some db'"
    by (auto split: option.splits)
  note p = put_reads [OF assms db1(1) Cons.prems(2)]
  from Cons.IH [OF db1(2)] p Cons.prems(2) r show ?case
    by (auto simp: fun_eq_iff map_add_def split: option.splits)
qed (simp add: fun_eq_iff)

lemma put_in_reads:
  assumes "bolt_ok B" "put_in B n rows db = Some db'"
  shows "bget B db' = (bget B db)(n := bget B db n ++ map_of (rev rows))"
    "b_bucket B db' = (b_bucket B db)(n := True)"
proof -
  from assms(2) obtain db1 where db1: "b_create B n db = Some db1" "put_rows B n rows db1 = Some db'"
    by (auto simp: put_in_def split: option.splits)
  note c = create_reads [OF assms(1) db1(1)]
  then have "b_bucket B db1 n" by simp
  from put_rows_reads [OF assms(1) db1(2) this] c
  show "bget B db' = (bget B db)(n := bget B db n ++ map_of (rev rows))"
    "b_bucket B db' = (b_bucket B db)(n := True)" by simp_all
qed

lemma delete_in_reads:
  assumes "bolt_ok B" "delete_in B n k db = Some db'"
  shows "bget B db' = (bget B db)(n := (bget B db n)(k := None))" "b_bucket B db' = b_bucket B db"
proof -
  have "bget B db' = (bget B db)(n := (bget B db n)(k := None)) \<and> b_bucket B db' = b_bucket B db"
  proof (cases "b_bucket B db n")
    case True
    then obtain m where m: "bview B db n = Some m" by (auto simp: b_bucket_bview)
    have "b_delete B n k db = Some db'" using assms(2) True by (simp add: delete_in_def)
    from bolt_okD(4) [OF assms(1) this m] m show ?thesis
      by (intro conjI ext; simp add: bget_bview b_bucket_bview)
  next
    case False
    then show ?thesis using assms(2) by (auto simp: delete_in_def bget_def fun_eq_iff)
  qed
  then show "bget B db' = (bget B db)(n := (bget B db n)(k := None))" "b_bucket B db' = b_bucket B db"
    by auto
qed

lemma drop_reads:
  assumes "bolt_ok B" "b_drop B n db = Some db'"
  shows "bget B db' = (bget B db)(n := Map.empty)" "b_bucket B db' = (b_bucket B db)(n := False)"
  using bolt_okD(2) [OF assms] by (auto simp: fun_eq_iff bget_bview b_bucket_bview)

lemma replace_in_reads:
  assumes "bolt_ok B" "replace_in B n rows db = Some db'"
  shows "bget B db' = (bget B db)(n := map_of (rev rows))" "b_bucket B db' = (b_bucket B db)(n := True)"
proof -
  obtain db1 where db1: "bget B db1 = (bget B db)(n := Map.empty)" "b_bucket B db1 = (b_bucket B db)(n := False)"
    "put_in B n rows db1 = Some db'"
  proof (cases "b_bucket B db n")
    case True
    with assms(2) obtain db1 where "b_drop B n db = Some db1" "put_in B n rows db1 = Some db'"
      by (auto simp: replace_in_def split: option.splits)
    with drop_reads [OF assms(1)] that show ?thesis by blast
  next
    case False
    then have "bget B db = (bget B db)(n := Map.empty)" "b_bucket B db = (b_bucket B db)(n := False)"
      by (auto simp: fun_eq_iff bget_def)
    with False assms(2) that show ?thesis by (auto simp: replace_in_def)
  qed
  from put_in_reads [OF assms(1) db1(3)] db1(1,2)
  show "bget B db' = (bget B db)(n := map_of (rev rows))" "b_bucket B db' = (b_bucket B db)(n := True)"
    by simp_all
qed

lemma rows_in_reads:
  assumes "bolt_ok B"
  shows "kv_ok (rows_in B db n)" "map_of (rows_in B db n) k = bget B db n k"
proof -
  have "kv_ok (rows_in B db n) \<and> map_of (rows_in B db n) = bget B db n"
  proof (cases "b_bucket B db n")
    case True
    then have "bview B db n = Some (bget B db n)" by (simp add: bview_def bget_def fun_eq_iff)
    from bolt_okD(5) [OF assms this] True show ?thesis by (simp add: rows_in_def)
  next
    case False
    then show ?thesis by (simp add: rows_in_def bget_def fun_eq_iff)
  qed
  then show "kv_ok (rows_in B db n)" "map_of (rows_in B db n) k = bget B db n k" by auto
qed

lemma meta_set_get:
  assumes "bolt_ok B" "meta_set B key val db = Inr db'"
  shows "meta_get B db' k = (if k = key then val else meta_get B db k)"
    "n \<noteq> metaBucket \<Longrightarrow> bget B db' n = bget B db n"
proof -
  obtain db1 where db1: "put_in B metaBucket [(key, Text val)] db = Some db1" "bget B db' = bget B db1"
    using update_Inr [OF assms(1) assms(2) [unfolded meta_set_def]] by auto
  with put_in_reads [OF assms(1) db1(1)]
  show "meta_get B db' k = (if k = key then val else meta_get B db k)"
    "n \<noteq> metaBucket \<Longrightarrow> bget B db' n = bget B db n"
    by (auto simp: meta_get_def)
qed

lemma store_create_reads:
  assumes "bolt_ok B" "store_create B stat mk opened bucket rows = Inr db'" "bucket \<noteq> metaBucket"
  shows "\<exists>db. opened = Opened db \<and> stat = StatNotExist \<and> b_bucket B db' bucket \<and>
    (\<forall>n. b_bucket B db' n \<longleftrightarrow> b_bucket B db n \<or> n = bucket \<or> n = metaBucket) \<and>
    (\<forall>n. n \<noteq> metaBucket \<longrightarrow> bget B db' n = bget B db n) \<and>
    (\<forall>k v. map_of (rev rows) k = Some v \<longrightarrow> meta_get B db' k = v)"
proof -
  obtain db where o: "opened = Opened db" "stat = StatNotExist" "mk"
    using assms(2) by (auto simp: store_create_def split: stat_res.splits if_splits open_res.splits)
  let ?f = "\<lambda>db. case b_create B bucket db of None \<Rightarrow> None
              | Some db1 \<Rightarrow> put_in B metaBucket (map (\<lambda>(k, v). (k, Text v)) rows) db1"
  have u: "update B ?f db = Inr db'"
    using assms(2) o by (auto simp: store_create_def split: sum.splits)
  from update_Inr [OF assms(1) u] obtain db1 db2 where db2: "b_create B bucket db = Some db1"
    "put_in B metaBucket (map (\<lambda>(k, v). (k, Text v)) rows) db1 = Some db2"
    "bget B db' = bget B db2" "b_bucket B db' = b_bucket B db2"
    by (auto split: option.splits)
  note r = create_reads [OF assms(1) db2(1)] put_in_reads [OF assms(1) db2(2)] db2(3,4)
  have m: "map_of (rev (map (\<lambda>(k, v). (k, Text v)) rows)) k = map_option Text (map_of (rev rows) k)" for k
    by (simp only: rev_map map_of_map comp_apply)
  show ?thesis using o r assms(3) by (auto simp: meta_get_def m)
qed

section \<open>The concrete instance never fails\<close>

lemma mem_put_rows: "b_bucket mem_bolt db n \<Longrightarrow> \<exists>db'. put_rows mem_bolt n rows db = Some db'"
  by (induction rows arbitrary: db) (auto simp: mem_bolt_def)

lemma mem_put_in: "\<exists>db'. put_in mem_bolt n rows db = Some db'"
proof -
  obtain db1 where c: "b_create mem_bolt n db = Some db1" by (simp add: mem_bolt_def)
  have "b_bucket mem_bolt db1 n" using create_reads(2) [OF mem_bolt_ok c] by simp
  with mem_put_rows c show ?thesis by (simp add: put_in_def)
qed

lemma mem_delete_in: "\<exists>db'. delete_in mem_bolt n k db = Some db'"
  by (auto simp: delete_in_def mem_bolt_def split: option.splits)

lemma mem_update: "f db = Some db1 \<Longrightarrow> update mem_bolt f db = Inr db1"
  by (simp add: update_def mem_bolt_def)

end
