(* ===== verification/Record_Store.thy ===== *)
theory Record_Store
  imports Bolt Paths
begin

text \<open>
  The contract shared by the stores that keep one record per within-project path (the search index
  and the vector index): an upsert and an idempotent delete under the normalised path.  The
  derivative stores are maintained by applying one change per landed file operation; the lemma of
  the locale is that a run of such changes has exactly the effect of the same updates on a map.
\<close>

datatype 'r change = Put string 'r | Del string

fun run_changes ::
    "(string \<Rightarrow> 'r \<Rightarrow> 'db \<Rightarrow> store_err + 'db) \<Rightarrow> (string \<Rightarrow> 'db \<Rightarrow> store_err + 'db) \<Rightarrow>
     'r change list \<Rightarrow> 'db \<Rightarrow> store_err + 'db" where
  "run_changes put del [] db = Inr db"
| "run_changes put del (c # cs) db =
     (case (case c of Put p r \<Rightarrow> put p r db | Del p \<Rightarrow> del p db) of
        Inl e \<Rightarrow> Inl e | Inr db1 \<Rightarrow> run_changes put del cs db1)"

fun map_changes :: "'r change list \<Rightarrow> (string \<Rightarrow> 'r option) \<Rightarrow> string \<Rightarrow> 'r option" where
  "map_changes [] m = m"
| "map_changes (Put p r # cs) m = map_changes cs (m(normalizePath p \<mapsto> r))"
| "map_changes (Del p # cs) m = map_changes cs (m(normalizePath p := None))"

lemma map_changes_append: "map_changes (cs @ ds) m = map_changes ds (map_changes cs m)"
  by (induction cs m rule: map_changes.induct) (simp_all del: fun_upd_apply)

locale record_store =
  fixes good :: "'db \<Rightarrow> bool"
    and lookup :: "'db \<Rightarrow> string \<Rightarrow> 'r option"
    and put :: "string \<Rightarrow> 'r \<Rightarrow> 'db \<Rightarrow> store_err + 'db"
    and del :: "string \<Rightarrow> 'db \<Rightarrow> store_err + 'db"
  assumes put_law: "good db \<Longrightarrow> put p r db = Inr db' \<Longrightarrow>
            good db' \<and> lookup db' = (lookup db)(normalizePath p \<mapsto> r)"
    and del_law: "good db \<Longrightarrow> del p db = Inr db' \<Longrightarrow>
            good db' \<and> lookup db' = (lookup db)(normalizePath p := None)"
begin

lemma changes_refine:
  "good db \<Longrightarrow> run_changes put del cs db = Inr db' \<Longrightarrow>
   good db' \<and> lookup db' = map_changes cs (lookup db)"
proof (induction cs arbitrary: db)
  case (Cons c cs)
  show ?case
  proof (cases c)
    case (Put p r)
    with Cons.prems obtain db1 where d: "put p r db = Inr db1" "run_changes put del cs db1 = Inr db'"
      by (auto split: sum.splits)
    note law = put_law [OF Cons.prems(1) d(1)]
    show ?thesis using Cons.IH [OF law [THEN conjunct1] d(2)] law Put by (simp del: fun_upd_apply)
  next
    case (Del p)
    with Cons.prems obtain db1 where d: "del p db = Inr db1" "run_changes put del cs db1 = Inr db'"
      by (auto split: sum.splits)
    note law = del_law [OF Cons.prems(1) d(1)]
    show ?thesis using Cons.IH [OF law [THEN conjunct1] d(2)] law Del by (simp del: fun_upd_apply)
  qed
qed simp

text \<open>The last change of a path decides.\<close>

lemma last_change:
  assumes "good db" "run_changes put del (cs @ [c]) db = Inr db'"
  shows "lookup db' (normalizePath (case c of Put p r \<Rightarrow> p | Del p \<Rightarrow> p)) =
         (case c of Put p r \<Rightarrow> Some r | Del p \<Rightarrow> None)"
  using changes_refine [OF assms] by (cases c) (simp_all add: map_changes_append)

end

end
