(* ===== verification/Deleted_Log.thy ===== *)
theory Deleted_Log
  imports Record_Store "HOL-Library.Multiset"
begin

text \<open>
  Package \<open>deletedlog\<close> (\<open>internal/storage/deletedlog/deletedlog.go\<close>): the live set of currently deleted
  paths, capped to the newest entries.  Times are nanoseconds since Go's zero time.  \<open>sort.Slice\<close>
  leaves the order of equal times open, so the sort is a parameter of the definitions, with
  \<open>sorts_by\<close> as what is known of it.
\<close>

record deleted_record =
  dr_Path :: string
  dr_DeletionCommit :: string
  dr_DeletedAt :: int

type_synonym del_row = "deleted_record row"

definition deletedBucket :: string where
  "deletedBucket = ''deleted''"

definition MetaOrigin :: string where
  "MetaOrigin = ''origin''"

definition OriginDeletion :: string where
  "OriginDeletion = ''deletion''"

definition del_Open :: "('db, del_row) bolt \<Rightarrow> stat_res \<Rightarrow> 'db open_res \<Rightarrow> store_err + 'db" where
  "del_Open B stat opened = store_open B stat opened"

definition del_Create ::
    "('db, del_row) bolt \<Rightarrow> stat_res \<Rightarrow> bool \<Rightarrow> 'db open_res \<Rightarrow> string \<Rightarrow> string \<Rightarrow> string \<Rightarrow>
     store_err + 'db" where
  "del_Create B stat mkdir_ok opened now namespace projectName =
     store_create B stat mkdir_ok opened deletedBucket
       [(MetaSchemaVersion, CurrentSchemaVersion), (''created_at'', now), (''namespace'', namespace),
        (''project_name'', projectName), (MetaOrigin, OriginDeletion)]"

text \<open>The entries of the bucket with their times; an undecodable row has the zero time.\<close>

definition row_time :: "del_row \<Rightarrow> int" where
  "row_time v = (case v of Row r \<Rightarrow> dr_DeletedAt r | Text t \<Rightarrow> 0)"

fun delete_keys :: "('db, del_row) bolt \<Rightarrow> string list \<Rightarrow> 'db \<Rightarrow> 'db option" where
  "delete_keys B [] db = Some db"
| "delete_keys B (k # ks) db =
     (case b_delete B deletedBucket k db of None \<Rightarrow> None | Some db1 \<Rightarrow> delete_keys B ks db1)"

definition evictOldest ::
    "('db, del_row) bolt \<Rightarrow> ((string \<times> int) list \<Rightarrow> (string \<times> int) list) \<Rightarrow> int \<Rightarrow> 'db \<Rightarrow> 'db option" where
  "evictOldest B srt maxEntries db =
     (if maxEntries \<le> 0 then Some db
      else (let all = map (\<lambda>(k, v). (k, row_time v)) (b_rows B db deletedBucket) in
            if int (length all) \<le> maxEntries then Some db
            else delete_keys B (map fst (take (length all - nat maxEntries) (srt all))) db))"

definition Upsert ::
    "('db, del_row) bolt \<Rightarrow> ((string \<times> int) list \<Rightarrow> (string \<times> int) list) \<Rightarrow> deleted_record \<Rightarrow> int \<Rightarrow> 'db \<Rightarrow>
     store_err + 'db" where
  "Upsert B srt rec maxEntries db =
     (let np = normalizePath (dr_Path rec) in
      if np = [] then Inl ErrEmptyPath
      else (let rec1 = rec\<lparr>dr_Path := np\<rparr> in
            update B (\<lambda>db. case put_in B deletedBucket [(np, Row rec1)] db of
                        None \<Rightarrow> None | Some db1 \<Rightarrow> evictOldest B srt maxEntries db1) db))"

definition Drop :: "('db, del_row) bolt \<Rightarrow> string \<Rightarrow> 'db \<Rightarrow> store_err + 'db" where
  "Drop B p db =
     (let np = normalizePath p in
      if np = [] then Inr db else update B (delete_in B deletedBucket np) db)"

definition del_Get :: "('db, del_row) bolt \<Rightarrow> string \<Rightarrow> 'db \<Rightarrow> store_err + deleted_record option" where
  "del_Get B p db =
     (let np = normalizePath p in
      if np = [] then Inr None
      else case bget B db deletedBucket np of
             None \<Rightarrow> Inr None
           | Some (Text t) \<Rightarrow> Inl ErrDecode
           | Some (Row rec) \<Rightarrow> Inr (Some rec))"

text \<open>\<open>List\<close> skips what does not decode; \<open>by_path\<close> is its sort by path.\<close>

definition del_List :: "('db, del_row) bolt \<Rightarrow> 'db \<Rightarrow> deleted_record list" where
  "del_List B db =
     sort_key dr_Path (List.map_filter (\<lambda>(k, v). case v of Text t \<Rightarrow> None | Row r \<Rightarrow> Some r)
                        (rows_in B db deletedBucket))"

definition del_Count :: "('db, del_row) bolt \<Rightarrow> 'db \<Rightarrow> nat" where
  "del_Count B db = length (rows_in B db deletedBucket)"

definition capNewest ::
    "(deleted_record list \<Rightarrow> deleted_record list) \<Rightarrow> deleted_record list \<Rightarrow> int \<Rightarrow> deleted_record list" where
  "capNewest srt records maxEntries =
     (if maxEntries \<le> 0 \<or> int (length records) \<le> maxEntries then records
      else take (nat maxEntries) (srt records))"

definition del_rows :: "deleted_record list \<Rightarrow> (string \<times> del_row) list" where
  "del_rows kept =
     List.map_filter (\<lambda>r. let np = normalizePath (dr_Path r) in
       if np = [] then None else Some (np, Row (r\<lparr>dr_Path := np\<rparr>))) kept"

definition del_ReplaceAll ::
    "('db, del_row) bolt \<Rightarrow> (deleted_record list \<Rightarrow> deleted_record list) \<Rightarrow> deleted_record list \<Rightarrow> int \<Rightarrow> 'db \<Rightarrow>
     store_err + 'db" where
  "del_ReplaceAll B srt records maxEntries db =
     update B (replace_in B deletedBucket (del_rows (capNewest srt records maxEntries))) db"

definition HasOriginMarker :: "('db, del_row) bolt \<Rightarrow> 'db \<Rightarrow> bool" where
  "HasOriginMarker B db = (meta_get B db MetaOrigin \<noteq> [])"

definition IsEmpty :: "('db, del_row) bolt \<Rightarrow> 'db \<Rightarrow> bool" where
  "IsEmpty B db = (rows_in B db deletedBucket = [])"

section \<open>Eviction\<close>

definition sorts_by :: "('a \<Rightarrow> int) \<Rightarrow> ('a list \<Rightarrow> 'a list) \<Rightarrow> bool" where
  "sorts_by f srt \<longleftrightarrow> (\<forall>xs. mset (srt xs) = mset xs \<and> sorted (map f (srt xs)))"

lemma sorts_by_sort_key: "sorts_by f (sort_key f)"
  by (simp add: sorts_by_def)

lemma sorts_by_split:
  assumes "sorts_by f srt" "a \<in> set (take n (srt xs))" "b \<in> set (drop n (srt xs))"
  shows "f a \<le> f b"
proof -
  have "sorted (map f (take n (srt xs) @ drop n (srt xs)))" using assms(1) by (simp add: sorts_by_def)
  then show ?thesis using assms(2,3) unfolding map_append sorted_append by auto
qed

lemma sorts_by_set: "sorts_by f srt \<Longrightarrow> set (srt xs) = set xs" "sorts_by f srt \<Longrightarrow> length (srt xs) = length xs"
  unfolding sorts_by_def by (metis set_mset_mset) (metis size_mset)

lemma sorts_by_distinct: "sorts_by f srt \<Longrightarrow> distinct (map g (srt ys)) = distinct (map g ys)"
proof -
  assume "sorts_by f srt"
  then have "mset (map g (srt ys)) = mset (map g ys)" by (simp add: sorts_by_def)
  then show "distinct (map g (srt ys)) = distinct (map g ys)" by (rule mset_eq_imp_distinct_iff)
qed

lemma delete_keys_reads:
  assumes "bolt_ok B"
  shows "delete_keys B ks db = Some db' \<Longrightarrow> b_bucket B db deletedBucket \<Longrightarrow>
    bget B db' = (bget B db)(deletedBucket := bget B db deletedBucket |` (- set ks)) \<and>
    b_bucket B db' = b_bucket B db"
proof (induction ks arbitrary: db)
  case (Cons k ks)
  then obtain db1 where db1: "b_delete B deletedBucket k db = Some db1" "delete_keys B ks db1 = Some db'"
    by (auto split: option.splits)
  then have "delete_in B deletedBucket k db = Some db1" using Cons.prems(2) by (simp add: delete_in_def)
  note d = delete_in_reads [OF assms this]
  have "bget B db' = (bget B db1)(deletedBucket := bget B db1 deletedBucket |` (- set ks)) \<and>
      b_bucket B db' = b_bucket B db1"
    by (rule Cons.IH [OF db1(2)]) (simp add: d Cons.prems(2))
  then show ?case by (auto simp: d fun_eq_iff restrict_map_def)
qed (simp add: fun_eq_iff restrict_map_def)

text \<open>What is kept of a set of timed keys.\<close>

definition kept_newest :: "nat \<Rightarrow> (string \<Rightarrow> del_row option) \<Rightarrow> (string \<Rightarrow> del_row option) \<Rightarrow> bool" where
  "kept_newest n before after \<longleftrightarrow>
     after \<subseteq>\<^sub>m before \<and> card (dom after) = min n (card (dom before)) \<and>
     (\<forall>p v q w. before p = Some v \<longrightarrow> after p = None \<longrightarrow> after q = Some w \<longrightarrow> row_time v \<le> row_time w)"

lemma map_le_restrict: "f |` A \<subseteq>\<^sub>m f"
  by (auto simp: map_le_def restrict_map_def split: if_splits)

lemma evictOldest_kept:
  assumes "bolt_ok B" "sorts_by snd srt" "evictOldest B srt m db = Some db'" "b_bucket B db deletedBucket" "0 < m"
  shows "kept_newest (nat m) (bget B db deletedBucket) (bget B db' deletedBucket) \<and>
    (\<forall>n. n \<noteq> deletedBucket \<longrightarrow> bget B db' n = bget B db n)"
proof -
  let ?rows = "rows_in B db deletedBucket" and ?g = "bget B db deletedBucket"
  let ?all = "map (\<lambda>(k, v). (k, row_time v)) ?rows"
  have rows: "b_rows B db deletedBucket = ?rows" using assms(4) by (simp add: rows_in_def)
  have ok: "kv_ok ?rows" and mo: "map_of ?rows = ?g" using rows_in_reads [OF assms(1)] by (simp, simp add: fun_eq_iff)
  have mem: "(k, v) \<in> set ?rows \<longleftrightarrow> ?g k = Some v" for k v using kv_mem_iff [OF ok] mo by simp
  have dom: "dom ?g = set (map fst ?all)"
    using dom_map_of_conv_image_fst [of ?rows] mo by (simp add: image_image case_prod_beta)
  have dis: "distinct (map fst ?all)" using kv_ok_distinct [OF ok] by (simp add: comp_def case_prod_beta)
  have card: "card (dom ?g) = length ?all" unfolding dom distinct_card [OF dis] by simp
  show ?thesis
  proof (cases "int (length ?all) \<le> m")
    case True
    then have "db' = db" using assms(3,5) rows by (simp add: evictOldest_def Let_def)
    then show ?thesis using True card by (auto simp: kept_newest_def)
  next
    case False
    let ?n = "length ?all - nat m" and ?s = "srt ?all"
    let ?old = "map fst (take ?n ?s)"
    have "delete_keys B ?old db = Some db'" using False assms(3,5) rows by (simp add: evictOldest_def Let_def)
    note del = delete_keys_reads [OF assms(1) this assms(4), THEN conjunct1]
    have sdis: "distinct (map fst ?s)" by (rule iffD2 [OF sorts_by_distinct [OF assms(2)] dis])
    have sset: "set ?s = set ?all" and slen: "length ?s = length ?all" by (rule sorts_by_set [OF assms(2)])+
    have after: "bget B db' deletedBucket = ?g |` (- set ?old)" using del by simp
    have "set (take ?n ?s) \<subseteq> set ?all" unfolding sset [symmetric] by (rule set_take_subset)
    from image_mono [OF this, of fst] have old: "set ?old \<subseteq> dom ?g" unfolding dom set_map .
    have "card (set ?old) = ?n"
      using sdis distinct_card [of ?old] slen by (simp add: take_map [symmetric])
    moreover have "dom (bget B db' deletedBucket) = dom ?g - set ?old" by (auto simp: after)
    ultimately have "card (dom (bget B db' deletedBucket)) = length ?all - ?n"
      using old card card_Diff_subset [of "set ?old" "dom ?g"] by simp
    then have c: "card (dom (bget B db' deletedBucket)) = min (nat m) (card (dom ?g))"
      using False card by simp
    have "row_time v \<le> row_time w"
      if v: "?g p = Some v" "bget B db' deletedBucket p = None" and w: "bget B db' deletedBucket q = Some w" for p v q w
    proof -
      have p: "p \<in> set ?old" using v after by (auto simp: restrict_map_def split: if_splits)
      then obtain t where t: "(p, t) \<in> set (take ?n ?s)" by auto
      then have "(p, t) \<in> set ?all" using sset by (auto dest: in_set_takeD)
      then have tv: "t = row_time v" using mem v(1) by auto
      have q: "?g q = Some w" "q \<notin> set ?old" using w after by (auto simp: restrict_map_def split: if_splits)
      then have "(q, row_time w) \<in> set ?s" using mem sset by force
      moreover have "(q, row_time w) \<notin> set (take ?n ?s)" using q(2) by force
      ultimately have "(q, row_time w) \<in> set (drop ?n ?s)" by (metis Un_iff append_take_drop_id set_append)
      from sorts_by_split [OF assms(2) t this] tv show ?thesis by simp
    qed
    moreover have "bget B db' deletedBucket \<subseteq>\<^sub>m ?g" unfolding after by (rule map_le_restrict)
    ultimately show ?thesis using c del by (auto simp: kept_newest_def)
  qed
qed


section \<open>Recording and dropping deletions\<close>

lemma Upsert_step:
  assumes "bolt_ok B" "Upsert B srt rec m db = Inr db'"
  obtains db1 db2 where "normalizePath (dr_Path rec) \<noteq> []" "b_bucket B db1 deletedBucket"
    "bget B db1 = (bget B db)(deletedBucket :=
       (bget B db deletedBucket)(normalizePath (dr_Path rec) \<mapsto> Row (rec\<lparr>dr_Path := normalizePath (dr_Path rec)\<rparr>)))"
    "evictOldest B srt m db1 = Some db2" "bget B db' = bget B db2"
proof -
  let ?np = "normalizePath (dr_Path rec)"
  have ne: "?np \<noteq> []" using assms(2) by (auto simp: Upsert_def Let_def)
  then have u: "update B (\<lambda>db. case put_in B deletedBucket [(?np, Row (rec\<lparr>dr_Path := ?np\<rparr>))] db of
      None \<Rightarrow> None | Some db1 \<Rightarrow> evictOldest B srt m db1) db = Inr db'"
    using assms(2) by (simp add: Upsert_def Let_def)
  obtain db1 db2 where d: "put_in B deletedBucket [(?np, Row (rec\<lparr>dr_Path := ?np\<rparr>))] db = Some db1"
    "evictOldest B srt m db1 = Some db2" "bget B db' = bget B db2"
    using update_Inr [OF assms(1) u] by (auto split: option.splits)
  note p = put_in_reads [OF assms(1) d(1)]
  show ?thesis by (rule that [OF ne _ _ d(2,3)]) (simp_all add: p)
qed

text \<open>
  C39: the cap evicts the oldest: a recorded deletion with a positive cap leaves exactly
  the smaller of the cap and the number of recorded paths, each with the record it had (the new one
  under its normalised path), and no evicted record, the new one included, is newer than a kept one,
  for every way the sort orders equal times.
\<close>

theorem Upsert_keeps_newest:
  assumes "bolt_ok B" "sorts_by snd srt" "Upsert B srt rec m db = Inr db'" "0 < m"
  shows "kept_newest (nat m)
    ((bget B db deletedBucket)(normalizePath (dr_Path rec) \<mapsto> Row (rec\<lparr>dr_Path := normalizePath (dr_Path rec)\<rparr>)))
    (bget B db' deletedBucket)"
proof -
  obtain db1 db2 where d: "b_bucket B db1 deletedBucket" "bget B db1 = (bget B db)(deletedBucket :=
       (bget B db deletedBucket)(normalizePath (dr_Path rec) \<mapsto> Row (rec\<lparr>dr_Path := normalizePath (dr_Path rec)\<rparr>)))"
    "evictOldest B srt m db1 = Some db2" "bget B db' = bget B db2"
    by (rule Upsert_step [OF assms(1,3)]) blast
  from evictOldest_kept [OF assms(1,2) d(3,1) assms(4)] d(2,4) show ?thesis by simp
qed

definition demo_del :: "del_row mem_db" where
  "demo_del = [(deletedBucket, [(''a'', Row \<lparr>dr_Path = ''a'', dr_DeletionCommit = ''c1'', dr_DeletedAt = 5\<rparr>),
                                (''b'', Row \<lparr>dr_Path = ''b'', dr_DeletionCommit = ''c2'', dr_DeletedAt = 9\<rparr>)])]"

theorem Upsert_keeps_newest_witness:
  "\<exists>db' :: del_row mem_db.
     Upsert mem_bolt (sort_key snd) \<lparr>dr_Path = ''/n'', dr_DeletionCommit = ''c3'', dr_DeletedAt = 7\<rparr> 2 demo_del = Inr db' \<and>
     card (dom (bget mem_bolt db' deletedBucket)) = min 2 (card (dom ((bget mem_bolt demo_del deletedBucket)
       (normalizePath ''/n'' \<mapsto> Row \<lparr>dr_Path = normalizePath ''/n'', dr_DeletionCommit = ''c3'', dr_DeletedAt = 7\<rparr>))))"
proof -
  let ?rec = "\<lparr>dr_Path = ''/n'', dr_DeletionCommit = ''c3'', dr_DeletedAt = 7\<rparr>"
  have "\<not> isl (Upsert mem_bolt (sort_key snd) ?rec 2 demo_del)" by code_simp
  then obtain db' where r: "Upsert mem_bolt (sort_key snd) ?rec 2 demo_del = Inr db'" using not_isl_Inr by blast
  from Upsert_keeps_newest [OF mem_bolt_ok sorts_by_sort_key r] r show ?thesis by (auto simp: kept_newest_def)
qed

text \<open>Without the cap the log is a map from paths to the deletion and its time.\<close>

definition del_lookup :: "('db, del_row) bolt \<Rightarrow> 'db \<Rightarrow> string \<Rightarrow> (string \<times> int) option" where
  "del_lookup B db np =
     (if np = [] then None
      else case bget B db deletedBucket np of
             Some (Row r) \<Rightarrow> Some (dr_DeletionCommit r, dr_DeletedAt r) | _ \<Rightarrow> None)"

definition Upsert_at ::
    "('db, del_row) bolt \<Rightarrow> ((string \<times> int) list \<Rightarrow> (string \<times> int) list) \<Rightarrow> string \<Rightarrow> string \<times> int \<Rightarrow> 'db \<Rightarrow>
     store_err + 'db" where
  "Upsert_at B srt p r db =
     Upsert B srt \<lparr>dr_Path = p, dr_DeletionCommit = fst r, dr_DeletedAt = snd r\<rparr> 0 db"

definition del_good :: "('db, del_row) bolt \<Rightarrow> 'db \<Rightarrow> bool" where
  "del_good B db \<longleftrightarrow> bolt_ok B \<and>
     (\<forall>k v. bget B db deletedBucket k = Some v \<longrightarrow> k \<noteq> [] \<and> (\<exists>r. v = Row r \<and> dr_Path r = k)) \<and>
     HasOriginMarker B db"

lemma deleted_not_meta: "deletedBucket \<noteq> metaBucket" "metaBucket \<noteq> deletedBucket"
  by (simp_all add: deletedBucket_def metaBucket_def)

lemma Upsert_law:
  assumes g: "del_good B db" and p: "Upsert_at B srt p r db = Inr db'"
  shows "del_good B db' \<and> del_lookup B db' = (del_lookup B db)(normalizePath p \<mapsto> r)"
proof -
  have B: "bolt_ok B" using g by (simp add: del_good_def)
  let ?rec = "\<lparr>dr_Path = p, dr_DeletionCommit = fst r, dr_DeletedAt = snd r\<rparr>"
  obtain db1 db2 where d: "normalizePath p \<noteq> []" "bget B db1 = (bget B db)(deletedBucket :=
       (bget B db deletedBucket)(normalizePath p \<mapsto> Row (?rec\<lparr>dr_Path := normalizePath p\<rparr>)))"
    "evictOldest B srt 0 db1 = Some db2" "bget B db' = bget B db2"
    by (rule Upsert_step [OF B p [unfolded Upsert_at_def]]) simp
  then have "bget B db' = (bget B db)(deletedBucket :=
       (bget B db deletedBucket)(normalizePath p \<mapsto> Row (?rec\<lparr>dr_Path := normalizePath p\<rparr>)))"
    by (simp add: evictOldest_def)
  then show ?thesis using g d(1)
    by (auto simp: fun_eq_iff del_lookup_def del_good_def HasOriginMarker_def meta_get_def deleted_not_meta)
qed

lemma Drop_law:
  assumes g: "del_good B db" and p: "Drop B p db = Inr db'"
  shows "del_good B db' \<and> del_lookup B db' = (del_lookup B db)(normalizePath p := None)"
proof (cases "normalizePath p = []")
  case True
  then show ?thesis using p g by (auto simp: fun_eq_iff del_lookup_def Drop_def)
next
  case False
  have B: "bolt_ok B" using g by (simp add: del_good_def)
  have u: "update B (delete_in B deletedBucket (normalizePath p)) db = Inr db'"
    using p False by (simp add: Drop_def)
  obtain db1 where d: "delete_in B deletedBucket (normalizePath p) db = Some db1" "bget B db' = bget B db1"
    using update_Inr [OF B u] by blast
  note get = delete_in_reads(1) [OF B d(1)]
  show ?thesis
    using g False by (auto simp: fun_eq_iff del_lookup_def del_good_def HasOriginMarker_def meta_get_def d(2) get
        deleted_not_meta)
qed

interpretation deleted_log: record_store "del_good B" "del_lookup B" "Upsert_at B srt" "Drop B" for B srt
  by unfold_locales (fact Upsert_law, fact Drop_law)


lemma del_Create_good:
  assumes "bolt_ok B" "\<And>n k. bget B db0 n k = None" "del_Create B stat mk (Opened db0) now ns pr = Inr db"
  shows "del_good B db" "del_lookup B db = Map.empty"
proof -
  note c = store_create_reads [OF assms(1) assms(3) [unfolded del_Create_def] deleted_not_meta(1)]
  have g: "bget B db deletedBucket = Map.empty" using c assms(2) deleted_not_meta by auto
  have m: "meta_get B db MetaOrigin = OriginDeletion"
    using c by (auto simp: MetaOrigin_def MetaSchemaVersion_def)
  show "del_good B db" "del_lookup B db = Map.empty"
    using g m assms(1)
    by (auto simp: del_good_def del_lookup_def fun_eq_iff HasOriginMarker_def OriginDeletion_def)
qed

lemma del_List_set:
  assumes "del_good B db"
  shows "set (map dr_Path (del_List B db)) = dom (del_lookup B db)" "sorted_wrt (<) (map dr_Path (del_List B db))"
    "IsEmpty B db \<longleftrightarrow> del_lookup B db = Map.empty"
proof -
  have B: "bolt_ok B" using assms by (simp add: del_good_def)
  let ?rows = "rows_in B db deletedBucket"
  have ok: "kv_ok ?rows" and mo: "map_of ?rows = bget B db deletedBucket"
    using rows_in_reads [OF B] by (simp, simp add: fun_eq_iff)
  have row: "\<exists>r. v = Row r \<and> dr_Path r = k" if "(k, v) \<in> set ?rows" for k v
    using that kv_mem_iff [OF ok] mo assms unfolding del_good_def by metis
  have "map dr_Path (List.map_filter (\<lambda>(k, v). case v of Text t \<Rightarrow> None | Row r \<Rightarrow> Some r) rs) = map fst rs"
    if "set rs \<subseteq> set ?rows" for rs
    using that
  proof (induction rs)
    case (Cons p rs)
    obtain k v where p: "p = (k, v)" by fastforce
    then obtain r where "v = Row r" "dr_Path r = k" using row Cons.prems by auto
    then show ?case using p Cons by (simp add: List.map_filter_simps)
  qed (simp add: List.map_filter_simps)
  note keys = this [OF subset_refl]
  let ?l = "List.map_filter (\<lambda>(k, v). case v of Text t \<Rightarrow> None | Row r \<Rightarrow> Some r) ?rows"
  have srt: "sorted_wrt (<) (map dr_Path ?l)" using ok keys by (simp add: kv_ok_def)
  then have l: "del_List B db = ?l" by (simp add: del_List_def sort_key_id_if_sorted strict_sorted_iff)
  then show "sorted_wrt (<) (map dr_Path (del_List B db))" using srt by simp
  have dl: "dom (del_lookup B db) = dom (bget B db deletedBucket)"
  proof -
    have "del_lookup B db k \<noteq> None \<longleftrightarrow> bget B db deletedBucket k \<noteq> None" for k
    proof (cases "bget B db deletedBucket k")
      case (Some v)
      then obtain r where "v = Row r" "k \<noteq> []" using assms unfolding del_good_def by blast
      then show ?thesis using Some by (simp add: del_lookup_def)
    qed (simp add: del_lookup_def)
    then show ?thesis by (auto simp: dom_def)
  qed
  show "set (map dr_Path (del_List B db)) = dom (del_lookup B db)"
    unfolding l keys dl using dom_map_of_conv_image_fst [of ?rows] mo by simp
  have "?rows = [] \<longleftrightarrow> map_of ?rows = Map.empty" by simp
  then have "IsEmpty B db \<longleftrightarrow> dom (bget B db deletedBucket) = {}" unfolding IsEmpty_def mo by simp
  then show "IsEmpty B db \<longleftrightarrow> del_lookup B db = Map.empty" unfolding dl [symmetric] by simp
qed

text \<open>
  the deleted log is the live set: after any run of recorded deletions (without a cap) and
  drops on a created log, the listed paths are in ascending order and exactly those whose last change
  was a deletion, the log says it is empty exactly when there is none, and it
  still carries the origin marker of its creation.
\<close>

theorem deleted_log_live:
  assumes "bolt_ok B" "\<And>n k. bget B db0 n k = None"
    and "del_Create B stat mk (Opened db0) now ns pr = Inr db"
    and "run_changes (Upsert_at B srt) (Drop B) cs db = Inr db'"
  shows "set (map dr_Path (del_List B db')) = dom (map_changes cs Map.empty) \<and>
    sorted_wrt (<) (map dr_Path (del_List B db')) \<and>
    (IsEmpty B db' \<longleftrightarrow> map_changes cs Map.empty = Map.empty) \<and> HasOriginMarker B db'"
proof -
  note c = del_Create_good [OF assms(1,2,3)]
  from deleted_log.changes_refine [OF c(1) assms(4)] c(2)
  have g: "del_good B db'" and l: "del_lookup B db' = map_changes cs Map.empty" by simp_all
  then show ?thesis using del_List_set [OF g] by (simp add: l) (simp add: del_good_def)
qed

definition demo_dels :: "(string \<times> int) change list" where
  "demo_dels = [Put ''a.md'' (''c1'', 3), Put ''d/b.md'' (''c2'', 1), Del ''/a.md'']"

definition demo_del_db :: "del_row mem_db" where
  "demo_del_db =
     (case del_Create mem_bolt StatNotExist True (Opened []) ''t'' ''ns'' ''pr'' of Inr db \<Rightarrow> db | Inl e \<Rightarrow> [])"

theorem deleted_log_live_witness:
  "\<exists>db' :: del_row mem_db. run_changes (Upsert_at mem_bolt (sort_key snd)) (Drop mem_bolt) demo_dels demo_del_db = Inr db' \<and>
     set (map dr_Path (del_List mem_bolt db')) = {''d/b.md''} \<and> HasOriginMarker mem_bolt db'"
proof -
  have c: "del_Create mem_bolt StatNotExist True (Opened []) ''t'' ''ns'' ''pr'' = Inr demo_del_db" by code_simp
  have e: "bget mem_bolt ([] :: del_row mem_db) n k = None" for n k by (simp add: bget_def mem_bolt_def)
  have "\<not> isl (run_changes (Upsert_at mem_bolt (sort_key snd)) (Drop mem_bolt) demo_dels demo_del_db)" by code_simp
  then obtain db' where r: "run_changes (Upsert_at mem_bolt (sort_key snd)) (Drop mem_bolt) demo_dels demo_del_db = Inr db'"
    using not_isl_Inr by blast
  have n: "normalizePath ''a.md'' = ''a.md''" "normalizePath ''d/b.md'' = ''d/b.md''" "normalizePath ''/a.md'' = ''a.md''"
    by code_simp+
  have "map_changes demo_dels Map.empty = [''d/b.md'' \<mapsto> (''c2'', 1)]" by (rule ext) (simp add: demo_dels_def n)
  with deleted_log_live [OF mem_bolt_ok e c r] r show ?thesis by simp
qed

section \<open>The rebuild\<close>

lemma del_rows_get:
  assumes "distinct (map (\<lambda>r. normalizePath (dr_Path r)) kept)"
  shows "map_of (rev (del_rows kept)) k = Some v \<longleftrightarrow>
    (\<exists>r\<in>set kept. normalizePath (dr_Path r) = k \<and> k \<noteq> [] \<and> v = Row (r\<lparr>dr_Path := k\<rparr>))"
proof -
  have rows: "del_rows kept = map (\<lambda>r. (normalizePath (dr_Path r), Row (r\<lparr>dr_Path := normalizePath (dr_Path r)\<rparr>)))
      (filter (\<lambda>r. normalizePath (dr_Path r) \<noteq> []) kept)"
    by (induction kept) (auto simp: del_rows_def List.map_filter_simps Let_def)
  have "distinct (map fst (del_rows kept))"
    using distinct_map_filter [OF assms] unfolding rows by (simp add: comp_def)
  then have "map_of (rev (del_rows kept)) k = Some v \<longleftrightarrow> (k, v) \<in> set (del_rows kept)"
    by (subst distinct_mem_map_of [symmetric]) (simp_all flip: rev_map)
  then show ?thesis unfolding rows by auto
qed

text \<open>
  the bounded rebuild keeps the newest: after \<open>ReplaceAll\<close> with a positive cap and records
  under distinct nonempty normalised paths, the log holds as many of them as the cap allows, nothing
  of its earlier content, and no record left out is newer than one kept, for every way the sort orders
  equal times.
\<close>

theorem ReplaceAll_keeps_newest:
  assumes "bolt_ok B" "sorts_by (\<lambda>r. - dr_DeletedAt r) srt" "0 < m"
    and "distinct (map (\<lambda>r. normalizePath (dr_Path r)) records)" "[] \<notin> (\<lambda>r. normalizePath (dr_Path r)) ` set records"
    and "del_ReplaceAll B srt records m db = Inr db'"
  shows "kept_newest (nat m) (map_of (rev (del_rows records))) (bget B db' deletedBucket)"
proof -
  let ?kept = "capNewest srt records m" and ?np = "\<lambda>r. normalizePath (dr_Path r)"
  obtain db1 where d: "replace_in B deletedBucket (del_rows ?kept) db = Some db1" "bget B db' = bget B db1"
    using update_Inr [OF assms(1) assms(6) [unfolded del_ReplaceAll_def]] by blast
  have after: "bget B db' deletedBucket = map_of (rev (del_rows ?kept))"
    using replace_in_reads(1) [OF assms(1) d(1)] d(2) by simp
  have sdis: "distinct (map ?np (srt records))" by (rule iffD2 [OF sorts_by_distinct [OF assms(2)] assms(4)])
  have sub: "set ?kept \<subseteq> set records"
    using sorts_by_set(1) [OF assms(2), of records] by (auto simp: capNewest_def dest: in_set_takeD)
  have kdis: "distinct (map ?np ?kept)"
    using assms(4) sdis by (simp add: capNewest_def take_map [symmetric])
  have len: "length ?kept = min (nat m) (length records)"
    using sorts_by_set(2) [OF assms(2), of records] assms(3) by (auto simp: capNewest_def)
  have dom: "dom (map_of (rev (del_rows rs))) = ?np ` set rs" if "distinct (map ?np rs)" "set rs \<subseteq> set records" for rs
  proof (intro set_eqI iffI)
    fix k assume "k \<in> ?np ` set rs"
    moreover from this have "k \<in> ?np ` set records" using that(2) by blast
    then have "k \<noteq> []" using assms(5) by metis
    ultimately show "k \<in> dom (map_of (rev (del_rows rs)))" using del_rows_get [OF that(1), of k] by blast
  next
    fix k assume "k \<in> dom (map_of (rev (del_rows rs)))"
    then show "k \<in> ?np ` set rs" using del_rows_get [OF that(1), of k] by blast
  qed
  have card: "card (?np ` set rs) = length rs" if "distinct (map ?np rs)" for rs
    using distinct_card [OF that] by simp
  have older: "dr_DeletedAt r \<le> dr_DeletedAt q" if "r \<in> set records" "r \<notin> set ?kept" "q \<in> set ?kept" for r q
  proof -
    have k: "?kept = take (nat m) (srt records)" using that(1,2) by (auto simp: capNewest_def split: if_splits)
    have "r \<in> set (drop (nat m) (srt records))"
      using that(1,2) sorts_by_set(1) [OF assms(2), of records] unfolding k
      by (metis Un_iff append_take_drop_id set_append)
    then show ?thesis using sorts_by_split [OF assms(2), of q "nat m" records r] that(3) unfolding k by simp
  qed
  show ?thesis
    unfolding kept_newest_def after dom [OF assms(4) subset_refl] dom [OF kdis sub] card [OF assms(4)] card [OF kdis]
  proof (intro conjI allI impI)
    show "map_of (rev (del_rows ?kept)) \<subseteq>\<^sub>m map_of (rev (del_rows records))"
      unfolding map_le_def dom [OF kdis sub]
    proof
      fix k assume "k \<in> ?np ` set ?kept"
      then obtain r where r: "r \<in> set ?kept" "k = ?np r" by blast
      then have "k \<noteq> []" using sub assms(5) by force
      then have "map_of (rev (del_rows ?kept)) k = Some (Row (r\<lparr>dr_Path := k\<rparr>))"
        "map_of (rev (del_rows records)) k = Some (Row (r\<lparr>dr_Path := k\<rparr>))"
        using del_rows_get [OF kdis] del_rows_get [OF assms(4)] r sub by blast+
      then show "map_of (rev (del_rows ?kept)) k = map_of (rev (del_rows records)) k" by simp
    qed
    show "length ?kept = min (nat m) (length records)" by (rule len)
    fix p v q w
    assume v: "map_of (rev (del_rows records)) p = Some v" "map_of (rev (del_rows ?kept)) p = None"
      and w: "map_of (rev (del_rows ?kept)) q = Some w"
    obtain r where r: "r \<in> set records" "?np r = p" "p \<noteq> []" "v = Row (r\<lparr>dr_Path := p\<rparr>)"
      using v(1) del_rows_get [OF assms(4)] by blast
    have "r \<notin> set ?kept" using v(2) r del_rows_get [OF kdis, of p] by auto
    moreover obtain s where "s \<in> set ?kept" "w = Row (s\<lparr>dr_Path := q\<rparr>)" using w del_rows_get [OF kdis] by blast
    ultimately show "row_time v \<le> row_time w" using older r by (simp add: row_time_def)
  qed
qed

theorem ReplaceAll_keeps_newest_witness:
  "\<exists>db' :: del_row mem_db.
     del_ReplaceAll mem_bolt (sort_key (\<lambda>r. - dr_DeletedAt r))
       [\<lparr>dr_Path = ''/n'', dr_DeletionCommit = ''c3'', dr_DeletedAt = 7\<rparr>,
        \<lparr>dr_Path = ''k'', dr_DeletionCommit = ''c4'', dr_DeletedAt = 8\<rparr>] 1 demo_del = Inr db' \<and>
     card (dom (bget mem_bolt db' deletedBucket)) = 1"
proof -
  let ?rs = "[\<lparr>dr_Path = ''/n'', dr_DeletionCommit = ''c3'', dr_DeletedAt = 7\<rparr>,
              \<lparr>dr_Path = ''k'', dr_DeletionCommit = ''c4'', dr_DeletedAt = 8\<rparr>]"
  have "\<not> isl (del_ReplaceAll mem_bolt (sort_key (\<lambda>r. - dr_DeletedAt r)) ?rs 1 demo_del)" by code_simp
  then obtain db' where r: "del_ReplaceAll mem_bolt (sort_key (\<lambda>r. - dr_DeletedAt r)) ?rs 1 demo_del = Inr db'"
    using not_isl_Inr by blast
  have n: "normalizePath ''/n'' = ''n''" "normalizePath ''k'' = ''k''" by code_simp+
  have d: "distinct (map (\<lambda>r. normalizePath (dr_Path r)) ?rs)" "[] \<notin> (\<lambda>r. normalizePath (dr_Path r)) ` set ?rs"
    by (simp_all add: n)
  have "dom (map_of (rev (del_rows ?rs))) = {''n'', ''k''}"
    using del_rows_get [OF d(1)] by (auto simp: n dom_def)
  then show ?thesis using ReplaceAll_keeps_newest [OF mem_bolt_ok sorts_by_sort_key _ d r] r by (auto simp: kept_newest_def)
qed

end
