(* ===== verification/Commit.thy ===== *)
theory Commit
  imports Ref_Write Git_Tree Commit_Identity Op_Meta Wal Wal_Worker Deleted_Log
begin

text \<open>
  The commit step (\<open>internal/storage/commit.go\<close>, \<open>commitEntry\<close>) and its hook into the log of deleted
  files (\<open>internal/storage/deletedlog_store.go\<close>, \<open>deletedLogApply\<close>): one entry of the write-ahead log
  becomes one commit on \<open>HEAD\<close>.  What go-git decides (the object store, \<open>Head\<close>, the tree walker, the
  text of a hash) is in the record \<open>commit_lib\<close>; what varies from call to call (time, names the system
  picks, calls that fail) in \<open>commit_call\<close>: \<open>ca_headFails\<close> and \<open>ca_baseFails\<close> are the errors of \<open>r.Head()\<close> and
  \<open>r.CommitObject\<close>, which the code takes for a project without commits.  Objects a failing call has already stored are unreachable and
  left out.
\<close>

record 'h commit_lib =
  cl_git :: "'h git"
  cl_head :: "'h refs \<Rightarrow> 'h option"
  cl_walk :: "'h odb \<Rightarrow> 'h \<Rightarrow> (string \<times> 'h tree_entry) list option"
  cl_text :: "'h \<Rightarrow> string"
  cl_lower :: "nat \<Rightarrow> nat"

record 'db del_lib =
  dl_bolt :: "('db, del_row) bolt"
  dl_sort :: "(string \<times> int) list \<Rightarrow> (string \<times> int) list"

record commit_cfg =
  cc_defaults :: id_defaults
  cc_deletedLogEnabled :: bool
  cc_deletedLogMaxEntries :: int

record 'db commit_call =
  ca_now :: int
  ca_rnd :: string
  ca_headFails :: bool
  ca_baseFails :: bool
  ca_faults :: ref_faults
  ca_setIndex :: bool
  ca_stat :: stat_res
  ca_opened :: "'db open_res"
  ca_mkdir :: bool
  ca_created :: "'db open_res"
  ca_created_at :: string

datatype repo_state = RepoOpens | RepoNotExists | RepoUnreadable

record change_event =
  ev_Event :: string
  ev_Namespace :: string
  ev_Project :: string
  ev_Path :: string
  ev_CommitHash :: string
  ev_Timestamp :: int

record ('h, 'db) project =
  pj_open :: repo_state
  pj_odb :: "'h odb"
  pj_refs :: "'h refs"
  pj_index :: "(string \<times> 'h \<times> filemode) list"
  pj_dangerous :: bool
  pj_deleted :: "'db option"
  pj_dlUpdateFailed :: nat
  pj_events :: "change_event list"

datatype commit_error =
  OpenAbsent | OpenFailed | BuildTree | RemoveSource | StoreMovedBlob | AddDestination | StoreBlob
| StoreCommit | AdvanceHead ref_error

text \<open>\<open>errors.Is(err, walworker.ErrCommitPermanent)\<close>.\<close>

definition commit_result_of :: "commit_error option \<Rightarrow> commit_result" where
  "commit_result_of r =
     (case r of None \<Rightarrow> CommitOk | Some OpenAbsent \<Rightarrow> CommitPermanent | Some _ \<Rightarrow> CommitErr)"

section \<open>The deleted log\<close>

definition deletedLogForRead ::
    "'db del_lib \<Rightarrow> 'db commit_call \<Rightarrow> ('h, 'db) project \<Rightarrow> 'db option" where
  "deletedLogForRead D K p =
     (case pj_deleted p of
        Some st \<Rightarrow> Some st
      | None \<Rightarrow>
          (case del_Open (dl_bolt D) (ca_stat K) (ca_opened K) of Inl e \<Rightarrow> None | Inr st \<Rightarrow> Some st))"

definition deletedLogFor ::
    "'db del_lib \<Rightarrow> 'db commit_call \<Rightarrow> wal_entry \<Rightarrow> ('h, 'db) project \<Rightarrow> 'db option" where
  "deletedLogFor D K e p =
     (case pj_deleted p of
        Some st \<Rightarrow> Some st
      | None \<Rightarrow>
          (case del_Open (dl_bolt D) (ca_stat K) (ca_opened K) of
             Inr st \<Rightarrow> Some st
           | Inl err \<Rightarrow>
               (if err = ErrNotFound
                then case del_Create (dl_bolt D) (ca_stat K) (ca_mkdir K) (ca_created K) (ca_created_at K)
                            (e_Namespace e) (e_Project e) of
                       Inl err2 \<Rightarrow> None | Inr st \<Rightarrow> Some st
                else None)))"

definition dl_failed :: "('h, 'db) project \<Rightarrow> ('h, 'db) project" where
  "dl_failed p = p\<lparr>pj_dlUpdateFailed := pj_dlUpdateFailed p + 1\<rparr>"

definition dl_set :: "'db \<Rightarrow> ('h, 'db) project \<Rightarrow> ('h, 'db) project" where
  "dl_set st p = p\<lparr>pj_deleted := Some st\<rparr>"

definition deletedLogApply ::
    "'db del_lib \<Rightarrow> commit_cfg \<Rightarrow> 'db commit_call \<Rightarrow> wal_entry \<Rightarrow> string \<Rightarrow> ('h, 'db) project \<Rightarrow>
     ('h, 'db) project" where
  "deletedLogApply D C K e commitHash p =
     (if \<not> cc_deletedLogEnabled C then p
      else if e_Op e = ''delete'' then
        (case deletedLogFor D K e p of
           None \<Rightarrow> dl_failed p
         | Some st \<Rightarrow>
             (case Upsert (dl_bolt D) (dl_sort D)
                     \<lparr>dr_Path = e_Path e, dr_DeletionCommit = commitHash, dr_DeletedAt = ca_now K\<rparr>
                     (cc_deletedLogMaxEntries C) st of
                Inl e \<Rightarrow> dl_failed (dl_set st p) | Inr st1 \<Rightarrow> dl_set st1 p))
      else
        (case deletedLogForRead D K p of
           None \<Rightarrow> p
         | Some st \<Rightarrow>
             (if e_Op e = ''move'' then
                (let r1 = Drop (dl_bolt D) (e_MoveFrom e) st;
                     st1 = (case r1 of Inl e \<Rightarrow> st | Inr s \<Rightarrow> s);
                     r2 = Drop (dl_bolt D) (e_Path e) st1;
                     st2 = (case r2 of Inl e \<Rightarrow> st1 | Inr s \<Rightarrow> s);
                     p2 = dl_set st2 p in
                 if isl r1 \<or> isl r2 then dl_failed p2 else p2)
              else
                (case Drop (dl_bolt D) (e_Path e) st of
                   Inl e \<Rightarrow> dl_failed (dl_set st p) | Inr st1 \<Rightarrow> dl_set st1 p))))"

section \<open>The commit\<close>

definition opMetaForEntry :: "wal_entry \<Rightarrow> meta" where
  "opMetaForEntry e =
     (if e_Op e = ''delete'' then \<lparr>m_Op = OpDelete, m_Path = e_Path e, m_From = []\<rparr>
      else if e_Op e = ''move'' then \<lparr>m_Op = OpMove, m_Path = e_Path e, m_From = e_MoveFrom e\<rparr>
      else \<lparr>m_Op = OpWrite, m_Path = e_Path e, m_From = []\<rparr>)"

definition buildMoveTree ::
    "'h git \<Rightarrow> 'h \<Rightarrow> wal_entry \<Rightarrow> 'h odb \<Rightarrow> commit_error + ('h \<times> 'h odb)" where
  "buildMoveTree G baseTree e db =
     (case applyToTree G baseTree (split_on slash (e_MoveFrom e)) (g_zero G) True db of
        None \<Rightarrow> Inl RemoveSource
      | Some (tree, db1) \<Rightarrow>
          (case storeBlob G (e_Content e) db1 of
             None \<Rightarrow> Inl StoreMovedBlob
           | Some (destBlob, db2) \<Rightarrow>
               (case applyToTree G tree (split_on slash (e_Path e)) destBlob False db2 of
                  None \<Rightarrow> Inl AddDestination
                | Some r \<Rightarrow> Inr r)))"

definition build_tree ::
    "'h git \<Rightarrow> 'h \<Rightarrow> wal_entry \<Rightarrow> 'h odb \<Rightarrow> commit_error + ('h \<times> 'h odb)" where
  "build_tree G baseTree e db =
     (if e_Op e = ''delete'' then
        (case applyToTree G baseTree (split_on slash (e_Path e)) (g_zero G) True db of
           None \<Rightarrow> Inl BuildTree | Some r \<Rightarrow> Inr r)
      else if e_Op e = ''move'' then buildMoveTree G baseTree e db
      else
        (case storeBlob G (e_Content e) db of
           None \<Rightarrow> Inl StoreBlob
         | Some (blob, db1) \<Rightarrow>
             (case applyToTree G baseTree (split_on slash (e_Path e)) blob False db1 of
                None \<Rightarrow> Inl BuildTree | Some r \<Rightarrow> Inr r)))"

definition commit_subject :: "wal_entry \<Rightarrow> string" where
  "commit_subject e =
     (if e_Op e = ''delete'' then ''Delete '' @ e_Path e
      else if e_Op e = ''move'' then ''Move '' @ e_MoveFrom e @ '' -> '' @ e_Path e
      else ''Update '' @ e_Path e)"

definition commit_event :: "wal_entry \<Rightarrow> string" where
  "commit_event e =
     (if e_Op e = ''delete'' then ''file_deleted''
      else if e_Op e = ''move'' then ''file_moved'' else ''file_written'')"

definition entry_identity :: "commit_cfg \<Rightarrow> wal_entry \<Rightarrow> commit_identity" where
  "entry_identity C e =
     WithDefaults (cc_defaults C)
       \<lparr>ci_UserName = e_UserName e, ci_UserEmail = e_UserEmail e, ci_AgentName = e_AgentName e,
        ci_WorkerID = e_WorkerID e, ci_AuthorIsUser = e_AuthorIsUser e\<rparr>"

definition make_commit ::
    "'h commit_lib \<Rightarrow> commit_cfg \<Rightarrow> int \<Rightarrow> wal_entry \<Rightarrow> 'h \<Rightarrow> 'h list \<Rightarrow> 'h commit" where
  "make_commit L C now e newTree parents =
     (let idn = entry_identity C e;
          committer = \<lparr>sg_Name = ci_UserName idn, sg_Email = ci_UserEmail idn, sg_When = now\<rparr>;
          author = (if ci_AuthorIsUser idn then committer
                    else \<lparr>sg_Name = ci_AgentName idn, sg_Email = AgentEmail (cl_lower L) (ci_AgentName idn), sg_When = now\<rparr>) in
      \<lparr>c_Author = author, c_Committer = committer,
       c_Message = commit_subject e @ [newline, newline] @ Trailers idn @ Trailer (opMetaForEntry e),
       c_TreeHash = newTree, c_ParentHashes = parents\<rparr>)"

definition resetIndexToTree ::
    "'h commit_lib \<Rightarrow> bool \<Rightarrow> 'h odb \<Rightarrow> 'h \<Rightarrow> (string \<times> 'h \<times> filemode) list \<Rightarrow> (string \<times> 'h \<times> filemode) list" where
  "resetIndexToTree L setIndex_ok db tree index =
     (case cl_walk L db tree of
        None \<Rightarrow> index
      | Some es \<Rightarrow>
          (if setIndex_ok
           then map (\<lambda>(name, e). (name, te_Hash e, te_Mode e))
                  (filter (\<lambda>(name, e). te_Mode e \<in> {Regular, Deprecated, Executable, Symlink}) es)
           else index))"

definition head_base :: "'h commit_lib \<Rightarrow> bool \<Rightarrow> bool \<Rightarrow> 'h odb \<Rightarrow> 'h refs \<Rightarrow> 'h list \<times> 'h" where
  "head_base L headFails baseFails db refs =
     (case (if headFails then None else cl_head L refs) of
        None \<Rightarrow> ([], g_zero (cl_git L))
      | Some h \<Rightarrow>
          ([h], case (if baseFails then None else db h) of
                  Some (CommitObj c) \<Rightarrow> c_TreeHash c
                | _ \<Rightarrow> g_zero (cl_git L)))"

definition commitEntry ::
    "'h commit_lib \<Rightarrow> 'db del_lib \<Rightarrow> commit_cfg \<Rightarrow> 'db commit_call \<Rightarrow> wal_entry \<Rightarrow> ('h, 'db) project \<Rightarrow>
     commit_error option \<times> ('h, 'db) project" where
  "commitEntry L D C K e p =
     (case pj_open p of
        RepoNotExists \<Rightarrow> (Some OpenAbsent, p\<lparr>pj_dangerous := True\<rparr>)
      | RepoUnreadable \<Rightarrow> (Some OpenFailed, p\<lparr>pj_dangerous := True\<rparr>)
      | RepoOpens \<Rightarrow>
          (let (parents, baseTree) = head_base L (ca_headFails K) (ca_baseFails K) (pj_odb p) (pj_refs p) in
           case build_tree (cl_git L) baseTree e (pj_odb p) of
             Inl err \<Rightarrow> (Some err, p)
           | Inr (newTree, db) \<Rightarrow>
               (if newTree = baseTree then (None, p\<lparr>pj_odb := db\<rparr>)
                else
                  (case SetEncodedObject (cl_git L)
                          (CommitObj (make_commit L C (ca_now K) e newTree parents)) db of
                     None \<Rightarrow> (Some StoreCommit, p\<lparr>pj_odb := db\<rparr>)
                   | Some (commitHash, db1) \<Rightarrow>
                       (let (aerr, steps) = advanceHead (ca_rnd K) (ca_faults K) commitHash (pj_refs p);
                            p1 = p\<lparr>pj_odb := db1, pj_refs := refs_after (pj_refs p) steps\<rparr> in
                        case aerr of
                          Some re \<Rightarrow> (Some (AdvanceHead re), p1)
                        | None \<Rightarrow>
                            (let p2 = p1\<lparr>pj_index := resetIndexToTree L (ca_setIndex K) db1 newTree (pj_index p)\<rparr>;
                                 p3 = deletedLogApply D C K e (cl_text L commitHash) p2 in
                             (None, p3\<lparr>pj_events := pj_events p3 @
                                [\<lparr>ev_Event = commit_event e, ev_Namespace = e_Namespace e, ev_Project = e_Project e, ev_Path = e_Path e,
                                  ev_CommitHash = cl_text L commitHash, ev_Timestamp = ca_now K\<rparr>]\<rparr>)))))))"

section \<open>What an entry does to the files\<close>

definition entry_ok :: "wal_entry \<Rightarrow> bool" where
  "entry_ok e \<longleftrightarrow> segs (split_on slash (e_Path e)) \<and> (e_Op e = ''move'' \<longrightarrow> segs (split_on slash (e_MoveFrom e)))"

definition blob_id :: "'h git \<Rightarrow> wal_entry \<Rightarrow> 'h" where
  "blob_id G e = g_hash G (BlobObj (e_Content e))"

definition entry_effect ::
    "'h git \<Rightarrow> wal_entry \<Rightarrow> (string list \<Rightarrow> (filemode \<times> 'h) option) \<Rightarrow> string list \<Rightarrow> (filemode \<times> 'h) option" where
  "entry_effect G e old =
     (let path = split_on slash (e_Path e) in
      if e_Op e = ''delete'' then file_after path None old
      else if e_Op e = ''move''
      then file_after path (Some (Regular, blob_id G e)) (file_after (split_on slash (e_MoveFrom e)) None old)
      else file_after path (Some (Regular, blob_id G e)) old)"

lemma storeBlob_spec:
  assumes "git_ok G" "odb_ok G db" "storeBlob G s db = Some (b, db')"
  shows "odb_ok G db'" "db \<subseteq>\<^sub>m db'" "b = g_hash G (BlobObj s)" "db' b = Some (BlobObj s)"
  using SetEncodedObject_ok [OF assms(1,2) assms(3) [unfolded storeBlob_def]]
    SetEncodedObject_odb [OF assms(1,2) assms(3) [unfolded storeBlob_def]] by simp_all

text \<open>The tree built for an entry.\<close>

definition built :: "'h git \<Rightarrow> 'h odb \<Rightarrow> 'h \<Rightarrow> wal_entry \<Rightarrow> 'h \<Rightarrow> 'h odb \<Rightarrow> bool" where
  "built G db base e t db' \<longleftrightarrow>
     odb_ok G db' \<and> db \<subseteq>\<^sub>m db' \<and> (\<exists>es. db' t = Some (TreeObj es)) \<and>
     (\<forall>q. tree_file G db' t q = entry_effect G e (tree_file G db base) q) \<and>
     (e_Op e = ''delete'' \<or> db' (blob_id G e) = Some (BlobObj (e_Content e)))"

lemma map_le_Some: "m \<subseteq>\<^sub>m m' \<Longrightarrow> m k = Some v \<Longrightarrow> m' k = Some v"
  by (auto simp: map_le_def dom_def)

lemma build_tree_built:
  assumes G: "git_ok G" and o: "odb_ok G db" and b: "tree_in G db base" and e: "entry_ok e"
    and t: "build_tree G base e db = Inr (t, db')"
  shows "built G db base e t db'"
proof -
  let ?path = "split_on slash (e_Path e)" and ?from = "split_on slash (e_MoveFrom e)"
  have sp: "segs ?path" using e by (simp add: entry_ok_def)
  consider "e_Op e = ''delete''" | "e_Op e = ''move''" | "e_Op e \<noteq> ''delete''" "e_Op e \<noteq> ''move''" by blast
  then show ?thesis
  proof cases
    case 1
    then have a: "applyToTree G base ?path (g_zero G) True db = Some (t, db')"
      using t by (simp add: build_tree_def split: option.splits)
    from applyToTree_files [OF G o b sp a] 1 show ?thesis by (auto simp: built_def entry_effect_def)
  next
    case 2
    obtain t1 db1 bl db2 where s: "applyToTree G base ?from (g_zero G) True db = Some (t1, db1)"
      "storeBlob G (e_Content e) db1 = Some (bl, db2)" "applyToTree G t1 ?path bl False db2 = Some (t, db')"
      using t 2 by (auto simp: build_tree_def buildMoveTree_def split: option.splits)
    have sf: "segs ?from" using e 2 by (simp add: entry_ok_def)
    have f1: "odb_ok G db1" "db \<subseteq>\<^sub>m db1" "tree_in G db1 t1"
      "\<And>q. tree_file G db1 t1 q = file_after ?from None (tree_file G db base) q"
      using applyToTree_files [OF G o b sf s(1)] by (auto simp: tree_in_def)
    note f2 = storeBlob_spec [OF G f1(1) s(2)]
    have t1: "tree_in G db2 t1" by (rule tree_in_mono [OF f1(3) f2(2)])
    note f3 = applyToTree_files [OF G f2(1) t1 sp s(3)]
    have "tree_file G db2 t1 = file_after ?from None (tree_file G db base)"
      using tree_file_mono [OF G f1(1) f2(2) f1(3)] f1(4) by (simp add: fun_eq_iff)
    moreover have "db \<subseteq>\<^sub>m db'" using f1(2) f2(2) f3 map_le_trans by blast
    moreover have "db' bl = Some (BlobObj (e_Content e))" using f3 map_le_Some [of db2 db' bl] f2(4) by blast
    ultimately show ?thesis using f3 2 f2(3) by (auto simp: built_def entry_effect_def blob_id_def)
  next
    case 3
    obtain bl db2 where s: "storeBlob G (e_Content e) db = Some (bl, db2)"
      "applyToTree G base ?path bl False db2 = Some (t, db')"
      using t 3 by (auto simp: build_tree_def split: option.splits)
    note f2 = storeBlob_spec [OF G o s(1)]
    note f3 = applyToTree_files [OF G f2(1) tree_in_mono [OF b f2(2)] sp s(2)]
    have "tree_file G db2 base = tree_file G db base"
      using tree_file_mono [OF G o f2(2) b] by (simp add: fun_eq_iff)
    moreover have "db \<subseteq>\<^sub>m db'" using f2(2) f3 map_le_trans by blast
    moreover have "db' bl = Some (BlobObj (e_Content e))" using f3 map_le_Some [of db2 db' bl] f2(4) by blast
    ultimately show ?thesis using f3 3 f2(3) by (auto simp: built_def entry_effect_def blob_id_def)
  qed
qed

section \<open>One call\<close>

definition libs_ok :: "'h commit_lib \<Rightarrow> bool" where
  "libs_ok L \<longleftrightarrow> git_ok (cl_git L) \<and> head_ok (cl_head L)"

text \<open>A project whose repository is sound: \<open>HEAD\<close> is unborn or names a stored commit of a stored tree.\<close>

definition project_ok :: "'h commit_lib \<Rightarrow> ('h, 'db) project \<Rightarrow> bool" where
  "project_ok L p \<longleftrightarrow>
     odb_ok (cl_git L) (pj_odb p) \<and> refs_ok (pj_refs p) \<and>
     (\<forall>h. cl_head L (pj_refs p) = Some h \<longrightarrow>
        (\<exists>c es. pj_odb p h = Some (CommitObj c) \<and> pj_odb p (c_TreeHash c) = Some (TreeObj es)))"

definition head_tree :: "'h commit_lib \<Rightarrow> ('h, 'db) project \<Rightarrow> 'h" where
  "head_tree L p = snd (head_base L False False (pj_odb p) (pj_refs p))"

definition head_files :: "'h commit_lib \<Rightarrow> ('h, 'db) project \<Rightarrow> string list \<Rightarrow> (filemode \<times> 'h) option" where
  "head_files L p q = tree_file (cl_git L) (pj_odb p) (head_tree L p) q"

definition call_ok :: "'db commit_call \<Rightarrow> bool" where
  "call_ok K \<longleftrightarrow> slash \<notin> set (ca_rnd K)"

text \<open>What a call reads of the head: its files, or nothing when one of the two reads fails.\<close>

definition reads_head :: "'db commit_call \<Rightarrow> bool" where
  "reads_head K \<longleftrightarrow> \<not> ca_headFails K \<and> \<not> ca_baseFails K"

definition files_read ::
    "'db commit_call \<Rightarrow> (string list \<Rightarrow> (filemode \<times> 'h) option) \<Rightarrow> string list \<Rightarrow> (filemode \<times> 'h) option" where
  "files_read K old = (if reads_head K then old else Map.empty)"

definition read_tree :: "'h commit_lib \<Rightarrow> 'db commit_call \<Rightarrow> ('h, 'db) project \<Rightarrow> 'h" where
  "read_tree L K p = snd (head_base L (ca_headFails K) (ca_baseFails K) (pj_odb p) (pj_refs p))"

definition read_parents :: "'h commit_lib \<Rightarrow> 'db commit_call \<Rightarrow> ('h, 'db) project \<Rightarrow> 'h list" where
  "read_parents L K p = fst (head_base L (ca_headFails K) (ca_baseFails K) (pj_odb p) (pj_refs p))"

lemma read_parents_head:
  "read_parents L K p = (case (if ca_headFails K then None else cl_head L (pj_refs p)) of None \<Rightarrow> [] | Some h \<Rightarrow> [h])"
  by (simp add: read_parents_def head_base_def split: option.split)

lemma read_tree_cases: "read_tree L K p = (if reads_head K then head_tree L p else g_zero (cl_git L))"
  by (simp add: read_tree_def head_tree_def reads_head_def head_base_def split: option.split)

lemma head_tree_in: "project_ok L p \<Longrightarrow> tree_in (cl_git L) (pj_odb p) (head_tree L p)"
  by (auto simp: project_ok_def head_tree_def head_base_def tree_in_def split: option.splits)

lemma head_tree_Some:
  "cl_head L (pj_refs p) = Some h \<Longrightarrow> pj_odb p h = Some (CommitObj c) \<Longrightarrow> head_tree L p = c_TreeHash c"
  by (simp add: head_tree_def head_base_def)

lemma read_tree_in: "project_ok L p \<Longrightarrow> tree_in (cl_git L) (pj_odb p) (read_tree L K p)"
  using head_tree_in [of L p] by (simp add: read_tree_cases) (simp add: tree_in_def)

lemma read_tree_files:
  "tree_file (cl_git L) (pj_odb p) (read_tree L K p) = files_read K (head_files L p)"
  by (auto simp: read_tree_cases files_read_def head_files_def fun_eq_iff tree_file_zero)

text \<open>A project with the same head and more objects has the same files.\<close>

lemma head_same:
  assumes "libs_ok L" "project_ok L p" "cl_head L (pj_refs p') = cl_head L (pj_refs p)"
    and "pj_odb p \<subseteq>\<^sub>m pj_odb p'"
  shows "head_tree L p' = head_tree L p" "head_files L p' q = head_files L p q"
proof -
  show t: "head_tree L p' = head_tree L p"
  proof (cases "cl_head L (pj_refs p)")
    case (Some h)
    then obtain c where c: "pj_odb p h = Some (CommitObj c)" using assms(2) by (auto simp: project_ok_def)
    moreover from map_le_Some [OF assms(4) c] have "pj_odb p' h = Some (CommitObj c)" .
    ultimately show ?thesis using head_tree_Some [of L p h c] head_tree_Some [of L p' h c] assms(3) Some by simp
  qed (use assms(3) in \<open>simp add: head_tree_def head_base_def\<close>)
  have "git_ok (cl_git L)" "odb_ok (cl_git L) (pj_odb p)" using assms(1,2) by (simp_all add: libs_ok_def project_ok_def)
  from tree_file_mono [OF this assms(4) head_tree_in [OF assms(2)]]
  show "head_files L p' q = head_files L p q" by (simp add: head_files_def t)
qed

lemma project_ok_same:
  assumes "project_ok L p" "cl_head L (pj_refs p') = cl_head L (pj_refs p)" "refs_ok (pj_refs p')"
    and "pj_odb p \<subseteq>\<^sub>m pj_odb p'" "odb_ok (cl_git L) (pj_odb p')"
  shows "project_ok L p'"
  using assms(1,2,3,5) map_le_Some [OF assms(4)] unfolding project_ok_def by (metis (no_types))

text \<open>The rest of a project: what only a landed commit changes.\<close>

definition rest :: "('h, 'db) project \<Rightarrow> 'db option \<times> nat \<times> change_event list" where
  "rest p = (pj_deleted p, pj_dlUpdateFailed p, pj_events p)"

lemma deletedLogApply_repo [simp]:
  "pj_odb (deletedLogApply D C K e t p) = pj_odb p" "pj_refs (deletedLogApply D C K e t p) = pj_refs p"
  by (simp_all add: deletedLogApply_def dl_failed_def dl_set_def Let_def split: option.split sum.split)

text \<open>The outcomes of a call: nothing recorded, or one commit.\<close>

lemma commitEntry_outcome:
  assumes L: "libs_ok L" and p: "project_ok L p" and e: "entry_ok e" and k: "call_ok K"
    and r: "commitEntry L D C K e p = (r, p')"
  obtains
    (failed) x where "r = Some x" "cl_head L (pj_refs p') = cl_head L (pj_refs p)" "refs_ok (pj_refs p')"
      "pj_odb p \<subseteq>\<^sub>m pj_odb p'" "odb_ok (cl_git L) (pj_odb p')" "rest p' = rest p"
      "pj_open p = RepoNotExists \<longleftrightarrow> x = OpenAbsent"
  | (unchanged) db' where "r = None" "p' = p\<lparr>pj_odb := db'\<rparr>" "pj_open p = RepoOpens"
      "built (cl_git L) (pj_odb p) (read_tree L K p) e (read_tree L K p) db'" "reads_head K"
  | (committed) t db h p2 where "r = None" "pj_open p = RepoOpens"
      "built (cl_git L) (pj_odb p) (read_tree L K p) e t db" "t \<noteq> read_tree L K p"
      "db \<subseteq>\<^sub>m pj_odb p'" "odb_ok (cl_git L) (pj_odb p')" "refs_ok (pj_refs p')"
      "cl_head L (pj_refs p') = Some h"
      "pj_odb p' h = Some (CommitObj (make_commit L C (ca_now K) e t (read_parents L K p)))"
      "rest p2 = rest p" "pj_odb p2 = pj_odb p'" "build_tree (cl_git L) (read_tree L K p) e (pj_odb p) = Inr (t, db)"
      "pj_deleted p' = pj_deleted (deletedLogApply D C K e (cl_text L h) p2)"
      "pj_dlUpdateFailed p' = pj_dlUpdateFailed (deletedLogApply D C K e (cl_text L h) p2)"
proof -
  let ?G = "cl_git L" and ?db = "pj_odb p"
  have G: "git_ok ?G" and H: "head_ok (cl_head L)" using L by (simp_all add: libs_ok_def)
  have o: "odb_ok ?G ?db" and ro: "refs_ok (pj_refs p)" using p by (simp_all add: project_ok_def)
  note ti = read_tree_in [OF p, of K]
  obtain parents base where hb: "head_base L (ca_headFails K) (ca_baseFails K) ?db (pj_refs p) = (parents, base)" by (cases "head_base L (ca_headFails K) (ca_baseFails K) ?db (pj_refs p)")
  then have b: "base = read_tree L K p" "parents = read_parents L K p" by (simp_all add: read_tree_def read_parents_def)
  show thesis
  proof (cases "pj_open p = RepoOpens")
    case False
    then have "r = Some (if pj_open p = RepoNotExists then OpenAbsent else OpenFailed) \<and> p' = p\<lparr>pj_dangerous := True\<rparr>"
      using r by (cases "pj_open p") (auto simp: commitEntry_def)
    then show thesis using o ro by (intro failed [of "if pj_open p = RepoNotExists then OpenAbsent else OpenFailed"]) (auto simp: rest_def)
  next
    case opens: True
    show thesis
    proof (cases "build_tree ?G base e ?db")
      case (Inl err)
      then have "r = Some err" "p' = p" using r opens hb by (simp_all add: commitEntry_def)
      moreover have "err \<noteq> OpenAbsent" using Inl
        by (auto simp: build_tree_def buildMoveTree_def split: option.splits if_splits)
      ultimately show thesis using o ro opens by (intro failed [of err]) auto
    next
      case (Inr tdb)
      obtain t db where tdb: "tdb = (t, db)" by (cases tdb)
      have bu: "built ?G ?db (read_tree L K p) e t db"
        using build_tree_built [OF G o ti e] Inr tdb b by simp
      have odb: "odb_ok ?G db" "?db \<subseteq>\<^sub>m db" using bu by (simp_all add: built_def)
      show thesis
      proof (cases "t = base")
        case True
        then have "r = None" "p' = p\<lparr>pj_odb := db\<rparr>" using r opens hb Inr tdb by (simp_all add: commitEntry_def)
        moreover have "reads_head K"
        proof (rule ccontr)
          assume "\<not> reads_head K"
          then have "t = g_zero ?G" using True b by (simp add: read_tree_cases)
          then show False using bu odb_zero [OF G odb(1)] by (auto simp: built_def)
        qed
        ultimately show thesis using bu True b opens by (intro unchanged) auto
      next
        case False
        let ?c = "make_commit L C (ca_now K) e t parents"
        show thesis
        proof (cases "SetEncodedObject ?G (CommitObj ?c) db")
          case None
          then have "r = Some StoreCommit" "p' = p\<lparr>pj_odb := db\<rparr>"
            using r opens hb Inr tdb False by (simp_all add: commitEntry_def)
          then show thesis using odb ro opens by (intro failed [of StoreCommit]) (auto simp: rest_def)
        next
          case (Some hdb)
          obtain h db1 where h: "hdb = (h, db1)" by (cases hdb)
          note se = SetEncodedObject_ok [OF G odb(1) Some [unfolded h]]
          have odb1: "odb_ok ?G db1" by (rule SetEncodedObject_odb [OF G odb(1) Some [unfolded h]]) simp
          obtain aerr steps where ah: "advanceHead (ca_rnd K) (ca_faults K) h (pj_refs p) = (aerr, steps)"
            by (cases "advanceHead (ca_rnd K) (ca_faults K) h (pj_refs p)")
          note at = advanceHead_states [OF H ro k [unfolded call_ok_def] ah]
          show thesis
          proof (cases aerr)
            case (Some re)
            then have "r = Some (AdvanceHead re)" "p' = p\<lparr>pj_odb := db1, pj_refs := refs_after (pj_refs p) steps\<rparr>"
              using r opens hb Inr tdb False \<open>SetEncodedObject _ _ _ = Some hdb\<close> h ah by (simp_all add: commitEntry_def)
            then show thesis using at Some odb1 map_le_trans [OF odb(2) se(1)] opens
              by (intro failed [of "AdvanceHead re"]) (auto simp: rest_def)
          next
            case None
            let ?p2 = "p\<lparr>pj_odb := db1, pj_refs := refs_after (pj_refs p) steps,
                pj_index := resetIndexToTree L (ca_setIndex K) db1 t (pj_index p)\<rparr>"
            let ?p3 = "deletedLogApply D C K e (cl_text L h) ?p2"
            have "r = None \<and> p' = ?p3\<lparr>pj_events := pj_events ?p3 @
                [\<lparr>ev_Event = commit_event e, ev_Namespace = e_Namespace e, ev_Project = e_Project e, ev_Path = e_Path e,
                  ev_CommitHash = cl_text L h, ev_Timestamp = ca_now K\<rparr>]\<rparr>"
              using r opens hb Inr tdb False \<open>SetEncodedObject _ _ _ = Some hdb\<close> h ah None
              by (auto simp: commitEntry_def Let_def)
            moreover have "build_tree ?G (read_tree L K p) e ?db = Inr (t, db)" using Inr tdb b by simp
            ultimately show thesis using at None odb1 se bu False b opens
              by (intro committed [of t db h ?p2]) (auto simp: rest_def)
          qed
        qed
      qed
    qed
  qed
qed

lemma commitEntry_sound_conj:
  assumes "libs_ok L" "project_ok L p" "entry_ok e" "call_ok K" "commitEntry L D C K e p = (r, p')"
  shows "project_ok L p' \<and> pj_odb p \<subseteq>\<^sub>m pj_odb p' \<and> head_files L p' q =
      (if r = None then entry_effect (cl_git L) e (files_read K (head_files L p)) q else head_files L p q)"
  using assms
proof (cases rule: commitEntry_outcome)
  case (failed x)
  then show ?thesis
    using project_ok_same [OF assms(2), of p'] head_same(2) [OF assms(1,2), of p' q] by simp
next
  case (unchanged db')
  note f = read_tree_files [of L p K]
  have rt: "read_tree L K p = head_tree L p" using unchanged(5) by (simp add: read_tree_cases)
  have s: "cl_head L (pj_refs p') = cl_head L (pj_refs p)" "refs_ok (pj_refs p')" "pj_odb p \<subseteq>\<^sub>m pj_odb p'"
    "odb_ok (cl_git L) (pj_odb p')"
    using unchanged assms(2) by (simp_all add: built_def project_ok_def)
  have "head_files L p' q = tree_file (cl_git L) db' (head_tree L p) q"
    using head_same(1) [OF assms(1,2) s(1,3)] unchanged(2) by (simp add: head_files_def)
  then show ?thesis
    using project_ok_same [OF assms(2) s(1,2,3,4)] s(3) unchanged by (simp add: built_def f [unfolded rt] rt)
next
  case (committed t db h p2)
  note f = read_tree_files [of L p K]
  have G: "git_ok (cl_git L)" using assms(1) by (simp add: libs_ok_def)
  obtain es where t: "odb_ok (cl_git L) db" "db t = Some (TreeObj es)" "pj_odb p \<subseteq>\<^sub>m db"
    "tree_file (cl_git L) db t q = entry_effect (cl_git L) e (files_read K (head_files L p)) q"
    using committed(3) by (auto simp: built_def f)
  have t': "pj_odb p' t = Some (TreeObj es)" using map_le_Some [OF committed(5) t(2)] .
  have ht: "head_tree L p' = t" using head_tree_Some [OF committed(8,9)] by (simp add: make_commit_def Let_def)
  have "tree_file (cl_git L) (pj_odb p') t q = tree_file (cl_git L) db t q"
    by (rule tree_file_mono [OF G t(1) committed(5)]) (use t(2) in \<open>auto simp: tree_in_def\<close>)
  then have "head_files L p' q = entry_effect (cl_git L) e (files_read K (head_files L p)) q"
    using t(4) by (simp add: head_files_def ht)
  moreover have "project_ok L p'"
    using committed(6-9) t' by (auto simp: project_ok_def make_commit_def Let_def)
  ultimately show ?thesis
    using map_le_trans [OF t(3) committed(5)] committed(1) by simp
qed

lemma commitEntry_sound:
  assumes "libs_ok L" "project_ok L p" "entry_ok e" "call_ok K" "commitEntry L D C K e p = (r, p')"
  shows "project_ok L p'" "pj_odb p \<subseteq>\<^sub>m pj_odb p'"
    "head_files L p' = (if r = None then entry_effect (cl_git L) e (files_read K (head_files L p)) else head_files L p)"
  using commitEntry_sound_conj [OF assms] by (auto simp: fun_eq_iff)

section \<open>A run of entries\<close>

text \<open>The entries of a project are committed in order; a failing call records nothing.\<close>

fun run_commits ::
    "'h commit_lib \<Rightarrow> 'db del_lib \<Rightarrow> commit_cfg \<Rightarrow> ('db commit_call \<times> wal_entry) list \<Rightarrow> ('h, 'db) project \<Rightarrow>
     wal_entry list \<times> ('h, 'db) project" where
  "run_commits L D C [] p = ([], p)"
| "run_commits L D C ((K, e) # xs) p =
     (let (r, p1) = commitEntry L D C K e p; (oks, p2) = run_commits L D C xs p1 in
      (if r = None then e # oks else oks, p2))"

definition calls_ok :: "('db commit_call \<times> wal_entry) list \<Rightarrow> bool" where
  "calls_ok xs \<longleftrightarrow> list_all (\<lambda>(K, e). call_ok K \<and> entry_ok e) xs"

lemma run_commits_step:
  assumes "run_commits L D C ((K, e) # xs) p = (oks, p')"
  obtains r p1 oks1 where "commitEntry L D C K e p = (r, p1)" "run_commits L D C xs p1 = (oks1, p')"
    "oks = (if r = None then e # oks1 else oks1)"
  using assms by (auto simp: Let_def split: prod.splits)

text \<open>The effect of an entry on what its call reads of the head.\<close>

definition landed_effect ::
    "'h git \<Rightarrow> 'db commit_call \<times> wal_entry \<Rightarrow> (string list \<Rightarrow> (filemode \<times> 'h) option) \<Rightarrow>
     string list \<Rightarrow> (filemode \<times> 'h) option" where
  "landed_effect G x old = entry_effect G (snd x) (files_read (fst x) old)"

lemma landed_effect_pair: "landed_effect G (K, e) = entry_effect G e \<circ> files_read K"
  by (simp add: fun_eq_iff landed_effect_def)

lemma landed_effects_read:
  "list_all (reads_head \<circ> fst) landed \<Longrightarrow> fold (landed_effect G) landed old = fold (entry_effect G) (map snd landed) old"
  by (induction landed arbitrary: old) (simp_all add: landed_effect_def files_read_def)

lemma run_commits_files:
  assumes "libs_ok L"
  shows "project_ok L p \<Longrightarrow> calls_ok xs \<Longrightarrow> run_commits L D C xs p = (oks, p') \<Longrightarrow>
    project_ok L p' \<and> (\<exists>landed. subseq landed xs \<and> map snd landed = oks \<and>
      head_files L p' = fold (landed_effect (cl_git L)) landed (head_files L p))"
proof (induction xs arbitrary: p oks)
  case Nil
  then show ?case by (auto intro: exI [of _ "[]"])
next
  case (Cons x xs)
  obtain K e where x: "x = (K, e)" by (cases x)
  obtain r p1 oks1 where s: "commitEntry L D C K e p = (r, p1)" "run_commits L D C xs p1 = (oks1, p')"
    "oks = (if r = None then e # oks1 else oks1)"
    by (rule run_commits_step [OF Cons.prems(3) [unfolded x]])
  have ok: "entry_ok e" "call_ok K" "calls_ok xs" using Cons.prems(2) x by (simp_all add: calls_ok_def)
  note c = commitEntry_sound [OF assms Cons.prems(1) ok(1,2) s(1)]
  obtain landed where l: "project_ok L p'" "subseq landed xs" "map snd landed = oks1"
    "head_files L p' = fold (landed_effect (cl_git L)) landed (head_files L p1)"
    using Cons.IH [OF c(1) ok(3) s(2)] by blast
  show ?case
  proof (cases "r = None")
    case True
    then show ?thesis using l c(3) s(3) x
      by (intro conjI exI [of _ "x # landed"]) (simp_all add: landed_effect_pair)
  next
    case False
    then show ?thesis using l c(3) [unfolded if_not_P [OF False]] s(3) list_emb_Cons [OF l(2), of x]
      by (intro conjI exI [of _ landed]) simp_all
  qed
qed

lemma run_commits_read:
  assumes "libs_ok L" "project_ok L p" "calls_ok xs" "run_commits L D C xs p = (oks, p')"
    and "list_all (reads_head \<circ> fst) xs"
  shows "head_files L p' = fold (entry_effect (cl_git L)) oks (head_files L p)"
proof -
  obtain landed where l: "subseq landed xs" "map snd landed = oks"
    "head_files L p' = fold (landed_effect (cl_git L)) landed (head_files L p)"
    using run_commits_files [OF assms(1-4)] by blast
  have "list_all (reads_head \<circ> fst) landed"
    using assms(5) list_emb_set [OF l(1)] by (metis (no_types, lifting) list_all_iff)
  from landed_effects_read [OF this] l show ?thesis by simp
qed

lemma run_commits_append:
  "run_commits L D C (xs @ ys) p =
     (let (a, p1) = run_commits L D C xs p; (b, p2) = run_commits L D C ys p1 in (a @ b, p2))"
  by (induction L D C xs p rule: run_commits.induct) (auto simp: Let_def split: prod.split)

text \<open>
  C3: git follows the write-ahead log: take any run of entries in which any of the calls that build and
  store a commit fail.  The repository is sound afterwards, and the files of \<open>HEAD\<close> are those it had with
  the effects of exactly the entries that did not fail applied in order, each to what its call read of the
  head: the files so far, or nothing where \<open>r.Head()\<close> or \<open>r.CommitObject\<close> failed, errors the code ignores.
  So when neither read failed in the run, the files of \<open>HEAD\<close> are the old ones with these effects.
\<close>

theorem commits_refine_files:
  assumes "libs_ok L" "project_ok L p" "calls_ok xs" "run_commits L D C xs p = (oks, p')"
  shows "project_ok L p' \<and>
    (\<exists>landed. subseq landed xs \<and> map snd landed = oks \<and>
       head_files L p' = fold (landed_effect (cl_git L)) landed (head_files L p)) \<and>
    (list_all (reads_head \<circ> fst) xs \<longrightarrow>
       head_files L p' = fold (entry_effect (cl_git L)) oks (head_files L p))"
  using run_commits_files [OF assms] run_commits_read [OF assms] by blast

section \<open>The history\<close>

text \<open>The commits from a head back to a root, newest first.\<close>

fun history :: "'h odb \<Rightarrow> 'h option \<Rightarrow> 'h commit list \<Rightarrow> bool" where
  "history db at [] \<longleftrightarrow> at = None"
| "history db at (c # cs) \<longleftrightarrow>
     (\<exists>h. at = Some h \<and> db h = Some (CommitObj c) \<and>
        (\<exists>parent. c_ParentHashes c = (case parent of None \<Rightarrow> [] | Some p \<Rightarrow> [p]) \<and> history db parent cs))"

lemma history_mono: "history db at cs \<Longrightarrow> db \<subseteq>\<^sub>m db' \<Longrightarrow> history db' at cs"
proof (induction cs arbitrary: at)
  case (Cons c cs)
  then show ?case using map_le_Some [OF Cons.prems(2)] by (auto 0 4)
qed simp

lemma entry_meta_valid: "entry_ok e \<Longrightarrow> meta_Valid (opMetaForEntry e)"
proof -
  assume e: "entry_ok e"
  have ne: "segs (split_on slash s) \<Longrightarrow> s \<noteq> []" for s by (auto simp: seg_def)
  have "e_Path e \<noteq> []" "e_Op e = ''move'' \<Longrightarrow> e_MoveFrom e \<noteq> []" using e ne by (auto simp: entry_ok_def)
  then show ?thesis by (simp add: opMetaForEntry_def meta_Valid_def OpWrite_def OpDelete_def OpMove_def)
qed

text \<open>The decoder inverts the encoder on the operation of an entry (it does on every valid UTF-8 path).\<close>

definition unmarshals :: "(string \<Rightarrow> meta option) \<Rightarrow> wal_entry \<Rightarrow> bool" where
  "unmarshals u e \<longleftrightarrow> u (meta_Marshal (opMetaForEntry e)) = Some (opMetaForEntry e)"

text \<open>The message of a commit names the operation of its entry.\<close>

lemma commit_message_op:
  assumes "unmarshals u e" "entry_ok e"
  shows "Parse u (c_Message (make_commit L C now e t ps)) = Some (opMetaForEntry e)"
proof -
  have "\<exists>pre. Trailers idn = pre @ [newline]" for idn by (auto simp: Trailers_def)
  then obtain pre where "Trailers (entry_identity C e) = pre @ [newline]" by blast
  then have m: "c_Message (make_commit L C now e t ps) =
      (commit_subject e @ [newline, newline] @ pre) @ [newline] @ Trailer (opMetaForEntry e)"
    by (simp add: make_commit_def Let_def)
  note v = entry_meta_valid [OF assms(2)]
  show ?thesis unfolding m by (rule Parse_Trailer [OF v]) (use assms(1) v in \<open>simp add: unmarshals_def\<close>)
qed

definition commit_ops :: "(string \<Rightarrow> meta option) \<Rightarrow> 'h commit list \<Rightarrow> meta option list" where
  "commit_ops u cs = rev (map (\<lambda>c. Parse u (c_Message c)) cs)"

lemma commitEntry_history:
  assumes "libs_ok L" "project_ok L p" "entry_ok e" "call_ok K" "commitEntry L D C K e p = (r, p')"
    and "unmarshals u e" "history (pj_odb p) (cl_head L (pj_refs p)) cs" "\<not> ca_headFails K"
  shows "\<exists>new. history (pj_odb p') (cl_head L (pj_refs p')) (new @ cs) \<and>
    (new = [] \<or> r = None \<and> commit_ops u new = [Some (opMetaForEntry e)])"
  using assms(1-5)
proof (cases rule: commitEntry_outcome)
  case (failed x)
  then show ?thesis using history_mono [OF assms(7)] by (intro exI [of _ "[]"]) simp
next
  case (unchanged db')
  then show ?thesis using history_mono [OF assms(7)] by (intro exI [of _ "[]"]) (simp add: built_def)
next
  case (committed t db h p2)
  let ?c = "make_commit L C (ca_now K) e t (read_parents L K p)"
  have "history (pj_odb p') (cl_head L (pj_refs p)) cs"
    by (rule history_mono [OF assms(7) commitEntry_sound(2) [OF assms(1-5)]])
  moreover have "c_ParentHashes ?c = (case cl_head L (pj_refs p) of None \<Rightarrow> [] | Some p \<Rightarrow> [p])"
    by (simp add: make_commit_def read_parents_head assms(8) Let_def)
  ultimately have "history (pj_odb p') (cl_head L (pj_refs p')) ([?c] @ cs)" using committed(8,9) by auto
  moreover have "commit_ops u [?c] = [Some (opMetaForEntry e)]"
    using commit_message_op [OF assms(6,3)] by (simp add: commit_ops_def)
  ultimately show ?thesis using committed(1) by blast
qed

lemma run_commits_history:
  assumes "libs_ok L"
  shows "list_all (\<lambda>(K, e). unmarshals u e \<and> \<not> ca_headFails K) xs \<Longrightarrow> project_ok L p \<Longrightarrow> calls_ok xs \<Longrightarrow> run_commits L D C xs p = (oks, p') \<Longrightarrow>
    history (pj_odb p) (cl_head L (pj_refs p)) cs \<Longrightarrow>
    \<exists>new. history (pj_odb p') (cl_head L (pj_refs p')) (new @ cs) \<and>
      subseq (commit_ops u new) (map (\<lambda>e. Some (opMetaForEntry e)) oks)"
proof (induction xs arbitrary: p oks cs)
  case Nil
  then show ?case by (intro exI [of _ "[]"]) (simp add: commit_ops_def)
next
  case (Cons x xs)
  obtain K e where x: "x = (K, e)" by (cases x)
  obtain r p1 oks1 where s: "commitEntry L D C K e p = (r, p1)" "run_commits L D C xs p1 = (oks1, p')"
    "oks = (if r = None then e # oks1 else oks1)"
    by (rule run_commits_step [OF Cons.prems(4) [unfolded x]])
  have ok: "entry_ok e" "call_ok K" "calls_ok xs" "unmarshals u e" "\<not> ca_headFails K" "list_all (\<lambda>(K, e). unmarshals u e \<and> \<not> ca_headFails K) xs"
    using Cons.prems(1,3) x by (simp_all add: calls_ok_def)
  obtain new1 where n1: "history (pj_odb p1) (cl_head L (pj_refs p1)) (new1 @ cs)"
    "new1 = [] \<or> r = None \<and> commit_ops u new1 = [Some (opMetaForEntry e)]"
    using commitEntry_history [OF assms Cons.prems(2) ok(1,2) s(1) ok(4) Cons.prems(5) ok(5)] by blast
  obtain new where n: "history (pj_odb p') (cl_head L (pj_refs p')) (new @ new1 @ cs)"
    "subseq (commit_ops u new) (map (\<lambda>e. Some (opMetaForEntry e)) oks1)"
    using Cons.IH [OF ok(6) commitEntry_sound(1) [OF assms Cons.prems(2) ok(1,2) s(1)] ok(3) s(2) n1(1)] by blast
  have "commit_ops u (new @ new1) = commit_ops u new1 @ commit_ops u new" by (simp add: commit_ops_def)
  then have "subseq (commit_ops u (new @ new1)) (map (\<lambda>e. Some (opMetaForEntry e)) oks)"
    using n(2) n1(2) s(3) by (auto simp: commit_ops_def)
  then show ?case using n(1) by (intro exI [of _ "new @ new1"]) simp
qed

text \<open>
  history is append-only and tells what happened: after any run of entries in which no read of \<open>HEAD\<close>
  failed the old commits are
  still the tail of the history of \<open>HEAD\<close>, and the operations parsed from the messages of the new
  ones, oldest first, are operations of the entries that did not fail, in order and each at most once.
\<close>

theorem commits_append_history:
  assumes "libs_ok L" "list_all (\<lambda>(K, e). unmarshals u e \<and> \<not> ca_headFails K) xs" "project_ok L p" "calls_ok xs" "run_commits L D C xs p = (oks, p')"
    and "history (pj_odb p) (cl_head L (pj_refs p)) cs"
  shows "\<exists>new. history (pj_odb p') (cl_head L (pj_refs p')) (new @ cs) \<and>
    subseq (commit_ops u new) (map (\<lambda>e. Some (opMetaForEntry e)) oks)"
  by (rule run_commits_history [OF assms(1,2,3,4,5,6)])

text \<open>
  a failing call leaves the project as readers see it: the head, its files, the deleted log and the
  events are what they were, and the error is the permanent one, which takes the entry to the
  quarantine, exactly when there is no repository.
\<close>

theorem commitEntry_error_keeps:
  assumes "libs_ok L" "project_ok L p" "entry_ok e" "call_ok K" "commitEntry L D C K e p = (Some x, p')"
  shows "cl_head L (pj_refs p') = cl_head L (pj_refs p) \<and> head_files L p' = head_files L p \<and>
    pj_deleted p' = pj_deleted p \<and> pj_events p' = pj_events p \<and>
    (commit_result_of (Some x) = CommitPermanent \<longleftrightarrow> pj_open p = RepoNotExists)"
  using assms
proof (cases rule: commitEntry_outcome)
  case (failed y)
  have "commit_result_of (Some y) = CommitPermanent \<longleftrightarrow> y = OpenAbsent"
    by (simp add: commit_result_of_def split: commit_error.split)
  with failed show ?thesis using commitEntry_sound(3) [OF assms] by (simp add: rest_def)
qed simp_all

section \<open>The deleted log against the head\<close>

abbreviation logged :: "'db del_lib \<Rightarrow> 'db \<Rightarrow> string set" where
  "logged D st \<equiv> dom (bget (dl_bolt D) st deletedBucket)"

definition dl_ok :: "'db del_lib \<Rightarrow> bool" where
  "dl_ok D \<longleftrightarrow> bolt_ok (dl_bolt D) \<and> sorts_by snd (dl_sort D)"

definition normal_entry :: "wal_entry \<Rightarrow> bool" where
  "normal_entry e \<longleftrightarrow> normalizePath (e_Path e) = e_Path e \<and> normalizePath (e_MoveFrom e) = e_MoveFrom e"

lemma logged_Drop:
  assumes "dl_ok D" "Drop (dl_bolt D) x st = Inr st'" "normalizePath x = x"
  shows "logged D st' = logged D st - {x} \<or> x = [] \<and> st' = st"
proof (cases "x = []")
  case True
  then show ?thesis using assms(2,3) by (simp add: Drop_def)
next
  case False
  have B: "bolt_ok (dl_bolt D)" using assms(1) by (simp add: dl_ok_def)
  have u: "update (dl_bolt D) (delete_in (dl_bolt D) deletedBucket x) st = Inr st'"
    using assms(2,3) False by (simp add: Drop_def)
  obtain db1 where d: "delete_in (dl_bolt D) deletedBucket x st = Some db1" "bget (dl_bolt D) st' = bget (dl_bolt D) db1"
    using update_Inr [OF B u] by blast
  show ?thesis using delete_in_reads(1) [OF B d(1)] d(2) by auto
qed

lemma logged_Upsert:
  assumes "dl_ok D" "Upsert (dl_bolt D) (dl_sort D) rec m st = Inr st'" "normalizePath (dr_Path rec) = dr_Path rec"
  shows "logged D st' \<subseteq> insert (dr_Path rec) (logged D st)"
proof -
  let ?B = "dl_bolt D"
  have B: "bolt_ok ?B" and S: "sorts_by snd (dl_sort D)" using assms(1) by (simp_all add: dl_ok_def)
  obtain db1 db2 where d: "b_bucket ?B db1 deletedBucket" "bget ?B db1 = (bget ?B st)(deletedBucket :=
       (bget ?B st deletedBucket)(normalizePath (dr_Path rec) \<mapsto> Row (rec\<lparr>dr_Path := normalizePath (dr_Path rec)\<rparr>)))"
    "evictOldest ?B (dl_sort D) m db1 = Some db2" "bget ?B st' = bget ?B db2"
    by (rule Upsert_step [OF B assms(2)]) blast
  have "bget ?B db2 deletedBucket \<subseteq>\<^sub>m bget ?B db1 deletedBucket"
  proof (cases "0 < m")
    case True
    from evictOldest_kept [OF B S d(3,1) True] show ?thesis by (simp add: kept_newest_def)
  next
    case False
    then show ?thesis using d(3) by (simp add: evictOldest_def)
  qed
  from map_le_implies_dom_le [OF this] show ?thesis using d(2,4) assms(3) by auto
qed

text \<open>What the hook leaves, when no update fails.\<close>

lemma deletedLogApply_settles:
  assumes "dl_ok D" "cc_deletedLogEnabled C" "normal_entry e" "e_Path e \<noteq> []" "pj_deleted p = Some st"
    and "pj_dlUpdateFailed (deletedLogApply D C K e t p) = pj_dlUpdateFailed p"
  shows "\<exists>st'. pj_deleted (deletedLogApply D C K e t p) = Some st' \<and>
    logged D st' \<subseteq> (if e_Op e = ''delete'' then insert (e_Path e) (logged D st) else logged D st - {e_Path e})"
proof -
  have n: "normalizePath (e_Path e) = e_Path e" "normalizePath (e_MoveFrom e) = e_MoveFrom e"
    using assms(3) by (simp_all add: normal_entry_def)
  consider "e_Op e = ''delete''" | "e_Op e = ''move''" | "e_Op e \<noteq> ''delete''" "e_Op e \<noteq> ''move''" by blast
  then show ?thesis
  proof cases
    case 1
    let ?rec = "\<lparr>dr_Path = e_Path e, dr_DeletionCommit = t, dr_DeletedAt = ca_now K\<rparr>"
    obtain st' where u: "Upsert (dl_bolt D) (dl_sort D) ?rec (cc_deletedLogMaxEntries C) st = Inr st'"
      "pj_deleted (deletedLogApply D C K e t p) = Some st'"
      using assms(2,5,6) 1
      by (auto simp: deletedLogApply_def deletedLogFor_def dl_failed_def dl_set_def split: sum.splits)
    show ?thesis using logged_Upsert [OF assms(1) u(1)] n u(2) 1 by simp
  next
    case 2
    obtain st1 st2 where d: "Drop (dl_bolt D) (e_MoveFrom e) st = Inr st1" "Drop (dl_bolt D) (e_Path e) st1 = Inr st2"
      "pj_deleted (deletedLogApply D C K e t p) = Some st2"
      using assms(2,5,6) 2
      by (auto simp: deletedLogApply_def deletedLogForRead_def dl_failed_def dl_set_def Let_def split: sum.splits if_splits)
    show ?thesis using logged_Drop [OF assms(1) d(1) n(2)] logged_Drop [OF assms(1) d(2) n(1)] d(3) 2 assms(4) by auto
  next
    case 3
    obtain st' where d: "Drop (dl_bolt D) (e_Path e) st = Inr st'" "pj_deleted (deletedLogApply D C K e t p) = Some st'"
      using assms(2,5,6) 3
      by (auto simp: deletedLogApply_def deletedLogForRead_def dl_failed_def dl_set_def split: sum.splits)
    show ?thesis using logged_Drop [OF assms(1) d(1) n(1)] d(2) 3 assms(4) by auto
  qed
qed

lemma deletedLogApply_failures:
  "pj_dlUpdateFailed p \<le> pj_dlUpdateFailed (deletedLogApply D C K e t p)"
  by (simp add: deletedLogApply_def dl_failed_def dl_set_def Let_def split: option.split sum.split)

lemma commitEntry_failures:
  assumes "libs_ok L" "project_ok L p" "entry_ok e" "call_ok K" "commitEntry L D C K e p = (r, p')"
  shows "pj_dlUpdateFailed p \<le> pj_dlUpdateFailed p'"
  using assms
proof (cases rule: commitEntry_outcome)
  case (committed t db h p2)
  then show ?thesis using deletedLogApply_failures [of p2 D C K e "cl_text L h"] by (simp add: rest_def)
qed (simp_all add: rest_def)

definition log_agrees :: "'h commit_lib \<Rightarrow> 'db del_lib \<Rightarrow> ('h, 'db) project \<Rightarrow> bool" where
  "log_agrees L D p \<longleftrightarrow>
     (\<exists>st. pj_deleted p = Some st \<and> (\<forall>path\<in>logged D st. head_files L p (split_on slash path) = None))"

lemma split_path_inject: "split_on slash x = split_on slash y \<longleftrightarrow> x = y"
  by (metis join_split)

lemma entry_effect_None:
  assumes "old (split_on slash x) = None" "e_Op e = ''delete'' \<or> x \<noteq> e_Path e"
  shows "entry_effect G e old (split_on slash x) = None"
  using assms by (auto simp: entry_effect_def file_after_def split_path_inject Let_def)

lemma commitEntry_log:
  assumes "libs_ok L" "project_ok L p" "entry_ok e" "call_ok K" "commitEntry L D C K e p = (r, p')"
    and "dl_ok D" "cc_deletedLogEnabled C" "normal_entry e" "log_agrees L D p"
  shows "pj_dlUpdateFailed p' = pj_dlUpdateFailed p \<Longrightarrow> log_agrees L D p'"
proof -
  assume nf: "pj_dlUpdateFailed p' = pj_dlUpdateFailed p"
  obtain st where st: "pj_deleted p = Some st" "\<And>x. x \<in> logged D st \<Longrightarrow> head_files L p (split_on slash x) = None"
    using assms(9) unfolding log_agrees_def by blast
  have ne: "e_Path e \<noteq> []" using assms(3) by (auto simp: entry_ok_def seg_def)
  note f = commitEntry_sound(3) [OF assms(1-5)]
  show ?thesis
    using assms(1-5)
  proof (cases rule: commitEntry_outcome)
    case (failed x)
    then show ?thesis using f st by (auto simp: log_agrees_def rest_def)
  next
    case (unchanged db')
    have "head_files L p' = head_files L p"
      using head_same(2) [OF assms(1,2), of p'] unchanged by (simp add: built_def fun_eq_iff)
    then show ?thesis using st unchanged by (auto simp: log_agrees_def)
  next
    case (committed t db h p2)
    have p2: "pj_deleted p2 = Some st" "pj_dlUpdateFailed p2 = pj_dlUpdateFailed p"
      using committed(10) st(1) by (simp_all add: rest_def)
      obtain st' where st': "pj_deleted p' = Some st'"
        "logged D st' \<subseteq> (if e_Op e = ''delete'' then insert (e_Path e) (logged D st) else logged D st - {e_Path e})"
        using deletedLogApply_settles [OF assms(6,7,8) ne p2(1), of K "cl_text L h"] nf p2(2) committed by auto
      have "head_files L p' (split_on slash x) = None" if x: "x \<in> logged D st'" for x
      proof (cases "x = e_Path e")
        case True
        then have "e_Op e = ''delete''" using x st'(2) by (auto split: if_splits)
        then show ?thesis using True f committed(1) by (simp add: entry_effect_def file_after_def)
      next
        case False
        then have "x \<in> logged D st" using x st'(2) by (auto split: if_splits)
        then show ?thesis using entry_effect_None [of "files_read K (head_files L p)" x e] st(2) False f committed(1)
            by (simp add: files_read_def)
      qed
      then show ?thesis using st'(1) by (auto simp: log_agrees_def)
  qed
qed

lemma run_commits_log:
  assumes "libs_ok L" "dl_ok D" "cc_deletedLogEnabled C"
  shows "project_ok L p \<Longrightarrow> calls_ok xs \<Longrightarrow> list_all (\<lambda>(K, e). normal_entry e) xs \<Longrightarrow> log_agrees L D p \<Longrightarrow>
    run_commits L D C xs p = (oks, p') \<Longrightarrow>
    pj_dlUpdateFailed p \<le> pj_dlUpdateFailed p' \<and>
    (pj_dlUpdateFailed p' = pj_dlUpdateFailed p \<longrightarrow> log_agrees L D p')"
proof (induction "length xs" arbitrary: xs p oks p')
  case (Suc n)
  obtain y ys where xs: "xs = ys @ [y]" "length ys = n" using Suc.hyps(2) by (cases xs rule: rev_cases) auto
  obtain K e where y: "y = (K, e)" by (cases y)
  obtain oks1 p1 where r1: "run_commits L D C ys p = (oks1, p1)" by (cases "run_commits L D C ys p")
  obtain r where r2: "commitEntry L D C K e p1 = (r, p')"
    using Suc.prems(5) r1 by (auto simp: xs y run_commits_append Let_def split: prod.splits)
  have ok: "calls_ok ys" "list_all (\<lambda>(K, e). normal_entry e) ys" "entry_ok e" "call_ok K" "normal_entry e"
    using Suc.prems(2,3) by (simp_all add: xs y calls_ok_def)
  note one = Suc.hyps(1) [OF xs(2) [symmetric] Suc.prems(1) ok(1,2) Suc.prems(4) r1]
  have p1: "project_ok L p1" using run_commits_files [OF assms(1) Suc.prems(1) ok(1) r1] by simp
  show ?case
  proof (cases "pj_dlUpdateFailed p1 = pj_dlUpdateFailed p")
    case True
    then have "log_agrees L D p1" using one by simp
    from commitEntry_log [OF assms(1) p1 ok(3,4) r2 assms(2,3) ok(5) this]
      commitEntry_failures [OF assms(1) p1 ok(3,4) r2] True show ?thesis by simp
  next
    case False
    have "pj_dlUpdateFailed p1 \<le> pj_dlUpdateFailed p'"
      by (rule commitEntry_failures [OF assms(1) p1 ok(3,4) r2])
    with False one show ?thesis by linarith
  qed
qed simp

text \<open>
  C8: the log of deleted files never offers a file that is there: starting from a log that names no
  path of \<open>HEAD\<close>, after any run of entries with normalised paths in which no update of the log
  failed, the log still names no path of \<open>HEAD\<close>, whichever commits failed or changed nothing.
\<close>

theorem deleted_log_agrees:
  assumes "libs_ok L" "dl_ok D" "cc_deletedLogEnabled C" "project_ok L p" "calls_ok xs"
    and "list_all (\<lambda>(K, e). normal_entry e) xs" "log_agrees L D p" "run_commits L D C xs p = (oks, p')"
    and "pj_dlUpdateFailed p' = pj_dlUpdateFailed p"
  shows "log_agrees L D p'"
  using run_commits_log [OF assms(1-8)] assms(9) by simp

section \<open>A concrete object store\<close>

text \<open>Objects named by their own content: no two objects share a name.\<close>

datatype oid =
  OZero | OBlob string | OTree "(string \<times> filemode \<times> oid) list"
| OCommit "(string \<times> string \<times> int) \<times> (string \<times> string \<times> int)" string oid "oid list"

definition sig_fields :: "signature \<Rightarrow> string \<times> string \<times> int" where
  "sig_fields s = (sg_Name s, sg_Email s, sg_When s)"

fun oid_of :: "oid obj \<Rightarrow> oid" where
  "oid_of (BlobObj s) = OBlob s"
| "oid_of (TreeObj es) = OTree (map (\<lambda>e. (te_Name e, te_Mode e, te_Hash e)) es)"
| "oid_of (CommitObj c) =
     OCommit (sig_fields (c_Author c), sig_fields (c_Committer c)) (c_Message c) (c_TreeHash c) (c_ParentHashes c)"

definition plain_lib :: "oid commit_lib" where
  "plain_lib =
     \<lparr>cl_git = \<lparr>g_hash = oid_of, g_zero = OZero, g_accepts = \<lambda>_. True\<rparr>, cl_head = plain_head,
      cl_walk = \<lambda>_ _. None, cl_text = \<lambda>_. ''id'', cl_lower = \<lambda>r. r\<rparr>"

lemma oid_of_inj: "inj oid_of"
proof (rule injI)
  fix a b assume e: "oid_of a = oid_of b"
  have t: "inj (\<lambda>e :: oid tree_entry. (te_Name e, te_Mode e, te_Hash e))" by (rule injI) simp
  have s: "sig_fields x = sig_fields y \<Longrightarrow> x = y" for x y by (simp add: sig_fields_def)
  show "a = b"
  proof (cases a)
    case (BlobObj s)
    then show ?thesis using e by (cases b) auto
  next
    case (TreeObj es)
    then show ?thesis using e by (cases b) (auto simp: inj_map_eq_map [OF t])
  next
    case (CommitObj c)
    then obtain d where "b = CommitObj d" using e by (cases b) auto
    then show ?thesis using e CommitObj s [of "c_Author c"] s [of "c_Committer c"] by simp
  qed
qed

lemma plain_lib_ok: "libs_ok plain_lib"
proof -
  have "oid_of ob \<noteq> OZero" for ob by (cases ob) auto
  then show ?thesis by (simp add: libs_ok_def plain_lib_def git_ok_def oid_of_inj plain_head_ok)
qed

definition new_project :: "(oid, del_row mem_db) project" where
  "new_project =
     \<lparr>pj_open = RepoOpens, pj_odb = Map.empty, pj_refs = [HEAD \<mapsto> SymRef ''refs/heads/main''], pj_index = [],
      pj_dangerous = False, pj_deleted = Some [], pj_dlUpdateFailed = 0, pj_events = []\<rparr>"

lemma new_project_ok: "project_ok plain_lib new_project"
proof -
  have "plain_head [HEAD \<mapsto> SymRef ''refs/heads/main''] = None"
    by (simp add: plain_head_def HEAD_def)
  moreover have "refs_ok [HEAD \<mapsto> SymRef ''refs/heads/main'']"
    by (simp add: refs_ok_def HEAD_def temp_file_def file_base_def slash_def has_prefix_def)
  ultimately show ?thesis by (simp add: project_ok_def new_project_def odb_ok_def plain_lib_def)
qed

definition plain_call :: "del_row mem_db commit_call" where
  "plain_call =
     \<lparr>ca_now = 5, ca_rnd = ''1'', ca_headFails = False, ca_baseFails = False, ca_faults = no_ref_faults, ca_setIndex = True, ca_stat = StatNotExist,
      ca_opened = OpenInvalid, ca_mkdir = True, ca_created = Opened [], ca_created_at = ''t''\<rparr>"

definition plain_entry :: "string \<Rightarrow> string \<Rightarrow> string \<Rightarrow> string \<Rightarrow> wal_entry" where
  "plain_entry opn path from content =
     \<lparr>e_Seq = 1, e_Ts = 5, e_Namespace = ''n'', e_Project = ''p'', e_Path = path, e_Op = opn, e_Version = [],
      e_Size = 0, e_Content = content, e_MoveFrom = from, e_Aux = [], e_UserName = [], e_UserEmail = [],
      e_AgentName = [], e_WorkerID = [], e_AuthorIsUser = False\<rparr>"

definition plain_cfg :: commit_cfg where
  "plain_cfg =
     \<lparr>cc_defaults = \<lparr>df_UserName = ''u'', df_UserEmail = ''e'', df_AgentName = ''a'', df_AgentWorker = []\<rparr>,
      cc_deletedLogEnabled = True, cc_deletedLogMaxEntries = 10\<rparr>"

definition plain_dl :: "del_row mem_db del_lib" where
  "plain_dl = \<lparr>dl_bolt = mem_bolt, dl_sort = sort_key snd\<rparr>"

text \<open>A first write is committed.\<close>

definition first_write :: wal_entry where
  "first_write = plain_entry ''write'' ''d/a'' [] ''x''"

lemma first_write_ok: "entry_ok first_write" "call_ok plain_call" "reads_head plain_call"
  by (simp_all add: entry_ok_def first_write_def plain_entry_def slash_def seg_def call_ok_def reads_head_def plain_call_def)

lemma write_committed:
  assumes e: "e_Op e = ''write''" "e_Path e = ''d/a''" "e_Content e = ''x''"
  shows "fst (commitEntry plain_lib plain_dl plain_cfg plain_call e (new_project\<lparr>pj_deleted := log\<rparr>)) = None"
proof -
  have h: "plain_head [HEAD \<mapsto> SymRef ''refs/heads/main''] = None" by (simp add: plain_head_def HEAD_def)
  have a: "advanceHead ''1'' no_ref_faults x [HEAD \<mapsto> SymRef ''refs/heads/main''] = (err, st) \<Longrightarrow> err = None" for err st and x :: oid
    by (auto simp: advanceHead_def writeRefAtomic_def no_ref_faults_def Let_def)
  have b: "build_tree (cl_git plain_lib) OZero e Map.empty =
      (let bl = OBlob ''x''; sub = OTree [(''a'', Regular, bl)]; t = OTree [(''d'', Dir, sub)] in
       Inr (t, [bl \<mapsto> BlobObj ''x'', sub \<mapsto> TreeObj [\<lparr>te_Name = ''a'', te_Mode = Regular, te_Hash = bl\<rparr>],
                t \<mapsto> TreeObj [\<lparr>te_Name = ''d'', te_Mode = Dir, te_Hash = sub\<rparr>]]))"
    by (simp add: build_tree_def e slash_def Let_def storeBlob_def SetEncodedObject_def plain_lib_def
        loadTreeEntries_def withoutEntry_def storeTree_def)
  let ?p = "new_project\<lparr>pj_deleted := log\<rparr>"
  have o: "pj_open ?p = RepoOpens" "pj_odb ?p = Map.empty"
    "pj_refs ?p = [HEAD \<mapsto> SymRef ''refs/heads/main'']" by (simp_all add: new_project_def)
  have c: "head_base plain_lib False False Map.empty [HEAD \<mapsto> SymRef ''refs/heads/main''] = ([], OZero)"
    by (simp add: head_base_def plain_lib_def h)
  have g: "SetEncodedObject (cl_git plain_lib) ob db = Some (oid_of ob, db(oid_of ob \<mapsto> ob))" for ob db
    by (simp add: SetEncodedObject_def plain_lib_def)
  have k: "ca_rnd plain_call = ''1''" "ca_faults plain_call = no_ref_faults" "\<not> ca_headFails plain_call"
    "\<not> ca_baseFails plain_call" by (simp_all add: plain_call_def)
  show ?thesis
    by (simp add: commitEntry_def o c b g k Let_def split: prod.split option.split) (use a in blast)
qed

lemma plain_dl_ok: "dl_ok plain_dl"
  by (simp add: dl_ok_def plain_dl_def mem_bolt_ok sorts_by_sort_key)

lemma first_write_committed:
  "fst (commitEntry plain_lib plain_dl plain_cfg plain_call first_write (new_project\<lparr>pj_deleted := log\<rparr>)) = None"
  by (rule write_committed) (simp_all add: first_write_def plain_entry_def)

lemma new_project_log: "new_project\<lparr>pj_deleted := Some []\<rparr> = new_project"
  by (simp add: new_project_def)

lemma first_write_run:
  obtains p' where "run_commits plain_lib plain_dl plain_cfg [(plain_call, first_write)] new_project = ([first_write], p')"
proof -
  from new_project_log first_write_committed [of "Some []"] that show thesis
    by (cases "commitEntry plain_lib plain_dl plain_cfg plain_call first_write new_project") simp
qed

lemma first_write_calls: "calls_ok [(plain_call, first_write)]"
  using first_write_ok(1,2) by (simp add: calls_ok_def)

theorem commits_refine_files_witness:
  "\<exists>p'. run_commits plain_lib plain_dl plain_cfg [(plain_call, first_write)] new_project = ([first_write], p') \<and>
     head_files plain_lib p' [''d'', ''a''] = Some (Regular, OBlob ''x'')"
proof -
  obtain p' where r: "run_commits plain_lib plain_dl plain_cfg [(plain_call, first_write)] new_project = ([first_write], p')"
    by (rule first_write_run)
  from commits_refine_files [OF plain_lib_ok new_project_ok first_write_calls r] first_write_ok(3)
  have "head_files plain_lib p' [''d'', ''a''] = Some (Regular, OBlob ''x'')"
    by (simp add: entry_effect_def file_after_def first_write_def plain_entry_def slash_def blob_id_def plain_lib_def)
  with r show ?thesis by blast
qed

theorem commits_append_history_witness:
  "\<exists>p' new. run_commits plain_lib plain_dl plain_cfg [(plain_call, first_write)] new_project = ([first_write], p') \<and>
     history (pj_odb p') (plain_head (pj_refs p')) new \<and> length new \<le> 1"
proof -
  obtain p' where r: "run_commits plain_lib plain_dl plain_cfg [(plain_call, first_write)] new_project = ([first_write], p')"
    by (rule first_write_run)
  let ?u = "\<lambda>s. if s = meta_Marshal (opMetaForEntry first_write) then Some (opMetaForEntry first_write) else None"
  have u: "list_all (\<lambda>(K, e). unmarshals ?u e \<and> \<not> ca_headFails K) [(plain_call, first_write)]" by (simp add: unmarshals_def plain_call_def)
  have "plain_head (pj_refs new_project) = None"
    by (simp add: plain_head_def HEAD_def new_project_def)
  then have h: "history (pj_odb new_project) (cl_head plain_lib (pj_refs new_project)) []" by (simp add: plain_lib_def)
  obtain new where n: "history (pj_odb p') (plain_head (pj_refs p')) new"
    "subseq (commit_ops ?u new) [Some (opMetaForEntry first_write)]"
    using commits_append_history [OF plain_lib_ok u new_project_ok first_write_calls r h] by (auto simp: plain_lib_def)
  from list_emb_length [OF n(2)] have "length new \<le> 1" by (simp add: commit_ops_def)
  with n(1) r show ?thesis by blast
qed

definition no_repository :: "(oid, del_row mem_db) project" where
  "no_repository = new_project\<lparr>pj_open := RepoNotExists\<rparr>"

theorem commitEntry_error_keeps_witness:
  "\<exists>p'. commitEntry plain_lib plain_dl plain_cfg plain_call first_write no_repository = (Some OpenAbsent, p') \<and>
     commit_result_of (Some OpenAbsent) = CommitPermanent \<and> pj_deleted p' = Some []"
proof -
  have p: "project_ok plain_lib no_repository" using new_project_ok by (simp add: project_ok_def no_repository_def)
  have r: "commitEntry plain_lib plain_dl plain_cfg plain_call first_write no_repository =
      (Some OpenAbsent, no_repository\<lparr>pj_dangerous := True\<rparr>)"
    by (simp add: commitEntry_def no_repository_def)
  from commitEntry_error_keeps [OF plain_lib_ok p first_write_ok(1,2) r] r show ?thesis
    by (simp add: no_repository_def new_project_def)
qed

definition logged_project :: "(oid, del_row mem_db) project" where
  "logged_project = new_project\<lparr>pj_deleted := Some [(deletedBucket, [(''d/a'', Row \<lparr>dr_Path = ''d/a'', dr_DeletionCommit = ''c'', dr_DeletedAt = 1\<rparr>)])]\<rparr>"

lemma logged_project_write:
  assumes "commitEntry plain_lib plain_dl plain_cfg plain_call first_write logged_project = (None, p')"
  shows "pj_dlUpdateFailed p' = 0"
proof -
  have p: "project_ok plain_lib logged_project" using new_project_ok by (simp add: project_ok_def logged_project_def)
  have z: "rest logged_project = (pj_deleted logged_project, 0, [])" by (simp add: rest_def logged_project_def new_project_def)
  from plain_lib_ok p first_write_ok(1,2) assms show ?thesis
  proof (cases rule: commitEntry_outcome)
    case (committed t db h p2)
    obtain st where st: "pj_deleted logged_project = Some st" "Drop mem_bolt ''d/a'' st = Inr [(deletedBucket, [])]"
    proof
      show "Drop mem_bolt ''d/a'' (the (pj_deleted logged_project)) = Inr [(deletedBucket, [])]" by code_simp
    qed (simp add: logged_project_def)
    have e: "e_Op first_write = ''write''" "e_Path first_write = ''d/a''" by (simp_all add: first_write_def plain_entry_def)
    show ?thesis using committed(10) z st
      by (simp add: committed(14) rest_def deletedLogApply_def plain_cfg_def e deletedLogForRead_def plain_dl_def dl_set_def)
  qed (use z in \<open>simp_all add: rest_def\<close>)
qed

theorem deleted_log_agrees_witness:
  "\<exists>p'. run_commits plain_lib plain_dl plain_cfg [(plain_call, first_write)] logged_project = ([first_write], p') \<and>
     log_agrees plain_lib plain_dl p'"
proof -
  have p: "project_ok plain_lib logged_project" using new_project_ok by (simp add: project_ok_def logged_project_def)
  have c: "fst (commitEntry plain_lib plain_dl plain_cfg plain_call first_write logged_project) = None"
    unfolding logged_project_def by (rule first_write_committed)
  then obtain p' where ce: "commitEntry plain_lib plain_dl plain_cfg plain_call first_write logged_project = (None, p')"
    by (cases "commitEntry plain_lib plain_dl plain_cfg plain_call first_write logged_project") simp
  then have r: "run_commits plain_lib plain_dl plain_cfg [(plain_call, first_write)] logged_project = ([first_write], p')"
    by simp
  have n: "list_all (\<lambda>(K, e). normal_entry e) [(plain_call, first_write)]"
    by (simp add: normal_entry_def first_write_def plain_entry_def) code_simp
  have "plain_head (pj_refs logged_project) = None" by (simp add: plain_head_def HEAD_def new_project_def logged_project_def)
  then have "head_files plain_lib logged_project q = None" for q
    using tree_file_zero [of "cl_git plain_lib"]
    by (simp add: head_files_def head_tree_def head_base_def plain_lib_def)
  then have a: "log_agrees plain_lib plain_dl logged_project" by (auto simp: log_agrees_def logged_project_def)
  have f: "pj_dlUpdateFailed p' = pj_dlUpdateFailed logged_project"
    using logged_project_write [OF ce] by (simp add: logged_project_def new_project_def)
  have en: "cc_deletedLogEnabled plain_cfg" by (simp add: plain_cfg_def)
  from deleted_log_agrees [OF plain_lib_ok plain_dl_ok en p first_write_calls n a r f] r show ?thesis by blast
qed

text \<open>
  A deletion in a project without commits is not \<open>nothing to record\<close>: the base tree is the zero hash,
  the new one git's empty tree, so a commit of an empty tree is made.
\<close>

theorem unborn_delete_commits:
  assumes "libs_ok L" "project_ok L p" "entry_ok e" "call_ok K" "commitEntry L D C K e p = (None, p')"
    and "cl_head L (pj_refs p) = None" "e_Op e = ''delete''"
  shows "cl_head L (pj_refs p') \<noteq> None \<and> head_tree L p' = emptyTreeHash (cl_git L)"
proof -
  have z: "read_tree L K p = g_zero (cl_git L)" using assms(6) by (simp add: read_tree_def head_base_def)
  from assms(1-5) show ?thesis
  proof (cases rule: commitEntry_outcome)
    case (unchanged db')
    then have "odb_ok (cl_git L) db'" "\<exists>es. db' (g_zero (cl_git L)) = Some (TreeObj es)" using z by (auto simp: built_def)
    then show ?thesis using odb_zero [of "cl_git L" db'] assms(1) by (auto simp: libs_ok_def)
  next
    case (committed t db h p2)
    have "applyToTree (cl_git L) (g_zero (cl_git L)) (split_on slash (e_Path e)) (g_zero (cl_git L)) True (pj_odb p) = Some (t, db)"
      using committed(12) assms(7) z by (simp add: build_tree_def split: option.splits)
    then have "t = emptyTreeHash (cl_git L)" by (rule applyToTree_zero_delete)
    moreover have "head_tree L p' = t" using head_tree_Some [OF committed(8,9)] by (simp add: make_commit_def Let_def)
    ultimately show ?thesis using committed(8) by simp
  qed simp
qed

text \<open>
  Not what is meant: an error of \<open>r.Head()\<close> or \<open>r.CommitObject\<close> is taken for a project without commits.  The
  entry is committed on the empty tree, so every other file is gone from the new head, and when it was
  \<open>r.Head()\<close> that failed the new commit has no parent, so the history is gone too.
\<close>

theorem head_read_error_drops_files:
  assumes "libs_ok L" "project_ok L p" "entry_ok e" "call_ok K" "commitEntry L D C K e p = (None, p')"
    and "\<not> reads_head K" "q \<noteq> split_on slash (e_Path e)"
  shows "head_files L p' q = None \<and>
    (ca_headFails K \<longrightarrow> (\<exists>c. history (pj_odb p') (cl_head L (pj_refs p')) [c]))"
proof
  show "head_files L p' q = None"
    using commitEntry_sound(3) [OF assms(1-5)] assms(6,7)
    by (auto simp: entry_effect_def files_read_def file_after_def Let_def)
  show "ca_headFails K \<longrightarrow> (\<exists>c. history (pj_odb p') (cl_head L (pj_refs p')) [c])"
    using assms(1-5)
  proof (cases rule: commitEntry_outcome)
    case (committed t db h p2)
    then show ?thesis by (auto simp: make_commit_def Let_def read_parents_head intro: exI [of _ None])
  qed (use assms(6) in simp_all)
qed

text \<open>A project with one committed file, and a second write whose read of \<open>HEAD\<close> fails: the first file is gone.\<close>

definition second_write :: wal_entry where
  "second_write = plain_entry ''write'' ''b'' [] ''y''"

definition stored_file :: "oid commit" where
  "stored_file = make_commit plain_lib plain_cfg 5 (plain_entry ''write'' ''a'' [] ''x'') (OTree [(''a'', Regular, OBlob ''x'')]) []"

definition stored_project :: "(oid, del_row mem_db) project" where
  "stored_project = new_project\<lparr>
     pj_odb := [OBlob ''x'' \<mapsto> BlobObj ''x'',
       OTree [(''a'', Regular, OBlob ''x'')] \<mapsto> TreeObj [\<lparr>te_Name = ''a'', te_Mode = Regular, te_Hash = OBlob ''x''\<rparr>],
       oid_of (CommitObj stored_file) \<mapsto> CommitObj stored_file],
     pj_refs := [HEAD \<mapsto> SymRef ''refs/heads/main'', ''refs/heads/main'' \<mapsto> HashRef (oid_of (CommitObj stored_file))]\<rparr>"

lemma stored_head: "plain_head (pj_refs stored_project) = Some (oid_of (CommitObj stored_file))"
  by (simp add: stored_project_def plain_head_def HEAD_def temp_file_def file_base_def slash_def has_prefix_def)

lemma stored_project_ok: "project_ok plain_lib stored_project"
proof -
  have "refs_ok (pj_refs stored_project)"
    by (simp add: stored_project_def refs_ok_def HEAD_def temp_file_def file_base_def slash_def has_prefix_def)
  moreover have "odb_ok (cl_git plain_lib) (pj_odb stored_project)"
    by (auto simp: stored_project_def odb_ok_def plain_lib_def entries_ok_def seg_def slash_def)
  ultimately show ?thesis using stored_head
    by (auto simp: project_ok_def plain_lib_def stored_project_def stored_file_def make_commit_def Let_def)
qed

theorem head_read_error_drops_files_witness:
  "\<exists>p'. commitEntry plain_lib plain_dl plain_cfg (plain_call\<lparr>ca_headFails := True\<rparr>) second_write stored_project = (None, p') \<and>
     head_files plain_lib stored_project [''a''] = Some (Regular, OBlob ''x'') \<and> head_files plain_lib p' [''a''] = None"
proof -
  let ?K = "plain_call\<lparr>ca_headFails := True\<rparr>"
  have h: "head_base plain_lib True False db refs = ([], OZero)" for db refs by (simp add: head_base_def plain_lib_def)
  have k: "ca_headFails ?K" "ca_baseFails ?K = False" "ca_rnd ?K = ''1''" "ca_faults ?K = no_ref_faults"
    by (simp_all add: plain_call_def)
  have g: "SetEncodedObject (cl_git plain_lib) ob db = Some (oid_of ob, db(oid_of ob \<mapsto> ob))" for ob db
    by (simp add: SetEncodedObject_def plain_lib_def)
  have z: "g_zero (cl_git plain_lib) = OZero" by (simp add: plain_lib_def)
  obtain t db where b: "build_tree (cl_git plain_lib) OZero second_write (pj_odb stored_project) = Inr (t, db)" "t \<noteq> OZero"
    by (simp add: build_tree_def second_write_def plain_entry_def slash_def Let_def storeBlob_def g z loadTreeEntries_def
        withoutEntry_def storeTree_def)
  have o: "pj_open stored_project = RepoOpens" by (simp add: stored_project_def new_project_def)
  have a: "advanceHead ''1'' no_ref_faults x (pj_refs stored_project) = (err, st) \<Longrightarrow> err = None" for err st and x :: oid
    by (auto simp: advanceHead_def writeRefAtomic_def no_ref_faults_def stored_project_def HEAD_def Let_def)
  have "fst (commitEntry plain_lib plain_dl plain_cfg ?K second_write stored_project) = None"
    by (simp add: commitEntry_def o h k b g Let_def split: prod.split option.split) (use a in blast)
  then obtain p' where r: "commitEntry plain_lib plain_dl plain_cfg ?K second_write stored_project = (None, p')"
    by (cases "commitEntry plain_lib plain_dl plain_cfg ?K second_write stored_project") simp
  have e: "entry_ok second_write" "call_ok ?K" "\<not> reads_head ?K" "[''a''] \<noteq> split_on slash (e_Path second_write)"
    by (simp_all add: entry_ok_def second_write_def plain_entry_def slash_def seg_def call_ok_def reads_head_def plain_call_def)
  have "head_files plain_lib stored_project [''a''] = Some (Regular, OBlob ''x'')"
    using stored_head
    by (simp add: head_files_def head_tree_def head_base_def plain_lib_def)
      (simp add: stored_project_def stored_file_def make_commit_def entry_at_def loadTreeEntries_def Let_def)
  with head_read_error_drops_files [OF plain_lib_ok stored_project_ok e(1,2) r e(3,4)] r show ?thesis by blast
qed

end
