(* ===== verification/Catalog.thy ===== *)
theory Catalog
  imports Record_Store Go_Codec
begin

text \<open>
  Package \<open>catalog\<close> (\<open>internal/storage/catalog/catalog.go\<close>): the per-project cache of managed files.
  One bucket per directory, named by its path with a leading slash, holds one row per file; the
  hierarchy lives in the bucket names, made on demand by \<open>PutFile\<close> and removed from the leaf up by
  \<open>DeleteFile\<close>.  The lemmas show that this tree of buckets is at every moment the map from normalised
  paths to entries: a directory bucket exists exactly when a file lies below it.
\<close>

record file_entry =
  fe_Etag :: string
  fe_Size :: int
  fe_ModifiedAt :: int

type_synonym cat_row = "file_entry row"

definition rootBucket :: string where
  "rootBucket = ''/''"

definition bucketName :: "string \<Rightarrow> string" where
  "bucketName dir = (if dir = [] then rootBucket else ''/'' @ dir)"

definition catalog_Open :: "('db, cat_row) bolt \<Rightarrow> stat_res \<Rightarrow> 'db open_res \<Rightarrow> store_err + 'db" where
  "catalog_Open B stat opened = store_open B stat opened"

definition catalog_Create ::
    "('db, cat_row) bolt \<Rightarrow> stat_res \<Rightarrow> bool \<Rightarrow> 'db open_res \<Rightarrow> string \<Rightarrow> string \<Rightarrow> string \<Rightarrow>
     store_err + 'db" where
  "catalog_Create B stat mkdir_ok opened now namespace projectName =
     store_create B stat mkdir_ok opened rootBucket
       [(MetaSchemaVersion, CurrentSchemaVersion), (''created_at'', now), (''namespace'', namespace),
        (''project_name'', projectName), (''state'', ''healthy'')]"

definition catalog_Meta :: "('db, cat_row) bolt \<Rightarrow> string \<Rightarrow> 'db \<Rightarrow> string" where
  "catalog_Meta B key db = meta_get B db key"

definition catalog_SetMeta :: "('db, cat_row) bolt \<Rightarrow> string \<Rightarrow> string \<Rightarrow> 'db \<Rightarrow> store_err + 'db" where
  "catalog_SetMeta B key val db = meta_set B key val db"

text \<open>\<open>ensureBuckets\<close>: the root bucket, then one bucket per segment under the accumulated name.\<close>

fun ensure_segs :: "('db, cat_row) bolt \<Rightarrow> string \<Rightarrow> string list \<Rightarrow> 'db \<Rightarrow> 'db option" where
  "ensure_segs B cum [] db = Some db"
| "ensure_segs B cum (s # ss) db =
     (let cum1 = cum @ ''/'' @ s in
      case b_create B cum1 db of None \<Rightarrow> None | Some db1 \<Rightarrow> ensure_segs B cum1 ss db1)"

definition ensureBuckets :: "('db, cat_row) bolt \<Rightarrow> string \<Rightarrow> 'db \<Rightarrow> 'db option" where
  "ensureBuckets B dir db =
     (case b_create B rootBucket db of
        None \<Rightarrow> None
      | Some db1 \<Rightarrow> if dir = [] then Some db1 else ensure_segs B [] (split_on slash dir) db1)"

definition PutFile :: "('db, cat_row) bolt \<Rightarrow> string \<Rightarrow> file_entry \<Rightarrow> 'db \<Rightarrow> store_err + 'db" where
  "PutFile B p entry db =
     (let np = normalizePath p in
      if np = [] then Inl ErrEmptyPath
      else (case splitDirFile np of (dir, file) \<Rightarrow>
        update B (\<lambda>db. case ensureBuckets B dir db of
                    None \<Rightarrow> None | Some db1 \<Rightarrow> b_put B (bucketName dir) file (Row entry) db1) db))"

definition bucketHasKeys :: "('db, cat_row) bolt \<Rightarrow> 'db \<Rightarrow> string \<Rightarrow> bool" where
  "bucketHasKeys B db bn = (rows_in B db bn \<noteq> [])"

definition hasDescendantBuckets :: "('db, cat_row) bolt \<Rightarrow> 'db \<Rightarrow> string \<Rightarrow> bool" where
  "hasDescendantBuckets B db bn = list_ex (\<lambda>n. has_prefix n (bn @ ''/'')) (b_names B db)"

text \<open>\<open>cleanupEmptyBuckets\<close>: from the directory up, until a bucket that is not empty.\<close>

lemma parent_dir_shorter: "d \<noteq> [] \<Longrightarrow> length (parent_dir d) < length d"
proof -
  assume ne: "d \<noteq> []"
  obtain xs y where xs: "split_on slash d = xs @ [y]" using split_on_not_Nil by (metis rev_exhaust)
  have d: "d = path_of (xs @ [y])" using join_split [of slash d] xs by simp
  have p: "parent_dir d = path_of xs" by (simp add: parent_dir_def splitDirFile_def xs)
  show ?thesis
  proof (cases "xs = []")
    case True
    then show ?thesis using p ne by simp
  next
    case False
    then show ?thesis using p d by (simp add: join_last)
  qed
qed

function cleanupEmptyBuckets :: "('db, cat_row) bolt \<Rightarrow> string \<Rightarrow> 'db \<Rightarrow> 'db option" where
  "cleanupEmptyBuckets B dir db =
     (if dir = [] then Some db
      else
        (let bn = bucketName dir in
         if b_bucket B db bn then
           (if bucketHasKeys B db bn \<or> hasDescendantBuckets B db bn then Some db
            else (case b_drop B bn db of
                    None \<Rightarrow> None | Some db1 \<Rightarrow> cleanupEmptyBuckets B (parent_dir dir) db1))
         else cleanupEmptyBuckets B (parent_dir dir) db))"
  by auto
termination by (relation "measure (\<lambda>(B, dir, db). length dir)") (auto simp: parent_dir_shorter)

declare cleanupEmptyBuckets.simps [simp del]

definition DeleteFile :: "('db, cat_row) bolt \<Rightarrow> string \<Rightarrow> 'db \<Rightarrow> store_err + 'db" where
  "DeleteFile B p db =
     (let np = normalizePath p in
      if np = [] then Inr db
      else (case splitDirFile np of (dir, file) \<Rightarrow>
        update B (\<lambda>db. if b_bucket B db (bucketName dir)
                    then (case b_delete B (bucketName dir) file db of
                            None \<Rightarrow> None | Some db1 \<Rightarrow> cleanupEmptyBuckets B dir db1)
                    else Some db) db))"

definition GetFile :: "('db, cat_row) bolt \<Rightarrow> string \<Rightarrow> 'db \<Rightarrow> store_err + file_entry option" where
  "GetFile B p db =
     (let np = normalizePath p in
      if np = [] then Inr None
      else (case splitDirFile np of (dir, file) \<Rightarrow>
        (case bget B db (bucketName dir) file of
           None \<Rightarrow> Inr None
         | Some (Text t) \<Rightarrow> Inl ErrDecode
         | Some (Row e) \<Rightarrow> Inr (Some e))))"

definition HasFile :: "('db, cat_row) bolt \<Rightarrow> string \<Rightarrow> 'db \<Rightarrow> store_err + bool" where
  "HasFile B p db =
     (case GetFile B p db of Inl e \<Rightarrow> Inl e | Inr None \<Rightarrow> Inr False | Inr (Some e) \<Rightarrow> Inr True)"

fun decode_rows :: "(string \<times> cat_row) list \<Rightarrow> (string \<times> file_entry) list option" where
  "decode_rows [] = Some []"
| "decode_rows ((k, v) # rows) =
     (case v of Text t \<Rightarrow> None | Row e \<Rightarrow> map_option ((#) (k, e)) (decode_rows rows))"

text \<open>\<open>List\<close>: the rows of the directory's bucket and the names of the buckets one level below.\<close>

definition child_name :: "string \<Rightarrow> string \<Rightarrow> string \<Rightarrow> string option" where
  "child_name bn childPrefix n =
     (if n = metaBucket \<or> n = bn then None
      else if \<not> has_prefix n childPrefix then None
      else (let rem = drop (length childPrefix) n in
            if rem = [] \<or> slash \<in> set rem then None else Some rem))"

definition catalog_List ::
    "('db, cat_row) bolt \<Rightarrow> string \<Rightarrow> 'db \<Rightarrow> store_err + (string \<times> file_entry) list \<times> string list" where
  "catalog_List B p db =
     (let dir = normalizePath p;
          bn = bucketName dir;
          childPrefix = (if bn \<noteq> rootBucket then bn @ ''/'' else bn) in
      case decode_rows (rows_in B db bn) of
        None \<Rightarrow> Inl ErrDecode
      | Some files \<Rightarrow>
          Inr (sort_key fst files, sort (List.map_filter (child_name bn childPrefix) (b_names B db))))"

text \<open>\<open>VerifyInvariant\<close>, over a reader of the working tree.\<close>

datatype read_res = ReadNotExist | ReadFails | ReadData string

datatype violation = MissingFromTree string | EtagMismatch string string string

fun verify_rows ::
    "(string \<Rightarrow> read_res) \<Rightarrow> string \<Rightarrow> (string \<times> cat_row) list \<Rightarrow> violation list \<Rightarrow> violation list option" where
  "verify_rows tree dir [] vs = Some vs"
| "verify_rows tree dir ((k, v) # rows) vs =
     (case v of
        Text t \<Rightarrow> None
      | Row e \<Rightarrow>
          (let rel = (if dir \<noteq> [] then dir @ ''/'' @ k else k) in
           case tree rel of
             ReadNotExist \<Rightarrow> verify_rows tree dir rows (vs @ [MissingFromTree rel])
           | ReadFails \<Rightarrow> None
           | ReadData d \<Rightarrow>
               (if sha256Hex d \<noteq> fe_Etag e
                then verify_rows tree dir rows (vs @ [EtagMismatch rel (fe_Etag e) (sha256Hex d)])
                else verify_rows tree dir rows vs)))"

fun verify_buckets ::
    "('db, cat_row) bolt \<Rightarrow> (string \<Rightarrow> read_res) \<Rightarrow> 'db \<Rightarrow> string list \<Rightarrow> violation list \<Rightarrow> violation list option" where
  "verify_buckets B tree db [] vs = Some vs"
| "verify_buckets B tree db (n # ns) vs =
     (if n = metaBucket then verify_buckets B tree db ns vs
      else (case verify_rows tree (trim_prefix n ''/'') (b_rows B db n) vs of
              None \<Rightarrow> None | Some vs1 \<Rightarrow> verify_buckets B tree db ns vs1))"

definition VerifyInvariant ::
    "('db, cat_row) bolt \<Rightarrow> (string \<Rightarrow> read_res) \<Rightarrow> 'db \<Rightarrow> violation list option" where
  "VerifyInvariant B tree db = verify_buckets B tree db (b_names B db) []"

record cat_stats =
  FileCount :: nat
  DirCount :: nat
  SchemaVer :: string

definition catalog_Stats :: "('db, cat_row) bolt \<Rightarrow> 'db \<Rightarrow> cat_stats" where
  "catalog_Stats B db =
     (let names = filter (\<lambda>n. n \<noteq> metaBucket) (b_names B db) in
      \<lparr>FileCount = sum_list (map (\<lambda>n. length (b_rows B db n)) names), DirCount = length names,
       SchemaVer = meta_get B db MetaSchemaVersion\<rparr>)"

section \<open>The tree of buckets\<close>

definition dirname :: "string list \<Rightarrow> string" where
  "dirname cs = (if cs = [] then rootBucket else slashed cs)"

lemma bucketName_path_of: "segs cs \<Longrightarrow> bucketName (path_of cs) = dirname cs"
proof (cases "cs = []")
  case False
  moreover assume "segs cs"
  ultimately show ?thesis using slashed_path_of [of cs]
    by (simp add: bucketName_def dirname_def slash_def [symmetric])
qed (simp add: bucketName_def dirname_def)

lemma dirname_inject: "segs cs \<Longrightarrow> segs ds \<Longrightarrow> dirname cs = dirname ds \<longleftrightarrow> cs = ds"
proof -
  have ne: "slashed cs \<noteq> rootBucket" if "segs cs" for cs
    using that by (cases cs) (auto simp: rootBucket_def seg_def)
  assume "segs cs" "segs ds"
  then show ?thesis using ne slashed_inject [of cs ds] by (auto simp: dirname_def dest: sym)
qed

lemma dirname_meta: "dirname cs \<noteq> metaBucket"
  by (cases cs) (auto simp: dirname_def rootBucket_def metaBucket_def slash_def)

definition below :: "('db, cat_row) bolt \<Rightarrow> 'db \<Rightarrow> string list \<Rightarrow> bool" where
  "below B db cs \<longleftrightarrow> (\<exists>ds k. segs ds \<and> bget B db (dirname (cs @ ds)) k \<noteq> None)"

definition tree_rows :: "('db, cat_row) bolt \<Rightarrow> 'db \<Rightarrow> bool" where
  "tree_rows B db \<longleftrightarrow>
     (\<forall>n. b_bucket B db n \<longrightarrow> n = metaBucket \<or> (\<exists>cs. segs cs \<and> n = dirname cs)) \<and>
     (\<forall>cs k r. segs cs \<longrightarrow> bget B db (dirname cs) k = Some r \<longrightarrow> seg k \<and> (\<exists>e. r = Row e))"

text \<open>A bucket exists exactly where a file lies below; during the clean-up also above \<open>d\<close>.\<close>

definition tree_dirs :: "('db, cat_row) bolt \<Rightarrow> 'db \<Rightarrow> string list \<Rightarrow> bool" where
  "tree_dirs B db d \<longleftrightarrow>
     (\<forall>cs. segs cs \<longrightarrow> (cs = [] \<or> below B db cs \<longrightarrow> b_bucket B db (dirname cs)) \<and>
        (b_bucket B db (dirname cs) \<longrightarrow> cs = [] \<or> below B db cs \<or> (\<exists>r. d = cs @ r)))"

definition tree_ok :: "('db, cat_row) bolt \<Rightarrow> 'db \<Rightarrow> bool" where
  "tree_ok B db \<longleftrightarrow> bolt_ok B \<and> tree_rows B db \<and> tree_dirs B db []"


definition cat_lookup :: "('db, cat_row) bolt \<Rightarrow> 'db \<Rightarrow> string \<Rightarrow> file_entry option" where
  "cat_lookup B db np =
     (if np = [] \<or> \<not> segs (split_on slash np) then None
      else (case splitDirFile np of (dir, file) \<Rightarrow>
        (case bget B db (bucketName dir) file of Some (Row e) \<Rightarrow> Some e | _ \<Rightarrow> None)))"

lemma cat_lookup_at:
  "segs cs \<Longrightarrow> seg c \<Longrightarrow>
   cat_lookup B db (path_of (cs @ [c])) = (case bget B db (dirname cs) c of Some (Row e) \<Rightarrow> Some e | _ \<Rightarrow> None)"
  using split_path_of [of "cs @ [c]"] by (simp add: cat_lookup_def splitDirFile_segs bucketName_path_of)

lemma path_cases:
  obtains (none) "np = [] \<or> \<not> segs (split_on slash np)"
  | (at) cs c where "segs cs" "seg c" "np = path_of (cs @ [c])"
proof (cases "np = [] \<or> \<not> segs (split_on slash np)")
  case False
  obtain xs y where xs: "split_on slash np = xs @ [y]" using split_on_not_Nil by (metis rev_exhaust)
  moreover have "np = path_of (xs @ [y])" using join_split [of slash np] xs by simp
  ultimately show ?thesis using False at by auto
qed (use none in blast)

lemma normalizePath_cases:
  obtains (none) "normalizePath p = []"
  | (at) cs c where "segs cs" "seg c" "normalizePath p = path_of (cs @ [c])"
proof -
  obtain ds where ds: "segs ds" "normalizePath p = path_of ds" by (rule normalizePath_segs)
  show ?thesis
  proof (cases ds rule: rev_cases)
    case (snoc cs c)
    then show ?thesis using ds at by auto
  qed (use ds none in simp)
qed

text \<open>A change of one row in the bucket of a directory changes the look-up of one path.\<close>

lemma cat_lookup_upd:
  assumes "segs cs" "seg c" "\<And>ds k. segs ds \<Longrightarrow> seg k \<Longrightarrow>
      bget B db' (dirname ds) k = (if ds = cs \<and> k = c then r else bget B db (dirname ds) k)"
  shows "cat_lookup B db' = (cat_lookup B db)
    (path_of (cs @ [c]) := (case r of Some (Row e) \<Rightarrow> Some e | _ \<Rightarrow> None))"
proof
  fix np
  show "cat_lookup B db' np = ((cat_lookup B db)
      (path_of (cs @ [c]) := (case r of Some (Row e) \<Rightarrow> Some e | _ \<Rightarrow> None))) np"
  proof (cases np rule: path_cases)
    case none
    then have "np \<noteq> path_of (cs @ [c])"
      using assms(1,2) split_path_of [of "cs @ [c]"] path_of_empty [of "cs @ [c]"] by (auto simp: seg_def)
    then show ?thesis using none by (auto simp: cat_lookup_def)
  next
    case (at ds k)
    then show ?thesis
      using assms(1,2) path_of_inject [of "ds @ [k]" "cs @ [c]"] by (simp add: cat_lookup_at assms(3))
  qed
qed

lemma ensure_segs_reads:
  assumes "bolt_ok B"
  shows "ensure_segs B (slashed a) ss db = Some db' \<Longrightarrow> bget B db' = bget B db \<and>
    (\<forall>n. b_bucket B db' n \<longleftrightarrow> b_bucket B db n \<or> (\<exists>ys zs. ys \<noteq> [] \<and> ss = ys @ zs \<and> n = slashed (a @ ys)))"
proof (induction ss arbitrary: a db)
  case (Cons s ss)
  have cum: "slashed a @ ''/'' @ s = slashed (a @ [s])" by (simp add: slash_def)
  from Cons.prems obtain db1 where db1: "b_create B (slashed (a @ [s])) db = Some db1"
    "ensure_segs B (slashed (a @ [s])) ss db1 = Some db'"
    unfolding ensure_segs.simps Let_def cum by (auto split: option.splits)
  note c = create_reads [OF assms db1(1)] and ih = Cons.IH [OF db1(2)]
  have "(\<exists>ys zs. ys \<noteq> [] \<and> s # ss = ys @ zs \<and> n = slashed (a @ ys)) \<longleftrightarrow>
      n = slashed (a @ [s]) \<or> (\<exists>ys zs. ys \<noteq> [] \<and> ss = ys @ zs \<and> n = slashed ((a @ [s]) @ ys))" for n
  proof
    assume "\<exists>ys zs. ys \<noteq> [] \<and> s # ss = ys @ zs \<and> n = slashed (a @ ys)"
    then obtain ys zs where "ys \<noteq> []" "s # ss = ys @ zs" "n = slashed (a @ ys)" by blast
    moreover from this obtain ys' where "ys = s # ys'" "ss = ys' @ zs" by (cases ys) auto
    ultimately show "n = slashed (a @ [s]) \<or> (\<exists>ys zs. ys \<noteq> [] \<and> ss = ys @ zs \<and> n = slashed ((a @ [s]) @ ys))"
      by (cases "ys' = []") auto
  next
    assume "n = slashed (a @ [s]) \<or> (\<exists>ys zs. ys \<noteq> [] \<and> ss = ys @ zs \<and> n = slashed ((a @ [s]) @ ys))"
    then show "\<exists>ys zs. ys \<noteq> [] \<and> s # ss = ys @ zs \<and> n = slashed (a @ ys)"
    proof
      assume "n = slashed (a @ [s])"
      then show ?thesis by (intro exI [of _ "[s]"] exI [of _ ss]) simp
    next
      assume "\<exists>ys zs. ys \<noteq> [] \<and> ss = ys @ zs \<and> n = slashed ((a @ [s]) @ ys)"
      then obtain ys zs where "ss = ys @ zs" "n = slashed ((a @ [s]) @ ys)" by blast
      then show ?thesis by (intro exI [of _ "s # ys"] exI [of _ zs]) simp
    qed
  qed
  with c ih show ?case by auto
qed simp

lemma ensureBuckets_reads:
  assumes "bolt_ok B" "segs cs" "ensureBuckets B (path_of cs) db = Some db'"
  shows "bget B db' = bget B db"
    "b_bucket B db' n \<longleftrightarrow> b_bucket B db n \<or> (\<exists>ys zs. cs = ys @ zs \<and> n = dirname ys)"
proof -
  from assms(3) obtain db1 where db1: "b_create B rootBucket db = Some db1"
    "if cs = [] then db' = db1 else ensure_segs B (slashed []) cs db1 = Some db'"
    using assms(2) by (cases "cs = []") (auto simp: ensureBuckets_def split_path_of split: option.splits)
  note c = create_reads [OF assms(1) db1(1)]
  have "bget B db' = bget B db \<and>
    (b_bucket B db' n \<longleftrightarrow> b_bucket B db n \<or> (\<exists>ys zs. cs = ys @ zs \<and> n = dirname ys))"
  proof (cases "cs = []")
    case True
    then show ?thesis using db1(2) c by (auto simp: dirname_def)
  next
    case False
    then have es: "ensure_segs B (slashed []) cs db1 = Some db'" using db1(2) by simp
    have "(\<exists>ys zs. cs = ys @ zs \<and> n = dirname ys) \<longleftrightarrow>
        n = rootBucket \<or> (\<exists>ys zs. ys \<noteq> [] \<and> cs = ys @ zs \<and> n = slashed ([] @ ys))"
      by (auto simp: dirname_def)
    with ensure_segs_reads [OF assms(1) es] c show ?thesis by auto
  qed
  then show "bget B db' = bget B db"
    "b_bucket B db' n \<longleftrightarrow> b_bucket B db n \<or> (\<exists>ys zs. cs = ys @ zs \<and> n = dirname ys)" by auto
qed

lemma PutFile_reads:
  assumes "bolt_ok B" "PutFile B p e db = Inr db'"
  obtains cs c where "segs cs" "seg c" "normalizePath p = path_of (cs @ [c])"
    "bget B db' = (bget B db)(dirname cs := (bget B db (dirname cs))(c \<mapsto> Row e))"
    "\<And>n. b_bucket B db' n \<longleftrightarrow> b_bucket B db n \<or> (\<exists>ys zs. cs = ys @ zs \<and> n = dirname ys)"
proof (cases p rule: normalizePath_cases)
  case none
  then show ?thesis using assms(2) by (simp add: PutFile_def)
next
  case (at cs c)
  have "path_of (cs @ [c]) \<noteq> []" using at path_of_empty [of "cs @ [c]"] by simp
  then have "update B (\<lambda>db. case ensureBuckets B (path_of cs) db of
      None \<Rightarrow> None | Some db1 \<Rightarrow> b_put B (dirname cs) c (Row e) db1) db = Inr db'"
    using assms(2) at by (simp add: PutFile_def splitDirFile_segs bucketName_path_of cong: option.case_cong)
  from update_Inr [OF assms(1) this] obtain db1 db2 where d: "ensureBuckets B (path_of cs) db = Some db1"
    "b_put B (dirname cs) c (Row e) db1 = Some db2" "bget B db' = bget B db2" "b_bucket B db' = b_bucket B db2"
    by (auto split: option.splits)
  note en = ensureBuckets_reads [OF assms(1) at(1) d(1)]
  have "b_bucket B db1 (dirname cs)" using en(2) [of "dirname cs"] by (metis append_Nil2)
  note pr = put_reads [OF assms(1) d(2) this]
  show ?thesis using that at en pr d(3,4) by simp
qed


lemma below_prefix: "segs r \<Longrightarrow> below B db (cs @ r) \<Longrightarrow> below B db cs"
  unfolding below_def by (metis append.assoc list_all_append)

lemma PutFile_tree:
  assumes "tree_ok B db" "PutFile B p e db = Inr db'"
  shows "tree_ok B db' \<and> cat_lookup B db' = (cat_lookup B db)(normalizePath p \<mapsto> e)"
proof -
  have B: "bolt_ok B" and rows: "tree_rows B db" and dirs: "tree_dirs B db []"
    using assms(1) by (auto simp: tree_ok_def)
  obtain cs c where at: "segs cs" "seg c" "normalizePath p = path_of (cs @ [c])"
    and get: "bget B db' = (bget B db)(dirname cs := (bget B db (dirname cs))(c \<mapsto> Row e))"
    and bk: "\<And>n. b_bucket B db' n \<longleftrightarrow> b_bucket B db n \<or> (\<exists>ys zs. cs = ys @ zs \<and> n = dirname ys)"
    using PutFile_reads [OF B assms(2)] by blast
  have "tree_rows B db'"
    unfolding tree_rows_def
  proof (intro conjI allI impI)
    fix n assume "b_bucket B db' n"
    then show "n = metaBucket \<or> (\<exists>cs. segs cs \<and> n = dirname cs)"
      using rows at(1) by (auto simp: bk tree_rows_def)
  next
    fix ds k r assume "segs ds" "bget B db' (dirname ds) k = Some r"
    then show "seg k" "\<exists>e. r = Row e" using rows at(1,2) by (auto simp: get tree_rows_def split: if_splits)
  qed
  moreover have "below B db' ds \<longleftrightarrow> below B db ds \<or> (\<exists>zs. cs = ds @ zs)" if "segs ds" for ds
  proof -
    have "below B db' ds \<longleftrightarrow> (\<exists>es k. segs es \<and> (ds @ es = cs \<and> k = c \<or> bget B db (dirname (ds @ es)) k \<noteq> None))"
    proof -
      have "bget B db' (dirname (ds @ es)) k \<noteq> None \<longleftrightarrow> ds @ es = cs \<and> k = c \<or> bget B db (dirname (ds @ es)) k \<noteq> None"
        if "segs es" for es k
        using that \<open>segs ds\<close> at(1) by (simp add: get dirname_inject)
      then show ?thesis by (simp add: below_def cong: conj_cong)
    qed
    also have "\<dots> \<longleftrightarrow> below B db ds \<or> (\<exists>es. segs es \<and> ds @ es = cs)" unfolding below_def by blast
    finally show ?thesis using at(1) by auto
  qed
  then have "tree_dirs B db' []"
    using dirs at(1) unfolding tree_dirs_def bk
    by (auto simp: dirname_inject)
  moreover have "cat_lookup B db' = (cat_lookup B db)(normalizePath p \<mapsto> e)"
    using cat_lookup_upd [of cs c B db' "Some (Row e)" db] at by (simp add: get dirname_inject)
  ultimately show ?thesis using B by (simp add: tree_ok_def)
qed


lemma bucketHasKeys_iff: "bolt_ok B \<Longrightarrow> bucketHasKeys B db bn \<longleftrightarrow> (\<exists>k. bget B db bn k \<noteq> None)"
proof -
  assume B: "bolt_ok B"
  have "(rows_in B db bn = []) = (map_of (rows_in B db bn) = Map.empty)" by simp
  then show ?thesis using rows_in_reads(2) [OF B, of db bn] by (auto simp: bucketHasKeys_def fun_eq_iff)
qed

lemma names_mem: "bolt_ok B \<Longrightarrow> n \<in> set (b_names B db) \<longleftrightarrow> b_bucket B db n"
  using bolt_okD(7) [of B db] by (auto simp: b_bucket_bview)

lemma hasDescendantBuckets_iff:
  assumes "bolt_ok B" "tree_rows B db" "segs d" "d \<noteq> []"
  shows "hasDescendantBuckets B db (dirname d) \<longleftrightarrow> (\<exists>es. segs es \<and> es \<noteq> [] \<and> b_bucket B db (dirname (d @ es)))"
proof
  assume "hasDescendantBuckets B db (dirname d)"
  then obtain n r where n: "b_bucket B db n" "n = slashed d @ slash # r"
    using assms(4) names_mem [OF assms(1)]
    by (auto simp: hasDescendantBuckets_def list_ex_iff has_prefix_iff dirname_def slash_def)
  then have "n \<noteq> metaBucket" using assms(4) by (cases d) (auto simp: metaBucket_def slash_def)
  then obtain es where es: "segs es" "n = dirname es" using n(1) assms(2) by (auto simp: tree_rows_def)
  have "es \<noteq> []" using es n(2) assms(3,4) by (cases d) (auto simp: dirname_def rootBucket_def seg_def)
  then have "slashed es = slashed d @ slash # r" using es n(2) by (simp add: dirname_def)
  from slashed_below [OF assms(3) es(1) this] es n(1) split_on_not_Nil
  show "\<exists>es. segs es \<and> es \<noteq> [] \<and> b_bucket B db (dirname (d @ es))"
    by (intro exI [of _ "split_on slash r"]) auto
next
  assume "\<exists>es. segs es \<and> es \<noteq> [] \<and> b_bucket B db (dirname (d @ es))"
  then obtain e es where es: "b_bucket B db (dirname (d @ e # es))" by (metis neq_Nil_conv)
  moreover have "has_prefix (dirname (d @ e # es)) (dirname d @ ''/'')"
    unfolding has_prefix_iff using assms(4) by (intro exI [of _ "e @ slashed es"]) (simp add: dirname_def slash_def)
  ultimately show "hasDescendantBuckets B db (dirname d)"
    using names_mem [OF assms(1)] by (auto simp: hasDescendantBuckets_def list_ex_iff)
qed

lemma below_here: "bget B db (dirname d) k \<noteq> None \<Longrightarrow> below B db d"
  unfolding below_def by (intro exI [of _ "[]"] exI [of _ k]) simp

lemma below_bucket: "tree_dirs B db d \<Longrightarrow> segs cs \<Longrightarrow> below B db cs \<Longrightarrow> b_bucket B db (dirname cs)"
  by (simp add: tree_dirs_def)

lemma tree_dirsD:
  "tree_dirs B db d \<Longrightarrow> segs cs \<Longrightarrow> b_bucket B db (dirname cs) \<Longrightarrow>
   cs = [] \<or> below B db cs \<or> (\<exists>r. d = cs @ r)"
  unfolding tree_dirs_def by blast

lemma below_cong: "bget B db' = bget B db \<Longrightarrow> below B db' = below B db"
  by (simp add: below_def fun_eq_iff)

lemma tree_dirs_up:
  assumes "tree_dirs B db (d @ [x])" "segs (d @ [x])" "\<not> b_bucket B db' (dirname (d @ [x]))"
    and "\<not> below B db (d @ [x])" "bget B db' = bget B db"
    and "\<And>cs. segs cs \<Longrightarrow> cs \<noteq> d @ [x] \<Longrightarrow> b_bucket B db' (dirname cs) = b_bucket B db (dirname cs)"
  shows "tree_dirs B db' d"
  unfolding tree_dirs_def below_cong [OF assms(5)]
proof (intro allI impI conjI)
  fix cs assume cs: "segs cs"
  show "b_bucket B db' (dirname cs)" if "cs = [] \<or> below B db cs"
    using that assms(1,4,6) cs by (auto simp: tree_dirs_def)
  show "cs = [] \<or> below B db cs \<or> (\<exists>r. d = cs @ r)" if b: "b_bucket B db' (dirname cs)"
  proof -
    have ne: "cs \<noteq> d @ [x]" using b assms(3) by auto
    then have "cs = [] \<or> below B db cs \<or> (\<exists>r. d @ [x] = cs @ r)"
      using b assms(1,6) cs by (auto simp: tree_dirs_def)
    moreover have "\<exists>r'. d = cs @ r'" if "d @ [x] = cs @ r" for r
      using that ne by (cases r rule: rev_cases) auto
    ultimately show ?thesis by blast
  qed
qed

lemma tree_dirs_stop:
  assumes "tree_dirs B db d" "segs d" "below B db d"
  shows "tree_dirs B db []"
  unfolding tree_dirs_def
proof (intro allI impI conjI)
  fix cs assume cs: "segs cs"
  show "b_bucket B db (dirname cs)" if "cs = [] \<or> below B db cs"
    using that assms(1) cs by (auto simp: tree_dirs_def)
  show "cs = [] \<or> below B db cs \<or> (\<exists>r. [] = cs @ r)" if "b_bucket B db (dirname cs)"
    using tree_dirsD [OF assms(1) cs that]
  proof (elim disjE exE)
    fix r assume "d = cs @ r"
    then have "segs r" "below B db (cs @ r)" using assms(2,3) by simp_all
    then have "below B db cs" by (rule below_prefix)
    then show ?thesis by simp
  qed simp_all
qed

lemma cleanup_ok:
  assumes "bolt_ok B"
  shows "segs d \<Longrightarrow> tree_rows B db \<Longrightarrow> tree_dirs B db d \<Longrightarrow> cleanupEmptyBuckets B (path_of d) db = Some db' \<Longrightarrow>
    bget B db' = bget B db \<and> tree_rows B db' \<and> tree_dirs B db' []"
proof (induction d arbitrary: db rule: rev_induct)
  case Nil
  then show ?case by (simp add: cleanupEmptyBuckets.simps)
next
  case (snoc x d)
  let ?d = "d @ [x]"
  have ne: "path_of ?d \<noteq> []" using snoc.prems(1) path_of_empty [of ?d] by simp
  have par: "parent_dir (path_of ?d) = path_of d" using parent_dir_segs [OF snoc.prems(1)] by simp
  have bn: "bucketName (path_of ?d) = dirname ?d" by (rule bucketName_path_of [OF snoc.prems(1)])
  note step = snoc.prems(4) [unfolded cleanupEmptyBuckets.simps [of B "path_of ?d"] Let_def bn par]
  note keys = bucketHasKeys_iff [OF assms, of db "dirname ?d"]
  note desc = hasDescendantBuckets_iff [OF assms snoc.prems(2,1)]
  have segs_d: "segs d" using snoc.prems(1) by simp
  show ?case
  proof (cases "b_bucket B db (dirname ?d)")
    case True
    show ?thesis
    proof (cases "bucketHasKeys B db (dirname ?d) \<or> hasDescendantBuckets B db (dirname ?d)")
      case stop: True
      then have "db' = db" using step True ne by simp
      moreover have "below B db ?d" using stop
      proof
        assume "bucketHasKeys B db (dirname ?d)"
        then show ?thesis unfolding keys by (elim exE) (rule below_here)
      next
        assume "hasDescendantBuckets B db (dirname ?d)"
        then obtain es where es: "segs es" "es \<noteq> []" "b_bucket B db (dirname (?d @ es))" using desc by blast
        then have "below B db (?d @ es)" using tree_dirsD [OF snoc.prems(3), of "?d @ es"] snoc.prems(1) by simp
        then show ?thesis by (rule below_prefix [OF es(1)])
      qed
      then have "tree_dirs B db []" by (rule tree_dirs_stop [OF snoc.prems(3,1)])
      ultimately show ?thesis using snoc.prems(2) by simp
    next
      case empty: False
      then obtain db1 where db1: "b_drop B (dirname ?d) db = Some db1"
        "cleanupEmptyBuckets B (path_of d) db1 = Some db'"
        using step True ne by (auto split: option.splits)
      note dr = drop_reads [OF assms db1(1)]
      have get: "bget B db1 = bget B db" using empty keys dr(1) by (auto simp: fun_eq_iff)
      have nb: "\<not> below B db ?d"
      proof
        assume "below B db ?d"
        then obtain es k where es: "segs es" "bget B db (dirname (?d @ es)) k \<noteq> None" by (auto simp: below_def)
        then have "b_bucket B db (dirname (?d @ es))" by (auto simp: bget_def split: if_splits)
        then show False using empty keys desc es by (cases "es = []") auto
      qed
      have rows: "tree_rows B db1" using snoc.prems(2) get dr(2) by (auto simp: tree_rows_def)
      have "tree_dirs B db1 d"
        by (rule tree_dirs_up [OF snoc.prems(3,1) _ nb get])
          (use dr(2) snoc.prems(1) dirname_inject in auto)
      from snoc.IH [OF segs_d rows this db1(2)] get show ?thesis by simp
    qed
  next
    case False
    then have c: "cleanupEmptyBuckets B (path_of d) db = Some db'" using step ne by simp
    have nb: "\<not> below B db ?d" using False below_bucket [OF snoc.prems(3,1)] by blast
    have "tree_dirs B db d" by (rule tree_dirs_up [OF snoc.prems(3,1) False nb]) simp_all
    from snoc.IH [OF segs_d snoc.prems(2) this c] show ?thesis .
  qed
qed


lemma DeleteFile_reads:
  assumes "tree_ok B db" "DeleteFile B p db = Inr db'" "segs cs" "seg c" "normalizePath p = path_of (cs @ [c])"
  shows "bget B db' = (bget B db)(dirname cs := (bget B db (dirname cs))(c := None)) \<and> tree_ok B db'"
proof -
  have B: "bolt_ok B" and rows: "tree_rows B db" and dirs: "tree_dirs B db []"
    using assms(1) by (auto simp: tree_ok_def)
  have "path_of (cs @ [c]) \<noteq> []" using assms(3,4) path_of_empty [of "cs @ [c]"] by simp
  then have u: "update B (\<lambda>db. if b_bucket B db (dirname cs)
      then (case b_delete B (dirname cs) c db of
              None \<Rightarrow> None | Some db1 \<Rightarrow> cleanupEmptyBuckets B (path_of cs) db1)
      else Some db) db = Inr db'"
    using assms(2-5) by (simp add: DeleteFile_def splitDirFile_segs bucketName_path_of cong: if_cong option.case_cong)
  from update_Inr [OF B u] obtain db2 where d2: "(if b_bucket B db (dirname cs)
      then (case b_delete B (dirname cs) c db of
              None \<Rightarrow> None | Some db1 \<Rightarrow> cleanupEmptyBuckets B (path_of cs) db1)
      else Some db) = Some db2" "bget B db' = bget B db2" "b_bucket B db' = b_bucket B db2" by blast
  have tr: "tree_rows B db' = tree_rows B db2" "tree_dirs B db' x = tree_dirs B db2 x" for x
    using d2(2,3) by (simp_all add: tree_rows_def tree_dirs_def below_def)
  show ?thesis
  proof (cases "b_bucket B db (dirname cs)")
    case True
    then obtain db1 where db1: "b_delete B (dirname cs) c db = Some db1"
      "cleanupEmptyBuckets B (path_of cs) db1 = Some db2"
      using d2(1) by (auto split: option.splits)
    have "delete_in B (dirname cs) c db = Some db1" using True db1(1) by (simp add: delete_in_def)
    note del = delete_in_reads [OF B this]
    have rows1: "tree_rows B db1" using rows by (simp add: tree_rows_def del)
    have get: "bget B db1 (dirname ds) k = (if ds = cs \<and> k = c then None else bget B db (dirname ds) k)"
      if "segs ds" for ds k using that assms(3) by (simp add: del dirname_inject)
    have mono: "below B db ds" if "below B db1 ds" "segs ds" for ds
    proof -
      from that(1) obtain es k where es: "segs es" "bget B db1 (dirname (ds @ es)) k \<noteq> None"
        by (auto simp: below_def)
      then have "bget B db (dirname (ds @ es)) k \<noteq> None"
        using get [of "ds @ es" k] that(2) by (auto split: if_splits)
      then show ?thesis using es(1) by (auto simp: below_def)
    qed
    have keep: "below B db1 ds \<or> (\<exists>r. cs = ds @ r)" if "below B db ds" "segs ds" for ds
    proof -
      from that(1) obtain es k where es: "segs es" "bget B db (dirname (ds @ es)) k \<noteq> None"
        by (auto simp: below_def)
      show ?thesis
      proof (cases "ds @ es = cs \<and> k = c")
        case False
        then have "bget B db1 (dirname (ds @ es)) k \<noteq> None" using get [of "ds @ es" k] es that(2) by auto
        then show ?thesis using es(1) by (auto simp: below_def)
      qed auto
    qed
    have "tree_dirs B db1 cs"
      unfolding tree_dirs_def
    proof (intro allI impI conjI)
      fix ds assume ds: "segs ds"
      show "b_bucket B db1 (dirname ds)" if "ds = [] \<or> below B db1 ds"
        using that mono ds dirs by (auto simp: tree_dirs_def del)
      show "ds = [] \<or> below B db1 ds \<or> (\<exists>r. cs = ds @ r)" if b: "b_bucket B db1 (dirname ds)"
      proof -
        have "ds = [] \<or> below B db ds" using b ds dirs by (auto simp: tree_dirs_def del)
        then show ?thesis using keep ds by blast
      qed
    qed
    from cleanup_ok [OF B assms(3) rows1 this db1(2)] del(1) d2(2) B show ?thesis
      by (simp add: tree_ok_def tr)
  next
    case False
    then have "db2 = db" "bget B db (dirname cs) = Map.empty" using d2(1) by (auto simp: bget_def fun_eq_iff)
    then show ?thesis using d2(2) rows dirs B by (auto simp: tree_ok_def tr fun_eq_iff)
  qed
qed

lemma DeleteFile_tree:
  assumes "tree_ok B db" "DeleteFile B p db = Inr db'"
  shows "tree_ok B db' \<and> cat_lookup B db' = (cat_lookup B db)(normalizePath p := None)"
proof (cases p rule: normalizePath_cases)
  case none
  then have "db' = db" using assms(2) by (simp add: DeleteFile_def)
  then show ?thesis using assms(1) none by (auto simp: cat_lookup_def)
next
  case (at cs c)
  note r = DeleteFile_reads [OF assms at]
  then show ?thesis
    using cat_lookup_upd [of cs c B db' None db] at by (simp add: dirname_inject)
qed

interpretation catalog: record_store "tree_ok B" "cat_lookup B" "PutFile B" "DeleteFile B" for B
proof unfold_locales
  fix db p r db'
  assume g: "tree_ok B db"
  show "PutFile B p r db = Inr db' \<Longrightarrow> tree_ok B db' \<and> cat_lookup B db' = (cat_lookup B db)(normalizePath p \<mapsto> r)"
    by (rule PutFile_tree [OF g])
  show "DeleteFile B p db = Inr db' \<Longrightarrow> tree_ok B db' \<and> cat_lookup B db' = (cat_lookup B db)(normalizePath p := None)"
    by (rule DeleteFile_tree [OF g])
qed

section \<open>Listing\<close>

definition under :: "string \<Rightarrow> string \<Rightarrow> string" where
  "under d q = (if d = [] then q else d @ ''/'' @ q)"

lemma path_of_append:
  "xs \<noteq> [] \<Longrightarrow> ys \<noteq> [] \<Longrightarrow> path_of (xs @ ys) = path_of xs @ slash # path_of ys"
proof (induction xs rule: induct_list012)
  case (2 x)
  then show ?case by (cases ys) auto
next
  case (3 x y zs)
  then show ?case by simp
qed simp

lemma under_path_of: "segs ds \<Longrightarrow> es \<noteq> [] \<Longrightarrow> under (path_of ds) (path_of es) = path_of (ds @ es)"
  using path_of_empty [of ds] path_of_append [of ds es]
  by (cases "ds = []") (simp_all add: under_def slash_def [symmetric])

lemma set_map_filter_iff: "y \<in> set (List.map_filter f xs) \<longleftrightarrow> (\<exists>x\<in>set xs. f x = Some y)"
  by (induction xs) (auto simp: List.map_filter_simps split: option.splits)

lemma distinct_map_filter_inj:
  "distinct xs \<Longrightarrow> (\<And>x x' y. f x = Some y \<Longrightarrow> f x' = Some y \<Longrightarrow> x = x') \<Longrightarrow> distinct (List.map_filter f xs)"
proof (induction xs)
  case (Cons x xs)
  then have "distinct (List.map_filter f xs)" by simp
  moreover have "y \<notin> set (List.map_filter f xs)" if "f x = Some y" for y
    using Cons.prems that by (auto simp: set_map_filter_iff)
  ultimately show ?case by (auto simp: List.map_filter_simps split: option.splits)
qed (simp add: List.map_filter_simps)

lemma child_name_iff:
  assumes "segs ds"
  shows "child_name (dirname ds) (slashed ds @ ''/'') n = Some c \<longleftrightarrow> n = dirname (ds @ [c]) \<and> seg c"
proof
  assume c: "child_name (dirname ds) (slashed ds @ ''/'') n = Some c"
  then have "has_prefix n (slashed ds @ ''/'')" by (auto simp: child_name_def Let_def split: if_splits)
  then obtain r where "n = slashed ds @ slash # r" by (auto simp: has_prefix_iff slash_def)
  with c show "n = dirname (ds @ [c]) \<and> seg c"
    by (auto simp: child_name_def Let_def seg_def dirname_def split: if_splits)
next
  assume n: "n = dirname (ds @ [c]) \<and> seg c"
  then have "n \<noteq> dirname ds" by (auto simp: dirname_def rootBucket_def seg_def)
  moreover have "n = (slashed ds @ ''/'') @ c" using n by (simp add: dirname_def slash_def)
  ultimately show "child_name (dirname ds) (slashed ds @ ''/'') n = Some c"
    using n dirname_meta [of "ds @ [c]"] has_prefix_append [of "slashed ds @ ''/''" c]
    by (simp add: child_name_def Let_def seg_def)
qed

lemma decode_rows_Rows:
  "\<forall>k v. (k, v) \<in> set rows \<longrightarrow> (\<exists>e. v = Row e) \<Longrightarrow>
   \<exists>fs. decode_rows rows = Some fs \<and> map fst fs = map fst rows \<and> (\<forall>k e. (k, e) \<in> set fs \<longleftrightarrow> (k, Row e) \<in> set rows)"
proof (induction rows)
  case (Cons r rows)
  obtain k e where r: "r = (k, Row e)" using Cons.prems by (metis list.set_intros(1) surj_pair)
  from Cons.IH Cons.prems obtain fs where "decode_rows rows = Some fs" "map fst fs = map fst rows"
    "\<forall>k e. (k, e) \<in> set fs \<longleftrightarrow> (k, Row e) \<in> set rows" by auto
  with r show ?case by auto
qed simp

lemma bget_lookup:
  "tree_rows B db \<Longrightarrow> segs ds \<Longrightarrow> bget B db (dirname ds) k = Some (Row e) \<longleftrightarrow> seg k \<and> cat_lookup B db (path_of (ds @ [k])) = Some e"
  by (auto simp: cat_lookup_at tree_rows_def split: option.splits row.splits)

lemma below_lookup:
  assumes "tree_rows B db" "segs ds" "seg c"
  shows "below B db (ds @ [c]) \<longleftrightarrow> (\<exists>q. cat_lookup B db (under (path_of ds) (c @ ''/'' @ q)) \<noteq> None)"
proof
  assume "below B db (ds @ [c])"
  then obtain es k r where es: "segs es" "bget B db (dirname (ds @ c # es)) k = Some r" by (auto simp: below_def)
  have "segs (ds @ c # es)" using assms(2,3) es(1) by simp
  then obtain e where "r = Row e" using assms(1) es(2) unfolding tree_rows_def by blast
  with es bget_lookup [OF assms(1), of "ds @ c # es" k e] assms(2,3)
  have "seg k" "cat_lookup B db (path_of (ds @ [c] @ (es @ [k]))) = Some e" by auto
  moreover have "path_of (ds @ [c] @ (es @ [k])) = under (path_of ds) (c @ ''/'' @ path_of (es @ [k]))"
    using under_path_of [OF assms(2), of "[c] @ (es @ [k])"] path_of_append [of "[c]" "es @ [k]"]
    by (simp add: slash_def)
  ultimately show "\<exists>q. cat_lookup B db (under (path_of ds) (c @ ''/'' @ q)) \<noteq> None" by auto
next
  assume "\<exists>q. cat_lookup B db (under (path_of ds) (c @ ''/'' @ q)) \<noteq> None"
  then obtain q where q: "cat_lookup B db (under (path_of ds) (c @ ''/'' @ q)) \<noteq> None" by blast
  let ?np = "under (path_of ds) (c @ ''/'' @ q)"
  have "c @ ''/'' @ q = path_of ([c] @ split_on slash q)"
    using path_of_append [of "[c]" "split_on slash q"] by (simp add: slash_def)
  then have np: "?np = path_of (ds @ c # split_on slash q)" using under_path_of [OF assms(2)] by simp
  have sp: "split_on slash ?np = ds @ c # split_on slash q"
  proof -
    have "\<forall>x\<in>set (ds @ c # split_on slash q). slash \<notin> set x"
      using assms(2,3) split_on_sep_free by (auto simp: list_all_iff seg_def)
    then show ?thesis unfolding np by (intro split_join) auto
  qed
  show "below B db (ds @ [c])"
  proof (cases ?np rule: path_cases)
    case none
    then show ?thesis using q by (auto simp: cat_lookup_def)
  next
    case (at xs y)
    then have "split_on slash ?np = xs @ [y]" using split_path_of [of "xs @ [y]"] by simp
    then obtain es where es: "xs = (ds @ [c]) @ es" using sp split_on_not_Nil [of slash q]
      by (cases "split_on slash q" rule: rev_cases) auto
    have "bget B db (dirname xs) y \<noteq> None" using q at by (auto simp: cat_lookup_at split: option.splits)
    then have "below B db xs" by (rule below_here)
    then show ?thesis using below_prefix [of es B db "ds @ [c]"] es at(1) by simp
  qed
qed

lemma catalog_List_spec:
  assumes "tree_ok B db"
  shows "\<exists>files subdirs. catalog_List B p db = Inr (files, subdirs) \<and>
    sorted_wrt (<) (map fst files) \<and> sorted_wrt (<) subdirs \<and>
    (\<forall>k e. (k, e) \<in> set files \<longleftrightarrow> seg k \<and> cat_lookup B db (under (normalizePath p) k) = Some e) \<and>
    (\<forall>c. c \<in> set subdirs \<longleftrightarrow> seg c \<and> (\<exists>q. cat_lookup B db (under (normalizePath p) (c @ ''/'' @ q)) \<noteq> None))"
proof -
  have B: "bolt_ok B" and rows: "tree_rows B db" and dirs: "tree_dirs B db []"
    using assms by (auto simp: tree_ok_def)
  obtain ds where ds: "segs ds" "normalizePath p = path_of ds" by (rule normalizePath_segs)
  let ?bn = "dirname ds" and ?f = "child_name (dirname ds) (slashed ds @ ''/'')"
  let ?rows = "rows_in B db ?bn"
  have bn: "bucketName (normalizePath p) = ?bn" using ds bucketName_path_of by simp
  have cp: "(if ?bn \<noteq> rootBucket then ?bn @ ''/'' else ?bn) = slashed ds @ ''/''"
    using dirname_inject [OF ds(1), of "[]"] by (auto simp: dirname_def rootBucket_def)
  have mem: "(k, v) \<in> set ?rows \<longleftrightarrow> bget B db ?bn k = Some v" for k v
    using kv_mem_iff [OF rows_in_reads(1) [OF B]] rows_in_reads(2) [OF B] by simp
  have "\<forall>k v. (k, v) \<in> set ?rows \<longrightarrow> (\<exists>e. v = Row e)" using rows ds(1) unfolding mem tree_rows_def by blast
  from decode_rows_Rows [OF this] obtain fs where fs: "decode_rows ?rows = Some fs" "map fst fs = map fst ?rows"
    "\<forall>k e. (k, e) \<in> set fs \<longleftrightarrow> (k, Row e) \<in> set ?rows" by blast
  have srt: "sorted_wrt (<) (map fst fs)" using rows_in_reads(1) [OF B] fs(2) by (simp add: kv_ok_def)
  then have "sort_key fst fs = fs" by (intro sort_key_id_if_sorted) (simp add: strict_sorted_iff)
  moreover have "distinct (List.map_filter ?f (b_names B db))"
    using bolt_okD(6) [OF B] by (intro distinct_map_filter_inj) (auto simp: strict_sorted_iff child_name_iff [OF ds(1)])
  then have "sorted_wrt (<) (sort (List.map_filter ?f (b_names B db)))" by (simp add: strict_sorted_iff)
  moreover have "c \<in> set (List.map_filter ?f (b_names B db)) \<longleftrightarrow> seg c \<and> below B db (ds @ [c])" for c
    using tree_dirsD [OF dirs, of "ds @ [c]"] below_bucket [OF dirs, of "ds @ [c]"] ds(1)
    by (auto simp: set_map_filter_iff child_name_iff names_mem [OF B])
  moreover have "(k, e) \<in> set fs \<longleftrightarrow> seg k \<and> cat_lookup B db (under (normalizePath p) k) = Some e" for k e
    using fs(3) mem bget_lookup [OF rows ds(1)] under_path_of [OF ds(1), of "[k]"] ds(2) by simp
  ultimately show ?thesis
    using fs(1) srt below_lookup [OF rows ds(1)] ds(2)
    unfolding catalog_List_def Let_def bn cp
    by (intro exI [of _ fs] exI [of _ "sort (List.map_filter ?f (b_names B db))"]) (simp del: not_None_eq cong: conj_cong)
qed

section \<open>All files of the catalog\<close>

definition cat_rel :: "string \<Rightarrow> string \<Rightarrow> string" where
  "cat_rel n k = under (trim_prefix n ''/'') k"

definition cat_rows :: "('db, cat_row) bolt \<Rightarrow> 'db \<Rightarrow> string \<Rightarrow> (string \<times> cat_row) list" where
  "cat_rows B db n = (if n = metaBucket then [] else map (\<lambda>(k, v). (cat_rel n k, v)) (b_rows B db n))"

definition cat_entries :: "('db, cat_row) bolt \<Rightarrow> 'db \<Rightarrow> (string \<times> cat_row) list" where
  "cat_entries B db = concat (map (cat_rows B db) (b_names B db))"

lemma cat_rel_dirname: "segs cs \<Longrightarrow> cat_rel (dirname cs) k = path_of (cs @ [k])"
proof -
  assume cs: "segs cs"
  have "trim_prefix (dirname cs) ''/'' = path_of cs"
  proof (cases "cs = []")
    case False
    then have "dirname cs = ''/'' @ path_of cs" using slashed_path_of [of cs] by (simp add: dirname_def slash_def)
    then show ?thesis by (simp only: trim_prefix_append)
  qed (simp add: dirname_def rootBucket_def trim_prefix_def has_prefix_def)
  then show ?thesis using under_path_of [OF cs, of "[k]"] by (simp add: cat_rel_def)
qed

lemma cat_rows_mem:
  assumes "tree_ok B db" "b_bucket B db n"
  shows "(q, v) \<in> set (cat_rows B db n) \<longleftrightarrow>
    (\<exists>cs k e. segs cs \<and> seg k \<and> n = dirname cs \<and> q = path_of (cs @ [k]) \<and> v = Row e \<and> cat_lookup B db q = Some e)"
proof -
  have B: "bolt_ok B" and rows: "tree_rows B db" using assms(1) by (auto simp: tree_ok_def)
  have mem: "(k, v) \<in> set (b_rows B db n) \<longleftrightarrow> bget B db n k = Some v" for k v
    using kv_mem_iff [OF rows_in_reads(1) [OF B, of db n]] rows_in_reads(2) [OF B, of db n] assms(2)
    by (simp add: rows_in_def)
  from assms(2) rows consider "n = metaBucket" | cs where "segs cs" "n = dirname cs"
    unfolding tree_rows_def by blast
  then show ?thesis
  proof cases
    case 1
    then show ?thesis using dirname_meta [symmetric] by (simp add: cat_rows_def)
  next
    case 2
    have "(q, v) \<in> set (cat_rows B db n) \<longleftrightarrow> (\<exists>k. q = path_of (cs @ [k]) \<and> bget B db (dirname cs) k = Some v)"
    proof -
      have "set (cat_rows B db n) = (\<lambda>(k, v). (path_of (cs @ [k]), v)) ` set (b_rows B db n)"
        using 2 dirname_meta [of cs] by (simp add: cat_rows_def cat_rel_dirname)
      then show ?thesis using mem 2(2) by force
    qed
    also have "\<dots> \<longleftrightarrow> (\<exists>k e. q = path_of (cs @ [k]) \<and> v = Row e \<and> seg k \<and> cat_lookup B db q = Some e)"
      using bget_lookup [OF rows 2(1)] rows 2(1) by (metis tree_rows_def)
    finally show ?thesis using 2 dirname_inject [OF 2(1)] by auto
  qed
qed

lemma cat_entries_mem:
  assumes "tree_ok B db"
  shows "(q, v) \<in> set (cat_entries B db) \<longleftrightarrow> (\<exists>e. v = Row e \<and> cat_lookup B db q = Some e)"
proof -
  have B: "bolt_ok B" using assms by (auto simp: tree_ok_def)
  have "(q, v) \<in> set (cat_entries B db) \<longleftrightarrow> (\<exists>n. b_bucket B db n \<and> (q, v) \<in> set (cat_rows B db n))"
    using names_mem [OF B] by (auto simp: cat_entries_def)
  also have "\<dots> \<longleftrightarrow> (\<exists>e. v = Row e \<and> cat_lookup B db q = Some e)"
  proof
    assume "\<exists>e. v = Row e \<and> cat_lookup B db q = Some e"
    then obtain e where e: "v = Row e" "cat_lookup B db q = Some e" by blast
    show "\<exists>n. b_bucket B db n \<and> (q, v) \<in> set (cat_rows B db n)"
    proof (cases q rule: path_cases)
      case none
      then show ?thesis using e by (auto simp: cat_lookup_def)
    next
      case (at cs c)
      then have "b_bucket B db (dirname cs)"
        using e(2) by (auto simp: cat_lookup_at bget_def split: if_splits)
      then show ?thesis using at e cat_rows_mem [OF assms] by blast
    qed
  qed (use cat_rows_mem [OF assms] in blast)
  finally show ?thesis .
qed

lemma distinct_concat_map:
  assumes "distinct ns" "\<And>n. n \<in> set ns \<Longrightarrow> distinct (f n)"
    and "\<And>n n' x. n \<in> set ns \<Longrightarrow> n' \<in> set ns \<Longrightarrow> x \<in> set (f n) \<Longrightarrow> x \<in> set (f n') \<Longrightarrow> n = n'"
  shows "distinct (concat (map f ns))"
  using assms
proof (induction ns)
  case (Cons n ns)
  have "x \<notin> set (f n')" if x: "x \<in> set (f n)" "n' \<in> set ns" for x n'
    using Cons.prems(3) [of n n' x] Cons.prems(1) x by auto
  moreover have "distinct (concat (map f ns))" using Cons.IH Cons.prems by simp
  ultimately show ?case using Cons.prems(2) [of n] by auto
qed simp

lemma cat_entries_distinct:
  assumes "tree_ok B db"
  shows "distinct (map fst (cat_entries B db))"
proof -
  have B: "bolt_ok B" and rows: "tree_rows B db" using assms by (auto simp: tree_ok_def)
  have one: "distinct (map fst (cat_rows B db n))" if n: "b_bucket B db n" for n
  proof -
    from n rows consider "n = metaBucket" | cs where "segs cs" "n = dirname cs" unfolding tree_rows_def by blast
    then show ?thesis
    proof cases
      case 2
      have "distinct (map fst (b_rows B db n))"
        using kv_ok_distinct [OF rows_in_reads(1) [OF B, of db n]] n by (simp add: rows_in_def)
      moreover have "inj_on (\<lambda>k. path_of (cs @ [k])) (fst ` set (b_rows B db n))"
      proof (rule inj_onI)
        fix k k' assume k: "k \<in> fst ` set (b_rows B db n)" "k' \<in> fst ` set (b_rows B db n)"
          "path_of (cs @ [k]) = path_of (cs @ [k'])"
        have "seg j" if "j \<in> fst ` set (b_rows B db n)" for j
        proof -
          from that obtain r where "(j, r) \<in> set (rows_in B db n)" using n by (auto simp: rows_in_def)
          then have "bget B db (dirname cs) j = Some r"
            using kv_mem_iff [OF rows_in_reads(1) [OF B]] rows_in_reads(2) [OF B] 2(2) by metis
          then show ?thesis using rows 2(1) unfolding tree_rows_def by blast
        qed
        with k path_of_inject [of "cs @ [k]" "cs @ [k']"] 2(1) show "k = k'" by simp
      qed
      moreover have "map fst (cat_rows B db n) = map (\<lambda>k. path_of (cs @ [k])) (map fst (b_rows B db n))"
        using 2 dirname_meta [of cs] by (simp add: cat_rows_def cat_rel_dirname comp_def case_prod_beta)
      ultimately show ?thesis
        by (simp only: distinct_map [of "\<lambda>k. path_of (cs @ [k])"] set_map simp_thms)
    qed (simp add: cat_rows_def)
  qed
  have disj: "n = n'" if nn: "b_bucket B db n" "b_bucket B db n'" "q \<in> fst ` set (cat_rows B db n)"
    "q \<in> fst ` set (cat_rows B db n')" for n n' q
  proof -
    from nn(3,4) obtain v v' where "(q, v) \<in> set (cat_rows B db n)" "(q, v') \<in> set (cat_rows B db n')" by auto
    then obtain cs k cs' k' where "segs cs" "seg k" "n = dirname cs" "q = path_of (cs @ [k])"
      "segs cs'" "seg k'" "n' = dirname cs'" "q = path_of (cs' @ [k'])"
      using cat_rows_mem [OF assms nn(1)] cat_rows_mem [OF assms nn(2)] by blast
    then show ?thesis using path_of_inject [of "cs @ [k]" "cs' @ [k']"] by simp
  qed
  have "distinct (concat (map (\<lambda>n. map fst (cat_rows B db n)) ns))"
    if "distinct ns" "\<forall>n\<in>set ns. b_bucket B db n" for ns
    by (rule distinct_concat_map [OF that(1)]) (use that(2) one disj in \<open>auto 0 3\<close>)
  moreover have "distinct (b_names B db)" "\<forall>n\<in>set (b_names B db). b_bucket B db n"
    using bolt_okD(6) [OF B] names_mem [OF B] by (auto simp: strict_sorted_iff)
  ultimately show ?thesis by (simp add: cat_entries_def map_concat comp_def)
qed

text \<open>What one entry contributes to the violations.\<close>

definition entry_fails :: "(string \<Rightarrow> read_res) \<Rightarrow> string \<times> cat_row \<Rightarrow> bool" where
  "entry_fails tree p \<longleftrightarrow> (case snd p of Text t \<Rightarrow> True | Row e \<Rightarrow> tree (fst p) = ReadFails)"

definition entry_violations :: "(string \<Rightarrow> read_res) \<Rightarrow> string \<times> cat_row \<Rightarrow> violation list" where
  "entry_violations tree p =
     (case snd p of
        Text t \<Rightarrow> []
      | Row e \<Rightarrow> (case tree (fst p) of
          ReadNotExist \<Rightarrow> [MissingFromTree (fst p)]
        | ReadFails \<Rightarrow> []
        | ReadData d \<Rightarrow> if sha256Hex d \<noteq> fe_Etag e then [EtagMismatch (fst p) (fe_Etag e) (sha256Hex d)] else []))"

lemma verify_rows_entries:
  "verify_rows tree (trim_prefix n ''/'') rows vs =
    (let es = map (\<lambda>(k, v). (cat_rel n k, v)) rows in
     if list_ex (entry_fails tree) es then None else Some (vs @ concat (map (entry_violations tree) es)))"
proof (induction rows arbitrary: vs)
  case (Cons r rows)
  obtain k v where "r = (k, v)" by fastforce
  with Cons show ?case
    by (auto simp: Let_def entry_fails_def entry_violations_def cat_rel_def under_def split: row.splits read_res.splits)
qed simp

lemma VerifyInvariant_entries:
  "VerifyInvariant B tree db =
    (if list_ex (entry_fails tree) (cat_entries B db) then None
     else Some (concat (map (entry_violations tree) (cat_entries B db))))"
proof -
  have "verify_buckets B tree db ns vs =
    (let es = concat (map (cat_rows B db) ns) in
     if list_ex (entry_fails tree) es then None else Some (vs @ concat (map (entry_violations tree) es)))" for ns vs
    by (induction ns arbitrary: vs) (auto simp: Let_def cat_rows_def verify_rows_entries)
  then show ?thesis by (simp add: VerifyInvariant_def cat_entries_def Let_def)
qed

lemma catalog_Stats_entries: "FileCount (catalog_Stats B db) = length (cat_entries B db)"
proof -
  have "sum_list (map (\<lambda>n. length (b_rows B db n)) (filter (\<lambda>n. n \<noteq> metaBucket) ns)) =
      length (concat (map (cat_rows B db) ns))" for ns
    by (induction ns) (auto simp: cat_rows_def)
  then show ?thesis by (simp add: catalog_Stats_def cat_entries_def Let_def)
qed

lemma FileCount_card:
  assumes "tree_ok B db"
  shows "FileCount (catalog_Stats B db) = card (dom (cat_lookup B db))"
proof -
  have "dom (cat_lookup B db) = set (map fst (cat_entries B db))"
  proof (intro set_eqI iffI)
    fix q assume "q \<in> dom (cat_lookup B db)"
    then obtain e where "(q, Row e) \<in> set (cat_entries B db)" using cat_entries_mem [OF assms] by blast
    then show "q \<in> set (map fst (cat_entries B db))" by force
  qed (use cat_entries_mem [OF assms] in auto)
  then show ?thesis using distinct_card [OF cat_entries_distinct [OF assms]] by (simp add: catalog_Stats_entries)
qed

lemma VerifyInvariant_spec:
  assumes "tree_ok B db"
  shows "VerifyInvariant B tree db = None \<longleftrightarrow> (\<exists>q e. cat_lookup B db q = Some e \<and> tree q = ReadFails)"
    and "VerifyInvariant B tree db = Some vs \<Longrightarrow> set vs =
      {MissingFromTree q |q e. cat_lookup B db q = Some e \<and> tree q = ReadNotExist} \<union>
      {EtagMismatch q (fe_Etag e) (sha256Hex d) |q e d.
         cat_lookup B db q = Some e \<and> tree q = ReadData d \<and> sha256Hex d \<noteq> fe_Etag e}"
proof -
  note mem = cat_entries_mem [OF assms]
  show "VerifyInvariant B tree db = None \<longleftrightarrow> (\<exists>q e. cat_lookup B db q = Some e \<and> tree q = ReadFails)"
  proof -
    have "VerifyInvariant B tree db = None \<longleftrightarrow> (\<exists>q v. (q, v) \<in> set (cat_entries B db) \<and> entry_fails tree (q, v))"
      by (simp add: VerifyInvariant_entries list_ex_iff Bex_def split_paired_Ex)
    also have "\<dots> \<longleftrightarrow> (\<exists>q e. cat_lookup B db q = Some e \<and> entry_fails tree (q, Row e))" unfolding mem by blast
    finally show ?thesis by (simp add: entry_fails_def)
  qed
  assume "VerifyInvariant B tree db = Some vs"
  then have vs: "set vs = (\<Union>p\<in>set (cat_entries B db). set (entry_violations tree p))"
    by (auto simp: VerifyInvariant_entries split: if_splits)
  have ev: "x \<in> set (entry_violations tree (q, Row e)) \<longleftrightarrow>
      x = MissingFromTree q \<and> tree q = ReadNotExist \<or>
      (\<exists>d. x = EtagMismatch q (fe_Etag e) (sha256Hex d) \<and> tree q = ReadData d \<and> sha256Hex d \<noteq> fe_Etag e)" for x q e
    by (cases "tree q") (auto simp: entry_violations_def)
  have "x \<in> set vs \<longleftrightarrow> (\<exists>q e. cat_lookup B db q = Some e \<and> x \<in> set (entry_violations tree (q, Row e)))" for x
  proof -
    have "x \<in> set vs \<longleftrightarrow> (\<exists>q v. (q, v) \<in> set (cat_entries B db) \<and> x \<in> set (entry_violations tree (q, v)))"
      by (simp add: vs Bex_def split_paired_Ex)
    then show ?thesis unfolding mem by blast
  qed
  then show "set vs =
      {MissingFromTree q |q e. cat_lookup B db q = Some e \<and> tree q = ReadNotExist} \<union>
      {EtagMismatch q (fe_Etag e) (sha256Hex d) |q e d.
         cat_lookup B db q = Some e \<and> tree q = ReadData d \<and> sha256Hex d \<noteq> fe_Etag e}"
    unfolding ev set_eq_iff by auto
qed

section \<open>The catalog as a map of paths\<close>

lemma catalog_Create_ok:
  assumes "bolt_ok B" "catalog_Create B stat mk (Opened db0) now ns pr = Inr db" "\<And>n. \<not> b_bucket B db0 n"
  shows "tree_ok B db" "cat_lookup B db = Map.empty" "catalog_Open B StatExists (Opened db) = Inr db"
proof -
  have ne: "rootBucket \<noteq> metaBucket" by (simp add: rootBucket_def metaBucket_def)
  note c = store_create_reads [OF assms(1) assms(2) [unfolded catalog_Create_def] ne]
  have bk: "b_bucket B db n \<longleftrightarrow> n = dirname [] \<or> n = metaBucket" for n
    using c assms(3) by (auto simp: dirname_def)
  have get: "bget B db n k = None" if "n \<noteq> metaBucket" for n k
    using c assms(3) that by (auto simp: bget_def)
  have "tree_rows B db" using bk get dirname_meta by (auto simp: tree_rows_def intro: exI [of _ "[]"])
  moreover have "\<not> below B db cs" for cs using get dirname_meta by (auto simp: below_def)
  then have "tree_dirs B db []"
    using bk dirname_inject [of _ "[]"] dirname_meta by (auto simp: tree_dirs_def)
  ultimately show "tree_ok B db" using assms(1) by (simp add: tree_ok_def)
  show "cat_lookup B db = Map.empty"
  proof
    fix np show "cat_lookup B db np = None"
      by (cases np rule: path_cases) (use get dirname_meta in \<open>auto simp: cat_lookup_at cat_lookup_def [where np = np]\<close>)
  qed
  have "meta_get B db MetaSchemaVersion = CurrentSchemaVersion"
    using c by (auto simp: MetaSchemaVersion_def)
  then show "catalog_Open B StatExists (Opened db) = Inr db" by (simp add: catalog_Open_def store_open_def)
qed

lemma GetFile_lookup: "tree_ok B db \<Longrightarrow> GetFile B p db = Inr (cat_lookup B db (normalizePath p))"
proof (cases p rule: normalizePath_cases)
  case none
  then show ?thesis by (simp add: GetFile_def cat_lookup_def)
next
  case (at cs c)
  moreover assume "tree_ok B db"
  ultimately show ?thesis
    using path_of_empty [of "cs @ [c]"]
    by (auto simp: GetFile_def splitDirFile_segs bucketName_path_of cat_lookup_at tree_ok_def tree_rows_def
        split: option.splits row.splits)
qed

lemma catalog_run:
  assumes "bolt_ok B" "\<And>n. \<not> b_bucket B db0 n"
    and "catalog_Create B stat mk (Opened db0) now ns pr = Inr db"
    and "run_changes (PutFile B) (DeleteFile B) cs db = Inr db'"
  shows "tree_ok B db'" "cat_lookup B db' = map_changes cs Map.empty"
  using catalog.changes_refine [OF catalog_Create_ok(1) [OF assms(1,3,2)] assms(4)]
    catalog_Create_ok(2) [OF assms(1,3,2)] by simp_all

text \<open>
  the catalog is a map of paths: after any run of \<open>PutFile\<close> and \<open>DeleteFile\<close> on a created
  catalog, whatever buckets were made and cleaned up on the way, \<open>GetFile\<close> gives what the last change
  of the normalised path left, \<open>HasFile\<close> says whether it is there, and \<open>Stats\<close> counts the paths present.
\<close>

theorem catalog_run_refines_map:
  assumes "bolt_ok B" "\<And>n. \<not> b_bucket B db0 n"
    and "catalog_Create B stat mk (Opened db0) now ns pr = Inr db"
    and "run_changes (PutFile B) (DeleteFile B) cs db = Inr db'"
  shows "GetFile B p db' = Inr (map_changes cs Map.empty (normalizePath p)) \<and>
    HasFile B p db' = Inr (normalizePath p \<in> dom (map_changes cs Map.empty)) \<and>
    FileCount (catalog_Stats B db') = card (dom (map_changes cs Map.empty))"
proof -
  note r = catalog_run [OF assms]
  show ?thesis
    using GetFile_lookup [OF r(1), of p] FileCount_card [OF r(1)]
    by (auto simp: r(2) HasFile_def split: option.splits)
qed

text \<open>
  listing a directory is exact: after such a run, \<open>List\<close> of a path succeeds with the files
  directly under the directory, in strictly ascending order of their names, and the names of the
  subdirectories, in strictly ascending order, below which some file still lies; a directory
  emptied by deletions, at any depth, is no longer listed.
\<close>

theorem catalog_List_exact:
  assumes "bolt_ok B" "\<And>n. \<not> b_bucket B db0 n"
    and "catalog_Create B stat mk (Opened db0) now ns pr = Inr db"
    and "run_changes (PutFile B) (DeleteFile B) cs db = Inr db'"
  shows "\<exists>files subdirs. catalog_List B p db' = Inr (files, subdirs) \<and>
    sorted_wrt (<) (map fst files) \<and> sorted_wrt (<) subdirs \<and>
    (\<forall>k e. (k, e) \<in> set files \<longleftrightarrow> seg k \<and> map_changes cs Map.empty (under (normalizePath p) k) = Some e) \<and>
    (\<forall>c. c \<in> set subdirs \<longleftrightarrow>
       seg c \<and> (\<exists>q. map_changes cs Map.empty (under (normalizePath p) (c @ ''/'' @ q)) \<noteq> None))"
  using catalog_List_spec [OF catalog_run(1) [OF assms], of p] unfolding catalog_run(2) [OF assms] .

text \<open>
  drift detection is exact: after such a run, \<open>VerifyInvariant\<close> fails exactly when some catalogued
  path cannot be read for another reason than absence, and otherwise returns exactly one kind of
  violation per catalogued path that is missing from the tree or whose content hashes to another etag.
\<close>

theorem VerifyInvariant_exact:
  assumes "bolt_ok B" "\<And>n. \<not> b_bucket B db0 n"
    and "catalog_Create B stat mk (Opened db0) now ns pr = Inr db"
    and "run_changes (PutFile B) (DeleteFile B) cs db = Inr db'"
  shows "case VerifyInvariant B tree db' of
      None \<Rightarrow> \<exists>q e. map_changes cs Map.empty q = Some e \<and> tree q = ReadFails
    | Some vs \<Rightarrow> (\<nexists>q e. map_changes cs Map.empty q = Some e \<and> tree q = ReadFails) \<and> set vs =
        {MissingFromTree q |q e. map_changes cs Map.empty q = Some e \<and> tree q = ReadNotExist} \<union>
        {EtagMismatch q (fe_Etag e) (sha256Hex d) |q e d.
           map_changes cs Map.empty q = Some e \<and> tree q = ReadData d \<and> sha256Hex d \<noteq> fe_Etag e}"
  using VerifyInvariant_spec [OF catalog_run(1) [OF assms], of tree] unfolding catalog_run(2) [OF assms]
  by (auto split: option.split)

lemma sorted_singleton: "set xs = {a} \<Longrightarrow> sorted_wrt (<) xs \<Longrightarrow> xs = [a]" for a :: "'a :: linorder"
proof (cases xs)
  case (Cons x r)
  assume "set xs = {a}" "sorted_wrt (<) xs"
  with Cons show ?thesis by (cases r) auto
qed simp

definition demo_entry_of :: "string \<Rightarrow> file_entry" where
  "demo_entry_of tag = \<lparr>fe_Etag = tag, fe_Size = 3, fe_ModifiedAt = 0\<rparr>"

definition demo_catalog :: "cat_row mem_db" where
  "demo_catalog =
     (case catalog_Create mem_bolt StatNotExist True (Opened []) ''t'' ''ns'' ''pr'' of Inr db \<Rightarrow> db | Inl e \<Rightarrow> [])"

definition demo_changes :: "file_entry change list" where
  "demo_changes =
     [Put ''a/b/x.md'' (demo_entry_of ''e1''), Put ''a/y.md'' (demo_entry_of ''e2''), Put ''/z.md'' (demo_entry_of ''e3''),
      Del ''a/b/x.md'', Put ''c/d.md'' (demo_entry_of ''e4''), Del ''c//d.md'']"

definition demo_db :: "cat_row mem_db" where
  "demo_db =
     (case run_changes (PutFile mem_bolt) (DeleteFile mem_bolt) demo_changes demo_catalog of Inr db \<Rightarrow> db | Inl e \<Rightarrow> [])"

lemma demo_runs:
  "bolt_ok (mem_bolt :: (cat_row mem_db, cat_row) bolt)" "\<And>n. \<not> b_bucket mem_bolt ([] :: cat_row mem_db) n"
  "catalog_Create mem_bolt StatNotExist True (Opened []) ''t'' ''ns'' ''pr'' = Inr demo_catalog"
  "run_changes (PutFile mem_bolt) (DeleteFile mem_bolt) demo_changes demo_catalog = Inr demo_db"
proof -
  show "bolt_ok (mem_bolt :: (cat_row mem_db, cat_row) bolt)" by (rule mem_bolt_ok)
  show "\<And>n. \<not> b_bucket mem_bolt ([] :: cat_row mem_db) n" by (simp add: mem_bolt_def)
  show "catalog_Create mem_bolt StatNotExist True (Opened []) ''t'' ''ns'' ''pr'' = Inr demo_catalog" by code_simp
  have "\<not> isl (run_changes (PutFile mem_bolt) (DeleteFile mem_bolt) demo_changes demo_catalog)" by code_simp
  from not_isl_Inr [OF this]
  show "run_changes (PutFile mem_bolt) (DeleteFile mem_bolt) demo_changes demo_catalog = Inr demo_db"
    by (auto simp: demo_db_def)
qed

lemma demo_map: "map_changes demo_changes Map.empty = [''a/y.md'' \<mapsto> demo_entry_of ''e2'', ''z.md'' \<mapsto> demo_entry_of ''e3'']"
proof -
  have n: "normalizePath ''a/b/x.md'' = ''a/b/x.md''" "normalizePath ''a/y.md'' = ''a/y.md''" "normalizePath ''/z.md'' = ''z.md''"
    "normalizePath ''c/d.md'' = ''c/d.md''" "normalizePath ''c//d.md'' = ''c/d.md''" by code_simp+
  show ?thesis by (rule ext) (simp add: demo_changes_def n)
qed

theorem catalog_run_refines_map_witness:
  "GetFile mem_bolt ''a/./y.md'' demo_db = Inr (Some (demo_entry_of ''e2'')) \<and> FileCount (catalog_Stats mem_bolt demo_db) = 2"
proof -
  have "normalizePath ''a/./y.md'' = ''a/y.md''" by code_simp
  then show ?thesis using catalog_run_refines_map [OF demo_runs, of "''a/./y.md''"] by (simp add: demo_map)
qed

theorem catalog_List_exact_witness:
  "\<exists>files. catalog_List mem_bolt [] demo_db = Inr (files, [''a'']) \<and> set files = {(''z.md'', demo_entry_of ''e3'')}"
proof -
  have n: "normalizePath [] = []" by code_simp
  from catalog_List_exact [OF demo_runs, of "[]"] obtain files subdirs where
    l: "catalog_List mem_bolt [] demo_db = Inr (files, subdirs)" "sorted_wrt (<) subdirs"
    "\<forall>k e. (k, e) \<in> set files \<longleftrightarrow> seg k \<and> map_changes demo_changes Map.empty (under [] k) = Some e"
    "\<forall>c. c \<in> set subdirs \<longleftrightarrow> seg c \<and> (\<exists>q. map_changes demo_changes Map.empty (under [] (c @ ''/'' @ q)) \<noteq> None)"
    unfolding n by blast
  have "c \<in> set subdirs \<longleftrightarrow> c = ''a''" for c
  proof -
    have "seg c \<and> c @ ''/'' @ q = ''a/y.md'' \<longleftrightarrow> c = ''a'' \<and> q = ''y.md''" for q
      by (cases c; cases "tl c") (auto simp: seg_def slash_def append_eq_Cons_conv)
    moreover have "\<not> (seg c \<and> c @ ''/'' @ q = ''z.md'')" for q
      by (auto simp: append_eq_Cons_conv)
    ultimately show ?thesis using l(4) by (auto simp: demo_map under_def split: if_splits)
  qed
  then have "set subdirs = {''a''}" by auto
  then have "subdirs = [''a'']" using l(2) by (intro sorted_singleton)
  moreover have "p \<in> set files \<longleftrightarrow> p = (''z.md'', demo_entry_of ''e3'')" for p
  proof (cases p)
    case (Pair k e)
    have "p \<in> set files \<longleftrightarrow> seg k \<and> map_changes demo_changes Map.empty k = Some e"
      using l(3) Pair by (simp add: under_def)
    also have "\<dots> \<longleftrightarrow> k = ''z.md'' \<and> e = demo_entry_of ''e3''"
      by (cases "k = ''z.md''"; cases "k = ''a/y.md''") (auto simp: demo_map seg_def slash_def)
    finally show ?thesis using Pair by simp
  qed
  then have "set files = {(''z.md'', demo_entry_of ''e3'')}" by blast
  ultimately show ?thesis using l(1) by blast
qed

theorem VerifyInvariant_exact_witness:
  "\<exists>vs. VerifyInvariant mem_bolt (\<lambda>q. ReadNotExist) demo_db = Some vs \<and>
     set vs = {MissingFromTree ''a/y.md'', MissingFromTree ''z.md''}"
proof -
  note e = VerifyInvariant_exact [OF demo_runs, of "\<lambda>q. ReadNotExist"]
  then obtain vs where vs: "VerifyInvariant mem_bolt (\<lambda>q. ReadNotExist) demo_db = Some vs"
    by (cases "VerifyInvariant mem_bolt (\<lambda>q. ReadNotExist) demo_db") auto
  with e have "set vs = {MissingFromTree q |q e. map_changes demo_changes Map.empty q = Some e}" by simp
  also have "\<dots> = {MissingFromTree ''a/y.md'', MissingFromTree ''z.md''}" by (auto simp: demo_map)
  finally show ?thesis using vs by blast
qed

end
