(* ===== verification/Search_Index.thy ===== *)
theory Search_Index
  imports Record_Store Go_Runes
begin

text \<open>
  Package \<open>index\<close> (\<open>internal/storage/index/index.go\<close>): the per-project derivative index, one record
  per path in the bucket \<open>files\<close>, with the commit it reflects in \<open>_meta\<close>.
\<close>

record index_record =
  ir_Etag :: string
  ir_Bigrams :: "string list"
  ir_OutboundLinks :: "string list"

section \<open>Bigrams\<close>

fun rune_pairs :: "nat list \<Rightarrow> string list" where
  "rune_pairs (a # b # rs) = rune_string [a, b] # rune_pairs (b # rs)"
| "rune_pairs rs = []"

definition Bigrams :: "(nat \<Rightarrow> nat) \<Rightarrow> string \<Rightarrow> string list" where
  "Bigrams lower s = sort (remdups (rune_pairs (runes (go_ToLower lower s))))"

text \<open>\<open>sort.SearchStrings\<close>: the halving loop of \<open>sort.Search\<close> with its bounds \<open>i\<close> and \<open>j\<close>.\<close>

function search_from :: "string list \<Rightarrow> string \<Rightarrow> nat \<Rightarrow> nat \<Rightarrow> nat" where
  "search_from xs x i j =
     (if i < j
      then let h = (i + j) div 2 in
           if xs ! h \<ge> x then search_from xs x i h else search_from xs x (h + 1) j
      else i)"
  by auto
termination by (relation "measure (\<lambda>(xs, x, i, j). j - i)") auto

declare search_from.simps [simp del]

definition SearchStrings :: "string list \<Rightarrow> string \<Rightarrow> nat" where
  "SearchStrings xs x = search_from xs x 0 (length xs)"

fun ContainsAllBigrams :: "index_record \<Rightarrow> string list \<Rightarrow> bool" where
  "ContainsAllBigrams r [] = True"
| "ContainsAllBigrams r (b # query) =
     (let i = SearchStrings (ir_Bigrams r) b in
      if i \<ge> length (ir_Bigrams r) \<or> ir_Bigrams r ! i \<noteq> b then False else ContainsAllBigrams r query)"

section \<open>The bucket of records\<close>

type_synonym index_row = "index_record row"

definition filesBucket :: string where
  "filesBucket = ''files''"

definition MetaLastIndexedCommit :: string where
  "MetaLastIndexedCommit = ''last_indexed_commit''"

definition index_Open :: "('db, index_row) bolt \<Rightarrow> stat_res \<Rightarrow> 'db open_res \<Rightarrow> store_err + 'db" where
  "index_Open B stat opened = store_open B stat opened"

definition index_Create ::
    "('db, index_row) bolt \<Rightarrow> stat_res \<Rightarrow> bool \<Rightarrow> 'db open_res \<Rightarrow> string \<Rightarrow> string \<Rightarrow> string \<Rightarrow>
     store_err + 'db" where
  "index_Create B stat mkdir_ok opened now namespace projectName =
     store_create B stat mkdir_ok opened filesBucket
       [(MetaSchemaVersion, CurrentSchemaVersion), (''created_at'', now), (''namespace'', namespace),
        (''project_name'', projectName), (MetaLastIndexedCommit, [])]"

definition index_Meta :: "('db, index_row) bolt \<Rightarrow> string \<Rightarrow> 'db \<Rightarrow> string" where
  "index_Meta B key db = meta_get B db key"

definition index_SetMeta :: "('db, index_row) bolt \<Rightarrow> string \<Rightarrow> string \<Rightarrow> 'db \<Rightarrow> store_err + 'db" where
  "index_SetMeta B key val db = meta_set B key val db"

definition LastIndexedCommit :: "('db, index_row) bolt \<Rightarrow> 'db \<Rightarrow> string" where
  "LastIndexedCommit B db = index_Meta B MetaLastIndexedCommit db"

definition SetLastIndexedCommit :: "('db, index_row) bolt \<Rightarrow> string \<Rightarrow> 'db \<Rightarrow> store_err + 'db" where
  "SetLastIndexedCommit B commit db = index_SetMeta B MetaLastIndexedCommit commit db"

definition PutRecord :: "('db, index_row) bolt \<Rightarrow> string \<Rightarrow> index_record \<Rightarrow> 'db \<Rightarrow> store_err + 'db" where
  "PutRecord B p rec db =
     (let np = normalizePath p in
      if np = [] then Inl ErrEmptyPath else update B (put_in B filesBucket [(np, Row rec)]) db)"

definition DeleteRecord :: "('db, index_row) bolt \<Rightarrow> string \<Rightarrow> 'db \<Rightarrow> store_err + 'db" where
  "DeleteRecord B p db =
     (let np = normalizePath p in
      if np = [] then Inr db else update B (delete_in B filesBucket np) db)"

definition GetRecord :: "('db, index_row) bolt \<Rightarrow> string \<Rightarrow> 'db \<Rightarrow> store_err + index_record option" where
  "GetRecord B p db =
     (let np = normalizePath p in
      if np = [] then Inr None
      else case bget B db filesBucket np of
             None \<Rightarrow> Inr None
           | Some (Text t) \<Rightarrow> Inl ErrDecode
           | Some (Row rec) \<Rightarrow> Inr (Some rec))"

text \<open>\<open>ReplaceAll\<close>: the records in the order the map iteration yields them.\<close>

definition index_rows :: "(string \<times> index_record) list \<Rightarrow> (string \<times> index_row) list" where
  "index_rows records =
     List.map_filter (\<lambda>(p, rec). let np = normalizePath p in if np = [] then None else Some (np, Row rec)) records"

definition index_ReplaceAll ::
    "('db, index_row) bolt \<Rightarrow> (string \<times> index_record) list \<Rightarrow> string \<Rightarrow> 'db \<Rightarrow> store_err + 'db" where
  "index_ReplaceAll B records commit db =
     update B (\<lambda>db. case replace_in B filesBucket (index_rows records) db of
                 None \<Rightarrow> None
               | Some db1 \<Rightarrow> put_in B metaBucket [(MetaLastIndexedCommit, Text commit)] db1) db"

definition Referrers :: "('db, index_row) bolt \<Rightarrow> string \<Rightarrow> 'db \<Rightarrow> string list" where
  "Referrers B target db =
     (let nt = normalizePath target in
      if nt = [] then []
      else sort (map fst (filter (\<lambda>(k, v). case v of Text t \<Rightarrow> False
                                    | Row rec \<Rightarrow> list_ex (\<lambda>out. out = nt) (ir_OutboundLinks rec))
                            (rows_in B db filesBucket))))"

definition index_Count :: "('db, index_row) bolt \<Rightarrow> 'db \<Rightarrow> nat" where
  "index_Count B db = length (rows_in B db filesBucket)"

section \<open>Reads after updates\<close>

definition index_lookup :: "('db, index_row) bolt \<Rightarrow> 'db \<Rightarrow> string \<Rightarrow> index_record option" where
  "index_lookup B db np =
     (if np = [] then None else case bget B db filesBucket np of Some (Row rec) \<Rightarrow> Some rec | _ \<Rightarrow> None)"

text \<open>Every row of the bucket holds a record.\<close>

definition index_good :: "('db, index_row) bolt \<Rightarrow> 'db \<Rightarrow> bool" where
  "index_good B db \<longleftrightarrow> bolt_ok B \<and> (\<forall>k t. bget B db filesBucket k \<noteq> Some (Text t))"

lemma PutRecord_reads:
  assumes "bolt_ok B" "PutRecord B p rec db = Inr db'"
  shows "normalizePath p \<noteq> []" "bget B db' = (bget B db)(filesBucket := (bget B db filesBucket)(normalizePath p \<mapsto> Row rec))"
proof -
  show ne: "normalizePath p \<noteq> []" using assms(2) by (auto simp: PutRecord_def Let_def)
  then have u: "update B (put_in B filesBucket [(normalizePath p, Row rec)]) db = Inr db'"
    using assms(2) by (simp add: PutRecord_def)
  from update_Inr [OF assms(1) u] put_in_reads [OF assms(1)]
  show "bget B db' = (bget B db)(filesBucket := (bget B db filesBucket)(normalizePath p \<mapsto> Row rec))"
    by fastforce
qed

lemma DeleteRecord_reads:
  assumes "bolt_ok B" "DeleteRecord B p db = Inr db'" "normalizePath p \<noteq> []"
  shows "bget B db' = (bget B db)(filesBucket := (bget B db filesBucket)(normalizePath p := None))"
proof -
  have u: "update B (delete_in B filesBucket (normalizePath p)) db = Inr db'"
    using assms(2,3) by (simp add: DeleteRecord_def)
  from update_Inr [OF assms(1) u] delete_in_reads [OF assms(1)] show ?thesis by fastforce
qed

interpretation search_index: record_store "index_good B" "index_lookup B" "PutRecord B" "DeleteRecord B" for B
proof unfold_locales
  fix db p r db'
  assume g: "index_good B db"
  then have B: "bolt_ok B" by (simp add: index_good_def)
  show "index_good B db' \<and> index_lookup B db' = (index_lookup B db)(normalizePath p \<mapsto> r)"
    if "PutRecord B p r db = Inr db'"
    using PutRecord_reads [OF B that] g by (auto simp: fun_eq_iff index_lookup_def index_good_def)
  show "index_good B db' \<and> index_lookup B db' = (index_lookup B db)(normalizePath p := None)"
    if d: "DeleteRecord B p db = Inr db'"
  proof (cases "normalizePath p = []")
    case True
    then show ?thesis using d g by (auto simp: fun_eq_iff index_lookup_def index_good_def DeleteRecord_def)
  next
    case False
    then show ?thesis using DeleteRecord_reads [OF B d False] g
      by (auto simp: fun_eq_iff index_lookup_def index_good_def)
  qed
qed

lemma ReplaceAll_reads:
  assumes "bolt_ok B" "index_ReplaceAll B records commit db = Inr db'"
  shows "bget B db' filesBucket = map_of (rev (index_rows records))" "LastIndexedCommit B db' = commit"
proof -
  from update_Inr [OF assms(1) assms(2) [unfolded index_ReplaceAll_def]] obtain db1 db2 where
    d: "replace_in B filesBucket (index_rows records) db = Some db1"
    "put_in B metaBucket [(MetaLastIndexedCommit, Text commit)] db1 = Some db2" "bget B db' = bget B db2"
    by (auto split: option.splits)
  from replace_in_reads [OF assms(1) d(1)] put_in_reads [OF assms(1) d(2)] d(3)
  show "bget B db' filesBucket = map_of (rev (index_rows records))" "LastIndexedCommit B db' = commit"
    by (simp_all add: LastIndexedCommit_def index_Meta_def meta_get_def filesBucket_def metaBucket_def)
qed

lemma Referrers_mem:
  assumes "bolt_ok B" "normalizePath target \<noteq> []"
  shows "p \<in> set (Referrers B target db) \<longleftrightarrow>
    (\<exists>rec. bget B db filesBucket p = Some (Row rec) \<and> normalizePath target \<in> set (ir_OutboundLinks rec))"
proof -
  have "(p, v) \<in> set (rows_in B db filesBucket) \<longleftrightarrow> bget B db filesBucket p = Some v" for v
    using kv_mem_iff [OF rows_in_reads(1) [OF assms(1)]] rows_in_reads(2) [OF assms(1)] by simp
  moreover have "(case v of Text t \<Rightarrow> False | Row rec \<Rightarrow> P rec) \<longleftrightarrow> (\<exists>rec. v = Row rec \<and> P rec)"
    for v :: index_row and P by (cases v) auto
  ultimately show ?thesis using assms(2)
    by (auto simp: Referrers_def Let_def list_ex_iff image_iff)
qed

section \<open>Bigrams find every substring\<close>

lemma search_from_spec:
  "sorted xs \<Longrightarrow> j \<le> length xs \<Longrightarrow> i \<le> j \<Longrightarrow> \<forall>k<i. xs ! k < x \<Longrightarrow> \<forall>k\<ge>j. k < length xs \<longrightarrow> x \<le> xs ! k \<Longrightarrow>
   (let r = search_from xs x i j in i \<le> r \<and> r \<le> j \<and> (\<forall>k<r. xs ! k < x) \<and> (\<forall>k\<ge>r. k < length xs \<longrightarrow> x \<le> xs ! k))"
proof (induction xs x i j rule: search_from.induct)
  case (1 xs x i j)
  show ?case
  proof (cases "i < j")
    case ij: True
    let ?h = "(i + j) div 2"
    show ?thesis
    proof (cases "x \<le> xs ! ?h")
      case True
      have "\<forall>k\<ge>?h. k < length xs \<longrightarrow> x \<le> xs ! k"
        using sorted_nth_mono [OF 1(3)] True by (meson order_trans)
      with 1(1) [OF ij refl] True 1(3-6) ij
      have "let r = search_from xs x i ?h in i \<le> r \<and> r \<le> ?h \<and> (\<forall>k<r. xs ! k < x) \<and> (\<forall>k\<ge>r. k < length xs \<longrightarrow> x \<le> xs ! k)"
        by simp
      moreover have "search_from xs x i j = search_from xs x i ?h"
        using ij True by (simp add: search_from.simps [of xs x i j] Let_def)
      moreover have "?h \<le> j" using ij by simp
      ultimately show ?thesis unfolding Let_def by (metis order_trans)
    next
      case False
      have "\<forall>k<?h + 1. xs ! k < x"
      proof (intro allI impI)
        fix k assume "k < ?h + 1"
        moreover have "?h < length xs" using ij 1(4) by linarith
        ultimately show "xs ! k < x" using sorted_nth_mono [OF 1(3), of k ?h] False by auto
      qed
      with 1(2) [OF ij refl] False 1(3-7) ij
      have "let r = search_from xs x (?h + 1) j in ?h + 1 \<le> r \<and> r \<le> j \<and> (\<forall>k<r. xs ! k < x) \<and> (\<forall>k\<ge>r. k < length xs \<longrightarrow> x \<le> xs ! k)"
        by simp
      moreover have "search_from xs x i j = search_from xs x (?h + 1) j"
        using ij False by (simp add: search_from.simps [of xs x i j] Let_def)
      moreover have "i \<le> ?h + 1" using ij by simp
      ultimately show ?thesis unfolding Let_def by (metis order_trans)
    qed
  next
    case False
    then have "i = j" using 1(5) by simp
    moreover have "search_from xs x j j = j" by (subst search_from.simps) simp
    ultimately show ?thesis using 1(6,7) by simp
  qed
qed

lemma SearchStrings_finds:
  assumes "sorted xs"
  shows "(SearchStrings xs b < length xs \<and> xs ! SearchStrings xs b = b) \<longleftrightarrow> b \<in> set xs"
proof -
  let ?r = "SearchStrings xs b"
  have r: "\<forall>k<?r. xs ! k < b" "\<forall>k\<ge>?r. k < length xs \<longrightarrow> b \<le> xs ! k"
    using search_from_spec [OF assms, of "length xs" 0 b] by (simp_all add: SearchStrings_def Let_def)
  show ?thesis
  proof
    assume "b \<in> set xs"
    then obtain k where k: "k < length xs" "xs ! k = b" by (auto simp: in_set_conv_nth)
    then have "?r \<le> k" using r(1) by (metis leI less_irrefl)
    with k r(2) sorted_nth_mono [OF assms this k(1)] show "?r < length xs \<and> xs ! ?r = b" by (auto intro: antisym)
  qed (auto simp: in_set_conv_nth)
qed

lemma ContainsAllBigrams_iff:
  assumes "sorted (ir_Bigrams r)"
  shows "ContainsAllBigrams r query \<longleftrightarrow> set query \<subseteq> set (ir_Bigrams r)"
proof (induction query)
  case (Cons b query)
  then show ?case using SearchStrings_finds [OF assms, of b] by (simp add: Let_def) (metis leD leI)
qed simp

lemma Bigrams_set: "set (Bigrams lower s) = set (rune_pairs (runes (go_ToLower lower s)))"
  by (simp add: Bigrams_def)

lemma rune_pairs_infix: "set (rune_pairs ys) \<subseteq> set (rune_pairs (us @ ys @ vs))"
proof -
  have post: "set (rune_pairs ys) \<subseteq> set (rune_pairs (ys @ vs))" for ys
    by (induction ys rule: rune_pairs.induct) auto
  have pre: "set (rune_pairs ys) \<subseteq> set (rune_pairs (us @ ys))" for ys
  proof (induction us)
    case (Cons u us)
    then show ?case by (cases "us @ ys") auto
  qed simp
  show ?thesis using post pre by blast
qed

definition fix_rune :: "nat \<Rightarrow> nat" where
  "fix_rune n = (if valid_rune n then n else RuneError)"

lemma rune_string_fix: "rune_string rs = rune_string (map fix_rune rs)" "list_all valid_rune (map fix_rune rs)"
proof -
  have v: "valid_rune (fix_rune n)" for n by (simp add: fix_rune_def valid_rune_def RuneError_def)
  have "encode_rune n = encode_rune (fix_rune n)" for n
    by (simp add: encode_rune_def fix_rune_def valid_rune_def RuneError_def)
  then show "rune_string rs = rune_string (map fix_rune rs)" by (simp add: rune_string_def comp_def)
  show "list_all valid_rune (map fix_rune rs)" using v by (simp add: list_all_iff)
qed

lemma runes_ToLower: "runes (go_ToLower lower s) = map fix_rune (map lower (runes s))"
  unfolding go_ToLower_def rune_string_fix(1) [of "map lower (runes s)"]
  by (rule runes_rune_string, rule rune_string_fix(2))

lemma ToLower_runes: "rune_string (runes (go_ToLower lower s)) = go_ToLower lower s"
  unfolding runes_ToLower rune_string_fix(1) [of "map lower (runes s)", symmetric] by (simp add: go_ToLower_def)

lemma ToLower_infix:
  assumes "go_ToLower lower s = u @ go_ToLower lower q @ v" "runes q \<noteq> []"
  shows "\<exists>us vs. runes (go_ToLower lower s) = us @ runes (go_ToLower lower q) @ vs"
proof -
  have eq: "rune_string (runes (go_ToLower lower s)) = u @ rune_string (runes (go_ToLower lower q)) @ v"
    unfolding ToLower_runes by (rule assms(1))
  have v: "list_all valid_rune (runes (go_ToLower lower x))" for x
    unfolding runes_ToLower by (rule rune_string_fix(2))
  have "runes (go_ToLower lower q) \<noteq> []" using assms(2) by (simp add: runes_ToLower)
  from rune_string_infix [OF v v this eq] show ?thesis .
qed

text \<open>
  C38: the bigram filter has no false negative: a record that carries the bigrams of a content whose
  lowered text contains the lowered query, at any byte position, passes
  \<open>ContainsAllBigrams\<close> with the bigrams of the query, for every case table and for ill-formed UTF-8
  too; so the gated walk skips no file the full scan would find, as long as the record it consults is up to date.
\<close>

theorem bigram_filter_complete:
  assumes "go_ToLower lower content = u @ go_ToLower lower query @ v"
    and "ir_Bigrams r = Bigrams lower content"
  shows "ContainsAllBigrams r (Bigrams lower query)"
proof -
  have "set (Bigrams lower query) \<subseteq> set (Bigrams lower content)"
  proof (cases "runes query = []")
    case True
    then show ?thesis by (simp add: Bigrams_set runes_ToLower)
  next
    case False
    then show ?thesis using ToLower_infix [OF assms(1)] rune_pairs_infix by (metis Bigrams_set)
  qed
  then show ?thesis using ContainsAllBigrams_iff [of r] assms(2) by (simp add: Bigrams_def)
qed

definition ascii_lower :: "nat \<Rightarrow> nat" where
  "ascii_lower n = (if 65 \<le> n \<and> n \<le> 90 then n + 32 else n)"

theorem bigram_filter_complete_witness:
  "ContainsAllBigrams \<lparr>ir_Etag = [], ir_Bigrams = Bigrams ascii_lower ''The Note'', ir_OutboundLinks = []\<rparr>
     (Bigrams ascii_lower ''NOT'')"
proof (rule bigram_filter_complete [where content = "''The Note''" and u = "''the ''" and v = "''e''"])
  show "go_ToLower ascii_lower ''The Note'' = ''the '' @ go_ToLower ascii_lower ''NOT'' @ ''e''"
    by (simp add: go_ToLower_def runes_def rune_string_def encode_rune_def valid_rune_def ascii_lower_def char_of_def bit_iff_odd)
qed simp

section \<open>A run of index updates\<close>

lemma GetRecord_lookup: "index_good B db \<Longrightarrow> GetRecord B p db = Inr (index_lookup B db (normalizePath p))"
  by (auto simp: GetRecord_def index_lookup_def index_good_def Let_def split: option.splits row.splits)

lemma index_Create_good:
  assumes "bolt_ok B" "index_Create B stat mk (Opened db0) now ns pr = Inr db" "\<And>n k. bget B db0 n k = None"
  shows "index_good B db" "index_lookup B db = Map.empty" "LastIndexedCommit B db = []"
    "index_Open B StatExists (Opened db) = Inr db"
proof -
  note c = store_create_reads [OF assms(1) assms(2) [unfolded index_Create_def]]
  have ne: "filesBucket \<noteq> metaBucket" by (simp add: filesBucket_def metaBucket_def)
  from c [OF ne] assms(3) have f: "bget B db filesBucket = Map.empty" by (auto simp: ne)
  from c [OF ne] have m: "meta_get B db MetaSchemaVersion = CurrentSchemaVersion" "meta_get B db MetaLastIndexedCommit = []"
    by (auto simp: MetaSchemaVersion_def MetaLastIndexedCommit_def)
  show "index_good B db" "index_lookup B db = Map.empty" "LastIndexedCommit B db = []"
    "index_Open B StatExists (Opened db) = Inr db"
    using f m assms(1)
    by (auto simp: index_good_def fun_eq_iff index_lookup_def LastIndexedCommit_def index_Meta_def index_Open_def
          store_open_def)
qed

text \<open>
  the index of a created store is a map: after any run of record upserts and deletions that
  succeeds, reading a path gives what the last change of its normalised form left, whichever
  spellings of the path the changes and the read use; and the created file opens.
\<close>

theorem index_run_refines_map:
  assumes "bolt_ok B" "\<And>n k. bget B db0 n k = None"
    and "index_Create B stat mk (Opened db0) now ns pr = Inr db"
    and "run_changes (PutRecord B) (DeleteRecord B) cs db = Inr db'"
  shows "index_Open B StatExists (Opened db) = Inr db \<and>
    GetRecord B p db' = Inr (map_changes cs Map.empty (normalizePath p))"
proof -
  note c = index_Create_good [OF assms(1,3,2)]
  have "index_good B db' \<and> index_lookup B db' = map_changes cs Map.empty"
    using search_index.changes_refine [OF c(1) assms(4)] c(2) by simp
  with c(4) GetRecord_lookup [of B db' p] show ?thesis by simp
qed


definition demo_records :: "index_record change list" where
  "demo_records =
     [Put ''/notes/b.md'' \<lparr>ir_Etag = ''e1'', ir_Bigrams = [], ir_OutboundLinks = [''a.md'']\<rparr>,
      Put ''notes//b.md'' \<lparr>ir_Etag = ''e2'', ir_Bigrams = [], ir_OutboundLinks = [''a.md'']\<rparr>,
      Put ''c.md'' \<lparr>ir_Etag = ''e3'', ir_Bigrams = [], ir_OutboundLinks = []\<rparr>, Del ''./c.md'']"

definition demo_index :: "index_row mem_db" where
  "demo_index =
     (case index_Create mem_bolt StatNotExist True (Opened []) ''t'' ''ns'' ''pr'' of Inr db \<Rightarrow> db | Inl e \<Rightarrow> [])"

theorem index_run_refines_map_witness:
  "\<exists>db' :: index_row mem_db. run_changes (PutRecord mem_bolt) (DeleteRecord mem_bolt) demo_records demo_index = Inr db' \<and>
     GetRecord mem_bolt ''/notes/b.md/'' db' =
       Inr (Some \<lparr>ir_Etag = ''e2'', ir_Bigrams = [], ir_OutboundLinks = [''a.md'']\<rparr>)"
proof -
  have c: "index_Create mem_bolt StatNotExist True (Opened []) ''t'' ''ns'' ''pr'' = Inr demo_index" by code_simp
  have e: "bget mem_bolt ([] :: index_row mem_db) n k = None" for n k by (simp add: bget_def mem_bolt_def)
  obtain db' where r: "run_changes (PutRecord mem_bolt) (DeleteRecord mem_bolt) demo_records demo_index = Inr db'"
  proof -
    have "\<not> isl (run_changes (PutRecord mem_bolt) (DeleteRecord mem_bolt) demo_records demo_index)"
      by code_simp
    then show thesis using that not_isl_Inr by blast
  qed
  have "map_changes demo_records Map.empty (normalizePath ''/notes/b.md/'') =
      Some \<lparr>ir_Etag = ''e2'', ir_Bigrams = [], ir_OutboundLinks = [''a.md'']\<rparr>" by code_simp
  with index_run_refines_map [OF mem_bolt_ok e c r, of "''/notes/b.md/''"] r show ?thesis by auto
qed

section \<open>The rebuilt reverse index\<close>

lemma index_rows_get:
  assumes "distinct (map (\<lambda>pr. normalizePath (fst pr)) records)"
  shows "map_of (rev (index_rows records)) k = Some v \<longleftrightarrow>
    (\<exists>p r. (p, r) \<in> set records \<and> normalizePath p = k \<and> k \<noteq> [] \<and> v = Row r)"
proof -
  have rows: "index_rows records = map (\<lambda>(p, r). (normalizePath p, Row r)) (filter (\<lambda>(p, r). normalizePath p \<noteq> []) records)"
    by (induction records) (auto simp: index_rows_def List.map_filter_simps Let_def)
  have "distinct (map fst (index_rows records))"
    using assms distinct_map_filter [of "\<lambda>x. normalizePath (fst x)" records]
    unfolding rows by (simp add: comp_def case_prod_beta)
  then have "map_of (rev (index_rows records)) k = Some v \<longleftrightarrow> (k, v) \<in> set (index_rows records)"
    by (subst distinct_mem_map_of [symmetric]) (simp_all flip: rev_map)
  then show ?thesis unfolding rows by auto
qed

text \<open>
  a rebuild inverts the links exactly: after \<open>ReplaceAll\<close> with records under distinct
  normalised paths, \<open>Referrers\<close> of a target is the sorted list, without repetition, of the normalised
  paths of the given records that link to the normalised target, every earlier record is gone, and
  the store names the commit it reflects.
\<close>

theorem Referrers_after_ReplaceAll:
  assumes "bolt_ok B" "index_ReplaceAll B records commit db = Inr db'"
    and "distinct (map (\<lambda>pr. normalizePath (fst pr)) records)" "normalizePath target \<noteq> []"
  shows "sorted_wrt (<) (Referrers B target db') \<and> LastIndexedCommit B db' = commit \<and>
    set (Referrers B target db') =
      {normalizePath p |p r. (p, r) \<in> set records \<and> normalizePath p \<noteq> [] \<and>
         normalizePath target \<in> set (ir_OutboundLinks r)}"
proof -
  note R = ReplaceAll_reads [OF assms(1,2)]
  have "q \<in> set (Referrers B target db') \<longleftrightarrow>
      (\<exists>p r. (p, r) \<in> set records \<and> normalizePath p \<noteq> [] \<and> q = normalizePath p \<and>
        normalizePath target \<in> set (ir_OutboundLinks r))" for q
    unfolding Referrers_mem [OF assms(1,4)] R(1) index_rows_get [OF assms(3)] by auto
  moreover have "sorted_wrt (<) (Referrers B target db')"
  proof -
    have "distinct (map fst (filter P (rows_in B db' filesBucket)))" for P
      by (rule kv_ok_distinct, rule kv_ok_filter, rule rows_in_reads(1) [OF assms(1)])
    then show ?thesis using assms(4) by (simp add: Referrers_def Let_def strict_sorted_iff)
  qed
  ultimately show ?thesis using R(2) by (intro conjI set_eqI iffI) blast+
qed

theorem Referrers_after_ReplaceAll_witness:
  "\<exists>db' :: index_row mem_db. index_ReplaceAll mem_bolt
       [(''notes/b.md'', \<lparr>ir_Etag = ''e1'', ir_Bigrams = [], ir_OutboundLinks = [''a.md'']\<rparr>)] ''c0ffee'' demo_index = Inr db' \<and>
     LastIndexedCommit mem_bolt db' = ''c0ffee'' \<and> set (Referrers mem_bolt ''/a.md'' db') = {''notes/b.md''}"
proof -
  let ?rs = "[(''notes/b.md'', \<lparr>ir_Etag = ''e1'', ir_Bigrams = [], ir_OutboundLinks = [''a.md'']\<rparr>)]"
  have "\<not> isl (index_ReplaceAll mem_bolt ?rs ''c0ffee'' demo_index)" by code_simp
  then obtain db' where r: "index_ReplaceAll mem_bolt ?rs ''c0ffee'' demo_index = Inr db'" using not_isl_Inr by blast
  have n: "normalizePath ''/a.md'' = ''a.md''" "normalizePath ''notes/b.md'' = ''notes/b.md''" by code_simp+
  have t: "normalizePath ''/a.md'' \<noteq> []" "distinct (map (\<lambda>pr. normalizePath (fst pr)) ?rs)" by (simp_all add: n)
  from Referrers_after_ReplaceAll [OF mem_bolt_ok r t(2,1)] r n show ?thesis by auto
qed

end
