(* ===== verification/Vector_Index.thy ===== *)
theory Vector_Index
  imports Record_Store Go_Codec
begin

text \<open>
  Package \<open>vectorindex\<close> (\<open>internal/storage/vectorindex/vectorindex.go\<close>): one embedding vector per path,
  stored as the little-endian bytes of its IEEE bit patterns; a float is its 64-bit pattern
  (\<open>math.Float64bits\<close>), which the store never interprets.
\<close>

type_synonym vec_row = "string row"

definition vectorsBucket :: string where
  "vectorsBucket = ''vectors''"

definition MetaModel :: string where
  "MetaModel = ''model''"

definition MetaDimensions :: string where
  "MetaDimensions = ''dimensions''"

section \<open>Bytes of a vector\<close>

text \<open>\<open>binary.LittleEndian.PutUint64\<close> and \<open>Uint64\<close>.\<close>

fun le_bytes :: "nat \<Rightarrow> nat \<Rightarrow> string" where
  "le_bytes 0 n = []"
| "le_bytes (Suc k) n = char_of (n mod 256) # le_bytes k (n div 256)"

fun le_value :: "string \<Rightarrow> nat" where
  "le_value [] = 0"
| "le_value (c # cs) = of_char c + 256 * le_value cs"

definition PutUint64 :: "64 word \<Rightarrow> string" where
  "PutUint64 w = le_bytes 8 (unat w)"

definition Uint64 :: "string \<Rightarrow> 64 word" where
  "Uint64 b = word_of_nat (le_value (take 8 b))"

definition encodeVector :: "64 word list \<Rightarrow> string" where
  "encodeVector v = concat (map PutUint64 v)"

definition decodeVector :: "string \<Rightarrow> 64 word list" where
  "decodeVector b = map (\<lambda>i. Uint64 (drop (i * 8) b)) [0..<length b div 8]"

lemma le_value_bytes: "le_value (le_bytes k n) = n mod 256 ^ k"
proof (induction k arbitrary: n)
  case (Suc k)
  have "n mod 256 + 256 * (n div 256 mod 256 ^ k) = n mod (256 * 256 ^ k)"
    by (simp add: mod_mult2_eq)
  with Suc show ?case by simp
qed simp

lemma le_bytes_length [simp]: "length (le_bytes k n) = k"
  by (induction k arbitrary: n) auto

lemma Uint64_Put: "Uint64 (PutUint64 w @ r) = w"
proof -
  have "unat w < 256 ^ 8" using unsigned_less [of w] by simp
  then show ?thesis by (simp add: Uint64_def PutUint64_def le_value_bytes)
qed

lemma encodeVector_length: "length (encodeVector v) = 8 * length v"
  by (induction v) (simp_all add: encodeVector_def PutUint64_def)

lemma encodeVector_drop: "i \<le> length v \<Longrightarrow> drop (i * 8) (encodeVector v) = encodeVector (drop i v)"
proof (induction i arbitrary: v)
  case (Suc i)
  then obtain w r where v: "v = w # r" by (cases v) auto
  have "drop (Suc i * 8) (encodeVector v) = drop (i * 8) (drop 8 (PutUint64 w @ encodeVector r))"
    by (simp add: v encodeVector_def PutUint64_def add.commute)
  also have "drop 8 (PutUint64 w @ encodeVector r) = encodeVector r" by (simp add: PutUint64_def)
  finally show ?case using Suc v by simp
qed simp

lemma decode_encodeVector: "decodeVector (encodeVector v) = v"
proof (rule nth_equalityI)
  show "length (decodeVector (encodeVector v)) = length v" by (simp add: decodeVector_def encodeVector_length)
  fix i assume "i < length (decodeVector (encodeVector v))"
  then have i: "i < length v" by (simp add: decodeVector_def encodeVector_length)
  then have "decodeVector (encodeVector v) ! i = Uint64 (encodeVector (drop i v))"
    by (simp add: decodeVector_def encodeVector_length encodeVector_drop)
  also have "drop i v = v ! i # drop (Suc i) v" using i by (simp add: Cons_nth_drop_Suc)
  finally show "decodeVector (encodeVector v) ! i = v ! i" by (simp add: encodeVector_def Uint64_Put)
qed

section \<open>The store\<close>

definition vec_Open :: "('db, vec_row) bolt \<Rightarrow> stat_res \<Rightarrow> 'db open_res \<Rightarrow> store_err + 'db" where
  "vec_Open B stat opened = store_open B stat opened"

definition vec_Create ::
    "('db, vec_row) bolt \<Rightarrow> stat_res \<Rightarrow> bool \<Rightarrow> 'db open_res \<Rightarrow> string \<Rightarrow> string \<Rightarrow> string \<Rightarrow> string \<Rightarrow> int \<Rightarrow>
     store_err + 'db" where
  "vec_Create B stat mkdir_ok opened now namespace projectName model dimensions =
     store_create B stat mkdir_ok opened vectorsBucket
       [(MetaSchemaVersion, CurrentSchemaVersion), (''created_at'', now), (''namespace'', namespace),
        (''project_name'', projectName), (MetaModel, model), (MetaDimensions, itoa dimensions)]"

text \<open>True when the stored model and dimensions match, False for \<open>ErrModelMismatch\<close>.\<close>

definition CheckModel :: "('db, vec_row) bolt \<Rightarrow> string \<Rightarrow> int \<Rightarrow> 'db \<Rightarrow> bool" where
  "CheckModel B model dimensions db =
     (\<not> (meta_get B db MetaModel \<noteq> model \<or> meta_get B db MetaDimensions \<noteq> itoa dimensions))"

definition vec_Put :: "('db, vec_row) bolt \<Rightarrow> string \<Rightarrow> 64 word list \<Rightarrow> 'db \<Rightarrow> store_err + 'db" where
  "vec_Put B p vector db =
     (let np = normalizePath p in
      if np = [] then Inl ErrEmptyPath
      else update B (put_in B vectorsBucket [(np, Row (encodeVector vector))]) db)"

definition vec_Delete :: "('db, vec_row) bolt \<Rightarrow> string \<Rightarrow> 'db \<Rightarrow> store_err + 'db" where
  "vec_Delete B p db =
     (let np = normalizePath p in
      if np = [] then Inr db else update B (delete_in B vectorsBucket np) db)"

definition vec_Get :: "('db, vec_row) bolt \<Rightarrow> string \<Rightarrow> 'db \<Rightarrow> 64 word list option" where
  "vec_Get B p db =
     (let np = normalizePath p in
      if np = [] then None
      else case bget B db vectorsBucket np of
             None \<Rightarrow> None
           | Some v \<Rightarrow> Some (decodeVector (case v of Row b \<Rightarrow> b | Text b \<Rightarrow> b)))"

definition vec_Keys :: "('db, vec_row) bolt \<Rightarrow> 'db \<Rightarrow> string list" where
  "vec_Keys B db = sort (map fst (rows_in B db vectorsBucket))"

definition vec_Count :: "('db, vec_row) bolt \<Rightarrow> 'db \<Rightarrow> nat" where
  "vec_Count B db = length (rows_in B db vectorsBucket)"

definition vec_rows :: "(string \<times> 64 word list) list \<Rightarrow> (string \<times> vec_row) list" where
  "vec_rows records =
     List.map_filter (\<lambda>(p, vec). let np = normalizePath p in
       if np = [] then None else Some (np, Row (encodeVector vec))) records"

definition vec_ReplaceAll :: "('db, vec_row) bolt \<Rightarrow> (string \<times> 64 word list) list \<Rightarrow> 'db \<Rightarrow> store_err + 'db" where
  "vec_ReplaceAll B records db = update B (replace_in B vectorsBucket (vec_rows records)) db"

definition vec_lookup :: "('db, vec_row) bolt \<Rightarrow> 'db \<Rightarrow> string \<Rightarrow> 64 word list option" where
  "vec_lookup B db np =
     (if np = [] then None
      else map_option (\<lambda>v. decodeVector (case v of Row b \<Rightarrow> b | Text b \<Rightarrow> b)) (bget B db vectorsBucket np))"

text \<open>The model and dimensions of the store are what it was created with.\<close>

definition vec_good :: "('db, vec_row) bolt \<Rightarrow> string \<Rightarrow> string \<Rightarrow> 'db \<Rightarrow> bool" where
  "vec_good B model dims db \<longleftrightarrow>
     bolt_ok B \<and> meta_get B db MetaModel = model \<and> meta_get B db MetaDimensions = dims \<and>
     bget B db vectorsBucket [] = None"

lemma vectors_not_meta: "vectorsBucket \<noteq> metaBucket" "metaBucket \<noteq> vectorsBucket"
  by (simp_all add: vectorsBucket_def metaBucket_def)

lemma vec_Put_law:
  assumes g: "vec_good B m d db" and p: "vec_Put B p r db = Inr db'"
  shows "vec_good B m d db' \<and> vec_lookup B db' = (vec_lookup B db)(normalizePath p \<mapsto> r)"
proof -
  have B: "bolt_ok B" using g by (simp add: vec_good_def)
  have ne: "normalizePath p \<noteq> []" using p by (auto simp: vec_Put_def Let_def)
  then have u: "update B (put_in B vectorsBucket [(normalizePath p, Row (encodeVector r))]) db = Inr db'"
    using p by (simp add: vec_Put_def)
  obtain db1 where d: "put_in B vectorsBucket [(normalizePath p, Row (encodeVector r))] db = Some db1"
    "bget B db' = bget B db1"
    using update_Inr [OF B u] by blast
  note get = put_in_reads(1) [OF B d(1)]
  show ?thesis
    using g ne by (auto simp: fun_eq_iff vec_lookup_def vec_good_def meta_get_def d(2) get decode_encodeVector vectors_not_meta)
qed

lemma vec_Delete_law:
  assumes g: "vec_good B m d db" and p: "vec_Delete B p db = Inr db'"
  shows "vec_good B m d db' \<and> vec_lookup B db' = (vec_lookup B db)(normalizePath p := None)"
proof (cases "normalizePath p = []")
  case True
  then show ?thesis using p g by (auto simp: fun_eq_iff vec_lookup_def vec_Delete_def)
next
  case False
  have B: "bolt_ok B" using g by (simp add: vec_good_def)
  have u: "update B (delete_in B vectorsBucket (normalizePath p)) db = Inr db'"
    using p False by (simp add: vec_Delete_def)
  obtain db1 where d: "delete_in B vectorsBucket (normalizePath p) db = Some db1" "bget B db' = bget B db1"
    using update_Inr [OF B u] by blast
  note get = delete_in_reads(1) [OF B d(1)]
  show ?thesis
    using g False by (auto simp: fun_eq_iff vec_lookup_def vec_good_def meta_get_def d(2) get vectors_not_meta)
qed

interpretation vector_index: record_store "vec_good B m d" "vec_lookup B" "vec_Put B" "vec_Delete B" for B m d
  by unfold_locales (fact vec_Put_law, fact vec_Delete_law)

lemma vec_Get_lookup: "vec_Get B p db = vec_lookup B db (normalizePath p)"
  by (simp add: vec_Get_def vec_lookup_def Let_def split: option.split)

lemma vec_Create_good:
  assumes "bolt_ok B" "\<And>n k. bget B db0 n k = None"
    and "vec_Create B stat mk (Opened db0) now ns pr model dims = Inr db"
  shows "vec_good B model (itoa dims) db" "vec_lookup B db = Map.empty"
proof -
  note c = store_create_reads [OF assms(1) assms(3) [unfolded vec_Create_def] vectors_not_meta(1)]
  have g: "bget B db vectorsBucket = Map.empty" using c assms(2) vectors_not_meta by auto
  have m: "meta_get B db MetaModel = model" "meta_get B db MetaDimensions = itoa dims"
    using c by (auto simp: MetaModel_def MetaDimensions_def MetaSchemaVersion_def)
  show "vec_good B model (itoa dims) db" "vec_lookup B db = Map.empty"
    using g m assms(1) by (auto simp: vec_good_def vec_lookup_def fun_eq_iff)
qed

lemma vec_Keys_mem: "bolt_ok B \<Longrightarrow> set (vec_Keys B db) = dom (bget B db vectorsBucket)"
proof -
  assume B: "bolt_ok B"
  have "map_of (rows_in B db vectorsBucket) = bget B db vectorsBucket"
    using rows_in_reads(2) [OF B] by (simp add: fun_eq_iff)
  then show ?thesis using dom_map_of_conv_image_fst [of "rows_in B db vectorsBucket"] by (simp add: vec_Keys_def)
qed

text \<open>
  the vector index returns every vector bit for bit: after any run of puts and deletions
  on a created index, reading a path gives the bit patterns the last put of the normalised path wrote,
  the keys are exactly the paths present in ascending order, and \<open>CheckModel\<close> still accepts exactly
  the model and the dimensions the index was created with.
\<close>

theorem vector_run_refines_map:
  assumes "bolt_ok B" "\<And>n k. bget B db0 n k = None"
    and "vec_Create B stat mk (Opened db0) now ns pr model dims = Inr db"
    and "run_changes (vec_Put B) (vec_Delete B) cs db = Inr db'"
  shows "vec_Get B p db' = map_changes cs Map.empty (normalizePath p) \<and>
    set (vec_Keys B db') = dom (map_changes cs Map.empty) \<and> sorted_wrt (<) (vec_Keys B db') \<and>
    (CheckModel B m d db' \<longleftrightarrow> m = model \<and> d = dims)"
proof -
  note c = vec_Create_good [OF assms(1,2,3)]
  from vector_index.changes_refine [OF c(1) assms(4)] c(2)
  have g: "vec_good B model (itoa dims) db'" and l: "vec_lookup B db' = map_changes cs Map.empty" by simp_all
  have "dom (vec_lookup B db') = dom (bget B db' vectorsBucket)"
    using g by (auto simp: vec_lookup_def vec_good_def dom_def)
  moreover have "sorted_wrt (<) (vec_Keys B db')"
    using kv_ok_distinct [OF rows_in_reads(1) [OF assms(1)]] by (simp add: vec_Keys_def strict_sorted_iff)
  moreover have "CheckModel B m d db' \<longleftrightarrow> m = model \<and> d = dims"
    using g by (auto simp: CheckModel_def vec_good_def itoa_inject)
  ultimately show ?thesis using vec_Keys_mem [OF assms(1)] l by (simp add: vec_Get_lookup)
qed

definition demo_vectors :: "64 word list change list" where
  "demo_vectors = [Put ''a.md'' [4607182418800017408, 0], Put ''b.md'' [1], Del ''/b.md'']"

definition demo_vec_index :: "vec_row mem_db" where
  "demo_vec_index =
     (case vec_Create mem_bolt StatNotExist True (Opened []) ''t'' ''ns'' ''pr'' ''m'' 2 of Inr db \<Rightarrow> db | Inl e \<Rightarrow> [])"

theorem vector_run_refines_map_witness:
  "\<exists>db' :: vec_row mem_db. run_changes (vec_Put mem_bolt) (vec_Delete mem_bolt) demo_vectors demo_vec_index = Inr db' \<and>
     vec_Get mem_bolt ''./a.md'' db' = Some [4607182418800017408, 0] \<and> CheckModel mem_bolt ''m'' 2 db'"
proof -
  have c: "vec_Create mem_bolt StatNotExist True (Opened []) ''t'' ''ns'' ''pr'' ''m'' 2 = Inr demo_vec_index" by code_simp
  have e: "bget mem_bolt ([] :: vec_row mem_db) n k = None" for n k by (simp add: bget_def mem_bolt_def)
  have n: "normalizePath ''./a.md'' = ''a.md''" "normalizePath ''a.md'' = ''a.md''" "normalizePath ''b.md'' = ''b.md''"
    "normalizePath ''/b.md'' = ''b.md''" by code_simp+
  have put: "\<exists>db'. vec_Put mem_bolt p v db = Inr db'" if "normalizePath p \<noteq> []" for p v and db :: "vec_row mem_db"
    using mem_put_in mem_update that by (fastforce simp: vec_Put_def)
  have del: "\<exists>db'. vec_Delete mem_bolt p db = Inr db'" for p and db :: "vec_row mem_db"
    using mem_delete_in mem_update by (fastforce simp: vec_Delete_def Let_def)
  obtain db1 where db1: "vec_Put mem_bolt ''a.md'' [4607182418800017408, 0] demo_vec_index = Inr db1" using put n by fastforce
  obtain db2 where db2: "vec_Put mem_bolt ''b.md'' [1] db1 = Inr db2" using put n by fastforce
  obtain db' where "vec_Delete mem_bolt ''/b.md'' db2 = Inr db'" using del by blast
  then have r: "run_changes (vec_Put mem_bolt) (vec_Delete mem_bolt) demo_vectors demo_vec_index = Inr db'"
    by (simp add: demo_vectors_def db1 db2)
  have "map_changes demo_vectors Map.empty ''a.md'' = Some [4607182418800017408, 0]"
    by (simp add: demo_vectors_def n)
  with vector_run_refines_map [OF mem_bolt_ok e c r, of "''./a.md''" "''m''" 2] r show ?thesis
    unfolding n by auto
qed

end
