(* ===== verification/Write_Path.thy ===== *)
theory Write_Path
  imports Work_Tree Partial_Edit Commit Catalog Search_Index Vector_Index Names
begin

text \<open>
  The mutating operations of the storage layer (\<open>internal/storage/fs_git.go\<close>, \<open>move.go\<close>,
  \<open>partialedit.go\<close>) as their critical sections under the per-file locks: the working tree, the
  write-ahead log and the derived stores of one project change together.  What the environment decides
  in a call (failing file-system calls, what opening a store yields, the request's context) is in the
  record \<open>op_env\<close>; libraries and configuration are in \<open>op_cfg\<close>.
\<close>

datatype project_state = StateHealthy | StateCorrupted | StateDangerous

datatype op_error =
  InvalidNamespace | InvalidProject | InvalidPath | SamePath | ProjectMoving | ProjectDangerous | ProjectCorrupted
| ProjectNotFound | WriteDisabled | LockError | FileNotFound | VersionConflict string string | EditError edit_error
| MkdirError | WriteError | WalError wal_error | RemoveError | SourceNotFound | ReadError

record notice =
  no_Kind :: string
  no_Path :: string
  no_Dest :: string

record ('c, 'i, 'v) world =
  w_tree :: wtree
  w_wal :: wal_log
  w_state :: project_state
  w_moving :: bool
  w_cat :: "'c option"
  w_idx :: "'i option"
  w_vec :: "'v option"
  w_vecQueue :: "(string \<times> string) list"
  w_kicks :: "(string \<times> string) list"
  w_notices :: "notice list"
  w_catFailedWrite :: nat
  w_catFailedDelete :: nat
  w_idxFailedWrite :: nat
  w_idxFailedDelete :: nat
  w_vecFailedDelete :: nat
  w_invariantViolations :: nat
  w_lazyRescans :: nat

record ('c, 'i, 'v) op_cfg =
  oc_base :: "string list"
  oc_catalog :: "('c, cat_row) bolt"
  oc_index :: "('i, index_row) bolt"
  oc_vector :: "('v, vec_row) bolt"
  oc_lower :: "nat \<Rightarrow> nat"
  oc_scanLinks :: "string \<Rightarrow> string \<Rightarrow> string list"
  oc_defaults :: id_defaults
  oc_maxWAL :: nat
  oc_vectorConfigured :: bool
  oc_vecCap :: nat
  oc_kickCap :: nat

record ('c, 'i, 'v) op_env =
  oe_ctx :: id_ctx
  oe_now :: int
  oe_mtime :: int
  oe_drift :: project_state
  oe_lock :: bool
  oe_dirLock :: bool
  oe_read :: bool
  oe_readDst :: bool
  oe_mkdir :: bool
  oe_write :: bool
  oe_remove :: bool
  oe_reap :: bool
  oe_wal :: wal_faults
  oe_partial :: string
  oe_catOpen :: "store_err + 'c"
  oe_catCreate :: "store_err + 'c"
  oe_idxOpen :: "store_err + 'i"
  oe_idxCreate :: "store_err + 'i"
  oe_vecOpen :: "store_err + 'v"

section \<open>The derived stores\<close>

text \<open>The handle registries: an open handle, or open on demand, or (for a mutation) create.\<close>

definition store_for :: "'db option \<Rightarrow> store_err + 'db \<Rightarrow> store_err + 'db \<Rightarrow> 'db option" where
  "store_for handle opened created =
     (case handle of
        Some h \<Rightarrow> Some h
      | None \<Rightarrow>
          (case opened of
             Inr h \<Rightarrow> Some h
           | Inl e \<Rightarrow> (if e = ErrNotFound then (case created of Inr h \<Rightarrow> Some h | Inl e2 \<Rightarrow> None) else None)))"

definition store_for_read :: "'db option \<Rightarrow> store_err + 'db \<Rightarrow> 'db option" where
  "store_for_read handle opened =
     (case handle of Some h \<Rightarrow> Some h | None \<Rightarrow> (case opened of Inr h \<Rightarrow> Some h | Inl e \<Rightarrow> None))"

definition catalogPut ::
    "('c, 'i, 'v) op_cfg \<Rightarrow> ('c, 'i, 'v) op_env \<Rightarrow> string \<Rightarrow> string \<Rightarrow> nat \<Rightarrow> ('c, 'i, 'v) world \<Rightarrow> ('c, 'i, 'v) world" where
  "catalogPut C E rel etag len w =
     (case store_for (w_cat w) (oe_catOpen E) (oe_catCreate E) of
        None \<Rightarrow> w\<lparr>w_catFailedWrite := w_catFailedWrite w + 1\<rparr>
      | Some c \<Rightarrow>
          (case PutFile (oc_catalog C) rel \<lparr>fe_Etag = etag, fe_Size = int len, fe_ModifiedAt = oe_mtime E\<rparr> c of
             Inl e \<Rightarrow> w\<lparr>w_cat := Some c, w_catFailedWrite := w_catFailedWrite w + 1\<rparr>
           | Inr c1 \<Rightarrow> w\<lparr>w_cat := Some c1\<rparr>))"

definition catalogDelete ::
    "('c, 'i, 'v) op_cfg \<Rightarrow> ('c, 'i, 'v) op_env \<Rightarrow> string \<Rightarrow> ('c, 'i, 'v) world \<Rightarrow> ('c, 'i, 'v) world" where
  "catalogDelete C E rel w =
     (case store_for (w_cat w) (oe_catOpen E) (oe_catCreate E) of
        None \<Rightarrow> w\<lparr>w_catFailedDelete := w_catFailedDelete w + 1\<rparr>
      | Some c \<Rightarrow>
          (case DeleteFile (oc_catalog C) rel c of
             Inl e \<Rightarrow> w\<lparr>w_cat := Some c, w_catFailedDelete := w_catFailedDelete w + 1\<rparr>
           | Inr c1 \<Rightarrow> w\<lparr>w_cat := Some c1\<rparr>))"

definition derivedOutboundLinks :: "('c, 'i, 'v) op_cfg \<Rightarrow> string \<Rightarrow> string \<Rightarrow> string list" where
  "derivedOutboundLinks C rel content =
     (if \<not> has_suffix (go_ToLower (oc_lower C) rel) ''.md'' then [] else oc_scanLinks C content rel)"

definition indexPut ::
    "('c, 'i, 'v) op_cfg \<Rightarrow> ('c, 'i, 'v) op_env \<Rightarrow> string \<Rightarrow> string \<Rightarrow> string \<Rightarrow> ('c, 'i, 'v) world \<Rightarrow> ('c, 'i, 'v) world" where
  "indexPut C E rel content etag w =
     (case store_for (w_idx w) (oe_idxOpen E) (oe_idxCreate E) of
        None \<Rightarrow> w\<lparr>w_idxFailedWrite := w_idxFailedWrite w + 1\<rparr>
      | Some ix \<Rightarrow>
          (case PutRecord (oc_index C) rel
                  \<lparr>ir_Etag = etag, ir_Bigrams = Bigrams (oc_lower C) content,
                   ir_OutboundLinks = derivedOutboundLinks C rel content\<rparr> ix of
             Inl e \<Rightarrow> w\<lparr>w_idx := Some ix, w_idxFailedWrite := w_idxFailedWrite w + 1\<rparr>
           | Inr ix1 \<Rightarrow> w\<lparr>w_idx := Some ix1\<rparr>))"

definition indexDelete ::
    "('c, 'i, 'v) op_cfg \<Rightarrow> ('c, 'i, 'v) op_env \<Rightarrow> string \<Rightarrow> ('c, 'i, 'v) world \<Rightarrow> ('c, 'i, 'v) world" where
  "indexDelete C E rel w =
     (case store_for (w_idx w) (oe_idxOpen E) (oe_idxCreate E) of
        None \<Rightarrow> w\<lparr>w_idxFailedDelete := w_idxFailedDelete w + 1\<rparr>
      | Some ix \<Rightarrow>
          (case DeleteRecord (oc_index C) rel ix of
             Inl e \<Rightarrow> w\<lparr>w_idx := Some ix, w_idxFailedDelete := w_idxFailedDelete w + 1\<rparr>
           | Inr ix1 \<Rightarrow> w\<lparr>w_idx := Some ix1\<rparr>))"

definition vectorDelete ::
    "('c, 'i, 'v) op_cfg \<Rightarrow> ('c, 'i, 'v) op_env \<Rightarrow> string \<Rightarrow> ('c, 'i, 'v) world \<Rightarrow> ('c, 'i, 'v) world" where
  "vectorDelete C E rel w =
     (if \<not> oc_vectorConfigured C then w
      else case store_for_read (w_vec w) (oe_vecOpen E) of
             None \<Rightarrow> w
           | Some st \<Rightarrow>
               (case vec_Delete (oc_vector C) rel st of
                  Inl e \<Rightarrow> w\<lparr>w_vec := Some st, w_vecFailedDelete := w_vecFailedDelete w + 1\<rparr>
                | Inr st1 \<Rightarrow> w\<lparr>w_vec := Some st1\<rparr>))"

text \<open>The bounded queues: an item that does not fit is dropped.\<close>

definition vectorEnqueue ::
    "('c, 'i, 'v) op_cfg \<Rightarrow> string \<Rightarrow> string \<Rightarrow> ('c, 'i, 'v) world \<Rightarrow> ('c, 'i, 'v) world" where
  "vectorEnqueue C rel content w =
     (if oc_vectorConfigured C \<and> length (w_vecQueue w) < oc_vecCap C
      then w\<lparr>w_vecQueue := w_vecQueue w @ [(rel, content)]\<rparr> else w)"

definition enqueueFixLinks ::
    "('c, 'i, 'v) op_cfg \<Rightarrow> string \<Rightarrow> string \<Rightarrow> ('c, 'i, 'v) world \<Rightarrow> ('c, 'i, 'v) world" where
  "enqueueFixLinks C src dst w =
     (if length (w_kicks w) < oc_kickCap C then w\<lparr>w_kicks := w_kicks w @ [(src, dst)]\<rparr> else w)"

section \<open>Guards\<close>

definition getProjectPath :: "('c, 'i, 'v) op_cfg \<Rightarrow> string \<Rightarrow> string \<Rightarrow> op_error + string list" where
  "getProjectPath C namespace projectName =
     (let ns = (if namespace = [] then ''default'' else namespace) in
      if \<not> IsValidName ns then Inl InvalidNamespace
      else if \<not> IsValidName projectName then Inl InvalidProject
      else Inr (oc_base C @ [ns, projectName]))"

definition hasGitRepo :: "wtree \<Rightarrow> bool" where
  "hasGitRepo t \<longleftrightarrow> path_lookup t [''.git''] \<noteq> NotExist"

definition repo_and_room :: "('c, 'i, 'v) op_cfg \<Rightarrow> ('c, 'i, 'v) world \<Rightarrow> op_error option" where
  "repo_and_room C w =
     (if \<not> hasGitRepo (w_tree w) then Some ProjectNotFound
      else if PendingCount (w_wal w) \<ge> oc_maxWAL C then Some WriteDisabled else None)"

definition checkWritable ::
    "('c, 'i, 'v) op_cfg \<Rightarrow> ('c, 'i, 'v) op_env \<Rightarrow> ('c, 'i, 'v) world \<Rightarrow> op_error option \<times> ('c, 'i, 'v) world" where
  "checkWritable C E w =
     (if w_moving w then (Some ProjectMoving, w)
      else case w_state w of
        StateDangerous \<Rightarrow> (Some ProjectDangerous, w)
      | StateCorrupted \<Rightarrow>
          (let w1 = w\<lparr>w_lazyRescans := w_lazyRescans w + 1, w_state := oe_drift E\<rparr> in
           case w_state w1 of
             StateDangerous \<Rightarrow> (Some ProjectDangerous, w1)
           | StateCorrupted \<Rightarrow> (Some ProjectCorrupted, w1)
           | StateHealthy \<Rightarrow> (repo_and_room C w1, w1))
      | StateHealthy \<Rightarrow> (repo_and_room C w, w))"

text \<open>The entry an operation hands to the log, with the identity its context resolves to.\<close>

definition op_entry ::
    "('c, 'i, 'v) op_cfg \<Rightarrow> ('c, 'i, 'v) op_env \<Rightarrow> string \<Rightarrow> string \<Rightarrow> string \<Rightarrow> string \<Rightarrow> string \<Rightarrow> string \<Rightarrow> wal_entry" where
  "op_entry C E namespace projectName opn rel from content =
     (let idn = Resolve (oe_ctx E) (oc_defaults C) in
      \<lparr>e_Seq = 0, e_Ts = 0, e_Namespace = namespace, e_Project = projectName, e_Path = rel, e_Op = opn,
       e_Version = [], e_Size = 0, e_Content = content, e_MoveFrom = from, e_Aux = [],
       e_UserName = ci_UserName idn, e_UserEmail = ci_UserEmail idn, e_AgentName = ci_AgentName idn,
       e_WorkerID = ci_WorkerID idn, e_AuthorIsUser = ci_AuthorIsUser idn\<rparr>)"

definition wal_append ::
    "('c, 'i, 'v) op_env \<Rightarrow> wal_entry \<Rightarrow> ('c, 'i, 'v) world \<Rightarrow> wal_error option \<times> ('c, 'i, 'v) world" where
  "wal_append E e w =
     (case Append (oe_wal E) (oe_partial E) (oe_now E) e (w_wal w) of
        (Inl err, l) \<Rightarrow> (Some err, w\<lparr>w_wal := l\<rparr>) | (Inr seq, l) \<Rightarrow> (None, w\<lparr>w_wal := l\<rparr>))"

section \<open>The operations\<close>

text \<open>
  \<open>os.ReadFile\<close>: with the fault it fails with an error that is not \<open>os.IsNotExist\<close>, whatever is at the path.
\<close>

definition os_read :: "bool \<Rightarrow> wtree \<Rightarrow> string list \<Rightarrow> lookup + string" where
  "os_read fails t p = (if fails then Inl NotDir else ReadFile t p)"

definition file_bytes :: "wtree \<Rightarrow> string list \<Rightarrow> string" where
  "file_bytes t p = (case ReadFile t p of Inr c \<Rightarrow> c | Inl l \<Rightarrow> [])"

definition bytes_read :: "('c, 'i, 'v) op_env \<Rightarrow> wtree \<Rightarrow> string list \<Rightarrow> string" where
  "bytes_read E t p = (case os_read (oe_read E) t p of Inr c \<Rightarrow> c | Inl l \<Rightarrow> [])"

lemma bytes_read_ok: "\<not> oe_read E \<Longrightarrow> bytes_read E t p = file_bytes t p"
  by (simp add: bytes_read_def file_bytes_def os_read_def)

definition mismatch :: "string option \<Rightarrow> string \<Rightarrow> bool" where
  "mismatch ifMatch etag \<longleftrightarrow> (case ifMatch of None \<Rightarrow> False | Some m \<Rightarrow> m \<noteq> etag)"

text \<open>Parent directories and the file itself, under the directory lock.\<close>

definition place_file :: "('c, 'i, 'v) op_env \<Rightarrow> wtree \<Rightarrow> string list \<Rightarrow> string \<Rightarrow> op_error option \<times> wtree" where
  "place_file E t p content =
     (if oe_dirLock E then (Some LockError, t)
      else case MkdirAll (oe_mkdir E) t (butlast p) of
             None \<Rightarrow> (Some MkdirError, t)
           | Some t1 \<Rightarrow> (case atomicWriteFile (oe_write E) t1 p content of
                          None \<Rightarrow> (Some WriteError, t1) | Some t2 \<Rightarrow> (None, t2)))"

definition add_notice :: "string \<Rightarrow> string \<Rightarrow> string \<Rightarrow> ('c, 'i, 'v) world \<Rightarrow> ('c, 'i, 'v) world" where
  "add_notice kind path dest w = w\<lparr>w_notices := w_notices w @ [\<lparr>no_Kind = kind, no_Path = path, no_Dest = dest\<rparr>]\<rparr>"

definition write_section ::
    "('c, 'i, 'v) op_cfg \<Rightarrow> ('c, 'i, 'v) op_env \<Rightarrow> string \<Rightarrow> string \<Rightarrow> string list \<Rightarrow> string \<Rightarrow> string option \<Rightarrow> bool \<Rightarrow>
     (string \<Rightarrow> edit_error + string) \<Rightarrow> ('c, 'i, 'v) world \<Rightarrow> (op_error + string) \<times> ('c, 'i, 'v) world" where
  "write_section C E namespace projectName p rel ifMatch requireExisting transform w =
     (let current = bytes_read E (w_tree w) p; currentEtag = sha256Hex current in
      if requireExisting \<and> os_read (oe_read E) (w_tree w) p = Inl NotExist then (Inl FileNotFound, w)
      else if mismatch ifMatch currentEtag then (Inl (VersionConflict (the ifMatch) currentEtag), w)
      else case transform current of
        Inl terr \<Rightarrow> (Inl (EditError terr), w)
      | Inr newContent \<Rightarrow>
          (case place_file E (w_tree w) p newContent of
             (Some werr, t1) \<Rightarrow> (Inl werr, w\<lparr>w_tree := t1\<rparr>)
           | (None, t1) \<Rightarrow>
               (case wal_append E (op_entry C E namespace projectName ''write'' rel [] newContent) (w\<lparr>w_tree := t1\<rparr>) of
                  (Some err, w1) \<Rightarrow> (Inl (WalError err), w1)
                | (None, w1) \<Rightarrow>
                    (let newEtag = sha256Hex newContent;
                         w2 = catalogPut C E rel newEtag (length newContent) w1;
                         w3 = indexPut C E rel newContent newEtag w2 in
                     (Inr newEtag, vectorEnqueue C rel newContent w3)))))"

definition writeTransformed ::
    "('c, 'i, 'v) op_cfg \<Rightarrow> ('c, 'i, 'v) op_env \<Rightarrow> string \<Rightarrow> string \<Rightarrow> string \<Rightarrow> string option \<Rightarrow> bool \<Rightarrow>
     (string \<Rightarrow> edit_error + string) \<Rightarrow> ('c, 'i, 'v) world \<Rightarrow> (op_error + string) \<times> ('c, 'i, 'v) world" where
  "writeTransformed C E namespace projectName path ifMatch requireExisting transform w =
     (case getProjectPath C namespace projectName of
        Inl err \<Rightarrow> (Inl err, w)
      | Inr projectPath \<Rightarrow>
          (case relWithin projectPath path of
             None \<Rightarrow> (Inl InvalidPath, w)
           | Some (p, rel) \<Rightarrow>
               (case checkWritable C E w of
                  (Some err, w1) \<Rightarrow> (Inl err, w1)
                | (None, w1) \<Rightarrow>
                    (if oe_lock E then (Inl LockError, w1)
                     else case write_section C E namespace projectName p rel ifMatch requireExisting transform w1 of
                            (Inl err, w2) \<Rightarrow> (Inl err, w2)
                          | (Inr etag, w2) \<Rightarrow> (Inr etag, add_notice ''file.write'' rel [] w2)))))"

definition Write ::
    "('c, 'i, 'v) op_cfg \<Rightarrow> ('c, 'i, 'v) op_env \<Rightarrow> string \<Rightarrow> string \<Rightarrow> string \<Rightarrow> string \<Rightarrow> string option \<Rightarrow>
     ('c, 'i, 'v) world \<Rightarrow> (op_error + string) \<times> ('c, 'i, 'v) world" where
  "Write C E namespace projectName path content ifMatch w =
     writeTransformed C E namespace projectName path ifMatch False (\<lambda>current. Inr content) w"

definition AppendToFile ::
    "('c, 'i, 'v) op_cfg \<Rightarrow> ('c, 'i, 'v) op_env \<Rightarrow> string \<Rightarrow> string \<Rightarrow> string \<Rightarrow> string \<Rightarrow> string \<Rightarrow> string \<Rightarrow> string option \<Rightarrow>
     ('c, 'i, 'v) world \<Rightarrow> (op_error + string) \<times> ('c, 'i, 'v) world" where
  "AppendToFile C E namespace projectName path content position anchor ifMatch w =
     writeTransformed C E namespace projectName path ifMatch True
       (\<lambda>current. spliceAppend current content position anchor) w"

definition PatchFile ::
    "('c, 'i, 'v) op_cfg \<Rightarrow> ('c, 'i, 'v) op_env \<Rightarrow> string \<Rightarrow> string \<Rightarrow> string \<Rightarrow> string \<Rightarrow> string \<Rightarrow> string option \<Rightarrow>
     ('c, 'i, 'v) world \<Rightarrow> (op_error + string) \<times> ('c, 'i, 'v) world" where
  "PatchFile C E namespace projectName path oldString newString ifMatch w =
     writeTransformed C E namespace projectName path ifMatch False
       (\<lambda>current. splicePatch current oldString newString) w"

definition delete_section ::
    "('c, 'i, 'v) op_cfg \<Rightarrow> ('c, 'i, 'v) op_env \<Rightarrow> string \<Rightarrow> string \<Rightarrow> string list \<Rightarrow> string \<Rightarrow> string option \<Rightarrow>
     ('c, 'i, 'v) world \<Rightarrow> op_error option \<times> ('c, 'i, 'v) world" where
  "delete_section C E namespace projectName p rel ifMatch w =
     (let currentEtag = sha256Hex (bytes_read E (w_tree w) p) in
      if mismatch ifMatch currentEtag then (Some (VersionConflict (the ifMatch) currentEtag), w)
      else
        (case wal_append E (op_entry C E namespace projectName ''delete'' rel [] [])
                (vectorDelete C E rel (indexDelete C E rel (catalogDelete C E rel w))) of
           (Some err, w1) \<Rightarrow> (Some (WalError err), w1)
         | (None, w1) \<Rightarrow>
             (case Remove_path (oe_remove E) (w_tree w1) p of
                RemoveFails \<Rightarrow> (Some RemoveError, w1)
              | RemoveNotExist \<Rightarrow> (None, w1\<lparr>w_tree := reapEmptyDir (oe_reap E) (w_tree w1) (butlast p)\<rparr>)
              | Removed t1 \<Rightarrow> (None, w1\<lparr>w_tree := reapEmptyDir (oe_reap E) t1 (butlast p)\<rparr>))))"

definition deleteFile ::
    "('c, 'i, 'v) op_cfg \<Rightarrow> ('c, 'i, 'v) op_env \<Rightarrow> string \<Rightarrow> string \<Rightarrow> string \<Rightarrow> string option \<Rightarrow>
     ('c, 'i, 'v) world \<Rightarrow> op_error option \<times> ('c, 'i, 'v) world" where
  "deleteFile C E namespace projectName path ifMatch w =
     (case getProjectPath C namespace projectName of
        Inl err \<Rightarrow> (Some err, w)
      | Inr projectPath \<Rightarrow>
          (case relWithin projectPath path of
             None \<Rightarrow> (Some InvalidPath, w)
           | Some (p, rel) \<Rightarrow>
               (case checkWritable C E w of
                  (Some err, w1) \<Rightarrow> (Some err, w1)
                | (None, w1) \<Rightarrow>
                    (if oe_lock E then (Some LockError, w1)
                     else case delete_section C E namespace projectName p rel ifMatch w1 of
                            (Some err, w2) \<Rightarrow> (Some err, w2)
                          | (None, w2) \<Rightarrow> (None, add_notice ''file.delete'' rel [] w2)))))"

definition move_guard ::
    "('c, 'i, 'v) op_env \<Rightarrow> wtree \<Rightarrow> string list \<Rightarrow> string \<Rightarrow> string option \<Rightarrow> op_error option" where
  "move_guard E t dst srcEtag ifMatch =
     (case os_read (oe_readDst E) t dst of
        Inr dstExisting \<Rightarrow>
          (let dstEtag = sha256Hex dstExisting in
           case ifMatch of
             None \<Rightarrow> Some (VersionConflict [] dstEtag)
           | Some m \<Rightarrow> (if m \<noteq> dstEtag then Some (VersionConflict m dstEtag) else None))
      | Inl l \<Rightarrow>
          (case ifMatch of
             None \<Rightarrow> None
           | Some m \<Rightarrow> (if m \<noteq> srcEtag then Some (VersionConflict m srcEtag) else None)))"

definition move_section ::
    "('c, 'i, 'v) op_cfg \<Rightarrow> ('c, 'i, 'v) op_env \<Rightarrow> string \<Rightarrow> string \<Rightarrow> string list \<Rightarrow> string \<Rightarrow> string list \<Rightarrow> string \<Rightarrow>
     string option \<Rightarrow> ('c, 'i, 'v) world \<Rightarrow> (op_error + string) \<times> ('c, 'i, 'v) world" where
  "move_section C E namespace projectName src srcRel dst dstRel ifMatch w =
     (case os_read (oe_read E) (w_tree w) src of
        Inl l \<Rightarrow> (Inl SourceNotFound, w)
      | Inr content \<Rightarrow>
          (let srcEtag = sha256Hex content in
           case move_guard E (w_tree w) dst srcEtag ifMatch of
             Some err \<Rightarrow> (Inl err, w)
           | None \<Rightarrow>
               (case place_file E (w_tree w) dst content of
                  (Some werr, t1) \<Rightarrow> (Inl werr, w\<lparr>w_tree := t1\<rparr>)
                | (None, t1) \<Rightarrow>
                    (case Remove_path (oe_remove E) t1 src of
                       RemoveFails \<Rightarrow> (Inl RemoveError, w\<lparr>w_tree := t1\<rparr>)
                     | rm \<Rightarrow>
                         (let t2 = (case rm of Removed t \<Rightarrow> t | _ \<Rightarrow> t1);
                              w1 = w\<lparr>w_tree := reapEmptyDir (oe_reap E) t2 (butlast src)\<rparr>;
                              w2 = catalogPut C E dstRel srcEtag (length content) (catalogDelete C E srcRel w1);
                              w3 = indexPut C E dstRel content srcEtag (indexDelete C E srcRel w2);
                              w4 = vectorEnqueue C dstRel content (vectorDelete C E srcRel w3) in
                          case wal_append E (op_entry C E namespace projectName ''move'' dstRel srcRel content) w4 of
                            (Some err, w5) \<Rightarrow> (Inl (WalError err), w5)
                          | (None, w5) \<Rightarrow> (Inr srcEtag, w5))))))"

definition Move ::
    "('c, 'i, 'v) op_cfg \<Rightarrow> ('c, 'i, 'v) op_env \<Rightarrow> string \<Rightarrow> string \<Rightarrow> string \<Rightarrow> string \<Rightarrow> string option \<Rightarrow>
     ('c, 'i, 'v) world \<Rightarrow> (op_error + string) \<times> ('c, 'i, 'v) world" where
  "Move C E namespace projectName sourcePath targetPath ifMatch w =
     (case getProjectPath C namespace projectName of
        Inl err \<Rightarrow> (Inl err, w)
      | Inr projectPath \<Rightarrow>
          (case (relWithin projectPath sourcePath, relWithin projectPath targetPath) of
             (Some (src, srcRel), Some (dst, dstRel)) \<Rightarrow>
               (if srcRel = dstRel then (Inl SamePath, w)
                else case checkWritable C E w of
                  (Some err, w1) \<Rightarrow> (Inl err, w1)
                | (None, w1) \<Rightarrow>
                    (if oe_lock E then (Inl LockError, w1)
                     else case move_section C E namespace projectName src srcRel dst dstRel ifMatch w1 of
                            (Inl err, w2) \<Rightarrow> (Inl err, w2)
                          | (Inr etag, w2) \<Rightarrow>
                              (Inr etag, enqueueFixLinks C srcRel dstRel (add_notice ''file.move'' srcRel dstRel w2))))
           | _ \<Rightarrow> (Inl InvalidPath, w)))"

definition ReadFileWithETag ::
    "('c, 'i, 'v) op_cfg \<Rightarrow> ('c, 'i, 'v) op_env \<Rightarrow> string \<Rightarrow> string \<Rightarrow> string \<Rightarrow>
     ('c, 'i, 'v) world \<Rightarrow> (op_error + string \<times> string) \<times> ('c, 'i, 'v) world" where
  "ReadFileWithETag C E namespace projectName path w =
     (case getProjectPath C namespace projectName of
        Inl err \<Rightarrow> (Inl err, w)
      | Inr projectPath \<Rightarrow>
          (if w_state w = StateDangerous then (Inl ProjectDangerous, w)
           else case relWithin projectPath path of
             None \<Rightarrow> (Inl InvalidPath, w)
           | Some (p, rel) \<Rightarrow>
               (case os_read (oe_read E) (w_tree w) p of
                  Inr content \<Rightarrow> (Inr (content, sha256Hex content), w)
                | Inl l \<Rightarrow>
                    (Inl ReadError,
                     if l \<noteq> NotExist then w
                     else case store_for_read (w_cat w) (oe_catOpen E) of
                            None \<Rightarrow> w
                          | Some c \<Rightarrow>
                              (let w1 = w\<lparr>w_cat := Some c\<rparr> in
                               if HasFile (oc_catalog C) rel c = Inr True
                               then add_notice ''catalog.invariant_violation'' rel []
                                      (w1\<lparr>w_invariantViolations := w_invariantViolations w1 + 1\<rparr>)
                               else w1)))))"

definition GetCurrentVersion ::
    "('c, 'i, 'v) op_cfg \<Rightarrow> ('c, 'i, 'v) op_env \<Rightarrow> string \<Rightarrow> string \<Rightarrow> string \<Rightarrow>
     ('c, 'i, 'v) world \<Rightarrow> op_error + string" where
  "GetCurrentVersion C E namespace projectName path w =
     (case getProjectPath C namespace projectName of
        Inl err \<Rightarrow> Inl err
      | Inr projectPath \<Rightarrow>
          (case relWithin projectPath path of
             None \<Rightarrow> Inl InvalidPath
           | Some (p, rel) \<Rightarrow>
               (case os_read (oe_read E) (w_tree w) p of Inl l \<Rightarrow> Inr [] | Inr content \<Rightarrow> Inr (sha256Hex content))))"

section \<open>The tree and the log under the hooks\<close>

text \<open>The hooks into the derived stores touch neither the tree nor the log.\<close>

lemma hooks_keep [simp]:
  "w_tree (catalogPut C E rel etag len w) = w_tree w" "w_wal (catalogPut C E rel etag len w) = w_wal w"
  "w_tree (catalogDelete C E rel w) = w_tree w" "w_wal (catalogDelete C E rel w) = w_wal w"
  "w_tree (indexPut C E rel content etag w) = w_tree w" "w_wal (indexPut C E rel content etag w) = w_wal w"
  "w_tree (indexDelete C E rel w) = w_tree w" "w_wal (indexDelete C E rel w) = w_wal w"
  "w_tree (vectorDelete C E rel w) = w_tree w" "w_wal (vectorDelete C E rel w) = w_wal w"
  "w_tree (vectorEnqueue C rel content w) = w_tree w" "w_wal (vectorEnqueue C rel content w) = w_wal w"
  "w_tree (enqueueFixLinks C src dst w) = w_tree w" "w_wal (enqueueFixLinks C src dst w) = w_wal w"
  "w_tree (add_notice kind path dest w) = w_tree w" "w_wal (add_notice kind path dest w) = w_wal w"
  by (simp_all add: catalogPut_def catalogDelete_def indexPut_def indexDelete_def vectorDelete_def
      vectorEnqueue_def enqueueFixLinks_def add_notice_def split: option.split sum.split)

lemma checkWritable_keep:
  assumes "checkWritable C E w = (r, w')"
  shows "w_tree w' = w_tree w" "w_wal w' = w_wal w"
    "r = None \<Longrightarrow> hasGitRepo (w_tree w) \<and> PendingCount (w_wal w) < oc_maxWAL C \<and> \<not> w_moving w \<and> w_state w' = StateHealthy"
proof -
  have "w_tree w' = w_tree w \<and> w_wal w' = w_wal w \<and> (r = None \<longrightarrow>
      hasGitRepo (w_tree w) \<and> PendingCount (w_wal w) < oc_maxWAL C \<and> \<not> w_moving w \<and> w_state w' = StateHealthy)"
    using assms by (auto simp: checkWritable_def repo_and_room_def Let_def split: if_splits project_state.splits)
  then show "w_tree w' = w_tree w" "w_wal w' = w_wal w"
    "r = None \<Longrightarrow> hasGitRepo (w_tree w) \<and> PendingCount (w_wal w) < oc_maxWAL C \<and> \<not> w_moving w \<and> w_state w' = StateHealthy"
    by auto
qed

text \<open>The entry a call has made durable: the readable file under the next number, once that was used.\<close>

definition logged_entry :: "wal_log \<Rightarrow> wal_log \<Rightarrow> wal_entry option" where
  "logged_entry l l' =
     (if l_nextSeq l' = l_nextSeq l then None else stored (l_entries l') (l_nextSeq l))"

lemma logged_entry_same [simp]: "logged_entry l l = None"
  by (simp add: logged_entry_def)

lemma wal_append_cases:
  assumes "wal_append E e w = (r, w')"
  shows "w_tree w' = w_tree w"
    "r = None \<Longrightarrow> logged_entry (w_wal w) (w_wal w') = Some (fill_entry (l_nextSeq (w_wal w)) (oe_now E) e)"
    "r \<noteq> None \<Longrightarrow> logged_entry (w_wal w) (w_wal w') = None"
proof -
  let ?l = "w_wal w"
  have "w_tree w' = w_tree w \<and>
    (r = None \<longrightarrow> logged_entry ?l (w_wal w') = Some (fill_entry (l_nextSeq ?l) (oe_now E) e)) \<and>
    (r \<noteq> None \<longrightarrow> logged_entry ?l (w_wal w') = None)"
  proof (cases "f_write (oe_wal E) \<or> f_rename (oe_wal E)")
    case True
    then obtain t err where "Append (oe_wal E) (oe_partial E) (oe_now E) e ?l = (Inl err, ?l\<lparr>l_tmp := t\<rparr>)"
      using Append_fault by blast
    then show ?thesis using assms by (auto simp: wal_append_def logged_entry_def)
  next
    case False
    then show ?thesis using assms
      by (auto simp: wal_append_def Append_ok logged_entry_def stored_put read_toWire)
  qed
  then show "w_tree w' = w_tree w"
    "r = None \<Longrightarrow> logged_entry (w_wal w) (w_wal w') = Some (fill_entry (l_nextSeq (w_wal w)) (oe_now E) e)"
    "r \<noteq> None \<Longrightarrow> logged_entry (w_wal w) (w_wal w') = None" by auto
qed

text \<open>Placing a file: success sets it, failure changes no file.\<close>

lemma place_file_ok:
  assumes "wt_ok t" "place_file E t p c = (r, t')"
  shows "wt_ok t'" "r = None \<Longrightarrow> file_at t' = (file_at t)(p \<mapsto> c)" "r \<noteq> None \<Longrightarrow> file_at t' = file_at t"
    "r = None \<Longrightarrow> p \<noteq> []" "r = None \<Longrightarrow> strict_prefix q p \<or> strict_prefix p q \<Longrightarrow> file_at t q = None"
proof -
  have "wt_ok t' \<and> (if r = None then file_at t' = (file_at t)(p \<mapsto> c) \<and> p \<noteq> [] \<and>
      (\<forall>q. strict_prefix q p \<or> strict_prefix p q \<longrightarrow> file_at t q = None) else file_at t' = file_at t)"
  proof (cases "oe_dirLock E")
    case False
    show ?thesis
    proof (cases "MkdirAll (oe_mkdir E) t (butlast p)")
      case None
      then show ?thesis using assms False by (auto simp: place_file_def)
    next
      case (Some t1)
      note m = MkdirAll_ok [OF assms(1) Some]
      show ?thesis
      proof (cases "atomicWriteFile (oe_write E) t1 p c")
        case None
        then show ?thesis using assms False Some m by (auto simp: place_file_def)
      next
        case w: (Some t2)
        then have "r = None" "t' = t2" using assms False Some by (simp_all add: place_file_def)
        with atomicWriteFile_ok [OF m(1) w] m(2) show ?thesis by auto
      qed
    qed
  qed (use assms in \<open>auto simp: place_file_def\<close>)
  then show "wt_ok t'" "r = None \<Longrightarrow> file_at t' = (file_at t)(p \<mapsto> c)" "r \<noteq> None \<Longrightarrow> file_at t' = file_at t"
    "r = None \<Longrightarrow> p \<noteq> []" "r = None \<Longrightarrow> strict_prefix q p \<or> strict_prefix p q \<Longrightarrow> file_at t q = None"
    by (auto split: if_splits)
qed

section \<open>One operation\<close>

text \<open>What a call did to the files and the log of a project: nothing, a write, a removal or a move.\<close>

definition untouched :: "('c, 'i, 'v) world \<Rightarrow> ('c, 'i, 'v) world \<Rightarrow> bool" where
  "untouched w w' \<longleftrightarrow> file_at (w_tree w') = file_at (w_tree w) \<and> logged_entry (w_wal w) (w_wal w') = None"

definition entry_for :: "wal_entry \<Rightarrow> string \<Rightarrow> string list \<Rightarrow> string list \<Rightarrow> string \<Rightarrow> bool" where
  "entry_for e opn p from content \<longleftrightarrow>
     e_Op e = opn \<and> e_Path e = rel_string p \<and> e_MoveFrom e = (if opn = ''move'' then rel_string from else []) \<and>
     e_Content e = content"

definition wrote :: "string list \<Rightarrow> string \<Rightarrow> ('c, 'i, 'v) world \<Rightarrow> ('c, 'i, 'v) world \<Rightarrow> bool" where
  "wrote p c w w' \<longleftrightarrow>
     p \<noteq> [] \<and> file_at (w_tree w') = (file_at (w_tree w))(p \<mapsto> c) \<and>
     (\<forall>q. strict_prefix q p \<or> strict_prefix p q \<longrightarrow> file_at (w_tree w) q = None) \<and>
     (\<exists>e. logged_entry (w_wal w) (w_wal w') = Some e \<and> entry_for e ''write'' p [] c)"

definition removed :: "string list \<Rightarrow> ('c, 'i, 'v) world \<Rightarrow> ('c, 'i, 'v) world \<Rightarrow> bool" where
  "removed p w w' \<longleftrightarrow>
     p \<noteq> [] \<and> file_at (w_tree w') = (file_at (w_tree w))(p := None) \<and>
     (\<forall>q. strict_prefix q p \<or> strict_prefix p q \<longrightarrow> file_at (w_tree w) q = None) \<and>
     (\<exists>e. logged_entry (w_wal w) (w_wal w') = Some e \<and> entry_for e ''delete'' p [] [])"

definition moved :: "string list \<Rightarrow> string list \<Rightarrow> string \<Rightarrow> ('c, 'i, 'v) world \<Rightarrow> ('c, 'i, 'v) world \<Rightarrow> bool" where
  "moved src dst c w w' \<longleftrightarrow>
     src \<noteq> [] \<and> dst \<noteq> [] \<and> src \<noteq> dst \<and> file_at (w_tree w) src = Some c \<and>
     file_at (w_tree w') = (file_at (w_tree w))(dst \<mapsto> c, src := None) \<and>
     (\<forall>q. strict_prefix q dst \<or> strict_prefix dst q \<or> strict_prefix q src \<or> strict_prefix src q \<longrightarrow>
        file_at (w_tree w) q = None) \<and>
     (\<exists>e. logged_entry (w_wal w) (w_wal w') = Some e \<and> entry_for e ''move'' dst src c)"

text \<open>The errors after which the tree and the log may disagree.\<close>

definition split_error :: "op_error option \<Rightarrow> bool" where
  "split_error r \<longleftrightarrow> (case r of Some (WalError e) \<Rightarrow> True | Some RemoveError \<Rightarrow> True | _ \<Rightarrow> False)"

lemma entry_for_fill:
  "entry_for (fill_entry q t (op_entry C E ns pr ''write'' (rel_string p) [] c)) ''write'' p [] c"
  "entry_for (fill_entry q t (op_entry C E ns pr ''delete'' (rel_string p) [] [])) ''delete'' p [] []"
  "entry_for (fill_entry q t (op_entry C E ns pr ''move'' (rel_string p) (rel_string s) c)) ''move'' p s c"
  by (simp_all add: entry_for_def fill_entry_def op_entry_def Let_def)

lemma write_section_cases:
  assumes ok: "wt_ok (w_tree w)" and rel: "rel = rel_string p"
    and r: "write_section C E ns pr p rel ifMatch req transform w = (r, w')"
  shows "wt_ok (w_tree w')"
    "r = Inl err \<Longrightarrow> split_error (Some err) \<or> untouched w w'"
    "r = Inr etag \<Longrightarrow> \<exists>new. transform (bytes_read E (w_tree w) p) = Inr new \<and> etag = sha256Hex new \<and>
       \<not> mismatch ifMatch (sha256Hex (bytes_read E (w_tree w) p)) \<and> wrote p new w w'"
proof -
  let ?cur = "bytes_read E (w_tree w) p"
  have "wt_ok (w_tree w') \<and> (\<forall>err. r = Inl err \<longrightarrow> split_error (Some err) \<or> untouched w w') \<and>
    (\<forall>etag. r = Inr etag \<longrightarrow> (\<exists>new. transform ?cur = Inr new \<and> etag = sha256Hex new \<and>
       \<not> mismatch ifMatch (sha256Hex ?cur) \<and> wrote p new w w'))"
  proof (cases "req \<and> os_read (oe_read E) (w_tree w) p = Inl NotExist \<or> mismatch ifMatch (sha256Hex ?cur) \<or> isl (transform ?cur)")
    case True
    then have "w' = w \<and> isl r" using r by (auto simp: write_section_def Let_def split: if_splits sum.splits)
    then show ?thesis using ok by (auto simp: untouched_def)
  next
    case False
    then obtain new where new: "transform ?cur = Inr new" by (cases "transform ?cur") auto
    obtain pr' t1 where pl: "place_file E (w_tree w) p new = (pr', t1)" by (cases "place_file E (w_tree w) p new")
    note po = place_file_ok [OF ok pl]
    show ?thesis
    proof (cases pr')
      case (Some werr)
      then have "r = Inl werr" "w' = w\<lparr>w_tree := t1\<rparr>" using r False new pl by (auto simp: write_section_def Let_def)
      then show ?thesis using po(1,3) Some by (simp add: untouched_def)
    next
      case None
      let ?e = "op_entry C E ns pr ''write'' rel [] new" and ?w1 = "w\<lparr>w_tree := t1\<rparr>"
      obtain ae w1 where a: "wal_append E ?e ?w1 = (ae, w1)" by (cases "wal_append E ?e ?w1")
      note ac = wal_append_cases [OF a]
      show ?thesis
      proof (cases ae)
        case (Some err)
        then have "r = Inl (WalError err)" "w' = w1" using r False new pl None a by (auto simp: write_section_def Let_def)
        then show ?thesis using ac(1) po(1) by (simp add: split_error_def)
      next
        case None
        then have "r = Inr (sha256Hex new)" "w_tree w' = w_tree w1" "w_wal w' = w_wal w1"
          using r False new pl \<open>pr' = None\<close> a by (auto simp: write_section_def Let_def)
        moreover have "wrote p new w w'"
          unfolding wrote_def
          using po(2,4,5) \<open>pr' = None\<close> ac(1,2) None calculation entry_for_fill(1) by (auto simp: rel)
        ultimately show ?thesis using new False ac(1) po(1) by auto
      qed
    qed
  qed
  then show "wt_ok (w_tree w')" "r = Inl err \<Longrightarrow> split_error (Some err) \<or> untouched w w'"
    "r = Inr etag \<Longrightarrow> \<exists>new. transform ?cur = Inr new \<and> etag = sha256Hex new \<and>
       \<not> mismatch ifMatch (sha256Hex ?cur) \<and> wrote p new w w'" by blast+
qed

lemma delete_section_cases:
  assumes ok: "wt_ok (w_tree w)" and rel: "rel = rel_string p"
    and r: "delete_section C E ns pr p rel ifMatch w = (r, w')"
  shows "wt_ok (w_tree w')" "r = Some err \<Longrightarrow> split_error (Some err) \<or> untouched w w'"
    "r = None \<Longrightarrow> \<not> mismatch ifMatch (sha256Hex (bytes_read E (w_tree w) p)) \<and> removed p w w'"
proof -
  let ?cur = "bytes_read E (w_tree w) p"
  have "wt_ok (w_tree w') \<and> (\<forall>err. r = Some err \<longrightarrow> split_error (Some err) \<or> untouched w w') \<and>
    (r = None \<longrightarrow> \<not> mismatch ifMatch (sha256Hex ?cur) \<and> removed p w w')"
  proof (cases "mismatch ifMatch (sha256Hex ?cur)")
    case True
    then have "w' = w \<and> r \<noteq> None" using r by (auto simp: delete_section_def Let_def)
    then show ?thesis using ok by (auto simp: untouched_def)
  next
    case False
    let ?e = "op_entry C E ns pr ''delete'' rel [] []"
    let ?w0 = "vectorDelete C E rel (indexDelete C E rel (catalogDelete C E rel w))"
    obtain ae w1 where a: "wal_append E ?e ?w0 = (ae, w1)" by (cases "wal_append E ?e ?w0")
    note ac = wal_append_cases [OF a, simplified]
    show ?thesis
    proof (cases ae)
      case (Some err)
      then have "r = Some (WalError err)" "w' = w1" using r False a by (auto simp: delete_section_def Let_def)
      then show ?thesis using ac(1) ok by (simp add: split_error_def)
    next
      case None
      have t1: "w_tree w1 = w_tree w" by (rule ac(1))
      have le: "logged_entry (w_wal w) (w_wal w1) = Some (fill_entry (l_nextSeq (w_wal w)) (oe_now E) ?e)"
        using ac(2) None by simp
      show ?thesis
      proof (cases "Remove_path (oe_remove E) (w_tree w) p")
        case (Removed t2)
        then have w': "r = None" "w_tree w' = reapEmptyDir (oe_reap E) t2 (butlast p)" "w_wal w' = w_wal w1"
          using r False a None t1 by (auto simp: delete_section_def Let_def)
        note rm = Remove_path_ok [OF ok Removed]
        have n: "node_at (w_tree w) p \<noteq> None"
          using Removed path_lookup_NotExist path_lookup_file [of "w_tree w" p] path_lookup_ok(2) [OF ok, of p]
          by (auto simp: Remove_path_def file_at_def split: lookup.splits if_splits option.splits)
        have up: "file_at (w_tree w) q = None" if "strict_prefix q p" for q by (rule file_above [OF ok n that])
        have "file_at t2 (butlast p) = None" using rm(2,3) up by (simp add: strict_prefix_butlast)
        note reap = reapEmptyDir_ok [OF rm(1), where f = "oe_reap E" and d = "butlast p"]
        have "removed p w w'" unfolding removed_def
          using w' reap(2) [OF \<open>file_at t2 (butlast p) = None\<close>] rm(2,3,4) up le entry_for_fill(2)
          by (auto simp: rel file_at_def split: option.splits)
        then show ?thesis using reap(1) w' False by simp
      next
        case RemoveNotExist
        then have w': "r = None" "w_tree w' = reapEmptyDir (oe_reap E) (w_tree w) (butlast p)" "w_wal w' = w_wal w1"
          using r False a None t1 by (auto simp: delete_section_def Let_def)
        have ne: "path_lookup (w_tree w) p = NotExist"
          using RemoveNotExist by (auto simp: Remove_path_def split: lookup.splits if_splits)
        then have p: "p \<noteq> []" using path_lookup_ok(2) [OF ok, of "[]"] by auto
        have nn: "node_at (w_tree w) p = None" by (rule path_lookup_NotExist [OF ok ne])
        have below: "file_at (w_tree w) q = None" if "strict_prefix p q" for q
          by (rule file_below [OF ok _ that]) (simp add: nn)
        note above = NotExist_above [OF ok ne]
        have bp: "file_at (w_tree w) (butlast p) = None" using above p by (simp add: strict_prefix_butlast)
        note reap = reapEmptyDir_ok [OF ok, where f = "oe_reap E" and d = "butlast p"]
        have "file_at (w_tree w) p = None" using nn by (simp add: file_at_def)
        then have "removed p w w'" unfolding removed_def
          using w' reap(2) bp p below above le entry_for_fill(2) by (auto simp: rel fun_upd_idem)
        then show ?thesis using reap(1) w' False by simp
      next
        case RemoveFails
        then have "r = Some RemoveError" "w' = w1" using r False a None t1 by (auto simp: delete_section_def Let_def)
        then show ?thesis using t1 ok by (simp add: split_error_def)
      qed
    qed
  qed
  then show "wt_ok (w_tree w')" "r = Some err \<Longrightarrow> split_error (Some err) \<or> untouched w w'"
    "r = None \<Longrightarrow> \<not> mismatch ifMatch (sha256Hex ?cur) \<and> removed p w w'" by blast+
qed

lemma move_section_cases:
  assumes ok: "wt_ok (w_tree w)" and rel: "srcRel = rel_string src" "dstRel = rel_string dst" and ne: "src \<noteq> dst"
    and r: "move_section C E ns pr src srcRel dst dstRel ifMatch w = (r, w')"
  shows "wt_ok (w_tree w')" "r = Inl err \<Longrightarrow> split_error (Some err) \<or> untouched w w'"
    "r = Inr etag \<Longrightarrow> \<exists>c. etag = sha256Hex c \<and> move_guard E (w_tree w) dst etag ifMatch = None \<and> moved src dst c w w'"
proof -
  have "wt_ok (w_tree w') \<and> (\<forall>err. r = Inl err \<longrightarrow> split_error (Some err) \<or> untouched w w') \<and>
    (\<forall>etag. r = Inr etag \<longrightarrow>
      (\<exists>c. etag = sha256Hex c \<and> move_guard E (w_tree w) dst etag ifMatch = None \<and> moved src dst c w w'))"
  proof (cases "os_read (oe_read E) (w_tree w) src")
    case (Inl l)
    then show ?thesis using r ok by (auto simp: move_section_def untouched_def)
  next
    case (Inr c)
    have src: "file_at (w_tree w) src = Some c" using Inr ReadFile_ok [OF ok] by (simp add: os_read_def split: if_splits)
    then have sn: "src \<noteq> []" "node_at (w_tree w) src \<noteq> None" "node_at (w_tree w) src \<noteq> Some DirNode"
      by (auto simp: file_at_def split: option.splits)
    show ?thesis
    proof (cases "move_guard E (w_tree w) dst (sha256Hex c) ifMatch")
      case (Some err)
      then show ?thesis using r ok Inr by (auto simp: move_section_def untouched_def)
    next
      case guard: None
      obtain pe t1 where pl: "place_file E (w_tree w) dst c = (pe, t1)" by (cases "place_file E (w_tree w) dst c")
      note po = place_file_ok [OF ok pl]
      show ?thesis
      proof (cases pe)
        case (Some werr)
        then have "r = Inl werr" "w' = w\<lparr>w_tree := t1\<rparr>" using r Inr guard pl by (auto simp: move_section_def)
        then show ?thesis using po(1,3) Some by (simp add: untouched_def)
      next
        case None
        have f1: "file_at t1 = (file_at (w_tree w))(dst \<mapsto> c)" "dst \<noteq> []" using po(2,4) None by simp_all
        have s1: "file_at t1 src = Some c" using f1(1) src ne by simp
        show ?thesis
        proof (cases "Remove_path (oe_remove E) t1 src")
          case RemoveFails
          then have "r = Inl RemoveError" "w' = w\<lparr>w_tree := t1\<rparr>" using r Inr guard pl None by (auto simp: move_section_def)
          then show ?thesis using po(1) by (simp add: split_error_def)
        next
          case RemoveNotExist
          then have "path_lookup t1 src = NotExist" by (auto simp: Remove_path_def split: lookup.splits if_splits)
          then show ?thesis using path_lookup_NotExist [OF po(1)] s1 by (simp add: file_at_def)
        next
          case (Removed t2)
          note rm = Remove_path_ok [OF po(1) Removed]
          have up: "file_at t1 q = None" if "strict_prefix q src" for q
            using file_above [OF po(1) _ that] s1 by (auto simp: file_at_def split: option.splits)
          have "file_at t2 (butlast src) = None" using rm(2) up sn(1) by (simp add: strict_prefix_butlast)
          note reap = reapEmptyDir_ok(1) [OF rm(1), where f = "oe_reap E" and d = "butlast src"]
            reapEmptyDir_ok(2) [OF rm(1) this, where f = "oe_reap E"]
          let ?t3 = "reapEmptyDir (oe_reap E) t2 (butlast src)"
          let ?w1 = "w\<lparr>w_tree := ?t3\<rparr>" and ?e = "op_entry C E ns pr ''move'' dstRel srcRel c"
          let ?w2 = "catalogPut C E dstRel (sha256Hex c) (length c) (catalogDelete C E srcRel ?w1)"
          let ?w4 = "vectorEnqueue C dstRel c (vectorDelete C E srcRel (indexPut C E dstRel c (sha256Hex c) (indexDelete C E srcRel ?w2)))"
          obtain ae w5 where a: "wal_append E ?e ?w4 = (ae, w5)" by (cases "wal_append E ?e ?w4")
          note ac = wal_append_cases [OF a, simplified]
          show ?thesis
          proof (cases ae)
            case (Some err)
            then have "r = Inl (WalError err)" "w' = w5" using r Inr guard pl \<open>pe = None\<close> Removed a by (auto simp: move_section_def Let_def)
            then show ?thesis using ac(1) reap(1) by (simp add: split_error_def)
          next
            case None
            then have w': "r = Inr (sha256Hex c)" "w' = w5" using r Inr guard pl \<open>pe = None\<close> Removed a
              by (auto simp: move_section_def Let_def)
            have "file_at (w_tree w') = (file_at (w_tree w))(dst \<mapsto> c, src := None)"
              using ac(1) w'(2) reap(2) rm(2) f1(1) by simp
            moreover have "file_at (w_tree w) q = None" if "strict_prefix q dst \<or> strict_prefix dst q" for q
              using po(5) \<open>pe = None\<close> that by blast
            moreover have "file_at (w_tree w) q = None" if "strict_prefix q src" for q
              by (rule file_above [OF ok sn(2) that])
            moreover have "file_at (w_tree w) q = None" if "strict_prefix src q" for q
              by (rule file_below [OF ok sn(3) that])
            ultimately have "moved src dst c w w'" unfolding moved_def
              using ac(2) None w'(2) entry_for_fill(3) sn(1) f1(2) ne src by (auto simp: rel)
            then show ?thesis using w' guard ac(1) reap(1) by auto
          qed
        qed
      qed
    qed
  qed
  then show "wt_ok (w_tree w')" "r = Inl err \<Longrightarrow> split_error (Some err) \<or> untouched w w'"
    "r = Inr etag \<Longrightarrow> \<exists>c. etag = sha256Hex c \<and> move_guard E (w_tree w) dst etag ifMatch = None \<and> moved src dst c w w'"
    by blast+
qed

section \<open>Any operation\<close>

datatype store_op =
  OpWriteFile string string "string option"
| OpAppendFile string string string string "string option"
| OpPatchFile string string string "string option"
| OpDeleteFile string "string option"
| OpMoveFile string string "string option"

definition left_error :: "(op_error + 'a) \<times> 'w \<Rightarrow> op_error option \<times> 'w" where
  "left_error rw = ((case fst rw of Inl e \<Rightarrow> Some e | Inr x \<Rightarrow> None), snd rw)"

lemma left_errorD: "left_error rw = (r, w) \<Longrightarrow> \<exists>r0. rw = (r0, w) \<and> r = (case r0 of Inl e \<Rightarrow> Some e | Inr x \<Rightarrow> None)"
  by (cases rw) (auto simp: left_error_def)

fun run_op ::
    "('c, 'i, 'v) op_cfg \<Rightarrow> ('c, 'i, 'v) op_env \<Rightarrow> string \<Rightarrow> string \<Rightarrow> store_op \<Rightarrow> ('c, 'i, 'v) world \<Rightarrow>
     op_error option \<times> ('c, 'i, 'v) world" where
  "run_op C E ns pr (OpWriteFile path content ifMatch) w = left_error (Write C E ns pr path content ifMatch w)"
| "run_op C E ns pr (OpAppendFile path content position anchor ifMatch) w =
     left_error (AppendToFile C E ns pr path content position anchor ifMatch w)"
| "run_op C E ns pr (OpPatchFile path oldString newString ifMatch) w =
     left_error (PatchFile C E ns pr path oldString newString ifMatch w)"
| "run_op C E ns pr (OpDeleteFile path ifMatch) w = deleteFile C E ns pr path ifMatch w"
| "run_op C E ns pr (OpMoveFile src dst ifMatch) w = left_error (Move C E ns pr src dst ifMatch w)"

text \<open>What an operation that succeeds does, by the kind of entry it logs.\<close>

fun op_kind :: "store_op \<Rightarrow> string" where
  "op_kind (OpDeleteFile path ifMatch) = ''delete''"
| "op_kind (OpMoveFile src dst ifMatch) = ''move''"
| "op_kind _ = ''write''"

definition acted :: "string \<Rightarrow> ('c, 'i, 'v) world \<Rightarrow> ('c, 'i, 'v) world \<Rightarrow> bool" where
  "acted k w w' \<longleftrightarrow>
     k = ''write'' \<and> (\<exists>p c. list_all plain_comp p \<and> wrote p c w w') \<or>
     k = ''delete'' \<and> (\<exists>p. list_all plain_comp p \<and> removed p w w') \<or>
     k = ''move'' \<and> (\<exists>src dst c. list_all plain_comp src \<and> list_all plain_comp dst \<and> moved src dst c w w')"

definition did :: "string \<Rightarrow> op_error option \<Rightarrow> ('c, 'i, 'v) world \<Rightarrow> ('c, 'i, 'v) world \<Rightarrow> bool" where
  "did k r w w' \<longleftrightarrow> (if r = None then acted k w w' else untouched w w')"

text \<open>An operation that succeeds logs one entry, of its kind.\<close>

lemma acted_logs: "acted k w w' \<Longrightarrow> \<exists>e. logged_entry (w_wal w) (w_wal w') = Some e \<and> e_Op e = k"
  by (auto simp: acted_def wrote_def removed_def moved_def entry_for_def)

lemma valid_name_plain: "IsValidName n \<Longrightarrow> plain_comp n"
  using IsValidName_no_sep(1) [of n] by (auto simp: IsValidName_def plain_comp_def dot_def dotdot_def slash_def split: if_splits)

lemma getProjectPath_plain:
  "list_all plain_comp (oc_base C) \<Longrightarrow> getProjectPath C ns pr = Inr base \<Longrightarrow> list_all plain_comp base"
  by (auto simp: getProjectPath_def Let_def valid_name_plain split: if_splits)

text \<open>Everything before the critical section leaves the files and the log alone.\<close>

lemma section_world:
  assumes "w_tree w1 = w_tree w" "w_wal w1 = w_wal w" "w_tree w2 = w_tree w3" "w_wal w2 = w_wal w3"
  shows "untouched w1 w2 = untouched w w3" "wrote p c w1 w2 = wrote p c w w3"
    "removed p w1 w2 = removed p w w3" "moved p q c w1 w2 = moved p q c w w3"
  by (simp_all add: untouched_def wrote_def removed_def moved_def assms)

lemma writeTransformed_cases:
  assumes ok: "wt_ok (w_tree w)" and base: "list_all plain_comp (oc_base C)"
    and r: "writeTransformed C E ns pr path ifMatch req transform w = (r, w')"
  shows "wt_ok (w_tree w')" "r = Inl err \<Longrightarrow> split_error (Some err) \<or> untouched w w'"
    "r = Inr etag \<Longrightarrow> \<exists>bs p new. getProjectPath C ns pr = Inr bs \<and> relWithin bs path = Some (p, rel_string p) \<and>
       list_all plain_comp p \<and> transform (bytes_read E (w_tree w) p) = Inr new \<and> etag = sha256Hex new \<and>
       \<not> mismatch ifMatch (sha256Hex (bytes_read E (w_tree w) p)) \<and> wrote p new w w'"
proof -
  have "wt_ok (w_tree w') \<and> (\<forall>err. r = Inl err \<longrightarrow> split_error (Some err) \<or> untouched w w') \<and>
    (\<forall>etag. r = Inr etag \<longrightarrow> (\<exists>bs p new. getProjectPath C ns pr = Inr bs \<and> relWithin bs path = Some (p, rel_string p) \<and>
       list_all plain_comp p \<and> transform (bytes_read E (w_tree w) p) = Inr new \<and> etag = sha256Hex new \<and>
       \<not> mismatch ifMatch (sha256Hex (bytes_read E (w_tree w) p)) \<and> wrote p new w w'))"
  proof (cases "getProjectPath C ns pr")
    case (Inl e)
    then show ?thesis using r ok by (auto simp: writeTransformed_def untouched_def)
  next
    case bs: (Inr bs)
    show ?thesis
    proof (cases "relWithin bs path")
      case None
      then show ?thesis using r ok bs by (auto simp: writeTransformed_def untouched_def)
    next
      case (Some pr')
      obtain p rel where p: "relWithin bs path = Some (p, rel)" using Some by (cases pr') auto
      have rel: "rel = rel_string p" "list_all plain_comp p"
        using relWithin_comps [OF getProjectPath_plain [OF base bs] p] by auto
      obtain ce w1 where cw: "checkWritable C E w = (ce, w1)" by (cases "checkWritable C E w")
      note k = checkWritable_keep [OF cw]
      have same: "untouched w w1" by (simp add: untouched_def k)
      show ?thesis
      proof (cases "ce = None \<and> \<not> oe_lock E")
        case False
        then have "isl r" "w' = w1" using r bs p cw by (auto simp: writeTransformed_def split: option.splits)
        then show ?thesis using same k(1) ok by auto
      next
        case True
        obtain sr w2 where ws: "write_section C E ns pr p rel ifMatch req transform w1 = (sr, w2)"
          by (cases "write_section C E ns pr p rel ifMatch req transform w1")
        have ok1: "wt_ok (w_tree w1)" using ok k(1) by simp
        note c = write_section_cases [OF ok1 rel(1) ws]
        have w': "r = sr" "w_tree w' = w_tree w2" "w_wal w' = w_wal w2"
          using r bs p cw True ws by (auto simp: writeTransformed_def split: sum.splits)
        note sw = section_world [OF k(1,2) w'(2,3) [symmetric]]
        show ?thesis using c k(1) w' bs p rel sw by (cases sr) auto
      qed
    qed
  qed
  then show "wt_ok (w_tree w')" "r = Inl err \<Longrightarrow> split_error (Some err) \<or> untouched w w'"
    "r = Inr etag \<Longrightarrow> \<exists>bs p new. getProjectPath C ns pr = Inr bs \<and> relWithin bs path = Some (p, rel_string p) \<and>
       list_all plain_comp p \<and> transform (bytes_read E (w_tree w) p) = Inr new \<and> etag = sha256Hex new \<and>
       \<not> mismatch ifMatch (sha256Hex (bytes_read E (w_tree w) p)) \<and> wrote p new w w'" by blast+
qed

lemma deleteFile_cases:
  assumes ok: "wt_ok (w_tree w)" and base: "list_all plain_comp (oc_base C)"
    and r: "deleteFile C E ns pr path ifMatch w = (r, w')"
  shows "wt_ok (w_tree w')" "r = Some err \<Longrightarrow> split_error (Some err) \<or> untouched w w'"
    "r = None \<Longrightarrow> \<exists>p. list_all plain_comp p \<and> removed p w w'"
proof -
  have "wt_ok (w_tree w') \<and> (\<forall>err. r = Some err \<longrightarrow> split_error (Some err) \<or> untouched w w') \<and>
    (r = None \<longrightarrow> (\<exists>p. list_all plain_comp p \<and> removed p w w'))"
  proof (cases "getProjectPath C ns pr")
    case (Inl e)
    then show ?thesis using r ok by (auto simp: deleteFile_def untouched_def)
  next
    case bs: (Inr bs)
    show ?thesis
    proof (cases "relWithin bs path")
      case None
      then show ?thesis using r ok bs by (auto simp: deleteFile_def untouched_def)
    next
      case (Some pr')
      obtain p rel where p: "relWithin bs path = Some (p, rel)" using Some by (cases pr') auto
      have rel: "rel = rel_string p" "list_all plain_comp p"
        using relWithin_comps [OF getProjectPath_plain [OF base bs] p] by auto
      obtain ce w1 where cw: "checkWritable C E w = (ce, w1)" by (cases "checkWritable C E w")
      note k = checkWritable_keep [OF cw]
      have same: "untouched w w1" by (simp add: untouched_def k)
      show ?thesis
      proof (cases "ce = None \<and> \<not> oe_lock E")
        case False
        then have "r \<noteq> None" "w' = w1" using r bs p cw by (auto simp: deleteFile_def split: option.splits)
        then show ?thesis using same k(1) ok by auto
      next
        case True
        obtain sr w2 where ws: "delete_section C E ns pr p rel ifMatch w1 = (sr, w2)"
          by (cases "delete_section C E ns pr p rel ifMatch w1")
        have ok1: "wt_ok (w_tree w1)" using ok k(1) by simp
        note c = delete_section_cases [OF ok1 rel(1) ws]
        have w': "r = sr" "w_tree w' = w_tree w2" "w_wal w' = w_wal w2"
          using r bs p cw True ws by (auto simp: deleteFile_def split: option.splits)
        note sw = section_world [OF k(1,2) w'(2,3) [symmetric]]
        show ?thesis using c k(1) w' rel sw by (cases sr) auto
      qed
    qed
  qed
  then show "wt_ok (w_tree w')" "r = Some err \<Longrightarrow> split_error (Some err) \<or> untouched w w'"
    "r = None \<Longrightarrow> \<exists>p. list_all plain_comp p \<and> removed p w w'" by blast+
qed

lemma Move_cases:
  assumes ok: "wt_ok (w_tree w)" and base: "list_all plain_comp (oc_base C)"
    and r: "Move C E ns pr source target ifMatch w = (r, w')"
  shows "wt_ok (w_tree w')" "r = Inl err \<Longrightarrow> split_error (Some err) \<or> untouched w w'"
    "r = Inr etag \<Longrightarrow> \<exists>src dst c. list_all plain_comp src \<and> list_all plain_comp dst \<and> moved src dst c w w'"
proof -
  have "wt_ok (w_tree w') \<and> (\<forall>err. r = Inl err \<longrightarrow> split_error (Some err) \<or> untouched w w') \<and>
    (\<forall>etag. r = Inr etag \<longrightarrow> (\<exists>src dst c. list_all plain_comp src \<and> list_all plain_comp dst \<and> moved src dst c w w'))"
  proof (cases "getProjectPath C ns pr")
    case (Inl e)
    then show ?thesis using r ok by (auto simp: Move_def untouched_def)
  next
    case bs: (Inr bs)
    show ?thesis
    proof (cases "relWithin bs source = None \<or> relWithin bs target = None")
      case True
      then show ?thesis using r ok bs by (auto simp: Move_def untouched_def split: option.splits)
    next
      case False
      then obtain a b where "relWithin bs source = Some a" "relWithin bs target = Some b" by auto
      then obtain src srcRel dst dstRel where p: "relWithin bs source = Some (src, srcRel)"
        "relWithin bs target = Some (dst, dstRel)" by (cases a; cases b) auto
      have rel: "srcRel = rel_string src" "list_all plain_comp src" "dstRel = rel_string dst" "list_all plain_comp dst"
        using relWithin_comps [OF getProjectPath_plain [OF base bs] p(1)]
          relWithin_comps [OF getProjectPath_plain [OF base bs] p(2)] by auto
      obtain ce w1 where cw: "checkWritable C E w = (ce, w1)" by (cases "checkWritable C E w")
      note k = checkWritable_keep [OF cw]
      have same: "untouched w w1" "untouched w w" by (simp_all add: untouched_def k)
      show ?thesis
      proof (cases "srcRel \<noteq> dstRel \<and> ce = None \<and> \<not> oe_lock E")
        case False
        then have "isl r" "w' = w1 \<or> w' = w" using r bs p cw by (auto simp: Move_def split: option.splits if_splits)
        then show ?thesis using same k(1) ok by auto
      next
        case True
        obtain sr w2 where ws: "move_section C E ns pr src srcRel dst dstRel ifMatch w1 = (sr, w2)"
          by (cases "move_section C E ns pr src srcRel dst dstRel ifMatch w1")
        have ok1: "wt_ok (w_tree w1)" and ne: "src \<noteq> dst" using ok k(1) True rel(1,3) by auto
        note c = move_section_cases [OF ok1 rel(1,3) ne ws]
        have w': "r = sr" "w_tree w' = w_tree w2" "w_wal w' = w_wal w2"
          using r bs p cw True ws by (auto simp: Move_def split: sum.splits)
        note sw = section_world [OF k(1,2) w'(2,3) [symmetric]]
        show ?thesis using c w' rel sw by (cases sr) auto
      qed
    qed
  qed
  then show "wt_ok (w_tree w')" "r = Inl err \<Longrightarrow> split_error (Some err) \<or> untouched w w'"
    "r = Inr etag \<Longrightarrow> \<exists>src dst c. list_all plain_comp src \<and> list_all plain_comp dst \<and> moved src dst c w w'" by blast+
qed

lemma run_op_cases:
  assumes "wt_ok (w_tree w)" "list_all plain_comp (oc_base C)" "run_op C E ns pr opn w = (r, w')"
  shows "wt_ok (w_tree w') \<and> (split_error r \<or> did (op_kind opn) r w w')"
proof -
  have wr: "wt_ok (w_tree w') \<and> (split_error r \<or> did ''write'' r w w')"
    if "left_error (writeTransformed C E ns pr path ifm req tr w) = (r, w')" for path ifm req tr
  proof -
    from left_errorD [OF that] obtain r0 where
      r0: "writeTransformed C E ns pr path ifm req tr w = (r0, w')" "r = (case r0 of Inl e \<Rightarrow> Some e | Inr x \<Rightarrow> None)"
      by blast
    note wc = writeTransformed_cases [OF assms(1,2) r0(1)]
    show ?thesis
    proof (cases r0)
      case (Inl e)
      then show ?thesis using wc(1) wc(2) [OF Inl] r0(2) by (auto simp: did_def)
    next
      case (Inr x)
      from wc(3) [OF Inr] have "acted ''write'' w w'" unfolding acted_def by blast
      then show ?thesis using wc(1) Inr r0(2) by (simp add: did_def)
    qed
  qed
  show ?thesis
  proof (cases opn)
    case (OpDeleteFile path ifm)
    then show ?thesis using deleteFile_cases [OF assms(1,2), of E ns pr path ifm r w'] assms(3)
      by (cases r) (auto simp: did_def acted_def)
  next
    case (OpMoveFile s d ifm)
    then obtain r0 where r0: "Move C E ns pr s d ifm w = (r0, w')" "r = (case r0 of Inl e \<Rightarrow> Some e | Inr x \<Rightarrow> None)"
      using left_errorD [of "Move C E ns pr s d ifm w" r w'] assms(3) by auto
    note mc = Move_cases [OF assms(1,2) r0(1)]
    show ?thesis
    proof (cases r0)
      case (Inl e)
      then show ?thesis using mc(1) mc(2) [OF Inl] r0(2) by (auto simp: did_def)
    next
      case (Inr x)
      from mc(3) [OF Inr] have "acted ''move'' w w'" unfolding acted_def by blast
      then show ?thesis using mc(1) Inr r0(2) OpMoveFile by (simp add: did_def)
    qed
  qed (use assms(3) wr in \<open>auto simp: Write_def AppendToFile_def PatchFile_def\<close>)
qed

section \<open>The log follows the tree\<close>

text \<open>A run of operations: their results and the entries they made durable, in order.\<close>

fun run_ops ::
    "('c, 'i, 'v) op_cfg \<Rightarrow> string \<Rightarrow> string \<Rightarrow> (('c, 'i, 'v) op_env \<times> store_op) list \<Rightarrow> ('c, 'i, 'v) world \<Rightarrow>
     op_error option list \<times> wal_entry list \<times> ('c, 'i, 'v) world" where
  "run_ops C ns pr [] w = ([], [], w)"
| "run_ops C ns pr ((E, opn) # xs) w =
     (let (r, w1) = run_op C E ns pr opn w; (rs, es, w2) = run_ops C ns pr xs w1 in
      (r # rs, (case logged_entry (w_wal w) (w_wal w1) of None \<Rightarrow> es | Some e \<Rightarrow> e # es), w2))"

lemma run_ops_append:
  "run_ops C ns pr (xs @ ys) w =
     (let (rs, es, w1) = run_ops C ns pr xs w; (rs', es', w2) = run_ops C ns pr ys w1 in (rs @ rs', es @ es', w2))"
  by (induction C ns pr xs w rule: run_ops.induct) (auto simp: Let_def split: prod.split option.split)

text \<open>A set of files agrees with the tree: outside the git directory, a path has the blob of its file.\<close>

definition agrees :: "'h git \<Rightarrow> wtree \<Rightarrow> (string list \<Rightarrow> (filemode \<times> 'h) option) \<Rightarrow> bool" where
  "agrees G t files \<longleftrightarrow>
     (\<forall>q. q \<noteq> [] \<longrightarrow> hd q \<noteq> ''.git'' \<longrightarrow>
        files q = map_option (\<lambda>c. (Regular, g_hash G (BlobObj c))) (file_at t q))"

lemma agreesI:
  "(\<And>q. q \<noteq> [] \<Longrightarrow> hd q \<noteq> ''.git'' \<Longrightarrow> files q = map_option (\<lambda>c. (Regular, g_hash G (BlobObj c))) (file_at t q)) \<Longrightarrow>
   agrees G t files"
  by (simp add: agrees_def)

lemma agreesD:
  "agrees G t files \<Longrightarrow> q \<noteq> [] \<Longrightarrow> hd q \<noteq> ''.git'' \<Longrightarrow>
   files q = map_option (\<lambda>c. (Regular, g_hash G (BlobObj c))) (file_at t q)"
  by (simp add: agrees_def)

lemma split_rel_string: "list_all plain_comp p \<Longrightarrow> p \<noteq> [] \<Longrightarrow> split_on slash (rel_string p) = p"
proof -
  assume p: "list_all plain_comp p" "p \<noteq> []"
  then have "segs p" by (auto simp: list_all_iff plain_comp_def seg_def)
  then show ?thesis using p(2) by (simp add: rel_string_def split_path_of)
qed

lemma file_after_plain:
  assumes "\<And>q. strict_prefix q p \<or> strict_prefix p q \<Longrightarrow> old q = None"
  shows "file_after p new old q = (if q = p then new else old q)"
  using assms [of q] by (auto simp: file_after_def strict_prefix_def)

lemma files_at_related:
  assumes "agrees G t files" "\<And>q. strict_prefix q p \<or> strict_prefix p q \<Longrightarrow> file_at t q = None"
    and "q \<noteq> []" "hd q \<noteq> ''.git''" "strict_prefix q p \<or> strict_prefix p q"
  shows "files q = None"
  using agreesD [OF assms(1,3,4)] assms(2) [OF assms(5)] by simp

lemma effect_agrees:
  assumes a: "agrees G (w_tree w) files" and d: "did k r w w'"
  shows "agrees G (w_tree w')
    (case logged_entry (w_wal w) (w_wal w') of None \<Rightarrow> files | Some e \<Rightarrow> entry_effect G e files)"
    "\<And>e. logged_entry (w_wal w) (w_wal w') = Some e \<Longrightarrow> entry_ok e"
proof -
  let ?b = "\<lambda>c. (Regular, g_hash G (BlobObj c))"
  note ag = agreesD [OF a]
  have seg: "segs p" if "list_all plain_comp p" for p using that by (auto simp: list_all_iff plain_comp_def seg_def)
  have aft: "file_after p new files q = (if q = p then new else files q)"
    if "\<And>q. strict_prefix q p \<or> strict_prefix p q \<Longrightarrow> file_at (w_tree w) q = None" "q \<noteq> []" "hd q \<noteq> ''.git''" for p new q
    using files_at_related [OF a that(1) that(2,3)] by (auto simp: file_after_def strict_prefix_def)
  have "agrees G (w_tree w')
      (case logged_entry (w_wal w) (w_wal w') of None \<Rightarrow> files | Some e \<Rightarrow> entry_effect G e files) \<and>
    (\<forall>e. logged_entry (w_wal w) (w_wal w') = Some e \<longrightarrow> entry_ok e)"
  proof -
    have "untouched w w' \<or> (\<exists>p c. list_all plain_comp p \<and> wrote p c w w') \<or>
        (\<exists>p. list_all plain_comp p \<and> removed p w w') \<or>
        (\<exists>src dst c. list_all plain_comp src \<and> list_all plain_comp dst \<and> moved src dst c w w')"
      using d by (auto simp: did_def acted_def split: if_splits)
    then show ?thesis
  proof (elim disjE exE conjE)
    assume "untouched w w'"
    then show ?thesis using a by (simp add: untouched_def agrees_def)
  next
    fix p c assume p: "list_all plain_comp p" and w: "wrote p c w w'"
    obtain e where e: "logged_entry (w_wal w) (w_wal w') = Some e" "entry_for e ''write'' p [] c" "p \<noteq> []"
      "file_at (w_tree w') = (file_at (w_tree w))(p \<mapsto> c)"
      "\<And>q. strict_prefix q p \<or> strict_prefix p q \<Longrightarrow> file_at (w_tree w) q = None"
      using w unfolding wrote_def by blast
    have sp: "split_on slash (e_Path e) = p" using e(2,3) split_rel_string [OF p] by (simp add: entry_for_def)
    have "agrees G (w_tree w') (entry_effect G e files)"
    proof (rule agreesI)
      fix q :: "string list" assume q: "q \<noteq> []" "hd q \<noteq> ''.git''"
      have af: "file_after p new files q = (if q = p then new else files q)" for new
        by (rule aft [OF e(5) q])
      show "entry_effect G e files q = map_option ?b (file_at (w_tree w') q)"
        using af ag [OF q] e(2) unfolding entry_effect_def sp e(4) by (simp add: entry_for_def blob_id_def)
    qed
    then show ?thesis using e(1,2) seg [OF p] sp by (auto simp: entry_ok_def entry_for_def)
  next
    fix p assume p: "list_all plain_comp p" and w: "removed p w w'"
    obtain e where e: "logged_entry (w_wal w) (w_wal w') = Some e" "entry_for e ''delete'' p [] []" "p \<noteq> []"
      "file_at (w_tree w') = (file_at (w_tree w))(p := None)"
      "\<And>q. strict_prefix q p \<or> strict_prefix p q \<Longrightarrow> file_at (w_tree w) q = None"
      using w unfolding removed_def by blast
    have sp: "split_on slash (e_Path e) = p" using e(2,3) split_rel_string [OF p] by (simp add: entry_for_def)
    have "agrees G (w_tree w') (entry_effect G e files)"
    proof (rule agreesI)
      fix q :: "string list" assume q: "q \<noteq> []" "hd q \<noteq> ''.git''"
      have af: "file_after p new files q = (if q = p then new else files q)" for new
        by (rule aft [OF e(5) q])
      show "entry_effect G e files q = map_option ?b (file_at (w_tree w') q)"
        using af ag [OF q] e(2) unfolding entry_effect_def sp e(4) by (simp add: entry_for_def)
    qed
    then show ?thesis using e(1,2) seg [OF p] sp by (auto simp: entry_ok_def entry_for_def)
  next
    fix src dst c assume p: "list_all plain_comp src" "list_all plain_comp dst" and w: "moved src dst c w w'"
    obtain e where e: "logged_entry (w_wal w) (w_wal w') = Some e" "entry_for e ''move'' dst src c" "src \<noteq> []" "dst \<noteq> []"
      "file_at (w_tree w') = (file_at (w_tree w))(dst \<mapsto> c, src := None)" "src \<noteq> dst"
      "\<And>q. strict_prefix q dst \<or> strict_prefix dst q \<Longrightarrow> file_at (w_tree w) q = None"
      "\<And>q. strict_prefix q src \<or> strict_prefix src q \<Longrightarrow> file_at (w_tree w) q = None"
      using w unfolding moved_def by blast
    have sp: "split_on slash (e_Path e) = dst" "split_on slash (e_MoveFrom e) = src"
      using e(2,3,4) split_rel_string [OF p(1)] split_rel_string [OF p(2)] by (simp_all add: entry_for_def)
    have "agrees G (w_tree w') (entry_effect G e files)"
    proof (rule agreesI)
      fix q :: "string list" assume q: "q \<noteq> []" "hd q \<noteq> ''.git''"
      have s: "file_after src None files q = (if q = src then None else files q)" by (rule aft [OF e(8) q])
      have dn: "files q = None" if "strict_prefix q dst \<or> strict_prefix dst q"
        using ag [OF q] e(7) [OF that] by simp
      have "file_after dst (Some (?b c)) (file_after src None files) q =
          (if q = dst then Some (?b c) else if q = src then None else files q)"
        using s dn by (auto simp: file_after_def [of dst] strict_prefix_def)
      then show "entry_effect G e files q = map_option ?b (file_at (w_tree w') q)"
        using ag [OF q] e(2,6) unfolding entry_effect_def sp e(5) by (simp add: entry_for_def blob_id_def)
    qed
    then show ?thesis using e(1,2) seg [OF p(1)] seg [OF p(2)] sp by (auto simp: entry_ok_def entry_for_def)
  qed
  qed
  then show "agrees G (w_tree w')
      (case logged_entry (w_wal w) (w_wal w') of None \<Rightarrow> files | Some e \<Rightarrow> entry_effect G e files)"
    "\<And>e. logged_entry (w_wal w) (w_wal w') = Some e \<Longrightarrow> entry_ok e" by blast+
qed

lemma run_ops_agrees:
  assumes "list_all plain_comp (oc_base C)"
  shows "wt_ok (w_tree w) \<Longrightarrow> agrees G (w_tree w) files \<Longrightarrow> run_ops C ns pr xs w = (rs, es, w') \<Longrightarrow>
    \<not> list_ex split_error rs \<Longrightarrow>
    wt_ok (w_tree w') \<and> agrees G (w_tree w') (fold (entry_effect G) es files) \<and> list_all entry_ok es"
proof (induction xs arbitrary: w files rs es)
  case (Cons x xs)
  obtain E opn where x: "x = (E, opn)" by (cases x)
  obtain r w1 where o: "run_op C E ns pr opn w = (r, w1)" by (cases "run_op C E ns pr opn w")
  obtain rs1 es1 where o1: "run_ops C ns pr xs w1 = (rs1, es1, w')"
    using Cons.prems(3) o by (auto simp: x split: prod.splits)
  let ?le = "logged_entry (w_wal w) (w_wal w1)"
  have e: "rs = r # rs1" "es = (case ?le of None \<Rightarrow> es1 | Some e \<Rightarrow> e # es1)"
    using Cons.prems(3) o o1 by (auto simp: x)
  have d: "wt_ok (w_tree w1)" "did (op_kind opn) r w w1"
    using run_op_cases [OF Cons.prems(1) assms o] Cons.prems(4) e(1) by auto
  note ef = effect_agrees [OF Cons.prems(2) d(2)]
  note ih = Cons.IH [OF d(1) ef(1) o1]
  show ?case using ih Cons.prems(4) e ef(2) by (cases ?le) auto
qed simp


text \<open>The operations of a run that succeeded.\<close>

definition succeeded :: "(('c, 'i, 'v) op_env \<times> store_op) list \<Rightarrow> op_error option list \<Rightarrow> store_op list" where
  "succeeded xs rs = map (snd \<circ> fst) (filter (\<lambda>(x, r). r = None) (zip xs rs))"

lemma run_ops_kinds:
  assumes "list_all plain_comp (oc_base C)"
  shows "wt_ok (w_tree w) \<Longrightarrow> run_ops C ns pr xs w = (rs, es, w') \<Longrightarrow> \<not> list_ex split_error rs \<Longrightarrow>
    length rs = length xs \<and> map e_Op es = map op_kind (succeeded xs rs)"
proof (induction xs arbitrary: w rs es)
  case Nil
  then show ?case by (simp add: succeeded_def)
next
  case (Cons x xs)
  obtain E opn where x: "x = (E, opn)" by (cases x)
  obtain r w1 where o: "run_op C E ns pr opn w = (r, w1)" by (cases "run_op C E ns pr opn w")
  obtain rs1 es1 where o1: "run_ops C ns pr xs w1 = (rs1, es1, w')"
    using Cons.prems(2) o by (auto simp: x split: prod.splits)
  let ?le = "logged_entry (w_wal w) (w_wal w1)"
  have e: "rs = r # rs1" "es = (case ?le of None \<Rightarrow> es1 | Some e \<Rightarrow> e # es1)"
    using Cons.prems(2) o o1 by (auto simp: x)
  have d: "wt_ok (w_tree w1)" "did (op_kind opn) r w w1"
    using run_op_cases [OF Cons.prems(1) assms o] Cons.prems(3) e(1) by auto
  have le: "if r = None then \<exists>e. ?le = Some e \<and> e_Op e = op_kind opn else ?le = None"
    using d(2) acted_logs [of "op_kind opn" w w1] by (auto simp: did_def untouched_def split: if_splits)
  have "length rs1 = length xs \<and> map e_Op es1 = map op_kind (succeeded xs rs1)"
    using Cons.IH [OF d(1) o1] Cons.prems(3) e(1) by simp
  then show ?case using le e x by (auto simp: succeeded_def split: if_splits)
qed

text \<open>
  C2: the log follows the tree: take any run of writes, appends, patches, deletions and moves, in
  which no append to the log and no removal failed.  The files of the working tree outside the git
  directory are exactly the effects, in order, of the entries the log made durable, and every such
  entry can be committed; these entries are one for each operation that succeeded, in order and of its
  kind; and an operation that was refused, wherever in the run, changed no file and logged nothing.
\<close>

theorem log_follows_tree:
  assumes "list_all plain_comp (oc_base C)" "wt_ok (w_tree w)" "agrees G (w_tree w) files"
    and "run_ops C ns pr xs w = (rs, es, w')" "\<not> list_ex split_error rs"
  shows "wt_ok (w_tree w') \<and> agrees G (w_tree w') (fold (entry_effect G) es files) \<and> list_all entry_ok es \<and>
    length rs = length xs \<and> map e_Op es = map op_kind (succeeded xs rs) \<and>
    (\<forall>ys E opn zs rs1 es1 w1 err w2.
       xs = ys @ (E, opn) # zs \<longrightarrow> run_ops C ns pr ys w = (rs1, es1, w1) \<longrightarrow>
       run_op C E ns pr opn w1 = (Some err, w2) \<longrightarrow>
       file_at (w_tree w2) = file_at (w_tree w1) \<and> logged_entry (w_wal w1) (w_wal w2) = None)"
proof -
  have "untouched w1 w2"
    if xs: "xs = ys @ (E, opn) # zs" and r1: "run_ops C ns pr ys w = (rs1, es1, w1)"
      and r2: "run_op C E ns pr opn w1 = (Some err, w2)" for ys E opn zs rs1 es1 w1 err w2
  proof -
    obtain rs3 es3 where "run_ops C ns pr ((E, opn) # zs) w1 = (Some err # rs3, es3, w')"
      "rs = rs1 @ Some err # rs3"
      using assms(4) run_ops_append [of C ns pr ys "(E, opn) # zs" w] r1 r2
      by (auto simp: xs Let_def split: prod.splits)
    then have "\<not> list_ex split_error rs1" "\<not> split_error (Some err)" using assms(5) by auto
    then show ?thesis
      using run_op_cases [OF _ assms(1) r2] run_ops_agrees [OF assms(1,2,3) r1] by (simp add: did_def)
  qed
  then show ?thesis
    using run_ops_agrees [OF assms] run_ops_kinds [OF assms(1,2,4,5)] unfolding untouched_def by blast
qed

text \<open>
  C4: optimistic concurrency: a write, append or patch with an expected version that is not the
  version of the file's current bytes is refused, with no file changed and nothing logged; one that
  succeeds replaced exactly those bytes with what the edit makes of them, in that file only, and
  returns the version of the new bytes.  The read of the file must not fail: an error of \<open>os.ReadFile\<close>
  is ignored, and the call goes on as if the file were empty.
\<close>

theorem writeTransformed_compare_and_swap:
  assumes "wt_ok (w_tree w)" "list_all plain_comp (oc_base C)"
    and "getProjectPath C ns pr = Inr bs" "relWithin bs path = Some (p, rel)"
    and "writeTransformed C E ns pr path (Some version) req transform w = (r, w')" "\<not> oe_read E"
  shows "(version \<noteq> sha256Hex (file_bytes (w_tree w) p) \<longrightarrow>
      isl r \<and> file_at (w_tree w') = file_at (w_tree w) \<and> logged_entry (w_wal w) (w_wal w') = None) \<and>
    (\<forall>etag. r = Inr etag \<longrightarrow>
      (\<exists>new. transform (file_bytes (w_tree w) p) = Inr new \<and> etag = sha256Hex new \<and>
        file_at (w_tree w') = (file_at (w_tree w))(p \<mapsto> new)))"
proof (intro conjI impI allI)
  assume v: "version \<noteq> sha256Hex (file_bytes (w_tree w) p)"
  obtain ce w1 where cw: "checkWritable C E w = (ce, w1)" by (cases "checkWritable C E w")
  note k = checkWritable_keep [OF cw]
  have "isl r \<and> w_tree w' = w_tree w \<and> w_wal w' = w_wal w"
    using assms(3-5) v k(1,2)
    by (auto simp: writeTransformed_def cw bytes_read_ok [OF assms(6)] write_section_def mismatch_def Let_def split: option.splits if_splits)
  then show "isl r" "file_at (w_tree w') = file_at (w_tree w)" "logged_entry (w_wal w) (w_wal w') = None" by simp_all
next
  fix etag assume r: "r = Inr etag"
  from writeTransformed_cases(3) [OF assms(1,2,5) r, unfolded bytes_read_ok [OF assms(6)]] assms(3,4)
  show "\<exists>new. transform (file_bytes (w_tree w) p) = Inr new \<and> etag = sha256Hex new \<and>
      file_at (w_tree w') = (file_at (w_tree w))(p \<mapsto> new)" by (auto simp: wrote_def)
qed

section \<open>A concrete project\<close>

definition demo_cfg :: "(cat_row mem_db, index_row mem_db, vec_row mem_db) op_cfg" where
  "demo_cfg =
     \<lparr>oc_base = [''srv''], oc_catalog = mem_bolt, oc_index = mem_bolt, oc_vector = mem_bolt, oc_lower = (\<lambda>r. r),
      oc_scanLinks = (\<lambda>_ _. []),
      oc_defaults = \<lparr>df_UserName = ''u'', df_UserEmail = ''e'', df_AgentName = ''a'', df_AgentWorker = []\<rparr>,
      oc_maxWAL = 1000, oc_vectorConfigured = False, oc_vecCap = 0, oc_kickCap = 0\<rparr>"

definition demo_env :: "(cat_row mem_db, index_row mem_db, vec_row mem_db) op_env" where
  "demo_env =
     \<lparr>oe_ctx = \<lparr>cx_agent = None, cx_user = None, cx_committer = None\<rparr>, oe_now = 5, oe_mtime = 5, oe_drift = StateHealthy,
      oe_lock = False, oe_dirLock = False, oe_read = False, oe_readDst = False, oe_mkdir = False, oe_write = False, oe_remove = False, oe_reap = False,
      oe_wal = no_faults, oe_partial = [], oe_catOpen = Inl ErrStat, oe_catCreate = Inl ErrStat, oe_idxOpen = Inl ErrStat,
      oe_idxCreate = Inl ErrStat, oe_vecOpen = Inl ErrStat\<rparr>"

definition demo_tree :: wtree where
  "demo_tree =
     [([''.git''], DirNode), ([''.git'', ''HEAD''], FileNode ''ref''), ([''docs''], DirNode), ([''docs'', ''a.md''], FileNode ''x'')]"

definition demo_world :: "(cat_row mem_db, index_row mem_db, vec_row mem_db) world" where
  "demo_world =
     \<lparr>w_tree = demo_tree, w_wal = empty_log, w_state = StateHealthy, w_moving = False, w_cat = None, w_idx = None,
      w_vec = None, w_vecQueue = [], w_kicks = [], w_notices = [], w_catFailedWrite = 0, w_catFailedDelete = 0,
      w_idxFailedWrite = 0, w_idxFailedDelete = 0, w_vecFailedDelete = 0, w_invariantViolations = 0, w_lazyRescans = 0\<rparr>"

lemma demo_base: "list_all plain_comp (oc_base demo_cfg)"
  by (simp add: demo_cfg_def plain_comp_def dot_def dotdot_def slash_def)

lemma demo_path: "getProjectPath demo_cfg ''n'' ''p'' = Inr [''srv'', ''n'', ''p'']"
  by (simp add: getProjectPath_def demo_cfg_def) code_simp

lemma demo_writable: "checkWritable demo_cfg demo_env demo_world = (None, demo_world)"
proof -
  have "hasGitRepo demo_tree" by code_simp
  then show ?thesis
    by (simp add: checkWritable_def repo_and_room_def demo_world_def demo_cfg_def PendingCount_def empty_log_def)
qed

lemma wt_ok_check:
  assumes "list_all (\<lambda>(p, n). list_all (\<lambda>q. node_at t q = Some DirNode) (ancestors p)) t"
  shows "wt_ok t"
  unfolding wt_ok_def
proof (intro allI impI)
  fix p q assume p: "node_at t p \<noteq> None" "strict_prefix q p"
  then have "p \<noteq> []" by auto
  then obtain n where "(p, n) \<in> set t" using p(1) by (auto simp: node_at_def dest: map_of_SomeD)
  with assms p(2) show "node_at t q = Some DirNode" by (auto simp: list_all_iff ancestors_set)
qed

lemma demo_tree_ok: "wt_ok demo_tree"
  by (rule wt_ok_check) code_simp

lemma demo_append:
  obtains w1 where "wal_append demo_env e w = (None, w1)" "w_tree w1 = w_tree w"
    "logged_entry (w_wal w) (w_wal w1) = Some (fill_entry (l_nextSeq (w_wal w)) 5 e)"
proof -
  obtain r w1 where a: "wal_append demo_env e w = (r, w1)" by (cases "wal_append demo_env e w")
  then have "r = None" by (auto simp: wal_append_def demo_env_def Append_ok no_faults_def)
  with a wal_append_cases [OF a] that show thesis by (simp add: demo_env_def)
qed

text \<open>What a deletion does once the guards have passed.\<close>

lemma demo_delete:
  assumes "relWithin [''srv'', ''n'', ''p''] path = Some (p, rel)"
  obtains w1 where "w_tree w1 = demo_tree"
    "logged_entry (w_wal demo_world) (w_wal w1) =
       Some (fill_entry (l_nextSeq (w_wal demo_world)) 5 (op_entry demo_cfg demo_env ''n'' ''p'' ''delete'' rel [] []))"
    "Remove_path False demo_tree p = RemoveFails \<Longrightarrow>
       deleteFile demo_cfg demo_env ''n'' ''p'' path None demo_world = (Some RemoveError, w1)"
    "\<And>t. Remove_path False demo_tree p = Removed t \<Longrightarrow>
       deleteFile demo_cfg demo_env ''n'' ''p'' path None demo_world =
         (None, add_notice ''file.delete'' rel [] (w1\<lparr>w_tree := reapEmptyDir False t (butlast p)\<rparr>))"
proof -
  let ?w0 = "vectorDelete demo_cfg demo_env rel (indexDelete demo_cfg demo_env rel (catalogDelete demo_cfg demo_env rel demo_world))"
  let ?e = "op_entry demo_cfg demo_env ''n'' ''p'' ''delete'' rel [] []"
  obtain w1 where w1: "wal_append demo_env ?e ?w0 = (None, w1)" "w_tree w1 = w_tree ?w0"
    "logged_entry (w_wal ?w0) (w_wal w1) = Some (fill_entry (l_nextSeq (w_wal ?w0)) 5 ?e)"
    by (rule demo_append)
  have t: "w_tree demo_world = demo_tree" "oe_lock demo_env = False" "oe_remove demo_env = False" "oe_reap demo_env = False"
    by (simp_all add: demo_world_def demo_env_def)
  show thesis
  proof
    show "w_tree w1 = demo_tree" using w1(2) t by simp
    then show "Remove_path False demo_tree p = RemoveFails \<Longrightarrow>
        deleteFile demo_cfg demo_env ''n'' ''p'' path None demo_world = (Some RemoveError, w1)"
      "\<And>t. Remove_path False demo_tree p = Removed t \<Longrightarrow>
        deleteFile demo_cfg demo_env ''n'' ''p'' path None demo_world =
          (None, add_notice ''file.delete'' rel [] (w1\<lparr>w_tree := reapEmptyDir False t (butlast p)\<rparr>))"
      using t(2-4) w1(1)
      by (simp_all add: deleteFile_def demo_path assms demo_writable delete_section_def mismatch_def Let_def)
    show "logged_entry (w_wal demo_world) (w_wal w1) =
        Some (fill_entry (l_nextSeq (w_wal demo_world)) 5 ?e)" using w1(3) by simp
  qed
qed

text \<open>
  deleting a directory fails, and deletes it from git: the call reports that the removal failed and
  the working tree keeps its files, but the entry it has logged takes every file below the directory
  out of the committed tree.
\<close>

theorem delete_directory_diverges:
  "\<exists>w' e. deleteFile demo_cfg demo_env ''n'' ''p'' ''docs'' None demo_world = (Some RemoveError, w') \<and>
     file_at (w_tree w') [''docs'', ''a.md''] = Some ''x'' \<and>
     logged_entry (w_wal demo_world) (w_wal w') = Some e \<and>
     entry_effect G e files [''docs'', ''a.md''] = None"
proof -
  have r: "relWithin [''srv'', ''n'', ''p''] ''docs'' = Some ([''docs''], ''docs'')" by code_simp
  have rm: "Remove_path False demo_tree [''docs''] = RemoveFails" by code_simp
  obtain w1 where w1: "w_tree w1 = demo_tree" "logged_entry (w_wal demo_world) (w_wal w1) =
      Some (fill_entry (l_nextSeq (w_wal demo_world)) 5 (op_entry demo_cfg demo_env ''n'' ''p'' ''delete'' ''docs'' [] []))"
    "deleteFile demo_cfg demo_env ''n'' ''p'' ''docs'' None demo_world = (Some RemoveError, w1)"
    using demo_delete [OF r] rm by metis
  have "file_at demo_tree [''docs'', ''a.md''] = Some ''x''" by code_simp
  moreover have "split_on slash ''docs'' = [''docs'']" by code_simp
  ultimately show ?thesis using w1
    by (auto simp: entry_effect_def fill_entry_def op_entry_def file_after_def Let_def)
qed

text \<open>
  nothing keeps a path out of the git directory: \<open>delete_file\<close> removes the repository's \<open>HEAD\<close>.
\<close>

theorem delete_git_HEAD:
  "\<exists>w'. deleteFile demo_cfg demo_env ''n'' ''p'' ''.git/HEAD'' None demo_world = (None, w') \<and>
     file_at (w_tree demo_world) [''.git'', ''HEAD''] = Some ''ref'' \<and> file_at (w_tree w') [''.git'', ''HEAD''] = None"
proof -
  have r: "relWithin [''srv'', ''n'', ''p''] ''.git/HEAD'' = Some ([''.git'', ''HEAD''], ''.git/HEAD'')" by code_simp
  have rm: "Remove_path False demo_tree [''.git'', ''HEAD''] = Removed (kv_del [''.git'', ''HEAD''] demo_tree)" by code_simp
  obtain w1 where "deleteFile demo_cfg demo_env ''n'' ''p'' ''.git/HEAD'' None demo_world =
      (None, add_notice ''file.delete'' ''.git/HEAD'' []
        (w1\<lparr>w_tree := reapEmptyDir False (kv_del [''.git'', ''HEAD''] demo_tree) (butlast [''.git'', ''HEAD''])\<rparr>))"
    using demo_delete [OF r] rm by metis
  moreover have "file_at (reapEmptyDir False (kv_del [''.git'', ''HEAD''] demo_tree) (butlast [''.git'', ''HEAD''])) [''.git'', ''HEAD''] = None"
    "file_at demo_tree [''.git'', ''HEAD''] = Some ''ref''" by code_simp+
  ultimately show ?thesis by (simp add: demo_world_def)
qed

text \<open>
  A read that fails is taken for an empty or a missing file.  An append whose read fails and that reports
  success has replaced the file with the appended text alone, whatever the file held; a move without a version,
  which must not overwrite a file, passes its guard when the read of the target fails.
\<close>

theorem append_read_error_overwrites:
  assumes "wt_ok (w_tree w)" "list_all plain_comp (oc_base C)" "oe_read E"
    and "getProjectPath C ns pr = Inr bs" "relWithin bs path = Some (p, rel)"
    and "AppendToFile C E ns pr path content ''end'' [] None w = (Inr etag, w')"
  shows "file_at (w_tree w') = (file_at (w_tree w))(p \<mapsto> content)"
  using writeTransformed_cases(3) [OF assms(1,2) assms(6) [unfolded AppendToFile_def], of etag] assms(3-5)
  by (auto simp: bytes_read_def os_read_def spliceAppend_def wrote_def)

theorem append_read_error_overwrites_witness:
  "\<exists>etag w'. AppendToFile demo_cfg (demo_env\<lparr>oe_read := True\<rparr>) ''n'' ''p'' ''docs/a.md'' ''y'' ''end'' [] None demo_world =
       (Inr etag, w') \<and>
     file_at (w_tree demo_world) [''docs'', ''a.md''] = Some ''x'' \<and> file_at (w_tree w') [''docs'', ''a.md''] = Some ''y''"
proof -
  let ?E = "demo_env\<lparr>oe_read := True\<rparr>"
  have r: "relWithin [''srv'', ''n'', ''p''] ''docs/a.md'' = Some ([''docs'', ''a.md''], ''docs/a.md'')" by code_simp
  have g: "hasGitRepo demo_tree" by code_simp
  have cw: "checkWritable demo_cfg ?E demo_world = (None, demo_world)"
    by (simp add: checkWritable_def repo_and_room_def demo_world_def demo_cfg_def PendingCount_def empty_log_def g)
  obtain t1 where t1: "place_file ?E demo_tree [''docs'', ''a.md''] ''y'' = (None, t1)"
  proof
    let ?t1 = "kv_put [''docs'', ''a.md''] (FileNode ''y'') demo_tree"
    have "MkdirAll False demo_tree (butlast [''docs'', ''a.md'']) = Some demo_tree"
      "atomicWriteFile False demo_tree [''docs'', ''a.md''] ''y'' = Some ?t1" by code_simp+
    then show "place_file ?E demo_tree [''docs'', ''a.md''] ''y'' = (None, ?t1)"
      by (simp add: place_file_def demo_env_def)
  qed
  let ?e = "op_entry demo_cfg ?E ''n'' ''p'' ''write'' ''docs/a.md'' [] ''y''"
  obtain w1 where a: "wal_append ?E ?e (demo_world\<lparr>w_tree := t1\<rparr>) = (None, w1)"
    by (cases "wal_append ?E ?e (demo_world\<lparr>w_tree := t1\<rparr>)")
      (auto simp: wal_append_def demo_env_def Append_ok no_faults_def split: prod.splits sum.splits)
  have e: "w_tree demo_world = demo_tree" "\<not> oe_lock ?E" "oe_read ?E"
    by (simp_all add: demo_world_def demo_env_def)
  have "os_read True t p \<noteq> Inl NotExist" "bytes_read ?E t p = []" for t p
    by (simp_all add: os_read_def bytes_read_def)
  then obtain etag w' where c: "AppendToFile demo_cfg ?E ''n'' ''p'' ''docs/a.md'' ''y'' ''end'' [] None demo_world = (Inr etag, w')"
    using t1 a e
    by (simp add: AppendToFile_def writeTransformed_def demo_path r cw write_section_def mismatch_def spliceAppend_def Let_def)
  have ok: "wt_ok (w_tree demo_world)" using demo_tree_ok by (simp add: demo_world_def)
  have "file_at demo_tree [''docs'', ''a.md''] = Some ''x''" by code_simp
  with append_read_error_overwrites [OF ok demo_base e(3) demo_path r c] c show ?thesis by (auto simp: e(1))
qed

theorem move_read_error_unguarded:
  assumes "wt_ok t"
  shows "move_guard E t dst srcEtag None = None \<longleftrightarrow> oe_readDst E \<or> file_at t dst = None"
proof (cases "ReadFile t dst")
  case (Inl l)
  then have "file_at t dst = None" using ReadFile_ok [OF assms, of dst] by (cases "file_at t dst") auto
  then show ?thesis using Inl by (simp add: move_guard_def os_read_def)
next
  case (Inr c)
  then show ?thesis using ReadFile_ok [OF assms, of dst c] by (simp add: move_guard_def os_read_def Let_def)
qed

section \<open>Witnesses\<close>

definition demo_op :: store_op where
  "demo_op = OpDeleteFile ''docs/a.md'' None"

definition demo_files :: "string list \<Rightarrow> (filemode \<times> oid) option" where
  "demo_files = [[''docs'', ''a.md''] \<mapsto> (Regular, OBlob ''x'')]"

lemma demo_agrees: "agrees (cl_git plain_lib) (w_tree demo_world) demo_files"
  by (rule agreesI) (auto simp: demo_files_def demo_world_def demo_tree_def plain_lib_def file_at_def node_at_def)

theorem log_follows_tree_witness:
  "\<exists>es w'. run_ops demo_cfg ''n'' ''p'' [(demo_env, demo_op)] demo_world = ([None], es, w') \<and>
     fold (entry_effect (cl_git plain_lib)) es demo_files [''docs'', ''a.md''] = None"
proof -
  have r: "relWithin [''srv'', ''n'', ''p''] ''docs/a.md'' = Some ([''docs'', ''a.md''], ''docs/a.md'')" by code_simp
  have rm: "Remove_path False demo_tree [''docs'', ''a.md''] = Removed (kv_del [''docs'', ''a.md''] demo_tree)" by code_simp
  obtain w1 where d: "deleteFile demo_cfg demo_env ''n'' ''p'' ''docs/a.md'' None demo_world =
      (None, add_notice ''file.delete'' ''docs/a.md'' []
        (w1\<lparr>w_tree := reapEmptyDir False (kv_del [''docs'', ''a.md''] demo_tree) (butlast [''docs'', ''a.md''])\<rparr>))"
    using demo_delete [OF r] rm by metis
  obtain es w' where o: "run_ops demo_cfg ''n'' ''p'' [(demo_env, demo_op)] demo_world = ([None], es, w')"
    using d by (cases "run_ops demo_cfg ''n'' ''p'' [(demo_env, demo_op)] demo_world") (auto simp: demo_op_def)
  then have t: "w_tree w' = reapEmptyDir False (kv_del [''docs'', ''a.md''] demo_tree) (butlast [''docs'', ''a.md''])"
    using d by (auto simp: demo_op_def)
  have ok: "wt_ok (w_tree demo_world)" using demo_tree_ok by (simp add: demo_world_def)
  have "agrees (cl_git plain_lib) (w_tree w') (fold (entry_effect (cl_git plain_lib)) es demo_files)"
    using log_follows_tree [OF demo_base ok demo_agrees o] by (simp add: split_error_def)
  moreover have "file_at (reapEmptyDir False (kv_del [''docs'', ''a.md''] demo_tree) (butlast [''docs'', ''a.md''])) [''docs'', ''a.md''] = None"
    by code_simp
  ultimately have "fold (entry_effect (cl_git plain_lib)) es demo_files [''docs'', ''a.md''] = None"
    using agreesD [of "cl_git plain_lib" "w_tree w'" _ "[''docs'', ''a.md'']"] t by simp
  with o show ?thesis by blast
qed


theorem writeTransformed_compare_and_swap_witness:
  "isl (fst (writeTransformed demo_cfg demo_env ''n'' ''p'' ''docs/a.md'' (Some ''stale'') False Inr demo_world))"
proof -
  obtain r w' where c: "writeTransformed demo_cfg demo_env ''n'' ''p'' ''docs/a.md'' (Some ''stale'') False Inr demo_world = (r, w')"
    by (cases "writeTransformed demo_cfg demo_env ''n'' ''p'' ''docs/a.md'' (Some ''stale'') False Inr demo_world")
  have p: "relWithin [''srv'', ''n'', ''p''] ''docs/a.md'' = Some ([''docs'', ''a.md''], ''docs/a.md'')" by code_simp
  have ok: "wt_ok (w_tree demo_world)" using demo_tree_ok by (simp add: demo_world_def)
  have "length (sha256Hex (file_bytes (w_tree demo_world) [''docs'', ''a.md''])) \<noteq> length ''stale''"
    by (simp add: length_sha256Hex)
  then have "''stale'' \<noteq> sha256Hex (file_bytes (w_tree demo_world) [''docs'', ''a.md''])" by metis
  with writeTransformed_compare_and_swap [OF ok demo_base demo_path p c] c show ?thesis by (simp add: demo_env_def)
qed

end
