(* ===== verification/Bolt_Tx.thy ===== *)
theory Bolt_Tx
  imports Bolt
begin

text \<open>
  Read-write transactions of the global stores (the namespace registry, the users, the OAuth state):
  an error of the function or of the commit rolls everything back, the result is returned with the
  database.  \<open>decode_all\<close> and \<open>delete_rows\<close> are the two halves of the stores' scans: collect under
  \<open>ForEach\<close>, then write.  \<open>bolt_works\<close> is a database in which no call fails.
\<close>

definition transact :: "('db, 'v) bolt \<Rightarrow> 'e \<Rightarrow> ('db \<Rightarrow> 'e + 'db) \<Rightarrow> 'db \<Rightarrow> 'e + 'db" where
  "transact B tx f db =
     (case f db of
        Inl e \<Rightarrow> Inl e
      | Inr db1 \<Rightarrow> (case b_commit B db1 of None \<Rightarrow> Inl tx | Some db2 \<Rightarrow> Inr db2))"

definition transact_ret :: "('db, 'v) bolt \<Rightarrow> 'e \<Rightarrow> ('db \<Rightarrow> 'e + 'a \<times> 'db) \<Rightarrow> 'db \<Rightarrow> 'e + 'a \<times> 'db" where
  "transact_ret B tx f db =
     (case f db of
        Inl e \<Rightarrow> Inl e
      | Inr (a, db1) \<Rightarrow> (case b_commit B db1 of None \<Rightarrow> Inl tx | Some db2 \<Rightarrow> Inr (a, db2)))"

definition or_err :: "'e \<Rightarrow> 'a option \<Rightarrow> 'e + 'a" where
  "or_err e x = (case x of None \<Rightarrow> Inl e | Some a \<Rightarrow> Inr a)"

fun create_all :: "('db, 'v) bolt \<Rightarrow> string list \<Rightarrow> 'db \<Rightarrow> 'db option" where
  "create_all B [] db = Some db"
| "create_all B (n # ns) db = (case b_create B n db of None \<Rightarrow> None | Some db1 \<Rightarrow> create_all B ns db1)"

fun delete_rows :: "('db, 'v) bolt \<Rightarrow> string \<Rightarrow> string list \<Rightarrow> 'db \<Rightarrow> 'db option" where
  "delete_rows B n [] db = Some db"
| "delete_rows B n (k # ks) db =
     (case b_delete B n k db of None \<Rightarrow> None | Some db1 \<Rightarrow> delete_rows B n ks db1)"

fun decode_all :: "('v \<Rightarrow> 'r option) \<Rightarrow> (string \<times> 'v) list \<Rightarrow> (string \<times> 'r) list option" where
  "decode_all dec [] = Some []"
| "decode_all dec ((k, v) # rows) =
     (case dec v of None \<Rightarrow> None | Some r \<Rightarrow> map_option ((#) (k, r)) (decode_all dec rows))"

definition just_db :: "'e + 'a \<times> 'db \<Rightarrow> 'e + 'db" where
  "just_db x = map_sum id snd x"

definition scope_updates :: "('r \<Rightarrow> string) \<Rightarrow> (string \<Rightarrow> 'r \<Rightarrow> 'v) \<Rightarrow> (string \<Rightarrow> string) \<Rightarrow> (string \<times> 'r) list \<Rightarrow> (string \<times> 'v) list" where
  "scope_updates scope_of with_scope fn rows =
     map (\<lambda>(k, r). (k, with_scope (fn (scope_of r)) r)) (filter (\<lambda>(k, r). fn (scope_of r) \<noteq> scope_of r) rows)"

section \<open>Lemmas\<close>

lemma or_err_simps [simp]:
  "or_err e x = Inr a \<longleftrightarrow> x = Some a" "or_err e x = Inl f \<longleftrightarrow> x = None \<and> f = e"
  by (auto simp: or_err_def split: option.splits)

lemma b_get_bget: "b_bucket B db n \<Longrightarrow> b_get B db n k = bget B db n k"
  by (simp add: bget_def)

lemma transact_Inr:
  assumes "bolt_ok B" "transact B tx f db = Inr db'"
  obtains db1 where "f db = Inr db1" "bget B db' = bget B db1" "b_bucket B db' = b_bucket B db1"
proof -
  from assms(2) obtain db1 where d: "f db = Inr db1" "b_commit B db1 = Some db'"
    by (auto simp: transact_def split: sum.splits option.splits)
  show ?thesis by (rule that [OF d(1)]) (use reads_cong [OF bolt_okD(8) [OF assms(1) d(2)]] in auto)
qed

lemma transact_Inl: "transact B tx f db = Inl e \<Longrightarrow> e \<noteq> tx \<Longrightarrow> f db = Inl e"
  by (auto simp: transact_def split: sum.splits option.splits)

lemma transact_only_tx:
  assumes "\<And>e. f db = Inl e \<Longrightarrow> e = tx"
  shows "transact B tx f db = Inl e \<Longrightarrow> e = tx"
  using assms by (auto simp: transact_def split: sum.splits option.splits)

lemma transact_ret_Inr:
  assumes "bolt_ok B" "transact_ret B tx f db = Inr (a, db')"
  obtains db1 where "f db = Inr (a, db1)" "bget B db' = bget B db1" "b_bucket B db' = b_bucket B db1"
proof -
  from assms(2) obtain db1 where d: "f db = Inr (a, db1)" "b_commit B db1 = Some db'"
    by (auto simp: transact_ret_def split: sum.splits option.splits)
  show ?thesis by (rule that [OF d(1)]) (use reads_cong [OF bolt_okD(8) [OF assms(1) d(2)]] in auto)
qed

lemma create_all_reads:
  assumes "bolt_ok B"
  shows "create_all B ns db = Some db' \<Longrightarrow>
    bget B db' = bget B db \<and> (\<forall>n. b_bucket B db' n \<longleftrightarrow> b_bucket B db n \<or> n \<in> set ns)"
proof (induction ns arbitrary: db)
  case (Cons n ns)
  then obtain db1 where d: "b_create B n db = Some db1" "create_all B ns db1 = Some db'" by (auto split: option.splits)
  from Cons.IH [OF d(2)] create_reads [OF assms d(1)] show ?case by auto
qed simp

lemma delete_rows_reads:
  assumes "bolt_ok B"
  shows "delete_rows B n ks db = Some db' \<Longrightarrow> b_bucket B db n \<Longrightarrow>
    bget B db' = (bget B db)(n := (\<lambda>k. if k \<in> set ks then None else bget B db n k)) \<and> b_bucket B db' = b_bucket B db"
proof (induction ks arbitrary: db)
  case (Cons k ks)
  then obtain db1 where d: "b_delete B n k db = Some db1" "delete_rows B n ks db1 = Some db'" by (auto split: option.splits)
  have "delete_in B n k db = Some db1" using d(1) Cons.prems(2) by (simp add: delete_in_def)
  note r = delete_in_reads [OF assms this]
  from Cons.IH [OF d(2)] r Cons.prems(2) show ?case by (auto simp: fun_eq_iff)
qed (simp add: fun_eq_iff)

lemma delete_reads:
  assumes "bolt_ok B" "b_delete B n k db = Some db'" "b_bucket B db n"
  shows "bget B db' = (bget B db)(n := (bget B db n)(k := None))" "b_bucket B db' = b_bucket B db"
proof -
  have "delete_in B n k db = Some db'" using assms(2,3) by (simp add: delete_in_def)
  from delete_in_reads [OF assms(1) this]
  show "bget B db' = (bget B db)(n := (bget B db n)(k := None))" "b_bucket B db' = b_bucket B db" by simp_all
qed

lemma bucket_rows:
  assumes "bolt_ok B" "b_bucket B db n"
  shows "kv_ok (b_rows B db n)" "map_of (b_rows B db n) k = bget B db n k"
    "(k, v) \<in> set (b_rows B db n) \<longleftrightarrow> bget B db n k = Some v"
proof -
  have rows: "b_rows B db n = rows_in B db n" using assms(2) by (simp add: rows_in_def)
  show ok: "kv_ok (b_rows B db n)" and m: "map_of (b_rows B db n) k = bget B db n k" for k
    using rows_in_reads [OF assms(1)] rows by simp_all
  show "(k, v) \<in> set (b_rows B db n) \<longleftrightarrow> bget B db n k = Some v" using kv_mem_iff [OF ok, of k v] m by simp
qed

lemma decode_all_Some:
  assumes "\<And>k v. (k, v) \<in> set rows \<Longrightarrow> dec v \<noteq> None"
  shows "decode_all dec rows = Some (map (\<lambda>(k, v). (k, the (dec v))) rows)"
  using assms by (induction dec rows rule: decode_all.induct) (auto split: option.splits, blast+)

lemma decode_all_the: "decode_all dec rows = Some rs \<Longrightarrow> rs = map (\<lambda>(k, v). (k, the (dec v))) rows \<and> (\<forall>(k, v)\<in>set rows. dec v \<noteq> None)"
proof (induction dec rows arbitrary: rs rule: decode_all.induct)
  case (2 dec k v rows)
  then obtain r rs' where r: "dec v = Some r" "decode_all dec rows = Some rs'" "rs = (k, r) # rs'"
    by (auto split: option.splits)
  from 2(1) [OF r(1,2)] r show ?case by simp
qed simp

lemma map_add_rev_Cons: "m ++ map_of (rev ((k, u) # us)) = m(k \<mapsto> u) ++ map_of (rev us)"
  by (auto simp: fun_eq_iff map_add_def split: option.split)

text \<open>Writing back the rows a function changes is mapping the function over the map.\<close>

lemma map_add_updates:
  assumes "distinct (map fst rows)" "\<And>k r. (k, r) \<in> set rows \<longleftrightarrow> m k = Some r" "\<And>r. \<not> P r \<Longrightarrow> f r = r"
  shows "m ++ map_of (rev (map (\<lambda>(k, r). (k, f r)) (filter (\<lambda>(k, r). P r) rows))) = (\<lambda>k. map_option f (m k))"
proof
  fix k
  let ?us = "map (\<lambda>(k, r). (k, f r)) (filter (\<lambda>(k, r). P r) rows)"
  have fst: "map fst ?us = map fst (filter (\<lambda>(k, r). P r) rows)" by (simp add: case_prod_beta)
  have d: "distinct (map fst ?us)" unfolding fst using assms(1) by (simp add: distinct_map_filter)
  have mem: "map_of (rev ?us) k = Some v \<longleftrightarrow> (k, v) \<in> set ?us" for v
    using d distinct_mem_map_of [of "rev ?us"] by (simp add: rev_map [symmetric])
  show "(m ++ map_of (rev ?us)) k = map_option f (m k)"
  proof (cases "\<exists>r. m k = Some r \<and> P r")
    case True
    then obtain r where r: "m k = Some r" "P r" by blast
    then have "(k, f r) \<in> set ?us" using assms(2) by force
    then have "map_of (rev ?us) k = Some (f r)" using mem by blast
    with r(1) show ?thesis by (simp add: map_add_def)
  next
    case False
    then have "(k, v) \<notin> set ?us" for v using assms(2) by auto
    then have "map_of (rev ?us) k = None" using mem by (cases "map_of (rev ?us) k") auto
    with False assms(3) show ?thesis by (cases "m k") (auto simp: map_add_def)
  qed
qed

section \<open>Following a specification\<close>

text \<open>
  A call on a store follows its specification: it yields a store in the specified state, or fails
  with the specified error, or the database failed (\<open>tx\<close>).  \<open>R st db\<close> says that the database holds
  the state \<open>st\<close>; all a store has to show is that this depends on what can be read.
\<close>

definition follows :: "('st \<Rightarrow> 'db \<Rightarrow> bool) \<Rightarrow> 'e \<Rightarrow> 'e + 'db \<Rightarrow> 'e + 'st \<Rightarrow> bool" where
  "follows R tx x s \<longleftrightarrow>
     (case x of Inr db' \<Rightarrow> (case s of Inl e \<Rightarrow> False | Inr st \<Rightarrow> R st db') | Inl e \<Rightarrow> e = tx \<or> s = Inl e)"

lemma just_db_case: "just_db (case x of None \<Rightarrow> Inl e | Some d \<Rightarrow> Inr (a, d)) = or_err e x"
  by (auto simp: just_db_def or_err_def split: option.split)

locale tx_store =
  fixes B :: "('db, 'v) bolt" and tx :: 'e and R :: "'st \<Rightarrow> 'db \<Rightarrow> bool"
  assumes R_cong: "bget B db' = bget B db \<Longrightarrow> b_bucket B db' = b_bucket B db \<Longrightarrow> R st db' = R st db"
begin

lemma follow_Inl: "follows R tx (Inl e) (Inl e)"
  by (simp add: follows_def)

lemma follow_Inr: "R st db \<Longrightarrow> follows R tx (Inr db) (Inr st)"
  by (simp add: follows_def)

lemma follow_or: "(\<And>db1. x = Some db1 \<Longrightarrow> R st db1) \<Longrightarrow> follows R tx (or_err tx x) (Inr st)"
  by (auto simp: follows_def or_err_def split: option.splits)

lemma follow_transact:
  assumes "bolt_ok B" "follows R tx (f db) s"
  shows "follows R tx (transact B tx f db) s"
proof (cases "transact B tx f db")
  case (Inl e)
  then show ?thesis using transact_Inl [OF Inl] assms(2) by (cases "e = tx") (auto simp: follows_def)
next
  case (Inr db')
  from transact_Inr [OF assms(1) Inr] obtain db1 where
    "f db = Inr db1" "bget B db' = bget B db1" "b_bucket B db' = b_bucket B db1" .
  with assms(2) Inr R_cong [of db' db1] show ?thesis by (auto simp: follows_def split: sum.splits)
qed

lemma follow_transact_ret:
  assumes "bolt_ok B" "follows R tx (just_db (f db)) s"
  shows "follows R tx (just_db (transact_ret B tx f db)) s"
proof -
  have "just_db (transact_ret B tx f db) = transact B tx (\<lambda>db. just_db (f db)) db"
    by (auto simp: just_db_def transact_def transact_ret_def split: sum.splits option.splits)
  then show ?thesis using follow_transact [OF assms(1), of "\<lambda>db. just_db (f db)"] assms(2) by simp
qed

lemma follow_then:
  assumes "follows R tx x (Inr st1)" "\<And>db1. R st1 db1 \<Longrightarrow> follows R tx (g db1) s"
  shows "follows R tx (case x of Inl e \<Rightarrow> Inl e | Inr db1 \<Rightarrow> g db1) s"
  using assms by (cases x) (auto simp: follows_def)

end

section \<open>Databases that do not fail\<close>

definition bolt_works :: "('db, 'v) bolt \<Rightarrow> bool" where
  "bolt_works B \<longleftrightarrow>
     (\<forall>n k v db. b_bucket B db n \<longrightarrow> b_put B n k v db \<noteq> None) \<and>
     (\<forall>n k db. b_bucket B db n \<longrightarrow> b_delete B n k db \<noteq> None) \<and> (\<forall>db. b_commit B db \<noteq> None)"

lemma bolt_worksD:
  assumes "bolt_works B"
  shows "b_bucket B db n \<Longrightarrow> b_put B n k v db \<noteq> None" "b_bucket B db n \<Longrightarrow> b_delete B n k db \<noteq> None"
    "b_commit B db \<noteq> None"
  using assms by (auto simp: bolt_works_def)

lemma transact_works: "bolt_works B \<Longrightarrow> transact B tx f db = Inl e \<Longrightarrow> f db = Inl e"
  by (cases "f db") (auto simp: transact_def dest: bolt_worksD(3) split: option.splits)

lemma mem_bolt_works: "bolt_works mem_bolt"
  by (auto simp: bolt_works_def mem_bolt_def)

text \<open>A database handle whose next commit fails, for the fault of one call.\<close>

definition faulty :: "bool \<Rightarrow> ('db, 'v) bolt \<Rightarrow> ('db, 'v) bolt" where
  "faulty fails B = (if fails then B\<lparr>b_commit := \<lambda>_. None\<rparr> else B)"

lemma faulty_reads [simp]:
  "b_bucket (faulty f B) = b_bucket B" "b_get (faulty f B) = b_get B" "b_rows (faulty f B) = b_rows B"
  "b_names (faulty f B) = b_names B" "bget (faulty f B) = bget B" "bview (faulty f B) = bview B"
  by (simp_all add: faulty_def bget_def bview_def fun_eq_iff)

lemma faulty_ok: "bolt_ok B \<Longrightarrow> bolt_ok (faulty f B)"
  unfolding bolt_ok_def faulty_reads by (cases f) (simp_all add: faulty_def)

lemma faulty_False [simp]: "faulty False B = B"
  by (simp add: faulty_def)

end
