(* ===== verification/OAuth_Store.thy ===== *)
theory OAuth_Store
  imports Bolt_Tx Go_Runes Go_Codec "HOL-Library.Word"
begin

text \<open>
  Package \<open>oauthstore\<close> (\<open>pkg/oauthstore/oauthstore.go\<close>, \<open>registrations.go\<close>, \<open>domain.go\<close>): authorization
  codes, token series, registered clients and registration entries, in seven buckets of one
  database.  Handles are kept only as their SHA-256.  Random handles are arguments (absent when the
  random source fails); \<open>lower\<close> and \<open>ufold\<close> are Unicode's tables of lower case and of simple folding,
  \<open>parse_url\<close> is \<open>url.Parse\<close> with the scheme, the host and its \<open>Hostname()\<close>.  The counters for metrics
  are left out.
\<close>

section \<open>Records\<close>

record code_rec =
  cr_ClientID :: string
  cr_RedirectURI :: string
  cr_CodeChallenge :: string
  cr_CodeChallengeMethod :: string
  cr_Resource :: string
  cr_PrincipalName :: string
  cr_PrincipalEmail :: string
  cr_Expiry :: int

record series =
  sr_SeriesID :: string
  sr_Name :: string
  sr_AccessTokenHash :: string
  sr_RefreshTokenHash :: string
  sr_ClientID :: string
  sr_PrincipalName :: string
  sr_PrincipalEmail :: string
  sr_Resource :: string
  sr_IssuedAt :: int
  sr_AccessExpiry :: int
  sr_RefreshExpiry :: int
  sr_Scope :: string
  sr_ExtraPermissions :: string

record reg_client =
  rc_ClientID :: string
  rc_RedirectURIs :: "string list"
  rc_TokenEndpointAuthMethod :: string
  rc_ClientName :: string
  rc_GrantTypes :: "string list"
  rc_ResponseTypes :: "string list"
  rc_ClientIDIssuedAt :: int
  rc_Domain :: string

record entry_ttl =
  et_AccessSeconds :: int
  et_RefreshSeconds :: int

record reg_entry =
  re_ID :: string
  re_RegistrationMode :: string
  re_Identifier :: string
  re_Name :: string
  re_CreatedAt :: int
  re_TTL :: "entry_ttl option"
  re_Consent :: "string option"
  re_Secret :: "string option"
  re_Scope :: string
  re_ExpiresAt :: int

text \<open>
  A row of the series bucket in the layout before hashing carries the two raw tokens, which every
  later write of the row drops; the rows of the handle buckets and of \<open>meta\<close> are plain text.
\<close>

datatype os_row =
  SeriesRow string string series | CodeRow code_rec | IdRow string | ClientRow reg_client | EntryRow reg_entry | OsText string

datatype os_err =
  OsNotFound | OsExpired | OsRand | OsDecode | OsTx | OsMkdir | OsOpen | OsBadMode | OsNoIdentifier | OsBadValidity | OsNotDomain

definition codesBucket :: string where
  "codesBucket = ''codes''"

definition seriesBucket :: string where
  "seriesBucket = ''series''"

definition accessBucket :: string where
  "accessBucket = ''access''"

definition refreshBucket :: string where
  "refreshBucket = ''refresh''"

definition clientsBucket :: string where
  "clientsBucket = ''clients''"

definition os_metaBucket :: string where
  "os_metaBucket = ''meta''"

definition registrationsBucket :: string where
  "registrationsBucket = ''registrations''"

definition migrationKeyTokensHashed :: string where
  "migrationKeyTokensHashed = ''tokens_hashed_v1''"

definition migrationKeyRegistrationsSeeded :: string where
  "migrationKeyRegistrationsSeeded = ''registrations_seeded_v1''"

definition hashHandle :: "string \<Rightarrow> string" where
  "hashHandle handle = (if handle = [] then [] else sha256Hex handle)"

text \<open>\<open>strings.EqualFold\<close>: the runes agree up to simple folding.\<close>

definition go_EqualFold :: "(nat \<Rightarrow> nat) \<Rightarrow> string \<Rightarrow> string \<Rightarrow> bool" where
  "go_EqualFold ufold s t = (map ufold (runes s) = map ufold (runes t))"

definition series_of :: "os_row \<Rightarrow> series option" where
  "series_of v = (case v of SeriesRow a r s \<Rightarrow> Some s | _ \<Rightarrow> None)"

definition code_of :: "os_row \<Rightarrow> code_rec option" where
  "code_of v = (case v of CodeRow c \<Rightarrow> Some c | _ \<Rightarrow> None)"

definition client_of :: "os_row \<Rightarrow> reg_client option" where
  "client_of v = (case v of ClientRow c \<Rightarrow> Some c | _ \<Rightarrow> None)"

definition entry_of :: "os_row \<Rightarrow> reg_entry option" where
  "entry_of v = (case v of EntryRow e \<Rightarrow> Some e | _ \<Rightarrow> None)"

text \<open>The bytes of a handle row.\<close>

definition id_of :: "os_row option \<Rightarrow> string option" where
  "id_of v = (case v of Some (IdRow s) \<Rightarrow> Some s | Some (OsText s) \<Rightarrow> Some s | _ \<Rightarrow> None)"

text \<open>What is written of a series: the raw tokens are never part of it.\<close>

definition series_row :: "series \<Rightarrow> os_row" where
  "series_row s = SeriesRow [] [] s"

section \<open>Codes\<close>

definition PutCode :: "('db, os_row) bolt \<Rightarrow> string \<Rightarrow> code_rec \<Rightarrow> 'db \<Rightarrow> os_err + 'db" where
  "PutCode B code rec =
     transact B OsTx (\<lambda>db. or_err OsTx (b_put B codesBucket (hashHandle code) (CodeRow rec) db))"

text \<open>The code is deleted by a transaction that succeeds; expiry is decided after it.\<close>

definition TakeCode :: "('db, os_row) bolt \<Rightarrow> int \<Rightarrow> string \<Rightarrow> 'db \<Rightarrow> os_err + (os_err + code_rec) \<times> 'db" where
  "TakeCode B now code =
     transact_ret B OsTx
       (\<lambda>db. case b_get B db codesBucket (hashHandle code) of
               None \<Rightarrow> Inl OsNotFound
             | Some v \<Rightarrow>
                 (case code_of v of
                    None \<Rightarrow> Inl OsDecode
                  | Some rec \<Rightarrow>
                      (case b_delete B codesBucket (hashHandle code) db of
                         None \<Rightarrow> Inl OsTx
                       | Some db1 \<Rightarrow> Inr (if now > cr_Expiry rec then Inl OsExpired else Inr rec, db1))))"

section \<open>Series\<close>

definition delete_unless :: "('db, os_row) bolt \<Rightarrow> string \<Rightarrow> string \<Rightarrow> string \<Rightarrow> 'db \<Rightarrow> 'db option" where
  "delete_unless B n old new db = (if old \<noteq> [] \<and> old \<noteq> new then b_delete B n old db else Some db)"

definition putSeriesTx ::
    "('db, os_row) bolt \<Rightarrow> series \<Rightarrow> string \<Rightarrow> string \<Rightarrow> 'db \<Rightarrow> 'db option" where
  "putSeriesTx B rec oldAccessHash oldRefreshHash db =
     (case b_put B seriesBucket (sr_SeriesID rec) (series_row rec) db of
        None \<Rightarrow> None
      | Some db1 \<Rightarrow>
          (case delete_unless B accessBucket oldAccessHash (sr_AccessTokenHash rec) db1 of
             None \<Rightarrow> None
           | Some db2 \<Rightarrow>
               (case delete_unless B refreshBucket oldRefreshHash (sr_RefreshTokenHash rec) db2 of
                  None \<Rightarrow> None
                | Some db3 \<Rightarrow>
                    (case b_put B accessBucket (sr_AccessTokenHash rec) (IdRow (sr_SeriesID rec)) db3 of
                       None \<Rightarrow> None
                     | Some db4 \<Rightarrow> b_put B refreshBucket (sr_RefreshTokenHash rec) (IdRow (sr_SeriesID rec)) db4))))"

definition deleteSeries :: "('db, os_row) bolt \<Rightarrow> series \<Rightarrow> 'db \<Rightarrow> 'db option" where
  "deleteSeries B rec db =
     (case b_delete B seriesBucket (sr_SeriesID rec) db of
        None \<Rightarrow> None
      | Some db1 \<Rightarrow>
          (case b_delete B accessBucket (sr_AccessTokenHash rec) db1 of
             None \<Rightarrow> None | Some db2 \<Rightarrow> b_delete B refreshBucket (sr_RefreshTokenHash rec) db2))"

text \<open>The three handles of a new series: its id, the access token, the refresh token.\<close>

definition NewSeries ::
    "('db, os_row) bolt \<Rightarrow> int \<Rightarrow> (string \<times> string \<times> string) option \<Rightarrow> series \<Rightarrow> int \<Rightarrow> int \<Rightarrow> 'db \<Rightarrow>
     os_err + series \<times> 'db" where
  "NewSeries B now handles req accessTTL refreshTTL db =
     (case handles of
        None \<Rightarrow> Inl OsRand
      | Some (seriesID, access, refresh) \<Rightarrow>
          (let rec = req\<lparr>sr_SeriesID := seriesID, sr_AccessTokenHash := hashHandle access,
                        sr_RefreshTokenHash := hashHandle refresh, sr_IssuedAt := now,
                        sr_AccessExpiry := now + accessTTL, sr_RefreshExpiry := now + refreshTTL\<rparr> in
           transact_ret B OsTx
             (\<lambda>db. case putSeriesTx B rec [] [] db of None \<Rightarrow> Inl OsTx | Some db1 \<Rightarrow> Inr (rec, db1)) db))"

definition read_series :: "('db, os_row) bolt \<Rightarrow> string \<Rightarrow> string \<Rightarrow> 'db \<Rightarrow> os_err + series" where
  "read_series B n h db =
     (case id_of (b_get B db n h) of
        None \<Rightarrow> Inl OsNotFound
      | Some sid \<Rightarrow>
          (case b_get B db seriesBucket sid of
             None \<Rightarrow> Inl OsNotFound | Some v \<Rightarrow> or_err OsDecode (series_of v)))"

definition Rotate ::
    "('db, os_row) bolt \<Rightarrow> int \<Rightarrow> (string \<times> string) option \<Rightarrow> string \<Rightarrow> int \<Rightarrow> int \<Rightarrow> 'db \<Rightarrow>
     os_err + (os_err + series) \<times> 'db" where
  "Rotate B now handles oldRefresh accessTTL refreshTTL =
     transact_ret B OsTx
       (\<lambda>db. case read_series B refreshBucket (hashHandle oldRefresh) db of
               Inl e \<Rightarrow> Inl e
             | Inr rec \<Rightarrow>
                 (if sr_RefreshTokenHash rec \<noteq> hashHandle oldRefresh then Inl OsNotFound
                  else if now > sr_RefreshExpiry rec
                  then (case deleteSeries B rec db of None \<Rightarrow> Inl OsTx | Some db1 \<Rightarrow> Inr (Inl OsExpired, db1))
                  else case handles of
                    None \<Rightarrow> Inl OsRand
                  | Some (newAccess, newRefresh) \<Rightarrow>
                      (let rec1 = rec\<lparr>sr_AccessTokenHash := hashHandle newAccess, sr_RefreshTokenHash := hashHandle newRefresh,
                                     sr_AccessExpiry := now + accessTTL, sr_RefreshExpiry := now + refreshTTL\<rparr> in
                       case putSeriesTx B rec1 (sr_AccessTokenHash rec) (hashHandle oldRefresh) db of
                         None \<Rightarrow> Inl OsTx | Some db1 \<Rightarrow> Inr (Inr rec1, db1))))"

definition Lookup :: "('db, os_row) bolt \<Rightarrow> int \<Rightarrow> string \<Rightarrow> 'db \<Rightarrow> os_err + series" where
  "Lookup B now accessToken db =
     (case read_series B accessBucket (hashHandle accessToken) db of
        Inl e \<Rightarrow> Inl e
      | Inr rec \<Rightarrow>
          (if sr_AccessTokenHash rec \<noteq> hashHandle accessToken then Inl OsNotFound
           else if now > sr_AccessExpiry rec then Inl OsExpired
           else Inr rec))"

definition RefreshClientID :: "('db, os_row) bolt \<Rightarrow> string \<Rightarrow> 'db \<Rightarrow> string option" where
  "RefreshClientID B refreshToken db =
     (case read_series B refreshBucket (hashHandle refreshToken) db of
        Inl e \<Rightarrow> None
      | Inr rec \<Rightarrow> (if sr_RefreshTokenHash rec \<noteq> hashHandle refreshToken then None else Some (sr_ClientID rec)))"

definition os_List :: "('db, os_row) bolt \<Rightarrow> 'db \<Rightarrow> os_err + series list" where
  "os_List B db =
     (case decode_all series_of (b_rows B db seriesBucket) of None \<Rightarrow> Inl OsDecode | Some ss \<Rightarrow> Inr (map snd ss))"

definition os_Revoke :: "('db, os_row) bolt \<Rightarrow> string \<Rightarrow> 'db \<Rightarrow> os_err + 'db" where
  "os_Revoke B seriesID =
     transact B OsTx
       (\<lambda>db. case b_get B db seriesBucket seriesID of
               None \<Rightarrow> Inr db
             | Some v \<Rightarrow>
                 (case series_of v of
                    None \<Rightarrow> or_err OsTx (b_delete B seriesBucket seriesID db)
                  | Some rec \<Rightarrow> or_err OsTx (deleteSeries B rec db)))"

text \<open>The scans that revoke: collect the series that match, then delete them.\<close>

fun delete_all_series :: "('db, os_row) bolt \<Rightarrow> series list \<Rightarrow> 'db \<Rightarrow> 'db option" where
  "delete_all_series B [] db = Some db"
| "delete_all_series B (s # ss) db =
     (case deleteSeries B s db of None \<Rightarrow> None | Some db1 \<Rightarrow> delete_all_series B ss db1)"

definition revoke_where :: "('db, os_row) bolt \<Rightarrow> (series \<Rightarrow> bool) \<Rightarrow> 'db \<Rightarrow> os_err + nat \<times> 'db" where
  "revoke_where B P db =
     (case decode_all series_of (b_rows B db seriesBucket) of
        None \<Rightarrow> Inl OsDecode
      | Some ss \<Rightarrow>
          (let dead = filter P (map snd ss) in
           case delete_all_series B dead db of None \<Rightarrow> Inl OsTx | Some db1 \<Rightarrow> Inr (length dead, db1)))"

definition RevokeByPrincipalEmail ::
    "('db, os_row) bolt \<Rightarrow> (nat \<Rightarrow> nat) \<Rightarrow> (nat \<Rightarrow> nat) \<Rightarrow> string \<Rightarrow> 'db \<Rightarrow> os_err + nat \<times> 'db" where
  "RevokeByPrincipalEmail B lower ufold email db =
     (let target = go_ToLower lower (trim_space email) in
      if target = [] then Inr (0, db)
      else
        transact_ret B OsTx
          (\<lambda>db. case revoke_where B (\<lambda>s. go_EqualFold ufold (trim_space (sr_PrincipalEmail s)) target) db of
                  Inl e \<Rightarrow> Inl e
                | Inr (n, db1) \<Rightarrow>
                    (let dead = map fst (filter (\<lambda>(k, v). case code_of v of
                           None \<Rightarrow> False
                         | Some c \<Rightarrow> go_EqualFold ufold (trim_space (cr_PrincipalEmail c)) target) (b_rows B db1 codesBucket)) in
                     case delete_rows B codesBucket dead db1 of None \<Rightarrow> Inl OsTx | Some db2 \<Rightarrow> Inr (n, db2))) db)"

definition DeleteDeadSeries :: "('db, os_row) bolt \<Rightarrow> int \<Rightarrow> 'db \<Rightarrow> os_err + nat \<times> 'db" where
  "DeleteDeadSeries B now = transact_ret B OsTx (revoke_where B (\<lambda>s. now > sr_RefreshExpiry s))"

definition RevokeByClientID :: "('db, os_row) bolt \<Rightarrow> string \<Rightarrow> 'db \<Rightarrow> os_err + nat \<times> 'db" where
  "RevokeByClientID B clientID db =
     (let cid = trim_space clientID in
      if cid = [] then Inr (0, db)
      else transact_ret B OsTx (revoke_where B (\<lambda>s. sr_ClientID s = cid)) db)"

definition os_RewriteScopes :: "('db, os_row) bolt \<Rightarrow> (string \<Rightarrow> string) \<Rightarrow> 'db \<Rightarrow> os_err + nat \<times> 'db" where
  "os_RewriteScopes B fn =
     transact_ret B OsTx
       (\<lambda>db. case decode_all series_of (b_rows B db seriesBucket) of
               None \<Rightarrow> Inl OsDecode
             | Some ss \<Rightarrow>
                 (let upd = scope_updates sr_Scope (\<lambda>sc s. series_row (s\<lparr>sr_Scope := sc\<rparr>)) fn ss in
                  case put_rows B seriesBucket upd db of None \<Rightarrow> Inl OsTx | Some db1 \<Rightarrow> Inr (length upd, db1)))"

section \<open>Registered clients\<close>

definition PutClient :: "('db, os_row) bolt \<Rightarrow> reg_client \<Rightarrow> 'db \<Rightarrow> os_err + 'db" where
  "PutClient B rec = transact B OsTx (\<lambda>db. or_err OsTx (b_put B clientsBucket (rc_ClientID rec) (ClientRow rec) db))"

definition GetClient :: "('db, os_row) bolt \<Rightarrow> string \<Rightarrow> 'db \<Rightarrow> os_err + reg_client" where
  "GetClient B clientID db =
     (case b_get B db clientsBucket clientID of None \<Rightarrow> Inl OsNotFound | Some v \<Rightarrow> or_err OsDecode (client_of v))"


section \<open>Hashing the tokens of an old store\<close>

definition migrate_row :: "('db, os_row) bolt \<Rightarrow> string \<Rightarrow> string \<Rightarrow> string \<Rightarrow> series \<Rightarrow> 'db \<Rightarrow> 'db option" where
  "migrate_row B k rawAccess rawRefresh s db =
     (let rec = s\<lparr>sr_AccessTokenHash := hashHandle rawAccess, sr_RefreshTokenHash := hashHandle rawRefresh\<rparr> in
      case b_put B seriesBucket k (series_row rec) db of
        None \<Rightarrow> None
      | Some db1 \<Rightarrow>
          (case (if rawAccess \<noteq> [] then b_delete B accessBucket rawAccess db1 else Some db1) of
             None \<Rightarrow> None
           | Some db2 \<Rightarrow>
               (case b_put B accessBucket (hashHandle rawAccess) (IdRow k) db2 of
                  None \<Rightarrow> None
                | Some db3 \<Rightarrow>
                    (case (if rawRefresh \<noteq> [] then b_delete B refreshBucket rawRefresh db3 else Some db3) of
                       None \<Rightarrow> None
                     | Some db4 \<Rightarrow> b_put B refreshBucket (hashHandle rawRefresh) (IdRow k) db4))))"

fun migrate_rows :: "('db, os_row) bolt \<Rightarrow> (string \<times> string \<times> string \<times> series) list \<Rightarrow> 'db \<Rightarrow> 'db option" where
  "migrate_rows B [] db = Some db"
| "migrate_rows B ((k, a, r, s) # rows) db =
     (if a = [] \<and> r = [] then migrate_rows B rows db
      else case migrate_row B k a r s db of None \<Rightarrow> None | Some db1 \<Rightarrow> migrate_rows B rows db1)"

definition raw_series_of :: "os_row \<Rightarrow> (string \<times> string \<times> series) option" where
  "raw_series_of v = (case v of SeriesRow a r s \<Rightarrow> Some (a, r, s) | _ \<Rightarrow> None)"

definition migrateHashTokensAtRest :: "('db, os_row) bolt \<Rightarrow> 'db \<Rightarrow> os_err + 'db" where
  "migrateHashTokensAtRest B =
     transact B OsTx
       (\<lambda>db. if b_get B db os_metaBucket migrationKeyTokensHashed \<noteq> None then Inr db
             else case decode_all raw_series_of (b_rows B db seriesBucket) of
               None \<Rightarrow> Inl OsDecode
             | Some rows \<Rightarrow>
                 (case migrate_rows B rows db of
                    None \<Rightarrow> Inl OsTx
                  | Some db1 \<Rightarrow>
                      (case delete_rows B codesBucket (map fst (b_rows B db1 codesBucket)) db1 of
                         None \<Rightarrow> Inl OsTx
                       | Some db2 \<Rightarrow> or_err OsTx (b_put B os_metaBucket migrationKeyTokensHashed (OsText ''1'') db2))))"

definition os_Open :: "('db, os_row) bolt \<Rightarrow> bool \<Rightarrow> 'db open_res \<Rightarrow> os_err + 'db" where
  "os_Open B mkdir_ok opened =
     (if \<not> mkdir_ok then Inl OsMkdir
      else case opened of
        Opened db \<Rightarrow>
          (case transact B OsTx
                  (\<lambda>db. or_err OsTx (create_all B [codesBucket, seriesBucket, accessBucket, refreshBucket, clientsBucket,
                                                  os_metaBucket, registrationsBucket] db)) db of
             Inl e \<Rightarrow> Inl e | Inr db1 \<Rightarrow> migrateHashTokensAtRest B db1)
      | _ \<Rightarrow> Inl OsOpen)"

section \<open>Registration entries\<close>

definition RegistrationModeDomain :: string where
  "RegistrationModeDomain = ''domain''"

definition RegistrationModeConfidential :: string where
  "RegistrationModeConfidential = ''confidential''"

definition validRegistrationMode :: "string \<Rightarrow> bool" where
  "validRegistrationMode m \<longleftrightarrow> m = RegistrationModeDomain \<or> m = RegistrationModeConfidential"

text \<open>\<open>time.Duration(secs) * time.Second\<close> in 64 bits.\<close>

definition seconds64 :: "int \<Rightarrow> int" where
  "seconds64 secs = sint ((word_of_int secs :: 64 word) * 1000000000)"

definition EffectiveTTL :: "reg_entry \<Rightarrow> int \<Rightarrow> int \<Rightarrow> int \<times> int" where
  "EffectiveTTL e defaultAccess defaultRefresh =
     (case re_TTL e of
        None \<Rightarrow> (defaultAccess, defaultRefresh)
      | Some t \<Rightarrow>
          (if seconds64 (et_AccessSeconds t) > 0 then seconds64 (et_AccessSeconds t) else defaultAccess,
           if seconds64 (et_RefreshSeconds t) > 0 then seconds64 (et_RefreshSeconds t) else defaultRefresh))"

definition SetConsent :: "string \<Rightarrow> reg_entry \<Rightarrow> reg_entry" where
  "SetConsent val e = e\<lparr>re_Consent := (if val = [] then None else Some val)\<rparr>"

definition VerifyConsent :: "reg_entry \<Rightarrow> string \<Rightarrow> bool" where
  "VerifyConsent e presented =
     (case re_Consent e of
        None \<Rightarrow> False | Some val \<Rightarrow> (if val = [] \<or> presented = [] then False else presented = val))"

definition SetSecret :: "string \<Rightarrow> reg_entry \<Rightarrow> reg_entry" where
  "SetSecret secret e = e\<lparr>re_Secret := (if secret = [] then None else Some (hashHandle secret))\<rparr>"

definition VerifySecret :: "reg_entry \<Rightarrow> string \<Rightarrow> bool" where
  "VerifySecret e presented =
     (case re_Secret e of
        None \<Rightarrow> False | Some h \<Rightarrow> (if h = [] \<or> presented = [] then False else hashHandle presented = h))"

definition CredentialExpired :: "reg_entry \<Rightarrow> int \<Rightarrow> bool" where
  "CredentialExpired e now = (re_ExpiresAt e = 0 \<or> \<not> now < re_ExpiresAt e)"

definition new_entry :: "string \<Rightarrow> string \<Rightarrow> string \<Rightarrow> int \<Rightarrow> reg_entry" where
  "new_entry eid mode identifier now =
     \<lparr>re_ID = eid, re_RegistrationMode = mode, re_Identifier = identifier, re_Name = [], re_CreatedAt = now,
      re_TTL = None, re_Consent = None, re_Secret = None, re_Scope = [], re_ExpiresAt = 0\<rparr>"

definition put_entry :: "('db, os_row) bolt \<Rightarrow> reg_entry \<Rightarrow> 'db \<Rightarrow> os_err + 'db" where
  "put_entry B e db = or_err OsTx (b_put B registrationsBucket (re_ID e) (EntryRow e) db)"

definition CreateRegistration ::
    "('db, os_row) bolt \<Rightarrow> int \<Rightarrow> string option \<Rightarrow> string \<Rightarrow> string \<Rightarrow> 'db \<Rightarrow> os_err + 'db" where
  "CreateRegistration B now handle mode identifier0 db =
     (if \<not> validRegistrationMode mode then Inl OsBadMode
      else (let identifier = trim_space identifier0 in
        if identifier = [] then Inl OsNoIdentifier
        else case handle of
          None \<Rightarrow> Inl OsRand
        | Some eid \<Rightarrow> transact B OsTx (put_entry B (new_entry eid mode identifier now)) db))"

text \<open>Handles: the entry's id, the client id and the raw secret.\<close>

definition IssueConfidentialClient ::
    "('db, os_row) bolt \<Rightarrow> int \<Rightarrow> (string \<times> string \<times> string) option \<Rightarrow> string \<Rightarrow> string \<Rightarrow> int \<Rightarrow> 'db \<Rightarrow>
     os_err + reg_entry \<times> 'db" where
  "IssueConfidentialClient B now handles scope name validity db =
     (if validity \<le> 0 then Inl OsBadValidity
      else case handles of
        None \<Rightarrow> Inl OsRand
      | Some (eid, clientID, rawSecret) \<Rightarrow>
          (let e = SetSecret rawSecret ((new_entry eid RegistrationModeConfidential clientID now)
                     \<lparr>re_Name := trim_space name, re_Scope := trim_space scope, re_ExpiresAt := now + validity\<rparr>) in
           transact_ret B OsTx
             (\<lambda>db. case put_entry B e db of Inl err \<Rightarrow> Inl err | Inr db1 \<Rightarrow> Inr (e, db1)) db))"

definition ConfidentialClient :: "('db, os_row) bolt \<Rightarrow> string \<Rightarrow> 'db \<Rightarrow> reg_entry option" where
  "ConfidentialClient B clientID0 db =
     (let clientID = trim_space clientID0;
          found = filter (\<lambda>e. re_RegistrationMode e = RegistrationModeConfidential \<and> re_Identifier e = clientID)
                    (List.map_filter (entry_of \<circ> snd) (b_rows B db registrationsBucket)) in
      if clientID = [] \<or> found = [] then None else Some (last found))"

definition ListRegistrations :: "('db, os_row) bolt \<Rightarrow> 'db \<Rightarrow> os_err + reg_entry list" where
  "ListRegistrations B db =
     (case decode_all entry_of (b_rows B db registrationsBucket) of None \<Rightarrow> Inl OsDecode | Some es \<Rightarrow> Inr (map snd es))"

definition GetRegistration :: "('db, os_row) bolt \<Rightarrow> string \<Rightarrow> 'db \<Rightarrow> os_err + reg_entry" where
  "GetRegistration B eid db =
     (case b_get B db registrationsBucket eid of None \<Rightarrow> Inl OsNotFound | Some v \<Rightarrow> or_err OsDecode (entry_of v))"

definition UpdateRegistration :: "('db, os_row) bolt \<Rightarrow> reg_entry \<Rightarrow> 'db \<Rightarrow> os_err + 'db" where
  "UpdateRegistration B e db =
     (if \<not> validRegistrationMode (re_RegistrationMode e) then Inl OsBadMode
      else if trim_space (re_Identifier e) = [] then Inl OsNoIdentifier
      else transact B OsTx
             (\<lambda>db. if b_get B db registrationsBucket (re_ID e) = None then Inl OsNotFound else put_entry B e db) db)"

definition GenerateDomainConsent :: "('db, os_row) bolt \<Rightarrow> string option \<Rightarrow> string \<Rightarrow> 'db \<Rightarrow> os_err + 'db" where
  "GenerateDomainConsent B handle eid db =
     (case GetRegistration B eid db of
        Inl e \<Rightarrow> Inl e
      | Inr e \<Rightarrow>
          (if re_RegistrationMode e \<noteq> RegistrationModeDomain then Inl OsNotDomain
           else case handle of None \<Rightarrow> Inl OsRand | Some val \<Rightarrow> UpdateRegistration B (SetConsent val e) db))"

definition DeleteRegistration :: "('db, os_row) bolt \<Rightarrow> string \<Rightarrow> 'db \<Rightarrow> os_err + 'db" where
  "DeleteRegistration B eid = transact B OsTx (\<lambda>db. or_err OsTx (b_delete B registrationsBucket eid db))"

text \<open>\<open>int64(d / time.Second)\<close>: division rounds towards zero.\<close>

definition whole_seconds :: "int \<Rightarrow> int" where
  "whole_seconds d = (if d < 0 then - ((- d) div 1000000000) else d div 1000000000)"

fun seed_domains ::
    "('db, os_row) bolt \<Rightarrow> int \<Rightarrow> string \<Rightarrow> int \<Rightarrow> int \<Rightarrow> string list \<Rightarrow> string list \<Rightarrow> 'db \<Rightarrow> os_err + 'db" where
  "seed_domains B now consent attl rttl [] handles db = Inr db"
| "seed_domains B now consent attl rttl (d0 # ds) handles db =
     (let d = trim_space d0 in
      if d = [] then seed_domains B now consent attl rttl ds handles db
      else case handles of
        [] \<Rightarrow> Inl OsRand
      | eid # hs \<Rightarrow>
          (let e0 = SetConsent consent (new_entry eid RegistrationModeDomain d now);
               e = (if attl > 0 \<or> rttl > 0
                    then e0\<lparr>re_TTL := Some \<lparr>et_AccessSeconds = whole_seconds attl, et_RefreshSeconds = whole_seconds rttl\<rparr>\<rparr>
                    else e0) in
           case put_entry B e db of Inl err \<Rightarrow> Inl err | Inr db1 \<Rightarrow> seed_domains B now consent attl rttl ds hs db1))"

definition SeedDomainRegistrationsFromDomains ::
    "('db, os_row) bolt \<Rightarrow> int \<Rightarrow> string list \<Rightarrow> string list \<Rightarrow> string \<Rightarrow> int \<Rightarrow> int \<Rightarrow> 'db \<Rightarrow> os_err + 'db" where
  "SeedDomainRegistrationsFromDomains B now handles domains consent attl rttl =
     transact B OsTx
       (\<lambda>db. if b_get B db os_metaBucket migrationKeyRegistrationsSeeded \<noteq> None then Inr db
             else case seed_domains B now consent attl rttl domains handles db of
               Inl e \<Rightarrow> Inl e
             | Inr db1 \<Rightarrow> or_err OsTx (b_put B os_metaBucket migrationKeyRegistrationsSeeded (OsText ''1'') db1))"

section \<open>Domains\<close>

record url =
  url_Scheme :: string
  url_Host :: string
  url_Hostname :: string

type_synonym parse_url = "string \<Rightarrow> url option"

definition SelfIssuedClientID :: string where
  "SelfIssuedClientID = ''shoka-cli''"

definition cimdHost :: "parse_url \<Rightarrow> (nat \<Rightarrow> nat) \<Rightarrow> string \<Rightarrow> string" where
  "cimdHost parse lower clientID =
     (case parse clientID of
        None \<Rightarrow> []
      | Some u \<Rightarrow>
          (if url_Scheme u \<noteq> ''https'' \<or> url_Host u = [] then [] else go_ToLower lower (url_Hostname u)))"

fun shared_host :: "parse_url \<Rightarrow> (nat \<Rightarrow> nat) \<Rightarrow> string \<Rightarrow> string list \<Rightarrow> string" where
  "shared_host parse lower host [] = host"
| "shared_host parse lower host (ru # rus) =
     (case parse (trim_space ru) of
        None \<Rightarrow> shared_host parse lower host rus
      | Some u \<Rightarrow>
          (let h = go_ToLower lower (url_Hostname u) in
           if url_Host u = [] \<or> h = [] then shared_host parse lower host rus
           else if host = [] then shared_host parse lower h rus
           else if h \<noteq> host then []
           else shared_host parse lower host rus))"

definition DomainFromRedirectURIs :: "parse_url \<Rightarrow> (nat \<Rightarrow> nat) \<Rightarrow> string list \<Rightarrow> string" where
  "DomainFromRedirectURIs parse lower uris = shared_host parse lower [] uris"

definition clientDomain ::
    "('db, os_row) bolt \<Rightarrow> parse_url \<Rightarrow> (nat \<Rightarrow> nat) \<Rightarrow> string \<Rightarrow> 'db \<Rightarrow> (string \<times> string) option" where
  "clientDomain B parse lower clientID db =
     (if clientID = SelfIssuedClientID then None
      else (let h = cimdHost parse lower clientID in
        if h \<noteq> [] then Some (h, ''cimd'')
        else case GetClient B clientID db of
          Inl e \<Rightarrow> None
        | Inr c \<Rightarrow>
            (let d = (if rc_Domain c = [] then DomainFromRedirectURIs parse lower (rc_RedirectURIs c) else rc_Domain c) in
             if d = [] then None else Some (d, ''dcr''))))"

definition SeriesDomain ::
    "('db, os_row) bolt \<Rightarrow> parse_url \<Rightarrow> (nat \<Rightarrow> nat) \<Rightarrow> series \<Rightarrow> 'db \<Rightarrow> (string \<times> string) option" where
  "SeriesDomain B parse lower rec db = clientDomain B parse lower (sr_ClientID rec) db"

definition covers :: "string \<Rightarrow> string \<Rightarrow> bool" where
  "covers d host \<longleftrightarrow> host = d \<or> has_suffix host (''.'' @ d)"

fun best_entry :: "(nat \<Rightarrow> nat) \<Rightarrow> string \<Rightarrow> reg_entry option \<Rightarrow> reg_entry list \<Rightarrow> reg_entry option" where
  "best_entry lower host best [] = best"
| "best_entry lower host best (e # es) =
     (let d = go_ToLower lower (trim_space (re_Identifier e)) in
      if re_RegistrationMode e \<noteq> RegistrationModeDomain \<or> d = [] then best_entry lower host best es
      else if covers d host \<and> (case best of None \<Rightarrow> True | Some b \<Rightarrow> length d > length (re_Identifier b))
      then best_entry lower host (Some e) es
      else best_entry lower host best es)"

definition DomainEntryForHost :: "('db, os_row) bolt \<Rightarrow> (nat \<Rightarrow> nat) \<Rightarrow> string \<Rightarrow> 'db \<Rightarrow> reg_entry option" where
  "DomainEntryForHost B lower host0 db =
     (let host = go_ToLower lower (trim_space host0) in
      if host = [] then None
      else case ListRegistrations B db of Inl e \<Rightarrow> None | Inr es \<Rightarrow> best_entry lower host None es)"

definition TrustedDomain :: "('db, os_row) bolt \<Rightarrow> (nat \<Rightarrow> nat) \<Rightarrow> string \<Rightarrow> 'db \<Rightarrow> bool" where
  "TrustedDomain B lower host db = (DomainEntryForHost B lower host db \<noteq> None)"

definition DomainEntryForClient ::
    "('db, os_row) bolt \<Rightarrow> parse_url \<Rightarrow> (nat \<Rightarrow> nat) \<Rightarrow> string \<Rightarrow> 'db \<Rightarrow> reg_entry option" where
  "DomainEntryForClient B parse lower clientID db =
     (case clientDomain B parse lower clientID db of
        None \<Rightarrow> None | Some (d, p) \<Rightarrow> DomainEntryForHost B lower d db)"

definition clientDomainTx :: "('db, os_row) bolt \<Rightarrow> parse_url \<Rightarrow> (nat \<Rightarrow> nat) \<Rightarrow> 'db \<Rightarrow> string \<Rightarrow> string" where
  "clientDomainTx B parse lower db clientID =
     (if clientID = SelfIssuedClientID then []
      else (let h = cimdHost parse lower clientID in
        if h \<noteq> [] then h
        else case GetClient B clientID db of
          Inl e \<Rightarrow> []
        | Inr c \<Rightarrow>
            go_ToLower lower (if rc_Domain c \<noteq> [] then rc_Domain c else DomainFromRedirectURIs parse lower (rc_RedirectURIs c))))"

definition RevokeByDomain ::
    "('db, os_row) bolt \<Rightarrow> parse_url \<Rightarrow> (nat \<Rightarrow> nat) \<Rightarrow> string \<Rightarrow> 'db \<Rightarrow> os_err + nat \<times> 'db" where
  "RevokeByDomain B parse lower domain0 db =
     (let dmn = go_ToLower lower (trim_space domain0) in
      if dmn = [] then Inr (0, db)
      else transact_ret B OsTx
             (\<lambda>db. revoke_where B (\<lambda>s. let d = clientDomainTx B parse lower db (sr_ClientID s) in d \<noteq> [] \<and> covers dmn d) db) db)"


section \<open>The store as a table of rows\<close>

type_synonym os_table = "string \<Rightarrow> string \<Rightarrow> os_row option"

definition os_buckets :: "string list" where
  "os_buckets = [codesBucket, seriesBucket, accessBucket, refreshBucket, clientsBucket, os_metaBucket, registrationsBucket]"

lemmas os_bucket_defs = codesBucket_def seriesBucket_def accessBucket_def refreshBucket_def clientsBucket_def
  os_metaBucket_def registrationsBucket_def

lemma os_buckets_distinct: "distinct os_buckets"
  by (simp add: os_buckets_def os_bucket_defs)

lemma os_buckets_differ [simp]:
  "seriesBucket \<noteq> accessBucket" "accessBucket \<noteq> seriesBucket" "seriesBucket \<noteq> refreshBucket" "refreshBucket \<noteq> seriesBucket"
  "accessBucket \<noteq> refreshBucket" "refreshBucket \<noteq> accessBucket" "codesBucket \<noteq> seriesBucket" "seriesBucket \<noteq> codesBucket"
  "codesBucket \<noteq> accessBucket" "accessBucket \<noteq> codesBucket" "codesBucket \<noteq> refreshBucket" "refreshBucket \<noteq> codesBucket"
  "clientsBucket \<noteq> seriesBucket" "seriesBucket \<noteq> clientsBucket" "clientsBucket \<noteq> accessBucket" "accessBucket \<noteq> clientsBucket"
  "clientsBucket \<noteq> refreshBucket" "refreshBucket \<noteq> clientsBucket" "clientsBucket \<noteq> codesBucket" "codesBucket \<noteq> clientsBucket"
  "os_metaBucket \<noteq> seriesBucket" "seriesBucket \<noteq> os_metaBucket" "os_metaBucket \<noteq> accessBucket" "accessBucket \<noteq> os_metaBucket"
  "os_metaBucket \<noteq> refreshBucket" "refreshBucket \<noteq> os_metaBucket" "os_metaBucket \<noteq> codesBucket" "codesBucket \<noteq> os_metaBucket"
  "os_metaBucket \<noteq> clientsBucket" "clientsBucket \<noteq> os_metaBucket"
  "registrationsBucket \<noteq> seriesBucket" "seriesBucket \<noteq> registrationsBucket" "registrationsBucket \<noteq> accessBucket"
  "accessBucket \<noteq> registrationsBucket" "registrationsBucket \<noteq> refreshBucket" "refreshBucket \<noteq> registrationsBucket"
  "registrationsBucket \<noteq> codesBucket" "codesBucket \<noteq> registrationsBucket" "registrationsBucket \<noteq> clientsBucket"
  "clientsBucket \<noteq> registrationsBucket" "registrationsBucket \<noteq> os_metaBucket" "os_metaBucket \<noteq> registrationsBucket"
  by (simp_all add: os_bucket_defs)

lemma os_buckets_mem [simp]:
  "codesBucket \<in> set os_buckets" "seriesBucket \<in> set os_buckets" "accessBucket \<in> set os_buckets" "refreshBucket \<in> set os_buckets"
  "clientsBucket \<in> set os_buckets" "os_metaBucket \<in> set os_buckets" "registrationsBucket \<in> set os_buckets"
  by (simp_all add: os_buckets_def)

text \<open>The row a bucket may hold under a key.\<close>

definition row_typed :: "string \<Rightarrow> string \<Rightarrow> os_row \<Rightarrow> bool" where
  "row_typed n k v \<longleftrightarrow>
     (if n = seriesBucket then (case v of SeriesRow a r s \<Rightarrow> a = [] \<and> r = [] \<and> sr_SeriesID s = k | _ \<Rightarrow> False)
      else if n = accessBucket \<or> n = refreshBucket then (case v of IdRow s \<Rightarrow> True | _ \<Rightarrow> False)
      else if n = codesBucket then (case v of CodeRow c \<Rightarrow> True | _ \<Rightarrow> False)
      else if n = clientsBucket then (case v of ClientRow c \<Rightarrow> rc_ClientID c = k | _ \<Rightarrow> False)
      else if n = registrationsBucket then (case v of EntryRow e \<Rightarrow> re_ID e = k | _ \<Rightarrow> False)
      else True)"

definition os_ok :: "('db, os_row) bolt \<Rightarrow> 'db \<Rightarrow> bool" where
  "os_ok B db \<longleftrightarrow>
     (\<forall>n\<in>set os_buckets. b_bucket B db n) \<and> (\<forall>n k v. n \<in> set os_buckets \<longrightarrow> bget B db n k = Some v \<longrightarrow> row_typed n k v)"

definition os_is :: "('db, os_row) bolt \<Rightarrow> os_table \<Rightarrow> 'db \<Rightarrow> bool" where
  "os_is B m db \<longleftrightarrow> os_ok B db \<and> bget B db = m"

definition m_put :: "string \<Rightarrow> string \<Rightarrow> os_row \<Rightarrow> os_table \<Rightarrow> os_table" where
  "m_put n k v m = m(n := (m n)(k \<mapsto> v))"

definition m_del :: "string \<Rightarrow> string set \<Rightarrow> os_table \<Rightarrow> os_table" where
  "m_del n ks m = m(n := (\<lambda>k. if k \<in> ks then None else m n k))"

lemma m_put_at [simp]: "m_put n k v m n' k' = (if n' = n \<and> k' = k then Some v else m n' k')"
  by (simp add: m_put_def)

lemma m_del_at [simp]: "m_del n ks m n' k' = (if n' = n \<and> k' \<in> ks then None else m n' k')"
  by (simp add: m_del_def)

interpretation os: tx_store B OsTx "os_is B" for B :: "('db, os_row) bolt"
  by unfold_locales (simp add: os_is_def os_ok_def)

abbreviation os_follows :: "('db, os_row) bolt \<Rightarrow> os_err + 'db \<Rightarrow> os_err + os_table \<Rightarrow> bool" where
  "os_follows B \<equiv> follows (os_is B) OsTx"

lemma os_isD:
  assumes "os_is B m db"
  shows "n \<in> set os_buckets \<Longrightarrow> b_bucket B db n" "n \<in> set os_buckets \<Longrightarrow> b_get B db n k = m n k"
    "n \<in> set os_buckets \<Longrightarrow> m n k = Some v \<Longrightarrow> row_typed n k v" "bget B db = m"
  using assms by (auto simp: os_is_def os_ok_def b_get_bget)

lemma os_is_put:
  assumes "bolt_ok B" "os_is B m db" "b_put B n k v db = Some db'" "n \<in> set os_buckets" "row_typed n k v"
  shows "os_is B (m_put n k v m) db'"
proof -
  note r = put_reads [OF assms(1,3) os_isD(1) [OF assms(2,4)]]
  have "bget B db' = m_put n k v m" using os_isD(4) [OF assms(2)] by (simp add: r m_put_def)
  then show ?thesis using assms(2,5) r(2) by (auto simp: os_is_def os_ok_def)
qed

lemma os_is_delete_rows:
  assumes "bolt_ok B" "os_is B m db" "delete_rows B n ks db = Some db'" "n \<in> set os_buckets"
  shows "os_is B (m_del n (set ks) m) db'"
proof -
  note r = delete_rows_reads [OF assms(1,3) os_isD(1) [OF assms(2,4)]]
  have "bget B db' = m_del n (set ks) m" using os_isD(4) [OF assms(2)] r by (auto simp: m_del_def fun_eq_iff)
  then show ?thesis using assms(2) r by (auto simp: os_is_def os_ok_def)
qed

lemma os_is_delete:
  assumes "bolt_ok B" "os_is B m db" "b_delete B n k db = Some db'" "n \<in> set os_buckets"
  shows "os_is B (m_del n {k} m) db'"
  using os_is_delete_rows [OF assms(1,2), of n "[k]" db'] assms(3,4) by simp

section \<open>Views\<close>

definition v_series :: "os_table \<Rightarrow> string \<Rightarrow> series option" where
  "v_series m k = Option.bind (m seriesBucket k) series_of"

definition v_access :: "os_table \<Rightarrow> string \<Rightarrow> string option" where
  "v_access m h = id_of (m accessBucket h)"

definition v_refresh :: "os_table \<Rightarrow> string \<Rightarrow> string option" where
  "v_refresh m h = id_of (m refreshBucket h)"

definition v_code :: "os_table \<Rightarrow> string \<Rightarrow> code_rec option" where
  "v_code m h = Option.bind (m codesBucket h) code_of"

definition v_entry :: "os_table \<Rightarrow> string \<Rightarrow> reg_entry option" where
  "v_entry m k = Option.bind (m registrationsBucket k) entry_of"

lemmas v_defs = v_series_def v_access_def v_refresh_def v_code_def v_entry_def

lemma row_simps [simp]:
  "series_of (series_row s) = Some s" "id_of (Some (IdRow i)) = Some i" "id_of None = None"
  "code_of (CodeRow c) = Some c" "entry_of (EntryRow e) = Some e" "client_of (ClientRow cl) = Some cl"
  "series_of (SeriesRow a r s) = Some s"
  by (simp_all add: series_of_def series_row_def id_of_def code_of_def entry_of_def client_of_def)

lemma row_typed_series: "row_typed seriesBucket k v \<longleftrightarrow> (\<exists>s. v = series_row s \<and> sr_SeriesID s = k)"
  by (auto simp: row_typed_def series_row_def split: os_row.splits)

lemma row_typed_handle:
  "row_typed accessBucket k v \<longleftrightarrow> (\<exists>s. v = IdRow s)" "row_typed refreshBucket k v \<longleftrightarrow> (\<exists>s. v = IdRow s)"
  "row_typed codesBucket k v \<longleftrightarrow> (\<exists>c. v = CodeRow c)" "row_typed registrationsBucket k v \<longleftrightarrow> (\<exists>e. v = EntryRow e \<and> re_ID e = k)"
  "row_typed clientsBucket k v \<longleftrightarrow> (\<exists>c. v = ClientRow c \<and> rc_ClientID c = k)" "row_typed os_metaBucket k v"
  by (auto simp: row_typed_def split: os_row.splits)

lemma series_rows:
  assumes "os_is B m db"
  shows "m seriesBucket k = map_option series_row (v_series m k)" "v_series m k = Some s \<Longrightarrow> sr_SeriesID s = k"
proof -
  have t: "m seriesBucket k = Some v \<Longrightarrow> \<exists>s. v = series_row s \<and> sr_SeriesID s = k" for v
    using os_isD(3) [OF assms, of seriesBucket k v] by (simp add: row_typed_series)
  then show "m seriesBucket k = map_option series_row (v_series m k)"
    by (cases "m seriesBucket k") (auto simp: v_series_def)
  show "v_series m k = Some s \<Longrightarrow> sr_SeriesID s = k" using t by (auto simp: v_series_def bind_eq_Some_conv)
qed

lemma other_rows:
  assumes "os_is B m db"
  shows "m accessBucket k = map_option IdRow (v_access m k)" "m refreshBucket k = map_option IdRow (v_refresh m k)"
    "m codesBucket k = map_option CodeRow (v_code m k)" "m registrationsBucket k = map_option EntryRow (v_entry m k)"
    "v_entry m k = Some e \<Longrightarrow> re_ID e = k"
proof -
  note t = os_isD(3) [OF assms]
  show "m accessBucket k = map_option IdRow (v_access m k)"
    using t [of accessBucket k] by (cases "m accessBucket k") (auto simp: v_access_def row_typed_handle)
  show "m refreshBucket k = map_option IdRow (v_refresh m k)"
    using t [of refreshBucket k] by (cases "m refreshBucket k") (auto simp: v_refresh_def row_typed_handle)
  show "m codesBucket k = map_option CodeRow (v_code m k)"
    using t [of codesBucket k] by (cases "m codesBucket k") (auto simp: v_code_def row_typed_handle)
  show "m registrationsBucket k = map_option EntryRow (v_entry m k)"
    using t [of registrationsBucket k] by (cases "m registrationsBucket k") (auto simp: v_entry_def row_typed_handle)
  show "v_entry m k = Some e \<Longrightarrow> re_ID e = k"
    using t [of registrationsBucket k] by (auto simp: v_entry_def row_typed_handle bind_eq_Some_conv)
qed

section \<open>Writing and deleting series\<close>

definition m_putSeries :: "series \<Rightarrow> string \<Rightarrow> string \<Rightarrow> os_table \<Rightarrow> os_table" where
  "m_putSeries rec oa orf m =
     m_put refreshBucket (sr_RefreshTokenHash rec) (IdRow (sr_SeriesID rec))
      (m_put accessBucket (sr_AccessTokenHash rec) (IdRow (sr_SeriesID rec))
        (m_del refreshBucket (if orf = [] then {} else {orf})
          (m_del accessBucket (if oa = [] then {} else {oa})
            (m_put seriesBucket (sr_SeriesID rec) (series_row rec) m))))"

definition m_delSeries :: "series set \<Rightarrow> os_table \<Rightarrow> os_table" where
  "m_delSeries S m =
     m_del refreshBucket (sr_RefreshTokenHash ` S) (m_del accessBucket (sr_AccessTokenHash ` S) (m_del seriesBucket (sr_SeriesID ` S) m))"

lemma m_del_empty [simp]: "m_del n {} m = m"
  by (simp add: m_del_def)

lemma m_put_del_same: "m_put n k v (m_del n ks m) = m_put n k v (m_del n (ks - {k}) m)"
  by (auto simp: m_put_def m_del_def fun_eq_iff)

lemma delete_unless_is:
  assumes "bolt_ok B" "os_is B m db" "delete_unless B n old new db = Some db'" "n \<in> set os_buckets"
  shows "os_is B (m_del n ((if old = [] then {} else {old}) - {new}) m) db'"
  using assms(3) os_is_delete [OF assms(1,2) _ assms(4), of old db'] assms(2)
  by (auto simp: delete_unless_def split: if_splits)

lemma putSeriesTx_is:
  assumes "bolt_ok B" "os_is B m db" "putSeriesTx B rec oa orf db = Some db'"
  shows "os_is B (m_putSeries rec oa orf m) db'"
proof -
  obtain db1 db2 db3 db4 where s:
    "b_put B seriesBucket (sr_SeriesID rec) (series_row rec) db = Some db1"
    "delete_unless B accessBucket oa (sr_AccessTokenHash rec) db1 = Some db2"
    "delete_unless B refreshBucket orf (sr_RefreshTokenHash rec) db2 = Some db3"
    "b_put B accessBucket (sr_AccessTokenHash rec) (IdRow (sr_SeriesID rec)) db3 = Some db4"
    "b_put B refreshBucket (sr_RefreshTokenHash rec) (IdRow (sr_SeriesID rec)) db4 = Some db'"
    using assms(3) by (auto simp: putSeriesTx_def split: option.splits)
  let ?da = "(if oa = [] then {} else {oa}) - {sr_AccessTokenHash rec}"
  let ?dr = "(if orf = [] then {} else {orf}) - {sr_RefreshTokenHash rec}"
  have i1: "os_is B (m_put seriesBucket (sr_SeriesID rec) (series_row rec) m) db1"
    by (rule os_is_put [OF assms(1,2) s(1)]) (auto simp: row_typed_series)
  note i2 = delete_unless_is [OF assms(1) i1 s(2)]
  note i3 = delete_unless_is [OF assms(1) i2 s(3)]
  have i4: "os_is B (m_put accessBucket (sr_AccessTokenHash rec) (IdRow (sr_SeriesID rec))
      (m_del refreshBucket ?dr (m_del accessBucket ?da (m_put seriesBucket (sr_SeriesID rec) (series_row rec) m)))) db4"
    by (rule os_is_put [OF assms(1) _ s(4)]) (use i3 in \<open>simp_all add: row_typed_handle\<close>)
  have i5: "os_is B (m_put refreshBucket (sr_RefreshTokenHash rec) (IdRow (sr_SeriesID rec)) (m_put accessBucket (sr_AccessTokenHash rec) (IdRow (sr_SeriesID rec))
      (m_del refreshBucket ?dr (m_del accessBucket ?da (m_put seriesBucket (sr_SeriesID rec) (series_row rec) m))))) db'"
    by (rule os_is_put [OF assms(1) i4 s(5)]) (simp_all add: row_typed_handle)
  have "m_putSeries rec oa orf m = m_put refreshBucket (sr_RefreshTokenHash rec) (IdRow (sr_SeriesID rec)) (m_put accessBucket (sr_AccessTokenHash rec) (IdRow (sr_SeriesID rec))
      (m_del refreshBucket ?dr (m_del accessBucket ?da (m_put seriesBucket (sr_SeriesID rec) (series_row rec) m))))"
    unfolding m_putSeries_def by (intro ext) (simp split: if_split)
  with i5 show ?thesis by simp
qed

lemma deleteSeries_is:
  assumes "bolt_ok B" "os_is B m db" "deleteSeries B s db = Some db'"
  shows "os_is B (m_delSeries {s} m) db'"
proof -
  obtain db1 db2 where s: "b_delete B seriesBucket (sr_SeriesID s) db = Some db1"
    "b_delete B accessBucket (sr_AccessTokenHash s) db1 = Some db2" "b_delete B refreshBucket (sr_RefreshTokenHash s) db2 = Some db'"
    using assms(3) by (auto simp: deleteSeries_def split: option.splits)
  note i1 = os_is_delete [OF assms(1,2) s(1)]
  note i2 = os_is_delete [OF assms(1) i1 s(2)]
  show ?thesis using os_is_delete [OF assms(1) i2 s(3)] by (simp add: m_delSeries_def)
qed

lemma m_delSeries_insert: "m_delSeries (set ss) (m_delSeries {s} m) = m_delSeries (insert s (set ss)) m"
  by (intro ext) (auto simp: m_delSeries_def)

lemma delete_all_series_is:
  assumes "bolt_ok B"
  shows "os_is B m db \<Longrightarrow> delete_all_series B ss db = Some db' \<Longrightarrow> os_is B (m_delSeries (set ss) m) db'"
proof (induction ss arbitrary: m db)
  case Nil
  then show ?case by (simp add: m_delSeries_def)
next
  case (Cons s ss)
  then obtain db1 where d: "deleteSeries B s db = Some db1" "delete_all_series B ss db1 = Some db'" by (auto split: option.splits)
  from Cons.IH [OF deleteSeries_is [OF assms Cons.prems(1) d(1)] d(2)] show ?case by (simp add: m_delSeries_insert)
qed

lemma series_decoded:
  assumes "bolt_ok B" "os_is B m db"
  obtains ss where "decode_all series_of (b_rows B db seriesBucket) = Some ss" "distinct (map fst ss)"
    "\<And>k s. (k, s) \<in> set ss \<longleftrightarrow> v_series m k = Some s"
proof
  let ?rows = "b_rows B db seriesBucket"
  note r = bucket_rows [OF assms(1) os_isD(1) [OF assms(2), of seriesBucket]]
  have mem: "(k, v) \<in> set ?rows \<longleftrightarrow> (\<exists>s. v = series_row s \<and> v_series m k = Some s)" for k v
    using r(3) [of k v] series_rows(1) [OF assms(2), of k] os_isD(4) [OF assms(2)] by auto
  show "decode_all series_of ?rows = Some (map (\<lambda>(k, v). (k, the (series_of v))) ?rows)"
    by (rule decode_all_Some) (auto simp: mem)
  show "distinct (map fst (map (\<lambda>(k, v). (k, the (series_of v))) ?rows))"
    using kv_ok_distinct [OF r(1)] by (simp add: case_prod_beta comp_def)
  show "(k, s) \<in> set (map (\<lambda>(k, v). (k, the (series_of v))) ?rows) \<longleftrightarrow> v_series m k = Some s" for k s
  proof -
    have "(k, s) \<in> set (map (\<lambda>(k, v). (k, the (series_of v))) ?rows) \<longleftrightarrow> (\<exists>v. (k, v) \<in> set ?rows \<and> s = the (series_of v))" by force
    then show ?thesis by (auto simp: mem)
  qed
qed

definition matching :: "(series \<Rightarrow> bool) \<Rightarrow> os_table \<Rightarrow> series set" where
  "matching P m = {s. P s \<and> (\<exists>k. v_series m k = Some s)}"

lemma revoke_where_follows:
  assumes "bolt_ok B" "os_is B m db"
  shows "os_follows B (just_db (revoke_where B P db)) (Inr (m_delSeries (matching P m) m))"
proof -
  obtain ss where ss: "decode_all series_of (b_rows B db seriesBucket) = Some ss"
    "\<And>k s. (k, s) \<in> set ss \<longleftrightarrow> v_series m k = Some s" by (rule series_decoded [OF assms]) blast
  have dead: "set (filter P (map snd ss)) = matching P m" using ss(2) by (force simp: matching_def)
  show ?thesis unfolding revoke_where_def ss(1) option.case Let_def just_db_case
    using delete_all_series_is [OF assms] dead by (intro os.follow_or) metis
qed


section \<open>The operations and what they do to the table\<close>

record os_env =
  ov_lower :: "nat \<Rightarrow> nat"
  ov_fold :: "nat \<Rightarrow> nat"
  ov_parse :: parse_url

datatype os_op =
  PutC string code_rec | TakeC string
| Issue "(string \<times> string \<times> string) option" series int int
| Refresh "(string \<times> string) option" string int int
| RevokeS string | RevokeEmail string | RevokeClient string | RevokeDomain string | Clean
| Rescope "string \<Rightarrow> string" | AddClient reg_client
| AddEntry "string option" string string
| IssueConf "(string \<times> string \<times> string) option" string string int
| UpdEntry reg_entry | GenConsent "string option" string | DelEntry string
| HashTokens | SeedDomains "string list" "string list" string int int

fun os_apply :: "('db, os_row) bolt \<Rightarrow> os_env \<Rightarrow> int \<Rightarrow> os_op \<Rightarrow> 'db \<Rightarrow> os_err + 'db" where
  "os_apply B V now (PutC code rec) db = PutCode B code rec db"
| "os_apply B V now (TakeC code) db = just_db (TakeCode B now code db)"
| "os_apply B V now (Issue h req at rt) db = just_db (NewSeries B now h req at rt db)"
| "os_apply B V now (Refresh h old at rt) db = just_db (Rotate B now h old at rt db)"
| "os_apply B V now (RevokeS sid) db = os_Revoke B sid db"
| "os_apply B V now (RevokeEmail e) db = just_db (RevokeByPrincipalEmail B (ov_lower V) (ov_fold V) e db)"
| "os_apply B V now (RevokeClient c) db = just_db (RevokeByClientID B c db)"
| "os_apply B V now (RevokeDomain d) db = just_db (RevokeByDomain B (ov_parse V) (ov_lower V) d db)"
| "os_apply B V now Clean db = just_db (DeleteDeadSeries B now db)"
| "os_apply B V now (Rescope fn) db = just_db (os_RewriteScopes B fn db)"
| "os_apply B V now (AddClient c) db = PutClient B c db"
| "os_apply B V now (AddEntry h mode ident) db = CreateRegistration B now h mode ident db"
| "os_apply B V now (IssueConf h sc nm validity) db = just_db (IssueConfidentialClient B now h sc nm validity db)"
| "os_apply B V now (UpdEntry e) db = UpdateRegistration B e db"
| "os_apply B V now (GenConsent h eid) db = GenerateDomainConsent B h eid db"
| "os_apply B V now (DelEntry eid) db = DeleteRegistration B eid db"
| "os_apply B V now HashTokens db = migrateHashTokensAtRest B db"
| "os_apply B V now (SeedDomains handles domains consent attl rttl) db =
     SeedDomainRegistrationsFromDomains B now handles domains consent attl rttl db"

text \<open>Issuing and rotating on the table; the other revocations are \<open>m_delSeries\<close>.\<close>

definition issued :: "int \<Rightarrow> string \<times> string \<times> string \<Rightarrow> series \<Rightarrow> int \<Rightarrow> int \<Rightarrow> series" where
  "issued now h req at rt =
     (case h of (sid, a, r) \<Rightarrow>
        req\<lparr>sr_SeriesID := sid, sr_AccessTokenHash := hashHandle a, sr_RefreshTokenHash := hashHandle r,
            sr_IssuedAt := now, sr_AccessExpiry := now + at, sr_RefreshExpiry := now + rt\<rparr>)"

definition rotated :: "int \<Rightarrow> string \<times> string \<Rightarrow> series \<Rightarrow> int \<Rightarrow> int \<Rightarrow> series" where
  "rotated now h s at rt =
     (case h of (a, r) \<Rightarrow>
        s\<lparr>sr_AccessTokenHash := hashHandle a, sr_RefreshTokenHash := hashHandle r,
          sr_AccessExpiry := now + at, sr_RefreshExpiry := now + rt\<rparr>)"

text \<open>The series a handle row leads to.\<close>

definition pointed :: "os_table \<Rightarrow> string \<Rightarrow> string \<Rightarrow> series option" where
  "pointed m n h = Option.bind (id_of (m n h)) (v_series m)"

definition rotate_spec ::
    "int \<Rightarrow> (string \<times> string) option \<Rightarrow> string \<Rightarrow> int \<Rightarrow> int \<Rightarrow> os_table \<Rightarrow> os_err + os_table" where
  "rotate_spec now h old at rt m =
     (case pointed m refreshBucket (hashHandle old) of
        None \<Rightarrow> Inl OsNotFound
      | Some s \<Rightarrow>
          (if sr_RefreshTokenHash s \<noteq> hashHandle old then Inl OsNotFound
           else if now > sr_RefreshExpiry s then Inr (m_delSeries {s} m)
           else case h of
             None \<Rightarrow> Inl OsRand
           | Some hh \<Rightarrow> Inr (m_putSeries (rotated now hh s at rt) (sr_AccessTokenHash s) (hashHandle old) m)))"

lemma read_series_pointed:
  assumes "os_is B m db" "n = accessBucket \<or> n = refreshBucket"
  shows "read_series B n h db = (case pointed m n h of None \<Rightarrow> Inl OsNotFound | Some s \<Rightarrow> Inr s)"
proof -
  have "b_get B db n h = m n h" using os_isD(2) [OF assms(1)] assms(2) by auto
  moreover have "b_get B db seriesBucket sid = map_option series_row (v_series m sid)" for sid
    using os_isD(2) [OF assms(1)] series_rows(1) [OF assms(1)] by simp
  ultimately show ?thesis
    by (cases "id_of (m n h)") (auto simp: read_series_def pointed_def or_err_def split: option.splits)
qed

lemma NewSeries_follows:
  assumes "bolt_ok B" "os_is B m db"
  shows "os_follows B (just_db (NewSeries B now (Some h) req at rt db)) (Inr (m_putSeries (issued now h req at rt) [] [] m))"
proof (cases h)
  case (fields sid a r)
  let ?rec = "req\<lparr>sr_SeriesID := sid, sr_AccessTokenHash := hashHandle a, sr_RefreshTokenHash := hashHandle r,
      sr_IssuedAt := now, sr_AccessExpiry := now + at, sr_RefreshExpiry := now + rt\<rparr>"
  show ?thesis unfolding NewSeries_def fields issued_def option.case prod.case Let_def
  proof (rule os.follow_transact_ret [OF assms(1)], unfold just_db_case, rule os.follow_or)
    fix db1 assume "putSeriesTx B ?rec [] [] db = Some db1"
    from putSeriesTx_is [OF assms this] show "os_is B (m_putSeries ?rec [] [] m) db1" .
  qed
qed

lemma Rotate_follows:
  assumes "bolt_ok B" "os_is B m db"
  shows "os_follows B (just_db (Rotate B now h old at rt db)) (rotate_spec now h old at rt m)"
  unfolding Rotate_def
proof (rule os.follow_transact_ret [OF assms(1)])
  note rd = read_series_pointed [OF assms(2) disjI2 [OF refl], of "hashHandle old"]
  show "os_follows B (just_db (case read_series B refreshBucket (hashHandle old) db of
               Inl e \<Rightarrow> Inl e
             | Inr rec \<Rightarrow>
                 (if sr_RefreshTokenHash rec \<noteq> hashHandle old then Inl OsNotFound
                  else if now > sr_RefreshExpiry rec
                  then (case deleteSeries B rec db of None \<Rightarrow> Inl OsTx | Some db1 \<Rightarrow> Inr (Inl OsExpired, db1))
                  else case h of
                    None \<Rightarrow> Inl OsRand
                  | Some (newAccess, newRefresh) \<Rightarrow>
                      (let rec1 = rec\<lparr>sr_AccessTokenHash := hashHandle newAccess, sr_RefreshTokenHash := hashHandle newRefresh,
                                     sr_AccessExpiry := now + at, sr_RefreshExpiry := now + rt\<rparr> in
                       case putSeriesTx B rec1 (sr_AccessTokenHash rec) (hashHandle old) db of
                         None \<Rightarrow> Inl OsTx | Some db1 \<Rightarrow> Inr (Inr rec1, db1)))))
    (rotate_spec now h old at rt m)"
  proof (cases "pointed m refreshBucket (hashHandle old)")
    case None
    then show ?thesis by (simp add: rd rotate_spec_def just_db_def os.follow_Inl)
  next
    case (Some s)
    have del: "os_follows B (just_db (case deleteSeries B s db of None \<Rightarrow> Inl OsTx | Some db1 \<Rightarrow> Inr (Inl OsExpired, db1)))
        (Inr (m_delSeries {s} m))"
      unfolding just_db_case by (rule os.follow_or) (rule deleteSeries_is [OF assms])
    have put: "os_follows B (just_db (case putSeriesTx B r oa orf db of None \<Rightarrow> Inl OsTx | Some db1 \<Rightarrow> Inr (x, db1)))
        (Inr (m_putSeries r oa orf m))" for r oa orf and x :: "os_err + series"
      unfolding just_db_case by (rule os.follow_or) (rule putSeriesTx_is [OF assms])
    show ?thesis using Some del put
      by (auto simp: rd rotate_spec_def rotated_def just_db_def os.follow_Inl Let_def split: option.split)
  qed
qed

definition email_match :: "os_env \<Rightarrow> string \<Rightarrow> string \<Rightarrow> bool" where
  "email_match V email e = go_EqualFold (ov_fold V) (trim_space e) (go_ToLower (ov_lower V) (trim_space email))"

definition email_codes :: "os_env \<Rightarrow> string \<Rightarrow> os_table \<Rightarrow> string set" where
  "email_codes V email m = {k. \<exists>c. v_code m k = Some c \<and> email_match V email (cr_PrincipalEmail c)}"

lemma RevokeEmail_follows:
  assumes "bolt_ok B" "os_is B m db"
  shows "os_follows B (just_db (RevokeByPrincipalEmail B (ov_lower V) (ov_fold V) email db))
    (Inr (if go_ToLower (ov_lower V) (trim_space email) = [] then m
          else m_del codesBucket (email_codes V email m)
                 (m_delSeries (matching (\<lambda>s. email_match V email (sr_PrincipalEmail s)) m) m)))"
proof (cases "go_ToLower (ov_lower V) (trim_space email) = []")
  case True
  then show ?thesis using assms(2) by (simp add: RevokeByPrincipalEmail_def just_db_def os.follow_Inr)
next
  case False
  let ?P = "\<lambda>s. email_match V email (sr_PrincipalEmail s)"
  let ?m1 = "m_delSeries (matching ?P m) m"
  let ?dead = "\<lambda>db1. map fst (filter (\<lambda>(k, v). case code_of v of None \<Rightarrow> False
      | Some c \<Rightarrow> email_match V email (cr_PrincipalEmail c)) (b_rows B db1 codesBucket))"
  have codes: "set (?dead db1) = email_codes V email m" if "os_is B ?m1 db1" for db1
  proof -
    have "(k, v) \<in> set (b_rows B db1 codesBucket) \<longleftrightarrow> (\<exists>c. v = CodeRow c \<and> v_code m k = Some c)" for k v
    proof -
      have "(k, v) \<in> set (b_rows B db1 codesBucket) \<longleftrightarrow> ?m1 codesBucket k = Some v"
        using bucket_rows(3) [OF assms(1) os_isD(1) [OF that, of codesBucket]] os_isD(4) [OF that] by simp
      then show ?thesis using other_rows(3) [OF assms(2), of k] by (auto simp: m_delSeries_def)
    qed
    note mem = this
    show ?thesis
    proof (intro set_eqI iffI)
      fix k assume "k \<in> set (?dead db1)"
      then obtain v where "(k, v) \<in> set (b_rows B db1 codesBucket)"
        "case code_of v of None \<Rightarrow> False | Some c \<Rightarrow> email_match V email (cr_PrincipalEmail c)" by auto
      then show "k \<in> email_codes V email m" by (auto simp: mem email_codes_def)
    next
      fix k assume "k \<in> email_codes V email m"
      then obtain c where "(k, CodeRow c) \<in> set (b_rows B db1 codesBucket)" "email_match V email (cr_PrincipalEmail c)"
        by (auto simp: mem email_codes_def)
      then show "k \<in> set (?dead db1)" by force
    qed
  qed
  have "os_follows B (just_db (case revoke_where B ?P db of Inl e \<Rightarrow> Inl e
      | Inr (n, db1) \<Rightarrow> (case delete_rows B codesBucket (?dead db1) db1 of None \<Rightarrow> Inl OsTx | Some db2 \<Rightarrow> Inr (n, db2))))
    (Inr (m_del codesBucket (email_codes V email m) ?m1))"
  proof (cases "revoke_where B ?P db")
    case (Inl e)
    with revoke_where_follows [OF assms, of ?P] show ?thesis by (simp add: just_db_def follows_def)
  next
    case (Inr p)
    obtain n db1 where p: "p = (n, db1)" by fastforce
    from revoke_where_follows [OF assms, of ?P] Inr p have i: "os_is B ?m1 db1" by (simp add: just_db_def follows_def)
    show ?thesis unfolding Inr p sum.case prod.case just_db_case
      using os_is_delete_rows [OF assms(1) i] codes [OF i] by (intro os.follow_or) (metis os_buckets_mem(1))
  qed
  then show ?thesis unfolding RevokeByPrincipalEmail_def Let_def if_not_P [OF False]
    by (intro os.follow_transact_ret [OF assms(1)]) (simp only: email_match_def)
qed


definition m_clientDomain :: "os_env \<Rightarrow> os_table \<Rightarrow> string \<Rightarrow> string" where
  "m_clientDomain V m clientID =
     (if clientID = SelfIssuedClientID then []
      else (let h = cimdHost (ov_parse V) (ov_lower V) clientID in
        if h \<noteq> [] then h
        else case Option.bind (m clientsBucket clientID) client_of of
          None \<Rightarrow> []
        | Some c \<Rightarrow> go_ToLower (ov_lower V)
            (if rc_Domain c \<noteq> [] then rc_Domain c else DomainFromRedirectURIs (ov_parse V) (ov_lower V) (rc_RedirectURIs c))))"

definition m_rescope :: "(string \<Rightarrow> string) \<Rightarrow> os_table \<Rightarrow> os_table" where
  "m_rescope fn m =
     m(seriesBucket := (\<lambda>k. map_option (\<lambda>s. series_row (s\<lparr>sr_Scope := fn (sr_Scope s)\<rparr>)) (v_series m k)))"

definition m_entry :: "reg_entry \<Rightarrow> os_table \<Rightarrow> os_table" where
  "m_entry e m = m_put registrationsBucket (re_ID e) (EntryRow e) m"

definition update_spec :: "reg_entry \<Rightarrow> os_table \<Rightarrow> os_err + os_table" where
  "update_spec e m =
     (if \<not> validRegistrationMode (re_RegistrationMode e) then Inl OsBadMode
      else if trim_space (re_Identifier e) = [] then Inl OsNoIdentifier
      else if v_entry m (re_ID e) = None then Inl OsNotFound
      else Inr (m_entry e m))"

text \<open>The two migrations run once; the flag of each is its row of \<open>meta\<close>.\<close>

definition once :: "string \<Rightarrow> os_table \<Rightarrow> os_err + os_table \<Rightarrow> os_err + os_table" where
  "once key m r =
     (if m os_metaBucket key \<noteq> None then Inr m
      else map_sum id (m_put os_metaBucket key (OsText ''1'')) r)"

definition seeded :: "int \<Rightarrow> string \<Rightarrow> int \<Rightarrow> int \<Rightarrow> string \<Rightarrow> string \<Rightarrow> reg_entry" where
  "seeded now consent attl rttl eid d =
     \<lparr>re_ID = eid, re_RegistrationMode = RegistrationModeDomain, re_Identifier = d, re_Name = [], re_CreatedAt = now,
      re_TTL = (if attl > 0 \<or> rttl > 0
                then Some \<lparr>et_AccessSeconds = whole_seconds attl, et_RefreshSeconds = whole_seconds rttl\<rparr> else None),
      re_Consent = (if consent = [] then None else Some consent), re_Secret = None, re_Scope = [], re_ExpiresAt = 0\<rparr>"

definition seed_spec ::
    "int \<Rightarrow> string list \<Rightarrow> string list \<Rightarrow> string \<Rightarrow> int \<Rightarrow> int \<Rightarrow> os_table \<Rightarrow> os_err + os_table" where
  "seed_spec now handles domains consent attl rttl m =
     (let ds = filter (\<lambda>d. d \<noteq> []) (map trim_space domains) in
      if length handles < length ds then Inl OsRand
      else Inr (fold m_entry (map2 (seeded now consent attl rttl) handles ds) m))"

fun os_spec :: "os_env \<Rightarrow> int \<Rightarrow> os_op \<Rightarrow> os_table \<Rightarrow> os_err + os_table" where
  "os_spec V now (PutC code rec) m = Inr (m_put codesBucket (hashHandle code) (CodeRow rec) m)"
| "os_spec V now (TakeC code) m =
     (case v_code m (hashHandle code) of None \<Rightarrow> Inl OsNotFound | Some c \<Rightarrow> Inr (m_del codesBucket {hashHandle code} m))"
| "os_spec V now (Issue h req at rt) m =
     (case h of None \<Rightarrow> Inl OsRand | Some hh \<Rightarrow> Inr (m_putSeries (issued now hh req at rt) [] [] m))"
| "os_spec V now (Refresh h old at rt) m = rotate_spec now h old at rt m"
| "os_spec V now (RevokeS sid) m = Inr (case v_series m sid of None \<Rightarrow> m | Some s \<Rightarrow> m_delSeries {s} m)"
| "os_spec V now (RevokeEmail email) m =
     Inr (if go_ToLower (ov_lower V) (trim_space email) = [] then m
          else m_del codesBucket (email_codes V email m)
                 (m_delSeries (matching (\<lambda>s. email_match V email (sr_PrincipalEmail s)) m) m))"
| "os_spec V now (RevokeClient c) m =
     Inr (if trim_space c = [] then m else m_delSeries (matching (\<lambda>s. sr_ClientID s = trim_space c) m) m)"
| "os_spec V now (RevokeDomain d) m =
     (let dmn = go_ToLower (ov_lower V) (trim_space d) in
      Inr (if dmn = [] then m
           else m_delSeries (matching (\<lambda>s. m_clientDomain V m (sr_ClientID s) \<noteq> [] \<and> covers dmn (m_clientDomain V m (sr_ClientID s))) m) m))"
| "os_spec V now Clean m = Inr (m_delSeries (matching (\<lambda>s. now > sr_RefreshExpiry s) m) m)"
| "os_spec V now (Rescope fn) m = Inr (m_rescope fn m)"
| "os_spec V now (AddClient c) m = Inr (m_put clientsBucket (rc_ClientID c) (ClientRow c) m)"
| "os_spec V now (AddEntry h mode ident) m =
     (if \<not> validRegistrationMode mode then Inl OsBadMode
      else if trim_space ident = [] then Inl OsNoIdentifier
      else case h of None \<Rightarrow> Inl OsRand | Some eid \<Rightarrow> Inr (m_entry (new_entry eid mode (trim_space ident) now) m))"
| "os_spec V now (IssueConf h sc nm validity) m =
     (if validity \<le> 0 then Inl OsBadValidity
      else case h of
        None \<Rightarrow> Inl OsRand
      | Some (eid, cid, secret) \<Rightarrow>
          Inr (m_entry (SetSecret secret ((new_entry eid RegistrationModeConfidential cid now)
                 \<lparr>re_Name := trim_space nm, re_Scope := trim_space sc, re_ExpiresAt := now + validity\<rparr>)) m))"
| "os_spec V now (UpdEntry e) m = update_spec e m"
| "os_spec V now (GenConsent h eid) m =
     (case v_entry m eid of
        None \<Rightarrow> Inl OsNotFound
      | Some e \<Rightarrow>
          (if re_RegistrationMode e \<noteq> RegistrationModeDomain then Inl OsNotDomain
           else case h of None \<Rightarrow> Inl OsRand | Some val \<Rightarrow> update_spec (SetConsent val e) m))"
| "os_spec V now (DelEntry eid) m = Inr (m_del registrationsBucket {eid} m)"
| "os_spec V now HashTokens m = once migrationKeyTokensHashed m (Inr (m_del codesBucket UNIV m))"
| "os_spec V now (SeedDomains handles domains consent attl rttl) m =
     once migrationKeyRegistrationsSeeded m (seed_spec now handles domains consent attl rttl m)"

lemma code_ops_follow:
  assumes "bolt_ok B" "os_is B m db"
  shows "os_follows B (os_apply B V now (PutC code rec) db) (os_spec V now (PutC code rec) m)"
    and "os_follows B (os_apply B V now (TakeC code) db) (os_spec V now (TakeC code) m)"
proof -
  show "os_follows B (os_apply B V now (PutC code rec) db) (os_spec V now (PutC code rec) m)"
    unfolding os_apply.simps os_spec.simps PutCode_def
    by (rule os.follow_transact [OF assms(1)], rule os.follow_or) (rule os_is_put [OF assms], simp_all add: row_typed_handle)
  let ?h = "hashHandle code"
  have g: "b_get B db codesBucket ?h = map_option CodeRow (v_code m ?h)"
    using os_isD(2) [OF assms(2)] other_rows(3) [OF assms(2)] by simp
  show "os_follows B (os_apply B V now (TakeC code) db) (os_spec V now (TakeC code) m)"
    unfolding os_apply.simps os_spec.simps TakeCode_def
  proof (rule os.follow_transact_ret [OF assms(1)], cases "v_code m ?h")
    case None
    then show "os_follows B (just_db (case b_get B db codesBucket ?h of None \<Rightarrow> Inl OsNotFound
             | Some v \<Rightarrow> (case code_of v of None \<Rightarrow> Inl OsDecode
                  | Some rec \<Rightarrow> (case b_delete B codesBucket ?h db of None \<Rightarrow> Inl OsTx
                       | Some db1 \<Rightarrow> Inr (if now > cr_Expiry rec then Inl OsExpired else Inr rec, db1)))))
      (case v_code m ?h of None \<Rightarrow> Inl OsNotFound | Some c \<Rightarrow> Inr (m_del codesBucket {?h} m))"
      by (simp add: g just_db_def os.follow_Inl)
  next
    case (Some c)
    then show "os_follows B (just_db (case b_get B db codesBucket ?h of None \<Rightarrow> Inl OsNotFound
             | Some v \<Rightarrow> (case code_of v of None \<Rightarrow> Inl OsDecode
                  | Some rec \<Rightarrow> (case b_delete B codesBucket ?h db of None \<Rightarrow> Inl OsTx
                       | Some db1 \<Rightarrow> Inr (if now > cr_Expiry rec then Inl OsExpired else Inr rec, db1)))))
      (case v_code m ?h of None \<Rightarrow> Inl OsNotFound | Some c \<Rightarrow> Inr (m_del codesBucket {?h} m))"
      unfolding g Some option.map option.case row_simps just_db_case
      by (intro os.follow_or) (rule os_is_delete [OF assms], simp_all)
  qed
qed

lemma revoke_ops_follow:
  assumes "bolt_ok B" "os_is B m db"
  shows "os_follows B (os_apply B V now (RevokeS sid) db) (os_spec V now (RevokeS sid) m)"
    and "os_follows B (os_apply B V now (RevokeClient c) db) (os_spec V now (RevokeClient c) m)"
    and "os_follows B (os_apply B V now (RevokeDomain d) db) (os_spec V now (RevokeDomain d) m)"
    and "os_follows B (os_apply B V now Clean db) (os_spec V now Clean m)"
proof -
  have g: "b_get B db seriesBucket sid = map_option series_row (v_series m sid)"
    using os_isD(2) [OF assms(2)] series_rows(1) [OF assms(2)] by simp
  have "os_follows B (or_err OsTx (deleteSeries B s db)) (Inr (m_delSeries {s} m))" for s
    by (rule os.follow_or) (rule deleteSeries_is [OF assms])
  then show "os_follows B (os_apply B V now (RevokeS sid) db) (os_spec V now (RevokeS sid) m)"
    unfolding os_apply.simps os_spec.simps os_Revoke_def
    by (intro os.follow_transact [OF assms(1)]) (auto simp: g os.follow_Inr assms(2) split: option.split)
  show "os_follows B (os_apply B V now (RevokeClient c) db) (os_spec V now (RevokeClient c) m)"
  proof (cases "trim_space c = []")
    case True
    then show ?thesis using assms(2) by (simp add: RevokeByClientID_def just_db_def os.follow_Inr)
  next
    case False
    then show ?thesis using revoke_where_follows [OF assms]
      by (simp add: RevokeByClientID_def Let_def os.follow_transact_ret [OF assms(1)])
  qed
  have cd: "clientDomainTx B (ov_parse V) (ov_lower V) db cid = m_clientDomain V m cid" for cid
    using os_isD(2) [OF assms(2), of clientsBucket cid]
    by (auto simp: clientDomainTx_def m_clientDomain_def GetClient_def or_err_def Let_def split: option.splits)
  show "os_follows B (os_apply B V now (RevokeDomain d) db) (os_spec V now (RevokeDomain d) m)"
  proof (cases "go_ToLower (ov_lower V) (trim_space d) = []")
    case True
    then show ?thesis using assms(2) by (simp add: RevokeByDomain_def just_db_def os.follow_Inr)
  next
    case False
    then show ?thesis using revoke_where_follows [OF assms]
      by (simp add: RevokeByDomain_def Let_def cd os.follow_transact_ret [OF assms(1)])
  qed
  show "os_follows B (os_apply B V now Clean db) (os_spec V now Clean m)"
    unfolding os_apply.simps os_spec.simps DeleteDeadSeries_def
    by (intro os.follow_transact_ret [OF assms(1)] revoke_where_follows [OF assms])
qed

lemma os_is_put_series:
  assumes "bolt_ok B"
  shows "os_is B m db \<Longrightarrow> put_rows B seriesBucket (map (\<lambda>(k, s). (k, series_row s)) ss) db = Some db' \<Longrightarrow>
    \<forall>(k, s)\<in>set ss. sr_SeriesID s = k \<Longrightarrow>
    os_is B (m(seriesBucket := m seriesBucket ++ map_of (rev (map (\<lambda>(k, s). (k, series_row s)) ss)))) db'"
proof (induction ss arbitrary: db m)
  case (Cons p ss)
  obtain k s where p: "p = (k, s)" by fastforce
  with Cons.prems(2) obtain db1 where d: "b_put B seriesBucket k (series_row s) db = Some db1"
    "put_rows B seriesBucket (map (\<lambda>(k, s). (k, series_row s)) ss) db1 = Some db'" by (auto split: option.splits)
  have "os_is B (m_put seriesBucket k (series_row s) m) db1"
    by (rule os_is_put [OF assms Cons.prems(1) d(1)]) (use Cons.prems(3) p in \<open>auto simp: row_typed_series\<close>)
  from Cons.IH [OF this d(2)] Cons.prems(3) p show ?case
    by (simp only: map_add_rev_Cons list.map prod.case m_put_def fun_upd_same fun_upd_upd) simp
qed simp

lemma Rescope_os_follows:
  assumes "bolt_ok B" "os_is B m db"
  shows "os_follows B (os_apply B V now (Rescope fn) db) (os_spec V now (Rescope fn) m)"
proof -
  obtain ss where ss: "decode_all series_of (b_rows B db seriesBucket) = Some ss" "distinct (map fst ss)"
    "\<And>k s. (k, s) \<in> set ss \<longleftrightarrow> v_series m k = Some s" by (rule series_decoded [OF assms]) blast
  let ?P = "\<lambda>s. fn (sr_Scope s) \<noteq> sr_Scope s" and ?f = "\<lambda>s. s\<lparr>sr_Scope := fn (sr_Scope s)\<rparr>"
  let ?us = "map (\<lambda>(k, s). (k, ?f s)) (filter (\<lambda>(k, s). ?P s) ss)"
  have upd: "scope_updates sr_Scope (\<lambda>sc s. series_row (s\<lparr>sr_Scope := sc\<rparr>)) fn ss = map (\<lambda>(k, s). (k, series_row s)) ?us"
    by (auto simp: scope_updates_def)
  have keys: "\<forall>(k, s)\<in>set ?us. sr_SeriesID s = k" using ss(3) series_rows(2) [OF assms(2)] by auto
  have "v_series m ++ map_of (rev ?us) = (\<lambda>k. map_option ?f (v_series m k))"
    by (rule map_add_updates [OF ss(2,3)]) simp
  then have sm: "m seriesBucket ++ map_of (rev (map (\<lambda>(k, s). (k, series_row s)) ?us)) = m_rescope fn m seriesBucket"
  proof -
    have "map_of (rev (map (\<lambda>(k, s). (k, series_row s)) ?us)) k = map_option series_row (map_of (rev ?us) k)" for k
    proof -
      have "rev (map (\<lambda>(k, s). (k, series_row s)) ?us) = map (\<lambda>(k, s). (k, series_row s)) (rev ?us)" by (simp only: rev_map)
      then show ?thesis by (simp only: map_of_map comp_apply)
    qed
    moreover have "m seriesBucket k = map_option series_row (v_series m k)" for k by (rule series_rows(1) [OF assms(2)])
    ultimately have "(m seriesBucket ++ map_of (rev (map (\<lambda>(k, s). (k, series_row s)) ?us))) k =
        map_option series_row ((v_series m ++ map_of (rev ?us)) k)" for k
      by (simp add: map_add_def split: option.split)
    with \<open>v_series m ++ map_of (rev ?us) = (\<lambda>k. map_option ?f (v_series m k))\<close> show ?thesis
      by (auto simp: m_rescope_def fun_eq_iff option.map_comp comp_def)
  qed
  have res: "os_is B (m_rescope fn m) db1" if "put_rows B seriesBucket (map (\<lambda>(k, s). (k, series_row s)) ?us) db = Some db1" for db1
  proof -
    have "m(seriesBucket := m_rescope fn m seriesBucket) = m_rescope fn m" by (simp add: m_rescope_def)
    then show ?thesis using os_is_put_series [OF assms that keys] by (simp only: sm)
  qed
  show ?thesis unfolding os_apply.simps os_spec.simps os_RewriteScopes_def
    by (rule os.follow_transact_ret [OF assms(1)], unfold ss(1) option.case Let_def upd just_db_case, rule os.follow_or) (rule res)
qed

lemma put_entry_follows:
  assumes "bolt_ok B" "os_is B m db"
  shows "os_follows B (put_entry B e db) (Inr (m_entry e m))"
  unfolding put_entry_def m_entry_def
  by (rule os.follow_or) (rule os_is_put [OF assms], simp_all add: row_typed_handle)

lemma update_follows:
  assumes "bolt_ok B" "os_is B m db"
  shows "os_follows B (UpdateRegistration B e db) (update_spec e m)"
proof -
  have g: "b_get B db registrationsBucket k = map_option EntryRow (v_entry m k)" for k
    using os_isD(2) [OF assms(2)] other_rows(4) [OF assms(2)] by simp
  have "os_follows B (transact B OsTx (\<lambda>db. if b_get B db registrationsBucket (re_ID e) = None then Inl OsNotFound else put_entry B e db) db)
      (if v_entry m (re_ID e) = None then Inl OsNotFound else Inr (m_entry e m))"
    by (rule os.follow_transact [OF assms(1)]) (simp add: g os.follow_Inl put_entry_follows [OF assms])
  then show ?thesis by (simp add: UpdateRegistration_def update_spec_def os.follow_Inl)
qed

lemma entry_ops_follow:
  assumes "bolt_ok B" "os_is B m db"
  shows "os_follows B (os_apply B V now (AddClient c) db) (os_spec V now (AddClient c) m)"
    and "os_follows B (os_apply B V now (AddEntry h mode ident) db) (os_spec V now (AddEntry h mode ident) m)"
    and "os_follows B (os_apply B V now (IssueConf hs sc nm validity) db) (os_spec V now (IssueConf hs sc nm validity) m)"
    and "os_follows B (os_apply B V now (GenConsent h eid) db) (os_spec V now (GenConsent h eid) m)"
    and "os_follows B (os_apply B V now (DelEntry eid) db) (os_spec V now (DelEntry eid) m)"
proof -
  note pe = put_entry_follows [OF assms]
  show "os_follows B (os_apply B V now (AddClient c) db) (os_spec V now (AddClient c) m)"
    unfolding os_apply.simps os_spec.simps PutClient_def
    by (rule os.follow_transact [OF assms(1)], rule os.follow_or) (rule os_is_put [OF assms], simp_all add: row_typed_handle)
  have "os_follows B (transact B OsTx (put_entry B e) db) (Inr (m_entry e m))" for e
    by (rule os.follow_transact [OF assms(1), of "put_entry B e"]) (rule pe)
  then show "os_follows B (os_apply B V now (AddEntry h mode ident) db) (os_spec V now (AddEntry h mode ident) m)"
    by (simp add: CreateRegistration_def os.follow_Inl Let_def split: option.split)
  have "os_follows B (just_db (transact_ret B OsTx (\<lambda>db. case put_entry B e db of Inl err \<Rightarrow> Inl err | Inr db1 \<Rightarrow> Inr (e, db1)) db))
      (Inr (m_entry e m))" for e
  proof (rule os.follow_transact_ret [OF assms(1)])
    have "just_db (case put_entry B e db of Inl err \<Rightarrow> Inl err | Inr db1 \<Rightarrow> Inr (e, db1)) = put_entry B e db"
      by (simp add: just_db_def split: sum.split)
    with pe show "os_follows B (just_db (case put_entry B e db of Inl err \<Rightarrow> Inl err | Inr db1 \<Rightarrow> Inr (e, db1))) (Inr (m_entry e m))" by simp
  qed
  then show "os_follows B (os_apply B V now (IssueConf hs sc nm validity) db) (os_spec V now (IssueConf hs sc nm validity) m)"
    by (auto simp: IssueConfidentialClient_def just_db_def os.follow_Inl Let_def split: option.split)
  have g: "b_get B db registrationsBucket k = map_option EntryRow (v_entry m k)" for k
    using os_isD(2) [OF assms(2)] other_rows(4) [OF assms(2)] by simp
  show "os_follows B (os_apply B V now (GenConsent h eid) db) (os_spec V now (GenConsent h eid) m)"
    using update_follows [OF assms]
    by (auto simp: GenerateDomainConsent_def GetRegistration_def g or_err_def os.follow_Inl split: option.split)
  show "os_follows B (os_apply B V now (DelEntry eid) db) (os_spec V now (DelEntry eid) m)"
    unfolding os_apply.simps os_spec.simps DeleteRegistration_def
    by (rule os.follow_transact [OF assms(1)], rule os.follow_or) (rule os_is_delete [OF assms], simp_all)
qed

lemma once_follows:
  assumes "bolt_ok B" "os_is B m db" "os_follows B (f db) r"
  shows "os_follows B
    (transact B OsTx (\<lambda>db. if b_get B db os_metaBucket key \<noteq> None then Inr db
       else case f db of Inl e \<Rightarrow> Inl e | Inr db1 \<Rightarrow> or_err OsTx (b_put B os_metaBucket key (OsText ''1'') db1)) db)
    (once key m r)"
proof (rule os.follow_transact [OF assms(1)])
  have g: "b_get B db os_metaBucket key = m os_metaBucket key" using os_isD(2) [OF assms(2)] by simp
  have "os_follows B (case f db of Inl e \<Rightarrow> Inl e | Inr db1 \<Rightarrow> or_err OsTx (b_put B os_metaBucket key (OsText ''1'') db1))
      (map_sum id (m_put os_metaBucket key (OsText ''1'')) r)"
  proof (cases r)
    case (Inl e)
    then show ?thesis using assms(3) by (cases "f db") (auto simp: follows_def)
  next
    case (Inr m1)
    then show ?thesis unfolding Inr map_sum.simps
    proof (intro os.follow_then)
      show "os_follows B (f db) (Inr m1)" using assms(3) Inr by simp
      show "os_follows B (or_err OsTx (b_put B os_metaBucket key (OsText ''1'') db1)) (Inr (m_put os_metaBucket key (OsText ''1'') m1))"
        if "os_is B m1 db1" for db1
        by (rule os.follow_or) (rule os_is_put [OF assms(1) that], simp_all add: row_typed_handle)
    qed
  qed
  then show "os_follows B (if b_get B db os_metaBucket key \<noteq> None then Inr db
       else case f db of Inl e \<Rightarrow> Inl e | Inr db1 \<Rightarrow> or_err OsTx (b_put B os_metaBucket key (OsText ''1'') db1)) (once key m r)"
    using assms(2) by (simp add: once_def g os.follow_Inr)
qed

text \<open>On rows of the hashed layout the migration of the tokens has nothing to rewrite.\<close>

lemma migrate_rows_hashed: "list_all (\<lambda>(k, a, r, s). a = [] \<and> r = []) rows \<Longrightarrow> migrate_rows B rows db = Some db"
  by (induction rows) auto

lemma HashTokens_follows:
  assumes "bolt_ok B" "os_is B m db"
  shows "os_follows B (os_apply B V now HashTokens db) (os_spec V now HashTokens m)"
proof -
  let ?rows = "b_rows B db seriesBucket"
  note r = bucket_rows [OF assms(1) os_isD(1) [OF assms(2), of seriesBucket]]
  have typed: "\<exists>s. v = SeriesRow [] [] s" if "(k, v) \<in> set ?rows" for k v
    using that r(3) [of k v] series_rows(1) [OF assms(2), of k] os_isD(4) [OF assms(2)] by (auto simp: series_row_def)
  have dec: "decode_all raw_series_of ?rows = Some (map (\<lambda>(k, v). (k, the (raw_series_of v))) ?rows)"
    by (rule decode_all_Some) (use typed in \<open>fastforce simp: raw_series_of_def\<close>)
  have mig: "migrate_rows B (map (\<lambda>(k, v). (k, the (raw_series_of v))) ?rows) db = Some db"
    by (rule migrate_rows_hashed) (use typed in \<open>fastforce simp: list_all_iff raw_series_of_def\<close>)
  let ?f = "\<lambda>db. case decode_all raw_series_of (b_rows B db seriesBucket) of None \<Rightarrow> Inl OsDecode
      | Some rows \<Rightarrow> (case migrate_rows B rows db of None \<Rightarrow> Inl OsTx
         | Some db1 \<Rightarrow> or_err OsTx (delete_rows B codesBucket (map fst (b_rows B db1 codesBucket)) db1))"
  have "m_del codesBucket (set (map fst (b_rows B db codesBucket))) m = m_del codesBucket UNIV m"
  proof -
    note c = bucket_rows(3) [OF assms(1) os_isD(1) [OF assms(2), of codesBucket]]
    have "m codesBucket k = None" if "k \<notin> set (map fst (b_rows B db codesBucket))" for k
      using that c [of k] os_isD(4) [OF assms(2)] by (cases "m codesBucket k") force+
    then show ?thesis by (auto simp: m_del_def fun_eq_iff)
  qed
  then have "os_follows B (?f db) (Inr (m_del codesBucket UNIV m))"
    unfolding dec option.case mig using os_is_delete_rows [OF assms] by (intro os.follow_or) fastforce
  from once_follows [OF assms, where f = ?f, OF this, of migrationKeyTokensHashed] show ?thesis
    unfolding os_apply.simps os_spec.simps migrateHashTokensAtRest_def
    by (rule back_subst [of "\<lambda>t. os_follows B t _"])
      (auto simp: transact_def or_err_def fun_eq_iff split: option.split intro!: arg_cong [where f = "\<lambda>f. transact B OsTx f db"])
qed

lemma seed_domains_follows:
  assumes "bolt_ok B"
  shows "os_is B m db \<Longrightarrow> os_follows B (seed_domains B now consent attl rttl ds handles db)
    (seed_spec now handles ds consent attl rttl m)"
proof (induction ds arbitrary: handles m db)
  case Nil
  then show ?case by (simp add: seed_spec_def os.follow_Inr)
next
  case (Cons d0 ds)
  show ?case
  proof (cases "trim_space d0 = []")
    case True
    then show ?thesis using Cons by (simp add: seed_spec_def)
  next
    case d: False
    show ?thesis
    proof (cases handles)
      case Nil
      then show ?thesis using d by (simp add: seed_spec_def os.follow_Inl)
    next
      case (Cons eid hs)
      let ?e = "seeded now consent attl rttl eid (trim_space d0)"
      have e: "(let e0 = SetConsent consent (new_entry eid RegistrationModeDomain (trim_space d0) now) in
          if attl > 0 \<or> rttl > 0
          then e0\<lparr>re_TTL := Some \<lparr>et_AccessSeconds = whole_seconds attl, et_RefreshSeconds = whole_seconds rttl\<rparr>\<rparr> else e0) = ?e"
        by (simp add: seeded_def SetConsent_def new_entry_def Let_def)
      have s: "seed_domains B now consent attl rttl (d0 # ds) handles db =
          (case put_entry B ?e db of Inl err \<Rightarrow> Inl err | Inr db1 \<Rightarrow> seed_domains B now consent attl rttl ds hs db1)"
        using d Cons e by (simp add: Let_def)
      have "seed_spec now handles (d0 # ds) consent attl rttl m = seed_spec now hs ds consent attl rttl (m_entry ?e m)"
        using d Cons by (simp add: seed_spec_def)
      then show ?thesis unfolding s
        by (simp only:) (rule os.follow_then [OF put_entry_follows [OF assms Cons.prems]], rule Cons.IH)
    qed
  qed
qed

lemma SeedDomains_follows:
  assumes "bolt_ok B" "os_is B m db"
  shows "os_follows B (os_apply B V now (SeedDomains handles domains consent attl rttl) db)
    (os_spec V now (SeedDomains handles domains consent attl rttl) m)"
  unfolding os_apply.simps os_spec.simps SeedDomainRegistrationsFromDomains_def
  by (rule once_follows [OF assms, where f = "seed_domains B now consent attl rttl domains handles"])
    (rule seed_domains_follows [OF assms])

lemma os_apply_follows:
  assumes "bolt_ok B" "os_is B m db"
  shows "os_follows B (os_apply B V now op db) (os_spec V now op m)"
proof (cases op)
  case (Issue h req at rt)
  show ?thesis
  proof (cases h)
    case (Some hh)
    show ?thesis unfolding Issue Some os_apply.simps os_spec.simps option.case by (rule NewSeries_follows [OF assms])
  qed (simp add: Issue NewSeries_def just_db_def os.follow_Inl)
next
  case (Refresh h old at rt)
  show ?thesis unfolding Refresh os_apply.simps os_spec.simps by (rule Rotate_follows [OF assms])
next
  case (RevokeEmail e)
  show ?thesis unfolding RevokeEmail os_apply.simps os_spec.simps by (rule RevokeEmail_follows [OF assms])
next
  case (UpdEntry e)
  show ?thesis unfolding UpdEntry os_apply.simps os_spec.simps by (rule update_follows [OF assms])
qed (simp_all only: code_ops_follow [OF assms] revoke_ops_follow [OF assms] Rescope_os_follows [OF assms] entry_ops_follow [OF assms]
    HashTokens_follows [OF assms] SeedDomains_follows [OF assms])

end
