(* ===== verification/OAuth_Tokens.thy ===== *)
theory OAuth_Tokens
  imports OAuth_Store
begin

text \<open>
  What the token store keeps over any history of its operations: handle tables and series agree,
  superseded handles and exchanged codes stay dead, a revocation cuts exactly whom it names, and
  lifetimes stay positive.
\<close>

section \<open>Handles and series agree\<close>

text \<open>A handle table names exactly the series whose current token has that hash.\<close>

definition linked_by :: "(string \<Rightarrow> string option) \<Rightarrow> (string \<Rightarrow> series option) \<Rightarrow> (series \<Rightarrow> string) \<Rightarrow> bool" where
  "linked_by P S f \<longleftrightarrow> (\<forall>h sid. P h = Some sid \<longleftrightarrow> (\<exists>s. S sid = Some s \<and> f s = h))"

definition linked :: "os_table \<Rightarrow> bool" where
  "linked m \<longleftrightarrow>
     linked_by (v_access m) (v_series m) sr_AccessTokenHash \<and> linked_by (v_refresh m) (v_series m) sr_RefreshTokenHash \<and>
     (\<forall>k s. v_series m k = Some s \<longrightarrow> sr_AccessTokenHash s \<noteq> [] \<and> sr_RefreshTokenHash s \<noteq> [])"

text \<open>The random handles are new: no stored token has their hash.\<close>

definition fresh :: "os_op \<Rightarrow> os_table \<Rightarrow> bool" where
  "fresh op m \<longleftrightarrow>
     (case op of
        Issue (Some (sid, a, r)) req at rt \<Rightarrow>
          a \<noteq> [] \<and> r \<noteq> [] \<and> v_series m sid = None \<and> v_access m (hashHandle a) = None \<and> v_refresh m (hashHandle r) = None
      | Refresh (Some (a, r)) old at rt \<Rightarrow>
          a \<noteq> [] \<and> r \<noteq> [] \<and> v_access m (hashHandle a) = None \<and> v_refresh m (hashHandle r) = None
      | _ \<Rightarrow> True)"

lemma hashHandle_nonempty [simp]: "hashHandle h = [] \<longleftrightarrow> h = []"
  by (cases "h = []") (auto simp: hashHandle_def dest: arg_cong [where f = length])

lemma linked_byD: "linked_by P S f \<Longrightarrow> P h = Some sid \<longleftrightarrow> (\<exists>s. S sid = Some s \<and> f s = h)"
  by (simp add: linked_by_def)

lemma linked_by_delete:
  assumes "linked_by P S f" "\<And>k s. S k = Some s \<Longrightarrow> sr_SeriesID s = k" "\<And>s. s \<in> D \<Longrightarrow> \<exists>k. S k = Some s"
  shows "linked_by (\<lambda>h. if h \<in> f ` D then None else P h) (\<lambda>k. if k \<in> sr_SeriesID ` D then None else S k) f"
proof -
  have "f s \<in> f ` D \<longleftrightarrow> sid \<in> sr_SeriesID ` D" if "S sid = Some s" for sid s
  proof
    assume "f s \<in> f ` D"
    then obtain s' where s': "s' \<in> D" "f s' = f s" by auto
    from assms(3) [OF s'(1)] obtain k where k: "S k = Some s'" ..
    have "P (f s) = Some sid" "P (f s) = Some k" using linked_byD [OF assms(1)] that k s'(2) by auto
    then have "sr_SeriesID s' = sid" using assms(2) [OF k] by simp
    with s'(1) show "sid \<in> sr_SeriesID ` D" by auto
  next
    assume "sid \<in> sr_SeriesID ` D"
    then obtain s' where s': "s' \<in> D" "sr_SeriesID s' = sid" by auto
    from assms(3) [OF s'(1)] assms(2) s'(2) have "S sid = Some s'" by auto
    with that s'(1) show "f s \<in> f ` D" by auto
  qed
  then show ?thesis using linked_byD [OF assms(1)] by (auto simp: linked_by_def)
qed

lemma linked_by_put:
  assumes "linked_by P S f" "P (f rec) = None"
    and "S sid = None \<and> P' = P \<or> (\<exists>s. S sid = Some s \<and> P' = P(f s := None))"
  shows "linked_by (P'(f rec \<mapsto> sid)) (S(sid \<mapsto> rec)) f"
proof -
  note l = linked_byD [OF assms(1)]
  have new: "S k = Some s \<Longrightarrow> f s \<noteq> f rec" for k s using l [of "f rec" k] assms(2) by auto
  show ?thesis using assms(3)
  proof (elim disjE conjE exE)
    assume a: "S sid = None" "P' = P"
    show ?thesis unfolding linked_by_def
    proof (intro allI)
      fix h k
      show "((P'(f rec \<mapsto> sid)) h = Some k) = (\<exists>s. (S(sid \<mapsto> rec)) k = Some s \<and> f s = h)"
        using l [of h k] new [of k] a by auto
    qed
  next
    fix s0 assume a: "S sid = Some s0" "P' = P(f s0 := None)"
    show ?thesis unfolding linked_by_def
    proof (intro allI)
      fix h k
      have one: "S k = Some s \<Longrightarrow> f s = f s0 \<Longrightarrow> k = sid" for s using l [of "f s0" k] l [of "f s0" sid] a by auto
      show "((P'(f rec \<mapsto> sid)) h = Some k) = (\<exists>s. (S(sid \<mapsto> rec)) k = Some s \<and> f s = h)"
      proof (cases "h = f rec")
        case True
        then show ?thesis using new [of k] by auto
      next
        case False
        have "P' h = Some k \<longleftrightarrow> k \<noteq> sid \<and> (\<exists>s. S k = Some s \<and> f s = h)"
        proof (cases "h = f s0")
          case True
          then show ?thesis using one a(2) by auto
        next
          case h: False
          then have "P' h = P h" using a(2) by simp
          with l [of h k] h a(1) show ?thesis by (cases "k = sid") auto
        qed
        with False show ?thesis by (cases "k = sid") auto
      qed
    qed
  qed
qed

lemma linked_by_map:
  assumes "linked_by P S f" "\<And>s. f (g s) = f s"
  shows "linked_by P (\<lambda>k. map_option g (S k)) f"
  unfolding linked_by_def
proof (intro allI)
  fix h sid
  show "P h = Some sid \<longleftrightarrow> (\<exists>s. map_option g (S sid) = Some s \<and> f s = h)"
    unfolding linked_byD [OF assms(1), of h sid] by (cases "S sid") (auto simp: assms(2))
qed

lemma views_put_other:
  "n \<noteq> seriesBucket \<Longrightarrow> v_series (m_put n k v m) = v_series m" "n \<noteq> accessBucket \<Longrightarrow> v_access (m_put n k v m) = v_access m"
  "n \<noteq> refreshBucket \<Longrightarrow> v_refresh (m_put n k v m) = v_refresh m" "n \<noteq> seriesBucket \<Longrightarrow> v_series (m_del n ks m) = v_series m"
  "n \<noteq> accessBucket \<Longrightarrow> v_access (m_del n ks m) = v_access m" "n \<noteq> refreshBucket \<Longrightarrow> v_refresh (m_del n ks m) = v_refresh m"
  by (auto simp: v_defs fun_eq_iff)

lemma views_delSeries:
  "v_series (m_delSeries S m) = (\<lambda>k. if k \<in> sr_SeriesID ` S then None else v_series m k)"
  "v_access (m_delSeries S m) = (\<lambda>h. if h \<in> sr_AccessTokenHash ` S then None else v_access m h)"
  "v_refresh (m_delSeries S m) = (\<lambda>h. if h \<in> sr_RefreshTokenHash ` S then None else v_refresh m h)"
  by (auto simp: v_defs m_delSeries_def fun_eq_iff)

lemma views_putSeries:
  "v_series (m_putSeries rec oa orf m) = (v_series m)(sr_SeriesID rec \<mapsto> rec)"
  "v_access (m_putSeries rec oa orf m) = ((if oa = [] then v_access m else (v_access m)(oa := None))(sr_AccessTokenHash rec \<mapsto> sr_SeriesID rec))"
  "v_refresh (m_putSeries rec oa orf m) = ((if orf = [] then v_refresh m else (v_refresh m)(orf := None))(sr_RefreshTokenHash rec \<mapsto> sr_SeriesID rec))"
  by (auto simp: v_defs m_putSeries_def fun_eq_iff)

lemma views_rescope:
  "v_series (m_rescope fn m) = (\<lambda>k. map_option (\<lambda>s. s\<lparr>sr_Scope := fn (sr_Scope s)\<rparr>) (v_series m k))"
  "v_access (m_rescope fn m) = v_access m" "v_refresh (m_rescope fn m) = v_refresh m"
proof -
  show "v_series (m_rescope fn m) = (\<lambda>k. map_option (\<lambda>s. s\<lparr>sr_Scope := fn (sr_Scope s)\<rparr>) (v_series m k))"
  proof
    show "v_series (m_rescope fn m) k = map_option (\<lambda>s. s\<lparr>sr_Scope := fn (sr_Scope s)\<rparr>) (v_series m k)" for k
    proof -
      have "v_series (m_rescope fn m) k = Option.bind (map_option (\<lambda>s. series_row (s\<lparr>sr_Scope := fn (sr_Scope s)\<rparr>)) (v_series m k)) series_of"
        unfolding v_series_def [of "m_rescope fn m"] by (simp add: m_rescope_def)
      then show ?thesis by (cases "v_series m k") simp_all
    qed
  qed
  show "v_access (m_rescope fn m) = v_access m" "v_refresh (m_rescope fn m) = v_refresh m"
    by (auto simp: v_access_def v_refresh_def m_rescope_def fun_eq_iff)
qed

lemma views_seeded:
  "v_series (fold m_entry es m) = v_series m" "v_access (fold m_entry es m) = v_access m"
  "v_refresh (fold m_entry es m) = v_refresh m" "v_code (fold m_entry es m) = v_code m"
  "fold m_entry es m clientsBucket = m clientsBucket"
  by (induction es arbitrary: m) (simp_all add: m_entry_def views_put_other, simp_all add: v_code_def fun_eq_iff)

text \<open>What the two migrations leave of a table.\<close>

lemma once_cases:
  assumes "once key m r = Inr m'"
  obtains "m' = m" | m1 where "r = Inr m1" "m' = m_put os_metaBucket key (OsText ''1'') m1"
  using assms by (cases r) (auto simp: once_def split: if_splits)

lemma seed_spec_Inr:
  "seed_spec now handles domains consent attl rttl m = Inr m1 \<Longrightarrow> \<exists>es. m1 = fold m_entry es m"
  by (auto simp: seed_spec_def Let_def split: if_splits)

lemma migrations_keep:
  assumes "os_spec V now op m = Inr m'" "op = HashTokens \<or> op = SeedDomains handles domains consent attl rttl"
  shows "v_series m' = v_series m" "v_access m' = v_access m" "v_refresh m' = v_refresh m"
    "v_code m' = v_code m \<or> v_code m' = Map.empty" "m' clientsBucket = m clientsBucket"
proof -
  have "v_series m' = v_series m \<and> v_access m' = v_access m \<and> v_refresh m' = v_refresh m \<and>
    (v_code m' = v_code m \<or> v_code m' = Map.empty) \<and> m' clientsBucket = m clientsBucket"
    using assms(2)
  proof
    assume "op = HashTokens"
    with assms(1) show ?thesis
      by (auto elim!: once_cases simp: views_put_other) (auto simp: v_code_def fun_eq_iff)
  next
    assume "op = SeedDomains handles domains consent attl rttl"
    with assms(1) have "once migrationKeyRegistrationsSeeded m (seed_spec now handles domains consent attl rttl m) = Inr m'" by simp
    then show ?thesis
    proof (cases rule: once_cases)
      case (2 m1)
      then obtain es where "m1 = fold m_entry es m" using seed_spec_Inr by blast
      moreover have "v_code (m_put os_metaBucket key x mm) = v_code mm" "m_put os_metaBucket key x mm clientsBucket = mm clientsBucket"
        for key x mm by (simp_all add: v_code_def fun_eq_iff)
      ultimately show ?thesis using 2 by (simp add: views_put_other views_seeded)
    qed simp
  qed
  then show "v_series m' = v_series m" "v_access m' = v_access m" "v_refresh m' = v_refresh m"
    "v_code m' = v_code m \<or> v_code m' = Map.empty" "m' clientsBucket = m clientsBucket" by blast+
qed

lemma linked_delSeries:
  assumes "linked m" "\<And>k s. v_series m k = Some s \<Longrightarrow> sr_SeriesID s = k" "\<And>s. s \<in> S \<Longrightarrow> \<exists>k. v_series m k = Some s"
  shows "linked (m_delSeries S m)"
proof -
  have l: "linked_by (v_access m) (v_series m) sr_AccessTokenHash" "linked_by (v_refresh m) (v_series m) sr_RefreshTokenHash"
    "\<And>k s. v_series m k = Some s \<Longrightarrow> sr_AccessTokenHash s \<noteq> [] \<and> sr_RefreshTokenHash s \<noteq> []"
    using assms(1) by (auto simp: linked_def)
  show ?thesis unfolding linked_def views_delSeries
    using linked_by_delete [OF l(1) assms(2,3)] linked_by_delete [OF l(2) assms(2,3)] l(3) by auto
qed

lemma linked_cong:
  "v_series m' = v_series m \<Longrightarrow> v_access m' = v_access m \<Longrightarrow> v_refresh m' = v_refresh m \<Longrightarrow> linked m' = linked m"
  by (simp add: linked_def)

lemma linked_parts:
  assumes "linked m"
  shows "linked_by (v_access m) (v_series m) sr_AccessTokenHash" "linked_by (v_refresh m) (v_series m) sr_RefreshTokenHash"
    "v_series m k = Some s \<Longrightarrow> sr_AccessTokenHash s \<noteq> [] \<and> sr_RefreshTokenHash s \<noteq> []"
  using assms by (auto simp: linked_def)

lemma pointed_refresh: "pointed m refreshBucket h = Some s \<longleftrightarrow> (\<exists>sid. v_refresh m h = Some sid \<and> v_series m sid = Some s)"
  by (auto simp: pointed_def v_refresh_def bind_eq_Some_conv)

lemma pointed_access: "pointed m accessBucket h = Some s \<longleftrightarrow> (\<exists>sid. v_access m h = Some sid \<and> v_series m sid = Some s)"
  by (auto simp: pointed_def v_access_def bind_eq_Some_conv)

lemma linked_step:
  assumes "linked m" "\<And>k s. v_series m k = Some s \<Longrightarrow> sr_SeriesID s = k" "fresh op m" "os_spec V now op m = Inr m'"
  shows "linked m'"
proof -
  note l = linked_parts [OF assms(1)]
  have del: "linked (m_delSeries (matching P m) m)" for P
    by (rule linked_delSeries [OF assms(1,2)]) (auto simp: matching_def)
  have upd: "update_spec e m = Inr m' \<Longrightarrow> linked m'" for e
    using assms(1) by (auto simp: update_spec_def m_entry_def views_put_other linked_def split: if_splits)
  show ?thesis
  proof (cases op)
    case (Issue h req at rt)
    with assms(4) obtain sid a r where h: "h = Some (sid, a, r)"
      "m' = m_putSeries (issued now (sid, a, r) req at rt) [] [] m" by (auto split: option.splits)
    let ?rec = "issued now (sid, a, r) req at rt"
    have f: "sr_SeriesID ?rec = sid" "sr_AccessTokenHash ?rec = hashHandle a" "sr_RefreshTokenHash ?rec = hashHandle r"
      by (simp_all add: issued_def)
    have fr: "a \<noteq> []" "r \<noteq> []" "v_series m sid = None" "v_access m (hashHandle a) = None" "v_refresh m (hashHandle r) = None"
      using assms(3) Issue h(1) by (simp_all add: fresh_def)
    have "linked_by ((v_access m)(sr_AccessTokenHash ?rec \<mapsto> sid)) ((v_series m)(sid \<mapsto> ?rec)) sr_AccessTokenHash"
      "linked_by ((v_refresh m)(sr_RefreshTokenHash ?rec \<mapsto> sid)) ((v_series m)(sid \<mapsto> ?rec)) sr_RefreshTokenHash"
      by (rule linked_by_put [OF l(1)]; simp add: f fr) (rule linked_by_put [OF l(2)]; simp add: f fr)
    then show ?thesis unfolding linked_def h(2) views_putSeries using l(3) f fr(1,2) by (auto split: if_splits)
  next
    case (Refresh h old at rt)
    then obtain s where s: "pointed m refreshBucket (hashHandle old) = Some s" "sr_RefreshTokenHash s = hashHandle old"
      using assms(4) by (auto simp: rotate_spec_def split: option.splits if_splits)
    then obtain sid where sid: "v_series m sid = Some s" by (auto simp: pointed_refresh)
    show ?thesis
    proof (cases "now > sr_RefreshExpiry s")
      case True
      then have "m' = m_delSeries {s} m" using assms(4) Refresh s by (simp add: rotate_spec_def)
      then show ?thesis using linked_delSeries [OF assms(1,2), of "{s}"] sid by auto
    next
      case False
      then obtain a r where h: "h = Some (a, r)" and m': "m' = m_putSeries (rotated now (a, r) s at rt) (sr_AccessTokenHash s) (hashHandle old) m"
        using assms(4) Refresh s by (auto simp: rotate_spec_def split: option.splits)
      let ?rec = "rotated now (a, r) s at rt"
      have f: "sr_SeriesID ?rec = sid" "sr_AccessTokenHash ?rec = hashHandle a" "sr_RefreshTokenHash ?rec = hashHandle r"
        using assms(2) [OF sid] by (simp_all add: rotated_def)
      have fr: "a \<noteq> []" "r \<noteq> []" "v_access m (hashHandle a) = None" "v_refresh m (hashHandle r) = None"
        using assms(3) Refresh h by (simp_all add: fresh_def)
      have ne: "sr_AccessTokenHash s \<noteq> []" "hashHandle old \<noteq> []" using l(3) [OF sid] s(2) by auto
      have "linked_by (((v_access m)(sr_AccessTokenHash s := None))(sr_AccessTokenHash ?rec \<mapsto> sid)) ((v_series m)(sid \<mapsto> ?rec)) sr_AccessTokenHash"
        by (rule linked_by_put [OF l(1)]) (auto simp: f fr sid)
      moreover have "linked_by (((v_refresh m)(hashHandle old := None))(sr_RefreshTokenHash ?rec \<mapsto> sid)) ((v_series m)(sid \<mapsto> ?rec)) sr_RefreshTokenHash"
        by (rule linked_by_put [OF l(2)]) (auto simp: f fr sid s(2) [symmetric])
      ultimately show ?thesis unfolding linked_def m' views_putSeries using l(3) f fr(1,2) ne
        by (simp only: if_False) (auto split: if_splits)
    qed
  next
    case (RevokeS sid)
    show ?thesis
    proof (cases "v_series m sid")
      case (Some s)
      then show ?thesis using assms(4) RevokeS linked_delSeries [OF assms(1,2), of "{s}"] by auto
    qed (use assms(1,4) RevokeS in simp)
  next
    case (RevokeEmail e)
    let ?m1 = "m_delSeries (matching (\<lambda>s. email_match V e (sr_PrincipalEmail s)) m) m"
    have "linked (m_del codesBucket (email_codes V e m) ?m1) = linked ?m1"
      by (rule linked_cong) (simp_all add: views_put_other)
    with del RevokeEmail assms(1,4) show ?thesis by (auto split: if_splits)
  next
    case (Rescope fn)
    then have m': "m' = m_rescope fn m" using assms(4) by simp
    show ?thesis unfolding linked_def m' views_rescope
      using linked_by_map [OF l(1), of "\<lambda>s. s\<lparr>sr_Scope := fn (sr_Scope s)\<rparr>"] linked_by_map [OF l(2), of "\<lambda>s. s\<lparr>sr_Scope := fn (sr_Scope s)\<rparr>"] l(3)
      by auto
  next
    case (GenConsent h eid)
    then show ?thesis using assms(4) upd by (auto split: option.splits if_splits)
  next
    case (UpdEntry e)
    then show ?thesis using assms(4) upd by simp
  next
    case (TakeC c)
    then have "m' = m_del codesBucket {hashHandle c} m" using assms(4) by (auto split: option.splits)
    then show ?thesis using assms(1) by (simp add: linked_def views_put_other)
  next
    case HashTokens
    note k = migrations_keep(1-3) [OF assms(4) disjI1 [OF HashTokens]]
    show ?thesis unfolding linked_cong [OF k] by (rule assms(1))
  next
    case (SeedDomains hs ds c at rt)
    note k = migrations_keep(1-3) [OF assms(4) disjI2 [OF SeedDomains]]
    show ?thesis unfolding linked_cong [OF k] by (rule assms(1))
  next
    case (AddEntry h mode ident)
    then show ?thesis using assms(1,4) by (auto simp: m_entry_def views_put_other linked_def split: if_splits option.splits)
  next
    case (IssueConf h sc nm v)
    then show ?thesis using assms(1,4) by (auto simp: m_entry_def views_put_other linked_def split: if_splits option.splits)
  qed (use assms(1,4) del in \<open>auto simp: views_put_other linked_def [symmetric] Let_def cong: linked_cong split: if_splits\<close>)
qed


section \<open>Histories\<close>

lemma os_apply_Inr:
  assumes "bolt_ok B" "os_ok B db" "os_apply B V now op db = Inr db'"
  shows "os_ok B db'" "os_spec V now op (bget B db) = Inr (bget B db')"
proof -
  have "os_is B (bget B db) db" using assms(2) by (simp add: os_is_def)
  from os_apply_follows [OF assms(1) this, of V now op] assms(3)
  show "os_ok B db'" "os_spec V now op (bget B db) = Inr (bget B db')"
    by (auto simp: follows_def os_is_def split: sum.splits)
qed

text \<open>
  C19: the token store is a table of rows in seven buckets: on a store of the hashed layout, every
  operation that changes it, the two one-time migrations included, does to the table what \<open>os_spec\<close> says,
  or fails with that error, or fails in the database and changes nothing.
\<close>

theorem tokens_refine_table:
  assumes "bolt_ok B" "os_ok B db"
  shows "case os_apply B V now op db of
      Inr db' \<Rightarrow> os_ok B db' \<and> os_spec V now op (bget B db) = Inr (bget B db')
    | Inl e \<Rightarrow> e = OsTx \<or> os_spec V now op (bget B db) = Inl e"
proof -
  have "os_is B (bget B db) db" using assms(2) by (simp add: os_is_def)
  from os_apply_follows [OF assms(1) this, of V now op] show ?thesis
    by (auto simp: follows_def os_is_def split: sum.splits)
qed

definition os_next :: "('db, os_row) bolt \<Rightarrow> os_env \<Rightarrow> int \<times> os_op \<Rightarrow> 'db \<Rightarrow> 'db" where
  "os_next B V p db = (case os_apply B V (fst p) (snd p) db of Inl e \<Rightarrow> db | Inr db1 \<Rightarrow> db1)"

fun os_run :: "('db, os_row) bolt \<Rightarrow> os_env \<Rightarrow> (int \<times> os_op) list \<Rightarrow> 'db \<Rightarrow> 'db" where
  "os_run B V [] db = db"
| "os_run B V (p # ps) db = os_run B V ps (os_next B V p db)"

text \<open>Every operation of the history draws handles that are new when it runs.\<close>

fun all_fresh :: "('db, os_row) bolt \<Rightarrow> os_env \<Rightarrow> (int \<times> os_op) list \<Rightarrow> 'db \<Rightarrow> bool" where
  "all_fresh B V [] db = True"
| "all_fresh B V (p # ps) db = (fresh (snd p) (bget B db) \<and> all_fresh B V ps (os_next B V p db))"

lemma os_next_keeps:
  assumes "bolt_ok B" "os_ok B db" "Q (bget B db)"
    and "\<And>m'. os_spec V (fst p) (snd p) (bget B db) = Inr m' \<Longrightarrow> Q m'"
  shows "os_ok B (os_next B V p db) \<and> Q (bget B (os_next B V p db))"
proof (cases "os_apply B V (fst p) (snd p) db")
  case (Inl e)
  then show ?thesis using assms(2,3) by (simp add: os_next_def)
next
  case (Inr db1)
  then show ?thesis using os_apply_Inr [OF assms(1,2) Inr] assms(4) by (simp add: os_next_def)
qed

lemma run_keeps:
  assumes "bolt_ok B" "\<And>now op m m'. Q m \<Longrightarrow> R op \<Longrightarrow> os_spec V now op m = Inr m' \<Longrightarrow> Q m'"
  shows "os_ok B db \<Longrightarrow> Q (bget B db) \<Longrightarrow> list_all (R \<circ> snd) ops \<Longrightarrow>
    os_ok B (os_run B V ops db) \<and> Q (bget B (os_run B V ops db))"
proof (induction ops arbitrary: db)
  case (Cons p ops)
  have "os_ok B (os_next B V p db) \<and> Q (bget B (os_next B V p db))"
    by (rule os_next_keeps [OF assms(1) Cons.prems(1), of Q, OF Cons.prems(2)]) (use Cons.prems(2,3) assms(2) in auto)
  with Cons.IH Cons.prems(3) show ?case by simp
qed simp

lemma ids_of_ok:
  assumes "os_ok B db"
  shows "v_series (bget B db) k = Some s \<Longrightarrow> sr_SeriesID s = k"
  using series_rows(2) [of B "bget B db" db] assms by (simp add: os_is_def)

lemma run_linked:
  assumes "bolt_ok B"
  shows "os_ok B db \<Longrightarrow> linked (bget B db) \<Longrightarrow> all_fresh B V ops db \<Longrightarrow>
    os_ok B (os_run B V ops db) \<and> linked (bget B (os_run B V ops db))"
proof (induction ops arbitrary: db)
  case (Cons p ops)
  have "os_ok B (os_next B V p db) \<and> linked (bget B (os_next B V p db))"
    by (rule os_next_keeps [OF assms Cons.prems(1), of linked, OF Cons.prems(2)])
       (rule linked_step [OF Cons.prems(2) ids_of_ok [OF Cons.prems(1)]], use Cons.prems(3) in auto)
  with Cons.IH Cons.prems(3) show ?case by simp
qed simp


lemma linked_pointed:
  assumes "linked m"
  shows "pointed m accessBucket h = Some s \<longleftrightarrow> (\<exists>sid. v_series m sid = Some s) \<and> sr_AccessTokenHash s = h"
    "pointed m refreshBucket h = Some s \<longleftrightarrow> (\<exists>sid. v_series m sid = Some s) \<and> sr_RefreshTokenHash s = h"
  unfolding pointed_access pointed_refresh
    linked_byD [OF linked_parts(1) [OF assms], of h] linked_byD [OF linked_parts(2) [OF assms], of h] by auto

lemma Lookup_pointed:
  assumes "os_ok B db" "linked (bget B db)"
  shows "Lookup B now tok db = Inr s \<longleftrightarrow> pointed (bget B db) accessBucket (hashHandle tok) = Some s \<and> now \<le> sr_AccessExpiry s"
    "RefreshClientID B tok db = Some c \<longleftrightarrow> (\<exists>s. pointed (bget B db) refreshBucket (hashHandle tok) = Some s \<and> sr_ClientID s = c)"
proof -
  have i: "os_is B (bget B db) db" using assms(1) by (simp add: os_is_def)
  show "Lookup B now tok db = Inr s \<longleftrightarrow> pointed (bget B db) accessBucket (hashHandle tok) = Some s \<and> now \<le> sr_AccessExpiry s"
  proof (cases "pointed (bget B db) accessBucket (hashHandle tok)")
    case (Some x)
    with linked_pointed(1) [OF assms(2), of "hashHandle tok" x] Some show ?thesis
      by (auto simp: Lookup_def read_series_pointed [OF i])
  qed (simp add: Lookup_def read_series_pointed [OF i])
  show "RefreshClientID B tok db = Some c \<longleftrightarrow> (\<exists>s. pointed (bget B db) refreshBucket (hashHandle tok) = Some s \<and> sr_ClientID s = c)"
  proof (cases "pointed (bget B db) refreshBucket (hashHandle tok)")
    case (Some x)
    with linked_pointed(2) [OF assms(2), of "hashHandle tok" x] show ?thesis
      by (auto simp: RefreshClientID_def read_series_pointed [OF i])
  qed (simp add: RefreshClientID_def read_series_pointed [OF i])
qed

text \<open>
  C20: over any history that draws new handles, the handle tables and the series stay in step: an
  access token authenticates exactly the stored series whose current access token it is, up to its
  expiry, and a refresh token names exactly the client of the series whose current refresh token it is.
\<close>

theorem tokens_stay_linked:
  assumes "bolt_ok B" "os_ok B db" "linked (bget B db)" "all_fresh B V ops db"
  shows "linked (bget B (os_run B V ops db)) \<and>
    (Lookup B now tok (os_run B V ops db) = Inr s \<longleftrightarrow>
       (\<exists>sid. v_series (bget B (os_run B V ops db)) sid = Some s) \<and> sr_AccessTokenHash s = hashHandle tok \<and> now \<le> sr_AccessExpiry s) \<and>
    (RefreshClientID B tok (os_run B V ops db) = Some c \<longleftrightarrow>
       (\<exists>sid t. v_series (bget B (os_run B V ops db)) sid = Some t \<and> sr_RefreshTokenHash t = hashHandle tok \<and> sr_ClientID t = c))"
proof -
  have ok: "os_ok B (os_run B V ops db)" and l: "linked (bget B (os_run B V ops db))"
    using run_linked [OF assms] by auto
  show ?thesis unfolding Lookup_pointed [OF ok l] linked_pointed [OF l] using l by auto
qed

section \<open>Superseded handles\<close>

definition new_access :: "os_op \<Rightarrow> string option" where
  "new_access op =
     (case op of Issue (Some (sid, a, r)) _ _ _ \<Rightarrow> Some (hashHandle a) | Refresh (Some (a, r)) _ _ _ \<Rightarrow> Some (hashHandle a) | _ \<Rightarrow> None)"

definition new_refresh :: "os_op \<Rightarrow> string option" where
  "new_refresh op =
     (case op of Issue (Some (sid, a, r)) _ _ _ \<Rightarrow> Some (hashHandle r) | Refresh (Some (a, r)) _ _ _ \<Rightarrow> Some (hashHandle r) | _ \<Rightarrow> None)"

definition new_code :: "os_op \<Rightarrow> string option" where
  "new_code op = (case op of PutC c _ \<Rightarrow> Some (hashHandle c) | _ \<Rightarrow> None)"

lemma v_code_keeps [simp]:
  "v_code (m_delSeries S m) = v_code m" "v_code (m_putSeries rec oa orf m) = v_code m" "v_code (m_rescope fn m) = v_code m"
  "v_code (m_entry e m) = v_code m"
  by (auto simp: v_code_def m_delSeries_def m_putSeries_def m_rescope_def m_entry_def fun_eq_iff)

lemma v_code_del: "v_code (m_del codesBucket ks m) h = (if h \<in> ks then None else v_code m h)"
  by (simp add: v_code_def)

lemma views_entry [simp]:
  "v_series (m_entry e m) = v_series m" "v_access (m_entry e m) = v_access m" "v_refresh (m_entry e m) = v_refresh m"
  by (simp_all add: m_entry_def views_put_other)

lemma dead_step:
  assumes "os_spec V now op m = Inr m'"
  shows "v_access m h = None \<Longrightarrow> new_access op \<noteq> Some h \<Longrightarrow> v_access m' h = None"
    and "v_refresh m h = None \<Longrightarrow> new_refresh op \<noteq> Some h \<Longrightarrow> v_refresh m' h = None"
    and "v_code m h = None \<Longrightarrow> new_code op \<noteq> Some h \<Longrightarrow> v_code m' h = None"
proof -
  have upd: "update_spec e m = Inr m' \<Longrightarrow> v_access m' = v_access m \<and> v_refresh m' = v_refresh m \<and> v_code m' = v_code m" for e
    by (auto simp: update_spec_def split: if_splits)
  have 1: "(v_access m h = None \<longrightarrow> new_access op \<noteq> Some h \<longrightarrow> v_access m' h = None) \<and>
    (v_refresh m h = None \<longrightarrow> new_refresh op \<noteq> Some h \<longrightarrow> v_refresh m' h = None) \<and>
    (v_code m h = None \<longrightarrow> new_code op \<noteq> Some h \<longrightarrow> v_code m' h = None)"
  proof (cases op)
    case (Issue x req at rt)
    then show ?thesis using assms
      by (auto simp: new_access_def new_refresh_def views_putSeries issued_def split: option.splits)
  next
    case (Refresh x old at rt)
    then show ?thesis using assms
      by (auto simp: new_access_def new_refresh_def views_putSeries views_delSeries rotated_def rotate_spec_def
          split: option.splits if_splits)
  next
    case (GenConsent x eid)
    then show ?thesis using assms upd by (auto split: option.splits if_splits)
  next
    case (UpdEntry e)
    then show ?thesis using assms upd by auto
  next
    case (RevokeEmail e)
    then show ?thesis using assms by (auto simp: views_put_other views_delSeries v_code_del split: if_splits)
  next
    case (PutC c rec)
    then show ?thesis using assms by (auto simp: new_code_def views_put_other v_code_def)
  next
    case (TakeC c)
    then show ?thesis using assms by (auto simp: views_put_other v_code_def split: option.splits)
  next
    case HashTokens
    note k = migrations_keep [OF assms disjI1 [OF HashTokens]]
    show ?thesis using k(4) by (auto simp: k(1-3))
  next
    case (SeedDomains hs ds c at rt)
    note k = migrations_keep [OF assms disjI2 [OF SeedDomains]]
    show ?thesis using k(4) by (auto simp: k(1-3))
  next
    case (AddEntry x mode ident)
    then show ?thesis using assms by (auto split: option.splits if_splits)
  next
    case (IssueConf x sc nm v)
    then show ?thesis using assms by (auto split: option.splits if_splits)
  next
    case (AddClient c)
    then show ?thesis using assms by (auto simp: views_put_other v_code_def)
  next
    case (DelEntry eid)
    then show ?thesis using assms by (auto simp: views_put_other v_code_def)
  qed (use assms in \<open>auto simp: views_delSeries views_rescope Let_def split: option.splits if_splits\<close>)
  show "v_access m h = None \<Longrightarrow> new_access op \<noteq> Some h \<Longrightarrow> v_access m' h = None"
    "v_refresh m h = None \<Longrightarrow> new_refresh op \<noteq> Some h \<Longrightarrow> v_refresh m' h = None"
    "v_code m h = None \<Longrightarrow> new_code op \<noteq> Some h \<Longrightarrow> v_code m' h = None"
    using 1 by blast+
qed


lemma run_dead:
  assumes "bolt_ok B" "os_ok B db" "list_all (\<lambda>p. new_access (snd p) \<noteq> Some h) ops" "v_access (bget B db) h = None"
  shows "os_ok B (os_run B V ops db) \<and> v_access (bget B (os_run B V ops db)) h = None"
  by (rule run_keeps [OF assms(1), of "\<lambda>m. v_access m h = None" "\<lambda>op. new_access op \<noteq> Some h"])
     (use assms(2-4) dead_step(1) in \<open>auto simp: comp_def\<close>)

lemma run_dead_refresh:
  assumes "bolt_ok B" "os_ok B db" "list_all (\<lambda>p. new_refresh (snd p) \<noteq> Some h) ops" "v_refresh (bget B db) h = None"
  shows "os_ok B (os_run B V ops db) \<and> v_refresh (bget B (os_run B V ops db)) h = None"
  by (rule run_keeps [OF assms(1), of "\<lambda>m. v_refresh m h = None" "\<lambda>op. new_refresh op \<noteq> Some h"])
     (use assms(2-4) dead_step(2) in \<open>auto simp: comp_def\<close>)

lemma run_dead_code:
  assumes "bolt_ok B" "os_ok B db" "list_all (\<lambda>p. new_code (snd p) \<noteq> Some h) ops" "v_code (bget B db) h = None"
  shows "os_ok B (os_run B V ops db) \<and> v_code (bget B (os_run B V ops db)) h = None"
  by (rule run_keeps [OF assms(1), of "\<lambda>m. v_code m h = None" "\<lambda>op. new_code op \<noteq> Some h"])
     (use assms(2-4) dead_step(3) in \<open>auto simp: comp_def\<close>)

lemma dead_handles_refused:
  assumes "os_ok B db"
  shows "v_access (bget B db) (hashHandle tok) = None \<Longrightarrow> Lookup B now tok db = Inl OsNotFound"
    "v_refresh (bget B db) (hashHandle old) = None \<Longrightarrow> Rotate B now hs old at rt db = Inl OsNotFound"
    "v_code (bget B db) (hashHandle code) = None \<Longrightarrow> TakeCode B now code db = Inl OsNotFound"
proof -
  have i: "os_is B (bget B db) db" using assms by (simp add: os_is_def)
  note p = read_series_pointed [OF i]
  show "v_access (bget B db) (hashHandle tok) = None \<Longrightarrow> Lookup B now tok db = Inl OsNotFound"
    by (simp add: Lookup_def p pointed_def v_access_def)
  show "v_refresh (bget B db) (hashHandle old) = None \<Longrightarrow> Rotate B now hs old at rt db = Inl OsNotFound"
    by (simp add: Rotate_def transact_ret_def p pointed_def v_refresh_def)
  show "v_code (bget B db) (hashHandle code) = None \<Longrightarrow> TakeCode B now code db = Inl OsNotFound"
    using os_isD(2) [OF i, of codesBucket "hashHandle code"] other_rows(3) [OF i, of "hashHandle code"]
    by (simp add: TakeCode_def transact_ret_def)
qed

lemma Rotate_success:
  assumes "bolt_ok B" "os_ok B db" "Rotate B now h old at rt db = Inr (Inr s1, db1)"
  obtains a r s0 where "h = Some (a, r)" "pointed (bget B db) refreshBucket (hashHandle old) = Some s0"
    "sr_RefreshTokenHash s0 = hashHandle old" "now \<le> sr_RefreshExpiry s0" "s1 = rotated now (a, r) s0 at rt" "os_ok B db1"
    "bget B db1 = m_putSeries s1 (sr_AccessTokenHash s0) (hashHandle old) (bget B db)"
proof -
  have i: "os_is B (bget B db) db" using assms(2) by (simp add: os_is_def)
  have op: "os_apply B V now (Refresh h old at rt) db = Inr db1" for V
    using assms(3) by (simp add: just_db_def)
  obtain s0 a r where s: "pointed (bget B db) refreshBucket (hashHandle old) = Some s0" "sr_RefreshTokenHash s0 = hashHandle old"
    "now \<le> sr_RefreshExpiry s0" "h = Some (a, r)" "s1 = rotated now (a, r) s0 at rt"
    using assms(3) read_series_pointed [OF i, of refreshBucket "hashHandle old"]
    by (auto simp: Rotate_def transact_ret_def rotated_def Let_def split: option.splits sum.splits if_splits)
  from os_apply_Inr [OF assms(1,2) op] s
  have "os_ok B db1" "bget B db1 = m_putSeries s1 (sr_AccessTokenHash s0) (hashHandle old) (bget B db)"
    by (auto simp: rotate_spec_def)
  with s that show ?thesis by blast
qed

text \<open>
  C21: a rotated pair is dead for good: after a refresh token was exchanged, neither it nor the access
  token that was issued with it works again, whatever happens to the store afterwards (as long as
  nothing is issued with the same hash), while the handles it was exchanged for are in force: right after
  the exchange the new access token authenticates the rotated series up to its expiry, the new refresh
  token names the client the old one named, and client, scope and person are unchanged.
\<close>

theorem superseded_handles_stay_dead:
  assumes "bolt_ok B" "os_ok B db" "linked (bget B db)" "fresh (Refresh h old at rt) (bget B db)"
    and "Rotate B now h old at rt db = Inr (Inr s1, db1)"
    and "Lookup B now0 tok db = Inr s" "sr_SeriesID s = sr_SeriesID s1"
    and "list_all (\<lambda>p. new_access (snd p) \<noteq> Some (hashHandle tok)) ops" "list_all (\<lambda>p. new_refresh (snd p) \<noteq> Some (hashHandle old)) ops"
  shows "Lookup B now' tok (os_run B V ops db1) = Inl OsNotFound \<and>
    Rotate B now' h' old at' rt' (os_run B V ops db1) = Inl OsNotFound \<and>
    (\<exists>newAccess newRefresh. h = Some (newAccess, newRefresh) \<and>
       (Lookup B now' newAccess db1 = (if now' \<le> now + at then Inr s1 else Inl OsExpired)) \<and>
       RefreshClientID B newRefresh db1 = RefreshClientID B old db \<and>
       RefreshClientID B newRefresh db1 = Some (sr_ClientID s)) \<and>
    sr_ClientID s1 = sr_ClientID s \<and> sr_Scope s1 = sr_Scope s \<and> sr_PrincipalEmail s1 = sr_PrincipalEmail s"
proof (rule Rotate_success [OF assms(1,2,5)])
  fix a r s0
  assume h: "h = Some (a, r)" and p: "pointed (bget B db) refreshBucket (hashHandle old) = Some s0"
    and o: "sr_RefreshTokenHash s0 = hashHandle old" and s1: "s1 = rotated now (a, r) s0 at rt" and ok: "os_ok B db1"
    and db1: "bget B db1 = m_putSeries s1 (sr_AccessTokenHash s0) (hashHandle old) (bget B db)"
  from p obtain k0 where k0: "v_series (bget B db) k0 = Some s0" by (auto simp: pointed_refresh)
  have "pointed (bget B db) accessBucket (hashHandle tok) = Some s" using assms(6) Lookup_pointed(1) [OF assms(2,3)] by blast
  then obtain k where k: "v_series (bget B db) k = Some s" "v_access (bget B db) (hashHandle tok) = Some k" "sr_AccessTokenHash s = hashHandle tok"
    using linked_pointed(1) [OF assms(3)] by (auto simp: pointed_access)
  have "k = k0" using ids_of_ok [OF assms(2) k(1)] ids_of_ok [OF assms(2) k0] assms(7) s1 by (simp add: rotated_def)
  with k k0 have s: "s0 = s" by simp
  have f: "v_access (bget B db) (hashHandle a) = None" "v_refresh (bget B db) (hashHandle r) = None"
    using assms(4) h by (simp_all add: fresh_def)
  have r0: "v_refresh (bget B db) (hashHandle old) \<noteq> None" using p by (auto simp: pointed_refresh)
  have ne: "hashHandle tok \<noteq> []" "hashHandle old \<noteq> []" using linked_parts(3) [OF assms(3) k0] o s k(3) by auto
  have "v_access (bget B db1) (hashHandle tok) = None"
    using f(1) k(2,3) ne s by (auto simp: db1 views_putSeries s1 rotated_def)
  moreover have "v_refresh (bget B db1) (hashHandle old) = None"
    using f(2) r0 ne by (auto simp: db1 views_putSeries s1 rotated_def)
  ultimately have "Lookup B now' tok (os_run B V ops db1) = Inl OsNotFound" "Rotate B now' h' old at' rt' (os_run B V ops db1) = Inl OsNotFound"
    using run_dead [OF assms(1) ok assms(8)] run_dead_refresh [OF assms(1) ok assms(9)] by (auto intro: dead_handles_refused)
  moreover have "linked (bget B db1)"
  proof -
    have op: "os_apply B V now (Refresh h old at rt) db = Inr db1" for V using assms(5) by (simp add: just_db_def)
    show ?thesis by (rule linked_step [OF assms(3) ids_of_ok [OF assms(2)] assms(4) os_apply_Inr(2) [OF assms(1,2) op]])
  qed
  moreover have "v_series (bget B db1) (sr_SeriesID s1) = Some s1" by (simp add: db1 views_putSeries)
  ultimately have n: "pointed (bget B db1) accessBucket (hashHandle a) = Some s1" "pointed (bget B db1) refreshBucket (hashHandle r) = Some s1"
    using linked_pointed [of "bget B db1"] s1 by (auto simp: rotated_def)
  have i: "os_is B (bget B db1) db1" using ok by (simp add: os_is_def)
  have e: "sr_AccessTokenHash s1 = hashHandle a" "sr_RefreshTokenHash s1 = hashHandle r" "sr_AccessExpiry s1 = now + at"
    "sr_ClientID s1 = sr_ClientID s0" by (simp_all add: s1 rotated_def)
  have "Lookup B now' a db1 = (if now' \<le> now + at then Inr s1 else Inl OsExpired)"
    by (simp add: Lookup_def read_series_pointed [OF i] n e)
  moreover have "RefreshClientID B r db1 = Some (sr_ClientID s)"
    by (simp add: RefreshClientID_def read_series_pointed [OF i] n e s)
  moreover have "RefreshClientID B old db = Some (sr_ClientID s)"
    using Lookup_pointed(2) [OF assms(2,3)] p s by blast
  ultimately show ?thesis using s h \<open>Lookup B now' tok (os_run B V ops db1) = Inl OsNotFound\<close>
      \<open>Rotate B now' h' old at' rt' (os_run B V ops db1) = Inl OsNotFound\<close> by (simp add: s1 rotated_def)
qed

text \<open>
  an authorization code is exchanged at most once: when an attempt finds the code (and returns it,
  or finds it expired), every later attempt fails, whatever happened in between, as long as no new
  code has the same hash.
\<close>

theorem code_single_use:
  assumes "bolt_ok B" "os_ok B db" "TakeCode B now code db = Inr (res, db1)"
    and "list_all (\<lambda>p. new_code (snd p) \<noteq> Some (hashHandle code)) ops"
  shows "TakeCode B now' code (os_run B V ops db1) = Inl OsNotFound"
proof -
  have op: "os_apply B V now (TakeC code) db = Inr db1" using assms(3) by (simp add: just_db_def)
  from os_apply_Inr [OF assms(1,2) op] have ok: "os_ok B db1" and "bget B db1 = m_del codesBucket {hashHandle code} (bget B db)"
    by (auto split: option.splits)
  then have "v_code (bget B db1) (hashHandle code) = None" by (simp add: v_code_del)
  from run_dead_code [OF assms(1) ok assms(4) this] show ?thesis by (auto intro: dead_handles_refused)
qed


lemma v_series_matching:
  assumes "os_ok B db"
  shows "v_series (m_delSeries (matching P (bget B db)) (bget B db)) k = Some s \<longleftrightarrow> v_series (bget B db) k = Some s \<and> \<not> P s"
proof -
  have "k \<in> sr_SeriesID ` matching P (bget B db) \<longleftrightarrow> P s" if "v_series (bget B db) k = Some s"
  proof
    assume "k \<in> sr_SeriesID ` matching P (bget B db)"
    then obtain s' k' where s': "sr_SeriesID s' = k" "P s'" "v_series (bget B db) k' = Some s'" by (auto simp: matching_def)
    then have "v_series (bget B db) k = Some s'" using ids_of_ok [OF assms s'(3)] by simp
    with that s'(2) show "P s" by simp
  next
    assume "P s"
    with that have "s \<in> matching P (bget B db)" by (auto simp: matching_def)
    then show "k \<in> sr_SeriesID ` matching P (bget B db)" using ids_of_ok [OF assms that] by force
  qed
  then show ?thesis by (auto simp: views_delSeries)
qed

text \<open>
  revoking a person's email cuts that person off and nobody else: after it, an access token, a
  refresh token or an authorization code resolves exactly if it did before and does not belong to that
  email (compared up to case and surrounding space).
\<close>

theorem email_revocation_exact:
  assumes "bolt_ok B" "os_ok B db" "linked (bget B db)" "RevokeByPrincipalEmail B (ov_lower V) (ov_fold V) e db = Inr (n, db1)"
    and "go_ToLower (ov_lower V) (trim_space e) \<noteq> []"
  shows "(Lookup B now tok db1 = Inr s \<longleftrightarrow> Lookup B now tok db = Inr s \<and> \<not> email_match V e (sr_PrincipalEmail s)) \<and>
    (RefreshClientID B ref db1 = Some c \<longleftrightarrow>
       (\<exists>t. pointed (bget B db) refreshBucket (hashHandle ref) = Some t \<and> sr_ClientID t = c \<and> \<not> email_match V e (sr_PrincipalEmail t))) \<and>
    (v_code (bget B db1) h = Some r \<longleftrightarrow> v_code (bget B db) h = Some r \<and> \<not> email_match V e (cr_PrincipalEmail r))"
proof -
  let ?P = "\<lambda>s. email_match V e (sr_PrincipalEmail s)" and ?m = "bget B db"
  let ?m1 = "m_delSeries (matching ?P ?m) ?m"
  have op: "os_apply B V 0 (RevokeEmail e) db = Inr db1" using assms(4) by (simp add: just_db_def)
  from os_apply_Inr [OF assms(1,2) op] assms(5)
  have ok: "os_ok B db1" and d: "bget B db1 = m_del codesBucket (email_codes V e ?m) ?m1" by auto
  have "linked ?m1"
    by (rule linked_delSeries [OF assms(3) ids_of_ok [OF assms(2)]]) (auto simp: matching_def)
  then have l: "linked (bget B db1)" unfolding d by (simp add: linked_def views_put_other)
  have vs: "v_series (bget B db1) k = Some s \<longleftrightarrow> v_series ?m k = Some s \<and> \<not> ?P s" for k s
    unfolding d by (simp add: views_put_other v_series_matching [OF assms(2)])
  have "v_code (bget B db1) h = Some r \<longleftrightarrow> v_code ?m h = Some r \<and> \<not> email_match V e (cr_PrincipalEmail r)"
    unfolding d v_code_del by (auto simp: email_codes_def)
  moreover have "Lookup B now tok db1 = Inr s \<longleftrightarrow> Lookup B now tok db = Inr s \<and> \<not> ?P s"
    unfolding Lookup_pointed [OF ok l] Lookup_pointed [OF assms(2,3)] linked_pointed [OF l] linked_pointed [OF assms(3)] vs by auto
  moreover have "RefreshClientID B ref db1 = Some c \<longleftrightarrow>
       (\<exists>t. pointed ?m refreshBucket (hashHandle ref) = Some t \<and> sr_ClientID t = c \<and> \<not> ?P t)"
    unfolding Lookup_pointed [OF ok l] linked_pointed [OF l] linked_pointed [OF assms(3)] vs by auto
  ultimately show ?thesis by blast
qed

section \<open>Lifetimes\<close>

text \<open>
  a client always gets a positive lifetime that fits the 64 bits of a duration: an entry whose
  override is absent, zero, negative or wraps around to such a value falls back to the default; below
  about 292 years an override is taken to the second.
\<close>

theorem EffectiveTTL_bounds:
  assumes "0 < da" "da < 2 ^ 63" "0 < dr" "dr < 2 ^ 63"
  shows "(case EffectiveTTL e da dr of (a, r) \<Rightarrow> 0 < a \<and> a < 2 ^ 63 \<and> 0 < r \<and> r < 2 ^ 63) \<and>
    (re_TTL e = Some t \<and> 0 < et_AccessSeconds t \<and> et_AccessSeconds t < 9223372036 \<longrightarrow>
       fst (EffectiveTTL e da dr) = et_AccessSeconds t * 1000000000)"
proof -
  have w: "seconds64 k < 2 ^ 63" for k
    using sint_less [of "(word_of_int k :: 64 word) * 1000000000"] by (simp add: seconds64_def)
  have x: "seconds64 k = k * 1000000000" if "0 < k" "k < 9223372036" for k
  proof -
    have "(word_of_int k :: 64 word) * 1000000000 = word_of_int (k * 1000000000)" by simp
    then have "seconds64 k = signed_take_bit 63 (k * 1000000000)" unfolding seconds64_def
      by (simp only: sint_sbintrunc') simp
    also have "\<dots> = k * 1000000000"
      using that by (intro signed_take_bit_int_eq_self) auto
    finally show ?thesis .
  qed
  have "case EffectiveTTL e da dr of (a, r) \<Rightarrow> 0 < a \<and> a < 2 ^ 63 \<and> 0 < r \<and> r < 2 ^ 63"
    using assms w by (auto simp: EffectiveTTL_def split: option.split)
  moreover have "re_TTL e = Some t \<and> 0 < et_AccessSeconds t \<and> et_AccessSeconds t < 9223372036 \<longrightarrow>
       fst (EffectiveTTL e da dr) = et_AccessSeconds t * 1000000000"
    by (auto simp: EffectiveTTL_def x)
  ultimately show ?thesis by blast
qed

text \<open>Past that bound the product wraps: an override of some 584 years is a third of a second.\<close>

lemma EffectiveTTL_wraps:
  "re_TTL e = Some \<lparr>et_AccessSeconds = 18446744074, et_RefreshSeconds = 0\<rparr> \<Longrightarrow>
   fst (EffectiveTTL e da dr) = 290448384"
  by (simp add: EffectiveTTL_def seconds64_def)


section \<open>Instances\<close>

definition demo_series :: series where
  "demo_series =
     \<lparr>sr_SeriesID = ''id1'', sr_Name = [], sr_AccessTokenHash = hashHandle ''abc'', sr_RefreshTokenHash = hashHandle ''abcd'',
      sr_ClientID = ''cli'', sr_PrincipalName = ''Ann'', sr_PrincipalEmail = ''a@x'', sr_Resource = [], sr_IssuedAt = 0,
      sr_AccessExpiry = 10, sr_RefreshExpiry = 100, sr_Scope = ''namespace:docs'', sr_ExtraPermissions = []\<rparr>"

definition demo_code :: code_rec where
  "demo_code = \<lparr>cr_ClientID = ''cli'', cr_RedirectURI = [], cr_CodeChallenge = [], cr_CodeChallengeMethod = [], cr_Resource = [],
     cr_PrincipalName = ''Ann'', cr_PrincipalEmail = ''a@x'', cr_Expiry = 10\<rparr>"

definition demo_tokens :: "os_row mem_db" where
  "demo_tokens =
     [(codesBucket, [(hashHandle ''code'', CodeRow demo_code)]), (seriesBucket, [(''id1'', series_row demo_series)]),
      (accessBucket, [(hashHandle ''abc'', IdRow ''id1'')]), (refreshBucket, [(hashHandle ''abcd'', IdRow ''id1'')]),
      (clientsBucket, []), (os_metaBucket, []), (registrationsBucket, [])]"

definition demo_os_env :: os_env where
  "demo_os_env = \<lparr>ov_lower = (\<lambda>c. c), ov_fold = (\<lambda>c. c), ov_parse = (\<lambda>s. None)\<rparr>"

lemma demo_tokens_bget:
  "bget mem_bolt demo_tokens n k =
     (if n = codesBucket \<and> k = hashHandle ''code'' then Some (CodeRow demo_code)
      else if n = seriesBucket \<and> k = ''id1'' then Some (series_row demo_series)
      else if n = accessBucket \<and> k = hashHandle ''abc'' then Some (IdRow ''id1'')
      else if n = refreshBucket \<and> k = hashHandle ''abcd'' then Some (IdRow ''id1'')
      else None)"
  by (simp add: bget_bview mem_bolt_view demo_tokens_def)

lemma demo_tokens_ok: "os_ok mem_bolt demo_tokens"
proof -
  have "b_bucket mem_bolt demo_tokens n" if "n \<in> set os_buckets" for n
    using that by (auto simp: os_buckets_def b_bucket_bview mem_bolt_view demo_tokens_def)
  then show ?thesis
    by (auto simp: os_ok_def demo_tokens_bget row_typed_def series_row_def demo_series_def split: if_splits)
qed

lemma demo_views:
  "v_series (bget mem_bolt demo_tokens) k = (if k = ''id1'' then Some demo_series else None)"
  "v_access (bget mem_bolt demo_tokens) k = (if k = hashHandle ''abc'' then Some ''id1'' else None)"
  "v_refresh (bget mem_bolt demo_tokens) k = (if k = hashHandle ''abcd'' then Some ''id1'' else None)"
  "v_code (bget mem_bolt demo_tokens) k = (if k = hashHandle ''code'' then Some demo_code else None)"
  by (simp_all add: v_defs demo_tokens_bget)

lemma demo_linked: "linked (bget mem_bolt demo_tokens)"
  by (auto simp: linked_def linked_by_def demo_views demo_series_def)

theorem tokens_refine_table_witness:
  "case os_apply mem_bolt demo_os_env 5 (TakeC ''code'') demo_tokens of
      Inr db' \<Rightarrow> os_ok mem_bolt db' \<and> os_spec demo_os_env 5 (TakeC ''code'') (bget mem_bolt demo_tokens) = Inr (bget mem_bolt db')
    | Inl e \<Rightarrow> e = OsTx \<or> os_spec demo_os_env 5 (TakeC ''code'') (bget mem_bolt demo_tokens) = Inl e"
  by (rule tokens_refine_table [OF mem_bolt_ok demo_tokens_ok])

theorem tokens_stay_linked_witness:
  "linked (bget mem_bolt (os_run mem_bolt demo_os_env [(5, Clean)] demo_tokens)) \<and>
   (\<exists>s. Lookup mem_bolt 5 ''abc'' (os_run mem_bolt demo_os_env [] demo_tokens) = Inr s)"
proof -
  have f: "all_fresh mem_bolt demo_os_env [(5, Clean)] demo_tokens" "all_fresh mem_bolt demo_os_env [] demo_tokens"
    by (simp_all add: fresh_def)
  have "Lookup mem_bolt 5 ''abc'' (os_run mem_bolt demo_os_env [] demo_tokens) = Inr demo_series"
    using tokens_stay_linked [where now = 5 and tok = "''abc''" and s = demo_series, OF mem_bolt_ok demo_tokens_ok demo_linked f(2)]
    by (simp add: demo_views demo_series_def)
  then show ?thesis using tokens_stay_linked [OF mem_bolt_ok demo_tokens_ok demo_linked f(1)] by auto
qed

theorem code_single_use_witness:
  "\<exists>db1. TakeCode mem_bolt 5 ''code'' demo_tokens = Inr (Inr demo_code, db1) \<and>
     TakeCode mem_bolt 6 ''code'' (os_run mem_bolt demo_os_env [(6, Clean)] db1) = Inl OsNotFound"
proof -
  have "\<exists>db1. TakeCode mem_bolt 5 ''code'' demo_tokens = Inr (Inr demo_code, db1)"
    by (simp add: TakeCode_def transact_ret_def mem_bolt_def demo_tokens_def demo_code_def Let_def)
  then obtain db1 where d: "TakeCode mem_bolt 5 ''code'' demo_tokens = Inr (Inr demo_code, db1)" by blast
  have "list_all (\<lambda>p. new_code (snd p) \<noteq> Some (hashHandle ''code'')) [(6 :: int, Clean)]" by (simp add: new_code_def)
  from code_single_use [OF mem_bolt_ok demo_tokens_ok d this] d show ?thesis by blast
qed

theorem EffectiveTTL_bounds_witness:
  "fst (EffectiveTTL ((new_entry [] [] [] 0)\<lparr>re_TTL := Some \<lparr>et_AccessSeconds = 60, et_RefreshSeconds = 0\<rparr>\<rparr>) 5 7) = 60000000000"
  using EffectiveTTL_bounds [of 5 7 "(new_entry [] [] [] 0)\<lparr>re_TTL := Some \<lparr>et_AccessSeconds = 60, et_RefreshSeconds = 0\<rparr>\<rparr>"
      "\<lparr>et_AccessSeconds = 60, et_RefreshSeconds = 0\<rparr>"] by simp

theorem email_revocation_exact_witness:
  "\<exists>n db1. RevokeByPrincipalEmail mem_bolt (\<lambda>c. c) (\<lambda>c. c) ''a@x'' demo_tokens = Inr (n, db1) \<and>
     v_code (bget mem_bolt db1) (hashHandle ''code'') = None"
proof -
  have trim: "trim_space ''a@x'' = ''a@x''" by (rule trim_space_trimmed) code_simp
  have low: "go_ToLower (\<lambda>c. c) ''a@x'' = ''a@x''"
    by (simp add: go_ToLower_def runes_def rune_string_def encode_rune_def valid_rune_def char_of_def bit_iff_odd)
  have "\<exists>n db1. RevokeByPrincipalEmail mem_bolt (\<lambda>c. c) (\<lambda>c. c) ''a@x'' demo_tokens = Inr (n, db1)"
    by (simp add: RevokeByPrincipalEmail_def trim low Let_def transact_ret_def revoke_where_def demo_tokens_def mem_bolt_def
        deleteSeries_def os_bucket_defs demo_series_def demo_code_def go_EqualFold_def series_row_def)
  then obtain n db1 where d: "RevokeByPrincipalEmail mem_bolt (\<lambda>c. c) (\<lambda>c. c) ''a@x'' demo_tokens = Inr (n, db1)" by blast
  have e: "ov_lower demo_os_env = (\<lambda>c. c)" "ov_fold demo_os_env = (\<lambda>c. c)" by (simp_all add: demo_os_env_def)
  have m: "email_match demo_os_env ''a@x'' (cr_PrincipalEmail demo_code)"
    by (simp add: email_match_def e trim low go_EqualFold_def demo_code_def)
  from d have d': "RevokeByPrincipalEmail mem_bolt (ov_lower demo_os_env) (ov_fold demo_os_env) ''a@x'' demo_tokens = Inr (n, db1)"
    by (simp only: e)
  have ne: "go_ToLower (ov_lower demo_os_env) (trim_space ''a@x'') \<noteq> []" by (simp add: e trim low)
  from email_revocation_exact [where h = "hashHandle ''code''", OF mem_bolt_ok demo_tokens_ok demo_linked d' ne] m
  have "v_code (bget mem_bolt db1) (hashHandle ''code'') \<noteq> Some r" for r
    by (auto simp: demo_views)
  then show ?thesis using d by auto
qed

theorem superseded_handles_stay_dead_witness:
  "\<exists>s1 db1. Rotate mem_bolt 5 (Some (''abcd'', ''abc'')) ''abcd'' 10 100 demo_tokens = Inr (Inr s1, db1) \<and>
     Lookup mem_bolt 6 ''abc'' (os_run mem_bolt demo_os_env [(6, Clean)] db1) = Inl OsNotFound \<and>
     RefreshClientID mem_bolt ''abc'' db1 = Some ''cli''"
proof -
  have "\<exists>s1 db1. Rotate mem_bolt 5 (Some (''abcd'', ''abc'')) ''abcd'' 10 100 demo_tokens = Inr (Inr s1, db1) \<and> sr_SeriesID s1 = ''id1''"
    by (simp add: Rotate_def transact_ret_def read_series_def mem_bolt_def demo_tokens_def demo_series_def Let_def putSeriesTx_def
        delete_unless_def os_bucket_defs series_row_def or_err_def)
  then obtain s1 db1 where d: "Rotate mem_bolt 5 (Some (''abcd'', ''abc'')) ''abcd'' 10 100 demo_tokens = Inr (Inr s1, db1)"
    "sr_SeriesID s1 = ''id1''" by blast
  have n: "sha256Hex ''abcd'' \<noteq> sha256Hex ''abc''" by (simp add: sha256Hex_abc sha256Hex_abcd)
  have f: "fresh (Refresh (Some (''abcd'', ''abc'')) ''abcd'' 10 100) (bget mem_bolt demo_tokens)"
    using n n [symmetric] by (simp add: fresh_def demo_views hashHandle_def)
  have lk: "Lookup mem_bolt 5 ''abc'' demo_tokens = Inr demo_series"
    using Lookup_pointed(1) [OF demo_tokens_ok demo_linked, of 5 "''abc''" demo_series]
    by (simp add: pointed_access demo_views) (simp add: demo_series_def)
  have i: "sr_SeriesID demo_series = sr_SeriesID s1" using d(2) by (simp add: demo_series_def)
  have o: "list_all (\<lambda>p. new_access (snd p) \<noteq> Some (hashHandle ''abc'')) [(6 :: int, Clean)]"
    "list_all (\<lambda>p. new_refresh (snd p) \<noteq> Some (hashHandle ''abcd'')) [(6 :: int, Clean)]"
    by (simp_all add: new_access_def new_refresh_def)
  have "sr_ClientID demo_series = ''cli''" by (simp add: demo_series_def)
  with superseded_handles_stay_dead [OF mem_bolt_ok demo_tokens_ok demo_linked f d(1) lk i o, of 6 demo_os_env None 0 0] d(1)
  show ?thesis by auto
qed

end
