(* ===== verification/OAuth_Endpoints.thy ===== *)
theory OAuth_Endpoints
  imports OAuth_Tokens
begin

text \<open>
  The authorization server (\<open>pkg/oauth/server.go\<close>, \<open>cimd.go\<close>, \<open>register.go\<close>, \<open>discovery.go\<close>,
  \<open>pkg/serverurl/serverurl.go\<close>): the handlers of /authorize, /token and /register over the token store.

  A request carries what the handlers read of it.  Of the libraries, \<open>url.Parse\<close>, \<open>net.ParseIP\<close>, the
  two JSON decoders, name resolution and the GET itself are parameters.  Every handler makes several calls
  of the store, each in a transaction of its own: \<open>w_others W k\<close> is what other requests do to the store
  between two of them (the two reads of \<open>DomainEntryForClient\<close> are taken together), \<open>w_now W k\<close> the readings of the clock, in the order of the calls.  Random handles
  are arguments.  Logging is left out.
\<close>

section \<open>Requests and the libraries\<close>

record registration_request =
  rr_RedirectURIs :: "string list"
  rr_TokenEndpointAuthMethod :: string
  rr_GrantTypes :: "string list"
  rr_ResponseTypes :: "string list"
  rr_ClientName :: string
  rr_ClientURI :: string
  rr_Scope :: string

text \<open>\<open>q_Form\<close> is \<open>FormValue\<close>, \<open>q_PostForm\<close> is \<open>PostFormValue\<close>: absent values read as empty.\<close>

record http_req =
  q_Method :: string
  q_ContentType :: string
  q_FormOK :: bool
  q_Form :: "string \<Rightarrow> string"
  q_PostForm :: "string \<Rightarrow> string"
  q_BasicAuth :: "(string \<times> string) option"
  q_ForwardedHost :: string
  q_ForwardedProto :: string
  q_Host :: string
  q_TLS :: bool
  q_Registration :: "registration_request option"

record client_metadata =
  cm_ClientID :: string
  cm_ClientName :: string
  cm_RedirectURIs :: "string list"
  cm_GrantTypes :: "string list"
  cm_ResponseTypes :: "string list"
  cm_TokenEndpointAuthMethod :: string
  cm_Confidential :: bool

type_synonym ip = "8 word list"

text \<open>\<open>ol_path\<close> is the path of a URL that parses.\<close>

record oauth_lib =
  ol_parse :: parse_url
  ol_path :: "string \<Rightarrow> string"
  ol_lower :: "nat \<Rightarrow> nat"
  ol_fold :: "nat \<Rightarrow> nat"
  ol_ParseIP :: "string \<Rightarrow> ip option"
  ol_SplitHostPort :: "string \<Rightarrow> (string \<times> string) option"
  ol_metadata :: "string \<Rightarrow> client_metadata option"

text \<open>
  The network as one GET sees it: the request can be built, the address it dials, the answer of the
  resolver, and the outcome of the request over a connection to an address and port: a status with the bytes
  the body delivers and whether it ends without an error.
\<close>

datatype http_reply = GetFailed | GetRedirected | GetReply nat string bool

record cimd_net =
  cn_request :: "string \<Rightarrow> bool"
  cn_addr :: "string \<Rightarrow> string"
  cn_LookupIPAddr :: "string \<Rightarrow> ip list option"
  cn_get :: "ip \<Rightarrow> string \<Rightarrow> string \<Rightarrow> http_reply"

record 'db oauth_world =
  w_lib :: oauth_lib
  w_net :: cimd_net
  w_now :: "nat \<Rightarrow> int"
  w_others :: "nat \<Rightarrow> 'db \<Rightarrow> 'db"

section \<open>The server's own URLs\<close>

definition firstForwardedValue :: "string \<Rightarrow> string" where
  "firstForwardedValue v =
     (if v = [] then []
      else trim_space (case index_byte v (CHR '','') of None \<Rightarrow> v | Some i \<Rightarrow> take i v))"

definition validHost :: "string \<Rightarrow> bool" where
  "validHost h \<longleftrightarrow>
     h \<noteq> [] \<and> set h \<inter> {CHR ''/'', CHR 0x5C, CHR '' '', CHR 0x09} = {} \<and> index_sub h ''://'' = None"

definition Base :: "parse_url \<Rightarrow> string \<Rightarrow> http_req option \<Rightarrow> string option" where
  "Base parse configured r =
     (let v = trim_space configured in
      if v \<noteq> [] then
        (case parse v of
           None \<Rightarrow> None
         | Some u \<Rightarrow> (if url_Scheme u = [] \<or> url_Host u = [] then None else Some (url_Scheme u @ ''://'' @ url_Host u)))
      else case r of
        None \<Rightarrow> None
      | Some q \<Rightarrow>
          (let host = firstForwardedValue (q_ForwardedHost q) in
           if host \<noteq> [] \<and> validHost host then
             (let proto0 = firstForwardedValue (q_ForwardedProto q);
                  proto = (if proto0 \<noteq> ''http'' \<and> proto0 \<noteq> ''https'' then ''https'' else proto0) in
              Some (proto @ ''://'' @ host))
           else if q_Host q \<noteq> [] then Some ((if q_TLS q then ''https'' else ''http'') @ ''://'' @ q_Host q)
           else None))"

definition MCPEndpointPath :: string where
  "MCPEndpointPath = ''/mcp''"

definition ResourceURL :: "string \<Rightarrow> string" where
  "ResourceURL base = base @ MCPEndpointPath"

definition AuthorizeURL :: "string \<Rightarrow> string" where
  "AuthorizeURL base = base @ ''/authorize''"

definition TokenURL :: "string \<Rightarrow> string" where
  "TokenURL base = base @ ''/token''"

definition RegistrationURL :: "string \<Rightarrow> string" where
  "RegistrationURL base = base @ ''/register''"

definition IssuerURL :: "string \<Rightarrow> string" where
  "IssuerURL base = base"

section \<open>Discovery\<close>

record resource_metadata =
  pm_Resource :: string
  pm_AuthorizationServers :: "string list"
  pm_BearerMethodsSupported :: "string list"

record as_metadata =
  am_Issuer :: string
  am_AuthorizationEndpoint :: string
  am_TokenEndpoint :: string
  am_RegistrationEndpoint :: string
  am_ResponseTypesSupported :: "string list"
  am_GrantTypesSupported :: "string list"
  am_CodeChallengeMethodsSupported :: "string list"
  am_TokenEndpointAuthMethodsSupported :: "string list"
  am_ClientIDMetadataDocumentSupported :: bool

text \<open>The answer is the document or status 503.\<close>

definition ProtectedResourceMetadataHandler :: "parse_url \<Rightarrow> string \<Rightarrow> http_req \<Rightarrow> nat + resource_metadata" where
  "ProtectedResourceMetadataHandler parse externalURL q =
     (case Base parse externalURL (Some q) of
        None \<Rightarrow> Inl 503
      | Some base \<Rightarrow>
          Inr \<lparr>pm_Resource = ResourceURL base, pm_AuthorizationServers = [IssuerURL base],
               pm_BearerMethodsSupported = [''header'']\<rparr>)"

definition advertiseDCR :: "string \<Rightarrow> bool" where
  "advertiseDCR mode \<longleftrightarrow> mode = ''dcr''"

definition AuthorizationServerMetadataHandler :: "parse_url \<Rightarrow> string \<Rightarrow> string \<Rightarrow> http_req \<Rightarrow> nat + as_metadata" where
  "AuthorizationServerMetadataHandler parse externalURL mode q =
     (case Base parse externalURL (Some q) of
        None \<Rightarrow> Inl 503
      | Some base \<Rightarrow>
          (let md = \<lparr>am_Issuer = IssuerURL base, am_AuthorizationEndpoint = AuthorizeURL base, am_TokenEndpoint = TokenURL base,
                     am_RegistrationEndpoint = [], am_ResponseTypesSupported = [''code''],
                     am_GrantTypesSupported = [''authorization_code'', ''refresh_token''],
                     am_CodeChallengeMethodsSupported = [''S256''],
                     am_TokenEndpointAuthMethodsSupported = [''none'', ''client_secret_basic'', ''client_secret_post''],
                     am_ClientIDMetadataDocumentSupported = False\<rparr> in
           Inr (if advertiseDCR mode then md\<lparr>am_RegistrationEndpoint := RegistrationURL base\<rparr>
                else md\<lparr>am_ClientIDMetadataDocumentSupported := True\<rparr>)))"

section \<open>Addresses\<close>

text \<open>\<open>net.IP\<close>: four or sixteen bytes; nil is the empty list.\<close>

definition To4 :: "ip \<Rightarrow> ip option" where
  "To4 a =
     (if length a = 4 then Some a
      else if length a = 16 \<and> take 10 a = replicate 10 0 \<and> a ! 10 = 0xFF \<and> a ! 11 = 0xFF then Some (drop 12 a)
      else None)"

definition IPv6loopback :: ip where
  "IPv6loopback = replicate 15 0 @ [1]"

definition IPv6unspecified :: ip where
  "IPv6unspecified = replicate 16 0"

definition IsUnspecified :: "ip \<Rightarrow> bool" where
  "IsUnspecified a \<longleftrightarrow> To4 a = Some [0, 0, 0, 0] \<or> a = IPv6unspecified"

definition IsLoopback :: "ip \<Rightarrow> bool" where
  "IsLoopback a \<longleftrightarrow> (case To4 a of Some b \<Rightarrow> b ! 0 = 127 | None \<Rightarrow> a = IPv6loopback)"

unbundle bit_operations_syntax

definition IsPrivate :: "ip \<Rightarrow> bool" where
  "IsPrivate a \<longleftrightarrow>
     (case To4 a of
        Some b \<Rightarrow> b ! 0 = 10 \<or> b ! 0 = 172 \<and> b ! 1 AND 0xF0 = 16 \<or> b ! 0 = 192 \<and> b ! 1 = 168
      | None \<Rightarrow> length a = 16 \<and> a ! 0 AND 0xFE = 0xFC)"

definition IsMulticast :: "ip \<Rightarrow> bool" where
  "IsMulticast a \<longleftrightarrow>
     (case To4 a of Some b \<Rightarrow> b ! 0 AND 0xF0 = 0xE0 | None \<Rightarrow> length a = 16 \<and> a ! 0 = 0xFF)"

definition IsInterfaceLocalMulticast :: "ip \<Rightarrow> bool" where
  "IsInterfaceLocalMulticast a \<longleftrightarrow> length a = 16 \<and> a ! 0 = 0xFF \<and> a ! 1 AND 0x0F = 1"

definition IsLinkLocalMulticast :: "ip \<Rightarrow> bool" where
  "IsLinkLocalMulticast a \<longleftrightarrow>
     (case To4 a of
        Some b \<Rightarrow> b ! 0 = 224 \<and> b ! 1 = 0 \<and> b ! 2 = 0
      | None \<Rightarrow> length a = 16 \<and> a ! 0 = 0xFF \<and> a ! 1 AND 0x0F = 2)"

definition IsLinkLocalUnicast :: "ip \<Rightarrow> bool" where
  "IsLinkLocalUnicast a \<longleftrightarrow>
     (case To4 a of
        Some b \<Rightarrow> b ! 0 = 169 \<and> b ! 1 = 254
      | None \<Rightarrow> length a = 16 \<and> a ! 0 = 0xFE \<and> a ! 1 AND 0xC0 = 0x80)"

definition blockedIP :: "ip \<Rightarrow> bool" where
  "blockedIP a \<longleftrightarrow>
     a = [] \<or> IsLoopback a \<or> IsPrivate a \<or> IsLinkLocalUnicast a \<or> IsLinkLocalMulticast a \<or>
     IsUnspecified a \<or> IsMulticast a \<or> IsInterfaceLocalMulticast a"

section \<open>Client metadata documents\<close>

datatype cimd_err =
    ErrClientIDNotHTTPS | ErrUntrustedDomain | ErrBlockedAddress | ErrFetchFailed | ErrRedirectAttempted
  | ErrDocumentTooLarge | ErrInvalidDocument | ErrClientIDMismatch | ErrNoRedirectURIs

text \<open>The trusted-domain source is a closure over the token store, read when it is called.\<close>

record 'db verifier =
  vr_trusted :: "string list"
  vr_maxBytes :: nat
  vr_isBlockedIP :: "ip \<Rightarrow> bool"
  vr_trustedSrc :: "('db \<Rightarrow> string \<Rightarrow> bool) option"

definition NewVerifier :: "(nat \<Rightarrow> nat) \<Rightarrow> string list \<Rightarrow> 'db verifier" where
  "NewVerifier lower trustedDomains =
     \<lparr>vr_trusted = filter (\<lambda>d. d \<noteq> []) (map (\<lambda>d. go_ToLower lower (trim_space d)) trustedDomains),
      vr_maxBytes = 65536, vr_isBlockedIP = blockedIP, vr_trustedSrc = None\<rparr>"

definition SetTrustedSource :: "('db \<Rightarrow> string \<Rightarrow> bool) \<Rightarrow> 'db verifier \<Rightarrow> 'db verifier" where
  "SetTrustedSource fn v = v\<lparr>vr_trustedSrc := Some fn\<rparr>"

definition DomainTrusted :: "(nat \<Rightarrow> nat) \<Rightarrow> 'db verifier \<Rightarrow> 'db \<Rightarrow> string \<Rightarrow> bool" where
  "DomainTrusted lower v db host0 =
     (let host = go_ToLower lower (trim_space host0) in
      if host = [] then False
      else case vr_trustedSrc v of
        Some fn \<Rightarrow> fn db host
      | None \<Rightarrow> list_ex (\<lambda>d. covers d host) (vr_trusted v))"

text \<open>The address and the port that the connection is made to.\<close>

definition safeDial :: "'db verifier \<Rightarrow> oauth_lib \<Rightarrow> cimd_net \<Rightarrow> string \<Rightarrow> cimd_err + ip \<times> string" where
  "safeDial v L N addr =
     (case ol_SplitHostPort L addr of
        None \<Rightarrow> Inl ErrBlockedAddress
      | Some (host, port) \<Rightarrow>
          (case ol_ParseIP L host of
             Some a \<Rightarrow> (if vr_isBlockedIP v a then Inl ErrBlockedAddress else Inr (a, port))
           | None \<Rightarrow>
               (case cn_LookupIPAddr N host of
                  None \<Rightarrow> Inl ErrBlockedAddress
                | Some ips \<Rightarrow>
                    (if ips = [] \<or> list_ex (vr_isBlockedIP v) ips then Inl ErrBlockedAddress
                     else Inr (hd ips, port)))))"

definition cimd_fetch :: "'db verifier \<Rightarrow> oauth_lib \<Rightarrow> cimd_net \<Rightarrow> string \<Rightarrow> cimd_err + string" where
  "cimd_fetch v L N u =
     (if \<not> cn_request N u then Inl ErrFetchFailed
      else case safeDial v L N (cn_addr N u) of
        Inl e \<Rightarrow> Inl e
      | Inr (a, port) \<Rightarrow>
          (case cn_get N a port u of
             GetFailed \<Rightarrow> Inl ErrFetchFailed
           | GetRedirected \<Rightarrow> Inl ErrRedirectAttempted
           | GetReply status body complete \<Rightarrow>
               (if status \<noteq> 200 then Inl ErrFetchFailed
                else if \<not> complete \<and> length body \<le> vr_maxBytes v then Inl ErrFetchFailed
                else if length body > vr_maxBytes v then Inl ErrDocumentTooLarge
                else Inr body)))"

definition Verify :: "'db verifier \<Rightarrow> oauth_lib \<Rightarrow> cimd_net \<Rightarrow> 'db \<Rightarrow> string \<Rightarrow> cimd_err + client_metadata" where
  "Verify v L N db clientID =
     (case ol_parse L (trim_space clientID) of
        None \<Rightarrow> Inl ErrClientIDNotHTTPS
      | Some u \<Rightarrow>
          (if url_Scheme u \<noteq> ''https'' \<or> url_Host u = [] then Inl ErrClientIDNotHTTPS
           else if \<not> DomainTrusted (ol_lower L) v db (url_Hostname u) then Inl ErrUntrustedDomain
           else case cimd_fetch v L N (trim_space clientID) of
             Inl e \<Rightarrow> Inl e
           | Inr body \<Rightarrow>
               (case ol_metadata L body of
                  None \<Rightarrow> Inl ErrInvalidDocument
                | Some md \<Rightarrow>
                    (if trim_space (cm_ClientID md) \<noteq> clientID then Inl ErrClientIDMismatch
                     else if cm_RedirectURIs md = [] then Inl ErrNoRedirectURIs
                     else Inr md))))"

definition cimdReason :: "cimd_err \<Rightarrow> string" where
  "cimdReason e =
     (case e of
        ErrClientIDNotHTTPS \<Rightarrow> ''client_id is not an https URL''
      | ErrUntrustedDomain \<Rightarrow> ''client domain is not trusted''
      | ErrBlockedAddress \<Rightarrow> ''client address is not permitted''
      | ErrClientIDMismatch \<Rightarrow> ''metadata client_id mismatch''
      | ErrNoRedirectURIs \<Rightarrow> ''metadata declares no redirect_uris''
      | _ \<Rightarrow> ''metadata could not be retrieved'')"

section \<open>Redirect URIs\<close>

definition isLoopbackHost :: "oauth_lib \<Rightarrow> string \<Rightarrow> bool" where
  "isLoopbackHost L host \<longleftrightarrow>
     go_EqualFold (ol_fold L) host ''localhost'' \<or> (case ol_ParseIP L host of None \<Rightarrow> False | Some a \<Rightarrow> IsLoopback a)"

fun redirect_matches :: "oauth_lib \<Rightarrow> string \<Rightarrow> url \<Rightarrow> string list \<Rightarrow> bool" where
  "redirect_matches L presented pp [] = False"
| "redirect_matches L presented pp (reg # regs) =
     (if presented = reg then True
      else if \<not> isLoopbackHost L (url_Hostname pp) then redirect_matches L presented pp regs
      else case ol_parse L reg of
        None \<Rightarrow> redirect_matches L presented pp regs
      | Some rp \<Rightarrow>
          (if \<not> isLoopbackHost L (url_Hostname rp) then redirect_matches L presented pp regs
           else if url_Scheme pp = url_Scheme rp \<and> go_EqualFold (ol_fold L) (url_Hostname pp) (url_Hostname rp) \<and>
                   ol_path L presented = ol_path L reg
           then True
           else redirect_matches L presented pp regs))"

definition RedirectURIAllowed :: "oauth_lib \<Rightarrow> string \<Rightarrow> string list \<Rightarrow> bool" where
  "RedirectURIAllowed L presented registered =
     (case ol_parse L presented of None \<Rightarrow> False | Some pp \<Rightarrow> redirect_matches L presented pp registered)"

definition isHTTPSURL :: "oauth_lib \<Rightarrow> string \<Rightarrow> bool" where
  "isHTTPSURL L raw =
     (case ol_parse L (trim_space raw) of None \<Rightarrow> False | Some u \<Rightarrow> url_Scheme u = ''https'' \<and> url_Host u \<noteq> [])"

definition isDCRClientID :: "oauth_lib \<Rightarrow> string \<Rightarrow> bool" where
  "isDCRClientID L clientID =
     (case ol_parse L (trim_space clientID) of
        None \<Rightarrow> True | Some u \<Rightarrow> \<not> (url_Scheme u = ''https'' \<and> url_Host u \<noteq> []))"

section \<open>The server\<close>

record 'db auth_server =
  as_verifier :: "'db verifier"
  as_externalURL :: string
  as_principalName :: string
  as_principalEmail :: string
  as_accessTTL :: int
  as_refreshTTL :: int
  as_codeTTL :: int

definition go_Second :: int where
  "go_Second = 1000000000"

definition NewAuthServer ::
    "'db verifier \<Rightarrow> string \<Rightarrow> string \<times> string \<Rightarrow> int \<Rightarrow> int \<Rightarrow> int \<Rightarrow> 'db auth_server" where
  "NewAuthServer v externalURL prin accessTTL refreshTTL codeTTL =
     \<lparr>as_verifier = v, as_externalURL = externalURL, as_principalName = fst prin, as_principalEmail = snd prin,
      as_accessTTL = (if accessTTL \<le> 0 then 3600 * go_Second else accessTTL),
      as_refreshTTL = (if refreshTTL \<le> 0 then 90 * 24 * 3600 * go_Second else refreshTTL),
      as_codeTTL = (if codeTTL \<le> 0 then 60 * go_Second else codeTTL)\<rparr>"

record auth_request =
  ar_ClientID :: string
  ar_RedirectURI :: string
  ar_ResponseType :: string
  ar_CodeChallenge :: string
  ar_CodeChallengeMethod :: string
  ar_Resource :: string
  ar_State :: string
  ar_Scope :: string

text \<open>
  What /authorize answers: a plain error with its status, an error page, the consent page (status, request,
  name of the client, notice), or a redirect to a URI with parameters set in its query.
\<close>

datatype auth_resp =
    PlainError nat string
  | ErrorPage string string
  | ConsentPage nat auth_request string string
  | RedirectTo string "(string \<times> string) list"

definition redirectSuccess :: "oauth_lib \<Rightarrow> auth_request \<Rightarrow> string \<Rightarrow> auth_resp" where
  "redirectSuccess L req code =
     (case ol_parse L (ar_RedirectURI req) of
        None \<Rightarrow> ErrorPage ''server_error'' ''bad redirect_uri''
      | Some u \<Rightarrow>
          RedirectTo (ar_RedirectURI req)
            ((''code'', code) # (if ar_State req \<noteq> [] then [(''state'', ar_State req)] else [])))"

definition redirectError :: "oauth_lib \<Rightarrow> auth_request \<Rightarrow> string \<Rightarrow> string \<Rightarrow> auth_resp" where
  "redirectError L req code desc =
     (case ol_parse L (ar_RedirectURI req) of
        None \<Rightarrow> ErrorPage code desc
      | Some u \<Rightarrow>
          RedirectTo (ar_RedirectURI req)
            ((''error'', code) # (if desc \<noteq> [] then [(''error_description'', desc)] else []) @
             (if ar_State req \<noteq> [] then [(''state'', ar_State req)] else [])))"

definition renderConsent :: "nat \<Rightarrow> auth_request \<Rightarrow> client_metadata \<Rightarrow> string \<Rightarrow> auth_resp" where
  "renderConsent status req md notice =
     ConsentPage status req (if cm_ClientName md = [] then cm_ClientID md else cm_ClientName md) notice"

definition resolveResource :: "'db auth_server \<Rightarrow> oauth_lib \<Rightarrow> http_req \<Rightarrow> string \<Rightarrow> string option" where
  "resolveResource S L q presented =
     (case Base (ol_parse L) (as_externalURL S) (Some q) of
        None \<Rightarrow> None
      | Some base \<Rightarrow>
          (let want = ResourceURL base in
           if trim_space presented = [] then Some want else if presented = want then Some want else None))"

text \<open>The store as it is after the client was resolved is returned with the result.\<close>

definition resolveAuthorizeClient ::
    "('db, os_row) bolt \<Rightarrow> 'db auth_server \<Rightarrow> 'db oauth_world \<Rightarrow> string \<Rightarrow> 'db \<Rightarrow> (auth_resp + client_metadata) \<times> 'db" where
  "resolveAuthorizeClient B S W clientID db =
     (let L = w_lib W; db1 = w_others W 0 db in
      case ConfidentialClient B clientID db of
        Some conf \<Rightarrow>
          (if CredentialExpired conf (w_now W 0)
           then (Inl (ErrorPage ''invalid_client'' ''client credential has expired''), w_others W 1 db1)
           else (Inr \<lparr>cm_ClientID = clientID, cm_ClientName = ''confidential client'', cm_RedirectURIs = [],
                      cm_GrantTypes = [''authorization_code'', ''refresh_token''], cm_ResponseTypes = [''code''],
                      cm_TokenEndpointAuthMethod = ''client_secret_post'', cm_Confidential = True\<rparr>, w_others W 1 db1))
      | None \<Rightarrow>
          (if isDCRClientID L clientID then
             (case GetClient B clientID db1 of
                Inl e \<Rightarrow> (Inl (ErrorPage ''invalid_client'' ''unknown client_id (not registered)''), w_others W 1 db1)
              | Inr rc \<Rightarrow>
                  (Inr \<lparr>cm_ClientID = rc_ClientID rc, cm_ClientName = rc_ClientName rc, cm_RedirectURIs = rc_RedirectURIs rc,
                        cm_GrantTypes = rc_GrantTypes rc, cm_ResponseTypes = rc_ResponseTypes rc,
                        cm_TokenEndpointAuthMethod = rc_TokenEndpointAuthMethod rc, cm_Confidential = False\<rparr>, w_others W 1 db1))
           else
             (case Verify (as_verifier S) L (w_net W) db1 clientID of
                Inl e \<Rightarrow> (Inl (ErrorPage ''invalid_client'' (''client verification failed: '' @ cimdReason e)), w_others W 1 db1)
              | Inr md \<Rightarrow> (Inr (md\<lparr>cm_Confidential := False\<rparr>), w_others W 1 db1))))"

definition domain_consent ::
    "('db, os_row) bolt \<Rightarrow> oauth_lib \<Rightarrow> http_req \<Rightarrow> string \<Rightarrow> string \<times> string \<Rightarrow> 'db \<Rightarrow> (string \<times> string) option" where
  "domain_consent B L q clientID prin db =
     (case DomainEntryForClient B (ol_parse L) (ol_lower L) clientID db of
        None \<Rightarrow> None
      | Some entry \<Rightarrow>
          (if re_Consent entry = None then None
           else if VerifyConsent entry (q_PostForm q ''consent_credential'') then Some prin else None))"

text \<open>\<open>Some\<close> is the principal whose approval was verified.\<close>

definition authorizeConsent ::
    "('db, os_row) bolt \<Rightarrow> 'db auth_server \<Rightarrow> 'db oauth_world \<Rightarrow> http_req \<Rightarrow> string \<Rightarrow> 'db \<Rightarrow> (string \<times> string) option \<times> 'db" where
  "authorizeConsent B S W q clientID db =
     (let L = w_lib W; db1 = w_others W 2 db; prin = (as_principalName S, as_principalEmail S) in
      case ConfidentialClient B clientID db of
        Some conf \<Rightarrow>
          (if \<not> CredentialExpired conf (w_now W 1) then (Some prin, db1)
           else (domain_consent B L q clientID prin db1, w_others W 3 db1))
      | None \<Rightarrow> (domain_consent B L q clientID prin db1, w_others W 3 db1))"

definition auth_request_of :: "http_req \<Rightarrow> auth_request" where
  "auth_request_of q =
     \<lparr>ar_ClientID = q_Form q ''client_id'', ar_RedirectURI = q_Form q ''redirect_uri'',
      ar_ResponseType = q_Form q ''response_type'', ar_CodeChallenge = q_Form q ''code_challenge'',
      ar_CodeChallengeMethod = q_Form q ''code_challenge_method'', ar_Resource = q_Form q ''resource'',
      ar_State = q_Form q ''state'', ar_Scope = q_Form q ''scope''\<rparr>"

text \<open>An approval: verify the consent, mint a code, bind it to the request.\<close>

definition approve_request ::
    "('db, os_row) bolt \<Rightarrow> 'db auth_server \<Rightarrow> 'db oauth_world \<Rightarrow> string option \<Rightarrow> http_req \<Rightarrow> auth_request \<Rightarrow>
     client_metadata \<Rightarrow> 'db \<Rightarrow> auth_resp \<times> 'db" where
  "approve_request B S W handle q req md db =
     (case authorizeConsent B S W q (ar_ClientID req) db of
        (None, db1) \<Rightarrow> (renderConsent 401 req md ''Incorrect consent credential.'', db1)
      | (Some (name, email), db1) \<Rightarrow>
          (case handle of
             None \<Rightarrow> (redirectError (w_lib W) req ''server_error'' ''could not issue code'', db1)
           | Some code \<Rightarrow>
               (case PutCode B code
                       \<lparr>cr_ClientID = ar_ClientID req, cr_RedirectURI = ar_RedirectURI req,
                        cr_CodeChallenge = ar_CodeChallenge req, cr_CodeChallengeMethod = ar_CodeChallengeMethod req,
                        cr_Resource = ar_Resource req, cr_PrincipalName = name, cr_PrincipalEmail = email,
                        cr_Expiry = w_now W 2 + as_codeTTL S\<rparr> db1 of
                  Inl e \<Rightarrow> (redirectError (w_lib W) req ''server_error'' ''could not persist code'', db1)
                | Inr db2 \<Rightarrow> (redirectSuccess (w_lib W) req code, db2))))"

definition handleAuthorize ::
    "('db, os_row) bolt \<Rightarrow> 'db auth_server \<Rightarrow> 'db oauth_world \<Rightarrow> string option \<Rightarrow> http_req \<Rightarrow> 'db \<Rightarrow> auth_resp \<times> 'db" where
  "handleAuthorize B S W handle q db =
     (if q_Method q \<noteq> ''GET'' \<and> q_Method q \<noteq> ''POST'' then (PlainError 405 ''method not allowed'', db)
      else if \<not> q_FormOK q then (ErrorPage ''invalid_request'' ''could not parse request'', db)
      else (let L = w_lib W; req = auth_request_of q in
        case resolveAuthorizeClient B S W (ar_ClientID req) db of
          (Inl resp, db1) \<Rightarrow> (resp, db1)
        | (Inr md, db1) \<Rightarrow>
            (if \<not> (cm_Confidential md \<and> isHTTPSURL L (ar_RedirectURI req)) \<and>
                \<not> RedirectURIAllowed L (ar_RedirectURI req) (cm_RedirectURIs md)
             then (ErrorPage ''invalid_request'' ''redirect_uri is not registered for this client'', db1)
             else if ar_ResponseType req \<noteq> ''code''
             then (redirectError L req ''unsupported_response_type'' ''only response_type=code is supported'', db1)
             else if ar_CodeChallenge req = [] \<or> ar_CodeChallengeMethod req \<noteq> ''S256''
             then (redirectError L req ''invalid_request'' ''PKCE with code_challenge_method=S256 is required'', db1)
             else case resolveResource S L q (ar_Resource req) of
               None \<Rightarrow> (redirectError L req ''invalid_target'' ''resource does not identify this server'', db1)
             | Some resource \<Rightarrow>
                 (let req1 = req\<lparr>ar_Resource := resource\<rparr> in
                  if q_Method q = ''GET'' then (renderConsent 200 req1 md [], db1)
                  else if q_PostForm q ''deny'' \<noteq> []
                  then (redirectError L req1 ''access_denied'' ''the operator denied the request'', db1)
                  else if q_PostForm q ''approve'' \<noteq> [] then approve_request B S W handle q req1 md db1
                  else (renderConsent 200 req1 md ''Choose approve or deny.'', db1)))))"

section \<open>The token endpoint\<close>

text \<open>Tokens with the seconds the access token lives, or a status and an error code with its description.\<close>

datatype token_resp = TokensIssued string string int | TokenError nat string string

definition writeTokens :: "string \<Rightarrow> string \<Rightarrow> series \<Rightarrow> int \<Rightarrow> token_resp" where
  "writeTokens access refresh s now = TokensIssued access refresh (whole_seconds (sr_AccessExpiry s - now))"

text \<open>\<open>base64.RawURLEncoding\<close>.\<close>

definition b64_raw_url :: "string \<Rightarrow> string" where
  "b64_raw_url s =
     map (\<lambda>c. if c = CHR ''+'' then CHR ''-'' else if c = CHR ''/'' then CHR ''_'' else c)
       (filter (\<lambda>c. c \<noteq> CHR ''='') (b64_encode s))"

definition verifyPKCE :: "string \<Rightarrow> string \<Rightarrow> bool" where
  "verifyPKCE code_verifier challenge \<longleftrightarrow> b64_raw_url (sha256 code_verifier) = challenge"

definition issuanceTTL ::
    "('db, os_row) bolt \<Rightarrow> 'db auth_server \<Rightarrow> oauth_lib \<Rightarrow> string \<Rightarrow> 'db \<Rightarrow> int \<times> int" where
  "issuanceTTL B S L clientID db =
     (case DomainEntryForClient B (ol_parse L) (ol_lower L) clientID db of
        Some entry \<Rightarrow> EffectiveTTL entry (as_accessTTL S) (as_refreshTTL S)
      | None \<Rightarrow> (as_accessTTL S, as_refreshTTL S))"

text \<open>The client and the secret that a token request presents: HTTP Basic and the form.\<close>

definition token_client :: "http_req \<Rightarrow> string" where
  "token_client q =
     (let clientID = q_PostForm q ''client_id'' in
      if clientID = [] then (case q_BasicAuth q of Some (basicID, basicSecret) \<Rightarrow> basicID | None \<Rightarrow> []) else clientID)"

definition token_secret :: "http_req \<Rightarrow> string" where
  "token_secret q =
     (case q_BasicAuth q of Some (basicID, basicSecret) \<Rightarrow> basicSecret | None \<Rightarrow> q_PostForm q ''client_secret'')"

text \<open>The refusal of a confidential client, when it does not authenticate.\<close>

definition client_refused :: "reg_entry \<Rightarrow> http_req \<Rightarrow> int \<Rightarrow> token_resp option" where
  "client_refused e q now =
     (if CredentialExpired e now then Some (TokenError 401 ''invalid_client'' ''client credential has expired'')
      else if \<not> VerifySecret e (token_secret q) then Some (TokenError 401 ''invalid_client'' ''client authentication failed'')
      else None)"

definition series_request :: "code_rec \<Rightarrow> string \<Rightarrow> series" where
  "series_request rec scope =
     \<lparr>sr_SeriesID = [], sr_Name = [], sr_AccessTokenHash = [], sr_RefreshTokenHash = [], sr_ClientID = cr_ClientID rec,
      sr_PrincipalName = cr_PrincipalName rec, sr_PrincipalEmail = cr_PrincipalEmail rec, sr_Resource = cr_Resource rec,
      sr_IssuedAt = 0, sr_AccessExpiry = 0, sr_RefreshExpiry = 0, sr_Scope = scope, sr_ExtraPermissions = []\<rparr>"

definition domain_scope :: "reg_entry option \<Rightarrow> string" where
  "domain_scope e = (case e of Some d \<Rightarrow> (if re_Scope d \<noteq> [] then re_Scope d else ''*'') | None \<Rightarrow> ''*'')"

text \<open>\<open>issue_tokens\<close> is the end of the exchange, once the client is authenticated.\<close>

definition issue_tokens ::
    "('db, os_row) bolt \<Rightarrow> 'db auth_server \<Rightarrow> 'db oauth_world \<Rightarrow> (string \<times> string \<times> string) option \<Rightarrow> code_rec \<Rightarrow> string \<Rightarrow>
     'db \<Rightarrow> token_resp \<times> 'db" where
  "issue_tokens B S W handles rec scope db =
     (case issuanceTTL B S (w_lib W) (cr_ClientID rec) (w_others W 3 db) of
        (access, refresh) \<Rightarrow>
          (let db1 = w_others W 4 (w_others W 3 db) in
           case NewSeries B (w_now W 2) handles (series_request rec scope) access refresh db1 of
             Inl e \<Rightarrow> (TokenError 500 ''server_error'' ''could not issue tokens'', db1)
           | Inr (s, db2) \<Rightarrow>
               (writeTokens (case handles of Some (i, a, r) \<Rightarrow> a | None \<Rightarrow> [])
                            (case handles of Some (i, a, r) \<Rightarrow> r | None \<Rightarrow> []) s (w_now W 3), db2)))"

definition grantAuthorizationCode ::
    "('db, os_row) bolt \<Rightarrow> 'db auth_server \<Rightarrow> 'db oauth_world \<Rightarrow> (string \<times> string \<times> string) option \<Rightarrow> http_req \<Rightarrow> 'db \<Rightarrow>
     token_resp \<times> 'db" where
  "grantAuthorizationCode B S W handles q db =
     (let L = w_lib W; code = q_PostForm q ''code''; clientID = token_client q; redirectURI = q_PostForm q ''redirect_uri'';
          code_verifier = q_PostForm q ''code_verifier'' in
      if code = [] \<or> clientID = [] \<or> code_verifier = []
      then (TokenError 400 ''invalid_request'' ''code, client_id and code_verifier are required'', db)
      else (let conf = ConfidentialClient B clientID db; db1 = w_others W 0 db in
        if conf = None \<and> isDCRClientID L clientID \<and> (case GetClient B clientID db1 of Inl e \<Rightarrow> True | Inr c \<Rightarrow> False)
        then (TokenError 401 ''invalid_client'' ''client is not registered'', db1)
        else (let db2 = w_others W 1 db1 in
          case TakeCode B (w_now W 0) code db2 of
            Inl e \<Rightarrow> (TokenError 400 ''invalid_grant'' ''authorization code is invalid or expired'', db2)
          | Inr (Inl e, db3) \<Rightarrow> (TokenError 400 ''invalid_grant'' ''authorization code is invalid or expired'', db3)
          | Inr (Inr rec, db3) \<Rightarrow>
              (if cr_ClientID rec \<noteq> clientID \<or> cr_RedirectURI rec \<noteq> redirectURI
               then (TokenError 400 ''invalid_grant'' ''code was issued to a different client or redirect_uri'', db3)
               else if \<not> verifyPKCE code_verifier (cr_CodeChallenge rec)
               then (TokenError 400 ''invalid_grant'' ''PKCE verification failed'', db3)
               else (let db4 = w_others W 2 db3;
                         scope = domain_scope (DomainEntryForClient B (ol_parse L) (ol_lower L) (cr_ClientID rec) db4) in
                 case conf of
                   None \<Rightarrow> issue_tokens B S W handles rec scope db4
                 | Some e \<Rightarrow>
                     (case client_refused e q (w_now W 1) of
                        Some resp \<Rightarrow> (resp, db4)
                      | None \<Rightarrow> issue_tokens B S W handles rec (re_Scope e) db4))))))"

definition grantRefreshToken ::
    "('db, os_row) bolt \<Rightarrow> 'db auth_server \<Rightarrow> 'db oauth_world \<Rightarrow> (string \<times> string) option \<Rightarrow> http_req \<Rightarrow> 'db \<Rightarrow>
     token_resp \<times> 'db" where
  "grantRefreshToken B S W handles q db =
     (let L = w_lib W; refresh = q_PostForm q ''refresh_token'' in
      if refresh = [] then (TokenError 400 ''invalid_request'' ''refresh_token is required'', db)
      else (let rotateClientID = (case RefreshClientID B refresh db of Some c \<Rightarrow> c | None \<Rightarrow> []);
                db1 = w_others W 0 db;
                refused = (case ConfidentialClient B rotateClientID db1 of
                             Some e \<Rightarrow> client_refused e q (w_now W 0) | None \<Rightarrow> None);
                db2 = w_others W 1 db1 in
        case refused of
          Some resp \<Rightarrow> (resp, db2)
        | None \<Rightarrow>
            (case issuanceTTL B S L rotateClientID db2 of
               (accessTTL, refreshTTL) \<Rightarrow>
                 (let db3 = w_others W 2 db2 in
                  case Rotate B (w_now W 1) handles refresh accessTTL refreshTTL db3 of
                    Inl e \<Rightarrow> (TokenError 400 ''invalid_grant'' ''refresh token is invalid or expired'', db3)
                  | Inr (Inl e, db4) \<Rightarrow> (TokenError 400 ''invalid_grant'' ''refresh token is invalid or expired'', db4)
                  | Inr (Inr s, db4) \<Rightarrow>
                      (writeTokens (case handles of Some (a, r) \<Rightarrow> a | None \<Rightarrow> [])
                                   (case handles of Some (a, r) \<Rightarrow> r | None \<Rightarrow> []) s (w_now W 2), db4)))))"

text \<open>A rotation draws the last two of the three handles.\<close>

definition handleToken ::
    "('db, os_row) bolt \<Rightarrow> 'db auth_server \<Rightarrow> 'db oauth_world \<Rightarrow> (string \<times> string \<times> string) option \<Rightarrow> http_req \<Rightarrow> 'db \<Rightarrow>
     token_resp \<times> 'db" where
  "handleToken B S W handles q db =
     (if q_Method q \<noteq> ''POST'' then (TokenError 405 ''invalid_request'' ''POST required'', db)
      else if q_ContentType q \<noteq> [] \<and> \<not> has_prefix (q_ContentType q) ''application/x-www-form-urlencoded''
      then (TokenError 400 ''invalid_request'' ''Content-Type must be application/x-www-form-urlencoded'', db)
      else if \<not> q_FormOK q then (TokenError 400 ''invalid_request'' ''could not parse form body'', db)
      else if q_PostForm q ''grant_type'' = ''authorization_code'' then grantAuthorizationCode B S W handles q db
      else if q_PostForm q ''grant_type'' = ''refresh_token'' then grantRefreshToken B S W (map_option snd handles) q db
      else (TokenError 400 ''unsupported_grant_type'' ''grant_type must be authorization_code or refresh_token'', db))"

section \<open>Registration\<close>

record registration_response =
  rs_ClientID :: string
  rs_ClientIDIssuedAt :: int
  rs_RedirectURIs :: "string list"
  rs_TokenEndpointAuthMethod :: string
  rs_GrantTypes :: "string list"
  rs_ResponseTypes :: "string list"
  rs_ClientName :: string
  rs_ClientURI :: string
  rs_Scope :: string

datatype register_resp = Registered registration_response | RegisterError nat string string

definition supportedGrantTypes :: "string list" where
  "supportedGrantTypes = [''authorization_code'', ''refresh_token'']"

definition supportedResponseTypes :: "string list" where
  "supportedResponseTypes = [''code'']"

definition validRegistrationRedirectURI :: "oauth_lib \<Rightarrow> string \<Rightarrow> bool" where
  "validRegistrationRedirectURI L ru0 =
     (let ru = trim_space ru0 in
      if ru = [] \<or> set ru \<inter> {CHR '' '', CHR 0x09, CHR 0x0D, CHR 0x0A} \<noteq> {} then False
      else case ol_parse L ru of None \<Rightarrow> False | Some u \<Rightarrow> url_Scheme u \<noteq> [])"

text \<open>A Unix time: nanoseconds to seconds, rounding down.\<close>

definition handleRegister ::
    "('db, os_row) bolt \<Rightarrow> 'db oauth_world \<Rightarrow> string option \<Rightarrow> http_req \<Rightarrow> 'db \<Rightarrow> register_resp \<times> 'db" where
  "handleRegister B W handle q db =
     (let L = w_lib W in
      if q_Method q \<noteq> ''POST'' then (RegisterError 405 ''invalid_request'' ''POST required'', db)
      else if q_ContentType q \<noteq> [] \<and> \<not> has_prefix (go_ToLower (ol_lower L) (trim_space (q_ContentType q))) ''application/json''
      then (RegisterError 400 ''invalid_client_metadata'' ''Content-Type must be application/json'', db)
      else case q_Registration q of
        None \<Rightarrow> (RegisterError 400 ''invalid_client_metadata'' ''request body is not a valid JSON client metadata document'', db)
      | Some req \<Rightarrow>
          (let authMethod = trim_space (rr_TokenEndpointAuthMethod req);
               grantTypes = (if rr_GrantTypes req = [] then [''authorization_code'', ''refresh_token''] else rr_GrantTypes req);
               responseTypes = (if rr_ResponseTypes req = [] then [''code''] else rr_ResponseTypes req);
               dmn = DomainFromRedirectURIs (ol_parse L) (ol_lower L) (rr_RedirectURIs req) in
           if rr_RedirectURIs req = []
           then (RegisterError 400 ''invalid_redirect_uri'' ''at least one redirect_uri is required'', db)
           else if \<not> list_all (validRegistrationRedirectURI L) (rr_RedirectURIs req)
           then (RegisterError 400 ''invalid_redirect_uri'' ''a redirect_uri is not a valid absolute URI'', db)
           else if authMethod \<noteq> [] \<and> authMethod \<noteq> ''none''
           then (RegisterError 400 ''invalid_client_metadata'' ''only token_endpoint_auth_method \"none\" (public client) is supported'', db)
           else if \<not> list_all (\<lambda>g. g \<in> set supportedGrantTypes) grantTypes
           then (RegisterError 400 ''invalid_client_metadata'' ''unsupported grant_type requested'', db)
           else if \<not> list_all (\<lambda>t. t \<in> set supportedResponseTypes) responseTypes
           then (RegisterError 400 ''invalid_client_metadata'' ''unsupported response_type requested'', db)
           else if dmn = [] \<or> \<not> TrustedDomain B (ol_lower L) dmn db
           then (RegisterError 400 ''invalid_client_metadata'' ''the client's redirect_uris host is not a trusted domain'', db)
           else (let db1 = w_others W 0 db in
             case handle of
               None \<Rightarrow> (RegisterError 500 ''server_error'' ''could not issue client_id'', db1)
             | Some clientID \<Rightarrow>
                 (case PutClient B
                         \<lparr>rc_ClientID = clientID, rc_RedirectURIs = rr_RedirectURIs req, rc_TokenEndpointAuthMethod = ''none'',
                          rc_ClientName = rr_ClientName req, rc_GrantTypes = grantTypes, rc_ResponseTypes = responseTypes,
                          rc_ClientIDIssuedAt = w_now W 0, rc_Domain = dmn\<rparr> db1 of
                    Inl e \<Rightarrow> (RegisterError 500 ''server_error'' ''could not persist client registration'', db1)
                  | Inr db2 \<Rightarrow>
                      (Registered \<lparr>rs_ClientID = clientID, rs_ClientIDIssuedAt = w_now W 0 div go_Second,
                         rs_RedirectURIs = rr_RedirectURIs req, rs_TokenEndpointAuthMethod = ''none'',
                         rs_GrantTypes = grantTypes, rs_ResponseTypes = responseTypes, rs_ClientName = rr_ClientName req,
                         rs_ClientURI = rr_ClientURI req, rs_Scope = rr_Scope req\<rparr>, db2)))))"

section \<open>Self-issued tokens and the check of a bearer token\<close>

text \<open>
  The two closures of \<open>cmd/shoka/main.go\<close> over the store.  A token for the operator's own client is
  \<open>Inr\<close> of the token and its expiry; \<open>configTTL\<close> is the configured lifetime, \<open>Inl None\<close> is \<open>Base\<close>'s error.
\<close>

definition IssueSelf ::
    "('db, os_row) bolt \<Rightarrow> 'db auth_server \<Rightarrow> oauth_lib \<Rightarrow> int \<Rightarrow> int \<Rightarrow> (string \<times> string \<times> string) option \<Rightarrow> http_req option \<Rightarrow>
     string \<Rightarrow> string \<Rightarrow> int \<Rightarrow> string \<Rightarrow> 'db \<Rightarrow> os_err option + (string \<times> int) \<times> 'db" where
  "IssueSelf B S L configTTL now handles q nm scope accessTTL0 extra db =
     (case Base (ol_parse L) (as_externalURL S) q of
        None \<Rightarrow> Inl None
      | Some base \<Rightarrow>
          (let accessTTL = (if accessTTL0 \<le> 0 then configTTL else accessTTL0);
               req = \<lparr>sr_SeriesID = [], sr_Name = nm, sr_AccessTokenHash = [], sr_RefreshTokenHash = [],
                      sr_ClientID = SelfIssuedClientID, sr_PrincipalName = as_principalName S,
                      sr_PrincipalEmail = as_principalEmail S, sr_Resource = ResourceURL base, sr_IssuedAt = 0,
                      sr_AccessExpiry = 0, sr_RefreshExpiry = 0, sr_Scope = scope, sr_ExtraPermissions = extra\<rparr> in
           case NewSeries B now handles req accessTTL accessTTL db of
             Inl e \<Rightarrow> Inl (Some e)
           | Inr (s, db1) \<Rightarrow> Inr ((case handles of Some (i, a, r) \<Rightarrow> a | None \<Rightarrow> [], sr_AccessExpiry s), db1)))"

datatype reject_reason = ReasonMissingBearer | ReasonExpired | ReasonInvalidToken | ReasonPrincipalUnresolved

record bearer =
  br_Name :: string
  br_Email :: string
  br_ClientID :: string
  br_Scope :: string
  br_ExtraPermissions :: string

definition ValidateToken :: "('db, os_row) bolt \<Rightarrow> int \<Rightarrow> string \<Rightarrow> 'db \<Rightarrow> reject_reason + bearer" where
  "ValidateToken B now token db =
     (if token = [] then Inl ReasonMissingBearer
      else case Lookup B now token db of
        Inl e \<Rightarrow> Inl (if e = OsExpired then ReasonExpired else ReasonInvalidToken)
      | Inr rec \<Rightarrow>
          (if sr_PrincipalName rec = [] then Inl ReasonPrincipalUnresolved
           else Inr \<lparr>br_Name = sr_PrincipalName rec, br_Email = sr_PrincipalEmail rec, br_ClientID = sr_ClientID rec,
                     br_Scope = (if sr_Scope rec = [] then ''*'' else sr_Scope rec),
                     br_ExtraPermissions = sr_ExtraPermissions rec\<rparr>))"

end
