(* ===== verification/OAuth_Admin.thy ===== *)
theory OAuth_Admin
  imports OAuth_Endpoints
begin

text \<open>
  The administrator's side of the token store (\<open>pkg/uiws/core_oauth.go\<close>): connections, trusted domains
  and confidential clients.  A payload is what \<open>json.Unmarshal\<close> makes of it, absent when it fails; \<open>on\<close>
  says whether the server runs with OAuth.  The notification of other sessions is left out, an error is
  kept without its text.  As in the endpoints, \<open>w_others\<close> is what happens to the store between two calls.
\<close>

datatype ui_err =
    OAuthDisabled | InvalidPayload | MissingField | NegativeTTL | EntryNotFound | WrongMode | NoValidity | StoreFailed os_err
  | IssueFailed

type_synonym ('a, 'db) ui_result = "(ui_err + 'a) \<times> 'db"

definition with_payload ::
    "bool \<Rightarrow> 'p option \<Rightarrow> ('p \<Rightarrow> 'db \<Rightarrow> ('a, 'db) ui_result) \<Rightarrow> 'db \<Rightarrow> ('a, 'db) ui_result" where
  "with_payload on payload f db =
     (if \<not> on then (Inl OAuthDisabled, db)
      else case payload of None \<Rightarrow> (Inl InvalidPayload, db) | Some p \<Rightarrow> f p db)"

section \<open>Connections\<close>

record connection =
  ci_SeriesID :: string
  ci_SeriesIDShort :: string
  ci_Name :: string
  ci_ClientID :: string
  ci_PrincipalName :: string
  ci_PrincipalEmail :: string
  ci_IssuedAt :: int
  ci_AccessExpiry :: int
  ci_Scope :: string
  ci_Domain :: string

definition toOAuthConnectionInfo :: "series \<Rightarrow> connection" where
  "toOAuthConnectionInfo s =
     \<lparr>ci_SeriesID = sr_SeriesID s, ci_SeriesIDShort = (if length (sr_SeriesID s) > 8 then take 8 (sr_SeriesID s) else sr_SeriesID s),
      ci_Name = sr_Name s, ci_ClientID = sr_ClientID s, ci_PrincipalName = sr_PrincipalName s,
      ci_PrincipalEmail = sr_PrincipalEmail s, ci_IssuedAt = sr_IssuedAt s, ci_AccessExpiry = sr_AccessExpiry s,
      ci_Scope = sr_Scope s, ci_Domain = []\<rparr>"

fun tag_connections ::
    "('db, os_row) bolt \<Rightarrow> 'db oauth_world \<Rightarrow> nat \<Rightarrow> series list \<Rightarrow> 'db \<Rightarrow> connection list \<times> 'db" where
  "tag_connections B W k [] db = ([], db)"
| "tag_connections B W k (s # ss) db =
     (let c = toOAuthConnectionInfo s;
          c1 = (case DomainEntryForClient B (ol_parse (w_lib W)) (ol_lower (w_lib W)) (sr_ClientID s) db of
                  Some entry \<Rightarrow> c\<lparr>ci_Domain := re_Identifier entry\<rparr> | None \<Rightarrow> c) in
      case tag_connections B W (Suc k) ss (w_others W k db) of (cs, db1) \<Rightarrow> (c1 # cs, db1))"

text \<open>Newest first, then by series id.\<close>

definition handleOAuthList :: "('db, os_row) bolt \<Rightarrow> 'db oauth_world \<Rightarrow> bool \<Rightarrow> 'db \<Rightarrow> (connection list, 'db) ui_result" where
  "handleOAuthList B W on db =
     (if \<not> on then (Inl OAuthDisabled, db)
      else case os_List B db of
        Inl e \<Rightarrow> (Inl (StoreFailed e), db)
      | Inr infos \<Rightarrow>
          (case tag_connections B W 1 (sort_key (\<lambda>s. - sr_IssuedAt s) (sort_key sr_SeriesID infos)) (w_others W 0 db) of
             (cs, db1) \<Rightarrow> (Inr cs, db1)))"

definition handleOAuthRevoke :: "('db, os_row) bolt \<Rightarrow> bool \<Rightarrow> string option \<Rightarrow> 'db \<Rightarrow> (string, 'db) ui_result" where
  "handleOAuthRevoke B on payload =
     with_payload on payload
       (\<lambda>seriesID db. if seriesID = [] then (Inl MissingField, db)
                      else case os_Revoke B seriesID db of
                        Inl e \<Rightarrow> (Inl (StoreFailed e), db) | Inr db1 \<Rightarrow> (Inr seriesID, db1))"

section \<open>Domains\<close>

record domain_info =
  di_ID :: string
  di_Domain :: string
  di_AccessTTLSeconds :: int
  di_RefreshTTLSeconds :: int
  di_Consent :: string
  di_Scope :: string
  di_RevokedTokens :: nat

definition domainInfoOf :: "reg_entry \<Rightarrow> domain_info" where
  "domainInfoOf e =
     \<lparr>di_ID = re_ID e, di_Domain = re_Identifier e,
      di_AccessTTLSeconds = (case re_TTL e of None \<Rightarrow> 0 | Some t \<Rightarrow> et_AccessSeconds t),
      di_RefreshTTLSeconds = (case re_TTL e of None \<Rightarrow> 0 | Some t \<Rightarrow> et_RefreshSeconds t),
      di_Consent = (case re_Consent e of None \<Rightarrow> [] | Some v \<Rightarrow> v),
      di_Scope = (if re_Scope e = [] then ''*'' else re_Scope e), di_RevokedTokens = 0\<rparr>"

text \<open>Go's sort may put entries of one domain in any order; here they keep the order of the store.\<close>

definition handleDomainList :: "('db, os_row) bolt \<Rightarrow> bool \<Rightarrow> 'db \<Rightarrow> (domain_info list, 'db) ui_result" where
  "handleDomainList B on db =
     (if \<not> on then (Inl OAuthDisabled, db)
      else case ListRegistrations B db of
        Inl e \<Rightarrow> (Inl (StoreFailed e), db)
      | Inr es \<Rightarrow>
          (Inr (sort_key di_Domain (map domainInfoOf (filter (\<lambda>e. re_RegistrationMode e = RegistrationModeDomain) es))), db))"

record domain_create =
  dc_Domain :: string
  dc_AccessTTLSeconds :: int
  dc_RefreshTTLSeconds :: int
  dc_Scope :: string

definition handleDomainCreate ::
    "('db, os_row) bolt \<Rightarrow> 'db oauth_world \<Rightarrow> string option \<Rightarrow> bool \<Rightarrow> domain_create option \<Rightarrow> 'db \<Rightarrow> (domain_info, 'db) ui_result" where
  "handleDomainCreate B W handle on payload =
     with_payload on payload
       (\<lambda>p db.
          if trim_space (dc_Domain p) = [] then (Inl MissingField, db)
          else if dc_AccessTTLSeconds p < 0 \<or> dc_RefreshTTLSeconds p < 0 then (Inl NegativeTTL, db)
          else case CreateRegistration B (w_now W 0) handle RegistrationModeDomain (dc_Domain p) db of
            Inl e \<Rightarrow> (Inl (StoreFailed e), db)
          | Inr db1 \<Rightarrow>
              (let entry0 = new_entry (case handle of Some eid \<Rightarrow> eid | None \<Rightarrow> []) RegistrationModeDomain
                              (trim_space (dc_Domain p)) (w_now W 0);
                   ttl = dc_AccessTTLSeconds p > 0 \<or> dc_RefreshTTLSeconds p > 0;
                   entry1 = (if ttl then entry0\<lparr>re_TTL := Some \<lparr>et_AccessSeconds = dc_AccessTTLSeconds p,
                                                           et_RefreshSeconds = dc_RefreshTTLSeconds p\<rparr>\<rparr>
                             else entry0);
                   scope = trim_space (dc_Scope p);
                   scoped = scope \<noteq> [] \<and> scope \<noteq> ''*'';
                   entry = (if scoped then entry1\<lparr>re_Scope := scope\<rparr> else entry1);
                   db2 = w_others W 0 db1 in
               if ttl \<or> scoped then
                 (case UpdateRegistration B entry db2 of
                    Inl e \<Rightarrow> (Inl (StoreFailed e), db2) | Inr db3 \<Rightarrow> (Inr (domainInfoOf entry), db3))
               else (Inr (domainInfoOf entry), db2)))"

record domain_update =
  du_ID :: string
  du_AccessTTLSeconds :: int
  du_RefreshTTLSeconds :: int
  du_Scope :: string

definition or_star :: "string \<Rightarrow> string" where
  "or_star s = (if s = [] then ''*'' else s)"

text \<open>The number of revoked tokens and the store; an error of the store is not looked at.\<close>

definition ignoring :: "os_err + nat \<times> 'db \<Rightarrow> 'db \<Rightarrow> nat \<times> 'db" where
  "ignoring x db = (case x of Inl e \<Rightarrow> (0, db) | Inr (n, db1) \<Rightarrow> (n, db1))"

definition handleDomainUpdate ::
    "('db, os_row) bolt \<Rightarrow> 'db oauth_world \<Rightarrow> bool \<Rightarrow> domain_update option \<Rightarrow> 'db \<Rightarrow> (domain_info, 'db) ui_result" where
  "handleDomainUpdate B W on payload =
     with_payload on payload
       (\<lambda>p db.
          if du_ID p = [] then (Inl MissingField, db)
          else if du_AccessTTLSeconds p < 0 \<or> du_RefreshTTLSeconds p < 0 then (Inl NegativeTTL, db)
          else case GetRegistration B (du_ID p) db of
            Inl e \<Rightarrow> (Inl EntryNotFound, db)
          | Inr entry0 \<Rightarrow>
              (if re_RegistrationMode entry0 \<noteq> RegistrationModeDomain then (Inl WrongMode, db)
               else
                 (let entry1 = entry0\<lparr>re_TTL :=
                        (if du_AccessTTLSeconds p > 0 \<or> du_RefreshTTLSeconds p > 0
                         then Some \<lparr>et_AccessSeconds = du_AccessTTLSeconds p, et_RefreshSeconds = du_RefreshTTLSeconds p\<rparr>
                         else None)\<rparr>;
                      newScope = or_star (trim_space (du_Scope p));
                      scopeChanged = or_star (re_Scope entry0) \<noteq> newScope;
                      db1 = w_others W 0 db;
                      (revoked, db2) = (if scopeChanged
                        then ignoring (RevokeByDomain B (ol_parse (w_lib W)) (ol_lower (w_lib W)) (re_Identifier entry0) db1) db1
                        else (0, db1));
                      entry = (if scopeChanged then entry1\<lparr>re_Scope := (if newScope = ''*'' then [] else newScope)\<rparr> else entry1);
                      db3 = w_others W 1 db2 in
                  case UpdateRegistration B entry db3 of
                    Inl e \<Rightarrow> (Inl (StoreFailed e), db3)
                  | Inr db4 \<Rightarrow> (Inr ((domainInfoOf entry)\<lparr>di_RevokedTokens := revoked\<rparr>), db4))))"

text \<open>The entry's id and the new consent value.\<close>

definition handleDomainGenerateConsent ::
    "('db, os_row) bolt \<Rightarrow> string option \<Rightarrow> bool \<Rightarrow> string option \<Rightarrow> 'db \<Rightarrow> (string \<times> string, 'db) ui_result" where
  "handleDomainGenerateConsent B handle on payload =
     with_payload on payload
       (\<lambda>eid db. if eid = [] then (Inl MissingField, db)
                 else case GenerateDomainConsent B handle eid db of
                   Inl e \<Rightarrow> (Inl (StoreFailed e), db)
                 | Inr db1 \<Rightarrow> (Inr (eid, case handle of Some v \<Rightarrow> v | None \<Rightarrow> []), db1))"

definition handleDomainDelete ::
    "('db, os_row) bolt \<Rightarrow> 'db oauth_world \<Rightarrow> bool \<Rightarrow> string option \<Rightarrow> 'db \<Rightarrow> (string \<times> nat, 'db) ui_result" where
  "handleDomainDelete B W on payload =
     with_payload on payload
       (\<lambda>eid db. if eid = [] then (Inl MissingField, db)
                 else case GetRegistration B eid db of
                   Inl e \<Rightarrow> (Inl EntryNotFound, db)
                 | Inr entry \<Rightarrow>
                     (let db1 = w_others W 0 db;
                          (revoked, db2) =
                            ignoring (RevokeByDomain B (ol_parse (w_lib W)) (ol_lower (w_lib W)) (re_Identifier entry) db1) db1;
                          db3 = w_others W 1 db2 in
                      case DeleteRegistration B eid db3 of
                        Inl e \<Rightarrow> (Inl (StoreFailed e), db3) | Inr db4 \<Rightarrow> (Inr (eid, revoked), db4)))"

section \<open>Confidential clients\<close>

record confidential_info =
  cf_ID :: string
  cf_ClientID :: string
  cf_Name :: string
  cf_Scope :: string
  cf_ExpiresAt :: int
  cf_CreatedAt :: int

text \<open>The two times are formatted to the second.\<close>

definition confidentialInfoOf :: "reg_entry \<Rightarrow> confidential_info" where
  "confidentialInfoOf e =
     \<lparr>cf_ID = re_ID e, cf_ClientID = re_Identifier e, cf_Name = re_Name e, cf_Scope = re_Scope e,
      cf_ExpiresAt = re_ExpiresAt e div go_Second, cf_CreatedAt = re_CreatedAt e div go_Second\<rparr>"

definition handleConfidentialList :: "('db, os_row) bolt \<Rightarrow> bool \<Rightarrow> 'db \<Rightarrow> (confidential_info list, 'db) ui_result" where
  "handleConfidentialList B on db =
     (if \<not> on then (Inl OAuthDisabled, db)
      else case ListRegistrations B db of
        Inl e \<Rightarrow> (Inl (StoreFailed e), db)
      | Inr es \<Rightarrow>
          (Inr (sort_key (\<lambda>i. - cf_CreatedAt i)
                 (map confidentialInfoOf (filter (\<lambda>e. re_RegistrationMode e = RegistrationModeConfidential) es))), db))"

record confidential_issue =
  cq_Scope :: string
  cq_Name :: string
  cq_ValiditySeconds :: int

text \<open>The answer carries the raw secret.\<close>

definition handleConfidentialIssue ::
    "('db, os_row) bolt \<Rightarrow> int \<Rightarrow> (string \<times> string \<times> string) option \<Rightarrow> bool \<Rightarrow> confidential_issue option \<Rightarrow> 'db \<Rightarrow>
     (confidential_info \<times> string, 'db) ui_result" where
  "handleConfidentialIssue B now handles on payload =
     with_payload on payload
       (\<lambda>p db.
          if trim_space (cq_Scope p) = [] then (Inl MissingField, db)
          else if cq_ValiditySeconds p \<le> 0 then (Inl NoValidity, db)
          else case IssueConfidentialClient B now handles (cq_Scope p) (trim_space (cq_Name p))
                      (seconds64 (cq_ValiditySeconds p)) db of
            Inl e \<Rightarrow> (Inl (StoreFailed e), db)
          | Inr (entry, db1) \<Rightarrow>
              (Inr (confidentialInfoOf entry, case handles of Some (i, c, secret) \<Rightarrow> secret | None \<Rightarrow> []), db1))"

definition handleConfidentialRevoke ::
    "('db, os_row) bolt \<Rightarrow> 'db oauth_world \<Rightarrow> bool \<Rightarrow> string option \<Rightarrow> 'db \<Rightarrow> (string \<times> nat, 'db) ui_result" where
  "handleConfidentialRevoke B W on payload =
     with_payload on payload
       (\<lambda>eid db. if eid = [] then (Inl MissingField, db)
                 else case GetRegistration B eid db of
                   Inl e \<Rightarrow> (Inl EntryNotFound, db)
                 | Inr entry \<Rightarrow>
                     (if re_RegistrationMode entry \<noteq> RegistrationModeConfidential then (Inl WrongMode, db)
                      else (let db1 = w_others W 0 db;
                                (revoked, db2) = ignoring (RevokeByClientID B (re_Identifier entry) db1) db1;
                                db3 = w_others W 1 db2 in
                        case DeleteRegistration B eid db3 of
                          Inl e \<Rightarrow> (Inl (StoreFailed e), db3) | Inr db4 \<Rightarrow> (Inr (eid, revoked), db4))))"

section \<open>A token for the operator\<close>

record self_issue =
  iq_ValiditySeconds :: int
  iq_Name :: string
  iq_Scope :: string
  iq_ExtraPermissions :: string

text \<open>\<open>issuer\<close> is \<open>IssueSelf\<close> at the request of the session, absent when the server has none; an empty payload is the request of zeros.\<close>

definition handleOAuthIssueSelf ::
    "(string \<Rightarrow> string \<Rightarrow> int \<Rightarrow> string \<Rightarrow> 'db \<Rightarrow> os_err option + (string \<times> int) \<times> 'db) option \<Rightarrow> bool \<Rightarrow> self_issue option \<Rightarrow>
     'db \<Rightarrow> (string \<times> int \<times> string \<times> string, 'db) ui_result" where
  "handleOAuthIssueSelf issuer on payload db =
     (if \<not> on then (Inl OAuthDisabled, db)
      else case issuer of
        None \<Rightarrow> (Inl OAuthDisabled, db)
      | Some mint \<Rightarrow>
          with_payload on payload
            (\<lambda>p db.
               if iq_ValiditySeconds p < 0 then (Inl NegativeTTL, db)
               else (let nm = trim_space (iq_Name p); scope = or_star (trim_space (iq_Scope p)) in
                 case mint nm scope (seconds64 (iq_ValiditySeconds p)) (iq_ExtraPermissions p) db of
                   Inl e \<Rightarrow> (Inl IssueFailed, db)
                 | Inr ((token, expiry), db1) \<Rightarrow> (Inr (token, expiry, nm, scope), db1))) db)"

end
