(* ===== verification/OAuth_Flow.thy ===== *)
theory OAuth_Flow
  imports OAuth_Admin
begin

text \<open>
  What the authorization server promises, whatever other requests do to the store between its calls
  (\<open>others_ok\<close>: they leave a well-formed store): who gets a code, who gets tokens, where a browser is
  redirected, who may register, and which addresses the server connects to.
\<close>

definition others_ok :: "('db, os_row) bolt \<Rightarrow> 'db oauth_world \<Rightarrow> bool" where
  "others_ok B W \<longleftrightarrow> (\<forall>k d. os_ok B d \<longrightarrow> os_ok B (w_others W k d))"

lemma others_okD [simp]: "others_ok B W \<Longrightarrow> os_ok B d \<Longrightarrow> os_ok B (w_others W k d)"
  by (simp add: others_ok_def)

section \<open>Single calls of the store\<close>

lemma TakeCode_success:
  assumes "bolt_ok B" "os_ok B db" "TakeCode B now code db = Inr (res, db1)"
  obtains rec where "v_code (bget B db) (hashHandle code) = Some rec" "res = (if now > cr_Expiry rec then Inl OsExpired else Inr rec)"
    "os_ok B db1" "bget B db1 = m_del codesBucket {hashHandle code} (bget B db)"
proof -
  have i: "os_is B (bget B db) db" using assms(2) by (simp add: os_is_def)
  have op: "os_apply B V now (TakeC code) db = Inr db1" for V
    using assms(3) by (simp add: just_db_def)
  have g: "b_get B db codesBucket (hashHandle code) = map_option CodeRow (v_code (bget B db) (hashHandle code))"
    using os_isD(2) [OF i, of codesBucket] other_rows(3) [OF i] by simp
  obtain rec where r: "v_code (bget B db) (hashHandle code) = Some rec"
    "res = (if now > cr_Expiry rec then Inl OsExpired else Inr rec)"
    using assms(3) g by (auto simp: TakeCode_def transact_ret_def split: option.splits)
  from os_apply_Inr [OF assms(1,2) op] r(1)
  have "os_ok B db1" "bget B db1 = m_del codesBucket {hashHandle code} (bget B db)" by auto
  with r that show ?thesis by blast
qed

lemma NewSeries_success:
  assumes "bolt_ok B" "os_ok B db" "NewSeries B now h req at rt db = Inr (s, db1)"
  obtains hh where "h = Some hh" "s = issued now hh req at rt" "os_ok B db1" "bget B db1 = m_putSeries s [] [] (bget B db)"
proof -
  have op: "os_apply B V now (Issue h req at rt) db = Inr db1" for V
    using assms(3) by (simp add: just_db_def)
  obtain hh where h: "h = Some hh" "s = issued now hh req at rt"
    using assms(3) by (auto simp: NewSeries_def issued_def transact_ret_def Let_def split: option.splits sum.splits)
  from os_apply_Inr [OF assms(1,2) op] h
  have "os_ok B db1" "bget B db1 = m_putSeries s [] [] (bget B db)" by auto
  with h that show ?thesis by blast
qed

lemma PutCode_success:
  assumes "bolt_ok B" "os_ok B db" "PutCode B code rec db = Inr db1"
  shows "os_ok B db1" "bget B db1 = m_put codesBucket (hashHandle code) (CodeRow rec) (bget B db)"
proof -
  have op: "os_apply B V 0 (PutC code rec) db = Inr db1" for V using assms(3) by simp
  from os_apply_Inr [OF assms(1,2) op]
  show "os_ok B db1" "bget B db1 = m_put codesBucket (hashHandle code) (CodeRow rec) (bget B db)" by auto
qed

lemma PutClient_success:
  assumes "bolt_ok B" "os_ok B db" "PutClient B rec db = Inr db1"
  shows "os_ok B db1" "bget B db1 = m_put clientsBucket (rc_ClientID rec) (ClientRow rec) (bget B db)"
proof -
  have op: "os_apply B V 0 (AddClient rec) db = Inr db1" for V using assms(3) by simp
  from os_apply_Inr [OF assms(1,2) op]
  show "os_ok B db1" "bget B db1 = m_put clientsBucket (rc_ClientID rec) (ClientRow rec) (bget B db)" by auto
qed

lemma GetClient_table:
  assumes "os_ok B db"
  shows "GetClient B c db = Inr rc \<longleftrightarrow> bget B db clientsBucket c = Some (ClientRow rc)"
proof -
  have i: "os_is B (bget B db) db" using assms by (simp add: os_is_def)
  have t: "bget B db clientsBucket c = Some v \<Longrightarrow> \<exists>rc. v = ClientRow rc \<and> rc_ClientID rc = c" for v
    using os_isD(3) [OF i, of clientsBucket c v] by (simp add: row_typed_handle)
  show ?thesis using os_isD(2) [OF i, of clientsBucket c] t
    by (auto simp: GetClient_def split: option.split) 
qed

lemma issued_simps [simp]:
  "sr_SeriesID (issued now (i, a, r) req at rt) = i" "sr_AccessTokenHash (issued now (i, a, r) req at rt) = hashHandle a"
  "sr_RefreshTokenHash (issued now (i, a, r) req at rt) = hashHandle r" "sr_ClientID (issued now hh req at rt) = sr_ClientID req"
  "sr_Scope (issued now hh req at rt) = sr_Scope req" "sr_PrincipalName (issued now hh req at rt) = sr_PrincipalName req"
  "sr_PrincipalEmail (issued now hh req at rt) = sr_PrincipalEmail req" "sr_Resource (issued now hh req at rt) = sr_Resource req"
  "sr_AccessExpiry (issued now hh req at rt) = now + at" "sr_RefreshExpiry (issued now hh req at rt) = now + rt"
  by (cases hh; simp add: issued_def)+

lemma rotated_simps [simp]:
  "sr_SeriesID (rotated now hh s at rt) = sr_SeriesID s" "sr_AccessTokenHash (rotated now (a, r) s at rt) = hashHandle a"
  "sr_RefreshTokenHash (rotated now (a, r) s at rt) = hashHandle r" "sr_ClientID (rotated now hh s at rt) = sr_ClientID s"
  "sr_Scope (rotated now hh s at rt) = sr_Scope s" "sr_PrincipalName (rotated now hh s at rt) = sr_PrincipalName s"
  "sr_PrincipalEmail (rotated now hh s at rt) = sr_PrincipalEmail s" "sr_Resource (rotated now hh s at rt) = sr_Resource s"
  by (cases hh; simp add: rotated_def)+

lemma series_request_simps [simp]:
  "sr_ClientID (series_request rec sc) = cr_ClientID rec" "sr_Scope (series_request rec sc) = sc"
  "sr_PrincipalName (series_request rec sc) = cr_PrincipalName rec" "sr_PrincipalEmail (series_request rec sc) = cr_PrincipalEmail rec"
  "sr_Resource (series_request rec sc) = cr_Resource rec"
  by (simp_all add: series_request_def)

lemma client_refused_None:
  "client_refused e q now = None \<longleftrightarrow>
     re_ExpiresAt e \<noteq> 0 \<and> now < re_ExpiresAt e \<and> token_secret q \<noteq> [] \<and> re_Secret e = Some (hashHandle (token_secret q))"
  by (auto simp: client_refused_def CredentialExpired_def VerifySecret_def split: option.splits if_splits dest: sym)

section \<open>The exchange of a code\<close>

lemma issue_tokens_issued:
  assumes "bolt_ok B" "os_ok B db" "others_ok B W" "issue_tokens B S W h rec scope db = (TokensIssued a r n, db')"
  obtains i at rt where "h = Some (i, a, r)" "os_ok B db'"
    "bget B db' = m_putSeries (issued (w_now W 2) (i, a, r) (series_request rec scope) at rt) [] [] (bget B (w_others W 4 (w_others W 3 db)))"
proof -
  obtain at rt where t: "issuanceTTL B S (w_lib W) (cr_ClientID rec) (w_others W 3 db) = (at, rt)" by (rule prod.exhaust)
  from assms(4) obtain s where s: "NewSeries B (w_now W 2) h (series_request rec scope) at rt (w_others W 4 (w_others W 3 db)) = Inr (s, db')"
    and ar: "a = (case h of Some (i, a, r) \<Rightarrow> a | None \<Rightarrow> [])" "r = (case h of Some (i, a, r) \<Rightarrow> r | None \<Rightarrow> [])"
    by (auto simp: issue_tokens_def t Let_def writeTokens_def split: sum.splits)
  from NewSeries_success [OF assms(1) others_okD [OF assms(3) others_okD [OF assms(3,2)]] s] obtain hh where
    "h = Some hh" "s = issued (w_now W 2) hh (series_request rec scope) at rt" "os_ok B db'"
    "bget B db' = m_putSeries s [] [] (bget B (w_others W 4 (w_others W 3 db)))" by blast
  with ar that show ?thesis by (cases hh) auto
qed

lemma v_series_put [simp]: "v_series (m_putSeries s oa orf m) (sr_SeriesID s) = Some s"
  by (simp add: views_putSeries)

lemma code_granted:
  assumes "bolt_ok B" "os_ok B db" "others_ok B W" "grantAuthorizationCode B S W h q db = (TokensIssued a r n, db')"
  obtains rec db3 scope where
    "v_code (bget B (w_others W 1 (w_others W 0 db))) (hashHandle (q_PostForm q ''code'')) = Some rec" "w_now W 0 \<le> cr_Expiry rec"
    "q_PostForm q ''code_verifier'' \<noteq> []" "token_client q \<noteq> []"
    "cr_ClientID rec = token_client q" "cr_RedirectURI rec = q_PostForm q ''redirect_uri''"
    "verifyPKCE (q_PostForm q ''code_verifier'') (cr_CodeChallenge rec)"
    "TakeCode B (w_now W 0) (q_PostForm q ''code'') (w_others W 1 (w_others W 0 db)) = Inr (Inr rec, db3)" "os_ok B db3"
    "issue_tokens B S W h rec scope (w_others W 2 db3) = (TokensIssued a r n, db')"
    "case ConfidentialClient B (token_client q) db of
       None \<Rightarrow> scope = domain_scope (DomainEntryForClient B (ol_parse (w_lib W)) (ol_lower (w_lib W)) (token_client q) (w_others W 2 db3))
     | Some e \<Rightarrow> client_refused e q (w_now W 1) = None \<and> scope = re_Scope e"
proof -
  let ?db2 = "w_others W 1 (w_others W 0 db)" and ?L = "w_lib W"
  have ok2: "os_ok B ?db2" using assms(2,3) by simp
  from assms(4) obtain res db3 where t: "TakeCode B (w_now W 0) (q_PostForm q ''code'') ?db2 = Inr (res, db3)"
    by (auto simp: grantAuthorizationCode_def Let_def split: if_splits sum.splits)
  from TakeCode_success [OF assms(1) ok2 t] obtain rec where
    r: "v_code (bget B ?db2) (hashHandle (q_PostForm q ''code'')) = Some rec" "os_ok B db3"
    "res = (if w_now W 0 > cr_Expiry rec then Inl OsExpired else Inr rec)" by blast
  have f: "q_PostForm q ''code_verifier'' \<noteq> []" "token_client q \<noteq> []"
    using assms(4) by (auto simp: grantAuthorizationCode_def Let_def split: if_splits)
  have res: "res = Inr rec" "w_now W 0 \<le> cr_Expiry rec"
    using assms(4) t r(3) by (auto simp: grantAuthorizationCode_def Let_def split: if_splits)
  have c: "cr_ClientID rec = token_client q" "cr_RedirectURI rec = q_PostForm q ''redirect_uri''"
    "verifyPKCE (q_PostForm q ''code_verifier'') (cr_CodeChallenge rec)"
    using assms(4) t res(1) by (auto simp: grantAuthorizationCode_def Let_def split: if_splits)
  have i: "(case ConfidentialClient B (token_client q) db of
      None \<Rightarrow> issue_tokens B S W h rec (domain_scope (DomainEntryForClient B (ol_parse ?L) (ol_lower ?L) (token_client q) (w_others W 2 db3))) (w_others W 2 db3)
    | Some e \<Rightarrow> (case client_refused e q (w_now W 1) of Some resp \<Rightarrow> (resp, w_others W 2 db3)
        | None \<Rightarrow> issue_tokens B S W h rec (re_Scope e) (w_others W 2 db3))) = (TokensIssued a r n, db')"
    using assms(4) t res(1) c by (simp add: grantAuthorizationCode_def Let_def split: if_splits)
  have resp: "client_refused e q t \<noteq> Some (TokensIssued a r n)" for e t
    by (simp add: client_refused_def)
  show ?thesis
  proof (cases "ConfidentialClient B (token_client q) db")
    case None
    show ?thesis by (rule that [OF r(1) res(2) f c _ r(2)]) (use t res None i in simp_all)
  next
    case (Some e)
    have n: "client_refused e q (w_now W 1) = None"
      using i Some resp by (auto split: option.splits)
    show ?thesis by (rule that [OF r(1) res(2) f c _ r(2)]) (use t res Some i n in simp_all)
  qed
qed

text \<open>
  C24: tokens for an authorization code are issued only against a stored code that has not expired and was
  bound to the client and the redirect URI of the request, by the party that knows the PKCE verifier
  whose SHA-256 is the code's challenge; a confidential client must in addition show its secret before
  its credential expires, and gets its own scope.  The new series is stored under the issued handles with
  the client, the principal and the resource of the code.
\<close>

theorem code_exchange_sound:
  assumes "bolt_ok B" "os_ok B db" "others_ok B W" "q_PostForm q ''grant_type'' = ''authorization_code''"
    and "handleToken B S W h q db = (TokensIssued a r n, db')"
  shows "\<exists>i rec s. h = Some (i, a, r) \<and>
    v_code (bget B (w_others W 1 (w_others W 0 db))) (hashHandle (q_PostForm q ''code'')) = Some rec \<and>
    w_now W 0 \<le> cr_Expiry rec \<and> cr_ClientID rec = token_client q \<and> cr_RedirectURI rec = q_PostForm q ''redirect_uri'' \<and>
    q_PostForm q ''code_verifier'' \<noteq> [] \<and> cr_CodeChallenge rec = b64_raw_url (sha256 (q_PostForm q ''code_verifier'')) \<and>
    (\<forall>e. ConfidentialClient B (token_client q) db = Some e \<longrightarrow>
       w_now W 1 < re_ExpiresAt e \<and> token_secret q \<noteq> [] \<and> re_Secret e = Some (hashHandle (token_secret q)) \<and>
       sr_Scope s = re_Scope e) \<and>
    v_series (bget B db') i = Some s \<and> sr_AccessTokenHash s = hashHandle a \<and> sr_RefreshTokenHash s = hashHandle r \<and>
    sr_ClientID s = cr_ClientID rec \<and> sr_PrincipalName s = cr_PrincipalName rec \<and>
    sr_PrincipalEmail s = cr_PrincipalEmail rec \<and> sr_Resource s = cr_Resource rec"
proof -
  have g: "grantAuthorizationCode B S W h q db = (TokensIssued a r n, db')"
    using assms(4,5) by (auto simp: handleToken_def split: if_splits)
  show ?thesis
  proof (rule code_granted [OF assms(1-3) g])
    fix rec db3 scope
    assume c: "v_code (bget B (w_others W 1 (w_others W 0 db))) (hashHandle (q_PostForm q ''code'')) = Some rec" "w_now W 0 \<le> cr_Expiry rec"
      "q_PostForm q ''code_verifier'' \<noteq> []" "cr_ClientID rec = token_client q" "cr_RedirectURI rec = q_PostForm q ''redirect_uri''"
      "verifyPKCE (q_PostForm q ''code_verifier'') (cr_CodeChallenge rec)" "os_ok B db3"
      and i: "issue_tokens B S W h rec scope (w_others W 2 db3) = (TokensIssued a r n, db')"
      and e: "case ConfidentialClient B (token_client q) db of
       None \<Rightarrow> scope = domain_scope (DomainEntryForClient B (ol_parse (w_lib W)) (ol_lower (w_lib W)) (token_client q) (w_others W 2 db3))
     | Some e \<Rightarrow> client_refused e q (w_now W 1) = None \<and> scope = re_Scope e"
    from issue_tokens_issued [OF assms(1) others_okD [OF assms(3) c(7)] assms(3) i] obtain i at rt where
      h: "h = Some (i, a, r)" and d: "bget B db' = m_putSeries (issued (w_now W 2) (i, a, r) (series_request rec scope) at rt) [] []
           (bget B (w_others W 4 (w_others W 3 (w_others W 2 db3))))" by metis
    let ?s = "issued (w_now W 2) (i, a, r) (series_request rec scope) at rt"
    have "v_series (bget B db') i = Some ?s" using v_series_put [of ?s] by (simp add: d)
    moreover have "\<forall>e. ConfidentialClient B (token_client q) db = Some e \<longrightarrow>
       w_now W 1 < re_ExpiresAt e \<and> token_secret q \<noteq> [] \<and> re_Secret e = Some (hashHandle (token_secret q)) \<and> sr_Scope ?s = re_Scope e"
      using e by (auto simp: client_refused_None)
    ultimately show ?thesis using c h by (intro exI [of _ i] exI [of _ rec] exI [of _ ?s]) (simp add: verifyPKCE_def)
  qed
qed

section \<open>The rotation of a refresh token\<close>

lemma refresh_granted:
  assumes "grantRefreshToken B S W h q db = (TokensIssued a r n, db')"
  obtains at rt s where
    "Rotate B (w_now W 1) h (q_PostForm q ''refresh_token'') at rt (w_others W 2 (w_others W 1 (w_others W 0 db))) = Inr (Inr s, db')"
    "a = (case h of Some (a, r) \<Rightarrow> a | None \<Rightarrow> [])" "r = (case h of Some (a, r) \<Rightarrow> r | None \<Rightarrow> [])"
    "\<And>c e. RefreshClientID B (q_PostForm q ''refresh_token'') db = Some c \<Longrightarrow> ConfidentialClient B c (w_others W 0 db) = Some e \<Longrightarrow>
       client_refused e q (w_now W 0) = None"
proof -
  let ?ref = "q_PostForm q ''refresh_token''"
  let ?c = "case RefreshClientID B ?ref db of Some c \<Rightarrow> c | None \<Rightarrow> []"
  let ?refused = "case ConfidentialClient B ?c (w_others W 0 db) of Some e \<Rightarrow> client_refused e q (w_now W 0) | None \<Rightarrow> None"
  obtain at rt where t: "issuanceTTL B S (w_lib W) ?c (w_others W 1 (w_others W 0 db)) = (at, rt)" by (rule prod.exhaust)
  have resp: "client_refused e q t \<noteq> Some (TokensIssued a r n)" for e t
    by (simp add: client_refused_def)
  have n: "?refused = None"
    using assms resp by (auto simp: grantRefreshToken_def Let_def split: if_splits option.splits)
  from assms n obtain s where s: "Rotate B (w_now W 1) h ?ref at rt (w_others W 2 (w_others W 1 (w_others W 0 db))) = Inr (Inr s, db')"
    "a = (case h of Some (a, r) \<Rightarrow> a | None \<Rightarrow> [])" "r = (case h of Some (a, r) \<Rightarrow> r | None \<Rightarrow> [])"
    by (auto simp: grantRefreshToken_def Let_def t writeTokens_def simp del: One_nat_def split: if_splits sum.splits)
  show ?thesis by (rule that [OF s]) (use n in simp)
qed

text \<open>
  C25: a refresh yields tokens only for the refresh token that the series holds at that moment, before
  its expiry, and, as long as its client is a confidential client, only with that client's secret, before
  the credential expires; the series keeps its client, principal, resource and scope and takes the two
  new handles.
\<close>

theorem refresh_sound:
  assumes "bolt_ok B" "os_ok B db" "others_ok B W" "q_PostForm q ''grant_type'' = ''refresh_token''"
    and "handleToken B S W h q db = (TokensIssued a r n, db')"
  shows "\<exists>s0 s. pointed (bget B (w_others W 2 (w_others W 1 (w_others W 0 db)))) refreshBucket
        (hashHandle (q_PostForm q ''refresh_token'')) = Some s0 \<and>
    sr_RefreshTokenHash s0 = hashHandle (q_PostForm q ''refresh_token'') \<and> w_now W 1 \<le> sr_RefreshExpiry s0 \<and>
    v_series (bget B db') (sr_SeriesID s0) = Some s \<and> sr_AccessTokenHash s = hashHandle a \<and> sr_RefreshTokenHash s = hashHandle r \<and>
    sr_ClientID s = sr_ClientID s0 \<and> sr_PrincipalEmail s = sr_PrincipalEmail s0 \<and> sr_Resource s = sr_Resource s0 \<and>
    sr_Scope s = sr_Scope s0 \<and>
    (\<forall>c e. RefreshClientID B (q_PostForm q ''refresh_token'') db = Some c \<longrightarrow> ConfidentialClient B c (w_others W 0 db) = Some e \<longrightarrow>
       w_now W 0 < re_ExpiresAt e \<and> token_secret q \<noteq> [] \<and> re_Secret e = Some (hashHandle (token_secret q)))"
proof -
  have g: "grantRefreshToken B S W (map_option snd h) q db = (TokensIssued a r n, db')"
    using assms(4,5) by (auto simp: handleToken_def split: if_splits)
  let ?ref = "q_PostForm q ''refresh_token''" and ?db3 = "w_others W 2 (w_others W 1 (w_others W 0 db))"
  show ?thesis
  proof (rule refresh_granted [OF g])
    fix at rt s
    assume s: "Rotate B (w_now W 1) (map_option snd h) ?ref at rt ?db3 = Inr (Inr s, db')"
      and ar: "a = (case map_option snd h of Some (a, r) \<Rightarrow> a | None \<Rightarrow> [])" "r = (case map_option snd h of Some (a, r) \<Rightarrow> r | None \<Rightarrow> [])"
      and auth: "\<And>c e. RefreshClientID B ?ref db = Some c \<Longrightarrow> ConfidentialClient B c (w_others W 0 db) = Some e \<Longrightarrow>
         client_refused e q (w_now W 0) = None"
    have ok: "os_ok B ?db3" using assms(2,3) by simp
    show ?thesis
    proof (rule Rotate_success [OF assms(1) ok s])
      fix a' r' s0
      assume h: "map_option snd h = Some (a', r')" and p: "pointed (bget B ?db3) refreshBucket (hashHandle ?ref) = Some s0"
        "sr_RefreshTokenHash s0 = hashHandle ?ref" "w_now W 1 \<le> sr_RefreshExpiry s0"
        and s: "s = rotated (w_now W 1) (a', r') s0 at rt"
        and d: "bget B db' = m_putSeries s (sr_AccessTokenHash s0) (hashHandle ?ref) (bget B ?db3)"
      have "v_series (bget B db') (sr_SeriesID s0) = Some s" using v_series_put [of s] by (simp add: d s)
      with p s ar h auth show ?thesis
        by (intro exI [of _ s0] exI [of _ s]) (simp add: client_refused_None)
    qed
  qed
qed

section \<open>Redirects and consent\<close>

lemma redirect_matches_iff:
  "redirect_matches L presented pp regs \<longleftrightarrow>
     presented \<in> set regs \<or>
     isLoopbackHost L (url_Hostname pp) \<and>
     (\<exists>reg rp. reg \<in> set regs \<and> ol_parse L reg = Some rp \<and> isLoopbackHost L (url_Hostname rp) \<and> url_Scheme pp = url_Scheme rp \<and>
        go_EqualFold (ol_fold L) (url_Hostname pp) (url_Hostname rp) \<and> ol_path L presented = ol_path L reg)"
  by (induction L presented pp regs rule: redirect_matches.induct) (auto split: option.splits)

text \<open>
  What a client may be redirected to: a URI it registered, or one that differs from a registered one in the
  port only, on a loopback host.
\<close>

definition registered_uri :: "oauth_lib \<Rightarrow> string \<Rightarrow> string list \<Rightarrow> bool" where
  "registered_uri L uri regs \<longleftrightarrow>
     uri \<in> set regs \<or>
     (\<exists>pp reg rp. ol_parse L uri = Some pp \<and> isLoopbackHost L (url_Hostname pp) \<and>
        reg \<in> set regs \<and> ol_parse L reg = Some rp \<and> isLoopbackHost L (url_Hostname rp) \<and> url_Scheme pp = url_Scheme rp \<and>
        go_EqualFold (ol_fold L) (url_Hostname pp) (url_Hostname rp) \<and> ol_path L uri = ol_path L reg)"

text \<open>
  a redirect URI is accepted exactly if it parses and is one the client registered, byte for byte,
  or, on a loopback host, has the scheme, the host and the path of a registered one.
\<close>

theorem RedirectURIAllowed_exact:
  "RedirectURIAllowed L uri regs \<longleftrightarrow> ol_parse L uri \<noteq> None \<and> registered_uri L uri regs"
  by (auto simp: RedirectURIAllowed_def registered_uri_def redirect_matches_iff split: option.splits)

text \<open>A client that identifies itself by a metadata document, and the document.\<close>

definition metadata_client :: "'db verifier \<Rightarrow> oauth_lib \<Rightarrow> cimd_net \<Rightarrow> 'db \<Rightarrow> string \<Rightarrow> client_metadata \<Rightarrow> bool" where
  "metadata_client v L N db client md \<longleftrightarrow>
     (\<exists>u body. ol_parse L (trim_space client) = Some u \<and> url_Scheme u = ''https'' \<and> DomainTrusted (ol_lower L) v db (url_Hostname u) \<and>
        cimd_fetch v L N (trim_space client) = Inr body \<and> ol_metadata L body = Some md \<and> trim_space (cm_ClientID md) = client)"

lemma Verify_Inr: "Verify v L N db client = Inr md \<Longrightarrow> metadata_client v L N db client md"
  by (auto simp: Verify_def metadata_client_def split: option.splits if_splits sum.splits)

definition may_redirect :: "('db, os_row) bolt \<Rightarrow> 'db auth_server \<Rightarrow> 'db oauth_world \<Rightarrow> string \<Rightarrow> string \<Rightarrow> 'db \<Rightarrow> bool" where
  "may_redirect B S W client uri db \<longleftrightarrow>
     (case ConfidentialClient B client db of
        Some e \<Rightarrow> w_now W 0 < re_ExpiresAt e \<and> isHTTPSURL (w_lib W) uri
      | None \<Rightarrow>
          (\<exists>rc. GetClient B client (w_others W 0 db) = Inr rc \<and> registered_uri (w_lib W) uri (rc_RedirectURIs rc)) \<or>
          (\<exists>md. metadata_client (as_verifier S) (w_lib W) (w_net W) (w_others W 0 db) client md \<and>
             registered_uri (w_lib W) uri (cm_RedirectURIs md)))"

lemma resolve_redirect:
  assumes "resolveAuthorizeClient B S W client db = (Inr md, db1)"
    and "cm_Confidential md \<and> isHTTPSURL (w_lib W) uri \<or> RedirectURIAllowed (w_lib W) uri (cm_RedirectURIs md)"
  shows "may_redirect B S W client uri db"
proof (cases "ConfidentialClient B client db")
  case (Some e)
  then show ?thesis using assms
    by (auto simp: resolveAuthorizeClient_def may_redirect_def CredentialExpired_def RedirectURIAllowed_exact
        registered_uri_def Let_def split: if_splits)
next
  case None
  show ?thesis
  proof (cases "isDCRClientID (w_lib W) client")
    case True
    then show ?thesis using assms None
      by (auto simp: resolveAuthorizeClient_def may_redirect_def RedirectURIAllowed_exact Let_def split: sum.splits)
  next
    case False
    with assms(1) None obtain md0 where v: "Verify (as_verifier S) (w_lib W) (w_net W) (w_others W 0 db) client = Inr md0"
      "md = md0\<lparr>cm_Confidential := False\<rparr>"
      by (auto simp: resolveAuthorizeClient_def Let_def split: sum.splits)
    with Verify_Inr [OF v(1)] assms(2) None show ?thesis by (auto simp: may_redirect_def RedirectURIAllowed_exact)
  qed
qed

lemma resolve_no_redirect: "resolveAuthorizeClient B S W client db = (Inl resp, db1) \<Longrightarrow> resp \<noteq> RedirectTo u ps"
  by (auto simp: resolveAuthorizeClient_def Let_def split: option.splits if_splits sum.splits)

lemma redirect_resp_uri:
  "redirectError L req code desc = RedirectTo u ps \<Longrightarrow> u = ar_RedirectURI req \<and> ps \<noteq> [] \<and> (''code'', c) \<notin> set ps"
  "redirectSuccess L req code = RedirectTo u ps \<Longrightarrow> u = ar_RedirectURI req \<and> ((''code'', c) \<in> set ps \<longleftrightarrow> c = code)"
  by (auto simp: redirectError_def redirectSuccess_def split: option.splits)

lemma approve_request_redirect:
  assumes "approve_request B S W h q req md db = (RedirectTo u ps, db')"
  shows "u = ar_RedirectURI req"
proof -
  have "renderConsent k req md notice \<noteq> RedirectTo u ps" for k notice by (simp add: renderConsent_def)
  with assms redirect_resp_uri(1) [of "w_lib W" req _ _ u ps] redirect_resp_uri(2) [of "w_lib W" req _ u ps] show ?thesis
    by (auto simp: approve_request_def split: prod.splits option.splits sum.splits)
qed

text \<open>A redirect of /authorize comes from a request that passed the checks up to the redirect URI.\<close>

lemma authorize_redirect:
  assumes "handleAuthorize B S W h q db = (RedirectTo u ps, db')"
  obtains md db1 where "resolveAuthorizeClient B S W (q_Form q ''client_id'') db = (Inr md, db1)"
    "cm_Confidential md \<and> isHTTPSURL (w_lib W) (q_Form q ''redirect_uri'') \<or>
       RedirectURIAllowed (w_lib W) (q_Form q ''redirect_uri'') (cm_RedirectURIs md)"
    "u = q_Form q ''redirect_uri''"
    "(''code'', c) \<in> set ps \<Longrightarrow> q_Method q = ''POST'' \<and> q_PostForm q ''deny'' = [] \<and> q_PostForm q ''approve'' \<noteq> [] \<and>
       q_Form q ''code_challenge'' \<noteq> [] \<and> q_Form q ''code_challenge_method'' = ''S256'' \<and>
       (\<exists>resource. resolveResource S (w_lib W) q (q_Form q ''resource'') = Some resource \<and>
         approve_request B S W h q ((auth_request_of q)\<lparr>ar_Resource := resource\<rparr>) md db1 = (RedirectTo u ps, db'))"
proof -
  let ?req = "auth_request_of q" and ?L = "w_lib W"
  have f: "ar_ClientID ?req = q_Form q ''client_id''" "ar_RedirectURI ?req = q_Form q ''redirect_uri''"
    "ar_CodeChallenge ?req = q_Form q ''code_challenge''" "ar_CodeChallengeMethod ?req = q_Form q ''code_challenge_method''"
    "ar_Resource ?req = q_Form q ''resource''"
    by (simp_all add: auth_request_of_def)
  from assms obtain r db1 where rs: "resolveAuthorizeClient B S W (q_Form q ''client_id'') db = (r, db1)" by (metis surj_pair)
  obtain md where md: "r = Inr md"
    using assms rs resolve_no_redirect [of B S W "q_Form q ''client_id''" db _ db1]
    by (cases r) (auto simp: handleAuthorize_def f split: if_splits)
  have ok: "cm_Confidential md \<and> isHTTPSURL ?L (q_Form q ''redirect_uri'') \<or>
       RedirectURIAllowed ?L (q_Form q ''redirect_uri'') (cm_RedirectURIs md)"
    using assms rs md by (auto simp: handleAuthorize_def f Let_def split: if_splits)
  note e = redirect_resp_uri(1)
  have no: "renderConsent k req md notice \<noteq> RedirectTo u ps" for k notice req by (simp add: renderConsent_def)
  consider (err) req code desc where "redirectError ?L req code desc = RedirectTo u ps" "ar_RedirectURI req = q_Form q ''redirect_uri''"
    | (appr) resource where "q_Method q = ''POST''" "q_PostForm q ''deny'' = []" "q_PostForm q ''approve'' \<noteq> []"
       "q_Form q ''code_challenge'' \<noteq> []" "q_Form q ''code_challenge_method'' = ''S256''"
       "resolveResource S ?L q (q_Form q ''resource'') = Some resource"
       "approve_request B S W h q (?req\<lparr>ar_Resource := resource\<rparr>) md db1 = (RedirectTo u ps, db')"
    using assms rs md ok no f unfolding handleAuthorize_def Let_def
    by (auto split: if_splits option.splits)
  then show ?thesis
  proof cases
    case err
    show ?thesis by (rule that [OF rs [unfolded md] ok]) (use e [OF err(1)] err(2) in auto)
  next
    case appr
    have "u = q_Form q ''redirect_uri''" using approve_request_redirect [OF appr(7)] f(2) by simp
    show ?thesis by (rule that [OF rs [unfolded md] ok]) (use appr \<open>u = _\<close> in auto)
  qed
qed

text \<open>
  C26: no open redirect: wherever /authorize sends a browser, the target is the redirect URI of the request,
  and the client is a confidential client whose credential has not expired and the target an https URL with a host, or
  the client is registered and the target is one of its URIs (on a loopback host up to everything but scheme, host and
  path: port, query, fragment and user are not compared), or
  the client identifies itself by an https URL on a trusted domain, whose document, fetched from there,
  names that client and lists the target.
\<close>

theorem authorize_redirects_registered:
  assumes "handleAuthorize B S W h q db = (RedirectTo u ps, db')"
  shows "u = q_Form q ''redirect_uri'' \<and> may_redirect B S W (q_Form q ''client_id'') u db"
  by (rule authorize_redirect [OF assms]) (auto intro: resolve_redirect)

text \<open>The consent that a code needs: of the confidential client's entry or of the client's domain.\<close>

definition consented :: "('db, os_row) bolt \<Rightarrow> 'db oauth_world \<Rightarrow> http_req \<Rightarrow> string \<Rightarrow> 'db \<Rightarrow> bool" where
  "consented B W q client db \<longleftrightarrow>
     (\<exists>e. ConfidentialClient B client db = Some e \<and> w_now W 1 < re_ExpiresAt e) \<or>
     (\<exists>e v. DomainEntryForClient B (ol_parse (w_lib W)) (ol_lower (w_lib W)) client (w_others W 2 db) = Some e \<and>
        re_Consent e = Some v \<and> v \<noteq> [] \<and> q_PostForm q ''consent_credential'' = v)"

lemma authorizeConsent_Some:
  assumes "authorizeConsent B S W q client db = (Some p, db1)" "os_ok B db" "others_ok B W"
  shows "consented B W q client db" "p = (as_principalName S, as_principalEmail S)" "os_ok B db1"
  using assms
  by (auto simp: authorizeConsent_def consented_def domain_consent_def VerifyConsent_def CredentialExpired_def Let_def
      split: option.splits if_splits)

lemma resolve_db:
  assumes "resolveAuthorizeClient B S W client db = (r, db1)"
  shows "db1 = w_others W 1 (w_others W 0 db)"
  using assms by (auto simp: resolveAuthorizeClient_def Let_def split: option.splits if_splits sum.splits)

lemma approve_request_code:
  assumes "bolt_ok B" "os_ok B db" "others_ok B W" "approve_request B S W h q req md db = (RedirectTo u ps, db')" "(''code'', c) \<in> set ps"
  shows "h = Some c \<and> consented B W q (ar_ClientID req) db \<and> os_ok B db' \<and>
    v_code (bget B db') (hashHandle c) =
      Some \<lparr>cr_ClientID = ar_ClientID req, cr_RedirectURI = ar_RedirectURI req, cr_CodeChallenge = ar_CodeChallenge req,
            cr_CodeChallengeMethod = ar_CodeChallengeMethod req, cr_Resource = ar_Resource req,
            cr_PrincipalName = as_principalName S, cr_PrincipalEmail = as_principalEmail S, cr_Expiry = w_now W 2 + as_codeTTL S\<rparr>"
proof -
  have no: "renderConsent k req md notice \<noteq> RedirectTo u ps" for k notice by (simp add: renderConsent_def)
  have ne: "redirectError (w_lib W) req code desc \<noteq> RedirectTo u ps" for code desc
    using assms(5) redirect_resp_uri(1) [of "w_lib W" req code desc u ps c] by auto
  obtain p db1 where a: "authorizeConsent B S W q (ar_ClientID req) db = (p, db1)" by (rule prod.exhaust)
  obtain nm em where p: "p = Some (nm, em)" using assms(4) a no by (cases p) (auto simp: approve_request_def)
  note cs = authorizeConsent_Some [OF a [unfolded p] assms(2,3)]
  obtain code where h: "h = Some code" using assms(4) a p ne by (cases h) (auto simp: approve_request_def)
  let ?rec = "\<lparr>cr_ClientID = ar_ClientID req, cr_RedirectURI = ar_RedirectURI req, cr_CodeChallenge = ar_CodeChallenge req,
            cr_CodeChallengeMethod = ar_CodeChallengeMethod req, cr_Resource = ar_Resource req,
            cr_PrincipalName = nm, cr_PrincipalEmail = em, cr_Expiry = w_now W 2 + as_codeTTL S\<rparr>"
  obtain db2 where d: "PutCode B code ?rec db1 = Inr db2" "redirectSuccess (w_lib W) req code = RedirectTo u ps" "db' = db2"
    using assms(4) a p h ne by (auto simp: approve_request_def split: sum.splits)
  from PutCode_success [OF assms(1) cs(3) d(1)] cs d(3) h redirect_resp_uri(2) [OF d(2), of c] assms(5) show ?thesis
    by (auto simp: v_code_def)
qed

text \<open>
  C23: a code is handed out only on an approval that is consented to: the request is a POST with approve
  and not deny, and either the client is a confidential client whose credential has not expired, or the credential that came
  with the request is the consent value of the client's domain entry.  The code is stored bound to the client, the
  redirect URI, the PKCE challenge, the server's own resource and the operator, and expires.
\<close>

theorem codes_need_consent:
  assumes "bolt_ok B" "os_ok B db" "others_ok B W"
    and "handleAuthorize B S W h q db = (RedirectTo u ps, db')" "(''code'', c) \<in> set ps"
  shows "h = Some c \<and> q_Method q = ''POST'' \<and> q_PostForm q ''approve'' \<noteq> [] \<and> q_PostForm q ''deny'' = [] \<and>
    consented B W q (q_Form q ''client_id'') (w_others W 1 (w_others W 0 db)) \<and>
    (\<exists>rec base. v_code (bget B db') (hashHandle c) = Some rec \<and> cr_ClientID rec = q_Form q ''client_id'' \<and>
       cr_RedirectURI rec = u \<and> cr_CodeChallenge rec = q_Form q ''code_challenge'' \<and> cr_CodeChallenge rec \<noteq> [] \<and>
       Base (ol_parse (w_lib W)) (as_externalURL S) (Some q) = Some base \<and> cr_Resource rec = ResourceURL base \<and>
       cr_PrincipalEmail rec = as_principalEmail S \<and> cr_Expiry rec = w_now W 2 + as_codeTTL S)"
proof (rule authorize_redirect [where c = c, OF assms(4)])
  fix md db1
  assume r: "resolveAuthorizeClient B S W (q_Form q ''client_id'') db = (Inr md, db1)" and u: "u = q_Form q ''redirect_uri''"
    and a: "(''code'', c) \<in> set ps \<Longrightarrow> q_Method q = ''POST'' \<and> q_PostForm q ''deny'' = [] \<and> q_PostForm q ''approve'' \<noteq> [] \<and>
       q_Form q ''code_challenge'' \<noteq> [] \<and> q_Form q ''code_challenge_method'' = ''S256'' \<and>
       (\<exists>resource. resolveResource S (w_lib W) q (q_Form q ''resource'') = Some resource \<and>
         approve_request B S W h q ((auth_request_of q)\<lparr>ar_Resource := resource\<rparr>) md db1 = (RedirectTo u ps, db'))"
  from a [OF assms(5)] obtain resource where res: "resolveResource S (w_lib W) q (q_Form q ''resource'') = Some resource"
    and ap: "approve_request B S W h q ((auth_request_of q)\<lparr>ar_Resource := resource\<rparr>) md db1 = (RedirectTo u ps, db')" by blast
  from res obtain base where base: "Base (ol_parse (w_lib W)) (as_externalURL S) (Some q) = Some base" "resource = ResourceURL base"
    by (auto simp: resolveResource_def Let_def split: option.splits if_splits)
  have db1: "db1 = w_others W 1 (w_others W 0 db)"
    by (rule resolve_db [OF r])
  have ok: "os_ok B db1" using assms(2,3) by (simp add: db1)
  from approve_request_code [OF assms(1) ok assms(3) ap assms(5)] a [OF assms(5)] base u
  have "h = Some c" "consented B W q (q_Form q ''client_id'') db1"
    "v_code (bget B db') (hashHandle c) = Some \<lparr>cr_ClientID = q_Form q ''client_id'', cr_RedirectURI = u,
       cr_CodeChallenge = q_Form q ''code_challenge'', cr_CodeChallengeMethod = ''S256'', cr_Resource = ResourceURL base,
       cr_PrincipalName = as_principalName S, cr_PrincipalEmail = as_principalEmail S, cr_Expiry = w_now W 2 + as_codeTTL S\<rparr>"
    by (simp_all add: auth_request_of_def)
  then show ?thesis using a [OF assms(5)] base db1 by simp
qed

section \<open>Registration\<close>

lemma best_entry_Some:
  "best_entry lower host best es = Some e \<Longrightarrow>
     best = Some e \<or> e \<in> set es \<and> re_RegistrationMode e = RegistrationModeDomain \<and> covers (go_ToLower lower (trim_space (re_Identifier e))) host"
  by (induction lower host best es rule: best_entry.induct) (auto simp: Let_def split: if_splits option.splits)

lemma entries_listed:
  assumes "bolt_ok B" "os_ok B db" "ListRegistrations B db = Inr es" "e \<in> set es"
  shows "v_entry (bget B db) (re_ID e) = Some e"
proof -
  have i: "os_is B (bget B db) db" using assms(2) by (simp add: os_is_def)
  obtain rs where rs: "decode_all entry_of (b_rows B db registrationsBucket) = Some rs" "es = map snd rs"
    using assms(3) by (auto simp: ListRegistrations_def split: option.splits)
  from decode_all_the [OF rs(1)] rs(2) assms(4) obtain k v where kv: "(k, v) \<in> set (b_rows B db registrationsBucket)" "entry_of v = Some e"
    by force
  have "bget B db registrationsBucket k = Some v"
    using kv(1) bucket_rows(3) [OF assms(1) os_isD(1) [OF i], of registrationsBucket k v] by simp
  then have "v_entry (bget B db) k = Some e" using kv(2) by (simp add: v_entry_def)
  then show ?thesis using other_rows(5) [OF i] by auto
qed

text \<open>A host that an entry of the store trusts: the entry's domain, or a subdomain of it.\<close>

definition trusted_by :: "(nat \<Rightarrow> nat) \<Rightarrow> os_table \<Rightarrow> string \<Rightarrow> bool" where
  "trusted_by lower m host \<longleftrightarrow>
     (\<exists>k e. v_entry m k = Some e \<and> re_RegistrationMode e = RegistrationModeDomain \<and>
        covers (go_ToLower lower (trim_space (re_Identifier e))) (go_ToLower lower (trim_space host)))"

lemma TrustedDomain_trusted:
  assumes "bolt_ok B" "os_ok B db" "TrustedDomain B lower host db"
  shows "trusted_by lower (bget B db) host"
proof -
  let ?h = "go_ToLower lower (trim_space host)"
  obtain es e where e: "ListRegistrations B db = Inr es" "best_entry lower ?h None es = Some e"
    using assms(3) by (auto simp: TrustedDomain_def DomainEntryForHost_def Let_def split: if_splits sum.splits)
  from best_entry_Some [OF e(2)] have b: "e \<in> set es" "re_RegistrationMode e = RegistrationModeDomain"
    "covers (go_ToLower lower (trim_space (re_Identifier e))) ?h" by auto
  from entries_listed [OF assms(1,2) e(1) b(1)] b(2,3) show ?thesis unfolding trusted_by_def by blast
qed

text \<open>The host of a redirect URI, empty when it has none.\<close>

definition uri_host :: "oauth_lib \<Rightarrow> string \<Rightarrow> string" where
  "uri_host L ru =
     (case ol_parse L (trim_space ru) of
        None \<Rightarrow> [] | Some u \<Rightarrow> (if url_Host u = [] then [] else go_ToLower (ol_lower L) (url_Hostname u)))"

lemma shared_host_all:
  assumes "shared_host (ol_parse L) (ol_lower L) host rus = d" "d \<noteq> []"
  shows "(host = [] \<or> host = d) \<and> (\<forall>ru\<in>set rus. uri_host L ru = [] \<or> uri_host L ru = d) \<and>
    (host = [] \<longrightarrow> (\<exists>ru\<in>set rus. uri_host L ru = d))"
  using assms
proof (induction rus arbitrary: host)
  case (Cons ru rus)
  show ?case
  proof (cases "ol_parse L (trim_space ru)")
    case None
    with Cons.IH [of host] Cons.prems show ?thesis by (auto simp: uri_host_def)
  next
    case (Some u)
    let ?h = "go_ToLower (ol_lower L) (url_Hostname u)"
    show ?thesis
    proof (cases "url_Host u = [] \<or> ?h = []")
      case True
      with Some Cons.IH [of host] Cons.prems show ?thesis by (auto simp: uri_host_def Let_def)
    next
      case False
      with Some Cons.prems have n: "shared_host (ol_parse L) (ol_lower L) ?h rus = d" "host = [] \<or> host = ?h"
        by (auto simp: Let_def split: if_splits)
      from Cons.IH [OF n(1) Cons.prems(2)] n(2) False Some show ?thesis by (auto simp: uri_host_def)
    qed
  qed
qed auto

text \<open>
  only clients of a trusted domain register: when a registration succeeds, every redirect URI is
  an absolute URI, those that name a host all name the same one, at least one does, and a domain entry trusts it;
  the client is stored as public, under its new id, with these URIs and that domain, and the answer
  repeats them.  A registration that fails stores nothing.
\<close>

theorem registration_gated:
  assumes "bolt_ok B" "os_ok B db" "others_ok B W" "handleRegister B W h q db = (resp, db')"
  shows "case resp of
      RegisterError status code desc \<Rightarrow> db' = db \<or> db' = w_others W 0 db
    | Registered rs \<Rightarrow>
        (\<exists>req dmn rc. q_Registration q = Some req \<and> h = Some (rs_ClientID rs) \<and>
           (\<forall>ru\<in>set (rr_RedirectURIs req). uri_host (w_lib W) ru = [] \<or> uri_host (w_lib W) ru = dmn) \<and>
           (\<forall>ru\<in>set (rr_RedirectURIs req). \<exists>u. ol_parse (w_lib W) (trim_space ru) = Some u \<and> url_Scheme u \<noteq> []) \<and>
           (\<exists>ru\<in>set (rr_RedirectURIs req). uri_host (w_lib W) ru = dmn) \<and> dmn \<noteq> [] \<and>
           trusted_by (ol_lower (w_lib W)) (bget B db) dmn \<and>
           bget B db' = m_put clientsBucket (rs_ClientID rs) (ClientRow rc) (bget B (w_others W 0 db)) \<and>
           rc_RedirectURIs rc = rr_RedirectURIs req \<and> rs_RedirectURIs rs = rr_RedirectURIs req \<and>
           rc_TokenEndpointAuthMethod rc = ''none'' \<and> rc_Domain rc = dmn \<and> set (rc_GrantTypes rc) \<subseteq> set supportedGrantTypes)"
proof (cases resp)
  case (RegisterError status code desc)
  then show ?thesis using assms(4)
    by (auto simp: handleRegister_def Let_def split: if_splits option.splits sum.splits)
next
  case (Registered rs)
  let ?L = "w_lib W"
  obtain req where req: "q_Registration q = Some req"
    using assms(4) Registered by (auto simp: handleRegister_def Let_def split: if_splits option.splits)
  let ?dmn = "DomainFromRedirectURIs (ol_parse ?L) (ol_lower ?L) (rr_RedirectURIs req)"
  let ?gt = "if rr_GrantTypes req = [] then [''authorization_code'', ''refresh_token''] else rr_GrantTypes req"
  have ok: "list_all (validRegistrationRedirectURI ?L) (rr_RedirectURIs req)" "?dmn \<noteq> []" "TrustedDomain B (ol_lower ?L) ?dmn db"
    "list_all (\<lambda>g. g \<in> set supportedGrantTypes) ?gt"
    using assms(4) Registered req by (auto simp: handleRegister_def Let_def split: if_splits)
  obtain rc where rc: "PutClient B rc (w_others W 0 db) = Inr db'" "h = Some (rs_ClientID rs)" "rc_ClientID rc = rs_ClientID rs"
    "rc_RedirectURIs rc = rr_RedirectURIs req" "rs_RedirectURIs rs = rr_RedirectURIs req"
    "rc_TokenEndpointAuthMethod rc = ''none''" "rc_Domain rc = ?dmn" "rc_GrantTypes rc = ?gt"
    using assms(4) Registered req by (auto simp: handleRegister_def Let_def split: if_splits option.splits sum.splits)
  note hosts = shared_host_all [OF DomainFromRedirectURIs_def [symmetric], of ?L "rr_RedirectURIs req"]
  have abs: "\<exists>u. ol_parse ?L (trim_space ru) = Some u \<and> url_Scheme u \<noteq> []" if "ru \<in> set (rr_RedirectURIs req)" for ru
    using ok(1) that by (auto simp: validRegistrationRedirectURI_def Let_def list_all_iff split: if_splits option.splits)
  have gt: "set ?gt \<subseteq> set supportedGrantTypes" using ok(4) unfolding list_all_iff by blast
  show ?thesis unfolding Registered register_resp.case
    by (intro exI [of _ req] exI [of _ ?dmn] exI [of _ rc])
      (use req rc hosts ok(2) abs gt TrustedDomain_trusted [OF assms(1,2) ok(3)] PutClient_success(2) [OF assms(1) others_okD [OF assms(3,2)] rc(1)]
        in auto)
qed

end
