(* ===== verification/OAuth_Trace.thy ===== *)
theory OAuth_Trace
  imports OAuth_Flow
begin

text \<open>
  Histories of the authorization server: every token that authenticates traces back to a consent that the
  store of an earlier moment grants.
\<close>

section \<open>Histories of requests\<close>

datatype oauth_call =
    CallAuthorize "string option" http_req
  | CallToken "(string \<times> string \<times> string) option" http_req
  | CallRegister "string option" http_req

fun serve :: "('db, os_row) bolt \<Rightarrow> 'db auth_server \<Rightarrow> 'db oauth_world \<times> oauth_call \<Rightarrow> 'db \<Rightarrow> 'db" where
  "serve B S (W, CallAuthorize h q) db = snd (handleAuthorize B S W h q db)"
| "serve B S (W, CallToken h q) db = snd (handleToken B S W h q db)"
| "serve B S (W, CallRegister h q) db = snd (handleRegister B W h q db)"

definition serve_all :: "('db, os_row) bolt \<Rightarrow> 'db auth_server \<Rightarrow> ('db oauth_world \<times> oauth_call) list \<Rightarrow> 'db \<Rightarrow> 'db" where
  "serve_all B S cs db = fold (serve B S) cs db"

text \<open>All codes and all series belong to clients of \<open>A\<close>.\<close>

definition backed :: "('db, os_row) bolt \<Rightarrow> string set \<Rightarrow> 'db \<Rightarrow> bool" where
  "backed B A db \<longleftrightarrow> os_ok B db \<and>
     (\<forall>h r. v_code (bget B db) h = Some r \<longrightarrow> cr_ClientID r \<in> A) \<and> (\<forall>k s. v_series (bget B db) k = Some s \<longrightarrow> sr_ClientID s \<in> A)"

text \<open>
  What may happen between the calls of a handler: anything that leaves a well-formed store and neither
  mints a code nor issues a series for a client that has none.
\<close>

definition issues_nothing :: "('db, os_row) bolt \<Rightarrow> 'db oauth_world \<Rightarrow> bool" where
  "issues_nothing B W \<longleftrightarrow> (\<forall>k A d. backed B A d \<longrightarrow> backed B A (w_others W k d))"

lemma issues_nothingD [simp]: "issues_nothing B W \<Longrightarrow> backed B A d \<Longrightarrow> backed B A (w_others W k d)"
  by (simp add: issues_nothing_def)

lemma backed_mono: "backed B A d \<Longrightarrow> A \<subseteq> A' \<Longrightarrow> backed B A' d"
  unfolding backed_def by blast

lemma backed_ok: "backed B A d \<Longrightarrow> os_ok B d"
  by (simp add: backed_def)

lemma spec_backed:
  assumes "os_spec V now op m = Inr m'"
    and "\<And>h c. v_code m h = Some c \<Longrightarrow> cr_ClientID c \<in> A" "\<And>k s. v_series m k = Some s \<Longrightarrow> sr_ClientID s \<in> A"
    and "case op of PutC c r \<Rightarrow> cr_ClientID r \<in> A | Issue h req at rt \<Rightarrow> sr_ClientID req \<in> A | _ \<Rightarrow> True"
  shows "(\<forall>h c. v_code m' h = Some c \<longrightarrow> cr_ClientID c \<in> A) \<and> (\<forall>k s. v_series m' k = Some s \<longrightarrow> sr_ClientID s \<in> A)"
proof -
  have upd: "update_spec e m = Inr m' \<Longrightarrow> v_series m' = v_series m \<and> v_code m' = v_code m" for e
    by (auto simp: update_spec_def split: if_splits)
  show ?thesis
  proof (cases op)
    case (PutC c rec)
    then have "v_code m' h = (if h = hashHandle c then Some rec else v_code m h)" "v_series m' = v_series m" for h
      using assms(1) by (auto simp: v_code_def views_put_other)
    then show ?thesis using PutC assms(4) assms(2,3) by auto
  next
    case (TakeC c)
    then have "m' = m_del codesBucket {hashHandle c} m" using assms(1) by (auto split: option.splits)
    then show ?thesis using assms(2,3) by (auto simp: v_code_del views_put_other split: if_splits)
  next
    case (Issue h req at rt)
    then obtain hh where "h = Some hh" "m' = m_putSeries (issued now hh req at rt) [] [] m" using assms(1) by (auto split: option.splits)
    then show ?thesis using assms(2,3) Issue assms(4) by (auto simp: views_putSeries)
  next
    case (Refresh h old at rt)
    then show ?thesis using assms(1) assms(2,3)
      by (auto simp: rotate_spec_def views_putSeries views_delSeries pointed_refresh split: option.splits if_splits)
  next
    case (GenConsent x eid)
    then show ?thesis using assms(1) upd assms(2,3) by (auto split: option.splits if_splits)
  next
    case (UpdEntry e)
    then show ?thesis using assms(1) upd assms(2,3) by auto
  next
    case HashTokens
    note k = migrations_keep [OF assms(1) disjI1 [OF HashTokens]]
    show ?thesis using k(4) assms(2,3) by (auto simp: k(1))
  next
    case (SeedDomains hs ds c at rt)
    note k = migrations_keep [OF assms(1) disjI2 [OF SeedDomains]]
    show ?thesis using k(4) assms(2,3) by (auto simp: k(1))
  next
    case (AddEntry x mode ident)
    then show ?thesis using assms(1) assms(2,3) by (auto split: option.splits if_splits)
  next
    case (IssueConf x sc nm v)
    then show ?thesis using assms(1) assms(2,3) by (auto split: option.splits if_splits)
  next
    case (RevokeEmail e)
    then show ?thesis using assms(1) assms(2,3) by (auto simp: views_put_other views_delSeries v_code_del split: if_splits)
  next
    case (DelEntry eid)
    then show ?thesis using assms(1) assms(2,3) by (auto simp: views_put_other v_code_def)
  next
    case (AddClient c)
    then show ?thesis using assms(1) assms(2,3) by (auto simp: views_put_other v_code_def)
  qed (use assms(1) assms(2,3) in \<open>auto simp: views_delSeries views_rescope Let_def split: option.splits if_splits\<close>)
qed

lemma backed_step:
  assumes "bolt_ok B" "backed B A db" "os_apply B V now op db = Inr db'"
    and "case op of PutC c r \<Rightarrow> cr_ClientID r \<in> A | Issue h req at rt \<Rightarrow> sr_ClientID req \<in> A | _ \<Rightarrow> True"
  shows "backed B A db'"
proof -
  note r = os_apply_Inr [OF assms(1) backed_ok [OF assms(2)] assms(3)]
  show ?thesis using spec_backed [OF r(2) _ _ assms(4)] r(1) assms(2) by (auto simp: backed_def)
qed

text \<open>So requests of everyone else that issue nothing are admitted between two calls.\<close>

lemma quiet_ops_issue_nothing:
  assumes "bolt_ok B" "\<And>k. \<exists>V now op. w_others W k = os_next B V (now, op) \<and> (case op of PutC c r \<Rightarrow> False | Issue h req at rt \<Rightarrow> False | _ \<Rightarrow> True)"
  shows "issues_nothing B W"
  unfolding issues_nothing_def
proof (intro allI impI)
  fix k A d assume b: "backed B A d"
  from assms(2) [of k] obtain V now op where o: "w_others W k = os_next B V (now, op)"
    "case op of PutC c r \<Rightarrow> False | Issue h req at rt \<Rightarrow> False | _ \<Rightarrow> True" by blast
  then show "backed B A (w_others W k d)"
    using backed_step [OF assms(1) b, of V now op] b by (cases op) (auto simp: os_next_def split: sum.splits)
qed

section \<open>Each handler\<close>

lemma token_backed:
  assumes "bolt_ok B" "backed B A db" "issues_nothing B W"
  shows "backed B A (snd (handleToken B S W h q db))"
proof -
  note i = issues_nothingD [OF assms(3)]
  have issue: "backed B A (snd (issue_tokens B S W hs rec scope d))" if "backed B A d" "cr_ClientID rec \<in> A" for hs rec scope d
  proof -
    obtain at rt where t: "issuanceTTL B S (w_lib W) (cr_ClientID rec) (w_others W 3 d) = (at, rt)" by (rule prod.exhaust)
    show ?thesis
    proof (cases "NewSeries B (w_now W 2) hs (series_request rec scope) at rt (w_others W 4 (w_others W 3 d))")
      case (Inl e)
      then show ?thesis using i [OF i [OF that(1)]] by (simp add: issue_tokens_def t Let_def)
    next
      case (Inr x)
      then obtain s d' where x: "x = (s, d')" by (cases x)
      have "os_apply B V (w_now W 2) (Issue hs (series_request rec scope) at rt) (w_others W 4 (w_others W 3 d)) = Inr d'" for V
        using Inr x by (simp add: just_db_def)
      from backed_step [OF assms(1) i [OF i [OF that(1)]] this] that(2)
      show ?thesis using Inr x by (simp add: issue_tokens_def t Let_def)
    qed
  qed
  have code: "backed B A (snd (grantAuthorizationCode B S W h q db))"
  proof -
    let ?db2 = "w_others W 1 (w_others W 0 db)"
    have b1: "backed B A (w_others W 0 db)" and b2: "backed B A ?db2" using i i [OF assms(2)] assms(2) by simp_all
    show ?thesis
    proof (cases "TakeCode B (w_now W 0) (q_PostForm q ''code'') ?db2")
      case (Inl e)
      then show ?thesis using assms(2) b1 b2 by (simp add: grantAuthorizationCode_def Let_def)
    next
      case (Inr x)
      then obtain res db3 where x: "TakeCode B (w_now W 0) (q_PostForm q ''code'') ?db2 = Inr (res, db3)" by (cases x) simp
      have "os_apply B V (w_now W 0) (TakeC (q_PostForm q ''code'')) ?db2 = Inr db3" for V using x by (simp add: just_db_def)
      from backed_step [OF assms(1) b2 this] have b3: "backed B A db3" by simp
      from TakeCode_success [OF assms(1) backed_ok [OF b2] x] obtain rec where
        rec: "v_code (bget B ?db2) (hashHandle (q_PostForm q ''code'')) = Some rec" "res = (if w_now W 0 > cr_Expiry rec then Inl OsExpired else Inr rec)"
        by blast
      have A: "cr_ClientID rec \<in> A" using b2 rec(1) by (auto simp: backed_def)
      show ?thesis
      proof (cases "w_now W 0 > cr_Expiry rec")
        case True
        then show ?thesis using assms(2) b1 b3 x rec(2) by (simp add: grantAuthorizationCode_def Let_def)
      next
        case False
        then have "TakeCode B (w_now W 0) (q_PostForm q ''code'') ?db2 = Inr (Inr rec, db3)" using x rec(2) by simp
        with assms(2) b1 b3 issue [OF i [OF b3] A] i [OF b3] show ?thesis
          by (simp add: grantAuthorizationCode_def Let_def del: One_nat_def split: option.split)
      qed
    qed
  qed
  have refresh: "backed B A (snd (grantRefreshToken B S W hs q db))" for hs
  proof -
    let ?ref = "q_PostForm q ''refresh_token''"
    let ?c = "case RefreshClientID B ?ref db of Some c \<Rightarrow> c | None \<Rightarrow> []"
    obtain at rt where t: "issuanceTTL B S (w_lib W) ?c (w_others W 1 (w_others W 0 db)) = (at, rt)" by (rule prod.exhaust)
    let ?db3 = "w_others W 2 (w_others W 1 (w_others W 0 db))"
    have b: "backed B A (w_others W 1 (w_others W 0 db))" "backed B A ?db3" using i assms(2) by simp_all
    have rot: "Rotate B (w_now W 1) hs ?ref at rt ?db3 = Inr (res, db4) \<Longrightarrow> backed B A db4" for res db4
      using backed_step [OF assms(1) b(2), of undefined "w_now W 1" "Refresh hs ?ref at rt" db4] by (simp add: just_db_def del: One_nat_def)
    show ?thesis using assms(2) b rot
      by (auto simp: grantRefreshToken_def Let_def t simp del: One_nat_def split: option.split sum.split)
  qed
  show ?thesis using assms(2) code refresh by (simp add: handleToken_def)
qed

lemma register_backed:
  assumes "bolt_ok B" "backed B A db" "issues_nothing B W"
  shows "backed B A (snd (handleRegister B W h q db))"
proof -
  have b: "backed B A (w_others W 0 db)" using assms(2,3) by simp
  obtain resp db' where r: "handleRegister B W h q db = (resp, db')" by (rule prod.exhaust)
  have "db' = db \<or> db' = w_others W 0 db \<or> (\<exists>c. PutClient B c (w_others W 0 db) = Inr db')"
  proof (cases resp)
    case (RegisterError status code desc)
    then show ?thesis using r
      by (auto simp: handleRegister_def Let_def split: if_splits option.splits sum.splits)
  next
    case (Registered rs)
    then show ?thesis using r
      by (auto simp: handleRegister_def Let_def split: if_splits option.splits sum.splits)
  qed
  moreover have "PutClient B c (w_others W 0 db) = Inr d \<Longrightarrow> backed B A d" for c d
    using backed_step [OF assms(1) b, where V = undefined and now = 0 and op = "AddClient c" and db' = d] by simp
  ultimately show ?thesis using assms(2) b r by auto
qed

definition approved :: "('db, os_row) bolt \<Rightarrow> 'db oauth_world \<Rightarrow> http_req \<Rightarrow> 'db \<Rightarrow> bool" where
  "approved B W q db \<longleftrightarrow>
     q_Method q = ''POST'' \<and> q_PostForm q ''approve'' \<noteq> [] \<and> q_PostForm q ''deny'' = [] \<and>
     consented B W q (q_Form q ''client_id'') (w_others W 1 (w_others W 0 db))"

lemma approve_request_backed:
  assumes "bolt_ok B" "backed B A db" "issues_nothing B W" "ar_ClientID req = c"
  shows "backed B (if consented B W q c db then insert c A else A) (snd (approve_request B S W h q req md db))"
proof -
  obtain p d1 where a: "authorizeConsent B S W q c db = (p, d1)" by (rule prod.exhaust)
  have b1: "backed B A d1"
    using a assms(2,3) by (auto simp: authorizeConsent_def Let_def split: option.splits if_splits)
  have con: "p \<noteq> None \<Longrightarrow> consented B W q c db"
    using a by (auto simp: authorizeConsent_def consented_def domain_consent_def VerifyConsent_def CredentialExpired_def Let_def
        split: option.splits if_splits)
  let ?A = "if consented B W q c db then insert c A else A"
  have b1': "backed B ?A d1" by (rule backed_mono [OF b1]) auto
  have put: "PutCode B code rec d1 = Inr d2 \<Longrightarrow> cr_ClientID rec = c \<Longrightarrow> p \<noteq> None \<Longrightarrow> backed B ?A d2" for code rec d2
    using backed_step [OF assms(1) b1', where V = undefined and now = 0 and op = "PutC code rec" and db' = d2] con by simp
  show ?thesis
  proof (cases p)
    case None
    then show ?thesis using a b1' assms(4) by (simp add: approve_request_def)
  next
    case (Some x)
    obtain nm em where x: "x = (nm, em)" by (cases x)
    show ?thesis
    proof (cases h)
      case None
      then show ?thesis using a b1' assms(4) Some x by (simp add: approve_request_def)
    next
      case h: (Some code)
      let ?rec = "\<lparr>cr_ClientID = ar_ClientID req, cr_RedirectURI = ar_RedirectURI req, cr_CodeChallenge = ar_CodeChallenge req,
            cr_CodeChallengeMethod = ar_CodeChallengeMethod req, cr_Resource = ar_Resource req,
            cr_PrincipalName = nm, cr_PrincipalEmail = em, cr_Expiry = w_now W 2 + as_codeTTL S\<rparr>"
      show ?thesis
      proof (cases "PutCode B code ?rec d1")
        case (Inl e)
        then show ?thesis using a b1' assms(4) Some x h by (simp add: approve_request_def)
      next
        case (Inr d2)
        then have "backed B ?A d2" using put assms(4) Some by simp
        then show ?thesis using Inr a assms(4) Some x h by (simp add: approve_request_def)
      qed
    qed
  qed
qed

lemma authorize_backed:
  assumes "bolt_ok B" "backed B A db" "issues_nothing B W"
  shows "backed B (if approved B W q db then insert (q_Form q ''client_id'') A else A) (snd (handleAuthorize B S W h q db))"
proof -
  let ?c = "q_Form q ''client_id''" and ?A = "if approved B W q db then insert (q_Form q ''client_id'') A else A"
  obtain r db1 where rs: "resolveAuthorizeClient B S W ?c db = (r, db1)" by (rule prod.exhaust)
  have db1: "db1 = w_others W 1 (w_others W 0 db)" by (rule resolve_db [OF rs])
  have b: "backed B A db1" unfolding db1 by (rule issues_nothingD [OF assms(3) issues_nothingD [OF assms(3,2)]])
  have bA: "backed B ?A db" by (rule backed_mono [OF assms(2)]) auto
  have bA1: "backed B ?A db1" by (rule backed_mono [OF b]) auto
  have f: "ar_ClientID (auth_request_of q) = ?c" by (simp add: auth_request_of_def)
  have ap: "backed B ?A (snd (approve_request B S W h q ((auth_request_of q)\<lparr>ar_Resource := rsc\<rparr>) md db1))"
    if "q_Method q = ''POST''" "q_PostForm q ''approve'' \<noteq> []" "q_PostForm q ''deny'' = []" for rsc md
  proof -
    have a: "approved B W q db = consented B W q ?c db1" using that db1 by (simp add: approved_def)
    show ?thesis unfolding a by (rule approve_request_backed [OF assms(1) b assms(3)]) (simp add: f)
  qed
  obtain resp db' where res: "handleAuthorize B S W h q db = (resp, db')" by (rule prod.exhaust)
  have "db' = db \<or> db' = db1 \<or>
     (\<exists>rsc md. q_Method q = ''POST'' \<and> q_PostForm q ''approve'' \<noteq> [] \<and> q_PostForm q ''deny'' = [] \<and>
        approve_request B S W h q ((auth_request_of q)\<lparr>ar_Resource := rsc\<rparr>) md db1 = (resp, db'))"
    using res rs unfolding handleAuthorize_def Let_def f
    by (cases r) (auto split: if_splits option.splits)
  then show ?thesis using bA bA1 ap res by (metis snd_conv)
qed

section \<open>Where tokens come from\<close>

text \<open>The consents of a history: the call that approved, and the store before it.\<close>

definition consents :: "('db, os_row) bolt \<Rightarrow> 'db auth_server \<Rightarrow> ('db oauth_world \<times> oauth_call) list \<Rightarrow> 'db \<Rightarrow> string set" where
  "consents B S cs db =
     {q_Form q ''client_id'' |pre W h q post. cs = pre @ (W, CallAuthorize h q) # post \<and> approved B W q (serve_all B S pre db)}"

lemma consents_snoc:
  "consents B S cs db \<subseteq> consents B S (cs @ [x]) db"
  "approved B W q (serve_all B S cs db) \<Longrightarrow> q_Form q ''client_id'' \<in> consents B S (cs @ [(W, CallAuthorize h q)]) db"
  unfolding consents_def by fastforce+

lemma serve_all_backed:
  assumes "bolt_ok B" "backed B {} db"
  shows "list_all (\<lambda>x. issues_nothing B (fst x)) cs \<Longrightarrow> backed B (consents B S cs db) (serve_all B S cs db)"
proof (induction cs rule: rev_induct)
  case Nil
  show ?case by (rule backed_mono [of B "{}"]) (simp_all add: serve_all_def assms(2))
next
  case (snoc x cs)
  obtain W c where x: "x = (W, c)" by (cases x)
  let ?d = "serve_all B S cs db" and ?A = "consents B S cs db" and ?A' = "consents B S (cs @ [x]) db"
  have b: "backed B ?A ?d" and q: "issues_nothing B W" using snoc x by simp_all
  have d: "serve_all B S (cs @ [x]) db = serve B S (W, c) ?d" by (simp add: serve_all_def x)
  have sub: "?A \<subseteq> ?A'" by (rule consents_snoc(1))
  show ?case
  proof (cases c)
    case (CallAuthorize h q)
    have "backed B (if approved B W q ?d then insert (q_Form q ''client_id'') ?A else ?A) (serve B S (W, c) ?d)"
      using authorize_backed [OF assms(1) b \<open>issues_nothing B W\<close>, of q S h] CallAuthorize by simp
    then show ?thesis unfolding d
      by (rule backed_mono) (use sub consents_snoc(2) [of B W q S cs db h] in \<open>auto simp: x CallAuthorize\<close>)
  next
    case (CallToken h q)
    show ?thesis unfolding d CallToken serve.simps
      by (rule backed_mono [OF token_backed [OF assms(1) b \<open>issues_nothing B W\<close>]]) (rule sub)
  next
    case (CallRegister h q)
    show ?thesis unfolding d CallRegister serve.simps
      by (rule backed_mono [OF register_backed [OF assms(1) b \<open>issues_nothing B W\<close>]]) (rule sub)
  qed
qed

text \<open>
  C22: every token traces back to a consent: start from a store without codes and tokens and serve any
  sequence of requests, with anything else going on between the calls that issues nothing itself.  Then for every
  access token that authenticates at the end there is an earlier approval, in the sequence, of just that client,
  consented to in the store of that moment.
\<close>

theorem tokens_trace_to_consent:
  assumes "bolt_ok B" "os_ok B db" "\<And>h. v_code (bget B db) h = None" "\<And>k. v_series (bget B db) k = None"
    and "list_all (\<lambda>x. issues_nothing B (fst x)) cs"
    and "Lookup B now tok (serve_all B S cs db) = Inr s"
  shows "\<exists>pre W h q post. cs = pre @ (W, CallAuthorize h q) # post \<and> q_Form q ''client_id'' = sr_ClientID s \<and>
    q_Method q = ''POST'' \<and> q_PostForm q ''approve'' \<noteq> [] \<and>
    consented B W q (sr_ClientID s) (w_others W 1 (w_others W 0 (serve_all B S pre db)))"
proof -
  have "backed B {} db" using assms(2-4) by (simp add: backed_def)
  from serve_all_backed [OF assms(1) this assms(5)] have b: "backed B (consents B S cs db) (serve_all B S cs db)" .
  have i: "os_is B (bget B (serve_all B S cs db)) (serve_all B S cs db)" using backed_ok [OF b] by (simp add: os_is_def)
  have "\<exists>k. v_series (bget B (serve_all B S cs db)) k = Some s"
    using assms(6) read_series_pointed [OF i, of accessBucket "hashHandle tok"]
    by (auto simp: Lookup_def pointed_access split: sum.splits option.splits if_splits)
  with b have "sr_ClientID s \<in> consents B S cs db" by (auto simp: backed_def)
  then show ?thesis unfolding consents_def approved_def by force
qed

end
