(* ===== verification/Client_Fetch.thy ===== *)
theory Client_Fetch
  imports OAuth_Endpoints
begin

text \<open>
  The policy on addresses of \<open>pkg/oauth/cimd.go\<close>: the masks of \<open>net.IP\<close> as ranges of numbers, and that
  the server fetches a client's document from public addresses only.
\<close>

section \<open>Addresses the server connects to\<close>

unbundle bit_operations_syntax

lemma and_shifted_mask: "n AND push_bit k (mask j) = 2 ^ k * (n div 2 ^ k mod 2 ^ j)" for n :: nat
proof -
  have "n AND push_bit k (mask j) = push_bit k (take_bit j (drop_bit k n))"
    by (rule bit_eqI) (auto simp: bit_simps)
  then show ?thesis by (simp add: push_bit_eq_mult drop_bit_eq_div take_bit_eq_mod mult.commute)
qed

lemma nat_masks:
  "n AND 240 = 16 * (n div 16 mod 16)" "n AND 254 = 2 * (n div 2 mod 128)" "n AND 192 = 64 * (n div 64 mod 4)" for n :: nat
  using and_shifted_mask [of n 4 4] and_shifted_mask [of n 1 7] and_shifted_mask [of n 6 2]
  by (simp_all add: mask_eq_exp_minus_1 push_bit_eq_mult)

lemma byte_masks:
  "a AND 0xF0 = 16 \<longleftrightarrow> 16 \<le> unat a \<and> unat a \<le> 31" "a AND 0xFE = 0xFC \<longleftrightarrow> 252 \<le> unat a \<and> unat a \<le> 253"
  "a AND 0xF0 = 0xE0 \<longleftrightarrow> 224 \<le> unat a \<and> unat a \<le> 239" "a AND 0xC0 = 0x80 \<longleftrightarrow> 128 \<le> unat a \<and> unat a \<le> 191"
  for a :: "8 word"
proof -
  have l: "unat a < 256" using unsigned_less [of a, where 'a = nat] by simp
  have u: "a AND w = v \<longleftrightarrow> unat a AND unat w = unat v" for w v :: "8 word"
    by (simp add: word_unat_eq_iff unsigned_and_eq)
  have d: "unat a div 16 mod 16 = unat a div 16" "unat a div 2 mod 128 = unat a div 2" "unat a div 64 mod 4 = unat a div 64"
    using l by (simp_all add: less_mult_imp_div_less)
  have e: "n div 16 = 1 \<longleftrightarrow> 16 \<le> n \<and> n \<le> 31" "n div 2 = 126 \<longleftrightarrow> 252 \<le> n \<and> n \<le> 253" "n div 16 = 14 \<longleftrightarrow> 224 \<le> n \<and> n \<le> 239"
    "n div 64 = 2 \<longleftrightarrow> 128 \<le> n \<and> n \<le> 191" for n :: nat
    by linarith+
  show "a AND 0xF0 = 16 \<longleftrightarrow> 16 \<le> unat a \<and> unat a \<le> 31"
    unfolding u by (simp add: nat_masks d flip: e(1))
  show "a AND 0xFE = 0xFC \<longleftrightarrow> 252 \<le> unat a \<and> unat a \<le> 253"
    unfolding u by (simp add: nat_masks d flip: e(2))
  show "a AND 0xF0 = 0xE0 \<longleftrightarrow> 224 \<le> unat a \<and> unat a \<le> 239"
    unfolding u by (simp add: nat_masks d flip: e(3))
  show "a AND 0xC0 = 0x80 \<longleftrightarrow> 128 \<le> unat a \<and> unat a \<le> 191"
    unfolding u by (simp add: nat_masks d flip: e(4))
qed

lemma byte_eq: "a = b \<longleftrightarrow> unat a = unat b" for a b :: "8 word"
  by (simp add: word_unat_eq_iff)

lemma byte_last: "(1 :: 8 word) \<noteq> 0xFF" "(0 :: 8 word) \<noteq> 0xFF"
  by (simp_all add: byte_eq)

text \<open>
  An address of the public internet, by the numbers of its bytes: for IPv4 not 127/8, 10/8, 172.16/12,
  192.168/16, 169.254/16, 224/4 or 0.0.0.0; for IPv6 not ::1, ::, fc00::/7, fe80::/10 and not multicast,
  other than addresses whose scope is wider than the link.
\<close>

definition public_ip :: "ip \<Rightarrow> bool" where
  "public_ip a \<longleftrightarrow>
     (case To4 a of
        Some b \<Rightarrow>
          (let x = unat (b ! 0); y = unat (b ! 1) in
           x \<noteq> 127 \<and> x \<noteq> 10 \<and> \<not> (x = 172 \<and> 16 \<le> y \<and> y \<le> 31) \<and> \<not> (x = 192 \<and> y = 168) \<and> \<not> (x = 169 \<and> y = 254) \<and>
           \<not> (224 \<le> x \<and> x \<le> 239) \<and> b \<noteq> [0, 0, 0, 0])
      | None \<Rightarrow>
          (let x = unat (a ! 0); y = unat (a ! 1) in
           a \<noteq> replicate 15 0 @ [1] \<and> a \<noteq> replicate 16 0 \<and> \<not> (252 \<le> x \<and> x \<le> 253) \<and> \<not> (x = 254 \<and> 128 \<le> y \<and> y \<le> 191) \<and> x \<noteq> 255))"

lemma blockedIP_public:
  assumes "length a = 4 \<or> length a = 16"
  shows "blockedIP a \<longleftrightarrow> \<not> public_ip a"
proof (cases "To4 a")
  case (Some b)
  have a: "a \<noteq> []" using assms by auto
  have z: "a \<noteq> replicate 16 0"
  proof
    assume "a = replicate 16 0"
    moreover have "To4 (replicate 16 0) = None" by code_simp
    ultimately have "To4 a = None" by simp
    with Some show False by simp
  qed
  have m: "\<not> (length a = 16 \<and> a ! 0 = 0xFF)"
  proof
    assume h: "length a = 16 \<and> a ! 0 = 0xFF"
    with Some have "take 10 a = replicate 10 0" by (auto simp: To4_def split: if_splits)
    then have "take 10 a ! 0 = 0" by simp
    with h show False by (simp add: byte_eq)
  qed
  have p: "IsLoopback a \<longleftrightarrow> b ! 0 = 127"
    "IsPrivate a \<longleftrightarrow> b ! 0 = 10 \<or> b ! 0 = 172 \<and> 16 \<le> unat (b ! 1) \<and> unat (b ! 1) \<le> 31 \<or> b ! 0 = 192 \<and> b ! 1 = 168"
    "IsLinkLocalUnicast a \<longleftrightarrow> b ! 0 = 169 \<and> b ! 1 = 254" "IsLinkLocalMulticast a \<longleftrightarrow> b ! 0 = 224 \<and> b ! 1 = 0 \<and> b ! 2 = 0"
    "IsUnspecified a \<longleftrightarrow> b = [0, 0, 0, 0]" "IsMulticast a \<longleftrightarrow> 224 \<le> unat (b ! 0) \<and> unat (b ! 0) \<le> 239"
    "\<not> IsInterfaceLocalMulticast a"
    using z m by (auto simp only: IsLoopback_def IsPrivate_def IsLinkLocalUnicast_def IsLinkLocalMulticast_def IsUnspecified_def
        IsMulticast_def IsInterfaceLocalMulticast_def IPv6unspecified_def Some byte_masks option.case option.inject)
  have n: "x = 127 \<longleftrightarrow> unat x = 127" "x = 10 \<longleftrightarrow> unat x = 10" "x = 172 \<longleftrightarrow> unat x = 172" "x = 192 \<longleftrightarrow> unat x = 192"
    "x = 168 \<longleftrightarrow> unat x = 168" "x = 169 \<longleftrightarrow> unat x = 169" "x = 254 \<longleftrightarrow> unat x = 254" "x = 224 \<longleftrightarrow> unat x = 224" for x :: "8 word"
    by (simp_all add: byte_eq)
  show ?thesis unfolding blockedIP_def public_ip_def Some option.case Let_def p(1-6) n using a p(7) by fastforce
next
  case None
  then have l: "length a = 16" "a \<noteq> []" using assms by (auto simp: To4_def split: if_splits)
  show ?thesis using l
    by (auto simp: blockedIP_def IsLoopback_def IsPrivate_def IsLinkLocalUnicast_def IsLinkLocalMulticast_def IsUnspecified_def
        IsMulticast_def IsInterfaceLocalMulticast_def IPv6unspecified_def IPv6loopback_def public_ip_def None Let_def byte_masks
        byte_eq [of _ "0xFF"] byte_eq [of _ "0xFE"])
qed

text \<open>
  C29: the document of a client is fetched from the public internet only: the server connects to an address
  only if it is the address written in the URL or the first one the host's name resolves to, and this and every other address
  the name resolves to is public (no loopback, private, link-local, unspecified or multicast address).
\<close>

theorem dial_only_public:
  assumes "\<And>h x. ol_ParseIP L h = Some x \<Longrightarrow> length x = 4 \<or> length x = 16"
    and "\<And>h xs x. cn_LookupIPAddr N h = Some xs \<Longrightarrow> x \<in> set xs \<Longrightarrow> length x = 4 \<or> length x = 16"
    and "safeDial (NewVerifier lower trusted) L N addr = Inr (x, port)"
  shows "\<exists>host. ol_SplitHostPort L addr = Some (host, port) \<and> public_ip x \<and>
    (case ol_ParseIP L host of
       Some y \<Rightarrow> x = y
     | None \<Rightarrow> \<exists>xs. cn_LookupIPAddr N host = Some xs \<and> xs \<noteq> [] \<and> x = hd xs \<and> (\<forall>y\<in>set xs. public_ip y))"
proof -
  have b: "vr_isBlockedIP (NewVerifier lower trusted) = blockedIP" by (simp add: NewVerifier_def)
  obtain host p where h: "ol_SplitHostPort L addr = Some (host, p)"
    using assms(3) by (auto simp: safeDial_def split: option.splits)
  show ?thesis
  proof (cases "ol_ParseIP L host")
    case (Some y)
    then show ?thesis using assms(3) h blockedIP_public [OF assms(1) [OF Some]] by (auto simp: safeDial_def b split: if_splits)
  next
    case None
    then obtain xs where xs: "cn_LookupIPAddr N host = Some xs" "xs \<noteq> []" "\<not> list_ex blockedIP xs" "x = hd xs" "port = p"
      using assms(3) h by (auto simp: safeDial_def b split: option.splits if_splits)
    have "\<forall>y\<in>set xs. public_ip y" using xs(3) blockedIP_public [OF assms(2) [OF xs(1)]] by (auto simp: list_ex_iff)
    then show ?thesis using h None xs by (auto intro: exI [of _ host])
  qed
qed

end
