(* ===== verification/OAuth_Instances.thy ===== *)
theory OAuth_Instances
  imports OAuth_Trace Client_Fetch
begin

text \<open>
  A small server and store on which the theorems about the authorization server are applied, and what
  revoking a client or deleting a domain leaves behind there.
\<close>

section \<open>A small server\<close>

definition demo_url :: "string \<Rightarrow> url option" where
  "demo_url s =
     (if s = ''https://x.io/cb'' then Some \<lparr>url_Scheme = ''https'', url_Host = ''x.io'', url_Hostname = ''x.io''\<rparr>
      else if s = ''https://me.io'' then Some \<lparr>url_Scheme = ''https'', url_Host = ''me.io'', url_Hostname = ''me.io''\<rparr>
      else if s = ''app:/cb'' then Some \<lparr>url_Scheme = ''app'', url_Host = [], url_Hostname = []\<rparr>
      else Some \<lparr>url_Scheme = [], url_Host = [], url_Hostname = []\<rparr>)"

definition demo_lib :: oauth_lib where
  "demo_lib = \<lparr>ol_parse = demo_url, ol_path = (\<lambda>s. []), ol_lower = (\<lambda>c. c), ol_fold = (\<lambda>c. c), ol_ParseIP = (\<lambda>s. None),
     ol_SplitHostPort = (\<lambda>s. Some (s, ''443'')), ol_metadata = (\<lambda>s. None)\<rparr>"

definition demo_net :: cimd_net where
  "demo_net = \<lparr>cn_request = (\<lambda>s. True), cn_addr = (\<lambda>s. s), cn_LookupIPAddr = (\<lambda>s. Some [[93, 184, 216, 34]]),
     cn_get = (\<lambda>a p u. GetFailed)\<rparr>"

definition demo_oauth_world :: "os_row mem_db oauth_world" where
  "demo_oauth_world = \<lparr>w_lib = demo_lib, w_net = demo_net, w_now = (\<lambda>k. 5), w_others = (\<lambda>k d. d)\<rparr>"

definition demo_server :: "os_row mem_db auth_server" where
  "demo_server = NewAuthServer (SetTrustedSource (\<lambda>d h. TrustedDomain mem_bolt (\<lambda>c. c) h d) (NewVerifier (\<lambda>c. c) []))
     ''https://me.io'' (''Ann'', ''a@x'') 0 0 0"

definition demo_domain :: reg_entry where
  "demo_domain = (new_entry ''e1'' RegistrationModeDomain ''x.io'' 0)\<lparr>re_Consent := Some ''pw'', re_Scope := ''namespace:docs''\<rparr>"

definition demo_confidential :: reg_entry where
  "demo_confidential = SetSecret ''s3'' ((new_entry ''e2'' RegistrationModeConfidential ''cid'' 0)
     \<lparr>re_Scope := ''namespace:ops'', re_ExpiresAt := 1000\<rparr>)"

definition demo_client :: reg_client where
  "demo_client = \<lparr>rc_ClientID = ''cli'', rc_RedirectURIs = [''https://x.io/cb''], rc_TokenEndpointAuthMethod = ''none'',
     rc_ClientName = ''App'', rc_GrantTypes = [''authorization_code''], rc_ResponseTypes = [''code''], rc_ClientIDIssuedAt = 0,
     rc_Domain = ''x.io''\<rparr>"

type_synonym os_rows = "(string \<times> os_row) list"

definition demo_store :: "os_rows \<Rightarrow> os_rows \<Rightarrow> os_rows \<Rightarrow> os_rows \<Rightarrow> os_rows \<Rightarrow> os_row mem_db" where
  "demo_store codes sers accs refs regs =
     [(accessBucket, accs), (clientsBucket, [(''cli'', ClientRow demo_client)]), (codesBucket, codes), (os_metaBucket, []),
      (refreshBucket, refs), (registrationsBucket, regs), (seriesBucket, sers)]"

definition demo_entries :: os_rows where
  "demo_entries = [(''e1'', EntryRow demo_domain), (''e2'', EntryRow demo_confidential)]"

definition demo_oauth :: "os_row mem_db" where
  "demo_oauth = demo_store [] [] [] [] demo_entries"

definition demo_form :: "(string \<times> string) list \<Rightarrow> string \<Rightarrow> string" where
  "demo_form kvs k = (case map_of kvs k of None \<Rightarrow> [] | Some v \<Rightarrow> v)"

definition demo_post :: "(string \<times> string) list \<Rightarrow> http_req" where
  "demo_post kvs = \<lparr>q_Method = ''POST'', q_ContentType = [], q_FormOK = True, q_Form = demo_form kvs, q_PostForm = demo_form kvs,
     q_BasicAuth = None, q_ForwardedHost = [], q_ForwardedProto = [], q_Host = [], q_TLS = False, q_Registration = None\<rparr>"

definition demo_approval :: "string \<Rightarrow> http_req" where
  "demo_approval client = demo_post
     [(''client_id'', client), (''redirect_uri'', ''https://x.io/cb''), (''response_type'', ''code''),
      (''code_challenge'', b64_raw_url (sha256 ''verifier'')), (''code_challenge_method'', ''S256''), (''approve'', ''1''),
      (''consent_credential'', ''pw'')]"

definition demo_exchange :: "string \<Rightarrow> string \<Rightarrow> http_req" where
  "demo_exchange client secret = demo_post
     [(''grant_type'', ''authorization_code''), (''code'', ''c''), (''client_id'', client), (''redirect_uri'', ''https://x.io/cb''),
      (''code_verifier'', ''verifier''), (''client_secret'', secret)]"

definition demo_refresh :: "string \<Rightarrow> http_req" where
  "demo_refresh token = demo_post [(''grant_type'', ''refresh_token''), (''refresh_token'', token)]"



lemma b64_raw_url_nonempty: "s \<noteq> [] \<Longrightarrow> b64_raw_url s \<noteq> []"
proof -
  assume "s \<noteq> []"
  then obtain c r where s: "s = c # r" by (cases s) auto
  have b: "(of_char c :: nat) div 4 < 64" by (cases c) (simp add: less_mult_imp_div_less)
  have "\<exists>t. b64_quads (of_char c # ns) = b64_char (of_char c div 4) # t" for ns :: "nat list"
    by (cases ns rule: b64_quads.cases) auto
  then obtain t where "b64_encode s = b64_char (of_char c div 4) # t" unfolding b64_encode_def s list.map by blast
  moreover have "b64_char (of_char c div 4) \<noteq> CHR ''=''" using b64_char_plain [OF b] by auto
  ultimately show ?thesis by (simp add: b64_raw_url_def)
qed
lemma demo_trims [simp]: "trim_space ''cli'' = ''cli''" "trim_space ''cid'' = ''cid''" "trim_space ''x.io'' = ''x.io''"
  "trim_space ''https://me.io'' = ''https://me.io''" "trim_space ''https://x.io/cb'' = ''https://x.io/cb''"
  by (rule trim_space_trimmed, code_simp)+
lemma demo_lower [simp]: "go_ToLower (\<lambda>c. c) ''x.io'' = ''x.io''"
  by (simp add: go_ToLower_def runes_def rune_string_def encode_rune_def valid_rune_def char_of_def bit_iff_odd)

lemmas demo_defs = demo_server_def demo_oauth_world_def demo_lib_def demo_url_def demo_oauth_def demo_store_def demo_entries_def demo_client_def demo_domain_def demo_confidential_def
  NewAuthServer_def new_entry_def SetSecret_def RegistrationModeDomain_def RegistrationModeConfidential_def mem_bolt_def os_bucket_defs

lemma demo_not_confidential: "ConfidentialClient mem_bolt ''cli'' demo_oauth = None"
  by (simp add: ConfidentialClient_def demo_defs List.map_filter_simps)
lemma demo_is_dcr: "isDCRClientID demo_lib ''cli''" by (simp add: isDCRClientID_def demo_defs)
lemma demo_get_client: "GetClient mem_bolt ''cli'' demo_oauth = Inr demo_client" by (simp add: GetClient_def demo_defs or_err_def)
lemma demo_domain_entry: "DomainEntryForClient mem_bolt demo_url (\<lambda>c. c) ''cli'' demo_oauth = Some demo_domain"
  by (simp add: DomainEntryForClient_def clientDomain_def cimdHost_def demo_get_client demo_client_def demo_url_def SelfIssuedClientID_def)
    (simp add: DomainEntryForHost_def ListRegistrations_def demo_defs covers_def)

definition demo_grant :: "string \<Rightarrow> code_rec" where
  "demo_grant client = \<lparr>cr_ClientID = client, cr_RedirectURI = ''https://x.io/cb'', cr_CodeChallenge = b64_raw_url (sha256 ''verifier''),
     cr_CodeChallengeMethod = ''S256'', cr_Resource = ''https://me.io/mcp'', cr_PrincipalName = ''Ann'', cr_PrincipalEmail = ''a@x'',
     cr_Expiry = 60000000005\<rparr>"

definition demo_coded :: "string \<Rightarrow> os_row mem_db" where
  "demo_coded client = demo_store [(hashHandle ''c'', CodeRow (demo_grant client))] [] [] [] demo_entries"

lemma sha256_nonempty: "sha256 s \<noteq> []"
  by (simp add: sha256_def) (metis length_sha_out list.size(3) zero_neq_numeral)

lemma demo_resource: "resolveResource demo_server demo_lib (demo_post kvs) [] = Some ''https://me.io/mcp''"
  by (simp add: resolveResource_def Base_def demo_server_def NewAuthServer_def demo_lib_def demo_url_def ResourceURL_def MCPEndpointPath_def)

lemma demo_approved: "handleAuthorize mem_bolt demo_server demo_oauth_world (Some ''c'') (demo_approval ''cli'') demo_oauth =
   (RedirectTo ''https://x.io/cb'' [(''code'', ''c'')], demo_coded ''cli'')"
proof -
  let ?q = "demo_approval ''cli''"
  have q: "q_Method ?q = ''POST''" "q_FormOK ?q" "q_Form ?q k = q_PostForm ?q k" for k by (simp_all add: demo_approval_def demo_post_def)
  have f: "q_PostForm ?q ''client_id'' = ''cli''" "q_PostForm ?q ''redirect_uri'' = ''https://x.io/cb''" "q_PostForm ?q ''response_type'' = ''code''"
    "q_PostForm ?q ''code_challenge'' = b64_raw_url (sha256 ''verifier'')" "q_PostForm ?q ''code_challenge_method'' = ''S256''"
    "q_PostForm ?q ''approve'' = ''1''" "q_PostForm ?q ''consent_credential'' = ''pw''" "q_PostForm ?q ''deny'' = []"
    "q_PostForm ?q ''resource'' = []" "q_PostForm ?q ''state'' = []" "q_PostForm ?q ''scope'' = []"
    by (simp_all add: demo_approval_def demo_post_def demo_form_def)
  have w: "w_lib demo_oauth_world = demo_lib" "w_others demo_oauth_world k d = d" "w_now demo_oauth_world k = 5" for k d by (simp_all add: demo_oauth_world_def)
  have r: "resolveAuthorizeClient mem_bolt demo_server demo_oauth_world ''cli'' demo_oauth =
     (Inr \<lparr>cm_ClientID = ''cli'', cm_ClientName = ''App'', cm_RedirectURIs = [''https://x.io/cb''], cm_GrantTypes = [''authorization_code''],
        cm_ResponseTypes = [''code''], cm_TokenEndpointAuthMethod = ''none'', cm_Confidential = False\<rparr>, demo_oauth)"
    by (simp add: resolveAuthorizeClient_def w demo_not_confidential demo_is_dcr demo_get_client) (simp add: demo_client_def)
  have u: "RedirectURIAllowed demo_lib ''https://x.io/cb'' [''https://x.io/cb'']"
    by (simp add: RedirectURIAllowed_def demo_lib_def demo_url_def)
  have a: "authorizeConsent mem_bolt demo_server demo_oauth_world ?q ''cli'' demo_oauth = (Some (''Ann'', ''a@x''), demo_oauth)"
    by (simp add: authorizeConsent_def demo_not_confidential w domain_consent_def f VerifyConsent_def)
      (simp add: demo_lib_def demo_domain_entry VerifyConsent_def demo_domain_def demo_server_def NewAuthServer_def f)
  have l: "ol_parse demo_lib = demo_url" "as_codeTTL demo_server = 60000000000"
    by (simp_all add: demo_lib_def demo_server_def NewAuthServer_def go_Second_def)
  have res: "resolveResource demo_server demo_lib ?q [] = Some ''https://me.io/mcp''" by (simp add: demo_approval_def demo_resource)
  show ?thesis
    by (simp add: handleAuthorize_def q auth_request_of_def f r w u b64_raw_url_nonempty sha256_nonempty res approve_request_def a)
      (simp add: PutCode_def transact_def demo_coded_def demo_oauth_def demo_store_def demo_entries_def demo_grant_def mem_bolt_def redirectSuccess_def l demo_url_def or_err_def Let_def w os_bucket_defs)
qed


definition demo_granted_series :: "string \<Rightarrow> string \<Rightarrow> series" where
  "demo_granted_series client scope = \<lparr>sr_SeriesID = ''i'', sr_Name = [], sr_AccessTokenHash = hashHandle ''a'', sr_RefreshTokenHash = hashHandle ''abc'',
     sr_ClientID = client, sr_PrincipalName = ''Ann'', sr_PrincipalEmail = ''a@x'', sr_Resource = ''https://me.io/mcp'', sr_IssuedAt = 5,
     sr_AccessExpiry = 3600000000005, sr_RefreshExpiry = 7776000000000005, sr_Scope = scope, sr_ExtraPermissions = []\<rparr>"

definition demo_live :: "string \<Rightarrow> string \<Rightarrow> os_rows \<Rightarrow> os_row mem_db" where
  "demo_live client scope regs =
     demo_store [] [(''i'', series_row (demo_granted_series client scope))] [(hashHandle ''a'', IdRow ''i'')] [(hashHandle ''abc'', IdRow ''i'')] regs"

lemma demo_reads [simp]:
  "ConfidentialClient mem_bolt ''cli'' (demo_coded c) = None" "GetClient mem_bolt ''cli'' (demo_coded c) = Inr demo_client"
  "TakeCode mem_bolt 5 ''c'' (demo_coded c) = Inr (Inr (demo_grant c), demo_oauth)"
  by (simp_all add: ConfidentialClient_def GetClient_def demo_coded_def demo_defs List.map_filter_simps or_err_def TakeCode_def transact_ret_def
      demo_grant_def kv_del_def)

lemma demo_oauth_world_simps [simp]:
  "w_lib demo_oauth_world = demo_lib" "w_others demo_oauth_world k d = d" "w_now demo_oauth_world k = 5" "ol_parse demo_lib = demo_url" "ol_lower demo_lib = (\<lambda>c. c)"
  by (simp_all add: demo_oauth_world_def demo_lib_def)

lemma demo_exchange_simps [simp]:
  "q_Method (demo_exchange client secret) = ''POST''" "q_ContentType (demo_exchange client secret) = []" "q_FormOK (demo_exchange client secret)"
  "q_PostForm (demo_exchange client secret) ''grant_type'' = ''authorization_code''" "q_PostForm (demo_exchange client secret) ''code'' = ''c''"
  "q_PostForm (demo_exchange client secret) ''client_id'' = client" "q_PostForm (demo_exchange client secret) ''redirect_uri'' = ''https://x.io/cb''"
  "q_PostForm (demo_exchange client secret) ''code_verifier'' = ''verifier''" "q_PostForm (demo_exchange client secret) ''client_secret'' = secret"
  "q_BasicAuth (demo_exchange client secret) = None" "token_client (demo_exchange client secret) = client" "token_secret (demo_exchange client secret) = secret"
  by (simp_all add: demo_exchange_def demo_post_def demo_form_def token_client_def token_secret_def)

lemma demo_ttl: "EffectiveTTL demo_domain (as_accessTTL demo_server) (as_refreshTTL demo_server) = (3600000000000, 7776000000000000)"
  by (simp add: EffectiveTTL_def demo_domain_def new_entry_def demo_server_def NewAuthServer_def go_Second_def)

lemma demo_new_series:
  "NewSeries mem_bolt 5 (Some (''i'', ''a'', ''abc'')) (series_request (demo_grant c) sc) 3600000000000 7776000000000000 demo_oauth =
     Inr (demo_granted_series c sc, demo_live c sc demo_entries)"
  by (simp add: NewSeries_def transact_ret_def Let_def putSeriesTx_def delete_unless_def series_request_def demo_grant_def demo_granted_series_def
      demo_live_def demo_oauth_def demo_store_def demo_entries_def mem_bolt_def os_bucket_defs)

lemma demo_exchanged: "handleToken mem_bolt demo_server demo_oauth_world (Some (''i'', ''a'', ''abc'')) (demo_exchange ''cli'' []) (demo_coded ''cli'') =
   (TokensIssued ''a'' ''abc'' 3600, demo_live ''cli'' ''namespace:docs'' demo_entries)"
proof -
  have g: "cr_ClientID (demo_grant ''cli'') = ''cli''" "cr_RedirectURI (demo_grant ''cli'') = ''https://x.io/cb''"
    "verifyPKCE ''verifier'' (cr_CodeChallenge (demo_grant ''cli''))" by (simp_all add: demo_grant_def verifyPKCE_def)
  have s: "domain_scope (Some demo_domain) = ''namespace:docs''" by (simp add: domain_scope_def demo_domain_def)
  have w: "whole_seconds 3600000000000 = 3600" by (simp add: whole_seconds_def)
  show ?thesis
    by (simp add: handleToken_def grantAuthorizationCode_def demo_is_dcr g demo_domain_entry s issue_tokens_def issuanceTTL_def demo_ttl demo_new_series writeTokens_def)
      (simp add: demo_granted_series_def w)
qed


lemma demo_pad [simp]: "trim_space ''cid '' = ''cid''"
  by code_simp

lemma demo_rows:
  "b_rows mem_bolt (demo_store cs ss as rs es) registrationsBucket = kv_puts (rev es) []"
  "b_get mem_bolt (demo_store cs ss as rs es) clientsBucket c = (if c = ''cli'' then Some (ClientRow demo_client) else None)"
  by (simp_all add: demo_store_def mem_bolt_def os_bucket_defs)

lemma demo_modes: "re_RegistrationMode demo_confidential = RegistrationModeConfidential" "re_Identifier demo_confidential = ''cid''"
  "re_RegistrationMode demo_domain = RegistrationModeDomain" "RegistrationModeDomain \<noteq> RegistrationModeConfidential"
  by (simp_all add: demo_confidential_def demo_domain_def SetSecret_def new_entry_def RegistrationModeConfidential_def RegistrationModeDomain_def)

lemma demo_cid:
  assumes "c = ''cid'' \<or> c = ''cid ''"
  shows "ConfidentialClient mem_bolt c (demo_store cs ss as rs demo_entries) = Some demo_confidential"
    "ConfidentialClient mem_bolt c (demo_store cs ss as rs [(''e1'', EntryRow demo_domain)]) = None"
    "DomainEntryForClient mem_bolt demo_url (\<lambda>c. c) c (demo_store cs ss as rs es) = None"
proof -
  have t: "trim_space c = ''cid''" "c \<noteq> ''cli''" "c \<noteq> SelfIssuedClientID" "cimdHost demo_url (\<lambda>c. c) c = []"
    using assms by (auto simp: SelfIssuedClientID_def cimdHost_def demo_url_def)
  show "ConfidentialClient mem_bolt c (demo_store cs ss as rs demo_entries) = Some demo_confidential"
    "ConfidentialClient mem_bolt c (demo_store cs ss as rs [(''e1'', EntryRow demo_domain)]) = None"
    by (simp_all add: ConfidentialClient_def t demo_rows demo_entries_def kv_puts_def List.map_filter_simps demo_modes)
  show "DomainEntryForClient mem_bolt demo_url (\<lambda>c. c) c (demo_store cs ss as rs es) = None"
    by (simp add: DomainEntryForClient_def clientDomain_def t GetClient_def demo_rows)
qed

lemma demo_take: "TakeCode mem_bolt 5 ''c'' (demo_store [(hashHandle ''c'', CodeRow (demo_grant c))] ss as rs es) =
    Inr (Inr (demo_grant c), demo_store [] ss as rs es)"
  by (simp add: TakeCode_def transact_ret_def demo_store_def mem_bolt_def os_bucket_defs demo_grant_def kv_del_def)

lemma demo_new_series':
  "NewSeries mem_bolt 5 (Some (''i'', ''a'', ''abc'')) (series_request (demo_grant c) sc) 3600000000000 7776000000000000 (demo_store [] [] [] [] es) =
     Inr (demo_granted_series c sc, demo_live c sc es)"
  by (simp add: NewSeries_def transact_ret_def Let_def putSeriesTx_def delete_unless_def series_request_def demo_grant_def demo_granted_series_def
      demo_live_def demo_store_def mem_bolt_def os_bucket_defs)

lemma demo_server_ttl: "as_accessTTL demo_server = 3600000000000" "as_refreshTTL demo_server = 7776000000000000"
  by (simp_all add: demo_server_def NewAuthServer_def go_Second_def)

lemma demo_expiry: "whole_seconds (sr_AccessExpiry (demo_granted_series c sc) - 5) = 3600"
  by (simp add: demo_granted_series_def whole_seconds_def)

lemma demo_grant_simps: "cr_ClientID (demo_grant c) = c" "cr_RedirectURI (demo_grant c) = ''https://x.io/cb''"
    "verifyPKCE ''verifier'' (cr_CodeChallenge (demo_grant c))" by (simp_all add: demo_grant_def verifyPKCE_def)

lemma pad_exchange: "handleToken mem_bolt demo_server demo_oauth_world (Some (''i'', ''a'', ''abc'')) (demo_exchange ''cid '' ''s3'') (demo_coded ''cid '') =
   (TokensIssued ''a'' ''abc'' 3600, demo_live ''cid '' ''namespace:ops'' demo_entries)"
proof -
  have c: "client_refused demo_confidential (demo_exchange ''cid '' ''s3'') 5 = None"
    by (simp add: client_refused_None) (simp add: demo_confidential_def SetSecret_def)
  have s: "re_Scope demo_confidential = ''namespace:ops''" by (simp add: demo_confidential_def SetSecret_def)
  show ?thesis
    by (simp add: handleToken_def grantAuthorizationCode_def demo_coded_def demo_cid demo_take demo_grant_simps c s issue_tokens_def issuanceTTL_def
        demo_server_ttl demo_new_series' writeTokens_def demo_expiry)
qed

lemma pad_revoked: "handleConfidentialRevoke mem_bolt demo_oauth_world True (Some ''e2'') (demo_live ''cid '' sc demo_entries) =
   (Inr (''e2'', 0), demo_live ''cid '' sc [(''e1'', EntryRow demo_domain)])"
proof -
  have g: "GetRegistration mem_bolt ''e2'' (demo_live c sc demo_entries) = Inr demo_confidential" for c
    by (simp add: GetRegistration_def demo_live_def demo_store_def demo_entries_def mem_bolt_def os_bucket_defs or_err_def)
  have i: "re_RegistrationMode demo_confidential = RegistrationModeConfidential" "re_Identifier demo_confidential = ''cid''"
    by (simp_all add: demo_confidential_def SetSecret_def new_entry_def)
  have r: "RevokeByClientID mem_bolt ''cid'' (demo_live ''cid '' sc demo_entries) = Inr (0, demo_live ''cid '' sc demo_entries)"
    by (simp add: RevokeByClientID_def Let_def transact_ret_def revoke_where_def demo_live_def demo_store_def mem_bolt_def os_bucket_defs
        demo_granted_series_def)
  have d: "DeleteRegistration mem_bolt ''e2'' (demo_live ''cid '' sc demo_entries) = Inr (demo_live ''cid '' sc [(''e1'', EntryRow demo_domain)])"
    by (simp add: DeleteRegistration_def transact_def demo_live_def demo_store_def demo_entries_def mem_bolt_def os_bucket_defs or_err_def kv_del_def)
  show ?thesis by (simp add: handleConfidentialRevoke_def with_payload_def g i r d ignoring_def)
qed


lemma demo_refresh_simps [simp]:
  "q_Method (demo_refresh t) = ''POST''" "q_ContentType (demo_refresh t) = []" "q_FormOK (demo_refresh t)"
  "q_PostForm (demo_refresh t) ''grant_type'' = ''refresh_token''" "q_PostForm (demo_refresh t) ''refresh_token'' = t"
  "token_secret (demo_refresh t) = []"
  by (simp_all add: demo_refresh_def demo_post_def demo_form_def token_secret_def)

lemma demo_handles_differ: "hashHandle ''abcd'' \<noteq> hashHandle ''abc''"
  by (simp add: hashHandle_def sha256Hex_abc sha256Hex_abcd)

lemma demo_RefreshClientID: "RefreshClientID mem_bolt ''abc'' (demo_live c sc es) = Some c"
  by (simp add: RefreshClientID_def read_series_def demo_live_def demo_store_def mem_bolt_def os_bucket_defs or_err_def demo_granted_series_def)

lemma demo_rotated: "\<exists>s db. Rotate mem_bolt 5 (Some (''a'', ''abcd'')) ''abc'' 3600000000000 7776000000000000 (demo_live c sc es) = Inr (Inr s, db) \<and>
    sr_AccessExpiry s = 3600000000005"
  by (simp add: Rotate_def transact_ret_def read_series_def demo_live_def demo_store_def mem_bolt_def os_bucket_defs or_err_def demo_granted_series_def
      Let_def putSeriesTx_def delete_unless_def series_row_def)

lemma demo_refresh_open:
  assumes "c = ''cid'' \<or> c = ''cid ''"
  shows "fst (handleToken mem_bolt demo_server demo_oauth_world (Some (''j'', ''a'', ''abcd'')) (demo_refresh ''abc'')
    (demo_live c sc [(''e1'', EntryRow demo_domain)])) = TokensIssued ''a'' ''abcd'' 3600"
proof -
  obtain s db where r: "Rotate mem_bolt 5 (Some (''a'', ''abcd'')) ''abc'' 3600000000000 7776000000000000 (demo_live c sc [(''e1'', EntryRow demo_domain)]) =
      Inr (Inr s, db)" "sr_AccessExpiry s = 3600000000005"
    using demo_rotated by blast
  have n: "ConfidentialClient mem_bolt c (demo_live c sc [(''e1'', EntryRow demo_domain)]) = None"
    "DomainEntryForClient mem_bolt demo_url (\<lambda>c. c) c (demo_live c sc [(''e1'', EntryRow demo_domain)]) = None"
    by (simp_all add: demo_live_def demo_cid [OF assms])
  show ?thesis
    by (simp add: handleToken_def grantRefreshToken_def demo_RefreshClientID n issuanceTTL_def demo_server_ttl r writeTokens_def whole_seconds_def)
qed

section \<open>What revocations leave behind\<close>

text \<open>
  revoking a confidential client must cut the tokens it issued.  The client's id is looked up after
  trimming it, but a series keeps the id as it was sent and the revocation compares it exactly: a client
  that sends its id with a trailing space gets tokens (with its secret), keeps them when the
  administrator revokes it (which reports no revoked token), and from then on refreshes them without any
  secret.
\<close>

theorem padded_client_outlives_revocation:
  "\<exists>db1 db2.
     handleToken mem_bolt demo_server demo_oauth_world (Some (''i'', ''a'', ''abc'')) (demo_exchange ''cid '' ''s3'') (demo_coded ''cid '') =
       (TokensIssued ''a'' ''abc'' 3600, db1) \<and>
     fst (handleToken mem_bolt demo_server demo_oauth_world (Some (''j'', ''a'', ''abcd'')) (demo_refresh ''abc'') db1) =
       TokenError 401 ''invalid_client'' ''client authentication failed'' \<and>
     handleConfidentialRevoke mem_bolt demo_oauth_world True (Some ''e2'') db1 = (Inr (''e2'', 0), db2) \<and>
     fst (handleToken mem_bolt demo_server demo_oauth_world (Some (''j'', ''a'', ''abcd'')) (demo_refresh ''abc'') db2) =
       TokensIssued ''a'' ''abcd'' 3600"
proof (intro exI conjI)
  show "handleToken mem_bolt demo_server demo_oauth_world (Some (''i'', ''a'', ''abc'')) (demo_exchange ''cid '' ''s3'') (demo_coded ''cid '') =
       (TokensIssued ''a'' ''abc'' 3600, demo_live ''cid '' ''namespace:ops'' demo_entries)" by (rule pad_exchange)
  have c: "client_refused demo_confidential (demo_refresh ''abc'') 5 = Some (TokenError 401 ''invalid_client'' ''client authentication failed'')"
    by (simp add: client_refused_def VerifySecret_def demo_confidential_def SetSecret_def CredentialExpired_def)
  have n: "ConfidentialClient mem_bolt ''cid '' (demo_live ''cid '' sc demo_entries) = Some demo_confidential" for sc
    by (simp add: demo_live_def demo_cid)
  show "fst (handleToken mem_bolt demo_server demo_oauth_world (Some (''j'', ''a'', ''abcd'')) (demo_refresh ''abc'')
      (demo_live ''cid '' ''namespace:ops'' demo_entries)) = TokenError 401 ''invalid_client'' ''client authentication failed''"
    by (simp add: handleToken_def grantRefreshToken_def demo_RefreshClientID n c)
  show "handleConfidentialRevoke mem_bolt demo_oauth_world True (Some ''e2'') (demo_live ''cid '' ''namespace:ops'' demo_entries) =
      (Inr (''e2'', 0), demo_live ''cid '' ''namespace:ops'' [(''e1'', EntryRow demo_domain)])" by (rule pad_revoked)
  show "fst (handleToken mem_bolt demo_server demo_oauth_world (Some (''j'', ''a'', ''abcd'')) (demo_refresh ''abc'')
      (demo_live ''cid '' ''namespace:ops'' [(''e1'', EntryRow demo_domain)])) = TokensIssued ''a'' ''abcd'' 3600"
    by (rule demo_refresh_open) simp
qed

lemma demo_no_domain: "DomainEntryForClient mem_bolt demo_url (\<lambda>c. c) ''cli'' (demo_store cs ss as rs [(''e2'', EntryRow demo_confidential)]) = None"
proof -
  have g: "GetClient mem_bolt ''cli'' (demo_store cs ss as rs es) = Inr demo_client" for es
    by (simp add: GetClient_def demo_rows or_err_def)
  have r: "rc_Domain demo_client = ''x.io''" by (simp add: demo_client_def)
  have c: "cimdHost demo_url (\<lambda>c. c) ''cli'' = []" by (simp add: cimdHost_def demo_url_def)
  show ?thesis
    by (simp add: DomainEntryForClient_def clientDomain_def c SelfIssuedClientID_def g r DomainEntryForHost_def ListRegistrations_def demo_rows
        kv_puts_def demo_modes(1) demo_modes(4) [symmetric])
qed

text \<open>
  deleting a domain must cut off its clients.  A code that is outstanding at that moment is still exchanged, and
  as there is no domain entry any more its tokens carry the scope of a client without a domain: a client
  that was limited to reading one namespace gets everything.
\<close>

theorem deleted_domain_widens_scope:
  "\<exists>db1 db2 s.
     fst (handleToken mem_bolt demo_server demo_oauth_world (Some (''i'', ''a'', ''abc'')) (demo_exchange ''cli'' []) (demo_coded ''cli'')) =
       TokensIssued ''a'' ''abc'' 3600 \<and>
     Lookup mem_bolt 6 ''a'' (snd (handleToken mem_bolt demo_server demo_oauth_world (Some (''i'', ''a'', ''abc'')) (demo_exchange ''cli'' [])
       (demo_coded ''cli''))) = Inr (demo_granted_series ''cli'' ''namespace:docs'') \<and>
     handleDomainDelete mem_bolt demo_oauth_world True (Some ''e1'') (demo_coded ''cli'') = (Inr (''e1'', 0), db1) \<and>
     handleToken mem_bolt demo_server demo_oauth_world (Some (''i'', ''a'', ''abc'')) (demo_exchange ''cli'' []) db1 = (TokensIssued ''a'' ''abc'' 3600, db2) \<and>
     Lookup mem_bolt 6 ''a'' db2 = Inr s \<and> sr_ClientID s = ''cli'' \<and> sr_Scope s = ''*''"
proof (intro exI conjI)
  let ?db1 = "demo_store [(hashHandle ''c'', CodeRow (demo_grant ''cli''))] [] [] [] [(''e2'', EntryRow demo_confidential)]"
  let ?db2 = "demo_live ''cli'' ''*'' [(''e2'', EntryRow demo_confidential)]"
  have lk: "Lookup mem_bolt 6 ''a'' (demo_live c sc es) = Inr (demo_granted_series c sc)" for c sc es
    by (simp add: Lookup_def read_series_def demo_live_def demo_store_def mem_bolt_def os_bucket_defs or_err_def) (simp add: demo_granted_series_def)
  show "fst (handleToken mem_bolt demo_server demo_oauth_world (Some (''i'', ''a'', ''abc'')) (demo_exchange ''cli'' []) (demo_coded ''cli'')) =
       TokensIssued ''a'' ''abc'' 3600" by (simp add: demo_exchanged)
  show "Lookup mem_bolt 6 ''a'' (snd (handleToken mem_bolt demo_server demo_oauth_world (Some (''i'', ''a'', ''abc'')) (demo_exchange ''cli'' [])
       (demo_coded ''cli''))) = Inr (demo_granted_series ''cli'' ''namespace:docs'')" by (simp add: demo_exchanged lk)
  have g: "GetRegistration mem_bolt ''e1'' (demo_coded ''cli'') = Inr demo_domain"
    by (simp add: GetRegistration_def demo_coded_def demo_store_def demo_entries_def mem_bolt_def os_bucket_defs or_err_def)
  have i: "re_Identifier demo_domain = ''x.io''" by (simp add: demo_domain_def new_entry_def)
  have r: "RevokeByDomain mem_bolt demo_url (\<lambda>c. c) ''x.io'' (demo_coded ''cli'') = Inr (0, demo_coded ''cli'')"
    by (simp add: RevokeByDomain_def Let_def transact_ret_def revoke_where_def demo_coded_def demo_store_def mem_bolt_def os_bucket_defs kv_puts_def)
  have d: "DeleteRegistration mem_bolt ''e1'' (demo_coded ''cli'') = Inr ?db1"
    by (simp add: DeleteRegistration_def transact_def demo_coded_def demo_store_def demo_entries_def mem_bolt_def os_bucket_defs or_err_def kv_del_def)
  show "handleDomainDelete mem_bolt demo_oauth_world True (Some ''e1'') (demo_coded ''cli'') = (Inr (''e1'', 0), ?db1)"
    by (simp add: handleDomainDelete_def with_payload_def g i r d ignoring_def)
  have n: "ConfidentialClient mem_bolt ''cli'' ?db1 = None" "GetClient mem_bolt ''cli'' ?db1 = Inr demo_client"
    by (simp_all add: ConfidentialClient_def GetClient_def demo_rows or_err_def kv_puts_def List.map_filter_simps demo_modes)
  show "handleToken mem_bolt demo_server demo_oauth_world (Some (''i'', ''a'', ''abc'')) (demo_exchange ''cli'' []) ?db1 = (TokensIssued ''a'' ''abc'' 3600, ?db2)"
    by (simp add: handleToken_def grantAuthorizationCode_def n demo_is_dcr demo_take demo_grant_simps demo_no_domain domain_scope_def issue_tokens_def issuanceTTL_def
        demo_server_ttl demo_new_series' writeTokens_def demo_expiry)
  show "Lookup mem_bolt 6 ''a'' ?db2 = Inr (demo_granted_series ''cli'' ''*'')" by (rule lk)
  show "sr_ClientID (demo_granted_series ''cli'' ''*'') = ''cli''" "sr_Scope (demo_granted_series ''cli'' ''*'') = ''*''" by (simp_all add: demo_granted_series_def)
qed


section \<open>Instances of the theorems\<close>

lemma demo_store_ok:
  assumes "\<And>k v. (k, v) \<in> set codes \<Longrightarrow> row_typed codesBucket k v" "\<And>k v. (k, v) \<in> set sers \<Longrightarrow> row_typed seriesBucket k v"
    "\<And>k v. (k, v) \<in> set accs \<Longrightarrow> row_typed accessBucket k v" "\<And>k v. (k, v) \<in> set refs \<Longrightarrow> row_typed refreshBucket k v"
    "\<And>k v. (k, v) \<in> set regs \<Longrightarrow> row_typed registrationsBucket k v"
  shows "os_ok mem_bolt (demo_store codes sers accs refs regs)"
proof -
  have b: "b_bucket mem_bolt (demo_store codes sers accs refs regs) n" if "n \<in> set os_buckets" for n
    using that by (auto simp: os_buckets_def demo_store_def mem_bolt_def)
  have g: "bget mem_bolt (demo_store codes sers accs refs regs) n k = Some v \<Longrightarrow> (k, v) \<in> set
      (if n = codesBucket then codes else if n = seriesBucket then sers else if n = accessBucket then accs
       else if n = refreshBucket then refs else if n = registrationsBucket then regs
       else if n = clientsBucket then [(''cli'', ClientRow demo_client)] else [])" for n k v
    by (auto simp: bget_bview mem_bolt_view demo_store_def split: if_splits dest: map_of_SomeD)
  have "row_typed clientsBucket ''cli'' (ClientRow demo_client)" "row_typed os_metaBucket k v" for k v
    by (simp_all add: row_typed_handle demo_client_def)
  then have t: "row_typed n k v" if "n \<in> set os_buckets" "bget mem_bolt (demo_store codes sers accs refs regs) n k = Some v" for n k v
    using g [OF that(2)] that(1) by (auto simp: os_buckets_def assms)
  show ?thesis unfolding os_ok_def using b t by blast
qed

lemma demo_rows_typed:
  "(k, v) \<in> set demo_entries \<Longrightarrow> row_typed registrationsBucket k v" "row_typed codesBucket k (CodeRow c)" "row_typed accessBucket k (IdRow i)"
  "row_typed refreshBucket k (IdRow i)" "row_typed seriesBucket ''i'' (series_row (demo_granted_series cl sc))"
  by (auto simp: row_typed_handle row_typed_series demo_entries_def demo_domain_def demo_confidential_def SetSecret_def new_entry_def demo_granted_series_def)

lemma demo_ok: "os_ok mem_bolt demo_oauth" "os_ok mem_bolt (demo_coded c)" "set es \<subseteq> set demo_entries \<Longrightarrow> os_ok mem_bolt (demo_live c sc es)"
  unfolding demo_oauth_def demo_coded_def demo_live_def by (rule demo_store_ok; auto simp: demo_rows_typed)+

lemma demo_others: "others_ok mem_bolt demo_oauth_world" "issues_nothing mem_bolt demo_oauth_world"
  by (simp_all add: others_ok_def issues_nothing_def)

theorem code_exchange_sound_witness:
  "\<exists>s. v_series (bget mem_bolt (demo_live ''cid '' ''namespace:ops'' demo_entries)) ''i'' = Some s \<and> sr_ClientID s = ''cid '' \<and> sr_Scope s = ''namespace:ops''"
proof -
  have c: "ConfidentialClient mem_bolt ''cid '' (demo_coded ''cid '') = Some demo_confidential" by (simp add: demo_coded_def demo_cid)
  have s: "re_Scope demo_confidential = ''namespace:ops''" by (simp add: demo_confidential_def SetSecret_def)
  show ?thesis
    using code_exchange_sound [OF mem_bolt_ok demo_ok(2) demo_others(1) _ pad_exchange] c s by auto
qed

theorem refresh_sound_witness:
  "\<exists>s0. pointed (bget mem_bolt (demo_live ''cid'' [] [(''e1'', EntryRow demo_domain)])) refreshBucket (hashHandle ''abc'') = Some s0 \<and>
     5 \<le> sr_RefreshExpiry s0"
proof -
  let ?db = "demo_live ''cid'' [] [(''e1'', EntryRow demo_domain)]"
  have "fst (handleToken mem_bolt demo_server demo_oauth_world (Some (''j'', ''a'', ''abcd'')) (demo_refresh ''abc'') ?db) = TokensIssued ''a'' ''abcd'' 3600"
    by (rule demo_refresh_open) simp
  then obtain db' where h: "handleToken mem_bolt demo_server demo_oauth_world (Some (''j'', ''a'', ''abcd'')) (demo_refresh ''abc'') ?db =
      (TokensIssued ''a'' ''abcd'' 3600, db')" by (metis surjective_pairing)
  have ok: "os_ok mem_bolt ?db" by (rule demo_ok(3)) (simp add: demo_entries_def)
  show ?thesis using refresh_sound [OF mem_bolt_ok ok demo_others(1) _ h] by auto
qed

theorem authorize_redirects_registered_witness:
  "may_redirect mem_bolt demo_server demo_oauth_world ''cli'' ''https://x.io/cb'' demo_oauth"
proof -
  have "q_Form (demo_approval ''cli'') ''client_id'' = ''cli''" by (simp add: demo_approval_def demo_post_def demo_form_def)
  then show ?thesis using conjunct2 [OF authorize_redirects_registered [OF demo_approved]] by simp
qed

theorem codes_need_consent_witness:
  "consented mem_bolt demo_oauth_world (demo_approval ''cli'') ''cli'' demo_oauth \<and>
   (\<exists>rec. v_code (bget mem_bolt (demo_coded ''cli'')) (hashHandle ''c'') = Some rec \<and> cr_ClientID rec = ''cli'')"
proof -
  have "q_Form (demo_approval ''cli'') ''client_id'' = ''cli''" by (simp add: demo_approval_def demo_post_def demo_form_def)
  then show ?thesis using codes_need_consent [where c = "''c''", OF mem_bolt_ok demo_ok(1) demo_others(1) demo_approved] by auto
qed

definition demo_registration :: registration_request where
  "demo_registration = \<lparr>rr_RedirectURIs = [''https://x.io/cb'', ''app:/cb''], rr_TokenEndpointAuthMethod = [], rr_GrantTypes = [], rr_ResponseTypes = [],
     rr_ClientName = ''App'', rr_ClientURI = [], rr_Scope = []\<rparr>"

lemma demo_registered:
  "\<exists>rs db'. handleRegister mem_bolt demo_oauth_world (Some ''new'') ((demo_post [])\<lparr>q_Registration := Some demo_registration\<rparr>) demo_oauth = (Registered rs, db') \<and>
     rs_ClientID rs = ''new'' \<and> rs_RedirectURIs rs = [''https://x.io/cb'', ''app:/cb'']"
proof -
  have t: "trim_space ''app:/cb'' = ''app:/cb''" by (rule trim_space_trimmed) code_simp
  have v: "validRegistrationRedirectURI demo_lib ''https://x.io/cb''" "validRegistrationRedirectURI demo_lib ''app:/cb''"
    by (simp_all add: validRegistrationRedirectURI_def t demo_lib_def demo_url_def)
  have low: "go_ToLower (\<lambda>c. c) [] = []" by (simp add: go_ToLower_def runes_def rune_string_def)
  have d: "DomainFromRedirectURIs demo_url (\<lambda>c. c) [''https://x.io/cb'', ''app:/cb''] = ''x.io''"
    by (simp add: DomainFromRedirectURIs_def t low demo_url_def)
  have tr: "TrustedDomain mem_bolt (\<lambda>c. c) ''x.io'' demo_oauth"
    using demo_domain_entry by (simp add: TrustedDomain_def DomainEntryForClient_def clientDomain_def cimdHost_def demo_get_client demo_client_def demo_url_def SelfIssuedClientID_def)
  show ?thesis
    by (simp add: handleRegister_def demo_post_def demo_registration_def v d tr supportedGrantTypes_def supportedResponseTypes_def)
      (simp add: PutClient_def transact_def demo_oauth_def demo_store_def mem_bolt_def or_err_def Let_def os_bucket_defs)
qed

theorem registration_gated_witness:
  "trusted_by (\<lambda>c. c) (bget mem_bolt demo_oauth) ''x.io''"
proof -
  obtain rs db' where r: "handleRegister mem_bolt demo_oauth_world (Some ''new'') ((demo_post [])\<lparr>q_Registration := Some demo_registration\<rparr>) demo_oauth =
      (Registered rs, db')" using demo_registered by blast
  have req: "q_Registration ((demo_post [])\<lparr>q_Registration := Some demo_registration\<rparr>) = Some demo_registration" by simp
  have h: "uri_host demo_lib ''https://x.io/cb'' = ''x.io''" by (simp add: uri_host_def demo_lib_def demo_url_def)
  show ?thesis using registration_gated [OF mem_bolt_ok demo_ok(1) demo_others(1) r] h by (auto simp: demo_registration_def)
qed

theorem dial_only_public_witness:
  "public_ip [93, 184, 216, 34] \<and> \<not> public_ip [127, 0, 0, 1]"
proof -
  have "list_ex blockedIP [[93, 184, 216, 34]] = False" using blockedIP_public [of "[93, 184, 216, 34]"] by (simp add: public_ip_def To4_def)
  then have d: "safeDial (NewVerifier (\<lambda>c. c) []) demo_lib demo_net ''x.io'' = Inr ([93, 184, 216, 34], ''443'')"
    by (simp add: safeDial_def demo_lib_def demo_net_def NewVerifier_def)
  have "\<exists>host. ol_SplitHostPort demo_lib ''x.io'' = Some (host, ''443'') \<and> public_ip [93, 184, 216, 34] \<and>
    (case ol_ParseIP demo_lib host of
       Some y \<Rightarrow> [93, 184, 216, 34] = y
     | None \<Rightarrow> \<exists>xs. cn_LookupIPAddr demo_net host = Some xs \<and> xs \<noteq> [] \<and> [93, 184, 216, 34] = hd xs \<and> (\<forall>y\<in>set xs. public_ip y))"
    by (rule dial_only_public [OF _ _ d]) (auto simp: demo_lib_def demo_net_def)
  then have "public_ip [93, 184, 216, 34]" by blast
  then show ?thesis by (simp add: public_ip_def To4_def)
qed

theorem tokens_trace_to_consent_witness:
  "consented mem_bolt demo_oauth_world (demo_approval ''cli'') ''cli'' demo_oauth"
proof -
  let ?cs = "[(demo_oauth_world, CallAuthorize (Some ''c'') (demo_approval ''cli'')),
     (demo_oauth_world, CallToken (Some (''i'', ''a'', ''abc'')) (demo_exchange ''cli'' []))]"
  have s: "serve_all mem_bolt demo_server ?cs demo_oauth = demo_live ''cli'' ''namespace:docs'' demo_entries"
    by (simp add: serve_all_def demo_approved demo_exchanged)
  have lk: "Lookup mem_bolt 6 ''a'' (serve_all mem_bolt demo_server ?cs demo_oauth) = Inr (demo_granted_series ''cli'' ''namespace:docs'')"
    unfolding s by (simp add: Lookup_def read_series_def demo_live_def demo_store_def mem_bolt_def os_bucket_defs or_err_def) (simp add: demo_granted_series_def)
  have e: "v_code (bget mem_bolt demo_oauth) h = None" "v_series (bget mem_bolt demo_oauth) k = None" for h k
    by (simp_all add: v_defs bget_bview mem_bolt_view demo_oauth_def demo_store_def)
  have i: "list_all (\<lambda>x. issues_nothing mem_bolt (fst x)) ?cs" by (simp add: demo_others)
  from tokens_trace_to_consent [OF mem_bolt_ok demo_ok(1) e i lk] obtain pre W h q post where
    p: "?cs = pre @ (W, CallAuthorize h q) # post" "consented mem_bolt W q (sr_ClientID (demo_granted_series ''cli'' ''namespace:docs''))
      (w_others W 1 (w_others W 0 (serve_all mem_bolt demo_server pre demo_oauth)))" by blast
  have "pre = []" using p(1) by (cases pre; cases "tl pre") auto
  with p show ?thesis by (simp add: serve_all_def demo_granted_series_def)
qed

end
