(* ===== verification/Base_Dir.thy ===== *)
theory Base_Dir
  imports Work_Tree Names
begin

text \<open>
  The directory above the projects, \<open>base/namespace/project\<close>, as the management of namespaces and
  projects uses it: \<open>os.Stat\<close>, \<open>os.Rename\<close>, \<open>os.RemoveAll\<close>, \<open>os.ReadDir\<close> on a \<open>wtree\<close> whose root is
  the base directory; what counts as a project (\<open>internal/storage/projectentry.go\<close>, \<open>startup.go\<close>,
  \<open>siblings.go\<close>) and the two enumerations of projects, \<open>ListProjects\<close> of \<open>fs_git.go\<close> and
  \<open>discoverProjects\<close>.
\<close>

definition stat_ok :: "wtree \<Rightarrow> string list \<Rightarrow> bool" where
  "stat_ok t p = (case path_lookup t p of IsFile c \<Rightarrow> True | IsDir \<Rightarrow> True | _ \<Rightarrow> False)"

lemma stat_ok_iff:
  assumes "wt_ok t"
  shows "stat_ok t p \<longleftrightarrow> node_at t p \<noteq> None"
proof -
  have "stat_ok t p \<longleftrightarrow> (\<exists>c. path_lookup t p = IsFile c) \<or> path_lookup t p = IsDir"
    by (auto simp: stat_ok_def split: lookup.split)
  also have "\<dots> \<longleftrightarrow> node_at t p \<noteq> None"
    unfolding path_lookup_ok [OF assms] by (auto simp: file_at_def split: option.splits node.splits)
  finally show ?thesis .
qed

section \<open>Renaming\<close>

definition move_tree :: "string list \<Rightarrow> string list \<Rightarrow> wtree \<Rightarrow> wtree" where
  "move_tree src dst t =
     map (\<lambda>(q, n). (dst @ drop (length src) q, n)) (filter (\<lambda>(q, n). prefix src q) t) @
     filter (\<lambda>(q, n). \<not> prefix src q \<and> \<not> prefix dst q) t"

text \<open>\<open>os.Rename\<close>: Go refuses an existing directory as the target; a file may replace a file.\<close>

definition Rename :: "bool \<Rightarrow> wtree \<Rightarrow> string list \<Rightarrow> string list \<Rightarrow> wtree option" where
  "Rename fails t src dst =
     (if fails \<or> src = [] \<or> dst = [] \<or> node_at t src = None \<or> node_at t dst = Some DirNode then None
      else if src = dst then Some t
      else if node_at t (butlast dst) \<noteq> Some DirNode \<or> prefix src dst \<or>
              node_at t src = Some DirNode \<and> node_at t dst \<noteq> None then None
      else Some (move_tree src dst t))"

lemma map_of_filter_key: "map_of (filter (\<lambda>(k, v). P k) xs) k = (if P k then map_of xs k else None)"
  by (induction xs) auto

lemma map_of_moved:
  "map_of (map (\<lambda>(q, n). (dst @ drop (length src) q, n)) (filter (\<lambda>(q, n). prefix src q) t)) q =
     (if prefix dst q then map_of t (src @ drop (length dst) q) else None)"
proof (induction t)
  case (Cons x t)
  obtain k n where x: "x = (k, n)" by fastforce
  have "dst @ drop (length src) k = q \<longleftrightarrow> k = src @ drop (length dst) q" if "prefix src k" "prefix dst q"
    using that by (auto simp: prefix_def)
  moreover have "prefix src (src @ drop (length dst) q)" by simp
  moreover have "dst @ drop (length src) k = q \<Longrightarrow> prefix dst q" by auto
  ultimately show ?case using Cons x by (cases "prefix src k") auto
qed simp

lemma node_at_move:
  assumes "src \<noteq> []" "dst \<noteq> []"
  shows "node_at (move_tree src dst t) q =
     (if prefix dst q then node_at t (src @ drop (length dst) q) else if prefix src q then None else node_at t q)"
proof (cases "q = []")
  case False
  have "map_of (filter (\<lambda>(q, n). \<not> prefix src q \<and> \<not> prefix dst q) t) q =
      (if \<not> prefix src q \<and> \<not> prefix dst q then map_of t q else None)"
    by (rule map_of_filter_key)
  with False assms show ?thesis by (auto simp: node_at_def move_tree_def map_of_moved map_add_def split: option.split)
qed (use assms in simp)

lemma wt_okD: "wt_ok t \<Longrightarrow> node_at t p \<noteq> None \<Longrightarrow> strict_prefix q p \<Longrightarrow> node_at t q = Some DirNode"
  by (auto simp: wt_ok_def)

text \<open>What a rename that succeeds does.\<close>

lemma Rename_ok:
  assumes "wt_ok t" "Rename f t src dst = Some t'" "src \<noteq> dst"
  shows "wt_ok t'"
    "node_at t' q = (if prefix dst q then node_at t (src @ drop (length dst) q) else if prefix src q then None else node_at t q)"
    "\<not> prefix src dst" "\<not> prefix dst src" "src \<noteq> []" "dst \<noteq> []" "node_at t src \<noteq> None" "node_at t (butlast dst) = Some DirNode"
proof -
  have c: "src \<noteq> []" "dst \<noteq> []" "node_at t src \<noteq> None" "node_at t dst \<noteq> Some DirNode" "node_at t (butlast dst) = Some DirNode"
    "\<not> prefix src dst" "t' = move_tree src dst t"
    using assms(2,3) by (auto simp: Rename_def split: if_splits)
  note n = node_at_move [OF c(1,2), of t]
  have up: "node_at t r = Some DirNode \<and> \<not> prefix src r" if "strict_prefix r dst" for r
  proof -
    have "prefix r (butlast dst)" using that strict_prefix_butlast [OF c(2)] by simp
    then have "node_at t r = Some DirNode" using c(5) wt_okD [OF assms(1), of "butlast dst" r]
      by (cases "r = butlast dst") (auto simp: strict_prefix_def)
    moreover have "\<not> prefix src r" using that c(6) by (meson prefix_order.order_trans strict_prefix_def)
    ultimately show ?thesis by simp
  qed
  show nd: "\<not> prefix dst src"
  proof
    assume "prefix dst src"
    then have "strict_prefix dst src" using assms(3) by (simp add: strict_prefix_def)
    then show False using wt_okD [OF assms(1) c(3)] c(4) by simp
  qed
  show "node_at t' q = (if prefix dst q then node_at t (src @ drop (length dst) q) else if prefix src q then None else node_at t q)"
    by (simp add: c(7) n)
  show "\<not> prefix src dst" "src \<noteq> []" "dst \<noteq> []" "node_at t src \<noteq> None" "node_at t (butlast dst) = Some DirNode" by (fact c)+
  show "wt_ok t'" unfolding wt_ok_def c(7)
  proof (intro allI impI)
    fix p r assume p: "node_at (move_tree src dst t) p \<noteq> None" "strict_prefix r p"
    show "node_at (move_tree src dst t) r = Some DirNode"
    proof (cases "prefix dst p")
      case True
      then have np: "node_at t (src @ drop (length dst) p) \<noteq> None" using p(1) by (simp add: n)
      show ?thesis
      proof (cases "prefix dst r")
        case True
        have "strict_prefix (src @ drop (length dst) r) (src @ drop (length dst) p)"
          using True p(2) by (auto simp: prefix_def strict_prefix_def)
        then show ?thesis using True wt_okD [OF assms(1) np] by (simp add: n)
      next
        case False
        then have "strict_prefix r dst" using True p(2) by (metis prefix_same_cases strict_prefix_def)
        then show ?thesis using up False by (simp add: n)
      qed
    next
      case False
      then have np: "node_at t p \<noteq> None" "\<not> prefix src p" using p(1) by (auto simp: n split: if_splits)
      have "\<not> prefix src r" "\<not> prefix dst r" using np(2) False p(2) by (meson prefix_order.order_trans strict_prefix_def)+
      then show ?thesis using wt_okD [OF assms(1) np(1) p(2)] by (simp add: n)
    qed
  qed
qed

section \<open>Removing a tree\<close>

text \<open>
  \<open>os.RemoveAll\<close>: what cannot be removed (\<open>stuck\<close>) keeps its ancestors; the call reports success
  when nothing is left.
\<close>

definition RemoveAll :: "(string list \<Rightarrow> bool) \<Rightarrow> wtree \<Rightarrow> string list \<Rightarrow> bool \<times> wtree" where
  "RemoveAll stuck t p =
     (let t1 = filter (\<lambda>(q, n). \<not> prefix p q \<or> list_ex (\<lambda>(r, m). prefix p r \<and> prefix q r \<and> stuck r) t) t in
      (\<not> list_ex (\<lambda>(q, n). prefix p q) t1, t1))"

lemma RemoveAll_at:
  "node_at (snd (RemoveAll stuck t p)) q =
     (if q = [] \<or> \<not> prefix p q \<or> list_ex (\<lambda>(r, m). prefix p r \<and> prefix q r \<and> stuck r) t then node_at t q else None)"
  by (simp add: RemoveAll_def Let_def node_at_def map_of_filter_key)

lemma RemoveAll_node:
  assumes "p \<noteq> []"
  shows "\<not> prefix p q \<Longrightarrow> node_at (snd (RemoveAll stuck t p)) q = node_at t q"
    "fst (RemoveAll stuck t p) \<Longrightarrow> prefix p q \<Longrightarrow> node_at (snd (RemoveAll stuck t p)) q = None"
    "node_at (snd (RemoveAll stuck t p)) q \<in> {None, node_at t q}"
proof -
  show "\<not> prefix p q \<Longrightarrow> node_at (snd (RemoveAll stuck t p)) q = node_at t q" by (simp add: RemoveAll_at)
  show "node_at (snd (RemoveAll stuck t p)) q \<in> {None, node_at t q}" by (simp add: RemoveAll_at)
  assume f: "fst (RemoveAll stuck t p)" and q: "prefix p q"
  have "q \<notin> fst ` set (snd (RemoveAll stuck t p))" using f q by (auto simp: RemoveAll_def Let_def list_ex_iff)
  moreover have "q \<noteq> []" using q assms by auto
  ultimately show "node_at (snd (RemoveAll stuck t p)) q = None" by (simp add: node_at_def map_of_eq_None_iff)
qed

lemma RemoveAll_wt_ok:
  assumes "wt_ok t"
  shows "wt_ok (snd (RemoveAll stuck t p))"
  unfolding wt_ok_def
proof (intro allI impI)
  let ?P = "\<lambda>q. q = [] \<or> \<not> prefix p q \<or> list_ex (\<lambda>(r, m). prefix p r \<and> prefix q r \<and> stuck r) t"
  fix x q assume x: "node_at (snd (RemoveAll stuck t p)) x \<noteq> None" "strict_prefix q x"
  then have P: "?P x" "node_at t x \<noteq> None" by (auto simp: RemoveAll_at split: if_splits)
  have ne: "x \<noteq> []" using x(2) by auto
  have "?P q"
  proof (cases "prefix p x \<and> prefix p q")
    case True
    then have "list_ex (\<lambda>(r, m). prefix p r \<and> prefix x r \<and> stuck r) t" using P(1) ne by blast
    then obtain r m where r: "(r, m) \<in> set t" "prefix p r" "prefix x r" "stuck r" by (auto simp: list_ex_iff)
    then have "prefix q r" using x(2) by (meson prefix_order.order_trans strict_prefix_def)
    then have "list_ex (\<lambda>(r, m). prefix p r \<and> prefix q r \<and> stuck r) t" using r by (auto simp: list_ex_iff)
    then show ?thesis by blast
  next
    case False
    then show ?thesis using x(2) by (meson prefix_order.order_trans strict_prefix_def)
  qed
  then show "node_at (snd (RemoveAll stuck t p)) q = Some DirNode"
    using wt_okD [OF assms P(2) x(2)] by (simp add: RemoveAll_at)
qed

section \<open>Projects\<close>

text \<open>
  \<open>os.ReadDir\<close>: the names below a directory, sorted; with the fault it fails with an error that is not
  \<open>os.IsNotExist\<close>.  The tree has directories and regular files; symbolic links, which \<open>DirEntry.IsDir\<close>
  does not follow, are not in it.
\<close>

definition child_names :: "wtree \<Rightarrow> string list \<Rightarrow> string list" where
  "child_names t p = sort (remdups (map (\<lambda>(q, n). last q) (filter (\<lambda>(q, n). q \<noteq> [] \<and> butlast q = p) t)))"

definition ReadDir :: "bool \<Rightarrow> wtree \<Rightarrow> string list \<Rightarrow> lookup + string list" where
  "ReadDir fails t p =
     (if fails then Inl NotDir else case path_lookup t p of IsDir \<Rightarrow> Inr (child_names t p) | l \<Rightarrow> Inl l)"

definition DefaultNamespace :: string where
  "DefaultNamespace = ''default''"

definition hasGitRepoAt :: "wtree \<Rightarrow> string list \<Rightarrow> bool" where
  "hasGitRepoAt t p = stat_ok t (p @ [''.git''])"

definition siblingDBPaths :: "string \<Rightarrow> string \<Rightarrow> string list list" where
  "siblingDBPaths namespace projectName =
     (let ns = (if namespace = [] then DefaultNamespace else namespace) in
      map (\<lambda>kind. [ns, ''@'' @ projectName @ ''.'' @ kind @ ''.db'']) [''project'', ''index'', ''deleted'', ''vector''])"

datatype entry_kind = EntrySkip | EntryLeftover | EntryProject

definition classifyProjectEntry :: "wtree \<Rightarrow> string \<Rightarrow> string \<Rightarrow> entry_kind" where
  "classifyProjectEntry t ns name =
     (if node_at t [ns, name] \<noteq> Some DirNode \<or> has_prefix name ''.'' then EntrySkip
      else if \<not> hasGitRepoAt t [ns, name] then EntryLeftover
      else EntryProject)"

datatype list_err = ListBadName string | ListUnreadable

definition ListProjects :: "bool \<Rightarrow> wtree \<Rightarrow> string \<Rightarrow> list_err + string list" where
  "ListProjects unreadable t namespace =
     (let ns = (if namespace = [] then DefaultNamespace else namespace) in
      if \<not> IsValidName ns then Inl (ListBadName ns)
      else case ReadDir unreadable t [ns] of
        Inl NotExist \<Rightarrow> Inr []
      | Inl l \<Rightarrow> Inl ListUnreadable
      | Inr names \<Rightarrow> Inr (filter (\<lambda>n. classifyProjectEntry t ns n = EntryProject) names))"

record leftover =
  lo_namespace :: string
  lo_name :: string
  lo_dbPaths :: "string list list"

text \<open>\<open>unreadable\<close> says which directories cannot be read; their namespaces are passed over.\<close>

definition discover_in :: "(string list \<Rightarrow> bool) \<Rightarrow> wtree \<Rightarrow> string \<Rightarrow> (string \<times> string) list \<times> leftover list" where
  "discover_in unreadable t ns =
     (case ReadDir (unreadable [ns]) t [ns] of
        Inl l \<Rightarrow> ([], [])
      | Inr names \<Rightarrow>
          (map (\<lambda>n. (ns, n)) (filter (\<lambda>n. classifyProjectEntry t ns n = EntryProject) names),
           map (\<lambda>n. \<lparr>lo_namespace = ns, lo_name = n, lo_dbPaths = filter (stat_ok t) (siblingDBPaths ns n)\<rparr>)
             (filter (\<lambda>n. classifyProjectEntry t ns n = EntryLeftover) names)))"

definition discoverProjects :: "(string list \<Rightarrow> bool) \<Rightarrow> wtree \<Rightarrow> (string \<times> string) list \<times> leftover list" where
  "discoverProjects unreadable t =
     (case ReadDir (unreadable []) t [] of
        Inl l \<Rightarrow> ([], [])
      | Inr names \<Rightarrow>
          (let nss = filter (\<lambda>ns. node_at t [ns] = Some DirNode \<and> \<not> has_prefix ns ''.'') names in
           (concat (map (fst \<circ> discover_in unreadable t) nss), concat (map (snd \<circ> discover_in unreadable t) nss))))"

lemma child_names_iff: "n \<in> set (child_names t p) \<longleftrightarrow> node_at t (p @ [n]) \<noteq> None"
proof -
  have "n \<in> set (child_names t p) \<longleftrightarrow> p @ [n] \<in> fst ` set t"
  proof
    assume "n \<in> set (child_names t p)"
    then obtain q m where "(q, m) \<in> set t" "q \<noteq> []" "butlast q = p" "n = last q" by (auto simp: child_names_def)
    then show "p @ [n] \<in> fst ` set t" by force
  qed (force simp: child_names_def)
  then show ?thesis by (simp add: node_at_def map_of_eq_None_iff)
qed

definition is_project :: "wtree \<Rightarrow> string \<Rightarrow> string \<Rightarrow> bool" where
  "is_project t ns pr \<longleftrightarrow>
     node_at t [ns, pr] = Some DirNode \<and> \<not> has_prefix pr ''.'' \<and> node_at t [ns, pr, ''.git''] \<noteq> None"

lemma classify_project:
  assumes "wt_ok t"
  shows "classifyProjectEntry t ns n = EntryProject \<longleftrightarrow> is_project t ns n"
  using stat_ok_iff [OF assms] by (simp add: classifyProjectEntry_def hasGitRepoAt_def is_project_def)

lemma ReadDir_names:
  assumes "wt_ok t" "node_at t p = Some DirNode"
  shows "ReadDir f t p = (if f then Inl NotDir else Inr (child_names t p))"
  using path_lookup_ok(2) [OF assms(1), of p] assms(2) by (simp add: ReadDir_def)

lemma discover_in_projects:
  assumes "wt_ok t" "node_at t [ns] = Some DirNode"
  shows "set (fst (discover_in unreadable t ns)) = {(ns, pr) | pr. is_project t ns pr \<and> \<not> unreadable [ns]}"
  using child_names_iff [of _ t "[ns]"]
  by (auto simp: discover_in_def ReadDir_names [OF assms] classify_project [OF assms(1)] is_project_def)

lemma discovered_iff:
  assumes "wt_ok t"
  shows "(ns, pr) \<in> set (fst (discoverProjects unreadable t)) \<longleftrightarrow>
    is_project t ns pr \<and> \<not> has_prefix ns ''.'' \<and> \<not> unreadable [] \<and> \<not> unreadable [ns]"
proof -
  have d: "is_project t ns pr \<Longrightarrow> node_at t [ns] = Some DirNode"
    using wt_okD [OF assms, of "[ns, pr]" "[ns]"] by (simp add: is_project_def strict_prefix_def)
  have r: "ReadDir (unreadable []) t [] = (if unreadable [] then Inl NotDir else Inr (child_names t []))"
    by (rule ReadDir_names [OF assms]) (simp add: node_at_def)
  have "(ns, pr) \<in> set (fst (discoverProjects unreadable t)) \<longleftrightarrow> \<not> unreadable [] \<and>
      (\<exists>n. node_at t [n] = Some DirNode \<and> \<not> has_prefix n ''.'' \<and> (ns, pr) \<in> set (fst (discover_in unreadable t n)))"
    using child_names_iff [of _ t "[]"] by (auto simp: discoverProjects_def r Let_def)
  also have "\<dots> \<longleftrightarrow> is_project t ns pr \<and> \<not> has_prefix ns ''.'' \<and> \<not> unreadable [] \<and> \<not> unreadable [ns]"
    using discover_in_projects [OF assms, of _ unreadable] d by auto
  finally show ?thesis .
qed

text \<open>
  C34: the two enumerations of projects never disagree: in every namespace with a valid name, what the
  clients are shown is exactly what the start-up finds there, the directories that are not hidden and
  hold a git repository; the start-up passes over a namespace only where it cannot read its directory or
  the base directory.
\<close>

theorem enumerations_agree:
  assumes "wt_ok t" "ListProjects f t ns = Inr ps" "ns \<noteq> []"
  shows "set ps = {pr. is_project t ns pr} \<and>
    {pr. (ns, pr) \<in> set (fst (discoverProjects unreadable t))} = (if unreadable [] \<or> unreadable [ns] then {} else set ps)"
proof -
  have v: "IsValidName ns" using assms(2,3) by (auto simp: ListProjects_def Let_def split: if_splits)
  then have dot: "\<not> has_prefix ns ''.''" by (cases ns) (auto simp: IsValidName_def has_prefix_iff prefix_def split: if_splits)
  have "set ps = {pr. is_project t ns pr}"
  proof (cases "node_at t [ns] = Some DirNode")
    case True
    then show ?thesis using assms(2,3) v child_names_iff [of _ t "[ns]"]
      by (auto simp: ListProjects_def ReadDir_names [OF assms(1)] classify_project [OF assms(1)] is_project_def split: if_splits)
  next
    case False
    then have "\<not> is_project t ns pr" for pr
      using wt_okD [OF assms(1), of "[ns, pr]" "[ns]"] by (auto simp: is_project_def strict_prefix_def)
    moreover have "path_lookup t [ns] \<noteq> IsDir" using False path_lookup_ok(2) [OF assms(1)] by simp
    ultimately show ?thesis using assms(2,3) v
      by (auto simp: ListProjects_def ReadDir_def split: lookup.splits if_splits)
  qed
  with dot show ?thesis by (auto simp: discovered_iff [OF assms(1)])
qed

definition demo_base :: wtree where
  "demo_base =
     [([''docs''], DirNode), ([''docs'', ''@guide.project.db''], FileNode ''c''), ([''docs'', ''guide''], DirNode),
      ([''docs'', ''guide'', ''.git''], DirNode), ([''docs'', ''guide'', ''a.md''], FileNode ''x''), ([''docs'', ''stray''], DirNode),
      ([''default''], DirNode)]"

lemma demo_base_ok: "wt_ok demo_base"
proof -
  have k: "\<forall>p\<in>fst ` set demo_base. \<forall>q\<in>set (ancestors p). node_at demo_base q = Some DirNode" by code_simp
  show ?thesis unfolding wt_ok_def
  proof (intro allI impI)
    fix p q assume p: "node_at demo_base p \<noteq> None" "strict_prefix q p"
    then have "p \<in> fst ` set demo_base" by (auto simp: node_at_def split: if_splits dest!: map_of_SomeD) force
    with k p(2) show "node_at demo_base q = Some DirNode" by (auto simp: ancestors_set)
  qed
qed

theorem enumerations_agree_witness:
  "\<exists>ps. ListProjects False demo_base ''docs'' = Inr ps \<and> {pr. (''docs'', pr) \<in> set (fst (discoverProjects (\<lambda>_. False) demo_base))} = set ps \<and>
     ''guide'' \<in> set ps"
proof -
  have "ListProjects False demo_base ''docs'' = Inr [''guide'']" by code_simp
  with enumerations_agree [OF demo_base_ok this, of "\<lambda>_. False"] show ?thesis by auto
qed

end
