(* ===== verification/Ns_Registry.thy ===== *)
theory Ns_Registry
  imports Bolt_Tx
begin

text \<open>
  Package \<open>nsregistry\<close> (\<open>internal/storage/nsregistry/nsregistry.go\<close>): the record of the namespaces the
  server manages and of the projects in each, kept apart from the directories it describes, and the
  one journal entry of a special operation in progress.  The lemmas show that it is a map from
  namespaces to sets of project names under every operation, that a refusal means the operation
  would overwrite or has nothing to work on, and that the operations recovery repeats can be repeated.
\<close>

record ns_record =
  nr_Name :: string
  nr_CreatedAt :: int
  nr_Projects :: "string list"

record op_journal =
  oj_Op :: string
  oj_OldNamespace :: string
  oj_OldProject :: string
  oj_NewNamespace :: string
  oj_NewProject :: string
  oj_Project :: string
  oj_Phase :: string

text \<open>A row is the record its JSON text encodes, or text \<open>json.Unmarshal\<close> rejects.\<close>

datatype reg_row = RegRow ns_record | JournalRow op_journal | RegText string

datatype reg_err =
  RegTx | RegDecode | RegProjectExists string string | RegNotManaged string | RegNoProject string string
| RegNamespaceExists string | RegMkdir | RegOpen

definition namespacesBucket :: string where
  "namespacesBucket = ''namespaces''"

definition journalBucket :: string where
  "journalBucket = ''move_journal''"

definition journalKey :: string where
  "journalKey = ''current''"

section \<open>Opening\<close>

definition reg_Open :: "('db, reg_row) bolt \<Rightarrow> bool \<Rightarrow> 'db open_res \<Rightarrow> reg_err + 'db" where
  "reg_Open B mkdir_ok opened =
     (if \<not> mkdir_ok then Inl RegMkdir
      else case opened of
        Opened db \<Rightarrow>
          transact B RegTx
            (\<lambda>db. case b_create B namespacesBucket db of
                    None \<Rightarrow> Inl RegTx
                  | Some db1 \<Rightarrow> (case b_create B journalBucket db1 of None \<Rightarrow> Inl RegTx | Some db2 \<Rightarrow> Inr db2)) db
      | _ \<Rightarrow> Inl RegOpen)"

section \<open>Reads\<close>

definition reg_IsEmpty :: "('db, reg_row) bolt \<Rightarrow> 'db \<Rightarrow> bool" where
  "reg_IsEmpty B db = (b_rows B db namespacesBucket = [])"

definition reg_List :: "('db, reg_row) bolt \<Rightarrow> 'db \<Rightarrow> string list" where
  "reg_List B db = sort (map fst (b_rows B db namespacesBucket))"

definition loadRecord :: "('db, reg_row) bolt \<Rightarrow> 'db \<Rightarrow> string \<Rightarrow> reg_err + ns_record option" where
  "loadRecord B db ns =
     (case b_get B db namespacesBucket ns of
        None \<Rightarrow> Inr None
      | Some (RegRow r) \<Rightarrow> Inr (Some r)
      | Some _ \<Rightarrow> Inl RegDecode)"

definition reg_Get :: "('db, reg_row) bolt \<Rightarrow> 'db \<Rightarrow> string \<Rightarrow> reg_err + ns_record option" where
  "reg_Get B db ns = loadRecord B db ns"

definition projects_of :: "ns_record option \<Rightarrow> string list" where
  "projects_of r = (case r of None \<Rightarrow> [] | Some rec \<Rightarrow> nr_Projects rec)"

definition reg_HasProject :: "('db, reg_row) bolt \<Rightarrow> 'db \<Rightarrow> string \<Rightarrow> string \<Rightarrow> reg_err + bool" where
  "reg_HasProject B db ns proj =
     (case reg_Get B db ns of Inl e \<Rightarrow> Inl e | Inr r \<Rightarrow> Inr (proj \<in> set (projects_of r)))"

definition reg_HasNamespace :: "('db, reg_row) bolt \<Rightarrow> 'db \<Rightarrow> string \<Rightarrow> reg_err + bool" where
  "reg_HasNamespace B db ns = (case reg_Get B db ns of Inl e \<Rightarrow> Inl e | Inr r \<Rightarrow> Inr (r \<noteq> None))"

section \<open>Updates\<close>

definition new_record :: "string \<Rightarrow> int \<Rightarrow> ns_record" where
  "new_record ns now = \<lparr>nr_Name = ns, nr_CreatedAt = now, nr_Projects = []\<rparr>"

definition putRecord :: "('db, reg_row) bolt \<Rightarrow> ns_record \<Rightarrow> 'db \<Rightarrow> reg_err + 'db" where
  "putRecord B rec db =
     (case b_put B namespacesBucket (nr_Name rec) (RegRow rec) db of None \<Rightarrow> Inl RegTx | Some db1 \<Rightarrow> Inr db1)"

definition reg_delete :: "('db, reg_row) bolt \<Rightarrow> string \<Rightarrow> string \<Rightarrow> 'db \<Rightarrow> reg_err + 'db" where
  "reg_delete B n k db = (case b_delete B n k db of None \<Rightarrow> Inl RegTx | Some db1 \<Rightarrow> Inr db1)"

definition EnsureNamespace :: "('db, reg_row) bolt \<Rightarrow> int \<Rightarrow> string \<Rightarrow> 'db \<Rightarrow> reg_err + 'db" where
  "EnsureNamespace B now ns =
     transact B RegTx
       (\<lambda>db. if b_get B db namespacesBucket ns \<noteq> None then Inr db else putRecord B (new_record ns now) db)"

definition RemoveNamespace :: "('db, reg_row) bolt \<Rightarrow> string \<Rightarrow> 'db \<Rightarrow> reg_err + 'db" where
  "RemoveNamespace B ns = transact B RegTx (reg_delete B namespacesBucket ns)"

definition AddProject :: "('db, reg_row) bolt \<Rightarrow> int \<Rightarrow> string \<Rightarrow> string \<Rightarrow> 'db \<Rightarrow> reg_err + 'db" where
  "AddProject B now ns proj =
     transact B RegTx
       (\<lambda>db. case loadRecord B db ns of
               Inl e \<Rightarrow> Inl e
             | Inr r \<Rightarrow>
                 (let rec = (case r of None \<Rightarrow> new_record ns now | Some rec \<Rightarrow> rec) in
                  if proj \<in> set (nr_Projects rec) then Inr db
                  else putRecord B (rec\<lparr>nr_Projects := sort (nr_Projects rec @ [proj])\<rparr>) db))"

definition RemoveProject :: "('db, reg_row) bolt \<Rightarrow> string \<Rightarrow> string \<Rightarrow> 'db \<Rightarrow> reg_err + 'db" where
  "RemoveProject B ns proj =
     transact B RegTx
       (\<lambda>db. case loadRecord B db ns of
               Inl e \<Rightarrow> Inl e
             | Inr None \<Rightarrow> Inr db
             | Inr (Some rec) \<Rightarrow> putRecord B (rec\<lparr>nr_Projects := filter (\<lambda>p. p \<noteq> proj) (nr_Projects rec)\<rparr>) db)"

definition reg_MoveProject ::
    "('db, reg_row) bolt \<Rightarrow> int \<Rightarrow> string \<Rightarrow> string \<Rightarrow> string \<Rightarrow> 'db \<Rightarrow> reg_err + 'db" where
  "reg_MoveProject B now oldNs proj newNs =
     transact B RegTx
       (\<lambda>db. case loadRecord B db newNs of
               Inl e \<Rightarrow> Inl e
             | Inr newRec \<Rightarrow>
                 (case loadRecord B db oldNs of
                    Inl e \<Rightarrow> Inl e
                  | Inr oldRec \<Rightarrow>
                      (let newHas = proj \<in> set (projects_of newRec);
                           oldHas = proj \<in> set (projects_of oldRec);
                           kept = filter (\<lambda>p. p \<noteq> proj) (projects_of oldRec) in
                       if newHas \<and> \<not> oldHas then Inr db
                       else if newHas \<and> oldHas then Inl (RegProjectExists proj newNs)
                       else
                         (case (case oldRec of
                                  None \<Rightarrow> Inr db
                                | Some o1 \<Rightarrow> if oldHas then putRecord B (o1\<lparr>nr_Projects := kept\<rparr>) db else Inr db) of
                            Inl e \<Rightarrow> Inl e
                          | Inr db1 \<Rightarrow>
                              (let n1 = (case newRec of None \<Rightarrow> new_record newNs now | Some n \<Rightarrow> n) in
                               putRecord B (n1\<lparr>nr_Projects := sort (nr_Projects n1 @ [proj])\<rparr>) db1)))))"

definition reg_RenameProject ::
    "('db, reg_row) bolt \<Rightarrow> string \<Rightarrow> string \<Rightarrow> string \<Rightarrow> 'db \<Rightarrow> reg_err + 'db" where
  "reg_RenameProject B ns old new =
     transact B RegTx
       (\<lambda>db. case loadRecord B db ns of
               Inl e \<Rightarrow> Inl e
             | Inr None \<Rightarrow> Inl (RegNotManaged ns)
             | Inr (Some rec) \<Rightarrow>
                 (let oldHas = old \<in> set (nr_Projects rec);
                      newHas = new \<noteq> old \<and> new \<in> set (nr_Projects rec);
                      kept = filter (\<lambda>p. p \<noteq> old) (nr_Projects rec) in
                  if newHas \<and> \<not> oldHas then Inr db
                  else if newHas \<and> oldHas then Inl (RegProjectExists new ns)
                  else if \<not> oldHas then Inl (RegNoProject old ns)
                  else putRecord B (rec\<lparr>nr_Projects := sort (kept @ [new])\<rparr>) db))"

definition reg_RenameNamespace :: "('db, reg_row) bolt \<Rightarrow> string \<Rightarrow> string \<Rightarrow> 'db \<Rightarrow> reg_err + 'db" where
  "reg_RenameNamespace B old new =
     transact B RegTx
       (\<lambda>db. case loadRecord B db old of
               Inl e \<Rightarrow> Inl e
             | Inr oldRec \<Rightarrow>
                 (case loadRecord B db new of
                    Inl e \<Rightarrow> Inl e
                  | Inr newRec \<Rightarrow>
                      (if newRec \<noteq> None \<and> oldRec = None then Inr db
                       else if newRec \<noteq> None then Inl (RegNamespaceExists new)
                       else (case oldRec of
                               None \<Rightarrow> Inl (RegNotManaged old)
                             | Some o1 \<Rightarrow>
                                 (case putRecord B (o1\<lparr>nr_Name := new\<rparr>) db of
                                    Inl e \<Rightarrow> Inl e
                                  | Inr db1 \<Rightarrow> reg_delete B namespacesBucket old db1)))))"

section \<open>The journal\<close>

definition SetOpJournal :: "('db, reg_row) bolt \<Rightarrow> op_journal \<Rightarrow> 'db \<Rightarrow> reg_err + 'db" where
  "SetOpJournal B j =
     transact B RegTx
       (\<lambda>db. case b_put B journalBucket journalKey (JournalRow j) db of None \<Rightarrow> Inl RegTx | Some db1 \<Rightarrow> Inr db1)"

definition GetOpJournal :: "('db, reg_row) bolt \<Rightarrow> 'db \<Rightarrow> reg_err + op_journal option" where
  "GetOpJournal B db =
     (case b_get B db journalBucket journalKey of
        None \<Rightarrow> Inr None
      | Some (JournalRow j) \<Rightarrow> Inr (Some j)
      | Some _ \<Rightarrow> Inl RegDecode)"

definition ClearOpJournal :: "('db, reg_row) bolt \<Rightarrow> 'db \<Rightarrow> reg_err + 'db" where
  "ClearOpJournal B = transact B RegTx (reg_delete B journalBucket journalKey)"


section \<open>The registry as a map\<close>

definition reg_ok :: "('db, reg_row) bolt \<Rightarrow> 'db \<Rightarrow> bool" where
  "reg_ok B db \<longleftrightarrow>
     b_bucket B db namespacesBucket \<and> b_bucket B db journalBucket \<and>
     (\<forall>ns v. bget B db namespacesBucket ns = Some v \<longrightarrow>
        (\<exists>r. v = RegRow r \<and> nr_Name r = ns \<and> sorted (nr_Projects r) \<and> distinct (nr_Projects r))) \<and>
     (\<forall>v. bget B db journalBucket journalKey = Some v \<longrightarrow> (\<exists>j. v = JournalRow j))"

definition managed :: "('db, reg_row) bolt \<Rightarrow> 'db \<Rightarrow> string \<Rightarrow> string set option" where
  "managed B db ns =
     (case bget B db namespacesBucket ns of Some (RegRow r) \<Rightarrow> Some (set (nr_Projects r)) | _ \<Rightarrow> None)"

definition journal :: "('db, reg_row) bolt \<Rightarrow> 'db \<Rightarrow> op_journal option" where
  "journal B db = (case bget B db journalBucket journalKey of Some (JournalRow j) \<Rightarrow> Some j | _ \<Rightarrow> None)"

lemma buckets_differ [simp]: "namespacesBucket \<noteq> journalBucket" "journalBucket \<noteq> namespacesBucket"
  by (simp_all add: namespacesBucket_def journalBucket_def)

lemma reg_cong:
  "bget B db' = bget B db \<Longrightarrow> b_bucket B db' = b_bucket B db \<Longrightarrow>
   reg_ok B db' = reg_ok B db \<and> managed B db' = managed B db \<and> journal B db' = journal B db"
  by (simp add: reg_ok_def managed_def journal_def fun_eq_iff)

definition row_ok :: "string \<Rightarrow> ns_record \<Rightarrow> bool" where
  "row_ok ns r \<longleftrightarrow> nr_Name r = ns \<and> sorted (nr_Projects r) \<and> distinct (nr_Projects r)"

lemma reg_okD:
  assumes "reg_ok B db"
  shows "b_bucket B db namespacesBucket" "b_bucket B db journalBucket"
    "bget B db namespacesBucket ns = Some v \<Longrightarrow> \<exists>r. v = RegRow r \<and> row_ok ns r"
    "bget B db journalBucket journalKey = Some v \<Longrightarrow> \<exists>j. v = JournalRow j"
  using assms by (auto simp: reg_ok_def row_ok_def)

lemma loadRecord_ok:
  assumes "reg_ok B db"
  obtains (absent) "loadRecord B db ns = Inr None" "managed B db ns = None"
    | (present) r where "loadRecord B db ns = Inr (Some r)" "managed B db ns = Some (set (nr_Projects r))" "row_ok ns r"
proof (cases "bget B db namespacesBucket ns")
  case None
  with assms show ?thesis by (intro absent) (simp_all add: loadRecord_def managed_def b_get_bget reg_okD)
next
  case (Some v)
  from reg_okD(3) [OF assms Some] obtain r where "v = RegRow r" "row_ok ns r" by blast
  with Some assms show ?thesis by (intro present [of r]) (simp_all add: loadRecord_def managed_def b_get_bget reg_okD)
qed

lemma putRecord_ok:
  assumes "bolt_ok B" "reg_ok B db" "putRecord B rec db = Inr db'" "row_ok ns rec"
  shows "reg_ok B db' \<and> managed B db' = (managed B db)(ns \<mapsto> set (nr_Projects rec)) \<and> journal B db' = journal B db"
proof -
  have n: "nr_Name rec = ns" using assms(4) by (simp add: row_ok_def)
  have p: "b_put B namespacesBucket ns (RegRow rec) db = Some db'"
    using assms(3) n by (auto simp: putRecord_def split: option.splits)
  note r = put_reads [OF assms(1) p reg_okD(1) [OF assms(2)]]
  have "reg_ok B db'" unfolding reg_ok_def r
    using assms(2,4) by (auto simp: reg_ok_def row_ok_def)
  moreover have "managed B db' = (managed B db)(ns \<mapsto> set (nr_Projects rec))" "journal B db' = journal B db"
    by (auto simp: managed_def journal_def r fun_eq_iff)
  ultimately show ?thesis by simp
qed

lemma reg_delete_ok:
  assumes "bolt_ok B" "reg_ok B db" "reg_delete B n k db = Inr db'" "n = namespacesBucket \<or> n = journalBucket"
  shows "reg_ok B db' \<and> managed B db' = (if n = namespacesBucket then (managed B db)(k := None) else managed B db) \<and>
    journal B db' = (if n = journalBucket \<and> k = journalKey then None else journal B db)"
proof -
  have "delete_in B n k db = Some db'"
    using assms(3,4) reg_okD(1,2) [OF assms(2)] by (auto simp: reg_delete_def delete_in_def split: option.splits)
  note r = delete_in_reads [OF assms(1) this]
  have "reg_ok B db'" unfolding reg_ok_def r
    using assms(2,4) by (auto simp: reg_ok_def split: if_splits)
  then show ?thesis by (auto simp: managed_def journal_def r fun_eq_iff)
qed


text \<open>The changes of the registry and what they mean for the map.\<close>

datatype reg_op =
  OpAdd string string | OpRemove string string | OpEnsure string | OpRemoveNs string
| OpMoveProject string string string | OpRenameProject string string string | OpRenameNamespace string string

fun reg_apply :: "('db, reg_row) bolt \<Rightarrow> int \<Rightarrow> reg_op \<Rightarrow> 'db \<Rightarrow> reg_err + 'db" where
  "reg_apply B now (OpAdd ns p) = AddProject B now ns p"
| "reg_apply B now (OpRemove ns p) = RemoveProject B ns p"
| "reg_apply B now (OpEnsure ns) = EnsureNamespace B now ns"
| "reg_apply B now (OpRemoveNs ns) = RemoveNamespace B ns"
| "reg_apply B now (OpMoveProject old p new) = reg_MoveProject B now old p new"
| "reg_apply B now (OpRenameProject ns old new) = reg_RenameProject B ns old new"
| "reg_apply B now (OpRenameNamespace old new) = reg_RenameNamespace B old new"

type_synonym reg_map = "string \<Rightarrow> string set option"

definition members :: "reg_map \<Rightarrow> string \<Rightarrow> string set" where
  "members m ns = (case m ns of None \<Rightarrow> {} | Some s \<Rightarrow> s)"

fun reg_spec :: "reg_op \<Rightarrow> reg_map \<Rightarrow> reg_map option" where
  "reg_spec (OpAdd ns p) m = Some (m(ns \<mapsto> insert p (members m ns)))"
| "reg_spec (OpRemove ns p) m = Some (case m ns of None \<Rightarrow> m | Some s \<Rightarrow> m(ns \<mapsto> s - {p}))"
| "reg_spec (OpEnsure ns) m = Some (if m ns = None then m(ns \<mapsto> {}) else m)"
| "reg_spec (OpRemoveNs ns) m = Some (m(ns := None))"
| "reg_spec (OpMoveProject old p new) m =
     (if p \<in> members m new then (if p \<in> members m old then None else Some m)
      else Some ((if p \<in> members m old then m(old \<mapsto> members m old - {p}) else m)(new \<mapsto> insert p (members m new))))"
| "reg_spec (OpRenameProject ns old new) m =
     (case m ns of
        None \<Rightarrow> None
      | Some s \<Rightarrow>
          (if new \<noteq> old \<and> new \<in> s then (if old \<in> s then None else Some m)
           else if old \<in> s then Some (m(ns \<mapsto> insert new (s - {old}))) else None))"
| "reg_spec (OpRenameNamespace old new) m =
     (case m new of
        Some s \<Rightarrow> (if m old = None then Some m else None)
      | None \<Rightarrow> (case m old of None \<Rightarrow> None | Some s \<Rightarrow> Some (m(new \<mapsto> s, old := None))))"

text \<open>A step of the registry: it stays well formed, keeps the journal and does to the map what it says.\<close>

definition reg_step :: "('db, reg_row) bolt \<Rightarrow> 'db \<Rightarrow> reg_map \<Rightarrow> 'db \<Rightarrow> bool" where
  "reg_step B db m db' \<longleftrightarrow> reg_ok B db' \<and> managed B db' = m \<and> journal B db' = journal B db"

lemma reg_step_refl: "reg_ok B db \<Longrightarrow> reg_step B db (managed B db) db"
  by (simp add: reg_step_def)

lemma transact_step:
  assumes "bolt_ok B" "transact B RegTx f db = Inr db'" "\<And>db1. f db = Inr db1 \<Longrightarrow> reg_step B db m db1"
  shows "reg_step B db m db'"
proof -
  from transact_Inr [OF assms(1,2)] obtain db1 where d: "f db = Inr db1" "bget B db' = bget B db1" "b_bucket B db' = b_bucket B db1" .
  from assms(3) [OF d(1)] reg_cong [OF d(2,3)] show ?thesis by (simp add: reg_step_def)
qed

lemma putRecord_step:
  assumes "bolt_ok B" "reg_ok B db" "putRecord B rec db = Inr db'" "row_ok ns rec"
    "m = (managed B db)(ns \<mapsto> set (nr_Projects rec))"
  shows "reg_step B db m db'"
  using putRecord_ok [OF assms(1-4)] assms(5) by (simp add: reg_step_def)

lemma row_ok_new: "row_ok ns (new_record ns now)"
  by (simp add: row_ok_def new_record_def)

lemma row_ok_add: "row_ok ns r \<Longrightarrow> p \<notin> set ps \<Longrightarrow> distinct ps \<Longrightarrow> row_ok ns (r\<lparr>nr_Projects := sort (ps @ [p])\<rparr>)"
  by (simp add: row_ok_def)

lemma row_ok_remove: "row_ok ns r \<Longrightarrow> row_ok ns (r\<lparr>nr_Projects := filter P (nr_Projects r)\<rparr>)"
  by (simp add: row_ok_def sorted_wrt_filter)

lemma row_ok_parts: "row_ok ns r \<Longrightarrow> nr_Name r = ns \<and> sorted (nr_Projects r) \<and> distinct (nr_Projects r)"
  by (simp add: row_ok_def)

lemma EnsureNamespace_step:
  assumes "bolt_ok B" "reg_ok B db" "EnsureNamespace B now ns db = Inr db'"
  shows "reg_step B db (if managed B db ns = None then (managed B db)(ns \<mapsto> {}) else managed B db) db'"
proof (rule transact_step [OF assms(1) assms(3) [unfolded EnsureNamespace_def]])
  fix db1 assume f: "(if b_get B db namespacesBucket ns \<noteq> None then Inr db else putRecord B (new_record ns now) db) = Inr db1"
  have iff: "b_get B db namespacesBucket ns \<noteq> None \<longleftrightarrow> managed B db ns \<noteq> None"
    using reg_okD(3) [OF assms(2), of ns] reg_okD(1) [OF assms(2)] by (auto simp: managed_def b_get_bget split: option.splits reg_row.splits)
  show "reg_step B db (if managed B db ns = None then (managed B db)(ns \<mapsto> {}) else managed B db) db1"
  proof (cases "managed B db ns = None")
    case True
    with f iff have "putRecord B (new_record ns now) db = Inr db1" by simp
    from putRecord_step [OF assms(1,2) this row_ok_new refl] True show ?thesis by (simp add: new_record_def)
  next
    case False
    with f iff have "db1 = db" by auto
    with reg_step_refl [OF assms(2)] show ?thesis by (simp only: False if_False)
  qed
qed

lemma AddProject_step:
  assumes "bolt_ok B" "reg_ok B db" "AddProject B now ns p db = Inr db'"
  shows "reg_step B db ((managed B db)(ns \<mapsto> insert p (members (managed B db) ns))) db'"
proof (rule transact_step [OF assms(1) assms(3) [unfolded AddProject_def]])
  let ?m = "(managed B db)(ns \<mapsto> insert p (members (managed B db) ns))"
  fix db1 assume f: "(case loadRecord B db ns of Inl e \<Rightarrow> Inl e
             | Inr r \<Rightarrow>
                 (let rec = (case r of None \<Rightarrow> new_record ns now | Some rec \<Rightarrow> rec) in
                  if p \<in> set (nr_Projects rec) then Inr db
                  else putRecord B (rec\<lparr>nr_Projects := sort (nr_Projects rec @ [p])\<rparr>) db)) = Inr db1"
  have add: "reg_step B db ?m db1"
    if "row_ok ns r" "p \<notin> set (nr_Projects r)" "putRecord B (r\<lparr>nr_Projects := sort (nr_Projects r @ [p])\<rparr>) db = Inr db1"
      "set (nr_Projects r) = members (managed B db) ns" for r
    by (rule putRecord_step [OF assms(1,2) that(3) row_ok_add [OF that(1,2)]])
       (use that row_ok_parts [OF that(1)] in auto)
  from assms(2) show "reg_step B db ?m db1"
  proof (cases rule: loadRecord_ok [of B db ns])
    case absent
    with f show ?thesis using add [of "new_record ns now"] row_ok_new [of ns now]
      by (simp add: new_record_def members_def)
  next
    case (present r)
    show ?thesis
    proof (cases "p \<in> set (nr_Projects r)")
      case True
      with f present have "db1 = db" by simp
      moreover have "?m = managed B db" using present True by (auto simp: members_def insert_absorb)
      ultimately show ?thesis using reg_step_refl [OF assms(2)] by simp
    next
      case False
      with f present show ?thesis by (intro add [of r]) (simp_all add: members_def)
    qed
  qed
qed

lemma RemoveProject_step:
  assumes "bolt_ok B" "reg_ok B db" "RemoveProject B ns p db = Inr db'"
  shows "reg_step B db (case managed B db ns of None \<Rightarrow> managed B db | Some s \<Rightarrow> (managed B db)(ns \<mapsto> s - {p})) db'"
proof (rule transact_step [OF assms(1) assms(3) [unfolded RemoveProject_def]])
  let ?m = "case managed B db ns of None \<Rightarrow> managed B db | Some s \<Rightarrow> (managed B db)(ns \<mapsto> s - {p})"
  fix db1 assume f: "(case loadRecord B db ns of Inl e \<Rightarrow> Inl e | Inr None \<Rightarrow> Inr db
             | Inr (Some rec) \<Rightarrow> putRecord B (rec\<lparr>nr_Projects := filter (\<lambda>x. x \<noteq> p) (nr_Projects rec)\<rparr>) db) = Inr db1"
  from assms(2) show "reg_step B db ?m db1"
  proof (cases rule: loadRecord_ok [of B db ns])
    case absent
    with f show ?thesis using reg_step_refl [OF assms(2)] by simp
  next
    case (present r)
    with f have w: "putRecord B (r\<lparr>nr_Projects := filter (\<lambda>x. x \<noteq> p) (nr_Projects r)\<rparr>) db = Inr db1" by simp
    show ?thesis by (rule putRecord_step [OF assms(1,2) w row_ok_remove [OF present(3)]]) (use present in auto)
  qed
qed

lemma RemoveNamespace_step:
  assumes "bolt_ok B" "reg_ok B db" "RemoveNamespace B ns db = Inr db'"
  shows "reg_step B db ((managed B db)(ns := None)) db'"
proof (rule transact_step [OF assms(1) assms(3) [unfolded RemoveNamespace_def]])
  fix db1 assume "reg_delete B namespacesBucket ns db = Inr db1"
  from reg_delete_ok [OF assms(1,2) this] show "reg_step B db ((managed B db)(ns := None)) db1"
    by (simp add: reg_step_def)
qed


text \<open>What a call yields: the step the map makes, a failed transaction, or a refusal of the map.\<close>

definition reg_outcome :: "('db, reg_row) bolt \<Rightarrow> 'db \<Rightarrow> reg_err + 'db \<Rightarrow> reg_map option \<Rightarrow> bool" where
  "reg_outcome B db x s \<longleftrightarrow>
     (case x of Inr db1 \<Rightarrow> (case s of None \<Rightarrow> False | Some m \<Rightarrow> reg_step B db m db1) | Inl e \<Rightarrow> e = RegTx \<or> s = None)"

lemma transact_outcome:
  assumes "bolt_ok B" "reg_outcome B db (f db) s"
  shows "reg_outcome B db (transact B RegTx f db) s"
proof (cases "transact B RegTx f db")
  case (Inl e)
  then show ?thesis using transact_Inl [OF Inl] assms(2) by (cases "e = RegTx") (auto simp: reg_outcome_def)
next
  case (Inr db')
  from transact_Inr [OF assms(1) Inr] obtain db1 where f: "f db = Inr db1" .
  with assms(2) obtain m where m: "s = Some m" "reg_step B db m db1"
    by (auto simp: reg_outcome_def split: option.splits)
  have "reg_step B db m db'" by (rule transact_step [OF assms(1) Inr]) (use f m in auto)
  with Inr m show ?thesis by (simp add: reg_outcome_def)
qed

lemma putRecord_outcome:
  assumes "bolt_ok B" "reg_ok B db" "row_ok ns rec" "s = Some ((managed B db)(ns \<mapsto> set (nr_Projects rec)))"
  shows "reg_outcome B db (putRecord B rec db) s"
proof (cases "putRecord B rec db")
  case (Inl e)
  then show ?thesis by (auto simp: reg_outcome_def putRecord_def split: option.splits)
next
  case (Inr db1)
  from putRecord_step [OF assms(1,2) Inr assms(3) refl] Inr assms(4) show ?thesis by (simp add: reg_outcome_def)
qed

lemma reg_outcome_keep: "reg_ok B db \<Longrightarrow> s = Some (managed B db) \<Longrightarrow> reg_outcome B db (Inr db) s"
  by (simp add: reg_outcome_def reg_step_refl)

lemma reg_outcome_refuse: "s = None \<Longrightarrow> reg_outcome B db (Inl e) s"
  by (simp add: reg_outcome_def)

lemma RenameProject_outcome:
  assumes "bolt_ok B" "reg_ok B db"
  shows "reg_outcome B db (reg_RenameProject B ns old new db) (reg_spec (OpRenameProject ns old new) (managed B db))"
proof -
  from assms(2) have "reg_outcome B db (case loadRecord B db ns of Inl e \<Rightarrow> Inl e | Inr None \<Rightarrow> Inl (RegNotManaged ns)
             | Inr (Some rec) \<Rightarrow>
                 (let oldHas = old \<in> set (nr_Projects rec);
                      newHas = new \<noteq> old \<and> new \<in> set (nr_Projects rec);
                      kept = filter (\<lambda>p. p \<noteq> old) (nr_Projects rec) in
                  if newHas \<and> \<not> oldHas then Inr db
                  else if newHas \<and> oldHas then Inl (RegProjectExists new ns)
                  else if \<not> oldHas then Inl (RegNoProject old ns)
                  else putRecord B (rec\<lparr>nr_Projects := sort (kept @ [new])\<rparr>) db))
      (reg_spec (OpRenameProject ns old new) (managed B db))"
  proof (cases rule: loadRecord_ok [of B db ns])
    case absent
    then show ?thesis by (simp add: reg_outcome_refuse)
  next
    case (present r)
    let ?ps = "nr_Projects r" and ?kept = "filter (\<lambda>p. p \<noteq> old) (nr_Projects r)"
    have put: "reg_outcome B db (putRecord B (r\<lparr>nr_Projects := sort (?kept @ [new])\<rparr>) db)
        (Some ((managed B db)(ns \<mapsto> insert new (set ?ps - {old}))))"
      if "new = old \<or> new \<notin> set ?ps"
    proof (rule putRecord_outcome [OF assms])
      have "distinct ?kept" "new \<notin> set ?kept" using row_ok_parts [OF present(3)] that by auto
      then show "row_ok ns (r\<lparr>nr_Projects := sort (?kept @ [new])\<rparr>)" by (rule row_ok_add [OF present(3), rotated])
      show "Some ((managed B db)(ns \<mapsto> insert new (set ?ps - {old}))) =
          Some ((managed B db)(ns \<mapsto> set (nr_Projects (r\<lparr>nr_Projects := sort (?kept @ [new])\<rparr>))))"
        by (auto intro!: arg_cong [where f = "\<lambda>s. (managed B db)(ns \<mapsto> s)"])
    qed
    show ?thesis using present put assms(2)
      by (auto simp: Let_def reg_outcome_keep reg_outcome_refuse)
  qed
  then show ?thesis unfolding reg_RenameProject_def by (intro transact_outcome [OF assms(1)])
qed

lemma reg_outcome_then:
  assumes "reg_outcome B db x (Some m1)" "\<And>db1. reg_step B db m1 db1 \<Longrightarrow> reg_outcome B db1 (f db1) (Some m)"
  shows "reg_outcome B db (case x of Inl e \<Rightarrow> Inl e | Inr db1 \<Rightarrow> f db1) (Some m)"
proof (cases x)
  case (Inr db1)
  then have st: "reg_step B db m1 db1" using assms(1) by (simp add: reg_outcome_def)
  from assms(2) [OF st] st Inr show ?thesis by (auto simp: reg_outcome_def reg_step_def split: sum.splits)
qed (use assms(1) in \<open>auto simp: reg_outcome_def\<close>)

lemma MoveProject_outcome:
  assumes "bolt_ok B" "reg_ok B db"
  shows "reg_outcome B db (reg_MoveProject B now old p new db) (reg_spec (OpMoveProject old p new) (managed B db))"
proof -
  let ?m = "managed B db"
  obtain n where n: "loadRecord B db new = Inr n" "set (projects_of n) = members ?m new"
    "row_ok new (case n of None \<Rightarrow> new_record new now | Some r \<Rightarrow> r)"
    "projects_of n = nr_Projects (case n of None \<Rightarrow> new_record new now | Some r \<Rightarrow> r)"
    by (cases rule: loadRecord_ok [OF assms(2), of new])
       (auto simp: projects_of_def members_def row_ok_new new_record_def row_ok_def)
  obtain o1 where o1: "loadRecord B db old = Inr o1" "set (projects_of o1) = members ?m old"
    "\<And>r. o1 = Some r \<Longrightarrow> row_ok old r"
    by (cases rule: loadRecord_ok [OF assms(2), of old]) (auto simp: projects_of_def members_def)
  let ?oldHas = "p \<in> members ?m old" and ?m1 = "if p \<in> members ?m old then ?m(old \<mapsto> members ?m old - {p}) else ?m"
  let ?n = "case n of None \<Rightarrow> new_record new now | Some r \<Rightarrow> r"
  have taken: "reg_outcome B db (case o1 of None \<Rightarrow> Inr db
        | Some o2 \<Rightarrow> if p \<in> members ?m old then putRecord B (o2\<lparr>nr_Projects := filter (\<lambda>x. x \<noteq> p) (projects_of o1)\<rparr>) db else Inr db)
      (Some ?m1)"
  proof (cases o1)
    case None
    then show ?thesis using o1(2) assms(2) by (auto simp: projects_of_def reg_outcome_keep)
  next
    case (Some r)
    have "reg_outcome B db (putRecord B (r\<lparr>nr_Projects := filter (\<lambda>x. x \<noteq> p) (nr_Projects r)\<rparr>) db)
        (Some (?m(old \<mapsto> members ?m old - {p})))"
      by (rule putRecord_outcome [OF assms row_ok_remove [OF o1(3) [OF Some]]])
         (use o1(2) Some in \<open>auto simp: projects_of_def intro!: arg_cong [where f = "\<lambda>s. ?m(old \<mapsto> s)"]\<close>)
    then show ?thesis using Some assms(2) by (simp add: projects_of_def reg_outcome_keep)
  qed
  have put: "reg_outcome B db1 (putRecord B (?n\<lparr>nr_Projects := sort (nr_Projects ?n @ [p])\<rparr>) db1)
      (Some (?m1(new \<mapsto> insert p (members ?m new))))"
    if "reg_step B db ?m1 db1" "p \<notin> members ?m new" for db1
  proof (rule putRecord_outcome [OF assms(1)])
    show "reg_ok B db1" using that(1) by (simp add: reg_step_def)
    show "row_ok new (?n\<lparr>nr_Projects := sort (nr_Projects ?n @ [p])\<rparr>)"
      using n that(2) by (intro row_ok_add) (auto simp: row_ok_def)
    show "Some (?m1(new \<mapsto> insert p (members ?m new))) =
        Some ((managed B db1)(new \<mapsto> set (nr_Projects (?n\<lparr>nr_Projects := sort (nr_Projects ?n @ [p])\<rparr>))))"
      using that(1) n(2,4) by (simp add: reg_step_def)
  qed
  have "reg_outcome B db (case (case o1 of None \<Rightarrow> Inr db
        | Some o2 \<Rightarrow> if p \<in> members ?m old then putRecord B (o2\<lparr>nr_Projects := filter (\<lambda>x. x \<noteq> p) (projects_of o1)\<rparr>) db else Inr db)
      of Inl e \<Rightarrow> Inl e | Inr db1 \<Rightarrow> putRecord B (?n\<lparr>nr_Projects := sort (nr_Projects ?n @ [p])\<rparr>) db1)
      (Some (?m1(new \<mapsto> insert p (members ?m new))))" if "p \<notin> members ?m new"
    by (rule reg_outcome_then [OF taken put]) (use that in auto)
  with n(1,2) o1(1,2) assms(2) show ?thesis unfolding reg_MoveProject_def Let_def
    by (intro transact_outcome [OF assms(1)])
       (simp only: n(1,2) o1(1,2) sum.case, auto simp: reg_outcome_keep reg_outcome_refuse)
qed

lemma reg_delete_outcome:
  assumes "bolt_ok B" "reg_ok B db"
  shows "reg_outcome B db (reg_delete B namespacesBucket ns db) (Some ((managed B db)(ns := None)))"
proof (cases "reg_delete B namespacesBucket ns db")
  case (Inr db1)
  from reg_delete_ok [OF assms Inr] Inr show ?thesis by (simp add: reg_outcome_def reg_step_def)
qed (auto simp: reg_outcome_def reg_delete_def split: option.splits)

lemma RenameNamespace_outcome:
  assumes "bolt_ok B" "reg_ok B db"
  shows "reg_outcome B db (reg_RenameNamespace B old new db) (reg_spec (OpRenameNamespace old new) (managed B db))"
proof -
  let ?m = "managed B db"
  obtain n where n: "loadRecord B db new = Inr n" "(n = None) = (?m new = None)"
    by (cases rule: loadRecord_ok [OF assms(2), of new]) auto
  obtain o1 where o1: "loadRecord B db old = Inr o1" "?m old = map_option (\<lambda>r. set (nr_Projects r)) o1"
    "\<And>r. o1 = Some r \<Longrightarrow> row_ok old r"
    by (cases rule: loadRecord_ok [OF assms(2), of old]) auto
  have "reg_outcome B db (case putRecord B (r\<lparr>nr_Name := new\<rparr>) db of Inl e \<Rightarrow> Inl e
        | Inr db1 \<Rightarrow> reg_delete B namespacesBucket old db1)
      (Some (?m(new \<mapsto> set (nr_Projects r), old := None)))" if "o1 = Some r" for r
  proof (rule reg_outcome_then)
    show "reg_outcome B db (putRecord B (r\<lparr>nr_Name := new\<rparr>) db) (Some (?m(new \<mapsto> set (nr_Projects r))))"
      by (rule putRecord_outcome [OF assms, of new]) (use o1(3) [OF that] in \<open>auto simp: row_ok_def\<close>)
    show "reg_outcome B db1 (reg_delete B namespacesBucket old db1) (Some (?m(new \<mapsto> set (nr_Projects r), old := None)))"
      if "reg_step B db (?m(new \<mapsto> set (nr_Projects r))) db1" for db1
      using reg_delete_outcome [OF assms(1), of db1 old] that by (simp add: reg_step_def)
  qed
  with n o1 assms(2) show ?thesis unfolding reg_RenameNamespace_def
    by (intro transact_outcome [OF assms(1)])
       (auto simp: reg_outcome_keep reg_outcome_refuse split: option.splits)
qed


lemma reg_outcome_step:
  assumes "\<And>db1. x = Inr db1 \<Longrightarrow> reg_step B db m db1" "\<And>e. x = Inl e \<Longrightarrow> e = RegTx"
  shows "reg_outcome B db x (Some m)"
  using assms by (cases x) (simp_all add: reg_outcome_def)

lemma putRecord_only_tx: "putRecord B r db = Inl e \<Longrightarrow> e = RegTx"
  by (auto simp: putRecord_def split: option.splits)

lemma simple_ops_only_tx:
  assumes "reg_ok B db"
  shows "AddProject B now ns p db = Inl e \<Longrightarrow> e = RegTx"
    and "RemoveProject B ns p db = Inl e \<Longrightarrow> e = RegTx"
    and "EnsureNamespace B now ns db = Inl e \<Longrightarrow> e = RegTx"
    and "RemoveNamespace B ns db = Inl e \<Longrightarrow> e = RegTx"
proof -
  obtain r where r: "loadRecord B db ns = Inr r" by (rule loadRecord_ok [OF assms, of ns])
  show "AddProject B now ns p db = Inl e \<Longrightarrow> e = RegTx" unfolding AddProject_def
    by (erule transact_only_tx [rotated]) (auto simp: r Let_def dest: putRecord_only_tx split: if_splits)
  show "RemoveProject B ns p db = Inl e \<Longrightarrow> e = RegTx" unfolding RemoveProject_def
    by (erule transact_only_tx [rotated]) (auto simp: r dest: putRecord_only_tx split: option.splits)
  show "EnsureNamespace B now ns db = Inl e \<Longrightarrow> e = RegTx" unfolding EnsureNamespace_def
    by (erule transact_only_tx [rotated]) (auto dest: putRecord_only_tx split: if_splits)
  show "RemoveNamespace B ns db = Inl e \<Longrightarrow> e = RegTx" unfolding RemoveNamespace_def
    by (erule transact_only_tx [rotated]) (auto simp: reg_delete_def split: option.splits)
qed

lemma reg_apply_outcome:
  assumes "bolt_ok B" "reg_ok B db"
  shows "reg_outcome B db (reg_apply B now op db) (reg_spec op (managed B db))"
proof (cases op)
  case (OpAdd ns p)
  then show ?thesis using AddProject_step [OF assms] simple_ops_only_tx(1) [OF assms(2)] by (auto intro: reg_outcome_step)
next
  case (OpRemove ns p)
  then show ?thesis using RemoveProject_step [OF assms] simple_ops_only_tx(2) [OF assms(2)] by (auto intro: reg_outcome_step)
next
  case (OpEnsure ns)
  show ?thesis unfolding OpEnsure reg_apply.simps reg_spec.simps
    by (rule reg_outcome_step) (erule EnsureNamespace_step [OF assms] simple_ops_only_tx(3) [OF assms(2)])+
next
  case (OpRemoveNs ns)
  then show ?thesis using RemoveNamespace_step [OF assms] simple_ops_only_tx(4) [OF assms(2)] by (auto intro: reg_outcome_step)
next
  case (OpMoveProject old p new)
  show ?thesis unfolding OpMoveProject reg_apply.simps by (rule MoveProject_outcome [OF assms])
next
  case (OpRenameProject ns old new)
  show ?thesis unfolding OpRenameProject reg_apply.simps by (rule RenameProject_outcome [OF assms])
next
  case (OpRenameNamespace old new)
  show ?thesis unfolding OpRenameNamespace reg_apply.simps by (rule RenameNamespace_outcome [OF assms])
qed

text \<open>
  C15: the registry is a map from namespaces to sets of project names: an operation that succeeds does
  to the map what it says, keeps every record well formed and the journal as it was; one that fails
  without a database error is one the map refuses (an overwrite, or nothing to work on).
\<close>

theorem registry_refines_map:
  assumes "bolt_ok B" "reg_ok B db"
  shows "case reg_apply B now op db of
      Inr db' \<Rightarrow> reg_ok B db' \<and> reg_spec op (managed B db) = Some (managed B db') \<and> journal B db' = journal B db
    | Inl e \<Rightarrow> e = RegTx \<or> reg_spec op (managed B db) = None"
  using reg_apply_outcome [OF assms, of now op]
  by (auto simp: reg_outcome_def reg_step_def split: sum.splits option.splits)

text \<open>The operations that recovery repeats.\<close>

fun re_runs :: "reg_op \<Rightarrow> bool" where
  "re_runs (OpMoveProject old p new) = (old \<noteq> new)"
| "re_runs (OpRenameProject ns old new) = (old \<noteq> new)"
| "re_runs op = True"

lemma reg_spec_again: "re_runs op \<Longrightarrow> reg_spec op m = Some m' \<Longrightarrow> reg_spec op m' = Some m'"
proof (cases op)
  case (OpRenameProject ns old new)
  assume "re_runs op" "reg_spec op m = Some m'"
  with OpRenameProject show ?thesis by (cases "m ns") (auto split: if_splits)
next
  case (OpRenameNamespace old new)
  assume "re_runs op" "reg_spec op m = Some m'"
  with OpRenameNamespace show ?thesis by (cases "m new"; cases "m old") (auto split: if_splits)
next
  case (OpMoveProject old p new)
  assume "re_runs op" "reg_spec op m = Some m'"
  with OpMoveProject show ?thesis by (simp split: if_splits) (auto simp: members_def)
next
  case (OpRemove ns p)
  assume "re_runs op" "reg_spec op m = Some m'"
  with OpRemove show ?thesis by (cases "m ns") auto
qed (auto simp: members_def split: if_splits)

text \<open>
  repeating an operation that has succeeded (what the start-up recovery does when it does not know
  how far a move or a rename got) succeeds or fails in the database, and changes nothing.
\<close>

theorem registry_rerun:
  assumes "bolt_ok B" "reg_ok B db" "re_runs op" "reg_apply B now op db = Inr db'"
  shows "case reg_apply B now' op db' of
      Inr db'' \<Rightarrow> managed B db'' = managed B db' \<and> reg_ok B db'' | Inl e \<Rightarrow> e = RegTx"
proof -
  have st: "reg_ok B db'" "reg_spec op (managed B db) = Some (managed B db')"
    using registry_refines_map [OF assms(1,2), of op now] assms(4) by simp_all
  have "reg_spec op (managed B db') = Some (managed B db')" by (rule reg_spec_again [OF assms(3) st(2)])
  with reg_apply_outcome [OF assms(1) st(1), of now' op] show ?thesis
    by (auto simp: reg_outcome_def reg_step_def split: sum.splits)
qed

text \<open>Reading the registry.\<close>

lemma reg_List_managed:
  assumes "bolt_ok B" "reg_ok B db"
  shows "set (reg_List B db) = dom (managed B db)" "distinct (reg_List B db)" "sorted (reg_List B db)"
    "reg_IsEmpty B db \<longleftrightarrow> managed B db = Map.empty"
proof -
  have rows: "b_rows B db namespacesBucket = rows_in B db namespacesBucket"
    using assms(2) by (simp add: rows_in_def reg_okD)
  note r = rows_in_reads [OF assms(1), of db namespacesBucket]
  have dm: "dom (managed B db) = dom (bget B db namespacesBucket)"
  proof (intro set_eqI)
    show "ns \<in> dom (managed B db) \<longleftrightarrow> ns \<in> dom (bget B db namespacesBucket)" for ns
      using reg_okD(3) [OF assms(2), of ns] by (auto simp: managed_def dom_def split: option.splits reg_row.splits)
  qed
  have keys: "fst ` set (rows_in B db namespacesBucket) = dom (bget B db namespacesBucket)"
    using r(2) by (metis dom_map_of_conv_image_fst ext)
  then show "set (reg_List B db) = dom (managed B db)" by (simp add: reg_List_def rows dm)
  show "distinct (reg_List B db)" using kv_ok_distinct [OF r(1)] by (simp add: reg_List_def rows)
  show "sorted (reg_List B db)" by (simp add: reg_List_def)
  have "reg_IsEmpty B db \<longleftrightarrow> dom (managed B db) = {}" unfolding dm keys [symmetric] by (simp add: reg_IsEmpty_def rows)
  then show "reg_IsEmpty B db \<longleftrightarrow> managed B db = Map.empty" by auto
qed

lemma reg_HasProject_managed: "reg_ok B db \<Longrightarrow> reg_HasProject B db ns p = Inr (p \<in> members (managed B db) ns)"
  by (rule loadRecord_ok [of B db ns]) (auto simp: reg_HasProject_def reg_Get_def projects_of_def members_def)

lemma reg_HasNamespace_managed: "reg_ok B db \<Longrightarrow> reg_HasNamespace B db ns = Inr (managed B db ns \<noteq> None)"
  by (rule loadRecord_ok [of B db ns]) (auto simp: reg_HasNamespace_def reg_Get_def)

lemma reg_Get_managed: "reg_ok B db \<Longrightarrow>
    \<exists>r. reg_Get B db ns = Inr r \<and> managed B db ns = map_option (\<lambda>r. set (nr_Projects r)) r"
  by (rule loadRecord_ok [of B db ns]) (auto simp: reg_Get_def)

section \<open>The journal entry\<close>

lemma GetOpJournal_journal: "reg_ok B db \<Longrightarrow> GetOpJournal B db = Inr (journal B db)"
  using reg_okD(2,4) [of B db]
  by (auto simp: GetOpJournal_def journal_def b_get_bget split: option.splits reg_row.splits)

lemma SetOpJournal_ok:
  assumes "bolt_ok B" "reg_ok B db" "SetOpJournal B j db = Inr db'"
  shows "reg_ok B db' \<and> managed B db' = managed B db \<and> journal B db' = Some j"
proof -
  from transact_Inr [OF assms(1) assms(3) [unfolded SetOpJournal_def]] obtain db1 where
    f: "(case b_put B journalBucket journalKey (JournalRow j) db of None \<Rightarrow> Inl RegTx | Some db1 \<Rightarrow> Inr db1) = Inr db1"
    and d: "bget B db' = bget B db1" "b_bucket B db' = b_bucket B db1" .
  from f have put: "b_put B journalBucket journalKey (JournalRow j) db = Some db1" by (simp split: option.splits)
  note r = put_reads [OF assms(1) put reg_okD(2) [OF assms(2)]]
  have "reg_ok B db1" using assms(2) by (simp add: reg_ok_def r)
  moreover have "managed B db1 = managed B db" "journal B db1 = Some j"
    by (simp_all add: managed_def journal_def r fun_eq_iff)
  ultimately show ?thesis using reg_cong [OF d] by simp
qed

lemma ClearOpJournal_ok:
  assumes "bolt_ok B" "reg_ok B db" "ClearOpJournal B db = Inr db'"
  shows "reg_ok B db' \<and> managed B db' = managed B db \<and> journal B db' = None"
proof -
  from transact_Inr [OF assms(1) assms(3) [unfolded ClearOpJournal_def]] obtain db1 where
    d: "reg_delete B journalBucket journalKey db = Inr db1" "bget B db' = bget B db1" "b_bucket B db' = b_bucket B db1" .
  from reg_delete_ok [OF assms(1,2) d(1)] reg_cong [OF d(2,3)] show ?thesis by simp
qed

section \<open>An instance\<close>

definition demo_registry :: "reg_row mem_db" where
  "demo_registry =
     [(journalBucket, []),
      (namespacesBucket,
        [(''default'', RegRow \<lparr>nr_Name = ''default'', nr_CreatedAt = 0, nr_Projects = []\<rparr>),
         (''docs'', RegRow \<lparr>nr_Name = ''docs'', nr_CreatedAt = 1, nr_Projects = [''guide'', ''notes'']\<rparr>)])]"

lemma demo_registry_ok: "reg_ok mem_bolt demo_registry"
proof -
  have "bget mem_bolt demo_registry namespacesBucket ns = Some v \<Longrightarrow>
      (\<exists>r. v = RegRow r \<and> nr_Name r = ns \<and> sorted (nr_Projects r) \<and> distinct (nr_Projects r))" for ns v
    by (auto simp: bget_bview mem_bolt_view demo_registry_def namespacesBucket_def journalBucket_def split: if_splits)
  moreover have "bget mem_bolt demo_registry journalBucket journalKey = None"
    by (simp add: bget_bview mem_bolt_view demo_registry_def)
  ultimately show ?thesis
    by (auto simp: reg_ok_def b_bucket_bview mem_bolt_view demo_registry_def)
qed

theorem registry_refines_map_witness:
  "\<exists>db'. reg_apply mem_bolt 5 (OpMoveProject ''docs'' ''notes'' ''default'') demo_registry = Inr db' \<and>
     Some (managed mem_bolt db') = reg_spec (OpMoveProject ''docs'' ''notes'' ''default'') (managed mem_bolt demo_registry)"
proof -
  have "isl (reg_apply mem_bolt 5 (OpMoveProject ''docs'' ''notes'' ''default'') demo_registry) = False" by code_simp
  then obtain db' where a: "reg_apply mem_bolt 5 (OpMoveProject ''docs'' ''notes'' ''default'') demo_registry = Inr db'"
    using not_isl_Inr by blast
  from registry_refines_map [OF mem_bolt_ok demo_registry_ok, of "OpMoveProject ''docs'' ''notes'' ''default''" 5] a
  show ?thesis by auto
qed

theorem registry_rerun_witness:
  "\<exists>db'. reg_apply mem_bolt 5 (OpRenameNamespace ''docs'' ''books'') demo_registry = Inr db' \<and>
     (case reg_apply mem_bolt 9 (OpRenameNamespace ''docs'' ''books'') db' of
        Inr db'' \<Rightarrow> managed mem_bolt db'' = managed mem_bolt db' \<and> reg_ok mem_bolt db'' | Inl e \<Rightarrow> e = RegTx)"
proof -
  have "isl (reg_apply mem_bolt 5 (OpRenameNamespace ''docs'' ''books'') demo_registry) = False" by code_simp
  then obtain db' where a: "reg_apply mem_bolt 5 (OpRenameNamespace ''docs'' ''books'') demo_registry = Inr db'"
    using not_isl_Inr by blast
  have "re_runs (OpRenameNamespace ''docs'' ''books'')" by simp
  from registry_rerun [OF mem_bolt_ok demo_registry_ok this a, of 9] a show ?thesis by blast
qed

end
