(* ===== verification/User_Store.thy ===== *)
theory User_Store
  imports Bolt_Tx Go_Runes Go_Codec
begin

text \<open>
  Package \<open>userstore\<close> (\<open>pkg/userstore/userstore.go\<close>, \<open>admin.go\<close>): accounts, their browser sessions
  and the pending invitations, one bucket each.  A row is the record its JSON text encodes.  Times are
  nanoseconds since Go's zero time; \<open>lower\<close> is the table of \<open>unicode.ToLower\<close>; random handles are
  arguments.  Sealing of the TOTP secret and the WebAuthn credentials are opaque text here.
\<close>

record user_record =
  u_Email :: string
  u_DisplayName :: string
  u_Handle :: string
  u_PasswordHash :: string
  u_TOTPSecretEnc :: string
  u_Credentials :: "string list"
  u_Scope :: string
  u_Disabled :: bool
  u_CreatedAt :: int
  u_UpdatedAt :: int

record session =
  se_ID :: string
  se_Email :: string
  se_IssuedAt :: int
  se_Expiry :: int

record invite =
  in_CodeHash :: string
  in_Email :: string
  in_Scope :: string
  in_Expiry :: int
  in_Used :: bool
  in_CreatedBy :: string
  in_CreatedAt :: int

datatype us_row = UserRow user_record | SessionRow session | InviteRow invite | UsText string

datatype us_err =
  UsNotFound | UsExists | UsUsersExist | UsExpired | UsInvalidInvite | UsEmailRequired | UsRand | UsDecode
| UsTx | UsKeySize | UsMkdir | UsOpen

definition usersBucket :: string where
  "usersBucket = ''users''"

definition sessionsBucket :: string where
  "sessionsBucket = ''sessions''"

definition invitesBucket :: string where
  "invitesBucket = ''invites''"

definition AdminScope :: string where
  "AdminScope = ''*:admin''"

definition normalizeEmail :: "(nat \<Rightarrow> nat) \<Rightarrow> string \<Rightarrow> string" where
  "normalizeEmail lower email = go_ToLower lower (trim_space email)"

definition us_Open :: "('db, us_row) bolt \<Rightarrow> nat \<Rightarrow> bool \<Rightarrow> 'db open_res \<Rightarrow> us_err + 'db" where
  "us_Open B keylen mkdir_ok opened =
     (if keylen \<noteq> 32 then Inl UsKeySize
      else if \<not> mkdir_ok then Inl UsMkdir
      else case opened of
        Opened db \<Rightarrow>
          transact B UsTx (\<lambda>db. or_err UsTx (create_all B [usersBucket, sessionsBucket, invitesBucket] db)) db
      | _ \<Rightarrow> Inl UsOpen)"

section \<open>Users\<close>

definition user_of :: "us_row \<Rightarrow> user_record option" where
  "user_of v = (case v of UserRow u \<Rightarrow> Some u | _ \<Rightarrow> None)"

definition us_IsEmpty :: "('db, us_row) bolt \<Rightarrow> 'db \<Rightarrow> bool" where
  "us_IsEmpty B db = (b_rows B db usersBucket = [])"

definition read_user :: "('db, us_row) bolt \<Rightarrow> string \<Rightarrow> 'db \<Rightarrow> us_err + user_record" where
  "read_user B key db =
     (case b_get B db usersBucket key of None \<Rightarrow> Inl UsNotFound | Some v \<Rightarrow> or_err UsDecode (user_of v))"

definition GetUser :: "('db, us_row) bolt \<Rightarrow> (nat \<Rightarrow> nat) \<Rightarrow> string \<Rightarrow> 'db \<Rightarrow> us_err + user_record" where
  "GetUser B lower email db = read_user B (normalizeEmail lower email) db"

definition HasTOTP :: "user_record \<Rightarrow> bool" where
  "HasTOTP u = (u_TOTPSecretEnc u \<noteq> [])"

definition IsAdmin :: "user_record \<Rightarrow> bool" where
  "IsAdmin u = list_ex (\<lambda>raw. trim_space raw = AdminScope) (split_on (CHR '','') (u_Scope u))"

definition put_user :: "('db, us_row) bolt \<Rightarrow> string \<Rightarrow> user_record \<Rightarrow> 'db \<Rightarrow> us_err + 'db" where
  "put_user B key u db = or_err UsTx (b_put B usersBucket key (UserRow u) db)"

text \<open>\<open>handle\<close> is what the random source yields for a record without a handle, if anything.\<close>

definition with_handle :: "string option \<Rightarrow> user_record \<Rightarrow> us_err + user_record" where
  "with_handle handle u =
     (if u_Handle u \<noteq> [] then Inr u
      else case handle of None \<Rightarrow> Inl UsRand | Some h \<Rightarrow> Inr (u\<lparr>u_Handle := h\<rparr>))"

definition createWithGuard ::
    "('db, us_row) bolt \<Rightarrow> int \<Rightarrow> string option \<Rightarrow> ('db \<Rightarrow> us_err option) \<Rightarrow> user_record \<Rightarrow> 'db \<Rightarrow> us_err + 'db" where
  "createWithGuard B now handle guard u db =
     (case with_handle handle u of
        Inl e \<Rightarrow> Inl e
      | Inr u1 \<Rightarrow>
          (let u2 = u1\<lparr>u_CreatedAt := (if u_CreatedAt u1 = 0 then now else u_CreatedAt u1), u_UpdatedAt := now\<rparr> in
           transact B UsTx
             (\<lambda>db. case guard db of Some e \<Rightarrow> Inl e | None \<Rightarrow> put_user B (u_Email u2) u2 db) db))"

definition CreateFirstAdmin ::
    "('db, us_row) bolt \<Rightarrow> (nat \<Rightarrow> nat) \<Rightarrow> int \<Rightarrow> string option \<Rightarrow> user_record \<Rightarrow> 'db \<Rightarrow> us_err + 'db" where
  "CreateFirstAdmin B lower now handle u db =
     (if u_Email u = [] then Inl UsEmailRequired
      else createWithGuard B now handle
             (\<lambda>db. if b_rows B db usersBucket \<noteq> [] then Some UsUsersExist else None)
             (u\<lparr>u_Email := normalizeEmail lower (u_Email u), u_Scope := AdminScope\<rparr>) db)"

definition CreateUser ::
    "('db, us_row) bolt \<Rightarrow> (nat \<Rightarrow> nat) \<Rightarrow> int \<Rightarrow> string option \<Rightarrow> user_record \<Rightarrow> 'db \<Rightarrow> us_err + 'db" where
  "CreateUser B lower now handle u db =
     (if u_Email u = [] then Inl UsEmailRequired
      else (let u1 = u\<lparr>u_Email := normalizeEmail lower (u_Email u)\<rparr> in
            createWithGuard B now handle
              (\<lambda>db. if b_get B db usersBucket (u_Email u1) \<noteq> None then Some UsExists else None) u1 db))"

definition PutUser :: "('db, us_row) bolt \<Rightarrow> (nat \<Rightarrow> nat) \<Rightarrow> int \<Rightarrow> user_record \<Rightarrow> 'db \<Rightarrow> us_err + 'db" where
  "PutUser B lower now u =
     (let u1 = u\<lparr>u_Email := normalizeEmail lower (u_Email u), u_UpdatedAt := now\<rparr> in
      transact B UsTx (put_user B (u_Email u1) u1))"

section \<open>Sessions\<close>

definition session_of :: "us_row \<Rightarrow> session option" where
  "session_of v = (case v of SessionRow s \<Rightarrow> Some s | _ \<Rightarrow> None)"

definition CreateSession ::
    "('db, us_row) bolt \<Rightarrow> (nat \<Rightarrow> nat) \<Rightarrow> int \<Rightarrow> string option \<Rightarrow> string \<Rightarrow> int \<Rightarrow> 'db \<Rightarrow> us_err + session \<times> 'db" where
  "CreateSession B lower now handle email ttl db =
     (case handle of
        None \<Rightarrow> Inl UsRand
      | Some sid \<Rightarrow>
          (let s = \<lparr>se_ID = sid, se_Email = normalizeEmail lower email, se_IssuedAt = now, se_Expiry = now + ttl\<rparr> in
           transact_ret B UsTx
             (\<lambda>db. case b_put B sessionsBucket sid (SessionRow s) db of None \<Rightarrow> Inl UsTx | Some db1 \<Rightarrow> Inr (s, db1)) db))"

text \<open>An expired session is deleted by a transaction that succeeds; the error is decided after it.\<close>

definition LookupSession ::
    "('db, us_row) bolt \<Rightarrow> int \<Rightarrow> string \<Rightarrow> 'db \<Rightarrow> us_err + (us_err + session) \<times> 'db" where
  "LookupSession B now sid =
     transact_ret B UsTx
       (\<lambda>db. case b_get B db sessionsBucket sid of
               None \<Rightarrow> Inl UsNotFound
             | Some v \<Rightarrow>
                 (case session_of v of
                    None \<Rightarrow> Inl UsDecode
                  | Some s \<Rightarrow>
                      (if now > se_Expiry s
                       then (case b_delete B sessionsBucket sid db of None \<Rightarrow> Inl UsTx | Some db1 \<Rightarrow> Inr (Inl UsExpired, db1))
                       else Inr (Inr s, db))))"

definition TouchSession :: "('db, us_row) bolt \<Rightarrow> int \<Rightarrow> string \<Rightarrow> int \<Rightarrow> 'db \<Rightarrow> us_err + 'db" where
  "TouchSession B now sid ttl =
     transact B UsTx
       (\<lambda>db. case b_get B db sessionsBucket sid of
               None \<Rightarrow> Inr db
             | Some v \<Rightarrow>
                 (case session_of v of
                    None \<Rightarrow> Inr db
                  | Some s \<Rightarrow>
                      (if \<not> now + ttl > se_Expiry s then Inr db
                       else or_err UsTx (b_put B sessionsBucket sid (SessionRow (s\<lparr>se_Expiry := now + ttl\<rparr>)) db))))"

definition DeleteSession :: "('db, us_row) bolt \<Rightarrow> string \<Rightarrow> 'db \<Rightarrow> us_err + 'db" where
  "DeleteSession B sid = transact B UsTx (\<lambda>db. or_err UsTx (b_delete B sessionsBucket sid db))"

definition DeleteExpiredSessions :: "('db, us_row) bolt \<Rightarrow> int \<Rightarrow> 'db \<Rightarrow> us_err + nat \<times> 'db" where
  "DeleteExpiredSessions B now =
     transact_ret B UsTx
       (\<lambda>db. case decode_all session_of (b_rows B db sessionsBucket) of
               None \<Rightarrow> Inl UsDecode
             | Some ss \<Rightarrow>
                 (let dead = map fst (filter (\<lambda>(k, s). now > se_Expiry s) ss) in
                  case delete_rows B sessionsBucket dead db of
                    None \<Rightarrow> Inl UsTx | Some db1 \<Rightarrow> Inr (length dead, db1)))"

definition dropSessionsTx :: "('db, us_row) bolt \<Rightarrow> string \<Rightarrow> 'db \<Rightarrow> us_err + 'db" where
  "dropSessionsTx B emailKey db =
     (let dead = map fst (filter (\<lambda>(k, v). case session_of v of None \<Rightarrow> False | Some s \<Rightarrow> se_Email s = emailKey)
                            (b_rows B db sessionsBucket)) in
      or_err UsTx (delete_rows B sessionsBucket dead db))"

section \<open>Administration\<close>

record user_info =
  ui_Email :: string
  ui_DisplayName :: string
  ui_Scope :: string
  ui_Disabled :: bool

definition info_of_user :: "user_record \<Rightarrow> user_info" where
  "info_of_user u = \<lparr>ui_Email = u_Email u, ui_DisplayName = u_DisplayName u, ui_Scope = u_Scope u, ui_Disabled = u_Disabled u\<rparr>"

definition ListUsers :: "('db, us_row) bolt \<Rightarrow> 'db \<Rightarrow> us_err + user_info list" where
  "ListUsers B db =
     (case decode_all user_of (b_rows B db usersBucket) of
        None \<Rightarrow> Inl UsDecode
      | Some us \<Rightarrow> Inr (sort_key ui_Email (map (info_of_user \<circ> snd) us)))"

definition UpdateUserScope ::
    "('db, us_row) bolt \<Rightarrow> (nat \<Rightarrow> nat) \<Rightarrow> int \<Rightarrow> string \<Rightarrow> string \<Rightarrow> 'db \<Rightarrow> us_err + 'db" where
  "UpdateUserScope B lower now email scope =
     (let key = normalizeEmail lower email in
      transact B UsTx
        (\<lambda>db. case read_user B key db of
                Inl e \<Rightarrow> Inl e
              | Inr u \<Rightarrow> put_user B key (u\<lparr>u_Scope := scope, u_UpdatedAt := now\<rparr>) db))"

definition RemoveUser :: "('db, us_row) bolt \<Rightarrow> (nat \<Rightarrow> nat) \<Rightarrow> string \<Rightarrow> 'db \<Rightarrow> us_err + 'db" where
  "RemoveUser B lower email =
     (let key = normalizeEmail lower email in
      transact B UsTx
        (\<lambda>db. if b_get B db usersBucket key = None then Inl UsNotFound
              else case b_delete B usersBucket key db of
                None \<Rightarrow> Inl UsTx | Some db1 \<Rightarrow> dropSessionsTx B key db1))"

text \<open>Write the user back and log every session of the account out, in one transaction.\<close>

definition put_user_drop :: "('db, us_row) bolt \<Rightarrow> string \<Rightarrow> user_record \<Rightarrow> bool \<Rightarrow> 'db \<Rightarrow> us_err + 'db" where
  "put_user_drop B key u drop_sessions db =
     (case put_user B key u db of
        Inl e \<Rightarrow> Inl e | Inr db1 \<Rightarrow> (if drop_sessions then dropSessionsTx B key db1 else Inr db1))"

definition SetUserDisabled ::
    "('db, us_row) bolt \<Rightarrow> (nat \<Rightarrow> nat) \<Rightarrow> int \<Rightarrow> string \<Rightarrow> bool \<Rightarrow> 'db \<Rightarrow> us_err + 'db" where
  "SetUserDisabled B lower now email disabled =
     (let key = normalizeEmail lower email in
      transact B UsTx
        (\<lambda>db. case read_user B key db of
                Inl e \<Rightarrow> Inl e
              | Inr u \<Rightarrow> put_user_drop B key (u\<lparr>u_Disabled := disabled, u_UpdatedAt := now\<rparr>) disabled db))"

definition SetUserPassword ::
    "('db, us_row) bolt \<Rightarrow> (nat \<Rightarrow> nat) \<Rightarrow> int \<Rightarrow> string \<Rightarrow> string \<Rightarrow> 'db \<Rightarrow> us_err + 'db" where
  "SetUserPassword B lower now email passwordHash =
     (let key = normalizeEmail lower email in
      transact B UsTx
        (\<lambda>db. case read_user B key db of
                Inl e \<Rightarrow> Inl e
              | Inr u \<Rightarrow> put_user_drop B key (u\<lparr>u_PasswordHash := passwordHash, u_UpdatedAt := now\<rparr>) True db))"

definition ClearTOTP :: "('db, us_row) bolt \<Rightarrow> (nat \<Rightarrow> nat) \<Rightarrow> int \<Rightarrow> string \<Rightarrow> 'db \<Rightarrow> us_err + 'db" where
  "ClearTOTP B lower now email =
     (let key = normalizeEmail lower email in
      transact B UsTx
        (\<lambda>db. case read_user B key db of
                Inl e \<Rightarrow> Inl e
              | Inr u \<Rightarrow> put_user_drop B key (u\<lparr>u_TOTPSecretEnc := [], u_UpdatedAt := now\<rparr>) True db))"

section \<open>Invitations\<close>

definition invite_of :: "us_row \<Rightarrow> invite option" where
  "invite_of v = (case v of InviteRow i \<Rightarrow> Some i | _ \<Rightarrow> None)"

definition hashCode :: "string \<Rightarrow> string" where
  "hashCode code = sha256Hex code"

definition CreateInvite ::
    "('db, us_row) bolt \<Rightarrow> (nat \<Rightarrow> nat) \<Rightarrow> int \<Rightarrow> string option \<Rightarrow> string \<Rightarrow> string \<Rightarrow> string \<Rightarrow> int \<Rightarrow> 'db \<Rightarrow>
     us_err + (string \<times> invite) \<times> 'db" where
  "CreateInvite B lower now handle email scope createdBy ttl db =
     (case handle of
        None \<Rightarrow> Inl UsRand
      | Some code \<Rightarrow>
          (let i = \<lparr>in_CodeHash = hashCode code, in_Email = normalizeEmail lower email, in_Scope = scope,
                    in_Expiry = now + ttl, in_Used = False, in_CreatedBy = normalizeEmail lower createdBy,
                    in_CreatedAt = now\<rparr> in
           transact_ret B UsTx
             (\<lambda>db. case b_put B invitesBucket (in_CodeHash i) (InviteRow i) db of
                     None \<Rightarrow> Inl UsTx | Some db1 \<Rightarrow> Inr ((code, i), db1)) db))"

definition InviteByCode :: "('db, us_row) bolt \<Rightarrow> int \<Rightarrow> string \<Rightarrow> 'db \<Rightarrow> us_err + invite" where
  "InviteByCode B now code db =
     (case b_get B db invitesBucket (hashCode code) of
        None \<Rightarrow> Inl UsInvalidInvite
      | Some v \<Rightarrow>
          (case invite_of v of
             None \<Rightarrow> Inl UsDecode
           | Some i \<Rightarrow> (if in_Used i \<or> now > in_Expiry i then Inl UsInvalidInvite else Inr i)))"

definition RevokeInvite :: "('db, us_row) bolt \<Rightarrow> string \<Rightarrow> 'db \<Rightarrow> us_err + 'db" where
  "RevokeInvite B codeHash = transact B UsTx (\<lambda>db. or_err UsTx (b_delete B invitesBucket codeHash db))"

definition RedeemInvite ::
    "('db, us_row) bolt \<Rightarrow> int \<Rightarrow> string option \<Rightarrow> string \<Rightarrow> user_record \<Rightarrow> 'db \<Rightarrow> us_err + 'db" where
  "RedeemInvite B now handle code u db =
     (case with_handle handle u of
        Inl e \<Rightarrow> Inl e
      | Inr u1 \<Rightarrow>
          transact B UsTx
            (\<lambda>db. case b_get B db invitesBucket (hashCode code) of
                    None \<Rightarrow> Inl UsInvalidInvite
                  | Some v \<Rightarrow>
                      (case invite_of v of
                         None \<Rightarrow> Inl UsDecode
                       | Some i \<Rightarrow>
                           (if in_Used i \<or> now > in_Expiry i then Inl UsInvalidInvite
                            else
                              (let u2 = u1\<lparr>u_Email := in_Email i, u_Scope := in_Scope i,
                                           u_CreatedAt := (if u_CreatedAt u1 = 0 then now else u_CreatedAt u1),
                                           u_UpdatedAt := now\<rparr> in
                               if b_get B db usersBucket (u_Email u2) \<noteq> None then Inl UsExists
                               else case put_user B (u_Email u2) u2 db of
                                 Inl e \<Rightarrow> Inl e
                               | Inr db1 \<Rightarrow>
                                   or_err UsTx
                                     (b_put B invitesBucket (hashCode code) (InviteRow (i\<lparr>in_Used := True\<rparr>)) db1))))) db)"

section \<open>Rewriting the scopes\<close>

definition us_RewriteScopes :: "('db, us_row) bolt \<Rightarrow> int \<Rightarrow> (string \<Rightarrow> string) \<Rightarrow> 'db \<Rightarrow> us_err + nat \<times> 'db" where
  "us_RewriteScopes B now fn =
     transact_ret B UsTx
       (\<lambda>db. case decode_all user_of (b_rows B db usersBucket) of
               None \<Rightarrow> Inl UsDecode
             | Some us \<Rightarrow>
                 (let userUpd = scope_updates u_Scope (\<lambda>sc u. UserRow (u\<lparr>u_Scope := sc, u_UpdatedAt := now\<rparr>)) fn us in
                  case put_rows B usersBucket userUpd db of
                    None \<Rightarrow> Inl UsTx
                  | Some db1 \<Rightarrow>
                      (case decode_all invite_of (b_rows B db1 invitesBucket) of
                         None \<Rightarrow> Inl UsDecode
                       | Some is \<Rightarrow>
                           (let invUpd = scope_updates in_Scope (\<lambda>sc i. InviteRow (i\<lparr>in_Scope := sc\<rparr>)) fn is in
                            case put_rows B invitesBucket invUpd db1 of
                              None \<Rightarrow> Inl UsTx
                            | Some db2 \<Rightarrow> Inr (length userUpd + length invUpd, db2)))))"


section \<open>What the store means\<close>

record us_state =
  Accounts :: "string \<Rightarrow> user_record option"
  Sessions :: "string \<Rightarrow> session option"
  Invites :: "string \<Rightarrow> invite option"

definition us_view :: "('db, us_row) bolt \<Rightarrow> 'db \<Rightarrow> us_state" where
  "us_view B db =
     \<lparr>Accounts = (\<lambda>k. Option.bind (bget B db usersBucket k) user_of),
      Sessions = (\<lambda>k. Option.bind (bget B db sessionsBucket k) session_of),
      Invites = (\<lambda>k. Option.bind (bget B db invitesBucket k) invite_of)\<rparr>"

definition us_ok :: "('db, us_row) bolt \<Rightarrow> 'db \<Rightarrow> bool" where
  "us_ok B db \<longleftrightarrow>
     b_bucket B db usersBucket \<and> b_bucket B db sessionsBucket \<and> b_bucket B db invitesBucket \<and>
     (\<forall>k v. bget B db usersBucket k = Some v \<longrightarrow> (\<exists>u. v = UserRow u \<and> u_Email u = k)) \<and>
     (\<forall>k v. bget B db sessionsBucket k = Some v \<longrightarrow> (\<exists>s. v = SessionRow s \<and> se_ID s = k)) \<and>
     (\<forall>k v. bget B db invitesBucket k = Some v \<longrightarrow> (\<exists>i. v = InviteRow i \<and> in_CodeHash i = k))"

lemma us_buckets [simp]:
  "usersBucket \<noteq> sessionsBucket" "usersBucket \<noteq> invitesBucket" "sessionsBucket \<noteq> invitesBucket"
  "sessionsBucket \<noteq> usersBucket" "invitesBucket \<noteq> usersBucket" "invitesBucket \<noteq> sessionsBucket"
  by (simp_all add: usersBucket_def sessionsBucket_def invitesBucket_def)

lemma row_of_simps [simp]:
  "user_of (UserRow u) = Some u" "session_of (SessionRow s) = Some s" "invite_of (InviteRow i) = Some i"
  by (simp_all add: user_of_def session_of_def invite_of_def)

lemma us_okD:
  assumes "us_ok B db"
  shows "b_bucket B db usersBucket" "b_bucket B db sessionsBucket" "b_bucket B db invitesBucket"
    "bget B db usersBucket k = Some v \<Longrightarrow> \<exists>u. v = UserRow u \<and> u_Email u = k"
    "bget B db sessionsBucket k = Some v \<Longrightarrow> \<exists>s. v = SessionRow s \<and> se_ID s = k"
    "bget B db invitesBucket k = Some v \<Longrightarrow> \<exists>i. v = InviteRow i \<and> in_CodeHash i = k"
  using assms by (auto simp: us_ok_def)

text \<open>The rows, in terms of the view.\<close>

lemma us_rows:
  assumes "us_ok B db"
  shows "bget B db usersBucket k = map_option UserRow (Accounts (us_view B db) k)"
    "bget B db sessionsBucket k = map_option SessionRow (Sessions (us_view B db) k)"
    "bget B db invitesBucket k = map_option InviteRow (Invites (us_view B db) k)"
proof -
  show "bget B db usersBucket k = map_option UserRow (Accounts (us_view B db) k)"
    using us_okD(4) [OF assms, of k] by (cases "bget B db usersBucket k") (auto simp: us_view_def)
  show "bget B db sessionsBucket k = map_option SessionRow (Sessions (us_view B db) k)"
    using us_okD(5) [OF assms, of k] by (cases "bget B db sessionsBucket k") (auto simp: us_view_def)
  show "bget B db invitesBucket k = map_option InviteRow (Invites (us_view B db) k)"
    using us_okD(6) [OF assms, of k] by (cases "bget B db invitesBucket k") (auto simp: us_view_def)
qed

lemma us_gets:
  assumes "us_ok B db"
  shows "b_get B db usersBucket k = map_option UserRow (Accounts (us_view B db) k)"
    "b_get B db sessionsBucket k = map_option SessionRow (Sessions (us_view B db) k)"
    "b_get B db invitesBucket k = map_option InviteRow (Invites (us_view B db) k)"
  using us_rows [OF assms, of k] us_okD(1-3) [OF assms] by (simp_all add: b_get_bget)

lemma us_keys:
  assumes "us_ok B db"
  shows "Accounts (us_view B db) k = Some u \<Longrightarrow> u_Email u = k"
    "Sessions (us_view B db) k = Some s \<Longrightarrow> se_ID s = k"
    "Invites (us_view B db) k = Some i \<Longrightarrow> in_CodeHash i = k"
  using us_okD(4-6) [OF assms, of k] us_rows [OF assms, of k] by auto

definition us_is :: "('db, us_row) bolt \<Rightarrow> us_state \<Rightarrow> 'db \<Rightarrow> bool" where
  "us_is B st db \<longleftrightarrow> us_ok B db \<and> us_view B db = st"

lemma us_is_cong: "bget B db' = bget B db \<Longrightarrow> b_bucket B db' = b_bucket B db \<Longrightarrow> us_is B st db' = us_is B st db"
  by (simp add: us_is_def us_ok_def us_view_def)

lemma us_is_put:
  assumes "bolt_ok B" "us_is B st db"
  shows "b_put B usersBucket k (UserRow u) db = Some db' \<Longrightarrow> u_Email u = k \<Longrightarrow>
      us_is B (st\<lparr>Accounts := (Accounts st)(k \<mapsto> u)\<rparr>) db'"
    and "b_put B sessionsBucket k (SessionRow s) db = Some db' \<Longrightarrow> se_ID s = k \<Longrightarrow>
      us_is B (st\<lparr>Sessions := (Sessions st)(k \<mapsto> s)\<rparr>) db'"
    and "b_put B invitesBucket k (InviteRow i) db = Some db' \<Longrightarrow> in_CodeHash i = k \<Longrightarrow>
      us_is B (st\<lparr>Invites := (Invites st)(k \<mapsto> i)\<rparr>) db'"
proof -
  have ok: "us_ok B db" and v: "us_view B db = st" using assms(2) by (simp_all add: us_is_def)
  note put = put_reads [OF assms(1)]
  show "b_put B usersBucket k (UserRow u) db = Some db' \<Longrightarrow> u_Email u = k \<Longrightarrow>
      us_is B (st\<lparr>Accounts := (Accounts st)(k \<mapsto> u)\<rparr>) db'"
    using put [of usersBucket k "UserRow u" db db'] ok unfolding us_is_def v [symmetric]
    by (auto simp: us_ok_def us_view_def fun_eq_iff)
  show "b_put B sessionsBucket k (SessionRow s) db = Some db' \<Longrightarrow> se_ID s = k \<Longrightarrow>
      us_is B (st\<lparr>Sessions := (Sessions st)(k \<mapsto> s)\<rparr>) db'"
    using put [of sessionsBucket k "SessionRow s" db db'] ok unfolding us_is_def v [symmetric]
    by (auto simp: us_ok_def us_view_def fun_eq_iff)
  show "b_put B invitesBucket k (InviteRow i) db = Some db' \<Longrightarrow> in_CodeHash i = k \<Longrightarrow>
      us_is B (st\<lparr>Invites := (Invites st)(k \<mapsto> i)\<rparr>) db'"
    using put [of invitesBucket k "InviteRow i" db db'] ok unfolding us_is_def v [symmetric]
    by (auto simp: us_ok_def us_view_def fun_eq_iff)
qed

lemma us_is_delete_rows:
  assumes "bolt_ok B" "us_is B st db"
  shows "delete_rows B sessionsBucket ks db = Some db' \<Longrightarrow>
      us_is B (st\<lparr>Sessions := (\<lambda>k. if k \<in> set ks then None else Sessions st k)\<rparr>) db'"
    and "delete_rows B usersBucket ks db = Some db' \<Longrightarrow>
      us_is B (st\<lparr>Accounts := (\<lambda>k. if k \<in> set ks then None else Accounts st k)\<rparr>) db'"
    and "delete_rows B invitesBucket ks db = Some db' \<Longrightarrow>
      us_is B (st\<lparr>Invites := (\<lambda>k. if k \<in> set ks then None else Invites st k)\<rparr>) db'"
proof -
  have ok: "us_ok B db" and v: "us_view B db = st" using assms(2) by (simp_all add: us_is_def)
  note del = delete_rows_reads [OF assms(1)]
  show "delete_rows B sessionsBucket ks db = Some db' \<Longrightarrow>
      us_is B (st\<lparr>Sessions := (\<lambda>k. if k \<in> set ks then None else Sessions st k)\<rparr>) db'"
    using del [of sessionsBucket ks db db'] ok unfolding us_is_def v [symmetric]
    by (auto simp: us_ok_def us_view_def fun_eq_iff)
  show "delete_rows B usersBucket ks db = Some db' \<Longrightarrow>
      us_is B (st\<lparr>Accounts := (\<lambda>k. if k \<in> set ks then None else Accounts st k)\<rparr>) db'"
    using del [of usersBucket ks db db'] ok unfolding us_is_def v [symmetric]
    by (auto simp: us_ok_def us_view_def fun_eq_iff)
  show "delete_rows B invitesBucket ks db = Some db' \<Longrightarrow>
      us_is B (st\<lparr>Invites := (\<lambda>k. if k \<in> set ks then None else Invites st k)\<rparr>) db'"
    using del [of invitesBucket ks db db'] ok unfolding us_is_def v [symmetric]
    by (auto simp: us_ok_def us_view_def fun_eq_iff)
qed

lemma us_is_delete:
  assumes "bolt_ok B" "us_is B st db"
  shows "b_delete B sessionsBucket k db = Some db' \<Longrightarrow> us_is B (st\<lparr>Sessions := (Sessions st)(k := None)\<rparr>) db'"
    and "b_delete B usersBucket k db = Some db' \<Longrightarrow> us_is B (st\<lparr>Accounts := (Accounts st)(k := None)\<rparr>) db'"
    and "b_delete B invitesBucket k db = Some db' \<Longrightarrow> us_is B (st\<lparr>Invites := (Invites st)(k := None)\<rparr>) db'"
  using us_is_delete_rows [OF assms, of "[k]" db'] by (simp_all add: fun_upd_def)

lemma us_is_put_users:
  assumes "bolt_ok B"
  shows "us_is B st db \<Longrightarrow> put_rows B usersBucket (map (\<lambda>(k, u). (k, UserRow u)) us) db = Some db' \<Longrightarrow>
    \<forall>(k, u)\<in>set us. u_Email u = k \<Longrightarrow> us_is B (st\<lparr>Accounts := Accounts st ++ map_of (rev us)\<rparr>) db'"
proof (induction us arbitrary: db st)
  case (Cons p us)
  obtain k u where p: "p = (k, u)" by fastforce
  with Cons.prems(2) obtain db1 where d: "b_put B usersBucket k (UserRow u) db = Some db1"
    "put_rows B usersBucket (map (\<lambda>(k, u). (k, UserRow u)) us) db1 = Some db'" by (auto split: option.splits)
  have "us_is B (st\<lparr>Accounts := (Accounts st)(k \<mapsto> u)\<rparr>) db1"
    using us_is_put(1) [OF assms Cons.prems(1) d(1)] Cons.prems(3) p by auto
  from Cons.IH [OF this d(2)] Cons.prems(3) p show ?case by (simp only: map_add_rev_Cons) (simp add: fun_upd_def)
qed simp

lemma us_is_put_invites:
  assumes "bolt_ok B"
  shows "us_is B st db \<Longrightarrow> put_rows B invitesBucket (map (\<lambda>(k, i). (k, InviteRow i)) us) db = Some db' \<Longrightarrow>
    \<forall>(k, i)\<in>set us. in_CodeHash i = k \<Longrightarrow> us_is B (st\<lparr>Invites := Invites st ++ map_of (rev us)\<rparr>) db'"
proof (induction us arbitrary: db st)
  case (Cons p us)
  obtain k u where p: "p = (k, u)" by fastforce
  with Cons.prems(2) obtain db1 where d: "b_put B invitesBucket k (InviteRow u) db = Some db1"
    "put_rows B invitesBucket (map (\<lambda>(k, i). (k, InviteRow i)) us) db1 = Some db'" by (auto split: option.splits)
  have "us_is B (st\<lparr>Invites := (Invites st)(k \<mapsto> u)\<rparr>) db1"
    using us_is_put(3) [OF assms Cons.prems(1) d(1)] Cons.prems(3) p by auto
  from Cons.IH [OF this d(2)] Cons.prems(3) p show ?case by (simp only: map_add_rev_Cons) (simp add: fun_upd_def)
qed simp


text \<open>The operations that change the store, and what each means on the three maps.\<close>

datatype us_op =
  FirstAdmin "string option" user_record | Register "string option" user_record | Save user_record
| Login "string option" string int | Visit string | Touch string int | Logout string | SweepSessions
| SetScope string string | Remove string | Disable string bool | Password string string | ResetTOTP string
| Invite "string option" string string string int | Revoke string | Redeem "string option" string user_record
| Rescope "string \<Rightarrow> string"

fun us_apply :: "('db, us_row) bolt \<Rightarrow> (nat \<Rightarrow> nat) \<Rightarrow> int \<Rightarrow> us_op \<Rightarrow> 'db \<Rightarrow> us_err + 'db" where
  "us_apply B lower now (FirstAdmin h u) db = CreateFirstAdmin B lower now h u db"
| "us_apply B lower now (Register h u) db = CreateUser B lower now h u db"
| "us_apply B lower now (Save u) db = PutUser B lower now u db"
| "us_apply B lower now (Login h email ttl) db = just_db (CreateSession B lower now h email ttl db)"
| "us_apply B lower now (Visit sid) db = just_db (LookupSession B now sid db)"
| "us_apply B lower now (Touch sid ttl) db = TouchSession B now sid ttl db"
| "us_apply B lower now (Logout sid) db = DeleteSession B sid db"
| "us_apply B lower now SweepSessions db = just_db (DeleteExpiredSessions B now db)"
| "us_apply B lower now (SetScope email scope) db = UpdateUserScope B lower now email scope db"
| "us_apply B lower now (Remove email) db = RemoveUser B lower email db"
| "us_apply B lower now (Disable email b) db = SetUserDisabled B lower now email b db"
| "us_apply B lower now (Password email ph) db = SetUserPassword B lower now email ph db"
| "us_apply B lower now (ResetTOTP email) db = ClearTOTP B lower now email db"
| "us_apply B lower now (Invite h email scope by ttl) db = just_db (CreateInvite B lower now h email scope by ttl db)"
| "us_apply B lower now (Revoke ch) db = RevokeInvite B ch db"
| "us_apply B lower now (Redeem h code u) db = RedeemInvite B now h code u db"
| "us_apply B lower now (Rescope fn) db = just_db (us_RewriteScopes B now fn db)"

definition stamped :: "int \<Rightarrow> user_record \<Rightarrow> user_record" where
  "stamped now u = u\<lparr>u_CreatedAt := (if u_CreatedAt u = 0 then now else u_CreatedAt u), u_UpdatedAt := now\<rparr>"

definition create_spec :: "int \<Rightarrow> string option \<Rightarrow> us_err option \<Rightarrow> user_record \<Rightarrow> us_state \<Rightarrow> us_err + us_state" where
  "create_spec now h refuse u st =
     (case with_handle h u of
        Inl e \<Rightarrow> Inl e
      | Inr u1 \<Rightarrow>
          (case refuse of
             Some e \<Rightarrow> Inl e
           | None \<Rightarrow> Inr (st\<lparr>Accounts := (Accounts st)(u_Email u1 \<mapsto> stamped now u1)\<rparr>)))"

definition log_out :: "string \<Rightarrow> us_state \<Rightarrow> us_state" where
  "log_out key st =
     st\<lparr>Sessions := (\<lambda>k. case Sessions st k of None \<Rightarrow> None | Some s \<Rightarrow> if se_Email s = key then None else Some s)\<rparr>"

definition change_spec :: "string \<Rightarrow> (user_record \<Rightarrow> user_record) \<Rightarrow> bool \<Rightarrow> us_state \<Rightarrow> us_err + us_state" where
  "change_spec key f out st =
     (case Accounts st key of
        None \<Rightarrow> Inl UsNotFound
      | Some u \<Rightarrow>
          (let st1 = st\<lparr>Accounts := (Accounts st)(key \<mapsto> f u)\<rparr> in Inr (if out then log_out key st1 else st1)))"

definition rescope_user :: "int \<Rightarrow> (string \<Rightarrow> string) \<Rightarrow> user_record \<Rightarrow> user_record" where
  "rescope_user now fn u = (if fn (u_Scope u) = u_Scope u then u else u\<lparr>u_Scope := fn (u_Scope u), u_UpdatedAt := now\<rparr>)"

fun us_spec :: "(nat \<Rightarrow> nat) \<Rightarrow> int \<Rightarrow> us_op \<Rightarrow> us_state \<Rightarrow> us_err + us_state" where
  "us_spec lower now (FirstAdmin h u) st =
     (if u_Email u = [] then Inl UsEmailRequired
      else create_spec now h (if Accounts st = Map.empty then None else Some UsUsersExist)
             (u\<lparr>u_Email := normalizeEmail lower (u_Email u), u_Scope := AdminScope\<rparr>) st)"
| "us_spec lower now (Register h u) st =
     (if u_Email u = [] then Inl UsEmailRequired
      else create_spec now h (if Accounts st (normalizeEmail lower (u_Email u)) = None then None else Some UsExists)
             (u\<lparr>u_Email := normalizeEmail lower (u_Email u)\<rparr>) st)"
| "us_spec lower now (Save u) st =
     Inr (st\<lparr>Accounts := (Accounts st)(normalizeEmail lower (u_Email u) \<mapsto>
            u\<lparr>u_Email := normalizeEmail lower (u_Email u), u_UpdatedAt := now\<rparr>)\<rparr>)"
| "us_spec lower now (Login h email ttl) st =
     (case h of
        None \<Rightarrow> Inl UsRand
      | Some sid \<Rightarrow> Inr (st\<lparr>Sessions := (Sessions st)(sid \<mapsto>
          \<lparr>se_ID = sid, se_Email = normalizeEmail lower email, se_IssuedAt = now, se_Expiry = now + ttl\<rparr>)\<rparr>))"
| "us_spec lower now (Visit sid) st =
     (case Sessions st sid of
        None \<Rightarrow> Inl UsNotFound
      | Some s \<Rightarrow> Inr (if now > se_Expiry s then st\<lparr>Sessions := (Sessions st)(sid := None)\<rparr> else st))"
| "us_spec lower now (Touch sid ttl) st =
     Inr (case Sessions st sid of
            None \<Rightarrow> st
          | Some s \<Rightarrow> if now + ttl > se_Expiry s then st\<lparr>Sessions := (Sessions st)(sid \<mapsto> s\<lparr>se_Expiry := now + ttl\<rparr>)\<rparr> else st)"
| "us_spec lower now (Logout sid) st = Inr (st\<lparr>Sessions := (Sessions st)(sid := None)\<rparr>)"
| "us_spec lower now SweepSessions st =
     Inr (st\<lparr>Sessions := (\<lambda>k. case Sessions st k of None \<Rightarrow> None | Some s \<Rightarrow> if now > se_Expiry s then None else Some s)\<rparr>)"
| "us_spec lower now (SetScope email scope) st =
     change_spec (normalizeEmail lower email) (\<lambda>u. u\<lparr>u_Scope := scope, u_UpdatedAt := now\<rparr>) False st"
| "us_spec lower now (Remove email) st =
     (if Accounts st (normalizeEmail lower email) = None then Inl UsNotFound
      else Inr (log_out (normalizeEmail lower email)
             (st\<lparr>Accounts := (Accounts st)(normalizeEmail lower email := None)\<rparr>)))"
| "us_spec lower now (Disable email b) st =
     change_spec (normalizeEmail lower email) (\<lambda>u. u\<lparr>u_Disabled := b, u_UpdatedAt := now\<rparr>) b st"
| "us_spec lower now (Password email ph) st =
     change_spec (normalizeEmail lower email) (\<lambda>u. u\<lparr>u_PasswordHash := ph, u_UpdatedAt := now\<rparr>) True st"
| "us_spec lower now (ResetTOTP email) st =
     change_spec (normalizeEmail lower email) (\<lambda>u. u\<lparr>u_TOTPSecretEnc := [], u_UpdatedAt := now\<rparr>) True st"
| "us_spec lower now (Invite h email scope by ttl) st =
     (case h of
        None \<Rightarrow> Inl UsRand
      | Some code \<Rightarrow> Inr (st\<lparr>Invites := (Invites st)(hashCode code \<mapsto>
          \<lparr>in_CodeHash = hashCode code, in_Email = normalizeEmail lower email, in_Scope = scope, in_Expiry = now + ttl,
           in_Used = False, in_CreatedBy = normalizeEmail lower by, in_CreatedAt = now\<rparr>)\<rparr>))"
| "us_spec lower now (Revoke ch) st = Inr (st\<lparr>Invites := (Invites st)(ch := None)\<rparr>)"
| "us_spec lower now (Redeem h code u) st =
     (case with_handle h u of
        Inl e \<Rightarrow> Inl e
      | Inr u1 \<Rightarrow>
          (case Invites st (hashCode code) of
             None \<Rightarrow> Inl UsInvalidInvite
           | Some i \<Rightarrow>
               (if in_Used i \<or> now > in_Expiry i then Inl UsInvalidInvite
                else if Accounts st (in_Email i) \<noteq> None then Inl UsExists
                else Inr (st\<lparr>Accounts := (Accounts st)(in_Email i \<mapsto> stamped now (u1\<lparr>u_Email := in_Email i, u_Scope := in_Scope i\<rparr>)),
                             Invites := (Invites st)(hashCode code \<mapsto> i\<lparr>in_Used := True\<rparr>)\<rparr>))))"
| "us_spec lower now (Rescope fn) st =
     Inr (st\<lparr>Accounts := (\<lambda>k. map_option (rescope_user now fn) (Accounts st k)),
             Invites := (\<lambda>k. map_option (\<lambda>i. i\<lparr>in_Scope := fn (in_Scope i)\<rparr>) (Invites st k))\<rparr>)"

abbreviation us_follows :: "('db, us_row) bolt \<Rightarrow> us_err + 'db \<Rightarrow> us_err + us_state \<Rightarrow> bool" where
  "us_follows B \<equiv> follows (us_is B) UsTx"

interpretation us: tx_store B UsTx "us_is B" for B :: "('db, us_row) bolt"
  by unfold_locales (rule us_is_cong)

lemmas us_follows_def = follows_def [of "us_is B" UsTx for B]

lemmas us_follows_Inl = us.follow_Inl
  and us_follows_Inr = us.follow_Inr
  and us_follows_or = us.follow_or
  and us_follows_transact = us.follow_transact
  and us_follows_transact_ret = us.follow_transact_ret
  and us_follows_then = us.follow_then

lemma us_isD: "us_is B st db \<Longrightarrow> us_ok B db" "us_is B st db \<Longrightarrow> us_view B db = st"
  by (simp_all add: us_is_def)

lemma us_is_gets:
  assumes "us_is B st db"
  shows "b_get B db usersBucket k = map_option UserRow (Accounts st k)"
    "b_get B db sessionsBucket k = map_option SessionRow (Sessions st k)"
    "b_get B db invitesBucket k = map_option InviteRow (Invites st k)"
  using us_gets [OF us_isD(1) [OF assms]] us_isD(2) [OF assms] by simp_all

lemma us_is_keys:
  assumes "us_is B st db"
  shows "Accounts st k = Some u \<Longrightarrow> u_Email u = k" "Sessions st k = Some s \<Longrightarrow> se_ID s = k"
    "Invites st k = Some i \<Longrightarrow> in_CodeHash i = k"
  using us_keys [OF us_isD(1) [OF assms]] us_isD(2) [OF assms] by auto

lemma us_is_row_mem:
  assumes "bolt_ok B" "us_is B st db"
  shows "(k, v) \<in> set (b_rows B db usersBucket) \<longleftrightarrow> (\<exists>u. v = UserRow u \<and> Accounts st k = Some u)"
    "(k, v) \<in> set (b_rows B db sessionsBucket) \<longleftrightarrow> (\<exists>s. v = SessionRow s \<and> Sessions st k = Some s)"
    "(k, v) \<in> set (b_rows B db invitesBucket) \<longleftrightarrow> (\<exists>i. v = InviteRow i \<and> Invites st k = Some i)"
  using bucket_rows(3) [OF assms(1)] us_okD(1-3) [OF us_isD(1) [OF assms(2)]]
    us_rows [OF us_isD(1) [OF assms(2)], of k] us_isD(2) [OF assms(2)] by auto


section \<open>Every operation follows the maps\<close>

lemma put_user_follows:
  assumes "bolt_ok B" "us_is B st db" "u_Email u = key"
  shows "us_follows B (put_user B key u db) (Inr (st\<lparr>Accounts := (Accounts st)(key \<mapsto> u)\<rparr>))"
  unfolding put_user_def using us_is_put(1) [OF assms(1,2) _ assms(3)] by (intro us_follows_or)

lemma log_out_follows:
  assumes "bolt_ok B" "us_is B st db"
  shows "us_follows B (dropSessionsTx B key db) (Inr (log_out key st))"
proof -
  let ?dead = "map fst (filter (\<lambda>(k, v). case session_of v of None \<Rightarrow> False | Some s \<Rightarrow> se_Email s = key) (b_rows B db sessionsBucket))"
  have mem: "k \<in> set ?dead \<longleftrightarrow> (\<exists>s. Sessions st k = Some s \<and> se_Email s = key)" for k
  proof
    assume "k \<in> set ?dead"
    then obtain v where "(k, v) \<in> set (b_rows B db sessionsBucket)" "case session_of v of None \<Rightarrow> False | Some s \<Rightarrow> se_Email s = key"
      by auto
    then show "\<exists>s. Sessions st k = Some s \<and> se_Email s = key" by (auto simp: us_is_row_mem [OF assms])
  next
    assume "\<exists>s. Sessions st k = Some s \<and> se_Email s = key"
    then obtain s where "(k, SessionRow s) \<in> set (b_rows B db sessionsBucket)" "se_Email s = key"
      by (auto simp: us_is_row_mem [OF assms])
    then show "k \<in> set ?dead" by force
  qed
  have "(\<lambda>k. if k \<in> set ?dead then None else Sessions st k) =
      (\<lambda>k. case Sessions st k of None \<Rightarrow> None | Some s \<Rightarrow> if se_Email s = key then None else Some s)"
    unfolding mem by (auto simp: fun_eq_iff split: option.splits)
  then show ?thesis unfolding dropSessionsTx_def Let_def log_out_def
    using us_is_delete_rows(1) [OF assms, of ?dead] by (intro us_follows_or) simp
qed

lemma put_user_drop_follows:
  assumes "bolt_ok B" "us_is B st db" "u_Email u = key"
  shows "us_follows B (put_user_drop B key u out db)
    (Inr (let st1 = st\<lparr>Accounts := (Accounts st)(key \<mapsto> u)\<rparr> in if out then log_out key st1 else st1))"
  unfolding put_user_drop_def Let_def
  by (rule us_follows_then [OF put_user_follows [OF assms]])
     (simp add: log_out_follows [OF assms(1)] us_follows_Inr)

lemma change_follows:
  assumes "bolt_ok B" "us_is B st db" "\<And>u. u_Email (f u) = u_Email u"
  shows "us_follows B (case read_user B key db of Inl e \<Rightarrow> Inl e | Inr u \<Rightarrow> put_user_drop B key (f u) out db)
    (change_spec key f out st)"
proof (cases "Accounts st key")
  case None
  then show ?thesis by (simp add: read_user_def us_is_gets [OF assms(2)] change_spec_def us_follows_Inl)
next
  case (Some u)
  then have r: "read_user B key db = Inr u" by (simp add: read_user_def us_is_gets [OF assms(2)] or_err_def)
  have "u_Email (f u) = key" using us_is_keys(1) [OF assms(2) Some] assms(3) by simp
  from put_user_drop_follows [OF assms(1,2) this] r Some show ?thesis by (simp add: change_spec_def Let_def)
qed

lemma put_user_drop_False: "put_user_drop B key u False db = put_user B key u db"
  by (auto simp: put_user_drop_def split: sum.splits)

lemma with_handle_email:
  "with_handle h u = Inr u1 \<Longrightarrow> u_Email u1 = u_Email u \<and> u1\<lparr>u_Handle := hh\<rparr> = u\<lparr>u_Handle := hh\<rparr>"
  by (auto simp: with_handle_def split: if_splits option.splits)

lemma create_follows:
  assumes "bolt_ok B" "us_is B st db" "guard db = refuse"
  shows "us_follows B (createWithGuard B now h guard u db) (create_spec now h refuse u st)"
proof (cases "with_handle h u")
  case (Inr u1)
  have em: "u_Email (stamped now u1) = u_Email u1" by (simp add: stamped_def)
  have st: "u1\<lparr>u_CreatedAt := (if u_CreatedAt u1 = 0 then now else u_CreatedAt u1), u_UpdatedAt := now\<rparr> = stamped now u1"
    by (simp add: stamped_def)
  have "us_follows B (case guard db of None \<Rightarrow> put_user B (u_Email (stamped now u1)) (stamped now u1) db | Some e \<Rightarrow> Inl e)
      (case refuse of None \<Rightarrow> Inr (st\<lparr>Accounts := (Accounts st)(u_Email u1 \<mapsto> stamped now u1)\<rparr>) | Some e \<Rightarrow> Inl e)"
    unfolding assms(3) em using put_user_follows [OF assms(1,2) em] by (simp add: us_follows_Inl split: option.split)
  from us_follows_transact [OF assms(1), of "\<lambda>db. case guard db of None \<Rightarrow> put_user B (u_Email (stamped now u1)) (stamped now u1) db | Some e \<Rightarrow> Inl e", OF this]
  show ?thesis using Inr by (simp add: createWithGuard_def create_spec_def st Let_def)
qed (simp add: createWithGuard_def create_spec_def us_follows_Inl)

lemma no_users_iff:
  assumes "bolt_ok B" "us_is B st db"
  shows "b_rows B db usersBucket = [] \<longleftrightarrow> Accounts st = Map.empty"
proof
  assume "b_rows B db usersBucket = []"
  then have "Accounts st k = None" for k using us_is_row_mem(1) [OF assms, of k] by (cases "Accounts st k") auto
  then show "Accounts st = Map.empty" by auto
next
  assume "Accounts st = Map.empty"
  then have "p \<notin> set (b_rows B db usersBucket)" for p using us_is_row_mem(1) [OF assms, of "fst p" "snd p"] by auto
  then show "b_rows B db usersBucket = []" by (metis list.set_intros(1) neq_Nil_conv)
qed

lemma admin_follows:
  assumes "bolt_ok B" "us_is B st db"
  shows "us_follows B (us_apply B lower now (FirstAdmin h u) db) (us_spec lower now (FirstAdmin h u) st)"
    and "us_follows B (us_apply B lower now (Register h u) db) (us_spec lower now (Register h u) st)"
    and "us_follows B (us_apply B lower now (Save u) db) (us_spec lower now (Save u) st)"
proof -
  show "us_follows B (us_apply B lower now (FirstAdmin h u) db) (us_spec lower now (FirstAdmin h u) st)"
  proof (cases "u_Email u = []")
    case False
    have "us_follows B (createWithGuard B now h (\<lambda>db. if b_rows B db usersBucket \<noteq> [] then Some UsUsersExist else None)
        (u\<lparr>u_Email := normalizeEmail lower (u_Email u), u_Scope := AdminScope\<rparr>) db)
      (create_spec now h (if Accounts st = Map.empty then None else Some UsUsersExist)
        (u\<lparr>u_Email := normalizeEmail lower (u_Email u), u_Scope := AdminScope\<rparr>) st)"
      by (rule create_follows [OF assms]) (simp add: no_users_iff [OF assms])
    with False show ?thesis by (simp add: CreateFirstAdmin_def)
  qed (simp add: CreateFirstAdmin_def us_follows_Inl)
  show "us_follows B (us_apply B lower now (Register h u) db) (us_spec lower now (Register h u) st)"
  proof (cases "u_Email u = []")
    case False
    let ?k = "normalizeEmail lower (u_Email u)"
    have "us_follows B (createWithGuard B now h (\<lambda>db. if b_get B db usersBucket ?k \<noteq> None then Some UsExists else None)
        (u\<lparr>u_Email := ?k\<rparr>) db)
      (create_spec now h (if Accounts st ?k = None then None else Some UsExists) (u\<lparr>u_Email := ?k\<rparr>) st)"
      by (rule create_follows [OF assms]) (simp add: us_is_gets [OF assms(2)])
    with False show ?thesis by (simp add: CreateUser_def Let_def)
  qed (simp add: CreateUser_def us_follows_Inl)
  show "us_follows B (us_apply B lower now (Save u) db) (us_spec lower now (Save u) st)"
    unfolding us_apply.simps us_spec.simps PutUser_def Let_def
    by (rule us_follows_transact [OF assms(1)]) (simp add: put_user_follows [OF assms])
qed

lemma change_ops_follow:
  assumes "bolt_ok B" "us_is B st db"
  shows "us_follows B (us_apply B lower now (SetScope email scope) db) (us_spec lower now (SetScope email scope) st)"
    and "us_follows B (us_apply B lower now (Disable email b) db) (us_spec lower now (Disable email b) st)"
    and "us_follows B (us_apply B lower now (Password email ph) db) (us_spec lower now (Password email ph) st)"
    and "us_follows B (us_apply B lower now (ResetTOTP email) db) (us_spec lower now (ResetTOTP email) st)"
proof -
  show "us_follows B (us_apply B lower now (SetScope email scope) db) (us_spec lower now (SetScope email scope) st)"
    unfolding us_apply.simps us_spec.simps UpdateUserScope_def Let_def put_user_drop_False [symmetric]
    by (rule us_follows_transact [OF assms(1)]) (rule change_follows [OF assms], simp)
  show "us_follows B (us_apply B lower now (Disable email b) db) (us_spec lower now (Disable email b) st)"
    unfolding us_apply.simps us_spec.simps SetUserDisabled_def Let_def
    by (rule us_follows_transact [OF assms(1)]) (rule change_follows [OF assms], simp)
  show "us_follows B (us_apply B lower now (Password email ph) db) (us_spec lower now (Password email ph) st)"
    unfolding us_apply.simps us_spec.simps SetUserPassword_def Let_def
    by (rule us_follows_transact [OF assms(1)]) (rule change_follows [OF assms], simp)
  show "us_follows B (us_apply B lower now (ResetTOTP email) db) (us_spec lower now (ResetTOTP email) st)"
    unfolding us_apply.simps us_spec.simps ClearTOTP_def Let_def
    by (rule us_follows_transact [OF assms(1)]) (rule change_follows [OF assms], simp)
qed

lemma RemoveUser_follows:
  assumes "bolt_ok B" "us_is B st db"
  shows "us_follows B (us_apply B lower now (Remove email) db) (us_spec lower now (Remove email) st)"
proof -
  let ?k = "normalizeEmail lower email"
  have "us_follows B (case b_delete B usersBucket ?k db of None \<Rightarrow> Inl UsTx | Some db1 \<Rightarrow> dropSessionsTx B ?k db1)
      (Inr (log_out ?k (st\<lparr>Accounts := (Accounts st)(?k := None)\<rparr>)))"
    using us_is_delete(2) [OF assms] log_out_follows [OF assms(1)]
    by (auto simp: us_follows_def split: option.split)
  then show ?thesis unfolding us_apply.simps us_spec.simps RemoveUser_def Let_def
    by (intro us_follows_transact [OF assms(1)]) (auto simp: us_is_gets [OF assms(2)] us_follows_Inl)
qed


lemma session_ops_follow:
  assumes "bolt_ok B" "us_is B st db"
  shows "us_follows B (us_apply B lower now (Login h email ttl) db) (us_spec lower now (Login h email ttl) st)"
    and "us_follows B (us_apply B lower now (Visit sid) db) (us_spec lower now (Visit sid) st)"
    and "us_follows B (us_apply B lower now (Touch sid ttl) db) (us_spec lower now (Touch sid ttl) st)"
    and "us_follows B (us_apply B lower now (Logout sid) db) (us_spec lower now (Logout sid) st)"
proof -
  show "us_follows B (us_apply B lower now (Login h email ttl) db) (us_spec lower now (Login h email ttl) st)"
  proof (cases h)
    case (Some x)
    show ?thesis unfolding Some us_apply.simps us_spec.simps CreateSession_def Let_def option.case
      by (intro us_follows_transact_ret [OF assms(1)], unfold just_db_case, rule us_follows_or)
         (rule us_is_put(2) [OF assms], simp_all)
  qed (simp add: CreateSession_def just_db_def us_follows_Inl)
  show "us_follows B (us_apply B lower now (Visit sid) db) (us_spec lower now (Visit sid) st)"
    unfolding us_apply.simps us_spec.simps LookupSession_def
  proof (rule us_follows_transact_ret [OF assms(1)], cases "Sessions st sid")
    case (Some s)
    then show "us_follows B (just_db (case b_get B db sessionsBucket sid of None \<Rightarrow> Inl UsNotFound
             | Some v \<Rightarrow> (case session_of v of None \<Rightarrow> Inl UsDecode
                  | Some s \<Rightarrow> (if now > se_Expiry s
                       then (case b_delete B sessionsBucket sid db of None \<Rightarrow> Inl UsTx | Some db1 \<Rightarrow> Inr (Inl UsExpired, db1))
                       else Inr (Inr s, db)))))
      (case Sessions st sid of None \<Rightarrow> Inl UsNotFound
       | Some s \<Rightarrow> Inr (if now > se_Expiry s then st\<lparr>Sessions := (Sessions st)(sid := None)\<rparr> else st))"
      using us_is_delete(1) [OF assms, of sid] assms(2)
      by (auto simp: us_is_gets [OF assms(2)] just_db_case us_follows_or us_follows_Inr)
         (simp_all add: just_db_def us_follows_Inr)
  qed (simp add: us_is_gets [OF assms(2)] just_db_def us_follows_Inl)
  show "us_follows B (us_apply B lower now (Touch sid ttl) db) (us_spec lower now (Touch sid ttl) st)"
    unfolding us_apply.simps us_spec.simps TouchSession_def
  proof (rule us_follows_transact [OF assms(1)], cases "Sessions st sid")
    case (Some s)
    have "us_is B (st\<lparr>Sessions := (Sessions st)(sid \<mapsto> s\<lparr>se_Expiry := now + ttl\<rparr>)\<rparr>) db1"
      if "b_put B sessionsBucket sid (SessionRow (s\<lparr>se_Expiry := now + ttl\<rparr>)) db = Some db1" for db1
      using us_is_put(2) [OF assms that] us_is_keys(2) [OF assms(2) Some] by simp
    with Some assms(2) show "us_follows B (case b_get B db sessionsBucket sid of None \<Rightarrow> Inr db
             | Some v \<Rightarrow> (case session_of v of None \<Rightarrow> Inr db
                  | Some s \<Rightarrow> (if \<not> now + ttl > se_Expiry s then Inr db
                       else or_err UsTx (b_put B sessionsBucket sid (SessionRow (s\<lparr>se_Expiry := now + ttl\<rparr>)) db))))
      (Inr (case Sessions st sid of None \<Rightarrow> st
          | Some s \<Rightarrow> if now + ttl > se_Expiry s then st\<lparr>Sessions := (Sessions st)(sid \<mapsto> s\<lparr>se_Expiry := now + ttl\<rparr>)\<rparr> else st))"
      by (auto simp: us_is_gets [OF assms(2)] us_follows_Inr intro: us_follows_or)
  qed (simp add: us_is_gets [OF assms(2)] us_follows_Inr assms(2))
  show "us_follows B (us_apply B lower now (Logout sid) db) (us_spec lower now (Logout sid) st)"
    unfolding us_apply.simps us_spec.simps DeleteSession_def
    by (rule us_follows_transact [OF assms(1)]) (rule us_follows_or, rule us_is_delete(1) [OF assms])
qed

lemma invite_ops_follow:
  assumes "bolt_ok B" "us_is B st db"
  shows "us_follows B (us_apply B lower now (Invite h email scope by ttl) db) (us_spec lower now (Invite h email scope by ttl) st)"
    and "us_follows B (us_apply B lower now (Revoke ch) db) (us_spec lower now (Revoke ch) st)"
proof -
  show "us_follows B (us_apply B lower now (Invite h email scope by ttl) db) (us_spec lower now (Invite h email scope by ttl) st)"
  proof (cases h)
    case (Some x)
    show ?thesis unfolding Some us_apply.simps us_spec.simps CreateInvite_def Let_def option.case
      by (intro us_follows_transact_ret [OF assms(1)], unfold just_db_case, rule us_follows_or)
         (use us_is_put(3) [OF assms] in simp)
  qed (simp add: CreateInvite_def just_db_def us_follows_Inl)
  show "us_follows B (us_apply B lower now (Revoke ch) db) (us_spec lower now (Revoke ch) st)"
    unfolding us_apply.simps us_spec.simps RevokeInvite_def
    by (rule us_follows_transact [OF assms(1)]) (rule us_follows_or, rule us_is_delete(3) [OF assms])
qed

lemma Redeem_follows:
  assumes "bolt_ok B" "us_is B st db"
  shows "us_follows B (us_apply B lower now (Redeem h code u) db) (us_spec lower now (Redeem h code u) st)"
proof (cases "with_handle h u")
  case (Inr u1)
  let ?ch = "hashCode code"
  show ?thesis
  proof (cases "Invites st ?ch")
    case None
    then show ?thesis unfolding us_apply.simps us_spec.simps RedeemInvite_def Inr sum.case
      by (intro us_follows_transact [OF assms(1)]) (simp add: us_is_gets [OF assms(2)] us_follows_Inl)
  next
    case (Some i)
    let ?u = "stamped now (u1\<lparr>u_Email := in_Email i, u_Scope := in_Scope i\<rparr>)"
    have u: "u1\<lparr>u_Email := in_Email i, u_Scope := in_Scope i, u_CreatedAt := (if u_CreatedAt u1 = 0 then now else u_CreatedAt u1),
        u_UpdatedAt := now\<rparr> = ?u" by (simp add: stamped_def)
    have em: "u_Email ?u = in_Email i" by (simp add: stamped_def)
    have ch: "in_CodeHash (i\<lparr>in_Used := True\<rparr>) = ?ch" using us_is_keys(3) [OF assms(2) Some] by simp
    have "us_follows B (case put_user B (in_Email i) ?u db of Inl e \<Rightarrow> Inl e
        | Inr db1 \<Rightarrow> or_err UsTx (b_put B invitesBucket ?ch (InviteRow (i\<lparr>in_Used := True\<rparr>)) db1))
      (Inr (st\<lparr>Accounts := (Accounts st)(in_Email i \<mapsto> ?u), Invites := (Invites st)(?ch \<mapsto> i\<lparr>in_Used := True\<rparr>)\<rparr>))"
    proof (rule us_follows_then [OF put_user_follows [OF assms em]], rule us_follows_or)
      fix db1 db2 assume "us_is B (st\<lparr>Accounts := (Accounts st)(in_Email i \<mapsto> ?u)\<rparr>) db1"
        "b_put B invitesBucket ?ch (InviteRow (i\<lparr>in_Used := True\<rparr>)) db1 = Some db2"
      from us_is_put(3) [OF assms(1) this ch]
      show "us_is B (st\<lparr>Accounts := (Accounts st)(in_Email i \<mapsto> ?u), Invites := (Invites st)(?ch \<mapsto> i\<lparr>in_Used := True\<rparr>)\<rparr>) db2"
        by simp
    qed
    then show ?thesis unfolding us_apply.simps us_spec.simps RedeemInvite_def Inr sum.case
      by (intro us_follows_transact [OF assms(1)])
         (simp add: us_is_gets [OF assms(2)] Some u em Let_def us_follows_Inl)
  qed
qed (simp add: RedeemInvite_def us_follows_Inl)

lemma Sweep_follows:
  assumes "bolt_ok B" "us_is B st db"
  shows "us_follows B (us_apply B lower now SweepSessions db) (us_spec lower now SweepSessions st)"
proof -
  let ?rows = "b_rows B db sessionsBucket"
  note mem = us_is_row_mem(2) [OF assms]
  have dec: "decode_all session_of ?rows = Some (map (\<lambda>(k, v). (k, the (session_of v))) ?rows)"
    by (rule decode_all_Some) (auto simp: mem)
  let ?dead = "map fst (filter (\<lambda>(k, s). now > se_Expiry s) (map (\<lambda>(k, v). (k, the (session_of v))) ?rows))"
  have dead: "k \<in> set ?dead \<longleftrightarrow> (\<exists>s. Sessions st k = Some s \<and> now > se_Expiry s)" for k
  proof
    assume "k \<in> set ?dead"
    then obtain v where "(k, v) \<in> set ?rows" "now > se_Expiry (the (session_of v))" by auto
    then show "\<exists>s. Sessions st k = Some s \<and> now > se_Expiry s" by (auto simp: mem)
  next
    assume "\<exists>s. Sessions st k = Some s \<and> now > se_Expiry s"
    then obtain s where "(k, SessionRow s) \<in> set ?rows" "now > se_Expiry s" by (auto simp: mem)
    then show "k \<in> set ?dead" by force
  qed
  have "(\<lambda>k. if k \<in> set ?dead then None else Sessions st k) =
      (\<lambda>k. case Sessions st k of None \<Rightarrow> None | Some s \<Rightarrow> if now > se_Expiry s then None else Some s)"
    unfolding dead by (auto simp: fun_eq_iff split: option.splits)
  moreover have "us_follows B (or_err UsTx (delete_rows B sessionsBucket ?dead db))
      (Inr (st\<lparr>Sessions := (\<lambda>k. if k \<in> set ?dead then None else Sessions st k)\<rparr>))"
    by (rule us_follows_or) (rule us_is_delete_rows(1) [OF assms])
  ultimately show ?thesis unfolding us_apply.simps us_spec.simps DeleteExpiredSessions_def
    by (intro us_follows_transact_ret [OF assms(1)]) (simp only: dec option.case Let_def just_db_case)
qed


lemma us_decoded:
  assumes "bolt_ok B" "us_is B st db"
  shows "\<exists>us. decode_all user_of (b_rows B db usersBucket) = Some us \<and> distinct (map fst us) \<and>
      (\<forall>k u. (k, u) \<in> set us \<longleftrightarrow> Accounts st k = Some u)"
    "\<exists>is. decode_all invite_of (b_rows B db invitesBucket) = Some is \<and> distinct (map fst is) \<and>
      (\<forall>k i. (k, i) \<in> set is \<longleftrightarrow> Invites st k = Some i)"
proof -
  note mem = us_is_row_mem [OF assms]
  note b = us_okD(1-3) [OF us_isD(1) [OF assms(2)]]
  have d: "distinct (map fst (map (\<lambda>(k, v). (k, f v)) (b_rows B db n)))" if "b_bucket B db n" for n and f :: "us_row \<Rightarrow> 'z"
    using kv_ok_distinct [OF bucket_rows(1) [OF assms(1) that]] by (simp add: case_prod_beta comp_def)
  show "\<exists>us. decode_all user_of (b_rows B db usersBucket) = Some us \<and> distinct (map fst us) \<and>
      (\<forall>k u. (k, u) \<in> set us \<longleftrightarrow> Accounts st k = Some u)"
  proof (intro exI conjI)
    show "decode_all user_of (b_rows B db usersBucket) = Some (map (\<lambda>(k, v). (k, the (user_of v))) (b_rows B db usersBucket))"
      by (rule decode_all_Some) (auto simp: mem(1))
    show "distinct (map fst (map (\<lambda>(k, v). (k, the (user_of v))) (b_rows B db usersBucket)))" by (rule d [OF b(1)])
    show "\<forall>k u. (k, u) \<in> set (map (\<lambda>(k, v). (k, the (user_of v))) (b_rows B db usersBucket)) \<longleftrightarrow> Accounts st k = Some u"
    proof (intro allI)
      fix k u
      have "(k, u) \<in> set (map (\<lambda>(k, v). (k, the (user_of v))) (b_rows B db usersBucket)) \<longleftrightarrow>
          (\<exists>v. (k, v) \<in> set (b_rows B db usersBucket) \<and> u = the (user_of v))" by force
      also have "\<dots> \<longleftrightarrow> Accounts st k = Some u" by (auto simp: mem(1))
      finally show "(k, u) \<in> set (map (\<lambda>(k, v). (k, the (user_of v))) (b_rows B db usersBucket)) \<longleftrightarrow> Accounts st k = Some u" .
    qed
  qed
  show "\<exists>is. decode_all invite_of (b_rows B db invitesBucket) = Some is \<and> distinct (map fst is) \<and>
      (\<forall>k i. (k, i) \<in> set is \<longleftrightarrow> Invites st k = Some i)"
  proof (intro exI conjI)
    show "decode_all invite_of (b_rows B db invitesBucket) = Some (map (\<lambda>(k, v). (k, the (invite_of v))) (b_rows B db invitesBucket))"
      by (rule decode_all_Some) (auto simp: mem(3))
    show "distinct (map fst (map (\<lambda>(k, v). (k, the (invite_of v))) (b_rows B db invitesBucket)))" by (rule d [OF b(3)])
    show "\<forall>k i. (k, i) \<in> set (map (\<lambda>(k, v). (k, the (invite_of v))) (b_rows B db invitesBucket)) \<longleftrightarrow> Invites st k = Some i"
    proof (intro allI)
      fix k i
      have "(k, i) \<in> set (map (\<lambda>(k, v). (k, the (invite_of v))) (b_rows B db invitesBucket)) \<longleftrightarrow>
          (\<exists>v. (k, v) \<in> set (b_rows B db invitesBucket) \<and> i = the (invite_of v))" by force
      also have "\<dots> \<longleftrightarrow> Invites st k = Some i" by (auto simp: mem(3))
      finally show "(k, i) \<in> set (map (\<lambda>(k, v). (k, the (invite_of v))) (b_rows B db invitesBucket)) \<longleftrightarrow> Invites st k = Some i" .
    qed
  qed
qed

lemma Rescope_follows:
  assumes "bolt_ok B" "us_is B st db"
  shows "us_follows B (us_apply B lower now (Rescope fn) db) (us_spec lower now (Rescope fn) st)"
proof -
  obtain us where us: "decode_all user_of (b_rows B db usersBucket) = Some us" "distinct (map fst us)"
    "\<And>k u. (k, u) \<in> set us \<longleftrightarrow> Accounts st k = Some u" using us_decoded(1) [OF assms] by blast
  let ?P = "\<lambda>u. fn (u_Scope u) \<noteq> u_Scope u" and ?Q = "\<lambda>i. fn (in_Scope i) \<noteq> in_Scope i"
  let ?rs = "\<lambda>i. i\<lparr>in_Scope := fn (in_Scope i)\<rparr>"
  let ?us = "map (\<lambda>(k, u). (k, rescope_user now fn u)) (filter (\<lambda>(k, u). ?P u) us)"
  let ?upd = "scope_updates u_Scope (\<lambda>sc u. UserRow (u\<lparr>u_Scope := sc, u_UpdatedAt := now\<rparr>)) fn us"
  have upd: "?upd = map (\<lambda>(k, u). (k, UserRow u)) ?us"
    by (auto simp: scope_updates_def rescope_user_def)
  have keys: "\<forall>(k, u)\<in>set ?us. u_Email u = k"
    using us(3) us_is_keys(1) [OF assms(2)] by (auto simp: rescope_user_def)
  have accounts: "Accounts st ++ map_of (rev ?us) = (\<lambda>k. map_option (rescope_user now fn) (Accounts st k))"
    by (rule map_add_updates [OF us(2,3)]) (simp add: rescope_user_def)
  let ?st1 = "st\<lparr>Accounts := (\<lambda>k. map_option (rescope_user now fn) (Accounts st k))\<rparr>"
  show ?thesis unfolding us_apply.simps us_spec.simps us_RewriteScopes_def
  proof (intro us_follows_transact_ret [OF assms(1)], unfold us(1) option.case Let_def)
    let ?rest = "\<lambda>db1. case decode_all invite_of (b_rows B db1 invitesBucket) of None \<Rightarrow> Inl UsDecode
        | Some is \<Rightarrow> (case put_rows B invitesBucket (scope_updates in_Scope (\<lambda>sc i. InviteRow (i\<lparr>in_Scope := sc\<rparr>)) fn is) db1 of
            None \<Rightarrow> Inl UsTx
          | Some db2 \<Rightarrow> Inr (length ?upd + length (scope_updates in_Scope (\<lambda>sc i. InviteRow (i\<lparr>in_Scope := sc\<rparr>)) fn is), db2))"
    let ?st2 = "st\<lparr>Accounts := (\<lambda>k. map_option (rescope_user now fn) (Accounts st k)),
             Invites := (\<lambda>k. map_option ?rs (Invites st k))\<rparr>"
    have rest: "us_follows B (just_db (?rest db1)) (Inr ?st2)" if db1: "us_is B ?st1 db1" for db1
    proof -
      obtain "is" where i: "decode_all invite_of (b_rows B db1 invitesBucket) = Some is" "distinct (map fst is)"
        "\<And>k i. (k, i) \<in> set is \<longleftrightarrow> Invites st k = Some i" using us_decoded(2) [OF assms(1) db1] by auto
      let ?is = "map (\<lambda>(k, i). (k, ?rs i)) (filter (\<lambda>(k, i). ?Q i) is)"
      have iupd: "scope_updates in_Scope (\<lambda>sc i. InviteRow (i\<lparr>in_Scope := sc\<rparr>)) fn is = map (\<lambda>(k, i). (k, InviteRow i)) ?is"
        by (auto simp: scope_updates_def)
      have ikeys: "\<forall>(k, x)\<in>set ?is. in_CodeHash x = k" using i(3) us_is_keys(3) [OF assms(2)] by auto
      have inv: "Invites st ++ map_of (rev ?is) = (\<lambda>k. map_option ?rs (Invites st k))"
        by (rule map_add_updates [OF i(2,3)]) simp
      have "us_follows B (or_err UsTx (put_rows B invitesBucket (map (\<lambda>(k, i). (k, InviteRow i)) ?is) db1)) (Inr ?st2)"
      proof (rule us_follows_or)
        fix db2 assume "put_rows B invitesBucket (map (\<lambda>(k, i). (k, InviteRow i)) ?is) db1 = Some db2"
        from us_is_put_invites [OF assms(1) db1 this ikeys] inv show "us_is B ?st2 db2" by simp
      qed
      then show ?thesis by (simp only: i(1) iupd option.case just_db_case)
    qed
    show "us_follows B (just_db (case put_rows B usersBucket ?upd db of None \<Rightarrow> Inl UsTx | Some db1 \<Rightarrow> ?rest db1)) (Inr ?st2)"
    proof (cases "put_rows B usersBucket ?upd db")
      case None
      then show ?thesis by (simp add: just_db_def us_follows_def)
    next
      case (Some db1)
      from us_is_put_users [OF assms Some [unfolded upd] keys] accounts have "us_is B ?st1 db1" by simp
      from rest [OF this] Some show ?thesis by simp
    qed
  qed
qed

lemma us_apply_follows:
  assumes "bolt_ok B" "us_is B st db"
  shows "us_follows B (us_apply B lower now op db) (us_spec lower now op st)"
proof (cases op)
  case (FirstAdmin h u)
  show ?thesis unfolding FirstAdmin by (rule admin_follows(1) [OF assms])
next
  case (Register h u)
  show ?thesis unfolding Register by (rule admin_follows(2) [OF assms])
next
  case (Save u)
  show ?thesis unfolding Save by (rule admin_follows(3) [OF assms])
next
  case (Login h e ttl)
  show ?thesis unfolding Login by (rule session_ops_follow(1) [OF assms])
next
  case (Visit sid)
  show ?thesis unfolding Visit by (rule session_ops_follow(2) [OF assms])
next
  case (Touch sid ttl)
  show ?thesis unfolding Touch by (rule session_ops_follow(3) [OF assms])
next
  case (Logout sid)
  show ?thesis unfolding Logout by (rule session_ops_follow(4) [OF assms])
next
  case SweepSessions
  show ?thesis unfolding SweepSessions by (rule Sweep_follows [OF assms])
next
  case (SetScope e sc)
  show ?thesis unfolding SetScope by (rule change_ops_follow(1) [OF assms])
next
  case (Remove e)
  show ?thesis unfolding Remove by (rule RemoveUser_follows [OF assms])
next
  case (Disable e b)
  show ?thesis unfolding Disable by (rule change_ops_follow(2) [OF assms])
next
  case (Password e p)
  show ?thesis unfolding Password by (rule change_ops_follow(3) [OF assms])
next
  case (ResetTOTP e)
  show ?thesis unfolding ResetTOTP by (rule change_ops_follow(4) [OF assms])
next
  case (Invite h e sc b ttl)
  show ?thesis unfolding Invite by (rule invite_ops_follow(1) [OF assms])
next
  case (Revoke ch)
  show ?thesis unfolding Revoke by (rule invite_ops_follow(2) [OF assms])
next
  case (Redeem h c u)
  show ?thesis unfolding Redeem by (rule Redeem_follows [OF assms])
next
  case (Rescope fn)
  show ?thesis unfolding Rescope by (rule Rescope_follows [OF assms])
qed


section \<open>Properties\<close>

lemma us_apply_Inr:
  assumes "bolt_ok B" "us_ok B db" "us_apply B lower now op db = Inr db'"
  shows "us_ok B db'" "us_spec lower now op (us_view B db) = Inr (us_view B db')"
proof -
  have "us_is B (us_view B db) db" using assms(2) by (simp add: us_is_def)
  from us_apply_follows [OF assms(1) this, of lower now op] assms(3)
  show "us_ok B db'" "us_spec lower now op (us_view B db) = Inr (us_view B db')"
    by (auto simp: us_follows_def us_is_def split: sum.splits)
qed

text \<open>
  C16: the user store is three maps, from emails to accounts, from cookies to sessions and from code
  hashes to invitations: every operation that changes it does to the maps what \<open>us_spec\<close> says, or
  fails with that error, or fails in the database and changes nothing.
\<close>

theorem users_refine_maps:
  assumes "bolt_ok B" "us_ok B db"
  shows "case us_apply B lower now op db of
      Inr db' \<Rightarrow> us_ok B db' \<and> us_spec lower now op (us_view B db) = Inr (us_view B db')
    | Inl e \<Rightarrow> e = UsTx \<or> us_spec lower now op (us_view B db) = Inl e"
proof -
  have "us_is B (us_view B db) db" using assms(2) by (simp add: us_is_def)
  from us_apply_follows [OF assms(1) this, of lower now op] show ?thesis
    by (auto simp: us_follows_def us_is_def split: sum.splits)
qed

text \<open>A history: each operation with its time; one that fails leaves the store as it was.\<close>

definition us_next :: "('db, us_row) bolt \<Rightarrow> (nat \<Rightarrow> nat) \<Rightarrow> int \<times> us_op \<Rightarrow> 'db \<Rightarrow> 'db" where
  "us_next B lower p db = (case us_apply B lower (fst p) (snd p) db of Inl e \<Rightarrow> db | Inr db1 \<Rightarrow> db1)"

definition us_run :: "('db, us_row) bolt \<Rightarrow> (nat \<Rightarrow> nat) \<Rightarrow> (int \<times> us_op) list \<Rightarrow> 'db \<Rightarrow> 'db" where
  "us_run B lower ops db = fold (us_next B lower) ops db"

definition spent :: "string \<Rightarrow> us_state \<Rightarrow> bool" where
  "spent ch st \<longleftrightarrow> (case Invites st ch of None \<Rightarrow> True | Some i \<Rightarrow> in_Used i)"

text \<open>No invitation is created under a code with the given hash.\<close>

definition not_invited :: "string \<Rightarrow> us_op \<Rightarrow> bool" where
  "not_invited ch op \<longleftrightarrow> (case op of Invite (Some c) _ _ _ _ \<Rightarrow> hashCode c \<noteq> ch | _ \<Rightarrow> True)"

lemma log_out_fields [simp]: "Invites (log_out k st) = Invites st" "Accounts (log_out k st) = Accounts st"
  by (simp_all add: log_out_def)

lemma change_spec_invites: "change_spec key f out st = Inr st' \<Longrightarrow> Invites st' = Invites st"
  by (auto simp: change_spec_def Let_def split: option.splits if_splits)

lemma create_spec_invites: "create_spec now h r u st = Inr st' \<Longrightarrow> Invites st' = Invites st"
  by (auto simp: create_spec_def split: option.splits sum.splits)

lemma spent_step:
  assumes "us_spec lower now op st = Inr st'" "not_invited ch op" "spent ch st"
  shows "spent ch st'"
proof (cases op)
  case (Redeem h c u)
  with assms show ?thesis by (auto simp: spent_def split: sum.splits option.splits if_splits)
next
  case (Rescope fn)
  with assms show ?thesis by (auto simp: spent_def split: option.splits)
next
  case (Invite h e s b ttl)
  with assms show ?thesis by (auto simp: spent_def not_invited_def split: option.splits)
next
  case (Revoke h)
  with assms show ?thesis by (auto simp: spent_def split: option.splits if_splits)
qed (use assms in \<open>auto simp: spent_def dest!: change_spec_invites create_spec_invites split: if_splits option.splits\<close>)

lemma us_run_spent:
  assumes "bolt_ok B"
  shows "us_ok B db \<Longrightarrow> spent ch (us_view B db) \<Longrightarrow> list_all (not_invited ch \<circ> snd) ops \<Longrightarrow>
    us_ok B (us_run B lower ops db) \<and> spent ch (us_view B (us_run B lower ops db))"
proof (induction ops arbitrary: db)
  case (Cons p ops)
  have "us_ok B (us_next B lower p db) \<and> spent ch (us_view B (us_next B lower p db))"
    using us_apply_Inr [OF assms Cons.prems(1), of lower "fst p" "snd p"] spent_step [of lower "fst p" "snd p"] Cons.prems
    by (auto simp: us_next_def split: sum.splits)
  with Cons.IH Cons.prems(3) show ?case by (simp add: us_run_def)
qed (simp add: us_run_def)

lemma redeem_spec_cases:
  assumes "us_spec lower now (Redeem h code u) st = Inr st'"
  obtains i u1 where "Invites st (hashCode code) = Some i" "\<not> in_Used i" "now \<le> in_Expiry i" "Accounts st (in_Email i) = None"
    "st' = st\<lparr>Accounts := (Accounts st)(in_Email i \<mapsto> stamped now (u1\<lparr>u_Email := in_Email i, u_Scope := in_Scope i\<rparr>)),
      Invites := (Invites st)(hashCode code \<mapsto> i\<lparr>in_Used := True\<rparr>)\<rparr>"
proof -
  from assms obtain u1 i where "with_handle h u = Inr u1" "Invites st (hashCode code) = Some i"
    by (auto split: sum.splits option.splits)
  with assms that show ?thesis by (auto split: if_splits)
qed

text \<open>
  C17: an invitation makes one account: once a code was redeemed, then whatever happens to the store
  (as long as no new invitation gets a code of the same hash), redeeming it again fails, for any
  account data and at any time.
\<close>

theorem invite_single_use:
  assumes "bolt_ok B" "us_ok B db" "us_apply B lower now (Redeem h code u) db = Inr db1"
    and "list_all (not_invited (hashCode code) \<circ> snd) ops"
  shows "isl (us_apply B lower now' (Redeem h' code u') (us_run B lower ops db1))"
proof -
  note r = us_apply_Inr [OF assms(1-3)]
  have "spent (hashCode code) (us_view B db1)"
    by (rule redeem_spec_cases [OF r(2)]) (simp add: spent_def)
  from us_run_spent [OF assms(1) r(1) this assms(4)] have
    ok: "us_ok B (us_run B lower ops db1)" and sp: "spent (hashCode code) (us_view B (us_run B lower ops db1))" by blast+
  show ?thesis
  proof (cases "us_apply B lower now' (Redeem h' code u') (us_run B lower ops db1)")
    case (Inr db2)
    from us_apply_Inr(2) [OF assms(1) ok Inr] have False
      by (rule redeem_spec_cases) (use sp in \<open>simp add: spent_def\<close>)
    then show ?thesis ..
  qed simp
qed

text \<open>
  who redeems an invitation gets exactly what the administrator invited: the account has the
  invitation's email and scope whatever the form said, no other account changes, and the email was free.
\<close>

theorem redeem_gives_invited:
  assumes "bolt_ok B" "us_ok B db" "us_apply B lower now (Redeem h code u) db = Inr db'"
  shows "\<exists>i a. Invites (us_view B db) (hashCode code) = Some i \<and> \<not> in_Used i \<and> now \<le> in_Expiry i \<and>
    Accounts (us_view B db) (in_Email i) = None \<and> u_Email a = in_Email i \<and> u_Scope a = in_Scope i \<and>
    Accounts (us_view B db') = (Accounts (us_view B db))(in_Email i \<mapsto> a) \<and> Sessions (us_view B db') = Sessions (us_view B db)"
proof -
  note s = us_apply_Inr(2) [OF assms]
  from s show ?thesis
  proof (rule redeem_spec_cases)
    fix i u1
    assume r: "Invites (us_view B db) (hashCode code) = Some i" "\<not> in_Used i" "now \<le> in_Expiry i"
      "Accounts (us_view B db) (in_Email i) = None"
      "us_view B db' = us_view B db\<lparr>Accounts := (Accounts (us_view B db))(in_Email i \<mapsto>
          stamped now (u1\<lparr>u_Email := in_Email i, u_Scope := in_Scope i\<rparr>)),
        Invites := (Invites (us_view B db))(hashCode code \<mapsto> i\<lparr>in_Used := True\<rparr>)\<rparr>"
    show ?thesis
      by (intro exI [of _ i] exI [of _ "stamped now (u1\<lparr>u_Email := in_Email i, u_Scope := in_Scope i\<rparr>)"])
         (simp add: r stamped_def)
  qed
qed

text \<open>The operations that lock an account out of its running sessions.\<close>

fun cuts_off :: "us_op \<Rightarrow> string option" where
  "cuts_off (Remove email) = Some email"
| "cuts_off (Disable email b) = (if b then Some email else None)"
| "cuts_off (Password email ph) = Some email"
| "cuts_off (ResetTOTP email) = Some email"
| "cuts_off op = None"

lemma cuts_off_sessions:
  assumes "cuts_off op = Some email" "us_spec lower now op st = Inr st'"
  shows "Sessions st' = Sessions (log_out (normalizeEmail lower email) st)"
  using assms by (cases op) (auto simp: change_spec_def log_out_def Let_def split: if_splits option.splits)

text \<open>
  C18: when an account is removed, disabled, or gets a new password or a cleared second factor, every
  browser session of it is gone with the same transaction: no cookie of the account resolves any more,
  and every other cookie resolves as before.
\<close>

theorem account_sessions_cut:
  assumes "bolt_ok B" "us_ok B db" "us_apply B lower now op db = Inr db'" "cuts_off op = Some email"
  shows "case Sessions (us_view B db) sid of
      None \<Rightarrow> LookupSession B now' sid db' \<in> {Inl UsNotFound, Inl UsTx}
    | Some s \<Rightarrow> (if se_Email s = normalizeEmail lower email then LookupSession B now' sid db' \<in> {Inl UsNotFound, Inl UsTx}
                else Sessions (us_view B db') sid = Some s)"
proof -
  note r = us_apply_Inr [OF assms(1-3)]
  have cut: "Sessions (us_view B db') sid = (case Sessions (us_view B db) sid of None \<Rightarrow> None
      | Some s \<Rightarrow> if se_Email s = normalizeEmail lower email then None else Some s)"
    using cuts_off_sessions [OF assms(4) r(2)] by (simp add: log_out_def)
  have gone: "LookupSession B now' sid db' \<in> {Inl UsNotFound, Inl UsTx}" if "Sessions (us_view B db') sid = None"
    using us_gets(2) [OF r(1), of sid] that by (simp add: LookupSession_def transact_ret_def)
  show ?thesis using cut gone by (auto split: option.split)
qed

text \<open>
  the first administrator is the first account: the operation succeeds only on a store without
  accounts, and then there is exactly that account, with the administrator's scope.
\<close>

theorem first_admin_unique:
  assumes "bolt_ok B" "us_ok B db" "us_apply B lower now (FirstAdmin h u) db = Inr db'"
  shows "\<exists>a. Accounts (us_view B db) = Map.empty \<and> Accounts (us_view B db') = [u_Email a \<mapsto> a] \<and>
    u_Email a = normalizeEmail lower (u_Email u) \<and> u_Scope a = AdminScope \<and> IsAdmin a"
proof -
  note s = us_apply_Inr(2) [OF assms]
  let ?u = "u\<lparr>u_Email := normalizeEmail lower (u_Email u), u_Scope := AdminScope\<rparr>"
  from s obtain u1 where w: "with_handle h ?u = Inr u1" "Accounts (us_view B db) = Map.empty"
    "us_view B db' = us_view B db\<lparr>Accounts := (Accounts (us_view B db))(u_Email u1 \<mapsto> stamped now u1)\<rparr>"
    by (auto simp: create_spec_def split: sum.splits option.splits if_splits)
  have f: "u_Email u1 = normalizeEmail lower (u_Email u)" "u_Scope u1 = AdminScope"
    using w(1) by (auto simp: with_handle_def split: if_splits option.splits)
  have "IsAdmin (stamped now u1)"
  proof -
    have "list_ex (\<lambda>raw. trim_space raw = AdminScope) (split_on (CHR '','') AdminScope)" by code_simp
    then show ?thesis by (simp add: IsAdmin_def stamped_def f(2))
  qed
  with w f show ?thesis by (intro exI [of _ "stamped now u1"]) (auto simp: stamped_def)
qed

section \<open>Instances\<close>

definition empty_users :: "us_row mem_db" where
  "empty_users = [(invitesBucket, []), (sessionsBucket, []), (usersBucket, [])]"

definition blank_user :: "string \<Rightarrow> user_record" where
  "blank_user email = \<lparr>u_Email = email, u_DisplayName = [], u_Handle = ''h'', u_PasswordHash = ''pw'', u_TOTPSecretEnc = [],
     u_Credentials = [], u_Scope = ''*:admin'', u_Disabled = False, u_CreatedAt = 0, u_UpdatedAt = 0\<rparr>"

lemma empty_users_ok: "us_ok mem_bolt empty_users"
proof -
  have "bget mem_bolt empty_users n k = None" for n k
    by (simp add: bget_bview mem_bolt_view empty_users_def)
  then show ?thesis by (simp add: us_ok_def b_bucket_bview mem_bolt_view empty_users_def)
qed

lemma demo_email: "normalizeEmail (\<lambda>c. c) ''a@x'' = ''a@x''"
proof -
  have "trimmed ''a@x''" by code_simp
  moreover have "go_ToLower (\<lambda>c. c) ''a@x'' = ''a@x''"
    by (simp add: go_ToLower_def runes_def rune_string_def encode_rune_def valid_rune_def char_of_def bit_iff_odd)
  ultimately show ?thesis by (simp add: normalizeEmail_def trim_space_trimmed)
qed

lemma demo_first_admin:
  obtains db where "us_apply mem_bolt (\<lambda>c. c) 7 (FirstAdmin None (blank_user ''a@x'')) empty_users = Inr db"
    "us_ok mem_bolt db"
proof -
  have "\<exists>db. us_apply mem_bolt (\<lambda>c. c) 7 (FirstAdmin None (blank_user ''a@x'')) empty_users = Inr db"
    by (simp add: CreateFirstAdmin_def createWithGuard_def with_handle_def blank_user_def transact_def put_user_def or_err_def
        Let_def mem_bolt_def empty_users_def)
  then obtain db where "us_apply mem_bolt (\<lambda>c. c) 7 (FirstAdmin None (blank_user ''a@x'')) empty_users = Inr db"
    by blast
  from that [OF this us_apply_Inr(1) [OF mem_bolt_ok empty_users_ok this]] show ?thesis .
qed

theorem users_refine_maps_witness:
  "case us_apply mem_bolt (\<lambda>c. c) 7 (FirstAdmin None (blank_user ''a@x'')) empty_users of
      Inr db' \<Rightarrow> us_ok mem_bolt db' \<and>
        us_spec (\<lambda>c. c) 7 (FirstAdmin None (blank_user ''a@x'')) (us_view mem_bolt empty_users) = Inr (us_view mem_bolt db')
    | Inl e \<Rightarrow> e = UsTx \<or> us_spec (\<lambda>c. c) 7 (FirstAdmin None (blank_user ''a@x'')) (us_view mem_bolt empty_users) = Inl e"
  by (rule users_refine_maps [OF mem_bolt_ok empty_users_ok])

theorem first_admin_unique_witness:
  "\<exists>db a. us_apply mem_bolt (\<lambda>c. c) 7 (FirstAdmin None (blank_user ''a@x'')) empty_users = Inr db \<and>
     Accounts (us_view mem_bolt db) = [u_Email a \<mapsto> a] \<and> IsAdmin a"
proof (rule demo_first_admin)
  fix db assume a: "us_apply mem_bolt (\<lambda>c. c) 7 (FirstAdmin None (blank_user ''a@x'')) empty_users = Inr db"
  from first_admin_unique [OF mem_bolt_ok empty_users_ok this] a show ?thesis by blast
qed

lemma demo_invited:
  obtains db db1 where "us_apply mem_bolt (\<lambda>c. c) 1 (Invite (Some ''k'') ''b@x'' ''namespace:docs'' ''a@x'' 5) empty_users = Inr db"
    "us_ok mem_bolt db" "us_apply mem_bolt (\<lambda>c. c) 2 (Redeem None ''k'' (blank_user [])) db = Inr db1"
proof -
  let ?op = "Invite (Some ''k'') ''b@x'' ''namespace:docs'' ''a@x'' 5"
  let ?i = "\<lparr>in_CodeHash = hashCode ''k'', in_Email = normalizeEmail (\<lambda>c. c) ''b@x'', in_Scope = ''namespace:docs'',
      in_Expiry = 6, in_Used = False, in_CreatedBy = normalizeEmail (\<lambda>c. c) ''a@x'', in_CreatedAt = 1\<rparr>"
  have "\<exists>db. us_apply mem_bolt (\<lambda>c. c) 1 ?op empty_users = Inr db"
    by (simp add: CreateInvite_def transact_ret_def just_db_def mem_bolt_def empty_users_def Let_def)
  then obtain db where db: "us_apply mem_bolt (\<lambda>c. c) 1 ?op empty_users = Inr db" by blast
  note r = us_apply_Inr [OF mem_bolt_ok empty_users_ok db]
  have none: "Accounts (us_view mem_bolt empty_users) = Map.empty"
    by (auto simp: us_view_def bget_bview mem_bolt_view empty_users_def fun_eq_iff)
  from r(2) have v: "us_view mem_bolt db = us_view mem_bolt empty_users\<lparr>Invites :=
      (Invites (us_view mem_bolt empty_users))(hashCode ''k'' \<mapsto> ?i)\<rparr>" by simp
  have works: "us_apply mem_bolt (\<lambda>c. c) now (Redeem None ''k'' (blank_user [])) db \<noteq> Inl UsTx" for now
    using us_okD(1-3) [OF r(1)] 
    by (auto simp: RedeemInvite_def transact_def with_handle_def blank_user_def put_user_def or_err_def Let_def mem_bolt_def
        invite_of_def split: option.splits if_splits us_row.splits)
  have sp: "\<not> isl (us_spec (\<lambda>c. c) 2 (Redeem None ''k'' (blank_user [])) (us_view mem_bolt db))"
    using none by (simp add: v with_handle_def blank_user_def)
  have "\<exists>db1. us_apply mem_bolt (\<lambda>c. c) 2 (Redeem None ''k'' (blank_user [])) db = Inr db1"
    using us_apply_follows [OF mem_bolt_ok, of "us_view mem_bolt db" db "\<lambda>c. c" 2 "Redeem None ''k'' (blank_user [])"] r(1) works [of 2] sp
    by (auto simp: us_is_def us_follows_def split: sum.splits)
  with that db r(1) show ?thesis by blast
qed

theorem invite_single_use_witness:
  "\<exists>db db1. us_apply mem_bolt (\<lambda>c. c) 2 (Redeem None ''k'' (blank_user [])) db = Inr db1 \<and>
     isl (us_apply mem_bolt (\<lambda>c. c) 3 (Redeem None ''k'' (blank_user [])) (us_run mem_bolt (\<lambda>c. c) [(2, Revoke ''z'')] db1))"
proof (rule demo_invited)
  fix db db1 assume a: "us_ok mem_bolt db" "us_apply mem_bolt (\<lambda>c. c) 2 (Redeem None ''k'' (blank_user [])) db = Inr db1"
  have "list_all (not_invited (hashCode ''k'') \<circ> snd) [(2 :: int, Revoke ''z'')]" by (simp add: not_invited_def)
  from invite_single_use [OF mem_bolt_ok a this] a(2) show ?thesis by blast
qed

theorem redeem_gives_invited_witness:
  "\<exists>db db1 (i :: invite) a. us_apply mem_bolt (\<lambda>c. c) 2 (Redeem None ''k'' (blank_user [])) db = Inr db1 \<and>
     Accounts (us_view mem_bolt db1) = (Accounts (us_view mem_bolt db))(in_Email i \<mapsto> a) \<and> u_Scope a = in_Scope i"
proof (rule demo_invited)
  fix db db1 assume a: "us_ok mem_bolt db" "us_apply mem_bolt (\<lambda>c. c) 2 (Redeem None ''k'' (blank_user [])) db = Inr db1"
  from redeem_gives_invited [OF mem_bolt_ok a]
  have "\<exists>(i :: invite) x. Accounts (us_view mem_bolt db1) = (Accounts (us_view mem_bolt db))(in_Email i \<mapsto> x) \<and> u_Scope x = in_Scope i"
    by (elim ex_forward) simp
  with a(2) show ?thesis by (intro exI [of _ db] exI [of _ db1]) simp
qed

theorem account_sessions_cut_witness:
  "\<exists>db db'. us_apply mem_bolt (\<lambda>c. c) 9 (Remove ''a@x'') db = Inr db' \<and>
     LookupSession mem_bolt 9 ''s1'' db' \<in> {Inl UsNotFound, Inl UsTx}"
proof -
  let ?db = "[(invitesBucket, []), (sessionsBucket, [(''s1'', SessionRow \<lparr>se_ID = ''s1'', se_Email = ''a@x'', se_IssuedAt = 1, se_Expiry = 100\<rparr>)]),
    (usersBucket, [(''a@x'', UserRow (blank_user ''a@x''))])]"
  have ok: "us_ok mem_bolt ?db"
    by (auto simp: us_ok_def b_bucket_bview bget_bview mem_bolt_view blank_user_def split: if_splits)
  have s: "Sessions (us_view mem_bolt ?db) ''s1'' = Some \<lparr>se_ID = ''s1'', se_Email = ''a@x'', se_IssuedAt = 1, se_Expiry = 100\<rparr>"
    by (simp add: us_view_def bget_bview mem_bolt_view)
  note n = demo_email
  have "\<exists>db'. us_apply mem_bolt (\<lambda>c. c) 9 (Remove ''a@x'') ?db = Inr db'"
    by (simp add: RemoveUser_def n transact_def dropSessionsTx_def or_err_def session_of_def kv_del_def Let_def mem_bolt_def
        usersBucket_def sessionsBucket_def invitesBucket_def)
  then obtain db' where d: "us_apply mem_bolt (\<lambda>c. c) 9 (Remove ''a@x'') ?db = Inr db'" by blast
  have "cuts_off (Remove ''a@x'') = Some ''a@x''" by simp
  from account_sessions_cut [OF mem_bolt_ok ok d this, of 9 "''s1''"] s n d show ?thesis by auto
qed

end
