(* ===== verification/Scope_Clean.thy ===== *)
theory Scope_Clean
  imports Authz User_Store OAuth_Tokens
begin

text \<open>
  Package \<open>scopeclean\<close> (\<open>internal/scopeclean/scopeclean.go\<close>): what the management of namespaces and
  projects does to the authorization scopes that are kept in the user store and in the optional token
  store.  Each store rewrites its scopes in a transaction of its own, the user store first, and a
  store that fails stops the cleaner there; so the contract of one store, and of the cleaner itself,
  is that of \<open>scope_rewriter\<close>: an attempt that reports success has rewritten every scope, one that
  reports an error has rewritten some.
\<close>

datatype clean_err = CleanUsers us_err | CleanTokens os_err

text \<open>\<open>New\<close>: the stores there are.\<close>

record ('u, 'o) auth_stores =
  as_users :: "'u option"
  as_tokens :: "'o option"

definition rewrite_users ::
    "('u, us_row) bolt \<Rightarrow> int \<Rightarrow> (string \<Rightarrow> string) \<Rightarrow> ('u, 'o) auth_stores \<Rightarrow> clean_err option \<times> ('u, 'o) auth_stores" where
  "rewrite_users U now fn a =
     (case as_users a of
        None \<Rightarrow> (None, a)
      | Some db \<Rightarrow>
          (case us_RewriteScopes U now fn db of
             Inl e \<Rightarrow> (Some (CleanUsers e), a) | Inr (n, db1) \<Rightarrow> (None, a\<lparr>as_users := Some db1\<rparr>)))"

definition rewrite_series ::
    "('o, os_row) bolt \<Rightarrow> (string \<Rightarrow> string) \<Rightarrow> ('u, 'o) auth_stores \<Rightarrow> clean_err option \<times> ('u, 'o) auth_stores" where
  "rewrite_series T fn a =
     (case as_tokens a of
        None \<Rightarrow> (None, a)
      | Some db \<Rightarrow>
          (case os_RewriteScopes T fn db of
             Inl e \<Rightarrow> (Some (CleanTokens e), a) | Inr (n, db1) \<Rightarrow> (None, a\<lparr>as_tokens := Some db1\<rparr>)))"

text \<open>\<open>rewrite\<close>: the stores in order, up to the first that fails.\<close>

definition rewrite_stores ::
    "('u, us_row) bolt \<Rightarrow> ('o, os_row) bolt \<Rightarrow> int \<Rightarrow> (string \<Rightarrow> string) \<Rightarrow> ('u, 'o) auth_stores \<Rightarrow>
     clean_err option \<times> ('u, 'o) auth_stores" where
  "rewrite_stores U T now fn a =
     (case rewrite_users U now fn a of (Some e, a1) \<Rightarrow> (Some e, a1) | (None, a1) \<Rightarrow> rewrite_series T fn a1)"

definition PurgeNamespace ::
    "('u, us_row) bolt \<Rightarrow> ('o, os_row) bolt \<Rightarrow> int \<Rightarrow> string \<Rightarrow> ('u, 'o) auth_stores \<Rightarrow>
     clean_err option \<times> ('u, 'o) auth_stores" where
  "PurgeNamespace U T now ns = rewrite_stores U T now (\<lambda>scope. fst (PruneNamespaceGrants scope ns))"

definition PurgeProject ::
    "('u, us_row) bolt \<Rightarrow> ('o, os_row) bolt \<Rightarrow> int \<Rightarrow> string \<Rightarrow> string \<Rightarrow> ('u, 'o) auth_stores \<Rightarrow>
     clean_err option \<times> ('u, 'o) auth_stores" where
  "PurgeProject U T now ns proj = rewrite_stores U T now (\<lambda>scope. fst (PruneProjectGrants scope ns proj))"

definition RewriteProject ::
    "('u, us_row) bolt \<Rightarrow> ('o, os_row) bolt \<Rightarrow> int \<Rightarrow> string \<Rightarrow> string \<Rightarrow> string \<Rightarrow> string \<Rightarrow> ('u, 'o) auth_stores \<Rightarrow>
     clean_err option \<times> ('u, 'o) auth_stores" where
  "RewriteProject U T now oldNs oldProj newNs newProj =
     rewrite_stores U T now (\<lambda>scope. fst (RewriteProjectGrants scope oldNs oldProj newNs newProj))"

definition RewriteNamespace ::
    "('u, us_row) bolt \<Rightarrow> ('o, os_row) bolt \<Rightarrow> int \<Rightarrow> string \<Rightarrow> string \<Rightarrow> ('u, 'o) auth_stores \<Rightarrow>
     clean_err option \<times> ('u, 'o) auth_stores" where
  "RewriteNamespace U T now old new = rewrite_stores U T now (\<lambda>scope. fst (RewriteNamespaceGrants scope old new))"

section \<open>The scopes that are kept\<close>

datatype scope_holder = Account string | Invited string | Token string

definition user_scope :: "('u, us_row) bolt \<Rightarrow> 'u \<Rightarrow> scope_holder \<Rightarrow> string option" where
  "user_scope U db h =
     (case h of
        Account k \<Rightarrow> map_option u_Scope (Accounts (us_view U db) k)
      | Invited k \<Rightarrow> map_option in_Scope (Invites (us_view U db) k)
      | Token k \<Rightarrow> None)"

definition token_scope :: "('o, os_row) bolt \<Rightarrow> 'o \<Rightarrow> scope_holder \<Rightarrow> string option" where
  "token_scope T db h = (case h of Token k \<Rightarrow> map_option sr_Scope (v_series (bget T db) k) | _ \<Rightarrow> None)"

definition held :: "('u, us_row) bolt \<Rightarrow> ('o, os_row) bolt \<Rightarrow> ('u, 'o) auth_stores \<Rightarrow> scope_holder \<Rightarrow> string option" where
  "held U T a h =
     (case h of
        Token k \<Rightarrow> Option.bind (as_tokens a) (\<lambda>db. token_scope T db h)
      | _ \<Rightarrow> Option.bind (as_users a) (\<lambda>db. user_scope U db h))"

definition auth_ok :: "('u, us_row) bolt \<Rightarrow> ('o, os_row) bolt \<Rightarrow> ('u, 'o) auth_stores \<Rightarrow> bool" where
  "auth_ok U T a \<longleftrightarrow>
     bolt_ok U \<and> bolt_ok T \<and> (\<forall>db. as_users a = Some db \<longrightarrow> us_ok U db) \<and> (\<forall>db. as_tokens a = Some db \<longrightarrow> os_ok T db)"

section \<open>The contract\<close>

text \<open>Attempts to do the same rewrite, each with its own time and faults.\<close>

definition attempts :: "('c \<Rightarrow> (string \<Rightarrow> string) \<Rightarrow> 'db \<Rightarrow> 'e option \<times> 'db) \<Rightarrow> 'c list \<Rightarrow> (string \<Rightarrow> string) \<Rightarrow> 'db \<Rightarrow> 'db" where
  "attempts rewrite cs fn db = fold (\<lambda>c db. snd (rewrite c fn db)) cs db"

locale scope_rewriter =
  fixes rewrite :: "'c \<Rightarrow> (string \<Rightarrow> string) \<Rightarrow> 'db \<Rightarrow> 'e option \<times> 'db"
    and ok :: "'db \<Rightarrow> bool"
    and scopes :: "'db \<Rightarrow> scope_holder \<Rightarrow> string option"
  assumes keeps: "ok db \<Longrightarrow> ok (snd (rewrite c fn db))"
    and complete: "ok db \<Longrightarrow> fst (rewrite c fn db) = None \<Longrightarrow> scopes (snd (rewrite c fn db)) h = map_option fn (scopes db h)"
    and partial: "ok db \<Longrightarrow> scopes (snd (rewrite c fn db)) h \<in> {scopes db h, map_option fn (scopes db h)}"
begin

lemma attempts_partial:
  assumes "\<And>s. fn (fn s) = fn s"
  shows "ok db \<Longrightarrow> ok (attempts rewrite cs fn db) \<and> scopes (attempts rewrite cs fn db) h \<in> {scopes db h, map_option fn (scopes db h)}"
proof (induction cs arbitrary: db)
  case (Cons c cs)
  have twice: "map_option fn (map_option fn x) = map_option fn x" for x by (cases x) (simp_all add: assms)
  from Cons.IH [OF keeps [OF Cons.prems], of c fn] partial [OF Cons.prems, of c fn h] twice
  show ?case by (auto simp: attempts_def)
qed (simp add: attempts_def)

text \<open>However many attempts failed before: the first that succeeds has rewritten every scope, once.\<close>

lemma retried:
  assumes "\<And>s. fn (fn s) = fn s" "ok db" "fst (rewrite c fn (attempts rewrite cs fn db)) = None"
  shows "ok (snd (rewrite c fn (attempts rewrite cs fn db)))"
    "scopes (snd (rewrite c fn (attempts rewrite cs fn db))) h = map_option fn (scopes db h)"
proof -
  note p = attempts_partial [where cs = cs, OF assms(1,2)]
  have twice: "map_option fn (map_option fn x) = map_option fn x" for x by (cases x) (simp_all add: assms)
  show "ok (snd (rewrite c fn (attempts rewrite cs fn db)))" using p keeps by blast
  show "scopes (snd (rewrite c fn (attempts rewrite cs fn db))) h = map_option fn (scopes db h)"
    using complete [OF _ assms(3), of h] p [of h] twice by auto
qed

end

section \<open>The stores and the cleaner meet it\<close>

lemma user_scopes_rewritten:
  assumes "bolt_ok U" "us_ok U db" "us_RewriteScopes U now fn db = Inr (n, db1)"
  shows "us_ok U db1" "user_scope U db1 h = map_option fn (user_scope U db h)"
proof -
  have "us_apply U (\<lambda>c. c) now (us_op.Rescope fn) db = Inr db1" using assms(3) by (simp add: just_db_def)
  note r = us_apply_Inr [OF assms(1,2) this]
  show "us_ok U db1" by (rule r(1))
  have "u_Scope (rescope_user now fn u) = fn (u_Scope u)" for u by (simp add: rescope_user_def)
  then show "user_scope U db1 h = map_option fn (user_scope U db h)"
    using r(2) [symmetric] by (cases h) (auto simp: user_scope_def option.map_comp comp_def)
qed

lemma token_scopes_rewritten:
  assumes "bolt_ok T" "os_ok T db" "os_RewriteScopes T fn db = Inr (n, db1)"
  shows "os_ok T db1" "token_scope T db1 h = map_option fn (token_scope T db h)" "bget T db1 = m_rescope fn (bget T db)"
proof -
  have "os_apply T V 0 (os_op.Rescope fn) db = Inr db1" for V using assms(3) by (simp add: just_db_def)
  from os_apply_Inr [OF assms(1,2) this] have r: "os_ok T db1" "bget T db1 = m_rescope fn (bget T db)" by auto
  then show "os_ok T db1" "bget T db1 = m_rescope fn (bget T db)" by auto
  show "token_scope T db1 h = map_option fn (token_scope T db h)"
    by (cases h) (simp_all add: token_scope_def r(2) views_rescope option.map_comp comp_def)
qed


lemma rewrite_users_cases:
  assumes "auth_ok U T a"
  shows "auth_ok U T (snd (rewrite_users U now fn a))" "as_tokens (snd (rewrite_users U now fn a)) = as_tokens a"
    "fst (rewrite_users U now fn a) = None \<Longrightarrow> (\<forall>k. h \<noteq> Token k) \<Longrightarrow> held U T (snd (rewrite_users U now fn a)) h = map_option fn (held U T a h)"
    "fst (rewrite_users U now fn a) \<noteq> None \<Longrightarrow> snd (rewrite_users U now fn a) = a"
  using assms user_scopes_rewritten(1) [of U]
  by (auto simp: rewrite_users_def auth_ok_def held_def user_scopes_rewritten(2) split: option.splits sum.splits scope_holder.splits)

lemma rewrite_series_cases:
  assumes "auth_ok U T a"
  shows "auth_ok U T (snd (rewrite_series T fn a))" "as_users (snd (rewrite_series T fn a)) = as_users a"
    "fst (rewrite_series T fn a) = None \<Longrightarrow> held U T (snd (rewrite_series T fn a)) (Token k) = map_option fn (held U T a (Token k))"
    "fst (rewrite_series T fn a) \<noteq> None \<Longrightarrow> snd (rewrite_series T fn a) = a"
  using assms token_scopes_rewritten(1) [of T]
  by (auto simp: rewrite_series_def auth_ok_def held_def token_scopes_rewritten(2) split: option.splits sum.splits)

lemma held_same:
  "as_users a' = as_users a \<Longrightarrow> (\<forall>k. h \<noteq> Token k) \<Longrightarrow> held U T a' h = held U T a h"
  "as_tokens a' = as_tokens a \<Longrightarrow> held U T a' (Token k) = held U T a (Token k)"
  by (auto simp: held_def split: scope_holder.splits)

lemma auth_ok_faulty: "auth_ok (faulty f U) (faulty g T) a \<longleftrightarrow> auth_ok U T a" if "bolt_ok U" "bolt_ok T"
  using that by (simp add: auth_ok_def faulty_ok us_ok_def os_ok_def)

lemma us_view_faulty [simp]: "us_view (faulty f U) = us_view U"
  by (simp add: us_view_def fun_eq_iff)

lemma held_faulty [simp]: "held (faulty f U) (faulty g T) = held U T"
  by (intro ext) (simp add: held_def user_scope_def token_scope_def split: scope_holder.split)

lemma rewrite_stores_cases:
  assumes "auth_ok U T a"
  shows "auth_ok U T (snd (rewrite_stores U T now fn a))"
    "fst (rewrite_stores U T now fn a) = None \<Longrightarrow> held U T (snd (rewrite_stores U T now fn a)) h = map_option fn (held U T a h)"
    "held U T (snd (rewrite_stores U T now fn a)) h \<in> {held U T a h, map_option fn (held U T a h)}"
proof -
  let ?a1 = "snd (rewrite_users U now fn a)"
  note u = rewrite_users_cases [OF assms, where now = now and fn = fn]
  note s = rewrite_series_cases [OF u(1), of fn]
  have eq: "rewrite_stores U T now fn a =
      (if fst (rewrite_users U now fn a) = None then rewrite_series T fn ?a1 else rewrite_users U now fn a)"
    by (auto simp: rewrite_stores_def split: prod.split option.split)
  show "auth_ok U T (snd (rewrite_stores U T now fn a))" by (simp add: eq s(1) u(1))
  show all: "held U T (snd (rewrite_stores U T now fn a)) h = map_option fn (held U T a h)" if "fst (rewrite_stores U T now fn a) = None"
  proof -
    have f: "fst (rewrite_users U now fn a) = None" and g: "fst (rewrite_series T fn ?a1) = None"
      using that by (auto simp: eq split: if_splits)
    show ?thesis
    proof (cases "\<exists>k. h = Token k")
      case True
      then show ?thesis using s(3) [OF g] held_same(2) [OF u(2)] by (auto simp: eq f)
    next
      case False
      then show ?thesis using u(3) [OF f] held_same(1) [OF s(2)] by (simp add: eq f)
    qed
  qed
  show "held U T (snd (rewrite_stores U T now fn a)) h \<in> {held U T a h, map_option fn (held U T a h)}"
  proof (cases "fst (rewrite_stores U T now fn a)")
    case None
    with all show ?thesis by simp
  next
    case (Some e)
    show ?thesis
    proof (cases "fst (rewrite_users U now fn a) = None")
      case True
      then have "snd (rewrite_stores U T now fn a) = ?a1" using Some s(4) by (simp add: eq)
      moreover have "held U T ?a1 h \<in> {held U T a h, map_option fn (held U T a h)}"
        using u(3) [OF True] held_same(2) [OF u(2)] by (cases "\<exists>k. h = Token k") auto
      ultimately show ?thesis by simp
    next
      case False
      then have "snd (rewrite_stores U T now fn a) = a" using u(4) by (auto simp: eq)
      then show ?thesis by simp
    qed
  qed
qed

text \<open>One attempt: its time, and whether the commit of each store fails in it.\<close>

type_synonym attempt = "int \<times> bool \<times> bool"

definition try_rewrite ::
    "('u, us_row) bolt \<Rightarrow> ('o, os_row) bolt \<Rightarrow> attempt \<Rightarrow> (string \<Rightarrow> string) \<Rightarrow> ('u, 'o) auth_stores \<Rightarrow>
     clean_err option \<times> ('u, 'o) auth_stores" where
  "try_rewrite U T c = (case c of (now, f, g) \<Rightarrow> rewrite_stores (faulty f U) (faulty g T) now)"

interpretation cleaner: scope_rewriter "try_rewrite U T" "auth_ok U T" "held U T"
  for U :: "('u, us_row) bolt" and T :: "('o, os_row) bolt"
proof unfold_locales
  fix db :: "('u, 'o) auth_stores" and c :: attempt and fn h
  assume ok: "auth_ok U T db"
  obtain now f g where c: "c = (now, f, g)" by (cases c) auto
  from ok have b: "bolt_ok U" "bolt_ok T" by (simp_all add: auth_ok_def)
  from ok have ok': "auth_ok (faulty f U) (faulty g T) db" by (simp add: auth_ok_faulty b)
  note r = rewrite_stores_cases [OF ok', of now fn, unfolded held_faulty auth_ok_faulty [OF b]]
  show "auth_ok U T (snd (try_rewrite U T c fn db))" using r(1) by (simp add: try_rewrite_def c)
  show "fst (try_rewrite U T c fn db) = None \<Longrightarrow> held U T (snd (try_rewrite U T c fn db)) h = map_option fn (held U T db h)"
    using r(2) by (simp add: try_rewrite_def c)
  show "held U T (snd (try_rewrite U T c fn db)) h \<in> {held U T db h, map_option fn (held U T db h)}"
    using r(3) by (simp add: try_rewrite_def c)
qed

interpretation users: scope_rewriter "\<lambda>(now, f) fn db. case us_RewriteScopes (faulty f U) now fn db of Inl e \<Rightarrow> (Some e, db) | Inr (n, db1) \<Rightarrow> (None, db1)"
    "\<lambda>db. bolt_ok U \<and> us_ok U db" "user_scope U" for U :: "('u, us_row) bolt"
proof unfold_locales
  fix db :: 'u and c :: "int \<times> bool" and fn h
  assume ok: "bolt_ok U \<and> us_ok U db"
  obtain now f where c: "c = (now, f)" by fastforce
  have ok': "bolt_ok (faulty f U)" "us_ok (faulty f U) db" using ok by (simp_all add: faulty_ok us_ok_def)
  have view: "us_ok (faulty f U) = us_ok U" "user_scope (faulty f U) = user_scope U"
    by (intro ext; simp add: us_ok_def user_scope_def split: scope_holder.split)+
  note r = user_scopes_rewritten [OF ok', of now fn, unfolded view]
  let ?r = "case c of (now, f) \<Rightarrow> \<lambda>fn db. case us_RewriteScopes (faulty f U) now fn db of Inl e \<Rightarrow> (Some e, db) | Inr (n, db1) \<Rightarrow> (None, db1)"
  show "bolt_ok U \<and> us_ok U (snd (?r fn db))" using ok r(1) by (auto simp: c split: sum.split)
  show "fst (?r fn db) = None \<Longrightarrow> user_scope U (snd (?r fn db)) h = map_option fn (user_scope U db h)"
    using r(2) by (auto simp: c split: sum.splits)
  show "user_scope U (snd (?r fn db)) h \<in> {user_scope U db h, map_option fn (user_scope U db h)}"
    using r(2) by (auto simp: c split: sum.splits)
qed


section \<open>Doing it twice is doing it once\<close>

lemma prune_twice:
  assumes "\<not> d zero_grant"
  shows "fst (pruneScope (fst (pruneScope s d)) d) = fst (pruneScope s d)"
proof -
  have "\<forall>t\<in>set (scope_tokens (fst (pruneScope s d))). \<not> d (parseGrant t)"
    using assms by (auto simp: pruneScope_tokens parseGrant_NoAccess)
  then show ?thesis by (simp add: pruneScope_no_hit)
qed

lemma rewrite_twice:
  assumes "\<And>t. t \<in> set (scope_tokens s) \<Longrightarrow> hit (parseGrant t) \<Longrightarrow>
      ok_token (rb t (parseGrant t)) \<and> \<not> hit (parseGrant (rb t (parseGrant t)))"
  shows "fst (rewrite_scope hit rb (fst (rewrite_scope hit rb s))) = fst (rewrite_scope hit rb s)"
proof -
  have "scope_tokens (fst (rewrite_scope hit rb s)) =
      map (\<lambda>t. if hit (parseGrant t) then rb t (parseGrant t) else t) (scope_tokens s)"
    unfolding rewrite_scope_tokens using assms by (intro concat_rebuilt) auto
  with assms have "\<forall>t\<in>set (scope_tokens (fst (rewrite_scope hit rb s))). \<not> hit (parseGrant t)" by auto
  then show ?thesis by (simp add: rewrite_scope_no_hit)
qed

lemma edits_twice:
  shows "ns \<noteq> [] \<Longrightarrow> fst (PruneNamespaceGrants (fst (PruneNamespaceGrants s ns)) ns) = fst (PruneNamespaceGrants s ns)"
    and "ns \<noteq> [] \<Longrightarrow> fst (PruneProjectGrants (fst (PruneProjectGrants s ns pr)) ns pr) = fst (PruneProjectGrants s ns pr)"
    and "ns \<noteq> [] \<Longrightarrow> pr \<noteq> [] \<Longrightarrow> IsValidName ns' \<Longrightarrow> IsValidName pr' \<Longrightarrow> (ns', pr') \<noteq> (ns, pr) \<Longrightarrow>
      fst (RewriteProjectGrants (fst (RewriteProjectGrants s ns pr ns' pr')) ns pr ns' pr') = fst (RewriteProjectGrants s ns pr ns' pr')"
    and "ns \<noteq> [] \<Longrightarrow> ns \<notin> set perm_words \<Longrightarrow> IsValidName ns' \<Longrightarrow> ns' \<noteq> ns \<Longrightarrow>
      fst (RewriteNamespaceGrants (fst (RewriteNamespaceGrants s ns ns')) ns ns') = fst (RewriteNamespaceGrants s ns ns')"
proof -
  show "ns \<noteq> [] \<Longrightarrow> fst (PruneNamespaceGrants (fst (PruneNamespaceGrants s ns)) ns) = fst (PruneNamespaceGrants s ns)"
    "ns \<noteq> [] \<Longrightarrow> fst (PruneProjectGrants (fst (PruneProjectGrants s ns pr)) ns pr) = fst (PruneProjectGrants s ns pr)"
    by (simp_all add: PruneNamespaceGrants_def PruneProjectGrants_def prune_twice zero_grant_def)
  assume a: "ns \<noteq> []" "IsValidName ns'"
  show "pr \<noteq> [] \<Longrightarrow> IsValidName pr' \<Longrightarrow> (ns', pr') \<noteq> (ns, pr) \<Longrightarrow>
      fst (RewriteProjectGrants (fst (RewriteProjectGrants s ns pr ns' pr')) ns pr ns' pr') = fst (RewriteProjectGrants s ns pr ns' pr')"
    unfolding RewriteProjectGrants_scope
    by (rule rewrite_twice) (use a ok_token_rebuild(2) parse_rebuild_project scope_tokens_ok in auto)
  show "ns \<notin> set perm_words \<Longrightarrow> ns' \<noteq> ns \<Longrightarrow>
      fst (RewriteNamespaceGrants (fst (RewriteNamespaceGrants s ns ns')) ns ns') = fst (RewriteNamespaceGrants s ns ns')"
    unfolding RewriteNamespaceGrants_scope
    by (rule rewrite_twice) (use a ok_token_rebuild(1) parse_rebuild_namespace scope_tokens_ok in auto)
qed

section \<open>Deleting a namespace\<close>

text \<open>The registration entries of the token store, which no rewrite reaches.\<close>

definition stored_entries :: "('o, os_row) bolt \<Rightarrow> ('u, 'o) auth_stores \<Rightarrow> (string \<Rightarrow> reg_entry option) option" where
  "stored_entries T a = map_option (\<lambda>db. v_entry (bget T db)) (as_tokens a)"

lemma stored_entries_rewrite:
  assumes "auth_ok U T a"
  shows "stored_entries T (snd (rewrite_stores U T now fn a)) = stored_entries T a"
proof -
  have "v_entry (m_rescope fn m) = v_entry m" for m by (simp add: v_entry_def m_rescope_def fun_eq_iff)
  then have "stored_entries T (snd (rewrite_series T fn a1)) = stored_entries T a1" if "auth_ok U T a1" for a1
    using that token_scopes_rewritten(3) [of T]
    by (auto simp: rewrite_series_def stored_entries_def auth_ok_def split: option.split sum.split)
  then show ?thesis using rewrite_users_cases(1,2) [OF assms, of now fn]
    by (auto simp: rewrite_stores_def stored_entries_def split: prod.split option.split)
qed

lemma stored_entries_attempt:
  assumes "auth_ok U T a"
  shows "stored_entries T (snd (try_rewrite U T c fn a)) = stored_entries T a"
proof -
  obtain now f g where c: "c = (now, f, g)" by (cases c) auto
  from assms have b: "bolt_ok U" "bolt_ok T" by (simp_all add: auth_ok_def)
  from stored_entries_rewrite [of "faulty f U" "faulty g T" a now fn] assms show ?thesis
    by (simp add: c try_rewrite_def auth_ok_faulty [OF b] stored_entries_def)
qed

lemma stored_entries_attempts:
  "auth_ok U T a \<Longrightarrow> stored_entries T (attempts (try_rewrite U T) cs fn a) = stored_entries T a"
proof (induction cs arbitrary: a)
  case (Cons c cs)
  from Cons.IH [OF cleaner.keeps [OF Cons.prems, of c fn]] stored_entries_attempt [OF Cons.prems] show ?case
    by (simp add: attempts_def)
qed (simp add: attempts_def)

text \<open>
  C30: the purge of a namespace from the accounts, the invitations and the token series is complete:
  however many attempts at it failed in either store before, once one succeeds every account, pending or
  used invitation and token series decides about every target as the grants it held before decide that
  did not name the namespace, and nobody is added or lost.  It does not reach the registration entries
  of the token store, which keep their scopes (\<open>PurgeNamespace_misses_entries\<close> shows what that leaves
  open).
\<close>

theorem PurgeNamespace_complete:
  assumes "auth_ok U T a" "ns \<noteq> []"
    and "fst (PurgeNamespace U T now ns (attempts (try_rewrite U T) cs (\<lambda>s. fst (PruneNamespaceGrants s ns)) a)) = None"
    and "a' = snd (PurgeNamespace U T now ns (attempts (try_rewrite U T) cs (\<lambda>s. fst (PruneNamespaceGrants s ns)) a))"
  shows "rel_option (\<lambda>s s'. \<forall>n p. EffectiveLevel (ParseScope s') n p =
      EffectiveLevel (filter (\<lambda>g. \<not> (\<not> g_Wildcard g \<and> g_Namespace g = ns)) (ParseScope s)) n p) (held U T a h) (held U T a' h) \<and>
    stored_entries T a' = stored_entries T a"
proof -
  let ?fn = "\<lambda>s. fst (PruneNamespaceGrants s ns)"
  have as: "PurgeNamespace U T now ns = try_rewrite U T (now, False, False) ?fn"
    by (simp add: PurgeNamespace_def try_rewrite_def)
  have twice: "?fn (?fn s) = ?fn s" for s by (rule edits_twice(1) [OF assms(2)])
  have "held U T a' h = map_option ?fn (held U T a h)"
    using cleaner.retried(2) [of ?fn, OF twice assms(1) assms(3) [unfolded as], of h] assms(4) by (simp add: as)
  moreover have "EffectiveLevel (ParseScope (?fn s)) n p =
      EffectiveLevel (filter (\<lambda>g. \<not> (\<not> g_Wildcard g \<and> g_Namespace g = ns)) (ParseScope s)) n p" for s n p
    using level_pruned [of "\<lambda>g. \<not> g_Wildcard g \<and> g_Namespace g = ns" s n p] by (simp add: PruneNamespaceGrants_def)
  moreover have "auth_ok U T (attempts (try_rewrite U T) cs ?fn a)"
    using cleaner.attempts_partial [of ?fn, OF twice assms(1)] by blast
  then have "stored_entries T a' = stored_entries T a"
    unfolding assms(4) as by (simp only: stored_entries_attempt stored_entries_attempts [OF assms(1)])
  ultimately show ?thesis by (cases "held U T a h") simp_all
qed

text \<open>
  moving or renaming a project re-homes its grants everywhere: after the first attempt that
  succeeds every scope that is kept parses as before with the project's old name exchanged for the
  new one in exactly the grants that name the project.
\<close>

theorem RewriteProject_complete:
  assumes "auth_ok U T a" "ns \<noteq> []" "pr \<noteq> []" "IsValidName ns'" "IsValidName pr'" "(ns', pr') \<noteq> (ns, pr)"
    and "fst (RewriteProject U T now ns pr ns' pr' (attempts (try_rewrite U T) cs (\<lambda>s. fst (RewriteProjectGrants s ns pr ns' pr')) a)) = None"
    and "a' = snd (RewriteProject U T now ns pr ns' pr' (attempts (try_rewrite U T) cs (\<lambda>s. fst (RewriteProjectGrants s ns pr ns' pr')) a))"
  shows "map_option ParseScope (held U T a' h) =
    map_option (map (\<lambda>g. if \<not> g_Wildcard g \<and> g_Namespace g = ns \<and> g_Project g = pr
                         then g\<lparr>g_Namespace := ns', g_Project := pr'\<rparr> else g) \<circ> ParseScope) (held U T a h)"
proof -
  let ?fn = "\<lambda>s. fst (RewriteProjectGrants s ns pr ns' pr')"
  have as: "RewriteProject U T now ns pr ns' pr' = try_rewrite U T (now, False, False) ?fn"
    by (simp add: RewriteProject_def try_rewrite_def)
  have twice: "?fn (?fn s) = ?fn s" for s by (rule edits_twice(3) [OF assms(2-6)])
  have "held U T a' h = map_option ?fn (held U T a h)"
    using cleaner.retried(2) [of ?fn, OF twice assms(1) assms(7) [unfolded as], of h] assms(8) by (simp add: as)
  moreover have "ParseScope (?fn s) = map (\<lambda>g. if \<not> g_Wildcard g \<and> g_Namespace g = ns \<and> g_Project g = pr
      then g\<lparr>g_Namespace := ns', g_Project := pr'\<rparr> else g) (ParseScope s)" for s
    unfolding RewriteProjectGrants_scope
    by (rule rewrite_parse) (use assms ok_token_rebuild(2) parse_rebuild_project scope_tokens_ok in auto)
  ultimately show ?thesis by (simp add: option.map_comp comp_def)
qed

text \<open>
  The registration entries of the token store keep their scopes, and new tokens are issued with
  these: a purge, or any other rewrite, leaves the confidential clients as they were.
\<close>

lemma rewrite_stores_entries:
  assumes "auth_ok U T a" "as_tokens a = Some db" "as_tokens (snd (rewrite_stores U T now fn a)) = Some db'"
  shows "ConfidentialClient T cid db' = ConfidentialClient T cid db"
proof -
  let ?a1 = "snd (rewrite_users U now fn a)"
  note u = rewrite_users_cases [OF assms(1), of now fn]
  have os: "os_ok T db" "bolt_ok T" using assms(1,2) by (auto simp: auth_ok_def)
  have "db' = db \<or> (\<exists>n. os_RewriteScopes T fn db = Inr (n, db'))"
    using assms(2,3) u(2,4) by (auto simp: rewrite_stores_def rewrite_series_def split: prod.splits option.splits sum.splits)
  then have reg: "bget T db' registrationsBucket = bget T db registrationsBucket" and ok: "os_ok T db'"
    using token_scopes_rewritten [OF os(2,1)] os by (auto simp: m_rescope_def)
  have b: "b_bucket T db registrationsBucket" "b_bucket T db' registrationsBucket" using os(1) ok by (auto simp: os_ok_def)
  have "b_rows T db' registrationsBucket = b_rows T db registrationsBucket"
    by (rule kv_ok_ext) (use bucket_rows [OF os(2) b(1)] bucket_rows [OF os(2) b(2)] reg in \<open>auto simp: fun_eq_iff\<close>)
  then show ?thesis by (simp add: ConfidentialClient_def)
qed

text \<open>
  deleting a namespace does not reach the scopes of the registration entries: a confidential client
  whose entry grants the deleted namespace by name has the same entry after the purge, so a namespace
  created again under that name is open to the tokens it draws from then on.
\<close>

theorem PurgeNamespace_misses_entries:
  assumes "auth_ok U T a" "as_tokens a = Some db" "as_tokens (snd (PurgeNamespace U T now ns a)) = Some db'"
    and "ConfidentialClient T cid db = Some e" "LevelNone < EffectiveLevel (ParseScope (re_Scope e)) ns pr"
  shows "\<exists>e'. ConfidentialClient T cid db' = Some e' \<and> LevelNone < EffectiveLevel (ParseScope (re_Scope e')) ns pr"
  using rewrite_stores_entries [OF assms(1,2) assms(3) [unfolded PurgeNamespace_def], of cid] assms(4,5) by auto


section \<open>Stores that do not fail\<close>

lemma put_rows_works:
  assumes "bolt_ok B" "bolt_works B"
  shows "b_bucket B db n \<Longrightarrow> \<exists>db'. put_rows B n rows db = Some db'"
proof (induction rows arbitrary: db)
  case (Cons p rows)
  obtain k v where p: "p = (k, v)" by fastforce
  obtain db1 where d: "b_put B n k v db = Some db1" using bolt_worksD(1) [OF assms(2) Cons.prems] by blast
  have "b_bucket B db1 n" using put_reads [OF assms(1) d Cons.prems] Cons.prems by simp
  with Cons.IH show ?case by (simp add: p d)
qed simp

lemma us_RewriteScopes_works:
  assumes "bolt_ok U" "us_ok U db" "bolt_works U"
  shows "\<exists>r. us_RewriteScopes U now fn db = Inr r"
proof -
  have i: "us_is U (us_view U db) db" using assms(2) by (simp add: us_is_def)
  obtain us where us: "decode_all user_of (b_rows U db usersBucket) = Some us" using us_decoded(1) [OF assms(1) i] by blast
  let ?up = "scope_updates u_Scope (\<lambda>sc u. UserRow (u\<lparr>u_Scope := sc, u_UpdatedAt := now\<rparr>)) fn us"
  obtain db1 where d1: "put_rows U usersBucket ?up db = Some db1"
    using put_rows_works [OF assms(1,3)] us_okD(1) [OF assms(2)] by blast
  have r: "b_bucket U db1 = b_bucket U db" "bget U db1 invitesBucket = bget U db invitesBucket"
    using put_rows_reads [OF assms(1) d1 us_okD(1) [OF assms(2)]] by (simp_all add: fun_eq_iff)
  have b: "b_bucket U db1 invitesBucket" "b_bucket U db invitesBucket" using r us_okD(3) [OF assms(2)] by simp_all
  have "b_rows U db1 invitesBucket = b_rows U db invitesBucket"
    by (rule kv_ok_ext) (use bucket_rows [OF assms(1) b(1)] bucket_rows [OF assms(1) b(2)] r(2) in \<open>auto simp: fun_eq_iff\<close>)
  then obtain iv where iv: "decode_all invite_of (b_rows U db1 invitesBucket) = Some iv" using us_decoded(2) [OF assms(1) i] by auto
  obtain db2 where d2: "put_rows U invitesBucket (scope_updates in_Scope (\<lambda>sc i. InviteRow (i\<lparr>in_Scope := sc\<rparr>)) fn iv) db1 = Some db2"
    using put_rows_works [OF assms(1,3) b(1)] by blast
  obtain db3 where "b_commit U db2 = Some db3" using bolt_worksD(3) [OF assms(3)] by blast
  then show ?thesis by (simp add: us_RewriteScopes_def transact_ret_def us d1 iv d2 Let_def)
qed

lemma os_RewriteScopes_works:
  assumes "bolt_ok T" "os_ok T db" "bolt_works T"
  shows "\<exists>r. os_RewriteScopes T fn db = Inr r"
proof -
  have i: "os_is T (bget T db) db" using assms(2) by (simp add: os_is_def)
  obtain ss where ss: "decode_all series_of (b_rows T db seriesBucket) = Some ss" by (rule series_decoded [OF assms(1) i])
  have "b_bucket T db seriesBucket" using assms(2) by (simp add: os_ok_def)
  then obtain db1 where d1: "put_rows T seriesBucket (scope_updates sr_Scope (\<lambda>sc s. series_row (s\<lparr>sr_Scope := sc\<rparr>)) fn ss) db = Some db1"
    using put_rows_works [OF assms(1,3)] by blast
  obtain db2 where "b_commit T db1 = Some db2" using bolt_worksD(3) [OF assms(3)] by blast
  then show ?thesis by (simp add: os_RewriteScopes_def transact_ret_def ss d1 Let_def)
qed

lemma rewrite_stores_works:
  assumes "auth_ok U T a" "bolt_works U" "bolt_works T"
  shows "fst (rewrite_stores U T now fn a) = None"
proof -
  have u: "fst (rewrite_users U now fn a) = None"
  proof (cases "as_users a")
    case (Some db)
    then obtain r where "us_RewriteScopes U now fn db = Inr r"
      using us_RewriteScopes_works [of U db now fn] assms by (auto simp: auth_ok_def)
    then show ?thesis by (simp add: rewrite_users_def Some split: prod.split)
  qed (simp add: rewrite_users_def)
  let ?b = "snd (rewrite_users U now fn a)"
  have b: "auth_ok U T ?b" by (rule rewrite_users_cases(1) [OF assms(1)])
  have "fst (rewrite_series T fn ?b) = None"
  proof (cases "as_tokens ?b")
    case (Some db)
    then obtain r where "os_RewriteScopes T fn db = Inr r"
      using os_RewriteScopes_works [of T db fn] assms(3) b by (auto simp: auth_ok_def)
    then show ?thesis by (simp add: rewrite_series_def Some split: prod.split)
  qed (simp add: rewrite_series_def)
  with u show ?thesis by (cases "rewrite_users U now fn a") (simp add: rewrite_stores_def)
qed

section \<open>Instances\<close>

definition demo_users :: "us_row mem_db" where
  "demo_users = [(invitesBucket, []), (sessionsBucket, []), (usersBucket, [(''a@x'', UserRow ((blank_user ''a@x'')\<lparr>u_Scope := ''namespace:docs,namespace:ops''\<rparr>))])]"

definition demo_stores :: "(us_row mem_db, os_row mem_db) auth_stores" where
  "demo_stores = \<lparr>as_users = Some demo_users, as_tokens = Some demo_tokens\<rparr>"

lemma demo_stores_ok: "auth_ok mem_bolt mem_bolt demo_stores"
proof -
  have "us_ok mem_bolt demo_users"
    by (auto simp: us_ok_def b_bucket_bview bget_bview mem_bolt_view blank_user_def demo_users_def split: if_splits)
  then show ?thesis by (simp add: auth_ok_def demo_stores_def mem_bolt_ok demo_tokens_ok)
qed

theorem PurgeNamespace_complete_witness:
  "\<exists>a'. rel_option (\<lambda>s s'. \<forall>n p. EffectiveLevel (ParseScope s') n p =
      EffectiveLevel (filter (\<lambda>g. \<not> (\<not> g_Wildcard g \<and> g_Namespace g = ''docs'')) (ParseScope s)) n p)
      (Some ''namespace:docs,namespace:ops'') (held mem_bolt mem_bolt a' (Account ''a@x''))"
proof -
  let ?fn = "\<lambda>s. fst (PruneNamespaceGrants s ''docs'')"
  let ?a1 = "attempts (try_rewrite mem_bolt mem_bolt) [(3, False, True)] ?fn demo_stores"
  have "auth_ok mem_bolt mem_bolt ?a1"
    using cleaner.keeps [OF demo_stores_ok, of "(3, False, True)" ?fn] by (simp add: attempts_def)
  then have n: "fst (PurgeNamespace mem_bolt mem_bolt 4 ''docs'' ?a1) = None"
    unfolding PurgeNamespace_def by (rule rewrite_stores_works [OF _ mem_bolt_works mem_bolt_works])
  have h: "held mem_bolt mem_bolt demo_stores (Account ''a@x'') = Some ''namespace:docs,namespace:ops''"
    by (simp add: held_def demo_stores_def user_scope_def us_view_def bget_bview mem_bolt_view demo_users_def)
  from PurgeNamespace_complete [OF demo_stores_ok _ n refl, of "Account ''a@x''"] h show ?thesis by auto
qed

theorem RewriteProject_complete_witness:
  "\<exists>a'. map_option ParseScope (held mem_bolt mem_bolt a' (Token ''id1'')) =
    map_option (map (\<lambda>g. if \<not> g_Wildcard g \<and> g_Namespace g = ''docs'' \<and> g_Project g = ''a''
                         then g\<lparr>g_Namespace := ''docs'', g_Project := ''b''\<rparr> else g) \<circ> ParseScope) (Some ''namespace:docs'')"
proof -
  let ?fn = "\<lambda>s. fst (RewriteProjectGrants s ''docs'' ''a'' ''docs'' ''b'')"
  have n: "fst (RewriteProject mem_bolt mem_bolt 4 ''docs'' ''a'' ''docs'' ''b''
      (attempts (try_rewrite mem_bolt mem_bolt) [] ?fn demo_stores)) = None"
    unfolding RewriteProject_def by (rule rewrite_stores_works [OF _ mem_bolt_works mem_bolt_works]) (simp add: attempts_def demo_stores_ok)
  have v: "IsValidName ''docs''" "IsValidName ''b''" by code_simp+
  have h: "held mem_bolt mem_bolt demo_stores (Token ''id1'') = Some ''namespace:docs''"
    by (simp add: held_def demo_stores_def token_scope_def demo_views) (simp add: demo_series_def)
  from RewriteProject_complete [OF demo_stores_ok _ _ v _ n refl, of "Token ''id1''"] h show ?thesis by auto
qed

definition demo_conf :: reg_entry where
  "demo_conf = (new_entry ''e1'' RegistrationModeConfidential ''c1'' 0)\<lparr>re_Scope := ''namespace:docs''\<rparr>"

definition demo_issued :: "os_row mem_db" where
  "demo_issued = [(codesBucket, []), (seriesBucket, []), (accessBucket, []), (refreshBucket, []), (clientsBucket, []),
     (os_metaBucket, []), (registrationsBucket, [(''e1'', EntryRow demo_conf)])]"

theorem PurgeNamespace_misses_entries_witness:
  "\<exists>db' e'. as_tokens (snd (PurgeNamespace mem_bolt mem_bolt 4 ''docs'' \<lparr>as_users = None :: us_row mem_db option, as_tokens = Some demo_issued\<rparr>)) = Some db' \<and>
     ConfidentialClient mem_bolt ''c1'' db' = Some e' \<and> LevelNone < EffectiveLevel (ParseScope (re_Scope e')) ''docs'' ''p''"
proof -
  let ?a = "\<lparr>as_users = None :: us_row mem_db option, as_tokens = Some demo_issued\<rparr>"
  have "os_ok mem_bolt demo_issued"
    by (auto simp: os_ok_def os_buckets_def b_bucket_bview bget_bview mem_bolt_view demo_issued_def row_typed_def demo_conf_def
        new_entry_def split: if_splits)
  then have ok: "auth_ok mem_bolt mem_bolt ?a" by (simp add: auth_ok_def mem_bolt_ok)
  have "trim_space ''c1'' = ''c1''" by (rule trim_space_trimmed) code_simp
  then have c: "ConfidentialClient mem_bolt ''c1'' demo_issued = Some demo_conf"
    by (simp add: ConfidentialClient_def mem_bolt_def demo_issued_def demo_conf_def new_entry_def os_bucket_defs List.map_filter_def Let_def)
  have l: "LevelNone < EffectiveLevel (ParseScope (re_Scope demo_conf)) ''docs'' ''p''"
  proof -
    have "re_Scope demo_conf = ''namespace:docs''" by (simp add: demo_conf_def)
    moreover have "LevelNone < EffectiveLevel (ParseScope ''namespace:docs'') ''docs'' ''p''" by code_simp
    ultimately show ?thesis by simp
  qed
  have "\<exists>db'. as_tokens (snd (PurgeNamespace mem_bolt mem_bolt 4 ''docs'' ?a)) = Some db'"
    by (auto simp: PurgeNamespace_def rewrite_stores_def rewrite_users_def rewrite_series_def split: sum.split)
  then obtain db' where d: "as_tokens (snd (PurgeNamespace mem_bolt mem_bolt 4 ''docs'' ?a)) = Some db'" by blast
  have t: "as_tokens ?a = Some demo_issued" by simp
  from PurgeNamespace_misses_entries [OF ok t d c l] d show ?thesis by blast
qed

end
