(* ===== verification/Project_Life.thy ===== *)
theory Project_Life
  imports Base_Dir Ns_Registry Scope_Clean
begin

text \<open>
  Namespaces and projects as wholes (\<open>internal/storage/projectlifecycle.go\<close>, \<open>projectmove.go\<close>,
  \<open>projectrename.go\<close>, \<open>startup.go\<close>, \<open>namespace.go\<close>): creating, deleting, moving and renaming them changes
  three stores that share no transaction, the base directory, the managed registry and the scopes.
  The special operations (move and the two renames) keep a journal in the registry.  Each is modelled
  with the list of durable states it passes through, the last of which it ends in, so that a crash
  leaves the state before it or one of these; \<open>recoverInterruptedOp\<close> is the start-up that follows.
  \<open>op_faults\<close> says which calls fail.  In-memory handles, events and log lines are left out; the
  leases in force are an argument.
\<close>

record ('r, 'u, 'o) life =
  lf_tree :: wtree
  lf_reg :: 'r
  lf_auth :: "('u, 'o) auth_stores option"

record ('r, 'u, 'o) life_env =
  le_reg :: "('r, reg_row) bolt"
  le_users :: "('u, us_row) bolt"
  le_tokens :: "('o, os_row) bolt"
  le_now :: int

record op_faults =
  of_start :: bool
  of_rename :: bool
  of_moved :: bool
  of_sib :: "(bool \<times> bool) list"
  of_reg :: bool
  of_users :: bool
  of_tokens :: bool
  of_clear :: bool
  of_stray :: "bool \<times> bool"
  of_list :: bool

definition op_smooth :: op_faults where
  "op_smooth = \<lparr>of_start = False, of_rename = False, of_moved = False, of_sib = [], of_reg = False, of_users = False,
     of_tokens = False, of_clear = False, of_stray = (False, False), of_list = False\<rparr>"

datatype life_err =
  LifeBadName string | SameName | NoProject | NoTargetNamespace | NotManaged | Collision | OnDisk | Busy | Protected
| NotEmpty | ListFails list_err | MkdirFails | RenameFails | RemoveFails | GitInitFails | CatalogFails
| RegFails reg_err | CleanFails clean_err

definition opMove :: string where
  "opMove = ''move''"

definition opRenameProject :: string where
  "opRenameProject = ''rename_project''"

definition opRenameNamespace :: string where
  "opRenameNamespace = ''rename_namespace''"

definition movePhaseStarted :: string where
  "movePhaseStarted = ''started''"

definition movePhaseDirMoved :: string where
  "movePhaseDirMoved = ''dir_moved''"

definition project_path :: "string \<Rightarrow> string \<Rightarrow> life_err + string list" where
  "project_path namespace projectName =
     (let ns = (if namespace = [] then DefaultNamespace else namespace) in
      if \<not> IsValidName ns then Inl (LifeBadName ns)
      else if \<not> IsValidName projectName then Inl (LifeBadName projectName)
      else Inr [ns, projectName])"

definition projectHasActiveLease :: "string list list \<Rightarrow> string list \<Rightarrow> bool" where
  "projectHasActiveLease leases projectPath = list_ex (prefix projectPath) leases"

section \<open>The stores, one call at a time\<close>

definition setOpJournal :: "('r, 'u, 'o) life_env \<Rightarrow> bool \<Rightarrow> op_journal \<Rightarrow> ('r, 'u, 'o) life \<Rightarrow> ('r, 'u, 'o) life" where
  "setOpJournal E fails j s =
     (case SetOpJournal (faulty fails (le_reg E)) j (lf_reg s) of Inl e \<Rightarrow> s | Inr r \<Rightarrow> s\<lparr>lf_reg := r\<rparr>)"

definition clearOpJournal :: "('r, 'u, 'o) life_env \<Rightarrow> bool \<Rightarrow> ('r, 'u, 'o) life \<Rightarrow> ('r, 'u, 'o) life" where
  "clearOpJournal E fails s =
     (case ClearOpJournal (faulty fails (le_reg E)) (lf_reg s) of Inl e \<Rightarrow> s | Inr r \<Rightarrow> s\<lparr>lf_reg := r\<rparr>)"

definition reg_call ::
    "('r, 'u, 'o) life_env \<Rightarrow> bool \<Rightarrow> reg_op \<Rightarrow> ('r, 'u, 'o) life \<Rightarrow> life_err option \<times> ('r, 'u, 'o) life" where
  "reg_call E fails op s =
     (case reg_apply (faulty fails (le_reg E)) (le_now E) op (lf_reg s) of
        Inl e \<Rightarrow> (Some (RegFails e), s) | Inr r \<Rightarrow> (None, s\<lparr>lf_reg := r\<rparr>))"

text \<open>The cleaner, with the state between its two stores.\<close>

definition clean_trace ::
    "('r, 'u, 'o) life_env \<Rightarrow> op_faults \<Rightarrow> (string \<Rightarrow> string) \<Rightarrow> ('r, 'u, 'o) life \<Rightarrow> life_err option \<times> ('r, 'u, 'o) life list" where
  "clean_trace E F fn s =
     (case lf_auth s of
        None \<Rightarrow> (None, [])
      | Some a \<Rightarrow>
          (case rewrite_users (faulty (of_users F) (le_users E)) (le_now E) fn a of
             (Some e, a1) \<Rightarrow> (Some (CleanFails e), [s\<lparr>lf_auth := Some a1\<rparr>])
           | (None, a1) \<Rightarrow>
               (case rewrite_series (faulty (of_tokens F) (le_tokens E)) fn a1 of
                  (e2, a2) \<Rightarrow> (map_option CleanFails e2, [s\<lparr>lf_auth := Some a1\<rparr>, s\<lparr>lf_auth := Some a2\<rparr>]))))"

definition relocateSiblingDB :: "bool \<times> bool \<Rightarrow> string list \<Rightarrow> string list \<Rightarrow> wtree \<Rightarrow> wtree" where
  "relocateSiblingDB fails old new t =
     (if \<not> stat_ok t old then t
      else case Rename (fst fails) t old new of
        Some t1 \<Rightarrow> t1
      | None \<Rightarrow> (case Remove_path (snd fails) t old of Removed t1 \<Rightarrow> t1 | _ \<Rightarrow> t))"

fun relocate_trace :: "(bool \<times> bool) list \<Rightarrow> (string list \<times> string list) list \<Rightarrow> ('r, 'u, 'o) life \<Rightarrow> ('r, 'u, 'o) life list" where
  "relocate_trace fs [] s = []"
| "relocate_trace fs ((old, new) # ps) s =
     (let f = (case fs of [] \<Rightarrow> (False, False) | f # fs \<Rightarrow> f);
          s1 = s\<lparr>lf_tree := relocateSiblingDB f old new (lf_tree s)\<rparr> in
      s1 # relocate_trace (tl fs) ps s1)"

text \<open>
  The rest of a special operation after the directory has moved, for all three: the siblings, the
  registry, the scopes, up to the first call that fails.
\<close>

definition complete_op ::
    "('r, 'u, 'o) life_env \<Rightarrow> op_faults \<Rightarrow> (string list \<times> string list) list \<Rightarrow> reg_op \<Rightarrow> (string \<Rightarrow> string) \<Rightarrow>
     ('r, 'u, 'o) life \<Rightarrow> life_err option \<times> ('r, 'u, 'o) life list" where
  "complete_op E F sibs op fn s =
     (let ss = relocate_trace (of_sib F) sibs s in
      case reg_call E (of_reg F) op (last (s # ss)) of
        (Some e, s1) \<Rightarrow> (Some e, ss)
      | (None, s1) \<Rightarrow> (case clean_trace E F fn s1 of (e, cs) \<Rightarrow> (e, ss @ s1 # cs)))"

definition completeMoveAfterRename ::
    "('r, 'u, 'o) life_env \<Rightarrow> op_faults \<Rightarrow> string \<Rightarrow> string \<Rightarrow> string \<Rightarrow> ('r, 'u, 'o) life \<Rightarrow> life_err option \<times> ('r, 'u, 'o) life list" where
  "completeMoveAfterRename E F oldNs projectName newNs =
     complete_op E F (zip (siblingDBPaths oldNs projectName) (siblingDBPaths newNs projectName))
       (OpMoveProject oldNs projectName newNs) (\<lambda>sc. fst (RewriteProjectGrants sc oldNs projectName newNs projectName))"

definition completeRenameProject ::
    "('r, 'u, 'o) life_env \<Rightarrow> op_faults \<Rightarrow> string \<Rightarrow> string \<Rightarrow> string \<Rightarrow> ('r, 'u, 'o) life \<Rightarrow> life_err option \<times> ('r, 'u, 'o) life list" where
  "completeRenameProject E F namespace oldName newName =
     complete_op E F (zip (siblingDBPaths namespace oldName) (siblingDBPaths namespace newName))
       (OpRenameProject namespace oldName newName) (\<lambda>sc. fst (RewriteProjectGrants sc namespace oldName namespace newName))"

definition completeRenameNamespace ::
    "('r, 'u, 'o) life_env \<Rightarrow> op_faults \<Rightarrow> string \<Rightarrow> string \<Rightarrow> ('r, 'u, 'o) life \<Rightarrow> life_err option \<times> ('r, 'u, 'o) life list" where
  "completeRenameNamespace E F oldName newName =
     complete_op E F [] (OpRenameNamespace oldName newName) (\<lambda>sc. fst (RewriteNamespaceGrants sc oldName newName))"

section \<open>The special operations\<close>

text \<open>Journal, rename the directory, journal, complete, clear.\<close>

definition journaled_op ::
    "('r, 'u, 'o) life_env \<Rightarrow> op_faults \<Rightarrow> op_journal \<Rightarrow> string list \<Rightarrow> string list \<Rightarrow>
     (('r, 'u, 'o) life \<Rightarrow> life_err option \<times> ('r, 'u, 'o) life list) \<Rightarrow> ('r, 'u, 'o) life \<Rightarrow> life_err option \<times> ('r, 'u, 'o) life list" where
  "journaled_op E F j src dst complete s =
     (let s1 = setOpJournal E (of_start F) j s in
      case Rename (of_rename F) (lf_tree s1) src dst of
        None \<Rightarrow> (Some RenameFails, [s1, clearOpJournal E (of_clear F) s1])
      | Some t \<Rightarrow>
          (let s2 = s1\<lparr>lf_tree := t\<rparr>;
               s3 = setOpJournal E (of_moved F) (j\<lparr>oj_Phase := movePhaseDirMoved\<rparr>) s2 in
           case complete s3 of
             (Some e, ss) \<Rightarrow> (Some e, s1 # s2 # s3 # ss)
           | (None, ss) \<Rightarrow> (None, s1 # s2 # s3 # ss @ [clearOpJournal E (of_clear F) (last (s3 # ss))])))"

definition move_journal :: "string \<Rightarrow> string \<Rightarrow> string \<Rightarrow> op_journal" where
  "move_journal oldNs projectName newNs =
     \<lparr>oj_Op = opMove, oj_OldNamespace = oldNs, oj_OldProject = projectName, oj_NewNamespace = newNs,
      oj_NewProject = projectName, oj_Project = projectName, oj_Phase = movePhaseStarted\<rparr>"

definition MoveProject ::
    "('r, 'u, 'o) life_env \<Rightarrow> op_faults \<Rightarrow> string list list \<Rightarrow> string \<Rightarrow> string \<Rightarrow> string \<Rightarrow> ('r, 'u, 'o) life \<Rightarrow>
     life_err option \<times> ('r, 'u, 'o) life list" where
  "MoveProject E F leases oldNs0 projectName newNs0 s =
     (let oldNs = (if oldNs0 = [] then DefaultNamespace else oldNs0);
          newNs = (if newNs0 = [] then DefaultNamespace else newNs0) in
      case project_path oldNs projectName of
        Inl e \<Rightarrow> (Some e, [])
      | Inr oldDir \<Rightarrow>
          (case project_path newNs projectName of
             Inl e \<Rightarrow> (Some e, [])
           | Inr newDir \<Rightarrow>
               (if oldNs = newNs then (Some SameName, [])
                else if \<not> hasGitRepoAt (lf_tree s) oldDir then (Some NoProject, [])
                else case reg_Get (le_reg E) (lf_reg s) newNs of
                  Inl e \<Rightarrow> (Some (RegFails e), [])
                | Inr None \<Rightarrow> (Some NoTargetNamespace, [])
                | Inr (Some r) \<Rightarrow>
                    (case reg_HasProject (le_reg E) (lf_reg s) newNs projectName of
                       Inl e \<Rightarrow> (Some (RegFails e), [])
                     | Inr has \<Rightarrow>
                         (if has then (Some Collision, [])
                          else if stat_ok (lf_tree s) newDir then (Some OnDisk, [])
                          else if projectHasActiveLease leases oldDir then (Some Busy, [])
                          else journaled_op E F (move_journal oldNs projectName newNs) oldDir newDir
                                 (completeMoveAfterRename E F oldNs projectName newNs) s)))))"

definition rename_journal :: "string \<Rightarrow> string \<Rightarrow> string \<Rightarrow> op_journal" where
  "rename_journal namespace oldName newName =
     \<lparr>oj_Op = opRenameProject, oj_OldNamespace = namespace, oj_OldProject = oldName, oj_NewNamespace = namespace,
      oj_NewProject = newName, oj_Project = [], oj_Phase = movePhaseStarted\<rparr>"

definition RenameProject ::
    "('r, 'u, 'o) life_env \<Rightarrow> op_faults \<Rightarrow> string list list \<Rightarrow> string \<Rightarrow> string \<Rightarrow> string \<Rightarrow> ('r, 'u, 'o) life \<Rightarrow>
     life_err option \<times> ('r, 'u, 'o) life list" where
  "RenameProject E F leases namespace0 oldName newName s =
     (let namespace = (if namespace0 = [] then DefaultNamespace else namespace0) in
      case project_path namespace oldName of
        Inl e \<Rightarrow> (Some e, [])
      | Inr oldDir \<Rightarrow>
          (case project_path namespace newName of
             Inl e \<Rightarrow> (Some e, [])
           | Inr newDir \<Rightarrow>
               (if oldName = newName then (Some SameName, [])
                else if \<not> hasGitRepoAt (lf_tree s) oldDir then (Some NoProject, [])
                else case reg_HasProject (le_reg E) (lf_reg s) namespace newName of
                  Inl e \<Rightarrow> (Some (RegFails e), [])
                | Inr has \<Rightarrow>
                    (if has then (Some Collision, [])
                     else if stat_ok (lf_tree s) newDir then (Some OnDisk, [])
                     else if projectHasActiveLease leases oldDir then (Some Busy, [])
                     else journaled_op E F (rename_journal namespace oldName newName) oldDir newDir
                            (completeRenameProject E F namespace oldName newName) s))))"

definition ns_journal :: "string \<Rightarrow> string \<Rightarrow> op_journal" where
  "ns_journal oldName newName =
     \<lparr>oj_Op = opRenameNamespace, oj_OldNamespace = oldName, oj_OldProject = [], oj_NewNamespace = newName,
      oj_NewProject = [], oj_Project = [], oj_Phase = movePhaseStarted\<rparr>"

definition RenameNamespace ::
    "('r, 'u, 'o) life_env \<Rightarrow> op_faults \<Rightarrow> string list list \<Rightarrow> string \<Rightarrow> string \<Rightarrow> ('r, 'u, 'o) life \<Rightarrow>
     life_err option \<times> ('r, 'u, 'o) life list" where
  "RenameNamespace E F leases oldName0 newName s =
     (let oldName = (if oldName0 = [] then DefaultNamespace else oldName0) in
      if \<not> IsValidName oldName then (Some (LifeBadName oldName), [])
      else if \<not> IsValidName newName then (Some (LifeBadName newName), [])
      else if oldName = newName then (Some SameName, [])
      else if oldName = DefaultNamespace \<or> newName = DefaultNamespace then (Some Protected, [])
      else case reg_HasNamespace (le_reg E) (lf_reg s) oldName of
        Inl e \<Rightarrow> (Some (RegFails e), [])
      | Inr managed_old \<Rightarrow>
          (if \<not> managed_old then (Some NotManaged, [])
           else case reg_HasNamespace (le_reg E) (lf_reg s) newName of
             Inl e \<Rightarrow> (Some (RegFails e), [])
           | Inr has \<Rightarrow>
               (if has then (Some Collision, [])
                else if stat_ok (lf_tree s) [newName] then (Some OnDisk, [])
                else case ListProjects (of_list F) (lf_tree s) oldName of
                  Inl e \<Rightarrow> (Some (ListFails e), [])
                | Inr projects \<Rightarrow>
                    (if list_ex (\<lambda>p. projectHasActiveLease leases [oldName, p]) projects then (Some Busy, [])
                     else journaled_op E F (ns_journal oldName newName) [oldName] [newName]
                            (completeRenameNamespace E F oldName newName) s))))"

section \<open>Recovery\<close>

definition remove_stray :: "bool \<Rightarrow> string list \<Rightarrow> ('r, 'u, 'o) life \<Rightarrow> ('r, 'u, 'o) life" where
  "remove_stray fails p s = (case Remove_path fails (lf_tree s) p of Removed t \<Rightarrow> s\<lparr>lf_tree := t\<rparr> | _ \<Rightarrow> s)"

definition rollbackProjectDirOp ::
    "('r, 'u, 'o) life_env \<Rightarrow> op_faults \<Rightarrow> string \<Rightarrow> string \<Rightarrow> string \<Rightarrow> string \<Rightarrow> string \<Rightarrow> ('r, 'u, 'o) life \<Rightarrow> ('r, 'u, 'o) life list" where
  "rollbackProjectDirOp E F op oldNs oldProj newNs newProj s =
     (let has = (\<lambda>ns. case reg_HasProject (le_reg E) (lf_reg s) ns newProj of Inl e \<Rightarrow> False | Inr h \<Rightarrow> h);
          s1 = (if op = opRenameProject
                then (if has oldNs then snd (reg_call E (of_reg F) (OpRenameProject oldNs newProj oldProj) s) else s)
                else (if has newNs then snd (reg_call E (of_reg F) (OpMoveProject newNs newProj oldNs) s)
                      else snd (reg_call E (of_reg F) (OpAdd oldNs oldProj) s)));
          ss = snd (clean_trace E F
                 (\<lambda>sc. fst (if op = opRenameProject then RewriteProjectGrants sc oldNs newProj oldNs oldProj
                            else RewriteProjectGrants sc newNs newProj oldNs oldProj)) s1);
          s2 = last (s1 # ss);
          s3 = remove_stray (fst (of_stray F)) (siblingDBPaths newNs newProj ! 0) s2;
          s4 = remove_stray (snd (of_stray F)) (siblingDBPaths newNs newProj ! 1) s3 in
      s1 # ss @ [s3, s4])"

definition rollbackNamespaceRename ::
    "('r, 'u, 'o) life_env \<Rightarrow> op_faults \<Rightarrow> string \<Rightarrow> string \<Rightarrow> ('r, 'u, 'o) life \<Rightarrow> ('r, 'u, 'o) life list" where
  "rollbackNamespaceRename E F oldName newName s =
     (let has = (\<lambda>ns. case reg_HasNamespace (le_reg E) (lf_reg s) ns of Inl e \<Rightarrow> False | Inr h \<Rightarrow> h);
          s1 = (if has newName \<and> \<not> has oldName then snd (reg_call E (of_reg F) (OpRenameNamespace newName oldName) s) else s) in
      s1 # snd (clean_trace E F (\<lambda>sc. fst (RewriteNamespaceGrants sc newName oldName)) s1))"

text \<open>Whether the journal may be cleared, and the states on the way.\<close>

definition recoverNamespaceRename ::
    "('r, 'u, 'o) life_env \<Rightarrow> op_faults \<Rightarrow> op_journal \<Rightarrow> ('r, 'u, 'o) life \<Rightarrow> bool \<times> ('r, 'u, 'o) life list" where
  "recoverNamespaceRename E F j s =
     (let newExists = (path_lookup (lf_tree s) [oj_NewNamespace j] = IsDir);
          oldExists = (path_lookup (lf_tree s) [oj_OldNamespace j] = IsDir) in
      if newExists \<and> \<not> oldExists then
        (case completeRenameNamespace E F (oj_OldNamespace j) (oj_NewNamespace j) s of
           (Some e, ss) \<Rightarrow> (False, ss) | (None, ss) \<Rightarrow> (True, ss))
      else if oldExists \<and> \<not> newExists then (True, rollbackNamespaceRename E F (oj_OldNamespace j) (oj_NewNamespace j) s)
      else (True, []))"

definition recoverProjectOp ::
    "('r, 'u, 'o) life_env \<Rightarrow> op_faults \<Rightarrow> op_journal \<Rightarrow> ('r, 'u, 'o) life \<Rightarrow> bool \<times> ('r, 'u, 'o) life list" where
  "recoverProjectOp E F j s =
     (let op = (if oj_Op j = [] then opMove else oj_Op j);
          oldProj = (if oj_OldProject j = [] then oj_Project j else oj_OldProject j);
          newProj = (if oj_NewProject j = [] then oj_Project j else oj_NewProject j);
          newHasGit = hasGitRepoAt (lf_tree s) [oj_NewNamespace j, newProj];
          oldHasGit = hasGitRepoAt (lf_tree s) [oj_OldNamespace j, oldProj] in
      if newHasGit \<and> \<not> oldHasGit then
        (case (if op = opRenameProject then completeRenameProject E F (oj_OldNamespace j) oldProj newProj s
               else completeMoveAfterRename E F (oj_OldNamespace j) oldProj (oj_NewNamespace j) s) of
           (Some e, ss) \<Rightarrow> (False, ss) | (None, ss) \<Rightarrow> (True, ss))
      else if oldHasGit \<and> \<not> newHasGit then
        (True, rollbackProjectDirOp E F op (oj_OldNamespace j) oldProj (oj_NewNamespace j) newProj s)
      else (True, []))"

definition recoverInterruptedOp ::
    "('r, 'u, 'o) life_env \<Rightarrow> op_faults \<Rightarrow> ('r, 'u, 'o) life \<Rightarrow> ('r, 'u, 'o) life list" where
  "recoverInterruptedOp E F s =
     (case GetOpJournal (le_reg E) (lf_reg s) of
        Inl e \<Rightarrow> []
      | Inr None \<Rightarrow> []
      | Inr (Some j) \<Rightarrow>
          (case (if oj_Op j = opRenameNamespace then recoverNamespaceRename E F j s else recoverProjectOp E F j s) of
             (False, ss) \<Rightarrow> ss
           | (True, ss) \<Rightarrow> ss @ [clearOpJournal E (of_clear F) (last (s # ss))]))"

section \<open>Creating and deleting\<close>

definition CreateNamespace ::
    "('r, 'u, 'o) life_env \<Rightarrow> bool \<Rightarrow> op_faults \<Rightarrow> string \<Rightarrow> ('r, 'u, 'o) life \<Rightarrow> life_err option \<times> ('r, 'u, 'o) life" where
  "CreateNamespace E mkdir_fails F namespace0 s =
     (let namespace = (if namespace0 = [] then DefaultNamespace else namespace0) in
      if \<not> IsValidName namespace then (Some (LifeBadName namespace), s)
      else case MkdirAll mkdir_fails (lf_tree s) [namespace] of
        None \<Rightarrow> (Some MkdirFails, s)
      | Some t \<Rightarrow> reg_call E (of_reg F) (OpEnsure namespace) (s\<lparr>lf_tree := t\<rparr>))"

text \<open>\<open>git.PlainInit\<close>: refuses an existing repository, fails, or makes one.\<close>

datatype init_res = Initialised wtree | AlreadyExists | InitFails

definition CreateProjectCtx ::
    "('r, 'u, 'o) life_env \<Rightarrow> bool \<Rightarrow> (wtree \<Rightarrow> string list \<Rightarrow> init_res) \<Rightarrow> (wtree \<Rightarrow> string list \<Rightarrow> wtree option) \<Rightarrow> op_faults \<Rightarrow>
     string \<Rightarrow> string \<Rightarrow> ('r, 'u, 'o) life \<Rightarrow> life_err option \<times> ('r, 'u, 'o) life" where
  "CreateProjectCtx E mkdir_fails PlainInit catalogFor F namespace0 projectName s =
     (let namespace = (if namespace0 = [] then DefaultNamespace else namespace0) in
      case project_path namespace projectName of
        Inl e \<Rightarrow> (Some e, s)
      | Inr projectPath \<Rightarrow>
          (case MkdirAll mkdir_fails (lf_tree s) projectPath of
             None \<Rightarrow> (Some MkdirFails, s)
           | Some t \<Rightarrow>
               (case PlainInit t projectPath of
                  InitFails \<Rightarrow> (Some GitInitFails, s\<lparr>lf_tree := t\<rparr>)
                | AlreadyExists \<Rightarrow> reg_call E (of_reg F) (OpAdd namespace projectName) (s\<lparr>lf_tree := t\<rparr>)
                | Initialised t1 \<Rightarrow>
                    (case catalogFor t1 (siblingDBPaths namespace projectName ! 0) of
                       None \<Rightarrow> (Some CatalogFails, s\<lparr>lf_tree := t1\<rparr>)
                     | Some t2 \<Rightarrow> reg_call E (of_reg F) (OpAdd namespace projectName) (s\<lparr>lf_tree := t2\<rparr>)))))"

definition clean_call ::
    "('r, 'u, 'o) life_env \<Rightarrow> op_faults \<Rightarrow> (string \<Rightarrow> string) \<Rightarrow> ('r, 'u, 'o) life \<Rightarrow> life_err option \<times> ('r, 'u, 'o) life" where
  "clean_call E F fn s = (case clean_trace E F fn s of (e, ss) \<Rightarrow> (e, last (s # ss)))"

fun remove_siblings :: "(string list \<Rightarrow> bool) \<Rightarrow> string list list \<Rightarrow> wtree \<Rightarrow> bool \<times> wtree" where
  "remove_siblings stuck [] t = (True, t)"
| "remove_siblings stuck (p # ps) t =
     (case Remove_path (stuck p) t p of
        Removed t1 \<Rightarrow> remove_siblings stuck ps t1
      | RemoveNotExist \<Rightarrow> remove_siblings stuck ps t
      | remove_res.RemoveFails \<Rightarrow> (case remove_siblings stuck ps t of (ok, t1) \<Rightarrow> (False, t1)))"

definition DeleteProject ::
    "('r, 'u, 'o) life_env \<Rightarrow> (string list \<Rightarrow> bool) \<Rightarrow> op_faults \<Rightarrow> string list list \<Rightarrow> string \<Rightarrow> string \<Rightarrow> ('r, 'u, 'o) life \<Rightarrow>
     life_err option \<times> ('r, 'u, 'o) life" where
  "DeleteProject E stuck F leases namespace0 projectName s =
     (let namespace = (if namespace0 = [] then DefaultNamespace else namespace0) in
      case project_path namespace projectName of
        Inl e \<Rightarrow> (Some e, s)
      | Inr projectPath \<Rightarrow>
          (if projectHasActiveLease leases projectPath then (Some Busy, s)
           else case clean_call E F (\<lambda>sc. fst (PruneProjectGrants sc namespace projectName)) s of
             (Some e, s1) \<Rightarrow> (Some e, s1)
           | (None, s1) \<Rightarrow>
               (let (ok1, t1) = RemoveAll stuck (lf_tree s1) projectPath;
                    (ok2, t2) = remove_siblings stuck (siblingDBPaths namespace projectName) t1;
                    s2 = s1\<lparr>lf_tree := t2\<rparr> in
                if \<not> (ok1 \<and> ok2) then (Some RemoveFails, s2)
                else (None, snd (reg_call E (of_reg F) (OpRemove namespace projectName) s2)))))"

definition DeleteNamespace ::
    "('r, 'u, 'o) life_env \<Rightarrow> (string list \<Rightarrow> bool) \<Rightarrow> op_faults \<Rightarrow> string \<Rightarrow> ('r, 'u, 'o) life \<Rightarrow> life_err option \<times> ('r, 'u, 'o) life" where
  "DeleteNamespace E stuck F namespace0 s =
     (let namespace = (if namespace0 = [] then DefaultNamespace else namespace0) in
      if \<not> IsValidName namespace then (Some (LifeBadName namespace), s)
      else if namespace = DefaultNamespace then (Some Protected, s)
      else case ListProjects (of_list F) (lf_tree s) namespace of
        Inl e \<Rightarrow> (Some (ListFails e), s)
      | Inr projects \<Rightarrow>
          (if projects \<noteq> [] then (Some NotEmpty, s)
           else case clean_call E F (\<lambda>sc. fst (PruneNamespaceGrants sc namespace)) s of
             (Some e, s1) \<Rightarrow> (Some e, s1)
           | (None, s1) \<Rightarrow>
               (let (ok, t1) = RemoveAll stuck (lf_tree s1) [namespace]; s2 = s1\<lparr>lf_tree := t1\<rparr> in
                if \<not> ok then (Some RemoveFails, s2)
                else (None, snd (reg_call E (of_reg F) (OpRemoveNs namespace) s2)))))"

definition ListNamespaces :: "('r, 'u, 'o) life_env \<Rightarrow> ('r, 'u, 'o) life \<Rightarrow> string list" where
  "ListNamespaces E s = reg_List (le_reg E) (lf_reg s)"

text \<open>\<open>unreadable\<close> says in which namespaces the listing fails.\<close>

fun list_all_in :: "(string \<Rightarrow> bool) \<Rightarrow> wtree \<Rightarrow> string list \<Rightarrow> list_err + string list" where
  "list_all_in unreadable t [] = Inr []"
| "list_all_in unreadable t (ns # nss) =
     (case ListProjects (unreadable ns) t ns of
        Inl e \<Rightarrow> Inl e
      | Inr ps \<Rightarrow> (case list_all_in unreadable t nss of Inl e \<Rightarrow> Inl e | Inr r \<Rightarrow> Inr (map (\<lambda>p. ns @ ''/'' @ p) ps @ r)))"

definition ListAllProjects :: "('r, 'u, 'o) life_env \<Rightarrow> (string \<Rightarrow> bool) \<Rightarrow> ('r, 'u, 'o) life \<Rightarrow> list_err + string list" where
  "ListAllProjects E unreadable s = map_sum id sort (list_all_in unreadable (lf_tree s) (ListNamespaces E s))"

text \<open>\<open>reconcileManagedRegistry\<close>; \<open>fails i\<close> is the fault of its \<open>i\<close>-th change.\<close>

fun adopt_all :: "('r, 'u, 'o) life_env \<Rightarrow> (nat \<Rightarrow> bool) \<Rightarrow> nat \<Rightarrow> (string \<times> string) list \<Rightarrow> ('r, 'u, 'o) life \<Rightarrow> ('r, 'u, 'o) life" where
  "adopt_all E fails i [] s = s"
| "adopt_all E fails i ((ns, p) # ps) s = adopt_all E fails (Suc i) ps (snd (reg_call E (fails (Suc i)) (OpAdd ns p) s))"

definition reconcileManagedRegistry ::
    "('r, 'u, 'o) life_env \<Rightarrow> (nat \<Rightarrow> bool) \<Rightarrow> (string \<times> string) list \<Rightarrow> ('r, 'u, 'o) life \<Rightarrow> ('r, 'u, 'o) life" where
  "reconcileManagedRegistry E fails projects s =
     (let s1 = (if reg_IsEmpty (le_reg E) (lf_reg s) then adopt_all E fails 0 projects s else s) in
      snd (reg_call E (fails 0) (OpEnsure DefaultNamespace) s1))"


section \<open>What one call does\<close>

definition life_ok :: "('r, 'u, 'o) life_env \<Rightarrow> ('r, 'u, 'o) life \<Rightarrow> bool" where
  "life_ok E s \<longleftrightarrow>
     bolt_ok (le_reg E) \<and> reg_ok (le_reg E) (lf_reg s) \<and> (\<forall>a. lf_auth s = Some a \<longrightarrow> auth_ok (le_users E) (le_tokens E) a)"

definition env_works :: "('r, 'u, 'o) life_env \<Rightarrow> bool" where
  "env_works E \<longleftrightarrow> bolt_works (le_reg E) \<and> bolt_works (le_users E) \<and> bolt_works (le_tokens E)"

definition life_managed :: "('r, 'u, 'o) life_env \<Rightarrow> ('r, 'u, 'o) life \<Rightarrow> reg_map" where
  "life_managed E s = managed (le_reg E) (lf_reg s)"

definition life_journal :: "('r, 'u, 'o) life_env \<Rightarrow> ('r, 'u, 'o) life \<Rightarrow> op_journal option" where
  "life_journal E s = journal (le_reg E) (lf_reg s)"

definition life_held :: "('r, 'u, 'o) life_env \<Rightarrow> ('r, 'u, 'o) life \<Rightarrow> scope_holder \<Rightarrow> string option" where
  "life_held E s h = Option.bind (lf_auth s) (\<lambda>a. held (le_users E) (le_tokens E) a h)"

lemma faulty_reg [simp]: "reg_ok (faulty f B) = reg_ok B" "managed (faulty f B) = managed B" "journal (faulty f B) = journal B"
  by (auto simp: reg_ok_def managed_def journal_def fun_eq_iff)

lemma setOpJournal_ok:
  assumes "life_ok E s"
  shows "life_ok E (setOpJournal E f j s)" "life_managed E (setOpJournal E f j s) = life_managed E s"
    "lf_tree (setOpJournal E f j s) = lf_tree s" "lf_auth (setOpJournal E f j s) = lf_auth s"
    "life_journal E (setOpJournal E f j s) \<in> {life_journal E s, Some j}"
  using assms SetOpJournal_ok [OF faulty_ok, of "le_reg E" f "lf_reg s" j]
  by (auto simp: setOpJournal_def life_ok_def life_managed_def life_journal_def split: sum.split)

lemma setOpJournal_works:
  assumes "life_ok E s" "env_works E"
  shows "life_journal E (setOpJournal E False j s) = Some j"
proof -
  have b: "b_bucket (le_reg E) (lf_reg s) journalBucket" using assms(1) reg_okD(2) by (auto simp: life_ok_def)
  have w: "bolt_works (le_reg E)" using assms(2) by (simp add: env_works_def)
  obtain db1 where "b_put (le_reg E) journalBucket journalKey (JournalRow j) (lf_reg s) = Some db1"
    using bolt_worksD(1) [OF w b, of journalKey "JournalRow j"] by auto
  moreover obtain r where "b_commit (le_reg E) db1 = Some r" using bolt_worksD(3) [OF w, of db1] by auto
  ultimately have "SetOpJournal (le_reg E) j (lf_reg s) = Inr r" by (simp add: SetOpJournal_def transact_def)
  then show ?thesis using SetOpJournal_ok [of "le_reg E" "lf_reg s" j r] assms(1)
    by (simp add: setOpJournal_def life_journal_def life_ok_def)
qed

lemma clearOpJournal_ok:
  assumes "life_ok E s"
  shows "life_ok E (clearOpJournal E f s)" "life_managed E (clearOpJournal E f s) = life_managed E s"
    "lf_tree (clearOpJournal E f s) = lf_tree s" "lf_auth (clearOpJournal E f s) = lf_auth s"
    "life_journal E (clearOpJournal E f s) \<in> {life_journal E s, None}"
  using assms ClearOpJournal_ok [OF faulty_ok, of "le_reg E" f "lf_reg s"]
  by (auto simp: clearOpJournal_def life_ok_def life_managed_def life_journal_def split: sum.split)

lemma clearOpJournal_works:
  assumes "life_ok E s" "env_works E"
  shows "life_journal E (clearOpJournal E False s) = None"
proof -
  have b: "b_bucket (le_reg E) (lf_reg s) journalBucket" using assms(1) reg_okD(2) by (auto simp: life_ok_def)
  have w: "bolt_works (le_reg E)" using assms(2) by (simp add: env_works_def)
  obtain db1 where "b_delete (le_reg E) journalBucket journalKey (lf_reg s) = Some db1"
    using bolt_worksD(2) [OF w b, of journalKey] by auto
  moreover obtain r where "b_commit (le_reg E) db1 = Some r" using bolt_worksD(3) [OF w, of db1] by auto
  ultimately have "ClearOpJournal (le_reg E) (lf_reg s) = Inr r" by (simp add: ClearOpJournal_def reg_delete_def transact_def)
  then show ?thesis using ClearOpJournal_ok [of "le_reg E" "lf_reg s" r] assms(1)
    by (simp add: clearOpJournal_def life_journal_def life_ok_def)
qed

lemma reg_call_cases:
  assumes "life_ok E s"
  obtains (changed) s' where "reg_call E f op s = (None, s')" "life_ok E s'" "reg_spec op (life_managed E s) = Some (life_managed E s')"
      "life_journal E s' = life_journal E s" "lf_tree s' = lf_tree s" "lf_auth s' = lf_auth s"
    | (failed) e where "reg_call E f op s = (Some (RegFails e), s)" "e = RegTx \<or> reg_spec op (life_managed E s) = None"
proof (cases "reg_apply (faulty f (le_reg E)) (le_now E) op (lf_reg s)")
  case (Inl e)
  have ok: "bolt_ok (faulty f (le_reg E))" "reg_ok (faulty f (le_reg E)) (lf_reg s)" using assms by (simp_all add: life_ok_def faulty_ok)
  have "e = RegTx \<or> reg_spec op (life_managed E s) = None"
    using reg_apply_outcome [OF ok, of "le_now E" op] Inl by (simp add: reg_outcome_def life_managed_def)
  then show ?thesis using failed Inl by (simp add: reg_call_def)
next
  case (Inr r)
  have ok: "bolt_ok (faulty f (le_reg E))" "reg_ok (faulty f (le_reg E)) (lf_reg s)" using assms by (simp_all add: life_ok_def faulty_ok)
  have "reg_ok (le_reg E) r \<and> reg_spec op (managed (le_reg E) (lf_reg s)) = Some (managed (le_reg E) r) \<and>
      journal (le_reg E) r = journal (le_reg E) (lf_reg s)"
    using reg_apply_outcome [OF ok, of "le_now E" op] Inr by (auto simp: reg_outcome_def reg_step_def split: option.splits)
  then show ?thesis using changed [of "s\<lparr>lf_reg := r\<rparr>"] Inr assms
    by (simp add: reg_call_def life_ok_def life_managed_def life_journal_def)
qed

end
