(* ===== verification/Project_Recovery.thy ===== *)
theory Project_Recovery
  imports Project_Life
begin

text \<open>
  The journal and the recovery of the special operations (\<open>internal/storage/projectmove.go\<close>,
  \<open>projectrename.go\<close>): where a project or a namespace can be after a crash, what start-up makes of
  it, and that an operation together with the recoveries that follow it happens wholly or not at all.
\<close>

section \<open>A registry that does not fail\<close>

lemma putRecord_stays:
  assumes "bolt_ok B" "bolt_works B" "b_bucket B db namespacesBucket"
  shows "\<exists>db'. putRecord B r db = Inr db' \<and> b_bucket B db' namespacesBucket" "\<exists>db'. reg_delete B namespacesBucket k db = Inr db'"
proof -
  obtain db' where p: "b_put B namespacesBucket (nr_Name r) (RegRow r) db = Some db'"
    using bolt_worksD(1) [OF assms(2,3), of "nr_Name r" "RegRow r"] by auto
  moreover have "b_bucket B db' namespacesBucket" using put_reads(2) [OF assms(1) p assms(3)] assms(3) by simp
  ultimately show "\<exists>db'. putRecord B r db = Inr db' \<and> b_bucket B db' namespacesBucket" by (auto simp: putRecord_def)
  show "\<exists>db'. reg_delete B namespacesBucket k db = Inr db'"
    using bolt_worksD(2) [OF assms(2,3), of k] by (auto simp: reg_delete_def)
qed

lemma putRecord_not_failing:
  assumes "bolt_ok B" "bolt_works B" "b_bucket B db namespacesBucket"
  shows "putRecord B r db \<noteq> Inl e" "reg_delete B namespacesBucket k db \<noteq> Inl e"
    "putRecord B r db = Inr db' \<Longrightarrow> b_bucket B db' namespacesBucket"
  using putRecord_stays(1) [OF assms, of r] putRecord_stays(2) [OF assms, of k] by auto

lemma loadRecord_not_tx: "reg_ok B db \<Longrightarrow> loadRecord B db ns \<noteq> Inl e"
  by (erule loadRecord_ok [of B db ns]) simp_all

text \<open>With no fault of the database, an operation fails only where the map refuses it.\<close>

lemma reg_apply_works:
  assumes "bolt_ok B" "bolt_works B" "reg_ok B db"
  shows "reg_apply B now op db \<noteq> Inl RegTx"
proof
  assume f: "reg_apply B now op db = Inl RegTx"
  note b = reg_okD(1) [OF assms(3)]
  note w = putRecord_not_failing(1,2) [OF assms(1,2) b] loadRecord_not_tx [OF assms(3)]
  note w3 = putRecord_not_failing(1,2) [OF assms(1,2) putRecord_not_failing(3) [OF assms(1,2) b]]
  note tw = transact_works [OF assms(2)]
  show False
  proof (cases op)
    case (OpAdd ns p)
    with f w show ?thesis by (auto simp: AddProject_def Let_def dest!: tw split: sum.splits option.splits if_splits)
  next
    case (OpRemove ns p)
    with f w show ?thesis by (auto simp: RemoveProject_def dest!: tw split: sum.splits option.splits)
  next
    case (OpEnsure ns)
    with f w show ?thesis by (auto simp: EnsureNamespace_def dest!: tw split: if_splits)
  next
    case (OpRemoveNs ns)
    with f w show ?thesis by (auto simp: RemoveNamespace_def dest!: tw)
  next
    case (OpMoveProject old p new)
    with f have "reg_MoveProject B now old p new db = Inl RegTx" by simp
    from tw [OF this [unfolded reg_MoveProject_def]] show ?thesis
      by (auto simp: w w3 Let_def split: sum.splits option.splits if_splits)
  next
    case (OpRenameProject ns old new)
    with f have "reg_RenameProject B ns old new db = Inl RegTx" by simp
    from tw [OF this [unfolded reg_RenameProject_def]] show ?thesis
      by (auto simp: w Let_def split: sum.splits option.splits if_splits)
  next
    case (OpRenameNamespace old new)
    with f have "reg_RenameNamespace B old new db = Inl RegTx" by simp
    from tw [OF this [unfolded reg_RenameNamespace_def]] show ?thesis
      by (auto simp: w w3 Let_def split: sum.splits option.splits if_splits)
  qed
qed

section \<open>The steps after the rename\<close>

definition outside :: "(string list \<times> string list) list \<Rightarrow> string list \<Rightarrow> bool" where
  "outside sibs q \<longleftrightarrow> (\<forall>(a, b)\<in>set sibs. \<not> prefix a q \<and> \<not> prefix b q)"

lemma outside_Cons [simp]: "outside ((a, b) # sibs) q \<longleftrightarrow> \<not> prefix a q \<and> \<not> prefix b q \<and> outside sibs q"
  "outside [] q"
  by (auto simp: outside_def)

lemma Remove_path_elsewhere:
  assumes "wt_ok t" "Remove_path f t p = Removed t'" "\<not> prefix p q"
  shows "node_at t' q = node_at t q"
proof -
  have "t' = kv_del p t" "p \<noteq> []" using assms(2) Remove_path_ok(3) [OF assms(1,2)]
    by (auto simp: Remove_path_def split: lookup.splits if_splits)
  then show ?thesis using assms(3) by (auto simp: node_at_del)
qed

lemma relocateSiblingDB_elsewhere:
  assumes "wt_ok t"
  shows "wt_ok (relocateSiblingDB f old new t)"
    "\<not> prefix old q \<Longrightarrow> \<not> prefix new q \<Longrightarrow> node_at (relocateSiblingDB f old new t) q = node_at t q"
proof -
  have ren: "wt_ok t1 \<and> (\<not> prefix old q \<longrightarrow> \<not> prefix new q \<longrightarrow> node_at t1 q = node_at t q)"
    if "Rename g t old new = Some t1" for g t1
  proof (cases "old = new")
    case True
    then show ?thesis using that assms by (auto simp: Rename_def split: if_splits)
  next
    case False
    then show ?thesis using Rename_ok [OF assms that False] by auto
  qed
  show "wt_ok (relocateSiblingDB f old new t)"
    using ren Remove_path_ok(1) [OF assms] assms by (auto simp: relocateSiblingDB_def split: option.split remove_res.split)
  show "\<not> prefix old q \<Longrightarrow> \<not> prefix new q \<Longrightarrow> node_at (relocateSiblingDB f old new t) q = node_at t q"
    using ren Remove_path_elsewhere [OF assms] by (auto simp: relocateSiblingDB_def split: option.split remove_res.split)
qed

text \<open>What the steps may not touch: everything but the siblings.\<close>

definition same_but_siblings ::
    "(string list \<times> string list) list \<Rightarrow> ('r, 'u, 'o) life \<Rightarrow> ('r, 'u, 'o) life \<Rightarrow> bool" where
  "same_but_siblings sibs s x \<longleftrightarrow>
     x = s\<lparr>lf_tree := lf_tree x\<rparr> \<and> wt_ok (lf_tree x) \<and> (\<forall>q. outside sibs q \<longrightarrow> node_at (lf_tree x) q = node_at (lf_tree s) q)"

lemma relocate_trace_keeps:
  "wt_ok (lf_tree s) \<Longrightarrow> x \<in> set (relocate_trace fs sibs s) \<Longrightarrow> same_but_siblings sibs s x"
proof (induction fs sibs s rule: relocate_trace.induct)
  case (2 fs old new ps s)
  define f where "f = (case fs of [] \<Rightarrow> (False, False) | f # fs \<Rightarrow> f)"
  define s1 where "s1 = s\<lparr>lf_tree := relocateSiblingDB f old new (lf_tree s)\<rparr>"
  note r = relocateSiblingDB_elsewhere [OF "2.prems"(1), where f = f and old = old and new = new]
  have one: "same_but_siblings ((old, new) # ps) s s1" using r by (simp add: same_but_siblings_def s1_def)
  have w1: "wt_ok (lf_tree s1)" using r by (simp add: s1_def)
  have "x = s1 \<or> x \<in> set (relocate_trace (tl fs) ps s1)" using "2.prems"(2) by (simp add: f_def s1_def Let_def)
  then show ?case
  proof
    assume "x \<in> set (relocate_trace (tl fs) ps s1)"
    then have "same_but_siblings ps s1 x" using "2.IH" [OF refl refl, folded f_def, folded s1_def, OF w1] by blast
    then show ?thesis using one by (auto simp: same_but_siblings_def s1_def)
  qed (use one in simp)
qed simp

text \<open>The cleaner changes scopes only, each at most as it is meant to.\<close>

definition rescoped :: "('r, 'u, 'o) life_env \<Rightarrow> (string \<Rightarrow> string) \<Rightarrow> ('r, 'u, 'o) life \<Rightarrow> ('r, 'u, 'o) life \<Rightarrow> bool" where
  "rescoped E fn s x \<longleftrightarrow>
     x = s\<lparr>lf_auth := lf_auth x\<rparr> \<and> life_ok E x \<and> (\<forall>h. life_held E x h \<in> {life_held E s h, map_option fn (life_held E s h)})"

lemma clean_trace_keeps:
  assumes "life_ok E s" "clean_trace E F fn s = (e, cs)"
  shows "\<forall>x\<in>set cs. rescoped E fn s x" "e = None \<Longrightarrow> life_held E (last (s # cs)) h = map_option fn (life_held E s h)"
proof -
  have "(\<forall>x\<in>set cs. rescoped E fn s x) \<and> (e = None \<longrightarrow> (\<forall>h. life_held E (last (s # cs)) h = map_option fn (life_held E s h)))"
  proof (cases "lf_auth s")
    case None
    then show ?thesis using assms by (simp add: clean_trace_def life_held_def)
  next
    case (Some a)
    let ?U = "faulty (of_users F) (le_users E)" and ?T = "faulty (of_tokens F) (le_tokens E)"
    have ok: "auth_ok (le_users E) (le_tokens E) a" using assms(1) Some by (simp add: life_ok_def)
    then have b: "bolt_ok (le_users E)" "bolt_ok (le_tokens E)" by (simp_all add: auth_ok_def)
    have ok': "auth_ok ?U ?T a" using ok by (simp add: auth_ok_faulty b)
    let ?r1 = "rewrite_users ?U (le_now E) fn a"
    note u = rewrite_users_cases [OF ok', where now = "le_now E" and fn = fn, unfolded held_faulty]
    note v = rewrite_series_cases [OF u(1), where fn = fn, unfolded held_faulty]
    have part1: "held (le_users E) (le_tokens E) (snd ?r1) h \<in> {held (le_users E) (le_tokens E) a h, map_option fn (held (le_users E) (le_tokens E) a h)}" for h
      using u(3,4) held_same(2) [OF u(2)] by (cases "fst ?r1"; cases "\<exists>k. h = Token k") auto
    have ok1: "auth_ok (le_users E) (le_tokens E) (snd ?r1)" using u(1) by (simp add: auth_ok_faulty b)
    have one: "rescoped E fn s (s\<lparr>lf_auth := Some (snd ?r1)\<rparr>)"
      using assms(1) part1 ok1 Some by (simp add: rescoped_def life_ok_def life_held_def)
    show ?thesis
    proof (cases "fst ?r1")
      case (Some e1)
      then have "cs = [s\<lparr>lf_auth := Some (snd ?r1)\<rparr>]" "e = Some (CleanFails e1)"
        using assms(2) \<open>lf_auth s = Some a\<close> by (auto simp: clean_trace_def split: prod.splits)
      then show ?thesis using one by simp
    next
      case None
      let ?r2 = "rewrite_series ?T fn (snd ?r1)"
      have c: "cs = [s\<lparr>lf_auth := Some (snd ?r1)\<rparr>, s\<lparr>lf_auth := Some (snd ?r2)\<rparr>]" "e = map_option CleanFails (fst ?r2)"
        using assms(2) Some None by (auto simp: clean_trace_def split: prod.splits)
      have ok2: "auth_ok (le_users E) (le_tokens E) (snd ?r2)" using v(1) by (simp add: auth_ok_faulty b)
      have all: "held (le_users E) (le_tokens E) (snd ?r2) h = map_option fn (held (le_users E) (le_tokens E) a h)" if "fst ?r2 = None" for h
      proof (cases "\<exists>k. h = Token k")
        case True
        then show ?thesis using v(3) [OF that] held_same(2) [OF u(2)] by auto
      next
        case False
        then show ?thesis using u(3) [OF None] held_same(1) [OF v(2)] by simp
      qed
      have part2: "held (le_users E) (le_tokens E) (snd ?r2) h \<in> {held (le_users E) (le_tokens E) a h, map_option fn (held (le_users E) (le_tokens E) a h)}" for h
        using all v(4) part1 by (cases "fst ?r2") auto
      have "rescoped E fn s (s\<lparr>lf_auth := Some (snd ?r2)\<rparr>)"
        using assms(1) part2 ok2 Some by (simp add: rescoped_def life_ok_def life_held_def)
      then show ?thesis using one all c Some by (simp add: life_held_def)
    qed
  qed
  then show "\<forall>x\<in>set cs. rescoped E fn s x" "e = None \<Longrightarrow> life_held E (last (s # cs)) h = map_option fn (life_held E s h)" by auto
qed

section \<open>Before and after\<close>

text \<open>The operation has not happened, has moved the directory and perhaps more, has happened.\<close>

definition at_old :: "('r, 'u, 'o) life_env \<Rightarrow> ('r, 'u, 'o) life \<Rightarrow> ('r, 'u, 'o) life \<Rightarrow> bool" where
  "at_old E s0 s \<longleftrightarrow>
     life_ok E s \<and> lf_tree s = lf_tree s0 \<and> life_managed E s = life_managed E s0 \<and> life_held E s = life_held E s0"

definition moved_node :: "wtree \<Rightarrow> string list \<Rightarrow> string list \<Rightarrow> string list \<Rightarrow> node option" where
  "moved_node t src dst q =
     (if prefix dst q then node_at t (src @ drop (length dst) q) else if prefix src q then None else node_at t q)"

record relocation =
  rl_src :: "string list"
  rl_dst :: "string list"
  rl_sibs :: "(string list \<times> string list) list"
  rl_reg :: reg_op
  rl_scope :: "string \<Rightarrow> string"
  rl_journal :: op_journal

definition at_new :: "('r, 'u, 'o) life_env \<Rightarrow> relocation \<Rightarrow> ('r, 'u, 'o) life \<Rightarrow> ('r, 'u, 'o) life \<Rightarrow> bool" where
  "at_new E R s0 s \<longleftrightarrow>
     life_ok E s \<and> wt_ok (lf_tree s) \<and> node_at (lf_tree s0) (rl_src R) \<noteq> None \<and>
     (\<forall>q. outside (rl_sibs R) q \<longrightarrow> node_at (lf_tree s) q = moved_node (lf_tree s0) (rl_src R) (rl_dst R) q) \<and>
     Some (life_managed E s) \<in> {Some (life_managed E s0), reg_spec (rl_reg R) (life_managed E s0)} \<and>
     (\<forall>h. life_held E s h \<in> {life_held E s0 h, map_option (rl_scope R) (life_held E s0 h)})"

definition all_new :: "('r, 'u, 'o) life_env \<Rightarrow> relocation \<Rightarrow> ('r, 'u, 'o) life \<Rightarrow> ('r, 'u, 'o) life \<Rightarrow> bool" where
  "all_new E R s0 s \<longleftrightarrow>
     at_new E R s0 s \<and> reg_spec (rl_reg R) (life_managed E s0) = Some (life_managed E s) \<and>
     (\<forall>h. life_held E s h = map_option (rl_scope R) (life_held E s0 h))"

text \<open>The steps of the relocation may be repeated.\<close>

definition resumable :: "('r, 'u, 'o) life_env \<Rightarrow> relocation \<Rightarrow> ('r, 'u, 'o) life \<Rightarrow> bool" where
  "resumable E R s0 \<longleftrightarrow>
     life_ok E s0 \<and> wt_ok (lf_tree s0) \<and> rl_src R \<noteq> rl_dst R \<and> re_runs (rl_reg R) \<and>
     reg_spec (rl_reg R) (life_managed E s0) \<noteq> None \<and> (\<forall>x. rl_scope R (rl_scope R x) = rl_scope R x)"

lemma at_new_relocated:
  assumes "at_new E R s0 s" "same_but_siblings (rl_sibs R) s x"
  shows "at_new E R s0 x" "life_journal E x = life_journal E s"
proof -
  have r: "lf_reg x = lf_reg s" "lf_auth x = lf_auth s"
    using assms(2) by (metis same_but_siblings_def life.select_convs life.surjective life.update_convs)+
  then show "at_new E R s0 x" "life_journal E x = life_journal E s"
    using assms by (auto simp: at_new_def same_but_siblings_def life_ok_def life_managed_def life_held_def life_journal_def)
qed

lemma at_new_rescoped:
  assumes "resumable E R s0" "at_new E R s0 s" "rescoped E (rl_scope R) s x"
  shows "at_new E R s0 x" "life_journal E x = life_journal E s" "life_managed E x = life_managed E s"
proof -
  have r: "lf_reg x = lf_reg s" "lf_tree x = lf_tree s"
    using assms(3) by (metis rescoped_def life.select_convs life.surjective life.update_convs)+
  have twice: "map_option (rl_scope R) (map_option (rl_scope R) y) = map_option (rl_scope R) y" for y
    using assms(1) by (cases y) (simp_all add: resumable_def)
  have "life_held E x h \<in> {life_held E s0 h, map_option (rl_scope R) (life_held E s0 h)}" for h
  proof -
    have "life_held E x h \<in> {life_held E s h, map_option (rl_scope R) (life_held E s h)}" using assms(3) by (simp add: rescoped_def)
    moreover have "life_held E s h \<in> {life_held E s0 h, map_option (rl_scope R) (life_held E s0 h)}" using assms(2) by (simp add: at_new_def)
    ultimately show ?thesis using twice by auto
  qed
  then show "at_new E R s0 x" "life_journal E x = life_journal E s" "life_managed E x = life_managed E s"
    using assms(2,3) r by (auto simp: at_new_def rescoped_def life_managed_def life_journal_def)
qed

lemma at_new_registered:
  assumes "resumable E R s0" "at_new E R s0 s" "reg_call E f (rl_reg R) s = (e, x)"
  shows "at_new E R s0 x" "life_journal E x = life_journal E s"
    "e = None \<Longrightarrow> reg_spec (rl_reg R) (life_managed E s0) = Some (life_managed E x)" "e \<noteq> None \<Longrightarrow> x = s"
    "e \<noteq> None \<Longrightarrow> e = Some (RegFails RegTx)"
proof -
  have ok: "life_ok E s" using assms(2) by (simp add: at_new_def)
  obtain m1 where m1: "reg_spec (rl_reg R) (life_managed E s0) = Some m1" using assms(1) by (auto simp: resumable_def)
  have again: "reg_spec (rl_reg R) m1 = Some m1" using reg_spec_again [OF _ m1] assms(1) by (simp add: resumable_def)
  have m: "life_managed E s \<in> {life_managed E s0, m1}" using assms(2) m1 by (auto simp: at_new_def)
  have "at_new E R s0 x \<and> life_journal E x = life_journal E s \<and>
      (e = None \<longrightarrow> life_managed E x = m1) \<and> (e \<noteq> None \<longrightarrow> x = s \<and> e = Some (RegFails RegTx))"
  proof (rule reg_call_cases [OF ok, of f "rl_reg R"])
    fix s' assume s': "reg_call E f (rl_reg R) s = (None, s')" "life_ok E s'"
      "reg_spec (rl_reg R) (life_managed E s) = Some (life_managed E s')" "life_journal E s' = life_journal E s"
      "lf_tree s' = lf_tree s" "lf_auth s' = lf_auth s"
    have "life_managed E s' = m1" using s'(3) m m1 again by auto
    then show ?thesis using s' assms(2,3) m1 by (auto simp: at_new_def life_held_def)
  next
    fix e' assume e': "reg_call E f (rl_reg R) s = (Some (RegFails e'), s)" "e' = RegTx \<or> reg_spec (rl_reg R) (life_managed E s) = None"
    have "e' = RegTx" using e'(2) m m1 again by auto
    then show ?thesis using e' assms(2,3) by auto
  qed
  then show "at_new E R s0 x" "life_journal E x = life_journal E s"
    "e = None \<Longrightarrow> reg_spec (rl_reg R) (life_managed E s0) = Some (life_managed E x)" "e \<noteq> None \<Longrightarrow> x = s"
    "e \<noteq> None \<Longrightarrow> e = Some (RegFails RegTx)"
    using m1 by auto
qed

definition complete_rl ::
    "('r, 'u, 'o) life_env \<Rightarrow> op_faults \<Rightarrow> relocation \<Rightarrow> ('r, 'u, 'o) life \<Rightarrow> life_err option \<times> ('r, 'u, 'o) life list" where
  "complete_rl E F R = complete_op E F (rl_sibs R) (rl_reg R) (rl_scope R)"

lemma complete_keeps:
  assumes "resumable E R s0" "at_new E R s0 s" "complete_rl E F R s = (e, ss)"
  shows "\<forall>x\<in>set ss. at_new E R s0 x \<and> life_journal E x = life_journal E s" "e = None \<Longrightarrow> all_new E R s0 (last (s # ss))"
proof -
  define ts where "ts = relocate_trace (of_sib F) (rl_sibs R) s"
  have ts: "\<forall>x\<in>set ts. at_new E R s0 x \<and> life_journal E x = life_journal E s"
    using at_new_relocated [OF assms(2)] relocate_trace_keeps assms(2) unfolding ts_def by (metis at_new_def)
  define s1 where "s1 = last (s # ts)"
  have s1: "at_new E R s0 s1" "life_journal E s1 = life_journal E s"
    using ts assms(2) last_in_set [of "s # ts"] by (auto simp: s1_def split: if_splits)
  obtain e2 s2 where r: "reg_call E (of_reg F) (rl_reg R) s1 = (e2, s2)" by fastforce
  note s2 = at_new_registered [OF assms(1) s1(1) r]
  have "(\<forall>x\<in>set ss. at_new E R s0 x \<and> life_journal E x = life_journal E s) \<and> (e = None \<longrightarrow> all_new E R s0 (last (s # ss)))"
  proof (cases e2)
    case (Some e3)
    then have "e = Some e3" "ss = ts"
      using assms(3) r by (simp_all add: complete_rl_def complete_op_def ts_def [symmetric] s1_def [symmetric] Let_def del: last.simps)
    then show ?thesis using ts by simp
  next
    case None
    obtain e3 cs where c: "clean_trace E F (rl_scope R) s2 = (e3, cs)" by fastforce
    have eq: "e = e3" "ss = ts @ s2 # cs"
      using assms(3) r None c by (simp_all add: complete_rl_def complete_op_def ts_def [symmetric] s1_def [symmetric] Let_def del: last.simps)
    have ok2: "life_ok E s2" using s2(1) by (simp add: at_new_def)
    note k = clean_trace_keeps [OF ok2 c]
    have cs: "\<forall>x\<in>set cs. at_new E R s0 x \<and> life_journal E x = life_journal E s \<and> life_managed E x = life_managed E s2"
      using at_new_rescoped [OF assms(1) s2(1)] k(1) s2(2) s1(2) by metis
    have l: "at_new E R s0 (last (s2 # cs))" "life_managed E (last (s2 # cs)) = life_managed E s2"
      using cs s2(1) last_in_set [of "s2 # cs"] by (auto split: if_splits)
    have "all_new E R s0 (last (s2 # cs))" if "e3 = None"
    proof -
      have twice: "map_option (rl_scope R) (map_option (rl_scope R) y) = map_option (rl_scope R) y" for y
        using assms(1) by (cases y) (simp_all add: resumable_def)
      have "life_held E s2 h \<in> {life_held E s0 h, map_option (rl_scope R) (life_held E s0 h)}" for h
        using s2(1) by (simp add: at_new_def)
      then have "life_held E (last (s2 # cs)) h = map_option (rl_scope R) (life_held E s0 h)" for h
        using k(2) [OF that, of h] twice by (metis insertE singletonD)
      then show ?thesis using l s2(3) [OF None] by (simp add: all_new_def)
    qed
    then show ?thesis using eq ts cs s2(1,2) s1(2) by auto
  qed
  then show "\<forall>x\<in>set ss. at_new E R s0 x \<and> life_journal E x = life_journal E s" "e = None \<Longrightarrow> all_new E R s0 (last (s # ss))" by auto
qed

lemma clean_trace_works:
  assumes "life_ok E s" "env_works E" "\<not> of_users F" "\<not> of_tokens F"
  shows "fst (clean_trace E F fn s) = None"
proof (cases "lf_auth s")
  case (Some a)
  have "auth_ok (le_users E) (le_tokens E) a" using assms(1) Some by (simp add: life_ok_def)
  from rewrite_stores_works [OF this, of "le_now E" fn] assms(2)
  have "fst (rewrite_stores (le_users E) (le_tokens E) (le_now E) fn a) = None" by (simp add: env_works_def)
  then show ?thesis using Some assms(3,4)
    by (auto simp: rewrite_stores_def clean_trace_def split: prod.splits option.splits)
qed (simp add: clean_trace_def)

lemma complete_works:
  assumes "resumable E R s0" "at_new E R s0 s" "env_works E" "\<not> of_reg F" "\<not> of_users F" "\<not> of_tokens F"
  shows "fst (complete_rl E F R s) = None"
proof -
  define ts where "ts = relocate_trace (of_sib F) (rl_sibs R) s"
  have "\<forall>x\<in>set ts. at_new E R s0 x"
    using at_new_relocated [OF assms(2)] relocate_trace_keeps assms(2) unfolding ts_def by (metis at_new_def)
  moreover define s1 where "s1 = last (s # ts)"
  ultimately have s1: "at_new E R s0 s1" using assms(2) last_in_set [of "s # ts"] by (auto split: if_splits)
  obtain e2 s2 where r: "reg_call E (of_reg F) (rl_reg R) s1 = (e2, s2)" by fastforce
  note s2 = at_new_registered [OF assms(1) s1 r]
  have ok: "life_ok E s1" "life_ok E s2" using s1 s2(1) by (simp_all add: at_new_def)
  have "e2 = None"
  proof (rule ccontr)
    assume "e2 \<noteq> None"
    then have "reg_apply (le_reg E) (le_now E) (rl_reg R) (lf_reg s1) = Inl RegTx"
      using s2(5) r assms(4) by (auto simp: reg_call_def split: sum.splits)
    then show False using reg_apply_works [of "le_reg E" "lf_reg s1"] ok(1) assms(3) by (auto simp: life_ok_def env_works_def)
  qed
  then have "complete_rl E F R s = (case clean_trace E F (rl_scope R) s2 of (e, cs) \<Rightarrow> (e, ts @ s2 # cs))"
    using r by (simp add: complete_rl_def complete_op_def ts_def [symmetric] s1_def [symmetric] Let_def del: last.simps)
  then show ?thesis using clean_trace_works [OF ok(2) assms(3,5,6), of "rl_scope R"]
    by (cases "clean_trace E F (rl_scope R) s2") simp
qed

section \<open>The journal\<close>

definition pending :: "('r, 'u, 'o) life_env \<Rightarrow> relocation \<Rightarrow> ('r, 'u, 'o) life \<Rightarrow> bool" where
  "pending E R s \<longleftrightarrow> (\<exists>ph. life_journal E s = Some (rl_journal R\<lparr>oj_Phase := ph\<rparr>))"

text \<open>
  The states an operation and the recoveries after it may leave behind: the journal is there and the
  directory is before or after the move, or the journal is gone and nothing or everything happened.
\<close>

definition recoverable :: "('r, 'u, 'o) life_env \<Rightarrow> relocation \<Rightarrow> ('r, 'u, 'o) life \<Rightarrow> ('r, 'u, 'o) life \<Rightarrow> bool" where
  "recoverable E R s0 s \<longleftrightarrow>
     pending E R s \<and> (at_old E s0 s \<or> at_new E R s0 s) \<or> life_journal E s = None \<and> (at_old E s0 s \<or> all_new E R s0 s)"

lemma at_transfer:
  assumes "life_ok E x" "lf_tree x = lf_tree s" "lf_auth x = lf_auth s" "life_managed E x = life_managed E s"
  shows "at_old E s0 s \<Longrightarrow> at_old E s0 x" "at_new E R s0 s \<Longrightarrow> at_new E R s0 x" "all_new E R s0 s \<Longrightarrow> all_new E R s0 x"
proof -
  have "life_held E x = life_held E s" using assms(3) by (intro ext) (simp add: life_held_def)
  then show "at_old E s0 s \<Longrightarrow> at_old E s0 x" "at_new E R s0 s \<Longrightarrow> at_new E R s0 x" "all_new E R s0 s \<Longrightarrow> all_new E R s0 x"
    using assms by (simp_all add: at_old_def at_new_def all_new_def)
qed

lemma journal_writes:
  assumes "life_ok E s"
  shows "at_old E s0 s \<Longrightarrow> at_old E s0 (setOpJournal E f j s)" "at_old E s0 s \<Longrightarrow> at_old E s0 (clearOpJournal E f s)"
    "at_new E R s0 s \<Longrightarrow> at_new E R s0 (setOpJournal E f j s)" "at_new E R s0 s \<Longrightarrow> at_new E R s0 (clearOpJournal E f s)"
    "all_new E R s0 s \<Longrightarrow> all_new E R s0 (clearOpJournal E f s)"
    "pending E R s \<Longrightarrow> pending E R (setOpJournal E f (rl_journal R\<lparr>oj_Phase := ph\<rparr>) s)"
    "pending E R s \<Longrightarrow> pending E R (clearOpJournal E f s) \<or> life_journal E (clearOpJournal E f s) = None"
  using at_transfer [OF setOpJournal_ok(1,3,4,2) [OF assms]] at_transfer [OF clearOpJournal_ok(1,3,4,2) [OF assms]]
    setOpJournal_ok(5) [OF assms, of f "rl_journal R\<lparr>oj_Phase := ph\<rparr>"] clearOpJournal_ok(5) [OF assms, of f]
  by (auto simp: pending_def)

lemma all_new_at_new: "all_new E R s0 s \<Longrightarrow> at_new E R s0 s"
  by (simp add: all_new_def)

lemma at_ok: "at_old E s0 s \<Longrightarrow> life_ok E s" "at_new E R s0 s \<Longrightarrow> life_ok E s"
  by (simp_all add: at_old_def at_new_def)

lemma clear_recoverable:
  assumes "pending E R s" "at_old E s0 s \<or> all_new E R s0 s"
  shows "recoverable E R s0 (clearOpJournal E f s)"
    "\<not> f \<Longrightarrow> env_works E \<Longrightarrow> life_journal E (clearOpJournal E f s) = None"
    "at_old E s0 (clearOpJournal E f s) \<or> all_new E R s0 (clearOpJournal E f s)"
proof -
  have ok: "life_ok E s" using assms(2) at_ok all_new_at_new by blast
  note w = journal_writes [OF ok]
  show "at_old E s0 (clearOpJournal E f s) \<or> all_new E R s0 (clearOpJournal E f s)" using w(2,5) assms(2) by blast
  then show "recoverable E R s0 (clearOpJournal E f s)"
    using w(7) [OF assms(1), of f] all_new_at_new unfolding recoverable_def by blast
  show "\<not> f \<Longrightarrow> env_works E \<Longrightarrow> life_journal E (clearOpJournal E f s) = None"
    using clearOpJournal_works [OF ok] by simp
qed

lemma Rename_at_new:
  assumes "resumable E R s0" "at_old E s0 s" "Rename f (lf_tree s) (rl_src R) (rl_dst R) = Some t"
  shows "at_new E R s0 (s\<lparr>lf_tree := t\<rparr>)"
proof -
  have t: "lf_tree s = lf_tree s0" using assms(2) by (simp add: at_old_def)
  have same: "life_managed E (s\<lparr>lf_tree := t\<rparr>) = life_managed E s" "life_held E (s\<lparr>lf_tree := t\<rparr>) = life_held E s"
    "life_ok E (s\<lparr>lf_tree := t\<rparr>) = life_ok E s"
    by (simp_all add: life_managed_def life_held_def life_ok_def fun_eq_iff)
  have "wt_ok (lf_tree s0)" "rl_src R \<noteq> rl_dst R" using assms(1) by (simp_all add: resumable_def)
  from Rename_ok(1,2,7) [OF this(1) assms(3) [unfolded t] this(2)]
  show ?thesis using assms(2) by (auto simp: at_new_def at_old_def same moved_node_def)
qed

lemma setOpJournal_fails: "setOpJournal E True j s = s"
  by (simp add: setOpJournal_def SetOpJournal_def transact_def faulty_def split: option.split)

lemma setOpJournal_pending:
  assumes "life_ok E s" "env_works E"
  shows "pending E R (setOpJournal E False (rl_journal R\<lparr>oj_Phase := ph\<rparr>) s)"
  using setOpJournal_works [OF assms] by (auto simp: pending_def)

text \<open>
  What the journal says after an operation's two writes to it, both best effort: the operation, or what
  it said before when both failed.
\<close>

definition recorded :: "('r, 'u, 'o) life_env \<Rightarrow> op_faults \<Rightarrow> relocation \<Rightarrow> ('r, 'u, 'o) life \<Rightarrow> ('r, 'u, 'o) life \<Rightarrow> bool" where
  "recorded E F R s0 s \<longleftrightarrow> (if of_start F \<and> of_moved F then life_journal E s = life_journal E s0 else pending E R s)"

lemma journal_steps:
  assumes "resumable E R s0" "env_works E"
    and "s1 = setOpJournal E (of_start F) (rl_journal R) s0"
    and "Rename (of_rename F) (lf_tree s1) (rl_src R) (rl_dst R) = Some t"
    and "s2 = s1\<lparr>lf_tree := t\<rparr>" "s3 = setOpJournal E (of_moved F) (rl_journal R\<lparr>oj_Phase := movePhaseDirMoved\<rparr>) s2"
  shows "at_new E R s0 s2" "if of_start F then life_journal E s2 = life_journal E s0 else pending E R s2"
    "at_new E R s0 s3" "recorded E F R s0 s3" "at_old E s0 s1" "if of_start F then s1 = s0 else pending E R s1"
proof -
  have ok0: "life_ok E s0" using assms(1) by (simp add: resumable_def)
  have "at_old E s0 s0" using ok0 by (simp add: at_old_def)
  then show o1: "at_old E s0 s1" unfolding assms(3) by (rule journal_writes(1) [OF ok0])
  have "rl_journal R\<lparr>oj_Phase := oj_Phase (rl_journal R)\<rparr> = rl_journal R" by simp
  then have "pending E R (setOpJournal E False (rl_journal R) s0)" using setOpJournal_pending [OF ok0 assms(2)] by metis
  then show p1: "if of_start F then s1 = s0 else pending E R s1" unfolding assms(3) by (simp add: setOpJournal_fails)
  show n2: "at_new E R s0 s2" unfolding assms(5) by (rule Rename_at_new [OF assms(1) o1 assms(4)])
  show p2: "if of_start F then life_journal E s2 = life_journal E s0 else pending E R s2"
    using p1 by (simp add: pending_def life_journal_def assms(5) split: if_splits)
  show "at_new E R s0 s3" unfolding assms(6) by (rule journal_writes(3) [OF at_ok(2) [OF n2] n2])
  show "recorded E F R s0 s3"
  proof (cases "of_moved F")
    case True
    then show ?thesis using p2 by (simp add: recorded_def assms(6) setOpJournal_fails split: if_splits)
  next
    case False
    then show ?thesis using setOpJournal_pending [OF at_ok(2) [OF n2] assms(2)] by (simp add: recorded_def assms(6))
  qed
qed

lemma clear_recorded:
  assumes "recorded E F R s0 s" "all_new E R s0 s" "env_works E" "x = clearOpJournal E (of_clear F) s"
  shows "all_new E R s0 x" "life_journal E s0 = None \<Longrightarrow> recoverable E R s0 x" "\<not> of_clear F \<Longrightarrow> life_journal E x = None"
proof -
  have ok: "life_ok E s" using at_ok(2) [OF all_new_at_new [OF assms(2)]] .
  show n: "all_new E R s0 x" unfolding assms(4) by (rule journal_writes(5) [OF ok assms(2)])
  show "\<not> of_clear F \<Longrightarrow> life_journal E x = None" using clearOpJournal_works [OF ok assms(3)] by (simp add: assms(4))
  assume "life_journal E s0 = None"
  then show "recoverable E R s0 x"
    using assms(1,2) clear_recoverable(1) [of E R s s0 "of_clear F"] clearOpJournal_ok(5) [OF ok, of "of_clear F"] n
    by (auto simp: recorded_def recoverable_def assms(4) split: if_splits)
qed

lemma journaled_op_states:
  assumes "resumable E R s0" "env_works E"
    and "journaled_op E F (rl_journal R) (rl_src R) (rl_dst R) (complete_rl E F R) s0 = (e, ss)"
  shows "life_journal E s0 = None \<Longrightarrow> \<forall>x\<in>set ss. recoverable E R s0 x \<or> of_start F \<and> at_new E R s0 x \<and> life_journal E x = None"
    "ss \<noteq> []"
    "e = None \<Longrightarrow> all_new E R s0 (last ss) \<and> (\<not> of_clear F \<longrightarrow> life_journal E (last ss) = None)"
    "e = Some e' \<Longrightarrow> at_old E s0 (last ss) \<or> at_new E R s0 (last ss) \<and> recorded E F R s0 (last ss)"
proof -
  define s1 where "s1 = setOpJournal E (of_start F) (rl_journal R) s0"
  let ?ok = "\<lambda>x. recoverable E R s0 x \<or> of_start F \<and> at_new E R s0 x \<and> life_journal E x = None"
  have "(life_journal E s0 = None \<longrightarrow> (\<forall>x\<in>set ss. ?ok x)) \<and> ss \<noteq> [] \<and>
      (e = None \<longrightarrow> all_new E R s0 (last ss) \<and> (\<not> of_clear F \<longrightarrow> life_journal E (last ss) = None)) \<and>
      (e \<noteq> None \<longrightarrow> at_old E s0 (last ss) \<or> at_new E R s0 (last ss) \<and> recorded E F R s0 (last ss))"
  proof (cases "Rename (of_rename F) (lf_tree s1) (rl_src R) (rl_dst R)")
    case None
    have ok0: "life_ok E s0" using assms(1) by (simp add: resumable_def)
    have "at_old E s0 s0" using ok0 by (simp add: at_old_def)
    then have o1: "at_old E s0 s1" unfolding s1_def by (rule journal_writes(1) [OF ok0])
    note o = o1 journal_writes(2) [OF at_ok(1) [OF o1] o1, of "of_clear F"]
    have j: "pending E R x \<or> life_journal E x = None" if "life_journal E s0 = None" "x \<in> {s1, clearOpJournal E (of_clear F) s1}" for x
    proof -
      have "rl_journal R = rl_journal R\<lparr>oj_Phase := oj_Phase (rl_journal R)\<rparr>" by simp
      then have "pending E R s1 \<or> life_journal E s1 = None"
        using setOpJournal_ok(5) [OF ok0, of "of_start F" "rl_journal R"] that(1) unfolding s1_def pending_def by (metis insertE singletonD)
      then show ?thesis using that(2) clearOpJournal_ok(5) [OF at_ok(1) [OF o(1)], of "of_clear F"] by (auto simp: pending_def)
    qed
    have "e = Some RenameFails" "ss = [s1, clearOpJournal E (of_clear F) s1]"
      using assms(3) None by (simp_all add: journaled_op_def s1_def Let_def)
    then show ?thesis using o j [of s1] j [of "clearOpJournal E (of_clear F) s1"] by (auto simp: recoverable_def)
  next
    case (Some t)
    define s2 where "s2 = s1\<lparr>lf_tree := t\<rparr>"
    define s3 where "s3 = setOpJournal E (of_moved F) (rl_journal R\<lparr>oj_Phase := movePhaseDirMoved\<rparr>) s2"
    note st = journal_steps [OF assms(1,2) s1_def Some s2_def s3_def]
    obtain e4 cs where c: "complete_rl E F R s3 = (e4, cs)" by fastforce
    note k = complete_keeps [OF assms(1) st(3) c]
    have pn: "\<forall>x\<in>set (s3 # cs). at_new E R s0 x \<and> recorded E F R s0 x" using k(1) st(3,4) by (auto simp: recorded_def pending_def)
    have eq: "journaled_op E F (rl_journal R) (rl_src R) (rl_dst R) (complete_rl E F R) s0 =
        (case e4 of Some e \<Rightarrow> (Some e, s1 # s2 # s3 # cs) | None \<Rightarrow> (None, s1 # s2 # s3 # cs @ [clearOpJournal E (of_clear F) (last (s3 # cs))]))"
      using Some c
      by (cases e4) (simp_all add: journaled_op_def s1_def [symmetric] s2_def [symmetric] s3_def [symmetric] Let_def del: last.simps)
    have before: "?ok x" if "life_journal E s0 = None" "x \<in> set (s1 # s2 # s3 # cs)" for x
      using that st(1,2,5,6) pn by (auto simp: recoverable_def recorded_def split: if_splits)
    have "last (s3 # cs) \<in> set (s3 # cs)" by (rule last_in_set) simp
    then have l: "at_new E R s0 (last (s3 # cs))" "recorded E F R s0 (last (s3 # cs))" using pn by blast+
    show ?thesis
    proof (cases e4)
      case (Some e')
      then have "ss = s1 # s2 # s3 # cs" "e = Some e'" using eq assms(3) by simp_all
      then show ?thesis using before l by simp
    next
      case None
      define x where "x = clearOpJournal E (of_clear F) (last (s3 # cs))"
      note cl = clear_recorded [OF l(2) k(2) [OF None] assms(2) x_def]
      have "ss = (s1 # s2 # s3 # cs) @ [x]" "e = None" using eq assms(3) None by (simp_all add: x_def del: last.simps)
      then show ?thesis using before cl by auto
    qed
  qed
  then show "life_journal E s0 = None \<Longrightarrow> \<forall>x\<in>set ss. ?ok x" "ss \<noteq> []"
    "e = None \<Longrightarrow> all_new E R s0 (last ss) \<and> (\<not> of_clear F \<longrightarrow> life_journal E (last ss) = None)"
    "e = Some e' \<Longrightarrow> at_old E s0 (last ss) \<or> at_new E R s0 (last ss) \<and> recorded E F R s0 (last ss)" by auto
qed

section \<open>The three operations\<close>

datatype special_op = Move_project string string string | Rename_project string string string | Rename_namespace string string

fun relocation_of :: "special_op \<Rightarrow> relocation" where
  "relocation_of (Move_project old p new) =
     \<lparr>rl_src = [old, p], rl_dst = [new, p], rl_sibs = zip (siblingDBPaths old p) (siblingDBPaths new p),
      rl_reg = OpMoveProject old p new, rl_scope = (\<lambda>sc. fst (RewriteProjectGrants sc old p new p)),
      rl_journal = move_journal old p new\<rparr>"
| "relocation_of (Rename_project ns old new) =
     \<lparr>rl_src = [ns, old], rl_dst = [ns, new], rl_sibs = zip (siblingDBPaths ns old) (siblingDBPaths ns new),
      rl_reg = OpRenameProject ns old new, rl_scope = (\<lambda>sc. fst (RewriteProjectGrants sc ns old ns new)),
      rl_journal = rename_journal ns old new\<rparr>"
| "relocation_of (Rename_namespace old new) =
     \<lparr>rl_src = [old], rl_dst = [new], rl_sibs = [], rl_reg = OpRenameNamespace old new,
      rl_scope = (\<lambda>sc. fst (RewriteNamespaceGrants sc old new)), rl_journal = ns_journal old new\<rparr>"

fun run_special ::
    "('r, 'u, 'o) life_env \<Rightarrow> op_faults \<Rightarrow> string list list \<Rightarrow> special_op \<Rightarrow> ('r, 'u, 'o) life \<Rightarrow>
     life_err option \<times> ('r, 'u, 'o) life list" where
  "run_special E F leases (Move_project old p new) s = MoveProject E F leases old p new s"
| "run_special E F leases (Rename_project ns old new) s = RenameProject E F leases ns old new s"
| "run_special E F leases (Rename_namespace old new) s = RenameNamespace E F leases old new s"

text \<open>What the checks of each operation have established when it writes its journal.\<close>

fun launched :: "('r, 'u, 'o) life_env \<Rightarrow> special_op \<Rightarrow> ('r, 'u, 'o) life \<Rightarrow> bool" where
  "launched E (Move_project old p new) s \<longleftrightarrow>
     IsValidName old \<and> IsValidName p \<and> IsValidName new \<and> old \<noteq> new \<and> hasGitRepoAt (lf_tree s) [old, p] \<and>
     \<not> stat_ok (lf_tree s) [new, p] \<and> p \<notin> members (life_managed E s) new"
| "launched E (Rename_project ns old new) s \<longleftrightarrow>
     IsValidName ns \<and> IsValidName old \<and> IsValidName new \<and> old \<noteq> new \<and> hasGitRepoAt (lf_tree s) [ns, old] \<and>
     \<not> stat_ok (lf_tree s) [ns, new] \<and> new \<notin> members (life_managed E s) ns"
| "launched E (Rename_namespace old new) s \<longleftrightarrow>
     IsValidName old \<and> IsValidName new \<and> old \<noteq> new \<and> life_managed E s old \<noteq> None \<and> life_managed E s new = None \<and>
     \<not> stat_ok (lf_tree s) [new] \<and> path_lookup (lf_tree s) [old] \<in> {NotExist, IsDir}"

definition names_project :: "string \<Rightarrow> string \<Rightarrow> string \<Rightarrow> bool" where
  "names_project ns p sc \<longleftrightarrow>
     list_ex (\<lambda>t. \<not> g_Wildcard (parseGrant t) \<and> g_Namespace (parseGrant t) = ns \<and> g_Project (parseGrant t) = p) (scope_tokens sc)"

definition names_namespace :: "string \<Rightarrow> string \<Rightarrow> bool" where
  "names_namespace ns sc \<longleftrightarrow> list_ex (\<lambda>t. \<not> g_Wildcard (parseGrant t) \<and> g_Namespace (parseGrant t) = ns) (scope_tokens sc)"

text \<open>
  What the operations take for granted: the source is managed, no grant and no sibling database uses the
  target's name yet.  The argument names are given (an empty namespace stands for the default one).
\<close>

fun clear_way :: "('r, 'u, 'o) life_env \<Rightarrow> special_op \<Rightarrow> ('r, 'u, 'o) life \<Rightarrow> bool" where
  "clear_way E (Move_project old p new) s \<longleftrightarrow>
     old \<noteq> [] \<and> new \<noteq> [] \<and> p \<in> members (life_managed E s) old \<and> (\<forall>q\<in>set (siblingDBPaths new p). node_at (lf_tree s) q = None) \<and>
     (\<forall>h sc. life_held E s h = Some sc \<longrightarrow> \<not> names_project new p sc)"
| "clear_way E (Rename_project ns old new) s \<longleftrightarrow>
     ns \<noteq> [] \<and> old \<in> members (life_managed E s) ns \<and> (\<forall>q\<in>set (siblingDBPaths ns new). node_at (lf_tree s) q = None) \<and>
     (\<forall>h sc. life_held E s h = Some sc \<longrightarrow> \<not> names_project ns new sc)"
| "clear_way E (Rename_namespace old new) s \<longleftrightarrow>
     old \<noteq> [] \<and> old \<notin> set perm_words \<and> (\<forall>h sc. life_held E s h = Some sc \<longrightarrow> \<not> names_namespace new sc)"

lemma not_named:
  "\<not> names_project ns p sc \<Longrightarrow> fst (RewriteProjectGrants sc ns p ns' p') = sc"
  "\<not> names_namespace ns sc \<Longrightarrow> fst (RewriteNamespaceGrants sc ns ns') = sc"
  by (simp_all add: names_project_def names_namespace_def RewriteProjectGrants_scope RewriteNamespaceGrants_scope
      rewrite_scope_no_hit list_ex_iff)

lemma project_path_cases:
  assumes "ns \<noteq> []"
  obtains (bad) e where "project_path ns p = Inl e" | (good) "project_path ns p = Inr [ns, p]" "IsValidName ns" "IsValidName p"
  using assms by (cases "IsValidName ns"; cases "IsValidName p") (auto simp: project_path_def)

lemma run_special_cases:
  assumes "life_ok E s" "clear_way E op s"
  obtains (refused) e where "run_special E F leases op s = (Some e, [])"
    | (started) "launched E op s"
        "run_special E F leases op s = journaled_op E F (rl_journal (relocation_of op)) (rl_src (relocation_of op))
           (rl_dst (relocation_of op)) (complete_rl E F (relocation_of op)) s"
proof -
  have reg: "reg_ok (le_reg E) (lf_reg s)" using assms(1) by (simp add: life_ok_def)
  note has = reg_HasProject_managed [OF reg] reg_HasNamespace_managed [OF reg]
  have "(\<exists>e. run_special E F leases op s = (Some e, [])) \<or> launched E op s \<and>
      run_special E F leases op s = journaled_op E F (rl_journal (relocation_of op)) (rl_src (relocation_of op))
           (rl_dst (relocation_of op)) (complete_rl E F (relocation_of op)) s"
  proof (cases op)
    case (Move_project old p new)
    then have ne: "old \<noteq> []" "new \<noteq> []" using assms(2) by simp_all
    obtain r where r: "reg_Get (le_reg E) (lf_reg s) new = Inr r" using reg_Get_managed [OF reg] by blast
    have c: "completeMoveAfterRename E F old p new = complete_rl E F (relocation_of op)"
      by (simp add: Move_project completeMoveAfterRename_def complete_rl_def fun_eq_iff)
    show ?thesis
      by (rule project_path_cases [OF ne(1), of p]; rule project_path_cases [OF ne(2), of p])
        (use ne r has c in \<open>auto simp: Move_project MoveProject_def life_managed_def split: option.split\<close>)
  next
    case (Rename_project ns old new)
    then have ne: "ns \<noteq> []" using assms(2) by simp
    have c: "completeRenameProject E F ns old new = complete_rl E F (relocation_of op)"
      by (simp add: Rename_project completeRenameProject_def complete_rl_def fun_eq_iff)
    show ?thesis
      by (rule project_path_cases [OF ne, of old]; rule project_path_cases [OF ne, of new])
        (use ne has c in \<open>auto simp: Rename_project RenameProject_def life_managed_def\<close>)
  next
    case (Rename_namespace old new)
    then have ne: "old \<noteq> []" using assms(2) by simp
    have c: "completeRenameNamespace E F old new = complete_rl E F (relocation_of op)"
      by (simp add: Rename_namespace completeRenameNamespace_def complete_rl_def fun_eq_iff)
    have l: "path_lookup (lf_tree s) [old] \<in> {NotExist, IsDir}" if "ListProjects f (lf_tree s) old = Inr ps" for f ps
      using that ne by (auto simp: ListProjects_def ReadDir_def Let_def split: if_splits lookup.splits)
    show ?thesis using ne has c l
      by (auto simp: Rename_namespace RenameNamespace_def life_managed_def Let_def split: sum.split)
  qed
  with that show ?thesis by blast
qed

lemma launched_resumable:
  assumes "life_ok E s" "wt_ok (lf_tree s)" "clear_way E op s" "launched E op s"
  shows "resumable E (relocation_of op) s"
proof (cases op)
  case (Move_project old p new)
  then show ?thesis using assms edits_twice(3) [where ns = old and pr = p and ns' = new and pr' = p]
    by (auto simp: resumable_def IsValidName_nonempty)
next
  case (Rename_project ns old new)
  then have "\<exists>x. life_managed E s ns = Some x \<and> old \<in> x \<and> new \<notin> x"
    using assms by (auto simp: members_def split: option.splits)
  then show ?thesis using assms Rename_project edits_twice(3) [where ns = ns and pr = old and ns' = ns and pr' = new]
    by (auto simp: resumable_def IsValidName_nonempty)
next
  case (Rename_namespace old new)
  then show ?thesis using assms edits_twice(4) [where ns = old and ns' = new] by (auto simp: resumable_def)
qed

text \<open>The paths the recovery looks at are no siblings, and it sees on which side the directory is.\<close>

lemma outside_siblings:
  assumes "IsValidName p"
  shows "outside (zip (siblingDBPaths a b) (siblingDBPaths c d)) (x # p # y)"
proof -
  have "hd p \<noteq> CHR ''@''" using IsValidName_chars [OF assms hd_in_set [OF IsValidName_nonempty [OF assms]]] by auto
  then have "p \<noteq> CHR ''@'' # z" "CHR ''@'' # z \<noteq> p" for z by auto
  then show ?thesis by (simp add: siblingDBPaths_def Let_def)
qed

lemma at_new_at:
  assumes "at_new E R s0 s" "outside (rl_sibs R) q"
  shows "stat_ok (lf_tree s) q \<longleftrightarrow> moved_node (lf_tree s0) (rl_src R) (rl_dst R) q \<noteq> None"
    "path_lookup (lf_tree s) q = IsDir \<longleftrightarrow> moved_node (lf_tree s0) (rl_src R) (rl_dst R) q = Some DirNode"
  using assms by (auto simp: at_new_def stat_ok_iff path_lookup_ok(2))

definition proj_src :: "special_op \<Rightarrow> bool" where
  "proj_src op \<longleftrightarrow> (\<forall>old new. op \<noteq> Rename_namespace old new)"

lemma moved_project:
  assumes "wt_ok (lf_tree s0)" "launched E op s0" "proj_src op" "rl_src (relocation_of op) = src" "rl_dst (relocation_of op) = dst"
  shows "hasGitRepoAt (lf_tree s0) src" "\<not> hasGitRepoAt (lf_tree s0) dst"
    "at_new E (relocation_of op) s0 s \<Longrightarrow> hasGitRepoAt (lf_tree s) dst" "at_new E (relocation_of op) s0 s \<Longrightarrow> \<not> hasGitRepoAt (lf_tree s) src"
proof -
  obtain ns p ns' p' where f: "src = [ns, p]" "dst = [ns', p']" "IsValidName p" "IsValidName p'" "src \<noteq> dst"
      "hasGitRepoAt (lf_tree s0) src" "\<not> stat_ok (lf_tree s0) dst"
      "\<exists>a b c d. rl_sibs (relocation_of op) = zip (siblingDBPaths a b) (siblingDBPaths c d)"
  proof (cases op)
    case (Move_project a b c)
    with assms that [of a b c b] show ?thesis by auto
  next
    case (Rename_project a b c)
    with assms that [of a b a c] show ?thesis by auto
  qed (use assms(3) in \<open>simp add: proj_src_def\<close>)
  have no: "node_at (lf_tree s0) (dst @ q) = None" for q
    using f(7) wt_okD [OF assms(1), of "dst @ q" dst]
    by (cases "q = []"; cases "node_at (lf_tree s0) (dst @ q)") (auto simp: stat_ok_iff [OF assms(1)] strict_prefix_def)
  show "hasGitRepoAt (lf_tree s0) src" by (fact f(6))
  show "\<not> hasGitRepoAt (lf_tree s0) dst" using no by (simp add: hasGitRepoAt_def stat_ok_iff [OF assms(1)])
  have o: "outside (rl_sibs (relocation_of op)) (src @ [''.git''])" "outside (rl_sibs (relocation_of op)) (dst @ [''.git''])"
    using f(1-4,8) outside_siblings by auto
  assume n: "at_new E (relocation_of op) s0 s"
  have g: "node_at (lf_tree s0) [ns, p, ''.git''] \<noteq> None" using f(1,6) by (simp add: hasGitRepoAt_def stat_ok_iff [OF assms(1)])
  show "hasGitRepoAt (lf_tree s) dst" "\<not> hasGitRepoAt (lf_tree s) src"
    unfolding hasGitRepoAt_def at_new_at(1) [OF n o(1)] at_new_at(1) [OF n o(2)] assms(4,5)
    using f(1,2,5) g by (auto simp: moved_node_def)
qed

lemma moved_namespace:
  assumes "wt_ok (lf_tree s0)" "launched E (Rename_namespace old new) s0"
  shows "path_lookup (lf_tree s0) [new] \<noteq> IsDir"
    "at_new E (relocation_of (Rename_namespace old new)) s0 s \<Longrightarrow> path_lookup (lf_tree s) [old] \<noteq> IsDir"
    "at_new E (relocation_of (Rename_namespace old new)) s0 s \<Longrightarrow> path_lookup (lf_tree s0) [old] = IsDir \<Longrightarrow> path_lookup (lf_tree s) [new] = IsDir"
proof -
  show "path_lookup (lf_tree s0) [new] \<noteq> IsDir" using assms(2) by (auto simp: stat_ok_def)
  assume n: "at_new E (relocation_of (Rename_namespace old new)) s0 s"
  show "path_lookup (lf_tree s) [old] \<noteq> IsDir" using at_new_at(2) [OF n, of "[old]"] assms(2) by (auto simp: moved_node_def)
  show "path_lookup (lf_tree s0) [old] = IsDir \<Longrightarrow> path_lookup (lf_tree s) [new] = IsDir"
    using at_new_at(2) [OF n, of "[new]"] path_lookup_ok(2) [OF assms(1)] by (simp add: moved_node_def)
qed

section \<open>Rolling back\<close>

lemma rescoped_idle:
  assumes "at_old E s0 s" "rescoped E fn s x" "\<And>h sc. life_held E s0 h = Some sc \<Longrightarrow> fn sc = sc"
  shows "at_old E s0 x" "life_journal E x = life_journal E s"
proof -
  have r: "lf_reg x = lf_reg s" "lf_tree x = lf_tree s"
    using assms(2) by (metis rescoped_def life.select_convs life.surjective life.update_convs)+
  have h: "life_held E s = life_held E s0" using assms(1) by (simp add: at_old_def)
  have "life_held E x h = life_held E s0 h" for h
  proof -
    have "life_held E x h \<in> {life_held E s0 h, map_option fn (life_held E s0 h)}" using assms(2) h by (simp add: rescoped_def)
    then show ?thesis using assms(3) [of h] by (cases "life_held E s0 h") auto
  qed
  then show "at_old E s0 x" "life_journal E x = life_journal E s"
    using assms(1,2) r by (auto simp: at_old_def rescoped_def life_managed_def life_journal_def)
qed

lemma remove_stray_idle: "wt_ok (lf_tree s) \<Longrightarrow> node_at (lf_tree s) p = None \<Longrightarrow> remove_stray f p s = s"
  using stat_ok_iff [of "lf_tree s" p]
  by (auto simp: remove_stray_def Remove_path_def stat_ok_def split: lookup.splits)

lemma reg_call_idle:
  assumes "at_old E s0 s" "reg_spec op (life_managed E s0) = Some (life_managed E s0)"
  shows "at_old E s0 (snd (reg_call E f op s))" "life_journal E (snd (reg_call E f op s)) = life_journal E s"
proof -
  have ok: "life_ok E s" and m: "life_managed E s = life_managed E s0" using assms(1) by (simp_all add: at_old_def)
  have "at_old E s0 (snd (reg_call E f op s)) \<and> life_journal E (snd (reg_call E f op s)) = life_journal E s"
  proof (rule reg_call_cases [OF ok, of f op])
    fix s' assume s': "reg_call E f op s = (None, s')" "life_ok E s'" "reg_spec op (life_managed E s) = Some (life_managed E s')"
      "life_journal E s' = life_journal E s" "lf_tree s' = lf_tree s" "lf_auth s' = lf_auth s"
    have "life_managed E s' = life_managed E s" using s'(3) assms(2) m by simp
    then show ?thesis using at_transfer(1) [OF s'(2,5,6) _ assms(1)] s'(1,4) by simp
  qed (use assms in simp)
  then show "at_old E s0 (snd (reg_call E f op s))" "life_journal E (snd (reg_call E f op s)) = life_journal E s" by auto
qed

lemma clean_idle:
  assumes "at_old E s0 s" "\<And>h sc. life_held E s0 h = Some sc \<Longrightarrow> fn sc = sc"
  shows "\<forall>x\<in>set (s # snd (clean_trace E F fn s)). at_old E s0 x \<and> life_journal E x = life_journal E s"
proof -
  obtain e cs where c: "clean_trace E F fn s = (e, cs)" by fastforce
  from clean_trace_keeps(1) [OF at_ok(1) [OF assms(1)] c] rescoped_idle [OF assms(1) _ assms(2)] assms(1) c show ?thesis by auto
qed

lemma rollback_project_idle:
  assumes "at_old E s0 s" "wt_ok (lf_tree s0)" "\<forall>q\<in>set (siblingDBPaths newNs newProj). node_at (lf_tree s0) q = None"
    and "if op = opRenameProject then newNs = oldNs else newProj = oldProj \<and> oldProj \<in> members (life_managed E s0) oldNs"
    and "newProj \<notin> members (life_managed E s0) newNs"
    and "\<forall>h sc. life_held E s0 h = Some sc \<longrightarrow> \<not> names_project newNs newProj sc"
  shows "\<forall>x\<in>set (rollbackProjectDirOp E F op oldNs oldProj newNs newProj s). at_old E s0 x \<and> life_journal E x = life_journal E s"
proof -
  have ok: "life_ok E s" and m: "life_managed E s = life_managed E s0" using assms(1) by (simp_all add: at_old_def)
  have has: "reg_HasProject (le_reg E) (lf_reg s) newNs newProj = Inr False"
    using reg_HasProject_managed [of "le_reg E" "lf_reg s" newNs newProj] ok m assms(5) by (simp add: life_ok_def life_managed_def)
  define s1 where "s1 = (if op = opRenameProject then s else snd (reg_call E (of_reg F) (OpAdd oldNs oldProj) s))"
  have s1: "at_old E s0 s1" "life_journal E s1 = life_journal E s"
    using reg_call_idle [OF assms(1), of "OpAdd oldNs oldProj" "of_reg F"] assms(1,4)
    by (auto simp: s1_def members_def insert_absorb fun_upd_idem_iff split: if_splits option.splits)
  define fn where "fn = (\<lambda>sc. fst (if op = opRenameProject then RewriteProjectGrants sc oldNs newProj oldNs oldProj
      else RewriteProjectGrants sc newNs newProj oldNs oldProj))"
  have fn: "fn sc = sc" if "life_held E s0 h = Some sc" for h sc
    using not_named(1) assms(4,6) that by (auto simp: fn_def split: if_splits)
  define ss where "ss = snd (clean_trace E F fn s1)"
  have ss: "\<forall>x\<in>set (s1 # ss). at_old E s0 x \<and> life_journal E x = life_journal E s1"
    unfolding ss_def by (rule clean_idle [OF s1(1) fn])
  define s2 where "s2 = last (s1 # ss)"
  have s2: "at_old E s0 s2" using ss last_in_set [of "s1 # ss"] unfolding s2_def by (metis list.distinct(1))
  have sib: "remove_stray f (siblingDBPaths newNs newProj ! i) s2 = s2" if "i < 2" for f i
    by (rule remove_stray_idle) (use s2 assms(2,3) that in \<open>auto simp: at_old_def siblingDBPaths_def Let_def less_Suc_eq numeral_2_eq_2\<close>)
  have "rollbackProjectDirOp E F op oldNs oldProj newNs newProj s = s1 # ss @ [s2, s2]"
  proof -
    have s1': "(if op = opRenameProject
        then (if (case reg_HasProject (le_reg E) (lf_reg s) oldNs newProj of Inl e \<Rightarrow> False | Inr h \<Rightarrow> h)
              then snd (reg_call E (of_reg F) (OpRenameProject oldNs newProj oldProj) s) else s)
        else (if (case reg_HasProject (le_reg E) (lf_reg s) newNs newProj of Inl e \<Rightarrow> False | Inr h \<Rightarrow> h)
              then snd (reg_call E (of_reg F) (OpMoveProject newNs newProj oldNs) s)
              else snd (reg_call E (of_reg F) (OpAdd oldNs oldProj) s))) = s1"
      using has assms(4) by (cases "op = opRenameProject") (simp_all add: s1_def)
    show ?thesis unfolding rollbackProjectDirOp_def Let_def s1'
      using sib [of 0] sib [of 1] unfolding fn_def [symmetric] ss_def [symmetric] s2_def [symmetric] by simp
  qed
  moreover have "life_journal E s2 = life_journal E s1" using ss last_in_set [of "s1 # ss"] unfolding s2_def by (metis list.distinct(1))
  ultimately show ?thesis using ss s1 s2 by auto
qed

lemma rollback_namespace_idle:
  assumes "at_old E s0 s" "life_managed E s0 new = None" "\<forall>h sc. life_held E s0 h = Some sc \<longrightarrow> \<not> names_namespace new sc"
  shows "\<forall>x\<in>set (rollbackNamespaceRename E F old new s). at_old E s0 x \<and> life_journal E x = life_journal E s"
proof -
  have has: "reg_HasNamespace (le_reg E) (lf_reg s) new = Inr False"
    using reg_HasNamespace_managed [of "le_reg E" "lf_reg s" new] assms(1,2) by (simp add: at_old_def life_ok_def life_managed_def)
  have "\<forall>x\<in>set (s # snd (clean_trace E F (\<lambda>sc. fst (RewriteNamespaceGrants sc new old)) s)). at_old E s0 x \<and> life_journal E x = life_journal E s"
    by (rule clean_idle [OF assms(1)]) (use assms(3) not_named(2) in blast)
  then show ?thesis by (simp add: rollbackNamespaceRename_def has)
qed

section \<open>What start-up does\<close>

lemma recover_none: "life_ok E s \<Longrightarrow> life_journal E s = None \<Longrightarrow> recoverInterruptedOp E F s = []"
  using GetOpJournal_journal [of "le_reg E" "lf_reg s"] by (simp add: recoverInterruptedOp_def life_journal_def life_ok_def)

lemma recover_pending:
  assumes "life_ok E s" "life_journal E s = Some j"
  shows "recoverInterruptedOp E F s =
      (case (if oj_Op j = opRenameNamespace then recoverNamespaceRename E F j s else recoverProjectOp E F j s) of
         (False, ss) \<Rightarrow> ss | (True, ss) \<Rightarrow> ss @ [clearOpJournal E (of_clear F) (last (s # ss))])"
  using GetOpJournal_journal [of "le_reg E" "lf_reg s"] assms by (simp add: recoverInterruptedOp_def life_journal_def life_ok_def)

definition finish ::
    "('r, 'u, 'o) life_env \<Rightarrow> op_faults \<Rightarrow> relocation \<Rightarrow> ('r, 'u, 'o) life \<Rightarrow> ('r, 'u, 'o) life list" where
  "finish E F R s =
     (case complete_rl E F R s of
        (Some e, ss) \<Rightarrow> ss | (None, ss) \<Rightarrow> ss @ [clearOpJournal E (of_clear F) (last (s # ss))])"

definition undo ::
    "('r, 'u, 'o) life_env \<Rightarrow> op_faults \<Rightarrow> ('r, 'u, 'o) life \<Rightarrow> ('r, 'u, 'o) life \<Rightarrow> ('r, 'u, 'o) life list \<Rightarrow> bool" where
  "undo E F s0 s ss \<longleftrightarrow>
     (\<exists>rs. ss = rs @ [clearOpJournal E (of_clear F) (last (s # rs))] \<and>
           (\<forall>x\<in>set rs. at_old E s0 x \<and> life_journal E x = life_journal E s))"

text \<open>The two ways out: forward from after the rename, back from before it.\<close>

lemmas op_names = opMove_def opRenameProject_def opRenameNamespace_def

lemma completes_is:
  "completeMoveAfterRename E F old p new = complete_rl E F (relocation_of (Move_project old p new))"
  "completeRenameProject E F ns old new = complete_rl E F (relocation_of (Rename_project ns old new))"
  "completeRenameNamespace E F old new = complete_rl E F (relocation_of (Rename_namespace old new))"
  by (simp_all add: completeMoveAfterRename_def completeRenameProject_def completeRenameNamespace_def complete_rl_def fun_eq_iff)

lemma recover_both:
  assumes "life_ok E s0" "wt_ok (lf_tree s0)" "clear_way E op s0" "launched E op s0" "pending E (relocation_of op) s"
  shows "at_old E s0 s \<Longrightarrow> undo E F s0 s (recoverInterruptedOp E F s)"
    "at_new E (relocation_of op) s0 s \<Longrightarrow> recoverInterruptedOp E F s = finish E F (relocation_of op) s"
proof -
  have "(at_old E s0 s \<longrightarrow> undo E F s0 s (recoverInterruptedOp E F s)) \<and>
      (at_new E (relocation_of op) s0 s \<longrightarrow> recoverInterruptedOp E F s = finish E F (relocation_of op) s)"
  proof (cases op)
    case (Move_project old p new)
    note m = moved_project [OF assms(2,4) _ refl refl, unfolded Move_project, simplified]
    obtain ph where j: "life_journal E s = Some (move_journal old p new\<lparr>oj_Phase := ph\<rparr>)"
      using assms(5) by (auto simp: Move_project pending_def)
    have ne: "p \<noteq> []" using assms(4) IsValidName_nonempty by (auto simp: Move_project)
    have pr: "proj_src (Move_project old p new)" by (simp add: proj_src_def)
    note r = recover_pending [OF _ j, of F, simplified move_journal_def recoverProjectOp_def Let_def, simplified]
    show ?thesis
    proof (intro conjI impI)
      assume o: "at_old E s0 s"
      have "\<forall>x\<in>set (rollbackProjectDirOp E F opMove old p new p s). at_old E s0 x \<and> life_journal E x = life_journal E s"
        by (rule rollback_project_idle [OF o assms(2)]) (use assms(3,4) in \<open>auto simp: Move_project op_names\<close>)
      moreover have "recoverInterruptedOp E F s = rollbackProjectDirOp E F opMove old p new p s @
          [clearOpJournal E (of_clear F) (last (s # rollbackProjectDirOp E F opMove old p new p s))]"
        using r [OF at_ok(1) [OF o]] m(1,2) [OF pr] o ne by (simp add: at_old_def op_names)
      ultimately show "undo E F s0 s (recoverInterruptedOp E F s)" unfolding undo_def by blast
    next
      assume n: "at_new E (relocation_of op) s0 s"
      show "recoverInterruptedOp E F s = finish E F (relocation_of op) s"
        using r [OF at_ok(2) [OF n]] m(3,4) [OF pr] n ne
        by (simp add: op_names finish_def completes_is Move_project split: option.split prod.split)
    qed
  next
    case (Rename_project ns old new)
    note m = moved_project [OF assms(2,4) _ refl refl, unfolded Rename_project, simplified]
    obtain ph where j: "life_journal E s = Some (rename_journal ns old new\<lparr>oj_Phase := ph\<rparr>)"
      using assms(5) by (auto simp: Rename_project pending_def)
    have ne: "old \<noteq> []" "new \<noteq> []" using assms(4) IsValidName_nonempty by (auto simp: Rename_project)
    have pr: "proj_src (Rename_project ns old new)" by (simp add: proj_src_def)
    note r = recover_pending [OF _ j, of F, simplified rename_journal_def recoverProjectOp_def Let_def, simplified]
    show ?thesis
    proof (intro conjI impI)
      assume o: "at_old E s0 s"
      have "\<forall>x\<in>set (rollbackProjectDirOp E F opRenameProject ns old ns new s). at_old E s0 x \<and> life_journal E x = life_journal E s"
        by (rule rollback_project_idle [OF o assms(2)]) (use assms(3,4) in \<open>auto simp: Rename_project op_names\<close>)
      moreover have "recoverInterruptedOp E F s = rollbackProjectDirOp E F opRenameProject ns old ns new s @
          [clearOpJournal E (of_clear F) (last (s # rollbackProjectDirOp E F opRenameProject ns old ns new s))]"
        using r [OF at_ok(1) [OF o]] m(1,2) [OF pr] o ne by (simp add: at_old_def op_names)
      ultimately show "undo E F s0 s (recoverInterruptedOp E F s)" unfolding undo_def by blast
    next
      assume n: "at_new E (relocation_of op) s0 s"
      show "recoverInterruptedOp E F s = finish E F (relocation_of op) s"
        using r [OF at_ok(2) [OF n]] m(3,4) [OF pr] n ne
        by (simp add: op_names finish_def completes_is Rename_project split: option.split prod.split)
    qed
  next
    case (Rename_namespace old new)
    note m = moved_namespace [OF assms(2) assms(4) [unfolded Rename_namespace]]
    obtain ph where j: "life_journal E s = Some (ns_journal old new\<lparr>oj_Phase := ph\<rparr>)"
      using assms(5) by (auto simp: Rename_namespace pending_def)
    note r = recover_pending [OF _ j, of F, simplified ns_journal_def recoverNamespaceRename_def Let_def, simplified]
    show ?thesis
    proof (intro conjI impI)
      assume o: "at_old E s0 s"
      have rb: "\<forall>x\<in>set (rollbackNamespaceRename E F old new s). at_old E s0 x \<and> life_journal E x = life_journal E s"
        by (rule rollback_namespace_idle [OF o]) (use assms(3,4) in \<open>auto simp: Rename_namespace\<close>)
      have "recoverInterruptedOp E F s = rollbackNamespaceRename E F old new s @
          [clearOpJournal E (of_clear F) (last (s # rollbackNamespaceRename E F old new s))] \<or>
          recoverInterruptedOp E F s = [] @ [clearOpJournal E (of_clear F) (last (s # []))]"
        using r [OF at_ok(1) [OF o]] m(1) o by (simp add: at_old_def)
      then show "undo E F s0 s (recoverInterruptedOp E F s)"
      proof
        assume "recoverInterruptedOp E F s = [] @ [clearOpJournal E (of_clear F) (last (s # []))]"
        then show ?thesis unfolding undo_def by (intro exI [of _ "[]"]) simp
      qed (use rb in \<open>unfold undo_def, blast\<close>)
    next
      assume n: "at_new E (relocation_of op) s0 s"
      have "path_lookup (lf_tree s0) [old] = IsDir"
        using n assms(4) stat_ok_iff [OF assms(2), of "[old]"] by (auto simp: at_new_def Rename_namespace stat_ok_def)
      then show "recoverInterruptedOp E F s = finish E F (relocation_of op) s"
        using r [OF at_ok(2) [OF n]] m(2,3) n
        by (simp add: finish_def completes_is Rename_namespace split: option.split prod.split)
    qed
  qed
  then show "at_old E s0 s \<Longrightarrow> undo E F s0 s (recoverInterruptedOp E F s)"
    "at_new E (relocation_of op) s0 s \<Longrightarrow> recoverInterruptedOp E F s = finish E F (relocation_of op) s" by auto
qed

section \<open>Crashes\<close>

text \<open>Start-ups, each of which may fail or crash in any of its states.\<close>

inductive boots :: "('r, 'u, 'o) life_env \<Rightarrow> ('r, 'u, 'o) life \<Rightarrow> ('r, 'u, 'o) life \<Rightarrow> bool" for E where
  none: "boots E s s"
| boot: "boots E s s1 \<Longrightarrow> s2 \<in> set (s1 # recoverInterruptedOp E F s1) \<Longrightarrow> boots E s s2"

lemma recoverable_ok: "recoverable E R s0 s \<Longrightarrow> life_ok E s"
  using at_ok all_new_at_new unfolding recoverable_def by blast

lemma finish_cases:
  assumes "resumable E R s0" "at_new E R s0 s" "pending E R s"
  shows "\<forall>x\<in>set (finish E F R s). recoverable E R s0 x"
    "env_works E \<Longrightarrow> \<not> of_reg F \<Longrightarrow> \<not> of_users F \<Longrightarrow> \<not> of_tokens F \<Longrightarrow> \<not> of_clear F \<Longrightarrow>
       life_journal E (last (s # finish E F R s)) = None \<and> all_new E R s0 (last (s # finish E F R s))"
proof -
  obtain e ss where c: "complete_rl E F R s = (e, ss)" by fastforce
  note k = complete_keeps [OF assms(1,2) c]
  have pn: "\<forall>x\<in>set (s # ss). at_new E R s0 x \<and> pending E R x" using k(1) assms(2,3) by (auto simp: pending_def)
  define l where "l = last (s # ss)"
  have pl: "pending E R l" using pn last_in_set [of "s # ss"] unfolding l_def by (metis list.distinct(1))
  have f: "finish E F R s = (case e of Some e \<Rightarrow> ss | None \<Rightarrow> ss @ [clearOpJournal E (of_clear F) l])"
    by (simp add: finish_def c l_def del: last.simps split: option.split)
  note cl = clear_recoverable [OF pl, of s0, OF disjI2 [OF k(2) [folded l_def]]]
  show "\<forall>x\<in>set (finish E F R s). recoverable E R s0 x"
    using pn cl(1) [of "of_clear F"] by (cases e) (auto simp: f recoverable_def)
  assume w: "env_works E" "\<not> of_reg F" "\<not> of_users F" "\<not> of_tokens F" "\<not> of_clear F"
  have e: "e = None" using complete_works [OF assms(1,2) w(1-4)] c by simp
  note a = k(2) [OF e, folded l_def]
  have "all_new E R s0 (clearOpJournal E (of_clear F) l)" by (rule journal_writes(5) [OF at_ok(2) [OF all_new_at_new [OF a]] a])
  then show "life_journal E (last (s # finish E F R s)) = None \<and> all_new E R s0 (last (s # finish E F R s))"
    using cl(2) [OF e w(5,1)] by (simp add: f e)
qed

lemma undo_cases:
  assumes "undo E F s0 s ss" "at_old E s0 s" "pending E R s"
  shows "\<forall>x\<in>set ss. recoverable E R s0 x"
    "env_works E \<Longrightarrow> \<not> of_clear F \<Longrightarrow> life_journal E (last (s # ss)) = None \<and> at_old E s0 (last (s # ss))"
proof -
  obtain rs where rs: "ss = rs @ [clearOpJournal E (of_clear F) (last (s # rs))]" "\<forall>x\<in>set rs. at_old E s0 x \<and> life_journal E x = life_journal E s"
    using assms(1) by (auto simp: undo_def simp del: last.simps)
  define l where "l = last (s # rs)"
  have po: "\<forall>x\<in>set (s # rs). at_old E s0 x \<and> pending E R x" using rs(2) assms(2,3) by (auto simp: pending_def)
  then have pl: "pending E R l" "at_old E s0 l" using last_in_set [of "s # rs"] unfolding l_def by (metis list.distinct(1))+
  show "\<forall>x\<in>set ss. recoverable E R s0 x"
    using po clear_recoverable(1) [OF pl(1), of s0] pl(2) unfolding rs(1) l_def [symmetric] by (auto simp: recoverable_def)
  show "life_journal E (last (s # ss)) = None \<and> at_old E s0 (last (s # ss))" if "env_works E" "\<not> of_clear F"
    using journal_writes(2) [OF at_ok(1) [OF pl(2)] pl(2), of "of_clear F"] clearOpJournal_works [OF at_ok(1) [OF pl(2)] that(1)] that(2)
    by (simp add: rs(1) l_def [symmetric] del: last.simps add: last_append) (simp add: last.simps)
qed

lemma recover_keeps:
  assumes "life_ok E s0" "wt_ok (lf_tree s0)" "clear_way E op s0" "launched E op s0" "recoverable E (relocation_of op) s0 s"
  shows "\<forall>x\<in>set (recoverInterruptedOp E F s). recoverable E (relocation_of op) s0 x"
    "env_works E \<Longrightarrow> \<not> of_reg F \<Longrightarrow> \<not> of_users F \<Longrightarrow> \<not> of_tokens F \<Longrightarrow> \<not> of_clear F \<Longrightarrow>
       life_journal E (last (s # recoverInterruptedOp E F s)) = None \<and>
       (at_old E s0 (last (s # recoverInterruptedOp E F s)) \<or> all_new E (relocation_of op) s0 (last (s # recoverInterruptedOp E F s)))"
proof -
  note both = recover_both [OF assms(1-4)]
  note res = launched_resumable [OF assms(1-4)]
  have "(\<forall>x\<in>set (recoverInterruptedOp E F s). recoverable E (relocation_of op) s0 x) \<and>
    (env_works E \<and> \<not> of_reg F \<and> \<not> of_users F \<and> \<not> of_tokens F \<and> \<not> of_clear F \<longrightarrow>
       life_journal E (last (s # recoverInterruptedOp E F s)) = None \<and>
       (at_old E s0 (last (s # recoverInterruptedOp E F s)) \<or> all_new E (relocation_of op) s0 (last (s # recoverInterruptedOp E F s))))"
  proof (cases "life_journal E s = None")
    case True
    then have "at_old E s0 s \<or> all_new E (relocation_of op) s0 s" using assms(5) by (auto simp: recoverable_def pending_def)
    then show ?thesis using recover_none [OF recoverable_ok [OF assms(5)] True] True by simp
  next
    case False
    then have p: "pending E (relocation_of op) s" and c: "at_old E s0 s \<or> at_new E (relocation_of op) s0 s"
      using assms(5) by (auto simp: recoverable_def)
    from c show ?thesis
    proof
      assume o: "at_old E s0 s"
      from undo_cases [OF both(1) [OF p o] o p] show ?thesis by blast
    next
      assume n: "at_new E (relocation_of op) s0 s"
      from finish_cases [OF res n p, of F] show ?thesis unfolding both(2) [OF p n] by blast
    qed
  qed
  then show "\<forall>x\<in>set (recoverInterruptedOp E F s). recoverable E (relocation_of op) s0 x"
    "env_works E \<Longrightarrow> \<not> of_reg F \<Longrightarrow> \<not> of_users F \<Longrightarrow> \<not> of_tokens F \<Longrightarrow> \<not> of_clear F \<Longrightarrow>
       life_journal E (last (s # recoverInterruptedOp E F s)) = None \<and>
       (at_old E s0 (last (s # recoverInterruptedOp E F s)) \<or> all_new E (relocation_of op) s0 (last (s # recoverInterruptedOp E F s)))" by auto
qed

lemma boots_idle: "boots E s1 s2 \<Longrightarrow> (\<And>F. recoverInterruptedOp E F s1 = []) \<Longrightarrow> s2 = s1"
  by (induction rule: boots.induct) auto

lemma boots_recoverable:
  assumes "life_ok E s0" "wt_ok (lf_tree s0)" "clear_way E op s0" "launched E op s0"
  shows "boots E s1 s2 \<Longrightarrow> recoverable E (relocation_of op) s0 s1 \<Longrightarrow> recoverable E (relocation_of op) s0 s2"
proof (induction rule: boots.induct)
  case (boot s s1 s2 F)
  then show ?case using recover_keeps(1) [OF assms, of s1 F] by auto
qed

text \<open>
  C31: moving a project, renaming a project and renaming a namespace are all or nothing wherever they are
  cut off: if the call stops in any of its states, whatever else failed in it, and start-up is cut off any
  number of times after it, the first start-up that runs through leaves no journal and either the base
  directory, the managed registry and every scope as before the call, or the directory moved (the
  rebuildable sibling databases aside), the registry and every scope changed as the operation says.  The
  one exception is a failed first write of the journal, which the code logs and goes on without: then the
  directory may have moved with the rest done in part.  Assumed of the start: the databases take writes,
  no journal is waiting, and the way is clear (\<open>clear_way\<close>: the namespaces are named; a
  project is managed under its old name and neither a sibling database nor a grant uses the new one; a
  namespace's old name is no word for a permission and no grant uses its new name).
\<close>

theorem special_op_all_or_nothing:
  assumes "life_ok E s0" "wt_ok (lf_tree s0)" "env_works E" "life_journal E s0 = None" "clear_way E op s0"
    and "s1 \<in> set (s0 # snd (run_special E F leases op s0))" "boots E s1 s2"
    and "s = last (s2 # recoverInterruptedOp E op_smooth s2)"
  shows "life_journal E s = None \<and>
    (at_old E s0 s \<or> all_new E (relocation_of op) s0 s \<or> of_start F \<and> at_new E (relocation_of op) s0 s)"
proof (rule run_special_cases [OF assms(1,5), of F leases])
  fix e assume "run_special E F leases op s0 = (Some e, [])"
  then have s1: "s1 = s0" using assms(6) by simp
  have "s2 = s0" using boots_idle [OF assms(7)] recover_none [OF assms(1,4)] unfolding s1 by blast
  then show ?thesis using recover_none [OF assms(1,4)] assms(1,4,8) by (simp add: at_old_def)
next
  assume l: "launched E op s0"
    and r: "run_special E F leases op s0 = journaled_op E F (rl_journal (relocation_of op)) (rl_src (relocation_of op))
           (rl_dst (relocation_of op)) (complete_rl E F (relocation_of op)) s0"
  obtain e ss where j: "run_special E F leases op s0 = (e, ss)" by fastforce
  note st = journaled_op_states(1) [OF launched_resumable [OF assms(1,2,5) l] assms(3) r [symmetric, unfolded j] assms(4)]
  have "recoverable E (relocation_of op) s0 s0" using assms(1,4) by (simp add: recoverable_def at_old_def)
  then have "recoverable E (relocation_of op) s0 s1 \<or> of_start F \<and> at_new E (relocation_of op) s0 s1 \<and> life_journal E s1 = None"
    using st assms(6) j by auto
  then show ?thesis
  proof
    assume "recoverable E (relocation_of op) s0 s1"
    then have "recoverable E (relocation_of op) s0 s2" by (rule boots_recoverable [OF assms(1,2,5) l assms(7)])
    from recover_keeps(2) [OF assms(1,2,5) l this assms(3), of op_smooth, folded assms(8)] show ?thesis
      unfolding op_smooth_def by force
  next
    assume n: "of_start F \<and> at_new E (relocation_of op) s0 s1 \<and> life_journal E s1 = None"
    then have none: "recoverInterruptedOp E F' s1 = []" for F' using recover_none at_ok(2) by blast
    have "s2 = s1" by (rule boots_idle [OF assms(7) none])
    then show ?thesis using n none assms(8) by simp
  qed
qed

lemma reports_cases:
  assumes "life_ok E s" "wt_ok (lf_tree s)" "env_works E" "clear_way E op s"
    and "run_special E F leases op s = (r, ss)" "s' = last (s # ss)"
  shows "case r of
      None \<Rightarrow> all_new E (relocation_of op) s s' \<and> (\<not> of_clear F \<longrightarrow> life_journal E s' = None)
    | Some e \<Rightarrow> at_old E s s' \<or> at_new E (relocation_of op) s s' \<and> recorded E F (relocation_of op) s s'"
proof (rule run_special_cases [OF assms(1,4), of F leases])
  fix e assume "run_special E F leases op s = (Some e, [])"
  then show ?thesis using assms(1,5,6) by (simp add: at_old_def)
next
  assume l: "launched E op s"
    and q: "run_special E F leases op s = journaled_op E F (rl_journal (relocation_of op)) (rl_src (relocation_of op))
           (rl_dst (relocation_of op)) (complete_rl E F (relocation_of op)) s"
  note st = journaled_op_states [OF launched_resumable [OF assms(1,2,4) l] assms(3) q [symmetric, unfolded assms(5)]]
  have "s' = last ss" using st(2) assms(6) by simp
  then show ?thesis using st(3,4) by (auto split: option.split)
qed


section \<open>Where it falls short\<close>

text \<open>
  there is one journal for all operations: when an operation has failed after its rename and its journal
  waits for the next start-up, another operation that succeeds meanwhile takes the journal away; start-up
  then has nothing to do and the first operation stays half done, its registry entry under the old name.
\<close>

theorem later_op_drops_journal:
  assumes "life_ok E s" "wt_ok (lf_tree s)" "env_works E" "pending E R s" "clear_way E op s" "\<not> of_clear F"
    and "run_special E F leases op s = (None, ss)"
  shows "life_journal E (last (s # ss)) = None \<and> recoverInterruptedOp E F' (last (s # ss)) = [] \<and>
    reg_spec (rl_reg (relocation_of op)) (life_managed E s) = Some (life_managed E (last (s # ss)))"
proof -
  have a: "all_new E (relocation_of op) s (last (s # ss))" and j: "life_journal E (last (s # ss)) = None"
    using reports_cases [OF assms(1-3,5,7) refl] assms(6) by simp_all
  have "life_ok E (last (s # ss))" using at_ok(2) [OF all_new_at_new [OF a]] .
  from recover_none [OF this j] a j show ?thesis by (simp add: all_new_def)
qed

text \<open>
  the journal is best effort, and the operation goes on without it: when neither of its two writes reaches
  the registry and a call after the rename fails, the operation reports an error with the directory moved,
  and no start-up, now or later, finishes it or undoes it.
\<close>

theorem unjournaled_op_half_done:
  assumes "life_ok E s" "wt_ok (lf_tree s)" "env_works E" "life_journal E s = None" "clear_way E op s" "of_start F" "of_moved F"
    and "run_special E F leases op s = (Some e, ss)" "lf_tree (last (s # ss)) \<noteq> lf_tree s" "boots E (last (s # ss)) s2"
  shows "at_new E (relocation_of op) s (last (s # ss)) \<and> s2 = last (s # ss) \<and> recoverInterruptedOp E F' s2 = []"
proof -
  let ?x = "last (s # ss)"
  have n: "at_new E (relocation_of op) s ?x" "recorded E F (relocation_of op) s ?x"
    using reports_cases [OF assms(1-3,5,8) refl] assms(9) by (auto simp: at_old_def simp del: last.simps)
  then have "life_journal E ?x = None" using assms(4,6,7) by (simp add: recorded_def)
  then have none: "recoverInterruptedOp E F' ?x = []" for F' using recover_none at_ok(2) [OF n(1)] by blast
  have "s2 = ?x" by (rule boots_idle [OF assms(10) none])
  then show ?thesis using n(1) none by simp
qed

text \<open>
  rolling a move back rewrites the scopes as if the move had rewritten them before: a crash between the
  journal and the rename makes start-up turn every grant that was given on the target's name, before there
  was such a project, into a grant on the source.
\<close>

theorem rollback_rehomes_grants:
  assumes "life_ok E s" "env_works E" "\<not> of_users F" "\<not> of_tokens F"
    and "life_journal E s = Some (move_journal old p new\<lparr>oj_Phase := ph\<rparr>)" "p \<noteq> []"
    and "hasGitRepoAt (lf_tree s) [old, p]" "\<not> hasGitRepoAt (lf_tree s) [new, p]"
  shows "life_held E (last (s # recoverInterruptedOp E F s)) h =
    map_option (\<lambda>sc. fst (RewriteProjectGrants sc new p old p)) (life_held E s h)"
proof -
  define s1 where "s1 = (if (case reg_HasProject (le_reg E) (lf_reg s) new p of Inl e \<Rightarrow> False | Inr h \<Rightarrow> h)
      then snd (reg_call E (of_reg F) (OpMoveProject new p old) s) else snd (reg_call E (of_reg F) (OpAdd old p) s))"
  have call: "life_ok E (snd (reg_call E f op s)) \<and> lf_auth (snd (reg_call E f op s)) = lf_auth s" for f op
    by (rule reg_call_cases [OF assms(1), of f op]) (use assms(1) in auto)
  have s1: "life_ok E s1" "lf_auth s1 = lf_auth s" using call by (simp_all add: s1_def)
  let ?fn = "\<lambda>sc. fst (RewriteProjectGrants sc new p old p)"
  obtain e cs where c: "clean_trace E F ?fn s1 = (e, cs)" by fastforce
  have "e = None" using clean_trace_works [OF s1(1) assms(2-4), of ?fn] c by simp
  note k = clean_trace_keeps [OF s1(1) c]
  define s2 where "s2 = last (s1 # cs)"
  have s2: "life_ok E s2" "life_held E s2 h = map_option ?fn (life_held E s1 h)"
    using k(1) s1(1) last_in_set [of "s1 # cs"] k(2) [OF \<open>e = None\<close>] by (auto simp: s2_def rescoped_def simp del: last.simps)
  have stray: "life_ok E (remove_stray f q x) = life_ok E x" "lf_auth (remove_stray f q x) = lf_auth x" for f q x
    by (simp_all add: remove_stray_def life_ok_def split: remove_res.split)
  define s4 where "s4 = remove_stray (snd (of_stray F)) (siblingDBPaths new p ! 1) (remove_stray (fst (of_stray F)) (siblingDBPaths new p ! 0) s2)"
  have rb: "rollbackProjectDirOp E F opMove old p new p s = s1 # cs @ [remove_stray (fst (of_stray F)) (siblingDBPaths new p ! 0) s2, s4]"
    unfolding rollbackProjectDirOp_def Let_def
    using c by (simp add: op_names s1_def [symmetric] s2_def [symmetric] s4_def [symmetric] del: last.simps One_nat_def cong: if_cong)
  have r: "recoverInterruptedOp E F s = (s1 # cs @ [remove_stray (fst (of_stray F)) (siblingDBPaths new p ! 0) s2, s4]) @ [clearOpJournal E (of_clear F) s4]"
  proof -
    have "recoverInterruptedOp E F s = rollbackProjectDirOp E F opMove old p new p s @
        [clearOpJournal E (of_clear F) (last (s # rollbackProjectDirOp E F opMove old p new p s))]"
      using recover_pending [OF assms(1,5), of F] assms(6-8)
      by (simp add: move_journal_def recoverProjectOp_def op_names Let_def del: last.simps)
    then show ?thesis unfolding rb by simp
  qed
  have "lf_auth (last (s # recoverInterruptedOp E F s)) = lf_auth s2"
    using clearOpJournal_ok(4) [of E s4 "of_clear F"] s2(1) unfolding r by (simp add: s4_def stray)
  then show ?thesis using s2(2) s1(2) by (simp add: life_held_def)
qed

section \<open>An instance\<close>

definition demo_system :: "(reg_row mem_db, us_row mem_db, os_row mem_db) life_env" where
  "demo_system = \<lparr>le_reg = mem_bolt, le_users = mem_bolt, le_tokens = mem_bolt, le_now = 7\<rparr>"

definition demo_life :: "(reg_row mem_db, us_row mem_db, os_row mem_db) life" where
  "demo_life = \<lparr>lf_tree = demo_base, lf_reg = demo_registry, lf_auth = Some \<lparr>as_users = Some demo_users, as_tokens = None\<rparr>\<rparr>"

lemma demo_life_ok: "life_ok demo_system demo_life" "wt_ok (lf_tree demo_life)" "env_works demo_system" "life_journal demo_system demo_life = None"
proof -
  have "auth_ok mem_bolt mem_bolt \<lparr>as_users = Some demo_users, as_tokens = None :: os_row mem_db option\<rparr>"
    using demo_stores_ok by (simp add: auth_ok_def demo_stores_def)
  then show "life_ok demo_system demo_life" by (simp add: life_ok_def demo_system_def demo_life_def mem_bolt_ok demo_registry_ok)
  show "wt_ok (lf_tree demo_life)" by (simp add: demo_life_def demo_base_ok)
  show "env_works demo_system" by (simp add: env_works_def demo_system_def mem_bolt_works)
  show "life_journal demo_system demo_life = None"
    by (simp add: life_journal_def journal_def demo_system_def demo_life_def bget_bview mem_bolt_view demo_registry_def)
qed

lemma demo_held: "life_held demo_system demo_life h = Some sc \<Longrightarrow> sc = ''namespace:docs,namespace:ops''"
  by (cases h) (auto simp: life_held_def held_def user_scope_def token_scope_def demo_system_def demo_life_def us_view_def bget_bview
      mem_bolt_view demo_users_def split: if_splits option.splits)

lemma demo_way: "clear_way demo_system (Move_project ''docs'' ''guide'' ''default'') demo_life"
proof -
  have "\<not> names_project ''default'' ''guide'' ''namespace:docs,namespace:ops''" by code_simp
  moreover have "\<forall>q\<in>set (siblingDBPaths ''default'' ''guide''). node_at (lf_tree demo_life) q = None" by code_simp
  moreover have "''guide'' \<in> members (life_managed demo_system demo_life) ''docs''"
    by (simp add: members_def life_managed_def managed_def demo_system_def demo_life_def bget_bview mem_bolt_view demo_registry_def)
  ultimately show ?thesis using demo_held by auto
qed

theorem special_op_all_or_nothing_witness:
  "\<exists>s. life_journal demo_system s = None \<and>
     (at_old demo_system demo_life s \<or> all_new demo_system (relocation_of (Move_project ''docs'' ''guide'' ''default'')) demo_life s)"
proof -
  let ?F = "op_smooth\<lparr>of_users := True\<rparr>"
  let ?s1 = "last (demo_life # snd (run_special demo_system ?F [] (Move_project ''docs'' ''guide'' ''default'') demo_life))"
  have "\<not> of_start ?F" by (simp add: op_smooth_def)
  moreover have "?s1 \<in> set (demo_life # snd (run_special demo_system ?F [] (Move_project ''docs'' ''guide'' ''default'') demo_life))"
    by (rule last_in_set) simp
  ultimately show ?thesis using special_op_all_or_nothing [OF demo_life_ok demo_way _ boots.none refl] by blast
qed


theorem unjournaled_op_half_done_witness:
  "\<exists>s. hasGitRepoAt (lf_tree s) [''default'', ''guide''] \<and> reg_HasProject mem_bolt (lf_reg s) ''default'' ''guide'' = Inr False \<and>
     reg_HasProject mem_bolt (lf_reg s) ''docs'' ''guide'' = Inr True \<and> recoverInterruptedOp demo_system op_smooth s = []"
proof -
  let ?F = "op_smooth\<lparr>of_start := True, of_moved := True, of_reg := True\<rparr>"
  let ?r = "run_special demo_system ?F [] (Move_project ''docs'' ''guide'' ''default'') demo_life"
  let ?s = "last (demo_life # snd ?r)"
  have "fst ?r = Some (RegFails RegTx)" by code_simp
  then have r: "?r = (Some (RegFails RegTx), snd ?r)" by (metis surjective_pairing)
  have g: "hasGitRepoAt (lf_tree ?s) [''default'', ''guide'']" "\<not> hasGitRepoAt (lf_tree demo_life) [''default'', ''guide'']"
    "reg_HasProject mem_bolt (lf_reg ?s) ''default'' ''guide'' = Inr False" "reg_HasProject mem_bolt (lf_reg ?s) ''docs'' ''guide'' = Inr True"
    by code_simp+
  then have "lf_tree ?s \<noteq> lf_tree demo_life" by metis
  moreover have "of_start ?F" "of_moved ?F" by simp_all
  ultimately show ?thesis
    using unjournaled_op_half_done [OF demo_life_ok demo_way _ _ r _ boots.none, of op_smooth] g by blast
qed

text \<open>A move whose registry change failed, then a namespace rename that succeeds.\<close>

definition demo_half :: "(reg_row mem_db, us_row mem_db, os_row mem_db) life" where
  "demo_half = last (demo_life # snd (run_special demo_system (op_smooth\<lparr>of_reg := True\<rparr>) [] (Move_project ''docs'' ''guide'' ''default'') demo_life))"

lemma demo_half_pending:
  "at_new demo_system (relocation_of (Move_project ''docs'' ''guide'' ''default'')) demo_life demo_half"
  "pending demo_system (relocation_of (Move_project ''docs'' ''guide'' ''default'')) demo_half"
proof -
  let ?F = "op_smooth\<lparr>of_reg := True\<rparr>"
  have f: "fst (run_special demo_system ?F [] (Move_project ''docs'' ''guide'' ''default'') demo_life) \<noteq> None" by code_simp
  have g: "hasGitRepoAt (lf_tree demo_half) [''default'', ''guide'']" "\<not> hasGitRepoAt (lf_tree demo_life) [''default'', ''guide'']" by code_simp+
  have "\<not> of_start ?F" by (simp add: op_smooth_def)
  with reports_cases [OF demo_life_ok(1,2,3) demo_way surjective_pairing demo_half_def] f g
  show "at_new demo_system (relocation_of (Move_project ''docs'' ''guide'' ''default'')) demo_life demo_half"
    "pending demo_system (relocation_of (Move_project ''docs'' ''guide'' ''default'')) demo_half"
    by (auto simp: at_old_def recorded_def split: option.splits)
qed

theorem later_op_drops_journal_witness:
  "\<exists>s. life_journal demo_system demo_half \<noteq> None \<and> life_journal demo_system s = None \<and> recoverInterruptedOp demo_system op_smooth s = [] \<and>
     hasGitRepoAt (lf_tree s) [''default'', ''guide''] \<and> reg_HasProject mem_bolt (lf_reg s) ''default'' ''guide'' = Inr False"
proof -
  let ?op = "Rename_namespace ''docs'' ''books''"
  let ?s = "last (demo_half # snd (run_special demo_system op_smooth [] ?op demo_half))"
  note n = demo_half_pending(1)
  have fn: "fst (RewriteProjectGrants ''namespace:docs,namespace:ops'' ''docs'' ''guide'' ''default'' ''guide'') = ''namespace:docs,namespace:ops''"
    by code_simp
  have held: "sc = ''namespace:docs,namespace:ops''" if "life_held demo_system demo_half h = Some sc" for h sc
  proof -
    have "life_held demo_system demo_half h \<in> {life_held demo_system demo_life h,
        map_option (\<lambda>sc. fst (RewriteProjectGrants sc ''docs'' ''guide'' ''default'' ''guide'')) (life_held demo_system demo_life h)}"
      using n by (simp add: at_new_def)
    then show ?thesis using that demo_held [of h] fn by (cases "life_held demo_system demo_life h") auto
  qed
  have "\<not> names_namespace ''books'' ''namespace:docs,namespace:ops''" by code_simp
  then have way: "clear_way demo_system ?op demo_half" using held by (auto simp: perm_words_def)
  have smooth: "\<not> of_clear op_smooth" by (simp add: op_smooth_def)
  have f: "fst (run_special demo_system op_smooth [] ?op demo_half) = None" by code_simp
  then have r: "run_special demo_system op_smooth [] ?op demo_half = (None, snd (run_special demo_system op_smooth [] ?op demo_half))"
    by (metis surjective_pairing)
  have ok: "life_ok demo_system demo_half" "wt_ok (lf_tree demo_half)" using n by (simp_all add: at_new_def)
  from later_op_drops_journal [OF ok demo_life_ok(3) demo_half_pending(2) way smooth r, of op_smooth]
  have "life_journal demo_system ?s = None" "recoverInterruptedOp demo_system op_smooth ?s = []" by auto
  moreover have "hasGitRepoAt (lf_tree ?s) [''default'', ''guide'']" "reg_HasProject mem_bolt (lf_reg ?s) ''default'' ''guide'' = Inr False"
    by code_simp+
  moreover have "life_journal demo_system demo_half \<noteq> None" using demo_half_pending(2) by (auto simp: pending_def)
  ultimately show ?thesis by blast
qed

definition demo_granted :: "us_row mem_db" where
  "demo_granted = [(invitesBucket, []), (sessionsBucket, []), (usersBucket, [(''a@x'', UserRow ((blank_user ''a@x'')\<lparr>u_Scope := ''namespace:default/guide''\<rparr>))])]"

definition demo_crashed :: "(reg_row mem_db, us_row mem_db, os_row mem_db) life" where
  "demo_crashed = setOpJournal demo_system False (move_journal ''docs'' ''guide'' ''default'')
     (demo_life\<lparr>lf_auth := Some \<lparr>as_users = Some demo_granted, as_tokens = None\<rparr>\<rparr>)"

theorem rollback_rehomes_grants_witness:
  "\<exists>s sc sc'. life_held demo_system demo_crashed (Account ''a@x'') = Some sc \<and> life_held demo_system s (Account ''a@x'') = Some sc' \<and>
     EffectiveLevel (ParseScope sc) ''docs'' ''guide'' = LevelNone \<and> LevelNone < EffectiveLevel (ParseScope sc') ''docs'' ''guide''"
proof -
  let ?d = "demo_life\<lparr>lf_auth := Some \<lparr>as_users = Some demo_granted, as_tokens = None\<rparr>\<rparr>"
  have "us_ok mem_bolt demo_granted"
    by (auto simp: us_ok_def b_bucket_bview bget_bview mem_bolt_view blank_user_def demo_granted_def split: if_splits)
  then have ok: "life_ok demo_system ?d"
    using demo_life_ok(1) by (simp add: life_ok_def auth_ok_def demo_system_def mem_bolt_ok)
  have "move_journal ''docs'' ''guide'' ''default'' = (move_journal ''docs'' ''guide'' ''default'')\<lparr>oj_Phase := oj_Phase (move_journal ''docs'' ''guide'' ''default'')\<rparr>"
    by simp
  then have j: "life_journal demo_system demo_crashed = Some ((move_journal ''docs'' ''guide'' ''default'')\<lparr>oj_Phase := oj_Phase (move_journal ''docs'' ''guide'' ''default'')\<rparr>)"
    using setOpJournal_works [OF ok demo_life_ok(3)] unfolding demo_crashed_def by metis
  have c: "life_ok demo_system demo_crashed" unfolding demo_crashed_def by (rule setOpJournal_ok(1) [OF ok])
  have f: "\<not> of_users op_smooth" "\<not> of_tokens op_smooth" by (simp_all add: op_smooth_def)
  have g: "''guide'' \<noteq> []" "hasGitRepoAt (lf_tree demo_crashed) [''docs'', ''guide'']" "\<not> hasGitRepoAt (lf_tree demo_crashed) [''default'', ''guide'']"
    by simp code_simp+
  note r = rollback_rehomes_grants [OF c demo_life_ok(3) f j g, of "Account ''a@x''"]
  have "lf_auth demo_crashed = lf_auth ?d" unfolding demo_crashed_def by (rule setOpJournal_ok(4) [OF ok])
  then have h: "life_held demo_system demo_crashed (Account ''a@x'') = Some ''namespace:default/guide''"
    by (simp add: life_held_def held_def user_scope_def demo_system_def us_view_def bget_bview mem_bolt_view demo_granted_def)
  have l: "EffectiveLevel (ParseScope ''namespace:default/guide'') ''docs'' ''guide'' = LevelNone"
    "LevelNone < EffectiveLevel (ParseScope (fst (RewriteProjectGrants ''namespace:default/guide'' ''default'' ''guide'' ''docs'' ''guide''))) ''docs'' ''guide''"
    by code_simp+
  show ?thesis using h r l by auto
qed

end
