(* ===== verification/Project_Admin.thy ===== *)
theory Project_Admin
  imports Project_Recovery
begin

text \<open>
  Creating, deleting and adopting projects and namespaces (\<open>internal/storage/projectlifecycle.go\<close>,
  \<open>startup.go\<close>): what each call leaves of the base directory, the registry and the scopes.
\<close>

section \<open>Deleting\<close>

lemma enumerations_agree_set:
  assumes "wt_ok t" "ListProjects f t ns = Inr ps" "ns \<noteq> []"
  shows "set ps = {pr. is_project t ns pr}"
proof -
  have "set (child_names t [ns]) = {n. node_at t [ns, n] \<noteq> None}" using child_names_iff [of _ t "[ns]"] by auto
  moreover have "node_at t [ns] = Some DirNode" if "is_project t ns pr" for pr
    using that wt_okD [OF assms(1), of "[ns, pr]" "[ns]"] by (simp add: is_project_def strict_prefix_def)
  ultimately show ?thesis
    using assms(2,3) path_lookup_ok(2) [OF assms(1), of "[ns]"]
    by (auto simp: ListProjects_def ReadDir_def Let_def classify_project [OF assms(1)] is_project_def split: if_splits lookup.splits)
qed


lemma clean_call_cases:
  assumes "life_ok E s" "clean_call E F fn s = (e, s1)"
  shows "life_ok E s1" "lf_tree s1 = lf_tree s" "lf_reg s1 = lf_reg s"
    "e = None \<Longrightarrow> life_held E s1 h = map_option fn (life_held E s h)"
    "life_held E s1 h \<in> {life_held E s h, map_option fn (life_held E s h)}"
proof -
  obtain cs where c: "clean_trace E F fn s = (e, cs)" "s1 = last (s # cs)"
    using assms(2) by (cases "clean_trace E F fn s") (simp add: clean_call_def del: last.simps)
  note k = clean_trace_keeps [OF assms(1) c(1)]
  have r: "rescoped E fn s s1 \<or> s1 = s" using k(1) last_in_set [of "s # cs"] by (auto simp: c(2))
  then have "lf_tree s1 = lf_tree s \<and> lf_reg s1 = lf_reg s"
    by (metis rescoped_def life.select_convs life.surjective life.update_convs)
  then show "lf_tree s1 = lf_tree s" "lf_reg s1 = lf_reg s" by auto
  show "life_ok E s1" "life_held E s1 h \<in> {life_held E s h, map_option fn (life_held E s h)}"
    using r assms(1) by (auto simp: rescoped_def)
  show "e = None \<Longrightarrow> life_held E s1 h = map_option fn (life_held E s h)" using k(2) unfolding c(2) .
qed

lemma remove_siblings_cases:
  assumes "wt_ok t" "[] \<notin> set ps" "remove_siblings stuck ps t = (ok, t')"
  shows "wt_ok t'" "q \<notin> set ps \<Longrightarrow> node_at t' q = node_at t q" "ok \<Longrightarrow> q \<in> set ps \<Longrightarrow> node_at t' q = None"
    "node_at t' q \<in> {None, node_at t q}"
proof -
  have "wt_ok t' \<and> (\<forall>q. (q \<notin> set ps \<longrightarrow> node_at t' q = node_at t q) \<and> (ok \<longrightarrow> q \<in> set ps \<longrightarrow> node_at t' q = None) \<and>
      node_at t' q \<in> {None, node_at t q})"
    using assms
  proof (induction ps arbitrary: t ok t')
    case (Cons p ps)
    let ?P = "\<lambda>ok t0 ps t'. \<forall>q. (q \<notin> set ps \<longrightarrow> node_at t' q = node_at t0 q) \<and> (ok \<longrightarrow> q \<in> set ps \<longrightarrow> node_at t' q = None) \<and>
      node_at t' q \<in> {None, node_at t0 q}"
    have ne: "[] \<notin> set ps" "p \<noteq> []" using Cons.prems(2) by auto
    show ?case
    proof (cases "Remove_path (stuck p) t p")
      case (Removed t1)
      note r = Remove_path_ok [OF Cons.prems(1) Removed]
      have t1: "t1 = kv_del p t" using Removed by (auto simp: Remove_path_def split: lookup.splits if_splits)
      then have n: "node_at t1 q = (if q = p then None else node_at t q)" for q using ne(2) by (simp add: node_at_del)
      have rs: "remove_siblings stuck ps t1 = (ok, t')" using Cons.prems(3) Removed by simp
      have i: "wt_ok t'" "?P ok t1 ps t'" using Cons.IH [OF r(1) ne(1) rs] by blast+
      have "node_at t' q \<in> {None, node_at t q} \<and> (q \<notin> set (p # ps) \<longrightarrow> node_at t' q = node_at t q) \<and>
          (ok \<longrightarrow> q \<in> set (p # ps) \<longrightarrow> node_at t' q = None)" for q
        using i(2) [rule_format, of q] n [of q] by (cases "q = p") auto
      with i(1) show ?thesis by blast
    next
      case RemoveNotExist
      then have n: "node_at t p = None" using stat_ok_iff [OF Cons.prems(1), of p]
        by (auto simp: Remove_path_def stat_ok_def split: lookup.splits if_splits)
      have rs: "remove_siblings stuck ps t = (ok, t')" using Cons.prems(3) RemoveNotExist by simp
      have i: "wt_ok t'" "?P ok t ps t'" using Cons.IH [OF Cons.prems(1) ne(1) rs] by blast+
      have "node_at t' q \<in> {None, node_at t q} \<and> (q \<notin> set (p # ps) \<longrightarrow> node_at t' q = node_at t q) \<and>
          (ok \<longrightarrow> q \<in> set (p # ps) \<longrightarrow> node_at t' q = None)" for q
        using i(2) [rule_format, of q] n by (cases "q = p") auto
      with i(1) show ?thesis by blast
    next
      case RemoveFails
      obtain ok1 where rs: "remove_siblings stuck ps t = (ok1, t')" "\<not> ok"
        using Cons.prems(3) RemoveFails by (auto split: prod.splits)
      have i: "wt_ok t'" "?P ok1 t ps t'" using Cons.IH [OF Cons.prems(1) ne(1) rs(1)] by blast+
      with rs(2) show ?thesis by auto
    qed
  qed simp
  then show "wt_ok t'" "q \<notin> set ps \<Longrightarrow> node_at t' q = node_at t q" "ok \<Longrightarrow> q \<in> set ps \<Longrightarrow> node_at t' q = None"
    "node_at t' q \<in> {None, node_at t q}" by blast+
qed

text \<open>The steps of \<open>DeleteProject\<close>: refused, or the scopes, the files, the registry in this order.\<close>

lemma DeleteProject_cases:
  assumes "life_ok E s" "ns \<noteq> []" "DeleteProject E stuck F leases ns p s = (e, s')"
  obtains (refused) e1 where "e = Some e1" "s' = s"
    | (scopes) e1 where "e = Some e1" "clean_call E F (\<lambda>sc. fst (PruneProjectGrants sc ns p)) s = (Some e1, s')"
    | (files) s1 ok1 t1 ok2 t2 where "clean_call E F (\<lambda>sc. fst (PruneProjectGrants sc ns p)) s = (None, s1)"
        "RemoveAll stuck (lf_tree s) [ns, p] = (ok1, t1)" "remove_siblings stuck (siblingDBPaths ns p) t1 = (ok2, t2)"
        "if ok1 \<and> ok2 then e = None \<and> s' = snd (reg_call E (of_reg F) (OpRemove ns p) (s1\<lparr>lf_tree := t2\<rparr>))
         else e \<noteq> None \<and> s' = s1\<lparr>lf_tree := t2\<rparr>"
proof (rule project_path_cases [OF assms(2), of p])
  fix e1 assume "project_path ns p = Inl e1"
  then have "(Some e1, s) = (e, s')" using assms(2,3) by (simp add: DeleteProject_def)
  then show thesis using refused by blast
next
  assume pp: "project_path ns p = Inr [ns, p]"
  obtain e1 s1 where c: "clean_call E F (\<lambda>sc. fst (PruneProjectGrants sc ns p)) s = (e1, s1)" by fastforce
  obtain ok1 t1 where ra: "RemoveAll stuck (lf_tree s) [ns, p] = (ok1, t1)" by fastforce
  obtain ok2 t2 where rs: "remove_siblings stuck (siblingDBPaths ns p) t1 = (ok2, t2)" by fastforce
  have d: "(e, s') = (if projectHasActiveLease leases [ns, p] then (Some Busy, s)
      else case e1 of Some e2 \<Rightarrow> (Some e2, s1)
      | None \<Rightarrow> (if \<not> (ok1 \<and> ok2) then (Some RemoveFails, s1\<lparr>lf_tree := t2\<rparr>)
                 else (None, snd (reg_call E (of_reg F) (OpRemove ns p) (s1\<lparr>lf_tree := t2\<rparr>)))))"
    unfolding assms(3) [symmetric]
    using assms(2) pp clean_call_cases(2) [OF assms(1) c]
    by (cases "projectHasActiveLease leases [ns, p]"; cases e1) (simp_all add: DeleteProject_def Let_def c ra rs)
  show thesis
  proof (cases "projectHasActiveLease leases [ns, p]")
    case True
    then show thesis using refused d by auto
  next
    case False
    show thesis
    proof (cases e1)
      case None
      then show thesis by (intro files [OF c [unfolded None] ra rs]) (use d False in auto)
    next
      case (Some e2)
      then show thesis using scopes [of e2] False d c by simp
    qed
  qed
qed

text \<open>
  C33: deleting a project is exact and fails safe: when it reports success, the project's directory and its
  sibling databases are gone and every other node of the base directory is as before, every holder's
  scope is pruned and the registry lost this project at most; and whatever happened, if any file was
  removed then every scope had been pruned before.
\<close>

theorem DeleteProject_exact:
  assumes "life_ok E s" "wt_ok (lf_tree s)" "ns \<noteq> []" "DeleteProject E stuck F leases ns p s = (e, s')"
  shows "(e = None \<longrightarrow>
      (\<forall>q. node_at (lf_tree s') q = (if prefix [ns, p] q \<or> q \<in> set (siblingDBPaths ns p) then None else node_at (lf_tree s) q)) \<and>
      (\<forall>h. life_held E s' h = map_option (\<lambda>sc. fst (PruneProjectGrants sc ns p)) (life_held E s h)) \<and>
      Some (life_managed E s') \<in> {Some (life_managed E s), reg_spec (OpRemove ns p) (life_managed E s)}) \<and>
    (lf_tree s' \<noteq> lf_tree s \<longrightarrow> (\<forall>h. life_held E s' h = map_option (\<lambda>sc. fst (PruneProjectGrants sc ns p)) (life_held E s h)))"
proof (rule DeleteProject_cases [OF assms(1,3,4)])
  fix s1 ok1 t1 ok2 t2
  assume c: "clean_call E F (\<lambda>sc. fst (PruneProjectGrants sc ns p)) s = (None, s1)"
    and ra: "RemoveAll stuck (lf_tree s) [ns, p] = (ok1, t1)" and rs: "remove_siblings stuck (siblingDBPaths ns p) t1 = (ok2, t2)"
    and r: "if ok1 \<and> ok2 then e = None \<and> s' = snd (reg_call E (of_reg F) (OpRemove ns p) (s1\<lparr>lf_tree := t2\<rparr>))
         else e \<noteq> None \<and> s' = s1\<lparr>lf_tree := t2\<rparr>"
  note cc = clean_call_cases [OF assms(1) c]
  have w1: "wt_ok t1" using RemoveAll_wt_ok [OF assms(2), of stuck "[ns, p]"] by (simp add: ra)
  have sib: "[] \<notin> set (siblingDBPaths ns p)" by (auto simp: siblingDBPaths_def Let_def)
  note rm = remove_siblings_cases [OF w1 sib rs]
  have ra1: "\<not> prefix [ns, p] q \<Longrightarrow> node_at t1 q = node_at (lf_tree s) q" "ok1 \<Longrightarrow> prefix [ns, p] q \<Longrightarrow> node_at t1 q = None" for q
    using RemoveAll_node(1,2) [where p = "[ns, p]" and q = q and stuck = stuck and t = "lf_tree s"] by (simp_all add: ra)
  have held: "life_held E (s1\<lparr>lf_tree := t2\<rparr>) = life_held E s1" "life_managed E (s1\<lparr>lf_tree := t2\<rparr>) = life_managed E s"
    "life_ok E (s1\<lparr>lf_tree := t2\<rparr>)"
    using cc(1,3) by (simp_all add: life_held_def life_managed_def life_ok_def fun_eq_iff)
  show ?thesis
  proof (cases "ok1 \<and> ok2")
    case True
    have nodes: "node_at t2 q = (if prefix [ns, p] q \<or> q \<in> set (siblingDBPaths ns p) then None else node_at (lf_tree s) q)" for q
      using rm(2-4) [of q] ra1 [of q] True by (cases "q \<in> set (siblingDBPaths ns p)") auto
    have call: "lf_tree s' = t2 \<and> lf_auth s' = lf_auth s1 \<and> Some (life_managed E s') \<in> {Some (life_managed E s), reg_spec (OpRemove ns p) (life_managed E s)}"
      by (rule reg_call_cases [OF held(3), of "of_reg F" "OpRemove ns p"]) (use True r held(2) in auto)
    then show ?thesis using nodes cc(4) True r by (simp add: life_held_def)
  next
    case False
    then show ?thesis using r cc(4) held(1) by auto
  qed
qed (use assms(1) clean_call_cases(2) [OF assms(1)] in auto)

text \<open>
  deleting a namespace never deletes a project: whatever it is called with and whatever fails, exactly
  the same directories are projects afterwards and the default namespace is managed as before; when it
  reports success, nothing is left below the namespace's directory and every holder's scope is pruned.
\<close>

theorem DeleteNamespace_keeps_projects:
  assumes "life_ok E s" "wt_ok (lf_tree s)" "DeleteNamespace E stuck F ns s = (e, s')"
  shows "(is_project (lf_tree s') n p \<longleftrightarrow> is_project (lf_tree s) n p) \<and>
    life_managed E s' DefaultNamespace = life_managed E s DefaultNamespace \<and>
    (e = None \<longrightarrow> (\<forall>q. node_at (lf_tree s') q = (if prefix [ns] q then None else node_at (lf_tree s) q)) \<and>
       (\<forall>h. life_held E s' h = map_option (\<lambda>sc. fst (PruneNamespaceGrants sc ns)) (life_held E s h)))"
proof -
  define fn where "fn = (\<lambda>sc. fst (PruneNamespaceGrants sc ns))"
  obtain e1 s1 where c: "clean_call E F fn s = (e1, s1)" by fastforce
  note cc = clean_call_cases [OF assms(1) c]
  obtain ok t1 where ra: "RemoveAll stuck (lf_tree s) [ns] = (ok, t1)" by fastforce
  consider (early) e2 where "(e, s') = (Some e2, s)" | (scopes) e2 where "(e, s') = (Some e2, s1)"
    | (files) "ns \<noteq> []" "ns \<noteq> DefaultNamespace" "ListProjects (of_list F) (lf_tree s) ns = Inr []" "e1 = None"
        "(e, s') = (if ok then (None, snd (reg_call E (of_reg F) (OpRemoveNs ns) (s1\<lparr>lf_tree := t1\<rparr>))) else (Some RemoveFails, s1\<lparr>lf_tree := t1\<rparr>))"
  proof (cases "ns = [] \<or> ns = DefaultNamespace \<or> \<not> IsValidName ns")
    case True
    then have "\<exists>e2. DeleteNamespace E stuck F ns s = (Some e2, s)" by (auto simp: DeleteNamespace_def Let_def)
    then show ?thesis using early assms(3) by auto
  next
    case False
    then have d: "DeleteNamespace E stuck F ns s = (case ListProjects (of_list F) (lf_tree s) ns of
        Inl e \<Rightarrow> (Some (ListFails e), s)
      | Inr projects \<Rightarrow>
          (if projects \<noteq> [] then (Some NotEmpty, s)
           else case e1 of Some e \<Rightarrow> (Some e, s1)
           | None \<Rightarrow> (if \<not> ok then (Some RemoveFails, s1\<lparr>lf_tree := t1\<rparr>)
                      else (None, snd (reg_call E (of_reg F) (OpRemoveNs ns) (s1\<lparr>lf_tree := t1\<rparr>))))))"
      using c ra cc(2) by (cases e1; cases "ListProjects (of_list F) (lf_tree s) ns") (simp_all add: DeleteNamespace_def fn_def [symmetric] Let_def)
    show ?thesis
    proof (cases "ListProjects (of_list F) (lf_tree s) ns")
      case (Inl x)
      then show ?thesis using early d assms(3) by simp
    next
      case (Inr projects)
      show ?thesis
      proof (cases "projects = [] \<and> e1 = None")
        case True
        then show ?thesis using files False Inr d assms(3) by (simp split: if_splits)
      next
        case False
        then show ?thesis using early [of NotEmpty] scopes [of "the e1"] Inr d assms(3) by (cases e1) (auto split: if_splits)
      qed
    qed
  qed
  then show ?thesis
  proof cases
    case files
    have listed: "\<not> is_project (lf_tree s) ns p" for p
      using enumerations_agree_set [OF assms(2) files(3,1)] by auto
    have nodes: "\<not> prefix [ns] q \<Longrightarrow> node_at t1 q = node_at (lf_tree s) q" "ok \<Longrightarrow> prefix [ns] q \<Longrightarrow> node_at t1 q = None"
      "node_at t1 q \<in> {None, node_at (lf_tree s) q}" for q
      using RemoveAll_node [where p = "[ns]" and q = q and stuck = stuck and t = "lf_tree s"] by (simp_all add: ra)
    have proj: "is_project t1 n p \<longleftrightarrow> is_project (lf_tree s) n p"
    proof (cases "n = ns")
      case True
      have "\<not> is_project t1 ns p" using listed [of p] nodes(3) [of "[ns, p]"] nodes(3) [of "[ns, p, ''.git'']"] by (auto simp: is_project_def)
      then show ?thesis using True listed by simp
    qed (simp add: is_project_def nodes(1))
    have mid: "life_ok E (s1\<lparr>lf_tree := t1\<rparr>)" "life_managed E (s1\<lparr>lf_tree := t1\<rparr>) = life_managed E s" "life_held E (s1\<lparr>lf_tree := t1\<rparr>) = life_held E s1"
      using cc(1,3) by (simp_all add: life_ok_def life_managed_def life_held_def fun_eq_iff)
    have call: "lf_tree (snd (reg_call E (of_reg F) (OpRemoveNs ns) (s1\<lparr>lf_tree := t1\<rparr>))) = t1 \<and>
        lf_auth (snd (reg_call E (of_reg F) (OpRemoveNs ns) (s1\<lparr>lf_tree := t1\<rparr>))) = lf_auth s1 \<and>
        life_managed E (snd (reg_call E (of_reg F) (OpRemoveNs ns) (s1\<lparr>lf_tree := t1\<rparr>))) DefaultNamespace = life_managed E s DefaultNamespace"
      by (rule reg_call_cases [OF mid(1), of "of_reg F" "OpRemoveNs ns"]) (use mid(2) files(2) in \<open>auto dest: fun_cong [where x = DefaultNamespace]\<close>)
    have h: "life_held E s1 h = map_option fn (life_held E s h)" for h using cc(4) files(4) by simp
    show ?thesis
    proof (cases ok)
      case True
      have "life_held E s' h = life_held E s1 h" for h using files(5) True call by (simp add: life_held_def)
      moreover have "node_at (lf_tree s') q = (if prefix [ns] q then None else node_at (lf_tree s) q)" for q
        using files(5) True call nodes(1,2) [of q] by simp
      ultimately show ?thesis using files(5) True proj call h by (simp add: fn_def)
    qed (use files(5) proj mid(2) in simp)
  qed (use cc(2,3) in \<open>auto simp: life_managed_def\<close>)
qed

section \<open>The first start-up\<close>

lemma reg_call_works:
  assumes "life_ok E s" "env_works E" "reg_spec op (life_managed E s) = Some m"
  shows "fst (reg_call E False op s) = None" "life_ok E (snd (reg_call E False op s))"
    "life_managed E (snd (reg_call E False op s)) = m" "lf_tree (snd (reg_call E False op s)) = lf_tree s"
    "lf_auth (snd (reg_call E False op s)) = lf_auth s"
proof -
  have "reg_apply (le_reg E) (le_now E) op (lf_reg s) \<noteq> Inl RegTx"
    using reg_apply_works [of "le_reg E" "lf_reg s"] assms(1,2) by (simp add: life_ok_def env_works_def)
  then have n: "reg_call E False op s \<noteq> (Some (RegFails RegTx), s)" by (auto simp: reg_call_def split: sum.splits)
  have "fst (reg_call E False op s) = None \<and> life_ok E (snd (reg_call E False op s)) \<and>
    life_managed E (snd (reg_call E False op s)) = m \<and> lf_tree (snd (reg_call E False op s)) = lf_tree s \<and>
    lf_auth (snd (reg_call E False op s)) = lf_auth s"
    by (rule reg_call_cases [OF assms(1), of False op]) (use n assms(3) in auto)
  then show "fst (reg_call E False op s) = None" "life_ok E (snd (reg_call E False op s))"
    "life_managed E (snd (reg_call E False op s)) = m" "lf_tree (snd (reg_call E False op s)) = lf_tree s"
    "lf_auth (snd (reg_call E False op s)) = lf_auth s" by auto
qed

lemma adopt_all_adopts:
  assumes "env_works E" "life_ok E s"
  shows "life_ok E (adopt_all E (\<lambda>_. False) i ps s) \<and> lf_tree (adopt_all E (\<lambda>_. False) i ps s) = lf_tree s \<and>
    life_managed E (adopt_all E (\<lambda>_. False) i ps s) n =
      (if \<exists>p. (n, p) \<in> set ps then Some (members (life_managed E s) n \<union> {p. (n, p) \<in> set ps}) else life_managed E s n)"
  using assms(2)
proof (induction ps arbitrary: i s)
  case (Cons x ps)
  obtain ns p where x: "x = (ns, p)" by fastforce
  define m where "m = (life_managed E s)(ns \<mapsto> insert p (members (life_managed E s) ns))"
  have "reg_spec (OpAdd ns p) (life_managed E s) = Some m" by (simp add: m_def)
  note r = reg_call_works [OF Cons.prems assms(1) this]
  from Cons.IH [OF r(2), of "Suc i"] r(3,4) show ?case
    by (auto simp: x m_def members_def)
qed simp

lemma reconcile_map:
  assumes "life_ok E s" "wt_ok (lf_tree s)" "env_works E"
    and "s' = reconcileManagedRegistry E (\<lambda>_. False) (fst (discoverProjects (\<lambda>_. False) (lf_tree s))) s"
  shows "life_ok E s'" "life_managed E s' n =
    (if reg_IsEmpty (le_reg E) (lf_reg s) \<and> \<not> has_prefix n ''.'' \<and> (\<exists>p. is_project (lf_tree s) n p)
     then Some {p. is_project (lf_tree s) n p}
     else if n = DefaultNamespace then Some (members (life_managed E s) n) else life_managed E s n)"
proof -
  have e: "reg_IsEmpty (le_reg E) (lf_reg s) \<longleftrightarrow> life_managed E s = Map.empty"
    using reg_List_managed(4) [of "le_reg E" "lf_reg s"] assms(1) by (simp add: life_ok_def life_managed_def)
  define s1 where "s1 = (if reg_IsEmpty (le_reg E) (lf_reg s) then adopt_all E (\<lambda>_. False) 0 (fst (discoverProjects (\<lambda>_. False) (lf_tree s))) s else s)"
  have s1: "life_ok E s1" "life_managed E s1 n = (if reg_IsEmpty (le_reg E) (lf_reg s) \<and> \<not> has_prefix n ''.'' \<and> (\<exists>p. is_project (lf_tree s) n p)
     then Some {p. is_project (lf_tree s) n p} else life_managed E s n)" for n
    using adopt_all_adopts [OF assms(3,1), of 0 "fst (discoverProjects (\<lambda>_. False) (lf_tree s))" n] assms(1) discovered_iff [OF assms(2), of n _ "\<lambda>_. False"] e
    by (auto simp: s1_def members_def)
  have "reg_spec (OpEnsure DefaultNamespace) (life_managed E s1) =
      Some (if life_managed E s1 DefaultNamespace = None then (life_managed E s1)(DefaultNamespace \<mapsto> {}) else life_managed E s1)" by simp
  note r = reg_call_works(2,3) [OF s1(1) assms(3) this]
  have "s' = snd (reg_call E False (OpEnsure DefaultNamespace) s1)" by (simp add: assms(4) reconcileManagedRegistry_def s1_def Let_def)
  with r s1(2) [of n] s1(2) [of DefaultNamespace] show "life_ok E s'" "life_managed E s' n =
    (if reg_IsEmpty (le_reg E) (lf_reg s) \<and> \<not> has_prefix n ''.'' \<and> (\<exists>p. is_project (lf_tree s) n p)
     then Some {p. is_project (lf_tree s) n p}
     else if n = DefaultNamespace then Some (members (life_managed E s) n) else life_managed E s n)"
    by (auto simp: members_def split: option.splits if_splits)
qed

text \<open>
  a server started for the first time over existing directories manages exactly the projects it finds
  there, each under its namespace, and the default namespace; a later start adopts nothing, it only sees
  to it that the default namespace is there.
\<close>

theorem reconcile_adopts_once:
  assumes "life_ok E s" "wt_ok (lf_tree s)" "env_works E"
    and "s' = reconcileManagedRegistry E (\<lambda>_. False) (fst (discoverProjects (\<lambda>_. False) (lf_tree s))) s"
  shows "life_managed E s' n =
    (if reg_IsEmpty (le_reg E) (lf_reg s) \<and> \<not> has_prefix n ''.'' \<and> (\<exists>p. is_project (lf_tree s) n p)
     then Some {p. is_project (lf_tree s) n p}
     else if n = DefaultNamespace then Some (members (life_managed E s) n) else life_managed E s n)"
  by (rule reconcile_map(2) [OF assms])

text \<open>
  the adoption does not check names, the listing does: one adopted project below a directory whose name
  is not a valid namespace (a blank in it, say) makes the listing of all projects fail as a whole.
\<close>

theorem ListAllProjects_poisoned:
  assumes "life_ok E s" "wt_ok (lf_tree s)" "env_works E" "reg_IsEmpty (le_reg E) (lf_reg s)"
    and "is_project (lf_tree s) n p" "\<not> has_prefix n ''.''" "n \<noteq> []" "\<not> IsValidName n"
    and "s' = reconcileManagedRegistry E (\<lambda>_. False) (fst (discoverProjects (\<lambda>_. False) (lf_tree s))) s"
  shows "isl (ListAllProjects E unreadable s')"
proof -
  have "life_managed E s' n \<noteq> None"
    using reconcile_map(2) [OF assms(1-3,9), of n] assms(4-6) by auto
  then have "n \<in> set (ListNamespaces E s')"
    using reg_List_managed(1) [of "le_reg E" "lf_reg s'"] reconcile_map(1) [OF assms(1-3,9)] by (auto simp: ListNamespaces_def life_ok_def life_managed_def)
  moreover have "isl (ListProjects f (lf_tree s') n)" for f using assms(7,8) by (simp add: ListProjects_def)
  moreover have "n \<in> set nss \<Longrightarrow> isl (ListProjects (unreadable n) t n) \<Longrightarrow> isl (list_all_in unreadable t nss)" for nss t
    by (induction nss) (auto split: sum.split)
  ultimately show ?thesis by (auto simp: ListAllProjects_def isl_map_sum)
qed

section \<open>Creating\<close>

text \<open>
  What the code relies on of go-git's \<open>PlainInit\<close> and of opening a catalog: a repository is a \<open>.git\<close> below
  the given directory and nothing else changes; a catalog is one file where no directory is.
\<close>

definition init_ok :: "(wtree \<Rightarrow> string list \<Rightarrow> init_res) \<Rightarrow> bool" where
  "init_ok I \<longleftrightarrow>
     (\<forall>t q. case I t q of
        Initialised t1 \<Rightarrow> node_at t1 (q @ [''.git'']) = Some DirNode \<and> (\<forall>x. \<not> prefix (q @ [''.git'']) x \<longrightarrow> node_at t1 x = node_at t x)
      | AlreadyExists \<Rightarrow> node_at t (q @ [''.git'']) \<noteq> None
      | InitFails \<Rightarrow> True)"

definition catalog_opens :: "(wtree \<Rightarrow> string list \<Rightarrow> wtree option) \<Rightarrow> bool" where
  "catalog_opens C \<longleftrightarrow>
     (\<forall>t q t1. C t q = Some t1 \<longrightarrow> node_at t q \<noteq> Some DirNode \<and> node_at t1 q \<noteq> Some DirNode \<and> (\<forall>x. x \<noteq> q \<longrightarrow> node_at t1 x = node_at t x))"

text \<open>
  creating a project makes it one: on success the directory is a project, managed under its namespace,
  and for every other name it is a project exactly if it was one; no scope changes.
\<close>

theorem CreateProject_makes_project:
  assumes "life_ok E s" "init_ok I" "catalog_opens C" "ns \<noteq> []"
    and "CreateProjectCtx E mf I C F ns p s = (None, s')"
  shows "is_project (lf_tree s') ns p \<and> p \<in> members (life_managed E s') ns \<and> life_held E s' = life_held E s \<and>
    ((n, q) \<noteq> (ns, p) \<longrightarrow> (is_project (lf_tree s') n q \<longleftrightarrow> is_project (lf_tree s) n q))"
proof (rule project_path_cases [OF assms(4), of p])
  fix e assume "project_path ns p = Inl e"
  then show ?thesis using assms(4,5) by (simp add: CreateProjectCtx_def)
next
  assume pp: "project_path ns p = Inr [ns, p]" and v: "IsValidName p"
  have dot: "\<not> has_prefix p ''.''" "hd p \<noteq> CHR ''@''"
    using v IsValidName_chars [OF v hd_in_set [OF IsValidName_nonempty [OF v]]]
    by (cases p; auto simp: IsValidName_def has_prefix_def split: if_splits)+
  obtain t where t: "MkdirAll mf (lf_tree s) [ns, p] = Some t"
    using assms(4,5) pp by (auto simp: CreateProjectCtx_def split: option.splits)
  note n = MkdirAll_node [OF t]
  obtain t2 where t2: "reg_call E (of_reg F) (OpAdd ns p) (s\<lparr>lf_tree := t2\<rparr>) = (None, s')"
      "node_at t2 [ns, p] = Some DirNode" "node_at t2 [ns, p, ''.git''] \<noteq> None"
      "(n, q) \<noteq> (ns, p) \<Longrightarrow> is_project t2 n q \<longleftrightarrow> is_project t n q"
  proof (cases "I t [ns, p]")
    case (Initialised t1)
    have c: "CreateProjectCtx E mf I C F ns p s = (case C t1 (siblingDBPaths ns p ! 0) of
        None \<Rightarrow> (Some CatalogFails, s\<lparr>lf_tree := t1\<rparr>)
      | Some t2 \<Rightarrow> reg_call E (of_reg F) (OpAdd ns p) (s\<lparr>lf_tree := t2\<rparr>))"
      using assms(4) pp t Initialised by (simp add: CreateProjectCtx_def)
    then obtain t2 where t2: "C t1 (siblingDBPaths ns p ! 0) = Some t2" using assms(5) by (auto split: option.splits)
    have i: "node_at t1 [ns, p, ''.git''] = Some DirNode" "\<not> prefix [ns, p, ''.git''] x \<Longrightarrow> node_at t1 x = node_at t x" for x
      using assms(2) [unfolded init_ok_def, rule_format, where t = t and q = "[ns, p]"] by (simp_all add: Initialised)
    have sp: "siblingDBPaths ns p ! 0 = [ns, CHR ''@'' # p @ ''.project.db'']" using assms(4) by (simp add: siblingDBPaths_def Let_def)
    have k: "node_at t1 [ns, CHR ''@'' # p @ ''.project.db''] \<noteq> Some DirNode" "node_at t2 [ns, CHR ''@'' # p @ ''.project.db''] \<noteq> Some DirNode"
      "x \<noteq> [ns, CHR ''@'' # p @ ''.project.db''] \<Longrightarrow> node_at t2 x = node_at t1 x" for x
      using assms(3) t2 unfolding sp catalog_opens_def by blast+
    have ne: "p \<noteq> CHR ''@'' # z" for z using dot(2) by auto
    show thesis
    proof (rule that)
      show "reg_call E (of_reg F) (OpAdd ns p) (s\<lparr>lf_tree := t2\<rparr>) = (None, s')" using c t2 assms(5) by simp
      show "node_at t2 [ns, p] = Some DirNode" using k(3) [of "[ns, p]"] i(2) [of "[ns, p]"] n [of "[ns, p]"] ne by simp
      show "node_at t2 [ns, p, ''.git''] \<noteq> None" using k(3) [of "[ns, p, ''.git'']"] i(1) by simp
      show "is_project t2 n q \<longleftrightarrow> is_project t n q" if "(n, q) \<noteq> (ns, p)"
      proof -
        have "node_at t2 [n, q, ''.git''] = node_at t [n, q, ''.git'']" using k(3) [of "[n, q, ''.git'']"] i(2) [of "[n, q, ''.git'']"] that by auto
        moreover have "node_at t2 [n, q] = Some DirNode \<longleftrightarrow> node_at t [n, q] = Some DirNode"
          using k(1,2) k(3) [of "[n, q]"] i(2) [of "[n, q]"] by (cases "[n, q] = [ns, CHR ''@'' # p @ ''.project.db'']") auto
        ultimately show ?thesis by (simp add: is_project_def)
      qed
    qed
  next
    case AlreadyExists
    have "node_at t ([ns, p] @ [''.git'']) \<noteq> None" using assms(2) [unfolded init_ok_def, rule_format, where t = t and q = "[ns, p]"] by (simp add: AlreadyExists)
    then show thesis using that [of t] assms(4,5) pp t AlreadyExists n [of "[ns, p]"] by (simp add: CreateProjectCtx_def)
  next
    case InitFails
    then show thesis using assms(4,5) pp t by (simp add: CreateProjectCtx_def)
  qed
  have same: "is_project t n q \<longleftrightarrow> is_project (lf_tree s) n q" if "(n, q) \<noteq> (ns, p)"
    using that n [of "[n, q]"] n [of "[n, q, ''.git'']"] by (auto simp: is_project_def)
  have mid: "life_ok E (s\<lparr>lf_tree := t2\<rparr>)" "life_managed E (s\<lparr>lf_tree := t2\<rparr>) = life_managed E s" "life_held E (s\<lparr>lf_tree := t2\<rparr>) = life_held E s"
    using assms(1) by (simp_all add: life_ok_def life_managed_def life_held_def fun_eq_iff)
  have "lf_tree s' = t2 \<and> lf_auth s' = lf_auth s \<and> p \<in> members (life_managed E s') ns"
  proof (rule reg_call_cases [OF mid(1), of "of_reg F" "OpAdd ns p"])
    fix x assume x: "reg_call E (of_reg F) (OpAdd ns p) (s\<lparr>lf_tree := t2\<rparr>) = (None, x)" "lf_tree x = lf_tree (s\<lparr>lf_tree := t2\<rparr>)"
      "lf_auth x = lf_auth (s\<lparr>lf_tree := t2\<rparr>)" "reg_spec (OpAdd ns p) (life_managed E (s\<lparr>lf_tree := t2\<rparr>)) = Some (life_managed E x)"
    have "life_managed E x = (life_managed E s)(ns \<mapsto> insert p (members (life_managed E s) ns))" using x(4) mid(2) by simp
    then show ?thesis using x(1-3) t2(1) by (simp add: members_def)
  qed (use t2(1) in simp)
  moreover have "life_held E s' = life_held E s" using calculation by (simp add: life_held_def fun_eq_iff)
  ultimately show ?thesis using t2(2-4) same dot(1) by (auto simp: is_project_def)
qed

section \<open>Instances\<close>

theorem DeleteProject_exact_witness:
  "\<exists>s' :: (reg_row mem_db, us_row mem_db, os_row mem_db) life. node_at (lf_tree s') [''docs'', ''guide'', ''a.md''] = None \<and> node_at (lf_tree s') [''docs'', ''@guide.project.db''] = None \<and>
     node_at (lf_tree s') [''docs'', ''stray''] = Some DirNode"
proof -
  let ?r = "DeleteProject demo_system (\<lambda>_. False) op_smooth [] ''docs'' ''guide'' demo_life"
  have f: "fst ?r = None" by code_simp
  have n: "''docs'' \<noteq> []" by simp
  have sib: "[''docs'', ''@guide.project.db''] \<in> set (siblingDBPaths ''docs'' ''guide'')" "[''docs'', ''stray''] \<notin> set (siblingDBPaths ''docs'' ''guide'')"
    by (simp_all add: siblingDBPaths_def Let_def)
  have k: "node_at (lf_tree demo_life) [''docs'', ''stray''] = Some DirNode" by code_simp
  from DeleteProject_exact [OF demo_life_ok(1,2) n surjective_pairing, of "\<lambda>_. False" op_smooth "[]" "''guide''"] f sib k
  show ?thesis by (intro exI [of _ "snd ?r"]) simp
qed

theorem DeleteNamespace_keeps_projects_witness:
  "\<exists>s'. is_project (lf_tree s') ''docs'' ''guide'' \<and> life_managed demo_system s' DefaultNamespace = life_managed demo_system demo_life DefaultNamespace"
proof -
  have "is_project (lf_tree demo_life) ''docs'' ''guide''" by code_simp
  with DeleteNamespace_keeps_projects [OF demo_life_ok(1,2) surjective_pairing, of "\<lambda>_. False" op_smooth "''docs''" "''docs''" "''guide''"]
  show ?thesis by blast
qed

definition demo_first :: "(reg_row mem_db, us_row mem_db, os_row mem_db) life" where
  "demo_first = \<lparr>lf_tree = ([''my docs''], DirNode) # ([''my docs'', ''a''], DirNode) # ([''my docs'', ''a'', ''.git''], DirNode) # demo_base,
     lf_reg = [(journalBucket, []), (namespacesBucket, [])], lf_auth = None\<rparr>"

lemma demo_first_ok: "life_ok demo_system demo_first" "wt_ok (lf_tree demo_first)" "reg_IsEmpty (le_reg demo_system) (lf_reg demo_first)"
proof -
  have "reg_ok mem_bolt [(journalBucket, []), (namespacesBucket, [] :: (string \<times> reg_row) list)]"
    by (auto simp: reg_ok_def b_bucket_bview bget_bview mem_bolt_view split: if_splits)
  then show "life_ok demo_system demo_first" by (simp add: life_ok_def demo_system_def demo_first_def mem_bolt_ok)
  have d: "(node_at demo_base p = None \<longrightarrow> p \<noteq> []) \<and> (strict_prefix q p \<longrightarrow> node_at demo_base p \<noteq> None \<longrightarrow> node_at demo_base q = Some DirNode)" for p q
    using wt_okD [OF demo_base_ok] by auto
  show "wt_ok (lf_tree demo_first)" unfolding wt_ok_def
  proof (intro allI impI)
    fix p q assume p: "node_at (lf_tree demo_first) p \<noteq> None" "strict_prefix q p"
    have n: "node_at (lf_tree demo_first) x = (if x \<in> {[''my docs''], [''my docs'', ''a''], [''my docs'', ''a'', ''.git'']} then Some DirNode else node_at demo_base x)" for x
      by (simp add: demo_first_def node_at_def)
    show "node_at (lf_tree demo_first) q = Some DirNode"
    proof (cases "p \<in> {[''my docs''], [''my docs'', ''a''], [''my docs'', ''a'', ''.git'']}")
      case True
      then have "q \<in> {[], [''my docs''], [''my docs'', ''a'']}" using p(2) by (auto simp: strict_prefix_def prefix_Cons)
      then show ?thesis unfolding n by (auto simp: node_at_def)
    next
      case False
      then show ?thesis using p d [of p q] unfolding n by auto
    qed
  qed
  show "reg_IsEmpty (le_reg demo_system) (lf_reg demo_first)" by code_simp
qed

theorem reconcile_adopts_once_witness:
  "\<exists>s'. life_managed demo_system s' ''docs'' = Some {p. is_project (lf_tree demo_first) ''docs'' p}"
proof -
  have "is_project (lf_tree demo_first) ''docs'' ''guide''" by code_simp
  moreover have "\<not> has_prefix ''docs'' ''.''" by code_simp
  ultimately have "life_managed demo_system (reconcileManagedRegistry demo_system (\<lambda>_. False) (fst (discoverProjects (\<lambda>_. False) (lf_tree demo_first))) demo_first) ''docs'' =
      Some {p. is_project (lf_tree demo_first) ''docs'' p}"
    using reconcile_adopts_once [OF demo_first_ok(1,2) demo_life_ok(3) refl, of "''docs''"] demo_first_ok(3) by auto
  then show ?thesis by blast
qed

theorem ListAllProjects_poisoned_witness:
  "\<exists>s'. isl (ListAllProjects demo_system (\<lambda>_. False) s') \<and> ListProjects False (lf_tree s') ''docs'' = Inr [''guide'']"
proof -
  have a: "is_project (lf_tree demo_first) ''my docs'' ''a''" "\<not> has_prefix ''my docs'' ''.''" "''my docs'' \<noteq> []" "\<not> IsValidName ''my docs''"
    by code_simp+
  let ?s = "reconcileManagedRegistry demo_system (\<lambda>_. False) (fst (discoverProjects (\<lambda>_. False) (lf_tree demo_first))) demo_first"
  have "ListProjects False (lf_tree ?s) ''docs'' = Inr [''guide'']" by code_simp
  with ListAllProjects_poisoned [OF demo_first_ok(1,2) demo_life_ok(3) demo_first_ok(3) a refl] show ?thesis by blast
qed

definition demo_init :: "wtree \<Rightarrow> string list \<Rightarrow> init_res" where
  "demo_init t q = (if node_at t (q @ [''.git'']) \<noteq> None then AlreadyExists else Initialised (kv_put (q @ [''.git'']) DirNode t))"

definition opens_catalog :: "wtree \<Rightarrow> string list \<Rightarrow> wtree option" where
  "opens_catalog t q = (if node_at t q = Some DirNode then None else Some (kv_put q (FileNode ''db'') t))"

theorem CreateProject_makes_project_witness:
  "\<exists>s' :: (reg_row mem_db, us_row mem_db, os_row mem_db) life. is_project (lf_tree s') ''docs'' ''fresh'' \<and> is_project (lf_tree s') ''docs'' ''guide'' \<and> init_ok demo_init \<and> catalog_opens opens_catalog"
proof -
  have i: "init_ok demo_init" by (auto simp: init_ok_def demo_init_def node_at_put)
  have "node_at t q \<noteq> Some DirNode \<Longrightarrow> q \<noteq> []" for t q by (auto simp: node_at_def)
  then have c: "catalog_opens opens_catalog" by (auto simp: catalog_opens_def opens_catalog_def node_at_put split: if_splits)
  let ?r = "CreateProjectCtx demo_system False demo_init opens_catalog op_smooth ''docs'' ''fresh'' demo_life"
  have "fst ?r = None" by code_simp
  then have r: "?r = (None, snd ?r)" by (metis surjective_pairing)
  have n: "''docs'' \<noteq> []" by simp
  have g: "is_project (lf_tree demo_life) ''docs'' ''guide''" by code_simp
  have "(''docs'', ''guide'') \<noteq> (''docs'', ''fresh'')" by simp
  with CreateProject_makes_project [OF demo_life_ok(1) i c n r, of "''docs''" "''guide''"] g
  have "is_project (lf_tree (snd ?r)) ''docs'' ''fresh''" "is_project (lf_tree (snd ?r)) ''docs'' ''guide''" by blast+
  with i c show ?thesis by blast
qed

end
