(* ===== verification/Markdown_Summary.thy ===== *)
theory Markdown_Summary
  imports Go_Runes
begin

text \<open>
  The summary of a Markdown document (\<open>internal/markdown/markdown.go\<close>): frontmatter, first heading and a
  capped excerpt.  \<open>yaml\<close> is the decoder of the frontmatter, its result the text of the map it yields.
\<close>

record md_summary =
  sm_Frontmatter :: string
  sm_Heading :: string
  sm_Excerpt :: string

definition MaxExcerptRunes :: nat where
  "MaxExcerptRunes = 200"

definition is_fence :: "string \<Rightarrow> bool" where
  "is_fence line \<longleftrightarrow> rev (dropWhile (\<lambda>c. c = CHR 0x0D) (rev line)) = ''---''"

fun until_fence :: "string list \<Rightarrow> (string list \<times> string list) option" where
  "until_fence [] = None"
| "until_fence (l # ls) =
     (if is_fence l then Some ([], ls) else map_option (\<lambda>(before, after). (l # before, after)) (until_fence ls))"

definition starts_heading :: "string \<Rightarrow> bool" where
  "starts_heading t \<longleftrightarrow> has_prefix t ''#''"

fun heading_of :: "string list \<Rightarrow> string" where
  "heading_of [] = []"
| "heading_of (line # ls) =
     (let t = trim_space line in
      if starts_heading t then
        (let h = trim_space (dropWhile (\<lambda>c. c = CHR ''#'') t) in if h \<noteq> [] then h else heading_of ls)
      else heading_of ls)"

definition firstHeading :: "string \<Rightarrow> string" where
  "firstHeading body = heading_of (split_on newline body)"

fun first_para :: "bool \<Rightarrow> string list \<Rightarrow> string list" where
  "first_para started [] = []"
| "first_para started (line # ls) =
     (let t = trim_space line in
      if t = [] \<or> starts_heading t then (if started then [] else first_para started ls)
      else t # first_para True ls)"

definition truncateRunes :: "string \<Rightarrow> nat \<Rightarrow> string" where
  "truncateRunes s mx = (if length (runes s) \<le> mx then s else rune_string (take mx (runes s)))"

definition firstExcerpt :: "string \<Rightarrow> string" where
  "firstExcerpt body =
     (let excerpt = join_with '' '' (first_para False (split_on newline body)) in
      truncateRunes (if excerpt = [] then trim_space body else excerpt) MaxExcerptRunes)"

definition md_Parse :: "(string \<Rightarrow> string option) \<Rightarrow> string \<Rightarrow> md_summary" where
  "md_Parse yaml content =
     (case split_on newline content of
        [] \<Rightarrow> \<lparr>sm_Frontmatter = ''{}'', sm_Heading = firstHeading content, sm_Excerpt = firstExcerpt content\<rparr>
      | l # ls \<Rightarrow>
          (case (if is_fence l then until_fence ls else None) of
             None \<Rightarrow> \<lparr>sm_Frontmatter = ''{}'', sm_Heading = firstHeading content, sm_Excerpt = firstExcerpt content\<rparr>
           | Some (before, after) \<Rightarrow>
               (let body = join_with [newline] after in
                \<lparr>sm_Frontmatter = (case yaml (join_with [newline] before) of None \<Rightarrow> ''{}'' | Some fm \<Rightarrow> fm),
                 sm_Heading = firstHeading body, sm_Excerpt = firstExcerpt body\<rparr>)))"

lemma heading_line: "heading_of ls = [] \<or> (\<exists>l\<in>set ls. starts_heading (trim_space l) \<and>
    heading_of ls = trim_space (dropWhile (\<lambda>c. c = CHR ''#'') (trim_space l)))"
  by (induction ls) (auto simp: Let_def)

lemma valid_one: "a < 128 \<Longrightarrow> valid_rune a" "valid_rune RuneError"
  by (simp_all add: valid_rune_def RuneError_def)

lemma valid_two: "a \<le> 223 \<Longrightarrow> cont_byte b \<Longrightarrow> valid_rune ((a - 192) * 64 + (b - 128))"
  unfolding valid_rune_def cont_byte_def by (rule disjI1) arith

lemma valid_three:
  assumes "lead3 a b" "cont_byte c"
  shows "valid_rune ((a - 224) * 4096 + (b - 128) * 64 + (c - 128))"
proof -
  have "(if a = 224 then 32 else 0) \<le> b - 128" "b - 128 \<le> (if a = 237 then 31 else 63)" "a - 224 \<le> 15" "c - 128 \<le> 63"
    "a = 224 \<longleftrightarrow> a - 224 = 0" "a = 237 \<longleftrightarrow> a - 224 = 13"
    using assms by (auto simp: lead3_def cont_byte_def split: if_splits)
  then show ?thesis unfolding valid_rune_def by (cases "a = 237"; cases "a = 224") auto
qed

lemma valid_four:
  assumes "lead4 a b" "cont_byte c" "cont_byte d"
  shows "valid_rune ((a - 240) * 262144 + (b - 128) * 4096 + (c - 128) * 64 + (d - 128))"
proof -
  have "(if a = 240 then 16 else 0) \<le> b - 128" "b - 128 \<le> (if a = 244 then 15 else 63)" "a - 240 \<le> 4" "c - 128 \<le> 63" "d - 128 \<le> 63"
    "a = 240 \<longleftrightarrow> a - 240 = 0" "a = 244 \<longleftrightarrow> a - 240 = 4"
    using assms by (auto simp: lead4_def cont_byte_def split: if_splits)
  then show ?thesis unfolding valid_rune_def
    by (cases "a = 244"; cases "a = 240") auto
qed

lemma decode_valid: "\<forall>b\<in>set bs. b < 256 \<Longrightarrow> list_all valid_rune (decode_bytes bs)"
  by (induction bs rule: decode_bytes.induct) (auto simp: valid_two valid_three valid_four valid_one)

lemma runes_valid: "list_all valid_rune (runes s)"
  unfolding runes_def by (rule decode_valid) auto

lemma truncate_length: "length (runes (truncateRunes s mx)) \<le> mx"
proof -
  have "list_all valid_rune (take mx (runes s))" using runes_valid [of s] by (auto simp: list_all_iff dest: in_set_takeD)
  then show ?thesis by (simp add: truncateRunes_def runes_rune_string)
qed

text \<open>
  a summary never returns the body of a large file: the excerpt has at most 200 characters, and the
  heading is within one line.
\<close>

theorem summary_capped:
  "length (runes (sm_Excerpt (md_Parse yaml content))) \<le> MaxExcerptRunes \<and>
   newline \<notin> set (sm_Heading (md_Parse yaml content))"
proof -
  have e: "length (runes (firstExcerpt b)) \<le> MaxExcerptRunes" for b
    unfolding firstExcerpt_def Let_def by (rule truncate_length)
  have l: "newline \<notin> set l" if "l \<in> set (split_on newline b)" for l b
    using split_on_sep_free that by metis
  have h: "newline \<notin> set (firstHeading b)" for b
    using heading_line [of "split_on newline b"] l
    by (auto simp: firstHeading_def dest!: set_dropWhileD subsetD [OF set_trim_space])
  show ?thesis using e h by (auto simp: md_Parse_def Let_def split: list.split option.split)
qed

end
