(* ===== verification/Notify_Center.thy ===== *)
theory Notify_Center
  imports Go_Strings KV "HOL-Library.Word"
begin

text \<open>
  The notification centre (\<open>internal/notify/center.go\<close>, \<open>sender.go\<close>): a ring of the most recent events and
  the subscribers a new event is handed to.  The clock is an argument; a subscriber is the key of its
  entry and the identity it declared, and publishing yields the keys of those whose callback runs.  The
  centre of a nil pointer, which records nothing, is left out.
\<close>

record notify_event =
  ev_Seq :: "64 word"
  ev_Timestamp :: int
  ev_Kind :: string
  ev_Target :: string
  ev_Path :: string
  ev_SourcePath :: string

definition zero_event :: notify_event where
  "zero_event = \<lparr>ev_Seq = 0, ev_Timestamp = 0, ev_Kind = [], ev_Target = [], ev_Path = [], ev_SourcePath = []\<rparr>"

record center =
  ct_buf :: "notify_event list"
  ct_next :: "64 word"
  ct_writeIx :: nat
  ct_count :: nat
  ct_subs :: "(nat \<times> string) list"
  ct_nextSubID :: nat

definition NewCenter :: "int \<Rightarrow> center" where
  "NewCenter maxEntries =
     (let n = (if maxEntries \<le> 0 then 1000 else nat maxEntries) in
      \<lparr>ct_buf = replicate n zero_event, ct_next = 1, ct_writeIx = 0, ct_count = 0, ct_subs = [], ct_nextSubID = 0\<rparr>)"

text \<open>The event as it was recorded is returned with the keys of the subscribers it goes to.\<close>

definition publishFrom :: "int \<Rightarrow> string \<Rightarrow> notify_event \<Rightarrow> center \<Rightarrow> (notify_event \<times> nat list) \<times> center" where
  "publishFrom now sender ev0 c =
     (let ev = ev0\<lparr>ev_Seq := ct_next c, ev_Timestamp := now\<rparr>;
          c1 = c\<lparr>ct_buf := (ct_buf c)[ct_writeIx c := ev], ct_next := ct_next c + 1,
                 ct_writeIx := (ct_writeIx c + 1) mod length (ct_buf c),
                 ct_count := (if ct_count c < length (ct_buf c) then ct_count c + 1 else ct_count c)\<rparr> in
      ((ev, map fst (filter (\<lambda>(k, sid). \<not> (sender \<noteq> [] \<and> sid = sender)) (ct_subs c))), c1))"

definition NotifyFrom :: "int \<Rightarrow> string \<Rightarrow> string \<Rightarrow> string \<Rightarrow> string \<Rightarrow> center \<Rightarrow> (notify_event \<times> nat list) \<times> center" where
  "NotifyFrom now sender kind tgt path =
     publishFrom now sender (zero_event\<lparr>ev_Kind := kind, ev_Target := tgt, ev_Path := path\<rparr>)"

definition Notify :: "int \<Rightarrow> string \<Rightarrow> string \<Rightarrow> string \<Rightarrow> center \<Rightarrow> (notify_event \<times> nat list) \<times> center" where
  "Notify now kind tgt path = NotifyFrom now [] kind tgt path"

definition NotifyMoveFrom :: "int \<Rightarrow> string \<Rightarrow> string \<Rightarrow> string \<Rightarrow> string \<Rightarrow> center \<Rightarrow> (notify_event \<times> nat list) \<times> center" where
  "NotifyMoveFrom now sender tgt sourcePath path =
     publishFrom now sender
       (zero_event\<lparr>ev_Kind := ''file.move'', ev_Target := tgt, ev_Path := path, ev_SourcePath := sourcePath\<rparr>)"

text \<open>
  The key of the new subscriber, from a counter of 64 bits; \<open>unsubscribe\<close> is the function that
  \<open>SubscribeAs\<close> returns.
\<close>

definition SubscribeAs :: "string \<Rightarrow> center \<Rightarrow> nat \<times> center" where
  "SubscribeAs sid c =
     (let k = (ct_nextSubID c + 1) mod 2 ^ 64 in (k, c\<lparr>ct_nextSubID := k, ct_subs := kv_put k sid (ct_subs c)\<rparr>))"

definition unsubscribe :: "nat \<Rightarrow> center \<Rightarrow> center" where
  "unsubscribe k c = c\<lparr>ct_subs := kv_del k (ct_subs c)\<rparr>"

definition orderedLocked :: "center \<Rightarrow> notify_event list" where
  "orderedLocked c =
     (if ct_count c = 0 then []
      else (let start = (if ct_count c = length (ct_buf c) then ct_writeIx c else 0) in
            map (\<lambda>i. ct_buf c ! ((start + i) mod length (ct_buf c))) [0..<ct_count c]))"

definition Snapshot :: "center \<Rightarrow> notify_event list" where
  "Snapshot c = orderedLocked c"

definition Since :: "64 word \<Rightarrow> center \<Rightarrow> notify_event list \<times> bool" where
  "Since sinceSeq c =
     (let allev = orderedLocked c in
      if allev = [] then ([], False)
      else (filter (\<lambda>e. ev_Seq e > sinceSeq) allev, ev_Seq (hd allev) > sinceSeq + 1))"

section \<open>The ring holds the newest events\<close>

text \<open>The events published so far, oldest first, are numbered from one.\<close>

definition numbered :: "notify_event list \<Rightarrow> bool" where
  "numbered H \<longleftrightarrow> (\<forall>i<length H. ev_Seq (H ! i) = of_nat (i + 1))"

definition ring_of :: "nat \<Rightarrow> notify_event list \<Rightarrow> center \<Rightarrow> bool" where
  "ring_of m H c \<longleftrightarrow>
     0 < m \<and> length (ct_buf c) = m \<and> ct_next c = of_nat (length H + 1) \<and> ct_writeIx c = length H mod m \<and>
     ct_count c = min (length H) m \<and> numbered H \<and>
     (\<forall>i<length H. length H \<le> i + m \<longrightarrow> ct_buf c ! (i mod m) = H ! i)"

lemma ring_of_new: "ring_of (if n \<le> 0 then 1000 else nat n) [] (NewCenter n)"
  by (simp add: ring_of_def NewCenter_def numbered_def Let_def)

lemma ring_of_publish:
  assumes "ring_of m H c" "publishFrom now sender ev0 c = ((ev, ks), c')"
  shows "ring_of m (H @ [ev]) c'" "ev = ev0\<lparr>ev_Seq := of_nat (length H + 1), ev_Timestamp := now\<rparr>"
proof -
  note r = assms(1) [unfolded ring_of_def]
  show ev: "ev = ev0\<lparr>ev_Seq := of_nat (length H + 1), ev_Timestamp := now\<rparr>"
    using assms(2) r by (simp add: publishFrom_def Let_def)
  have slot: "ct_buf c' ! (i mod m) = (H @ [ev]) ! i" if i: "i < length (H @ [ev])" "length (H @ [ev]) \<le> i + m" for i
  proof (cases "i = length H")
    case True
    then show ?thesis using assms(2) r by (auto simp: publishFrom_def Let_def)
  next
    case False
    then have l: "i < length H" "length H < i + m" using i by simp_all
    have "i mod m \<noteq> length H mod m"
    proof
      assume "i mod m = length H mod m"
      then have "m dvd length H - i" using l(1) by (metis mod_eq_dvd_iff_nat less_imp_le)
      then show False using l by (auto dest: dvd_imp_le)
    qed
    then show ?thesis using assms(2) r l by (auto simp: publishFrom_def Let_def nth_append)
  qed
  have n: "numbered (H @ [ev])" using r ev by (auto simp: numbered_def nth_append less_Suc_eq)
  show "ring_of m (H @ [ev]) c'"
    unfolding ring_of_def using slot n r assms(2) by (auto simp: publishFrom_def Let_def mod_Suc_eq)
qed

lemma ring_of_ordered:
  assumes "ring_of m H c"
  shows "orderedLocked c = drop (length H - m) H"
proof (cases "H = []")
  case True
  then show ?thesis using assms by (simp add: orderedLocked_def ring_of_def)
next
  case False
  note r = assms [unfolded ring_of_def]
  show ?thesis
  proof (rule nth_equalityI)
    show "length (orderedLocked c) = length (drop (length H - m) H)"
      using r by (auto simp: orderedLocked_def Let_def min_def)
    fix i assume "i < length (orderedLocked c)"
    then have i: "i < min (length H) m" using r False by (simp add: orderedLocked_def Let_def split: if_splits)
    have o: "orderedLocked c ! i = ct_buf c ! (((if min (length H) m = m then length H mod m else 0) + i) mod m)"
      using i r False by (auto simp: orderedLocked_def Let_def)
    show "orderedLocked c ! i = drop (length H - m) H ! i"
    proof (cases "m \<le> length H")
      case True
      have "(length H mod m + i) mod m = (length H - m + i) mod m"
        using True by (metis le_add_diff_inverse2 mod_add_left_eq mod_add_self2 add.assoc add.commute)
      then show ?thesis using o i True r by (simp add: min_def)
    next
      case False
      then show ?thesis using o i r by (simp add: min_def)
    qed
  qed
qed

section \<open>Histories\<close>

fun publish_all :: "(int \<times> string \<times> notify_event) list \<Rightarrow> center \<Rightarrow> notify_event list \<times> center" where
  "publish_all [] c = ([], c)"
| "publish_all ((now, sender, ev0) # ps) c =
     (case publishFrom now sender ev0 c of ((ev, ks), c1) \<Rightarrow>
       (case publish_all ps c1 of (evs, c2) \<Rightarrow> (ev # evs, c2)))"

lemma ring_of_publish_all:
  "ring_of m H c \<Longrightarrow> publish_all ps c = (evs, c') \<Longrightarrow>
     ring_of m (H @ evs) c' \<and> length evs = length ps \<and> map ev_Kind evs = map (ev_Kind \<circ> snd \<circ> snd) ps \<and>
     map ev_Target evs = map (ev_Target \<circ> snd \<circ> snd) ps \<and> map ev_Path evs = map (ev_Path \<circ> snd \<circ> snd) ps"
proof (induction ps c arbitrary: H evs rule: publish_all.induct)
  case (2 now sender ev0 ps c)
  obtain ev ks c1 where p: "publishFrom now sender ev0 c = ((ev, ks), c1)" by (metis prod.exhaust)
  obtain es c2 where q: "publish_all ps c1 = (es, c2)" by (metis prod.exhaust)
  have o: "evs = ev # es" "c' = c2" using "2.prems"(2) p q by simp_all
  note r = ring_of_publish [OF "2.prems"(1) p]
  from "2.IH" [OF p [symmetric] refl r(1) q [folded o(2)]] o r(2) show ?case by simp
qed simp

lemma numbered_seq:
  assumes "numbered H" "length H < 2 ^ 64" "i < length H"
  shows "unat (ev_Seq (H ! i)) = i + 1"
proof -
  have "ev_Seq (H ! i) = of_nat (i + 1)" using assms(1,3) by (simp add: numbered_def)
  then show ?thesis using assms(2,3) by (simp add: unat_of_nat del: of_nat_Suc of_nat_add)
qed

text \<open>
  C28: a reader of the centre misses nothing unknowingly: after any publications (fewer than 2^64 - 1, the range of
  the counter) the ring holds exactly the newest events that fit, in order, numbered without gaps from one; and \<open>Since\<close> reports a miss exactly if
  an event after the reader's mark (any number but the greatest) has been overwritten, and without a miss returns every event
  published after the mark.
\<close>

theorem center_keeps_newest:
  assumes "publish_all ps (NewCenter n) = (evs, c)" "length ps < 2 ^ 64 - 1" "s \<noteq> - 1"
  shows "Snapshot c = drop (length evs - (if n \<le> 0 then 1000 else nat n)) evs \<and>
    map ev_Path evs = map (ev_Path \<circ> snd \<circ> snd) ps \<and> (\<forall>i<length evs. unat (ev_Seq (evs ! i)) = i + 1) \<and>
    (case Since s c of (got, missed) \<Rightarrow>
      (missed \<longleftrightarrow> (\<exists>e\<in>set (take (length evs - (if n \<le> 0 then 1000 else nat n)) evs). s < ev_Seq e)) \<and>
      got = filter (\<lambda>e. s < ev_Seq e) (Snapshot c) \<and>
      (\<not> missed \<longrightarrow> got = filter (\<lambda>e. s < ev_Seq e) evs))"
proof -
  let ?m = "if n \<le> 0 then 1000 else nat n"
  let ?d = "length evs - ?m"
  from ring_of_publish_all [OF ring_of_new assms(1)] have r: "ring_of ?m evs c" and len: "length evs = length ps"
    and paths: "map ev_Path evs = map (ev_Path \<circ> snd \<circ> snd) ps" by auto
  have snap: "Snapshot c = drop ?d evs" using ring_of_ordered [OF r] by (simp add: Snapshot_def)
  have m: "0 < ?m" and num: "numbered evs" using r by (simp_all add: ring_of_def)
  have seq: "unat (ev_Seq (evs ! i)) = i + 1" if "i < length evs" for i
    using numbered_seq [OF num _ that] assms(2) len by simp
  have after: "s < ev_Seq (evs ! i) \<longleftrightarrow> unat s < i + 1" if "i < length evs" for i
    using seq [OF that] by (simp add: word_less_nat_alt)
  have gone: "(\<exists>e\<in>set (take ?d evs). s < ev_Seq e) \<longleftrightarrow> unat s < ?d"
  proof
    assume "\<exists>e\<in>set (take ?d evs). s < ev_Seq e"
    then obtain i where "i < ?d" "i < length evs" "s < ev_Seq (evs ! i)" by (auto simp: in_set_conv_nth)
    with after [of i] show "unat s < ?d" by simp
  next
    assume u: "unat s < ?d"
    then have "?d - 1 < length evs" "s < ev_Seq (evs ! (?d - 1))" using after [of "?d - 1"] by auto
    moreover have "evs ! (?d - 1) \<in> set (take ?d evs)" using u by (auto simp: in_set_conv_nth intro!: exI [of _ "?d - 1"])
    ultimately show "\<exists>e\<in>set (take ?d evs). s < ev_Seq e" by blast
  qed
  have s1: "unat (s + 1) = unat s + 1"
    using assms(3) unatSuc [of s] by (simp add: eq_neg_iff_add_eq_0 add.commute)
  have since: "Since s c = (filter (\<lambda>e. s < ev_Seq e) (drop ?d evs), unat s < ?d)"
  proof (cases "evs = []")
    case True
    then show ?thesis using ring_of_ordered [OF r] by (simp add: Since_def)
  next
    case False
    then have d: "?d < length evs" using m by (cases evs) auto
    then have h: "hd (drop ?d evs) = evs ! ?d" by (simp add: hd_drop_conv_nth)
    have "(s + 1 < ev_Seq (evs ! ?d)) = (unat s < ?d)" using seq [OF d] s1 by (simp add: word_less_nat_alt)
    then show ?thesis using d h ring_of_ordered [OF r] by (simp add: Since_def Let_def del: hd_drop_conv_nth)
  qed
  have all: "filter (\<lambda>e. s < ev_Seq e) (drop ?d evs) = filter (\<lambda>e. s < ev_Seq e) evs" if "\<not> unat s < ?d"
  proof -
    have "filter (\<lambda>e. s < ev_Seq e) (take ?d evs) = []" using gone that by (auto simp: filter_empty_conv)
    then show ?thesis by (metis append_take_drop_id filter_append append_Nil)
  qed
  show ?thesis using snap paths seq since gone all by simp
qed

theorem center_keeps_newest_witness:
  "\<exists>c evs. publish_all (replicate 3 (7, [], zero_event)) (NewCenter 2) = (evs, c) \<and> length (Snapshot c) = 2 \<and> snd (Since 0 c)"
proof -
  obtain evs c where p: "publish_all (replicate 3 (7, [], zero_event)) (NewCenter 2) = (evs, c)" by (metis prod.exhaust)
  have l: "length evs = 3" using ring_of_publish_all [OF ring_of_new p] by simp
  have "(0 :: 64 word) \<noteq> - 1" by simp
  note t = center_keeps_newest [OF p _ this]
  have "unat (ev_Seq (evs ! 0)) = 1" "length (Snapshot c) = 2" using t l by simp_all
  moreover from this(1) have "0 < ev_Seq (evs ! 0)" by (simp add: word_less_nat_alt)
  moreover have "evs ! 0 \<in> set (take 1 evs)" using l by (cases evs) auto
  ultimately have "snd (Since 0 c)" using t l by (auto split: prod.splits)
  with p l t show ?thesis by simp
qed

end
