(* ===== verification/Subscriptions.thy ===== *)
theory Subscriptions
  imports Notify_Center Go_Codec
begin

text \<open>
  Change notifications of MCP sessions (\<open>internal/tools/subscribe.go\<close>): each session holds a set of
  patterns, a subscription to the centre under its own identity and a bounded channel that a goroutine
  drains.  A session's object is addressed by the key of its entry in the centre, so that a handler
  that still holds a pointer to an object that was torn down can be told from one of a live session.
  \<open>path.Match\<close> is the parameter \<open>glob\<close>.
\<close>

section \<open>Patterns\<close>

record pattern =
  pt_raw :: string
  pt_target :: string
  pt_pathPred :: string
  pt_isGlob :: bool

definition pattern_matches :: "(string \<Rightarrow> string \<Rightarrow> bool) \<Rightarrow> pattern \<Rightarrow> string \<Rightarrow> string \<Rightarrow> bool" where
  "pattern_matches glob p tgt evPath =
     (if tgt \<noteq> pt_target p then False
      else if pt_isGlob p then glob (pt_pathPred p) evPath
      else has_prefix evPath (pt_pathPred p))"

definition containsGlobMeta :: "string \<Rightarrow> bool" where
  "containsGlobMeta s \<longleftrightarrow> set s \<inter> {CHR ''*'', CHR ''?'', CHR ''[''} \<noteq> {}"

datatype sub_err = PatternShape | PatternWildcard | PatternRecursive | NamespaceUnresolved string | ProjectUnresolved string string | NoSession

text \<open>\<open>SplitN(raw, "/", 3)\<close> yields fewer than two parts exactly if there is no slash.\<close>

definition parsePattern :: "string \<Rightarrow> sub_err + pattern" where
  "parsePattern raw =
     (let ns = cut_before (CHR ''/'') raw; rest = cut_after (CHR ''/'') raw;
          proj = cut_before (CHR ''/'') rest; pathPred = cut_after (CHR ''/'') rest in
      if CHR ''/'' \<notin> set raw \<or> ns = [] \<or> proj = [] then Inl PatternShape
      else if containsGlobMeta ns \<or> containsGlobMeta proj then Inl PatternWildcard
      else if index_sub pathPred ''**'' \<noteq> None then Inl PatternRecursive
      else Inr \<lparr>pt_raw = raw, pt_target = ns @ ''/'' @ proj, pt_pathPred = pathPred, pt_isGlob = containsGlobMeta pathPred\<rparr>)"

definition namespaceProject :: "pattern \<Rightarrow> string \<times> string" where
  "namespaceProject p = (cut_before (CHR ''/'') (pt_target p), cut_after (CHR ''/'') (pt_target p))"

definition isNotifiableKind :: "string \<Rightarrow> bool" where
  "isNotifiableKind kind \<longleftrightarrow> kind \<in> {''file.write'', ''file.move'', ''file.delete''}"

section \<open>Sessions\<close>

record session_sub =
  su_session :: string
  su_patterns :: "(string \<times> pattern) list"
  su_ch :: "notify_event list"
  su_done :: bool
  su_gone :: bool

record sub_manager =
  sm_center :: center
  sm_sessions :: "(string \<times> nat) list"
  sm_subs :: "nat \<Rightarrow> session_sub option"

definition notifyChanBuffer :: nat where
  "notifyChanBuffer = 64"

definition sender_of :: "string \<Rightarrow> string" where
  "sender_of sessionID = ''mcp:'' @ sessionID"

definition onEvent :: "(string \<Rightarrow> string \<Rightarrow> bool) \<Rightarrow> notify_event \<Rightarrow> session_sub \<Rightarrow> session_sub" where
  "onEvent glob e sub =
     (if \<not> isNotifiableKind (ev_Kind e) then sub
      else if \<not> list_ex (\<lambda>(raw, p). pattern_matches glob p (ev_Target e) (ev_Path e)) (su_patterns sub) then sub
      else if length (su_ch sub) < notifyChanBuffer then sub\<lparr>su_ch := su_ch sub @ [e]\<rparr> else sub)"

text \<open>
  One round of the drain loop, which ends once it takes the closed channel \<open>done\<close> (\<open>su_gone\<close>).  When an event is
  queued as well, Go's \<open>select\<close> takes either at random: \<open>picks_done\<close> says which.  The payload is what is sent.
\<close>

definition drain :: "bool \<Rightarrow> session_sub \<Rightarrow> (string \<times> string \<times> string \<times> string) option \<times> session_sub" where
  "drain picks_done sub =
     (if su_gone sub then (None, sub)
      else if su_done sub \<and> (picks_done \<or> su_ch sub = []) then (None, sub\<lparr>su_gone := True\<rparr>)
      else case su_ch sub of
        [] \<Rightarrow> (None, sub)
      | e # es \<Rightarrow> (Some (ev_Kind e, ev_Target e, ev_Path e, ev_SourcePath e), sub\<lparr>su_ch := es\<rparr>))"

definition teardown :: "nat \<Rightarrow> sub_manager \<Rightarrow> sub_manager" where
  "teardown k m =
     m\<lparr>sm_center := unsubscribe k (sm_center m), sm_subs := (sm_subs m)(k := map_option (su_done_update (\<lambda>d. True)) (sm_subs m k))\<rparr>"

text \<open>A publication reaches the objects whose callback the centre runs.\<close>

definition publish :: "(string \<Rightarrow> string \<Rightarrow> bool) \<Rightarrow> int \<Rightarrow> string \<Rightarrow> notify_event \<Rightarrow> sub_manager \<Rightarrow> sub_manager" where
  "publish glob now sender ev0 m =
     (case publishFrom now sender ev0 (sm_center m) of
        ((ev, ks), c) \<Rightarrow>
          m\<lparr>sm_center := c,
            sm_subs := (\<lambda>k. if k \<in> set ks then map_option (onEvent glob ev) (sm_subs m k) else sm_subs m k)\<rparr>)"

text \<open>\<open>projects\<close> is the answer of \<open>ListProjects\<close>.\<close>

definition resolves :: "(string \<Rightarrow> 'e + string list) \<Rightarrow> pattern \<Rightarrow> sub_err option" where
  "resolves projects p =
     (case namespaceProject p of
        (ns, proj) \<Rightarrow>
          (case projects ns of
             Inl e \<Rightarrow> Some (NamespaceUnresolved ns)
           | Inr names \<Rightarrow> (if list_ex (\<lambda>nm. nm = proj) names then None else Some (ProjectUnresolved ns proj))))"

definition patternList :: "(string \<times> pattern) list \<Rightarrow> string list" where
  "patternList ps = map fst ps"

text \<open>
  \<open>addPattern\<close> holds the manager's lock while it finds or makes the session's object, and the object's lock
  while it adds the pattern; between the two other handlers may run.
\<close>

definition addPattern_session :: "string \<Rightarrow> sub_manager \<Rightarrow> nat \<times> sub_manager" where
  "addPattern_session sessionID m =
     (case map_of (sm_sessions m) sessionID of
        Some k \<Rightarrow> (k, m)
      | None \<Rightarrow>
          (case SubscribeAs (sender_of sessionID) (sm_center m) of
             (k, c) \<Rightarrow>
               (k, m\<lparr>sm_center := c, sm_sessions := kv_put sessionID k (sm_sessions m),
                     sm_subs := (sm_subs m)(k \<mapsto> \<lparr>su_session = sessionID, su_patterns = [], su_ch = [], su_done = False, su_gone = False\<rparr>)\<rparr>)))"

definition addPattern_pattern :: "nat \<Rightarrow> pattern \<Rightarrow> sub_manager \<Rightarrow> string list \<times> sub_manager" where
  "addPattern_pattern k p m =
     (case sm_subs m k of
        None \<Rightarrow> ([], m)
      | Some sub \<Rightarrow>
          (let ps = kv_put (pt_raw p) p (su_patterns sub) in
           (patternList ps, m\<lparr>sm_subs := (sm_subs m)(k \<mapsto> sub\<lparr>su_patterns := ps\<rparr>)\<rparr>)))"

text \<open>
  An object that goes is taken out of the manager under the manager's lock and torn down after the lock is
  released; \<open>others\<close> is what other handlers and publishers do between the two.
\<close>

definition removePattern ::
    "(sub_manager \<Rightarrow> sub_manager) \<Rightarrow> string \<Rightarrow> string \<Rightarrow> sub_manager \<Rightarrow> (string list \<times> bool) \<times> sub_manager" where
  "removePattern others sessionID raw m =
     (case map_of (sm_sessions m) sessionID of
        None \<Rightarrow> (([], False), m)
      | Some k \<Rightarrow>
          (case sm_subs m k of
             None \<Rightarrow> (([], False), m)
           | Some sub \<Rightarrow>
               (let ps = kv_del raw (su_patterns sub); removed = (map_of (su_patterns sub) raw \<noteq> None);
                    m1 = m\<lparr>sm_subs := (sm_subs m)(k \<mapsto> sub\<lparr>su_patterns := ps\<rparr>)\<rparr> in
                ((patternList ps, removed),
                 if ps = [] then teardown k (others (m1\<lparr>sm_sessions := kv_del sessionID (sm_sessions m1)\<rparr>)) else m1))))"

definition clearSession :: "(sub_manager \<Rightarrow> sub_manager) \<Rightarrow> string \<Rightarrow> sub_manager \<Rightarrow> bool \<times> sub_manager" where
  "clearSession others sessionID m =
     (case map_of (sm_sessions m) sessionID of
        None \<Rightarrow> (False, m)
      | Some k \<Rightarrow> (True, teardown k (others (m\<lparr>sm_sessions := kv_del sessionID (sm_sessions m)\<rparr>))))"

definition ReapOnce :: "(sub_manager \<Rightarrow> sub_manager) \<Rightarrow> string list \<Rightarrow> sub_manager \<Rightarrow> sub_manager" where
  "ReapOnce others live m =
     (let dead = filter (\<lambda>(sid, k). sid \<notin> set live) (sm_sessions m) in
      fold (\<lambda>(sid, k). teardown k) dead
        (others (m\<lparr>sm_sessions := filter (\<lambda>(sid, k). sid \<in> set live) (sm_sessions m)\<rparr>)))"

text \<open>\<open>others\<close> is what other handlers do between the two halves of \<open>addPattern\<close>.\<close>

definition SubscribeHandler ::
    "(string \<Rightarrow> 'e + string list) \<Rightarrow> (sub_manager \<Rightarrow> sub_manager) \<Rightarrow> string option \<Rightarrow> string \<Rightarrow> sub_manager \<Rightarrow>
     (sub_err + string \<times> string list) \<times> sub_manager" where
  "SubscribeHandler projects others session raw m =
     (case session of
        None \<Rightarrow> (Inl NoSession, m)
      | Some sid \<Rightarrow>
          (case parsePattern raw of
             Inl e \<Rightarrow> (Inl e, m)
           | Inr p \<Rightarrow>
               (case resolves projects p of
                  Some e \<Rightarrow> (Inl e, m)
                | None \<Rightarrow>
                    (case addPattern_session sid m of
                       (k, m1) \<Rightarrow>
                         (case addPattern_pattern k p (others m1) of
                            (ps, m2) \<Rightarrow> (Inr (pt_raw p, ps), m2))))))"

text \<open>Whether something was unsubscribed, whether all was cleared, and what remains.\<close>

definition UnsubscribeHandler ::
    "(sub_manager \<Rightarrow> sub_manager) \<Rightarrow> string option \<Rightarrow> string \<Rightarrow> sub_manager \<Rightarrow> (sub_err + bool \<times> bool \<times> string list) \<times> sub_manager" where
  "UnsubscribeHandler others session raw m =
     (case session of
        None \<Rightarrow> (Inl NoSession, m)
      | Some sid \<Rightarrow>
          (if raw = [] then (case clearSession others sid m of (cleared, m1) \<Rightarrow> (Inr (cleared, True, []), m1))
           else (case removePattern others sid raw m of ((ps, removed), m1) \<Rightarrow> (Inr (removed, False, ps), m1))))"

section \<open>The manager's invariant\<close>

text \<open>
  Every session has one open object, registered with the centre under the session's own identity, and the
  centre has no other subscriber; keys are never reused.
\<close>

definition subs_ok :: "sub_manager \<Rightarrow> bool" where
  "subs_ok m \<longleftrightarrow>
     kv_ok (sm_sessions m) \<and> kv_ok (ct_subs (sm_center m)) \<and>
     (\<forall>k sub. sm_subs m k = Some sub \<longrightarrow> k \<le> ct_nextSubID (sm_center m) \<and> length (su_ch sub) \<le> notifyChanBuffer) \<and>
     (\<forall>sid k. map_of (sm_sessions m) sid = Some k \<longrightarrow>
        map_of (ct_subs (sm_center m)) k = Some (sender_of sid) \<and>
        (\<exists>sub. sm_subs m k = Some sub \<and> su_session sub = sid \<and> \<not> su_done sub)) \<and>
     (\<forall>k sub. sm_subs m k = Some sub \<longrightarrow> map_of (ct_subs (sm_center m)) k \<noteq> None \<longrightarrow>
        map_of (sm_sessions m) (su_session sub) = Some k) \<and>
     (\<forall>k i. map_of (ct_subs (sm_center m)) k = Some i \<longrightarrow> sm_subs m k \<noteq> None)"

lemma subs_okD:
  assumes "subs_ok m"
  shows "kv_ok (sm_sessions m)" "kv_ok (ct_subs (sm_center m))"
    "sm_subs m k = Some sub \<Longrightarrow> k \<le> ct_nextSubID (sm_center m)" "sm_subs m k = Some sub \<Longrightarrow> length (su_ch sub) \<le> notifyChanBuffer"
    "map_of (sm_sessions m) sid = Some k \<Longrightarrow> map_of (ct_subs (sm_center m)) k = Some (sender_of sid)"
    "map_of (sm_sessions m) sid = Some k \<Longrightarrow> \<exists>sub. sm_subs m k = Some sub \<and> su_session sub = sid \<and> \<not> su_done sub"
    "sm_subs m k = Some sub \<Longrightarrow> map_of (ct_subs (sm_center m)) k \<noteq> None \<Longrightarrow> map_of (sm_sessions m) (su_session sub) = Some k"
    "map_of (ct_subs (sm_center m)) k = Some i \<Longrightarrow> sm_subs m k \<noteq> None"
  using assms unfolding subs_ok_def by blast+

lemma subs_fresh: "subs_ok m \<Longrightarrow> sm_subs m (Suc (ct_nextSubID (sm_center m))) = None"
  using subs_okD(3) [of m "Suc (ct_nextSubID (sm_center m))"] by (cases "sm_subs m (Suc (ct_nextSubID (sm_center m)))") force+

lemma subs_okI:
  assumes "kv_ok (sm_sessions m)" "kv_ok (ct_subs (sm_center m))"
    and "\<And>k sub. sm_subs m k = Some sub \<Longrightarrow> k \<le> ct_nextSubID (sm_center m) \<and> length (su_ch sub) \<le> notifyChanBuffer"
    and "\<And>sid k. map_of (sm_sessions m) sid = Some k \<Longrightarrow> map_of (ct_subs (sm_center m)) k = Some (sender_of sid) \<and>
      (\<exists>sub. sm_subs m k = Some sub \<and> su_session sub = sid \<and> \<not> su_done sub)"
    and "\<And>k sub i. sm_subs m k = Some sub \<Longrightarrow> map_of (ct_subs (sm_center m)) k = Some i \<Longrightarrow>
      map_of (sm_sessions m) (su_session sub) = Some k"
    and "\<And>k i. map_of (ct_subs (sm_center m)) k = Some i \<Longrightarrow> sm_subs m k \<noteq> None"
  shows "subs_ok m"
  using assms unfolding subs_ok_def by blast

lemma subs_ok_map:
  assumes "subs_ok m" "sm_sessions m' = sm_sessions m" "ct_subs (sm_center m') = ct_subs (sm_center m)"
    "ct_nextSubID (sm_center m') = ct_nextSubID (sm_center m)"
    and "\<And>k. sm_subs m k = None \<Longrightarrow> sm_subs m' k = None"
    and "\<And>k s. sm_subs m k = Some s \<Longrightarrow> length (su_ch s) \<le> notifyChanBuffer \<Longrightarrow>
      \<exists>s'. sm_subs m' k = Some s' \<and> su_session s' = su_session s \<and> su_done s' = su_done s \<and> length (su_ch s') \<le> notifyChanBuffer"
  shows "subs_ok m'"
proof -
  note d = subs_okD [OF assms(1)]
  have q: "\<exists>s'. sm_subs m' k = Some s' \<and> su_session s' = su_session s \<and> su_done s' = su_done s \<and> length (su_ch s') \<le> notifyChanBuffer"
    if "sm_subs m k = Some s" for k s using assms(6) [OF that] d(4) [OF that] by blast
  have p: "\<exists>s. sm_subs m k = Some s \<and> su_session s' = su_session s \<and> su_done s' = su_done s \<and> length (su_ch s') \<le> notifyChanBuffer"
    if "sm_subs m' k = Some s'" for k s'
  proof (cases "sm_subs m k")
    case None
    with assms(5) that show ?thesis by force
  next
    case (Some s)
    with q that show ?thesis by force
  qed
  show ?thesis
  proof (rule subs_okI, unfold assms(2-4))
    fix k sub assume "sm_subs m' k = Some sub"
    from p [OF this] d(3) [of k] show "k \<le> ct_nextSubID (sm_center m) \<and> length (su_ch sub) \<le> notifyChanBuffer" by auto
  next
    fix sid k assume "map_of (sm_sessions m) sid = Some k"
    from d(5,6) [OF this] q show "map_of (ct_subs (sm_center m)) k = Some (sender_of sid) \<and>
      (\<exists>sub. sm_subs m' k = Some sub \<and> su_session sub = sid \<and> \<not> su_done sub)" by force
  next
    fix k sub i assume "sm_subs m' k = Some sub" "map_of (ct_subs (sm_center m)) k = Some i"
    with p d(7) [of k] show "map_of (sm_sessions m) (su_session sub) = Some k" by force
  next
    fix k i assume "map_of (ct_subs (sm_center m)) k = Some i"
    from d(8) [OF this] q show "sm_subs m' k \<noteq> None" by force
  qed (use d in auto)
qed

lemma subs_ok_teardown:
  assumes "subs_ok m" "map_of (sm_sessions m) sid = Some k"
  shows "subs_ok (teardown k (m\<lparr>sm_sessions := kv_del sid (sm_sessions m)\<rparr>))" (is "subs_ok ?m")
proof -
  note d = subs_okD [OF assms(1)]
  obtain sub where sub: "sm_subs m k = Some sub" "su_session sub = sid" using d(6) [OF assms(2)] by blast
  have other: "k' \<noteq> k" if "map_of (sm_sessions m) sid' = Some k'" "sid' \<noteq> sid" for sid' k'
    using d(6) [OF that(1)] sub that(2) by auto
  have s: "sm_sessions ?m = kv_del sid (sm_sessions m)" "ct_subs (sm_center ?m) = kv_del k (ct_subs (sm_center m))"
    "ct_nextSubID (sm_center ?m) = ct_nextSubID (sm_center m)"
    "sm_subs ?m = (sm_subs m)(k \<mapsto> sub\<lparr>su_done := True\<rparr>)"
    by (simp_all add: teardown_def unsubscribe_def sub)
  show ?thesis
  proof (rule subs_okI, unfold s)
    show "kv_ok (kv_del sid (sm_sessions m))" "kv_ok (kv_del k (ct_subs (sm_center m)))" using d(1,2) by auto
  next
    fix k' sub' assume "((sm_subs m)(k \<mapsto> sub\<lparr>su_done := True\<rparr>)) k' = Some sub'"
    then show "k' \<le> ct_nextSubID (sm_center m) \<and> length (su_ch sub') \<le> notifyChanBuffer"
      using d(3,4) [of k'] d(3,4) [OF sub(1)] by (auto split: if_splits)
  next
    fix sid' k' assume "map_of (kv_del sid (sm_sessions m)) sid' = Some k'"
    then have *: "map_of (sm_sessions m) sid' = Some k'" "sid' \<noteq> sid" by (auto split: if_splits)
    with other [OF *] d(5,6) [OF *(1)] show "map_of (kv_del k (ct_subs (sm_center m))) k' = Some (sender_of sid') \<and>
        (\<exists>sub'. ((sm_subs m)(k \<mapsto> sub\<lparr>su_done := True\<rparr>)) k' = Some sub' \<and> su_session sub' = sid' \<and> \<not> su_done sub')" by auto
  next
    fix k' sub' i assume a: "((sm_subs m)(k \<mapsto> sub\<lparr>su_done := True\<rparr>)) k' = Some sub'" "map_of (kv_del k (ct_subs (sm_center m))) k' = Some i"
    then have k': "k' \<noteq> k" "sm_subs m k' = Some sub'" "map_of (ct_subs (sm_center m)) k' \<noteq> None" by (auto split: if_splits)
    from d(7) [OF k'(2,3)] k'(1) assms(2) show "map_of (kv_del sid (sm_sessions m)) (su_session sub') = Some k'" by auto
  next
    fix k' i assume "map_of (kv_del k (ct_subs (sm_center m))) k' = Some i"
    then show "((sm_subs m)(k \<mapsto> sub\<lparr>su_done := True\<rparr>)) k' \<noteq> None" using d(8) [of k' i] by (auto split: if_splits)
  qed
qed

lemma subs_ok_subscribe:
  assumes "subs_ok m" "Suc (ct_nextSubID (sm_center m)) < 2 ^ 64" "addPattern_session sid m = (k, m')"
  shows "subs_ok m'" "map_of (sm_sessions m') sid = Some k"
    "map_of (sm_sessions m) sid' = Some k' \<Longrightarrow> map_of (sm_sessions m') sid' = Some k' \<and> sm_subs m' k' = sm_subs m k'"
proof -
  note d = subs_okD [OF assms(1)] and f = subs_fresh [OF assms(1)]
  have n: "map_of (ct_subs (sm_center m)) (Suc (ct_nextSubID (sm_center m))) = None"
    using d(8) [of "Suc (ct_nextSubID (sm_center m))"] f by (cases "map_of (ct_subs (sm_center m)) (Suc (ct_nextSubID (sm_center m)))") auto
  have "subs_ok m' \<and> map_of (sm_sessions m') sid = Some k \<and>
    (map_of (sm_sessions m) sid' = Some k' \<longrightarrow> map_of (sm_sessions m') sid' = Some k' \<and> sm_subs m' k' = sm_subs m k')"
  proof (cases "map_of (sm_sessions m) sid")
    case (Some j)
    then show ?thesis using assms by (simp add: addPattern_session_def)
  next
    case None
    let ?k = "Suc (ct_nextSubID (sm_center m))"
    have m': "k = ?k" "m' = m\<lparr>sm_center := (sm_center m)\<lparr>ct_nextSubID := ?k, ct_subs := kv_put ?k (sender_of sid) (ct_subs (sm_center m))\<rparr>,
        sm_sessions := kv_put sid ?k (sm_sessions m),
        sm_subs := (sm_subs m)(?k \<mapsto> \<lparr>su_session = sid, su_patterns = [], su_ch = [], su_done = False, su_gone = False\<rparr>)\<rparr>"
      using assms(2,3) None by (auto simp: addPattern_session_def SubscribeAs_def Let_def)
    have le: "k' \<noteq> ?k" if "map_of (sm_sessions m) sid' = Some k'" for sid' k'
      using d(6) [OF that] f by auto
    have sid: "su_session sub \<noteq> sid" if "sm_subs m k' = Some sub" "map_of (ct_subs (sm_center m)) k' \<noteq> None" for k' sub
      using d(7) [OF that] None by auto
    let ?new = "\<lparr>su_session = sid, su_patterns = [], su_ch = [], su_done = False, su_gone = False\<rparr>"
    have s: "sm_sessions m' = kv_put sid ?k (sm_sessions m)" "ct_subs (sm_center m') = kv_put ?k (sender_of sid) (ct_subs (sm_center m))"
      "ct_nextSubID (sm_center m') = ?k" "sm_subs m' = (sm_subs m)(?k \<mapsto> ?new)" by (simp_all add: m'(2))
    have "subs_ok m'"
    proof (rule subs_okI, unfold s)
      show "kv_ok (kv_put sid ?k (sm_sessions m))" "kv_ok (kv_put ?k (sender_of sid) (ct_subs (sm_center m)))" using d(1,2) by auto
    next
      fix k' sub' assume "((sm_subs m)(?k \<mapsto> ?new)) k' = Some sub'"
      then show "k' \<le> ?k \<and> length (su_ch sub') \<le> notifyChanBuffer" using d(3,4) [of k'] by (auto split: if_splits)
    next
      fix sid' k' assume "map_of (kv_put sid ?k (sm_sessions m)) sid' = Some k'"
      then show "map_of (kv_put ?k (sender_of sid) (ct_subs (sm_center m))) k' = Some (sender_of sid') \<and>
          (\<exists>sub'. ((sm_subs m)(?k \<mapsto> ?new)) k' = Some sub' \<and> su_session sub' = sid' \<and> \<not> su_done sub')"
        using d(5,6) [of sid' k'] le [of sid' k'] by (auto split: if_splits)
    next
      fix k' sub' i assume "((sm_subs m)(?k \<mapsto> ?new)) k' = Some sub'" "map_of (kv_put ?k (sender_of sid) (ct_subs (sm_center m))) k' = Some i"
      then show "map_of (kv_put sid ?k (sm_sessions m)) (su_session sub') = Some k'"
        using d(7) [of k' sub'] sid [of k' sub'] by (auto split: if_splits)
    next
      fix k' i assume "map_of (kv_put ?k (sender_of sid) (ct_subs (sm_center m))) k' = Some i"
      then show "((sm_subs m)(?k \<mapsto> ?new)) k' \<noteq> None" using d(8) [of k' i] by (auto split: if_splits)
    qed
    then show ?thesis using m'(1) s le None by auto
  qed
  then show "subs_ok m'" "map_of (sm_sessions m') sid = Some k"
    "map_of (sm_sessions m) sid' = Some k' \<Longrightarrow> map_of (sm_sessions m') sid' = Some k' \<and> sm_subs m' k' = sm_subs m k'" by blast+
qed

lemma subs_ok_pattern: "subs_ok m \<Longrightarrow> subs_ok (snd (addPattern_pattern k p m))"
  by (cases "sm_subs m k") (auto simp: addPattern_pattern_def Let_def elim!: subs_ok_map)

lemma subs_ok_publish: "subs_ok m \<Longrightarrow> subs_ok (publish glob now sender ev0 m)"
  by (erule subs_ok_map) (auto simp: publish_def publishFrom_def Let_def onEvent_def split: prod.split)

lemma subs_ok_remove: "subs_ok m \<Longrightarrow> subs_ok (snd (removePattern id sid raw m))"
proof (cases "map_of (sm_sessions m) sid")
  case (Some k)
  assume ok: "subs_ok m"
  from subs_okD(6) [OF ok Some] obtain sub where sub: "sm_subs m k = Some sub" by blast
  let ?m1 = "m\<lparr>sm_subs := (sm_subs m)(k \<mapsto> sub\<lparr>su_patterns := kv_del raw (su_patterns sub)\<rparr>)\<rparr>"
  have ok1: "subs_ok ?m1" by (rule subs_ok_map [OF ok]) (use sub in auto)
  have "map_of (sm_sessions ?m1) sid = Some k" using Some by simp
  from subs_ok_teardown [OF ok1 this] ok1 Some sub show ?thesis
    by (cases "kv_del raw (su_patterns sub) = []") (simp_all add: removePattern_def Let_def)
qed (simp add: removePattern_def)

lemma subs_ok_clear: "subs_ok m \<Longrightarrow> subs_ok (snd (clearSession id sid m))"
  by (cases "map_of (sm_sessions m) sid") (auto simp: clearSession_def intro: subs_ok_teardown)

lemma teardown_sessions: "teardown k (m\<lparr>sm_sessions := ss\<rparr>) = (teardown k m)\<lparr>sm_sessions := ss\<rparr>"
  by (simp add: teardown_def)

lemma subs_ok_reap_dead:
  "subs_ok m \<Longrightarrow> distinct (map fst dead) \<Longrightarrow> set dead \<subseteq> set (sm_sessions m) \<Longrightarrow>
   subs_ok (fold (\<lambda>(sid, k). teardown k) dead (m\<lparr>sm_sessions := filter (\<lambda>p. p \<notin> set dead) (sm_sessions m)\<rparr>))"
proof (induction dead arbitrary: m)
  case (Cons p dead)
  obtain sid k where p: "p = (sid, k)" by (cases p)
  have ss: "kv_ok (sm_sessions m)" using subs_okD(1) [OF Cons.prems(1)] .
  have k: "map_of (sm_sessions m) sid = Some k" using Cons.prems(3) p kv_mem_iff [OF ss] by simp
  let ?m1 = "teardown k (m\<lparr>sm_sessions := kv_del sid (sm_sessions m)\<rparr>)"
  have s1: "sm_sessions ?m1 = kv_del sid (sm_sessions m)" by (simp add: teardown_def)
  have only: "q \<in> set (sm_sessions m) \<Longrightarrow> fst q = sid \<longleftrightarrow> q = (sid, k)" for q
    using k kv_mem_iff [OF ss, of sid "snd q"] by (cases q) auto
  have f: "filter (\<lambda>q. q \<notin> set dead) (kv_del sid (sm_sessions m)) = filter (\<lambda>q. q \<notin> set (p # dead)) (sm_sessions m)"
    unfolding kv_del_def filter_filter p by (rule filter_cong) (use only in auto)
  have "set dead \<subseteq> set (sm_sessions ?m1)"
  proof
    fix q assume q: "q \<in> set dead"
    have "sid \<notin> fst ` set dead" using Cons.prems(2) p by simp
    then have "fst q \<noteq> sid" using q by blast
    moreover have "q \<in> set (sm_sessions m)" using q Cons.prems(3) by auto
    ultimately show "q \<in> set (sm_sessions ?m1)" unfolding s1 by (simp add: kv_del_def)
  qed
  from Cons.IH [OF subs_ok_teardown [OF Cons.prems(1) k] _ this] Cons.prems(2)
  have "subs_ok (fold (\<lambda>(sid, k). teardown k) dead (?m1\<lparr>sm_sessions := filter (\<lambda>q. q \<notin> set (p # dead)) (sm_sessions m)\<rparr>))"
    unfolding s1 f by simp
  then show ?case unfolding p fold_simps by (simp add: teardown_sessions p)
qed simp

lemma subs_ok_reap: "subs_ok m \<Longrightarrow> subs_ok (ReapOnce id live m)"
proof -
  assume ok: "subs_ok m"
  let ?dead = "filter (\<lambda>(sid, k). sid \<notin> set live) (sm_sessions m)"
  have "distinct (map fst ?dead)" using kv_ok_distinct [OF subs_okD(1) [OF ok]] by (simp add: distinct_map_filter)
  moreover have "filter (\<lambda>p. p \<notin> set ?dead) (sm_sessions m) = filter (\<lambda>(sid, k). sid \<in> set live) (sm_sessions m)"
    by (auto intro: filter_cong)
  ultimately show ?thesis using subs_ok_reap_dead [OF ok, of ?dead] by (simp add: ReapOnce_def Let_def)
qed

section \<open>Histories of the manager\<close>

text \<open>The operations one after another, none between the two halves of one that tears down.\<close>

datatype sub_op =
  OpenSession string | AddPattern nat pattern | RemovePattern string string | ClearSession string | Reap "string list"
| Publish int string notify_event | Drain bool nat

fun sub_next :: "(string \<Rightarrow> string \<Rightarrow> bool) \<Rightarrow> sub_op \<Rightarrow> sub_manager \<Rightarrow> sub_manager" where
  "sub_next glob (OpenSession sid) m = snd (addPattern_session sid m)"
| "sub_next glob (AddPattern k p) m = snd (addPattern_pattern k p m)"
| "sub_next glob (RemovePattern sid raw) m = snd (removePattern id sid raw m)"
| "sub_next glob (ClearSession sid) m = snd (clearSession id sid m)"
| "sub_next glob (Reap live) m = ReapOnce id live m"
| "sub_next glob (Publish now sender ev) m = publish glob now sender ev m"
| "sub_next glob (Drain pick k) m = m\<lparr>sm_subs := (sm_subs m)(k := map_option (snd \<circ> drain pick) (sm_subs m k))\<rparr>"

definition NewSubscriptionManager :: "center \<Rightarrow> sub_manager" where
  "NewSubscriptionManager c = \<lparr>sm_center = c, sm_sessions = [], sm_subs = Map.empty\<rparr>"

definition sub_run :: "(string \<Rightarrow> string \<Rightarrow> bool) \<Rightarrow> sub_op list \<Rightarrow> int \<Rightarrow> sub_manager" where
  "sub_run glob ops n = fold (sub_next glob) ops (NewSubscriptionManager (NewCenter n))"

lemma drain_fields [simp]:
  "su_session (snd (drain b s)) = su_session s" "su_done (snd (drain b s)) = su_done s" "su_patterns (snd (drain b s)) = su_patterns s"
  "length (su_ch (snd (drain b s))) \<le> length (su_ch s)"
  by (auto simp: drain_def split: list.split)

lemma subs_ok_next:
  assumes "subs_ok m" "Suc (ct_nextSubID (sm_center m)) < 2 ^ 64"
  shows "subs_ok (sub_next glob op m)"
proof (cases op)
  case (OpenSession sid)
  obtain k m' where "addPattern_session sid m = (k, m')" by fastforce
  with subs_ok_subscribe(1) [OF assms this] show ?thesis by (simp add: OpenSession)
next
  case (Drain b k)
  show ?thesis unfolding Drain
    by (rule subs_ok_map [OF assms(1)]) (auto intro: order_trans [OF drain_fields(4)])
qed (use assms in \<open>simp_all add: subs_ok_pattern subs_ok_remove subs_ok_clear subs_ok_reap subs_ok_publish\<close>)

lemma teardown_nextSubID [simp]: "ct_nextSubID (sm_center (teardown k m)) = ct_nextSubID (sm_center m)"
  by (simp add: teardown_def unsubscribe_def)

lemma nextSubID_next: "ct_nextSubID (sm_center (sub_next glob op m)) \<le> Suc (ct_nextSubID (sm_center m))"
proof -
  have "ct_nextSubID (sm_center (fold (\<lambda>(sid, k). teardown k) dead x)) = ct_nextSubID (sm_center x)"
    for dead :: "(string \<times> nat) list" and x
    by (induction dead arbitrary: x) auto
  moreover have "Suc n mod 2 ^ 64 \<le> Suc n" for n by (rule mod_less_eq_dividend)
  ultimately show ?thesis
    by (cases op) (simp_all add: addPattern_session_def SubscribeAs_def addPattern_pattern_def removePattern_def clearSession_def
        ReapOnce_def publish_def publishFrom_def Let_def split: option.split)
qed

lemma sub_run_ok: "length ops < 2 ^ 64 \<Longrightarrow> subs_ok (sub_run glob ops n)"
proof -
  have new: "subs_ok (NewSubscriptionManager (NewCenter n))"
    by (rule subs_okI) (auto simp: NewSubscriptionManager_def NewCenter_def Let_def)
  have "length ops < 2 ^ 64 \<Longrightarrow> subs_ok (sub_run glob ops n) \<and> ct_nextSubID (sm_center (sub_run glob ops n)) \<le> length ops"
  proof (induction ops rule: rev_induct)
    case Nil
    then show ?case using new by (simp add: sub_run_def NewSubscriptionManager_def NewCenter_def Let_def)
  next
    case (snoc op ops)
    have r: "sub_run glob (ops @ [op]) n = sub_next glob op (sub_run glob ops n)" by (simp add: sub_run_def)
    have i: "subs_ok (sub_run glob ops n)" "ct_nextSubID (sm_center (sub_run glob ops n)) \<le> length ops"
      using snoc by simp_all
    have "Suc (ct_nextSubID (sm_center (sub_run glob ops n))) < 2 ^ 64" using i(2) snoc.prems by simp
    from subs_ok_next [OF i(1) this] nextSubID_next [of glob op "sub_run glob ops n"] i(2) show ?case
      unfolding r by simp
  qed
  then show "length ops < 2 ^ 64 \<Longrightarrow> subs_ok (sub_run glob ops n)" by blast
qed

text \<open>
  C27: notifications go where they are wanted: after any history of fewer than 2^64 subscriptions, cancellations, reapings,
  deliveries and publications, one after another (each cancellation with its teardown), a publication queues the event for exactly the live sessions that did not send it and
  hold a pattern it falls within, if it is a write, a move or a deletion and there is room; the queue of no other object
  changes, in particular of none that was torn down.
\<close>

theorem notifications_exact:
  assumes "m = sub_run glob ops n" "sm_subs m k = Some sub" "length ops < 2 ^ 64"
  shows "sm_subs (publish glob now sender ev0 m) k = Some
    (if map_of (sm_sessions m) (su_session sub) = Some k \<and> \<not> su_done sub \<and> (sender = [] \<or> sender \<noteq> sender_of (su_session sub)) \<and>
        isNotifiableKind (ev_Kind ev0) \<and> (\<exists>(raw, p)\<in>set (su_patterns sub). pattern_matches glob p (ev_Target ev0) (ev_Path ev0)) \<and>
        length (su_ch sub) < notifyChanBuffer
     then sub\<lparr>su_ch := su_ch sub @ [ev0\<lparr>ev_Seq := ct_next (sm_center m), ev_Timestamp := now\<rparr>]\<rparr> else sub)"
proof -
  have ok: "subs_ok m" unfolding assms(1) by (rule sub_run_ok [OF assms(3)])
  note d = subs_okD [OF ok]
  have called: "k \<in> fst ` {p \<in> set (ct_subs (sm_center m)). \<not> (sender \<noteq> [] \<and> snd p = sender)} \<longleftrightarrow>
      map_of (sm_sessions m) (su_session sub) = Some k \<and> (sender = [] \<or> sender \<noteq> sender_of (su_session sub))"
  proof
    assume "k \<in> fst ` {p \<in> set (ct_subs (sm_center m)). \<not> (sender \<noteq> [] \<and> snd p = sender)}"
    then obtain i where i: "map_of (ct_subs (sm_center m)) k = Some i" "sender = [] \<or> i \<noteq> sender" using kv_mem_iff [OF d(2)] by auto
    with d(7) [OF assms(2)] have "map_of (sm_sessions m) (su_session sub) = Some k" by simp
    with i d(5) [OF this] show "map_of (sm_sessions m) (su_session sub) = Some k \<and> (sender = [] \<or> sender \<noteq> sender_of (su_session sub))" by auto
  next
    assume a: "map_of (sm_sessions m) (su_session sub) = Some k \<and> (sender = [] \<or> sender \<noteq> sender_of (su_session sub))"
    then have "(k, sender_of (su_session sub)) \<in> set (ct_subs (sm_center m))" using d(5) kv_mem_iff [OF d(2)] by blast
    with a show "k \<in> fst ` {p \<in> set (ct_subs (sm_center m)). \<not> (sender \<noteq> [] \<and> snd p = sender)}" by force
  qed
  have open_obj: "map_of (sm_sessions m) (su_session sub) = Some k \<Longrightarrow> \<not> su_done sub" using d(6) assms(2) by fastforce
  let ?ks = "map fst (filter (\<lambda>(k, sid). \<not> (sender \<noteq> [] \<and> sid = sender)) (ct_subs (sm_center m)))"
  let ?ev = "ev0\<lparr>ev_Seq := ct_next (sm_center m), ev_Timestamp := now\<rparr>"
  have mem: "k \<in> set ?ks \<longleftrightarrow> map_of (sm_sessions m) (su_session sub) = Some k \<and> (sender = [] \<or> sender \<noteq> sender_of (su_session sub))"
    unfolding called [symmetric] by (auto simp: case_prod_beta)
  have "sm_subs (publish glob now sender ev0 m) k = (if k \<in> set ?ks then Some (onEvent glob ?ev sub) else Some sub)"
    using assms(2) by (simp add: publish_def publishFrom_def Let_def)
  then have "sm_subs (publish glob now sender ev0 m) k =
      Some (if map_of (sm_sessions m) (su_session sub) = Some k \<and> (sender = [] \<or> sender \<noteq> sender_of (su_session sub))
            then onEvent glob ?ev sub else sub)" unfolding mem by (auto split: if_splits)
  with open_obj show ?thesis by (auto simp: onEvent_def list_ex_iff)
qed

text \<open>
  a subscription that is confirmed to the client can be dead: if the same session clears its subscriptions
  while a handler is between finding the session's object and adding the pattern, the pattern is added to the
  object that was torn down, the answer lists it, and the session is subscribed to nothing.
\<close>

theorem confirmed_subscription_lost:
  assumes "m = sub_run glob ops n" "parsePattern raw = Inr p" "resolves projects p = None"
    and "map_of (sm_sessions m) sid \<noteq> None" "length ops < 2 ^ 64"
  shows "\<exists>ps m'. SubscribeHandler projects (snd \<circ> UnsubscribeHandler id (Some sid) []) (Some sid) raw m = (Inr (raw, ps), m') \<and>
     raw \<in> set ps \<and> map_of (sm_sessions m') sid = None"
proof -
  have ok: "subs_ok m" unfolding assms(1) by (rule sub_run_ok [OF assms(5)])
  obtain k sub where k: "map_of (sm_sessions m) sid = Some k" "sm_subs m k = Some sub" using assms(4) subs_okD(6) [OF ok] by fast
  have raw: "pt_raw p = raw" using assms(2) by (auto simp: parsePattern_def Let_def split: if_splits)
  show ?thesis using assms(2,3) k raw
    by (simp add: SubscribeHandler_def UnsubscribeHandler_def addPattern_session_def clearSession_def addPattern_pattern_def teardown_def
        patternList_def Let_def)
qed

section \<open>Instances\<close>

definition demo_pattern :: pattern where
  "demo_pattern = \<lparr>pt_raw = ''n/p/d'', pt_target = ''n/p'', pt_pathPred = ''d'', pt_isGlob = False\<rparr>"

lemma demo_parsed: "parsePattern ''n/p/d'' = Inr demo_pattern"
  unfolding demo_pattern_def by code_simp

definition demo_event :: notify_event where
  "demo_event = zero_event\<lparr>ev_Kind := ''file.write'', ev_Target := ''n/p'', ev_Path := ''d/a.md''\<rparr>"

lemma demo_session:
  "sub_run glob [OpenSession ''s''] 5 = \<lparr>sm_center = (NewCenter 5)\<lparr>ct_nextSubID := 1, ct_subs := [(1, ''mcp:s'')]\<rparr>, sm_sessions = [(''s'', 1)],
     sm_subs = [1 \<mapsto> \<lparr>su_session = ''s'', su_patterns = [], su_ch = [], su_done = False, su_gone = False\<rparr>]\<rparr>"
  by (simp add: sub_run_def NewSubscriptionManager_def addPattern_session_def SubscribeAs_def Let_def sender_of_def NewCenter_def)

lemma demo_subscribed:
  "sub_run glob [OpenSession ''s'', AddPattern 1 demo_pattern] 5 =
     (sub_run glob [OpenSession ''s''] 5)\<lparr>sm_subs := [1 \<mapsto> \<lparr>su_session = ''s'', su_patterns = [(''n/p/d'', demo_pattern)], su_ch = [], su_done = False, su_gone = False\<rparr>]\<rparr>"
proof -
  have "sub_run glob [OpenSession ''s'', AddPattern 1 demo_pattern] 5 = sub_next glob (AddPattern 1 demo_pattern) (sub_run glob [OpenSession ''s''] 5)"
    by (simp add: sub_run_def)
  then show ?thesis by (simp add: demo_session addPattern_pattern_def Let_def) (simp add: demo_pattern_def)
qed

theorem notifications_exact_witness:
  "\<exists>sub e. sm_subs (publish (=) 3 ''ws-1'' demo_event (sub_run (=) [OpenSession ''s'', AddPattern 1 demo_pattern] 5)) 1 = Some sub \<and>
     su_ch sub = [e] \<and> ev_Path e = ''d/a.md''"
proof -
  let ?sub = "\<lparr>su_session = ''s'', su_patterns = [(''n/p/d'', demo_pattern)], su_ch = [], su_done = False, su_gone = False\<rparr>"
  have s: "sm_subs (sub_run (=) [OpenSession ''s'', AddPattern 1 demo_pattern] 5) 1 = Some ?sub" by (simp add: demo_subscribed del: One_nat_def)
  have p: "pattern_matches (=) demo_pattern (ev_Target demo_event) (ev_Path demo_event)"
    by (simp add: pattern_matches_def demo_pattern_def demo_event_def has_prefix_def)
  have k: "isNotifiableKind (ev_Kind demo_event)" by (simp add: isNotifiableKind_def demo_event_def)
  show ?thesis
    using notifications_exact [OF refl s, of 3 "''ws-1''" demo_event] p k
    by (simp add: demo_subscribed demo_session sender_of_def notifyChanBuffer_def del: One_nat_def) (simp add: demo_event_def)
qed

theorem confirmed_subscription_lost_witness:
  "\<exists>ps m'. SubscribeHandler (\<lambda>n. Inr [''p'']) (snd \<circ> UnsubscribeHandler id (Some ''s'') []) (Some ''s'') ''n/p/d''
     (sub_run (=) [OpenSession ''s''] 5) = (Inr (''n/p/d'', ps), m') \<and> ''n/p/d'' \<in> set ps \<and> map_of (sm_sessions m') ''s'' = None"
proof -
  have "resolves (\<lambda>n. Inr [''p'']) demo_pattern = None"
    unfolding demo_pattern_def by (simp add: resolves_def namespaceProject_def cut_before_def cut_after_def)
  moreover have "map_of (sm_sessions (sub_run (=) [OpenSession ''s''] 5)) ''s'' \<noteq> None" by (simp add: demo_session)
  ultimately show ?thesis by (intro confirmed_subscription_lost [OF refl demo_parsed]) simp_all
qed

end
