(* ===== verification/Tool_Service.thy ===== *)
theory Tool_Service
  imports Authz Names Write_Path Markdown_Summary Subscriptions
begin

text \<open>
  The storage service as the tool handlers see it (\<open>StorageService\<close> of \<open>internal/storage/storage.go\<close> and the
  narrow interfaces of \<open>internal/tools\<close>), and what the handlers hand to it and return.  A call takes the
  state of the server and yields its result and the new state; its context is the record \<open>call_ctx\<close>.
  The error of a call that is not one of the write path is its text.
\<close>

section \<open>Data\<close>

datatype storage_error = OpErr op_error | OtherErr string

record call_ctx =
  cc_identity :: id_ctx
  cc_sender :: string

record commit_info =
  co_Hash :: string
  co_Author :: string
  co_Date :: int
  co_Message :: string
  co_Committer :: string
  co_CommitDate :: int

record diff_hunk =
  dh_OldStart :: int
  dh_OldLines :: int
  dh_NewStart :: int
  dh_NewLines :: int
  dh_Lines :: "(string \<times> string) list"

record file_diff =
  fd_Path :: string
  fd_FromHash :: string
  fd_ToHash :: string
  fd_Status :: string
  fd_Binary :: bool
  fd_Suppressed :: string
  fd_Hunks :: "diff_hunk list"

record file_change =
  fc_Path :: string
  fc_Hash :: string
  fc_Kind :: string

record search_match =
  sr_match_Path :: string
  sr_match_Snippet :: string
  sr_match_Offset :: int

record deleted_file =
  df_Path :: string
  df_DeletionCommit :: string
  df_DeletedAt :: int

record project_health =
  ph_Name :: string
  ph_State :: string

record foreign_dir =
  fo_Name :: string
  fo_Adoptable :: bool

record orphan_sibling =
  or_Name :: string
  or_Files :: "string list"

record namespace_health =
  nh_Name :: string
  nh_Present :: bool
  nh_Healthy :: bool
  nh_Projects :: "project_health list"
  nh_Foreign :: "foreign_dir list"
  nh_Orphaned :: "orphan_sibling list"

record health_report =
  hr_Namespaces :: "namespace_health list"
  hr_ForeignNamespaces :: "foreign_dir list"

section \<open>The service\<close>

record 'w storage_service =
  ss_ReadFileWithETag :: "string \<Rightarrow> string \<Rightarrow> string \<Rightarrow> 'w \<Rightarrow> (storage_error + string \<times> string) \<times> 'w"
  ss_StatModTime :: "string \<Rightarrow> string \<Rightarrow> string \<Rightarrow> 'w \<Rightarrow> (storage_error + int) \<times> 'w"
  ss_Write :: "call_ctx \<Rightarrow> string \<Rightarrow> string \<Rightarrow> string \<Rightarrow> string \<Rightarrow> string option \<Rightarrow> 'w \<Rightarrow> (storage_error + string) \<times> 'w"
  ss_Delete :: "call_ctx \<Rightarrow> string \<Rightarrow> string \<Rightarrow> string \<Rightarrow> string option \<Rightarrow> 'w \<Rightarrow> storage_error option \<times> 'w"
  ss_AppendToFile :: "call_ctx \<Rightarrow> string \<Rightarrow> string \<Rightarrow> string \<Rightarrow> string \<Rightarrow> string \<Rightarrow> string \<Rightarrow> string option \<Rightarrow> 'w \<Rightarrow>
    (storage_error + string) \<times> 'w"
  ss_PatchFile :: "call_ctx \<Rightarrow> string \<Rightarrow> string \<Rightarrow> string \<Rightarrow> string \<Rightarrow> string \<Rightarrow> string option \<Rightarrow> 'w \<Rightarrow>
    (storage_error + string) \<times> 'w"
  ss_Move :: "call_ctx \<Rightarrow> string \<Rightarrow> string \<Rightarrow> string \<Rightarrow> string \<Rightarrow> string option \<Rightarrow> 'w \<Rightarrow> (storage_error + string \<times> nat) \<times> 'w"
  ss_ListFiles :: "string \<Rightarrow> string \<Rightarrow> string \<Rightarrow> 'w \<Rightarrow> (storage_error + string list \<times> (string \<Rightarrow> int option)) \<times> 'w"
  ss_GetHistory :: "string \<Rightarrow> string \<Rightarrow> string \<Rightarrow> int \<Rightarrow> 'w \<Rightarrow> (storage_error + commit_info list) \<times> 'w"
  ss_ReadFileAtVersion :: "string \<Rightarrow> string \<Rightarrow> string \<Rightarrow> string \<Rightarrow> 'w \<Rightarrow> (storage_error + string) \<times> 'w"
  ss_DiffVersions :: "string \<Rightarrow> string \<Rightarrow> string \<Rightarrow> string \<Rightarrow> string \<Rightarrow> 'w \<Rightarrow> (storage_error + file_diff) \<times> 'w"
  ss_ListFilesSince :: "string \<Rightarrow> string \<Rightarrow> string \<Rightarrow> 'w \<Rightarrow> (storage_error + file_change list) \<times> 'w"
  ss_SearchFiles :: "string \<Rightarrow> string \<Rightarrow> string \<Rightarrow> string \<Rightarrow> 'w \<Rightarrow> (storage_error + search_match list) \<times> 'w"
  ss_ListDeleted :: "string \<Rightarrow> string \<Rightarrow> 'w \<Rightarrow> (storage_error + deleted_file list) \<times> 'w"
  ss_ReviveFile :: "call_ctx \<Rightarrow> string \<Rightarrow> string \<Rightarrow> string \<Rightarrow> string \<Rightarrow> 'w \<Rightarrow> storage_error option \<times> 'w"
  ss_ProjectPath :: "string \<Rightarrow> string \<Rightarrow> 'w \<Rightarrow> (storage_error + string) \<times> 'w"
  ss_WALStatus :: "'w \<Rightarrow> (nat \<times> bool \<times> int) \<times> 'w"
  ss_ResyncToHead :: "string \<Rightarrow> string \<Rightarrow> 'w \<Rightarrow> (storage_error + project_state) \<times> 'w"
  ss_ListProjects :: "string \<Rightarrow> 'w \<Rightarrow> (storage_error + string list) \<times> 'w"
  ss_ListAllProjects :: "'w \<Rightarrow> (storage_error + string list) \<times> 'w"
  ss_CreateProjectCtx :: "call_ctx \<Rightarrow> string \<Rightarrow> string \<Rightarrow> 'w \<Rightarrow> storage_error option \<times> 'w"
  ss_DeleteProject :: "call_ctx \<Rightarrow> string \<Rightarrow> string \<Rightarrow> 'w \<Rightarrow> storage_error option \<times> 'w"
  ss_RenameProject :: "call_ctx \<Rightarrow> string \<Rightarrow> string \<Rightarrow> string \<Rightarrow> 'w \<Rightarrow> storage_error option \<times> 'w"
  ss_MoveProject :: "call_ctx \<Rightarrow> string \<Rightarrow> string \<Rightarrow> string \<Rightarrow> 'w \<Rightarrow> storage_error option \<times> 'w"
  ss_CreateNamespace :: "string \<Rightarrow> 'w \<Rightarrow> storage_error option \<times> 'w"
  ss_DeleteNamespace :: "call_ctx \<Rightarrow> string \<Rightarrow> 'w \<Rightarrow> storage_error option \<times> 'w"
  ss_RenameNamespace :: "call_ctx \<Rightarrow> string \<Rightarrow> string \<Rightarrow> 'w \<Rightarrow> storage_error option \<times> 'w"
  ss_CheckAllHealth :: "'w \<Rightarrow> health_report \<times> 'w"
  ss_DropMissingNamespace :: "string \<Rightarrow> 'w \<Rightarrow> storage_error option \<times> 'w"
  ss_DropMissingProject :: "string \<Rightarrow> string \<Rightarrow> 'w \<Rightarrow> storage_error option \<times> 'w"
  ss_CleanOrphanedSibling :: "string \<Rightarrow> string \<Rightarrow> 'w \<Rightarrow> storage_error option \<times> 'w"
  ss_AdoptForeign :: "string \<Rightarrow> string \<Rightarrow> 'w \<Rightarrow> storage_error option \<times> 'w"

text \<open>
  What the handlers use of the libraries and of the configuration: texts of errors and times, the decoder of frontmatter,
  the table of lower case, the addresses the server reports.
\<close>

record tool_env =
  te_text :: "op_error \<Rightarrow> string"
  te_sub_text :: "sub_err \<Rightarrow> string"
  te_time :: "int \<Rightarrow> string"
  te_parse_time :: "string \<Rightarrow> int option"
  te_yaml :: "string \<Rightarrow> string option"
  te_lower :: "nat \<Rightarrow> nat"
  te_ExternalURL :: string
  te_HTTPListen :: string
  te_MCPListen :: string
  te_StorageBaseDir :: string

fun err_text :: "tool_env \<Rightarrow> storage_error \<Rightarrow> string" where
  "err_text T (OpErr e) = te_text T e"
| "err_text T (OtherErr s) = s"

section \<open>The request\<close>

record principal =
  pr_Name :: string
  pr_Email :: string
  pr_ClientID :: string
  pr_Scope :: string

text \<open>\<open>mq_Session\<close>: the id of the session, and the client's name and worker if it declared them.\<close>

record mcp_req =
  mq_Session :: "(string \<times> string option \<times> string option) option"
  mq_Principal :: "principal option"

definition req_scope :: "mcp_req \<Rightarrow> string" where
  "req_scope R = (case mq_Principal R of None \<Rightarrow> [] | Some p \<Rightarrow> pr_Scope p)"

definition mcpSender :: "mcp_req \<Rightarrow> string" where
  "mcpSender R = (case mq_Session R of None \<Rightarrow> ''mcp'' | Some (sid, _) \<Rightarrow> ''mcp:'' @ sid)"

definition agentFromMCP :: "mcp_req \<Rightarrow> agent" where
  "agentFromMCP R =
     (case mq_Session R of
        None \<Rightarrow> \<lparr>ag_Name = [], ag_Worker = []\<rparr>
      | Some (sid, nm, wk) \<Rightarrow>
          \<lparr>ag_Name = (case nm of None \<Rightarrow> [] | Some n \<Rightarrow> n), ag_Worker = (case wk of None \<Rightarrow> [] | Some k \<Rightarrow> k)\<rparr>)"

definition no_identity :: id_ctx where
  "no_identity = \<lparr>cx_agent = None, cx_user = None, cx_committer = None\<rparr>"

definition withWriteIdentity :: "mcp_req \<Rightarrow> id_ctx \<Rightarrow> id_ctx" where
  "withWriteIdentity R ctx =
     (case mq_Principal R of
        None \<Rightarrow> WithAgent (agentFromMCP R) ctx
      | Some p \<Rightarrow> WithCommitter \<lparr>us_Name = pr_Name p, us_Email = pr_Email p\<rparr> (WithAgent (agentFromMCP R) ctx))"

text \<open>The contexts the handlers build: of a write, of a partial edit, and without an identity.\<close>

definition write_ctx :: "mcp_req \<Rightarrow> call_ctx" where
  "write_ctx R = \<lparr>cc_identity = withWriteIdentity R no_identity, cc_sender = mcpSender R\<rparr>"

definition edit_ctx :: "mcp_req \<Rightarrow> call_ctx" where
  "edit_ctx R = \<lparr>cc_identity = WithAgent (agentFromMCP R) no_identity, cc_sender = mcpSender R\<rparr>"

definition plain_ctx :: "mcp_req \<Rightarrow> call_ctx" where
  "plain_ctx R = \<lparr>cc_identity = no_identity, cc_sender = mcpSender R\<rparr>"

definition bare_ctx :: call_ctx where
  "bare_ctx = \<lparr>cc_identity = no_identity, cc_sender = []\<rparr>"

section \<open>Ingested content (\<open>internal/ingest/ingest.go\<close>)\<close>

text \<open>\<open>filepath.Ext\<close>: the suffix from the last dot of the last component; \<open>path.Base\<close>.\<close>

definition filepath_Ext :: "string \<Rightarrow> string" where
  "filepath_Ext path =
     (let elem = last (split_on (CHR ''/'') path) in
      if CHR ''.'' \<in> set elem then CHR ''.'' # rev (takeWhile (\<lambda>c. c \<noteq> CHR ''.'') (rev elem)) else [])"

definition path_Base :: "string \<Rightarrow> string" where
  "path_Base path =
     (if path = [] then ''.''
      else (let p = rev (dropWhile (\<lambda>c. c = CHR ''/'') (rev path)) in
            if p = [] then ''/'' else last (split_on (CHR ''/'') p)))"

definition allowedExts :: "string list" where
  "allowedExts = [''.md'', ''.markdown'', ''.json'', ''.yaml'', ''.yml'']"

definition AllowedFormats :: string where
  "AllowedFormats = ''.md, .markdown, .json, .yaml, .yml''"

definition IsAllowedFormat :: "(nat \<Rightarrow> nat) \<Rightarrow> string \<Rightarrow> bool" where
  "IsAllowedFormat lower path \<longleftrightarrow> go_ToLower lower (filepath_Ext path) \<in> set allowedExts"

text \<open>\<open>Inl\<close> is the reason of a refusal; its message is not kept.\<close>

definition DecodeContent :: "(nat \<Rightarrow> nat) \<Rightarrow> string \<Rightarrow> string \<Rightarrow> string \<Rightarrow> string + string" where
  "DecodeContent lower path content encoding =
     (if encoding = [] \<or> encoding = ''utf8'' then
        (if \<not> IsAllowedFormat lower path then Inl ''format_rejected'' else Inr content)
      else if encoding = ''base64'' then
        (if \<not> IsAllowedFormat lower path then Inl ''format_rejected''
         else case b64_decode content of None \<Rightarrow> Inl ''invalid_encoding'' | Some decoded \<Rightarrow> Inr decoded)
      else Inl ''invalid_encoding'')"

end
