(* ===== verification/Tool_Handlers.thy ===== *)
theory Tool_Handlers
  imports Tool_Service Paths
begin

text \<open>
  The MCP tools (\<open>internal/tools\<close>): one handler per tool, over the storage service, and the middleware
  that authorises every call before its handler runs.  A result is the text of an error, if the call is
  answered with one, and the structured output.  The arguments are decoded once; \<open>ask_the_librarian\<close> is left out.
\<close>

section \<open>Results\<close>

record file_summary =
  fs_Frontmatter :: string
  fs_Heading :: string
  fs_ETag :: string
  fs_ModifiedAt :: string

text \<open>\<open>ZeroOut\<close> is the zero value of the handler's output type.\<close>

datatype tool_out =
  ZeroOut
| ReadFileOutput string string
| WriteFileOutput string string bool string string
| DeleteFileOutput string bool string string
| MoveFileOutput string string nat bool string string
| CopyFileOutput string string
| GetHistoryOutput "commit_info list"
| ReadFileAtVersionOutput string
| GetDiffOutput file_diff
| MessageOutput string
| ListProjectsOutput "string list"
| ListFilesOutput "string list" "(string \<times> string) list" "(string \<times> file_summary) list option"
| ReadSummaryOutput string string string nat string string
| ListDeletedOutput "(string \<times> string \<times> string) list"
| ReviveFileOutput bool string
| ListFilesSinceOutput "file_change list"
| SearchFilesOutput "search_match list"
| RecoverProjectOutput string string string bool string
| NamespaceHealthOutput health_report
| GetServerInfoOutput string string string string nat bool int
| SubscribeOutput bool string "string list"
| UnsubscribeOutput bool bool "string list"

type_synonym tool_result = "string option \<times> tool_out"

definition errResult :: "string \<Rightarrow> tool_result" where
  "errResult text = (Some text, ZeroOut)"

definition okResult :: "tool_out \<Rightarrow> tool_result" where
  "okResult out = (None, out)"

definition default_ns :: "string \<Rightarrow> string" where
  "default_ns ns = (if ns = [] then ''default'' else ns)"

definition invalid_names :: string where
  "invalid_names = ''invalid namespace or project_name: only alphanumeric, hyphen, and underscore are allowed''"

text \<open>A quote; the arrow and the dash of some messages, in UTF-8.\<close>

definition squote :: string where
  "squote = [CHR 0x27]"

definition utf8_arrow :: string where
  "utf8_arrow = [CHR 0xE2, CHR 0x86, CHR 0x92]"

definition utf8_dash :: string where
  "utf8_dash = [CHR 0xE2, CHR 0x80, CHR 0x94]"

section \<open>Errors of a write\<close>

fun classifyWriteErr :: "storage_error \<Rightarrow> (string \<times> string \<times> string) option" where
  "classifyWriteErr (OpErr (VersionConflict expected current)) =
     Some (''etag conflict: file is now at '' @ current @ '' (you sent if_match '' @ expected @
           ''); re-read the file and retry with the current etag'', current, [])"
| "classifyWriteErr (OpErr ProjectDangerous) =
     Some (''project is in a dangerous state (git repository unreadable); recover it before writing'', [], ''dangerous'')"
| "classifyWriteErr (OpErr ProjectCorrupted) =
     Some (''project is in a corrupted state (uncommitted working-tree drift); recover it before writing'', [], ''corrupted'')"
| "classifyWriteErr (OpErr WriteDisabled) =
     Some (''writes are temporarily disabled (write-ahead log is full); retry once it drains'', [], ''write_disabled'')"
| "classifyWriteErr _ = None"

fun classifyPartialEditErr :: "storage_error \<Rightarrow> string option" where
  "classifyPartialEditErr (OpErr (EditError (MatchError what n))) =
     Some (if n = 0 then what @ '' not found in file''
           else what @ '' is ambiguous: '' @ itoa (int n) @ '' matches; include more surrounding context to make it unique'')"
| "classifyPartialEditErr (OpErr FileNotFound) =
     Some (''file not found: append_to_file edits an existing file '' @ utf8_dash @ '' use write_file to create it'')"
| "classifyPartialEditErr (OpErr (EditError ErrEmptyOldString)) = Some ''old_string must not be empty''"
| "classifyPartialEditErr (OpErr (EditError ErrAnchorRequired)) =
     Some (''anchor is required when position is '' @ squote @ ''before'' @ squote @ '' or '' @ squote @ ''after'' @ squote)"
| "classifyPartialEditErr (OpErr (EditError ErrAnchorWithEnd)) =
     Some (''anchor must not be set when position is '' @ squote @ ''end'' @ squote)"
| "classifyPartialEditErr (OpErr (EditError ErrInvalidPosition)) =
     Some (''invalid position: must be '' @ squote @ ''end'' @ squote @ '', '' @ squote @ ''before'' @ squote @ '', or '' @ squote @ ''after'' @ squote)"
| "classifyPartialEditErr _ = None"

text \<open>What a write, a partial edit, a deletion and a move are answered with when the service refuses them.\<close>

definition write_refused :: "tool_env \<Rightarrow> string \<Rightarrow> storage_error \<Rightarrow> tool_result" where
  "write_refused T what e =
     (case classifyWriteErr e of
        Some (text, conflict, reason) \<Rightarrow> (Some text, WriteFileOutput [] [] (conflict \<noteq> []) conflict reason)
      | None \<Rightarrow> errResult (what @ err_text T e))"

definition edit_refused :: "tool_env \<Rightarrow> string \<Rightarrow> storage_error \<Rightarrow> tool_result" where
  "edit_refused T what e =
     (case classifyPartialEditErr e of Some text \<Rightarrow> errResult text | None \<Rightarrow> write_refused T what e)"

definition delete_refused :: "tool_env \<Rightarrow> storage_error \<Rightarrow> tool_result" where
  "delete_refused T e =
     (case classifyWriteErr e of
        Some (text, conflict, reason) \<Rightarrow> (Some text, DeleteFileOutput [] (conflict \<noteq> []) conflict reason)
      | None \<Rightarrow> errResult (''failed to delete file: '' @ err_text T e))"

definition move_refused :: "tool_env \<Rightarrow> storage_error \<Rightarrow> tool_result" where
  "move_refused T e =
     (case classifyWriteErr e of
        Some (text, conflict, reason) \<Rightarrow> (Some text, MoveFileOutput [] [] 0 (conflict \<noteq> []) conflict reason)
      | None \<Rightarrow> errResult (''failed to move file: '' @ err_text T e))"

section \<open>Files (\<open>file.go\<close>, \<open>partialedit.go\<close>, \<open>copy.go\<close>)\<close>

definition ReadFileHandler :: "'w storage_service \<Rightarrow> tool_env \<Rightarrow> string \<Rightarrow> string \<Rightarrow> string \<Rightarrow> 'w \<Rightarrow> tool_result \<times> 'w" where
  "ReadFileHandler S T namespace project path w =
     (if project = [] \<or> path = [] then (errResult ''project_name and path are required'', w)
      else let ns = default_ns namespace in
      if \<not> IsValidName ns \<or> \<not> IsValidName project then (errResult invalid_names, w)
      else case ss_ReadFileWithETag S ns project path w of
        (Inl e, w1) \<Rightarrow> (errResult (''failed to read file: '' @ err_text T e), w1)
      | (Inr (content, etag), w1) \<Rightarrow> (okResult (ReadFileOutput content etag), w1))"

text \<open>The messages of the two ingest refusals are kept apart by their reason only.\<close>

definition WriteFileHandler ::
    "'w storage_service \<Rightarrow> tool_env \<Rightarrow> mcp_req \<Rightarrow> string \<Rightarrow> string \<Rightarrow> string \<Rightarrow> string \<Rightarrow> string option \<Rightarrow> string \<Rightarrow> 'w \<Rightarrow> tool_result \<times> 'w" where
  "WriteFileHandler S T R namespace project path content ifMatch encoding w =
     (if project = [] \<or> path = [] then (errResult ''project_name and path are required'', w)
      else let ns = default_ns namespace in
      if \<not> IsValidName ns \<or> \<not> IsValidName project then (errResult invalid_names, w)
      else case DecodeContent (te_lower T) path content encoding of
        Inl reason \<Rightarrow> ((Some reason, WriteFileOutput [] [] False [] reason), w)
      | Inr decoded \<Rightarrow>
          (case ss_Write S (write_ctx R) ns project path decoded ifMatch w of
             (Inl e, w1) \<Rightarrow> (write_refused T ''failed to write file: '' e, w1)
           | (Inr etag, w1) \<Rightarrow>
               (okResult (WriteFileOutput (''File '' @ path @ '' written successfully'') etag False [] []), w1)))"

definition DeleteFileHandler ::
    "'w storage_service \<Rightarrow> tool_env \<Rightarrow> mcp_req \<Rightarrow> string \<Rightarrow> string \<Rightarrow> string \<Rightarrow> string option \<Rightarrow> 'w \<Rightarrow> tool_result \<times> 'w" where
  "DeleteFileHandler S T R namespace project path ifMatch w =
     (if project = [] \<or> path = [] then (errResult ''project_name and path are required'', w)
      else let ns = default_ns namespace in
      if \<not> IsValidName ns \<or> \<not> IsValidName project then (errResult invalid_names, w)
      else case ss_Delete S (write_ctx R) ns project path ifMatch w of
        (Some e, w1) \<Rightarrow> (delete_refused T e, w1)
      | (None, w1) \<Rightarrow> (okResult (DeleteFileOutput (''File '' @ path @ '' deleted successfully'') False [] []), w1))"

definition MoveFileHandler ::
    "'w storage_service \<Rightarrow> tool_env \<Rightarrow> mcp_req \<Rightarrow> string \<Rightarrow> string \<Rightarrow> string \<Rightarrow> string \<Rightarrow> string option \<Rightarrow> 'w \<Rightarrow> tool_result \<times> 'w" where
  "MoveFileHandler S T R namespace project source tgt ifMatch w =
     (if project = [] \<or> source = [] \<or> tgt = [] then (errResult ''project_name, source_path, and target_path are required'', w)
      else let ns = default_ns namespace in
      if \<not> IsValidName ns \<or> \<not> IsValidName project then (errResult invalid_names, w)
      else case ss_Move S (write_ctx R) ns project source tgt ifMatch w of
        (Inl e, w1) \<Rightarrow> (move_refused T e, w1)
      | (Inr (newEtag, links), w1) \<Rightarrow>
          (okResult (MoveFileOutput (''File moved from '' @ source @ '' to '' @ tgt) newEtag links False [] []), w1))"

definition AppendToFileHandler ::
    "'w storage_service \<Rightarrow> tool_env \<Rightarrow> mcp_req \<Rightarrow> string \<Rightarrow> string \<Rightarrow> string \<Rightarrow> string \<Rightarrow> string \<Rightarrow> string \<Rightarrow> string option \<Rightarrow> 'w \<Rightarrow> tool_result \<times> 'w" where
  "AppendToFileHandler S T R namespace project path content position anchor ifMatch w =
     (if project = [] \<or> path = [] \<or> content = [] then (errResult ''project_name, path, and content are required'', w)
      else let ns = default_ns namespace in
      if \<not> IsValidName ns \<or> \<not> IsValidName project then (errResult invalid_names, w)
      else case ss_AppendToFile S (edit_ctx R) ns project path content position anchor ifMatch w of
        (Inl e, w1) \<Rightarrow> (edit_refused T ''failed to append to file: '' e, w1)
      | (Inr etag, w1) \<Rightarrow> (okResult (WriteFileOutput (''Appended to '' @ path) etag False [] []), w1))"

definition PatchFileHandler ::
    "'w storage_service \<Rightarrow> tool_env \<Rightarrow> mcp_req \<Rightarrow> string \<Rightarrow> string \<Rightarrow> string \<Rightarrow> string \<Rightarrow> string \<Rightarrow> string option \<Rightarrow> 'w \<Rightarrow> tool_result \<times> 'w" where
  "PatchFileHandler S T R namespace project path oldString newString ifMatch w =
     (if project = [] \<or> path = [] \<or> oldString = [] then (errResult ''project_name, path, and old_string are required'', w)
      else let ns = default_ns namespace in
      if \<not> IsValidName ns \<or> \<not> IsValidName project then (errResult invalid_names, w)
      else case ss_PatchFile S (edit_ctx R) ns project path oldString newString ifMatch w of
        (Inl e, w1) \<Rightarrow> (edit_refused T ''failed to patch file: '' e, w1)
      | (Inr etag, w1) \<Rightarrow> (okResult (WriteFileOutput (''Patched '' @ path) etag False [] []), w1))"

text \<open>The etag of the empty content: as \<open>if_match\<close> it asserts that the destination has no content yet.\<close>

definition etagAbsent :: string where
  "etagAbsent = sha256Hex []"

text \<open>The last part of the handler, the write, and before it the check that the destination is free.\<close>

definition copy_write ::
    "'w storage_service \<Rightarrow> tool_env \<Rightarrow> mcp_req \<Rightarrow> string \<Rightarrow> string \<Rightarrow> string \<Rightarrow> string \<Rightarrow> string \<Rightarrow> string \<Rightarrow> string \<Rightarrow> 'w \<Rightarrow> tool_result \<times> 'w" where
  "copy_write S T R srcNamespace srcProject srcPath namespace project destPath content w =
     (case ss_Write S (write_ctx R) namespace project destPath content (Some etagAbsent) w of
        (Inr etag, w1) \<Rightarrow>
          (okResult (CopyFileOutput (''File copied from '' @ srcNamespace @ ''/'' @ srcProject @ ''/'' @ srcPath @ '' to '' @
             namespace @ ''/'' @ project @ ''/'' @ destPath) etag), w1)
      | (Inl (OpErr (VersionConflict expected current)), w1) \<Rightarrow> (errResult (''destination file already exists: '' @ destPath), w1)
      | (Inl e, w1) \<Rightarrow>
          (case classifyWriteErr e of
             Some (text, _, reason) \<Rightarrow> ((Some text, CopyFileOutput reason []), w1)
           | None \<Rightarrow> (errResult (''failed to write destination file: '' @ err_text T e), w1)))"

definition copy_to ::
    "'w storage_service \<Rightarrow> tool_env \<Rightarrow> mcp_req \<Rightarrow> string \<Rightarrow> string \<Rightarrow> string \<Rightarrow> string \<Rightarrow> string \<Rightarrow> string \<Rightarrow> string \<Rightarrow> 'w \<Rightarrow> tool_result \<times> 'w" where
  "copy_to S T R srcNamespace srcProject srcPath namespace project destPath content w =
     (case ss_ReadFileWithETag S namespace project destPath w of
        (Inr _, w1) \<Rightarrow> (errResult (''destination file already exists: '' @ destPath), w1)
      | (Inl rerr, w1) \<Rightarrow>
          (if index_sub (err_text T rerr) ''no such file'' = None \<and> index_sub (err_text T rerr) ''not exist'' = None then
             (errResult (''failed to check destination: '' @ err_text T rerr), w1)
           else copy_write S T R srcNamespace srcProject srcPath namespace project destPath content w1))"

definition CopyFileHandler ::
    "'w storage_service \<Rightarrow> tool_env \<Rightarrow> mcp_req \<Rightarrow> string \<Rightarrow> string \<Rightarrow> string \<Rightarrow> string \<Rightarrow> string \<Rightarrow> string \<Rightarrow> 'w \<Rightarrow> tool_result \<times> 'w" where
  "CopyFileHandler S T R srcNamespace srcProject srcPath namespace project path w =
     (if srcNamespace = [] \<or> srcProject = [] \<or> srcPath = [] \<or> namespace = [] \<or> project = [] then
        (errResult ''source_namespace, source_project_name, source_path, namespace, and project_name are required'', w)
      else if \<not> IsValidName srcNamespace \<or> \<not> IsValidName srcProject then
        (errResult ''invalid source namespace or project_name: only alphanumeric, hyphen, and underscore are allowed'', w)
      else if \<not> IsValidName namespace \<or> \<not> IsValidName project then
        (errResult ''invalid destination namespace or project_name: only alphanumeric, hyphen, and underscore are allowed'', w)
      else if Authorize (req_scope R) srcNamespace srcProject LevelRead \<noteq> None then
        (errResult ''unauthorized: insufficient read access on source project'', w)
      else case ss_ReadFileWithETag S srcNamespace srcProject srcPath w of
        (Inl e, w1) \<Rightarrow> (errResult (''failed to read source file: '' @ err_text T e), w1)
      | (Inr (content, _), w1) \<Rightarrow>
          copy_to S T R srcNamespace srcProject srcPath namespace project (if path = [] then path_Base srcPath else path) content w1)"

section \<open>History (\<open>file.go\<close>)\<close>

definition filterHistorySince :: "tool_env \<Rightarrow> commit_info list \<Rightarrow> string \<Rightarrow> commit_info list" where
  "filterHistorySince T hist since =
     (case te_parse_time T since of
        Some t \<Rightarrow> filter (\<lambda>c. t < co_Date c) hist
      | None \<Rightarrow> takeWhile (\<lambda>c. \<not> (co_Hash c = since \<or> has_prefix (co_Hash c) since)) hist)"

definition GetHistoryHandler ::
    "'w storage_service \<Rightarrow> tool_env \<Rightarrow> string \<Rightarrow> string \<Rightarrow> string \<Rightarrow> int \<Rightarrow> string \<Rightarrow> 'w \<Rightarrow> tool_result \<times> 'w" where
  "GetHistoryHandler S T namespace project path limit0 since w =
     (if project = [] then (errResult ''project_name is required'', w)
      else let ns = default_ns namespace; limit = (if limit0 \<le> 0 then 10 else limit0) in
      if \<not> IsValidName ns \<or> \<not> IsValidName project then (errResult invalid_names, w)
      else case ss_GetHistory S ns project path (if since \<noteq> [] then 0 else limit) w of
        (Inl e, w1) \<Rightarrow> (errResult (''failed to get history: '' @ err_text T e), w1)
      | (Inr hist, w1) \<Rightarrow>
          (okResult (GetHistoryOutput (if since \<noteq> [] then take (nat limit) (filterHistorySince T hist since) else hist)), w1))"

definition ReadFileAtVersionHandler ::
    "'w storage_service \<Rightarrow> tool_env \<Rightarrow> string \<Rightarrow> string \<Rightarrow> string \<Rightarrow> string \<Rightarrow> 'w \<Rightarrow> tool_result \<times> 'w" where
  "ReadFileAtVersionHandler S T namespace project path commitHash w =
     (if project = [] \<or> path = [] \<or> commitHash = [] then (errResult ''project_name, path, and commit_hash are required'', w)
      else let ns = default_ns namespace in
      if \<not> IsValidName ns \<or> \<not> IsValidName project then (errResult invalid_names, w)
      else case ss_ReadFileAtVersion S ns project path commitHash w of
        (Inl e, w1) \<Rightarrow> (errResult (''failed to read file at version: '' @ err_text T e), w1)
      | (Inr content, w1) \<Rightarrow> (okResult (ReadFileAtVersionOutput content), w1))"

definition GetDiffHandler ::
    "'w storage_service \<Rightarrow> tool_env \<Rightarrow> string \<Rightarrow> string \<Rightarrow> string \<Rightarrow> string \<Rightarrow> string \<Rightarrow> 'w \<Rightarrow> tool_result \<times> 'w" where
  "GetDiffHandler S T namespace project path fromHash toHash w =
     (if project = [] \<or> path = [] \<or> fromHash = [] \<or> toHash = [] then
        (errResult ''project_name, path, from_hash, and to_hash are required'', w)
      else let ns = default_ns namespace in
      if \<not> IsValidName ns \<or> \<not> IsValidName project then (errResult invalid_names, w)
      else case ss_DiffVersions S ns project path fromHash toHash w of
        (Inl e, w1) \<Rightarrow> (errResult (''failed to diff versions: '' @ err_text T e), w1)
      | (Inr diff, w1) \<Rightarrow> (okResult (GetDiffOutput diff), w1))"

section \<open>Listings (\<open>project.go\<close>, \<open>summary.go\<close>, \<open>discovery.go\<close>, \<open>deleted.go\<close>)\<close>

definition filterProjectsByReadScope :: "string \<Rightarrow> string list \<Rightarrow> string list" where
  "filterProjectsByReadScope scope projects =
     filter (\<lambda>pr. Authorize scope (cut_before (CHR ''/'') pr) [] LevelRead = None) projects"

definition ListProjectsHandler :: "'w storage_service \<Rightarrow> tool_env \<Rightarrow> mcp_req \<Rightarrow> string \<Rightarrow> 'w \<Rightarrow> tool_result \<times> 'w" where
  "ListProjectsHandler S T R namespace w =
     (if namespace = [] then
        (case ss_ListAllProjects S w of
           (Inl e, w1) \<Rightarrow> (errResult (''failed to list projects: '' @ err_text T e), w1)
         | (Inr projects, w1) \<Rightarrow> (okResult (ListProjectsOutput (filterProjectsByReadScope (req_scope R) projects)), w1))
      else if \<not> IsValidName namespace then
        (errResult ''invalid namespace: only alphanumeric, hyphen, and underscore are allowed'', w)
      else case ss_ListProjects S namespace w of
        (Inl e, w1) \<Rightarrow> (errResult (''failed to list projects: '' @ err_text T e), w1)
      | (Inr names, w1) \<Rightarrow>
          (okResult (ListProjectsOutput (filterProjectsByReadScope (req_scope R) (map (\<lambda>nm. namespace @ ''/'' @ nm) names))), w1))"

definition filepath_Join :: "string \<Rightarrow> string \<Rightarrow> string" where
  "filepath_Join a b = (if a = [] then (if b = [] then [] else path_clean b) else path_clean (a @ ''/'' @ b))"

fun file_summaries ::
    "'w storage_service \<Rightarrow> tool_env \<Rightarrow> string \<Rightarrow> string \<Rightarrow> string \<Rightarrow> (string \<Rightarrow> string) \<Rightarrow> string list \<Rightarrow> 'w \<Rightarrow> (string \<times> file_summary) list \<times> 'w" where
  "file_summaries S T ns project dir modified [] w = ([], w)"
| "file_summaries S T ns project dir modified (f # fs) w =
     (if has_suffix f ''/'' then file_summaries S T ns project dir modified fs w
      else case ss_ReadFileWithETag S ns project (filepath_Join dir f) w of
        (Inl _, w1) \<Rightarrow> file_summaries S T ns project dir modified fs w1
      | (Inr (content, etag), w1) \<Rightarrow>
          (let md = md_Parse (te_yaml T) content in
           case file_summaries S T ns project dir modified fs w1 of
             (others, w2) \<Rightarrow>
               ((f, \<lparr>fs_Frontmatter = sm_Frontmatter md, fs_Heading = sm_Heading md, fs_ETag = etag, fs_ModifiedAt = modified f\<rparr>) # others, w2)))"

definition ListFilesHandler ::
    "'w storage_service \<Rightarrow> tool_env \<Rightarrow> string \<Rightarrow> string \<Rightarrow> string \<Rightarrow> bool \<Rightarrow> 'w \<Rightarrow> tool_result \<times> 'w" where
  "ListFilesHandler S T namespace project path includeSummaries w =
     (if project = [] then (errResult ''project_name is required'', w)
      else let ns = default_ns namespace in
      if \<not> IsValidName ns \<or> \<not> IsValidName project then (errResult invalid_names, w)
      else case ss_ListFiles S ns project path w of
        (Inl e, w1) \<Rightarrow> (errResult (''failed to list files: '' @ err_text T e), w1)
      | (Inr (files, modTimes), w1) \<Rightarrow>
          (let modifiedAt = concat (map (\<lambda>f. case modTimes f of None \<Rightarrow> [] | Some t \<Rightarrow> [(f, te_time T t)]) files);
               modified = (\<lambda>f. case modTimes f of None \<Rightarrow> [] | Some t \<Rightarrow> te_time T t) in
           if includeSummaries then
             (case file_summaries S T ns project path modified files w1 of
                (sums, w2) \<Rightarrow> (okResult (ListFilesOutput files modifiedAt (Some sums)), w2))
           else (okResult (ListFilesOutput files modifiedAt None), w1)))"

definition ReadSummaryHandler :: "'w storage_service \<Rightarrow> tool_env \<Rightarrow> string \<Rightarrow> string \<Rightarrow> string \<Rightarrow> 'w \<Rightarrow> tool_result \<times> 'w" where
  "ReadSummaryHandler S T namespace project path w =
     (if project = [] \<or> path = [] then (errResult ''project_name and path are required'', w)
      else let ns = default_ns namespace in
      if \<not> IsValidName ns \<or> \<not> IsValidName project then (errResult invalid_names, w)
      else case ss_ReadFileWithETag S ns project path w of
        (Inl e, w1) \<Rightarrow> (errResult (''failed to read file: '' @ err_text T e), w1)
      | (Inr (content, etag), w1) \<Rightarrow>
          (let md = md_Parse (te_yaml T) content;
               out = (\<lambda>modified. okResult (ReadSummaryOutput (sm_Frontmatter md) (sm_Heading md) (sm_Excerpt md)
                        (length content) etag modified)) in
           case ss_StatModTime S ns project path w1 of
             (Inl _, w2) \<Rightarrow> (out [], w2) | (Inr mt, w2) \<Rightarrow> (out (te_time T mt), w2)))"


definition ListFilesSinceHandler :: "'w storage_service \<Rightarrow> tool_env \<Rightarrow> string \<Rightarrow> string \<Rightarrow> string \<Rightarrow> 'w \<Rightarrow> tool_result \<times> 'w" where
  "ListFilesSinceHandler S T namespace project since w =
     (if project = [] \<or> since = [] then (errResult ''project_name and since are required'', w)
      else let ns = default_ns namespace in
      if \<not> IsValidName ns \<or> \<not> IsValidName project then (errResult invalid_names, w)
      else case ss_ListFilesSince S ns project since w of
        (Inl e, w1) \<Rightarrow> (errResult (''failed to list changes: '' @ err_text T e), w1)
      | (Inr changes, w1) \<Rightarrow> (okResult (ListFilesSinceOutput changes), w1))"

definition SearchFilesHandler ::
    "'w storage_service \<Rightarrow> tool_env \<Rightarrow> string \<Rightarrow> string \<Rightarrow> string \<Rightarrow> string \<Rightarrow> 'w \<Rightarrow> tool_result \<times> 'w" where
  "SearchFilesHandler S T namespace project query searchIn w =
     (if project = [] \<or> query = [] then (errResult ''project_name and query are required'', w)
      else let ns = default_ns namespace in
      if \<not> IsValidName ns \<or> \<not> IsValidName project then (errResult invalid_names, w)
      else case ss_SearchFiles S ns project query searchIn w of
        (Inl e, w1) \<Rightarrow> (errResult (''search failed: '' @ err_text T e), w1)
      | (Inr found, w1) \<Rightarrow> (okResult (SearchFilesOutput found), w1))"

definition ListDeletedHandler :: "'w storage_service \<Rightarrow> tool_env \<Rightarrow> string \<Rightarrow> string \<Rightarrow> 'w \<Rightarrow> tool_result \<times> 'w" where
  "ListDeletedHandler S T namespace project w =
     (if project = [] then (errResult ''project_name is required'', w)
      else let ns = default_ns namespace in
      if \<not> IsValidName ns \<or> \<not> IsValidName project then (errResult invalid_names, w)
      else case ss_ListDeleted S ns project w of
        (Inl e, w1) \<Rightarrow> (errResult (''failed to list deleted files: '' @ err_text T e), w1)
      | (Inr recs, w1) \<Rightarrow>
          (okResult (ListDeletedOutput (map (\<lambda>r. (df_Path r, df_DeletionCommit r, te_time T (df_DeletedAt r))) recs)), w1))"

text \<open>The context of a revival carries neither an identity nor a sender.\<close>

definition ReviveFileHandler ::
    "'w storage_service \<Rightarrow> tool_env \<Rightarrow> string \<Rightarrow> string \<Rightarrow> string \<Rightarrow> string \<Rightarrow> 'w \<Rightarrow> tool_result \<times> 'w" where
  "ReviveFileHandler S T namespace project path fromCommit w =
     (if project = [] \<or> path = [] then (errResult ''project_name and path are required'', w)
      else let ns = default_ns namespace in
      if \<not> IsValidName ns \<or> \<not> IsValidName project then (errResult invalid_names, w)
      else case ss_ReviveFile S bare_ctx ns project path fromCommit w of
        (Some e, w1) \<Rightarrow> (errResult (''failed to revive file: '' @ err_text T e), w1)
      | (None, w1) \<Rightarrow> (okResult (ReviveFileOutput True path), w1))"

section \<open>Projects and namespaces (\<open>project.go\<close>, \<open>lifecycle.go\<close>, \<open>recover.go\<close>)\<close>

definition CreateProjectHandler :: "'w storage_service \<Rightarrow> tool_env \<Rightarrow> mcp_req \<Rightarrow> string \<Rightarrow> string \<Rightarrow> 'w \<Rightarrow> tool_result \<times> 'w" where
  "CreateProjectHandler S T R namespace project w =
     (if project = [] then (errResult ''project_name is required'', w)
      else let ns = default_ns namespace in
      if \<not> IsValidName ns \<or> \<not> IsValidName project then (errResult invalid_names, w)
      else case ss_CreateProjectCtx S (plain_ctx R) ns project w of
        (Some e, w1) \<Rightarrow> (errResult (''failed to create project: '' @ err_text T e), w1)
      | (None, w1) \<Rightarrow> (okResult (MessageOutput (''Project '' @ ns @ ''/'' @ project @ '' created successfully'')), w1))"

definition DeleteProjectHandler :: "'w storage_service \<Rightarrow> tool_env \<Rightarrow> mcp_req \<Rightarrow> string \<Rightarrow> string \<Rightarrow> 'w \<Rightarrow> tool_result \<times> 'w" where
  "DeleteProjectHandler S T R namespace project w =
     (if project = [] then (errResult ''project_name is required'', w)
      else let ns = default_ns namespace in
      if \<not> IsValidName ns \<or> \<not> IsValidName project then (errResult invalid_names, w)
      else case ss_DeleteProject S (plain_ctx R) ns project w of
        (Some e, w1) \<Rightarrow> (errResult (''failed to delete project: '' @ err_text T e), w1)
      | (None, w1) \<Rightarrow> (okResult (MessageOutput (''Project '' @ ns @ ''/'' @ project @ '' deleted'')), w1))"

definition requireSuperUser :: "mcp_req \<Rightarrow> tool_result option" where
  "requireSuperUser R =
     (if IsSuperUser (req_scope R) then None else Some (errResult ''unauthorized: namespace management requires a super-user''))"

definition invalid_namespace :: string where
  "invalid_namespace = ''invalid namespace: only alphanumeric, hyphen, and underscore are allowed''"

definition CreateNamespaceHandler :: "'w storage_service \<Rightarrow> tool_env \<Rightarrow> mcp_req \<Rightarrow> string \<Rightarrow> 'w \<Rightarrow> tool_result \<times> 'w" where
  "CreateNamespaceHandler S T R namespace w =
     (if namespace = [] then (errResult ''namespace is required'', w)
      else if \<not> IsValidName namespace then (errResult invalid_namespace, w)
      else case requireSuperUser R of Some denied \<Rightarrow> (denied, w)
      | None \<Rightarrow>
          (case ss_CreateNamespace S namespace w of
             (Some e, w1) \<Rightarrow> (errResult (''failed to create namespace: '' @ err_text T e), w1)
           | (None, w1) \<Rightarrow> (okResult (MessageOutput (''Namespace '' @ namespace @ '' created'')), w1)))"

definition DeleteNamespaceHandler :: "'w storage_service \<Rightarrow> tool_env \<Rightarrow> mcp_req \<Rightarrow> string \<Rightarrow> 'w \<Rightarrow> tool_result \<times> 'w" where
  "DeleteNamespaceHandler S T R namespace w =
     (if namespace = [] then (errResult ''namespace is required'', w)
      else if \<not> IsValidName namespace then (errResult invalid_namespace, w)
      else case requireSuperUser R of Some denied \<Rightarrow> (denied, w)
      | None \<Rightarrow>
          (case ss_DeleteNamespace S (plain_ctx R) namespace w of
             (Some e, w1) \<Rightarrow> (errResult (''failed to delete namespace: '' @ err_text T e), w1)
           | (None, w1) \<Rightarrow> (okResult (MessageOutput (''Namespace '' @ namespace @ '' deleted'')), w1)))"

definition MoveProjectHandler :: "'w storage_service \<Rightarrow> tool_env \<Rightarrow> mcp_req \<Rightarrow> string \<Rightarrow> string \<Rightarrow> string \<Rightarrow> 'w \<Rightarrow> tool_result \<times> 'w" where
  "MoveProjectHandler S T R namespace project newNamespace w =
     (if project = [] \<or> newNamespace = [] then (errResult ''project_name and new_namespace are required'', w)
      else let ns = default_ns namespace in
      if \<not> IsValidName ns \<or> \<not> IsValidName project \<or> \<not> IsValidName newNamespace then (errResult invalid_names, w)
      else case requireSuperUser R of Some denied \<Rightarrow> (denied, w)
      | None \<Rightarrow>
          (case ss_MoveProject S (plain_ctx R) ns project newNamespace w of
             (Some e, w1) \<Rightarrow> (errResult (''failed to move project: '' @ err_text T e), w1)
           | (None, w1) \<Rightarrow>
               (okResult (MessageOutput (''Moved project '' @ ns @ ''/'' @ project @ '' '' @ utf8_arrow @ '' '' @ newNamespace @ ''/'' @ project)), w1)))"

definition RenameProjectHandler :: "'w storage_service \<Rightarrow> tool_env \<Rightarrow> mcp_req \<Rightarrow> string \<Rightarrow> string \<Rightarrow> string \<Rightarrow> 'w \<Rightarrow> tool_result \<times> 'w" where
  "RenameProjectHandler S T R namespace project newProject w =
     (if project = [] \<or> newProject = [] then (errResult ''project_name and new_project_name are required'', w)
      else let ns = default_ns namespace in
      if \<not> IsValidName ns \<or> \<not> IsValidName project \<or> \<not> IsValidName newProject then
        (errResult ''invalid namespace or project name: only alphanumeric, hyphen, and underscore are allowed'', w)
      else case ss_RenameProject S (plain_ctx R) ns project newProject w of
        (Some e, w1) \<Rightarrow> (errResult (''failed to rename project: '' @ err_text T e), w1)
      | (None, w1) \<Rightarrow>
          (okResult (MessageOutput (''Renamed project '' @ ns @ ''/'' @ project @ '' '' @ utf8_arrow @ '' '' @ ns @ ''/'' @ newProject)), w1))"

definition RenameNamespaceHandler :: "'w storage_service \<Rightarrow> tool_env \<Rightarrow> mcp_req \<Rightarrow> string \<Rightarrow> string \<Rightarrow> 'w \<Rightarrow> tool_result \<times> 'w" where
  "RenameNamespaceHandler S T R namespace newNamespace w =
     (if namespace = [] \<or> newNamespace = [] then (errResult ''namespace and new_namespace are required'', w)
      else if \<not> IsValidName namespace \<or> \<not> IsValidName newNamespace then (errResult invalid_namespace, w)
      else case requireSuperUser R of Some denied \<Rightarrow> (denied, w)
      | None \<Rightarrow>
          (case ss_RenameNamespace S (plain_ctx R) namespace newNamespace w of
             (Some e, w1) \<Rightarrow> (errResult (''failed to rename namespace: '' @ err_text T e), w1)
           | (None, w1) \<Rightarrow> (okResult (MessageOutput (''Renamed namespace '' @ namespace @ '' '' @ utf8_arrow @ '' '' @ newNamespace)), w1)))"

fun state_name :: "project_state \<Rightarrow> string" where
  "state_name StateHealthy = ''healthy''"
| "state_name StateCorrupted = ''corrupted''"
| "state_name StateDangerous = ''dangerous''"

fun recover_message :: "string \<Rightarrow> project_state \<Rightarrow> string" where
  "recover_message pr StateHealthy = ''Project '' @ pr @ '' re-synced to the on-disk git HEAD and is healthy; writes are enabled.''"
| "recover_message pr StateCorrupted =
     ''Project '' @ pr @ '' has GENUINE uncommitted working-tree drift (not a stale baseline); it remains corrupted. Resolve it with the Web UI recover action '' @
     utf8_dash @ '' '' @ squote @ ''accept-working-tree'' @ squote @ '' to adopt the changes or '' @ squote @ ''accept-head'' @ squote @ '' to discard them.''"
| "recover_message pr StateDangerous =
     ''Project '' @ pr @ '' is in a dangerous state (its .git is unreadable or absent); recovery cannot proceed over MCP.''"

definition RecoverProjectHandler :: "'w storage_service \<Rightarrow> tool_env \<Rightarrow> string \<Rightarrow> string \<Rightarrow> 'w \<Rightarrow> tool_result \<times> 'w" where
  "RecoverProjectHandler S T namespace project w =
     (if project = [] then (errResult ''project_name is required'', w)
      else let ns = default_ns namespace in
      if \<not> IsValidName ns \<or> \<not> IsValidName project then (errResult invalid_names, w)
      else case ss_ResyncToHead S ns project w of
        (Inl e, w1) \<Rightarrow> (errResult (''recover_project failed: '' @ err_text T e), w1)
      | (Inr state, w1) \<Rightarrow>
          (okResult (RecoverProjectOutput ns project (state_name state) (state = StateHealthy) (recover_message (ns @ ''/'' @ project) state)), w1))"

section \<open>Health (\<open>nshealth.go\<close>) and the server (\<open>info.go\<close>)\<close>

definition filterHealthByAdminScope :: "health_report \<Rightarrow> string \<Rightarrow> health_report" where
  "filterHealthByAdminScope report scope =
     (let (adminNs, superUser) = AdminNamespaces scope in
      if superUser then report
      else \<lparr>hr_Namespaces = filter (\<lambda>nh. nh_Name nh \<in> set adminNs) (hr_Namespaces report), hr_ForeignNamespaces = []\<rparr>)"

definition NamespaceHealthHandler :: "'w storage_service \<Rightarrow> mcp_req \<Rightarrow> 'w \<Rightarrow> tool_result \<times> 'w" where
  "NamespaceHealthHandler S R w =
     (case ss_CheckAllHealth S w of
        (report, w1) \<Rightarrow> (okResult (NamespaceHealthOutput (filterHealthByAdminScope report (req_scope R))), w1))"

definition recovered :: "string \<Rightarrow> string \<Rightarrow> storage_error option \<times> 'w \<Rightarrow> tool_env \<Rightarrow> tool_result \<times> 'w" where
  "recovered what done r T =
     (case r of (Some e, w1) \<Rightarrow> (errResult (what @ err_text T e), w1) | (None, w1) \<Rightarrow> (okResult (MessageOutput done), w1))"

definition NamespaceRecoverHandler ::
    "'w storage_service \<Rightarrow> tool_env \<Rightarrow> mcp_req \<Rightarrow> string \<Rightarrow> string \<Rightarrow> string \<Rightarrow> 'w \<Rightarrow> tool_result \<times> 'w" where
  "NamespaceRecoverHandler S T R action namespace project w =
     (let ns = default_ns namespace; nsLevel = (project = []); both = ns @ ''/'' @ project in
      if \<not> IsValidName ns then (errResult invalid_namespace, w)
      else if project \<noteq> [] \<and> \<not> IsValidName project then
        (errResult ''invalid project_name: only alphanumeric, hyphen, and underscore are allowed'', w)
      else if action = ''drop_missing'' then
        (if nsLevel then
           (case requireSuperUser R of
              Some denied \<Rightarrow> (denied, w)
            | None \<Rightarrow> recovered ''drop_missing namespace: '' (''Dropped missing namespace '' @ ns @ '' from the managed set'')
                        (ss_DropMissingNamespace S ns w) T)
         else recovered ''drop_missing project: '' (''Dropped missing project '' @ both @ '' from the managed set'')
                (ss_DropMissingProject S ns project w) T)
      else if action = ''clean_orphaned'' then
        (if nsLevel then
           (errResult (''clean_orphaned requires project_name (the stray'' @ squote @ ''s base name)''), w)
         else recovered ''clean_orphaned: '' (''Cleaned orphaned siblings for '' @ both) (ss_CleanOrphanedSibling S ns project w) T)
      else if action = ''adopt'' then
        (case (if nsLevel then requireSuperUser R else None) of
           Some denied \<Rightarrow> (denied, w)
         | None \<Rightarrow> recovered ''adopt: '' (''Adopted '' @ (if project \<noteq> [] then both else ns) @ '' into the managed set'')
                     (ss_AdoptForeign S ns project w) T)
      else (errResult ''invalid action: must be drop_missing | clean_orphaned | adopt'', w))"

definition GetServerInfoHandler :: "'w storage_service \<Rightarrow> tool_env \<Rightarrow> 'w \<Rightarrow> tool_result \<times> 'w" where
  "GetServerInfoHandler S T w =
     (case ss_WALStatus S w of
        ((pending, disabled, age), w1) \<Rightarrow>
          (okResult (GetServerInfoOutput (te_ExternalURL T) (te_HTTPListen T) (te_MCPListen T) (te_StorageBaseDir T) pending disabled age), w1))"


end
