(* ===== verification/Tool_Calls.thy ===== *)
theory Tool_Calls
  imports Tool_Handlers
begin

text \<open>
  Calling a tool: the arguments as they arrive, the authorization middleware (\<open>internal/tools/authz.go\<close>) and the
  dispatch to the handler that is registered under the tool's name (\<open>newMCPServer\<close> of \<open>cmd/shoka/main.go\<close>); the order
  of the listing of tools (\<open>ordering.go\<close>).  Calls are taken one at a time.
\<close>

section \<open>Calls\<close>

text \<open>One constructor per tool, with its arguments; \<open>namespace\<close> and \<open>project_name\<close> come first where the tool has them.\<close>

datatype tool_call =
  CallReadFile string string string
| CallReadSummary string string string
| CallReadFileAtVersion string string string string
| CallListFiles string string string bool
| CallListFilesSince string string string
| CallListProjects string
| CallGetHistory string string string int string
| CallGetDiff string string string string string
| CallGetServerInfo
| CallSearchFiles string string string string
| CallSubscribe string
| CallUnsubscribe string
| CallWriteFile string string string string "string option" string
| CallPatchFile string string string string string "string option"
| CallAppendToFile string string string string string string "string option"
| CallMoveFile string string string string "string option"
| CallCopyFile string string string string string string
| CallDeleteFile string string string "string option"
| CallRecoverProject string string
| CallListDeleted string string
| CallReviveFile string string string string
| CallCreateProject string string
| CallDeleteProject string string
| CallCreateNamespace string
| CallDeleteNamespace string
| CallNamespaceHealth
| CallNamespaceRecover string string string
| CallMoveProject string string string
| CallRenameProject string string string
| CallRenameNamespace string string

primrec tool_name :: "tool_call \<Rightarrow> string" where
  "tool_name (CallReadFile n p path) = ''read_file''"
| "tool_name (CallReadSummary n p path) = ''read_summary''"
| "tool_name (CallReadFileAtVersion n p path h) = ''read_file_at_version''"
| "tool_name (CallListFiles n p path s) = ''list_files''"
| "tool_name (CallListFilesSince n p since) = ''list_files_since''"
| "tool_name (CallListProjects n) = ''list_projects''"
| "tool_name (CallGetHistory n p path limit since) = ''get_history''"
| "tool_name (CallGetDiff n p path a b) = ''get_diff''"
| "tool_name CallGetServerInfo = ''get_server_info''"
| "tool_name (CallSearchFiles n p q i) = ''search_files''"
| "tool_name (CallSubscribe raw) = ''subscribe''"
| "tool_name (CallUnsubscribe raw) = ''unsubscribe''"
| "tool_name (CallWriteFile n p path c m e) = ''write_file''"
| "tool_name (CallPatchFile n p path a b m) = ''patch_file''"
| "tool_name (CallAppendToFile n p path c pos a m) = ''append_to_file''"
| "tool_name (CallMoveFile n p a b m) = ''move_file''"
| "tool_name (CallCopyFile n p path sn sp spath) = ''copy_file''"
| "tool_name (CallDeleteFile n p path m) = ''delete_file''"
| "tool_name (CallRecoverProject n p) = ''recover_project''"
| "tool_name (CallListDeleted n p) = ''list_deleted''"
| "tool_name (CallReviveFile n p path c) = ''revive_file''"
| "tool_name (CallCreateProject n p) = ''create_project''"
| "tool_name (CallDeleteProject n p) = ''delete_project''"
| "tool_name (CallCreateNamespace n) = ''create_namespace''"
| "tool_name (CallDeleteNamespace n) = ''delete_namespace''"
| "tool_name CallNamespaceHealth = ''namespace_health''"
| "tool_name (CallNamespaceRecover n p a) = ''namespace_recover''"
| "tool_name (CallMoveProject n p m) = ''move_project''"
| "tool_name (CallRenameProject n p q) = ''rename_project''"
| "tool_name (CallRenameNamespace n m) = ''rename_namespace''"

text \<open>The two routing arguments; both are empty for a tool that has none.\<close>

primrec callTarget :: "tool_call \<Rightarrow> string \<times> string" where
  "callTarget (CallReadFile n p path) = (n, p)"
| "callTarget (CallReadSummary n p path) = (n, p)"
| "callTarget (CallReadFileAtVersion n p path h) = (n, p)"
| "callTarget (CallListFiles n p path s) = (n, p)"
| "callTarget (CallListFilesSince n p since) = (n, p)"
| "callTarget (CallListProjects n) = (n, [])"
| "callTarget (CallGetHistory n p path limit since) = (n, p)"
| "callTarget (CallGetDiff n p path a b) = (n, p)"
| "callTarget CallGetServerInfo = ([], [])"
| "callTarget (CallSearchFiles n p q i) = (n, p)"
| "callTarget (CallSubscribe raw) = ([], [])"
| "callTarget (CallUnsubscribe raw) = ([], [])"
| "callTarget (CallWriteFile n p path c m e) = (n, p)"
| "callTarget (CallPatchFile n p path a b m) = (n, p)"
| "callTarget (CallAppendToFile n p path c pos a m) = (n, p)"
| "callTarget (CallMoveFile n p a b m) = (n, p)"
| "callTarget (CallCopyFile n p path sn sp spath) = (n, p)"
| "callTarget (CallDeleteFile n p path m) = (n, p)"
| "callTarget (CallRecoverProject n p) = (n, p)"
| "callTarget (CallListDeleted n p) = (n, p)"
| "callTarget (CallReviveFile n p path c) = (n, p)"
| "callTarget (CallCreateProject n p) = (n, p)"
| "callTarget (CallDeleteProject n p) = (n, p)"
| "callTarget (CallCreateNamespace n) = (n, [])"
| "callTarget (CallDeleteNamespace n) = (n, [])"
| "callTarget CallNamespaceHealth = ([], [])"
| "callTarget (CallNamespaceRecover n p a) = (n, p)"
| "callTarget (CallMoveProject n p m) = (n, p)"
| "callTarget (CallRenameProject n p q) = (n, p)"
| "callTarget (CallRenameNamespace n m) = (n, [])"

section \<open>Levels\<close>

definition toolLevels :: "(string \<times> level) list" where
  "toolLevels =
     map (\<lambda>t. (t, LevelRead))
       [''read_file'', ''read_summary'', ''read_file_at_version'', ''list_files'', ''list_files_since'', ''list_projects'',
        ''get_history'', ''get_diff'', ''get_server_info'', ''search_files'', ''subscribe'', ''unsubscribe'', ''ask_the_librarian''] @
     map (\<lambda>t. (t, LevelWrite))
       [''write_file'', ''patch_file'', ''append_to_file'', ''move_file'', ''copy_file'', ''delete_file''] @
     map (\<lambda>t. (t, LevelAdmin))
       [''recover_project'', ''list_deleted'', ''revive_file'', ''create_project'', ''delete_project'', ''create_namespace'',
        ''delete_namespace'', ''namespace_health'', ''namespace_recover'', ''move_project'', ''rename_project'', ''rename_namespace'']"

definition toolLevel :: "string \<Rightarrow> level" where
  "toolLevel name = (case map_of toolLevels name of Some l \<Rightarrow> l | None \<Rightarrow> LevelAdmin)"

lemma tool_levels [simp]:
  "toolLevel ''read_file'' = LevelRead" "toolLevel ''read_summary'' = LevelRead" "toolLevel ''read_file_at_version'' = LevelRead"
  "toolLevel ''list_files'' = LevelRead" "toolLevel ''list_files_since'' = LevelRead" "toolLevel ''list_projects'' = LevelRead"
  "toolLevel ''get_history'' = LevelRead" "toolLevel ''get_diff'' = LevelRead" "toolLevel ''get_server_info'' = LevelRead"
  "toolLevel ''search_files'' = LevelRead" "toolLevel ''subscribe'' = LevelRead" "toolLevel ''unsubscribe'' = LevelRead"
  "toolLevel ''write_file'' = LevelWrite" "toolLevel ''patch_file'' = LevelWrite" "toolLevel ''append_to_file'' = LevelWrite"
  "toolLevel ''move_file'' = LevelWrite" "toolLevel ''copy_file'' = LevelWrite" "toolLevel ''delete_file'' = LevelWrite"
  "toolLevel ''recover_project'' = LevelAdmin" "toolLevel ''list_deleted'' = LevelAdmin" "toolLevel ''revive_file'' = LevelAdmin"
  "toolLevel ''create_project'' = LevelAdmin" "toolLevel ''delete_project'' = LevelAdmin" "toolLevel ''create_namespace'' = LevelAdmin"
  "toolLevel ''delete_namespace'' = LevelAdmin" "toolLevel ''namespace_health'' = LevelAdmin" "toolLevel ''namespace_recover'' = LevelAdmin"
  "toolLevel ''move_project'' = LevelAdmin" "toolLevel ''rename_project'' = LevelAdmin" "toolLevel ''rename_namespace'' = LevelAdmin"
  by (simp_all add: toolLevel_def toolLevels_def)

section \<open>The middleware and the dispatch\<close>

definition mcp_session :: "mcp_req \<Rightarrow> string option" where
  "mcp_session R = map_option fst (mq_Session R)"

definition subscribe_tool ::
    "'w storage_service \<Rightarrow> tool_env \<Rightarrow> mcp_req \<Rightarrow> string \<Rightarrow> 'w \<times> sub_manager \<Rightarrow> tool_result \<times> 'w \<times> sub_manager" where
  "subscribe_tool S T R raw st =
     (case SubscribeHandler (\<lambda>ns. fst (ss_ListProjects S ns (fst st))) id (mcp_session R) raw (snd st) of
        (Inl e, m) \<Rightarrow> (errResult (te_sub_text T e), fst st, m)
      | (Inr (raw', ps), m) \<Rightarrow> (okResult (SubscribeOutput True raw' ps), fst st, m))"

definition unsubscribe_tool :: "tool_env \<Rightarrow> mcp_req \<Rightarrow> string \<Rightarrow> 'w \<times> sub_manager \<Rightarrow> tool_result \<times> 'w \<times> sub_manager" where
  "unsubscribe_tool T R raw st =
     (case UnsubscribeHandler id (mcp_session R) raw (snd st) of
        (Inl e, m) \<Rightarrow> (errResult (te_sub_text T e), fst st, m)
      | (Inr (u, c, ps), m) \<Rightarrow> (okResult (UnsubscribeOutput u c ps), fst st, m))"

definition on_service :: "('w \<Rightarrow> tool_result \<times> 'w) \<Rightarrow> 'w \<times> sub_manager \<Rightarrow> tool_result \<times> 'w \<times> sub_manager" where
  "on_service f st = (case f (fst st) of (r, w) \<Rightarrow> (r, w, snd st))"

primrec tool_handler ::
    "'w storage_service \<Rightarrow> tool_env \<Rightarrow> mcp_req \<Rightarrow> tool_call \<Rightarrow> 'w \<times> sub_manager \<Rightarrow> tool_result \<times> 'w \<times> sub_manager" where
  "tool_handler S T R (CallReadFile n p path) = on_service (ReadFileHandler S T n p path)"
| "tool_handler S T R (CallReadSummary n p path) = on_service (ReadSummaryHandler S T n p path)"
| "tool_handler S T R (CallReadFileAtVersion n p path h) = on_service (ReadFileAtVersionHandler S T n p path h)"
| "tool_handler S T R (CallListFiles n p path s) = on_service (ListFilesHandler S T n p path s)"
| "tool_handler S T R (CallListFilesSince n p since) = on_service (ListFilesSinceHandler S T n p since)"
| "tool_handler S T R (CallListProjects n) = on_service (ListProjectsHandler S T R n)"
| "tool_handler S T R (CallGetHistory n p path limit since) = on_service (GetHistoryHandler S T n p path limit since)"
| "tool_handler S T R (CallGetDiff n p path a b) = on_service (GetDiffHandler S T n p path a b)"
| "tool_handler S T R CallGetServerInfo = on_service (GetServerInfoHandler S T)"
| "tool_handler S T R (CallSearchFiles n p q i) = on_service (SearchFilesHandler S T n p q i)"
| "tool_handler S T R (CallWriteFile n p path c m e) = on_service (WriteFileHandler S T R n p path c m e)"
| "tool_handler S T R (CallPatchFile n p path a b m) = on_service (PatchFileHandler S T R n p path a b m)"
| "tool_handler S T R (CallAppendToFile n p path c pos a m) = on_service (AppendToFileHandler S T R n p path c pos a m)"
| "tool_handler S T R (CallMoveFile n p a b m) = on_service (MoveFileHandler S T R n p a b m)"
| "tool_handler S T R (CallCopyFile n p path sn sp spath) = on_service (CopyFileHandler S T R sn sp spath n p path)"
| "tool_handler S T R (CallDeleteFile n p path m) = on_service (DeleteFileHandler S T R n p path m)"
| "tool_handler S T R (CallRecoverProject n p) = on_service (RecoverProjectHandler S T n p)"
| "tool_handler S T R (CallListDeleted n p) = on_service (ListDeletedHandler S T n p)"
| "tool_handler S T R (CallReviveFile n p path c) = on_service (ReviveFileHandler S T n p path c)"
| "tool_handler S T R (CallCreateProject n p) = on_service (CreateProjectHandler S T R n p)"
| "tool_handler S T R (CallDeleteProject n p) = on_service (DeleteProjectHandler S T R n p)"
| "tool_handler S T R (CallCreateNamespace n) = on_service (CreateNamespaceHandler S T R n)"
| "tool_handler S T R (CallDeleteNamespace n) = on_service (DeleteNamespaceHandler S T R n)"
| "tool_handler S T R CallNamespaceHealth = on_service (NamespaceHealthHandler S R)"
| "tool_handler S T R (CallNamespaceRecover n p a) = on_service (NamespaceRecoverHandler S T R a n p)"
| "tool_handler S T R (CallMoveProject n p m) = on_service (MoveProjectHandler S T R n p m)"
| "tool_handler S T R (CallRenameProject n p q) = on_service (RenameProjectHandler S T R n p q)"
| "tool_handler S T R (CallRenameNamespace n m) = on_service (RenameNamespaceHandler S T R n m)"
| "tool_handler S T R (CallSubscribe raw) = subscribe_tool S T R raw"
| "tool_handler S T R (CallUnsubscribe raw) = unsubscribe_tool T R raw"

definition AuthzMiddleware ::
    "mcp_req \<Rightarrow> tool_call \<Rightarrow> ('s \<Rightarrow> tool_result \<times> 's) \<Rightarrow> 's \<Rightarrow> tool_result \<times> 's" where
  "AuthzMiddleware R c handler st =
     (case callTarget c of
        (namespace, project) \<Rightarrow>
          (case Authorize (req_scope R) namespace project (toolLevel (tool_name c)) of
             Some err \<Rightarrow> (errResult (''unauthorized: '' @ err), st)
           | None \<Rightarrow> handler st))"

definition call_tool ::
    "'w storage_service \<Rightarrow> tool_env \<Rightarrow> mcp_req \<Rightarrow> tool_call \<Rightarrow> 'w \<times> sub_manager \<Rightarrow> tool_result \<times> 'w \<times> sub_manager" where
  "call_tool S T R c st = AuthzMiddleware R c (tool_handler S T R c) st"

section \<open>The order of the listing\<close>

definition coreToolOrder :: "string list" where
  "coreToolOrder = [''read_file'', ''write_file'', ''list_files'', ''read_summary'', ''search_files'', ''get_history'',
     ''patch_file'', ''append_to_file'']"

definition core_rank :: "string \<Rightarrow> nat" where
  "core_rank name = length (takeWhile (\<lambda>t. t \<noteq> name) coreToolOrder)"

text \<open>A stable sort in which a tool that is not core ranks after every core one.\<close>

definition reorderCoreFirst :: "string list \<Rightarrow> string list" where
  "reorderCoreFirst names = sort_key core_rank names"

end
