(* ===== verification/Tool_Auth.thy ===== *)
theory Tool_Auth
  imports Tool_Calls
begin

text \<open>
  What a tool call may ask of the storage service and what its answer may depend on.  Nothing is assumed of the service:
  \<open>effects_within\<close> and \<open>reads_within\<close> replace its operations, wherever the scope of the caller does not admit them, by
  those of any other service \<open>D\<close>, and the theorems state that the call does not notice.  Then what a copy checks, where
  the authorization falls short, and the order of the listing of tools.
\<close>

section \<open>Grants\<close>

lemma Authorize_None: "Authorize s n p l = None \<longleftrightarrow> l \<le> EffectiveLevel (ParseScope s) n p"
  by (simp add: Authorize_def Let_def)

lemma Authorize_lower: "Authorize s n p l = None \<Longrightarrow> k \<le> l \<Longrightarrow> Authorize s n p k = None"
  unfolding Authorize_None by (rule order_trans)

lemma Authorize_admin: "n \<in> set (fst (AdminNamespaces s)) \<Longrightarrow> Authorize s n p LevelAdmin = None"
proof -
  assume "n \<in> set (fst (AdminNamespaces s))"
  then have "n \<in> set (dedup_admin [] (ParseScope s))" by (simp add: AdminNamespaces_def split: if_splits)
  then obtain g where g: "g \<in> set (ParseScope s)" "g_Zone g = []" "g_Namespace g = n" "g_Project g = []" "g_Level g = LevelAdmin"
    using dedup_admin_spec [of "[]" "ParseScope s"] by blast
  then have "matches g n p" by (simp add: matches_def)
  then show ?thesis using g(1,5) unfolding Authorize_None EffectiveLevel_ge by (metis order_refl)
qed

lemma levels_le [simp]: "LevelRead \<le> LevelWrite" "LevelRead \<le> LevelAdmin" "LevelWrite \<le> LevelAdmin"
  by (simp_all add: less_eq_level_def)

section \<open>The operations a call may use\<close>

text \<open>
  An operation on a project is admitted at a level if the caller's scope grants it there.  A call that leaves the
  namespace out goes to \<open>default\<close>; it is admitted there if the middleware let it pass (see \<open>omitted_namespace_unchecked\<close>).
\<close>

definition may_call :: "mcp_req \<Rightarrow> tool_call \<Rightarrow> string \<Rightarrow> string \<Rightarrow> level \<Rightarrow> bool" where
  "may_call R c n p l \<longleftrightarrow>
     Authorize (req_scope R) n p l = None \<or>
     n = ''default'' \<and> fst (callTarget c) = [] \<and> Authorize (req_scope R) [] p l = None"

text \<open>Edits of files at the level \<open>write\<close>, what changes a project otherwise at \<open>admin\<close>, the rest for a super-user.\<close>

definition effects_within :: "mcp_req \<Rightarrow> tool_call \<Rightarrow> 'w storage_service \<Rightarrow> 'w storage_service \<Rightarrow> 'w storage_service" where
  "effects_within R c S D =
     (let super = IsSuperUser (req_scope R) in
      S\<lparr>ss_Write := (\<lambda>ctx n p. ss_Write (if may_call R c n p LevelWrite then S else D) ctx n p),
        ss_Delete := (\<lambda>ctx n p. ss_Delete (if may_call R c n p LevelWrite then S else D) ctx n p),
        ss_AppendToFile := (\<lambda>ctx n p. ss_AppendToFile (if may_call R c n p LevelWrite then S else D) ctx n p),
        ss_PatchFile := (\<lambda>ctx n p. ss_PatchFile (if may_call R c n p LevelWrite then S else D) ctx n p),
        ss_Move := (\<lambda>ctx n p. ss_Move (if may_call R c n p LevelWrite then S else D) ctx n p),
        ss_ReviveFile := (\<lambda>ctx n p. ss_ReviveFile (if may_call R c n p LevelAdmin then S else D) ctx n p),
        ss_ResyncToHead := (\<lambda>n p. ss_ResyncToHead (if may_call R c n p LevelAdmin then S else D) n p),
        ss_CreateProjectCtx := (\<lambda>ctx n p. ss_CreateProjectCtx (if may_call R c n p LevelAdmin then S else D) ctx n p),
        ss_DeleteProject := (\<lambda>ctx n p. ss_DeleteProject (if may_call R c n p LevelAdmin then S else D) ctx n p),
        ss_RenameProject := (\<lambda>ctx n p. ss_RenameProject (if may_call R c n p LevelAdmin then S else D) ctx n p),
        ss_DropMissingProject := (\<lambda>n p. ss_DropMissingProject (if may_call R c n p LevelAdmin then S else D) n p),
        ss_CleanOrphanedSibling := (\<lambda>n p. ss_CleanOrphanedSibling (if may_call R c n p LevelAdmin then S else D) n p),
        ss_AdoptForeign := (\<lambda>n p. ss_AdoptForeign (if (if p = [] then super else may_call R c n p LevelAdmin) then S else D) n p),
        ss_MoveProject := ss_MoveProject (if super then S else D),
        ss_CreateNamespace := ss_CreateNamespace (if super then S else D),
        ss_DeleteNamespace := ss_DeleteNamespace (if super then S else D),
        ss_RenameNamespace := ss_RenameNamespace (if super then S else D),
        ss_DropMissingNamespace := ss_DropMissingNamespace (if super then S else D)\<rparr>)"

text \<open>What a scope may see of the listing of all projects and of the health of the namespaces.\<close>

definition listed_for :: "mcp_req \<Rightarrow> string list \<Rightarrow> string list" where
  "listed_for R projects = filter (\<lambda>pr. Authorize (req_scope R) (cut_before (CHR ''/'') pr) [] LevelRead = None) projects"

definition health_for :: "mcp_req \<Rightarrow> health_report \<Rightarrow> health_report" where
  "health_for R report =
     (if IsSuperUser (req_scope R) then report
      else \<lparr>hr_Namespaces = filter (\<lambda>nh. Authorize (req_scope R) (nh_Name nh) [] LevelAdmin = None) (hr_Namespaces report),
            hr_ForeignNamespaces = []\<rparr>)"

primrec is_subscribe :: "tool_call \<Rightarrow> bool" where
  "is_subscribe (CallReadFile n p path) = False"
| "is_subscribe (CallReadSummary n p path) = False"
| "is_subscribe (CallReadFileAtVersion n p path h) = False"
| "is_subscribe (CallListFiles n p path s) = False"
| "is_subscribe (CallListFilesSince n p since) = False"
| "is_subscribe (CallListProjects n) = False"
| "is_subscribe (CallGetHistory n p path limit since) = False"
| "is_subscribe (CallGetDiff n p path a b) = False"
| "is_subscribe CallGetServerInfo = False"
| "is_subscribe (CallSearchFiles n p q i) = False"
| "is_subscribe (CallSubscribe raw) = True"
| "is_subscribe (CallUnsubscribe raw) = False"
| "is_subscribe (CallWriteFile n p path c m e) = False"
| "is_subscribe (CallPatchFile n p path a b m) = False"
| "is_subscribe (CallAppendToFile n p path c pos a m) = False"
| "is_subscribe (CallMoveFile n p a b m) = False"
| "is_subscribe (CallCopyFile n p path sn sp spath) = False"
| "is_subscribe (CallDeleteFile n p path m) = False"
| "is_subscribe (CallRecoverProject n p) = False"
| "is_subscribe (CallListDeleted n p) = False"
| "is_subscribe (CallReviveFile n p path c) = False"
| "is_subscribe (CallCreateProject n p) = False"
| "is_subscribe (CallDeleteProject n p) = False"
| "is_subscribe (CallCreateNamespace n) = False"
| "is_subscribe (CallDeleteNamespace n) = False"
| "is_subscribe CallNamespaceHealth = False"
| "is_subscribe (CallNamespaceRecover n p a) = False"
| "is_subscribe (CallMoveProject n p m) = False"
| "is_subscribe (CallRenameProject n p q) = False"
| "is_subscribe (CallRenameNamespace n m) = False"

definition reads_within :: "mcp_req \<Rightarrow> tool_call \<Rightarrow> 'w storage_service \<Rightarrow> 'w storage_service \<Rightarrow> 'w storage_service" where
  "reads_within R c S D =
     S\<lparr>ss_ReadFileWithETag := (\<lambda>n p. ss_ReadFileWithETag (if may_call R c n p LevelRead then S else D) n p),
       ss_StatModTime := (\<lambda>n p. ss_StatModTime (if may_call R c n p LevelRead then S else D) n p),
       ss_ListFiles := (\<lambda>n p. ss_ListFiles (if may_call R c n p LevelRead then S else D) n p),
       ss_GetHistory := (\<lambda>n p. ss_GetHistory (if may_call R c n p LevelRead then S else D) n p),
       ss_ReadFileAtVersion := (\<lambda>n p. ss_ReadFileAtVersion (if may_call R c n p LevelRead then S else D) n p),
       ss_DiffVersions := (\<lambda>n p. ss_DiffVersions (if may_call R c n p LevelRead then S else D) n p),
       ss_ListFilesSince := (\<lambda>n p. ss_ListFilesSince (if may_call R c n p LevelRead then S else D) n p),
       ss_SearchFiles := (\<lambda>n p. ss_SearchFiles (if may_call R c n p LevelRead then S else D) n p),
       ss_ListDeleted := (\<lambda>n p. ss_ListDeleted (if may_call R c n p LevelAdmin then S else D) n p),
       ss_ListProjects := (\<lambda>n. ss_ListProjects (if may_call R c n [] LevelRead \<or> is_subscribe c then S else D) n),
       ss_ListAllProjects := (\<lambda>w. apfst (map_sum id (listed_for R)) (ss_ListAllProjects S w)),
       ss_CheckAllHealth := (\<lambda>w. apfst (health_for R) (ss_CheckAllHealth S w))\<rparr>"

lemma may_target:
  assumes "Authorize (req_scope R) n p l = None" "k \<le> l" "fst (callTarget c) = n"
  shows "may_call R c (default_ns n) p k"
  using Authorize_lower [OF assms(1,2)] assms(3) by (auto simp: may_call_def default_ns_def)

lemma may_call_granted: "Authorize (req_scope R) n p l = None \<Longrightarrow> k \<le> l \<Longrightarrow> may_call R c n p k"
  using Authorize_lower by (auto simp: may_call_def)

section \<open>Every effect is authorized\<close>

lemma effects_sel:
  "ss_Write (effects_within R c S D) ctx n p = ss_Write (if may_call R c n p LevelWrite then S else D) ctx n p"
  "ss_Delete (effects_within R c S D) ctx n p = ss_Delete (if may_call R c n p LevelWrite then S else D) ctx n p"
  "ss_AppendToFile (effects_within R c S D) ctx n p = ss_AppendToFile (if may_call R c n p LevelWrite then S else D) ctx n p"
  "ss_PatchFile (effects_within R c S D) ctx n p = ss_PatchFile (if may_call R c n p LevelWrite then S else D) ctx n p"
  "ss_Move (effects_within R c S D) ctx n p = ss_Move (if may_call R c n p LevelWrite then S else D) ctx n p"
  "ss_ReviveFile (effects_within R c S D) ctx n p = ss_ReviveFile (if may_call R c n p LevelAdmin then S else D) ctx n p"
  "ss_ResyncToHead (effects_within R c S D) n p = ss_ResyncToHead (if may_call R c n p LevelAdmin then S else D) n p"
  "ss_CreateProjectCtx (effects_within R c S D) ctx n p = ss_CreateProjectCtx (if may_call R c n p LevelAdmin then S else D) ctx n p"
  "ss_DeleteProject (effects_within R c S D) ctx n p = ss_DeleteProject (if may_call R c n p LevelAdmin then S else D) ctx n p"
  "ss_RenameProject (effects_within R c S D) ctx n p = ss_RenameProject (if may_call R c n p LevelAdmin then S else D) ctx n p"
  "ss_DropMissingProject (effects_within R c S D) n p = ss_DropMissingProject (if may_call R c n p LevelAdmin then S else D) n p"
  "ss_CleanOrphanedSibling (effects_within R c S D) n p = ss_CleanOrphanedSibling (if may_call R c n p LevelAdmin then S else D) n p"
  "ss_AdoptForeign (effects_within R c S D) n p =
     ss_AdoptForeign (if (if p = [] then IsSuperUser (req_scope R) else may_call R c n p LevelAdmin) then S else D) n p"
  "ss_MoveProject (effects_within R c S D) = ss_MoveProject (if IsSuperUser (req_scope R) then S else D)"
  "ss_CreateNamespace (effects_within R c S D) = ss_CreateNamespace (if IsSuperUser (req_scope R) then S else D)"
  "ss_DeleteNamespace (effects_within R c S D) = ss_DeleteNamespace (if IsSuperUser (req_scope R) then S else D)"
  "ss_RenameNamespace (effects_within R c S D) = ss_RenameNamespace (if IsSuperUser (req_scope R) then S else D)"
  "ss_DropMissingNamespace (effects_within R c S D) = ss_DropMissingNamespace (if IsSuperUser (req_scope R) then S else D)"
  by (simp_all add: effects_within_def Let_def)

lemma effects_reads [simp]:
  "ss_ReadFileWithETag (effects_within R c S D) = ss_ReadFileWithETag S" "ss_StatModTime (effects_within R c S D) = ss_StatModTime S"
  "ss_ListFiles (effects_within R c S D) = ss_ListFiles S" "ss_GetHistory (effects_within R c S D) = ss_GetHistory S"
  "ss_ReadFileAtVersion (effects_within R c S D) = ss_ReadFileAtVersion S" "ss_DiffVersions (effects_within R c S D) = ss_DiffVersions S"
  "ss_ListFilesSince (effects_within R c S D) = ss_ListFilesSince S" "ss_SearchFiles (effects_within R c S D) = ss_SearchFiles S"
  "ss_ListDeleted (effects_within R c S D) = ss_ListDeleted S" "ss_WALStatus (effects_within R c S D) = ss_WALStatus S"
  "ss_ListProjects (effects_within R c S D) = ss_ListProjects S" "ss_ListAllProjects (effects_within R c S D) = ss_ListAllProjects S"
  "ss_CheckAllHealth (effects_within R c S D) = ss_CheckAllHealth S"
  by (simp_all add: effects_within_def Let_def)

text \<open>A service with the same readers is read alike.\<close>

lemma summaries_same:
  assumes "\<And>path. ss_ReadFileWithETag S' n p path = ss_ReadFileWithETag S n p path"
  shows "file_summaries S' T n p dir md fs w = file_summaries S T n p dir md fs w"
  by (induction fs arbitrary: w) (simp_all add: assms Let_def split: prod.split sum.split)

lemma file_readers_same:
  assumes "\<And>path. ss_ReadFileWithETag S' (default_ns n) p path = ss_ReadFileWithETag S (default_ns n) p path"
    and "\<And>path. ss_StatModTime S' (default_ns n) p path = ss_StatModTime S (default_ns n) p path"
    and "ss_ListFiles S' (default_ns n) p = ss_ListFiles S (default_ns n) p"
    and "ss_GetHistory S' (default_ns n) p = ss_GetHistory S (default_ns n) p"
    and "ss_ReadFileAtVersion S' (default_ns n) p = ss_ReadFileAtVersion S (default_ns n) p"
    and "ss_DiffVersions S' (default_ns n) p = ss_DiffVersions S (default_ns n) p"
    and "ss_ListFilesSince S' (default_ns n) p = ss_ListFilesSince S (default_ns n) p"
    and "ss_SearchFiles S' (default_ns n) p = ss_SearchFiles S (default_ns n) p"
  shows "ReadFileHandler S' T n p path = ReadFileHandler S T n p path"
    "ReadSummaryHandler S' T n p path = ReadSummaryHandler S T n p path"
    "ReadFileAtVersionHandler S' T n p path h = ReadFileAtVersionHandler S T n p path h"
    "ListFilesHandler S' T n p path s = ListFilesHandler S T n p path s"
    "ListFilesSinceHandler S' T n p since = ListFilesSinceHandler S T n p since"
    "GetHistoryHandler S' T n p path limit since = GetHistoryHandler S T n p path limit since"
    "GetDiffHandler S' T n p path a b = GetDiffHandler S T n p path a b"
    "SearchFilesHandler S' T n p q i = SearchFilesHandler S T n p q i"
  by (simp_all add: fun_eq_iff assms summaries_same [OF assms(1)] Let_def ReadFileHandler_def ReadSummaryHandler_def ReadFileAtVersionHandler_def
      ListFilesHandler_def ListFilesSinceHandler_def GetHistoryHandler_def GetDiffHandler_def SearchFilesHandler_def
      split: prod.split sum.split)

lemma writers_same:
  assumes "\<And>ctx. ss_Write S' ctx (default_ns n) p = ss_Write S ctx (default_ns n) p"
    and "\<And>ctx. ss_Delete S' ctx (default_ns n) p = ss_Delete S ctx (default_ns n) p"
    and "\<And>ctx. ss_AppendToFile S' ctx (default_ns n) p = ss_AppendToFile S ctx (default_ns n) p"
    and "\<And>ctx. ss_PatchFile S' ctx (default_ns n) p = ss_PatchFile S ctx (default_ns n) p"
    and "\<And>ctx. ss_Move S' ctx (default_ns n) p = ss_Move S ctx (default_ns n) p"
  shows "WriteFileHandler S' T R n p path x m e = WriteFileHandler S T R n p path x m e"
    "DeleteFileHandler S' T R n p path m = DeleteFileHandler S T R n p path m"
    "AppendToFileHandler S' T R n p path x pos a m = AppendToFileHandler S T R n p path x pos a m"
    "PatchFileHandler S' T R n p path a b m = PatchFileHandler S T R n p path a b m"
    "MoveFileHandler S' T R n p a b m = MoveFileHandler S T R n p a b m"
  by (simp_all add: fun_eq_iff assms Let_def WriteFileHandler_def DeleteFileHandler_def AppendToFileHandler_def PatchFileHandler_def MoveFileHandler_def
      split: sum.split)

lemma admin_same:
  assumes "\<And>ctx. ss_ReviveFile S' ctx (default_ns n) p = ss_ReviveFile S ctx (default_ns n) p"
    and "ss_ResyncToHead S' (default_ns n) p = ss_ResyncToHead S (default_ns n) p"
    and "\<And>ctx. ss_CreateProjectCtx S' ctx (default_ns n) p = ss_CreateProjectCtx S ctx (default_ns n) p"
    and "\<And>ctx. ss_DeleteProject S' ctx (default_ns n) p = ss_DeleteProject S ctx (default_ns n) p"
    and "\<And>ctx. ss_RenameProject S' ctx (default_ns n) p = ss_RenameProject S ctx (default_ns n) p"
  shows "ReviveFileHandler S' T n p path h = ReviveFileHandler S T n p path h"
    "RecoverProjectHandler S' T n p = RecoverProjectHandler S T n p"
    "CreateProjectHandler S' T R n p = CreateProjectHandler S T R n p"
    "DeleteProjectHandler S' T R n p = DeleteProjectHandler S T R n p"
    "RenameProjectHandler S' T R n p q = RenameProjectHandler S T R n p q"
  by (simp_all add: fun_eq_iff assms Let_def ReviveFileHandler_def RecoverProjectHandler_def CreateProjectHandler_def DeleteProjectHandler_def RenameProjectHandler_def)

lemma super_same:
  assumes "IsSuperUser (req_scope R) \<Longrightarrow> ss_CreateNamespace S' = ss_CreateNamespace S"
    and "IsSuperUser (req_scope R) \<Longrightarrow> ss_DeleteNamespace S' = ss_DeleteNamespace S"
    and "IsSuperUser (req_scope R) \<Longrightarrow> ss_RenameNamespace S' = ss_RenameNamespace S"
    and "IsSuperUser (req_scope R) \<Longrightarrow> ss_MoveProject S' = ss_MoveProject S"
  shows "CreateNamespaceHandler S' T R n = CreateNamespaceHandler S T R n"
    "DeleteNamespaceHandler S' T R n = DeleteNamespaceHandler S T R n"
    "RenameNamespaceHandler S' T R n m = RenameNamespaceHandler S T R n m"
    "MoveProjectHandler S' T R n p m = MoveProjectHandler S T R n p m"
  using assms by (simp_all add: fun_eq_iff Let_def requireSuperUser_def CreateNamespaceHandler_def DeleteNamespaceHandler_def
      RenameNamespaceHandler_def MoveProjectHandler_def split del: if_split cong: if_cong)
    (simp_all split: if_split)

lemma recover_same:
  assumes "IsSuperUser (req_scope R) \<Longrightarrow> ss_DropMissingNamespace S' = ss_DropMissingNamespace S"
    and "p \<noteq> [] \<Longrightarrow> ss_DropMissingProject S' (default_ns n) p = ss_DropMissingProject S (default_ns n) p"
    and "p \<noteq> [] \<Longrightarrow> ss_CleanOrphanedSibling S' (default_ns n) p = ss_CleanOrphanedSibling S (default_ns n) p"
    and "p \<noteq> [] \<or> IsSuperUser (req_scope R) \<Longrightarrow> ss_AdoptForeign S' (default_ns n) p = ss_AdoptForeign S (default_ns n) p"
  shows "NamespaceRecoverHandler S' T R a n p = NamespaceRecoverHandler S T R a n p"
  using assms by (cases "p = []"; cases "IsSuperUser (req_scope R)")
    (simp_all add: fun_eq_iff Let_def requireSuperUser_def NamespaceRecoverHandler_def)

lemma copy_same:
  assumes "\<And>ctx. ss_Write S' ctx n p = ss_Write S ctx n p" "ss_ReadFileWithETag S' n p = ss_ReadFileWithETag S n p"
    and "Authorize (req_scope R) sn sp LevelRead = None \<Longrightarrow> ss_ReadFileWithETag S' sn sp = ss_ReadFileWithETag S sn sp"
  shows "CopyFileHandler S' T R sn sp spath n p path = CopyFileHandler S T R sn sp spath n p path"
proof -
  have "copy_write S' T R sn sp spath n p d x w = copy_write S T R sn sp spath n p d x w" for d x w
    by (simp add: copy_write_def assms(1))
  then have "copy_to S' T R sn sp spath n p d x w = copy_to S T R sn sp spath n p d x w" for d x w
    by (simp add: copy_to_def assms(2) split: prod.split sum.split)
  then show ?thesis using assms(3) by (cases "Authorize (req_scope R) sn sp LevelRead")
    (simp_all add: fun_eq_iff Let_def CopyFileHandler_def split: prod.split sum.split)
qed

lemma listings_same:
  assumes "ss_WALStatus S' = ss_WALStatus S"
  shows "GetServerInfoHandler S' T = GetServerInfoHandler S T"
  by (simp add: fun_eq_iff assms GetServerInfoHandler_def)

lemmas effects_same = file_readers_same [of "effects_within R c S D" _ _ S for R c S D] listings_same [of "effects_within R c S D" S for R c S D]
  writers_same [of "effects_within R c S D" _ _ S for R c S D] admin_same [of "effects_within R c S D" _ _ S for R c S D]
  super_same [of R "effects_within R c S D" S for R c S D] recover_same [of R "effects_within R c S D" S for R c S D]
  copy_same [of "effects_within R c S D" _ _ S for R c S D]

lemma effects_handler:
  assumes "Authorize (req_scope R) (fst (callTarget c)) (snd (callTarget c)) (toolLevel (tool_name c)) = None"
  shows "tool_handler (effects_within R c S D) T R c = tool_handler S T R c"
proof -
  have m: "may_call R c (default_ns (fst (callTarget c))) (snd (callTarget c)) k" if "k \<le> toolLevel (tool_name c)" for k
    using may_target [OF assms that refl] .
  have g: "may_call R c (fst (callTarget c)) (snd (callTarget c)) k" if "k \<le> toolLevel (tool_name c)" for k
    using may_call_granted [OF assms that] .
  have lists: "ListDeletedHandler (effects_within R x S D) T n p = ListDeletedHandler S T n p"
    "ListProjectsHandler (effects_within R x S D) T R n = ListProjectsHandler S T R n"
    "NamespaceHealthHandler (effects_within R x S D) R = NamespaceHealthHandler S R"
    "subscribe_tool (effects_within R x S D) T R raw = subscribe_tool S T R raw" for x n p raw
    by (simp_all add: fun_eq_iff ListDeletedHandler_def ListProjectsHandler_def NamespaceHealthHandler_def subscribe_tool_def Let_def)
  have recov: "may_call R x (default_ns n) p LevelAdmin \<Longrightarrow>
      NamespaceRecoverHandler (effects_within R x S D) T R a n p = NamespaceRecoverHandler S T R a n p" for x n p a
    by (rule recover_same) (auto simp: effects_sel)
  show ?thesis
    using m [of LevelWrite] m [of LevelAdmin] g [of LevelWrite]
    by (cases c) (simp_all add: effects_sel lists recov effects_same)
qed

text \<open>
  C5: every effect of a tool call is authorized: whatever the call, its answer and the state it leaves are the same when the
  operations of the service that change something are replaced, wherever the scope of the caller does not admit
  them, by any others: an edit of a file is asked only of a project on which the scope grants \<open>write\<close>; a revival, a resync, a
  creation, a deletion, a renaming, an adoption and a cleaning only of a project on which it grants \<open>admin\<close>; a move of a
  project and everything about a namespace as a whole only by a super-user.  The one exception is a call that leaves the
  namespace out, which goes to \<open>default\<close> on the strength of a grant anywhere.
\<close>

theorem tool_effects_authorized:
  "call_tool (effects_within R c S D) T R c st = call_tool S T R c st"
proof (cases "Authorize (req_scope R) (fst (callTarget c)) (snd (callTarget c)) (toolLevel (tool_name c))")
  case None
  from effects_handler [OF None, of S D T] show ?thesis by (simp add: call_tool_def AuthzMiddleware_def split_beta)
next
  case (Some e)
  then show ?thesis by (simp add: call_tool_def AuthzMiddleware_def split_beta)
qed

section \<open>Answers reveal what may be read\<close>

lemma reads_sel:
  "ss_ReadFileWithETag (reads_within R c S D) n p = ss_ReadFileWithETag (if may_call R c n p LevelRead then S else D) n p"
  "ss_StatModTime (reads_within R c S D) n p = ss_StatModTime (if may_call R c n p LevelRead then S else D) n p"
  "ss_ListFiles (reads_within R c S D) n p = ss_ListFiles (if may_call R c n p LevelRead then S else D) n p"
  "ss_GetHistory (reads_within R c S D) n p = ss_GetHistory (if may_call R c n p LevelRead then S else D) n p"
  "ss_ReadFileAtVersion (reads_within R c S D) n p = ss_ReadFileAtVersion (if may_call R c n p LevelRead then S else D) n p"
  "ss_DiffVersions (reads_within R c S D) n p = ss_DiffVersions (if may_call R c n p LevelRead then S else D) n p"
  "ss_ListFilesSince (reads_within R c S D) n p = ss_ListFilesSince (if may_call R c n p LevelRead then S else D) n p"
  "ss_SearchFiles (reads_within R c S D) n p = ss_SearchFiles (if may_call R c n p LevelRead then S else D) n p"
  "ss_ListDeleted (reads_within R c S D) n p = ss_ListDeleted (if may_call R c n p LevelAdmin then S else D) n p"
  "ss_ListProjects (reads_within R c S D) n = ss_ListProjects (if may_call R c n [] LevelRead \<or> is_subscribe c then S else D) n"
  "ss_ListAllProjects (reads_within R c S D) w = apfst (map_sum id (listed_for R)) (ss_ListAllProjects S w)"
  "ss_CheckAllHealth (reads_within R c S D) w = apfst (health_for R) (ss_CheckAllHealth S w)"
  by (simp_all add: reads_within_def)

lemma reads_effects [simp]:
  "ss_Write (reads_within R c S D) = ss_Write S" "ss_Delete (reads_within R c S D) = ss_Delete S"
  "ss_AppendToFile (reads_within R c S D) = ss_AppendToFile S" "ss_PatchFile (reads_within R c S D) = ss_PatchFile S"
  "ss_Move (reads_within R c S D) = ss_Move S" "ss_ReviveFile (reads_within R c S D) = ss_ReviveFile S"
  "ss_ResyncToHead (reads_within R c S D) = ss_ResyncToHead S" "ss_CreateProjectCtx (reads_within R c S D) = ss_CreateProjectCtx S"
  "ss_DeleteProject (reads_within R c S D) = ss_DeleteProject S" "ss_RenameProject (reads_within R c S D) = ss_RenameProject S"
  "ss_DropMissingProject (reads_within R c S D) = ss_DropMissingProject S"
  "ss_CleanOrphanedSibling (reads_within R c S D) = ss_CleanOrphanedSibling S" "ss_AdoptForeign (reads_within R c S D) = ss_AdoptForeign S"
  "ss_MoveProject (reads_within R c S D) = ss_MoveProject S" "ss_CreateNamespace (reads_within R c S D) = ss_CreateNamespace S"
  "ss_DeleteNamespace (reads_within R c S D) = ss_DeleteNamespace S" "ss_RenameNamespace (reads_within R c S D) = ss_RenameNamespace S"
  "ss_DropMissingNamespace (reads_within R c S D) = ss_DropMissingNamespace S" "ss_WALStatus (reads_within R c S D) = ss_WALStatus S"
  by (simp_all add: reads_within_def)

lemma listing_filtered:
  assumes "n = [] \<or> Authorize (req_scope R) n [] LevelRead = None"
  shows "ListProjectsHandler (reads_within R c S D) T R n = ListProjectsHandler S T R n"
proof (cases "n = []")
  case True
  have "filterProjectsByReadScope (req_scope R) (listed_for R ps) = filterProjectsByReadScope (req_scope R) ps" for ps
    by (simp add: filterProjectsByReadScope_def listed_for_def filter_filter)
  then show ?thesis using True by (simp add: fun_eq_iff ListProjectsHandler_def reads_sel split_beta split: sum.split)
next
  case False
  then have "may_call R c n [] LevelRead" using assms by (simp add: may_call_def)
  then show ?thesis using False by (simp add: fun_eq_iff ListProjectsHandler_def reads_sel)
qed

lemma health_filtered: "NamespaceHealthHandler (reads_within R c S D) R = NamespaceHealthHandler S R"
proof -
  have "filterHealthByAdminScope (health_for R r) (req_scope R) = filterHealthByAdminScope r (req_scope R)" for r
  proof (cases "IsSuperUser (req_scope R)")
    case False
    have "(Authorize (req_scope R) n [] LevelAdmin = None \<and> n \<in> set (fst (AdminNamespaces (req_scope R)))) \<longleftrightarrow>
        n \<in> set (fst (AdminNamespaces (req_scope R)))" for n using Authorize_admin by blast
    moreover have "\<not> snd (AdminNamespaces (req_scope R))" using False by (simp add: AdminNamespaces_def)
    ultimately show ?thesis using False
      by (simp add: filterHealthByAdminScope_def health_for_def split_beta filter_filter conj_commute cong: conj_cong)
  qed (simp add: health_for_def)
  then show ?thesis by (simp add: fun_eq_iff NamespaceHealthHandler_def reads_sel split_beta)
qed

lemmas reads_same = file_readers_same [of "reads_within R c S D" _ _ S for R c S D] listings_same [of "reads_within R c S D" S for R c S D]
  writers_same [of "reads_within R c S D" _ _ S for R c S D] admin_same [of "reads_within R c S D" _ _ S for R c S D]
  super_same [of R "reads_within R c S D" S for R c S D] recover_same [of R "reads_within R c S D" S for R c S D]
  copy_same [of "reads_within R c S D" _ _ S for R c S D]

lemma reads_handler:
  assumes "Authorize (req_scope R) (fst (callTarget c)) (snd (callTarget c)) (toolLevel (tool_name c)) = None"
  shows "tool_handler (reads_within R c S D) T R c = tool_handler S T R c"
proof -
  have m: "may_call R c (default_ns (fst (callTarget c))) (snd (callTarget c)) k" if "k \<le> toolLevel (tool_name c)" for k
    using may_target [OF assms that refl] .
  have g: "may_call R c (fst (callTarget c)) (snd (callTarget c)) k" if "k \<le> toolLevel (tool_name c)" for k
    using may_call_granted [OF assms that] .
  have src: "Authorize (req_scope R) sn sp LevelRead = None \<Longrightarrow> may_call R x sn sp LevelRead" for x sn sp
    by (simp add: may_call_def)
  have del: "may_call R x (default_ns n) p LevelAdmin \<Longrightarrow> ListDeletedHandler (reads_within R x S D) T n p = ListDeletedHandler S T n p" for x n p
    by (simp add: fun_eq_iff ListDeletedHandler_def reads_sel Let_def)
  have sub: "is_subscribe x \<Longrightarrow> subscribe_tool (reads_within R x S D) T R raw = subscribe_tool S T R raw" for x raw
    by (simp add: fun_eq_iff subscribe_tool_def reads_sel)
  have list: "ListProjectsHandler (reads_within R c S D) T R n = ListProjectsHandler S T R n" if "c = CallListProjects n" for n
    by (rule listing_filtered) (use assms that in simp)
  show ?thesis
    using m [of LevelRead] m [of LevelAdmin] g [of LevelRead] list
    by (cases c) (simp_all add: reads_sel src del sub health_filtered reads_same)
qed

text \<open>
  C6: the answer of a tool call reveals only what its caller may read: whatever the call, its answer and the state it leaves
  are the same when the reading operations of the service are replaced, wherever the scope of the caller does not admit them,
  by any others: files, history, searches and the listing of a namespace are asked for only where it grants
  \<open>read\<close>, deleted files where it grants \<open>admin\<close>; and when the listing of all projects is cut down beforehand to the
  namespaces it may read, and the report on the health of the namespaces to those it administers (the whole report for a
  super-user).  Two exceptions: a call that leaves the namespace out reads \<open>default\<close> on the strength of a grant anywhere,
  and \<open>subscribe\<close> lists the projects of any namespace.  The counters of \<open>get_server_info\<close> are not about a project.
\<close>

theorem tool_reads_authorized:
  "call_tool (reads_within R c S D) T R c st = call_tool S T R c st"
proof (cases "Authorize (req_scope R) (fst (callTarget c)) (snd (callTarget c)) (toolLevel (tool_name c))")
  case None
  from reads_handler [OF None, of S D T] show ?thesis by (simp add: call_tool_def AuthzMiddleware_def split_beta)
next
  case (Some e)
  then show ?thesis by (simp add: call_tool_def AuthzMiddleware_def split_beta)
qed

text \<open>
  a file is copied only out of a project the caller may read and into one it may write, and never over a file.
\<close>

theorem copy_source_readable:
  assumes "call_tool S T R (CallCopyFile n p path sn sp spath) (w, m) = ((None, out), w', m')"
  shows "Authorize (req_scope R) sn sp LevelRead = None \<and> Authorize (req_scope R) n p LevelWrite = None \<and>
     (\<exists>content etag w1 e w2 tag. ss_ReadFileWithETag S sn sp spath w = (Inr (content, etag), w1) \<and>
        ss_ReadFileWithETag S n p (if path = [] then path_Base spath else path) w1 = (Inl e, w2) \<and>
        ss_Write S (write_ctx R) n p (if path = [] then path_Base spath else path) content (Some etagAbsent) w2 = (Inr tag, w'))"
proof -
  have auth: "Authorize (req_scope R) n p LevelWrite = None"
    and h: "CopyFileHandler S T R sn sp spath n p path w = ((None, out), w')"
    using assms by (auto simp: call_tool_def AuthzMiddleware_def on_service_def errResult_def split: option.splits prod.splits)
  let ?d = "if path = [] then path_Base spath else path"
  have read: "Authorize (req_scope R) sn sp LevelRead = None"
    and h2: "(case ss_ReadFileWithETag S sn sp spath w of
        (Inl e, w1) \<Rightarrow> (errResult (''failed to read source file: '' @ err_text T e), w1)
      | (Inr (content, _), w1) \<Rightarrow> copy_to S T R sn sp spath n p ?d content w1) = ((None, out), w')"
    using h by (simp_all add: CopyFileHandler_def errResult_def split: if_splits)
  from h2 obtain content etag w1 where src: "ss_ReadFileWithETag S sn sp spath w = (Inr (content, etag), w1)"
    and h3: "copy_to S T R sn sp spath n p ?d content w1 = ((None, out), w')"
    by (auto simp: errResult_def split: prod.splits sum.splits)
  from h3 obtain e w2 where dst: "ss_ReadFileWithETag S n p ?d w1 = (Inl e, w2)"
    and h4: "copy_write S T R sn sp spath n p ?d content w2 = ((None, out), w')"
    unfolding copy_to_def by (auto simp: errResult_def split: prod.splits sum.splits if_splits)
  from h4 obtain tag where "ss_Write S (write_ctx R) n p ?d content (Some etagAbsent) w2 = (Inr tag, w')"
    unfolding copy_write_def
    by (cases "ss_Write S (write_ctx R) n p ?d content (Some etagAbsent) w2"; cases "fst (ss_Write S (write_ctx R) n p ?d content (Some etagAbsent) w2)")
      (auto simp: errResult_def split: storage_error.splits op_error.splits option.splits prod.splits)
  with auth read src dst show ?thesis by blast
qed

section \<open>Where the authorization is not what the comments say\<close>

text \<open>
  a call that leaves the namespace out is authorized at the highest level the caller holds anywhere, and
  carried out in the namespace \<open>default\<close>: whoever may write in one project may delete files of every project there.
\<close>

theorem omitted_namespace_unchecked:
  assumes "Authorize (req_scope R) n q LevelWrite = None"
  shows "call_tool S T R (CallDeleteFile [] p path m) st = tool_handler S T R (CallDeleteFile ''default'' p path m) st"
proof -
  have "matches g n q \<Longrightarrow> matches g [] p" for g by (simp add: matches_def split: if_splits)
  with assms have "Authorize (req_scope R) [] p LevelWrite = None" unfolding Authorize_None EffectiveLevel_ge by blast
  moreover have "DeleteFileHandler S T R [] p path m = DeleteFileHandler S T R ''default'' p path m"
    by (rule ext) (simp add: DeleteFileHandler_def default_ns_def)
  ultimately show ?thesis by (simp add: call_tool_def AuthzMiddleware_def)
qed

text \<open>
  a session subscribes to any project that exists, whatever its scope: the pattern is not a routing argument, so that the
  middleware sees a call without a target, and the handler checks no scope.
\<close>

theorem subscribe_unscoped:
  assumes "Authorize (req_scope R) n q LevelRead = None" "mcp_session R = Some sid"
    and "parsePattern raw = Inr pt" "resolves (\<lambda>ns. fst (ss_ListProjects S ns w)) pt = None"
  shows "\<exists>ps m'. call_tool S T R (CallSubscribe raw) (w, m) = ((None, SubscribeOutput True raw ps), w, m')"
proof -
  have "matches g n q \<Longrightarrow> matches g [] []" for g by (simp add: matches_def split: if_splits)
  with assms(1) have a: "Authorize (req_scope R) [] [] LevelRead = None" unfolding Authorize_None EffectiveLevel_ge by blast
  have r: "pt_raw pt = raw" using assms(3) by (auto simp: parsePattern_def Let_def split: if_splits)
  show ?thesis using a assms(2-4) r
    by (simp add: call_tool_def AuthzMiddleware_def subscribe_tool_def SubscribeHandler_def okResult_def split: prod.split)
qed

text \<open>
  the context of an append or a patch carries the agent but not the authenticated principal: the same caller is the
  committer of its writes and not of its partial edits, which are recorded under the configured operator.
\<close>

theorem edits_lose_committer:
  assumes "mq_Principal R = Some pr" "pr_Name pr \<noteq> []"
  shows "ci_UserName (Resolve (cc_identity (write_ctx R)) d) = pr_Name pr \<and>
     ci_UserName (Resolve (cc_identity (edit_ctx R)) d) = df_UserName d"
proof -
  have "ci_UserName (resolve_agent ag idn) = ci_UserName idn" for ag idn
    by (simp add: resolve_agent_def Let_def split: option.split)
  then show ?thesis
    using assms by (simp add: write_ctx_def edit_ctx_def withWriteIdentity_def no_identity_def WithAgent_def WithCommitter_def Resolve_def Let_def)
qed

text \<open>
  a copy creates files that \<open>write_file\<close> refuses: only \<open>write_file\<close> checks the format of the path.
\<close>

theorem copy_skips_allowlist:
  assumes "Authorize (req_scope R) sn sp LevelRead = None" "Authorize (req_scope R) n p LevelWrite = None"
    and "IsValidName sn" "IsValidName sp" "IsValidName n" "IsValidName p" "spath \<noteq> []" "path \<noteq> []"
    and "ss_ReadFileWithETag S sn sp spath w = (Inr (content, etag), w1)"
    and "ss_ReadFileWithETag S n p path w1 = (Inl e, w2)" "index_sub (err_text T e) ''no such file'' \<noteq> None"
    and "ss_Write S (write_ctx R) n p path content (Some etagAbsent) w2 = (Inr tag, w3)"
    and "\<not> IsAllowedFormat (te_lower T) path"
  shows "snd (call_tool S T R (CallCopyFile n p path sn sp spath) (w, m)) = (w3, m) \<and>
     fst (fst (call_tool S T R (CallCopyFile n p path sn sp spath) (w, m))) = None \<and>
     call_tool S T R (CallWriteFile n p path content None []) (w2, m) =
       ((Some ''format_rejected'', WriteFileOutput [] [] False [] ''format_rejected''), w2, m)"
  using assms IsValidName_nonempty [OF assms(3)] IsValidName_nonempty [OF assms(4)] IsValidName_nonempty [OF assms(5)]
    IsValidName_nonempty [OF assms(6)]
  by (simp add: call_tool_def AuthzMiddleware_def on_service_def CopyFileHandler_def copy_to_def copy_write_def okResult_def errResult_def
      WriteFileHandler_def DecodeContent_def default_ns_def Let_def)

section \<open>The listing\<close>

lemma core_rank_bounds: "core_rank name \<le> 8" "core_rank name = 8 \<longleftrightarrow> name \<notin> set coreToolOrder"
  by (auto simp: core_rank_def coreToolOrder_def)

lemma sorted_const: "(\<And>x. x \<in> set xs \<Longrightarrow> f x = c) \<Longrightarrow> sorted (map f xs)" for c :: nat
  by (induction xs) auto

lemma sorted_blocks: "sorted (map f ks) \<Longrightarrow> sorted (map f (concat (map (\<lambda>k. filter (\<lambda>t. t = k) xs) ks)))" for f :: "'a \<Rightarrow> nat"
  by (induction ks) (auto simp: sorted_append intro: sorted_const)

text \<open>
  the listing puts the eight core tools first, in the fixed order, and keeps the order of all others; no tool is lost or added.
\<close>

theorem listing_core_first:
  "reorderCoreFirst names =
     concat (map (\<lambda>core. filter (\<lambda>t. t = core) names) coreToolOrder) @ filter (\<lambda>t. t \<notin> set coreToolOrder) names"
proof -
  let ?r = "concat (map (\<lambda>core. filter (\<lambda>t. t = core) names) coreToolOrder) @ filter (\<lambda>t. t \<notin> set coreToolOrder) names"
  have inj: "core_rank x = core_rank y \<Longrightarrow> x \<in> set coreToolOrder \<Longrightarrow> x = y" for x y
    by (auto simp: core_rank_def coreToolOrder_def split: if_splits)
  have m: "mset ?r = mset names"
    by (rule multiset_eqI) (auto simp: coreToolOrder_def count_mset filter_filter)
  have f: "filter (\<lambda>x. core_rank k = core_rank x) ?r = filter (\<lambda>x. core_rank k = core_rank x) names" for k
  proof (cases "k \<in> set coreToolOrder")
    case True
    then have "(\<lambda>x. core_rank k = core_rank x) = (\<lambda>x. x = k)" using inj by fastforce
    with True show ?thesis by (auto simp: coreToolOrder_def filter_empty_conv)
  next
    case False
    then have "(\<lambda>x. core_rank k = core_rank x) = (\<lambda>x. x \<notin> set coreToolOrder)"
      using core_rank_bounds(2) by metis
    then show ?thesis by (simp add: coreToolOrder_def)
  qed
  have "sorted (map core_rank coreToolOrder)" by code_simp
  note b = sorted_blocks [OF this, of names]
  have tail: "sorted (map core_rank (filter (\<lambda>t. t \<notin> set coreToolOrder) names))"
    by (rule sorted_const [of _ _ 8]) (simp add: core_rank_bounds)
  have "core_rank y \<le> core_rank x" if "x \<notin> set coreToolOrder" for x y
    using that core_rank_bounds(1) [of y] core_rank_bounds(2) [of x] by simp
  with b tail have s: "sorted (map core_rank ?r)" by (auto simp: sorted_append)
  show ?thesis unfolding reorderCoreFirst_def by (rule properties_for_sort_key [OF m f s])
qed

section \<open>Instances\<close>

definition demo_req :: "string \<Rightarrow> mcp_req" where
  "demo_req scope = \<lparr>mq_Session = Some (''s1'', None, None),
     mq_Principal = Some \<lparr>pr_Name = ''ann'', pr_Email = ''ann@x'', pr_ClientID = ''c'', pr_Scope = scope\<rparr>\<rparr>"

lemma demo_scope [simp]: "req_scope (demo_req scope) = scope" "mcp_session (demo_req scope) = Some ''s1''"
  by (simp_all add: req_scope_def demo_req_def mcp_session_def)

text \<open>The namespace \<open>a\<close> is granted, the namespace \<open>b\<close> and the default one are not.\<close>

lemma demo_grants:
  "Authorize ''namespace:a:rw'' ''a'' ''p'' LevelWrite = None" "Authorize ''namespace:a:rw'' ''a'' ''p'' LevelRead = None"
  "Authorize ''namespace:a:rw'' ''default'' ''p'' LevelWrite \<noteq> None" "Authorize ''namespace:a:rw'' ''b'' ''q'' LevelRead \<noteq> None"
  "Authorize ''namespace:a:admin'' ''a'' ''p'' LevelAdmin = None"
  by code_simp+

text \<open>A service whose operations all refuse.\<close>

definition refusing :: storage_error where
  "refusing = OtherErr ''unavailable''"

definition files_only :: "'w storage_service" where
  "files_only = \<lparr>
     ss_ReadFileWithETag = (\<lambda>n p path w. (Inl refusing, w)), ss_StatModTime = (\<lambda>n p path w. (Inl refusing, w)),
     ss_Write = (\<lambda>ctx n p path c m w. (Inl refusing, w)), ss_Delete = (\<lambda>ctx n p path m w. (Some refusing, w)),
     ss_AppendToFile = (\<lambda>ctx n p path c pos a m w. (Inl refusing, w)), ss_PatchFile = (\<lambda>ctx n p path x y m w. (Inl refusing, w)),
     ss_Move = (\<lambda>ctx n p a b m w. (Inl refusing, w)), ss_ListFiles = (\<lambda>n p path w. (Inl refusing, w)),
     ss_GetHistory = (\<lambda>n p path limit w. (Inl refusing, w)), ss_ReadFileAtVersion = (\<lambda>n p path h w. (Inl refusing, w)),
     ss_DiffVersions = (\<lambda>n p path a b w. (Inl refusing, w)), ss_ListFilesSince = (\<lambda>n p since w. (Inl refusing, w)),
     ss_SearchFiles = (\<lambda>n p q i w. (Inl refusing, w)), ss_ListDeleted = (\<lambda>n p w. (Inl refusing, w)),
     ss_ReviveFile = (\<lambda>ctx n p path h w. (Some refusing, w)), ss_ProjectPath = (\<lambda>n p w. (Inl refusing, w)),
     ss_WALStatus = (\<lambda>w. ((0, False, 0), w)), ss_ResyncToHead = (\<lambda>n p w. (Inl refusing, w)),
     ss_ListProjects = (\<lambda>n w. (Inl refusing, w)), ss_ListAllProjects = (\<lambda>w. (Inl refusing, w)),
     ss_CreateProjectCtx = (\<lambda>ctx n p w. (Some refusing, w)), ss_DeleteProject = (\<lambda>ctx n p w. (Some refusing, w)),
     ss_RenameProject = (\<lambda>ctx n p q w. (Some refusing, w)), ss_MoveProject = (\<lambda>ctx n p m w. (Some refusing, w)),
     ss_CreateNamespace = (\<lambda>n w. (Some refusing, w)), ss_DeleteNamespace = (\<lambda>ctx n w. (Some refusing, w)),
     ss_RenameNamespace = (\<lambda>ctx n m w. (Some refusing, w)),
     ss_CheckAllHealth = (\<lambda>w. (\<lparr>hr_Namespaces = [], hr_ForeignNamespaces = []\<rparr>, w)),
     ss_DropMissingNamespace = (\<lambda>n w. (Some refusing, w)), ss_DropMissingProject = (\<lambda>n p w. (Some refusing, w)),
     ss_CleanOrphanedSibling = (\<lambda>n p w. (Some refusing, w)), ss_AdoptForeign = (\<lambda>n p w. (Some refusing, w))\<rparr>"

definition demo_tools :: tool_env where
  "demo_tools = \<lparr>te_text = (\<lambda>e. ''no such file''), te_sub_text = (\<lambda>e. []), te_time = (\<lambda>t. []), te_parse_time = (\<lambda>s. None),
     te_yaml = (\<lambda>s. None), te_lower = (\<lambda>r. r), te_ExternalURL = [], te_HTTPListen = [], te_MCPListen = [], te_StorageBaseDir = []\<rparr>"

text \<open>A service over one flag: the source has content, the destination appears with the write.\<close>

definition demo_flag :: "bool storage_service" where
  "demo_flag = files_only\<lparr>
     ss_ReadFileWithETag := (\<lambda>n p path w. if w \<or> path = ''s.md'' then (Inr (''x'', ''e''), w) else (Inl (OpErr ReadError), w)),
     ss_Write := (\<lambda>ctx n p path c m w. (Inr ''e'', True))\<rparr>"

lemma demo_copied:
  "call_tool demo_flag demo_tools (demo_req ''namespace:a:rw'') (CallCopyFile ''a'' ''p'' ''t.exe'' ''a'' ''p'' ''s.md'') (False, m) =
     ((None, CopyFileOutput ''File copied from a/p/s.md to a/p/t.exe'' ''e''), True, m)"
proof -
  have v: "IsValidName ''a''" "IsValidName ''p''" by code_simp+
  have i: "index_sub ''no such file'' ''no such file'' = Some 0" by code_simp
  show ?thesis using demo_grants(1,2) v i
    by (simp add: call_tool_def AuthzMiddleware_def on_service_def CopyFileHandler_def copy_to_def copy_write_def demo_flag_def demo_tools_def okResult_def)
qed

theorem copy_source_readable_witness:
  "Authorize ''namespace:a:rw'' ''a'' ''p'' LevelRead = None \<and> Authorize ''namespace:a:rw'' ''a'' ''p'' LevelWrite = None"
  using copy_source_readable [OF demo_copied] by simp

theorem copy_skips_allowlist_witness:
  "\<forall>m. call_tool demo_flag demo_tools (demo_req ''namespace:a:rw'') (CallWriteFile ''a'' ''p'' ''t.exe'' ''x'' None []) (False, m) =
     ((Some ''format_rejected'', WriteFileOutput [] [] False [] ''format_rejected''), False, m)"
proof -
  have v: "IsValidName ''a''" "IsValidName ''p''" by code_simp+
  have "filepath_Ext ''t.exe'' = ''.exe''" by code_simp
  moreover have "go_ToLower (\<lambda>r. r) ''.exe'' = ''.exe''"
    by (simp add: go_ToLower_def runes_def rune_string_def encode_rune_def valid_rune_def char_of_def bit_iff_odd)
  ultimately have f: "\<not> IsAllowedFormat (te_lower demo_tools) ''t.exe''"
    by (simp add: IsAllowedFormat_def demo_tools_def allowedExts_def)
  have i: "index_sub (err_text demo_tools (OpErr ReadError)) ''no such file'' \<noteq> None" unfolding demo_tools_def by code_simp
  have s: "ss_ReadFileWithETag demo_flag ''a'' ''p'' ''s.md'' False = (Inr (''x'', ''e''), False)"
    "ss_ReadFileWithETag demo_flag ''a'' ''p'' ''t.exe'' False = (Inl (OpErr ReadError), False)"
    "ss_Write demo_flag (write_ctx (demo_req ''namespace:a:rw'')) ''a'' ''p'' ''t.exe'' ''x'' (Some etagAbsent) False = (Inr ''e'', True)"
    by (simp_all add: demo_flag_def)
  show ?thesis
    using copy_skips_allowlist [of "demo_req ''namespace:a:rw''", OF _ _ v(1,2) v(1,2) _ _ s(1,2) i s(3) f] demo_grants(1,2) by simp
qed

theorem omitted_namespace_unchecked_witness:
  "Authorize ''namespace:a:rw'' ''default'' ''p'' LevelWrite \<noteq> None \<and>
   (\<forall>st. call_tool demo_flag demo_tools (demo_req ''namespace:a:rw'') (CallDeleteFile [] ''p'' ''f.md'' None) st =
      tool_handler demo_flag demo_tools (demo_req ''namespace:a:rw'') (CallDeleteFile ''default'' ''p'' ''f.md'' None) st)"
  using omitted_namespace_unchecked [of "demo_req ''namespace:a:rw''" "''a''" "''p''" demo_flag demo_tools] demo_grants(1,3) by simp

definition demo_listing :: "unit storage_service" where
  "demo_listing = files_only\<lparr>ss_ListProjects := (\<lambda>n w. (Inr [''p''], w))\<rparr>"

theorem subscribe_unscoped_witness:
  "Authorize ''namespace:a:rw'' ''n'' ''p'' LevelRead \<noteq> None \<and>
   (\<exists>ps m'. call_tool demo_listing demo_tools (demo_req ''namespace:a:rw'') (CallSubscribe ''n/p/d'') ((), sub_run (=) [] 5) =
      ((None, SubscribeOutput True ''n/p/d'' ps), (), m'))"
proof -
  have "Authorize ''namespace:a:rw'' ''n'' ''p'' LevelRead \<noteq> None" by code_simp
  moreover have "resolves (\<lambda>ns. fst (ss_ListProjects demo_listing ns ())) demo_pattern = None"
    unfolding demo_pattern_def by (simp add: resolves_def namespaceProject_def cut_before_def cut_after_def demo_listing_def)
  ultimately show ?thesis
    using subscribe_unscoped [of "demo_req ''namespace:a:rw''" "''a''" "''p''" "''s1''", OF _ _ demo_parsed] demo_grants(2) by simp
qed

theorem edits_lose_committer_witness:
  "ci_UserName (Resolve (cc_identity (write_ctx (demo_req ''*''))) (oc_defaults demo_cfg)) = ''ann'' \<and>
   ci_UserName (Resolve (cc_identity (edit_ctx (demo_req ''*''))) (oc_defaults demo_cfg)) = df_UserName (oc_defaults demo_cfg)"
  using edits_lose_committer [of "demo_req ''*''" _ "oc_defaults demo_cfg"] by (simp add: demo_req_def)

end
