(* ===== verification/Spec2Isabelle.thy ===== *)
theory Spec2Isabelle
  imports Authz File_Lock Write_Path OAuth_Instances Project_Admin Tool_Auth
begin

text \<open>
  Shoka is a server that keeps projects of Markdown files in git repositories and serves them to agents
  (MCP) and to a web interface.  This library models its storage engine and its account and token stores
  and proves what makes them correct.

  The program.  A client call reaches the storage engine (\<open>src/internal/storage\<close>).  A write takes the
  locks of its paths (\<open>filelock\<close>), checks the expected version, appends an entry to the write-ahead log
  (\<open>wal\<close>), changes the working tree and the derived stores (\<open>catalog\<close>, \<open>index\<close>, \<open>vectorindex\<close>) and
  returns; a pool of workers (\<open>walworker\<close>) takes the entries of each project in order and commits them to
  git (\<open>commit.go\<close>, \<open>refwrite.go\<close>), which also feeds the log of deleted paths (\<open>deletedlog\<close>).  Projects
  and namespaces are created, moved, renamed and deleted as wholes (\<open>projectlifecycle.go\<close> and its
  siblings) over the base directory, the managed registry (\<open>nsregistry\<close>) and the scopes of the accounts
  and tokens (\<open>userstore\<close>, \<open>oauthstore\<close>, \<open>scopeclean\<close>).  What a caller may do is decided from its scope
  (\<open>authz\<close>).

  Theories, from the bottom up.

  \<^item> \<open>KV\<close>, \<open>Go_Strings\<close>, \<open>Go_Runes\<close>, \<open>Go_Codec\<close>: association lists by key, the string functions of Go's library
    that the source calls, UTF-8 decoding with Go's replacement rule, SHA-256 and FNV-1a.  The collections
    of rewrite rules that the other theories share are here.
  \<^item> \<open>Bolt\<close>, \<open>Bolt_Tx\<close>, \<open>Record_Store\<close>: bbolt as a record of its calls with their contract (\<open>bolt_ok\<close>), transactions
    that write nothing on an error, a handle whose commit fails (\<open>faulty\<close>), a handle that does not
    (\<open>bolt_works\<close>), and the locale of a store of one record per key.  \<open>mem_bolt\<close> is the instance on which
    the locales are interpreted and the witnesses computed.
  \<^item> \<open>Names\<close> (\<open>internal/utils/validation.go\<close>), \<open>Paths\<close> (\<open>normalizePath\<close> and the path splits of the catalog).
  \<^item> \<open>Authz\<close> (\<open>pkg/authz\<close>): scopes, the decision, the four edits of a scope.  The edits meet the locale
    \<open>scope_edit\<close>; the lemmas say which grants survive and what they become.
  \<^item> \<open>File_Lock\<close>: the striped locks as an \<open>inductive\<close> step relation over threads; mutual exclusion, ascending
    acquisition and hence no deadlock, leases and the reaper as invariants of the reachable states.
  \<^item> \<open>Wal\<close>, \<open>Wal_Worker\<close>: the log directory as files of bytes or records, with a fault for each system call;
    durability, crash atomicity, restart; the processing of one entry with its retries and quarantine and
    the pool as a step relation.
  \<^item> \<open>Catalog\<close>, \<open>Search_Index\<close>, \<open>Vector_Index\<close>, \<open>Deleted_Log\<close>: the derived stores as maps, their clean-up,
    their filters and caps.
  \<^item> \<open>Work_Tree\<close>, \<open>Write_Path\<close>: the system calls on one project's tree; write, append, patch, delete, move, read and
    version as critical sections, and that the log follows the tree.
  \<^item> \<open>Git_Tree\<close>, \<open>Commit\<close>, \<open>Commit_Identity\<close>, \<open>Op_Meta\<close>, \<open>Ref_Write\<close>, \<open>Partial_Edit\<close>: blobs and trees over an abstract object store, the
    commit of one entry, who it is attributed to, its trailer, the atomic write of a reference, the splices.
  \<^item> \<open>Ns_Registry\<close>: the managed registry as a map from namespaces to sets of names, with the operation journal.
  \<^item> \<open>User_Store\<close>: accounts, sessions and invitations as three maps.
  \<^item> \<open>OAuth_Store\<close>, \<open>OAuth_Tokens\<close>: codes, token series and their access and refresh handles, clients, registrations
    and domain entries; a reference table that every operation follows, the invariant that handles and
    series stay linked, and what revocation, rotation and single use mean over any history.
  \<^item> \<open>OAuth_Endpoints\<close>, \<open>OAuth_Admin\<close> (\<open>pkg/oauth\<close>, \<open>pkg/serverurl\<close>, \<open>uiws/core_oauth.go\<close>): the handlers of the authorization
    server and of its administration over the token store, each call of the store in a transaction of its
    own with the effect of other requests before it.  \<open>OAuth_Flow\<close>: what a code, a token, a redirect and a
    registration require; \<open>Client_Fetch\<close>: which addresses a client's document is fetched from; \<open>OAuth_Trace\<close>: every
    token traces back to a consent; \<open>OAuth_Instances\<close>: a server on which these theorems are applied, and two
    histories in which a revocation leaves a usable token behind.
  \<^item> \<open>Scope_Clean\<close>: edits of scopes across both stores, under the failure of either; locale \<open>scope_rewriter\<close>.
  \<^item> \<open>Base_Dir\<close>, \<open>Project_Life\<close>, \<open>Project_Recovery\<close>, \<open>Project_Admin\<close>: the base directory and what counts as a project in it; the
    operations on projects and namespaces, the special ones (move, the two renames) with every durable
    state they pass through; that these are all or nothing over any crashes; creation, deletion, adoption.
  \<^item> \<open>Notify_Center\<close>, \<open>Subscriptions\<close> (\<open>internal/notify\<close>, \<open>tools/subscribe.go\<close>): the ring of recent events; the
    patterns of the sessions, which events reach which queue, and that this survives any history of subscriptions.
    \<open>Markdown_Summary\<close> (\<open>internal/markdown\<close>): the summary of a document and the bound on its excerpt.
  \<^item> \<open>Tool_Service\<close>, \<open>Tool_Handlers\<close>, \<open>Tool_Calls\<close> (\<open>internal/tools\<close>, \<open>internal/ingest\<close>): the storage service as the MCP tools
    see it, one handler per tool, the middleware that authorizes a call and the dispatch.  \<open>Tool_Auth\<close>: for any
    service whatever, that a call asks it to change and to read only what the scope of its caller grants, with the
    calls for which that does not hold.
  \<^item> This theory: the properties that span the write path and the commits.

  Conventions.  A bbolt value is the record whose encoding it is, a log entry file likewise, so encoding
  and decoding are not modelled but for the trailer and the splices; a row of the wrong kind is a
  decoding error.  Times are integers (nanoseconds where the code has them), 64-bit arithmetic is written
  out where it can wrap (\<open>EffectiveTTL\<close>, counters, hashes).  Errors are constructors of an error type per
  component.  The contents of files are byte strings.

  Parameters and hypotheses.  \<open>bolt_ok\<close>: what bbolt documents of buckets, keys and transactions.
  \<open>git_ok\<close>, \<open>head_ok\<close>, \<open>libs_ok\<close>: what go-git documents of objects and references.  \<open>init_ok\<close>, \<open>catalog_opens\<close>: what creation
  needs of \<open>PlainInit\<close> and of opening a database.  The folding of letters (\<open>lower\<close>, \<open>ufold\<close>) and \<open>parse_url\<close>
  are tables and functions of Go's library, as are \<open>ParseIP\<close>, \<open>SplitHostPort\<close> and the JSON decoders of a request; name
  resolution and the GET of a document are functions (\<open>cimd_net\<close>); so are \<open>path.Match\<close> (\<open>glob\<close>), the decoder of YAML and
  the texts of errors and times (\<open>tool_env\<close>).  The storage service behind the tools is an argument of the handlers, of
  which nothing is assumed.  What other requests do to the store between
  two calls of a handler is any function that keeps the store well formed (\<open>others_ok\<close>), or that in addition
  issues nothing (\<open>issues_nothing\<close>).  Random handles are arguments; a history that relies on new
  handles says so (\<open>all_fresh\<close>).  Each has an instance, on which the witnesses are computed.

  Faults.  These are arguments of the call, and a theorem holds for every choice of them unless it names one: every system
  call of the log that changes it, and its reading and removing of an entry; in the write path the reads of the content
  that an edit starts from, of the target of a move and of a version, the making of directories, the write, the rename, the
  removals, and the commits of the derived stores; in a commit the reads of the head and of its commit and each write; in
  the operations on projects the renames, the removals (of strays and siblings too), the reading of directories, every commit of the
  registry and of the stores of scopes; commits of the token store; the callbacks of the workers.  Not injected are the answers of \<open>stat\<close>
  and the reads inside a bbolt transaction, which follow the state.  The code calls no
  \<open>fsync\<close>: what the operating system loses at a power failure is not modelled.

  Termination.  Every loop is a structural recursion or a \<open>function\<close> with its measure; no fuel is used.  The
  retries of a worker are bounded by its configuration, which is proved.

  Not modelled.  Process start-up, flags and wiring (\<open>cmd\<close>); HTTP, WebSocket and MCP framing and the JSON of
  their messages; the web interface; log output and metrics, which no operation reads;
  goroutine scheduling outside the locks and the pool, whose interleavings are step relations; password
  hashing, TOTP and WebAuthn, calls into libraries; embeddings and the language models of the librarian;
  the in-memory handles of a project, which only cache the files modelled here.  The listing and history
  calls only read the stores; the health checks, snapshots and the rewriting of links act on the results of
  \<open>go-git\<close> and of a Markdown parser, which are outside this repository.
\<close>

section \<open>From the working tree to git\<close>

lemma all_committed:
  assumes "libs_ok L" "project_ok L p" "list_all (call_ok \<circ> fst) calls" "list_all entry_ok (map snd calls)"
    and "run_commits L D K calls p = (map snd calls, p')" "list_all (reads_head \<circ> fst) calls"
  shows "head_files L p' = fold (entry_effect (cl_git L)) (map snd calls) (head_files L p)"
proof -
  have "calls_ok calls" using assms(3,4) by (auto simp: calls_ok_def list_all_iff)
  from run_commits_read [OF assms(1,2) this assms(5,6)] show ?thesis by simp
qed

text \<open>
  C1: what the clients wrote is what git records: start from a project whose head agrees with its
  working tree, run any operations of which none failed in the log or in a removal, and commit every
  entry they made durable, in order, with no failing read of the head (the code takes one for a project
  without commits); then the files of the head agree with the working tree again,
  for every path outside the git directory.
\<close>

theorem git_follows_tree:
  assumes "libs_ok L" "project_ok L p" "list_all plain_comp (oc_base C)" "wt_ok (w_tree w)"
    and "agrees (cl_git L) (w_tree w) (head_files L p)"
    and "run_ops C ns pr xs w = (rs, es, w')" "\<not> list_ex split_error rs"
    and "run_commits L D K calls p = (es, p')" "map snd calls = es" "list_all (call_ok \<circ> fst) calls"
    and "list_all (reads_head \<circ> fst) calls"
  shows "agrees (cl_git L) (w_tree w') (head_files L p')"
proof -
  note ops = run_ops_agrees [OF assms(3,4,5,6,7)]
  have "head_files L p' = fold (entry_effect (cl_git L)) es (head_files L p)"
    using all_committed [OF assms(1,2,10)] ops assms(8,9,11) by simp
  with ops show ?thesis by simp
qed

definition empty_world :: "(cat_row mem_db, index_row mem_db, vec_row mem_db) world" where
  "empty_world = demo_world\<lparr>w_tree := [([''.git''], DirNode)]\<rparr>"

lemma empty_world_write:
  obtains w' e where "run_ops demo_cfg ''n'' ''p'' [(demo_env, OpWriteFile ''d/a'' ''x'' None)] empty_world = ([None], [e], w')"
    "file_at (w_tree w') [''d'', ''a''] = Some ''x''" "e_Op e = ''write''" "e_Path e = ''d/a''" "e_Content e = ''x''"
proof -
  let ?t = "[([''.git''], DirNode)] :: wtree"
  have r: "relWithin [''srv'', ''n'', ''p''] ''d/a'' = Some ([''d'', ''a''], ''d/a'')" by code_simp
  have cw: "checkWritable demo_cfg demo_env empty_world = (None, empty_world)"
  proof -
    have "hasGitRepo ?t" by code_simp
    then show ?thesis
      by (simp add: checkWritable_def repo_and_room_def empty_world_def demo_world_def demo_cfg_def PendingCount_def empty_log_def)
  qed
  obtain t1 where t1: "place_file demo_env ?t [''d'', ''a''] ''x'' = (None, t1)" "file_at t1 [''d'', ''a''] = Some ''x''"
  proof
    let ?t1 = "[([''.git''], DirNode), ([''d''], DirNode), ([''d'', ''a''], FileNode ''x'')]"
    have "MkdirAll False ?t (butlast [''d'', ''a'']) = Some [([''.git''], DirNode), ([''d''], DirNode)]"
      "atomicWriteFile False [([''.git''], DirNode), ([''d''], DirNode)] [''d'', ''a''] ''x'' = Some ?t1" by code_simp+
    then show "place_file demo_env ?t [''d'', ''a''] ''x'' = (None, ?t1)" by (simp add: place_file_def demo_env_def)
    show "file_at ?t1 [''d'', ''a''] = Some ''x''" by code_simp
  qed
  let ?e = "op_entry demo_cfg demo_env ''n'' ''p'' ''write'' ''d/a'' [] ''x''" and ?w = "empty_world\<lparr>w_tree := t1\<rparr>"
  obtain w1 where a: "wal_append demo_env ?e ?w = (None, w1)" "w_tree w1 = w_tree ?w"
    "logged_entry (w_wal ?w) (w_wal w1) = Some (fill_entry (l_nextSeq (w_wal ?w)) 5 ?e)"
    by (rule demo_append)
  have et: "w_tree empty_world = ?t" "oe_lock demo_env = False" by (simp_all add: empty_world_def demo_env_def)
  have "write_section demo_cfg demo_env ''n'' ''p'' [''d'', ''a''] ''d/a'' None False (\<lambda>c. Inr ''x'') empty_world =
      (Inr (sha256Hex ''x''), vectorEnqueue demo_cfg ''d/a'' ''x'' (indexPut demo_cfg demo_env ''d/a'' ''x'' (sha256Hex ''x'')
        (catalogPut demo_cfg demo_env ''d/a'' (sha256Hex ''x'') (length ''x'') w1)))"
    using t1(1) a(1) by (simp add: write_section_def et mismatch_def Let_def)
  then obtain etag w2 where ws: "write_section demo_cfg demo_env ''n'' ''p'' [''d'', ''a''] ''d/a'' None False (\<lambda>c. Inr ''x'') empty_world =
      (Inr etag, w2)" "w_tree w2 = t1" "w_wal w2 = w_wal w1"
    using a(2) by simp
  have op: "run_op demo_cfg demo_env ''n'' ''p'' (OpWriteFile ''d/a'' ''x'' None) empty_world =
      (None, add_notice ''file.write'' ''d/a'' [] w2)"
    by (simp add: Write_def writeTransformed_def demo_path r cw et ws left_error_def)
  let ?f = "fill_entry (l_nextSeq (w_wal ?w)) 5 ?e"
  show thesis
  proof
    show "run_ops demo_cfg ''n'' ''p'' [(demo_env, OpWriteFile ''d/a'' ''x'' None)] empty_world =
        ([None], [?f], add_notice ''file.write'' ''d/a'' [] w2)"
      using a(3) ws(3) by (simp add: op del: run_op.simps)
    show "file_at (w_tree (add_notice ''file.write'' ''d/a'' [] w2)) [''d'', ''a''] = Some ''x''" using ws(2) t1(2) by simp
  qed (simp_all add: fill_entry_def op_entry_def Let_def)
qed

theorem git_follows_tree_witness:
  "\<exists>w' p' e. run_ops demo_cfg ''n'' ''p'' [(demo_env, OpWriteFile ''d/a'' ''x'' None)] empty_world = ([None], [e], w') \<and>
     run_commits plain_lib plain_dl plain_cfg [(plain_call, e)] new_project = ([e], p') \<and>
     head_files plain_lib p' [''d'', ''a''] = Some (Regular, OBlob ''x'')"
proof -
  obtain w' e where o: "run_ops demo_cfg ''n'' ''p'' [(demo_env, OpWriteFile ''d/a'' ''x'' None)] empty_world = ([None], [e], w')"
    "file_at (w_tree w') [''d'', ''a''] = Some ''x''" "e_Op e = ''write''" "e_Path e = ''d/a''" "e_Content e = ''x''"
    by (rule empty_world_write)
  obtain p' where c: "run_commits plain_lib plain_dl plain_cfg [(plain_call, e)] new_project = ([e], p')"
    using write_committed [OF o(3-5), of "Some []"] new_project_log
    by (cases "commitEntry plain_lib plain_dl plain_cfg plain_call e new_project") simp
  have wt: "wt_ok (w_tree empty_world)" by (rule wt_ok_check) (simp add: empty_world_def ancestors_def)
  have "plain_head (pj_refs new_project) = None" by (simp add: plain_head_def HEAD_def new_project_def)
  then have "head_files plain_lib new_project q = None" for q
    using tree_file_zero [of "cl_git plain_lib"] by (simp add: head_files_def head_tree_def head_base_def plain_lib_def)
  then have ag: "agrees (cl_git plain_lib) (w_tree empty_world) (head_files plain_lib new_project)"
    by (intro agreesI) (simp add: empty_world_def file_at_def node_at_def)
  have "agrees (cl_git plain_lib) (w_tree w') (head_files plain_lib p')"
    by (rule git_follows_tree [OF plain_lib_ok new_project_ok demo_base wt ag o(1) _ c])
      (simp_all add: split_error_def first_write_ok)
  from agreesD [OF this, of "[''d'', ''a'']"] o(2)
  have "head_files plain_lib p' [''d'', ''a''] = Some (Regular, OBlob ''x'')" by (simp add: plain_lib_def)
  with o(1) c show ?thesis by blast
qed

end
